(* ===== verification/Prelude.thy ===== *)
theory Prelude
  imports Main "HOL-Library.Word" "HOL-Library.Monad_Syntax"
begin

text \<open>
  Shared vocabulary of the development: the machine integer types of the C++ sources, memory
  blocks as byte lists with checked loads and stores, the option monad in which undefined
  behaviour (an access outside the memory block) is \<open>None\<close>, and the generic lemmas on
  lists, words and runs that the component theories use.
\<close>

unbundle bit_operations_syntax

type_synonym u8 = "8 word"
type_synonym u16 = "16 word"
type_synonym u32 = "32 word"
type_synonym u64 = "64 word"

text \<open>Rules that take a straight-line program apart, and unfolding rules of the memory layer.\<close>

named_theorems run_intros "introduction rules for straight-line programs"
named_theorems mem_simps "loads, stores and windows of memory blocks"

section \<open>Memory blocks\<close>

text \<open>
  A memory block is a list of bytes, a pointer into it an index. A load or store that leaves
  the block has no defined behaviour in C++ and is \<open>None\<close> here.
\<close>

definition window :: "'a list \<Rightarrow> nat \<Rightarrow> nat \<Rightarrow> 'a list" where
  "window mem p n = take n (drop p mem)"

definition blit :: "'a list \<Rightarrow> nat \<Rightarrow> 'a list \<Rightarrow> 'a list" where
  "blit mem p bs = take p mem @ bs @ drop (p + length bs) mem"

definition load :: "'a list \<Rightarrow> nat \<Rightarrow> nat \<Rightarrow> 'a list option" where
  "load mem p n = (if p + n \<le> length mem then Some (window mem p n) else None)"

definition store :: "'a list \<Rightarrow> nat \<Rightarrow> 'a list \<Rightarrow> 'a list option" where
  "store mem p bs = (if p + length bs \<le> length mem then Some (blit mem p bs) else None)"

definition mem_at :: "'a list \<Rightarrow> nat \<Rightarrow> 'a option" where
  "mem_at mem p = (if p < length mem then Some (mem ! p) else None)"

text \<open>A pointer may also lie before the block, hence the signed index.\<close>

definition deref :: "'a list \<Rightarrow> int \<Rightarrow> 'a option" where
  "deref mem i = (if 0 \<le> i then mem_at mem (nat i) else None)"

definition write_at :: "'a list \<Rightarrow> nat \<Rightarrow> 'a \<Rightarrow> 'a list option" where
  "write_at mem i x = (if i < length mem then Some (mem[i := x]) else None)"

text \<open>A loop over the positions of a grid.\<close>

fun visit_all :: "('p \<Rightarrow> 's \<Rightarrow> 's option) \<Rightarrow> 'p list \<Rightarrow> 's \<Rightarrow> 's option" where
  "visit_all f [] s = Some s"
| "visit_all f (p # ps) s = (case f p s of None \<Rightarrow> None | Some s \<Rightarrow> visit_all f ps s)"

lemma length_window [simp]: "p + n \<le> length mem \<Longrightarrow> length (window mem p n) = n"
  by (simp add: window_def)

lemma length_blit [simp]: "p + length bs \<le> length mem \<Longrightarrow> length (blit mem p bs) = length mem"
  by (simp add: blit_def)

lemma window_0 [simp]: "window mem p 0 = []"
  by (simp add: window_def)

lemma blit_Nil [simp]: "p \<le> length mem \<Longrightarrow> blit mem p [] = mem"
  by (simp add: blit_def)

lemma load_Some [mem_simps]: "p + n \<le> length mem \<Longrightarrow> load mem p n = Some (window mem p n)"
  by (simp add: load_def)

lemma store_Some [mem_simps]: "p + length bs \<le> length mem \<Longrightarrow> store mem p bs = Some (blit mem p bs)"
  by (simp add: store_def)

lemma mem_at_Some [mem_simps]: "p < length mem \<Longrightarrow> mem_at mem p = Some (mem ! p)"
  by (simp add: mem_at_def)

lemma nth_window: "i < n \<Longrightarrow> p + n \<le> length mem \<Longrightarrow> window mem p n ! i = mem ! (p + i)"
  by (simp add: window_def)

lemma nth_blit:
  assumes "p + length bs \<le> length mem" and "i < length mem"
  shows "blit mem p bs ! i = (if p \<le> i \<and> i < p + length bs then bs ! (i - p) else mem ! i)"
  using assms by (auto simp: blit_def nth_append min_def)

lemma window_append:
  assumes "window mem p (length (bs @ cs)) = bs @ cs"
    and "p + length (bs @ cs) \<le> length mem"
  shows "window mem p (length bs) = bs" and "window mem (p + length bs) (length cs) = cs"
proof -
  show "window mem p (length bs) = bs"
    using arg_cong [OF assms(1), of "take (length bs)"] assms(2)
    by (simp add: window_def min_def)
  show "window mem (p + length bs) (length cs) = cs"
    using arg_cong [OF assms(1), of "drop (length bs)"] assms(2)
    by (simp add: window_def drop_take add.commute)
qed

lemma window_middle:
  assumes "window mem p n = as @ bs @ cs" and "n = length (as @ bs @ cs)" and "p + n \<le> length mem"
  shows "window mem (p + length as) (length bs) = bs"
  using window_append [of mem p as "bs @ cs"] window_append(1) [of mem "p + length as" bs cs] assms
  by simp

lemma window_blit_same [simp]:
  "p + length bs \<le> length mem \<Longrightarrow> window (blit mem p bs) p (length bs) = bs"
  by (simp add: window_def blit_def)

lemma window_blit_other:
  assumes "p + length bs \<le> length mem" and "q + n \<le> length mem"
    and "q + n \<le> p \<or> p + length bs \<le> q"
  shows "window (blit mem p bs) q n = window mem q n"
  using assms
  by (intro nth_equalityI) (auto simp: nth_window nth_blit)

lemma blit_blit_append:
  assumes "p + length bs + length cs \<le> length mem"
  shows "blit (blit mem p bs) (p + length bs) cs = blit mem p (bs @ cs)"
  using assms by (simp add: blit_def add.assoc add.commute add.left_commute)

lemma window_window:
  "a + b \<le> n \<Longrightarrow> window (window mem p n) a b = window mem (p + a) b"
  by (simp add: window_def drop_take add.commute)

lemma window_add:
  "window mem p (a + b) = window mem p a @ window mem (p + a) b"
  by (simp add: window_def take_add add.commute)

text \<open>A pass that rewrites every position in place.\<close>

lemma visit_all_rewrite:
  assumes "distinct ps" and "inj_on ptr (set ps)" and "\<forall>p \<in> set ps. ptr p < length mem"
    and "\<forall>p \<in> set ps. f p (mem ! ptr p) = Some (h p)"
  shows "\<exists>mem'. visit_all (\<lambda>p mem. do { x \<leftarrow> mem_at mem (ptr p); y \<leftarrow> f p x; write_at mem (ptr p) y }) ps mem = Some mem' \<and>
    length mem' = length mem \<and> (\<forall>p \<in> set ps. mem' ! ptr p = h p) \<and>
    (\<forall>i. i \<notin> ptr ` set ps \<longrightarrow> mem' ! i = mem ! i)"
  using assms
proof (induction ps arbitrary: mem)
  case (Cons p ps)
  let ?mem = "mem[ptr p := h p]"
  have other: "?mem ! ptr q = mem ! ptr q" if "q \<in> set ps" for q
    using Cons.prems(1,2) that by (auto simp: inj_on_def nth_list_update)
  obtain mem' where m: "visit_all (\<lambda>p mem. do { x \<leftarrow> mem_at mem (ptr p); y \<leftarrow> f p x; write_at mem (ptr p) y }) ps ?mem = Some mem'"
    "length mem' = length mem" "\<forall>p \<in> set ps. mem' ! ptr p = h p" "\<forall>i. i \<notin> ptr ` set ps \<longrightarrow> mem' ! i = ?mem ! i"
    using Cons.IH [of ?mem] Cons.prems other by (auto simp: inj_on_def)
  have "ptr p \<notin> ptr ` set ps" using Cons.prems(1,2) by (auto simp: inj_on_def)
  then have "mem' ! ptr p = h p" using m(4) Cons.prems(3) by simp
  then show ?case
    using m Cons.prems(3,4) by (intro exI [of _ mem']) (auto simp: mem_at_def write_at_def)
qed simp

lemma visit_all_cong:
  "\<forall>p \<in> set ps. f p = g p \<Longrightarrow> visit_all f ps s = visit_all g ps s"
  by (induction ps arbitrary: s) (auto split: option.split)

lemma visit_all_cong_inv:
  assumes "I s" and "\<And>p s. p \<in> set ps \<Longrightarrow> I s \<Longrightarrow> f p s = g p s"
    and "\<And>p s s'. p \<in> set ps \<Longrightarrow> I s \<Longrightarrow> g p s = Some s' \<Longrightarrow> I s'"
  shows "visit_all f ps s = visit_all g ps s"
  using assms
proof (induction ps arbitrary: s)
  case (Cons p ps)
  have "visit_all f ps s' = visit_all g ps s'" if "g p s = Some s'" for s'
  proof (rule Cons.IH)
    show "I s'" using Cons.prems(1,3) that by (meson list.set_intros(1))
    show "f q t = g q t" if "q \<in> set ps" "I t" for q t using Cons.prems(2) that by (meson list.set_intros(2))
    show "I t'" if "q \<in> set ps" "I t" "g q t = Some t'" for q t t' using Cons.prems(3) that by (meson list.set_intros(2))
  qed
  then show ?case using Cons.prems(1,2) by (auto split: option.split)
qed simp

lemma visit_all_inv:
  assumes "I s" and "\<And>p s. p \<in> set ps \<Longrightarrow> I s \<Longrightarrow> \<exists>s'. f p s = Some s' \<and> I s'"
  shows "\<exists>s'. visit_all f ps s = Some s' \<and> I s'"
  using assms
proof (induction ps arbitrary: s)
  case (Cons p ps)
  obtain s1 where "f p s = Some s1" "I s1" using Cons.prems(2) [of p s] Cons.prems(1) by auto
  then show ?case using Cons.IH [of s1] Cons.prems(2) by auto
qed simp

lemma visit_all_append:
  "visit_all f (ps @ qs) s = (case visit_all f ps s of None \<Rightarrow> None | Some s \<Rightarrow> visit_all f qs s)"
  by (induction ps arbitrary: s) (auto split: option.split)

section \<open>Little-endian scalars\<close>

text \<open>
  \<open>memcpy\<close> and \<open>reinterpret_cast\<close> of a scalar expose its object representation; the code
  relies on a little-endian target (u-blox payloads are little-endian).
\<close>

definition sizeof :: "'a::len word \<Rightarrow> nat" where
  "sizeof _ = LENGTH('a) div 8"

definition to_bytes :: "'a::len word \<Rightarrow> u8 list" where
  "to_bytes w = map (\<lambda>i. ucast (drop_bit (8 * i) w)) [0..<LENGTH('a) div 8]"

fun of_bytes :: "u8 list \<Rightarrow> 'a::len word" where
  "of_bytes [] = 0"
| "of_bytes (b # bs) = ucast b OR push_bit 8 (of_bytes bs)"

lemma length_to_bytes [simp]: "length (to_bytes (w :: 'a::len word)) = sizeof w"
  by (simp add: to_bytes_def sizeof_def)

lemma bit_of_bytes:
  "bit (of_bytes bs :: 'a::len word) k \<longleftrightarrow>
     k < LENGTH('a) \<and> k div 8 < length bs \<and> bit (bs ! (k div 8)) (k mod 8)"
proof (induction bs arbitrary: k)
  case Nil
  then show ?case by simp
next
  case (Cons b bs)
  show ?case
  proof (cases "k < 8")
    case True
    then show ?thesis by (auto simp: bit_simps)
  next
    case False
    then have "k div 8 = Suc ((k - 8) div 8)" and "k mod 8 = (k - 8) mod 8"
      by (simp_all add: le_div_geq le_mod_geq)
    moreover have "\<not> bit b k"
      using False bit_imp_le_length [of b k] by auto
    ultimately show ?thesis
      using False Cons.IH [of "k - 8"] by (auto simp: bit_simps)
  qed
qed

lemma of_bytes_to_bytes [simp]:
  assumes "LENGTH('a) = 8 * sizeof w"
  shows "of_bytes (to_bytes (w :: 'a::len word)) = w"
proof (rule bit_word_eqI)
  fix k assume k: "k < LENGTH('a)"
  then have "k div 8 < sizeof w" using assms by auto
  moreover have "8 * (k div 8) + k mod 8 = k" by simp
  ultimately show "bit (of_bytes (to_bytes w) :: 'a word) k = bit w k"
    using k by (simp add: bit_of_bytes to_bytes_def bit_simps sizeof_def)
qed

lemma sizeof_u8 [simp]: "sizeof (w :: u8) = 1" by (simp add: sizeof_def)
lemma sizeof_u16 [simp]: "sizeof (w :: u16) = 2" by (simp add: sizeof_def)
lemma sizeof_u32 [simp]: "sizeof (w :: u32) = 4" by (simp add: sizeof_def)
lemma sizeof_u64 [simp]: "sizeof (w :: u64) = 8" by (simp add: sizeof_def)

section \<open>Straight-line programs\<close>

text \<open>A statement list, executed in order; \<open>None\<close> aborts.\<close>

fun run :: "('s \<Rightarrow> 's option) list \<Rightarrow> 's \<Rightarrow> 's option" where
  "run [] s = Some s"
| "run (f # fs) s = (case f s of None \<Rightarrow> None | Some s' \<Rightarrow> run fs s')"

lemma run_append: "run (fs @ gs) s = (case run fs s of None \<Rightarrow> None | Some s' \<Rightarrow> run gs s')"
  by (induction fs arbitrary: s) (auto split: option.splits)

end
