(* ===== verification/Ubx_Stream.thy ===== *)
theory Ubx_Stream
  imports Prelude
begin

text \<open>
  The byte streams of \<open>ublox_serialization/serialization.hpp\<close>: the cursor
  \<open>UbloxStream\<close>, the scalar and \<open>std::array\<close> serialisers, and the calculus with which the
  message theories prove that a reader inverts a writer. A message type is modelled by a record;
  a \<open>read\<close> is a list of statements over a stream and the message under construction, a
  \<open>write\<close> a list of statements over a stream. The locale \<open>ubx_message\<close> is the interface
  \<open>UbloxSerializer<T>\<close> offers to \<open>Reader\<close> and \<open>Writer\<close>.
\<close>

section \<open>The cursor\<close>

text \<open>
  \<open>data_\<close> and \<open>end_\<close> are pointers into one memory block. \<open>advance\<close> moves the cursor and
  only compares it with \<open>end_\<close>: the branch for an overrun is empty in the source, so nothing
  stops a serialiser from leaving \<open>[data_, end_)\<close>; what stops it here is the memory block.
\<close>

record ubx_stream =
  smem :: "u8 list"
  sdata :: nat
  send :: nat

definition UbloxStream :: "u8 list \<Rightarrow> nat \<Rightarrow> nat \<Rightarrow> ubx_stream" where
  "UbloxStream mem data count = \<lparr>smem = mem, sdata = data, send = data + count\<rparr>"

definition advance :: "nat \<Rightarrow> ubx_stream \<Rightarrow> nat \<times> ubx_stream" where
  "advance len s = (sdata s, s\<lparr>sdata := sdata s + len\<rparr>)"

definition getLength :: "ubx_stream \<Rightarrow> u32" where
  "getLength s = word_of_int (int (send s) - int (sdata s))"

section \<open>Scalars and fixed-size arrays\<close>

definition read_scalar :: "ubx_stream \<Rightarrow> ('a::len word \<times> ubx_stream) option" where
  "read_scalar s =
     (let (p, s') = advance (LENGTH('a) div 8) s
      in case load (smem s) p (LENGTH('a) div 8) of
           None \<Rightarrow> None
         | Some bs \<Rightarrow> Some (of_bytes bs, s'))"

definition write_scalar :: "'a::len word \<Rightarrow> ubx_stream \<Rightarrow> ubx_stream option" where
  "write_scalar v s =
     (let (p, s') = advance (sizeof v) s
      in case store (smem s) p (to_bytes v) of
           None \<Rightarrow> None
         | Some mem' \<Rightarrow> Some (s'\<lparr>smem := mem'\<rparr>))"

text \<open>
  Arrays of \<open>N\<close> scalars are copied as one block: \<open>data_len = N * sizeof(T)\<close> bytes.
\<close>

fun elems_of_bytes :: "nat \<Rightarrow> u8 list \<Rightarrow> 'a::len word list" where
  "elems_of_bytes 0 bs = []"
| "elems_of_bytes (Suc n) bs =
     of_bytes (take (LENGTH('a) div 8) bs) # elems_of_bytes n (drop (LENGTH('a) div 8) bs)"

definition read_array :: "nat \<Rightarrow> ubx_stream \<Rightarrow> ('a::len word list \<times> ubx_stream) option" where
  "read_array N s =
     (let data_len = N * (LENGTH('a) div 8); (p, s') = advance data_len s
      in case load (smem s) p data_len of
           None \<Rightarrow> None
         | Some bs \<Rightarrow> Some (elems_of_bytes N bs, s'))"

definition write_array :: "'a::len word list \<Rightarrow> ubx_stream \<Rightarrow> ubx_stream option" where
  "write_array v s =
     (let bs = concat (map to_bytes v); (p, s') = advance (length bs) s
      in case store (smem s) p bs of
           None \<Rightarrow> None
         | Some mem' \<Rightarrow> Some (s'\<lparr>smem := mem'\<rparr>))"

section \<open>Statements\<close>

text \<open>
  \<open>stream.next(m.f)\<close> on an input stream reads into the field whose update function is
  \<open>f_update\<close>; on an output stream it writes a value. \<open>elem f i\<close> is the element \<open>f[i]\<close> of a
  field that holds an array.
\<close>

definition next_in ::
  "(('a::len word \<Rightarrow> 'a word) \<Rightarrow> 'm \<Rightarrow> 'm) \<Rightarrow> ubx_stream \<times> 'm \<Rightarrow> (ubx_stream \<times> 'm) option" where
  "next_in upd = (\<lambda>(s, m).
     case read_scalar s of None \<Rightarrow> None | Some (v, s') \<Rightarrow> Some (s', upd (\<lambda>_. v) m))"

definition next_in_arr ::
  "nat \<Rightarrow> (('a::len word list \<Rightarrow> 'a word list) \<Rightarrow> 'm \<Rightarrow> 'm) \<Rightarrow>
   ubx_stream \<times> 'm \<Rightarrow> (ubx_stream \<times> 'm) option" where
  "next_in_arr N upd = (\<lambda>(s, m).
     case read_array N s of None \<Rightarrow> None | Some (v, s') \<Rightarrow> Some (s', upd (\<lambda>_. v) m))"

definition elem ::
  "(('a list \<Rightarrow> 'a list) \<Rightarrow> 'm \<Rightarrow> 'm) \<Rightarrow> nat \<Rightarrow> ('a \<Rightarrow> 'a) \<Rightarrow> 'm \<Rightarrow> 'm" where
  "elem upd i = (\<lambda>f. upd (\<lambda>xs. xs[i := f (xs ! i)]))"

definition next_out :: "'a::len word \<Rightarrow> ubx_stream \<Rightarrow> ubx_stream option" where
  "next_out v = write_scalar v"

definition next_out_arr :: "'a::len word list \<Rightarrow> ubx_stream \<Rightarrow> ubx_stream option" where
  "next_out_arr v = write_array v"

text \<open>An assignment that touches only the message, and a plain branch.\<close>

definition assign :: "('m \<Rightarrow> 'm) \<Rightarrow> 's \<times> 'm \<Rightarrow> ('s \<times> 'm) option" where
  "assign g = (\<lambda>(s, m). Some (s, g m))"

text \<open>
  \<open>v.resize(n)\<close> keeps a prefix and fills up with default elements \<open>d\<close>. The two loops of the
  message serialisers: deserialise every element of a (resized) vector in place, and serialise
  every element of a vector. \<open>R\<close> and \<open>W\<close> are the statements of the element type.
\<close>

definition resize :: "'b \<Rightarrow> nat \<Rightarrow> 'b list \<Rightarrow> 'b list" where
  "resize d n xs = take n xs @ replicate (n - length xs) d"

fun read_each ::
  "(ubx_stream \<times> 'b \<Rightarrow> (ubx_stream \<times> 'b) option) list \<Rightarrow> 'b list \<Rightarrow> ubx_stream \<Rightarrow>
   ('b list \<times> ubx_stream) option" where
  "read_each R [] s = Some ([], s)"
| "read_each R (x # xs) s =
     (case run R (s, x) of
        None \<Rightarrow> None
      | Some (s', y) \<Rightarrow>
          (case read_each R xs s' of
             None \<Rightarrow> None
           | Some (ys, s'') \<Rightarrow> Some (y # ys, s'')))"

text \<open>
  \<open>std::vector\<close> refuses sizes above \<open>max_size()\<close> (an exception); any bound between the
  sizes a 32-bit count can ask for and the address space will do.
\<close>

definition max_vector :: nat where
  "max_vector = 2 ^ 60"

definition resize_to ::
  "'b \<Rightarrow> ('m \<Rightarrow> nat) \<Rightarrow> (('b list \<Rightarrow> 'b list) \<Rightarrow> 'm \<Rightarrow> 'm) \<Rightarrow> 's \<times> 'm \<Rightarrow> ('s \<times> 'm) option" where
  "resize_to d cnt upd = (\<lambda>(s, m).
     if cnt m \<le> max_vector then Some (s, upd (resize d (cnt m)) m) else None)"

definition next_in_each ::
  "(ubx_stream \<times> 'b \<Rightarrow> (ubx_stream \<times> 'b) option) list \<Rightarrow> ('m \<Rightarrow> 'b list) \<Rightarrow>
   (('b list \<Rightarrow> 'b list) \<Rightarrow> 'm \<Rightarrow> 'm) \<Rightarrow> ubx_stream \<times> 'm \<Rightarrow> (ubx_stream \<times> 'm) option" where
  "next_in_each R sel upd = (\<lambda>(s, m).
     case read_each R (sel m) s of
       None \<Rightarrow> None
     | Some (ys, s') \<Rightarrow> Some (s', upd (\<lambda>_. ys) m))"

definition next_out_each ::
  "('b \<Rightarrow> (ubx_stream \<Rightarrow> ubx_stream option) list) \<Rightarrow> 'b list \<Rightarrow> ubx_stream \<Rightarrow> ubx_stream option" where
  "next_out_each W xs = run (concat (map W xs))"

text \<open>Vectors of scalars, and \<open>stream.next(temp); v.push_back(temp)\<close>.\<close>

definition scalar_in :: "(ubx_stream \<times> 'a::len word \<Rightarrow> (ubx_stream \<times> 'a word) option) list" where
  "scalar_in = [next_in (\<lambda>f. f)]"

definition scalar_out :: "'a::len word \<Rightarrow> (ubx_stream \<Rightarrow> ubx_stream option) list" where
  "scalar_out v = [next_out v]"

definition next_push ::
  "(('a::len word list \<Rightarrow> 'a word list) \<Rightarrow> 'm \<Rightarrow> 'm) \<Rightarrow> ubx_stream \<times> 'm \<Rightarrow> (ubx_stream \<times> 'm) option" where
  "next_push upd = (\<lambda>(s, m).
     case read_scalar s of None \<Rightarrow> None | Some (v, s') \<Rightarrow> Some (s', upd (\<lambda>xs. xs @ [v]) m))"

text \<open>A block of statements under a condition on the message read so far.\<close>

definition branch :: "('m \<Rightarrow> bool) \<Rightarrow> ('s \<times> 'm \<Rightarrow> ('s \<times> 'm) option) list \<Rightarrow> 's \<times> 'm \<Rightarrow> ('s \<times> 'm) option" where
  "branch c fs = (\<lambda>(s, m). if c m then run fs (s, m) else Some (s, m))"

text \<open>The frame every \<open>read\<close> and \<open>write\<close> of a message type has.\<close>

definition read_msg ::
  "(ubx_stream \<times> 'm \<Rightarrow> (ubx_stream \<times> 'm) option) list \<Rightarrow> u8 list \<Rightarrow> nat \<Rightarrow> u32 \<Rightarrow> 'm \<Rightarrow> 'm option" where
  "read_msg R mem data count m = map_option snd (run R (UbloxStream mem data (unat count), m))"

definition write_msg ::
  "(ubx_stream \<Rightarrow> ubx_stream option) list \<Rightarrow> u8 list \<Rightarrow> nat \<Rightarrow> u32 \<Rightarrow> u8 list option" where
  "write_msg W mem data sz = map_option smem (run W (UbloxStream mem data (unat sz)))"

section \<open>Readers that invert writers\<close>

text \<open>
  \<open>transfers R W n m0 m\<close>: the statements \<open>W\<close> write some \<open>n\<close> bytes, and \<open>R\<close>, started on
  a stream whose next \<open>n\<close> bytes are these, turns the message \<open>m0\<close> into \<open>m\<close>.
\<close>

definition writes :: "(ubx_stream \<Rightarrow> ubx_stream option) \<Rightarrow> u8 list \<Rightarrow> bool" where
  "writes f bs \<longleftrightarrow> (\<forall>s. sdata s + length bs \<le> length (smem s) \<longrightarrow>
     f s = Some (s\<lparr>smem := blit (smem s) (sdata s) bs, sdata := sdata s + length bs\<rparr>))"

definition reads :: "(ubx_stream \<times> 'm \<Rightarrow> (ubx_stream \<times> 'm) option) \<Rightarrow> u8 list \<Rightarrow> 'm \<Rightarrow> 'm \<Rightarrow> bool" where
  "reads f bs m0 m \<longleftrightarrow> (\<forall>s. sdata s + length bs \<le> length (smem s) \<longrightarrow>
     window (smem s) (sdata s) (length bs) = bs \<longrightarrow>
     f (s, m0) = Some (s\<lparr>sdata := sdata s + length bs\<rparr>, m))"

definition transfers ::
  "(ubx_stream \<times> 'm \<Rightarrow> (ubx_stream \<times> 'm) option) list \<Rightarrow> (ubx_stream \<Rightarrow> ubx_stream option) list \<Rightarrow>
   nat \<Rightarrow> 'm \<Rightarrow> 'm \<Rightarrow> bool" where
  "transfers R W n m0 m \<longleftrightarrow>
     (\<exists>bs. length bs = n \<and> writes (run W) bs \<and> reads (run R) bs m0 m)"

lemma writes_Nil: "writes (run []) []" and writes_Some: "writes Some []"
  by (simp_all add: writes_def)

lemma writes_Cons:
  assumes f: "writes f bs" and W: "writes (run W) cs"
  shows "writes (run (f # W)) (bs @ cs)"
  unfolding writes_def
proof (intro allI impI)
  fix s :: ubx_stream assume room: "sdata s + length (bs @ cs) \<le> length (smem s)"
  let ?s' = "s\<lparr>smem := blit (smem s) (sdata s) bs, sdata := sdata s + length bs\<rparr>"
  have "f s = Some ?s'"
    using f room by (simp add: writes_def)
  moreover have "run W ?s' = Some (s\<lparr>smem := blit (smem s) (sdata s) (bs @ cs),
      sdata := sdata s + length (bs @ cs)\<rparr>)"
    using W room by (simp add: writes_def blit_blit_append)
  ultimately show "run (f # W) s = Some (s\<lparr>smem := blit (smem s) (sdata s) (bs @ cs),
      sdata := sdata s + length (bs @ cs)\<rparr>)"
    by simp
qed

lemma reads_Nil: "reads (run []) [] m m"
  by (simp add: reads_def)

lemma reads_Cons:
  assumes f: "reads f bs m0 m1" and R: "reads (run R) cs m1 m"
  shows "reads (run (f # R)) (bs @ cs) m0 m"
  unfolding reads_def
proof (intro allI impI)
  fix s :: ubx_stream
  assume room: "sdata s + length (bs @ cs) \<le> length (smem s)"
    and win: "window (smem s) (sdata s) (length (bs @ cs)) = bs @ cs"
  have wb: "window (smem s) (sdata s) (length bs) = bs"
    and wc: "window (smem s) (sdata s + length bs) (length cs) = cs"
    using win room by (rule window_append)+
  have "f (s, m0) = Some (s\<lparr>sdata := sdata s + length bs\<rparr>, m1)"
    using f wb room by (simp add: reads_def)
  moreover have "run R (s\<lparr>sdata := sdata s + length bs\<rparr>, m1)
      = Some (s\<lparr>sdata := sdata s + length (bs @ cs)\<rparr>, m)"
    using R wc room by (simp add: reads_def add.assoc)
  ultimately show "run (f # R) (s, m0) = Some (s\<lparr>sdata := sdata s + length (bs @ cs)\<rparr>, m)"
    by simp
qed

lemma writes_scalar: "writes (next_out v) (to_bytes v)"
  by (simp add: writes_def next_out_def write_scalar_def advance_def mem_simps)

lemma reads_scalar:
  fixes v :: "'a::len word"
  assumes "LENGTH('a) = 8 * sizeof v"
  shows "reads (next_in f) (to_bytes v) m (f (\<lambda>_. v) m)"
proof -
  have "LENGTH('a) div 8 = sizeof v" by (simp add: sizeof_def)
  then show ?thesis
    using assms by (simp add: reads_def next_in_def read_scalar_def advance_def mem_simps)
qed

lemma transfers_Nil [run_intros]: "m0 = m \<Longrightarrow> transfers [] [] 0 m0 m"
  unfolding transfers_def using writes_Nil reads_Nil by (metis list.size(3))

lemma transfers_next [run_intros]:
  fixes v :: "'a::len word"
  assumes "transfers R W n (f (\<lambda>_. v) m0) m" and "LENGTH('a) = 8 * sizeof v"
  shows "transfers (next_in f # R) (next_out v # W) (sizeof v + n) m0 m"
proof -
  obtain bs where bs: "length bs = n" "writes (run W) bs" "reads (run R) bs (f (\<lambda>_. v) m0) m"
    using assms(1) by (auto simp: transfers_def)
  show ?thesis
    unfolding transfers_def
    using bs writes_Cons [OF writes_scalar bs(2)]
      reads_Cons [OF reads_scalar [OF assms(2), of f m0] bs(3)]
    by (intro exI [of _ "to_bytes v @ bs"]) simp
qed

lemma transfers_assign [run_intros]:
  assumes "transfers R W n (g m0) m"
  shows "transfers (assign g # R) W n m0 m"
proof -
  have "reads (assign g) [] m0 (g m0)"
    by (simp add: reads_def assign_def)
  then show ?thesis
    using assms reads_Cons [of "assign g" "[]" m0 "g m0"]
    unfolding transfers_def by force
qed


lemma transfers_resize_to [run_intros]:
  assumes "transfers R W n (upd (resize d (cnt m0)) m0) m" and "cnt m0 \<le> max_vector"
  shows "transfers (resize_to d cnt upd # R) W n m0 m"
proof -
  have "resize_to d cnt upd (s, m0) = assign (upd (resize d (cnt m0))) (s, m0)" for s :: ubx_stream
    using assms(2) by (simp add: resize_to_def assign_def)
  then show ?thesis
    using transfers_assign [where g = "upd (resize d (cnt m0))", OF assms(1)]
    by (simp add: transfers_def reads_def)
qed

lemma transfers_push [run_intros]:
  fixes v :: "'a::len word"
  assumes "transfers R W n (upd (\<lambda>xs. xs @ [v]) m0) m" and "LENGTH('a) = 8 * sizeof v"
  shows "transfers (next_push upd # R) (next_out v # W) (sizeof v + n) m0 m"
proof -
  have "next_push upd (s, m0) = next_in (\<lambda>f. upd (\<lambda>xs. xs @ [f undefined])) (s, m0)"
    for s :: ubx_stream
    by (simp add: next_push_def next_in_def)
  then show ?thesis
    using transfers_next [of R W n "\<lambda>f. upd (\<lambda>xs. xs @ [f undefined])" v m0 m] assms
    by (simp add: transfers_def reads_def)
qed

text \<open>Arrays: one block of \<open>N\<close> scalars.\<close>

lemma length_concat_to_bytes:
  "length (concat (map to_bytes (v :: 'a::len word list))) = length v * (LENGTH('a) div 8)"
  by (induction v) (simp_all add: sizeof_def)

lemma elems_of_bytes_concat:
  assumes "LENGTH('a::len) = 8 * (LENGTH('a) div 8)"
  shows "elems_of_bytes (length v) (concat (map to_bytes (v :: 'a word list))) = v"
  using assms by (induction v) (simp_all add: sizeof_def)

lemma writes_array: "writes (next_out_arr v) (concat (map to_bytes v))"
  by (simp add: writes_def next_out_arr_def write_array_def advance_def mem_simps Let_def)

lemma reads_array:
  fixes v :: "'a::len word list"
  assumes "LENGTH('a) = 8 * (LENGTH('a) div 8)" and "length v = N"
  shows "reads (next_in_arr N f) (concat (map to_bytes v)) m (f (\<lambda>_. v) m)"
proof -
  have "N * (LENGTH('a) div 8) = length (concat (map to_bytes v))"
    using assms(2) length_concat_to_bytes [of v] by simp
  then show ?thesis
    using assms(2) elems_of_bytes_concat [OF assms(1), of v]
    by (auto simp: reads_def next_in_arr_def read_array_def advance_def mem_simps Let_def)
qed

lemma transfers_next_arr [run_intros]:
  fixes v :: "'a::len word list"
  assumes "transfers R W n (f (\<lambda>_. v) m0) m" and "LENGTH('a) = 8 * (LENGTH('a) div 8)"
    and "length v = N"
  shows "transfers (next_in_arr N f # R) (next_out_arr v # W) (N * (LENGTH('a) div 8) + n) m0 m"
proof -
  obtain bs where bs: "length bs = n" "writes (run W) bs" "reads (run R) bs (f (\<lambda>_. v) m0) m"
    using assms(1) by (auto simp: transfers_def)
  show ?thesis
    unfolding transfers_def
    using bs assms(3) length_concat_to_bytes [of v] writes_Cons [OF writes_array bs(2), of v]
      reads_Cons [OF reads_array [OF assms(2,3), of f m0] bs(3)]
    by (intro exI [of _ "concat (map to_bytes v) @ bs"]) simp
qed

text \<open>Composition, and the loops over the elements of a vector.\<close>

lemma writes_append:
  "writes (run W) bs \<Longrightarrow> writes (run W') cs \<Longrightarrow> writes (run (W @ W')) (bs @ cs)"
  using writes_Cons [of "run W" bs W' cs]
  by (simp add: writes_def run_append)

lemma writes_run_single: "writes (run W) bs \<Longrightarrow> writes (\<lambda>s. run W s) bs"
  by simp

lemma transfers_each_aux:
  assumes "list_all2 (\<lambda>x0 x. transfers Rb (Wb x) k x0 x) xs0 xs"
  shows "\<exists>bs. length bs = k * length xs \<and> writes (run (concat (map Wb xs))) bs \<and>
     (\<forall>s. sdata s + length bs \<le> length (smem s) \<longrightarrow>
        window (smem s) (sdata s) (length bs) = bs \<longrightarrow>
        read_each Rb xs0 s = Some (xs, s\<lparr>sdata := sdata s + length bs\<rparr>))"
  using assms
proof (induction xs0 xs rule: list_all2_induct)
  case Nil
  then show ?case by (intro exI [of _ "[]"]) (simp add: writes_Some)
next
  case (Cons x0 xs0 x xs)
  obtain bs where bs: "length bs = k" "writes (run (Wb x)) bs" "reads (run Rb) bs x0 x"
    using Cons.hyps(1) by (auto simp: transfers_def)
  obtain cs where cs: "length cs = k * length xs" "writes (run (concat (map Wb xs))) cs"
    and rd: "\<And>s. sdata s + length cs \<le> length (smem s) \<Longrightarrow>
        window (smem s) (sdata s) (length cs) = cs \<Longrightarrow>
        read_each Rb xs0 s = Some (xs, s\<lparr>sdata := sdata s + length cs\<rparr>)"
    using Cons.IH by auto
  have "read_each Rb (x0 # xs0) s = Some (x # xs, s\<lparr>sdata := sdata s + length (bs @ cs)\<rparr>)"
    if room: "sdata s + length (bs @ cs) \<le> length (smem s)"
      and win: "window (smem s) (sdata s) (length (bs @ cs)) = bs @ cs" for s :: ubx_stream
  proof -
    note w = window_append [OF win room]
    have "run Rb (s, x0) = Some (s\<lparr>sdata := sdata s + length bs\<rparr>, x)"
      using bs(3) w(1) room by (simp add: reads_def)
    then show ?thesis
      using rd [of "s\<lparr>sdata := sdata s + length bs\<rparr>"] w(2) room by (simp add: add.assoc)
  qed
  then show ?case
    using bs cs writes_append [OF bs(2) cs(2)]
    by (intro exI [of _ "bs @ cs"]) (simp add: algebra_simps)
qed

lemma transfers_each:
  assumes "transfers R W n (upd (\<lambda>_. xs) m0) m"
    and "list_all2 (\<lambda>x0 x. transfers Rb (Wb x) k x0 x) (sel m0) xs"
  shows "transfers (next_in_each Rb sel upd # R) (next_out_each Wb xs # W)
    (k * length xs + n) m0 m"
proof -
  obtain bs where bs: "length bs = n" "writes (run W) bs" "reads (run R) bs (upd (\<lambda>_. xs) m0) m"
    using assms(1) by (auto simp: transfers_def)
  obtain cs where cs: "length cs = k * length xs" "writes (run (concat (map Wb xs))) cs"
    and rd: "\<And>s. sdata s + length cs \<le> length (smem s) \<Longrightarrow>
        window (smem s) (sdata s) (length cs) = cs \<Longrightarrow>
        read_each Rb (sel m0) s = Some (xs, s\<lparr>sdata := sdata s + length cs\<rparr>)"
    using transfers_each_aux [OF assms(2)] by auto
  have "writes (next_out_each Wb xs) cs"
    using cs(2) by (simp add: writes_def next_out_each_def)
  moreover have "reads (next_in_each Rb sel upd) cs m0 (upd (\<lambda>_. xs) m0)"
    using rd by (simp add: reads_def next_in_each_def)
  ultimately show ?thesis
    unfolding transfers_def
    using bs cs(1) writes_Cons reads_Cons
    by (intro exI [of _ "cs @ bs"]) fastforce
qed

text \<open>A vector of freshly resized elements meets the premise of \<open>transfers_each\<close>.\<close>

lemma length_resize [simp]: "length (resize d n xs) = n"
  by (simp add: resize_def)

lemma list_all2_allI:
  "length xs = length ys \<Longrightarrow> (\<And>x y. x \<in> set xs \<Longrightarrow> y \<in> set ys \<Longrightarrow> P x y) \<Longrightarrow> list_all2 P xs ys"
  by (auto simp: list_all2_conv_all_nth)

lemma transfers_scalar:
  fixes v :: "'a::len word"
  assumes "LENGTH('a) = 8 * sizeof v"
  shows "transfers scalar_in (scalar_out v) (sizeof v) x0 v"
  unfolding scalar_in_def scalar_out_def
  using transfers_next [OF transfers_Nil [OF refl] assms, of "\<lambda>f. f" x0] by simp

section \<open>The serialiser interface\<close>

text \<open>
  What \<open>Reader\<close> and \<open>Writer\<close> use of \<open>UbloxSerializer<T>\<close>: a read, a write and a length. The
  law says that on the messages satisfying \<open>ok\<close> the write stores exactly the announced number
  of bytes at the given position and the read, into any message of the right shape, gets the
  message back from them.
\<close>

locale ubx_message =
  fixes rd :: "u8 list \<Rightarrow> nat \<Rightarrow> u32 \<Rightarrow> 'm \<Rightarrow> 'm option"
    and wr :: "u8 list \<Rightarrow> nat \<Rightarrow> u32 \<Rightarrow> 'm \<Rightarrow> u8 list option"
    and len :: "'m \<Rightarrow> u32"
    and ok :: "'m \<Rightarrow> bool"
    and shape :: "'m \<Rightarrow> bool"
  assumes codec: "ok m \<Longrightarrow> \<exists>bs. length bs = unat (len m) \<and>
     (\<forall>mem d sz. d + length bs \<le> length mem \<longrightarrow> wr mem d sz m = Some (blit mem d bs)) \<and>
     (\<forall>mem d m0. shape m0 \<longrightarrow> d + length bs \<le> length mem \<longrightarrow>
        window mem d (length bs) = bs \<longrightarrow> rd mem d (len m) m0 = Some m)"
begin

lemma write_read:
  assumes "ok m" and "shape m0" and "d + unat (len m) \<le> length mem"
  obtains bs where "length bs = unat (len m)" and "wr mem d sz m = Some (blit mem d bs)"
    and "\<And>mem' d'. d' + length bs \<le> length mem' \<Longrightarrow> window mem' d' (length bs) = bs \<Longrightarrow>
           rd mem' d' (len m) m0 = Some m"
proof -
  obtain bs where "length bs = unat (len m)"
    and "\<And>mem d sz. d + length bs \<le> length mem \<Longrightarrow> wr mem d sz m = Some (blit mem d bs)"
    and "\<And>mem d m0. shape m0 \<Longrightarrow> d + length bs \<le> length mem \<Longrightarrow>
        window mem d (length bs) = bs \<Longrightarrow> rd mem d (len m) m0 = Some m"
    using codec [OF assms(1)] by blast
  then show thesis
    using assms(2,3) that by (metis (no_types))
qed

lemma roundtrip_in_place:
  assumes "ok m" and "shape m0" and "d + unat (len m) \<le> length mem"
  shows "\<exists>mem'. wr mem d sz m = Some mem' \<and> length mem' = length mem \<and>
    rd mem' d (len m) m0 = Some m"
proof -
  obtain bs where bs: "length bs = unat (len m)" "wr mem d sz m = Some (blit mem d bs)"
    and rd: "\<And>mem' d'. d' + length bs \<le> length mem' \<Longrightarrow> window mem' d' (length bs) = bs \<Longrightarrow>
           rd mem' d' (len m) m0 = Some m"
    using write_read [OF assms] by blast
  have "rd (blit mem d bs) d (len m) m0 = Some m"
    using assms(3) bs(1) window_blit_same [of d bs mem] by (intro rd) simp_all
  then show ?thesis using bs assms(3) by auto
qed

end

lemma writes_unique:
  assumes "writes f bs" and "writes f cs"
  shows "bs = cs"
proof -
  obtain mem :: "u8 list" where room: "length bs \<le> length mem" "length cs \<le> length mem"
    using that [of "replicate (length bs + length cs) 0"] by simp
  let ?s = "\<lparr>smem = mem, sdata = 0, send = 0\<rparr>"
  have "f ?s = Some (?s\<lparr>smem := blit mem 0 bs, sdata := length bs\<rparr>)"
    using assms(1) room by (simp add: writes_def)
  moreover have "f ?s = Some (?s\<lparr>smem := blit mem 0 cs, sdata := length cs\<rparr>)"
    using assms(2) room by (simp add: writes_def)
  ultimately have "length bs = length cs" and "blit mem 0 bs = blit mem 0 cs"
    by simp_all
  moreover have "window (blit mem 0 bs) 0 (length bs) = bs"
    and "window (blit mem 0 cs) 0 (length cs) = cs"
    using room by simp_all
  ultimately show ?thesis by metis
qed

lemma transfers_codec:
  assumes rd: "\<And>mem d m0. rd mem d l m0 = read_msg R mem d l m0"
    and wr: "\<And>mem d sz. wr mem d sz m = write_msg W mem d sz"
    and tr: "\<And>m0. sh m0 \<Longrightarrow> transfers R W n m0 m"
    and l: "unat l = n" and sh: "sh m"
  shows "\<exists>bs. length bs = unat l \<and>
     (\<forall>mem d sz. d + length bs \<le> length mem \<longrightarrow> wr mem d sz m = Some (blit mem d bs)) \<and>
     (\<forall>mem d m0. sh m0 \<longrightarrow> d + length bs \<le> length mem \<longrightarrow>
        window mem d (length bs) = bs \<longrightarrow> rd mem d l m0 = Some m)"
proof -
  obtain bs where bs: "length bs = n" "writes (run W) bs"
    using tr sh by (auto simp: transfers_def)
  have "reads (run R) bs m0 m" if "sh m0" for m0
    using tr [OF that] bs(2) writes_unique by (metis transfers_def)
  then show ?thesis
    using bs l
    by (intro exI [of _ bs])
      (simp add: wr rd writes_def reads_def read_msg_def write_msg_def UbloxStream_def)
qed

text \<open>
  A proof that a message type meets the interface: \<open>msg_codec\<close> splits the law into the
  transfer of the statements, the announced length and the shape; \<open>run_intros\<close> takes the
  statements apart.
\<close>

lemma transfers_eqn: "transfers R W k m0 m \<Longrightarrow> k = n \<Longrightarrow> transfers R W n m0 m"
  by simp

lemmas msg_codec = transfers_codec

text \<open>
  Vectors of blocks: \<open>shp\<close> is the shape of a block (the sizes of its fixed arrays), which every
  block of the message has and every default element too.
\<close>

lemma transfers_blocks:
  assumes "transfers R W n (upd (\<lambda>_. xs) m0) m"
    and "\<And>x0 x. shp x0 \<Longrightarrow> shp x \<Longrightarrow> transfers Rb (Wb x) k x0 x"
    and "list_all shp (sel m0)" and "list_all shp xs" and "length (sel m0) = length xs"
  shows "transfers (next_in_each Rb sel upd # R) (next_out_each Wb xs # W) (k * length xs + n) m0 m"
  using assms(1)
  by (rule transfers_each, intro list_all2_allI) (use assms in \<open>auto simp: list_all_iff\<close>)

lemma transfers_blocks_any:
  assumes "transfers R W n (upd (\<lambda>_. xs) m0) m"
    and "\<And>x0 x. transfers Rb (Wb x) k x0 x"
    and "length (sel m0) = length xs"
  shows "transfers (next_in_each Rb sel upd # R) (next_out_each Wb xs # W) (k * length xs + n) m0 m"
  using assms by (intro transfers_blocks [where shp = "\<lambda>_. True"]) (auto simp: list_all_iff)

lemma transfers_u8: "transfers scalar_in (scalar_out (v :: u8)) 1 x0 v"
  and transfers_u32: "transfers scalar_in (scalar_out (w :: u32)) 4 y0 w"
  using transfers_scalar [of v x0] transfers_scalar [of w y0] by simp_all

lemma list_all_resize [simp]: "list_all P xs \<Longrightarrow> P d \<Longrightarrow> list_all P (resize d n xs)"
  by (auto simp: resize_def list_all_iff dest: in_set_takeD)

text \<open>Lengths computed at 32 bits, with the bounds that keep them exact.\<close>

lemma unat_of_nat_len:
  "n < 2 ^ LENGTH('a) \<Longrightarrow> unat (of_nat n :: 'a::len word) = n"
  by (simp add: unat_of_nat)

lemma unat_len_byte:
  assumes "(numeral a + numeral b * 255 :: nat) < 2 ^ 32"
  shows "unat (numeral a + numeral b * ucast (w :: u8) :: u32) = numeral a + numeral b * unat w"
proof -
  have "unat w \<le> 255"
    using unsigned_less [of w, where ?'a = nat] by simp
  then have "numeral a + numeral b * unat w \<le> (numeral a + numeral b * 255 :: nat)"
    by (intro add_left_mono mult_left_mono) simp_all
  then have lt: "numeral a + numeral b * unat w < (2 ^ 32 :: nat)"
    using assms by (rule le_less_trans)
  have eq: "(numeral a + numeral b * ucast w :: u32) = of_nat (numeral a + numeral b * unat w)"
    by (simp add: unsigned_ucast_eq)
  show ?thesis
    unfolding eq by (rule unat_of_nat_len) (use lt in simp)
qed

lemma unat_len_list:
  assumes "(numeral a + numeral b * n :: nat) < 2 ^ 32"
  shows "unat (numeral a + numeral b * of_nat n :: u32) = numeral a + numeral b * n"
proof -
  have eq: "(numeral a + numeral b * of_nat n :: u32) = of_nat (numeral a + numeral b * n)"
    by simp
  show ?thesis
    unfolding eq by (rule unat_of_nat_len) (use assms in simp)
qed

lemma unat_mul_list:
  assumes "(numeral b * n :: nat) < 2 ^ 32"
  shows "unat (numeral b * of_nat n :: u32) = numeral b * n"
proof -
  have eq: "(numeral b * of_nat n :: u32) = of_nat (numeral b * n)"
    by simp
  show ?thesis
    unfolding eq by (rule unat_of_nat_len) (use assms in simp)
qed

lemma scast_small:
  assumes "unat (w :: u8) < 128"
  shows "scast w = (ucast w :: 'b::len word)"
proof -
  have "uint w = int (unat w)"
    by simp
  then have "uint w < 128"
    using assms by linarith
  moreover have "- 128 \<le> uint w"
    by (rule order_trans [of _ 0]) simp_all
  ultimately have "sint w = uint w"
    using signed_take_bit_int_eq_self [of 7 "uint w"] by (simp add: sint_uint)
  then show ?thesis
    by (simp only: scast_eq ucast_eq)
qed

lemma unat_ucast_byte: "unat (ucast (w :: u8) :: u64) = unat w"
proof -
  have "unat w < 2 ^ 64"
    using unsigned_less [of w, where ?'a = nat] by simp
  then show ?thesis
    by (simp add: unsigned_ucast_eq take_bit_nat_eq_self)
qed

lemma le_max_vector: "n < 2 ^ 16 \<Longrightarrow> n \<le> max_vector"
  by (simp add: max_vector_def)

lemma unat_le_max_vector:
  "unat (w :: u8) \<le> max_vector" "unat (v :: u32) \<le> max_vector"
  using unsigned_less [of w, where ?'a = nat] unsigned_less [of v, where ?'a = nat]
  by (simp_all add: max_vector_def)

text \<open>Filling a fixed-size array element by element.\<close>

lemma fill_list:
  assumes "length xs = n" and "length ys = n"
  shows "fold (\<lambda>i zs. zs[i := ys ! i]) [0..<n] xs = ys"
proof -
  have "fold (\<lambda>i zs. zs[i := ys ! i]) [0..<k] xs = take k ys @ drop k xs" if "k \<le> n" for k
    using that
  proof (induction k)
    case 0
    then show ?case by simp
  next
    case (Suc k)
    then show ?case
      using assms
      by (simp add: list_update_append take_Suc_conv_app_nth flip: Cons_nth_drop_Suc)
  qed
  from this [of n] show ?thesis using assms by simp
qed

lemma fill_2: "length xs = 2 \<Longrightarrow> length ys = 2 \<Longrightarrow>
   xs[0 := ys ! 0, Suc 0 := ys ! Suc 0] = ys"
  using fill_list [of xs 2 ys] by (simp add: upt_rec eval_nat_numeral)

lemma fill_3: "length xs = 3 \<Longrightarrow> length ys = 3 \<Longrightarrow>
   xs[0 := ys ! 0, Suc 0 := ys ! Suc 0, 2 := ys ! 2] = ys"
  using fill_list [of xs 3 ys] by (simp add: upt_rec eval_nat_numeral)

lemma fill_4: "length xs = 4 \<Longrightarrow> length ys = 4 \<Longrightarrow>
   xs[0 := ys ! 0, Suc 0 := ys ! Suc 0, 2 := ys ! 2, 3 := ys ! 3] = ys"
  using fill_list [of xs 4 ys] by (simp add: upt_rec eval_nat_numeral)

lemma fill_5: "length xs = 5 \<Longrightarrow> length ys = 5 \<Longrightarrow>
   xs[0 := ys ! 0, Suc 0 := ys ! Suc 0, 2 := ys ! 2, 3 := ys ! 3, 4 := ys ! 4] = ys"
  using fill_list [of xs 5 ys] by (simp add: upt_rec eval_nat_numeral)

lemma fill_6: "length xs = 6 \<Longrightarrow> length ys = 6 \<Longrightarrow>
   xs[0 := ys ! 0, Suc 0 := ys ! Suc 0, 2 := ys ! 2, 3 := ys ! 3, 4 := ys ! 4, 5 := ys ! 5] = ys"
  using fill_list [of xs 6 ys] by (simp add: upt_rec eval_nat_numeral)

lemma fill_7: "length xs = 7 \<Longrightarrow> length ys = 7 \<Longrightarrow>
   xs[0 := ys ! 0, Suc 0 := ys ! Suc 0, 2 := ys ! 2, 3 := ys ! 3, 4 := ys ! 4, 5 := ys ! 5,
     6 := ys ! 6] = ys"
  using fill_list [of xs 7 ys] by (simp add: upt_rec eval_nat_numeral)

lemma fill_8: "length xs = 8 \<Longrightarrow> length ys = 8 \<Longrightarrow>
   xs[0 := ys ! 0, Suc 0 := ys ! Suc 0, 2 := ys ! 2, 3 := ys ! 3, 4 := ys ! 4, 5 := ys ! 5,
     6 := ys ! 6, 7 := ys ! 7] = ys"
  using fill_list [of xs 8 ys] by (simp add: upt_rec eval_nat_numeral)

lemma fill_10: "length xs = 10 \<Longrightarrow> length ys = 10 \<Longrightarrow>
   xs[0 := ys ! 0, Suc 0 := ys ! Suc 0, 2 := ys ! 2, 3 := ys ! 3, 4 := ys ! 4, 5 := ys ! 5,
     6 := ys ! 6, 7 := ys ! 7, 8 := ys ! 8, 9 := ys ! 9] = ys"
  using fill_list [of xs 10 ys] by (simp add: upt_rec eval_nat_numeral)

lemma fill_17: "length xs = 17 \<Longrightarrow> length ys = 17 \<Longrightarrow>
   xs[0 := ys ! 0, Suc 0 := ys ! Suc 0, 2 := ys ! 2, 3 := ys ! 3, 4 := ys ! 4, 5 := ys ! 5,
     6 := ys ! 6, 7 := ys ! 7, 8 := ys ! 8, 9 := ys ! 9, 10 := ys ! 10, 11 := ys ! 11,
     12 := ys ! 12, 13 := ys ! 13, 14 := ys ! 14, 15 := ys ! 15, 16 := ys ! 16] = ys"
  using fill_list [of xs 17 ys] by (simp add: upt_rec eval_nat_numeral)

lemma fill_25: "length xs = 25 \<Longrightarrow> length ys = 25 \<Longrightarrow>
   xs[0 := ys ! 0, Suc 0 := ys ! Suc 0, 2 := ys ! 2, 3 := ys ! 3, 4 := ys ! 4, 5 := ys ! 5,
     6 := ys ! 6, 7 := ys ! 7, 8 := ys ! 8, 9 := ys ! 9, 10 := ys ! 10, 11 := ys ! 11,
     12 := ys ! 12, 13 := ys ! 13, 14 := ys ! 14, 15 := ys ! 15, 16 := ys ! 16,
     17 := ys ! 17, 18 := ys ! 18, 19 := ys ! 19, 20 := ys ! 20, 21 := ys ! 21,
     22 := ys ! 22, 23 := ys ! 23, 24 := ys ! 24] = ys"
  using fill_list [of xs 25 ys] by (simp add: upt_rec eval_nat_numeral)

lemmas fill_arrays = fill_2 fill_3 fill_4 fill_5 fill_6 fill_7 fill_8 fill_10 fill_17 fill_25

lemmas msg_simps = elem_def fill_arrays unat_le_max_vector

lemmas dyn_simps = unat_len_byte unat_len_list unat_mul_list unat_div_distrib
  unat_of_nat_len le_max_vector scast_small unat_ucast_byte

section \<open>Serialisers outside the contract\<close>

text \<open>
  For the message types whose reader and writer do not agree: what a writer stores
  (\<open>emits\<close>), and what a reader makes of it. A loop over a vector is the sequence of its
  iterations.
\<close>

definition emits :: "(u8 list \<Rightarrow> nat \<Rightarrow> u32 \<Rightarrow> u8 list option) \<Rightarrow> nat \<Rightarrow> bool" where
  "emits wr n \<longleftrightarrow> (\<exists>bs. length bs = n \<and>
     (\<forall>mem d sz. d + n \<le> length mem \<longrightarrow> wr mem d sz = Some (blit mem d bs)))"

lemma blit_prefix_length:
  assumes "\<And>v :: u8. blit (replicate n v) 0 bs = blit (replicate n v) 0 cs" and "length cs \<le> n"
  shows "length cs \<le> length bs"
proof (rule ccontr)
  assume "\<not> length cs \<le> length bs"
  then have "cs ! length bs = v" for v
    using arg_cong [OF assms(1) [of v], of "\<lambda>xs. xs ! length bs"] assms(2)
    by (simp add: blit_def nth_append)
  from this [of 0] this [of 1] show False by simp
qed

lemma emits_unique:
  assumes "emits wr n" and "emits wr k"
  shows "n = k"
proof -
  obtain bs where bs: "length bs = n" "\<And>mem d sz. d + n \<le> length mem \<Longrightarrow> wr mem d sz = Some (blit mem d bs)"
    using assms(1) by (auto simp: emits_def)
  obtain cs where cs: "length cs = k" "\<And>mem d sz. d + k \<le> length mem \<Longrightarrow> wr mem d sz = Some (blit mem d cs)"
    using assms(2) by (auto simp: emits_def)
  define mem where "mem v = replicate (n + k) (v :: u8)" for v
  have eq: "blit (mem v) 0 bs = blit (mem v) 0 cs" for v
    using bs(2) [of 0 "mem v" 0] cs(2) [of 0 "mem v" 0] by (simp add: mem_def)
  have "n \<le> k \<and> k \<le> n"
    using blit_prefix_length [of "n + k" bs cs] blit_prefix_length [of "n + k" cs bs] eq bs(1) cs(1)
    by (simp add: mem_def)
  then show ?thesis by simp
qed

definition produces :: "(ubx_stream \<Rightarrow> ubx_stream option) list \<Rightarrow> nat \<Rightarrow> bool" where
  "produces W n \<longleftrightarrow> (\<exists>bs. length bs = n \<and> writes (run W) bs)"

named_theorems emit_intros "lengths of what statements write"

lemma produces_Nil [emit_intros]: "produces [] 0"
  using writes_Nil by (auto simp: produces_def)

lemma produces_Cons:
  assumes "writes f bs" and "produces W n"
  shows "produces (f # W) (length bs + n)"
proof -
  obtain cs where "length cs = n" "writes (run W) cs"
    using assms(2) by (auto simp: produces_def)
  then show ?thesis
    using writes_Cons [OF assms(1), of W cs]
    unfolding produces_def by (intro exI [of _ "bs @ cs"]) simp
qed

lemma produces_next [emit_intros]:
  "produces W n \<Longrightarrow> produces (next_out v # W) (sizeof v + n)"
  using produces_Cons [OF writes_scalar, of W n v] by simp

lemma produces_next_arr [emit_intros]:
  fixes v :: "'a::len word list"
  shows "produces W n \<Longrightarrow> produces (next_out_arr v # W) (length v * (LENGTH('a) div 8) + n)"
  using produces_Cons [OF writes_array, of W n v] length_concat_to_bytes [of v] by simp

lemma run_next_out_each: "run (next_out_each W xs # Ws) s = run (concat (map W xs) @ Ws) s"
  by (simp add: next_out_each_def run_append split: option.splits)

lemma produces_each:
  assumes "\<And>x. x \<in> set xs \<Longrightarrow> produces (Wb x) k" and "produces W n"
  shows "produces (next_out_each Wb xs # W) (k * length xs + n)"
proof -
  have "\<exists>bs. length bs = k * length xs \<and> writes (run (concat (map Wb xs))) bs"
    using assms(1)
  proof (induction xs)
    case Nil
    then show ?case using writes_Some by (simp add: id_def)
  next
    case (Cons x xs)
    obtain bs where "length bs = k * length xs" "writes (run (concat (map Wb xs))) bs"
      using Cons by auto
    moreover obtain cs where "length cs = k" "writes (run (Wb x)) cs"
      using Cons.prems [of x] by (auto simp: produces_def)
    ultimately show ?case
      using writes_append [of "Wb x" cs "concat (map Wb xs)" bs]
      by (intro exI [of _ "cs @ bs"]) simp
  qed
  then obtain bs where "length bs = k * length xs" "writes (next_out_each Wb xs) bs"
    by (auto simp: writes_def next_out_each_def)
  then show ?thesis
    using produces_Cons [OF _ assms(2), of "next_out_each Wb xs" bs] by simp
qed

lemma produces_each_u32 [emit_intros]:
  "produces W n \<Longrightarrow> produces (next_out_each scalar_out (xs :: u32 list) # W) (4 * length xs + n)"
  using produces_next [OF produces_Nil, where ?'a = 32]
  by (intro produces_each) (simp_all add: scalar_out_def)

lemma emits_write_msg:
  assumes "\<And>mem d sz. wr mem d sz = write_msg W mem d sz" and "produces W n"
  shows "emits wr n"
  using assms(2)
  by (auto simp: emits_def produces_def assms(1) write_msg_def UbloxStream_def writes_def)

lemma read_back:
  assumes "transfers R W n m0 m'" and "\<And>s. run W' s = run W s" and "d + n \<le> length mem"
  shows "\<exists>mem'. write_msg W' mem d sz = Some mem' \<and> length mem' = length mem \<and>
    read_msg R mem' d count m0 = Some m'"
proof -
  obtain bs where bs: "length bs = n" "writes (run W) bs" "reads (run R) bs m0 m'"
    using assms(1) by (auto simp: transfers_def)
  then have "write_msg W' mem d sz = Some (blit mem d bs)"
    using assms(2,3) by (simp add: write_msg_def UbloxStream_def writes_def)
  moreover have "read_msg R (blit mem d bs) d count m0 = Some m'"
    using bs(1,3) assms(3) window_blit_same [of d bs mem]
    by (simp add: read_msg_def UbloxStream_def reads_def)
  ultimately show ?thesis using bs(1) assms(3) by simp
qed

lemma produces_eqn: "produces W k \<Longrightarrow> k = n \<Longrightarrow> produces W n"
  by simp

lemmas flatten_simps = next_out_each_def scalar_out_def run_append

lemma list_of_8:
  assumes "length xs = 8"
  obtains a b c d e f g h where "xs = [a, b, c, d, e, f, g, h]"
  using assms that by (auto simp: length_Suc_conv eval_nat_numeral)

lemma replicate_8: "replicate 8 x = [x, x, x, x, x, x, x, x]"
  by (simp add: eval_nat_numeral)

lemma read_each_scalar_room:
  assumes "read_each scalar_in (xs :: u32 list) s = Some (ys, s')" and "xs \<noteq> []"
  shows "sdata s + 4 * length xs \<le> length (smem s)"
  using assms
proof (induction xs arbitrary: s ys)
  case Nil
  then show ?case by simp
next
  case (Cons x xs)
  obtain zs where room: "sdata s + 4 \<le> length (smem s)"
    and "read_each scalar_in xs (s\<lparr>sdata := sdata s + 4\<rparr>) = Some (zs, s')"
    using Cons.prems(1)
    by (auto simp: scalar_in_def next_in_def read_scalar_def advance_def load_def
      split: option.splits if_splits)
  then show ?case
    using Cons.IH [of "s\<lparr>sdata := sdata s + 4\<rparr>" zs] by (cases "xs = []") simp_all
qed

text \<open>
  Statements that never look at the end of the stream: the announced payload length has no
  influence on a reader made of them.
\<close>

definition ignores_end :: "(ubx_stream \<times> 'm \<Rightarrow> (ubx_stream \<times> 'm) option) \<Rightarrow> bool" where
  "ignores_end f \<longleftrightarrow> (\<forall>s m e.
     f (s\<lparr>send := e\<rparr>, m) = map_option (\<lambda>(s, m). (s\<lparr>send := e\<rparr>, m)) (f (s, m)))"

lemma ignores_end_next_in: "ignores_end (next_in upd)"
  by (simp add: ignores_end_def next_in_def read_scalar_def advance_def split: option.split)

lemma ignores_end_next_in_arr: "ignores_end (next_in_arr n upd)"
  by (simp add: ignores_end_def next_in_arr_def read_array_def advance_def Let_def split: option.split)

lemma ignores_end_run: "list_all ignores_end R \<Longrightarrow> ignores_end (run R)"
proof (induction R)
  case Nil
  then show ?case by (simp add: ignores_end_def)
next
  case (Cons f R)
  then have f: "ignores_end f" and R: "ignores_end (run R)"
    by simp_all
  show ?case
    unfolding ignores_end_def
  proof (intro allI)
    fix s m e
    show "run (f # R) (s\<lparr>send := e\<rparr>, m)
        = map_option (\<lambda>(s, m). (s\<lparr>send := e\<rparr>, m)) (run (f # R) (s, m))"
      using f R by (cases "f (s, m)") (auto simp: ignores_end_def)
  qed
qed

lemma read_msg_ignores_count:
  assumes "list_all ignores_end R"
  shows "read_msg R mem d count m = read_msg R mem d count' m"
proof -
  let ?s = "UbloxStream mem d (unat count)"
  have "UbloxStream mem d (unat count') = ?s\<lparr>send := d + unat count'\<rparr>"
    by (simp add: UbloxStream_def)
  then have "run R (UbloxStream mem d (unat count'), m)
      = map_option (\<lambda>(s, m). (s\<lparr>send := d + unat count'\<rparr>, m)) (run R (?s, m))"
    using ignores_end_run [OF assms] by (simp add: ignores_end_def)
  then show ?thesis
    by (simp add: read_msg_def option.map_comp comp_def case_prod_unfold)
qed

end
