(* ===== verification/Ubx_Checksum.thy ===== *)
theory Ubx_Checksum
  imports Prelude
begin

text \<open>
  The Fletcher checksum of \<open>ublox_serialization/checksum.hpp\<close>: the loop over the bytes of a
  block, the pair of running sums as a function of the bytes, and what the sums detect.
\<close>

section \<open>The loop\<close>

fun checksum_loop :: "u8 list \<Rightarrow> nat \<Rightarrow> nat \<Rightarrow> u8 \<Rightarrow> u8 \<Rightarrow> (u8 \<times> u8) option" where
  "checksum_loop mem p 0 ck_a ck_b = Some (ck_a, ck_b)"
| "checksum_loop mem p (Suc n) ck_a ck_b =
     (case mem_at mem p of
        None \<Rightarrow> None
      | Some x \<Rightarrow> checksum_loop mem (Suc p) n (ck_a + x) (ck_b + (ck_a + x)))"

definition calculateChecksum :: "u8 list \<Rightarrow> nat \<Rightarrow> u32 \<Rightarrow> (u8 \<times> u8) option" where
  "calculateChecksum mem data sz = checksum_loop mem data (unat sz) 0 0"

definition calculateChecksum16 :: "u8 list \<Rightarrow> nat \<Rightarrow> u32 \<Rightarrow> u16 option" where
  "calculateChecksum16 mem data sz =
     (case calculateChecksum mem data sz of
        None \<Rightarrow> None
      | Some (ck_a, ck_b) \<Rightarrow> Some (of_bytes [ck_a, ck_b]))"

section \<open>The sums of a byte list\<close>

fun fletcher :: "u8 \<times> u8 \<Rightarrow> u8 list \<Rightarrow> u8 \<times> u8" where
  "fletcher (a, b) [] = (a, b)"
| "fletcher (a, b) (x # xs) = fletcher (a + x, b + (a + x)) xs"

lemma checksum_loop_fletcher:
  "p + n \<le> length mem \<Longrightarrow>
   checksum_loop mem p n a b = Some (fletcher (a, b) (window mem p n))"
proof (induction n arbitrary: p a b)
  case 0
  then show ?case by simp
next
  case (Suc n)
  have "window mem p (Suc n) = mem ! p # window mem (Suc p) n"
    using Suc.prems by (simp add: window_def flip: Cons_nth_drop_Suc)
  then show ?case
    using Suc.IH [of "Suc p"] Suc.prems by (simp add: mem_simps)
qed

lemma calculateChecksum_fletcher:
  "data + unat sz \<le> length mem \<Longrightarrow>
   calculateChecksum mem data sz = Some (fletcher (0, 0) (window mem data (unat sz)))"
  by (simp add: calculateChecksum_def checksum_loop_fletcher)

lemma calculateChecksum_None:
  assumes "length mem < data + unat sz" and "0 < unat sz"
  shows "calculateChecksum mem data sz = None"
proof -
  have "length mem < p + n \<Longrightarrow> 0 < n \<Longrightarrow> checksum_loop mem p n a b = None" for p n a b
  proof (induction n arbitrary: p a b)
    case 0
    then show ?case by simp
  next
    case (Suc n)
    then show ?case
      by (cases "n = 0") (auto simp: mem_at_def split: option.split)
  qed
  then show ?thesis using assms by (simp add: calculateChecksum_def)
qed

lemma fletcher_append: "fletcher ab (xs @ ys) = fletcher (fletcher ab xs) ys"
  by (induction ab xs rule: fletcher.induct) simp_all

text \<open>The first sum adds the bytes, the second weights them by their distance from the end.\<close>

fun weighted :: "u8 list \<Rightarrow> u8" where
  "weighted [] = 0"
| "weighted (x # xs) = of_nat (Suc (length xs)) * x + weighted xs"

lemma fletcher_sums:
  "fletcher (a, b) xs = (a + sum_list xs, b + of_nat (length xs) * a + weighted xs)"
  by (induction xs arbitrary: a b) (simp_all add: algebra_simps)

lemma weighted_append:
  "weighted (xs @ ys) = weighted xs + of_nat (length ys) * sum_list xs + weighted ys"
  by (induction xs) (simp_all add: algebra_simps)

section \<open>Detected errors\<close>

lemma fletcher_single_byte:
  assumes "fletcher ab (xs @ x # ys) = fletcher ab (xs @ y # ys)"
  shows "x = y"
proof -
  obtain a b where "ab = (a, b)" by (cases ab)
  then show ?thesis using assms by (simp add: fletcher_sums)
qed

lemma fletcher_exchange:
  "fletcher ab (xs @ x # ys @ y # zs) = fletcher ab (xs @ y # ys @ x # zs) \<longleftrightarrow>
     of_nat (Suc (length ys)) * (x - y) = 0"
proof -
  obtain a b where ab: "ab = (a, b)" by (cases ab)
  have "weighted (xs @ x # ys @ y # zs) - weighted (xs @ y # ys @ x # zs)
      = of_nat (Suc (length ys)) * (x - y)"
    by (simp add: weighted_append algebra_simps)
  moreover have "sum_list (xs @ x # ys @ y # zs) = sum_list (xs @ y # ys @ x # zs)"
    by simp
  ultimately show ?thesis
    unfolding ab fletcher_sums by simp (metis eq_iff_diff_eq_0)
qed

lemma fletcher_adjacent:
  "fletcher ab (xs @ x # y # zs) = fletcher ab (xs @ y # x # zs) \<longleftrightarrow> x = y"
  using fletcher_exchange [of ab xs x "[]" y zs] by simp

lemma of_bytes_2: "of_bytes [a, b] = (of_bytes [c, d] :: u16) \<longleftrightarrow> a = c \<and> b = d"
proof
  assume eq: "of_bytes [a, b] = (of_bytes [c, d] :: u16)"
  have *: "bit (of_bytes [x, y] :: u16) k \<longleftrightarrow> k < 16 \<and> bit ([x, y] ! (k div 8)) (k mod 8)"
    for x y :: u8 and k
    unfolding bit_of_bytes by (auto simp: div_less_iff_less_mult)
  have "bit a k = bit c k" if "k < 8" for k
    using that arg_cong [OF eq, of "\<lambda>w. bit w k"] unfolding * by simp
  moreover have "bit b k = bit d k" if "k < 8" for k
    using that arg_cong [OF eq, of "\<lambda>w. bit w (k + 8)"] unfolding * by simp
  ultimately show "a = c \<and> b = d"
    by (auto intro!: bit_word_eqI)
qed simp

end
