(* ===== verification/Ubx_Frame.thy ===== *)
theory Ubx_Frame
  imports Ubx_Stream Ubx_Checksum
begin

text \<open>
  \<open>Options\<close>, \<open>Message<T>\<close>, \<open>Reader\<close> and \<open>Writer\<close> of
  \<open>ublox_serialization/serialization.hpp\<close>: finding a frame in a buffer, decoding its payload
  and encoding a message as a frame. The serialiser of the message type and the identifiers it
  can decode are arguments, as they are template parameters of the code. A pointer is an index
  into the memory block of the buffer, and \<open>None\<close> is an access outside that block.
\<close>

section \<open>Options and message keys\<close>

definition DEFAULT_SYNC_A :: u8 where "DEFAULT_SYNC_A = 0xB5"
definition DEFAULT_SYNC_B :: u8 where "DEFAULT_SYNC_B = 0x62"
definition kHeaderLength :: u8 where "kHeaderLength = 6"
definition kChecksumLength :: u8 where "kChecksumLength = 2"

record options =
  sync_a :: u8
  sync_b :: u8
  header_length :: u8
  checksum_length :: u8

definition Options :: options where
  "Options = \<lparr>sync_a = DEFAULT_SYNC_A, sync_b = DEFAULT_SYNC_B,
     header_length = kHeaderLength, checksum_length = kChecksumLength\<rparr>"

definition wrapper_length :: "options \<Rightarrow> u32" where
  "wrapper_length opts = ucast (header_length opts) + ucast (checksum_length opts)"

type_synonym message_keys = "(u8 \<times> u8) list"

definition canDecode :: "message_keys \<Rightarrow> u8 \<Rightarrow> u8 \<Rightarrow> bool" where
  "canDecode keys class_id message_id = List.member keys (class_id, message_id)"

definition addKey :: "message_keys \<Rightarrow> u8 \<Rightarrow> u8 \<Rightarrow> message_keys" where
  "addKey keys class_id message_id = keys @ [(class_id, message_id)]"

lemma canDecode_addKey:
  "canDecode (addKey keys c i) c' i' \<longleftrightarrow> (c', i') = (c, i) \<or> canDecode keys c' i'"
  by (auto simp: canDecode_def addKey_def)

section \<open>Reader\<close>

record reader =
  rmem :: "u8 list"
  rdata :: nat
  rcount :: u32
  rfound :: bool
  ropts :: options

definition Reader :: "u8 list \<Rightarrow> nat \<Rightarrow> u32 \<Rightarrow> options \<Rightarrow> reader" where
  "Reader mem data count opts =
     \<lparr>rmem = mem, rdata = data, rcount = count, rfound = False, ropts = opts\<rparr>"

definition rbyte :: "reader \<Rightarrow> nat \<Rightarrow> u8 option" where
  "rbyte r i = mem_at (rmem r) (rdata r + i)"

definition classId :: "reader \<Rightarrow> u8 option" where
  "classId r = rbyte r 2"

definition messageId :: "reader \<Rightarrow> u8 option" where
  "messageId r = rbyte r 3"

definition reader_length :: "reader \<Rightarrow> u32 option" where
  "reader_length r = do {
     hi \<leftarrow> rbyte r 5;
     lo \<leftarrow> rbyte r 4;
     Some (push_bit 8 (ucast hi) + ucast lo)
   }"

definition reader_pos :: "reader \<Rightarrow> nat" where
  "reader_pos r = rdata r"

definition reader_end :: "reader \<Rightarrow> nat" where
  "reader_end r = rdata r + unat (rcount r)"

definition reader_checksum :: "reader \<Rightarrow> u16 option" where
  "reader_checksum r = do {
     n \<leftarrow> reader_length r;
     bs \<leftarrow> load (rmem r) (rdata r + unat (header_length (ropts r)) + unat n) 2;
     Some (of_bytes bs)
   }"

definition reader_found :: "reader \<Rightarrow> (bool \<times> reader) option" where
  "reader_found r =
     (if rfound r then Some (True, r)
      else if rcount r < wrapper_length (ropts r) then Some (False, r)
      else do {
        b0 \<leftarrow> rbyte r 0;
        bad \<leftarrow> (if b0 \<noteq> sync_a (ropts r) then Some True
               else do { b1 \<leftarrow> rbyte r 1; Some (b1 \<noteq> sync_b (ropts r)) });
        if bad then Some (False, r)
        else do {
          n \<leftarrow> reader_length r;
          if rcount r < n + wrapper_length (ropts r) then Some (False, r)
          else Some (True, r\<lparr>rfound := True\<rparr>)
        }
      })"

definition reader_next :: "reader \<Rightarrow> reader option" where
  "reader_next r = do {
     (f, r) \<leftarrow> reader_found r;
     r \<leftarrow> (if f then do {
             n \<leftarrow> reader_length r;
             let size = n + wrapper_length (ropts r);
             Some (r\<lparr>rdata := rdata r + unat size, rcount := rcount r - size\<rparr>)
           } else Some r);
     Some (r\<lparr>rfound := False\<rparr>)
   }"

fun search_loop :: "options \<Rightarrow> u8 list \<Rightarrow> nat \<Rightarrow> nat \<Rightarrow> (nat \<times> nat) option" where
  "search_loop opts mem data 0 = Some (data, 0)"
| "search_loop opts mem data (Suc n) = do {
     b0 \<leftarrow> mem_at mem data;
     hit \<leftarrow> (if b0 = sync_a opts
            then if Suc n = 1 then Some True
              else do { b1 \<leftarrow> mem_at mem (data + 1); Some (b1 = sync_b opts) }
            else Some False);
     if hit then Some (data, Suc n) else search_loop opts mem (data + 1) n
   }"

definition reader_search :: "reader \<Rightarrow> reader option" where
  "reader_search r = do {
     r \<leftarrow> (if rfound r then reader_next r else Some r);
     (data, count) \<leftarrow> search_loop (ropts r) (rmem r) (rdata r) (unat (rcount r));
     Some (r\<lparr>rdata := data, rcount := of_nat count\<rparr>)
   }"

definition reader_read ::
  "message_keys \<Rightarrow> (u8 list \<Rightarrow> nat \<Rightarrow> u32 \<Rightarrow> 'm \<Rightarrow> 'm option) \<Rightarrow> bool \<Rightarrow> reader \<Rightarrow> 'm \<Rightarrow>
   (bool \<times> reader \<times> 'm) option" where
  "reader_read keys rd search r message = do {
     r \<leftarrow> (if search then reader_search r else Some r);
     (f, r) \<leftarrow> reader_found r;
     if \<not> f then Some (False, r, message) else do {
       c \<leftarrow> classId r;
       i \<leftarrow> messageId r;
       if \<not> canDecode keys c i then Some (False, r, message) else do {
         n \<leftarrow> reader_length r;
         chk \<leftarrow> calculateChecksum16 (rmem r) (rdata r + 2) (n + 4);
         own \<leftarrow> reader_checksum r;
         if chk \<noteq> own then Some (False, r, message) else do {
           message \<leftarrow> rd (rmem r) (rdata r + unat (header_length (ropts r))) n message;
           Some (True, r, message)
         }
       }
     }
   }"

definition hasType :: "message_keys \<Rightarrow> reader \<Rightarrow> (bool \<times> reader) option" where
  "hasType keys r = do {
     (f, r) \<leftarrow> reader_found r;
     if \<not> f then Some (False, r) else do {
       c \<leftarrow> classId r;
       i \<leftarrow> messageId r;
       Some (canDecode keys c i, r)
     }
   }"

definition isMessage :: "u8 \<Rightarrow> u8 \<Rightarrow> reader \<Rightarrow> (bool \<times> reader) option" where
  "isMessage class_id message_id r = do {
     (f, r) \<leftarrow> reader_found r;
     if \<not> f then Some (False, r) else do {
       c \<leftarrow> classId r;
       i \<leftarrow> messageId r;
       Some (c = class_id \<and> i = message_id, r)
     }
   }"

section \<open>Writer\<close>

record writer =
  wmem :: "u8 list"
  wdata :: nat
  wsize :: u32
  wopts :: options

definition Writer :: "u8 list \<Rightarrow> nat \<Rightarrow> u32 \<Rightarrow> options \<Rightarrow> writer" where
  "Writer mem data sz opts = \<lparr>wmem = mem, wdata = data, wsize = sz, wopts = opts\<rparr>"

text \<open>\<open>*data_++ = b\<close>.\<close>

definition put :: "u8 \<Rightarrow> writer \<Rightarrow> writer option" where
  "put b w = do {
     mem \<leftarrow> store (wmem w) (wdata w) [b];
     Some (w\<lparr>wmem := mem, wdata := wdata w + 1\<rparr>)
   }"

text \<open>
  The overload that wraps an encoded payload; the null pointer is \<open>None\<close>, and then the payload
  is already in place.
\<close>

definition copy_payload :: "u8 list option \<Rightarrow> u32 \<Rightarrow> writer \<Rightarrow> writer option" where
  "copy_payload message len w =
     (case message of
        None \<Rightarrow> Some w
      | Some bs \<Rightarrow> do {
          src \<leftarrow> load bs 0 (unat len);
          mem \<leftarrow> store (wmem w) (wdata w) src;
          Some (w\<lparr>wmem := mem\<rparr>)
        })"

definition write_payload ::
  "u8 list option \<Rightarrow> u32 \<Rightarrow> u8 \<Rightarrow> u8 \<Rightarrow> writer \<Rightarrow> (bool \<times> writer) option" where
  "write_payload message len class_id message_id w =
     (if wsize w < len + wrapper_length (wopts w) then Some (False, w)
      else do {
        let start = wdata w;
        w \<leftarrow> run (map put [sync_a (wopts w), sync_b (wopts w), class_id, message_id,
                ucast (len AND 0xFF), ucast (drop_bit 8 len AND 0xFF)]) w;
        let w = w\<lparr>wsize := wsize w - ucast (header_length (wopts w))\<rparr>;
        w \<leftarrow> copy_payload message len w;
        let w = w\<lparr>wdata := wdata w + unat len, wsize := wsize w - len\<rparr>;
        (ck_a, ck_b) \<leftarrow> calculateChecksum (wmem w) (start + 2) (len + 4);
        w \<leftarrow> run (map put [ck_a, ck_b]) w;
        Some (True, w\<lparr>wsize := wsize w - ucast (checksum_length (wopts w))\<rparr>)
      })"

definition write_message ::
  "(u8 list \<Rightarrow> nat \<Rightarrow> u32 \<Rightarrow> 'm \<Rightarrow> u8 list option) \<Rightarrow> ('m \<Rightarrow> u32) \<Rightarrow> 'm \<Rightarrow> u8 \<Rightarrow> u8 \<Rightarrow>
   writer \<Rightarrow> (bool \<times> writer) option" where
  "write_message wr serializedLength message class_id message_id w =
     (let len = serializedLength message
      in if wsize w < len + wrapper_length (wopts w) then Some (False, w)
         else do {
           mem \<leftarrow> wr (wmem w) (wdata w + unat (header_length (wopts w)))
                   (wsize w - ucast (header_length (wopts w))) message;
           write_payload None len class_id message_id (w\<lparr>wmem := mem\<rparr>)
         })"

section \<open>Frames\<close>

text \<open>The byte layout of a message on the wire.\<close>

definition frame_body :: "u8 \<Rightarrow> u8 \<Rightarrow> u8 list \<Rightarrow> u8 list" where
  "frame_body c i payload =
     [c, i, of_nat (length payload), of_nat (length payload div 256)] @ payload"

definition frame_checksum :: "u8 \<Rightarrow> u8 \<Rightarrow> u8 list \<Rightarrow> u8 list" where
  "frame_checksum c i payload =
     [fst (fletcher (0, 0) (frame_body c i payload)), snd (fletcher (0, 0) (frame_body c i payload))]"

definition packet :: "u8 \<Rightarrow> u8 \<Rightarrow> u8 list \<Rightarrow> u8 list \<Rightarrow> u8 list" where
  "packet c i payload ck = [DEFAULT_SYNC_A, DEFAULT_SYNC_B] @ frame_body c i payload @ ck"

definition frame :: "u8 \<Rightarrow> u8 \<Rightarrow> u8 list \<Rightarrow> u8 list" where
  "frame c i payload = packet c i payload (frame_checksum c i payload)"

lemma length_packet [simp]: "length (packet c i payload ck) = length payload + length ck + 6"
  by (simp add: packet_def frame_body_def)

lemma length_frame [simp]: "length (frame c i payload) = length payload + 8"
  by (simp add: frame_def frame_checksum_def)

lemma length_frame_body [simp]: "length (frame_body c i payload) = length payload + 4"
  by (simp add: frame_body_def)

lemma length_frame_checksum [simp]: "length (frame_checksum c i payload) = 2"
  by (simp add: frame_checksum_def)

lemma wrapper_length_Options [simp]: "wrapper_length Options = 8"
  by (simp add: wrapper_length_def Options_def kHeaderLength_def kChecksumLength_def)

lemma Options_sel [simp]:
  "sync_a Options = DEFAULT_SYNC_A" "sync_b Options = DEFAULT_SYNC_B"
  "unat (header_length Options) = 6" "ucast (header_length Options) = (6 :: u32)"
  "ucast (checksum_length Options) = (2 :: u32)"
  by (simp_all add: Options_def kHeaderLength_def kChecksumLength_def)

lemma length_field:
  assumes "n < 65536"
  shows "push_bit 8 (ucast (of_nat (n div 256) :: u8)) + ucast (of_nat n :: u8) = (of_nat n :: u32)"
proof -
  have cast: "(ucast w :: u32) = of_nat (unat w)" for w :: u8
    by simp
  have hi: "unat (of_nat (n div 256) :: u8) = n div 256"
    and lo: "unat (of_nat n :: u8) = n mod 256"
    using assms by (simp_all add: unat_of_nat)
  have "of_nat n = (of_nat (n div 256) * 256 + of_nat (n mod 256) :: u32)"
    using arg_cong [OF div_mult_mod_eq [of n 256, symmetric], of "of_nat :: nat \<Rightarrow> u32"]
    by (simp only: of_nat_add of_nat_mult of_nat_numeral)
  moreover have "(2 :: u32) ^ 8 = 256"
    by simp
  ultimately show ?thesis
    by (simp only: cast hi lo push_bit_eq_mult)
qed

text \<open>
  \<open>at_packet r c i p ck\<close>: the reader (with the default options) stands at a complete packet
  with the checksum bytes \<open>ck\<close>, right or wrong.
\<close>

definition at_packet :: "reader \<Rightarrow> u8 \<Rightarrow> u8 \<Rightarrow> u8 list \<Rightarrow> u8 list \<Rightarrow> bool" where
  "at_packet r c i p ck \<longleftrightarrow> ropts r = Options \<and> length p < 65536 \<and> length ck = 2 \<and>
     rdata r + unat (rcount r) \<le> length (rmem r) \<and> length p + 8 \<le> unat (rcount r) \<and>
     window (rmem r) (rdata r) (length p + 8) = packet c i p ck"

lemma rbyte_at_packet:
  "at_packet r c i p ck \<Longrightarrow> k < length p + 8 \<Longrightarrow> rbyte r k = Some (packet c i p ck ! k)"
  using nth_window [of k "length p + 8" "rdata r" "rmem r"]
  by (simp add: at_packet_def rbyte_def mem_simps)

lemma header_at_packet:
  assumes "at_packet r c i p ck"
  shows "rbyte r 0 = Some DEFAULT_SYNC_A" and "rbyte r (Suc 0) = Some DEFAULT_SYNC_B"
    and "classId r = Some c" and "messageId r = Some i"
    and "reader_length r = Some (of_nat (length p))"
proof -
  show "rbyte r 0 = Some DEFAULT_SYNC_A" "rbyte r (Suc 0) = Some DEFAULT_SYNC_B"
    "classId r = Some c" "messageId r = Some i"
    using assms by (simp_all add: rbyte_at_packet classId_def messageId_def packet_def
        frame_body_def nth_append nth_Cons')
  have "length p < 65536" using assms by (simp add: at_packet_def)
  then show "reader_length r = Some (of_nat (length p))"
    using assms length_field [of "length p"]
    by (simp add: rbyte_at_packet reader_length_def packet_def frame_body_def nth_append nth_Cons')
qed

lemma unat_payload:
  assumes "n < 65536"
  shows "unat (of_nat n :: u32) = n" and "unat (of_nat n + 4 :: u32) = n + 4"
    and "unat (of_nat n + 8 :: u32) = n + 8"
  using assms unat_of_nat_len [of n, where ?'a = 32] unat_of_nat_len [of "n + 4", where ?'a = 32]
    unat_of_nat_len [of "n + 8", where ?'a = 32]
  by simp_all

lemma found_at_packet:
  assumes "at_packet r c i p ck"
  shows "reader_found r = Some (True, r\<lparr>rfound := True\<rparr>)"
proof -
  have "length p < 65536" "length p + 8 \<le> unat (rcount r)" "ropts r = Options"
    using assms by (simp_all add: at_packet_def)
  then show ?thesis
    by (auto simp: reader_found_def header_at_packet [OF assms] word_less_nat_alt unat_payload)
qed

lemma next_at_packet:
  assumes "at_packet r c i p ck"
  shows "reader_next r = Some (r\<lparr>rdata := rdata r + (length p + 8),
      rcount := rcount r - (of_nat (length p) + 8), rfound := False\<rparr>)"
proof -
  have "at_packet (r\<lparr>rfound := True\<rparr>) c i p ck"
    using assms by (simp add: at_packet_def)
  note len = header_at_packet(5) [OF this]
  have "length p < 65536" "ropts r = Options"
    using assms by (simp_all add: at_packet_def)
  then show ?thesis
    by (simp add: reader_next_def found_at_packet [OF assms] len unat_payload)
qed

lemma window_packet:
  assumes "at_packet r c i p ck"
  shows "window (rmem r) (rdata r + 2) (length p + 4) = frame_body c i p"
    and "window (rmem r) (rdata r + 6) (length p) = p"
    and "window (rmem r) (rdata r + (6 + length p)) 2 = ck"
proof -
  have w: "window (rmem r) (rdata r) (length p + 8) = packet c i p ck" and ck: "length ck = 2"
    and room: "rdata r + (length p + 8) \<le> length (rmem r)"
    using assms by (simp_all add: at_packet_def)
  have part: "window (rmem r) (rdata r + length as) (length bs) = bs"
    if "packet c i p ck = as @ bs @ cs" for as bs cs
    using w [unfolded that] _ room
    by (rule window_middle) (use arg_cong [OF that, of length, unfolded length_packet] ck in simp)
  show "window (rmem r) (rdata r + 2) (length p + 4) = frame_body c i p"
    using part [of "[DEFAULT_SYNC_A, DEFAULT_SYNC_B]" "frame_body c i p" ck]
    by (simp add: packet_def)
  let ?as = "[DEFAULT_SYNC_A, DEFAULT_SYNC_B, c, i, of_nat (length p), of_nat (length p div 256)]"
  have "length ?as = 6" and "packet c i p ck = ?as @ p @ ck"
    by (simp_all add: packet_def frame_body_def)
  then show "window (rmem r) (rdata r + 6) (length p) = p"
    using part [of ?as p ck] by (simp only:)
  show "window (rmem r) (rdata r + (6 + length p)) 2 = ck"
    using part [of "[DEFAULT_SYNC_A, DEFAULT_SYNC_B] @ frame_body c i p" ck "[]"] ck
    by (simp add: packet_def)
qed

lemma room_packet:
  "at_packet r c i p ck \<Longrightarrow> rdata r + (length p + 8) \<le> length (rmem r)"
  by (simp add: at_packet_def)

lemma checksum_at_packet:
  assumes "at_packet r c i p ck"
  shows "reader_checksum r = Some (of_bytes ck)"
    and "calculateChecksum16 (rmem r) (rdata r + 2) (of_nat (length p) + 4)
      = Some (of_bytes (frame_checksum c i p))"
proof -
  have n: "length p < 65536" and opts: "ropts r = Options"
    using assms by (simp_all add: at_packet_def)
  have room: "rdata r + (length p + 8) \<le> length (rmem r)"
    using assms by (rule room_packet)
  show "reader_checksum r = Some (of_bytes ck)"
    using window_packet(3) [OF assms] room
    by (simp add: reader_checksum_def header_at_packet [OF assms] unat_payload [OF n] opts
        mem_simps add.assoc)
  show "calculateChecksum16 (rmem r) (rdata r + 2) (of_nat (length p) + 4)
      = Some (of_bytes (frame_checksum c i p))"
    using window_packet(1) [OF assms] room
    by (simp add: calculateChecksum16_def calculateChecksum_fletcher unat_payload [OF n]
        frame_checksum_def split: prod.split)
qed

text \<open>
  Decoding at a packet: the message is decoded exactly when the type can decode the identifiers
  and the checksum bytes are right; otherwise nothing changes but the \<open>found_\<close> mark.
\<close>

lemma of_bytes_pair_eq:
  assumes "length xs = 2" and "length ys = 2"
  shows "of_bytes xs = (of_bytes ys :: u16) \<longleftrightarrow> xs = ys"
proof -
  obtain a b where "xs = [a, b]" using assms(1) by (auto simp: length_Suc_conv eval_nat_numeral)
  moreover obtain c d where "ys = [c, d]"
    using assms(2) by (auto simp: length_Suc_conv eval_nat_numeral)
  ultimately show ?thesis using of_bytes_2 by simp
qed

lemma read_at_packet:
  assumes "at_packet r c i p ck"
  shows "reader_read keys rd False r m0 =
    (if canDecode keys c i \<and> ck = frame_checksum c i p
     then do { m \<leftarrow> rd (rmem r) (rdata r + 6) (of_nat (length p)) m0;
               Some (True, r\<lparr>rfound := True\<rparr>, m) }
     else Some (False, r\<lparr>rfound := True\<rparr>, m0))"
proof -
  have at: "at_packet (r\<lparr>rfound := True\<rparr>) c i p ck"
    using assms by (simp add: at_packet_def)
  have opts: "ropts r = Options" and len: "length ck = 2"
    using assms by (simp_all add: at_packet_def)
  have eq: "(of_bytes (frame_checksum c i p) :: u16) = of_bytes ck \<longleftrightarrow> ck = frame_checksum c i p"
    using of_bytes_pair_eq [OF length_frame_checksum len] by auto
  show ?thesis
    using header_at_packet [OF at] checksum_at_packet [OF at] opts eq
    by (simp add: reader_read_def found_at_packet [OF assms])
qed

section \<open>Searching\<close>

text \<open>
  The number of bytes \<open>search\<close> skips, as a function of the bytes in the buffer: up to the first
  pair of sync bytes, or to a sync byte that is the last byte of the buffer.
\<close>

fun first_sync :: "options \<Rightarrow> u8 list \<Rightarrow> nat" where
  "first_sync opts [] = 0"
| "first_sync opts (b # bs) =
     (if b = sync_a opts \<and> (bs = [] \<or> hd bs = sync_b opts) then 0
      else Suc (first_sync opts bs))"

lemma first_sync_le: "first_sync opts bs \<le> length bs"
  by (induction bs) auto

lemma window_Suc:
  "p + Suc n \<le> length mem \<Longrightarrow> window mem p (Suc n) = mem ! p # window mem (Suc p) n"
  by (simp add: window_def flip: Cons_nth_drop_Suc)

lemma search_loop_first_sync:
  "data + n \<le> length mem \<Longrightarrow>
   search_loop opts mem data n =
     (let k = first_sync opts (window mem data n) in Some (data + k, n - k))"
proof (induction n arbitrary: data)
  case 0
  then show ?case by simp
next
  case (Suc n)
  have IH: "search_loop opts mem (Suc data) n =
      (let k = first_sync opts (window mem (Suc data) n) in Some (Suc data + k, n - k))"
    using Suc.prems by (intro Suc.IH) simp
  show ?case
  proof (cases n)
    case 0
    then show ?thesis
      using Suc.prems by (simp add: window_Suc mem_simps)
  next
    case (Suc k)
    then have "hd (window mem (Suc data) n) = mem ! Suc data" "window mem (Suc data) n \<noteq> []"
      using \<open>data + Suc n \<le> length mem\<close> by (simp_all add: window_Suc)
    then show ?thesis
      using \<open>data + Suc n \<le> length mem\<close> IH Suc by (simp add: window_Suc mem_simps Let_def)
  qed
qed

text \<open>
  The bytes a reader has left, and the reader's invariant: the buffer lies in the block, and a
  reader that has found a packet stands at one.
\<close>

definition rbytes :: "reader \<Rightarrow> u8 list" where
  "rbytes r = window (rmem r) (rdata r) (unat (rcount r))"

definition in_block :: "reader \<Rightarrow> bool" where
  "in_block r \<longleftrightarrow> ropts r = Options \<and> rdata r + unat (rcount r) \<le> length (rmem r)"

definition reader_ok :: "reader \<Rightarrow> bool" where
  "reader_ok r \<longleftrightarrow> in_block r \<and> (rfound r \<longrightarrow> (\<exists>c i p ck. at_packet r c i p ck))"

lemma length_rbytes [simp]: "in_block r \<Longrightarrow> length (rbytes r) = unat (rcount r)"
  by (simp add: rbytes_def in_block_def)

lemma search_not_found:
  assumes "in_block r" and "\<not> rfound r"
  defines "k \<equiv> first_sync Options (rbytes r)"
  shows "reader_search r = Some (r\<lparr>rdata := rdata r + k, rcount := rcount r - of_nat k\<rparr>)"
proof -
  have "k \<le> unat (rcount r)"
    using first_sync_le [of Options "rbytes r"] assms by simp
  then have "of_nat (unat (rcount r) - k) = rcount r - of_nat k"
    by (simp add: of_nat_diff)
  then show ?thesis
    using assms search_loop_first_sync [of "rdata r" "unat (rcount r)" "rmem r" Options]
    by (simp add: reader_search_def in_block_def rbytes_def Let_def)
qed

text \<open>Dropping bytes from the front of the buffer.\<close>

lemma rbytes_drop:
  assumes "in_block r" and "k \<le> unat (rcount r)"
    and "rmem r' = rmem r" "rdata r' = rdata r + k" "rcount r' = rcount r - of_nat k"
    "ropts r' = ropts r"
  shows "in_block r'" and "rbytes r' = drop k (rbytes r)"
    and "unat (rcount r') = unat (rcount r) - k"
proof -
  have k: "unat (of_nat k :: u32) = k"
    using assms(2) unsigned_less [of "rcount r", where ?'a = nat] by (simp add: unat_of_nat)
  then have *: "unat (rcount r - of_nat k) = unat (rcount r) - k"
    using assms(2) by (simp add: unat_sub word_le_nat_alt)
  then show "unat (rcount r') = unat (rcount r) - k"
    using assms by simp
  show "in_block r'"
    using assms * by (simp add: in_block_def)
  show "rbytes r' = drop k (rbytes r)"
    using assms * by (simp add: rbytes_def window_def drop_take add.commute)
qed

text \<open>
  A packet at the front of a byte list, with its identifiers, payload and checksum bytes;
  \<open>packet_of\<close> is \<open>found\<close> on the byte list.
\<close>

definition packet_of :: "u8 list \<Rightarrow> (u8 \<times> u8 \<times> u8 list \<times> u8 list) option" where
  "packet_of bs =
     (if length bs < 8 \<or> bs ! 0 \<noteq> DEFAULT_SYNC_A \<or> bs ! 1 \<noteq> DEFAULT_SYNC_B then None
      else let n = unat (bs ! 5) * 256 + unat (bs ! 4)
           in if length bs < n + 8 then None
              else Some (bs ! 2, bs ! 3, take n (drop 6 bs), take 2 (drop n (drop 6 bs))))"

lemma byte_lt [simp]: "unat (b :: u8) < 256"
  using unsigned_less [of b, where ?'a = nat] by simp

lemma packet_of_packet:
  assumes "length p < 65536" and "length ck = 2"
  shows "packet_of (packet c i p ck @ rest) = Some (c, i, p, ck)"
proof -
  have "unat (of_nat (length p div 256) :: u8) = length p div 256"
    and "unat (of_nat (length p) :: u8) = length p mod 256"
    using assms(1) by (simp_all add: unat_of_nat)
  moreover have "length p div 256 * 256 + length p mod 256 = length p"
    by simp
  ultimately show ?thesis
    using assms(2) by (simp add: packet_of_def packet_def frame_body_def Let_def del: div_mult_mod_eq drop_drop)
qed

lemma packet_ofD:
  assumes "packet_of bs = Some (c, i, p, ck)"
  shows "length p < 65536" and "length ck = 2"
    and "bs = packet c i p ck @ drop (length p + 8) bs" and "length p + 8 \<le> length bs"
proof -
  define n where "n = unat (bs ! 5) * 256 + unat (bs ! 4)"
  have long: "\<not> length bs < 8" "\<not> length bs < n + 8" and "bs ! 0 = DEFAULT_SYNC_A" "bs ! 1 = DEFAULT_SYNC_B"
    and sel: "c = bs ! 2" "i = bs ! 3" "p = take n (drop 6 bs)" "ck = take 2 (drop n (drop 6 bs))"
    using assms by (auto simp: packet_of_def n_def Let_def split: if_splits)
  have n: "n < 65536"
    using byte_lt [of "bs ! 5"] byte_lt [of "bs ! 4"] unfolding n_def by linarith
  show p: "length p < 65536" and "length ck = 2" and "length p + 8 \<le> length bs"
    using n long by (auto simp: sel)
  have len: "length p = n"
    using long by (simp add: sel)
  have lo: "of_nat (length p) = bs ! 4" and hi: "of_nat (length p div 256) = bs ! 5"
  proof -
    have "n mod 256 = unat (bs ! 4)" "n div 256 = unat (bs ! 5)"
      using byte_lt [of "bs ! 4"] by (simp_all add: n_def del: byte_lt)
    moreover have "unat (of_nat n :: u8) = n mod 256"
      by (simp add: unat_of_nat)
    ultimately have "unat (of_nat n :: u8) = unat (bs ! 4)" and n5: "n div 256 = unat (bs ! 5)"
      by simp_all
    then have "(of_nat (unat (of_nat n :: u8)) :: u8) = of_nat (unat (bs ! 4))"
      by (simp only:)
    then show "of_nat (length p) = bs ! 4"
      by (simp add: len)
    show "of_nat (length p div 256) = bs ! 5"
      by (simp add: len n5)
  qed
  have "drop (n + 8) bs = drop 2 (drop n (drop 6 bs))"
    by (simp add: add.commute)
  then have "bs = take 6 bs @ take n (drop 6 bs) @ take 2 (drop n (drop 6 bs)) @ drop (n + 8) bs"
    by (simp only: append_take_drop_id)
  moreover have "take (Suc 0) bs = [bs ! 0]"
    using long(1) by (cases bs) auto
  then have "take 6 bs = [bs ! 0, bs ! 1, bs ! 2, bs ! 3, bs ! 4, bs ! 5]"
    using long(1) by (simp add: take_Suc_conv_app_nth eval_nat_numeral)
  ultimately show "bs = packet c i p ck @ drop (length p + 8) bs"
    unfolding packet_def frame_body_def lo hi
    unfolding len using sel \<open>bs ! 0 = _\<close> \<open>bs ! 1 = _\<close> by simp
qed

lemma at_packet_iff:
  assumes "in_block r"
  shows "at_packet r c i p ck \<longleftrightarrow> packet_of (rbytes r) = Some (c, i, p, ck)"
proof
  assume at: "at_packet r c i p ck"
  then have "take (length p + 8) (rbytes r) = packet c i p ck"
    by (simp add: at_packet_def rbytes_def window_def min_def)
  then have "rbytes r = packet c i p ck @ drop (length p + 8) (rbytes r)"
    by (metis append_take_drop_id)
  then show "packet_of (rbytes r) = Some (c, i, p, ck)"
    using at packet_of_packet [of p ck c i] by (metis at_packet_def)
next
  assume of: "packet_of (rbytes r) = Some (c, i, p, ck)"
  note D = packet_ofD [OF of]
  have "take (length p + 8) (rbytes r) = packet c i p ck"
    using D(2) arg_cong [OF D(3), of "take (length p + 8)"] by simp
  moreover have "length p + 8 \<le> unat (rcount r)"
    using D(4) assms by simp
  ultimately have "window (rmem r) (rdata r) (length p + 8) = packet c i p ck"
    by (simp add: rbytes_def window_def min_def)
  then show "at_packet r c i p ck"
    using D assms by (simp add: at_packet_def in_block_def)
qed

lemma rbyte_rbytes:
  "in_block r \<Longrightarrow> k < unat (rcount r) \<Longrightarrow> rbyte r k = Some (rbytes r ! k)"
  by (simp add: rbyte_def in_block_def rbytes_def nth_window mem_simps)

lemma length_word:
  "push_bit 8 (ucast hi) + ucast lo = (of_nat (unat (hi :: u8) * 256 + unat (lo :: u8)) :: u32)"
proof -
  have "(ucast w :: u32) = of_nat (unat w)" for w :: u8
    by simp
  moreover have "(2 :: u32) ^ 8 = 256"
    by simp
  ultimately show ?thesis
    by (simp only: push_bit_eq_mult of_nat_add of_nat_mult of_nat_numeral)
qed

lemma unat_length_word [simp]:
  "unat (of_nat (unat (hi :: u8) * 256 + unat (lo :: u8)) + 8 :: u32) = unat hi * 256 + unat lo + 8"
proof -
  have "unat hi * 256 + unat lo < 65536"
    using byte_lt [of hi] byte_lt [of lo] by linarith
  then show ?thesis by (rule unat_payload)
qed

lemma not_found_at_none:
  assumes "in_block r" and "\<not> rfound r" and "packet_of (rbytes r) = None"
  shows "reader_found r = Some (False, r)"
proof (cases "unat (rcount r) < 8")
  case True
  then show ?thesis
    using assms by (simp add: reader_found_def in_block_def word_less_nat_alt)
next
  case False
  note byte = rbyte_rbytes [OF assms(1)]
  have opts: "ropts r = Options" using assms(1) by (simp add: in_block_def)
  let ?n = "unat (rbytes r ! 5) * 256 + unat (rbytes r ! 4)"
  have len: "reader_length r = Some (of_nat ?n)"
    using False by (simp add: reader_length_def byte length_word del: of_nat_add of_nat_mult)
  consider "rbytes r ! 0 \<noteq> DEFAULT_SYNC_A" | "rbytes r ! 1 \<noteq> DEFAULT_SYNC_B"
    | "unat (rcount r) < ?n + 8"
    using assms(3) False assms(1)
    by (auto simp: packet_of_def Let_def split: if_splits)
  then show ?thesis
    using False assms(2) opts
    by cases (auto simp: reader_found_def byte len word_less_nat_alt simp del: of_nat_add of_nat_mult)
qed

lemma reader_found_packet_of:
  assumes "in_block r" and "\<not> rfound r"
  shows "reader_found r = (case packet_of (rbytes r) of
      None \<Rightarrow> Some (False, r) | Some _ \<Rightarrow> Some (True, r\<lparr>rfound := True\<rparr>))"
proof (cases "packet_of (rbytes r)")
  case None
  then show ?thesis using not_found_at_none [OF assms] by simp
next
  case (Some x)
  obtain c i p ck where "x = (c, i, p, ck)" by (cases x)
  then show ?thesis
    using Some found_at_packet at_packet_iff [OF assms(1)] by simp
qed

text \<open>
  A reader over a buffer never leaves it: whatever the bytes are, \<open>search\<close>, \<open>found\<close> and
  \<open>next\<close> are defined and keep the invariant.
\<close>

lemma reader_ok_Reader:
  "data + unat count \<le> length mem \<Longrightarrow> reader_ok (Reader mem data count Options)"
  by (simp add: reader_ok_def in_block_def Reader_def)

lemma next_found:
  assumes "reader_ok r" and "rfound r" and "packet_of (rbytes r) = Some (c, i, p, ck)"
  obtains r' where "reader_next r = Some r'" and "in_block r'" and "\<not> rfound r'"
    and "rmem r' = rmem r" and "rbytes r' = drop (length p + 8) (rbytes r)"
    and "rdata r' = rdata r + (length p + 8)"
proof -
  have blk: "in_block r" using assms(1) by (simp add: reader_ok_def)
  have at: "at_packet r c i p ck" using at_packet_iff [OF blk] assms(3) by simp
  have k: "length p + 8 \<le> unat (rcount r)" using at by (simp add: at_packet_def)
  let ?r' = "r\<lparr>rdata := rdata r + (length p + 8),
      rcount := rcount r - (of_nat (length p) + 8), rfound := False\<rparr>"
  have "reader_next r = Some ?r'" using at by (rule next_at_packet)
  moreover have "in_block ?r'" "rbytes ?r' = drop (length p + 8) (rbytes r)"
    using rbytes_drop [OF blk k, of ?r'] by simp_all
  ultimately show thesis using that by simp
qed

section \<open>Writing a frame\<close>

lemma run_put:
  "wdata w + length bs \<le> length (wmem w) \<Longrightarrow>
   run (map put bs) w = Some (w\<lparr>wmem := blit (wmem w) (wdata w) bs, wdata := wdata w + length bs\<rparr>)"
proof (induction bs arbitrary: w)
  case Nil
  then show ?case by simp
next
  case (Cons b bs)
  let ?w = "w\<lparr>wmem := blit (wmem w) (wdata w) [b], wdata := Suc (wdata w)\<rparr>"
  have "put b w = Some ?w"
    using Cons.prems by (simp add: put_def mem_simps)
  moreover have "run (map put bs) ?w = Some (w\<lparr>wmem := blit (wmem w) (wdata w) (b # bs),
      wdata := wdata w + length (b # bs)\<rparr>)"
    using Cons.IH [of ?w] Cons.prems blit_blit_append [of "wdata w" "[b]" bs "wmem w"] by simp
  ultimately show ?case by simp
qed

lemma length_bytes:
  assumes "n < 65536"
  shows "ucast (of_nat n AND 0xFF :: u32) = (of_nat n :: u8)"
    and "ucast (drop_bit 8 (of_nat n) AND 0xFF :: u32) = (of_nat (n div 256) :: u8)"
proof -
  have mask: "(0xFF :: u32) = mask 8"
    by (simp add: mask_eq_exp_minus_1)
  have n: "unat (of_nat n :: u32) = n"
    using assms by (rule unat_payload)
  have cast: "(ucast (w AND mask 8) :: u8) = of_nat (unat w)" for w :: u32
    by (rule bit_word_eqI) (simp add: bit_simps flip: unsigned_of_nat)
  show "ucast (of_nat n AND 0xFF :: u32) = (of_nat n :: u8)"
    and "ucast (drop_bit 8 (of_nat n) AND 0xFF :: u32) = (of_nat (n div 256) :: u8)"
    unfolding mask cast unat_drop_bit_eq n by (simp_all add: drop_bit_eq_div)
qed

lemma blit_window_ext:
  assumes "d + length hs + n \<le> length mem"
  shows "blit mem d (hs @ window mem (d + length hs) n) = blit mem d hs"
proof -
  have "drop (d + length (hs @ window mem (d + length hs) n)) mem = drop n (drop (d + length hs) mem)"
    using assms by (simp add: add.commute add.left_commute)
  then show ?thesis
    unfolding blit_def window_def append_assoc by (simp only: append_take_drop_id)
qed

lemma calculateChecksum_frame_body:
  assumes "window mem (d + 2) (length p + 4) = frame_body c i p" and "length p < 65536"
    and "d + (length p + 8) \<le> length mem"
  shows "calculateChecksum mem (d + 2) (of_nat (length p) + 4) =
    Some (fletcher (0, 0) (frame_body c i p))"
  using assms by (simp add: calculateChecksum_fletcher unat_payload)

text \<open>
  Wrapping a payload \<open>p\<close>, given as \<open>message\<close> or already in place behind the header
  (\<open>message\<close> null), turns the block into one with the frame of \<open>p\<close> at the old position.
\<close>

definition payload_given :: "u8 list option \<Rightarrow> writer \<Rightarrow> u8 list \<Rightarrow> bool" where
  "payload_given message w p \<longleftrightarrow>
     (case message of
        None \<Rightarrow> window (wmem w) (wdata w + 6) (length p) = p
      | Some bs \<Rightarrow> window bs 0 (length p) = p \<and> length p \<le> length bs)"

lemma write_payload_frame:
  assumes "wopts w = Options" and n: "length p < 65536" and "length p + 8 \<le> unat (wsize w)"
    and "wdata w + unat (wsize w) \<le> length (wmem w)" and given: "payload_given message w p"
  shows "write_payload message (of_nat (length p)) c i w = Some (True,
     w\<lparr>wmem := blit (wmem w) (wdata w) (frame c i p), wdata := wdata w + (length p + 8),
       wsize := wsize w - of_nat (length p) - 8\<rparr>)"
proof -
  define hs where
    "hs = [DEFAULT_SYNC_A, DEFAULT_SYNC_B, c, i, of_nat (length p), of_nat (length p div 256)]"
  let ?mem = "blit (wmem w) (wdata w) (hs @ p)"
  let ?w = "w\<lparr>wmem := ?mem, wdata := wdata w + 6 + length p,
        wsize := wsize w - 6 - of_nat (length p)\<rparr>"
  have room: "wdata w + (length p + 8) \<le> length (wmem w)"
    using assms by simp
  have six: "length hs = 6" by (simp add: hs_def)
  have hp: "hs @ p = [DEFAULT_SYNC_A, DEFAULT_SYNC_B] @ frame_body c i p"
    by (simp add: frame_body_def hs_def)
  have hdr: "run (map put hs) w = Some (w\<lparr>wmem := blit (wmem w) (wdata w) hs,
      wdata := wdata w + 6\<rparr>)"
    using run_put [of w hs] room six by simp
  have copy: "copy_payload message (of_nat (length p))
        (w\<lparr>wmem := blit (wmem w) (wdata w) hs, wdata := wdata w + 6, wsize := z\<rparr>)
      = Some (w\<lparr>wmem := ?mem, wdata := wdata w + 6, wsize := z\<rparr>)" for z
  proof (cases message)
    case None
    then show ?thesis
      using given room six blit_window_ext [of "wdata w" hs "length p" "wmem w"]
      by (simp add: payload_given_def copy_payload_def)
  next
    case (Some bs)
    then show ?thesis
      using given room six blit_blit_append [of "wdata w" hs p "wmem w"]
      by (simp add: payload_given_def copy_payload_def mem_simps unat_payload [OF n])
  qed
  have win: "window ?mem (wdata w) (length p + 6)
      = [DEFAULT_SYNC_A, DEFAULT_SYNC_B] @ frame_body c i p @ []"
    using window_blit_same [of "wdata w" "hs @ p" "wmem w"] room six
    by (simp add: hp add.commute)
  have "window ?mem (wdata w + 2) (length p + 4) = frame_body c i p"
    using window_middle [OF win] room six by simp
  then have ck: "calculateChecksum ?mem (wdata w + 2) (of_nat (length p) + 4)
      = Some (fletcher (0, 0) (frame_body c i p))"
    using calculateChecksum_frame_body [of ?mem "wdata w" p c i] n room six
    by simp
  have fin: "blit ?mem (wdata w + 6 + length p) (frame_checksum c i p)
      = blit (wmem w) (wdata w) (frame c i p)"
    using blit_blit_append [of "wdata w" "hs @ p" "frame_checksum c i p" "wmem w"] room six
    by (simp add: frame_def packet_def hp add.assoc)
  have big: "\<not> wsize w < of_nat (length p) + 8"
    using n assms(3) by (simp add: word_less_nat_alt unat_payload)
  have cks: "run (map put (frame_checksum c i p)) ?w
      = Some (?w\<lparr>wmem := blit (wmem w) (wdata w) (frame c i p),
                wdata := wdata w + 6 + length p + 2\<rparr>)"
    using run_put [of ?w "frame_checksum c i p"] room six fin by simp
  obtain a b where ab: "fletcher (0, 0) (frame_body c i p) = (a, b)"
    by (cases "fletcher (0, 0) (frame_body c i p)")
  then have fc: "frame_checksum c i p = [a, b]"
    by (simp add: frame_checksum_def)
  show ?thesis
    using hdr copy cks ck big assms(1) length_bytes [OF n] unat_payload(1) [OF n]
    unfolding hs_def fc ab
    by (simp add: write_payload_def algebra_simps Let_def del: run.simps list.map)
qed

section \<open>Round trip of a message\<close>

lemma at_packet_blit:
  assumes "length p < 65536" and "length p + 8 \<le> unat count"
    and "d + unat count \<le> length mem"
  shows "at_packet (Reader (blit mem d (frame c i p)) d count Options) c i p (frame_checksum c i p)"
  using assms window_blit_same [of d "frame c i p" mem]
  by (simp add: at_packet_def Reader_def flip: frame_def)

context ubx_message
begin

lemma write_message_frame:
  assumes "ok m" and "unat (len m) < 65536" and "wopts w = Options"
    and "unat (len m) + 8 \<le> unat (wsize w)" and "wdata w + unat (wsize w) \<le> length (wmem w)"
  shows "\<exists>p. length p = unat (len m) \<and>
    write_message wr len m c i w = Some (True,
      w\<lparr>wmem := blit (blit (wmem w) (wdata w + 6) p) (wdata w) (frame c i p),
        wdata := wdata w + (length p + 8), wsize := wsize w - len m - 8\<rparr>) \<and>
    (\<forall>r m0. at_packet r c i p (frame_checksum c i p) \<longrightarrow> shape m0 \<longrightarrow> canDecode keys c i \<longrightarrow>
       reader_read keys rd False r m0 = Some (True, r\<lparr>rfound := True\<rparr>, m))"
proof -
  obtain p where p: "length p = unat (len m)"
    and wr: "\<And>mem d sz. d + length p \<le> length mem \<Longrightarrow> wr mem d sz m = Some (blit mem d p)"
    and rd: "\<And>mem d m0. shape m0 \<Longrightarrow> d + length p \<le> length mem \<Longrightarrow>
        window mem d (length p) = p \<Longrightarrow> rd mem d (len m) m0 = Some m"
    using codec [OF assms(1)] by blast
  let ?w = "w\<lparr>wmem := blit (wmem w) (wdata w + 6) p\<rparr>"
  have room: "wdata w + 6 + length p \<le> length (wmem w)"
    using assms p by simp
  have len: "of_nat (length p) = len m"
    by (simp add: p)
  have "\<not> wsize w < len m + 8"
    using assms(4) unat_payload(3) [OF assms(2)] by (simp add: word_less_nat_alt)
  then have "write_message wr len m c i w = write_payload None (len m) c i ?w"
    using assms(3) wr [OF room] by (simp add: write_message_def)
  moreover have "payload_given None ?w p"
    using window_blit_same [OF room] by (simp add: payload_given_def)
  ultimately have "write_message wr len m c i w = Some (True,
      w\<lparr>wmem := blit (blit (wmem w) (wdata w + 6) p) (wdata w) (frame c i p),
        wdata := wdata w + (length p + 8), wsize := wsize w - len m - 8\<rparr>)"
    using write_payload_frame [of ?w p None c i] assms room p len by simp
  moreover have "reader_read keys rd False r m0 = Some (True, r\<lparr>rfound := True\<rparr>, m)"
    if "at_packet r c i p (frame_checksum c i p)" "shape m0" "canDecode keys c i" for r m0
    using read_at_packet [OF that(1), of keys rd m0] that(3) window_packet(2) [OF that(1)]
      room_packet [OF that(1)] rd [OF that(2), of "rdata r + 6" "rmem r"] len
    by simp
  ultimately show ?thesis using p by blast
qed

lemma frame_roundtrip:
  assumes "ok m" and "shape m0" and "unat (len m) < 65536" and "canDecode keys c i"
    and "unat (len m) + 8 \<le> unat sz" and "d + unat sz \<le> length mem"
  shows "\<exists>w r. write_message wr len m c i (Writer mem d sz Options) = Some (True, w) \<and>
    wdata w = d + (unat (len m) + 8) \<and>
    reader_read keys rd False (Reader (wmem w) d (of_nat (wdata w - d)) Options) m0
      = Some (True, r, m)"
proof -
  obtain p where p: "length p = unat (len m)"
    and w: "write_message wr len m c i (Writer mem d sz Options) = Some (True,
      Writer mem d sz Options\<lparr>wmem := blit (blit mem (d + 6) p) d (frame c i p),
        wdata := d + (length p + 8), wsize := sz - len m - 8\<rparr>)"
    and r: "\<And>r m0. at_packet r c i p (frame_checksum c i p) \<Longrightarrow> shape m0 \<Longrightarrow>
       reader_read keys rd False r m0 = Some (True, r\<lparr>rfound := True\<rparr>, m)"
    using write_message_frame [of m "Writer mem d sz Options" c i keys] assms
    by (auto simp: Writer_def)
  have n: "unat (of_nat (length p + 8) :: u32) = length p + 8"
    using unat_payload(3) [of "length p"] assms(3) p by simp
  have "at_packet (Reader (blit (blit mem (d + 6) p) d (frame c i p)) d (of_nat (length p + 8))
      Options) c i p (frame_checksum c i p)"
    using assms p n by (intro at_packet_blit) simp_all
  from r [OF this assms(2)] show ?thesis
    using w p by (auto simp: Writer_def)
qed

lemma corrupted_rejected:
  assumes "at_packet r c i p ck" and "ck \<noteq> frame_checksum c i p"
  shows "reader_read keys rd False r m0 = Some (False, r\<lparr>rfound := True\<rparr>, m0)"
  using read_at_packet [OF assms(1)] assms(2) by simp

end

text \<open>Corruptions the checksum always shows.\<close>

lemma frame_checksum_eq:
  "frame_checksum c i p = frame_checksum c' i' p' \<longleftrightarrow>
     fletcher (0, 0) (frame_body c i p) = fletcher (0, 0) (frame_body c' i' p')"
  by (simp add: frame_checksum_def prod_eq_iff)

lemma frame_body_split:
  assumes "length (xs @ zs) = n"
  shows "frame_body c i (xs @ zs) = ([c, i, of_nat n, of_nat (n div 256)] @ xs) @ zs"
  using assms by (simp add: frame_body_def)

lemma checksum_one_byte:
  assumes "frame_checksum c i (xs @ x # ys) = frame_checksum c i (xs @ y # ys)"
  shows "x = y"
  using assms unfolding frame_checksum_eq
  by (simp only: frame_body_split [where n = "length xs + Suc (length ys)"] length_append
      length_Cons fletcher_single_byte)

lemma checksum_adjacent:
  assumes "frame_checksum c i (xs @ x # y # ys) = frame_checksum c i (xs @ y # x # ys)"
  shows "x = y"
  using assms unfolding frame_checksum_eq
  by (simp only: frame_body_split [where n = "length xs + Suc (Suc (length ys))"] length_append
      length_Cons fletcher_adjacent)

lemma checksum_class_id:
  assumes "frame_checksum c i p = frame_checksum c' i p"
  shows "c = c'"
  using assms fletcher_single_byte [of "(0, 0)" "[]" c _ c']
  unfolding frame_checksum_eq frame_body_def append.simps by blast

lemma checksum_message_id:
  assumes "frame_checksum c i p = frame_checksum c i' p"
  shows "i = i'"
  using assms fletcher_single_byte [of "(0, 0)" "[c]" i _ i']
  unfolding frame_checksum_eq frame_body_def append.simps by blast

end
