(* ===== verification/Ubx_Callback.thy ===== *)
theory Ubx_Callback
  imports Ubx_Frame
begin

text \<open>
  \<open>ublox_gps/include/ublox_gps/callback.hpp\<close>: the typed handlers, the multimap of handlers
  and \<open>readCallback\<close>, the loop that decodes a receive buffer and moves the undecoded rest to
  its front. The virtual \<open>CallbackHandler::handle\<close> is the locale \<open>ubx_handler\<close>; the
  specification of the loop is \<open>scan\<close>, a function on the bytes of the buffer.
\<close>

section \<open>The packets in a byte sequence\<close>

type_synonym ubx_packet = "u8 \<times> u8 \<times> u8 list \<times> u8 list"

function scan :: "u8 list \<Rightarrow> ubx_packet list \<times> u8 list" where
  "scan bs =
     (let bs' = drop (first_sync Options bs) bs
      in case packet_of bs' of
           None \<Rightarrow> ([], bs')
         | Some (c, i, p, ck) \<Rightarrow>
             (let (ps, rest) = scan (drop (length p + 8) bs') in ((c, i, p, ck) # ps, rest)))"
  by auto

termination
proof (relation "measure length")
  fix bs bs' :: "u8 list" and x c y i z p ck
  assume "bs' = drop (first_sync Options bs) bs" and "packet_of bs' = Some x" "(c, y) = x"
    "(i, z) = y" "(p, ck) = z"
  then have "packet_of bs' = Some (c, i, p, ck)"
    by auto
  then have "length p + 8 \<le> length bs'"
    by (rule packet_ofD)
  then have "length p + 8 \<le> length bs"
    using \<open>bs' = _\<close> by simp
  then show "(drop (length p + 8) bs', bs) \<in> measure length"
    using \<open>bs' = _\<close> by simp
qed simp

declare scan.simps [simp del]

definition packets :: "u8 list \<Rightarrow> ubx_packet list" where
  "packets bs = fst (scan bs)"

definition remainder :: "u8 list \<Rightarrow> u8 list" where
  "remainder bs = snd (scan bs)"

lemma scan_packets: "scan bs = (packets bs, remainder bs)"
  by (simp add: packets_def remainder_def)

lemma scan_step:
  "packets bs = (case packet_of (drop (first_sync Options bs) bs) of
      None \<Rightarrow> []
    | Some (c, i, p, ck) \<Rightarrow>
        (c, i, p, ck) # packets (drop (length p + 8) (drop (first_sync Options bs) bs)))"
  "remainder bs = (case packet_of (drop (first_sync Options bs) bs) of
      None \<Rightarrow> drop (first_sync Options bs) bs
    | Some (c, i, p, ck) \<Rightarrow>
        remainder (drop (length p + 8) (drop (first_sync Options bs) bs)))"
  unfolding packets_def remainder_def
  by (subst scan.simps, simp add: Let_def split: option.split prod.split)+

lemma scan_Nil [simp]: "packets [] = []" "remainder [] = []"
  using scan_step [of "[]"] by (simp_all add: packet_of_def)

lemma scan_skip:
  assumes "\<not> (b = DEFAULT_SYNC_A \<and> (bs = [] \<or> hd bs = DEFAULT_SYNC_B))"
  shows "scan (b # bs) = scan bs"
proof -
  have "drop (first_sync Options (b # bs)) (b # bs) = drop (first_sync Options bs) bs"
    using assms by auto
  then show ?thesis
    unfolding scan.simps [of "b # bs"] scan.simps [of bs] by simp
qed

lemma scan_packet:
  assumes "length p < 65536" and "length ck = 2"
  shows "packets (packet c i p ck @ rest) = (c, i, p, ck) # packets rest"
    and "remainder (packet c i p ck @ rest) = remainder rest"
proof -
  have none: "first_sync Options (packet c i p ck @ rest) = 0"
    by (simp add: packet_def)
  show "packets (packet c i p ck @ rest) = (c, i, p, ck) # packets rest"
    and "remainder (packet c i p ck @ rest) = remainder rest"
    unfolding scan_step [of "packet c i p ck @ rest"] none
    using assms by (simp_all add: packet_of_packet)
qed

lemma scan_drop_sync: "scan (drop (first_sync Options xs) xs @ ys) = scan (xs @ ys)"
proof (induction xs)
  case Nil
  then show ?case by simp
next
  case (Cons b bs)
  show ?case
  proof (cases "b = DEFAULT_SYNC_A \<and> (bs = [] \<or> hd bs = DEFAULT_SYNC_B)")
    case True
    then show ?thesis by auto
  next
    case False
    then have "\<not> (b = DEFAULT_SYNC_A \<and> (bs @ ys = [] \<or> hd (bs @ ys) = DEFAULT_SYNC_B))"
      by (cases bs) auto
    then show ?thesis
      using Cons.IH False scan_skip [of b "bs @ ys"] by auto
  qed
qed

text \<open>
  Cutting the byte stream: decoding \<open>xs\<close>, keeping the rest, and decoding the rest followed by
  \<open>ys\<close> gives the packets of \<open>xs @ ys\<close>.
\<close>

lemma scan_append:
  "packets (xs @ ys) = packets xs @ packets (remainder xs @ ys) \<and>
   remainder (xs @ ys) = remainder (remainder xs @ ys)"
proof (induction xs rule: scan.induct)
  case (1 xs)
  define zs where "zs = drop (first_sync Options xs) xs"
  have eq: "packets (xs @ ys) = packets (zs @ ys)" "remainder (xs @ ys) = remainder (zs @ ys)"
    using scan_drop_sync [of xs ys] by (simp_all add: zs_def packets_def remainder_def)
  show ?case
  proof (cases "packet_of zs")
    case None
    then show ?thesis
      using eq scan_step [of xs] by (simp add: zs_def)
  next
    case (Some x)
    obtain c i p ck where x: "x = (c, i, p, ck)" by (cases x)
    note D = packet_ofD [OF Some [unfolded x]]
    define rest where "rest = drop (length p + 8) zs"
    have xs: "packets xs = (c, i, p, ck) # packets rest" "remainder xs = remainder rest"
      using scan_step [of xs] Some x by (simp_all add: zs_def rest_def)
    have "zs @ ys = packet c i p ck @ (rest @ ys)"
      using D(3) by (simp add: rest_def)
    then have "packets (zs @ ys) = (c, i, p, ck) # packets (rest @ ys)"
      "remainder (zs @ ys) = remainder (rest @ ys)"
      using scan_packet [OF D(1,2), of c i "rest @ ys"] by simp_all
    moreover have "packets (rest @ ys) = packets rest @ packets (remainder rest @ ys) \<and>
        remainder (rest @ ys) = remainder (remainder rest @ ys)"
      using 1 [OF zs_def Some] x by (simp add: rest_def)
    ultimately show ?thesis
      using eq xs by simp
  qed
qed

text \<open>What is left is a suffix of the bytes with no complete packet in it.\<close>

lemma remainder_suffix: "\<exists>k \<le> length bs. remainder bs = drop k bs"
proof (induction bs rule: scan.induct)
  case (1 bs)
  define zs where "zs = drop (first_sync Options bs) bs"
  show ?case
  proof (cases "packet_of zs")
    case None
    then show ?thesis
      using scan_step(2) [of bs] first_sync_le [of Options bs] by (auto simp: zs_def)
  next
    case (Some x)
    obtain c i p ck where x: "x = (c, i, p, ck)" by (cases x)
    have "remainder bs = remainder (drop (length p + 8) zs)"
      using scan_step(2) [of bs] Some x by (simp add: zs_def)
    moreover have "\<exists>k \<le> length (drop (length p + 8) zs).
        remainder (drop (length p + 8) zs) = drop k (drop (length p + 8) zs)"
      using 1 [OF zs_def Some] x by simp
    then obtain k where "k \<le> length (drop (length p + 8) zs)"
      "remainder (drop (length p + 8) zs) = drop k (drop (length p + 8) zs)"
      by blast
    moreover have "length p + 8 \<le> length zs"
      using Some x by (auto dest: packet_ofD)
    moreover have "first_sync Options bs \<le> length bs"
      by (rule first_sync_le)
    ultimately show ?thesis
      by (intro exI [of _ "k + (length p + 8) + first_sync Options bs"])
        (simp add: zs_def add.assoc)
  qed
qed

lemma remainder_no_packet: "packets (remainder bs) = []"
  using scan_append [of bs "[]"] by simp

lemma scan_frames:
  assumes "\<And>c i p. (c, i, p) \<in> set ms \<Longrightarrow> length p < 65536"
  shows "packets (concat (map (\<lambda>(c, i, p). frame c i p) ms) @ rest)
      = map (\<lambda>(c, i, p). (c, i, p, frame_checksum c i p)) ms @ packets rest \<and>
    remainder (concat (map (\<lambda>(c, i, p). frame c i p) ms) @ rest) = remainder rest"
  using assms
proof (induction ms)
  case Nil
  then show ?case by simp
next
  case (Cons m ms)
  obtain c i p where m: "m = (c, i, p)" by (cases m)
  then have "length p < 65536" using Cons.prems [of c i p] by simp
  then have "packets (frame c i p @ bs) = (c, i, p, frame_checksum c i p) # packets bs"
    "remainder (frame c i p @ bs) = remainder bs" for bs
    unfolding frame_def by (simp_all add: scan_packet)
  moreover note Cons.IH [OF Cons.prems [OF list.set_intros(2)]]
  ultimately show ?case
    by (simp add: m)
qed

lemma scan_garbage: "DEFAULT_SYNC_A \<notin> set g \<Longrightarrow> scan (g @ bs) = scan bs"
  by (induction g) (auto simp: scan_skip)

section \<open>A handler for one message type\<close>

text \<open>
  \<open>hcalls\<close> records the arguments of the calls of \<open>func_\<close> and \<open>hnotified\<close> counts
  \<open>condition_.notify_all()\<close>.
\<close>

record 'm handler =
  hmessage :: 'm
  hfunc :: bool
  hcalls :: "'m list"
  hnotified :: nat

definition CallbackHandler_init :: "'m \<Rightarrow> bool \<Rightarrow> 'm handler" where
  "CallbackHandler_init m0 func = \<lparr>hmessage = m0, hfunc = func, hcalls = [], hnotified = 0\<rparr>"

definition handler_get :: "'m handler \<Rightarrow> 'm" where
  "handler_get h = hmessage h"

definition handler_handle ::
  "message_keys \<Rightarrow> (u8 list \<Rightarrow> nat \<Rightarrow> u32 \<Rightarrow> 'm \<Rightarrow> 'm option) \<Rightarrow> 'm handler \<Rightarrow> reader \<Rightarrow>
   ('m handler \<times> reader) option" where
  "handler_handle keys rd h r = do {
     (ok, r, m) \<leftarrow> reader_read keys rd False r (hmessage h);
     let h = h\<lparr>hmessage := m\<rparr>;
     if \<not> ok then Some (h\<lparr>hnotified := hnotified h + 1\<rparr>, r)
     else do {
       let h = (if hfunc h then h\<lparr>hcalls := hcalls h @ [m]\<rparr> else h);
       Some (h\<lparr>hnotified := hnotified h + 1\<rparr>, r)
     }
   }"

section \<open>The multimap of handlers\<close>

text \<open>
  \<open>callbacks_\<close> is a list of entries in the order of the multimap: by key, and in the order of
  insertion among equal keys. An entry has the number of its node, which is what the iterator
  that \<open>insert\<close> returns refers to.
\<close>

type_synonym ubx_key = "u8 \<times> u8"

record 'h callbacks =
  callbacks :: "(ubx_key \<times> nat \<times> 'h) list"
  next_node :: nat

definition key_less :: "ubx_key \<Rightarrow> ubx_key \<Rightarrow> bool" where
  "key_less k l \<longleftrightarrow> fst k < fst l \<or> fst k = fst l \<and> snd k < snd l"

fun multimap_insert :: "ubx_key \<Rightarrow> 'v \<Rightarrow> (ubx_key \<times> 'v) list \<Rightarrow> (ubx_key \<times> 'v) list" where
  "multimap_insert k v [] = [(k, v)]"
| "multimap_insert k v ((l, w) # es) =
     (if key_less k l then (k, v) # (l, w) # es else (l, w) # multimap_insert k v es)"

definition callbacks_insert :: "ubx_key \<Rightarrow> 'h \<Rightarrow> 'h callbacks \<Rightarrow> nat \<times> 'h callbacks" where
  "callbacks_insert key h cs =
     (next_node cs,
      cs\<lparr>callbacks := multimap_insert key (next_node cs, h) (callbacks cs),
        next_node := next_node cs + 1\<rparr>)"

definition callbacks_erase :: "nat \<Rightarrow> 'h callbacks \<Rightarrow> 'h callbacks" where
  "callbacks_erase n cs = cs\<lparr>callbacks := filter (\<lambda>(k, m, h). m \<noteq> n) (callbacks cs)\<rparr>"

text \<open>
  \<open>handle\<close> walks from \<open>lower_bound(key)\<close> to \<open>upper_bound(key)\<close>; \<open>hdl\<close> is the virtual
  \<open>CallbackHandler::handle\<close>.
\<close>

fun handle_range ::
  "('h \<Rightarrow> reader \<Rightarrow> ('h \<times> reader) option) \<Rightarrow> ubx_key \<Rightarrow> (ubx_key \<times> nat \<times> 'h) list \<Rightarrow> reader \<Rightarrow>
   ((ubx_key \<times> nat \<times> 'h) list \<times> reader) option" where
  "handle_range hdl key [] r = Some ([], r)"
| "handle_range hdl key ((k, n, h) # es) r =
     (if key_less k key then do {
        (es, r) \<leftarrow> handle_range hdl key es r;
        Some ((k, n, h) # es, r)
      }
      else if key_less key k then Some ((k, n, h) # es, r)
      else do {
        (h, r) \<leftarrow> hdl h r;
        (es, r) \<leftarrow> handle_range hdl key es r;
        Some ((k, n, h) # es, r)
      })"

definition callbacks_handle ::
  "('h \<Rightarrow> reader \<Rightarrow> ('h \<times> reader) option) \<Rightarrow> 'h callbacks \<Rightarrow> reader \<Rightarrow>
   ('h callbacks \<times> reader) option" where
  "callbacks_handle hdl cs r = do {
     c \<leftarrow> classId r;
     i \<leftarrow> messageId r;
     (es, r) \<leftarrow> handle_range hdl (c, i) (callbacks cs) r;
     Some (cs\<lparr>callbacks := es\<rparr>, r)
   }"

text \<open>
  The blocking \<open>read<T>\<close> in the two parts that other threads can run between: the insertion of
  a fresh handler, and what follows the wait (\<open>woken\<close> is the result of \<open>wait\<close>).
\<close>

definition callbacks_read_begin ::
  "ubx_key \<Rightarrow> 'm \<Rightarrow> 'm handler callbacks \<Rightarrow> nat \<times> 'm handler callbacks" where
  "callbacks_read_begin key m0 cs = callbacks_insert key (CallbackHandler_init m0 False) cs"

definition callbacks_read_end ::
  "nat \<Rightarrow> bool \<Rightarrow> 'm \<Rightarrow> 'm handler callbacks \<Rightarrow> (bool \<times> 'm \<times> 'm handler callbacks) option" where
  "callbacks_read_end n woken message cs = do {
     (k, m, h) \<leftarrow> List.find (\<lambda>(k, m, h). m = n) (callbacks cs);
     let cs = callbacks_erase n cs;
     Some (if woken then (True, handler_get h, cs) else (False, message, cs))
   }"

section \<open>The decoding loop\<close>

partial_function (option) read_loop ::
  "('h \<Rightarrow> reader \<Rightarrow> ('h \<times> reader) option) \<Rightarrow> 'h callbacks \<Rightarrow> reader \<Rightarrow>
   ('h callbacks \<times> reader) option" where
  "read_loop hdl cs r = do {
     r \<leftarrow> reader_search r;
     if reader_pos r = reader_end r then Some (cs, r)
     else do {
       (f, r) \<leftarrow> reader_found r;
       if \<not> f then Some (cs, r)
       else do {
         (cs, r) \<leftarrow> callbacks_handle hdl cs r;
         read_loop hdl cs r
       }
     }
   }"

definition readCallback ::
  "('h \<Rightarrow> reader \<Rightarrow> ('h \<times> reader) option) \<Rightarrow> 'h callbacks \<Rightarrow> u8 list \<Rightarrow> nat \<Rightarrow>
   ('h callbacks \<times> u8 list \<times> nat) option" where
  "readCallback hdl cs mem sz = do {
     (cs, r) \<leftarrow> read_loop hdl cs (Reader mem 0 (of_nat sz) Options);
     rest \<leftarrow> load mem (reader_pos r) (reader_end r - reader_pos r);
     mem \<leftarrow> store mem 0 rest;
     Some (cs, mem, reader_pos r)
   }"

section \<open>The handler interface\<close>

text \<open>
  What \<open>CallbackHandlers\<close> relies on: at a packet it accepts, a handler reacts and leaves the
  reader where it is.
\<close>

definition dispatch ::
  "('h \<Rightarrow> ubx_packet \<Rightarrow> 'h) \<Rightarrow> ubx_packet \<Rightarrow> (ubx_key \<times> nat \<times> 'h) list \<Rightarrow>
   (ubx_key \<times> nat \<times> 'h) list" where
  "dispatch react pk es =
     map (\<lambda>(k, n, h). (k, n, if k = (fst pk, fst (snd pk)) then react h pk else h)) es"

definition entries_sorted :: "(ubx_key \<times> 'v) list \<Rightarrow> bool" where
  "entries_sorted es \<longleftrightarrow> sorted_wrt (\<lambda>a b. \<not> key_less (fst b) (fst a)) es"

lemma key_less_irrefl [simp]: "\<not> key_less k k"
  by (simp add: key_less_def)

lemma key_less_trans: "key_less k l \<Longrightarrow> key_less l m \<Longrightarrow> key_less k m"
  by (auto simp: key_less_def)

lemma key_less_total: "\<not> key_less k l \<Longrightarrow> \<not> key_less l k \<Longrightarrow> k = l"
  by (auto simp: key_less_def prod_eq_iff)

lemma set_multimap_insert: "set (multimap_insert k v es) = insert (k, v) (set es)"
  by (induction k v es rule: multimap_insert.induct) auto

lemma multimap_insert_sorted:
  "entries_sorted es \<Longrightarrow> entries_sorted (multimap_insert k v es)"
proof (induction k v es rule: multimap_insert.induct)
  case (1 k v)
  then show ?case by (simp add: entries_sorted_def)
next
  case (2 k v l w es)
  then show ?case
    by (auto simp: entries_sorted_def set_multimap_insert dest: key_less_trans)
qed

lemma dispatch_Cons:
  "dispatch react pk ((k, n, h) # es) =
     (k, n, if k = (fst pk, fst (snd pk)) then react h pk else h) # dispatch react pk es"
  by (simp add: dispatch_def)

lemma dispatch_idle:
  assumes "\<And>k n h. (k, n, h) \<in> set es \<Longrightarrow> k \<noteq> (fst pk, fst (snd pk))"
  shows "dispatch react pk es = es"
proof -
  have "map (\<lambda>(k, n, h). (k, n, if k = (fst pk, fst (snd pk)) then react h pk else h)) es
      = map (\<lambda>e. e) es"
    using assms by (intro map_cong) (auto dest: assms)
  then show ?thesis by (simp add: dispatch_def)
qed

lemma dispatch_sorted: "entries_sorted (dispatch react pk es) = entries_sorted es"
  by (simp add: entries_sorted_def dispatch_def sorted_wrt_map case_prod_unfold)

locale ubx_handler =
  fixes hdl :: "'h \<Rightarrow> reader \<Rightarrow> ('h \<times> reader) option"
    and react :: "'h \<Rightarrow> ubx_packet \<Rightarrow> 'h"
    and hinv :: "'h \<Rightarrow> bool"
    and accepts :: "ubx_packet \<Rightarrow> bool"
  assumes handled: "hinv h \<Longrightarrow> rfound r \<Longrightarrow> at_packet r c i p ck \<Longrightarrow> accepts (c, i, p, ck) \<Longrightarrow>
      hdl h r = Some (react h (c, i, p, ck), r)"
    and kept: "hinv h \<Longrightarrow> accepts pk \<Longrightarrow> hinv (react h pk)"
begin

definition wf_entries :: "(ubx_key \<times> nat \<times> 'h) list \<Rightarrow> bool" where
  "wf_entries es \<longleftrightarrow> entries_sorted es \<and> (\<forall>(k, n, h) \<in> set es. hinv h)"

lemma wf_dispatch:
  assumes "wf_entries es" and "accepts pk"
  shows "wf_entries (dispatch react pk es)"
proof -
  have "hinv h" if "(k, n, h) \<in> set (dispatch react pk es)" for k n h
    using that assms(1) kept [OF _ assms(2)]
    by (auto simp: wf_entries_def dispatch_def split: if_splits)
  then show ?thesis
    using assms(1) by (auto simp: wf_entries_def dispatch_sorted)
qed

lemma handle_range_dispatch:
  assumes "wf_entries es" and "rfound r" and "at_packet r c i p ck" and "accepts (c, i, p, ck)"
  shows "handle_range hdl (c, i) es r = Some (dispatch react (c, i, p, ck) es, r)"
  using assms(1)
proof (induction es)
  case Nil
  then show ?case by (simp add: dispatch_def)
next
  case (Cons e es)
  obtain k n h where e: "e = (k, n, h)" by (cases e)
  have wf: "wf_entries es" and h: "hinv h"
    using Cons.prems by (auto simp: wf_entries_def entries_sorted_def e)
  have later: "\<not> key_less l k" if "(l, m, g) \<in> set es" for l m g
    using that Cons.prems by (auto simp: wf_entries_def entries_sorted_def e)
  consider "key_less k (c, i)" | "key_less (c, i) k" | "k = (c, i)"
    using key_less_total by blast
  then show ?case
  proof cases
    case 1
    then show ?thesis
      using Cons.IH [OF wf] by (auto simp: e dispatch_Cons)
  next
    case 2
    then have "dispatch react (c, i, p, ck) (e # es) = e # es"
      using later by (intro dispatch_idle) (auto simp: e)
    then show ?thesis
      using 2 by (auto simp: e dest: key_less_trans)
  next
    case 3
    then show ?thesis
      using Cons.IH [OF wf] handled [OF h assms(2,3,4)] by (simp add: e dispatch_Cons)
  qed
qed

lemma callbacks_handle_dispatch:
  assumes "wf_entries (callbacks cs)" and "rfound r" and "at_packet r c i p ck"
    and "accepts (c, i, p, ck)"
  shows "callbacks_handle hdl cs r
    = Some (cs\<lparr>callbacks := dispatch react (c, i, p, ck) (callbacks cs)\<rparr>, r)"
  using handle_range_dispatch [OF assms] header_at_packet [OF assms(3)]
  by (simp add: callbacks_handle_def)

lemma read_loop_resume:
  assumes "reader_ok r" and "rfound r" and "packet_of (rbytes r) = Some (c, i, p, ck)"
  obtains r' where "read_loop hdl cs r = read_loop hdl cs r'" and "in_block r'" and "\<not> rfound r'"
    and "rmem r' = rmem r" and "rbytes r' = drop (length p + 8) (rbytes r)"
    and "reader_end r' = reader_end r"
proof -
  obtain r' where r': "reader_next r = Some r'" "in_block r'" "\<not> rfound r'" "rmem r' = rmem r"
    "rbytes r' = drop (length p + 8) (rbytes r)" "rdata r' = rdata r + (length p + 8)"
    using next_found [OF assms] by blast
  have "reader_search r = reader_search r'"
    using assms(2) r'(1,3) by (simp add: reader_search_def)
  then have "read_loop hdl cs r = read_loop hdl cs r'"
    by (subst (1 2) read_loop.simps) simp
  moreover have "reader_end r' = reader_end r"
    using r' assms length_rbytes [of r] length_rbytes [OF r'(2)]
    by (auto simp: reader_end_def reader_ok_def dest: packet_ofD)
  ultimately show thesis using that r' by blast
qed

text \<open>
  The loop ends, stays in the buffer, dispatches the packets of the buffer in order and stops at
  the remainder.
\<close>

lemma read_loop_scan:
  assumes "in_block r" and "\<not> rfound r" and "wf_entries (callbacks cs)"
    and "list_all accepts (packets (rbytes r))"
  shows "\<exists>r'. read_loop hdl cs r =
      Some (cs\<lparr>callbacks := fold (dispatch react) (packets (rbytes r)) (callbacks cs)\<rparr>, r') \<and>
    in_block r' \<and> rbytes r' = remainder (rbytes r) \<and> rmem r' = rmem r \<and>
    reader_end r' = reader_end r"
  using assms
proof (induction "rbytes r" arbitrary: r cs rule: scan.induct)
  case 1
  define k where "k = first_sync Options (rbytes r)"
  have le: "k \<le> unat (rcount r)"
    using first_sync_le [of Options "rbytes r"] 1(2) by (simp add: k_def)
  let ?s = "r\<lparr>rdata := rdata r + k, rcount := rcount r - of_nat k\<rparr>"
  have search: "reader_search r = Some ?s"
    using search_not_found [OF 1(2,3)] by (simp add: k_def)
  note drop = rbytes_drop [OF 1(2) le, of ?s, simplified]
  have nf: "\<not> rfound ?s" using 1(3) by simp
  have end_s: "reader_end ?s = reader_end r"
    using drop(3) le by (simp add: reader_end_def)
  show ?case
  proof (cases "packet_of (drop k (rbytes r))")
    case None
    then have "reader_found ?s = Some (False, ?s)"
      using reader_found_packet_of [OF drop(1)] nf drop(2) by simp
    then have "read_loop hdl cs r = Some (cs, ?s)"
      using search by (subst read_loop.simps) simp
    then show ?thesis
      using None scan_step [of "rbytes r"] drop end_s by (simp add: k_def)
  next
    case (Some x)
    obtain c i p ck where x: "x = (c, i, p, ck)" by (cases x)
    let ?t = "?s\<lparr>rfound := True\<rparr>"
    define cs' where "cs' = cs\<lparr>callbacks := dispatch react (c, i, p, ck) (callbacks cs)\<rparr>"
    have at: "at_packet ?s c i p ck"
      using Some x at_packet_iff [OF drop(1)] drop(2) by simp
    then have at': "at_packet ?t c i p ck" by (simp add: at_packet_def)
    have pk: "packets (rbytes r) = (c, i, p, ck) # packets (drop (length p + 8) (drop k (rbytes r)))"
      and rem: "remainder (rbytes r) = remainder (drop (length p + 8) (drop k (rbytes r)))"
      using Some x scan_step [of "rbytes r"] by (simp_all add: k_def)
    have acc: "accepts (c, i, p, ck)"
      using 1(5) pk by simp
    have "reader_pos ?s \<noteq> reader_end ?s"
      using packet_ofD(4) [OF Some [unfolded x]] drop 1(2) by (auto simp: reader_pos_def reader_end_def)
    then have loop: "read_loop hdl cs r = read_loop hdl cs' ?t"
      using search found_at_packet [OF at] callbacks_handle_dispatch [OF 1(4) _ at' acc]
      by (subst read_loop.simps) (simp add: cs'_def)
    have ok: "reader_ok ?t" and rb: "rbytes ?t = drop k (rbytes r)" and t: "rfound ?t"
      using drop at' by (auto simp: reader_ok_def in_block_def rbytes_def)
    have pkt: "packet_of (rbytes ?t) = Some (c, i, p, ck)"
      using Some x rb by simp
    obtain u where u: "read_loop hdl cs' ?t = read_loop hdl cs' u" "in_block u" "\<not> rfound u"
      "rmem u = rmem ?t" "rbytes u = drop (length p + 8) (rbytes ?t)"
      "reader_end u = reader_end ?t"
      by (rule read_loop_resume [OF ok t pkt])
    have "\<exists>r'. read_loop hdl cs' u =
        Some (cs'\<lparr>callbacks := fold (dispatch react) (packets (rbytes u)) (callbacks cs')\<rparr>, r') \<and>
      in_block r' \<and> rbytes r' = remainder (rbytes u) \<and> rmem r' = rmem u \<and>
      reader_end r' = reader_end u"
    proof (rule 1(1) [OF k_def [THEN arg_cong, of "\<lambda>k. drop k (rbytes r)"] Some x [symmetric] refl refl])
      show "drop (length p + 8) (drop k (rbytes r)) = rbytes u"
        using u(5) rb by simp
      show "wf_entries (callbacks cs')"
        using wf_dispatch [OF 1(4) acc] by (simp add: cs'_def)
      show "list_all accepts (packets (rbytes u))"
        using 1(5) pk u(5) rb by simp
    qed (use u in simp_all)
    then show ?thesis
      using loop u pk rem end_s rb by (auto simp: cs'_def reader_end_def)
  qed
qed

text \<open>
  \<open>readCallback\<close>: the handlers have seen the packets of the buffer in order, and the block
  starts with the bytes that are left.
\<close>

lemma readCallback_scan:
  assumes "wf_entries (callbacks cs)" and "sz \<le> length mem" and "sz < 2 ^ 32"
    and "list_all accepts (packets (take sz mem))"
  shows "\<exists>mem' n. readCallback hdl cs mem sz =
      Some (cs\<lparr>callbacks := fold (dispatch react) (packets (take sz mem)) (callbacks cs)\<rparr>, mem', n) \<and>
    n \<le> sz \<and> length mem' = length mem \<and> take (sz - n) mem' = remainder (take sz mem)"
proof -
  let ?r = "Reader mem 0 (of_nat sz) Options"
  have n: "unat (of_nat sz :: u32) = sz"
    using assms(3) by (simp add: unat_of_nat)
  have r: "in_block ?r" "\<not> rfound ?r" "rbytes ?r = take sz mem" "reader_end ?r = sz"
    "rmem ?r = mem"
    using assms(2) n by (simp_all add: in_block_def Reader_def rbytes_def window_def reader_end_def)
  obtain r' where loop: "read_loop hdl cs ?r =
      Some (cs\<lparr>callbacks := fold (dispatch react) (packets (take sz mem)) (callbacks cs)\<rparr>, r')"
    and r': "in_block r'" "rbytes r' = remainder (take sz mem)" "rmem r' = mem" "reader_end r' = sz"
    using read_loop_scan [OF r(1,2) assms(1)] assms(4) r by auto
  have pos: "reader_pos r' \<le> sz" "reader_end r' - reader_pos r' = unat (rcount r')"
    using r'(4) by (simp_all add: reader_pos_def reader_end_def)
  have rest: "load mem (reader_pos r') (unat (rcount r')) = Some (remainder (take sz mem))"
    using r' by (simp add: rbytes_def in_block_def reader_pos_def mem_simps)
  have len: "length (remainder (take sz mem)) = sz - reader_pos r'"
    using r'(1,2,4) length_rbytes [OF r'(1)] by (simp add: reader_pos_def reader_end_def)
  have "readCallback hdl cs mem sz =
      Some (cs\<lparr>callbacks := fold (dispatch react) (packets (take sz mem)) (callbacks cs)\<rparr>,
        blit mem 0 (remainder (take sz mem)), reader_pos r')"
    using loop pos rest len assms(2) by (simp add: readCallback_def mem_simps)
  moreover have "take (sz - reader_pos r') (blit mem 0 (remainder (take sz mem)))
      = remainder (take sz mem)"
    using len by (simp add: blit_def)
  ultimately show ?thesis
    using pos(1) len assms(2) by (intro exI conjI) auto
qed

end

text \<open>Handlers of two kinds in one multimap.\<close>

definition handle_either ::
  "('a \<Rightarrow> reader \<Rightarrow> ('a \<times> reader) option) \<Rightarrow> ('b \<Rightarrow> reader \<Rightarrow> ('b \<times> reader) option) \<Rightarrow>
   'a + 'b \<Rightarrow> reader \<Rightarrow> (('a + 'b) \<times> reader) option" where
  "handle_either f g h r =
     (case h of
        Inl a \<Rightarrow> map_option (map_prod Inl id) (f a r)
      | Inr b \<Rightarrow> map_option (map_prod Inr id) (g b r))"

locale ubx_handler_pair =
  left: ubx_handler hdl1 react1 hinv1 accepts1 + right: ubx_handler hdl2 react2 hinv2 accepts2
  for hdl1 :: "'a \<Rightarrow> reader \<Rightarrow> ('a \<times> reader) option" and react1 hinv1 accepts1
    and hdl2 :: "'b \<Rightarrow> reader \<Rightarrow> ('b \<times> reader) option" and react2 hinv2 accepts2

sublocale ubx_handler_pair \<subseteq> either: ubx_handler
  "handle_either hdl1 hdl2" "\<lambda>h pk. map_sum (\<lambda>a. react1 a pk) (\<lambda>b. react2 b pk) h"
  "case_sum hinv1 hinv2" "\<lambda>pk. accepts1 pk \<and> accepts2 pk"
  by unfold_locales
    (auto simp: handle_either_def left.handled right.handled left.kept right.kept split: sum.splits)

section \<open>The typed handler meets the interface\<close>

definition handler_react ::
  "message_keys \<Rightarrow> (u8 list \<Rightarrow> nat \<Rightarrow> u32 \<Rightarrow> 'm \<Rightarrow> 'm option) \<Rightarrow> 'm handler \<Rightarrow> ubx_packet \<Rightarrow>
   'm handler" where
  "handler_react keys rd h pk =
     (case pk of (c, i, p, ck) \<Rightarrow>
        if canDecode keys c i \<and> ck = frame_checksum c i p
        then (case rd p 0 (of_nat (length p)) (hmessage h) of
                None \<Rightarrow> h
              | Some m \<Rightarrow> h\<lparr>hmessage := m, hcalls := hcalls h @ (if hfunc h then [m] else []),
                           hnotified := hnotified h + 1\<rparr>)
        else h\<lparr>hnotified := hnotified h + 1\<rparr>)"

locale typed_handler = ubx_message rd wr len ok shape
  for rd :: "u8 list \<Rightarrow> nat \<Rightarrow> u32 \<Rightarrow> 'm \<Rightarrow> 'm option" and wr len ok shape +
  fixes keys :: message_keys
begin

text \<open>A payload that means one message, whatever surrounds it in the buffer.\<close>

definition decodes :: "u8 list \<Rightarrow> 'm \<Rightarrow> bool" where
  "decodes p m \<longleftrightarrow> shape m \<and>
     (\<forall>mem d m0. shape m0 \<longrightarrow> d + length p \<le> length mem \<longrightarrow> window mem d (length p) = p \<longrightarrow>
        rd mem d (of_nat (length p)) m0 = Some m)"

definition decodable :: "ubx_packet \<Rightarrow> bool" where
  "decodable pk \<longleftrightarrow> (case pk of (c, i, p, ck) \<Rightarrow>
     canDecode keys c i \<and> ck = frame_checksum c i p \<longrightarrow> (\<exists>m. decodes p m))"

lemma decodes_written:
  assumes "ok m" and "shape m"
  shows "\<exists>p. length p = unat (len m) \<and> decodes p m"
  using codec [OF assms(1)] assms(2) by (force simp: decodes_def)

end

sublocale typed_handler \<subseteq> typed: ubx_handler
  "handler_handle keys rd" "handler_react keys rd" "\<lambda>h. shape (hmessage h)" decodable
proof unfold_locales
  fix h :: "'m handler" and r c i p ck
  assume shape: "shape (hmessage h)" and found: "rfound r" and at: "at_packet r c i p ck"
    and dec: "decodable (c, i, p, ck)"
  have r: "r\<lparr>rfound := True\<rparr> = r" using found by simp
  show "handler_handle keys rd h r = Some (handler_react keys rd h (c, i, p, ck), r)"
  proof (cases "canDecode keys c i \<and> ck = frame_checksum c i p")
    case True
    then obtain m where m: "decodes p m" using dec by (auto simp: decodable_def)
    have "rd (rmem r) (rdata r + 6) (of_nat (length p)) (hmessage h) = Some m"
      using m shape room_packet [OF at] window_packet(2) [OF at] by (simp add: decodes_def)
    moreover have "rd p 0 (of_nat (length p)) (hmessage h) = Some m"
      using m shape by (simp add: decodes_def window_def)
    ultimately show ?thesis
      using True read_at_packet [OF at, of keys rd "hmessage h"]
      by (simp add: handler_handle_def handler_react_def r)
  next
    case False
    then show ?thesis
      using read_at_packet [OF at, of keys rd "hmessage h"]
      by (auto simp: handler_handle_def handler_react_def r)
  qed
next
  fix h :: "'m handler" and pk
  assume "shape (hmessage h)" and "decodable pk"
  moreover obtain c i p ck where "pk = (c, i, p, ck)" by (cases pk)
  ultimately show "shape (hmessage (handler_react keys rd h pk))"
    by (auto simp: handler_react_def decodable_def decodes_def window_def)
qed

section \<open>What holds for every buffer\<close>

text \<open>
  Whatever the bytes are: if the loop returns, it returns inside the buffer. The only thing it
  asks of a handler is to leave the reader alone, which the typed handler does.
\<close>

definition leaves_reader :: "('h \<Rightarrow> reader \<Rightarrow> ('h \<times> reader) option) \<Rightarrow> bool" where
  "leaves_reader hdl \<longleftrightarrow> (\<forall>h r h' r'. rfound r \<longrightarrow> hdl h r = Some (h', r') \<longrightarrow> r' = r)"

lemma leaves_readerD: "leaves_reader hdl \<Longrightarrow> rfound r \<Longrightarrow> hdl h r = Some (h', r') \<Longrightarrow> r' = r"
  by (simp add: leaves_reader_def)

lemma handler_handle_reader: "leaves_reader (handler_handle keys rd)"
  unfolding leaves_reader_def
  by (auto simp: handler_handle_def reader_read_def reader_found_def bind_eq_Some_conv Let_def
      split: if_splits)

lemma handle_range_reader:
  assumes hdl: "leaves_reader hdl"
    and "rfound r" and "handle_range hdl key es r = Some (es', r')"
  shows "r' = r"
  using assms(2,3)
proof (induction es arbitrary: r es' r')
  case Nil
  then show ?case by simp
next
  case (Cons e es)
  obtain k n h where e: "e = (k, n, h)" by (cases e)
  show ?case
  proof (cases "key_less k key \<or> key_less key k")
    case True
    then show ?thesis
      using Cons by (auto simp: e bind_eq_Some_conv split: if_splits)
  next
    case False
    then obtain h' s es'' where "hdl h r = Some (h', s)" "handle_range hdl key es s = Some (es'', r')"
      using Cons.prems(2) by (auto simp: e bind_eq_Some_conv)
    then show ?thesis
      using leaves_readerD [OF hdl Cons.prems(1)] Cons.IH Cons.prems(1) by blast
  qed
qed

lemma reader_search_ok:
  assumes "reader_ok r" and "reader_search r = Some r'"
  shows "in_block r' \<and> \<not> rfound r' \<and> rmem r' = rmem r \<and> reader_end r' = reader_end r"
proof -
  have go: "in_block t \<and> \<not> rfound t \<and> rmem t = rmem s \<and> reader_end t = reader_end s"
    if "in_block s" "\<not> rfound s" "reader_search s = Some t" for s t
  proof -
    define k where "k = first_sync Options (rbytes s)"
    have le: "k \<le> unat (rcount s)"
      using first_sync_le [of Options "rbytes s"] that(1) by (simp add: k_def)
    let ?t = "s\<lparr>rdata := rdata s + k, rcount := rcount s - of_nat k\<rparr>"
    have t: "t = ?t"
      using search_not_found [OF that(1,2)] that(3) by (simp add: k_def)
    note drop = rbytes_drop [OF that(1) le, of ?t, simplified]
    have "reader_end ?t = reader_end s"
      using drop(3) le by (simp add: reader_end_def)
    then show ?thesis
      unfolding t using drop(1) that(2) by simp
  qed
  show ?thesis
  proof (cases "rfound r")
    case False
    then show ?thesis using go [OF _ _ assms(2)] assms(1) by (simp add: reader_ok_def)
  next
    case True
    then obtain c i p ck where pk: "packet_of (rbytes r) = Some (c, i, p, ck)"
      using assms(1) at_packet_iff by (auto simp: reader_ok_def)
    obtain s where s: "reader_next r = Some s" "in_block s" "\<not> rfound s" "rmem s = rmem r"
      "rbytes s = drop (length p + 8) (rbytes r)" "rdata s = rdata r + (length p + 8)"
      using next_found [OF assms(1) True pk] by blast
    have "reader_search s = Some r'"
      using assms(2) True s(1,3) by (simp add: reader_search_def)
    moreover have "reader_end s = reader_end r"
      using s length_rbytes [OF s(2)] assms(1) packet_ofD(4) [OF pk]
      by (auto simp: reader_end_def reader_ok_def)
    ultimately show ?thesis using go [OF s(2,3), of r'] s(4) by simp
  qed
qed

lemma read_loop_safe:
  assumes hdl: "leaves_reader hdl"
    and "read_loop hdl cs r = Some (cs', r')" and "reader_ok r"
  shows "in_block r' \<and> rmem r' = rmem r \<and> reader_end r' = reader_end r"
proof -
  have "\<forall>cs' r'. x = (cs', r') \<longrightarrow> leaves_reader hdl \<longrightarrow> reader_ok r \<longrightarrow> in_block r' \<and> rmem r' = rmem r \<and> reader_end r' = reader_end r"
    if "read_loop hdl cs r = Some x" for x
    using that
  proof (induction rule: read_loop.raw_induct [rotated, consumes 1, case_names step])
    case (step f hdl cs r y)
    show ?case
    proof (intro allI impI)
      fix cs' r'
      assume y: "y = (cs', r')" and ok: "reader_ok r"
        and hdl: "leaves_reader hdl"
      obtain s where s: "reader_search r = Some s"
        using step(2) by (auto simp: bind_eq_Some_conv)
      note S = reader_search_ok [OF ok s]
      show "in_block r' \<and> rmem r' = rmem r \<and> reader_end r' = reader_end r"
      proof (cases "reader_pos s = reader_end s \<or> packet_of (rbytes s) = None")
        case True
        then have "r' = s"
          using step(2) s y reader_found_packet_of [of s] S by (auto split: if_splits)
        then show ?thesis using S by simp
      next
        case False
        then obtain c i p ck where pk: "packet_of (rbytes s) = Some (c, i, p, ck)" by auto
        define t where "t = s\<lparr>rfound := True\<rparr>"
        have found: "reader_found s = Some (True, t)"
          using reader_found_packet_of [of s] S pk by (simp add: t_def)
        then obtain cs1 u where u: "callbacks_handle hdl cs t = Some (cs1, u)" "f hdl cs1 u = Some (cs', r')"
          using step(2) s y False by (auto simp: bind_eq_Some_conv)
        have ut: "u = t"
          using u(1) handle_range_reader [of hdl t] hdl
          by (auto simp: callbacks_handle_def bind_eq_Some_conv t_def)
        have "at_packet s c i p ck"
          using S pk at_packet_iff [of s] by simp
        then have "reader_ok t"
          using S by (auto simp: reader_ok_def t_def in_block_def at_packet_def)
        then have "in_block r' \<and> rmem r' = rmem t \<and> reader_end r' = reader_end t"
          using step(1) [OF u(2) [unfolded ut]] hdl by blast
        then show ?thesis
          using S by (simp add: t_def reader_end_def)
      qed
    qed
  qed
  then show ?thesis using assms by blast
qed

lemma readCallback_safe:
  assumes "leaves_reader hdl" and "readCallback hdl cs mem sz = Some (cs', mem', n)" and "sz \<le> length mem" and "sz < 2 ^ 32"
  shows "n \<le> sz \<and> length mem' = length mem"
proof -
  let ?r = "Reader mem 0 (of_nat sz) Options"
  have n: "unat (of_nat sz :: u32) = sz"
    using assms(4) by (simp add: unat_of_nat)
  have ok: "reader_ok ?r"
    using assms(3) n by (intro reader_ok_Reader) simp
  obtain r' rest where loop: "read_loop hdl cs ?r = Some (cs', r')"
    and "store mem 0 rest = Some mem'" and pos: "reader_pos r' = n"
    using assms(2) by (auto simp: readCallback_def bind_eq_Some_conv)
  moreover have "reader_end r' = sz"
    using read_loop_safe [OF assms(1) loop ok] n by (simp add: Reader_def reader_end_def)
  ultimately show ?thesis
    by (auto simp: store_def reader_pos_def reader_end_def split: if_splits)
qed

section \<open>The blocking read\<close>

lemma find_multimap_insert:
  "(\<And>k m h. (k, m, h) \<in> set es \<Longrightarrow> m \<noteq> n) \<Longrightarrow>
   List.find (\<lambda>(k, m, h). m = n) (multimap_insert k (n, h) es) = Some (k, n, h)"
  by (induction k "(n, h)" es rule: multimap_insert.induct) auto

lemma find_dispatch:
  "List.find (\<lambda>(k, m, h). m = n) (dispatch react pk es) =
     map_option (\<lambda>(k, m, h). (k, m, if k = (fst pk, fst (snd pk)) then react h pk else h))
       (List.find (\<lambda>(k, m, h). m = n) es)"
  by (induction es) (auto simp: dispatch_def)

definition nodes_fresh :: "'h callbacks \<Rightarrow> bool" where
  "nodes_fresh cs \<longleftrightarrow> (\<forall>(k, n, h) \<in> set (callbacks cs). n < next_node cs)"

lemma nodes_fresh_insert: "nodes_fresh cs \<Longrightarrow> nodes_fresh (snd (callbacks_insert k h cs))"
  by (auto simp: nodes_fresh_def callbacks_insert_def set_multimap_insert)

context typed_handler
begin

lemma read_sees_packet:
  assumes "entries_sorted (callbacks cs)" and "\<And>k n h. (k, n, h) \<in> set (callbacks cs) \<Longrightarrow> shape (hmessage h)"
    and "nodes_fresh cs" and "shape m0" and "rfound r" and "at_packet r c i p ck"
    and "decodable (c, i, p, ck)"
  shows "\<exists>n cs1 cs2. callbacks_read_begin (c, i) m0 cs = (n, cs1) \<and>
    callbacks_handle (handler_handle keys rd) cs1 r = Some (cs2, r) \<and>
    (\<exists>cs3. callbacks_read_end n True m' cs2 = Some (True,
       hmessage (handler_react keys rd (CallbackHandler_init m0 False) (c, i, p, ck)), cs3))"
proof -
  let ?h = "CallbackHandler_init m0 False"
  let ?cs1 = "cs\<lparr>callbacks := multimap_insert (c, i) (next_node cs, ?h) (callbacks cs),
        next_node := next_node cs + 1\<rparr>"
  have ins: "callbacks_read_begin (c, i) m0 cs = (next_node cs, ?cs1)"
    by (simp add: callbacks_read_begin_def callbacks_insert_def)
  have "typed.wf_entries (callbacks ?cs1)"
    using assms(1,2,4) multimap_insert_sorted
    by (auto simp: typed.wf_entries_def set_multimap_insert CallbackHandler_init_def)
  note handle = typed.callbacks_handle_dispatch [OF this assms(5,6,7)]
  have "List.find (\<lambda>(k, m, h). m = next_node cs) (callbacks ?cs1) = Some ((c, i), next_node cs, ?h)"
    using assms(3) by (auto simp: nodes_fresh_def intro!: find_multimap_insert)
  then have "List.find (\<lambda>(k, m, h). m = next_node cs)
      (dispatch (handler_react keys rd) (c, i, p, ck) (callbacks ?cs1))
    = Some ((c, i), next_node cs, handler_react keys rd ?h (c, i, p, ck))"
    by (simp add: find_dispatch)
  then show ?thesis
    using ins handle by (auto simp: callbacks_read_end_def handler_get_def)
qed

text \<open>
  A frame with a wrong checksum wakes the blocked reader too, and \<open>read\<close> then reports success
  with the message the handler was created with.
\<close>

lemma read_returns_default:
  assumes "ck \<noteq> frame_checksum c i p"
  shows "decodable (c, i, p, ck)"
    and "hmessage (handler_react keys rd (CallbackHandler_init m0 False) (c, i, p, ck)) = m0"
  using assms by (simp_all add: decodable_def handler_react_def CallbackHandler_init_def)

end

end
