(* ===== verification/Ubx_Worker.thy ===== *)
theory Ubx_Worker
  imports Ubx_Callback
begin

text \<open>
  \<open>ublox_gps/include/ublox_gps/async_worker.hpp\<close>: the receive and send buffers of the serial
  or socket connection, driven by tasks posted to the I/O service. The I/O service is a queue of
  posted tasks and at most one outstanding read; its thread and the threads that call \<open>send\<close>
  interleave at the granularity of the mutexes the code holds. The read callback is a parameter
  with the contract \<open>worker_callback\<close>.
\<close>

section \<open>State and operations\<close>

datatype io_task = DoRead | DoWrite | DoClose

record 'c worker =
  in_buf :: "u8 list"
  in_buffer_size :: nat
  out_buf :: "u8 list"
  out_capacity :: nat
  stopping :: bool
  posted :: "io_task list"
  reading :: "(nat \<times> nat) option"
  stream_out :: "u8 list"
  raw_out :: "u8 list"
  cb_state :: 'c

definition AsyncWorker :: "nat \<Rightarrow> 'c \<Rightarrow> 'c worker" where
  "AsyncWorker buffer_size c =
     \<lparr>in_buf = replicate buffer_size 0, in_buffer_size = 0, out_buf = [],
      out_capacity = buffer_size, stopping = False, posted = [DoRead], reading = None,
      stream_out = [], raw_out = [], cb_state = c\<rparr>"

definition worker_send :: "u8 list \<Rightarrow> 'c worker \<Rightarrow> bool \<times> 'c worker" where
  "worker_send data w =
     (if length data = 0 then (True, w)
      else if out_capacity w - length (out_buf w) < length data then (False, w)
      else (True, w\<lparr>out_buf := out_buf w @ data, posted := posted w @ [DoWrite]\<rparr>))"

definition doWrite :: "'c worker \<Rightarrow> 'c worker" where
  "doWrite w =
     (if length (out_buf w) = 0 then w
      else w\<lparr>stream_out := stream_out w @ out_buf w, out_buf := []\<rparr>)"

definition doRead :: "'c worker \<Rightarrow> 'c worker" where
  "doRead w =
     (let w = (if length (in_buf w) - in_buffer_size w = 0 then w\<lparr>in_buffer_size := 0\<rparr> else w)
      in w\<lparr>reading := Some (in_buffer_size w, length (in_buf w) - in_buffer_size w)\<rparr>)"

text \<open>
  The completion of a read: the service has stored \<open>bs\<close> into the range it was given, unless
  \<open>error\<close>. \<open>raw\<close> and \<open>rc\<close> say whether the callbacks are set, and \<open>rc\<close> is the read callback.
\<close>

definition readEnd ::
  "bool \<Rightarrow> ('c \<Rightarrow> u8 list \<Rightarrow> nat \<Rightarrow> ('c \<times> u8 list \<times> nat) option) option \<Rightarrow> bool \<Rightarrow> nat \<Rightarrow>
   'c worker \<Rightarrow> 'c worker option" where
  "readEnd raw rc error bytes_transferred w = do {
     w \<leftarrow> (if error then Some w
          else if bytes_transferred > 0 then do {
            let w = w\<lparr>in_buffer_size := in_buffer_size w + bytes_transferred\<rparr>;
            start \<leftarrow> load (in_buf w) (in_buffer_size w - bytes_transferred) bytes_transferred;
            let w = w\<lparr>raw_out := raw_out w @ (if raw then start else [])\<rparr>;
            (case rc of
               None \<Rightarrow> Some w
             | Some f \<Rightarrow> do {
                 (c, mem, n) \<leftarrow> f (cb_state w) (in_buf w) (in_buffer_size w);
                 Some (w\<lparr>cb_state := c, in_buf := mem, in_buffer_size := in_buffer_size w - n\<rparr>)
               })
          }
          else Some w);
     Some (if stopping w then w else w\<lparr>posted := posted w @ [DoRead]\<rparr>)
   }"

definition doClose :: "'c worker \<Rightarrow> 'c worker" where
  "doClose w = w\<lparr>stopping := True\<rparr>"

text \<open>
  The transfer of received bytes into the range of the outstanding read, and the completion.
\<close>

definition complete ::
  "bool \<Rightarrow> ('c \<Rightarrow> u8 list \<Rightarrow> nat \<Rightarrow> ('c \<times> u8 list \<times> nat) option) option \<Rightarrow> bool \<Rightarrow> u8 list \<Rightarrow>
   'c worker \<Rightarrow> 'c worker option" where
  "complete raw rc error bs w =
     (case reading w of
        None \<Rightarrow> None
      | Some (off, room) \<Rightarrow>
          if length bs \<le> room
          then do {
            mem \<leftarrow> store (in_buf w) off bs;
            readEnd raw rc error (length bs) (w\<lparr>in_buf := mem, reading := None\<rparr>)
          }
          else None)"

section \<open>The interleavings\<close>

text \<open>
  A user thread sends or closes (the destructor posts \<open>doClose\<close>), the service runs the oldest
  posted task, or the outstanding read completes. A step carries the bytes \<open>send\<close> accepts in it.
\<close>

inductive worker_step ::
  "bool \<Rightarrow> ('c \<Rightarrow> u8 list \<Rightarrow> nat \<Rightarrow> ('c \<times> u8 list \<times> nat) option) option \<Rightarrow>
   'c worker \<Rightarrow> u8 list \<Rightarrow> 'c worker \<Rightarrow> bool" for raw rc where
  step_send: "worker_send data w = (ok, w') \<Longrightarrow> worker_step raw rc w (if ok then data else []) w'"
| step_destroy: "worker_step raw rc w [] (w\<lparr>posted := posted w @ [DoClose]\<rparr>)"
| step_read: "posted w = DoRead # ts \<Longrightarrow> worker_step raw rc w [] (doRead (w\<lparr>posted := ts\<rparr>))"
| step_write: "posted w = DoWrite # ts \<Longrightarrow> worker_step raw rc w [] (doWrite (w\<lparr>posted := ts\<rparr>))"
| step_close: "posted w = DoClose # ts \<Longrightarrow> worker_step raw rc w [] (doClose (w\<lparr>posted := ts\<rparr>))"
| step_complete: "complete raw rc error bs w = Some w' \<Longrightarrow> worker_step raw rc w [] w'"

inductive worker_run ::
  "bool \<Rightarrow> ('c \<Rightarrow> u8 list \<Rightarrow> nat \<Rightarrow> ('c \<times> u8 list \<times> nat) option) option \<Rightarrow>
   'c worker \<Rightarrow> u8 list \<Rightarrow> 'c worker \<Rightarrow> bool" for raw rc where
  run_refl: "worker_run raw rc w [] w"
| run_step: "worker_run raw rc w acc w' \<Longrightarrow> worker_step raw rc w' data w'' \<Longrightarrow>
    worker_run raw rc w (acc @ data) w''"

inductive_cases worker_stepE: "worker_step raw rc w data w'"

section \<open>The send buffer\<close>

text \<open>
  What was written to the stream, followed by what still waits in the buffer, is what \<open>send\<close>
  accepted, in order.
\<close>

lemma send_log:
  "worker_send data w = (ok, w') \<Longrightarrow>
   stream_out w' @ out_buf w' = stream_out w @ out_buf w @ (if ok then data else [])"
  by (auto simp: worker_send_def split: if_splits)

lemma doWrite_log: "stream_out (doWrite w) @ out_buf (doWrite w) = stream_out w @ out_buf w"
  by (simp add: doWrite_def)

lemma readEnd_log:
  assumes "readEnd raw rc error k w = Some w'"
  shows "stream_out w' = stream_out w \<and> out_buf w' = out_buf w"
  using assms
  by (cases error; cases "0 < k"; cases rc) (auto simp: readEnd_def bind_eq_Some_conv Let_def)

lemma complete_log:
  "complete raw rc error bs w = Some w' \<Longrightarrow> stream_out w' = stream_out w \<and> out_buf w' = out_buf w"
  by (auto simp: complete_def bind_eq_Some_conv dest!: readEnd_log split: option.splits if_splits)

lemma step_log:
  assumes "worker_step raw rc w data w'"
  shows "stream_out w' @ out_buf w' = stream_out w @ out_buf w @ data"
  using assms
proof cases
  case (step_send d ok)
  then show ?thesis using send_log [of d w ok w'] by simp
next
  case (step_write ts)
  then show ?thesis using doWrite_log [of "w\<lparr>posted := ts\<rparr>"] by simp
next
  case (step_complete error bs)
  then show ?thesis using complete_log [of raw rc error bs w w'] by simp
qed (simp_all add: doRead_def doClose_def Let_def)

lemma run_log:
  "worker_run raw rc w acc w' \<Longrightarrow> stream_out w' @ out_buf w' = stream_out w @ out_buf w @ acc"
  by (induction rule: worker_run.induct) (simp_all add: step_log)

section \<open>The receive buffer\<close>

text \<open>
  The invariant: the buffer keeps its size, the fill level stays inside it, there is at most one
  of a posted and an outstanding read, and an outstanding read covers exactly the free part of
  the buffer, which is not empty.
\<close>

definition read_pending :: "'c worker \<Rightarrow> nat" where
  "read_pending w = length (filter (\<lambda>t. t = DoRead) (posted w)) +
     (if reading w = None then 0 else 1)"

definition worker_inv :: "nat \<Rightarrow> 'c worker \<Rightarrow> bool" where
  "worker_inv buffer_size w \<longleftrightarrow>
     length (in_buf w) = buffer_size \<and> in_buffer_size w \<le> buffer_size \<and>
     read_pending w \<le> 1 \<and> (\<not> stopping w \<longrightarrow> read_pending w = 1) \<and>
     (\<forall>off room. reading w = Some (off, room) \<longrightarrow>
        off = in_buffer_size w \<and> off + room = buffer_size \<and> (0 < buffer_size \<longrightarrow> 0 < room)) \<and>
     length (out_buf w) \<le> out_capacity w \<and>
     (out_buf w \<noteq> [] \<longrightarrow> DoWrite \<in> set (posted w))"

lemma worker_inv_init: "worker_inv n (AsyncWorker n c)"
  by (simp add: worker_inv_def AsyncWorker_def read_pending_def)

lemma worker_inv_send: "worker_inv n w \<Longrightarrow> worker_inv n (snd (worker_send data w))"
  by (auto simp: worker_inv_def worker_send_def read_pending_def)

lemma worker_inv_doRead:
  assumes "worker_inv n w" and "posted w = DoRead # ts"
  shows "worker_inv n (doRead (w\<lparr>posted := ts\<rparr>))"
  using assms by (auto simp: worker_inv_def doRead_def read_pending_def Let_def split: if_splits)

lemma worker_inv_doWrite:
  assumes "worker_inv n w" and "posted w = DoWrite # ts"
  shows "worker_inv n (doWrite (w\<lparr>posted := ts\<rparr>))"
  using assms by (auto simp: worker_inv_def doWrite_def read_pending_def)

lemma worker_inv_doClose:
  assumes "worker_inv n w" and "posted w = DoClose # ts"
  shows "worker_inv n (doClose (w\<lparr>posted := ts\<rparr>))"
  using assms by (auto simp: worker_inv_def doClose_def read_pending_def)

lemma worker_inv_destroy: "worker_inv n w \<Longrightarrow> worker_inv n (w\<lparr>posted := posted w @ [DoClose]\<rparr>)"
  by (auto simp: worker_inv_def read_pending_def)

lemma worker_inv_repost:
  assumes "length (in_buf v) = n" and "in_buffer_size v \<le> n" and "reading v = None"
    and "filter (\<lambda>t. t = DoRead) (posted v) = []"
    and "length (out_buf v) \<le> out_capacity v" and "out_buf v \<noteq> [] \<longrightarrow> DoWrite \<in> set (posted v)"
  shows "worker_inv n (if stopping v then v else v\<lparr>posted := posted v @ [DoRead]\<rparr>)"
  using assms by (cases "stopping v") (auto simp: worker_inv_def read_pending_def)

text \<open>
  The contract of the read callback: it consumes at most what it was given and does not change
  the size of the buffer.
\<close>

locale worker_callback =
  fixes rc :: "'c \<Rightarrow> u8 list \<Rightarrow> nat \<Rightarrow> ('c \<times> u8 list \<times> nat) option"
  assumes consumes: "rc c mem sz = Some (c', mem', n) \<Longrightarrow> sz \<le> length mem \<Longrightarrow> sz < 2 ^ 32 \<Longrightarrow>
      n \<le> sz \<and> length mem' = length mem"
begin

lemma readEnd_inv:
  assumes "readEnd raw (Some rc) error k w = Some w'"
    and "length (in_buf w) = n" and "in_buffer_size w + k \<le> n" and "n < 2 ^ 32"
    and "reading w = None" and "filter (\<lambda>t. t = DoRead) (posted w) = []"
    and "length (out_buf w) \<le> out_capacity w" and "out_buf w \<noteq> [] \<longrightarrow> DoWrite \<in> set (posted w)"
  shows "worker_inv n w'"
proof (cases "error \<or> k = 0")
  case True
  show ?thesis
  proof -
    have "readEnd raw (Some rc) error k w
        = Some (if stopping w then w else w\<lparr>posted := posted w @ [DoRead]\<rparr>)"
      using True by (cases error) (simp_all add: readEnd_def)
    then show ?thesis using assms worker_inv_repost [of w n] by simp
  qed
next
  case False
  then obtain start c mem m v where
    rc: "rc (cb_state w) (in_buf w) (in_buffer_size w + k) = Some (c, mem, m)"
    and v: "v = w\<lparr>raw_out := raw_out w @ (if raw then start else []), cb_state := c, in_buf := mem,
        in_buffer_size := in_buffer_size w + k - m\<rparr>"
    and w': "w' = (if stopping v then v else v\<lparr>posted := posted v @ [DoRead]\<rparr>)"
    using assms(1) False by (auto simp: readEnd_def bind_eq_Some_conv Let_def)
  have "m \<le> in_buffer_size w + k" "length mem = length (in_buf w)"
    using consumes [OF rc] assms(2-4) by simp_all
  then show ?thesis
    using assms(2-8) unfolding w' by (intro worker_inv_repost) (auto simp: v)
qed

lemma complete_inv:
  assumes "complete raw (Some rc) error bs w = Some w'" and "worker_inv n w" and "n < 2 ^ 32"
  shows "worker_inv n w'"
proof -
  obtain off room mem where r: "reading w = Some (off, room)" "length bs \<le> room"
    "store (in_buf w) off bs = Some mem"
    "readEnd raw (Some rc) error (length bs) (w\<lparr>in_buf := mem, reading := None\<rparr>) = Some w'"
    using assms(1) by (auto simp: complete_def bind_eq_Some_conv split: option.splits if_splits)
  have inv: "length (in_buf w) = n" "off = in_buffer_size w" "off + room = n"
    "length (out_buf w) \<le> out_capacity w" "out_buf w \<noteq> [] \<longrightarrow> DoWrite \<in> set (posted w)"
    "filter (\<lambda>t. t = DoRead) (posted w) = []"
    using assms(2) r(1) by (auto simp: worker_inv_def read_pending_def)
  have "length mem = n"
    using r(3) inv(1) by (auto simp: store_def split: if_splits)
  then show ?thesis
    using readEnd_inv [OF r(4)] inv r(2) assms(3) by simp
qed

lemma step_inv:
  assumes "worker_step raw (Some rc) w data w'" and "worker_inv n w" and "n < 2 ^ 32"
  shows "worker_inv n w'"
  using assms(1)
proof cases
  case (step_send d ok)
  then show ?thesis using worker_inv_send [OF assms(2), of d] by simp
qed (use assms worker_inv_destroy worker_inv_doRead worker_inv_doWrite worker_inv_doClose
       complete_inv in blast)+

lemma run_inv:
  assumes "worker_run raw (Some rc) w acc w'" and "worker_inv n w" and "n < 2 ^ 32"
  shows "worker_inv n w'"
  using assms by (induction rule: worker_run.induct) (auto intro: step_inv)

end

interpretation typed_cb: worker_callback "readCallback (handler_handle keys rd)" for keys rd
  by unfold_locales (rule readCallback_safe [OF handler_handle_reader])

section \<open>From chunks to packets\<close>

text \<open>
  One turn of the receive cycle: the posted \<open>doRead\<close> runs and its read completes with \<open>bs\<close>.
\<close>

definition receive_cycle ::
  "bool \<Rightarrow> ('c \<Rightarrow> u8 list \<Rightarrow> nat \<Rightarrow> ('c \<times> u8 list \<times> nat) option) \<Rightarrow> u8 list \<Rightarrow>
   'c worker \<Rightarrow> 'c worker option" where
  "receive_cycle raw rc bs w =
     (case posted w of
        DoRead # ts \<Rightarrow> complete raw (Some rc) False bs (doRead (w\<lparr>posted := ts\<rparr>))
      | _ \<Rightarrow> None)"

fun receive_chunks ::
  "bool \<Rightarrow> ('c \<Rightarrow> u8 list \<Rightarrow> nat \<Rightarrow> ('c \<times> u8 list \<times> nat) option) \<Rightarrow> u8 list list \<Rightarrow>
   'c worker \<Rightarrow> 'c worker option" where
  "receive_chunks raw rc [] w = Some w"
| "receive_chunks raw rc (bs # css) w = do {
     w \<leftarrow> receive_cycle raw rc bs w;
     receive_chunks raw rc css w
   }"

text \<open>The chunks fit a buffer of \<open>n\<close> bytes in which \<open>rest\<close> is left.\<close>

fun chunks_fit :: "nat \<Rightarrow> u8 list \<Rightarrow> u8 list list \<Rightarrow> bool" where
  "chunks_fit n rest [] \<longleftrightarrow> True"
| "chunks_fit n rest (bs # css) \<longleftrightarrow>
     bs \<noteq> [] \<and> length (rest @ bs) \<le> n \<and> chunks_fit n (remainder (rest @ bs)) css"

definition idle :: "nat \<Rightarrow> 'c worker \<Rightarrow> bool" where
  "idle n w \<longleftrightarrow> posted w = [DoRead] \<and> reading w = None \<and> \<not> stopping w \<and>
     length (in_buf w) = n \<and> in_buffer_size w \<le> n"

definition buffered :: "'c worker \<Rightarrow> u8 list" where
  "buffered w = take (in_buffer_size w) (in_buf w)"

context ubx_handler
begin

lemma receive_cycle_scan:
  assumes "idle n w" and "n < 2 ^ 32" and "wf_entries (callbacks (cb_state w))"
    and "bs \<noteq> []" and "length (buffered w @ bs) \<le> n"
    and "list_all accepts (packets (buffered w @ bs))"
  shows "\<exists>w'. receive_cycle raw (readCallback hdl) bs w = Some w' \<and> idle n w' \<and>
    buffered w' = remainder (buffered w @ bs) \<and>
    cb_state w' = cb_state w\<lparr>callbacks :=
      fold (dispatch react) (packets (buffered w @ bs)) (callbacks (cb_state w))\<rparr>"
proof -
  let ?k = "in_buffer_size w" and ?sz = "in_buffer_size w + length bs"
  let ?mem = "blit (in_buf w) ?k bs"
  have w: "posted w = [DoRead]" "reading w = None" "\<not> stopping w" "length (in_buf w) = n" "?k \<le> n"
    using assms(1) by (simp_all add: idle_def)
  have room: "?sz \<le> n" and "0 < length bs"
    using assms(4,5) w by (simp_all add: buffered_def)
  have mem: "take ?sz ?mem = buffered w @ bs" "length ?mem = n"
    using room w by (simp_all add: blit_def buffered_def)
  obtain mem' m where cb: "readCallback hdl (cb_state w) ?mem ?sz =
      Some (cb_state w\<lparr>callbacks := fold (dispatch react) (packets (buffered w @ bs))
        (callbacks (cb_state w))\<rparr>, mem', m)"
    and m: "m \<le> ?sz" "length mem' = n" "take (?sz - m) mem' = remainder (buffered w @ bs)"
    using readCallback_scan [OF assms(3), of ?sz ?mem] room assms(2,6) mem by auto
  have free: "\<not> n \<le> ?k" "length bs \<le> n - ?k"
    using room \<open>0 < length bs\<close> by linarith+
  have dr: "doRead (w\<lparr>posted := []\<rparr>) = w\<lparr>posted := [], reading := Some (?k, n - ?k)\<rparr>"
    using free(1) w(4) by (simp add: doRead_def Let_def)
  have st: "store (in_buf w) ?k bs = Some ?mem"
    using room w(4) by (simp add: mem_simps)
  let ?w = "w\<lparr>posted := [], in_buf := ?mem, reading := None\<rparr>"
  let ?c = "cb_state w\<lparr>callbacks := fold (dispatch react) (packets (buffered w @ bs))
        (callbacks (cb_state w))\<rparr>"
  have ld: "load ?mem ?k (length bs) = Some bs"
    using room mem(2) w(4) by (simp add: mem_simps)
  have "receive_cycle raw (readCallback hdl) bs w = readEnd raw (Some (readCallback hdl)) False (length bs) ?w"
    using free(2) w(1) st dr by (simp add: receive_cycle_def complete_def)
  also have "\<dots> = Some (w\<lparr>posted := [DoRead], reading := None, in_buf := mem',
      raw_out := raw_out w @ (if raw then bs else []), cb_state := ?c,
      in_buffer_size := ?sz - m\<rparr>)"
    using cb w(3) ld assms(4) by (simp add: readEnd_def)
  finally show ?thesis
    using m w(3) room by (auto simp: idle_def buffered_def)
qed

text \<open>
  However the transport cuts the stream, as long as the buffer takes the chunks: the handlers
  see the packets of the whole stream in order, and the buffer holds its undecoded rest.
\<close>

lemma receive_chunks_scan:
  assumes "idle n w" and "n < 2 ^ 32" and "wf_entries (callbacks (cb_state w))"
    and "remainder (buffered w) = buffered w" and "chunks_fit n (buffered w) css"
    and "list_all accepts (packets (buffered w @ concat css))"
  shows "\<exists>w'. receive_chunks raw (readCallback hdl) css w = Some w' \<and> idle n w' \<and>
    buffered w' = remainder (buffered w @ concat css) \<and>
    cb_state w' = cb_state w\<lparr>callbacks :=
      fold (dispatch react) (packets (buffered w @ concat css)) (callbacks (cb_state w))\<rparr>"
  using assms
proof (induction css arbitrary: w)
  case Nil
  then have "packets (buffered w) = []"
    using remainder_no_packet [of "buffered w"] by simp
  then show ?case using Nil by simp
next
  case (Cons bs css)
  let ?rest = "buffered w @ bs"
  have split: "packets (buffered w @ concat (bs # css)) = packets ?rest @ packets (remainder ?rest @ concat css)"
    "remainder (buffered w @ concat (bs # css)) = remainder (remainder ?rest @ concat css)"
    using scan_append [of ?rest "concat css"] by simp_all
  have acc: "list_all accepts (packets ?rest)" "list_all accepts (packets (remainder ?rest @ concat css))"
    using Cons.prems(6) unfolding split by simp_all
  obtain v where v: "receive_cycle raw (readCallback hdl) bs w = Some v" "idle n v"
    "buffered v = remainder ?rest"
    "cb_state v = cb_state w\<lparr>callbacks := fold (dispatch react) (packets ?rest) (callbacks (cb_state w))\<rparr>"
    using receive_cycle_scan [OF Cons.prems(1,2,3) _ _ acc(1), of raw] Cons.prems(5) by auto
  have "wf_entries (fold (dispatch react) pks es)" if "list_all accepts pks" "wf_entries es" for pks es
    using that by (induction pks arbitrary: es) (auto intro: wf_dispatch)
  then have wf: "wf_entries (callbacks (cb_state v))"
    using v(4) acc(1) Cons.prems(3) by simp
  have fixed: "remainder (buffered v) = buffered v"
    using scan_append [of ?rest "[]"] v(3) by simp
  show ?case
    using Cons.IH [OF v(2) Cons.prems(2) wf fixed] Cons.prems(5) acc(2) v split by auto
qed

end

end
