(* ===== verification/Ubx_Msgs_Cfg.thy ===== *)
theory Ubx_Msgs_Cfg
  imports Ubx_Stream
begin

text \<open>
  The CFG messages of \<open>ublox_msgs\<close>. One record per message
  (\<open>ublox_msgs/msg/<Name>.msg\<close>; signed fields and floats are kept as the raw words the
  serialiser copies), and per serialiser of \<open>ublox_msgs/serialization.hpp\<close> its
  \<open>read\<close>, \<open>serializedLength\<close> and \<open>write\<close> as \<open>read_<Name>\<close>,
  \<open>serializedLength_<Name>\<close> and \<open>write_<Name>\<close>, statement by statement.
  \<open>shape_<Name>\<close> states the sizes of the \<open>std::array\<close> fields and \<open>ok_<Name>\<close> what
  a message has to satisfy to survive the wire. The interpretation of \<open>ubx_message\<close> below
  a message proves that its reader inverts its writer.

\<close>

subsection \<open>CfgCFG\<close>

record CfgCFG =
  CfgCFG_clear_mask :: u32
  CfgCFG_save_mask :: u32
  CfgCFG_load_mask :: u32
  CfgCFG_device_mask :: u8

definition read_CfgCFG :: "u8 list \<Rightarrow> nat \<Rightarrow> u32 \<Rightarrow> CfgCFG \<Rightarrow> CfgCFG option" where
  "read_CfgCFG mem data count m = read_msg
     [next_in CfgCFG_clear_mask_update, next_in CfgCFG_save_mask_update,
      next_in CfgCFG_load_mask_update, next_in CfgCFG_device_mask_update] mem data count m"

definition serializedLength_CfgCFG :: "CfgCFG \<Rightarrow> u32" where
  "serializedLength_CfgCFG m = 13"

definition write_CfgCFG :: "u8 list \<Rightarrow> nat \<Rightarrow> u32 \<Rightarrow> CfgCFG \<Rightarrow> u8 list option" where
  "write_CfgCFG mem data sz m = write_msg
     [next_out (CfgCFG_clear_mask m), next_out (CfgCFG_save_mask m),
      next_out (CfgCFG_load_mask m), next_out (CfgCFG_device_mask m)] mem data sz"

interpretation CfgCFG: ubx_message read_CfgCFG write_CfgCFG serializedLength_CfgCFG
  "\<lambda>_. True" "\<lambda>_. True"
  by (unfold_locales, rule msg_codec, rule read_CfgCFG_def, rule write_CfgCFG_def,
      rule transfers_eqn, (rule run_intros)+, rule CfgCFG.equality)
    (simp_all add: serializedLength_CfgCFG_def msg_simps)

subsection \<open>CfgDAT\<close>

record CfgDAT =
  CfgDAT_datum_num :: u16
  CfgDAT_datum_name :: "u8 list"
  CfgDAT_maj_a :: u64
  CfgDAT_flat :: u64
  CfgDAT_d_x :: u32
  CfgDAT_d_y :: u32
  CfgDAT_d_z :: u32
  CfgDAT_rot_x :: u32
  CfgDAT_rot_y :: u32
  CfgDAT_rot_z :: u32
  CfgDAT_scale :: u32

definition shape_CfgDAT :: "CfgDAT \<Rightarrow> bool" where
  "shape_CfgDAT m \<longleftrightarrow> length (CfgDAT_datum_name m) = 6"

definition read_CfgDAT :: "u8 list \<Rightarrow> nat \<Rightarrow> u32 \<Rightarrow> CfgDAT \<Rightarrow> CfgDAT option" where
  "read_CfgDAT mem data count m = read_msg
     [next_in CfgDAT_datum_num_update, next_in_arr 6 CfgDAT_datum_name_update,
      next_in CfgDAT_maj_a_update, next_in CfgDAT_flat_update, next_in CfgDAT_d_x_update,
      next_in CfgDAT_d_y_update, next_in CfgDAT_d_z_update, next_in CfgDAT_rot_x_update,
      next_in CfgDAT_rot_y_update, next_in CfgDAT_rot_z_update, next_in CfgDAT_scale_update] mem data count m"

definition serializedLength_CfgDAT :: "CfgDAT \<Rightarrow> u32" where
  "serializedLength_CfgDAT m = 44"

definition write_CfgDAT :: "u8 list \<Rightarrow> nat \<Rightarrow> u32 \<Rightarrow> CfgDAT \<Rightarrow> u8 list option" where
  "write_CfgDAT mem data sz m = write_msg
     [next_out (CfgDAT_maj_a m), next_out (CfgDAT_flat m), next_out (CfgDAT_d_x m),
      next_out (CfgDAT_d_y m), next_out (CfgDAT_d_z m), next_out (CfgDAT_rot_x m),
      next_out (CfgDAT_rot_y m), next_out (CfgDAT_rot_z m), next_out (CfgDAT_scale m)] mem data sz"

subsection \<open>CfgDGNSS\<close>

record CfgDGNSS =
  CfgDGNSS_dgnss_mode :: u8
  CfgDGNSS_reserved0 :: "u8 list"

definition shape_CfgDGNSS :: "CfgDGNSS \<Rightarrow> bool" where
  "shape_CfgDGNSS m \<longleftrightarrow> length (CfgDGNSS_reserved0 m) = 3"

definition read_CfgDGNSS :: "u8 list \<Rightarrow> nat \<Rightarrow> u32 \<Rightarrow> CfgDGNSS \<Rightarrow> CfgDGNSS option" where
  "read_CfgDGNSS mem data count m = read_msg
     [next_in CfgDGNSS_dgnss_mode_update, next_in (elem CfgDGNSS_reserved0_update 0),
      next_in (elem CfgDGNSS_reserved0_update 1), next_in (elem CfgDGNSS_reserved0_update 2)] mem data count m"

definition serializedLength_CfgDGNSS :: "CfgDGNSS \<Rightarrow> u32" where
  "serializedLength_CfgDGNSS m = 4"

definition write_CfgDGNSS :: "u8 list \<Rightarrow> nat \<Rightarrow> u32 \<Rightarrow> CfgDGNSS \<Rightarrow> u8 list option" where
  "write_CfgDGNSS mem data sz m = write_msg
     [next_out (CfgDGNSS_dgnss_mode m), next_out (CfgDGNSS_reserved0 m ! 0),
      next_out (CfgDGNSS_reserved0 m ! 1), next_out (CfgDGNSS_reserved0 m ! 2)] mem data sz"

interpretation CfgDGNSS: ubx_message read_CfgDGNSS write_CfgDGNSS serializedLength_CfgDGNSS
  "shape_CfgDGNSS" "shape_CfgDGNSS"
  by (unfold_locales, rule msg_codec, rule read_CfgDGNSS_def, rule write_CfgDGNSS_def,
      rule transfers_eqn, (rule run_intros)+, rule CfgDGNSS.equality)
    (simp_all add: serializedLength_CfgDGNSS_def shape_CfgDGNSS_def msg_simps)

subsection \<open>CfgGNSSBlock\<close>

record CfgGNSSBlock =
  CfgGNSSBlock_gnss_id :: u8
  CfgGNSSBlock_res_trk_ch :: u8
  CfgGNSSBlock_max_trk_ch :: u8
  CfgGNSSBlock_reserved1 :: u8
  CfgGNSSBlock_flags :: u32

definition default_CfgGNSSBlock :: CfgGNSSBlock where
  "default_CfgGNSSBlock = \<lparr>CfgGNSSBlock_gnss_id = 0, CfgGNSSBlock_res_trk_ch = 0, CfgGNSSBlock_max_trk_ch = 0,
     CfgGNSSBlock_reserved1 = 0, CfgGNSSBlock_flags = 0\<rparr>"

definition read_CfgGNSSBlock :: "(ubx_stream \<times> CfgGNSSBlock \<Rightarrow> (ubx_stream \<times> CfgGNSSBlock) option) list" where
  "read_CfgGNSSBlock =
     [next_in CfgGNSSBlock_gnss_id_update, next_in CfgGNSSBlock_res_trk_ch_update,
      next_in CfgGNSSBlock_max_trk_ch_update, next_in CfgGNSSBlock_reserved1_update,
      next_in CfgGNSSBlock_flags_update]"

definition serializedLength_CfgGNSSBlock :: "CfgGNSSBlock \<Rightarrow> u32" where
  "serializedLength_CfgGNSSBlock m = 8"

definition write_CfgGNSSBlock :: "CfgGNSSBlock \<Rightarrow> (ubx_stream \<Rightarrow> ubx_stream option) list" where
  "write_CfgGNSSBlock m =
     [next_out (CfgGNSSBlock_gnss_id m), next_out (CfgGNSSBlock_res_trk_ch m),
      next_out (CfgGNSSBlock_max_trk_ch m), next_out (CfgGNSSBlock_reserved1 m),
      next_out (CfgGNSSBlock_flags m)]"

lemma transfers_CfgGNSSBlock:
  "transfers read_CfgGNSSBlock (write_CfgGNSSBlock m) 8 m0 m"
  unfolding read_CfgGNSSBlock_def write_CfgGNSSBlock_def
  by (rule transfers_eqn, (rule run_intros)+, rule CfgGNSSBlock.equality)
    (simp_all add: msg_simps)

subsection \<open>CfgGNSS\<close>

record CfgGNSS =
  CfgGNSS_msg_ver :: u8
  CfgGNSS_num_trk_ch_hw :: u8
  CfgGNSS_num_trk_ch_use :: u8
  CfgGNSS_num_config_blocks :: u8
  CfgGNSS_blocks :: "CfgGNSSBlock list"

definition read_CfgGNSS :: "u8 list \<Rightarrow> nat \<Rightarrow> u32 \<Rightarrow> CfgGNSS \<Rightarrow> CfgGNSS option" where
  "read_CfgGNSS mem data count m = read_msg
     [next_in CfgGNSS_msg_ver_update, next_in CfgGNSS_num_trk_ch_hw_update,
      next_in CfgGNSS_num_trk_ch_use_update, next_in CfgGNSS_num_config_blocks_update,
      resize_to default_CfgGNSSBlock (\<lambda>m. unat (CfgGNSS_num_config_blocks m)) CfgGNSS_blocks_update,
      next_in_each read_CfgGNSSBlock CfgGNSS_blocks CfgGNSS_blocks_update] mem data count m"

definition serializedLength_CfgGNSS :: "CfgGNSS \<Rightarrow> u32" where
  "serializedLength_CfgGNSS m = 4 + 8 * ucast (CfgGNSS_num_config_blocks m)"

definition write_CfgGNSS :: "u8 list \<Rightarrow> nat \<Rightarrow> u32 \<Rightarrow> CfgGNSS \<Rightarrow> u8 list option" where
  "write_CfgGNSS mem data sz m = write_msg
     [next_out (CfgGNSS_msg_ver m), next_out (CfgGNSS_num_trk_ch_hw m),
      next_out (CfgGNSS_num_trk_ch_use m), next_out (of_nat (length (CfgGNSS_blocks m)) :: u8),
      next_out_each write_CfgGNSSBlock (CfgGNSS_blocks m)] mem data sz"

definition ok_CfgGNSS :: "CfgGNSS \<Rightarrow> bool" where
  "ok_CfgGNSS m \<longleftrightarrow> length (CfgGNSS_blocks m) = unat (CfgGNSS_num_config_blocks m)"

interpretation CfgGNSS: ubx_message read_CfgGNSS write_CfgGNSS serializedLength_CfgGNSS
  "ok_CfgGNSS" "\<lambda>_. True"
  by (unfold_locales, rule msg_codec, rule read_CfgGNSS_def, rule write_CfgGNSS_def, rule transfers_eqn,
      (rule run_intros transfers_blocks_any [OF _ transfers_CfgGNSSBlock])+, rule CfgGNSS.equality)
    (auto simp: ok_CfgGNSS_def serializedLength_CfgGNSS_def msg_simps dyn_simps)

subsection \<open>CfgINFBlock\<close>

record CfgINFBlock =
  CfgINFBlock_protocol_id :: u8
  CfgINFBlock_reserved1 :: "u8 list"
  CfgINFBlock_inf_msg_mask :: "u8 list"

definition default_CfgINFBlock :: CfgINFBlock where
  "default_CfgINFBlock = \<lparr>CfgINFBlock_protocol_id = 0, CfgINFBlock_reserved1 = replicate 3 0,
     CfgINFBlock_inf_msg_mask = replicate 6 0\<rparr>"

definition shape_CfgINFBlock :: "CfgINFBlock \<Rightarrow> bool" where
  "shape_CfgINFBlock m \<longleftrightarrow> length (CfgINFBlock_reserved1 m) = 3 \<and> length (CfgINFBlock_inf_msg_mask m) = 6"

definition read_CfgINFBlock :: "(ubx_stream \<times> CfgINFBlock \<Rightarrow> (ubx_stream \<times> CfgINFBlock) option) list" where
  "read_CfgINFBlock =
     [next_in CfgINFBlock_protocol_id_update, next_in (elem CfgINFBlock_reserved1_update 0),
      next_in (elem CfgINFBlock_reserved1_update 1),
      next_in (elem CfgINFBlock_reserved1_update 2),
      next_in (elem CfgINFBlock_inf_msg_mask_update 0),
      next_in (elem CfgINFBlock_inf_msg_mask_update 1),
      next_in (elem CfgINFBlock_inf_msg_mask_update 2),
      next_in (elem CfgINFBlock_inf_msg_mask_update 3),
      next_in (elem CfgINFBlock_inf_msg_mask_update 4),
      next_in (elem CfgINFBlock_inf_msg_mask_update 5)]"

definition serializedLength_CfgINFBlock :: "CfgINFBlock \<Rightarrow> u32" where
  "serializedLength_CfgINFBlock m = 10"

definition write_CfgINFBlock :: "CfgINFBlock \<Rightarrow> (ubx_stream \<Rightarrow> ubx_stream option) list" where
  "write_CfgINFBlock m =
     [next_out (CfgINFBlock_protocol_id m), next_out (CfgINFBlock_reserved1 m ! 0),
      next_out (CfgINFBlock_reserved1 m ! 1), next_out (CfgINFBlock_reserved1 m ! 2),
      next_out (CfgINFBlock_inf_msg_mask m ! 0), next_out (CfgINFBlock_inf_msg_mask m ! 1),
      next_out (CfgINFBlock_inf_msg_mask m ! 2), next_out (CfgINFBlock_inf_msg_mask m ! 3),
      next_out (CfgINFBlock_inf_msg_mask m ! 4), next_out (CfgINFBlock_inf_msg_mask m ! 5)]"

lemma transfers_CfgINFBlock:
  "shape_CfgINFBlock m0 \<Longrightarrow> shape_CfgINFBlock m \<Longrightarrow> transfers read_CfgINFBlock (write_CfgINFBlock m) 10 m0 m"
  unfolding read_CfgINFBlock_def write_CfgINFBlock_def
  by (rule transfers_eqn, (rule run_intros)+, rule CfgINFBlock.equality)
    (simp_all add: shape_CfgINFBlock_def msg_simps)

lemma shape_default_CfgINFBlock [simp]: "shape_CfgINFBlock default_CfgINFBlock"
  by (simp add: shape_CfgINFBlock_def default_CfgINFBlock_def)

subsection \<open>CfgINF\<close>

record CfgINF =
  CfgINF_blocks :: "CfgINFBlock list"

definition shape_CfgINF :: "CfgINF \<Rightarrow> bool" where
  "shape_CfgINF m \<longleftrightarrow> list_all shape_CfgINFBlock (CfgINF_blocks m)"

definition read_CfgINF :: "u8 list \<Rightarrow> nat \<Rightarrow> u32 \<Rightarrow> CfgINF \<Rightarrow> CfgINF option" where
  "read_CfgINF mem data count m = read_msg
     [resize_to default_CfgINFBlock (\<lambda>_. unat (count div 10)) CfgINF_blocks_update,
      next_in_each read_CfgINFBlock CfgINF_blocks CfgINF_blocks_update] mem data count m"

definition serializedLength_CfgINF :: "CfgINF \<Rightarrow> u32" where
  "serializedLength_CfgINF m = 10 * of_nat (length (CfgINF_blocks m))"

definition write_CfgINF :: "u8 list \<Rightarrow> nat \<Rightarrow> u32 \<Rightarrow> CfgINF \<Rightarrow> u8 list option" where
  "write_CfgINF mem data sz m = write_msg
     [next_out_each write_CfgINFBlock (CfgINF_blocks m)] mem data sz"

definition ok_CfgINF :: "CfgINF \<Rightarrow> bool" where
  "ok_CfgINF m \<longleftrightarrow> shape_CfgINF m \<and> length (CfgINF_blocks m) < 2 ^ 16"

interpretation CfgINF: ubx_message read_CfgINF write_CfgINF serializedLength_CfgINF
  "ok_CfgINF" "shape_CfgINF"
  by (unfold_locales, rule msg_codec, rule read_CfgINF_def, rule write_CfgINF_def, rule transfers_eqn,
      (rule run_intros transfers_blocks [OF _ transfers_CfgINFBlock])+, rule CfgINF.equality)
    (auto simp: ok_CfgINF_def serializedLength_CfgINF_def shape_CfgINF_def msg_simps dyn_simps)

subsection \<open>CfgMSG\<close>

record CfgMSG =
  CfgMSG_msg_class :: u8
  CfgMSG_msg_id :: u8
  CfgMSG_rate :: u8

definition read_CfgMSG :: "u8 list \<Rightarrow> nat \<Rightarrow> u32 \<Rightarrow> CfgMSG \<Rightarrow> CfgMSG option" where
  "read_CfgMSG mem data count m = read_msg
     [next_in CfgMSG_msg_class_update, next_in CfgMSG_msg_id_update, next_in CfgMSG_rate_update] mem data count m"

definition serializedLength_CfgMSG :: "CfgMSG \<Rightarrow> u32" where
  "serializedLength_CfgMSG m = 3"

definition write_CfgMSG :: "u8 list \<Rightarrow> nat \<Rightarrow> u32 \<Rightarrow> CfgMSG \<Rightarrow> u8 list option" where
  "write_CfgMSG mem data sz m = write_msg
     [next_out (CfgMSG_msg_class m), next_out (CfgMSG_msg_id m), next_out (CfgMSG_rate m)] mem data sz"

interpretation CfgMSG: ubx_message read_CfgMSG write_CfgMSG serializedLength_CfgMSG
  "\<lambda>_. True" "\<lambda>_. True"
  by (unfold_locales, rule msg_codec, rule read_CfgMSG_def, rule write_CfgMSG_def,
      rule transfers_eqn, (rule run_intros)+, rule CfgMSG.equality)
    (simp_all add: serializedLength_CfgMSG_def msg_simps)

subsection \<open>CfgNAV5\<close>

record CfgNAV5 =
  CfgNAV5_mask :: u16
  CfgNAV5_dyn_model :: u8
  CfgNAV5_fix_mode :: u8
  CfgNAV5_fixed_alt :: u32
  CfgNAV5_fixed_alt_var :: u32
  CfgNAV5_min_elev :: u8
  CfgNAV5_dr_limit :: u8
  CfgNAV5_p_dop :: u16
  CfgNAV5_t_dop :: u16
  CfgNAV5_p_acc :: u16
  CfgNAV5_t_acc :: u16
  CfgNAV5_static_hold_thresh :: u8
  CfgNAV5_dgnss_time_out :: u8
  CfgNAV5_cno_thresh_num_svs :: u8
  CfgNAV5_cno_thresh :: u8
  CfgNAV5_reserved1 :: "u8 list"
  CfgNAV5_static_hold_max_dist :: u16
  CfgNAV5_utc_standard :: u8
  CfgNAV5_reserved2 :: "u8 list"

definition shape_CfgNAV5 :: "CfgNAV5 \<Rightarrow> bool" where
  "shape_CfgNAV5 m \<longleftrightarrow> length (CfgNAV5_reserved1 m) = 2 \<and> length (CfgNAV5_reserved2 m) = 5"

definition read_CfgNAV5 :: "u8 list \<Rightarrow> nat \<Rightarrow> u32 \<Rightarrow> CfgNAV5 \<Rightarrow> CfgNAV5 option" where
  "read_CfgNAV5 mem data count m = read_msg
     [next_in CfgNAV5_mask_update, next_in CfgNAV5_dyn_model_update,
      next_in CfgNAV5_fix_mode_update, next_in CfgNAV5_fixed_alt_update,
      next_in CfgNAV5_fixed_alt_var_update, next_in CfgNAV5_min_elev_update,
      next_in CfgNAV5_dr_limit_update, next_in CfgNAV5_p_dop_update,
      next_in CfgNAV5_t_dop_update, next_in CfgNAV5_p_acc_update, next_in CfgNAV5_t_acc_update,
      next_in CfgNAV5_static_hold_thresh_update, next_in CfgNAV5_dgnss_time_out_update,
      next_in CfgNAV5_cno_thresh_num_svs_update, next_in CfgNAV5_cno_thresh_update,
      next_in (elem CfgNAV5_reserved1_update 0), next_in (elem CfgNAV5_reserved1_update 1),
      next_in CfgNAV5_static_hold_max_dist_update, next_in CfgNAV5_utc_standard_update,
      next_in (elem CfgNAV5_reserved2_update 0), next_in (elem CfgNAV5_reserved2_update 1),
      next_in (elem CfgNAV5_reserved2_update 2), next_in (elem CfgNAV5_reserved2_update 3),
      next_in (elem CfgNAV5_reserved2_update 4)] mem data count m"

definition serializedLength_CfgNAV5 :: "CfgNAV5 \<Rightarrow> u32" where
  "serializedLength_CfgNAV5 m = 36"

definition write_CfgNAV5 :: "u8 list \<Rightarrow> nat \<Rightarrow> u32 \<Rightarrow> CfgNAV5 \<Rightarrow> u8 list option" where
  "write_CfgNAV5 mem data sz m = write_msg
     [next_out (CfgNAV5_mask m), next_out (CfgNAV5_dyn_model m), next_out (CfgNAV5_fix_mode m),
      next_out (CfgNAV5_fixed_alt m), next_out (CfgNAV5_fixed_alt_var m),
      next_out (CfgNAV5_min_elev m), next_out (CfgNAV5_dr_limit m), next_out (CfgNAV5_p_dop m),
      next_out (CfgNAV5_t_dop m), next_out (CfgNAV5_p_acc m), next_out (CfgNAV5_t_acc m),
      next_out (CfgNAV5_static_hold_thresh m), next_out (CfgNAV5_dgnss_time_out m),
      next_out (CfgNAV5_cno_thresh_num_svs m), next_out (CfgNAV5_cno_thresh m),
      next_out (CfgNAV5_reserved1 m ! 0), next_out (CfgNAV5_reserved1 m ! 1),
      next_out (CfgNAV5_static_hold_max_dist m), next_out (CfgNAV5_utc_standard m),
      next_out (CfgNAV5_reserved2 m ! 0), next_out (CfgNAV5_reserved2 m ! 1),
      next_out (CfgNAV5_reserved2 m ! 2), next_out (CfgNAV5_reserved2 m ! 3),
      next_out (CfgNAV5_reserved2 m ! 4)] mem data sz"

interpretation CfgNAV5: ubx_message read_CfgNAV5 write_CfgNAV5 serializedLength_CfgNAV5
  "shape_CfgNAV5" "shape_CfgNAV5"
  by (unfold_locales, rule msg_codec, rule read_CfgNAV5_def, rule write_CfgNAV5_def,
      rule transfers_eqn, (rule run_intros)+, rule CfgNAV5.equality)
    (simp_all add: serializedLength_CfgNAV5_def shape_CfgNAV5_def msg_simps)

subsection \<open>CfgNAVX5\<close>

record CfgNAVX5 =
  CfgNAVX5_version :: u16
  CfgNAVX5_mask1 :: u16
  CfgNAVX5_mask2 :: u32
  CfgNAVX5_reserved1 :: "u8 list"
  CfgNAVX5_min_svs :: u8
  CfgNAVX5_max_svs :: u8
  CfgNAVX5_min_cno :: u8
  CfgNAVX5_reserved2 :: u8
  CfgNAVX5_ini_fix3d :: u8
  CfgNAVX5_reserved3 :: "u8 list"
  CfgNAVX5_ack_aiding :: u8
  CfgNAVX5_wkn_rollover :: u16
  CfgNAVX5_sig_atten_comp_mode :: u8
  CfgNAVX5_reserved4 :: "u8 list"
  CfgNAVX5_use_ppp :: u8
  CfgNAVX5_aop_cfg :: u8
  CfgNAVX5_reserved5 :: "u8 list"
  CfgNAVX5_aop_orb_max_err :: u16
  CfgNAVX5_reserved6 :: "u8 list"
  CfgNAVX5_use_adr :: u8

definition shape_CfgNAVX5 :: "CfgNAVX5 \<Rightarrow> bool" where
  "shape_CfgNAVX5 m \<longleftrightarrow> length (CfgNAVX5_reserved1 m) = 2 \<and> length (CfgNAVX5_reserved3 m) = 2 \<and>
     length (CfgNAVX5_reserved4 m) = 5 \<and> length (CfgNAVX5_reserved5 m) = 2 \<and>
     length (CfgNAVX5_reserved6 m) = 7"

definition read_CfgNAVX5 :: "u8 list \<Rightarrow> nat \<Rightarrow> u32 \<Rightarrow> CfgNAVX5 \<Rightarrow> CfgNAVX5 option" where
  "read_CfgNAVX5 mem data count m = read_msg
     [next_in CfgNAVX5_version_update, next_in CfgNAVX5_mask1_update,
      next_in CfgNAVX5_mask2_update, next_in (elem CfgNAVX5_reserved1_update 0),
      next_in (elem CfgNAVX5_reserved1_update 1), next_in CfgNAVX5_min_svs_update,
      next_in CfgNAVX5_max_svs_update, next_in CfgNAVX5_min_cno_update,
      next_in CfgNAVX5_reserved2_update, next_in CfgNAVX5_ini_fix3d_update,
      next_in (elem CfgNAVX5_reserved3_update 0), next_in (elem CfgNAVX5_reserved3_update 1),
      next_in CfgNAVX5_ack_aiding_update, next_in CfgNAVX5_wkn_rollover_update,
      next_in CfgNAVX5_sig_atten_comp_mode_update, next_in (elem CfgNAVX5_reserved4_update 0),
      next_in (elem CfgNAVX5_reserved4_update 1), next_in (elem CfgNAVX5_reserved4_update 2),
      next_in (elem CfgNAVX5_reserved4_update 3), next_in (elem CfgNAVX5_reserved4_update 4),
      next_in CfgNAVX5_use_ppp_update, next_in CfgNAVX5_aop_cfg_update,
      next_in (elem CfgNAVX5_reserved5_update 0), next_in (elem CfgNAVX5_reserved5_update 1),
      next_in CfgNAVX5_aop_orb_max_err_update, next_in (elem CfgNAVX5_reserved6_update 0),
      next_in (elem CfgNAVX5_reserved6_update 1), next_in (elem CfgNAVX5_reserved6_update 2),
      next_in (elem CfgNAVX5_reserved6_update 3), next_in (elem CfgNAVX5_reserved6_update 4),
      next_in (elem CfgNAVX5_reserved6_update 5), next_in (elem CfgNAVX5_reserved6_update 6),
      next_in CfgNAVX5_use_adr_update] mem data count m"

definition serializedLength_CfgNAVX5 :: "CfgNAVX5 \<Rightarrow> u32" where
  "serializedLength_CfgNAVX5 m = 40"

definition write_CfgNAVX5 :: "u8 list \<Rightarrow> nat \<Rightarrow> u32 \<Rightarrow> CfgNAVX5 \<Rightarrow> u8 list option" where
  "write_CfgNAVX5 mem data sz m = write_msg
     [next_out (CfgNAVX5_version m), next_out (CfgNAVX5_mask1 m), next_out (CfgNAVX5_mask2 m),
      next_out (CfgNAVX5_reserved1 m ! 0), next_out (CfgNAVX5_reserved1 m ! 1),
      next_out (CfgNAVX5_min_svs m), next_out (CfgNAVX5_max_svs m),
      next_out (CfgNAVX5_min_cno m), next_out (CfgNAVX5_reserved2 m),
      next_out (CfgNAVX5_ini_fix3d m), next_out (CfgNAVX5_reserved3 m ! 0),
      next_out (CfgNAVX5_reserved3 m ! 1), next_out (CfgNAVX5_ack_aiding m),
      next_out (CfgNAVX5_wkn_rollover m), next_out (CfgNAVX5_sig_atten_comp_mode m),
      next_out (CfgNAVX5_reserved4 m ! 0), next_out (CfgNAVX5_reserved4 m ! 1),
      next_out (CfgNAVX5_reserved4 m ! 2), next_out (CfgNAVX5_reserved4 m ! 3),
      next_out (CfgNAVX5_reserved4 m ! 4), next_out (CfgNAVX5_use_ppp m),
      next_out (CfgNAVX5_aop_cfg m), next_out (CfgNAVX5_reserved5 m ! 0),
      next_out (CfgNAVX5_reserved5 m ! 1), next_out (CfgNAVX5_aop_orb_max_err m),
      next_out (CfgNAVX5_reserved6 m ! 0), next_out (CfgNAVX5_reserved6 m ! 1),
      next_out (CfgNAVX5_reserved6 m ! 2), next_out (CfgNAVX5_reserved6 m ! 3),
      next_out (CfgNAVX5_reserved6 m ! 4), next_out (CfgNAVX5_reserved6 m ! 5),
      next_out (CfgNAVX5_reserved6 m ! 6), next_out (CfgNAVX5_use_adr m)] mem data sz"

interpretation CfgNAVX5: ubx_message read_CfgNAVX5 write_CfgNAVX5 serializedLength_CfgNAVX5
  "shape_CfgNAVX5" "shape_CfgNAVX5"
  by (unfold_locales, rule msg_codec, rule read_CfgNAVX5_def, rule write_CfgNAVX5_def,
      rule transfers_eqn, (rule run_intros)+, rule CfgNAVX5.equality)
    (simp_all add: serializedLength_CfgNAVX5_def shape_CfgNAVX5_def msg_simps)

subsection \<open>CfgNMEA\<close>

record CfgNMEA =
  CfgNMEA_filter :: u8
  CfgNMEA_nmea_version :: u8
  CfgNMEA_num_sv :: u8
  CfgNMEA_flags :: u8
  CfgNMEA_gnss_to_filter :: u32
  CfgNMEA_sv_numbering :: u8
  CfgNMEA_main_talker_id :: u8
  CfgNMEA_gsv_talker_id :: u8
  CfgNMEA_version :: u8
  CfgNMEA_bds_talker_id :: "u8 list"
  CfgNMEA_reserved1 :: "u8 list"

definition shape_CfgNMEA :: "CfgNMEA \<Rightarrow> bool" where
  "shape_CfgNMEA m \<longleftrightarrow> length (CfgNMEA_bds_talker_id m) = 2 \<and> length (CfgNMEA_reserved1 m) = 6"

definition read_CfgNMEA :: "u8 list \<Rightarrow> nat \<Rightarrow> u32 \<Rightarrow> CfgNMEA \<Rightarrow> CfgNMEA option" where
  "read_CfgNMEA mem data count m = read_msg
     [next_in CfgNMEA_filter_update, next_in CfgNMEA_nmea_version_update,
      next_in CfgNMEA_num_sv_update, next_in CfgNMEA_flags_update,
      next_in CfgNMEA_gnss_to_filter_update, next_in CfgNMEA_sv_numbering_update,
      next_in CfgNMEA_main_talker_id_update, next_in CfgNMEA_gsv_talker_id_update,
      next_in CfgNMEA_version_update, next_in (elem CfgNMEA_bds_talker_id_update 0),
      next_in (elem CfgNMEA_bds_talker_id_update 1), next_in (elem CfgNMEA_reserved1_update 0),
      next_in (elem CfgNMEA_reserved1_update 1), next_in (elem CfgNMEA_reserved1_update 2),
      next_in (elem CfgNMEA_reserved1_update 3), next_in (elem CfgNMEA_reserved1_update 4),
      next_in (elem CfgNMEA_reserved1_update 5)] mem data count m"

definition serializedLength_CfgNMEA :: "CfgNMEA \<Rightarrow> u32" where
  "serializedLength_CfgNMEA m = 20"

definition write_CfgNMEA :: "u8 list \<Rightarrow> nat \<Rightarrow> u32 \<Rightarrow> CfgNMEA \<Rightarrow> u8 list option" where
  "write_CfgNMEA mem data sz m = write_msg
     [next_out (CfgNMEA_filter m), next_out (CfgNMEA_nmea_version m),
      next_out (CfgNMEA_num_sv m), next_out (CfgNMEA_flags m),
      next_out (CfgNMEA_gnss_to_filter m), next_out (CfgNMEA_sv_numbering m),
      next_out (CfgNMEA_main_talker_id m), next_out (CfgNMEA_gsv_talker_id m),
      next_out (CfgNMEA_version m), next_out (CfgNMEA_bds_talker_id m ! 0),
      next_out (CfgNMEA_bds_talker_id m ! 1), next_out (CfgNMEA_reserved1 m ! 0),
      next_out (CfgNMEA_reserved1 m ! 1), next_out (CfgNMEA_reserved1 m ! 2),
      next_out (CfgNMEA_reserved1 m ! 3), next_out (CfgNMEA_reserved1 m ! 4),
      next_out (CfgNMEA_reserved1 m ! 5)] mem data sz"

interpretation CfgNMEA: ubx_message read_CfgNMEA write_CfgNMEA serializedLength_CfgNMEA
  "shape_CfgNMEA" "shape_CfgNMEA"
  by (unfold_locales, rule msg_codec, rule read_CfgNMEA_def, rule write_CfgNMEA_def,
      rule transfers_eqn, (rule run_intros)+, rule CfgNMEA.equality)
    (simp_all add: serializedLength_CfgNMEA_def shape_CfgNMEA_def msg_simps)

subsection \<open>CfgNMEA6\<close>

record CfgNMEA6 =
  CfgNMEA6_filter :: u8
  CfgNMEA6_version :: u8
  CfgNMEA6_num_sv :: u8
  CfgNMEA6_flags :: u8

definition read_CfgNMEA6 :: "u8 list \<Rightarrow> nat \<Rightarrow> u32 \<Rightarrow> CfgNMEA6 \<Rightarrow> CfgNMEA6 option" where
  "read_CfgNMEA6 mem data count m = read_msg
     [next_in CfgNMEA6_filter_update, next_in CfgNMEA6_version_update,
      next_in CfgNMEA6_num_sv_update, next_in CfgNMEA6_flags_update] mem data count m"

definition serializedLength_CfgNMEA6 :: "CfgNMEA6 \<Rightarrow> u32" where
  "serializedLength_CfgNMEA6 m = 4"

definition write_CfgNMEA6 :: "u8 list \<Rightarrow> nat \<Rightarrow> u32 \<Rightarrow> CfgNMEA6 \<Rightarrow> u8 list option" where
  "write_CfgNMEA6 mem data sz m = write_msg
     [next_out (CfgNMEA6_filter m), next_out (CfgNMEA6_version m), next_out (CfgNMEA6_num_sv m),
      next_out (CfgNMEA6_flags m)] mem data sz"

interpretation CfgNMEA6: ubx_message read_CfgNMEA6 write_CfgNMEA6 serializedLength_CfgNMEA6
  "\<lambda>_. True" "\<lambda>_. True"
  by (unfold_locales, rule msg_codec, rule read_CfgNMEA6_def, rule write_CfgNMEA6_def,
      rule transfers_eqn, (rule run_intros)+, rule CfgNMEA6.equality)
    (simp_all add: serializedLength_CfgNMEA6_def msg_simps)

subsection \<open>CfgNMEA7\<close>

record CfgNMEA7 =
  CfgNMEA7_filter :: u8
  CfgNMEA7_nmea_version :: u8
  CfgNMEA7_num_sv :: u8
  CfgNMEA7_flags :: u8
  CfgNMEA7_gnss_to_filter :: u32
  CfgNMEA7_sv_numbering :: u8
  CfgNMEA7_main_talker_id :: u8
  CfgNMEA7_gsv_talker_id :: u8
  CfgNMEA7_reserved :: u8

definition read_CfgNMEA7 :: "u8 list \<Rightarrow> nat \<Rightarrow> u32 \<Rightarrow> CfgNMEA7 \<Rightarrow> CfgNMEA7 option" where
  "read_CfgNMEA7 mem data count m = read_msg
     [next_in CfgNMEA7_filter_update, next_in CfgNMEA7_nmea_version_update,
      next_in CfgNMEA7_num_sv_update, next_in CfgNMEA7_flags_update,
      next_in CfgNMEA7_gnss_to_filter_update, next_in CfgNMEA7_sv_numbering_update,
      next_in CfgNMEA7_main_talker_id_update, next_in CfgNMEA7_gsv_talker_id_update,
      next_in CfgNMEA7_reserved_update] mem data count m"

definition serializedLength_CfgNMEA7 :: "CfgNMEA7 \<Rightarrow> u32" where
  "serializedLength_CfgNMEA7 m = 12"

definition write_CfgNMEA7 :: "u8 list \<Rightarrow> nat \<Rightarrow> u32 \<Rightarrow> CfgNMEA7 \<Rightarrow> u8 list option" where
  "write_CfgNMEA7 mem data sz m = write_msg
     [next_out (CfgNMEA7_filter m), next_out (CfgNMEA7_nmea_version m),
      next_out (CfgNMEA7_num_sv m), next_out (CfgNMEA7_flags m),
      next_out (CfgNMEA7_gnss_to_filter m), next_out (CfgNMEA7_sv_numbering m),
      next_out (CfgNMEA7_main_talker_id m), next_out (CfgNMEA7_gsv_talker_id m),
      next_out (CfgNMEA7_reserved m)] mem data sz"

interpretation CfgNMEA7: ubx_message read_CfgNMEA7 write_CfgNMEA7 serializedLength_CfgNMEA7
  "\<lambda>_. True" "\<lambda>_. True"
  by (unfold_locales, rule msg_codec, rule read_CfgNMEA7_def, rule write_CfgNMEA7_def,
      rule transfers_eqn, (rule run_intros)+, rule CfgNMEA7.equality)
    (simp_all add: serializedLength_CfgNMEA7_def msg_simps)

subsection \<open>CfgPRT\<close>

record CfgPRT =
  CfgPRT_port_id :: u8
  CfgPRT_reserved0 :: u8
  CfgPRT_tx_ready :: u16
  CfgPRT_mode :: u32
  CfgPRT_baud_rate :: u32
  CfgPRT_in_proto_mask :: u16
  CfgPRT_out_proto_mask :: u16
  CfgPRT_flags :: u16
  CfgPRT_reserved1 :: u16

definition read_CfgPRT :: "u8 list \<Rightarrow> nat \<Rightarrow> u32 \<Rightarrow> CfgPRT \<Rightarrow> CfgPRT option" where
  "read_CfgPRT mem data count m = read_msg
     [next_in CfgPRT_port_id_update, next_in CfgPRT_reserved0_update,
      next_in CfgPRT_tx_ready_update, next_in CfgPRT_mode_update,
      next_in CfgPRT_baud_rate_update, next_in CfgPRT_in_proto_mask_update,
      next_in CfgPRT_out_proto_mask_update, next_in CfgPRT_flags_update,
      next_in CfgPRT_reserved1_update] mem data count m"

definition serializedLength_CfgPRT :: "CfgPRT \<Rightarrow> u32" where
  "serializedLength_CfgPRT m = 20"

definition write_CfgPRT :: "u8 list \<Rightarrow> nat \<Rightarrow> u32 \<Rightarrow> CfgPRT \<Rightarrow> u8 list option" where
  "write_CfgPRT mem data sz m = write_msg
     [next_out (CfgPRT_port_id m), next_out (CfgPRT_reserved0 m), next_out (CfgPRT_tx_ready m),
      next_out (CfgPRT_mode m), next_out (CfgPRT_baud_rate m),
      next_out (CfgPRT_in_proto_mask m), next_out (CfgPRT_out_proto_mask m),
      next_out (CfgPRT_flags m), next_out (CfgPRT_reserved1 m)] mem data sz"

interpretation CfgPRT: ubx_message read_CfgPRT write_CfgPRT serializedLength_CfgPRT
  "\<lambda>_. True" "\<lambda>_. True"
  by (unfold_locales, rule msg_codec, rule read_CfgPRT_def, rule write_CfgPRT_def,
      rule transfers_eqn, (rule run_intros)+, rule CfgPRT.equality)
    (simp_all add: serializedLength_CfgPRT_def msg_simps)

subsection \<open>CfgRATE\<close>

record CfgRATE =
  CfgRATE_meas_rate :: u16
  CfgRATE_nav_rate :: u16
  CfgRATE_time_ref :: u16

definition read_CfgRATE :: "u8 list \<Rightarrow> nat \<Rightarrow> u32 \<Rightarrow> CfgRATE \<Rightarrow> CfgRATE option" where
  "read_CfgRATE mem data count m = read_msg
     [next_in CfgRATE_meas_rate_update, next_in CfgRATE_nav_rate_update,
      next_in CfgRATE_time_ref_update] mem data count m"

definition serializedLength_CfgRATE :: "CfgRATE \<Rightarrow> u32" where
  "serializedLength_CfgRATE m = 6"

definition write_CfgRATE :: "u8 list \<Rightarrow> nat \<Rightarrow> u32 \<Rightarrow> CfgRATE \<Rightarrow> u8 list option" where
  "write_CfgRATE mem data sz m = write_msg
     [next_out (CfgRATE_meas_rate m), next_out (CfgRATE_nav_rate m),
      next_out (CfgRATE_time_ref m)] mem data sz"

interpretation CfgRATE: ubx_message read_CfgRATE write_CfgRATE serializedLength_CfgRATE
  "\<lambda>_. True" "\<lambda>_. True"
  by (unfold_locales, rule msg_codec, rule read_CfgRATE_def, rule write_CfgRATE_def,
      rule transfers_eqn, (rule run_intros)+, rule CfgRATE.equality)
    (simp_all add: serializedLength_CfgRATE_def msg_simps)

subsection \<open>CfgRST\<close>

record CfgRST =
  CfgRST_nav_bbr_mask :: u16
  CfgRST_reset_mode :: u8
  CfgRST_reserved1 :: u8

definition read_CfgRST :: "u8 list \<Rightarrow> nat \<Rightarrow> u32 \<Rightarrow> CfgRST \<Rightarrow> CfgRST option" where
  "read_CfgRST mem data count m = read_msg
     [next_in CfgRST_nav_bbr_mask_update, next_in CfgRST_reset_mode_update,
      next_in CfgRST_reserved1_update] mem data count m"

definition serializedLength_CfgRST :: "CfgRST \<Rightarrow> u32" where
  "serializedLength_CfgRST m = 4"

definition write_CfgRST :: "u8 list \<Rightarrow> nat \<Rightarrow> u32 \<Rightarrow> CfgRST \<Rightarrow> u8 list option" where
  "write_CfgRST mem data sz m = write_msg
     [next_out (CfgRST_nav_bbr_mask m), next_out (CfgRST_reset_mode m),
      next_out (CfgRST_reserved1 m)] mem data sz"

interpretation CfgRST: ubx_message read_CfgRST write_CfgRST serializedLength_CfgRST
  "\<lambda>_. True" "\<lambda>_. True"
  by (unfold_locales, rule msg_codec, rule read_CfgRST_def, rule write_CfgRST_def,
      rule transfers_eqn, (rule run_intros)+, rule CfgRST.equality)
    (simp_all add: serializedLength_CfgRST_def msg_simps)

subsection \<open>CfgSBAS\<close>

record CfgSBAS =
  CfgSBAS_mode :: u8
  CfgSBAS_usage :: u8
  CfgSBAS_max_sbas :: u8
  CfgSBAS_scanmode2 :: u8
  CfgSBAS_scanmode1 :: u32

definition read_CfgSBAS :: "u8 list \<Rightarrow> nat \<Rightarrow> u32 \<Rightarrow> CfgSBAS \<Rightarrow> CfgSBAS option" where
  "read_CfgSBAS mem data count m = read_msg
     [next_in CfgSBAS_mode_update, next_in CfgSBAS_usage_update,
      next_in CfgSBAS_max_sbas_update, next_in CfgSBAS_scanmode2_update,
      next_in CfgSBAS_scanmode1_update] mem data count m"

definition serializedLength_CfgSBAS :: "CfgSBAS \<Rightarrow> u32" where
  "serializedLength_CfgSBAS m = 8"

definition write_CfgSBAS :: "u8 list \<Rightarrow> nat \<Rightarrow> u32 \<Rightarrow> CfgSBAS \<Rightarrow> u8 list option" where
  "write_CfgSBAS mem data sz m = write_msg
     [next_out (CfgSBAS_mode m), next_out (CfgSBAS_usage m), next_out (CfgSBAS_max_sbas m),
      next_out (CfgSBAS_scanmode2 m), next_out (CfgSBAS_scanmode1 m)] mem data sz"

interpretation CfgSBAS: ubx_message read_CfgSBAS write_CfgSBAS serializedLength_CfgSBAS
  "\<lambda>_. True" "\<lambda>_. True"
  by (unfold_locales, rule msg_codec, rule read_CfgSBAS_def, rule write_CfgSBAS_def,
      rule transfers_eqn, (rule run_intros)+, rule CfgSBAS.equality)
    (simp_all add: serializedLength_CfgSBAS_def msg_simps)

subsection \<open>CfgTMODE3\<close>

record CfgTMODE3 =
  CfgTMODE3_version :: u8
  CfgTMODE3_reserved1 :: u8
  CfgTMODE3_flags :: u16
  CfgTMODE3_ecef_x_or_lat :: u32
  CfgTMODE3_ecef_y_or_lon :: u32
  CfgTMODE3_ecef_z_or_alt :: u32
  CfgTMODE3_ecef_x_or_lat_hp :: u8
  CfgTMODE3_ecef_y_or_lon_hp :: u8
  CfgTMODE3_ecef_z_or_alt_hp :: u8
  CfgTMODE3_reserved2 :: u8
  CfgTMODE3_fixed_pos_acc :: u32
  CfgTMODE3_svin_min_dur :: u32
  CfgTMODE3_svin_acc_limit :: u32
  CfgTMODE3_reserved3 :: "u8 list"

definition shape_CfgTMODE3 :: "CfgTMODE3 \<Rightarrow> bool" where
  "shape_CfgTMODE3 m \<longleftrightarrow> length (CfgTMODE3_reserved3 m) = 8"

definition read_CfgTMODE3 :: "u8 list \<Rightarrow> nat \<Rightarrow> u32 \<Rightarrow> CfgTMODE3 \<Rightarrow> CfgTMODE3 option" where
  "read_CfgTMODE3 mem data count m = read_msg
     [next_in CfgTMODE3_version_update, next_in CfgTMODE3_reserved1_update,
      next_in CfgTMODE3_flags_update, next_in CfgTMODE3_ecef_x_or_lat_update,
      next_in CfgTMODE3_ecef_y_or_lon_update, next_in CfgTMODE3_ecef_z_or_alt_update,
      next_in CfgTMODE3_ecef_x_or_lat_hp_update, next_in CfgTMODE3_ecef_y_or_lon_hp_update,
      next_in CfgTMODE3_ecef_z_or_alt_hp_update, next_in CfgTMODE3_reserved2_update,
      next_in CfgTMODE3_fixed_pos_acc_update, next_in CfgTMODE3_svin_min_dur_update,
      next_in CfgTMODE3_svin_acc_limit_update, next_in (elem CfgTMODE3_reserved3_update 0),
      next_in (elem CfgTMODE3_reserved3_update 1), next_in (elem CfgTMODE3_reserved3_update 2),
      next_in (elem CfgTMODE3_reserved3_update 3), next_in (elem CfgTMODE3_reserved3_update 4),
      next_in (elem CfgTMODE3_reserved3_update 5), next_in (elem CfgTMODE3_reserved3_update 6),
      next_in (elem CfgTMODE3_reserved3_update 7)] mem data count m"

definition serializedLength_CfgTMODE3 :: "CfgTMODE3 \<Rightarrow> u32" where
  "serializedLength_CfgTMODE3 m = 40"

definition write_CfgTMODE3 :: "u8 list \<Rightarrow> nat \<Rightarrow> u32 \<Rightarrow> CfgTMODE3 \<Rightarrow> u8 list option" where
  "write_CfgTMODE3 mem data sz m = write_msg
     [next_out (CfgTMODE3_version m), next_out (CfgTMODE3_reserved1 m),
      next_out (CfgTMODE3_flags m), next_out (CfgTMODE3_ecef_x_or_lat m),
      next_out (CfgTMODE3_ecef_y_or_lon m), next_out (CfgTMODE3_ecef_z_or_alt m),
      next_out (CfgTMODE3_ecef_x_or_lat_hp m), next_out (CfgTMODE3_ecef_y_or_lon_hp m),
      next_out (CfgTMODE3_ecef_z_or_alt_hp m), next_out (CfgTMODE3_reserved2 m),
      next_out (CfgTMODE3_fixed_pos_acc m), next_out (CfgTMODE3_svin_min_dur m),
      next_out (CfgTMODE3_svin_acc_limit m), next_out (CfgTMODE3_reserved3 m ! 0),
      next_out (CfgTMODE3_reserved3 m ! 1), next_out (CfgTMODE3_reserved3 m ! 2),
      next_out (CfgTMODE3_reserved3 m ! 3), next_out (CfgTMODE3_reserved3 m ! 4),
      next_out (CfgTMODE3_reserved3 m ! 5), next_out (CfgTMODE3_reserved3 m ! 6),
      next_out (CfgTMODE3_reserved3 m ! 7)] mem data sz"

interpretation CfgTMODE3: ubx_message read_CfgTMODE3 write_CfgTMODE3 serializedLength_CfgTMODE3
  "shape_CfgTMODE3" "shape_CfgTMODE3"
  by (unfold_locales, rule msg_codec, rule read_CfgTMODE3_def, rule write_CfgTMODE3_def,
      rule transfers_eqn, (rule run_intros)+, rule CfgTMODE3.equality)
    (simp_all add: serializedLength_CfgTMODE3_def shape_CfgTMODE3_def msg_simps)

end
