(* ===== verification/Ubx_Msgs_Nav.thy ===== *)
theory Ubx_Msgs_Nav
  imports Ubx_Stream
begin

text \<open>
  The NAV and HNR messages of \<open>ublox_msgs\<close>. One record per message
  (\<open>ublox_msgs/msg/<Name>.msg\<close>; signed fields and floats are kept as the raw words the
  serialiser copies), and per serialiser of \<open>ublox_msgs/serialization.hpp\<close> its
  \<open>read\<close>, \<open>serializedLength\<close> and \<open>write\<close> as \<open>read_<Name>\<close>,
  \<open>serializedLength_<Name>\<close> and \<open>write_<Name>\<close>, statement by statement.
  \<open>shape_<Name>\<close> states the sizes of the \<open>std::array\<close> fields and \<open>ok_<Name>\<close> what
  a message has to satisfy to survive the wire. The interpretation of \<open>ubx_message\<close> below
  a message proves that its reader inverts its writer.

\<close>

subsection \<open>HnrPVT\<close>

record HnrPVT =
  HnrPVT_i_tow :: u32
  HnrPVT_year :: u16
  HnrPVT_month :: u8
  HnrPVT_day :: u8
  HnrPVT_hour :: u8
  HnrPVT_min :: u8
  HnrPVT_sec :: u8
  HnrPVT_valid :: u8
  HnrPVT_nano :: u32
  HnrPVT_gps_fix :: u8
  HnrPVT_flags :: u8
  HnrPVT_reserved0 :: "u8 list"
  HnrPVT_lon :: u32
  HnrPVT_lat :: u32
  HnrPVT_height :: u32
  HnrPVT_h_msl :: u32
  HnrPVT_g_speed :: u32
  HnrPVT_speed :: u32
  HnrPVT_head_mot :: u32
  HnrPVT_head_veh :: u32
  HnrPVT_h_acc :: u32
  HnrPVT_v_acc :: u32
  HnrPVT_s_acc :: u32
  HnrPVT_head_acc :: u32
  HnrPVT_reserved1 :: "u8 list"

definition shape_HnrPVT :: "HnrPVT \<Rightarrow> bool" where
  "shape_HnrPVT m \<longleftrightarrow> length (HnrPVT_reserved0 m) = 2 \<and> length (HnrPVT_reserved1 m) = 4"

definition read_HnrPVT :: "u8 list \<Rightarrow> nat \<Rightarrow> u32 \<Rightarrow> HnrPVT \<Rightarrow> HnrPVT option" where
  "read_HnrPVT mem data count m = read_msg
     [next_in HnrPVT_i_tow_update, next_in HnrPVT_year_update, next_in HnrPVT_month_update,
      next_in HnrPVT_day_update, next_in HnrPVT_hour_update, next_in HnrPVT_min_update,
      next_in HnrPVT_sec_update, next_in HnrPVT_valid_update, next_in HnrPVT_nano_update,
      next_in HnrPVT_gps_fix_update, next_in HnrPVT_flags_update,
      next_in (elem HnrPVT_reserved0_update 0), next_in (elem HnrPVT_reserved0_update 1),
      next_in HnrPVT_lon_update, next_in HnrPVT_lat_update, next_in HnrPVT_height_update,
      next_in HnrPVT_h_msl_update, next_in HnrPVT_g_speed_update, next_in HnrPVT_speed_update,
      next_in HnrPVT_head_mot_update, next_in HnrPVT_head_veh_update,
      next_in HnrPVT_h_acc_update, next_in HnrPVT_v_acc_update, next_in HnrPVT_s_acc_update,
      next_in HnrPVT_head_acc_update, next_in (elem HnrPVT_reserved1_update 0),
      next_in (elem HnrPVT_reserved1_update 1), next_in (elem HnrPVT_reserved1_update 2),
      next_in (elem HnrPVT_reserved1_update 3)] mem data count m"

definition serializedLength_HnrPVT :: "HnrPVT \<Rightarrow> u32" where
  "serializedLength_HnrPVT m = 72"

definition write_HnrPVT :: "u8 list \<Rightarrow> nat \<Rightarrow> u32 \<Rightarrow> HnrPVT \<Rightarrow> u8 list option" where
  "write_HnrPVT mem data sz m = write_msg
     [next_out (HnrPVT_i_tow m), next_out (HnrPVT_year m), next_out (HnrPVT_month m),
      next_out (HnrPVT_day m), next_out (HnrPVT_hour m), next_out (HnrPVT_min m),
      next_out (HnrPVT_sec m), next_out (HnrPVT_valid m), next_out (HnrPVT_nano m),
      next_out (HnrPVT_gps_fix m), next_out (HnrPVT_flags m), next_out (HnrPVT_reserved0 m ! 0),
      next_out (HnrPVT_reserved0 m ! 1), next_out (HnrPVT_lon m), next_out (HnrPVT_lat m),
      next_out (HnrPVT_height m), next_out (HnrPVT_h_msl m), next_out (HnrPVT_g_speed m),
      next_out (HnrPVT_speed m), next_out (HnrPVT_head_mot m), next_out (HnrPVT_head_veh m),
      next_out (HnrPVT_h_acc m), next_out (HnrPVT_v_acc m), next_out (HnrPVT_s_acc m),
      next_out (HnrPVT_head_acc m), next_out (HnrPVT_reserved1 m ! 0),
      next_out (HnrPVT_reserved1 m ! 1), next_out (HnrPVT_reserved1 m ! 2),
      next_out (HnrPVT_reserved1 m ! 3)] mem data sz"

interpretation HnrPVT: ubx_message read_HnrPVT write_HnrPVT serializedLength_HnrPVT
  "shape_HnrPVT" "shape_HnrPVT"
  by (unfold_locales, rule msg_codec, rule read_HnrPVT_def, rule write_HnrPVT_def,
      rule transfers_eqn, (rule run_intros)+, rule HnrPVT.equality)
    (simp_all add: serializedLength_HnrPVT_def shape_HnrPVT_def msg_simps)

subsection \<open>NavATT\<close>

record NavATT =
  NavATT_i_tow :: u32
  NavATT_version :: u8
  NavATT_reserved0 :: "u8 list"
  NavATT_roll :: u32
  NavATT_pitch :: u32
  NavATT_heading :: u32
  NavATT_acc_roll :: u32
  NavATT_acc_pitch :: u32
  NavATT_acc_heading :: u32

definition shape_NavATT :: "NavATT \<Rightarrow> bool" where
  "shape_NavATT m \<longleftrightarrow> length (NavATT_reserved0 m) = 3"

definition read_NavATT :: "u8 list \<Rightarrow> nat \<Rightarrow> u32 \<Rightarrow> NavATT \<Rightarrow> NavATT option" where
  "read_NavATT mem data count m = read_msg
     [next_in NavATT_i_tow_update, next_in NavATT_version_update,
      next_in (elem NavATT_reserved0_update 0), next_in (elem NavATT_reserved0_update 1),
      next_in (elem NavATT_reserved0_update 2), next_in NavATT_roll_update,
      next_in NavATT_pitch_update, next_in NavATT_heading_update,
      next_in NavATT_acc_roll_update, next_in NavATT_acc_pitch_update,
      next_in NavATT_acc_heading_update] mem data count m"

definition serializedLength_NavATT :: "NavATT \<Rightarrow> u32" where
  "serializedLength_NavATT m = 32"

definition write_NavATT :: "u8 list \<Rightarrow> nat \<Rightarrow> u32 \<Rightarrow> NavATT \<Rightarrow> u8 list option" where
  "write_NavATT mem data sz m = write_msg
     [next_out (NavATT_i_tow m), next_out (NavATT_version m), next_out (NavATT_reserved0 m ! 0),
      next_out (NavATT_reserved0 m ! 1), next_out (NavATT_reserved0 m ! 2),
      next_out (NavATT_roll m), next_out (NavATT_pitch m), next_out (NavATT_heading m),
      next_out (NavATT_acc_roll m), next_out (NavATT_acc_pitch m),
      next_out (NavATT_acc_heading m)] mem data sz"

interpretation NavATT: ubx_message read_NavATT write_NavATT serializedLength_NavATT
  "shape_NavATT" "shape_NavATT"
  by (unfold_locales, rule msg_codec, rule read_NavATT_def, rule write_NavATT_def,
      rule transfers_eqn, (rule run_intros)+, rule NavATT.equality)
    (simp_all add: serializedLength_NavATT_def shape_NavATT_def msg_simps)

subsection \<open>NavCLOCK\<close>

record NavCLOCK =
  NavCLOCK_i_tow :: u32
  NavCLOCK_clk_b :: u32
  NavCLOCK_clk_d :: u32
  NavCLOCK_t_acc :: u32
  NavCLOCK_f_acc :: u32

definition read_NavCLOCK :: "u8 list \<Rightarrow> nat \<Rightarrow> u32 \<Rightarrow> NavCLOCK \<Rightarrow> NavCLOCK option" where
  "read_NavCLOCK mem data count m = read_msg
     [next_in NavCLOCK_i_tow_update, next_in NavCLOCK_clk_b_update,
      next_in NavCLOCK_clk_d_update, next_in NavCLOCK_t_acc_update,
      next_in NavCLOCK_f_acc_update] mem data count m"

definition serializedLength_NavCLOCK :: "NavCLOCK \<Rightarrow> u32" where
  "serializedLength_NavCLOCK m = 20"

definition write_NavCLOCK :: "u8 list \<Rightarrow> nat \<Rightarrow> u32 \<Rightarrow> NavCLOCK \<Rightarrow> u8 list option" where
  "write_NavCLOCK mem data sz m = write_msg
     [next_out (NavCLOCK_i_tow m), next_out (NavCLOCK_clk_b m), next_out (NavCLOCK_clk_d m),
      next_out (NavCLOCK_t_acc m), next_out (NavCLOCK_f_acc m)] mem data sz"

interpretation NavCLOCK: ubx_message read_NavCLOCK write_NavCLOCK serializedLength_NavCLOCK
  "\<lambda>_. True" "\<lambda>_. True"
  by (unfold_locales, rule msg_codec, rule read_NavCLOCK_def, rule write_NavCLOCK_def,
      rule transfers_eqn, (rule run_intros)+, rule NavCLOCK.equality)
    (simp_all add: serializedLength_NavCLOCK_def msg_simps)

subsection \<open>NavDGPSSV\<close>

record NavDGPSSV =
  NavDGPSSV_svid :: u8
  NavDGPSSV_flags :: u8
  NavDGPSSV_age_c :: u16
  NavDGPSSV_prc :: u32
  NavDGPSSV_prrc :: u32

definition default_NavDGPSSV :: NavDGPSSV where
  "default_NavDGPSSV = \<lparr>NavDGPSSV_svid = 0, NavDGPSSV_flags = 0, NavDGPSSV_age_c = 0, NavDGPSSV_prc = 0,
     NavDGPSSV_prrc = 0\<rparr>"

definition read_NavDGPSSV :: "(ubx_stream \<times> NavDGPSSV \<Rightarrow> (ubx_stream \<times> NavDGPSSV) option) list" where
  "read_NavDGPSSV =
     [next_in NavDGPSSV_svid_update, next_in NavDGPSSV_flags_update,
      next_in NavDGPSSV_age_c_update, next_in NavDGPSSV_prc_update,
      next_in NavDGPSSV_prrc_update]"

definition serializedLength_NavDGPSSV :: "NavDGPSSV \<Rightarrow> u32" where
  "serializedLength_NavDGPSSV m = 12"

definition write_NavDGPSSV :: "NavDGPSSV \<Rightarrow> (ubx_stream \<Rightarrow> ubx_stream option) list" where
  "write_NavDGPSSV m =
     [next_out (NavDGPSSV_svid m), next_out (NavDGPSSV_flags m), next_out (NavDGPSSV_age_c m),
      next_out (NavDGPSSV_prc m), next_out (NavDGPSSV_prrc m)]"

lemma transfers_NavDGPSSV:
  "transfers read_NavDGPSSV (write_NavDGPSSV m) 12 m0 m"
  unfolding read_NavDGPSSV_def write_NavDGPSSV_def
  by (rule transfers_eqn, (rule run_intros)+, rule NavDGPSSV.equality)
    (simp_all add: msg_simps)

subsection \<open>NavDGPS\<close>

record NavDGPS =
  NavDGPS_i_tow :: u32
  NavDGPS_age :: u32
  NavDGPS_base_id :: u16
  NavDGPS_base_health :: u16
  NavDGPS_num_ch :: u8
  NavDGPS_status :: u8
  NavDGPS_reserved1 :: u16
  NavDGPS_sv :: "NavDGPSSV list"

definition read_NavDGPS :: "u8 list \<Rightarrow> nat \<Rightarrow> u32 \<Rightarrow> NavDGPS \<Rightarrow> NavDGPS option" where
  "read_NavDGPS mem data count m = read_msg
     [next_in NavDGPS_i_tow_update, next_in NavDGPS_age_update, next_in NavDGPS_base_id_update,
      next_in NavDGPS_base_health_update, next_in NavDGPS_num_ch_update,
      next_in NavDGPS_status_update, next_in NavDGPS_reserved1_update,
      resize_to default_NavDGPSSV (\<lambda>m. unat (scast (NavDGPS_num_ch m) :: u64)) NavDGPS_sv_update,
      next_in_each read_NavDGPSSV NavDGPS_sv NavDGPS_sv_update] mem data count m"

definition serializedLength_NavDGPS :: "NavDGPS \<Rightarrow> u32" where
  "serializedLength_NavDGPS m = 16 + 12 * scast (NavDGPS_num_ch m)"

definition write_NavDGPS :: "u8 list \<Rightarrow> nat \<Rightarrow> u32 \<Rightarrow> NavDGPS \<Rightarrow> u8 list option" where
  "write_NavDGPS mem data sz m = write_msg
     [next_out (NavDGPS_i_tow m), next_out (NavDGPS_age m), next_out (NavDGPS_base_id m),
      next_out (NavDGPS_base_health m), next_out (of_nat (length (NavDGPS_sv m)) :: u8),
      next_out (NavDGPS_status m), next_out (NavDGPS_reserved1 m),
      next_out_each write_NavDGPSSV (NavDGPS_sv m)] mem data sz"

definition ok_NavDGPS :: "NavDGPS \<Rightarrow> bool" where
  "ok_NavDGPS m \<longleftrightarrow> length (NavDGPS_sv m) = unat (NavDGPS_num_ch m) \<and> unat (NavDGPS_num_ch m) < 128"

interpretation NavDGPS: ubx_message read_NavDGPS write_NavDGPS serializedLength_NavDGPS
  "ok_NavDGPS" "\<lambda>_. True"
  by (unfold_locales, rule msg_codec, rule read_NavDGPS_def, rule write_NavDGPS_def, rule transfers_eqn,
      (rule run_intros transfers_blocks_any [OF _ transfers_NavDGPSSV])+, rule NavDGPS.equality)
    (auto simp: ok_NavDGPS_def serializedLength_NavDGPS_def msg_simps dyn_simps)

subsection \<open>NavPOSECEF\<close>

record NavPOSECEF =
  NavPOSECEF_i_tow :: u32
  NavPOSECEF_ecef_x :: u32
  NavPOSECEF_ecef_y :: u32
  NavPOSECEF_ecef_z :: u32
  NavPOSECEF_p_acc :: u32

definition read_NavPOSECEF :: "u8 list \<Rightarrow> nat \<Rightarrow> u32 \<Rightarrow> NavPOSECEF \<Rightarrow> NavPOSECEF option" where
  "read_NavPOSECEF mem data count m = read_msg
     [next_in NavPOSECEF_i_tow_update, next_in NavPOSECEF_ecef_x_update,
      next_in NavPOSECEF_ecef_y_update, next_in NavPOSECEF_ecef_z_update,
      next_in NavPOSECEF_p_acc_update] mem data count m"

definition serializedLength_NavPOSECEF :: "NavPOSECEF \<Rightarrow> u32" where
  "serializedLength_NavPOSECEF m = 20"

definition write_NavPOSECEF :: "u8 list \<Rightarrow> nat \<Rightarrow> u32 \<Rightarrow> NavPOSECEF \<Rightarrow> u8 list option" where
  "write_NavPOSECEF mem data sz m = write_msg
     [next_out (NavPOSECEF_i_tow m), next_out (NavPOSECEF_ecef_x m),
      next_out (NavPOSECEF_ecef_y m), next_out (NavPOSECEF_ecef_z m),
      next_out (NavPOSECEF_p_acc m)] mem data sz"

interpretation NavPOSECEF: ubx_message read_NavPOSECEF write_NavPOSECEF serializedLength_NavPOSECEF
  "\<lambda>_. True" "\<lambda>_. True"
  by (unfold_locales, rule msg_codec, rule read_NavPOSECEF_def, rule write_NavPOSECEF_def,
      rule transfers_eqn, (rule run_intros)+, rule NavPOSECEF.equality)
    (simp_all add: serializedLength_NavPOSECEF_def msg_simps)

subsection \<open>NavPOSLLH\<close>

record NavPOSLLH =
  NavPOSLLH_i_tow :: u32
  NavPOSLLH_lon :: u32
  NavPOSLLH_lat :: u32
  NavPOSLLH_height :: u32
  NavPOSLLH_h_msl :: u32
  NavPOSLLH_h_acc :: u32
  NavPOSLLH_v_acc :: u32

definition read_NavPOSLLH :: "u8 list \<Rightarrow> nat \<Rightarrow> u32 \<Rightarrow> NavPOSLLH \<Rightarrow> NavPOSLLH option" where
  "read_NavPOSLLH mem data count m = read_msg
     [next_in NavPOSLLH_i_tow_update, next_in NavPOSLLH_lon_update,
      next_in NavPOSLLH_lat_update, next_in NavPOSLLH_height_update,
      next_in NavPOSLLH_h_msl_update, next_in NavPOSLLH_h_acc_update,
      next_in NavPOSLLH_v_acc_update] mem data count m"

definition serializedLength_NavPOSLLH :: "NavPOSLLH \<Rightarrow> u32" where
  "serializedLength_NavPOSLLH m = 28"

definition write_NavPOSLLH :: "u8 list \<Rightarrow> nat \<Rightarrow> u32 \<Rightarrow> NavPOSLLH \<Rightarrow> u8 list option" where
  "write_NavPOSLLH mem data sz m = write_msg
     [next_out (NavPOSLLH_i_tow m), next_out (NavPOSLLH_lon m), next_out (NavPOSLLH_lat m),
      next_out (NavPOSLLH_height m), next_out (NavPOSLLH_h_msl m), next_out (NavPOSLLH_h_acc m),
      next_out (NavPOSLLH_v_acc m)] mem data sz"

interpretation NavPOSLLH: ubx_message read_NavPOSLLH write_NavPOSLLH serializedLength_NavPOSLLH
  "\<lambda>_. True" "\<lambda>_. True"
  by (unfold_locales, rule msg_codec, rule read_NavPOSLLH_def, rule write_NavPOSLLH_def,
      rule transfers_eqn, (rule run_intros)+, rule NavPOSLLH.equality)
    (simp_all add: serializedLength_NavPOSLLH_def msg_simps)

subsection \<open>NavPVT\<close>

record NavPVT =
  NavPVT_i_tow :: u32
  NavPVT_year :: u16
  NavPVT_month :: u8
  NavPVT_day :: u8
  NavPVT_hour :: u8
  NavPVT_min :: u8
  NavPVT_sec :: u8
  NavPVT_valid :: u8
  NavPVT_t_acc :: u32
  NavPVT_nano :: u32
  NavPVT_fix_type :: u8
  NavPVT_flags :: u8
  NavPVT_flags2 :: u8
  NavPVT_num_sv :: u8
  NavPVT_lon :: u32
  NavPVT_lat :: u32
  NavPVT_height :: u32
  NavPVT_h_msl :: u32
  NavPVT_h_acc :: u32
  NavPVT_v_acc :: u32
  NavPVT_vel_n :: u32
  NavPVT_vel_e :: u32
  NavPVT_vel_d :: u32
  NavPVT_g_speed :: u32
  NavPVT_heading :: u32
  NavPVT_s_acc :: u32
  NavPVT_head_acc :: u32
  NavPVT_p_dop :: u16
  NavPVT_reserved1 :: "u8 list"
  NavPVT_head_veh :: u32
  NavPVT_mag_dec :: u16
  NavPVT_mag_acc :: u16

definition shape_NavPVT :: "NavPVT \<Rightarrow> bool" where
  "shape_NavPVT m \<longleftrightarrow> length (NavPVT_reserved1 m) = 6"

definition read_NavPVT :: "u8 list \<Rightarrow> nat \<Rightarrow> u32 \<Rightarrow> NavPVT \<Rightarrow> NavPVT option" where
  "read_NavPVT mem data count m = read_msg
     [next_in NavPVT_i_tow_update, next_in NavPVT_year_update, next_in NavPVT_month_update,
      next_in NavPVT_day_update, next_in NavPVT_hour_update, next_in NavPVT_min_update,
      next_in NavPVT_sec_update, next_in NavPVT_valid_update, next_in NavPVT_t_acc_update,
      next_in NavPVT_nano_update, next_in NavPVT_fix_type_update, next_in NavPVT_flags_update,
      next_in NavPVT_flags2_update, next_in NavPVT_num_sv_update, next_in NavPVT_lon_update,
      next_in NavPVT_lat_update, next_in NavPVT_height_update, next_in NavPVT_h_msl_update,
      next_in NavPVT_h_acc_update, next_in NavPVT_v_acc_update, next_in NavPVT_vel_n_update,
      next_in NavPVT_vel_e_update, next_in NavPVT_vel_d_update, next_in NavPVT_g_speed_update,
      next_in NavPVT_heading_update, next_in NavPVT_s_acc_update,
      next_in NavPVT_head_acc_update, next_in NavPVT_p_dop_update,
      next_in (elem NavPVT_reserved1_update 0), next_in (elem NavPVT_reserved1_update 1),
      next_in (elem NavPVT_reserved1_update 2), next_in (elem NavPVT_reserved1_update 3),
      next_in (elem NavPVT_reserved1_update 4), next_in (elem NavPVT_reserved1_update 5),
      next_in NavPVT_head_veh_update, next_in NavPVT_mag_dec_update,
      next_in NavPVT_mag_acc_update] mem data count m"

definition serializedLength_NavPVT :: "NavPVT \<Rightarrow> u32" where
  "serializedLength_NavPVT m = 92"

definition write_NavPVT :: "u8 list \<Rightarrow> nat \<Rightarrow> u32 \<Rightarrow> NavPVT \<Rightarrow> u8 list option" where
  "write_NavPVT mem data sz m = write_msg
     [next_out (NavPVT_i_tow m), next_out (NavPVT_year m), next_out (NavPVT_month m),
      next_out (NavPVT_day m), next_out (NavPVT_hour m), next_out (NavPVT_min m),
      next_out (NavPVT_sec m), next_out (NavPVT_valid m), next_out (NavPVT_t_acc m),
      next_out (NavPVT_nano m), next_out (NavPVT_fix_type m), next_out (NavPVT_flags m),
      next_out (NavPVT_flags2 m), next_out (NavPVT_num_sv m), next_out (NavPVT_lon m),
      next_out (NavPVT_lat m), next_out (NavPVT_height m), next_out (NavPVT_h_msl m),
      next_out (NavPVT_h_acc m), next_out (NavPVT_v_acc m), next_out (NavPVT_vel_n m),
      next_out (NavPVT_vel_e m), next_out (NavPVT_vel_d m), next_out (NavPVT_g_speed m),
      next_out (NavPVT_heading m), next_out (NavPVT_s_acc m), next_out (NavPVT_head_acc m),
      next_out (NavPVT_p_dop m), next_out (NavPVT_reserved1 m ! 0),
      next_out (NavPVT_reserved1 m ! 1), next_out (NavPVT_reserved1 m ! 2),
      next_out (NavPVT_reserved1 m ! 3), next_out (NavPVT_reserved1 m ! 4),
      next_out (NavPVT_reserved1 m ! 5), next_out (NavPVT_head_veh m),
      next_out (NavPVT_mag_dec m), next_out (NavPVT_mag_acc m)] mem data sz"

interpretation NavPVT: ubx_message read_NavPVT write_NavPVT serializedLength_NavPVT
  "shape_NavPVT" "shape_NavPVT"
  by (unfold_locales, rule msg_codec, rule read_NavPVT_def, rule write_NavPVT_def,
      rule transfers_eqn, (rule run_intros)+, rule NavPVT.equality)
    (simp_all add: serializedLength_NavPVT_def shape_NavPVT_def msg_simps)

subsection \<open>NavPVT7\<close>

record NavPVT7 =
  NavPVT7_i_tow :: u32
  NavPVT7_year :: u16
  NavPVT7_month :: u8
  NavPVT7_day :: u8
  NavPVT7_hour :: u8
  NavPVT7_min :: u8
  NavPVT7_sec :: u8
  NavPVT7_valid :: u8
  NavPVT7_t_acc :: u32
  NavPVT7_nano :: u32
  NavPVT7_fix_type :: u8
  NavPVT7_flags :: u8
  NavPVT7_flags2 :: u8
  NavPVT7_num_sv :: u8
  NavPVT7_lon :: u32
  NavPVT7_lat :: u32
  NavPVT7_height :: u32
  NavPVT7_h_msl :: u32
  NavPVT7_h_acc :: u32
  NavPVT7_v_acc :: u32
  NavPVT7_vel_n :: u32
  NavPVT7_vel_e :: u32
  NavPVT7_vel_d :: u32
  NavPVT7_g_speed :: u32
  NavPVT7_heading :: u32
  NavPVT7_s_acc :: u32
  NavPVT7_head_acc :: u32
  NavPVT7_p_dop :: u16
  NavPVT7_reserved1 :: "u8 list"

definition shape_NavPVT7 :: "NavPVT7 \<Rightarrow> bool" where
  "shape_NavPVT7 m \<longleftrightarrow> length (NavPVT7_reserved1 m) = 6"

definition read_NavPVT7 :: "u8 list \<Rightarrow> nat \<Rightarrow> u32 \<Rightarrow> NavPVT7 \<Rightarrow> NavPVT7 option" where
  "read_NavPVT7 mem data count m = read_msg
     [next_in NavPVT7_i_tow_update, next_in NavPVT7_year_update, next_in NavPVT7_month_update,
      next_in NavPVT7_day_update, next_in NavPVT7_hour_update, next_in NavPVT7_min_update,
      next_in NavPVT7_sec_update, next_in NavPVT7_valid_update, next_in NavPVT7_t_acc_update,
      next_in NavPVT7_nano_update, next_in NavPVT7_fix_type_update,
      next_in NavPVT7_flags_update, next_in NavPVT7_flags2_update,
      next_in NavPVT7_num_sv_update, next_in NavPVT7_lon_update, next_in NavPVT7_lat_update,
      next_in NavPVT7_height_update, next_in NavPVT7_h_msl_update, next_in NavPVT7_h_acc_update,
      next_in NavPVT7_v_acc_update, next_in NavPVT7_vel_n_update, next_in NavPVT7_vel_e_update,
      next_in NavPVT7_vel_d_update, next_in NavPVT7_g_speed_update,
      next_in NavPVT7_heading_update, next_in NavPVT7_s_acc_update,
      next_in NavPVT7_head_acc_update, next_in NavPVT7_p_dop_update,
      next_in (elem NavPVT7_reserved1_update 0), next_in (elem NavPVT7_reserved1_update 1),
      next_in (elem NavPVT7_reserved1_update 2), next_in (elem NavPVT7_reserved1_update 3),
      next_in (elem NavPVT7_reserved1_update 4), next_in (elem NavPVT7_reserved1_update 5)] mem data count m"

definition serializedLength_NavPVT7 :: "NavPVT7 \<Rightarrow> u32" where
  "serializedLength_NavPVT7 m = 84"

definition write_NavPVT7 :: "u8 list \<Rightarrow> nat \<Rightarrow> u32 \<Rightarrow> NavPVT7 \<Rightarrow> u8 list option" where
  "write_NavPVT7 mem data sz m = write_msg
     [next_out (NavPVT7_i_tow m), next_out (NavPVT7_year m), next_out (NavPVT7_month m),
      next_out (NavPVT7_day m), next_out (NavPVT7_hour m), next_out (NavPVT7_min m),
      next_out (NavPVT7_sec m), next_out (NavPVT7_valid m), next_out (NavPVT7_t_acc m),
      next_out (NavPVT7_nano m), next_out (NavPVT7_fix_type m), next_out (NavPVT7_flags m),
      next_out (NavPVT7_flags2 m), next_out (NavPVT7_num_sv m), next_out (NavPVT7_lon m),
      next_out (NavPVT7_lat m), next_out (NavPVT7_height m), next_out (NavPVT7_h_msl m),
      next_out (NavPVT7_h_acc m), next_out (NavPVT7_v_acc m), next_out (NavPVT7_vel_n m),
      next_out (NavPVT7_vel_e m), next_out (NavPVT7_vel_d m), next_out (NavPVT7_g_speed m),
      next_out (NavPVT7_heading m), next_out (NavPVT7_s_acc m), next_out (NavPVT7_head_acc m),
      next_out (NavPVT7_p_dop m), next_out (NavPVT7_reserved1 m ! 0),
      next_out (NavPVT7_reserved1 m ! 1), next_out (NavPVT7_reserved1 m ! 2),
      next_out (NavPVT7_reserved1 m ! 3), next_out (NavPVT7_reserved1 m ! 4),
      next_out (NavPVT7_reserved1 m ! 5)] mem data sz"

interpretation NavPVT7: ubx_message read_NavPVT7 write_NavPVT7 serializedLength_NavPVT7
  "shape_NavPVT7" "shape_NavPVT7"
  by (unfold_locales, rule msg_codec, rule read_NavPVT7_def, rule write_NavPVT7_def,
      rule transfers_eqn, (rule run_intros)+, rule NavPVT7.equality)
    (simp_all add: serializedLength_NavPVT7_def shape_NavPVT7_def msg_simps)

subsection \<open>NavRELPOSNED\<close>

record NavRELPOSNED =
  NavRELPOSNED_version :: u8
  NavRELPOSNED_reserved0 :: u8
  NavRELPOSNED_ref_station_id :: u16
  NavRELPOSNED_i_tow :: u32
  NavRELPOSNED_rel_pos_n :: u32
  NavRELPOSNED_rel_pos_e :: u32
  NavRELPOSNED_rel_pos_d :: u32
  NavRELPOSNED_rel_pos_hpn :: u8
  NavRELPOSNED_rel_pos_hpe :: u8
  NavRELPOSNED_rel_pos_hpd :: u8
  NavRELPOSNED_reserved1 :: u8
  NavRELPOSNED_acc_n :: u32
  NavRELPOSNED_acc_e :: u32
  NavRELPOSNED_acc_d :: u32
  NavRELPOSNED_flags :: u32

definition read_NavRELPOSNED :: "u8 list \<Rightarrow> nat \<Rightarrow> u32 \<Rightarrow> NavRELPOSNED \<Rightarrow> NavRELPOSNED option" where
  "read_NavRELPOSNED mem data count m = read_msg
     [next_in NavRELPOSNED_version_update, next_in NavRELPOSNED_reserved0_update,
      next_in NavRELPOSNED_ref_station_id_update, next_in NavRELPOSNED_i_tow_update,
      next_in NavRELPOSNED_rel_pos_n_update, next_in NavRELPOSNED_rel_pos_e_update,
      next_in NavRELPOSNED_rel_pos_d_update, next_in NavRELPOSNED_rel_pos_hpn_update,
      next_in NavRELPOSNED_rel_pos_hpe_update, next_in NavRELPOSNED_rel_pos_hpd_update,
      next_in NavRELPOSNED_reserved1_update, next_in NavRELPOSNED_acc_n_update,
      next_in NavRELPOSNED_acc_e_update, next_in NavRELPOSNED_acc_d_update,
      next_in NavRELPOSNED_flags_update] mem data count m"

definition serializedLength_NavRELPOSNED :: "NavRELPOSNED \<Rightarrow> u32" where
  "serializedLength_NavRELPOSNED m = 40"

definition write_NavRELPOSNED :: "u8 list \<Rightarrow> nat \<Rightarrow> u32 \<Rightarrow> NavRELPOSNED \<Rightarrow> u8 list option" where
  "write_NavRELPOSNED mem data sz m = write_msg
     [next_out (NavRELPOSNED_version m), next_out (NavRELPOSNED_reserved0 m),
      next_out (NavRELPOSNED_ref_station_id m), next_out (NavRELPOSNED_i_tow m),
      next_out (NavRELPOSNED_rel_pos_n m), next_out (NavRELPOSNED_rel_pos_e m),
      next_out (NavRELPOSNED_rel_pos_d m), next_out (NavRELPOSNED_rel_pos_hpn m),
      next_out (NavRELPOSNED_rel_pos_hpe m), next_out (NavRELPOSNED_rel_pos_hpd m),
      next_out (NavRELPOSNED_reserved1 m), next_out (NavRELPOSNED_acc_n m),
      next_out (NavRELPOSNED_acc_e m), next_out (NavRELPOSNED_acc_d m),
      next_out (NavRELPOSNED_flags m)] mem data sz"

interpretation NavRELPOSNED: ubx_message read_NavRELPOSNED write_NavRELPOSNED serializedLength_NavRELPOSNED
  "\<lambda>_. True" "\<lambda>_. True"
  by (unfold_locales, rule msg_codec, rule read_NavRELPOSNED_def, rule write_NavRELPOSNED_def,
      rule transfers_eqn, (rule run_intros)+, rule NavRELPOSNED.equality)
    (simp_all add: serializedLength_NavRELPOSNED_def msg_simps)

subsection \<open>NavRELPOSNED9\<close>

record NavRELPOSNED9 =
  NavRELPOSNED9_version :: u8
  NavRELPOSNED9_reserved1 :: u8
  NavRELPOSNED9_ref_station_id :: u16
  NavRELPOSNED9_i_tow :: u32
  NavRELPOSNED9_rel_pos_n :: u32
  NavRELPOSNED9_rel_pos_e :: u32
  NavRELPOSNED9_rel_pos_d :: u32
  NavRELPOSNED9_rel_pos_length :: u32
  NavRELPOSNED9_rel_pos_heading :: u32
  NavRELPOSNED9_reserved2 :: "u8 list"
  NavRELPOSNED9_rel_pos_hpn :: u8
  NavRELPOSNED9_rel_pos_hpe :: u8
  NavRELPOSNED9_rel_pos_hpd :: u8
  NavRELPOSNED9_rel_pos_hp_length :: u8
  NavRELPOSNED9_acc_n :: u32
  NavRELPOSNED9_acc_e :: u32
  NavRELPOSNED9_acc_d :: u32
  NavRELPOSNED9_acc_length :: u32
  NavRELPOSNED9_acc_heading :: u32
  NavRELPOSNED9_reserved3 :: "u8 list"
  NavRELPOSNED9_flags :: u32

definition shape_NavRELPOSNED9 :: "NavRELPOSNED9 \<Rightarrow> bool" where
  "shape_NavRELPOSNED9 m \<longleftrightarrow> length (NavRELPOSNED9_reserved2 m) = 4 \<and> length (NavRELPOSNED9_reserved3 m) = 4"

definition read_NavRELPOSNED9 :: "u8 list \<Rightarrow> nat \<Rightarrow> u32 \<Rightarrow> NavRELPOSNED9 \<Rightarrow> NavRELPOSNED9 option" where
  "read_NavRELPOSNED9 mem data count m = read_msg
     [next_in NavRELPOSNED9_version_update, next_in NavRELPOSNED9_reserved1_update,
      next_in NavRELPOSNED9_ref_station_id_update, next_in NavRELPOSNED9_i_tow_update,
      next_in NavRELPOSNED9_rel_pos_n_update, next_in NavRELPOSNED9_rel_pos_e_update,
      next_in NavRELPOSNED9_rel_pos_d_update, next_in NavRELPOSNED9_rel_pos_length_update,
      next_in NavRELPOSNED9_rel_pos_heading_update,
      next_in (elem NavRELPOSNED9_reserved2_update 0),
      next_in (elem NavRELPOSNED9_reserved2_update 1),
      next_in (elem NavRELPOSNED9_reserved2_update 2),
      next_in (elem NavRELPOSNED9_reserved2_update 3), next_in NavRELPOSNED9_rel_pos_hpn_update,
      next_in NavRELPOSNED9_rel_pos_hpe_update, next_in NavRELPOSNED9_rel_pos_hpd_update,
      next_in NavRELPOSNED9_rel_pos_hp_length_update, next_in NavRELPOSNED9_acc_n_update,
      next_in NavRELPOSNED9_acc_e_update, next_in NavRELPOSNED9_acc_d_update,
      next_in NavRELPOSNED9_acc_length_update, next_in NavRELPOSNED9_acc_heading_update,
      next_in (elem NavRELPOSNED9_reserved3_update 0),
      next_in (elem NavRELPOSNED9_reserved3_update 1),
      next_in (elem NavRELPOSNED9_reserved3_update 2),
      next_in (elem NavRELPOSNED9_reserved3_update 3), next_in NavRELPOSNED9_flags_update] mem data count m"

definition serializedLength_NavRELPOSNED9 :: "NavRELPOSNED9 \<Rightarrow> u32" where
  "serializedLength_NavRELPOSNED9 m = 64"

definition write_NavRELPOSNED9 :: "u8 list \<Rightarrow> nat \<Rightarrow> u32 \<Rightarrow> NavRELPOSNED9 \<Rightarrow> u8 list option" where
  "write_NavRELPOSNED9 mem data sz m = write_msg
     [next_out (NavRELPOSNED9_version m), next_out (NavRELPOSNED9_reserved1 m),
      next_out (NavRELPOSNED9_ref_station_id m), next_out (NavRELPOSNED9_i_tow m),
      next_out (NavRELPOSNED9_rel_pos_n m), next_out (NavRELPOSNED9_rel_pos_e m),
      next_out (NavRELPOSNED9_rel_pos_d m), next_out (NavRELPOSNED9_rel_pos_length m),
      next_out (NavRELPOSNED9_rel_pos_heading m), next_out (NavRELPOSNED9_reserved2 m ! 0),
      next_out (NavRELPOSNED9_reserved2 m ! 1), next_out (NavRELPOSNED9_reserved2 m ! 2),
      next_out (NavRELPOSNED9_reserved2 m ! 3), next_out (NavRELPOSNED9_rel_pos_hpn m),
      next_out (NavRELPOSNED9_rel_pos_hpe m), next_out (NavRELPOSNED9_rel_pos_hpd m),
      next_out (NavRELPOSNED9_rel_pos_hp_length m), next_out (NavRELPOSNED9_acc_n m),
      next_out (NavRELPOSNED9_acc_e m), next_out (NavRELPOSNED9_acc_d m),
      next_out (NavRELPOSNED9_acc_length m), next_out (NavRELPOSNED9_acc_heading m),
      next_out (NavRELPOSNED9_reserved3 m ! 0), next_out (NavRELPOSNED9_reserved3 m ! 1),
      next_out (NavRELPOSNED9_reserved3 m ! 2), next_out (NavRELPOSNED9_reserved3 m ! 3),
      next_out (NavRELPOSNED9_flags m)] mem data sz"

interpretation NavRELPOSNED9: ubx_message read_NavRELPOSNED9 write_NavRELPOSNED9 serializedLength_NavRELPOSNED9
  "shape_NavRELPOSNED9" "shape_NavRELPOSNED9"
  by (unfold_locales, rule msg_codec, rule read_NavRELPOSNED9_def, rule write_NavRELPOSNED9_def,
      rule transfers_eqn, (rule run_intros)+, rule NavRELPOSNED9.equality)
    (simp_all add: serializedLength_NavRELPOSNED9_def shape_NavRELPOSNED9_def msg_simps)

subsection \<open>NavSATSV\<close>

record NavSATSV =
  NavSATSV_gnss_id :: u8
  NavSATSV_sv_id :: u8
  NavSATSV_cno :: u8
  NavSATSV_elev :: u8
  NavSATSV_azim :: u16
  NavSATSV_pr_res :: u16
  NavSATSV_flags :: u32

definition default_NavSATSV :: NavSATSV where
  "default_NavSATSV = \<lparr>NavSATSV_gnss_id = 0, NavSATSV_sv_id = 0, NavSATSV_cno = 0, NavSATSV_elev = 0,
     NavSATSV_azim = 0, NavSATSV_pr_res = 0, NavSATSV_flags = 0\<rparr>"

definition read_NavSATSV :: "(ubx_stream \<times> NavSATSV \<Rightarrow> (ubx_stream \<times> NavSATSV) option) list" where
  "read_NavSATSV =
     [next_in NavSATSV_gnss_id_update, next_in NavSATSV_sv_id_update,
      next_in NavSATSV_cno_update, next_in NavSATSV_elev_update, next_in NavSATSV_azim_update,
      next_in NavSATSV_pr_res_update, next_in NavSATSV_flags_update]"

definition serializedLength_NavSATSV :: "NavSATSV \<Rightarrow> u32" where
  "serializedLength_NavSATSV m = 12"

definition write_NavSATSV :: "NavSATSV \<Rightarrow> (ubx_stream \<Rightarrow> ubx_stream option) list" where
  "write_NavSATSV m =
     [next_out (NavSATSV_gnss_id m), next_out (NavSATSV_sv_id m), next_out (NavSATSV_cno m),
      next_out (NavSATSV_elev m), next_out (NavSATSV_azim m), next_out (NavSATSV_pr_res m),
      next_out (NavSATSV_flags m)]"

lemma transfers_NavSATSV:
  "transfers read_NavSATSV (write_NavSATSV m) 12 m0 m"
  unfolding read_NavSATSV_def write_NavSATSV_def
  by (rule transfers_eqn, (rule run_intros)+, rule NavSATSV.equality)
    (simp_all add: msg_simps)

subsection \<open>NavSAT\<close>

record NavSAT =
  NavSAT_i_tow :: u32
  NavSAT_version :: u8
  NavSAT_num_svs :: u8
  NavSAT_reserved0 :: "u8 list"
  NavSAT_sv :: "NavSATSV list"

definition shape_NavSAT :: "NavSAT \<Rightarrow> bool" where
  "shape_NavSAT m \<longleftrightarrow> length (NavSAT_reserved0 m) = 2"

definition read_NavSAT :: "u8 list \<Rightarrow> nat \<Rightarrow> u32 \<Rightarrow> NavSAT \<Rightarrow> NavSAT option" where
  "read_NavSAT mem data count m = read_msg
     [next_in NavSAT_i_tow_update, next_in NavSAT_version_update, next_in NavSAT_num_svs_update,
      next_in_arr 2 NavSAT_reserved0_update,
      resize_to default_NavSATSV (\<lambda>m. unat (NavSAT_num_svs m)) NavSAT_sv_update,
      next_in_each read_NavSATSV NavSAT_sv NavSAT_sv_update] mem data count m"

definition serializedLength_NavSAT :: "NavSAT \<Rightarrow> u32" where
  "serializedLength_NavSAT m = 8 + 12 * ucast (NavSAT_num_svs m)"

definition write_NavSAT :: "u8 list \<Rightarrow> nat \<Rightarrow> u32 \<Rightarrow> NavSAT \<Rightarrow> u8 list option" where
  "write_NavSAT mem data sz m = write_msg
     [next_out (NavSAT_i_tow m), next_out (NavSAT_version m),
      next_out (of_nat (length (NavSAT_sv m)) :: u8), next_out_arr (NavSAT_reserved0 m),
      next_out_each write_NavSATSV (NavSAT_sv m)] mem data sz"

definition ok_NavSAT :: "NavSAT \<Rightarrow> bool" where
  "ok_NavSAT m \<longleftrightarrow> shape_NavSAT m \<and> length (NavSAT_sv m) = unat (NavSAT_num_svs m)"

interpretation NavSAT: ubx_message read_NavSAT write_NavSAT serializedLength_NavSAT
  "ok_NavSAT" "shape_NavSAT"
  by (unfold_locales, rule msg_codec, rule read_NavSAT_def, rule write_NavSAT_def, rule transfers_eqn,
      (rule run_intros transfers_blocks_any [OF _ transfers_NavSATSV])+, rule NavSAT.equality)
    (auto simp: ok_NavSAT_def serializedLength_NavSAT_def shape_NavSAT_def msg_simps dyn_simps)

subsection \<open>NavSBASSV\<close>

record NavSBASSV =
  NavSBASSV_svid :: u8
  NavSBASSV_flags :: u8
  NavSBASSV_udre :: u8
  NavSBASSV_sv_sys :: u8
  NavSBASSV_sv_service :: u8
  NavSBASSV_reserved1 :: u8
  NavSBASSV_prc :: u16
  NavSBASSV_reserved2 :: u16
  NavSBASSV_ic :: u16

definition default_NavSBASSV :: NavSBASSV where
  "default_NavSBASSV = \<lparr>NavSBASSV_svid = 0, NavSBASSV_flags = 0, NavSBASSV_udre = 0, NavSBASSV_sv_sys = 0,
     NavSBASSV_sv_service = 0, NavSBASSV_reserved1 = 0, NavSBASSV_prc = 0,
     NavSBASSV_reserved2 = 0, NavSBASSV_ic = 0\<rparr>"

definition read_NavSBASSV :: "(ubx_stream \<times> NavSBASSV \<Rightarrow> (ubx_stream \<times> NavSBASSV) option) list" where
  "read_NavSBASSV =
     [next_in NavSBASSV_svid_update, next_in NavSBASSV_flags_update,
      next_in NavSBASSV_udre_update, next_in NavSBASSV_sv_sys_update,
      next_in NavSBASSV_sv_service_update, next_in NavSBASSV_reserved1_update,
      next_in NavSBASSV_prc_update, next_in NavSBASSV_reserved2_update,
      next_in NavSBASSV_ic_update]"

definition serializedLength_NavSBASSV :: "NavSBASSV \<Rightarrow> u32" where
  "serializedLength_NavSBASSV m = 12"

definition write_NavSBASSV :: "NavSBASSV \<Rightarrow> (ubx_stream \<Rightarrow> ubx_stream option) list" where
  "write_NavSBASSV m =
     [next_out (NavSBASSV_svid m), next_out (NavSBASSV_flags m), next_out (NavSBASSV_udre m),
      next_out (NavSBASSV_sv_sys m), next_out (NavSBASSV_sv_service m),
      next_out (NavSBASSV_reserved1 m), next_out (NavSBASSV_prc m),
      next_out (NavSBASSV_reserved2 m), next_out (NavSBASSV_ic m)]"

lemma transfers_NavSBASSV:
  "transfers read_NavSBASSV (write_NavSBASSV m) 12 m0 m"
  unfolding read_NavSBASSV_def write_NavSBASSV_def
  by (rule transfers_eqn, (rule run_intros)+, rule NavSBASSV.equality)
    (simp_all add: msg_simps)

subsection \<open>NavSBAS\<close>

record NavSBAS =
  NavSBAS_i_tow :: u32
  NavSBAS_geo :: u8
  NavSBAS_mode :: u8
  NavSBAS_sys :: u8
  NavSBAS_service :: u8
  NavSBAS_cnt :: u8
  NavSBAS_reserved0 :: "u8 list"
  NavSBAS_sv :: "NavSBASSV list"

definition shape_NavSBAS :: "NavSBAS \<Rightarrow> bool" where
  "shape_NavSBAS m \<longleftrightarrow> length (NavSBAS_reserved0 m) = 3"

definition read_NavSBAS :: "u8 list \<Rightarrow> nat \<Rightarrow> u32 \<Rightarrow> NavSBAS \<Rightarrow> NavSBAS option" where
  "read_NavSBAS mem data count m = read_msg
     [next_in NavSBAS_i_tow_update, next_in NavSBAS_geo_update, next_in NavSBAS_mode_update,
      next_in NavSBAS_sys_update, next_in NavSBAS_service_update, next_in NavSBAS_cnt_update,
      next_in_arr 3 NavSBAS_reserved0_update,
      resize_to default_NavSBASSV (\<lambda>m. unat (NavSBAS_cnt m)) NavSBAS_sv_update,
      next_in_each read_NavSBASSV NavSBAS_sv NavSBAS_sv_update] mem data count m"

definition serializedLength_NavSBAS :: "NavSBAS \<Rightarrow> u32" where
  "serializedLength_NavSBAS m = 12 + 12 * ucast (NavSBAS_cnt m)"

definition write_NavSBAS :: "u8 list \<Rightarrow> nat \<Rightarrow> u32 \<Rightarrow> NavSBAS \<Rightarrow> u8 list option" where
  "write_NavSBAS mem data sz m = write_msg
     [next_out (NavSBAS_i_tow m), next_out (NavSBAS_geo m), next_out (NavSBAS_mode m),
      next_out (NavSBAS_sys m), next_out (NavSBAS_service m),
      next_out (of_nat (length (NavSBAS_sv m)) :: u8), next_out_arr (NavSBAS_reserved0 m),
      next_out_each write_NavSBASSV (NavSBAS_sv m)] mem data sz"

definition ok_NavSBAS :: "NavSBAS \<Rightarrow> bool" where
  "ok_NavSBAS m \<longleftrightarrow> shape_NavSBAS m \<and> length (NavSBAS_sv m) = unat (NavSBAS_cnt m)"

interpretation NavSBAS: ubx_message read_NavSBAS write_NavSBAS serializedLength_NavSBAS
  "ok_NavSBAS" "shape_NavSBAS"
  by (unfold_locales, rule msg_codec, rule read_NavSBAS_def, rule write_NavSBAS_def, rule transfers_eqn,
      (rule run_intros transfers_blocks_any [OF _ transfers_NavSBASSV])+, rule NavSBAS.equality)
    (auto simp: ok_NavSBAS_def serializedLength_NavSBAS_def shape_NavSBAS_def msg_simps dyn_simps)

subsection \<open>NavSOL\<close>

record NavSOL =
  NavSOL_i_tow :: u32
  NavSOL_f_tow :: u32
  NavSOL_week :: u16
  NavSOL_gps_fix :: u8
  NavSOL_flags :: u8
  NavSOL_ecef_x :: u32
  NavSOL_ecef_y :: u32
  NavSOL_ecef_z :: u32
  NavSOL_p_acc :: u32
  NavSOL_ecef_vx :: u32
  NavSOL_ecef_vy :: u32
  NavSOL_ecef_vz :: u32
  NavSOL_s_acc :: u32
  NavSOL_p_dop :: u16
  NavSOL_reserved1 :: u8
  NavSOL_num_sv :: u8
  NavSOL_reserved2 :: u32

definition read_NavSOL :: "u8 list \<Rightarrow> nat \<Rightarrow> u32 \<Rightarrow> NavSOL \<Rightarrow> NavSOL option" where
  "read_NavSOL mem data count m = read_msg
     [next_in NavSOL_i_tow_update, next_in NavSOL_f_tow_update, next_in NavSOL_week_update,
      next_in NavSOL_gps_fix_update, next_in NavSOL_flags_update, next_in NavSOL_ecef_x_update,
      next_in NavSOL_ecef_y_update, next_in NavSOL_ecef_z_update, next_in NavSOL_p_acc_update,
      next_in NavSOL_ecef_vx_update, next_in NavSOL_ecef_vy_update,
      next_in NavSOL_ecef_vz_update, next_in NavSOL_s_acc_update, next_in NavSOL_p_dop_update,
      next_in NavSOL_reserved1_update, next_in NavSOL_num_sv_update,
      next_in NavSOL_reserved2_update] mem data count m"

definition serializedLength_NavSOL :: "NavSOL \<Rightarrow> u32" where
  "serializedLength_NavSOL m = 52"

definition write_NavSOL :: "u8 list \<Rightarrow> nat \<Rightarrow> u32 \<Rightarrow> NavSOL \<Rightarrow> u8 list option" where
  "write_NavSOL mem data sz m = write_msg
     [next_out (NavSOL_i_tow m), next_out (NavSOL_f_tow m), next_out (NavSOL_week m),
      next_out (NavSOL_gps_fix m), next_out (NavSOL_flags m), next_out (NavSOL_ecef_x m),
      next_out (NavSOL_ecef_y m), next_out (NavSOL_ecef_z m), next_out (NavSOL_p_acc m),
      next_out (NavSOL_ecef_vx m), next_out (NavSOL_ecef_vy m), next_out (NavSOL_ecef_vz m),
      next_out (NavSOL_s_acc m), next_out (NavSOL_p_dop m), next_out (NavSOL_reserved1 m),
      next_out (NavSOL_num_sv m), next_out (NavSOL_reserved2 m)] mem data sz"

interpretation NavSOL: ubx_message read_NavSOL write_NavSOL serializedLength_NavSOL
  "\<lambda>_. True" "\<lambda>_. True"
  by (unfold_locales, rule msg_codec, rule read_NavSOL_def, rule write_NavSOL_def,
      rule transfers_eqn, (rule run_intros)+, rule NavSOL.equality)
    (simp_all add: serializedLength_NavSOL_def msg_simps)

subsection \<open>NavSTATUS\<close>

record NavSTATUS =
  NavSTATUS_i_tow :: u32
  NavSTATUS_gps_fix :: u8
  NavSTATUS_flags :: u8
  NavSTATUS_fix_stat :: u8
  NavSTATUS_flags2 :: u8
  NavSTATUS_ttff :: u32
  NavSTATUS_msss :: u32

definition read_NavSTATUS :: "u8 list \<Rightarrow> nat \<Rightarrow> u32 \<Rightarrow> NavSTATUS \<Rightarrow> NavSTATUS option" where
  "read_NavSTATUS mem data count m = read_msg
     [next_in NavSTATUS_i_tow_update, next_in NavSTATUS_gps_fix_update,
      next_in NavSTATUS_flags_update, next_in NavSTATUS_fix_stat_update,
      next_in NavSTATUS_flags2_update, next_in NavSTATUS_ttff_update,
      next_in NavSTATUS_msss_update] mem data count m"

definition serializedLength_NavSTATUS :: "NavSTATUS \<Rightarrow> u32" where
  "serializedLength_NavSTATUS m = 16"

definition write_NavSTATUS :: "u8 list \<Rightarrow> nat \<Rightarrow> u32 \<Rightarrow> NavSTATUS \<Rightarrow> u8 list option" where
  "write_NavSTATUS mem data sz m = write_msg
     [next_out (NavSTATUS_i_tow m), next_out (NavSTATUS_gps_fix m),
      next_out (NavSTATUS_flags m), next_out (NavSTATUS_fix_stat m),
      next_out (NavSTATUS_flags2 m), next_out (NavSTATUS_ttff m), next_out (NavSTATUS_msss m)] mem data sz"

interpretation NavSTATUS: ubx_message read_NavSTATUS write_NavSTATUS serializedLength_NavSTATUS
  "\<lambda>_. True" "\<lambda>_. True"
  by (unfold_locales, rule msg_codec, rule read_NavSTATUS_def, rule write_NavSTATUS_def,
      rule transfers_eqn, (rule run_intros)+, rule NavSTATUS.equality)
    (simp_all add: serializedLength_NavSTATUS_def msg_simps)

subsection \<open>NavSVIN\<close>

record NavSVIN =
  NavSVIN_version :: u8
  NavSVIN_reserved0 :: "u8 list"
  NavSVIN_i_tow :: u32
  NavSVIN_dur :: u32
  NavSVIN_mean_x :: u32
  NavSVIN_mean_y :: u32
  NavSVIN_mean_z :: u32
  NavSVIN_mean_xhp :: u8
  NavSVIN_mean_yhp :: u8
  NavSVIN_mean_zhp :: u8
  NavSVIN_reserved1 :: u8
  NavSVIN_mean_acc :: u32
  NavSVIN_obs :: u32
  NavSVIN_valid :: u8
  NavSVIN_active :: u8
  NavSVIN_reserved3 :: "u8 list"

definition shape_NavSVIN :: "NavSVIN \<Rightarrow> bool" where
  "shape_NavSVIN m \<longleftrightarrow> length (NavSVIN_reserved0 m) = 3 \<and> length (NavSVIN_reserved3 m) = 2"

definition read_NavSVIN :: "u8 list \<Rightarrow> nat \<Rightarrow> u32 \<Rightarrow> NavSVIN \<Rightarrow> NavSVIN option" where
  "read_NavSVIN mem data count m = read_msg
     [next_in NavSVIN_version_update, next_in (elem NavSVIN_reserved0_update 0),
      next_in (elem NavSVIN_reserved0_update 1), next_in (elem NavSVIN_reserved0_update 2),
      next_in NavSVIN_i_tow_update, next_in NavSVIN_dur_update, next_in NavSVIN_mean_x_update,
      next_in NavSVIN_mean_y_update, next_in NavSVIN_mean_z_update,
      next_in NavSVIN_mean_xhp_update, next_in NavSVIN_mean_yhp_update,
      next_in NavSVIN_mean_zhp_update, next_in NavSVIN_reserved1_update,
      next_in NavSVIN_mean_acc_update, next_in NavSVIN_obs_update, next_in NavSVIN_valid_update,
      next_in NavSVIN_active_update, next_in (elem NavSVIN_reserved3_update 0),
      next_in (elem NavSVIN_reserved3_update 1)] mem data count m"

definition serializedLength_NavSVIN :: "NavSVIN \<Rightarrow> u32" where
  "serializedLength_NavSVIN m = 40"

definition write_NavSVIN :: "u8 list \<Rightarrow> nat \<Rightarrow> u32 \<Rightarrow> NavSVIN \<Rightarrow> u8 list option" where
  "write_NavSVIN mem data sz m = write_msg
     [next_out (NavSVIN_version m), next_out (NavSVIN_reserved0 m ! 0),
      next_out (NavSVIN_reserved0 m ! 1), next_out (NavSVIN_reserved0 m ! 2),
      next_out (NavSVIN_i_tow m), next_out (NavSVIN_dur m), next_out (NavSVIN_mean_x m),
      next_out (NavSVIN_mean_y m), next_out (NavSVIN_mean_z m), next_out (NavSVIN_mean_xhp m),
      next_out (NavSVIN_mean_yhp m), next_out (NavSVIN_mean_zhp m),
      next_out (NavSVIN_reserved1 m), next_out (NavSVIN_mean_acc m), next_out (NavSVIN_obs m),
      next_out (NavSVIN_valid m), next_out (NavSVIN_active m),
      next_out (NavSVIN_reserved3 m ! 0), next_out (NavSVIN_reserved3 m ! 1)] mem data sz"

interpretation NavSVIN: ubx_message read_NavSVIN write_NavSVIN serializedLength_NavSVIN
  "shape_NavSVIN" "shape_NavSVIN"
  by (unfold_locales, rule msg_codec, rule read_NavSVIN_def, rule write_NavSVIN_def,
      rule transfers_eqn, (rule run_intros)+, rule NavSVIN.equality)
    (simp_all add: serializedLength_NavSVIN_def shape_NavSVIN_def msg_simps)

subsection \<open>NavSVINFOSV\<close>

record NavSVINFOSV =
  NavSVINFOSV_chn :: u8
  NavSVINFOSV_svid :: u8
  NavSVINFOSV_flags :: u8
  NavSVINFOSV_quality :: u8
  NavSVINFOSV_cno :: u8
  NavSVINFOSV_elev :: u8
  NavSVINFOSV_azim :: u16
  NavSVINFOSV_pr_res :: u32

definition default_NavSVINFOSV :: NavSVINFOSV where
  "default_NavSVINFOSV = \<lparr>NavSVINFOSV_chn = 0, NavSVINFOSV_svid = 0, NavSVINFOSV_flags = 0, NavSVINFOSV_quality = 0,
     NavSVINFOSV_cno = 0, NavSVINFOSV_elev = 0, NavSVINFOSV_azim = 0, NavSVINFOSV_pr_res = 0\<rparr>"

definition read_NavSVINFOSV :: "(ubx_stream \<times> NavSVINFOSV \<Rightarrow> (ubx_stream \<times> NavSVINFOSV) option) list" where
  "read_NavSVINFOSV =
     [next_in NavSVINFOSV_chn_update, next_in NavSVINFOSV_svid_update,
      next_in NavSVINFOSV_flags_update, next_in NavSVINFOSV_quality_update,
      next_in NavSVINFOSV_cno_update, next_in NavSVINFOSV_elev_update,
      next_in NavSVINFOSV_azim_update, next_in NavSVINFOSV_pr_res_update]"

definition serializedLength_NavSVINFOSV :: "NavSVINFOSV \<Rightarrow> u32" where
  "serializedLength_NavSVINFOSV m = 12"

definition write_NavSVINFOSV :: "NavSVINFOSV \<Rightarrow> (ubx_stream \<Rightarrow> ubx_stream option) list" where
  "write_NavSVINFOSV m =
     [next_out (NavSVINFOSV_chn m), next_out (NavSVINFOSV_svid m),
      next_out (NavSVINFOSV_flags m), next_out (NavSVINFOSV_quality m),
      next_out (NavSVINFOSV_cno m), next_out (NavSVINFOSV_elev m),
      next_out (NavSVINFOSV_azim m), next_out (NavSVINFOSV_pr_res m)]"

lemma transfers_NavSVINFOSV:
  "transfers read_NavSVINFOSV (write_NavSVINFOSV m) 12 m0 m"
  unfolding read_NavSVINFOSV_def write_NavSVINFOSV_def
  by (rule transfers_eqn, (rule run_intros)+, rule NavSVINFOSV.equality)
    (simp_all add: msg_simps)

subsection \<open>NavSVINFO\<close>

record NavSVINFO =
  NavSVINFO_i_tow :: u32
  NavSVINFO_num_ch :: u8
  NavSVINFO_global_flags :: u8
  NavSVINFO_reserved2 :: u16
  NavSVINFO_sv :: "NavSVINFOSV list"

definition read_NavSVINFO :: "u8 list \<Rightarrow> nat \<Rightarrow> u32 \<Rightarrow> NavSVINFO \<Rightarrow> NavSVINFO option" where
  "read_NavSVINFO mem data count m = read_msg
     [next_in NavSVINFO_i_tow_update, next_in NavSVINFO_num_ch_update,
      next_in NavSVINFO_global_flags_update, next_in NavSVINFO_reserved2_update,
      resize_to default_NavSVINFOSV (\<lambda>m. unat (NavSVINFO_num_ch m)) NavSVINFO_sv_update,
      next_in_each read_NavSVINFOSV NavSVINFO_sv NavSVINFO_sv_update] mem data count m"

definition serializedLength_NavSVINFO :: "NavSVINFO \<Rightarrow> u32" where
  "serializedLength_NavSVINFO m = 8 + 12 * ucast (NavSVINFO_num_ch m)"

definition write_NavSVINFO :: "u8 list \<Rightarrow> nat \<Rightarrow> u32 \<Rightarrow> NavSVINFO \<Rightarrow> u8 list option" where
  "write_NavSVINFO mem data sz m = write_msg
     [next_out (NavSVINFO_i_tow m), next_out (of_nat (length (NavSVINFO_sv m)) :: u8),
      next_out (NavSVINFO_global_flags m), next_out (NavSVINFO_reserved2 m),
      next_out_each write_NavSVINFOSV (NavSVINFO_sv m)] mem data sz"

definition ok_NavSVINFO :: "NavSVINFO \<Rightarrow> bool" where
  "ok_NavSVINFO m \<longleftrightarrow> length (NavSVINFO_sv m) = unat (NavSVINFO_num_ch m)"

interpretation NavSVINFO: ubx_message read_NavSVINFO write_NavSVINFO serializedLength_NavSVINFO
  "ok_NavSVINFO" "\<lambda>_. True"
  by (unfold_locales, rule msg_codec, rule read_NavSVINFO_def, rule write_NavSVINFO_def, rule transfers_eqn,
      (rule run_intros transfers_blocks_any [OF _ transfers_NavSVINFOSV])+, rule NavSVINFO.equality)
    (auto simp: ok_NavSVINFO_def serializedLength_NavSVINFO_def msg_simps dyn_simps)

subsection \<open>NavVELNED\<close>

record NavVELNED =
  NavVELNED_i_tow :: u32
  NavVELNED_vel_n :: u32
  NavVELNED_vel_e :: u32
  NavVELNED_vel_d :: u32
  NavVELNED_speed :: u32
  NavVELNED_g_speed :: u32
  NavVELNED_heading :: u32
  NavVELNED_s_acc :: u32
  NavVELNED_c_acc :: u32

definition read_NavVELNED :: "u8 list \<Rightarrow> nat \<Rightarrow> u32 \<Rightarrow> NavVELNED \<Rightarrow> NavVELNED option" where
  "read_NavVELNED mem data count m = read_msg
     [next_in NavVELNED_i_tow_update, next_in NavVELNED_vel_n_update,
      next_in NavVELNED_vel_e_update, next_in NavVELNED_vel_d_update,
      next_in NavVELNED_speed_update, next_in NavVELNED_g_speed_update,
      next_in NavVELNED_heading_update, next_in NavVELNED_s_acc_update,
      next_in NavVELNED_c_acc_update] mem data count m"

definition serializedLength_NavVELNED :: "NavVELNED \<Rightarrow> u32" where
  "serializedLength_NavVELNED m = 36"

definition write_NavVELNED :: "u8 list \<Rightarrow> nat \<Rightarrow> u32 \<Rightarrow> NavVELNED \<Rightarrow> u8 list option" where
  "write_NavVELNED mem data sz m = write_msg
     [next_out (NavVELNED_i_tow m), next_out (NavVELNED_vel_n m), next_out (NavVELNED_vel_e m),
      next_out (NavVELNED_vel_d m), next_out (NavVELNED_speed m),
      next_out (NavVELNED_g_speed m), next_out (NavVELNED_heading m),
      next_out (NavVELNED_s_acc m), next_out (NavVELNED_c_acc m)] mem data sz"

interpretation NavVELNED: ubx_message read_NavVELNED write_NavVELNED serializedLength_NavVELNED
  "\<lambda>_. True" "\<lambda>_. True"
  by (unfold_locales, rule msg_codec, rule read_NavVELNED_def, rule write_NavVELNED_def,
      rule transfers_eqn, (rule run_intros)+, rule NavVELNED.equality)
    (simp_all add: serializedLength_NavVELNED_def msg_simps)

end
