(* ===== verification/Ubx_Msgs_Rxm.thy ===== *)
theory Ubx_Msgs_Rxm
  imports Ubx_Stream
begin

text \<open>
  The AID, RXM, TIM and UPD messages of \<open>ublox_msgs\<close>. One record per message
  (\<open>ublox_msgs/msg/<Name>.msg\<close>; signed fields and floats are kept as the raw words the
  serialiser copies), and per serialiser of \<open>ublox_msgs/serialization.hpp\<close> its
  \<open>read\<close>, \<open>serializedLength\<close> and \<open>write\<close> as \<open>read_<Name>\<close>,
  \<open>serializedLength_<Name>\<close> and \<open>write_<Name>\<close>, statement by statement.
  \<open>shape_<Name>\<close> states the sizes of the \<open>std::array\<close> fields and \<open>ok_<Name>\<close> what
  a message has to satisfy to survive the wire. The interpretation of \<open>ubx_message\<close> below
  a message proves that its reader inverts its writer.

\<close>

subsection \<open>AidALM\<close>

record AidALM =
  AidALM_svid :: u32
  AidALM_week :: u32
  AidALM_dwrd :: "u32 list"

definition read_AidALM :: "u8 list \<Rightarrow> nat \<Rightarrow> u32 \<Rightarrow> AidALM \<Rightarrow> AidALM option" where
  "read_AidALM mem data count m = read_msg
     ([next_in AidALM_svid_update, next_in AidALM_week_update,
       assign (AidALM_dwrd_update (\<lambda>_. []))] @
      (if count = 40
       then resize_to 0 (\<lambda>_. 8) AidALM_dwrd_update # replicate 8 (next_push AidALM_dwrd_update)
       else [])) mem data count m"

definition serializedLength_AidALM :: "AidALM \<Rightarrow> u32" where
  "serializedLength_AidALM m = 8 + (4 * of_nat (length (AidALM_dwrd m)))"

definition write_AidALM :: "u8 list \<Rightarrow> nat \<Rightarrow> u32 \<Rightarrow> AidALM \<Rightarrow> u8 list option" where
  "write_AidALM mem data sz m = write_msg
     [next_out (AidALM_svid m), next_out (AidALM_week m),
      next_out_each scalar_out (AidALM_dwrd m)] mem data sz"

subsection \<open>AidEPH\<close>

record AidEPH =
  AidEPH_svid :: u32
  AidEPH_how :: u32
  AidEPH_sf1d :: "u32 list"
  AidEPH_sf2d :: "u32 list"
  AidEPH_sf3d :: "u32 list"

definition read_AidEPH :: "u8 list \<Rightarrow> nat \<Rightarrow> u32 \<Rightarrow> AidEPH \<Rightarrow> AidEPH option" where
  "read_AidEPH mem data count m = read_msg
     ([next_in AidEPH_svid_update, next_in AidEPH_how_update,
       assign (AidEPH_sf1d_update (\<lambda>_. [])), assign (AidEPH_sf2d_update (\<lambda>_. [])),
       assign (AidEPH_sf3d_update (\<lambda>_. []))] @
      (if count = 104
       then [resize_to 0 (\<lambda>_. 8) AidEPH_sf1d_update] @ replicate 8 (next_push AidEPH_sf1d_update) @
         [resize_to 0 (\<lambda>_. 8) AidEPH_sf2d_update] @ replicate 8 (next_push AidEPH_sf2d_update) @
         [resize_to 0 (\<lambda>_. 8) AidEPH_sf3d_update] @ replicate 8 (next_push AidEPH_sf3d_update)
       else [])) mem data count m"

definition serializedLength_AidEPH :: "AidEPH \<Rightarrow> u32" where
  "serializedLength_AidEPH m = 8 + (4 * of_nat (length (AidEPH_sf1d m))) + (4 * of_nat (length (AidEPH_sf2d m))) + (4 * of_nat (length (AidEPH_sf3d m)))"

definition write_AidEPH :: "u8 list \<Rightarrow> nat \<Rightarrow> u32 \<Rightarrow> AidEPH \<Rightarrow> u8 list option" where
  "write_AidEPH mem data sz m = write_msg
     [next_out (AidEPH_svid m), next_out (AidEPH_how m),
      next_out_each scalar_out (AidEPH_sf1d m), next_out_each scalar_out (AidEPH_sf2d m),
      next_out_each scalar_out (AidEPH_sf3d m)] mem data sz"

subsection \<open>AidHUI\<close>

record AidHUI =
  AidHUI_health :: u32
  AidHUI_utc_a0 :: u64
  AidHUI_utc_a1 :: u64
  AidHUI_utc_tow :: u32
  AidHUI_utc_wnt :: u16
  AidHUI_utc_ls :: u16
  AidHUI_utc_wnf :: u16
  AidHUI_utc_dn :: u16
  AidHUI_utc_lsf :: u16
  AidHUI_utc_spare :: u16
  AidHUI_klob_a0 :: u32
  AidHUI_klob_a1 :: u32
  AidHUI_klob_a2 :: u32
  AidHUI_klob_a3 :: u32
  AidHUI_klob_b0 :: u32
  AidHUI_klob_b1 :: u32
  AidHUI_klob_b2 :: u32
  AidHUI_klob_b3 :: u32
  AidHUI_flags :: u32

definition read_AidHUI :: "u8 list \<Rightarrow> nat \<Rightarrow> u32 \<Rightarrow> AidHUI \<Rightarrow> AidHUI option" where
  "read_AidHUI mem data count m = read_msg
     [next_in AidHUI_health_update, next_in AidHUI_utc_a0_update, next_in AidHUI_utc_a1_update,
      next_in AidHUI_utc_tow_update, next_in AidHUI_utc_wnt_update,
      next_in AidHUI_utc_dn_update, next_in AidHUI_utc_lsf_update,
      next_in AidHUI_utc_spare_update, next_in AidHUI_klob_a0_update,
      next_in AidHUI_klob_a1_update, next_in AidHUI_klob_a2_update,
      next_in AidHUI_klob_a3_update, next_in AidHUI_klob_b0_update,
      next_in AidHUI_klob_b1_update, next_in AidHUI_klob_b2_update,
      next_in AidHUI_klob_b3_update, next_in AidHUI_flags_update] mem data count m"

definition serializedLength_AidHUI :: "AidHUI \<Rightarrow> u32" where
  "serializedLength_AidHUI m = 72"

definition write_AidHUI :: "u8 list \<Rightarrow> nat \<Rightarrow> u32 \<Rightarrow> AidHUI \<Rightarrow> u8 list option" where
  "write_AidHUI mem data sz m = write_msg
     [next_out (AidHUI_health m), next_out (AidHUI_utc_a0 m), next_out (AidHUI_utc_a1 m),
      next_out (AidHUI_utc_tow m), next_out (AidHUI_utc_wnt m), next_out (AidHUI_utc_dn m),
      next_out (AidHUI_utc_lsf m), next_out (AidHUI_utc_spare m), next_out (AidHUI_klob_a0 m),
      next_out (AidHUI_klob_a1 m), next_out (AidHUI_klob_a2 m), next_out (AidHUI_klob_a3 m),
      next_out (AidHUI_klob_b0 m), next_out (AidHUI_klob_b1 m), next_out (AidHUI_klob_b2 m),
      next_out (AidHUI_klob_b3 m), next_out (AidHUI_flags m)] mem data sz"

subsection \<open>RxmALM\<close>

record RxmALM =
  RxmALM_svid :: u32
  RxmALM_week :: u32
  RxmALM_dwrd :: "u32 list"

definition read_RxmALM :: "u8 list \<Rightarrow> nat \<Rightarrow> u32 \<Rightarrow> RxmALM \<Rightarrow> RxmALM option" where
  "read_RxmALM mem data count m = read_msg
     ([next_in RxmALM_svid_update, next_in RxmALM_week_update,
       assign (RxmALM_dwrd_update (\<lambda>_. []))] @
      (if count = 40
       then resize_to 0 (\<lambda>_. 8) RxmALM_dwrd_update # replicate 8 (next_push RxmALM_dwrd_update)
       else [])) mem data count m"

definition serializedLength_RxmALM :: "RxmALM \<Rightarrow> u32" where
  "serializedLength_RxmALM m = 8 + (4 * of_nat (length (RxmALM_dwrd m)))"

definition write_RxmALM :: "u8 list \<Rightarrow> nat \<Rightarrow> u32 \<Rightarrow> RxmALM \<Rightarrow> u8 list option" where
  "write_RxmALM mem data sz m = write_msg
     [next_out (RxmALM_svid m), next_out (RxmALM_week m),
      next_out_each scalar_out (RxmALM_dwrd m)] mem data sz"

subsection \<open>RxmEPH\<close>

record RxmEPH =
  RxmEPH_svid :: u32
  RxmEPH_how :: u32
  RxmEPH_sf1d :: "u32 list"
  RxmEPH_sf2d :: "u32 list"
  RxmEPH_sf3d :: "u32 list"

definition read_RxmEPH :: "u8 list \<Rightarrow> nat \<Rightarrow> u32 \<Rightarrow> RxmEPH \<Rightarrow> RxmEPH option" where
  "read_RxmEPH mem data count m = read_msg
     ([next_in RxmEPH_svid_update, next_in RxmEPH_how_update,
       assign (RxmEPH_sf1d_update (\<lambda>_. [])), assign (RxmEPH_sf2d_update (\<lambda>_. [])),
       assign (RxmEPH_sf3d_update (\<lambda>_. []))] @
      (if count = 104
       then [resize_to 0 (\<lambda>_. 8) RxmEPH_sf1d_update] @ replicate 8 (next_push RxmEPH_sf1d_update) @
         [resize_to 0 (\<lambda>_. 8) RxmEPH_sf2d_update] @ replicate 8 (next_push RxmEPH_sf2d_update) @
         [resize_to 0 (\<lambda>_. 8) RxmEPH_sf3d_update] @ replicate 8 (next_push RxmEPH_sf3d_update)
       else [])) mem data count m"

definition serializedLength_RxmEPH :: "RxmEPH \<Rightarrow> u32" where
  "serializedLength_RxmEPH m = 8 + (4 * of_nat (length (RxmEPH_sf1d m))) + (4 * of_nat (length (RxmEPH_sf2d m))) + (4 * of_nat (length (RxmEPH_sf3d m)))"

definition write_RxmEPH :: "u8 list \<Rightarrow> nat \<Rightarrow> u32 \<Rightarrow> RxmEPH \<Rightarrow> u8 list option" where
  "write_RxmEPH mem data sz m = write_msg
     [next_out (RxmEPH_svid m), next_out (RxmEPH_how m),
      next_out_each scalar_out (RxmEPH_sf1d m), next_out_each scalar_out (RxmEPH_sf2d m),
      next_out_each scalar_out (RxmEPH_sf3d m)] mem data sz"

subsection \<open>RxmRAWSV\<close>

record RxmRAWSV =
  RxmRAWSV_cp_mes :: u64
  RxmRAWSV_pr_mes :: u64
  RxmRAWSV_do_mes :: u32
  RxmRAWSV_sv :: u8
  RxmRAWSV_mes_qi :: u8
  RxmRAWSV_cno :: u8
  RxmRAWSV_lli :: u8

definition default_RxmRAWSV :: RxmRAWSV where
  "default_RxmRAWSV = \<lparr>RxmRAWSV_cp_mes = 0, RxmRAWSV_pr_mes = 0, RxmRAWSV_do_mes = 0, RxmRAWSV_sv = 0,
     RxmRAWSV_mes_qi = 0, RxmRAWSV_cno = 0, RxmRAWSV_lli = 0\<rparr>"

definition read_RxmRAWSV :: "(ubx_stream \<times> RxmRAWSV \<Rightarrow> (ubx_stream \<times> RxmRAWSV) option) list" where
  "read_RxmRAWSV =
     [next_in RxmRAWSV_cp_mes_update, next_in RxmRAWSV_pr_mes_update,
      next_in RxmRAWSV_do_mes_update, next_in RxmRAWSV_sv_update,
      next_in RxmRAWSV_mes_qi_update, next_in RxmRAWSV_cno_update, next_in RxmRAWSV_lli_update]"

definition serializedLength_RxmRAWSV :: "RxmRAWSV \<Rightarrow> u32" where
  "serializedLength_RxmRAWSV m = 24"

definition write_RxmRAWSV :: "RxmRAWSV \<Rightarrow> (ubx_stream \<Rightarrow> ubx_stream option) list" where
  "write_RxmRAWSV m =
     [next_out (RxmRAWSV_cp_mes m), next_out (RxmRAWSV_pr_mes m), next_out (RxmRAWSV_do_mes m),
      next_out (RxmRAWSV_sv m), next_out (RxmRAWSV_mes_qi m), next_out (RxmRAWSV_cno m),
      next_out (RxmRAWSV_lli m)]"

lemma transfers_RxmRAWSV:
  "transfers read_RxmRAWSV (write_RxmRAWSV m) 24 m0 m"
  unfolding read_RxmRAWSV_def write_RxmRAWSV_def
  by (rule transfers_eqn, (rule run_intros)+, rule RxmRAWSV.equality)
    (simp_all add: msg_simps)

subsection \<open>RxmRAW\<close>

record RxmRAW =
  RxmRAW_rcv_tow :: u32
  RxmRAW_week :: u16
  RxmRAW_num_sv :: u8
  RxmRAW_reserved1 :: u8
  RxmRAW_sv :: "RxmRAWSV list"

definition read_RxmRAW :: "u8 list \<Rightarrow> nat \<Rightarrow> u32 \<Rightarrow> RxmRAW \<Rightarrow> RxmRAW option" where
  "read_RxmRAW mem data count m = read_msg
     [next_in RxmRAW_rcv_tow_update, next_in RxmRAW_week_update, next_in RxmRAW_num_sv_update,
      next_in RxmRAW_reserved1_update,
      resize_to default_RxmRAWSV (\<lambda>m. unat (RxmRAW_num_sv m)) RxmRAW_sv_update,
      next_in_each read_RxmRAWSV RxmRAW_sv RxmRAW_sv_update] mem data count m"

definition serializedLength_RxmRAW :: "RxmRAW \<Rightarrow> u32" where
  "serializedLength_RxmRAW m = 8 + 24 * ucast (RxmRAW_num_sv m)"

definition write_RxmRAW :: "u8 list \<Rightarrow> nat \<Rightarrow> u32 \<Rightarrow> RxmRAW \<Rightarrow> u8 list option" where
  "write_RxmRAW mem data sz m = write_msg
     [next_out (RxmRAW_rcv_tow m), next_out (RxmRAW_week m),
      next_out (of_nat (length (RxmRAW_sv m)) :: u8), next_out (RxmRAW_reserved1 m),
      next_out_each write_RxmRAWSV (RxmRAW_sv m)] mem data sz"

definition ok_RxmRAW :: "RxmRAW \<Rightarrow> bool" where
  "ok_RxmRAW m \<longleftrightarrow> length (RxmRAW_sv m) = unat (RxmRAW_num_sv m)"

interpretation RxmRAW: ubx_message read_RxmRAW write_RxmRAW serializedLength_RxmRAW
  "ok_RxmRAW" "\<lambda>_. True"
  by (unfold_locales, rule msg_codec, rule read_RxmRAW_def, rule write_RxmRAW_def, rule transfers_eqn,
      (rule run_intros transfers_blocks_any [OF _ transfers_RxmRAWSV])+, rule RxmRAW.equality)
    (auto simp: ok_RxmRAW_def serializedLength_RxmRAW_def msg_simps dyn_simps)

subsection \<open>RxmRAWXMeas\<close>

record RxmRAWXMeas =
  RxmRAWXMeas_pr_mes :: u64
  RxmRAWXMeas_cp_mes :: u64
  RxmRAWXMeas_do_mes :: u32
  RxmRAWXMeas_gnss_id :: u8
  RxmRAWXMeas_sv_id :: u8
  RxmRAWXMeas_reserved0 :: u8
  RxmRAWXMeas_freq_id :: u8
  RxmRAWXMeas_locktime :: u16
  RxmRAWXMeas_cno :: u8
  RxmRAWXMeas_pr_stdev :: u8
  RxmRAWXMeas_cp_stdev :: u8
  RxmRAWXMeas_do_stdev :: u8
  RxmRAWXMeas_trk_stat :: u8
  RxmRAWXMeas_reserved1 :: u8

definition default_RxmRAWXMeas :: RxmRAWXMeas where
  "default_RxmRAWXMeas = \<lparr>RxmRAWXMeas_pr_mes = 0, RxmRAWXMeas_cp_mes = 0, RxmRAWXMeas_do_mes = 0,
     RxmRAWXMeas_gnss_id = 0, RxmRAWXMeas_sv_id = 0, RxmRAWXMeas_reserved0 = 0,
     RxmRAWXMeas_freq_id = 0, RxmRAWXMeas_locktime = 0, RxmRAWXMeas_cno = 0,
     RxmRAWXMeas_pr_stdev = 0, RxmRAWXMeas_cp_stdev = 0, RxmRAWXMeas_do_stdev = 0,
     RxmRAWXMeas_trk_stat = 0, RxmRAWXMeas_reserved1 = 0\<rparr>"

definition read_RxmRAWXMeas :: "(ubx_stream \<times> RxmRAWXMeas \<Rightarrow> (ubx_stream \<times> RxmRAWXMeas) option) list" where
  "read_RxmRAWXMeas =
     [next_in RxmRAWXMeas_pr_mes_update, next_in RxmRAWXMeas_cp_mes_update,
      next_in RxmRAWXMeas_do_mes_update, next_in RxmRAWXMeas_gnss_id_update,
      next_in RxmRAWXMeas_sv_id_update, next_in RxmRAWXMeas_reserved0_update,
      next_in RxmRAWXMeas_freq_id_update, next_in RxmRAWXMeas_locktime_update,
      next_in RxmRAWXMeas_cno_update, next_in RxmRAWXMeas_pr_stdev_update,
      next_in RxmRAWXMeas_cp_stdev_update, next_in RxmRAWXMeas_do_stdev_update,
      next_in RxmRAWXMeas_trk_stat_update, next_in RxmRAWXMeas_reserved1_update]"

definition serializedLength_RxmRAWXMeas :: "RxmRAWXMeas \<Rightarrow> u32" where
  "serializedLength_RxmRAWXMeas m = 32"

definition write_RxmRAWXMeas :: "RxmRAWXMeas \<Rightarrow> (ubx_stream \<Rightarrow> ubx_stream option) list" where
  "write_RxmRAWXMeas m =
     [next_out (RxmRAWXMeas_pr_mes m), next_out (RxmRAWXMeas_cp_mes m),
      next_out (RxmRAWXMeas_do_mes m), next_out (RxmRAWXMeas_gnss_id m),
      next_out (RxmRAWXMeas_sv_id m), next_out (RxmRAWXMeas_reserved0 m),
      next_out (RxmRAWXMeas_freq_id m), next_out (RxmRAWXMeas_locktime m),
      next_out (RxmRAWXMeas_cno m), next_out (RxmRAWXMeas_pr_stdev m),
      next_out (RxmRAWXMeas_cp_stdev m), next_out (RxmRAWXMeas_do_stdev m),
      next_out (RxmRAWXMeas_trk_stat m), next_out (RxmRAWXMeas_reserved1 m)]"

lemma transfers_RxmRAWXMeas:
  "transfers read_RxmRAWXMeas (write_RxmRAWXMeas m) 32 m0 m"
  unfolding read_RxmRAWXMeas_def write_RxmRAWXMeas_def
  by (rule transfers_eqn, (rule run_intros)+, rule RxmRAWXMeas.equality)
    (simp_all add: msg_simps)

subsection \<open>RxmRAWX\<close>

record RxmRAWX =
  RxmRAWX_rcv_tow :: u64
  RxmRAWX_week :: u16
  RxmRAWX_leap_s :: u8
  RxmRAWX_num_meas :: u8
  RxmRAWX_rec_stat :: u8
  RxmRAWX_version :: u8
  RxmRAWX_reserved1 :: "u8 list"
  RxmRAWX_meas :: "RxmRAWXMeas list"

definition shape_RxmRAWX :: "RxmRAWX \<Rightarrow> bool" where
  "shape_RxmRAWX m \<longleftrightarrow> length (RxmRAWX_reserved1 m) = 2"

definition read_RxmRAWX :: "u8 list \<Rightarrow> nat \<Rightarrow> u32 \<Rightarrow> RxmRAWX \<Rightarrow> RxmRAWX option" where
  "read_RxmRAWX mem data count m = read_msg
     [next_in RxmRAWX_rcv_tow_update, next_in RxmRAWX_week_update,
      next_in RxmRAWX_leap_s_update, next_in RxmRAWX_num_meas_update,
      next_in RxmRAWX_rec_stat_update, next_in RxmRAWX_version_update,
      next_in_arr 2 RxmRAWX_reserved1_update,
      resize_to default_RxmRAWXMeas (\<lambda>m. unat (RxmRAWX_num_meas m)) RxmRAWX_meas_update,
      next_in_each read_RxmRAWXMeas RxmRAWX_meas RxmRAWX_meas_update] mem data count m"

definition serializedLength_RxmRAWX :: "RxmRAWX \<Rightarrow> u32" where
  "serializedLength_RxmRAWX m = 16 + 32 * ucast (RxmRAWX_num_meas m)"

definition write_RxmRAWX :: "u8 list \<Rightarrow> nat \<Rightarrow> u32 \<Rightarrow> RxmRAWX \<Rightarrow> u8 list option" where
  "write_RxmRAWX mem data sz m = write_msg
     [next_out (RxmRAWX_rcv_tow m), next_out (RxmRAWX_week m), next_out (RxmRAWX_leap_s m),
      next_out (of_nat (length (RxmRAWX_meas m)) :: u8), next_out (RxmRAWX_rec_stat m),
      next_out (RxmRAWX_version m), next_out_arr (RxmRAWX_reserved1 m),
      next_out_each write_RxmRAWXMeas (RxmRAWX_meas m)] mem data sz"

definition ok_RxmRAWX :: "RxmRAWX \<Rightarrow> bool" where
  "ok_RxmRAWX m \<longleftrightarrow> shape_RxmRAWX m \<and> length (RxmRAWX_meas m) = unat (RxmRAWX_num_meas m)"

interpretation RxmRAWX: ubx_message read_RxmRAWX write_RxmRAWX serializedLength_RxmRAWX
  "ok_RxmRAWX" "shape_RxmRAWX"
  by (unfold_locales, rule msg_codec, rule read_RxmRAWX_def, rule write_RxmRAWX_def, rule transfers_eqn,
      (rule run_intros transfers_blocks_any [OF _ transfers_RxmRAWXMeas])+, rule RxmRAWX.equality)
    (auto simp: ok_RxmRAWX_def serializedLength_RxmRAWX_def shape_RxmRAWX_def msg_simps dyn_simps)

subsection \<open>RxmRTCM\<close>

record RxmRTCM =
  RxmRTCM_version :: u8
  RxmRTCM_flags :: u8
  RxmRTCM_reserved0 :: "u8 list"
  RxmRTCM_ref_station :: u16
  RxmRTCM_msg_type :: u16

definition shape_RxmRTCM :: "RxmRTCM \<Rightarrow> bool" where
  "shape_RxmRTCM m \<longleftrightarrow> length (RxmRTCM_reserved0 m) = 2"

definition read_RxmRTCM :: "u8 list \<Rightarrow> nat \<Rightarrow> u32 \<Rightarrow> RxmRTCM \<Rightarrow> RxmRTCM option" where
  "read_RxmRTCM mem data count m = read_msg
     [next_in RxmRTCM_version_update, next_in RxmRTCM_flags_update,
      next_in (elem RxmRTCM_reserved0_update 0), next_in (elem RxmRTCM_reserved0_update 1),
      next_in RxmRTCM_ref_station_update, next_in RxmRTCM_msg_type_update] mem data count m"

definition serializedLength_RxmRTCM :: "RxmRTCM \<Rightarrow> u32" where
  "serializedLength_RxmRTCM m = 8"

definition write_RxmRTCM :: "u8 list \<Rightarrow> nat \<Rightarrow> u32 \<Rightarrow> RxmRTCM \<Rightarrow> u8 list option" where
  "write_RxmRTCM mem data sz m = write_msg
     [next_out (RxmRTCM_version m), next_out (RxmRTCM_flags m),
      next_out (RxmRTCM_reserved0 m ! 0), next_out (RxmRTCM_reserved0 m ! 1),
      next_out (RxmRTCM_ref_station m), next_out (RxmRTCM_msg_type m)] mem data sz"

interpretation RxmRTCM: ubx_message read_RxmRTCM write_RxmRTCM serializedLength_RxmRTCM
  "shape_RxmRTCM" "shape_RxmRTCM"
  by (unfold_locales, rule msg_codec, rule read_RxmRTCM_def, rule write_RxmRTCM_def,
      rule transfers_eqn, (rule run_intros)+, rule RxmRTCM.equality)
    (simp_all add: serializedLength_RxmRTCM_def shape_RxmRTCM_def msg_simps)

subsection \<open>RxmSFRB\<close>

record RxmSFRB =
  RxmSFRB_chn :: u8
  RxmSFRB_svid :: u8
  RxmSFRB_dwrd :: "u32 list"

definition shape_RxmSFRB :: "RxmSFRB \<Rightarrow> bool" where
  "shape_RxmSFRB m \<longleftrightarrow> length (RxmSFRB_dwrd m) = 10"

definition read_RxmSFRB :: "u8 list \<Rightarrow> nat \<Rightarrow> u32 \<Rightarrow> RxmSFRB \<Rightarrow> RxmSFRB option" where
  "read_RxmSFRB mem data count m = read_msg
     [next_in RxmSFRB_chn_update, next_in RxmSFRB_svid_update,
      next_in (elem RxmSFRB_dwrd_update 0), next_in (elem RxmSFRB_dwrd_update 1),
      next_in (elem RxmSFRB_dwrd_update 2), next_in (elem RxmSFRB_dwrd_update 3),
      next_in (elem RxmSFRB_dwrd_update 4), next_in (elem RxmSFRB_dwrd_update 5),
      next_in (elem RxmSFRB_dwrd_update 6), next_in (elem RxmSFRB_dwrd_update 7),
      next_in (elem RxmSFRB_dwrd_update 8), next_in (elem RxmSFRB_dwrd_update 9)] mem data count m"

definition serializedLength_RxmSFRB :: "RxmSFRB \<Rightarrow> u32" where
  "serializedLength_RxmSFRB m = 42"

definition write_RxmSFRB :: "u8 list \<Rightarrow> nat \<Rightarrow> u32 \<Rightarrow> RxmSFRB \<Rightarrow> u8 list option" where
  "write_RxmSFRB mem data sz m = write_msg
     [next_out (RxmSFRB_chn m), next_out (RxmSFRB_svid m), next_out (RxmSFRB_dwrd m ! 0),
      next_out (RxmSFRB_dwrd m ! 1), next_out (RxmSFRB_dwrd m ! 2),
      next_out (RxmSFRB_dwrd m ! 3), next_out (RxmSFRB_dwrd m ! 4),
      next_out (RxmSFRB_dwrd m ! 5), next_out (RxmSFRB_dwrd m ! 6),
      next_out (RxmSFRB_dwrd m ! 7), next_out (RxmSFRB_dwrd m ! 8),
      next_out (RxmSFRB_dwrd m ! 9)] mem data sz"

interpretation RxmSFRB: ubx_message read_RxmSFRB write_RxmSFRB serializedLength_RxmSFRB
  "shape_RxmSFRB" "shape_RxmSFRB"
  by (unfold_locales, rule msg_codec, rule read_RxmSFRB_def, rule write_RxmSFRB_def,
      rule transfers_eqn, (rule run_intros)+, rule RxmSFRB.equality)
    (simp_all add: serializedLength_RxmSFRB_def shape_RxmSFRB_def msg_simps)

subsection \<open>RxmSFRBX\<close>

record RxmSFRBX =
  RxmSFRBX_gnss_id :: u8
  RxmSFRBX_sv_id :: u8
  RxmSFRBX_reserved0 :: u8
  RxmSFRBX_freq_id :: u8
  RxmSFRBX_num_words :: u8
  RxmSFRBX_chn :: u8
  RxmSFRBX_version :: u8
  RxmSFRBX_reserved1 :: u8
  RxmSFRBX_dwrd :: "u32 list"

definition read_RxmSFRBX :: "u8 list \<Rightarrow> nat \<Rightarrow> u32 \<Rightarrow> RxmSFRBX \<Rightarrow> RxmSFRBX option" where
  "read_RxmSFRBX mem data count m = read_msg
     [next_in RxmSFRBX_gnss_id_update, next_in RxmSFRBX_sv_id_update,
      next_in RxmSFRBX_reserved0_update, next_in RxmSFRBX_freq_id_update,
      next_in RxmSFRBX_num_words_update, next_in RxmSFRBX_chn_update,
      next_in RxmSFRBX_version_update, next_in RxmSFRBX_reserved1_update,
      resize_to 0 (\<lambda>m. unat (RxmSFRBX_num_words m)) RxmSFRBX_dwrd_update,
      next_in_each scalar_in RxmSFRBX_dwrd RxmSFRBX_dwrd_update] mem data count m"

definition serializedLength_RxmSFRBX :: "RxmSFRBX \<Rightarrow> u32" where
  "serializedLength_RxmSFRBX m = 8 + 4 * ucast (RxmSFRBX_num_words m)"

definition write_RxmSFRBX :: "u8 list \<Rightarrow> nat \<Rightarrow> u32 \<Rightarrow> RxmSFRBX \<Rightarrow> u8 list option" where
  "write_RxmSFRBX mem data sz m = write_msg
     [next_out (RxmSFRBX_gnss_id m), next_out (RxmSFRBX_sv_id m),
      next_out (RxmSFRBX_reserved0 m), next_out (RxmSFRBX_freq_id m),
      next_out (of_nat (length (RxmSFRBX_dwrd m)) :: u8), next_out (RxmSFRBX_chn m),
      next_out (RxmSFRBX_version m), next_out (RxmSFRBX_reserved1 m),
      next_out_each scalar_out (RxmSFRBX_dwrd m)] mem data sz"

definition ok_RxmSFRBX :: "RxmSFRBX \<Rightarrow> bool" where
  "ok_RxmSFRBX m \<longleftrightarrow> length (RxmSFRBX_dwrd m) = unat (RxmSFRBX_num_words m)"

interpretation RxmSFRBX: ubx_message read_RxmSFRBX write_RxmSFRBX serializedLength_RxmSFRBX
  "ok_RxmSFRBX" "\<lambda>_. True"
  by (unfold_locales, rule msg_codec, rule read_RxmSFRBX_def, rule write_RxmSFRBX_def, rule transfers_eqn,
      (rule run_intros transfers_blocks_any [OF _ transfers_u32])+, rule RxmSFRBX.equality)
    (auto simp: ok_RxmSFRBX_def serializedLength_RxmSFRBX_def msg_simps dyn_simps)

subsection \<open>RxmSVSISV\<close>

record RxmSVSISV =
  RxmSVSISV_svid :: u8
  RxmSVSISV_sv_flag :: u8
  RxmSVSISV_azim :: u16
  RxmSVSISV_elev :: u8
  RxmSVSISV_age :: u8

definition default_RxmSVSISV :: RxmSVSISV where
  "default_RxmSVSISV = \<lparr>RxmSVSISV_svid = 0, RxmSVSISV_sv_flag = 0, RxmSVSISV_azim = 0, RxmSVSISV_elev = 0,
     RxmSVSISV_age = 0\<rparr>"

definition read_RxmSVSISV :: "(ubx_stream \<times> RxmSVSISV \<Rightarrow> (ubx_stream \<times> RxmSVSISV) option) list" where
  "read_RxmSVSISV =
     [next_in RxmSVSISV_svid_update, next_in RxmSVSISV_sv_flag_update,
      next_in RxmSVSISV_azim_update, next_in RxmSVSISV_elev_update, next_in RxmSVSISV_age_update]"

definition serializedLength_RxmSVSISV :: "RxmSVSISV \<Rightarrow> u32" where
  "serializedLength_RxmSVSISV m = 6"

definition write_RxmSVSISV :: "RxmSVSISV \<Rightarrow> (ubx_stream \<Rightarrow> ubx_stream option) list" where
  "write_RxmSVSISV m =
     [next_out (RxmSVSISV_svid m), next_out (RxmSVSISV_sv_flag m), next_out (RxmSVSISV_azim m),
      next_out (RxmSVSISV_elev m), next_out (RxmSVSISV_age m)]"

lemma transfers_RxmSVSISV:
  "transfers read_RxmSVSISV (write_RxmSVSISV m) 6 m0 m"
  unfolding read_RxmSVSISV_def write_RxmSVSISV_def
  by (rule transfers_eqn, (rule run_intros)+, rule RxmSVSISV.equality)
    (simp_all add: msg_simps)

subsection \<open>RxmSVSI\<close>

record RxmSVSI =
  RxmSVSI_i_tow :: u32
  RxmSVSI_week :: u16
  RxmSVSI_num_vis :: u8
  RxmSVSI_num_sv :: u8
  RxmSVSI_sv :: "RxmSVSISV list"

definition read_RxmSVSI :: "u8 list \<Rightarrow> nat \<Rightarrow> u32 \<Rightarrow> RxmSVSI \<Rightarrow> RxmSVSI option" where
  "read_RxmSVSI mem data count m = read_msg
     [next_in RxmSVSI_i_tow_update, next_in RxmSVSI_week_update, next_in RxmSVSI_num_vis_update,
      next_in RxmSVSI_num_sv_update,
      resize_to default_RxmSVSISV (\<lambda>m. unat (RxmSVSI_num_sv m)) RxmSVSI_sv_update,
      next_in_each read_RxmSVSISV RxmSVSI_sv RxmSVSI_sv_update] mem data count m"

definition serializedLength_RxmSVSI :: "RxmSVSI \<Rightarrow> u32" where
  "serializedLength_RxmSVSI m = 8 + 6 * ucast (RxmSVSI_num_sv m)"

definition write_RxmSVSI :: "u8 list \<Rightarrow> nat \<Rightarrow> u32 \<Rightarrow> RxmSVSI \<Rightarrow> u8 list option" where
  "write_RxmSVSI mem data sz m = write_msg
     [next_out (RxmSVSI_i_tow m), next_out (RxmSVSI_week m), next_out (RxmSVSI_num_vis m),
      next_out (of_nat (length (RxmSVSI_sv m)) :: u8),
      next_out_each write_RxmSVSISV (RxmSVSI_sv m)] mem data sz"

definition ok_RxmSVSI :: "RxmSVSI \<Rightarrow> bool" where
  "ok_RxmSVSI m \<longleftrightarrow> length (RxmSVSI_sv m) = unat (RxmSVSI_num_sv m)"

interpretation RxmSVSI: ubx_message read_RxmSVSI write_RxmSVSI serializedLength_RxmSVSI
  "ok_RxmSVSI" "\<lambda>_. True"
  by (unfold_locales, rule msg_codec, rule read_RxmSVSI_def, rule write_RxmSVSI_def, rule transfers_eqn,
      (rule run_intros transfers_blocks_any [OF _ transfers_RxmSVSISV])+, rule RxmSVSI.equality)
    (auto simp: ok_RxmSVSI_def serializedLength_RxmSVSI_def msg_simps dyn_simps)

subsection \<open>TimTM2\<close>

record TimTM2 =
  TimTM2_ch :: u8
  TimTM2_flags :: u8
  TimTM2_rising_edge_count :: u16
  TimTM2_wn_r :: u16
  TimTM2_wn_f :: u16
  TimTM2_tow_ms_r :: u32
  TimTM2_tow_sub_ms_r :: u32
  TimTM2_tow_ms_f :: u32
  TimTM2_tow_sub_ms_f :: u32
  TimTM2_acc_est :: u32

definition read_TimTM2 :: "u8 list \<Rightarrow> nat \<Rightarrow> u32 \<Rightarrow> TimTM2 \<Rightarrow> TimTM2 option" where
  "read_TimTM2 mem data count m = read_msg
     [next_in TimTM2_ch_update, next_in TimTM2_flags_update,
      next_in TimTM2_rising_edge_count_update, next_in TimTM2_wn_r_update,
      next_in TimTM2_wn_f_update, next_in TimTM2_tow_ms_r_update,
      next_in TimTM2_tow_sub_ms_r_update, next_in TimTM2_tow_ms_f_update,
      next_in TimTM2_tow_sub_ms_f_update, next_in TimTM2_acc_est_update] mem data count m"

definition serializedLength_TimTM2 :: "TimTM2 \<Rightarrow> u32" where
  "serializedLength_TimTM2 m = 28"

definition write_TimTM2 :: "u8 list \<Rightarrow> nat \<Rightarrow> u32 \<Rightarrow> TimTM2 \<Rightarrow> u8 list option" where
  "write_TimTM2 mem data sz m = write_msg
     [next_out (TimTM2_ch m), next_out (TimTM2_flags m), next_out (TimTM2_rising_edge_count m),
      next_out (TimTM2_wn_r m), next_out (TimTM2_wn_f m), next_out (TimTM2_tow_ms_r m),
      next_out (TimTM2_tow_sub_ms_r m), next_out (TimTM2_tow_ms_f m),
      next_out (TimTM2_tow_sub_ms_f m), next_out (TimTM2_acc_est m)] mem data sz"

interpretation TimTM2: ubx_message read_TimTM2 write_TimTM2 serializedLength_TimTM2
  "\<lambda>_. True" "\<lambda>_. True"
  by (unfold_locales, rule msg_codec, rule read_TimTM2_def, rule write_TimTM2_def,
      rule transfers_eqn, (rule run_intros)+, rule TimTM2.equality)
    (simp_all add: serializedLength_TimTM2_def msg_simps)

subsection \<open>UpdSOS\<close>

record UpdSOS =
  UpdSOS_cmd :: u8
  UpdSOS_reserved1 :: "u8 list"

definition shape_UpdSOS :: "UpdSOS \<Rightarrow> bool" where
  "shape_UpdSOS m \<longleftrightarrow> length (UpdSOS_reserved1 m) = 3"

definition read_UpdSOS :: "u8 list \<Rightarrow> nat \<Rightarrow> u32 \<Rightarrow> UpdSOS \<Rightarrow> UpdSOS option" where
  "read_UpdSOS mem data count m = read_msg
     [next_in UpdSOS_cmd_update, next_in (elem UpdSOS_reserved1_update 0),
      next_in (elem UpdSOS_reserved1_update 1), next_in (elem UpdSOS_reserved1_update 2)] mem data count m"

definition serializedLength_UpdSOS :: "UpdSOS \<Rightarrow> u32" where
  "serializedLength_UpdSOS m = 4"

definition write_UpdSOS :: "u8 list \<Rightarrow> nat \<Rightarrow> u32 \<Rightarrow> UpdSOS \<Rightarrow> u8 list option" where
  "write_UpdSOS mem data sz m = write_msg
     [next_out (UpdSOS_cmd m), next_out (UpdSOS_reserved1 m ! 0),
      next_out (UpdSOS_reserved1 m ! 1), next_out (UpdSOS_reserved1 m ! 2)] mem data sz"

interpretation UpdSOS: ubx_message read_UpdSOS write_UpdSOS serializedLength_UpdSOS
  "shape_UpdSOS" "shape_UpdSOS"
  by (unfold_locales, rule msg_codec, rule read_UpdSOS_def, rule write_UpdSOS_def,
      rule transfers_eqn, (rule run_intros)+, rule UpdSOS.equality)
    (simp_all add: serializedLength_UpdSOS_def shape_UpdSOS_def msg_simps)

subsection \<open>UpdSOSAck\<close>

record UpdSOSAck =
  UpdSOSAck_cmd :: u8
  UpdSOSAck_reserved0 :: "u8 list"
  UpdSOSAck_response :: u8
  UpdSOSAck_reserved1 :: "u8 list"

definition shape_UpdSOSAck :: "UpdSOSAck \<Rightarrow> bool" where
  "shape_UpdSOSAck m \<longleftrightarrow> length (UpdSOSAck_reserved0 m) = 3 \<and> length (UpdSOSAck_reserved1 m) = 3"

definition read_UpdSOSAck :: "u8 list \<Rightarrow> nat \<Rightarrow> u32 \<Rightarrow> UpdSOSAck \<Rightarrow> UpdSOSAck option" where
  "read_UpdSOSAck mem data count m = read_msg
     [next_in UpdSOSAck_cmd_update, next_in (elem UpdSOSAck_reserved0_update 0),
      next_in (elem UpdSOSAck_reserved0_update 1), next_in (elem UpdSOSAck_reserved0_update 2),
      next_in UpdSOSAck_response_update, next_in (elem UpdSOSAck_reserved1_update 0),
      next_in (elem UpdSOSAck_reserved1_update 1), next_in (elem UpdSOSAck_reserved1_update 2)] mem data count m"

definition serializedLength_UpdSOSAck :: "UpdSOSAck \<Rightarrow> u32" where
  "serializedLength_UpdSOSAck m = 8"

definition write_UpdSOSAck :: "u8 list \<Rightarrow> nat \<Rightarrow> u32 \<Rightarrow> UpdSOSAck \<Rightarrow> u8 list option" where
  "write_UpdSOSAck mem data sz m = write_msg
     [next_out (UpdSOSAck_cmd m), next_out (UpdSOSAck_reserved0 m ! 0),
      next_out (UpdSOSAck_reserved0 m ! 1), next_out (UpdSOSAck_reserved0 m ! 2),
      next_out (UpdSOSAck_response m), next_out (UpdSOSAck_reserved1 m ! 0),
      next_out (UpdSOSAck_reserved1 m ! 1), next_out (UpdSOSAck_reserved1 m ! 2)] mem data sz"

interpretation UpdSOSAck: ubx_message read_UpdSOSAck write_UpdSOSAck serializedLength_UpdSOSAck
  "shape_UpdSOSAck" "shape_UpdSOSAck"
  by (unfold_locales, rule msg_codec, rule read_UpdSOSAck_def, rule write_UpdSOSAck_def,
      rule transfers_eqn, (rule run_intros)+, rule UpdSOSAck.equality)
    (simp_all add: serializedLength_UpdSOSAck_def shape_UpdSOSAck_def msg_simps)

section \<open>Serialisers that do not meet the contract\<close>

text \<open>
  The almanac and ephemeris readers resize the word vectors to eight elements and then push the
  eight words read behind them, so a message that was written with eight words comes back with
  sixteen, the first eight of them zero.
\<close>

lemma AidALM_words_doubled:
  assumes "length (AidALM_dwrd m) = 8" and "d + 40 \<le> length mem"
  shows "\<exists>mem'. write_AidALM mem d sz m = Some mem' \<and> length mem' = length mem \<and>
    read_AidALM mem' d (serializedLength_AidALM m) m0
      = Some (m\<lparr>AidALM_dwrd := replicate 8 0 @ AidALM_dwrd m\<rparr>)"
proof -
  obtain a1 a2 a3 a4 a5 a6 a7 a8 where ws: "AidALM_dwrd m = [a1, a2, a3, a4, a5, a6, a7, a8]"
    using assms(1) by (rule list_of_8)
  have count: "serializedLength_AidALM m = 40"
    by (simp add: serializedLength_AidALM_def assms(1))
  show ?thesis
    unfolding read_AidALM_def write_AidALM_def count simp_thms(6) if_True replicate_8 append.simps
    by (rule read_back [OF transfers_eqn [where n = 40 and
        W = "next_out (AidALM_svid m) # next_out (AidALM_week m) # map next_out (AidALM_dwrd m)"]],
      unfold ws list.map, (rule run_intros)+, rule AidALM.equality)
      (use assms(2) in \<open>simp_all add: ws resize_def max_vector_def replicate_8 flatten_simps
         split: option.split\<close>)
qed

lemma AidEPH_words_doubled:
  assumes "length (AidEPH_sf1d m) = 8" and "length (AidEPH_sf2d m) = 8"
    and "length (AidEPH_sf3d m) = 8" and "d + 104 \<le> length mem"
  shows "\<exists>mem'. write_AidEPH mem d sz m = Some mem' \<and> length mem' = length mem \<and>
    read_AidEPH mem' d (serializedLength_AidEPH m) m0
      = Some (m\<lparr>AidEPH_sf1d := replicate 8 0 @ AidEPH_sf1d m,
               AidEPH_sf2d := replicate 8 0 @ AidEPH_sf2d m,
               AidEPH_sf3d := replicate 8 0 @ AidEPH_sf3d m\<rparr>)"
proof -
  obtain a1 a2 a3 a4 a5 a6 a7 a8 where as: "AidEPH_sf1d m = [a1, a2, a3, a4, a5, a6, a7, a8]"
    using assms(1) by (rule list_of_8)
  obtain b1 b2 b3 b4 b5 b6 b7 b8 where bs: "AidEPH_sf2d m = [b1, b2, b3, b4, b5, b6, b7, b8]"
    using assms(2) by (rule list_of_8)
  obtain c1 c2 c3 c4 c5 c6 c7 c8 where cs: "AidEPH_sf3d m = [c1, c2, c3, c4, c5, c6, c7, c8]"
    using assms(3) by (rule list_of_8)
  have count: "serializedLength_AidEPH m = 104"
    by (simp add: serializedLength_AidEPH_def assms)
  show ?thesis
    unfolding read_AidEPH_def write_AidEPH_def count simp_thms(6) if_True replicate_8 append.simps
    by (rule read_back [OF transfers_eqn [where n = 104 and
        W = "next_out (AidEPH_svid m) # next_out (AidEPH_how m) #
          map next_out (AidEPH_sf1d m @ AidEPH_sf2d m @ AidEPH_sf3d m)"]],
      unfold as bs cs list.map append.simps, (rule run_intros)+, rule AidEPH.equality)
      (use assms(4) in \<open>simp_all add: as bs cs resize_def max_vector_def replicate_8 flatten_simps
         split: option.split\<close>)
qed

lemma RxmALM_words_doubled:
  assumes "length (RxmALM_dwrd m) = 8" and "d + 40 \<le> length mem"
  shows "\<exists>mem'. write_RxmALM mem d sz m = Some mem' \<and> length mem' = length mem \<and>
    read_RxmALM mem' d (serializedLength_RxmALM m) m0
      = Some (m\<lparr>RxmALM_dwrd := replicate 8 0 @ RxmALM_dwrd m\<rparr>)"
proof -
  obtain a1 a2 a3 a4 a5 a6 a7 a8 where ws: "RxmALM_dwrd m = [a1, a2, a3, a4, a5, a6, a7, a8]"
    using assms(1) by (rule list_of_8)
  have count: "serializedLength_RxmALM m = 40"
    by (simp add: serializedLength_RxmALM_def assms(1))
  show ?thesis
    unfolding read_RxmALM_def write_RxmALM_def count simp_thms(6) if_True replicate_8 append.simps
    by (rule read_back [OF transfers_eqn [where n = 40 and
        W = "next_out (RxmALM_svid m) # next_out (RxmALM_week m) # map next_out (RxmALM_dwrd m)"]],
      unfold ws list.map, (rule run_intros)+, rule RxmALM.equality)
      (use assms(2) in \<open>simp_all add: ws resize_def max_vector_def replicate_8 flatten_simps
         split: option.split\<close>)
qed

lemma RxmEPH_words_doubled:
  assumes "length (RxmEPH_sf1d m) = 8" and "length (RxmEPH_sf2d m) = 8"
    and "length (RxmEPH_sf3d m) = 8" and "d + 104 \<le> length mem"
  shows "\<exists>mem'. write_RxmEPH mem d sz m = Some mem' \<and> length mem' = length mem \<and>
    read_RxmEPH mem' d (serializedLength_RxmEPH m) m0
      = Some (m\<lparr>RxmEPH_sf1d := replicate 8 0 @ RxmEPH_sf1d m,
               RxmEPH_sf2d := replicate 8 0 @ RxmEPH_sf2d m,
               RxmEPH_sf3d := replicate 8 0 @ RxmEPH_sf3d m\<rparr>)"
proof -
  obtain a1 a2 a3 a4 a5 a6 a7 a8 where as: "RxmEPH_sf1d m = [a1, a2, a3, a4, a5, a6, a7, a8]"
    using assms(1) by (rule list_of_8)
  obtain b1 b2 b3 b4 b5 b6 b7 b8 where bs: "RxmEPH_sf2d m = [b1, b2, b3, b4, b5, b6, b7, b8]"
    using assms(2) by (rule list_of_8)
  obtain c1 c2 c3 c4 c5 c6 c7 c8 where cs: "RxmEPH_sf3d m = [c1, c2, c3, c4, c5, c6, c7, c8]"
    using assms(3) by (rule list_of_8)
  have count: "serializedLength_RxmEPH m = 104"
    by (simp add: serializedLength_RxmEPH_def assms)
  show ?thesis
    unfolding read_RxmEPH_def write_RxmEPH_def count simp_thms(6) if_True replicate_8 append.simps
    by (rule read_back [OF transfers_eqn [where n = 104 and
        W = "next_out (RxmEPH_svid m) # next_out (RxmEPH_how m) #
          map next_out (RxmEPH_sf1d m @ RxmEPH_sf2d m @ RxmEPH_sf3d m)"]],
      unfold as bs cs list.map append.simps, (rule run_intros)+, rule RxmEPH.equality)
      (use assms(4) in \<open>simp_all add: as bs cs resize_def max_vector_def replicate_8 flatten_simps
         split: option.split\<close>)
qed

text \<open>
  \<open>AidHUI\<close> announces 72 bytes and stores 68: \<open>utc_ls\<close> and \<open>utc_wnf\<close> are not in the
  statement lists.
\<close>

lemma AidHUI_short: "emits (\<lambda>mem d sz. write_AidHUI mem d sz m) 68"
  by (rule emits_write_msg, rule write_AidHUI_def, rule produces_eqn, (rule emit_intros)+) simp

lemma AidHUI_announces: "unat (serializedLength_AidHUI m) = 72"
  by (simp add: serializedLength_AidHUI_def)

end
