(* ===== verification/Ubx_Msgs_Misc.thy ===== *)
theory Ubx_Msgs_Misc
  imports Ubx_Stream
begin

text \<open>
  The ACK, ESF, INF and MON messages of \<open>ublox_msgs\<close>. One record per message
  (\<open>ublox_msgs/msg/<Name>.msg\<close>; signed fields and floats are kept as the raw words the
  serialiser copies), and per serialiser of \<open>ublox_msgs/serialization.hpp\<close> its
  \<open>read\<close>, \<open>serializedLength\<close> and \<open>write\<close> as \<open>read_<Name>\<close>,
  \<open>serializedLength_<Name>\<close> and \<open>write_<Name>\<close>, statement by statement.
  \<open>shape_<Name>\<close> states the sizes of the \<open>std::array\<close> fields and \<open>ok_<Name>\<close> what
  a message has to satisfy to survive the wire. The interpretation of \<open>ubx_message\<close> below
  a message proves that its reader inverts its writer.

\<close>

subsection \<open>Ack\<close>

record Ack =
  Ack_cls_id :: u8
  Ack_msg_id :: u8

definition read_Ack :: "u8 list \<Rightarrow> nat \<Rightarrow> u32 \<Rightarrow> Ack \<Rightarrow> Ack option" where
  "read_Ack mem data count m = read_msg
     [next_in Ack_cls_id_update, next_in Ack_msg_id_update] mem data count m"

definition serializedLength_Ack :: "Ack \<Rightarrow> u32" where
  "serializedLength_Ack m = 2"

definition write_Ack :: "u8 list \<Rightarrow> nat \<Rightarrow> u32 \<Rightarrow> Ack \<Rightarrow> u8 list option" where
  "write_Ack mem data sz m = write_msg
     [next_out (Ack_cls_id m), next_out (Ack_msg_id m)] mem data sz"

interpretation Ack: ubx_message read_Ack write_Ack serializedLength_Ack
  "\<lambda>_. True" "\<lambda>_. True"
  by (unfold_locales, rule msg_codec, rule read_Ack_def, rule write_Ack_def,
      rule transfers_eqn, (rule run_intros)+, rule Ack.equality)
    (simp_all add: serializedLength_Ack_def msg_simps)

subsection \<open>EsfINS\<close>

record EsfINS =
  EsfINS_bitfield0 :: u32
  EsfINS_reserved1 :: "u8 list"
  EsfINS_i_tow :: u32
  EsfINS_x_ang_rate :: u32
  EsfINS_y_ang_rate :: u32
  EsfINS_z_ang_rate :: u32
  EsfINS_x_accel :: u32
  EsfINS_y_accel :: u32
  EsfINS_z_accel :: u32

definition shape_EsfINS :: "EsfINS \<Rightarrow> bool" where
  "shape_EsfINS m \<longleftrightarrow> length (EsfINS_reserved1 m) = 4"

definition read_EsfINS :: "u8 list \<Rightarrow> nat \<Rightarrow> u32 \<Rightarrow> EsfINS \<Rightarrow> EsfINS option" where
  "read_EsfINS mem data count m = read_msg
     [next_in EsfINS_bitfield0_update, next_in (elem EsfINS_reserved1_update 0),
      next_in (elem EsfINS_reserved1_update 1), next_in (elem EsfINS_reserved1_update 2),
      next_in (elem EsfINS_reserved1_update 3), next_in EsfINS_i_tow_update,
      next_in EsfINS_x_ang_rate_update, next_in EsfINS_y_ang_rate_update,
      next_in EsfINS_z_ang_rate_update, next_in EsfINS_x_accel_update,
      next_in EsfINS_y_accel_update, next_in EsfINS_z_accel_update] mem data count m"

definition serializedLength_EsfINS :: "EsfINS \<Rightarrow> u32" where
  "serializedLength_EsfINS m = 36"

definition write_EsfINS :: "u8 list \<Rightarrow> nat \<Rightarrow> u32 \<Rightarrow> EsfINS \<Rightarrow> u8 list option" where
  "write_EsfINS mem data sz m = write_msg
     [next_out (EsfINS_bitfield0 m), next_out (EsfINS_reserved1 m ! 0),
      next_out (EsfINS_reserved1 m ! 1), next_out (EsfINS_reserved1 m ! 2),
      next_out (EsfINS_reserved1 m ! 3), next_out (EsfINS_i_tow m),
      next_out (EsfINS_x_ang_rate m), next_out (EsfINS_y_ang_rate m),
      next_out (EsfINS_z_ang_rate m), next_out (EsfINS_x_accel m), next_out (EsfINS_y_accel m),
      next_out (EsfINS_z_accel m)] mem data sz"

interpretation EsfINS: ubx_message read_EsfINS write_EsfINS serializedLength_EsfINS
  "shape_EsfINS" "shape_EsfINS"
  by (unfold_locales, rule msg_codec, rule read_EsfINS_def, rule write_EsfINS_def,
      rule transfers_eqn, (rule run_intros)+, rule EsfINS.equality)
    (simp_all add: serializedLength_EsfINS_def shape_EsfINS_def msg_simps)

subsection \<open>EsfMEAS\<close>

record EsfMEAS =
  EsfMEAS_time_tag :: u32
  EsfMEAS_flags :: u16
  EsfMEAS_id :: u16
  EsfMEAS_data :: "u32 list"
  EsfMEAS_calib_t_tag :: "u32 list"

definition read_EsfMEAS :: "u8 list \<Rightarrow> nat \<Rightarrow> u32 \<Rightarrow> EsfMEAS \<Rightarrow> EsfMEAS option" where
  "read_EsfMEAS mem data count m =
     (let calib_valid = (\<lambda>m. EsfMEAS_flags m AND 8 \<noteq> 0) in
      read_msg
        [next_in EsfMEAS_time_tag_update, next_in EsfMEAS_flags_update, next_in EsfMEAS_id_update,
         resize_to 0 (\<lambda>m. unat ((count - (if calib_valid m then 12 else 8)) div 4))
           EsfMEAS_data_update,
         next_in_each scalar_in EsfMEAS_data EsfMEAS_data_update,
         branch calib_valid
           [resize_to 0 (\<lambda>_. 1) EsfMEAS_calib_t_tag_update,
            next_in (elem EsfMEAS_calib_t_tag_update 0)]] mem data count m)"

definition serializedLength_EsfMEAS :: "EsfMEAS \<Rightarrow> u32" where
  "serializedLength_EsfMEAS m = 4 + 8 * of_nat (length (EsfMEAS_data m)) + 4 * of_nat (length (EsfMEAS_calib_t_tag m))"

definition write_EsfMEAS :: "u8 list \<Rightarrow> nat \<Rightarrow> u32 \<Rightarrow> EsfMEAS \<Rightarrow> u8 list option" where
  "write_EsfMEAS mem data sz m = write_msg
     [next_out (EsfMEAS_time_tag m), next_out (EsfMEAS_flags m), next_out (EsfMEAS_id m),
      next_out_each scalar_out (EsfMEAS_data m),
      next_out_each scalar_out (EsfMEAS_calib_t_tag m)] mem data sz"

subsection \<open>EsfRAWBlock\<close>

record EsfRAWBlock =
  EsfRAWBlock_data :: u32
  EsfRAWBlock_s_t_tag :: u32

definition default_EsfRAWBlock :: EsfRAWBlock where
  "default_EsfRAWBlock = \<lparr>EsfRAWBlock_data = 0, EsfRAWBlock_s_t_tag = 0\<rparr>"

definition read_EsfRAWBlock :: "(ubx_stream \<times> EsfRAWBlock \<Rightarrow> (ubx_stream \<times> EsfRAWBlock) option) list" where
  "read_EsfRAWBlock =
     [next_in EsfRAWBlock_data_update, next_in EsfRAWBlock_s_t_tag_update]"

definition serializedLength_EsfRAWBlock :: "EsfRAWBlock \<Rightarrow> u32" where
  "serializedLength_EsfRAWBlock m = 8"

definition write_EsfRAWBlock :: "EsfRAWBlock \<Rightarrow> (ubx_stream \<Rightarrow> ubx_stream option) list" where
  "write_EsfRAWBlock m =
     [next_out (EsfRAWBlock_data m), next_out (EsfRAWBlock_s_t_tag m)]"

lemma transfers_EsfRAWBlock:
  "transfers read_EsfRAWBlock (write_EsfRAWBlock m) 8 m0 m"
  unfolding read_EsfRAWBlock_def write_EsfRAWBlock_def
  by (rule transfers_eqn, (rule run_intros)+, rule EsfRAWBlock.equality)
    (simp_all add: msg_simps)

subsection \<open>EsfRAW\<close>

record EsfRAW =
  EsfRAW_reserved0 :: "u8 list"
  EsfRAW_blocks :: "EsfRAWBlock list"

definition shape_EsfRAW :: "EsfRAW \<Rightarrow> bool" where
  "shape_EsfRAW m \<longleftrightarrow> length (EsfRAW_reserved0 m) = 4"

definition read_EsfRAW :: "u8 list \<Rightarrow> nat \<Rightarrow> u32 \<Rightarrow> EsfRAW \<Rightarrow> EsfRAW option" where
  "read_EsfRAW mem data count m = read_msg
     [next_in_arr 4 EsfRAW_reserved0_update, assign (EsfRAW_blocks_update (\<lambda>_. [])),
      resize_to default_EsfRAWBlock (\<lambda>_. unat ((count - 4) div 8)) EsfRAW_blocks_update,
      next_in_each read_EsfRAWBlock EsfRAW_blocks EsfRAW_blocks_update] mem data count m"

definition serializedLength_EsfRAW :: "EsfRAW \<Rightarrow> u32" where
  "serializedLength_EsfRAW m = 4 + 8 * of_nat (length (EsfRAW_blocks m))"

definition write_EsfRAW :: "u8 list \<Rightarrow> nat \<Rightarrow> u32 \<Rightarrow> EsfRAW \<Rightarrow> u8 list option" where
  "write_EsfRAW mem data sz m = write_msg
     [next_out_arr (EsfRAW_reserved0 m), next_out_each write_EsfRAWBlock (EsfRAW_blocks m)] mem data sz"

definition ok_EsfRAW :: "EsfRAW \<Rightarrow> bool" where
  "ok_EsfRAW m \<longleftrightarrow> shape_EsfRAW m \<and> length (EsfRAW_blocks m) < 2 ^ 16"

interpretation EsfRAW: ubx_message read_EsfRAW write_EsfRAW serializedLength_EsfRAW
  "ok_EsfRAW" "shape_EsfRAW"
  by (unfold_locales, rule msg_codec, rule read_EsfRAW_def, rule write_EsfRAW_def, rule transfers_eqn,
      (rule run_intros transfers_blocks_any [OF _ transfers_EsfRAWBlock])+, rule EsfRAW.equality)
    (auto simp: ok_EsfRAW_def serializedLength_EsfRAW_def shape_EsfRAW_def msg_simps dyn_simps)

subsection \<open>EsfSTATUSSens\<close>

record EsfSTATUSSens =
  EsfSTATUSSens_sens_status1 :: u8
  EsfSTATUSSens_sens_status2 :: u8
  EsfSTATUSSens_freq :: u8
  EsfSTATUSSens_faults :: u8

definition default_EsfSTATUSSens :: EsfSTATUSSens where
  "default_EsfSTATUSSens = \<lparr>EsfSTATUSSens_sens_status1 = 0, EsfSTATUSSens_sens_status2 = 0, EsfSTATUSSens_freq = 0,
     EsfSTATUSSens_faults = 0\<rparr>"

definition read_EsfSTATUSSens :: "(ubx_stream \<times> EsfSTATUSSens \<Rightarrow> (ubx_stream \<times> EsfSTATUSSens) option) list" where
  "read_EsfSTATUSSens =
     [next_in EsfSTATUSSens_sens_status1_update, next_in EsfSTATUSSens_sens_status2_update,
      next_in EsfSTATUSSens_freq_update, next_in EsfSTATUSSens_faults_update]"

definition serializedLength_EsfSTATUSSens :: "EsfSTATUSSens \<Rightarrow> u32" where
  "serializedLength_EsfSTATUSSens m = 4"

definition write_EsfSTATUSSens :: "EsfSTATUSSens \<Rightarrow> (ubx_stream \<Rightarrow> ubx_stream option) list" where
  "write_EsfSTATUSSens m =
     [next_out (EsfSTATUSSens_sens_status1 m), next_out (EsfSTATUSSens_sens_status2 m),
      next_out (EsfSTATUSSens_freq m), next_out (EsfSTATUSSens_faults m)]"

lemma transfers_EsfSTATUSSens:
  "transfers read_EsfSTATUSSens (write_EsfSTATUSSens m) 4 m0 m"
  unfolding read_EsfSTATUSSens_def write_EsfSTATUSSens_def
  by (rule transfers_eqn, (rule run_intros)+, rule EsfSTATUSSens.equality)
    (simp_all add: msg_simps)

subsection \<open>EsfSTATUS\<close>

record EsfSTATUS =
  EsfSTATUS_i_tow :: u32
  EsfSTATUS_version :: u8
  EsfSTATUS_reserved1 :: "u8 list"
  EsfSTATUS_fusion_mode :: u8
  EsfSTATUS_reserved2 :: "u8 list"
  EsfSTATUS_num_sens :: u8
  EsfSTATUS_sens :: "EsfSTATUSSens list"

definition shape_EsfSTATUS :: "EsfSTATUS \<Rightarrow> bool" where
  "shape_EsfSTATUS m \<longleftrightarrow> length (EsfSTATUS_reserved1 m) = 7 \<and> length (EsfSTATUS_reserved2 m) = 2"

definition read_EsfSTATUS :: "u8 list \<Rightarrow> nat \<Rightarrow> u32 \<Rightarrow> EsfSTATUS \<Rightarrow> EsfSTATUS option" where
  "read_EsfSTATUS mem data count m = read_msg
     [next_in EsfSTATUS_i_tow_update, next_in EsfSTATUS_version_update,
      next_in EsfSTATUS_fusion_mode_update, next_in_arr 2 EsfSTATUS_reserved2_update,
      next_in EsfSTATUS_num_sens_update,
      resize_to default_EsfSTATUSSens (\<lambda>m. unat (EsfSTATUS_num_sens m)) EsfSTATUS_sens_update,
      next_in_each read_EsfSTATUSSens EsfSTATUS_sens EsfSTATUS_sens_update] mem data count m"

definition serializedLength_EsfSTATUS :: "EsfSTATUS \<Rightarrow> u32" where
  "serializedLength_EsfSTATUS m = 16 + 4 * ucast (EsfSTATUS_num_sens m)"

definition write_EsfSTATUS :: "u8 list \<Rightarrow> nat \<Rightarrow> u32 \<Rightarrow> EsfSTATUS \<Rightarrow> u8 list option" where
  "write_EsfSTATUS mem data sz m = write_msg
     [next_out (EsfSTATUS_i_tow m), next_out (EsfSTATUS_version m),
      next_out (EsfSTATUS_fusion_mode m), next_out_arr (EsfSTATUS_reserved2 m),
      next_out (of_nat (length (EsfSTATUS_sens m)) :: u8),
      next_out_each write_EsfSTATUSSens (EsfSTATUS_sens m)] mem data sz"

subsection \<open>Inf\<close>

record Inf =
  Inf_str :: "u8 list"

definition read_Inf :: "u8 list \<Rightarrow> nat \<Rightarrow> u32 \<Rightarrow> Inf \<Rightarrow> Inf option" where
  "read_Inf mem data count m = read_msg
     [resize_to 0 (\<lambda>_. unat count) Inf_str_update,
      next_in_each scalar_in Inf_str Inf_str_update] mem data count m"

definition serializedLength_Inf :: "Inf \<Rightarrow> u32" where
  "serializedLength_Inf m = of_nat (length (Inf_str m))"

definition write_Inf :: "u8 list \<Rightarrow> nat \<Rightarrow> u32 \<Rightarrow> Inf \<Rightarrow> u8 list option" where
  "write_Inf mem data sz m = write_msg
     [next_out_each scalar_out (Inf_str m)] mem data sz"

definition ok_Inf :: "Inf \<Rightarrow> bool" where
  "ok_Inf m \<longleftrightarrow> length (Inf_str m) < 2 ^ 16"

interpretation Inf: ubx_message read_Inf write_Inf serializedLength_Inf
  "ok_Inf" "\<lambda>_. True"
  by (unfold_locales, rule msg_codec, rule read_Inf_def, rule write_Inf_def, rule transfers_eqn,
      (rule run_intros transfers_blocks_any [OF _ transfers_u8])+, rule Inf.equality)
    (auto simp: ok_Inf_def serializedLength_Inf_def msg_simps dyn_simps)

subsection \<open>MonHW\<close>

record MonHW =
  MonHW_pin_sel :: u32
  MonHW_pin_bank :: u32
  MonHW_pin_dir :: u32
  MonHW_pin_val :: u32
  MonHW_noise_per_ms :: u16
  MonHW_agc_cnt :: u16
  MonHW_a_status :: u8
  MonHW_a_power :: u8
  MonHW_flags :: u8
  MonHW_reserved0 :: u8
  MonHW_used_mask :: u32
  MonHW_vp :: "u8 list"
  MonHW_jam_ind :: u8
  MonHW_reserved1 :: "u8 list"
  MonHW_pin_irq :: u32
  MonHW_pull_h :: u32
  MonHW_pull_l :: u32

definition shape_MonHW :: "MonHW \<Rightarrow> bool" where
  "shape_MonHW m \<longleftrightarrow> length (MonHW_vp m) = 17 \<and> length (MonHW_reserved1 m) = 2"

definition read_MonHW :: "u8 list \<Rightarrow> nat \<Rightarrow> u32 \<Rightarrow> MonHW \<Rightarrow> MonHW option" where
  "read_MonHW mem data count m = read_msg
     [next_in MonHW_pin_sel_update, next_in MonHW_pin_bank_update, next_in MonHW_pin_dir_update,
      next_in MonHW_pin_val_update, next_in MonHW_noise_per_ms_update,
      next_in MonHW_agc_cnt_update, next_in MonHW_a_status_update, next_in MonHW_a_power_update,
      next_in MonHW_flags_update, next_in MonHW_reserved0_update,
      next_in MonHW_used_mask_update, next_in (elem MonHW_vp_update 0),
      next_in (elem MonHW_vp_update 1), next_in (elem MonHW_vp_update 2),
      next_in (elem MonHW_vp_update 3), next_in (elem MonHW_vp_update 4),
      next_in (elem MonHW_vp_update 5), next_in (elem MonHW_vp_update 6),
      next_in (elem MonHW_vp_update 7), next_in (elem MonHW_vp_update 8),
      next_in (elem MonHW_vp_update 9), next_in (elem MonHW_vp_update 10),
      next_in (elem MonHW_vp_update 11), next_in (elem MonHW_vp_update 12),
      next_in (elem MonHW_vp_update 13), next_in (elem MonHW_vp_update 14),
      next_in (elem MonHW_vp_update 15), next_in (elem MonHW_vp_update 16),
      next_in MonHW_jam_ind_update, next_in (elem MonHW_reserved1_update 0),
      next_in (elem MonHW_reserved1_update 1), next_in MonHW_pin_irq_update,
      next_in MonHW_pull_h_update, next_in MonHW_pull_l_update] mem data count m"

definition serializedLength_MonHW :: "MonHW \<Rightarrow> u32" where
  "serializedLength_MonHW m = 60"

definition write_MonHW :: "u8 list \<Rightarrow> nat \<Rightarrow> u32 \<Rightarrow> MonHW \<Rightarrow> u8 list option" where
  "write_MonHW mem data sz m = write_msg
     [next_out (MonHW_pin_sel m), next_out (MonHW_pin_bank m), next_out (MonHW_pin_dir m),
      next_out (MonHW_pin_val m), next_out (MonHW_noise_per_ms m), next_out (MonHW_agc_cnt m),
      next_out (MonHW_a_status m), next_out (MonHW_a_power m), next_out (MonHW_flags m),
      next_out (MonHW_reserved0 m), next_out (MonHW_used_mask m), next_out (MonHW_vp m ! 0),
      next_out (MonHW_vp m ! 1), next_out (MonHW_vp m ! 2), next_out (MonHW_vp m ! 3),
      next_out (MonHW_vp m ! 4), next_out (MonHW_vp m ! 5), next_out (MonHW_vp m ! 6),
      next_out (MonHW_vp m ! 7), next_out (MonHW_vp m ! 8), next_out (MonHW_vp m ! 9),
      next_out (MonHW_vp m ! 10), next_out (MonHW_vp m ! 11), next_out (MonHW_vp m ! 12),
      next_out (MonHW_vp m ! 13), next_out (MonHW_vp m ! 14), next_out (MonHW_vp m ! 15),
      next_out (MonHW_vp m ! 16), next_out (MonHW_jam_ind m), next_out (MonHW_reserved1 m ! 0),
      next_out (MonHW_reserved1 m ! 1), next_out (MonHW_pin_irq m), next_out (MonHW_pull_h m),
      next_out (MonHW_pull_l m)] mem data sz"

interpretation MonHW: ubx_message read_MonHW write_MonHW serializedLength_MonHW
  "shape_MonHW" "shape_MonHW"
  by (unfold_locales, rule msg_codec, rule read_MonHW_def, rule write_MonHW_def,
      rule transfers_eqn, (rule run_intros)+, rule MonHW.equality)
    (simp_all add: serializedLength_MonHW_def shape_MonHW_def msg_simps)

subsection \<open>MonHW6\<close>

record MonHW6 =
  MonHW6_pin_sel :: u32
  MonHW6_pin_bank :: u32
  MonHW6_pin_dir :: u32
  MonHW6_pin_val :: u32
  MonHW6_noise_per_ms :: u16
  MonHW6_agc_cnt :: u16
  MonHW6_a_status :: u8
  MonHW6_a_power :: u8
  MonHW6_flags :: u8
  MonHW6_reserved0 :: u8
  MonHW6_used_mask :: u32
  MonHW6_vp :: "u8 list"
  MonHW6_jam_ind :: u8
  MonHW6_reserved1 :: "u8 list"
  MonHW6_pin_irq :: u32
  MonHW6_pull_h :: u32
  MonHW6_pull_l :: u32

definition shape_MonHW6 :: "MonHW6 \<Rightarrow> bool" where
  "shape_MonHW6 m \<longleftrightarrow> length (MonHW6_vp m) = 25 \<and> length (MonHW6_reserved1 m) = 2"

definition read_MonHW6 :: "u8 list \<Rightarrow> nat \<Rightarrow> u32 \<Rightarrow> MonHW6 \<Rightarrow> MonHW6 option" where
  "read_MonHW6 mem data count m = read_msg
     [next_in MonHW6_pin_sel_update, next_in MonHW6_pin_bank_update,
      next_in MonHW6_pin_dir_update, next_in MonHW6_pin_val_update,
      next_in MonHW6_noise_per_ms_update, next_in MonHW6_agc_cnt_update,
      next_in MonHW6_a_status_update, next_in MonHW6_a_power_update,
      next_in MonHW6_flags_update, next_in MonHW6_reserved0_update,
      next_in MonHW6_used_mask_update, next_in (elem MonHW6_vp_update 0),
      next_in (elem MonHW6_vp_update 1), next_in (elem MonHW6_vp_update 2),
      next_in (elem MonHW6_vp_update 3), next_in (elem MonHW6_vp_update 4),
      next_in (elem MonHW6_vp_update 5), next_in (elem MonHW6_vp_update 6),
      next_in (elem MonHW6_vp_update 7), next_in (elem MonHW6_vp_update 8),
      next_in (elem MonHW6_vp_update 9), next_in (elem MonHW6_vp_update 10),
      next_in (elem MonHW6_vp_update 11), next_in (elem MonHW6_vp_update 12),
      next_in (elem MonHW6_vp_update 13), next_in (elem MonHW6_vp_update 14),
      next_in (elem MonHW6_vp_update 15), next_in (elem MonHW6_vp_update 16),
      next_in (elem MonHW6_vp_update 17), next_in (elem MonHW6_vp_update 18),
      next_in (elem MonHW6_vp_update 19), next_in (elem MonHW6_vp_update 20),
      next_in (elem MonHW6_vp_update 21), next_in (elem MonHW6_vp_update 22),
      next_in (elem MonHW6_vp_update 23), next_in (elem MonHW6_vp_update 24),
      next_in MonHW6_jam_ind_update, next_in (elem MonHW6_reserved1_update 0),
      next_in (elem MonHW6_reserved1_update 1), next_in MonHW6_pin_irq_update,
      next_in MonHW6_pull_h_update, next_in MonHW6_pull_l_update] mem data count m"

definition serializedLength_MonHW6 :: "MonHW6 \<Rightarrow> u32" where
  "serializedLength_MonHW6 m = 68"

definition write_MonHW6 :: "u8 list \<Rightarrow> nat \<Rightarrow> u32 \<Rightarrow> MonHW6 \<Rightarrow> u8 list option" where
  "write_MonHW6 mem data sz m = write_msg
     [next_out (MonHW6_pin_sel m), next_out (MonHW6_pin_bank m), next_out (MonHW6_pin_dir m),
      next_out (MonHW6_pin_val m), next_out (MonHW6_noise_per_ms m),
      next_out (MonHW6_agc_cnt m), next_out (MonHW6_a_status m), next_out (MonHW6_a_power m),
      next_out (MonHW6_flags m), next_out (MonHW6_reserved0 m), next_out (MonHW6_used_mask m),
      next_out (MonHW6_vp m ! 0), next_out (MonHW6_vp m ! 1), next_out (MonHW6_vp m ! 2),
      next_out (MonHW6_vp m ! 3), next_out (MonHW6_vp m ! 4), next_out (MonHW6_vp m ! 5),
      next_out (MonHW6_vp m ! 6), next_out (MonHW6_vp m ! 7), next_out (MonHW6_vp m ! 8),
      next_out (MonHW6_vp m ! 9), next_out (MonHW6_vp m ! 10), next_out (MonHW6_vp m ! 11),
      next_out (MonHW6_vp m ! 12), next_out (MonHW6_vp m ! 13), next_out (MonHW6_vp m ! 14),
      next_out (MonHW6_vp m ! 15), next_out (MonHW6_vp m ! 16), next_out (MonHW6_vp m ! 17),
      next_out (MonHW6_vp m ! 18), next_out (MonHW6_vp m ! 19), next_out (MonHW6_vp m ! 20),
      next_out (MonHW6_vp m ! 21), next_out (MonHW6_vp m ! 22), next_out (MonHW6_vp m ! 23),
      next_out (MonHW6_vp m ! 24), next_out (MonHW6_jam_ind m),
      next_out (MonHW6_reserved1 m ! 0), next_out (MonHW6_reserved1 m ! 1),
      next_out (MonHW6_pin_irq m), next_out (MonHW6_pull_h m), next_out (MonHW6_pull_l m)] mem data sz"

interpretation MonHW6: ubx_message read_MonHW6 write_MonHW6 serializedLength_MonHW6
  "shape_MonHW6" "shape_MonHW6"
  by (unfold_locales, rule msg_codec, rule read_MonHW6_def, rule write_MonHW6_def,
      rule transfers_eqn, (rule run_intros)+, rule MonHW6.equality)
    (simp_all add: serializedLength_MonHW6_def shape_MonHW6_def msg_simps)

subsection \<open>MonVERExtension\<close>

record MonVERExtension =
  MonVERExtension_field :: "u8 list"

definition default_MonVERExtension :: MonVERExtension where
  "default_MonVERExtension = \<lparr>MonVERExtension_field = replicate 30 0\<rparr>"

definition shape_MonVERExtension :: "MonVERExtension \<Rightarrow> bool" where
  "shape_MonVERExtension m \<longleftrightarrow> length (MonVERExtension_field m) = 30"

definition read_MonVERExtension :: "(ubx_stream \<times> MonVERExtension \<Rightarrow> (ubx_stream \<times> MonVERExtension) option) list" where
  "read_MonVERExtension =
     [next_in_arr 30 MonVERExtension_field_update]"

definition serializedLength_MonVERExtension :: "MonVERExtension \<Rightarrow> u32" where
  "serializedLength_MonVERExtension m = 30"

definition write_MonVERExtension :: "MonVERExtension \<Rightarrow> (ubx_stream \<Rightarrow> ubx_stream option) list" where
  "write_MonVERExtension m =
     [next_out_arr (MonVERExtension_field m)]"

lemma transfers_MonVERExtension:
  "shape_MonVERExtension m0 \<Longrightarrow> shape_MonVERExtension m \<Longrightarrow> transfers read_MonVERExtension (write_MonVERExtension m) 30 m0 m"
  unfolding read_MonVERExtension_def write_MonVERExtension_def
  by (rule transfers_eqn, (rule run_intros)+, rule MonVERExtension.equality)
    (simp_all add: shape_MonVERExtension_def msg_simps)

lemma shape_default_MonVERExtension [simp]: "shape_MonVERExtension default_MonVERExtension"
  by (simp add: shape_MonVERExtension_def default_MonVERExtension_def)

subsection \<open>MonVER\<close>

record MonVER =
  MonVER_sw_version :: "u8 list"
  MonVER_hw_version :: "u8 list"
  MonVER_extension :: "MonVERExtension list"

definition shape_MonVER :: "MonVER \<Rightarrow> bool" where
  "shape_MonVER m \<longleftrightarrow> length (MonVER_sw_version m) = 30 \<and> length (MonVER_hw_version m) = 10 \<and>
     list_all shape_MonVERExtension (MonVER_extension m)"

definition read_MonVER :: "u8 list \<Rightarrow> nat \<Rightarrow> u32 \<Rightarrow> MonVER \<Rightarrow> MonVER option" where
  "read_MonVER mem data count m = read_msg
     [next_in_arr 30 MonVER_sw_version_update, next_in_arr 10 MonVER_hw_version_update,
      assign (MonVER_extension_update (\<lambda>_. [])),
      resize_to default_MonVERExtension (\<lambda>_. unat ((count - 40) div 30)) MonVER_extension_update,
      next_in_each read_MonVERExtension MonVER_extension MonVER_extension_update] mem data count m"

definition serializedLength_MonVER :: "MonVER \<Rightarrow> u32" where
  "serializedLength_MonVER m = 40 + (30 * of_nat (length (MonVER_extension m)))"

definition write_MonVER :: "u8 list \<Rightarrow> nat \<Rightarrow> u32 \<Rightarrow> MonVER \<Rightarrow> u8 list option" where
  "write_MonVER mem data sz m = write_msg
     [next_out_arr (MonVER_sw_version m), next_out_arr (MonVER_hw_version m),
      next_out_each write_MonVERExtension (MonVER_extension m)] mem data sz"

definition ok_MonVER :: "MonVER \<Rightarrow> bool" where
  "ok_MonVER m \<longleftrightarrow> shape_MonVER m \<and> length (MonVER_extension m) < 2 ^ 16"

interpretation MonVER: ubx_message read_MonVER write_MonVER serializedLength_MonVER
  "ok_MonVER" "shape_MonVER"
  by (unfold_locales, rule msg_codec, rule read_MonVER_def, rule write_MonVER_def, rule transfers_eqn,
      (rule run_intros transfers_blocks [OF _ transfers_MonVERExtension])+, rule MonVER.equality)
    (auto simp: ok_MonVER_def serializedLength_MonVER_def shape_MonVER_def msg_simps dyn_simps)

section \<open>Serialisers that do not meet the contract\<close>

text \<open>
  \<open>EsfSTATUS\<close> announces a 16-byte header and stores nine bytes of it (the reserved bytes
  after the version are skipped); \<open>EsfMEAS\<close> announces \<open>4 + 8 n + 4 k\<close> bytes for \<open>n\<close>
  measurements and \<open>k\<close> calibration tags and stores \<open>8 + 4 n + 4 k\<close>. A payload of fewer
  than eight bytes makes the number of measurements wrap around.
\<close>

lemma produces_EsfSTATUSSens [emit_intros]: "produces (write_EsfSTATUSSens s) 4"
  unfolding write_EsfSTATUSSens_def
  by (rule produces_eqn, (rule emit_intros)+) simp

lemma EsfSTATUS_short:
  assumes "length (EsfSTATUS_reserved2 m) = 2"
  shows "emits (\<lambda>mem d sz. write_EsfSTATUS mem d sz m) (9 + 4 * length (EsfSTATUS_sens m))"
  by (rule emits_write_msg, rule write_EsfSTATUS_def, rule produces_eqn,
      (rule emit_intros produces_each produces_EsfSTATUSSens)+)
    (simp add: assms)

lemma EsfSTATUS_announces:
  "unat (serializedLength_EsfSTATUS m) = 16 + 4 * unat (EsfSTATUS_num_sens m)"
  by (simp add: serializedLength_EsfSTATUS_def dyn_simps)

lemma EsfMEAS_stored:
  "emits (\<lambda>mem d sz. write_EsfMEAS mem d sz m)
     (8 + 4 * length (EsfMEAS_data m) + 4 * length (EsfMEAS_calib_t_tag m))"
  by (rule emits_write_msg, rule write_EsfMEAS_def, rule produces_eqn, (rule emit_intros)+) simp

lemma EsfMEAS_announces:
  assumes "length (EsfMEAS_data m) < 2 ^ 16" and "length (EsfMEAS_calib_t_tag m) < 2 ^ 16"
  shows "unat (serializedLength_EsfMEAS m)
    = 4 + 8 * length (EsfMEAS_data m) + 4 * length (EsfMEAS_calib_t_tag m)"
proof -
  have "serializedLength_EsfMEAS m
      = of_nat (4 + 8 * length (EsfMEAS_data m) + 4 * length (EsfMEAS_calib_t_tag m))"
    by (simp add: serializedLength_EsfMEAS_def)
  then show ?thesis using assms by (simp only:) (rule unat_of_nat_len, simp)
qed

lemma EsfMEAS_wrapped_size:
  assumes "unat count < 8" and "c = 8 \<or> c = 12"
  shows "2 ^ 29 < unat ((count - c) div (4 :: u32))"
proof -
  have "unat (count - c) = 2 ^ 32 + unat count - unat c"
    using assms by (auto simp: unat_sub_if')
  then have "2 ^ 31 + 4 \<le> unat (count - c)"
    using assms by auto
  then have "(2 ^ 31 + 4) div 4 \<le> unat (count - c) div 4"
    by (rule div_le_mono)
  then show ?thesis by (simp add: unat_div_distrib)
qed

lemma EsfMEAS_short_payload:
  assumes "unat count < 8" and "length mem < 2 ^ 31"
  shows "read_EsfMEAS mem d count m0 = None"
proof (rule ccontr)
  assume "read_EsfMEAS mem d count m0 \<noteq> None"
  then obtain c s ys s' where c: "c = 8 \<or> c = 12" and
    rd: "read_each scalar_in (resize 0 (unat ((count - c) div 4)) (EsfMEAS_data m0)) s
      = Some (ys, s')" "smem s = mem"
    by (auto simp: read_EsfMEAS_def read_msg_def next_in_def read_scalar_def advance_def
      next_in_each_def resize_to_def UbloxStream_def Let_def split: option.splits if_splits)
      (rule that [of 12] that [of 8], simp, assumption, simp)+
  have big: "2 ^ 29 < unat ((count - c) div 4)"
    using assms(1) c by (rule EsfMEAS_wrapped_size)
  then have "resize 0 (unat ((count - c) div 4)) (EsfMEAS_data m0) \<noteq> []"
    by (metis length_resize list.size(3) not_less_zero)
  then show False
    using read_each_scalar_room [OF rd(1)] rd(2) assms(2) big by simp
qed

end
