(* ===== verification/Ubx_Registry.thy ===== *)
theory Ubx_Registry
  imports Ubx_Worker Ubx_Msgs_Cfg Ubx_Msgs_Nav Ubx_Msgs_Rxm Ubx_Msgs_Misc
begin

text \<open>
  \<open>ublox_msgs/src/ublox_msgs.cpp\<close>: the static key initialisers, which register under which
  class and message identifiers a message type can be decoded, and the handlers of the message
  types the receiver node subscribes to.
\<close>

section \<open>The declared keys\<close>

definition declared_messages :: "(string \<times> u8 \<times> u8) list" where
  "declared_messages =
     [(''NavATT'', 1, 5), (''NavCLOCK'', 1, 34), (''NavDGPS'', 1, 49), (''NavDOP'', 1, 4),
      (''NavPOSECEF'', 1, 1), (''NavPOSLLH'', 1, 2), (''NavRELPOSNED'', 1, 60),
      (''NavRELPOSNED9'', 1, 60), (''NavSBAS'', 1, 50), (''NavSOL'', 1, 6), (''NavPVT'', 1, 7),
      (''NavPVT7'', 1, 7), (''NavSAT'', 1, 53), (''NavSTATUS'', 1, 3), (''NavSVIN'', 1, 59),
      (''NavSVINFO'', 1, 48), (''NavTIMEGPS'', 1, 32), (''NavTIMEUTC'', 1, 33),
      (''NavVELECEF'', 1, 17), (''NavVELNED'', 1, 18), (''Ack'', 5, 0), (''Ack'', 5, 1),
      (''Inf'', 4, 0), (''Inf'', 4, 1), (''Inf'', 4, 2), (''Inf'', 4, 3), (''Inf'', 4, 4),
      (''RxmALM'', 2, 48), (''RxmEPH'', 2, 49), (''RxmRAW'', 2, 16), (''RxmRAWX'', 2, 21),
      (''RxmRTCM'', 2, 50), (''RxmSFRB'', 2, 17), (''RxmSFRBX'', 2, 19), (''RxmSVSI'', 2, 32),
      (''CfgANT'', 6, 19), (''CfgCFG'', 6, 9), (''CfgDAT'', 6, 6), (''CfgDGNSS'', 6, 112),
      (''CfgGNSS'', 6, 62), (''CfgHNR'', 6, 92), (''CfgINF'', 6, 2), (''CfgMSG'', 6, 1),
      (''CfgNAV5'', 6, 36), (''CfgNAVX5'', 6, 35), (''CfgNMEA'', 6, 23), (''CfgNMEA6'', 6, 23),
      (''CfgNMEA7'', 6, 23), (''CfgPRT'', 6, 0), (''CfgRATE'', 6, 8), (''CfgRST'', 6, 4),
      (''CfgTMODE3'', 6, 113), (''CfgUSB'', 6, 27), (''UpdSOS'', 9, 20), (''UpdSOSAck'', 9, 20),
      (''MonGNSS'', 10, 40), (''MonHW'', 10, 9), (''MonHW6'', 10, 9), (''MonVER'', 10, 4),
      (''AidALM'', 11, 48), (''AidEPH'', 11, 49), (''AidHUI'', 11, 2), (''EsfINS'', 16, 21),
      (''EsfMEAS'', 16, 2), (''EsfRAW'', 16, 3), (''EsfSTATUS'', 16, 16), (''MgaGAL'', 19, 2),
      (''HnrPVT'', 40, 0), (''TimTM2'', 13, 3)]"

text \<open>The static initialisers run in the order of the file; each adds a key to its type.\<close>

definition keys_of :: "string \<Rightarrow> message_keys" where
  "keys_of name =
     fold (\<lambda>(n, c, i) keys. if n = name then addKey keys c i else keys) declared_messages []"

definition types_for :: "u8 \<Rightarrow> u8 \<Rightarrow> string list" where
  "types_for c i = map fst (filter (\<lambda>(n, k). k = (c, i)) declared_messages)"

lemma keys_of_filter:
  "fold (\<lambda>(n, c, i) keys. if n = name then addKey keys c i else keys) ds ks =
     ks @ map snd (filter (\<lambda>d. fst d = name) ds)"
  by (induction ds arbitrary: ks) (auto simp: addKey_def)

lemma canDecode_keys_of:
  "canDecode (keys_of name) c i \<longleftrightarrow> name \<in> set (types_for c i)"
  by (force simp: keys_of_def keys_of_filter canDecode_def types_for_def)

section \<open>Handlers\<close>

interpretation NavPVT_handler: typed_handler read_NavPVT write_NavPVT serializedLength_NavPVT
  shape_NavPVT shape_NavPVT "keys_of ''NavPVT''"
  by unfold_locales

interpretation NavSVIN_handler: typed_handler read_NavSVIN write_NavSVIN serializedLength_NavSVIN
  shape_NavSVIN shape_NavSVIN "keys_of ''NavSVIN''"
  by unfold_locales

interpretation Ack_handler: typed_handler read_Ack write_Ack serializedLength_Ack
  "\<lambda>_. True" "\<lambda>_. True" "keys_of ''Ack''"
  by unfold_locales

interpretation MonVER_handler: typed_handler read_MonVER write_MonVER serializedLength_MonVER
  ok_MonVER shape_MonVER "keys_of ''MonVER''"
  by unfold_locales

text \<open>One multimap with the handlers of two message types.\<close>

interpretation PVT_Ack: ubx_handler_pair
  "handler_handle (keys_of ''NavPVT'') read_NavPVT"
  "handler_react (keys_of ''NavPVT'') read_NavPVT"
  "\<lambda>h. shape_NavPVT (hmessage h)" NavPVT_handler.decodable
  "handler_handle (keys_of ''Ack'') read_Ack" "handler_react (keys_of ''Ack'') read_Ack"
  "\<lambda>h. True" Ack_handler.decodable
  by unfold_locales

end
