(* ===== verification/Ubx_Properties.thy ===== *)
theory Ubx_Properties
  imports Ubx_Registry
begin

text \<open>
  Properties of the u-blox driver: the wire format of the messages, framing, the decoding of a
  receive stream and the buffers of the connection.
\<close>

section \<open>Framing\<close>

text \<open>C2: for every message type whose serialiser meets the contract, \<open>Writer::write\<close> followed by
  \<open>Reader::read\<close> on the bytes written gives the message back: the frame has the header, the
  length and the checksum the reader asks for, and the reader stops where the writer stopped.\<close>

theorem write_then_read:
  assumes "ubx_message rd wr len ok shape" and "ok m" and "shape m0" and "unat (len m) < 65536"
    and "canDecode keys c i" and "unat (len m) + 8 \<le> unat sz" and "d + unat sz \<le> length mem"
  shows "\<exists>w r. write_message wr len m c i (Writer mem d sz Options) = Some (True, w) \<and>
    wdata w = d + (unat (len m) + 8) \<and>
    reader_read keys rd False (Reader (wmem w) d (of_nat (wdata w - d)) Options) m0
      = Some (True, r, m)"
  using assms by (rule ubx_message.frame_roundtrip)

theorem write_then_read_witness:
  "\<exists>w r. write_message write_Ack serializedLength_Ack \<lparr>Ack_cls_id = 6, Ack_msg_id = 1\<rparr> 5 1
      (Writer (replicate 12 0) 1 11 Options) = Some (True, w) \<and>
    wdata w = 1 + (2 + 8) \<and>
    reader_read [(5, 0), (5, 1)] read_Ack False (Reader (wmem w) 1 (of_nat (wdata w - 1)) Options)
      \<lparr>Ack_cls_id = 0, Ack_msg_id = 0\<rparr> = Some (True, r, \<lparr>Ack_cls_id = 6, Ack_msg_id = 1\<rparr>)"
  using write_then_read [OF Ack.ubx_message_axioms, where m = "\<lparr>Ack_cls_id = 6, Ack_msg_id = 1\<rparr>"
      and ?m0.0 = "\<lparr>Ack_cls_id = 0, Ack_msg_id = 0\<rparr>" and keys = "[(5, 0), (5, 1)]" and c = 5 and i = 1
      and sz = 11 and d = 1 and mem = "replicate 12 0"]
  by (simp add: serializedLength_Ack_def canDecode_def)

text \<open>C17: a frame in which one payload byte was changed on the way is never decoded: the reader
  reports no message and leaves the message variable alone.\<close>

theorem one_byte_corruption_rejected:
  assumes "at_packet r c i (xs @ y # ys) (frame_checksum c i (xs @ x # ys))" and "x \<noteq> y"
  shows "reader_read keys rd False r m0 = Some (False, r\<lparr>rfound := True\<rparr>, m0)"
proof -
  have "frame_checksum c i (xs @ x # ys) \<noteq> frame_checksum c i (xs @ y # ys)"
    using checksum_one_byte [of c i xs x ys y] assms(2) by blast
  then show ?thesis
    using read_at_packet [OF assms(1), of keys rd m0] by simp
qed

theorem one_byte_corruption_rejected_witness:
  "reader_read [(5, 1)] read_Ack False
     (Reader (packet 5 1 [6, 2] (frame_checksum 5 1 [6, 1])) 0 10 Options)
     \<lparr>Ack_cls_id = 0, Ack_msg_id = 0\<rparr>
   = Some (False, Reader (packet 5 1 [6, 2] (frame_checksum 5 1 [6, 1])) 0 10 Options\<lparr>rfound := True\<rparr>,
      \<lparr>Ack_cls_id = 0, Ack_msg_id = 0\<rparr>)"
  by (rule one_byte_corruption_rejected [where x = 1 and y = 2 and xs = "[6]" and ys = "[]" and c = 5 and i = 1, simplified])
    (simp add: at_packet_def Reader_def window_def)

text \<open>The length of the packet at the front of some bytes, zero if there is none.\<close>

definition packet_length :: "u8 list \<Rightarrow> nat" where
  "packet_length bs = (case packet_of bs of None \<Rightarrow> 0 | Some (c, i, p, ck) \<Rightarrow> length p + 8)"

lemma search_unfound:
  assumes "in_block r" and "\<not> rfound r"
  defines "n \<equiv> first_sync Options (rbytes r)"
  shows "\<exists>r'. reader_search r = Some r' \<and> in_block r' \<and> \<not> rfound r' \<and> rmem r' = rmem r \<and> reader_pos r' = reader_pos r + n \<and>
    rbytes r' = drop n (rbytes r) \<and> n \<le> length (rbytes r)"
proof -
  let ?r = "r\<lparr>rdata := rdata r + n, rcount := rcount r - of_nat n\<rparr>"
  have n: "n \<le> unat (rcount r)" using first_sync_le [of Options "rbytes r"] assms by simp
  have "reader_search r = Some ?r" using search_not_found [OF assms(1,2)] by (simp add: n_def)
  moreover have "in_block ?r" "rbytes ?r = drop n (rbytes r)" using rbytes_drop [OF assms(1) n, of ?r] by simp_all
  ultimately show ?thesis using assms n by (intro exI [of _ ?r]) (simp add: reader_pos_def)
qed

text \<open>C18: on every buffer, \<open>search\<close> and \<open>found\<close> return without leaving it and keep the reader's
  invariant. \<open>search\<close> first jumps over the packet the reader stands on, if it has found one, and then to the
  first synchronisation bytes after it; the bytes left are those of the buffer from there on, and its end stays. \<open>found\<close> answers true
  exactly when a complete packet starts at the position.\<close>

theorem reader_stays_in_buffer:
  assumes "reader_ok r"
  shows "(\<exists>r' skip n. reader_search r = Some r' \<and> reader_ok r' \<and> \<not> rfound r' \<and> rmem r' = rmem r \<and>
      skip = (if rfound r then packet_length (rbytes r) else 0) \<and> n = skip + first_sync Options (drop skip (rbytes r)) \<and>
      n \<le> length (rbytes r) \<and> reader_pos r' = reader_pos r + n \<and> rbytes r' = drop n (rbytes r) \<and>
      reader_end r' = reader_end r) \<and>
    (rfound r \<longrightarrow> 8 \<le> packet_length (rbytes r)) \<and>
    (\<exists>f r'. reader_found r = Some (f, r') \<and> reader_ok r' \<and> rmem r' = rmem r \<and> reader_pos r' = reader_pos r \<and>
      reader_end r' = reader_end r \<and> (f \<longleftrightarrow> packet_of (rbytes r) \<noteq> None))"
proof -
  have blk: "in_block r" using assms by (simp add: reader_ok_def)
  have ends: "reader_end q = reader_end r"
    if "in_block q" "reader_pos q = reader_pos r + n" "rbytes q = drop n (rbytes r)" "n \<le> length (rbytes r)" for q n
    using that length_rbytes [OF that(1)] length_rbytes [OF blk] by (simp add: reader_end_def reader_pos_def)
  show ?thesis
  proof (cases "rfound r")
    case False
    let ?n = "first_sync Options (rbytes r)"
    obtain r' where r': "reader_search r = Some r'" "in_block r'" "\<not> rfound r'" "rmem r' = rmem r" "reader_pos r' = reader_pos r + ?n"
      "rbytes r' = drop ?n (rbytes r)" "?n \<le> length (rbytes r)"
      using search_unfound [OF blk False] by blast
    have "reader_ok (r\<lparr>rfound := True\<rparr>)" if "packet_of (rbytes r) = Some x" for x
    proof -
      obtain c i p ck where "x = (c, i, p, ck)" by (cases x)
      then have "at_packet r c i p ck" using at_packet_iff [OF blk] that by simp
      then show ?thesis using blk by (auto simp: reader_ok_def in_block_def at_packet_def)
    qed
    then have "\<exists>f r'. reader_found r = Some (f, r') \<and> reader_ok r' \<and> rmem r' = rmem r \<and> reader_pos r' = reader_pos r \<and>
      reader_end r' = reader_end r \<and> (f \<longleftrightarrow> packet_of (rbytes r) \<noteq> None)"
      using reader_found_packet_of [OF blk False] assms
      by (cases "packet_of (rbytes r)") (auto simp: reader_end_def reader_pos_def)
    then show ?thesis
      using r' ends [OF r'(2,5,6,7)] False by (auto simp: reader_ok_def intro!: exI [of _ r'])
  next
    case True
    then obtain c i p ck where pk: "packet_of (rbytes r) = Some (c, i, p, ck)"
      using assms at_packet_iff [OF blk] by (auto simp: reader_ok_def)
    let ?k = "length p + 8" and ?n = "length p + 8 + first_sync Options (drop (length p + 8) (rbytes r))"
    have k: "packet_length (rbytes r) = ?k" "?k \<le> length (rbytes r)" using pk packet_ofD(4) [OF pk] by (simp_all add: packet_length_def)
    obtain s where s: "reader_next r = Some s" "in_block s" "\<not> rfound s" "rmem s = rmem r"
      "rbytes s = drop ?k (rbytes r)" "rdata s = rdata r + ?k"
      using next_found [OF assms True pk] by blast
    obtain r' where r': "reader_search s = Some r'" "in_block r'" "\<not> rfound r'" "rmem r' = rmem s"
      "reader_pos r' = reader_pos s + first_sync Options (rbytes s)" "rbytes r' = drop (first_sync Options (rbytes s)) (rbytes s)"
      "first_sync Options (rbytes s) \<le> length (rbytes s)"
      using search_unfound [OF s(2,3)] by blast
    have t: "reader_pos r' = reader_pos r + ?n" "rbytes r' = drop ?n (rbytes r)" "?n \<le> length (rbytes r)"
      using r'(5-7) s(5,6) k(2) by (simp_all add: reader_pos_def add.commute)
    have all: "reader_search r = Some r'" "reader_ok r'" "rmem r' = rmem r" "reader_end r' = reader_end r"
      "?k = (if rfound r then packet_length (rbytes r) else 0)"
      using r'(1-4) s(1,3,4) True k(1) ends [OF r'(2) t] by (simp_all add: reader_search_def reader_ok_def)
    have found: "\<exists>f r'. reader_found r = Some (f, r') \<and> reader_ok r' \<and> rmem r' = rmem r \<and> reader_pos r' = reader_pos r \<and>
        reader_end r' = reader_end r \<and> (f \<longleftrightarrow> packet_of (rbytes r) \<noteq> None)"
      using True pk assms by (intro exI [of _ True] exI [of _ r]) (simp add: reader_found_def)
    show ?thesis
    proof (intro conjI found)
      show "rfound r \<longrightarrow> 8 \<le> packet_length (rbytes r)" unfolding k(1) by simp
    qed (rule exI [of _ r'], rule exI [of _ ?k], rule exI [of _ ?n], intro conjI all t r'(3) refl)
  qed
qed

theorem reader_stays_in_buffer_witness:
  "\<exists>r'. reader_search (Reader (packet 5 1 [6, 1] (frame_checksum 5 1 [6, 1]) @ [7, 0xB5]) 0 12 Options\<lparr>rfound := True\<rparr>) = Some r' \<and>
    reader_ok r' \<and> reader_pos r' = 11 \<and> rbytes r' = [0xB5]"
proof -
  let ?bs = "packet 5 1 [6, 1] (frame_checksum 5 1 [6, 1]) @ [7, 0xB5]"
  let ?r = "Reader ?bs 0 12 Options\<lparr>rfound := True\<rparr>"
  have p: "length (packet 5 1 [6, 1] (frame_checksum 5 1 [6, 1])) = 10" by (simp add: length_frame_checksum)
  have b: "rbytes ?r = ?bs" by (simp add: rbytes_def Reader_def window_def p)
  have of: "packet_of ?bs = Some (5, 1, [6, 1], frame_checksum 5 1 [6, 1])"
    by (rule packet_of_packet) (simp_all add: length_frame_checksum)
  have "in_block ?r" by (simp add: in_block_def Reader_def p)
  then have "reader_ok ?r" using at_packet_iff [of ?r] of b by (auto simp: reader_ok_def)
  from reader_stays_in_buffer [OF this] obtain r' skip n where r': "reader_search ?r = Some r'" "reader_ok r'"
    "skip = (if rfound ?r then packet_length ?bs else 0)" "n = skip + first_sync Options (drop skip ?bs)"
    "reader_pos r' = reader_pos ?r + n" "rbytes r' = drop n ?bs"
    unfolding b by blast
  have "skip = 10" using r'(3) of by (simp add: packet_length_def)
  moreover have "drop 10 ?bs = [7, 0xB5]" using p by simp
  moreover have "first_sync Options [7, 0xB5] = 1" by (simp add: DEFAULT_SYNC_A_def)
  ultimately have n: "n = 11" using r'(4) by simp
  have "drop 11 ?bs = drop 1 (drop 10 ?bs)" by simp
  then have "rbytes r' = [0xB5]" using r'(6) \<open>drop 10 ?bs = _\<close> unfolding n by simp
  moreover have "reader_pos r' = 11" using r'(5) by (simp add: n reader_pos_def Reader_def)
  ultimately show ?thesis using r'(1,2) by blast
qed

section \<open>Streams\<close>

text \<open>C5: however the transport cuts the byte stream into chunks, as long as the receive buffer
  takes them, the handlers react to exactly the packets of the whole stream, in order, and the
  buffer keeps the undecoded rest: \<open>AsyncWorker\<close> with \<open>readCallback\<close> implements \<open>scan\<close>.\<close>

theorem receive_refines_scan:
  assumes "ubx_handler hdl react hinv accepts" and "entries_sorted (callbacks cs)"
    and "\<forall>(k, n, h) \<in> set (callbacks cs). hinv h" and "n < 2 ^ 32" and "chunks_fit n [] css"
    and "list_all accepts (packets (concat css))"
  shows "\<exists>w. receive_chunks raw (readCallback hdl) css (AsyncWorker n cs) = Some w \<and>
    buffered w = remainder (concat css) \<and>
    cb_state w = cs\<lparr>callbacks := fold (dispatch react) (packets (concat css)) (callbacks cs)\<rparr>"
proof -
  let ?w = "AsyncWorker n cs"
  have "idle n ?w" and rest: "buffered ?w = []" and st: "cb_state ?w = cs"
    by (simp_all add: idle_def AsyncWorker_def buffered_def)
  moreover have "ubx_handler.wf_entries hinv (callbacks (cb_state ?w))"
    using assms(2,3) by (simp add: ubx_handler.wf_entries_def [OF assms(1)] st)
  moreover have "remainder (buffered ?w) = buffered ?w"
    by (simp add: rest scan_Nil)
  ultimately show ?thesis
    using ubx_handler.receive_chunks_scan [OF assms(1), of n ?w css raw] assms(4-6) by auto
qed

theorem receive_refines_scan_witness:
  "\<exists>w. receive_chunks True (readCallback (handler_handle (keys_of ''Ack'') read_Ack))
      [[7, 0xB5], [0x62]] (AsyncWorker 8 \<lparr>callbacks = [], next_node = 0\<rparr>) = Some w \<and>
    buffered w = remainder (concat [[7, 0xB5], [0x62]]) \<and>
    cb_state w = \<lparr>callbacks = [], next_node = 0\<rparr>\<lparr>callbacks :=
      fold (dispatch (handler_react (keys_of ''Ack'') read_Ack)) (packets (concat [[7, 0xB5], [0x62]]))
        (callbacks \<lparr>callbacks = [], next_node = 0\<rparr>)\<rparr>"
proof (rule receive_refines_scan)
  have s: "packets [7, 0xB5, 0x62] = []" "remainder [7, 0xB5] = [0xB5]"
    by (simp_all add: scan_step packet_of_def DEFAULT_SYNC_A_def DEFAULT_SYNC_B_def)
  show "ubx_handler (handler_handle (keys_of ''Ack'') read_Ack) (handler_react (keys_of ''Ack'') read_Ack)
      (\<lambda>h. True) Ack_handler.decodable"
    by (rule Ack_handler.typed.ubx_handler_axioms)
  show "chunks_fit 8 [] [[7, 0xB5], [0x62]]"
    using s by simp
  show "list_all Ack_handler.decodable (packets (concat [[7, 0xB5], [0x62]]))"
    using s by simp
qed (simp_all add: entries_sorted_def)

text \<open>C6: in every interleaving of sends, posted tasks and read completions, the receive buffer
  keeps its size and fill level, at most one read is posted or outstanding, an outstanding read
  has exactly the free part of the buffer, which is not empty, and unsent bytes have a posted
  \<open>doWrite\<close>.\<close>

theorem worker_invariant:
  assumes "worker_run raw (Some (readCallback (handler_handle keys rd))) (AsyncWorker n cs) acc w"
    and "n < 2 ^ 32"
  shows "worker_inv n w"
  using typed_cb.run_inv [OF assms(1) worker_inv_init assms(2)] .

theorem worker_invariant_witness:
  "worker_inv 4 (doRead ((AsyncWorker 4 \<lparr>callbacks = [], next_node = 0\<rparr>
     :: Ack handler callbacks worker)\<lparr>posted := []\<rparr>))"
proof (rule worker_invariant)
  let ?w = "AsyncWorker 4 \<lparr>callbacks = [], next_node = 0\<rparr> :: Ack handler callbacks worker"
  have "worker_step True (Some (readCallback (handler_handle [] read_Ack))) ?w []
      (doRead (?w\<lparr>posted := []\<rparr>))"
    by (rule step_read) (simp add: AsyncWorker_def)
  then show "worker_run True (Some (readCallback (handler_handle [] read_Ack))) ?w ([] @ [])
      (doRead (?w\<lparr>posted := []\<rparr>))"
    by (rule run_step [OF run_refl])
qed simp

text \<open>Bytes leave in the order in which \<open>send\<close> accepted them and none is lost or doubled:
  what was written plus what waits in the buffer is what was accepted.\<close>

theorem send_order:
  assumes "worker_run raw rc (AsyncWorker n cs) acc w"
  shows "stream_out w @ out_buf w = acc"
  using run_log [OF assms] by (simp add: AsyncWorker_def)

theorem send_order_witness:
  "stream_out (snd (worker_send [1, 2] (AsyncWorker 4 ()))) @ out_buf (snd (worker_send [1, 2] (AsyncWorker 4 ())))
     = [1, 2]"
proof (rule send_order)
  have "worker_send [1, 2] (AsyncWorker 4 ()) = (True, snd (worker_send [1, 2] (AsyncWorker 4 ())))"
    by (simp add: worker_send_def AsyncWorker_def)
  from step_send [OF this, of False None]
  show "worker_run False None (AsyncWorker 4 ()) [1, 2] (snd (worker_send [1, 2] (AsyncWorker 4 ())))"
    using run_step [OF run_refl] by fastforce
qed

section \<open>Messages\<close>

text \<open>C27: every NAV and HNR message type reads back what it wrote, from exactly the announced number of bytes.\<close>

theorem nav_messages_roundtrip:
  "ubx_message read_HnrPVT write_HnrPVT serializedLength_HnrPVT shape_HnrPVT shape_HnrPVT \<and>
   ubx_message read_NavATT write_NavATT serializedLength_NavATT shape_NavATT shape_NavATT \<and>
   ubx_message read_NavCLOCK write_NavCLOCK serializedLength_NavCLOCK (\<lambda>_. True) (\<lambda>_. True) \<and>
   ubx_message read_NavDGPS write_NavDGPS serializedLength_NavDGPS ok_NavDGPS (\<lambda>_. True) \<and>
   ubx_message read_NavPOSECEF write_NavPOSECEF serializedLength_NavPOSECEF (\<lambda>_. True) (\<lambda>_. True) \<and>
   ubx_message read_NavPOSLLH write_NavPOSLLH serializedLength_NavPOSLLH (\<lambda>_. True) (\<lambda>_. True) \<and>
   ubx_message read_NavPVT write_NavPVT serializedLength_NavPVT shape_NavPVT shape_NavPVT \<and>
   ubx_message read_NavPVT7 write_NavPVT7 serializedLength_NavPVT7 shape_NavPVT7 shape_NavPVT7 \<and>
   ubx_message read_NavRELPOSNED write_NavRELPOSNED serializedLength_NavRELPOSNED (\<lambda>_. True) (\<lambda>_. True) \<and>
   ubx_message read_NavRELPOSNED9 write_NavRELPOSNED9 serializedLength_NavRELPOSNED9 shape_NavRELPOSNED9 shape_NavRELPOSNED9 \<and>
   ubx_message read_NavSAT write_NavSAT serializedLength_NavSAT ok_NavSAT shape_NavSAT \<and>
   ubx_message read_NavSBAS write_NavSBAS serializedLength_NavSBAS ok_NavSBAS shape_NavSBAS \<and>
   ubx_message read_NavSOL write_NavSOL serializedLength_NavSOL (\<lambda>_. True) (\<lambda>_. True) \<and>
   ubx_message read_NavSTATUS write_NavSTATUS serializedLength_NavSTATUS (\<lambda>_. True) (\<lambda>_. True) \<and>
   ubx_message read_NavSVIN write_NavSVIN serializedLength_NavSVIN shape_NavSVIN shape_NavSVIN \<and>
   ubx_message read_NavSVINFO write_NavSVINFO serializedLength_NavSVINFO ok_NavSVINFO (\<lambda>_. True) \<and>
   ubx_message read_NavVELNED write_NavVELNED serializedLength_NavVELNED (\<lambda>_. True) (\<lambda>_. True)"
  by (intro conjI HnrPVT.ubx_message_axioms
      NavATT.ubx_message_axioms
      NavCLOCK.ubx_message_axioms
      NavDGPS.ubx_message_axioms
      NavPOSECEF.ubx_message_axioms
      NavPOSLLH.ubx_message_axioms
      NavPVT.ubx_message_axioms
      NavPVT7.ubx_message_axioms
      NavRELPOSNED.ubx_message_axioms
      NavRELPOSNED9.ubx_message_axioms
      NavSAT.ubx_message_axioms
      NavSBAS.ubx_message_axioms
      NavSOL.ubx_message_axioms
      NavSTATUS.ubx_message_axioms
      NavSVIN.ubx_message_axioms
      NavSVINFO.ubx_message_axioms
      NavVELNED.ubx_message_axioms)

text \<open>C28: every CFG message type (other than \<open>CfgDAT\<close>, whose get and set layouts differ) reads back what
  it wrote, from exactly the announced number of bytes.\<close>

theorem cfg_messages_roundtrip:
  "ubx_message read_CfgCFG write_CfgCFG serializedLength_CfgCFG (\<lambda>_. True) (\<lambda>_. True) \<and>
   ubx_message read_CfgDGNSS write_CfgDGNSS serializedLength_CfgDGNSS shape_CfgDGNSS shape_CfgDGNSS \<and>
   ubx_message read_CfgGNSS write_CfgGNSS serializedLength_CfgGNSS ok_CfgGNSS (\<lambda>_. True) \<and>
   ubx_message read_CfgINF write_CfgINF serializedLength_CfgINF ok_CfgINF shape_CfgINF \<and>
   ubx_message read_CfgMSG write_CfgMSG serializedLength_CfgMSG (\<lambda>_. True) (\<lambda>_. True) \<and>
   ubx_message read_CfgNAV5 write_CfgNAV5 serializedLength_CfgNAV5 shape_CfgNAV5 shape_CfgNAV5 \<and>
   ubx_message read_CfgNAVX5 write_CfgNAVX5 serializedLength_CfgNAVX5 shape_CfgNAVX5 shape_CfgNAVX5 \<and>
   ubx_message read_CfgNMEA write_CfgNMEA serializedLength_CfgNMEA shape_CfgNMEA shape_CfgNMEA \<and>
   ubx_message read_CfgNMEA6 write_CfgNMEA6 serializedLength_CfgNMEA6 (\<lambda>_. True) (\<lambda>_. True) \<and>
   ubx_message read_CfgNMEA7 write_CfgNMEA7 serializedLength_CfgNMEA7 (\<lambda>_. True) (\<lambda>_. True) \<and>
   ubx_message read_CfgPRT write_CfgPRT serializedLength_CfgPRT (\<lambda>_. True) (\<lambda>_. True) \<and>
   ubx_message read_CfgRATE write_CfgRATE serializedLength_CfgRATE (\<lambda>_. True) (\<lambda>_. True) \<and>
   ubx_message read_CfgRST write_CfgRST serializedLength_CfgRST (\<lambda>_. True) (\<lambda>_. True) \<and>
   ubx_message read_CfgSBAS write_CfgSBAS serializedLength_CfgSBAS (\<lambda>_. True) (\<lambda>_. True) \<and>
   ubx_message read_CfgTMODE3 write_CfgTMODE3 serializedLength_CfgTMODE3 shape_CfgTMODE3 shape_CfgTMODE3"
  by (intro conjI CfgCFG.ubx_message_axioms
      CfgDGNSS.ubx_message_axioms
      CfgGNSS.ubx_message_axioms
      CfgINF.ubx_message_axioms
      CfgMSG.ubx_message_axioms
      CfgNAV5.ubx_message_axioms
      CfgNAVX5.ubx_message_axioms
      CfgNMEA.ubx_message_axioms
      CfgNMEA6.ubx_message_axioms
      CfgNMEA7.ubx_message_axioms
      CfgPRT.ubx_message_axioms
      CfgRATE.ubx_message_axioms
      CfgRST.ubx_message_axioms
      CfgSBAS.ubx_message_axioms
      CfgTMODE3.ubx_message_axioms)

text \<open>The RXM, TIM and UPD message types without almanac or ephemeris words read back what they
  wrote, from exactly the announced number of bytes.\<close>

theorem rxm_messages_roundtrip:
  "ubx_message read_RxmRAW write_RxmRAW serializedLength_RxmRAW ok_RxmRAW (\<lambda>_. True) \<and>
   ubx_message read_RxmRAWX write_RxmRAWX serializedLength_RxmRAWX ok_RxmRAWX shape_RxmRAWX \<and>
   ubx_message read_RxmRTCM write_RxmRTCM serializedLength_RxmRTCM shape_RxmRTCM shape_RxmRTCM \<and>
   ubx_message read_RxmSFRB write_RxmSFRB serializedLength_RxmSFRB shape_RxmSFRB shape_RxmSFRB \<and>
   ubx_message read_RxmSFRBX write_RxmSFRBX serializedLength_RxmSFRBX ok_RxmSFRBX (\<lambda>_. True) \<and>
   ubx_message read_RxmSVSI write_RxmSVSI serializedLength_RxmSVSI ok_RxmSVSI (\<lambda>_. True) \<and>
   ubx_message read_TimTM2 write_TimTM2 serializedLength_TimTM2 (\<lambda>_. True) (\<lambda>_. True) \<and>
   ubx_message read_UpdSOS write_UpdSOS serializedLength_UpdSOS shape_UpdSOS shape_UpdSOS \<and>
   ubx_message read_UpdSOSAck write_UpdSOSAck serializedLength_UpdSOSAck shape_UpdSOSAck shape_UpdSOSAck"
  by (intro conjI RxmRAW.ubx_message_axioms
      RxmRAWX.ubx_message_axioms
      RxmRTCM.ubx_message_axioms
      RxmSFRB.ubx_message_axioms
      RxmSFRBX.ubx_message_axioms
      RxmSVSI.ubx_message_axioms
      TimTM2.ubx_message_axioms
      UpdSOS.ubx_message_axioms
      UpdSOSAck.ubx_message_axioms)

text \<open>The ACK, ESF (other than MEAS and STATUS), INF and MON message types read back what they wrote,
  from exactly the announced number of bytes.\<close>

theorem mon_messages_roundtrip:
  "ubx_message read_Ack write_Ack serializedLength_Ack (\<lambda>_. True) (\<lambda>_. True) \<and>
   ubx_message read_EsfINS write_EsfINS serializedLength_EsfINS shape_EsfINS shape_EsfINS \<and>
   ubx_message read_EsfRAW write_EsfRAW serializedLength_EsfRAW ok_EsfRAW shape_EsfRAW \<and>
   ubx_message read_Inf write_Inf serializedLength_Inf ok_Inf (\<lambda>_. True) \<and>
   ubx_message read_MonHW write_MonHW serializedLength_MonHW shape_MonHW shape_MonHW \<and>
   ubx_message read_MonHW6 write_MonHW6 serializedLength_MonHW6 shape_MonHW6 shape_MonHW6 \<and>
   ubx_message read_MonVER write_MonVER serializedLength_MonVER ok_MonVER shape_MonVER"
  by (intro conjI Ack.ubx_message_axioms
      EsfINS.ubx_message_axioms
      EsfRAW.ubx_message_axioms
      Inf.ubx_message_axioms
      MonHW.ubx_message_axioms
      MonHW6.ubx_message_axioms
      MonVER.ubx_message_axioms)

section \<open>Where the code does not keep the contract\<close>

definition aid_alm :: AidALM where
  "aid_alm = \<lparr>AidALM_svid = 1, AidALM_week = 2, AidALM_dwrd = [1, 2, 3, 4, 5, 6, 7, 8]\<rparr>"

definition rxm_alm :: RxmALM where
  "rxm_alm = \<lparr>RxmALM_svid = 1, RxmALM_week = 2, RxmALM_dwrd = [1, 2, 3, 4, 5, 6, 7, 8]\<rparr>"

definition aid_hui :: AidHUI where
  "aid_hui =
     \<lparr>AidHUI_health = 0, AidHUI_utc_a0 = 0, AidHUI_utc_a1 = 0, AidHUI_utc_tow = 0,
      AidHUI_utc_wnt = 0, AidHUI_utc_ls = 0, AidHUI_utc_wnf = 0, AidHUI_utc_dn = 0,
      AidHUI_utc_lsf = 0, AidHUI_utc_spare = 0, AidHUI_klob_a0 = 0, AidHUI_klob_a1 = 0,
      AidHUI_klob_a2 = 0, AidHUI_klob_a3 = 0, AidHUI_klob_b0 = 0, AidHUI_klob_b1 = 0,
      AidHUI_klob_b2 = 0, AidHUI_klob_b3 = 0, AidHUI_flags = 0\<rparr>"

text \<open>An almanac or ephemeris message that is written with its eight words per list and read
  back comes with sixteen, eight zeros before the eight words: the readers resize the vectors and
  then append.\<close>

theorem almanac_words_doubled:
  assumes "length (AidALM_dwrd a) = 8" and "length (RxmALM_dwrd b) = 8" and "d + 40 \<le> length mem"
  shows "(\<exists>mem'. write_AidALM mem d sz a = Some mem' \<and>
      read_AidALM mem' d (serializedLength_AidALM a) a0
        = Some (a\<lparr>AidALM_dwrd := replicate 8 0 @ AidALM_dwrd a\<rparr>)) \<and>
    (\<exists>mem'. write_RxmALM mem d sz b = Some mem' \<and>
      read_RxmALM mem' d (serializedLength_RxmALM b) b0
        = Some (b\<lparr>RxmALM_dwrd := replicate 8 0 @ RxmALM_dwrd b\<rparr>))"
  using AidALM_words_doubled [OF assms(1,3), of sz a0] RxmALM_words_doubled [OF assms(2,3), of sz b0]
  by blast

theorem almanac_words_doubled_witness:
  "(\<exists>mem'. write_AidALM (replicate 40 0) 0 40 aid_alm
        = Some mem' \<and>
      read_AidALM mem' 0
        (serializedLength_AidALM aid_alm) aid_alm
      = Some (aid_alm
          \<lparr>AidALM_dwrd := replicate 8 0 @ AidALM_dwrd aid_alm\<rparr>)) \<and>
    (\<exists>mem'. write_RxmALM (replicate 40 0) 0 40 rxm_alm
        = Some mem' \<and>
      read_RxmALM mem' 0
        (serializedLength_RxmALM rxm_alm) rxm_alm
      = Some (rxm_alm
          \<lparr>RxmALM_dwrd := replicate 8 0 @ RxmALM_dwrd rxm_alm\<rparr>))"
  by (rule almanac_words_doubled) (simp_all add: aid_alm_def rxm_alm_def)

definition esf_meas_of :: "u32 list \<Rightarrow> EsfMEAS" where
  "esf_meas_of ds = \<lparr>EsfMEAS_time_tag = 0, EsfMEAS_flags = 0, EsfMEAS_id = 0, EsfMEAS_data = ds,
     EsfMEAS_calib_t_tag = []\<rparr>"

definition esf_status_idle :: EsfSTATUS where
  "esf_status_idle = \<lparr>EsfSTATUS_i_tow = 0, EsfSTATUS_version = 1, EsfSTATUS_reserved1 = replicate 7 0,
     EsfSTATUS_fusion_mode = 0, EsfSTATUS_reserved2 = [0, 0], EsfSTATUS_num_sens = 0,
     EsfSTATUS_sens = []\<rparr>"

text \<open>C12: what \<open>serializedLength\<close> announces and what \<open>write\<close> stores differ for \<open>EsfMEAS\<close>
  (unless it has exactly one measurement), \<open>EsfSTATUS\<close> and \<open>AidHUI\<close>.\<close>

theorem announced_length_wrong:
  assumes "length (EsfMEAS_data m) < 2 ^ 16" and "length (EsfMEAS_calib_t_tag m) < 2 ^ 16"
    and "length (EsfSTATUS_reserved2 s) = 2" and "length (EsfSTATUS_sens s) = unat (EsfSTATUS_num_sens s)"
  shows "(emits (\<lambda>mem d sz. write_EsfMEAS mem d sz m) (unat (serializedLength_EsfMEAS m)) \<longleftrightarrow>
      length (EsfMEAS_data m) = 1) \<and>
    \<not> emits (\<lambda>mem d sz. write_EsfSTATUS mem d sz s) (unat (serializedLength_EsfSTATUS s)) \<and>
    \<not> emits (\<lambda>mem d sz. write_AidHUI mem d sz h) (unat (serializedLength_AidHUI h))"
proof (intro conjI)
  let ?n = "length (EsfMEAS_data m)" and ?k = "length (EsfMEAS_calib_t_tag m)"
  have ann: "unat (serializedLength_EsfMEAS m) = 4 + 8 * ?n + 4 * ?k"
    using assms(1,2) by (rule EsfMEAS_announces)
  show "emits (\<lambda>mem d sz. write_EsfMEAS mem d sz m) (unat (serializedLength_EsfMEAS m)) \<longleftrightarrow> ?n = 1"
  proof
    assume "emits (\<lambda>mem d sz. write_EsfMEAS mem d sz m) (unat (serializedLength_EsfMEAS m))"
    then show "?n = 1"
      using emits_unique [OF EsfMEAS_stored] unfolding ann by fastforce
  next
    assume "?n = 1"
    then show "emits (\<lambda>mem d sz. write_EsfMEAS mem d sz m) (unat (serializedLength_EsfMEAS m))"
      using EsfMEAS_stored [of m] unfolding ann by simp
  qed
  show "\<not> emits (\<lambda>mem d sz. write_EsfSTATUS mem d sz s) (unat (serializedLength_EsfSTATUS s))"
    using emits_unique [OF EsfSTATUS_short [OF assms(3)]] assms(4)
    unfolding EsfSTATUS_announces by fastforce
  show "\<not> emits (\<lambda>mem d sz. write_AidHUI mem d sz h) (unat (serializedLength_AidHUI h))"
    using emits_unique [OF AidHUI_short] unfolding AidHUI_announces by fastforce
qed

theorem announced_length_wrong_witness:
  "(emits (\<lambda>mem d sz. write_EsfMEAS mem d sz (esf_meas_of [5, 6]))
      (unat (serializedLength_EsfMEAS (esf_meas_of [5, 6]))) \<longleftrightarrow>
      length (EsfMEAS_data (esf_meas_of [5, 6])) = 1) \<and>
    \<not> emits (\<lambda>mem d sz. write_EsfSTATUS mem d sz esf_status_idle)
      (unat (serializedLength_EsfSTATUS esf_status_idle)) \<and>
    \<not> emits (\<lambda>mem d sz. write_AidHUI mem d sz aid_hui) (unat (serializedLength_AidHUI aid_hui))"
  by (rule announced_length_wrong) (simp_all add: esf_meas_of_def esf_status_idle_def)

text \<open>A measurement message with a payload of fewer than eight bytes makes the number of
  measurements wrap around to about a billion: its reader leaves every buffer below two
  gigabytes.\<close>

theorem short_measurement_overruns:
  assumes "unat count < 8" and "length mem < 2 ^ 31"
  shows "read_EsfMEAS mem d count m0 = None"
  using assms by (rule EsfMEAS_short_payload)

theorem short_measurement_overruns_witness:
  "read_EsfMEAS (replicate 100 0) 6 4 (esf_meas_of []) = None"
  by (rule short_measurement_overruns) simp_all

definition nav_pvt_fix :: "u8 \<Rightarrow> NavPVT" where
  "nav_pvt_fix t = \<lparr>NavPVT_i_tow = 0, NavPVT_year = 0, NavPVT_month = 0, NavPVT_day = 0, NavPVT_hour = 0,
     NavPVT_min = 0, NavPVT_sec = 0, NavPVT_valid = 0, NavPVT_t_acc = 0, NavPVT_nano = 0,
     NavPVT_fix_type = t, NavPVT_flags = 0, NavPVT_flags2 = 0, NavPVT_num_sv = 0,
     NavPVT_lon = 0, NavPVT_lat = 0, NavPVT_height = 0, NavPVT_h_msl = 0, NavPVT_h_acc = 0,
     NavPVT_v_acc = 0, NavPVT_vel_n = 0, NavPVT_vel_e = 0, NavPVT_vel_d = 0, NavPVT_g_speed = 0,
     NavPVT_heading = 0, NavPVT_s_acc = 0, NavPVT_head_acc = 0, NavPVT_p_dop = 0,
     NavPVT_reserved1 = replicate 6 0, NavPVT_head_veh = 0, NavPVT_mag_dec = 0,
     NavPVT_mag_acc = 0\<rparr>"

text \<open>The fixed-size readers never look at the payload length: a frame with an 84-byte NAV-PVT
  payload (the layout of \<open>NavPVT7\<close>, registered under the same identifiers) is decoded as
  \<open>NavPVT\<close> from 92 bytes, eight of them from behind the payload.\<close>

theorem fixed_reader_ignores_length:
  assumes "shape_NavPVT m" and "shape_NavPVT m0"
  shows "\<exists>bs. length bs = 92 \<and>
    (\<forall>mem d count. d + 92 \<le> length mem \<longrightarrow> window mem d 92 = bs \<longrightarrow>
       read_NavPVT mem d count m0 = Some m) \<and>
    keys_of ''NavPVT'' = keys_of ''NavPVT7''"
proof -
  obtain bs where bs: "length bs = 92"
    and rd: "\<And>mem d m0. shape_NavPVT m0 \<Longrightarrow> d + 92 \<le> length mem \<Longrightarrow> window mem d 92 = bs \<Longrightarrow>
        read_NavPVT mem d 92 m0 = Some m"
    using NavPVT.codec [OF assms(1)] by (auto simp: serializedLength_NavPVT_def)
  have any: "read_NavPVT mem d count m0 = read_NavPVT mem d 92 m0" for mem d count
    unfolding read_NavPVT_def
    by (rule read_msg_ignores_count) (simp add: ignores_end_next_in ignores_end_next_in_arr)
  have "keys_of ''NavPVT'' = keys_of ''NavPVT7''"
    by (simp add: keys_of_def declared_messages_def addKey_def)
  moreover have "read_NavPVT mem d count m0 = Some m"
    if "d + 92 \<le> length mem" "window mem d 92 = bs" for mem d count
    unfolding any [of mem d count] using assms(2) that by (rule rd)
  ultimately show ?thesis using bs by blast
qed

theorem fixed_reader_ignores_length_witness:
  "\<exists>bs. length bs = 92 \<and>
    (\<forall>mem d count. d + 92 \<le> length mem \<longrightarrow> window mem d 92 = bs \<longrightarrow>
       read_NavPVT mem d count (nav_pvt_fix 0) = Some (nav_pvt_fix 3)) \<and>
    keys_of ''NavPVT'' = keys_of ''NavPVT7''"
  by (rule fixed_reader_ignores_length) (simp_all add: nav_pvt_fix_def shape_NavPVT_def)

text \<open>A frame with a wrong checksum wakes the thread that waits in
  \<open>CallbackHandlers::read\<close>, which then reports success with the message it started with
  (here for the acknowledge messages, whatever other handlers are registered).\<close>

theorem read_succeeds_on_corrupt_frame:
  assumes "entries_sorted (callbacks cs)" and "nodes_fresh cs" and "rfound r"
    and "at_packet r c i p ck" and "ck \<noteq> frame_checksum c i p"
  shows "\<exists>n cs1 cs2 cs3. callbacks_read_begin (c, i) m0 cs = (n, cs1) \<and>
    callbacks_handle (handler_handle (keys_of ''Ack'') read_Ack) cs1 r = Some (cs2, r) \<and>
    callbacks_read_end n True m' cs2 = Some (True, m0, cs3)"
  using Ack_handler.read_sees_packet [OF assms(1) _ assms(2) _ assms(3,4), of m0 m']
    Ack_handler.read_returns_default [OF assms(5)] by fastforce

theorem read_succeeds_on_corrupt_frame_witness:
  "\<exists>n cs1 cs2 cs3. callbacks_read_begin (5, 1) (\<lparr>Ack_cls_id = 0, Ack_msg_id = 0\<rparr>)
      \<lparr>callbacks = [], next_node = 0\<rparr> = (n, cs1) \<and>
    callbacks_handle (handler_handle (keys_of ''Ack'') read_Ack) cs1
      (Reader (packet 5 1 [6, 2] [0, 0]) 0 10 Options\<lparr>rfound := True\<rparr>)
      = Some (cs2, Reader (packet 5 1 [6, 2] [0, 0]) 0 10 Options\<lparr>rfound := True\<rparr>) \<and>
    callbacks_read_end n True (\<lparr>Ack_cls_id = 9, Ack_msg_id = 9\<rparr>) cs2
      = Some (True, \<lparr>Ack_cls_id = 0, Ack_msg_id = 0\<rparr>, cs3)"
  by (rule read_succeeds_on_corrupt_frame [where p = "[6, 2]" and ck = "[0, 0]"])
    (simp_all add: entries_sorted_def nodes_fresh_def at_packet_def Reader_def window_def
      frame_checksum_def frame_body_def)

section \<open>Identifiers\<close>

text \<open>The identifiers of a packet determine its message type, except for the five pairs of
  identifiers under which layouts of different protocol versions are registered.\<close>

theorem ambiguous_identifiers:
  "filter (\<lambda>k. length (types_for (fst k) (snd k)) > 1) (remdups (map snd declared_messages)) =
     [(1, 60), (1, 7), (6, 23), (9, 20), (10, 9)] \<and>
   types_for 1 7 = [''NavPVT'', ''NavPVT7''] \<and> types_for 10 9 = [''MonHW'', ''MonHW6'']"
  unfolding types_for_def declared_messages_def by code_simp

end
