(* ===== verification/Bt_Control.thy ===== *)
theory Bt_Control
  imports Prelude
begin

text \<open>
  The control nodes of \<open>nav2_behavior_tree/plugins/control\<close>: \<open>PipelineSequence\<close>,
  \<open>RecoveryNode\<close> and \<open>RoundRobin\<close>. The library BehaviorTree.CPP is a parameter: \<open>tk\<close> is
  \<open>executeTick()\<close> of a child and \<open>ht\<close> what \<open>haltChild\<close> does to a child; a child is any
  state. An exception is \<open>Inl\<close>.
\<close>

datatype node_status = IDLE | RUNNING | SUCCESS | FAILURE

datatype bt_error = RuntimeError | LogicError | BehaviorTreeException

type_synonym 'c ticker = "'c \<Rightarrow> bt_error + node_status \<times> 'c"

section \<open>PipelineSequence\<close>

record 'c pipeline =
  last_child_ticked :: nat
  pipeline_children :: "'c list"

function pipeline_loop ::
  "'c ticker \<Rightarrow> ('c \<Rightarrow> 'c) \<Rightarrow> nat \<Rightarrow> 'c pipeline \<Rightarrow> bt_error + node_status \<times> 'c pipeline" where
  "pipeline_loop tk ht i n =
     (if i < length (pipeline_children n) then
        (case tk (pipeline_children n ! i) of
           Inl e \<Rightarrow> Inl e
         | Inr (status, c) \<Rightarrow>
             (let n = n\<lparr>pipeline_children := (pipeline_children n)[i := c]\<rparr>
              in case status of
                   FAILURE \<Rightarrow>
                     Inr (status, n\<lparr>pipeline_children := map ht (pipeline_children n),
                       last_child_ticked := 0\<rparr>)
                 | SUCCESS \<Rightarrow> pipeline_loop tk ht (i + 1) n
                 | RUNNING \<Rightarrow>
                     if last_child_ticked n \<le> i then Inr (status, n\<lparr>last_child_ticked := i\<rparr>)
                     else pipeline_loop tk ht (i + 1) n
                 | IDLE \<Rightarrow> Inl RuntimeError))
      else Inr (SUCCESS, n\<lparr>pipeline_children := map ht (pipeline_children n),
             last_child_ticked := 0\<rparr>))"
  by auto

termination
  by (relation "measure (\<lambda>(tk, ht, i, n). length (pipeline_children n) - i)") auto

declare pipeline_loop.simps [simp del]

definition pipeline_tick ::
  "'c ticker \<Rightarrow> ('c \<Rightarrow> 'c) \<Rightarrow> 'c pipeline \<Rightarrow> bt_error + node_status \<times> 'c pipeline" where
  "pipeline_tick tk ht n = pipeline_loop tk ht 0 n"

definition pipeline_halt :: "('c \<Rightarrow> 'c) \<Rightarrow> 'c pipeline \<Rightarrow> 'c pipeline" where
  "pipeline_halt ht n =
     n\<lparr>pipeline_children := map ht (pipeline_children n), last_child_ticked := 0\<rparr>"

section \<open>RecoveryNode\<close>

text \<open>The counters are \<open>unsigned int\<close>; the loop of a tick is a partial function.\<close>

record 'c recovery =
  current_child_idx :: u32
  number_of_retries :: u32
  retry_count :: u32
  recovery_children :: "'c list"

definition recovery_halt :: "('c \<Rightarrow> 'c) \<Rightarrow> 'c recovery \<Rightarrow> 'c recovery" where
  "recovery_halt ht n =
     n\<lparr>recovery_children := map ht (recovery_children n), retry_count := 0, current_child_idx := 0\<rparr>"

definition halt_nth :: "('c \<Rightarrow> 'c) \<Rightarrow> nat \<Rightarrow> 'c recovery \<Rightarrow> 'c recovery" where
  "halt_nth ht i n =
     n\<lparr>recovery_children := (recovery_children n)[i := ht (recovery_children n ! i)]\<rparr>"

partial_function (option) recovery_loop ::
  "'c ticker \<Rightarrow> ('c \<Rightarrow> 'c) \<Rightarrow> 'c recovery \<Rightarrow> (bt_error + node_status \<times> 'c recovery) option" where
  "recovery_loop tk ht n =
     (if current_child_idx n < 2 \<and> retry_count n \<le> number_of_retries n then
        (let k = unat (current_child_idx n)
         in case tk (recovery_children n ! k) of
              Inl e \<Rightarrow> Some (Inl e)
            | Inr (child_status, c) \<Rightarrow>
                (let n = n\<lparr>recovery_children := (recovery_children n)[k := c]\<rparr>
                 in if current_child_idx n = 0 then
                      (case child_status of
                         SUCCESS \<Rightarrow> Some (Inr (SUCCESS, recovery_halt ht n))
                       | FAILURE \<Rightarrow>
                           if retry_count n < number_of_retries n
                           then recovery_loop tk ht
                             (halt_nth ht 0 n\<lparr>current_child_idx := current_child_idx n + 1\<rparr>)
                           else Some (Inr (FAILURE, recovery_halt ht n))
                       | RUNNING \<Rightarrow> Some (Inr (RUNNING, n))
                       | IDLE \<Rightarrow> Some (Inl LogicError))
                    else
                      (case child_status of
                         SUCCESS \<Rightarrow> recovery_loop tk ht
                           (halt_nth ht 1 n\<lparr>retry_count := retry_count n + 1,
                              current_child_idx := current_child_idx n - 1\<rparr>)
                       | FAILURE \<Rightarrow> Some (Inr (FAILURE, recovery_halt ht n))
                       | RUNNING \<Rightarrow> Some (Inr (RUNNING, n))
                       | IDLE \<Rightarrow> Some (Inl LogicError))))
      else Some (Inr (FAILURE, recovery_halt ht n)))"

definition recovery_tick ::
  "'c ticker \<Rightarrow> ('c \<Rightarrow> 'c) \<Rightarrow> 'c recovery \<Rightarrow> (bt_error + node_status \<times> 'c recovery) option" where
  "recovery_tick tk ht n =
     (if length (recovery_children n) \<noteq> 2 then Some (Inl BehaviorTreeException)
      else recovery_loop tk ht n)"

section \<open>RoundRobin\<close>

record 'c round_robin =
  rr_current :: nat
  rr_failed :: nat
  rr_children :: "'c list"

definition round_robin_halt :: "('c \<Rightarrow> 'c) \<Rightarrow> 'c round_robin \<Rightarrow> 'c round_robin" where
  "round_robin_halt ht n = n\<lparr>rr_children := map ht (rr_children n), rr_current := 0, rr_failed := 0\<rparr>"

text \<open>\<open>++current_child_idx_ >= num_children\<close> wraps around to the first child.\<close>

definition rr_advance :: "'c round_robin \<Rightarrow> 'c round_robin" where
  "rr_advance n =
     n\<lparr>rr_current := (if rr_current n + 1 \<ge> length (rr_children n) then 0 else rr_current n + 1)\<rparr>"

function round_robin_loop ::
  "'c ticker \<Rightarrow> ('c \<Rightarrow> 'c) \<Rightarrow> 'c round_robin \<Rightarrow> bt_error + node_status \<times> 'c round_robin" where
  "round_robin_loop tk ht n =
     (if rr_failed n < length (rr_children n) then
        (case tk (rr_children n ! rr_current n) of
           Inl e \<Rightarrow> Inl e
         | Inr (child_status, c) \<Rightarrow>
             (let n = n\<lparr>rr_children := (rr_children n)[rr_current n := c]\<rparr>
              in case child_status of
                   SUCCESS \<Rightarrow>
                     (let n = (rr_advance n)\<lparr>rr_failed := 0\<rparr>
                      in Inr (SUCCESS, n\<lparr>rr_children := map ht (rr_children n)\<rparr>))
                 | FAILURE \<Rightarrow> round_robin_loop tk ht ((rr_advance n)\<lparr>rr_failed := rr_failed n + 1\<rparr>)
                 | RUNNING \<Rightarrow> Inr (RUNNING, n)
                 | IDLE \<Rightarrow> Inl LogicError))
      else Inr (FAILURE, round_robin_halt ht n))"
  by auto

termination
  by (relation "measure (\<lambda>(tk, ht, n). length (rr_children n) - rr_failed n)")
    (auto simp: rr_advance_def)

declare round_robin_loop.simps [simp del]

definition round_robin_tick ::
  "'c ticker \<Rightarrow> ('c \<Rightarrow> 'c) \<Rightarrow> 'c round_robin \<Rightarrow> bt_error + node_status \<times> 'c round_robin" where
  "round_robin_tick tk ht n = round_robin_loop tk ht n"

section \<open>What a tick does\<close>

text \<open>The children with indices from \<open>i\<close> up to \<open>j\<close> have been ticked, the others not.\<close>

definition after_tick :: "'c ticker \<Rightarrow> 'c \<Rightarrow> 'c" where
  "after_tick tk c = (case tk c of Inl e \<Rightarrow> c | Inr (s, c') \<Rightarrow> c')"

definition ticked :: "'c ticker \<Rightarrow> nat \<Rightarrow> nat \<Rightarrow> 'c list \<Rightarrow> 'c list" where
  "ticked tk i j cs = map (\<lambda>k. if i \<le> k \<and> k < j then after_tick tk (cs ! k) else cs ! k) [0..<length cs]"

lemma length_ticked [simp]: "length (ticked tk i j cs) = length cs"
  by (simp add: ticked_def)

lemma ticked_none [simp]: "ticked tk i i cs = cs"
  by (rule nth_equalityI) (auto simp: ticked_def)

lemma ticked_step:
  assumes "i < j" and "i < length cs" and "tk (cs ! i) = Inr (s, c)"
  shows "ticked tk (Suc i) j (cs[i := c]) = ticked tk i j cs"
  using assms by (intro nth_equalityI) (auto simp: ticked_def after_tick_def nth_list_update)

text \<open>What a pipeline lets pass: success, and a child before the furthest one that is running.\<close>

definition passes :: "nat \<Rightarrow> nat \<Rightarrow> node_status \<Rightarrow> bool" where
  "passes m k s \<longleftrightarrow> s = SUCCESS \<or> s = RUNNING \<and> k < m"

definition pipeline_outcome ::
  "'c ticker \<Rightarrow> ('c \<Rightarrow> 'c) \<Rightarrow> nat \<Rightarrow> 'c pipeline \<Rightarrow> nat \<Rightarrow> node_status \<Rightarrow> 'c pipeline \<Rightarrow> bool" where
  "pipeline_outcome tk ht i n j s n' \<longleftrightarrow>
     (let cs = pipeline_children n; m = last_child_ticked n in
      i \<le> j \<and> (\<forall>k. i \<le> k \<and> k < j \<longrightarrow> (\<exists>t c. tk (cs ! k) = Inr (t, c) \<and> passes m k t)) \<and>
      (case s of
         SUCCESS \<Rightarrow> j = length cs \<and>
           n' = \<lparr>last_child_ticked = 0, pipeline_children = map ht (ticked tk i j cs)\<rparr>
       | RUNNING \<Rightarrow> j < length cs \<and> m \<le> j \<and> (\<exists>c. tk (cs ! j) = Inr (RUNNING, c)) \<and>
           n' = \<lparr>last_child_ticked = j, pipeline_children = ticked tk i (Suc j) cs\<rparr>
       | FAILURE \<Rightarrow> j < length cs \<and> (\<exists>c. tk (cs ! j) = Inr (FAILURE, c)) \<and>
           n' = \<lparr>last_child_ticked = 0, pipeline_children = map ht (ticked tk i (Suc j) cs)\<rparr>
       | IDLE \<Rightarrow> False))"

lemma pipeline_loop_outcome:
  "pipeline_loop tk ht i n = Inr (s, n') \<Longrightarrow> i \<le> length (pipeline_children n) \<Longrightarrow>
   \<exists>j. pipeline_outcome tk ht i n j s n'"
proof (induction tk ht i n rule: pipeline_loop.induct)
  case (1 tk ht i n)
  let ?cs = "pipeline_children n"
  note step = 1(3) [unfolded pipeline_loop.simps [of tk ht i n]]
  show ?case
  proof (cases "i < length ?cs")
    case False
    then show ?thesis
      using step 1(4) by (intro exI [of _ i]) (auto simp: pipeline_outcome_def Let_def)
  next
    case True
    then obtain t c where tk: "tk (?cs ! i) = Inr (t, c)"
      using step by (cases "tk (?cs ! i)") auto
    define m where "m = n\<lparr>pipeline_children := ?cs[i := c]\<rparr>"
    consider "t = FAILURE" | "t = RUNNING" "last_child_ticked n \<le> i"
      | "passes (last_child_ticked n) i t"
      using step True tk by (cases t) (auto simp: passes_def Let_def split: if_splits)
    then show ?thesis
    proof cases
      case 3
      then have rec: "pipeline_loop tk ht (i + 1) m = Inr (s, n')"
        using step True tk by (auto simp: passes_def m_def Let_def)
      have "\<exists>j. pipeline_outcome tk ht (i + 1) m j s n'"
        using 3 1(1) [OF True tk refl m_def] 1(2) [OF True tk refl m_def] rec True
        by (auto simp: passes_def m_def)
      then obtain j where j: "pipeline_outcome tk ht (i + 1) m j s n'" ..
      have len: "length (pipeline_children m) = length ?cs" and last: "last_child_ticked m = last_child_ticked n"
        by (simp_all add: m_def)
      have "i < j"
        using j by (simp add: pipeline_outcome_def Let_def)
      have other: "pipeline_children m ! k = ?cs ! k" if "k \<noteq> i" for k
        using that by (simp add: m_def)
      have pre: "\<exists>t c. tk (?cs ! k) = Inr (t, c) \<and> passes (last_child_ticked n) k t"
        if "i \<le> k" "k < j" for k
      proof (cases "k = i")
        case True
        then show ?thesis using tk 3 by auto
      next
        case False
        then have "Suc i \<le> k" using that by simp
        then show ?thesis
          using j that other [OF False] by (auto simp: pipeline_outcome_def Let_def last)
      qed
      have tckd: "ticked tk (Suc i) l (pipeline_children m) = ticked tk i l ?cs" if "i < l" for l
        using ticked_step [of i l ?cs tk t c] that True tk by (simp add: m_def)
      have "pipeline_outcome tk ht i n j s n'"
        using j pre \<open>i < j\<close> other tckd [OF \<open>i < j\<close>] tckd [of "Suc j"]
        unfolding pipeline_outcome_def Let_def len last
        by (cases s) simp_all
      then show ?thesis ..
    qed (use step True tk ticked_step [of i "Suc i" ?cs tk t c] in
        \<open>auto simp: pipeline_outcome_def Let_def intro!: exI [of _ i]\<close>)
  qed
qed

section \<open>Round robin\<close>

text \<open>The distance from the current child to child \<open>j\<close> in the cyclic order of \<open>N\<close> children.\<close>

definition cyclic_offset :: "nat \<Rightarrow> nat \<Rightarrow> nat \<Rightarrow> nat" where
  "cyclic_offset k N j = (if k \<le> j then j - k else j + N - k)"

definition cyclic_at :: "nat \<Rightarrow> nat \<Rightarrow> nat \<Rightarrow> nat" where
  "cyclic_at k N d = (if k + d < N then k + d else k + d - N)"

definition rr_ticked :: "'c ticker \<Rightarrow> nat \<Rightarrow> nat \<Rightarrow> 'c list \<Rightarrow> 'c list" where
  "rr_ticked tk k d cs =
     map (\<lambda>j. if cyclic_offset k (length cs) j < d then after_tick tk (cs ! j) else cs ! j) [0..<length cs]"

text \<open>\<open>d\<close> children from the current one on have failed before the tick ended.\<close>

definition round_robin_outcome ::
  "'c ticker \<Rightarrow> ('c \<Rightarrow> 'c) \<Rightarrow> 'c round_robin \<Rightarrow> nat \<Rightarrow> node_status \<Rightarrow> 'c round_robin \<Rightarrow> bool" where
  "round_robin_outcome tk ht n d s n' \<longleftrightarrow>
     (let cs = rr_children n; N = length cs; k = rr_current n; f = rr_failed n in
      (\<forall>t < d. \<exists>c. tk (cs ! cyclic_at k N t) = Inr (FAILURE, c)) \<and>
      (case s of
         FAILURE \<Rightarrow> f + d = max f N \<and>
           n' = \<lparr>rr_current = 0, rr_failed = 0, rr_children = map ht (rr_ticked tk k d cs)\<rparr>
       | SUCCESS \<Rightarrow> f + d < N \<and> (\<exists>c. tk (cs ! cyclic_at k N d) = Inr (SUCCESS, c)) \<and>
           n' = \<lparr>rr_current = cyclic_at k N (Suc d), rr_failed = 0,
                 rr_children = map ht (rr_ticked tk k (Suc d) cs)\<rparr>
       | RUNNING \<Rightarrow> f + d < N \<and> (\<exists>c. tk (cs ! cyclic_at k N d) = Inr (RUNNING, c)) \<and>
           n' = \<lparr>rr_current = cyclic_at k N d, rr_failed = f + d,
                 rr_children = rr_ticked tk k (Suc d) cs\<rparr>
       | IDLE \<Rightarrow> False))"

lemma rr_ticked_0 [simp]: "rr_ticked tk k 0 cs = cs"
  by (rule nth_equalityI) (auto simp: rr_ticked_def)

lemma length_rr_ticked [simp]: "length (rr_ticked tk k d cs) = length cs"
  by (simp add: rr_ticked_def)

lemma rr_ticked_step:
  assumes "k < length cs" and "d < length cs" and "tk (cs ! k) = Inr (s, c)"
  shows "rr_ticked tk (cyclic_at k (length cs) 1) d (cs[k := c]) = rr_ticked tk k (Suc d) cs"
  using assms
  by (intro nth_equalityI)
    (auto simp: rr_ticked_def cyclic_offset_def cyclic_at_def after_tick_def nth_list_update)

lemma rr_ticked_1:
  assumes "k < length cs" and "tk (cs ! k) = Inr (s, c)"
  shows "rr_ticked tk k (Suc 0) cs = cs[k := c]"
  using assms rr_ticked_step [of k cs 0 tk s c] by (cases cs) auto

lemma cyclic_at_Suc:
  "k < N \<Longrightarrow> d < N \<Longrightarrow> cyclic_at (cyclic_at k N 1) N d = cyclic_at k N (Suc d)"
  by (auto simp: cyclic_at_def)

lemma cyclic_at_0 [simp]: "k < N \<Longrightarrow> cyclic_at k N 0 = k"
  by (simp add: cyclic_at_def)

lemma cyclic_at_less: "k < N \<Longrightarrow> d \<le> N \<Longrightarrow> cyclic_at k N d < N"
  by (auto simp: cyclic_at_def)

lemma cyclic_at_inj: "k < N \<Longrightarrow> d < N \<Longrightarrow> 0 < d \<Longrightarrow> cyclic_at k N d \<noteq> k"
  by (auto simp: cyclic_at_def)

lemma rr_advance_cyclic:
  "rr_current n < length (rr_children n) \<Longrightarrow>
   rr_advance n = n\<lparr>rr_current := cyclic_at (rr_current n) (length (rr_children n)) 1\<rparr>"
  by (auto simp: rr_advance_def cyclic_at_def)

lemma round_robin_loop_outcome:
  "round_robin_loop tk ht n = Inr (s, n') \<Longrightarrow>
   rr_children n \<noteq> [] \<longrightarrow> rr_current n < length (rr_children n) \<Longrightarrow>
   \<exists>d. round_robin_outcome tk ht n d s n'"
proof (induction tk ht n rule: round_robin_loop.induct)
  case (1 tk ht n)
  let ?cs = "rr_children n" and ?k = "rr_current n" and ?f = "rr_failed n"
  let ?N = "length ?cs"
  note step = 1(2) [unfolded round_robin_loop.simps [of tk ht n]]
  show ?case
  proof (cases "?f < ?N")
    case False
    then show ?thesis
      using step by (intro exI [of _ 0])
        (auto simp: round_robin_outcome_def round_robin_halt_def Let_def)
  next
    case True
    then have k: "?k < ?N" using 1(3) by (cases ?cs) auto
    obtain t c where tk: "tk (?cs ! ?k) = Inr (t, c)"
      using step True by (cases "tk (?cs ! ?k)") auto
    define m where "m = n\<lparr>rr_children := ?cs[?k := c]\<rparr>"
    have tick1: "rr_ticked tk ?k (Suc 0) ?cs = ?cs[?k := c]"
      using k tk by (rule rr_ticked_1)
    have adv: "rr_advance m = m\<lparr>rr_current := cyclic_at ?k ?N 1\<rparr>"
      using rr_advance_cyclic [of m] k by (simp add: m_def)
    show ?thesis
    proof (cases t)
      case FAILURE
      define l where "l = (rr_advance m)\<lparr>rr_failed := rr_failed m + 1\<rparr>"
      have l: "rr_children l = ?cs[?k := c]" "rr_current l = cyclic_at ?k ?N 1" "rr_failed l = Suc ?f"
        unfolding l_def adv by (simp_all add: m_def)
      have rec: "round_robin_loop tk ht l = Inr (s, n')"
        using step True tk FAILURE by (simp add: l_def m_def Let_def)
      have "\<exists>d. round_robin_outcome tk ht l d s n'"
        using 1(1) [OF True tk refl m_def FAILURE] rec l cyclic_at_less [OF k, of 1] k
        by (auto simp: l_def)
      then obtain d where d: "round_robin_outcome tk ht l d s n'" ..
      have dN: "Suc ?f + d \<le> ?N"
        using d l True by (auto simp: round_robin_outcome_def Let_def split: node_status.splits)
      have at: "cyclic_at (rr_current l) ?N t = cyclic_at ?k ?N (Suc t)" if "t \<le> d" for t
        using cyclic_at_Suc [OF k, of t] that dN l(2) by simp
      have child: "rr_children l ! cyclic_at (rr_current l) ?N t = ?cs ! cyclic_at ?k ?N (Suc t)"
        if "t \<le> d" "Suc t < ?N" for t
        using at [OF that(1)] cyclic_at_inj [OF k, of "Suc t"] that l(1) by simp
      have tckd: "rr_ticked tk (rr_current l) e (rr_children l) = rr_ticked tk ?k (Suc e) ?cs"
        if "e < ?N" for e
        using rr_ticked_step [OF k that, of tk t c] tk l by simp
      have pre: "\<exists>c. tk (?cs ! cyclic_at ?k ?N t) = Inr (FAILURE, c)" if t: "t < Suc d" for t
      proof (cases t)
        case 0
        then show ?thesis using tk FAILURE k by auto
      next
        case (Suc u)
        then show ?thesis
          using d t dN child [of u] l by (auto simp: round_robin_outcome_def Let_def)
      qed
      have "round_robin_outcome tk ht n (Suc d) s n'"
        using d pre dN at [of d] at [of "Suc d"] child [of d] tckd [of d] tckd [of "Suc d"] l True
          cyclic_at_Suc [OF k, of "Suc d"]
        unfolding round_robin_outcome_def Let_def
        by (cases s) auto
      then show ?thesis ..
    next
      case SUCCESS
      then show ?thesis
        using step True tk k adv tick1
        by (intro exI [of _ 0]) (auto simp: round_robin_outcome_def Let_def m_def)
    next
      case RUNNING
      then show ?thesis
        using step True tk k tick1
        by (intro exI [of _ 0]) (auto simp: round_robin_outcome_def Let_def)
    next
      case IDLE
      then show ?thesis using step True tk by simp
    qed
  qed
qed

section \<open>The recovery loop\<close>

text \<open>
  The specification of a tick of \<open>RecoveryNode\<close>, by recursion on the retries that are left:
  \<open>attempt\<close> runs the first child, \<open>recover\<close> the second one. The result says where a running
  node stands: the child and the retries left.
\<close>

function attempt ::
  "'c ticker \<Rightarrow> ('c \<Rightarrow> 'c) \<Rightarrow> nat \<Rightarrow> 'c \<Rightarrow> 'c \<Rightarrow> bt_error + node_status \<times> nat \<times> nat \<times> 'c \<times> 'c"
and recover ::
  "'c ticker \<Rightarrow> ('c \<Rightarrow> 'c) \<Rightarrow> nat \<Rightarrow> 'c \<Rightarrow> 'c \<Rightarrow> bt_error + node_status \<times> nat \<times> nat \<times> 'c \<times> 'c" where
  "attempt tk ht left a b =
     (case tk a of
        Inl e \<Rightarrow> Inl e
      | Inr (SUCCESS, a) \<Rightarrow> Inr (SUCCESS, 0, left, ht a, ht b)
      | Inr (RUNNING, a) \<Rightarrow> Inr (RUNNING, 0, left, a, b)
      | Inr (IDLE, a) \<Rightarrow> Inl LogicError
      | Inr (FAILURE, a) \<Rightarrow>
          if left = 0 then Inr (FAILURE, 0, left, ht a, ht b)
          else recover tk ht (left - 1) (ht a) b)"
| "recover tk ht left a b =
     (case tk b of
        Inl e \<Rightarrow> Inl e
      | Inr (SUCCESS, b) \<Rightarrow> attempt tk ht left a (ht b)
      | Inr (RUNNING, b) \<Rightarrow> Inr (RUNNING, 1, left, a, b)
      | Inr (IDLE, b) \<Rightarrow> Inl LogicError
      | Inr (FAILURE, b) \<Rightarrow> Inr (FAILURE, 1, left, ht a, ht b))"
  by pat_completeness auto

termination
  by (relation "measure (\<lambda>x. case x of Inl (tk, ht, left, a, b) \<Rightarrow> 2 * left
      | Inr (tk, ht, left, a, b) \<Rightarrow> 2 * left + 1)") auto

declare attempt.simps [simp del] recover.simps [simp del]

text \<open>The node states between ticks: waiting in one of the children with retries left.\<close>

definition recovery_at :: "nat \<Rightarrow> nat \<Rightarrow> 'c \<Rightarrow> 'c \<Rightarrow> 'c recovery \<Rightarrow> bool" where
  "recovery_at i left a b n \<longleftrightarrow> recovery_children n = [a, b] \<and> i \<le> 1 \<and>
     current_child_idx n = of_nat i \<and> unat (retry_count n) + i + left = unat (number_of_retries n)"

definition recovery_result ::
  "'c recovery \<Rightarrow> bt_error + node_status \<times> nat \<times> nat \<times> 'c \<times> 'c \<Rightarrow>
   (bt_error + node_status \<times> 'c recovery) option \<Rightarrow> bool" where
  "recovery_result n spec res \<longleftrightarrow>
     (case spec of
        Inl e \<Rightarrow> res = Some (Inl e)
      | Inr (s, i, left, a, b) \<Rightarrow>
          (\<exists>n'. res = Some (Inr (s, n')) \<and> number_of_retries n' = number_of_retries n \<and>
             (if s = RUNNING then recovery_at i left a b n'
              else recovery_at 0 (unat (number_of_retries n)) a b n')))"

lemma recovery_result_same:
  assumes "number_of_retries n = number_of_retries m"
  shows "recovery_result n spec res = recovery_result m spec res"
  unfolding recovery_result_def assms ..

lemma recovery_at_halt:
  "recovery_children n = [a, b] \<Longrightarrow>
   recovery_at 0 (unat (number_of_retries n)) (ht a) (ht b) (recovery_halt ht n)"
  by (simp add: recovery_at_def recovery_halt_def)

lemma recovery_loop_spec:
  "(\<forall>n. recovery_at 0 left a b n \<longrightarrow> recovery_result n (attempt tk ht left a b) (recovery_loop tk ht n))"
  "(\<forall>n. recovery_at 1 left' a' b' n \<longrightarrow> recovery_result n (recover tk ht' left' a' b') (recovery_loop tk ht' n))"
proof (induction tk ht left a b and tk ht' left' a' b' rule: attempt_recover.induct)
  case (1 tk ht left a b)
  show ?case
  proof (intro allI impI)
    fix n assume n: "recovery_at 0 left a b n"
    have retry: "retry_count n \<le> number_of_retries n"
      and more: "retry_count n < number_of_retries n \<longleftrightarrow> left \<noteq> 0"
      using n by (auto simp: recovery_at_def word_le_nat_alt word_less_nat_alt)
    have ch: "recovery_children n = [a, b]" "current_child_idx n = 0"
      using n by (simp_all add: recovery_at_def)
    show "recovery_result n (attempt tk ht left a b) (recovery_loop tk ht n)"
    proof (cases "tk a")
      case (Inl e)
      then show ?thesis
        using ch retry
        by (subst recovery_loop.simps) (simp add: attempt.simps recovery_result_def)
    next
      case (Inr x)
      obtain s a' where x: "x = (s, a')" by (cases x)
      let ?n = "n\<lparr>recovery_children := [a', b]\<rparr>"
      have halt: "recovery_at 0 (unat (number_of_retries n)) (ht a') (ht b) (recovery_halt ht ?n)"
        using recovery_at_halt [of ?n a' b ht] by simp
      show ?thesis
      proof (cases s)
        case FAILURE
        show ?thesis
        proof (cases "left = 0")
          case True
          then show ?thesis
            using ch retry more Inr x FAILURE halt
            by (subst recovery_loop.simps)
              (auto simp: attempt.simps recovery_result_def recovery_halt_def)
        next
          case False
          define m where "m = halt_nth ht 0 ?n\<lparr>current_child_idx := current_child_idx ?n + 1\<rparr>"
          have "recovery_loop tk ht n = recovery_loop tk ht m"
            using ch retry more Inr x FAILURE False
            by (subst recovery_loop.simps) (simp add: m_def)
          moreover have "recovery_at 1 (left - 1) (ht a') b m"
            using n False by (simp add: recovery_at_def m_def halt_nth_def)
          moreover have "number_of_retries m = number_of_retries n"
            by (simp add: m_def halt_nth_def)
          ultimately show ?thesis
            using 1 Inr x FAILURE False recovery_result_same [of n m]
            by (simp add: attempt.simps)
        qed
      qed (use ch retry Inr x halt n in
          \<open>(subst recovery_loop.simps, auto simp: attempt.simps recovery_result_def
              recovery_halt_def recovery_at_def)[1]\<close>)+
    qed
  qed
next
  case (2 tk ht left a b)
  show ?case
  proof (intro allI impI)
    fix n assume n: "recovery_at 1 left a b n"
    have retry: "retry_count n \<le> number_of_retries n" and less: "unat (retry_count n) < unat (number_of_retries n)"
      using n by (auto simp: recovery_at_def word_le_nat_alt)
    have ch: "recovery_children n = [a, b]" "current_child_idx n = 1"
      using n by (simp_all add: recovery_at_def)
    show "recovery_result n (recover tk ht left a b) (recovery_loop tk ht n)"
    proof (cases "tk b")
      case (Inl e)
      then show ?thesis
        using ch retry
        by (subst recovery_loop.simps) (simp add: recover.simps recovery_result_def)
    next
      case (Inr x)
      obtain s b' where x: "x = (s, b')" by (cases x)
      let ?n = "n\<lparr>recovery_children := [a, b']\<rparr>"
      show ?thesis
      proof (cases s)
        case SUCCESS
        define m where "m = halt_nth ht 1 ?n\<lparr>retry_count := retry_count ?n + 1,
            current_child_idx := current_child_idx ?n - 1\<rparr>"
        have "recovery_loop tk ht n = recovery_loop tk ht m"
          using ch retry Inr x SUCCESS by (subst recovery_loop.simps) (simp add: m_def)
        moreover have "unat (retry_count n + 1) = unat (retry_count n) + 1"
          using less unsigned_less [of "number_of_retries n", where ?'a = nat]
          by (simp add: unat_word_ariths(1))
        then have "recovery_at 0 left a (ht b') m"
          using n by (simp add: recovery_at_def m_def halt_nth_def)
        moreover have "number_of_retries m = number_of_retries n"
          by (simp add: m_def halt_nth_def)
        ultimately show ?thesis
          using 2 Inr x SUCCESS recovery_result_same [of n m] by (simp add: recover.simps)
      qed (use ch retry Inr x n in
          \<open>(subst recovery_loop.simps, auto simp: recover.simps recovery_result_def
              recovery_halt_def recovery_at_def)[1]\<close>)+
    qed
  qed
qed

section \<open>Properties\<close>

text \<open>C29: a tick of \<open>PipelineSequence\<close> ticks its children in order, each at most once, and goes past a
  child exactly when it succeeded or it is running behind the furthest child reached before. It
  succeeds when it passes the last child, runs at a running child at or beyond the furthest one,
  which it remembers, and fails at the first failing child; when it is done it has halted every
  child and starts over.\<close>

theorem pipeline_tick_behaviour:
  assumes "pipeline_tick tk ht n = Inr (s, n')"
  shows "\<exists>j. pipeline_outcome tk ht 0 n j s n'"
  using assms unfolding pipeline_tick_def by (rule pipeline_loop_outcome) simp

theorem pipeline_tick_behaviour_witness:
  "\<exists>j. pipeline_outcome (\<lambda>c. Inr (c, c)) (\<lambda>_. IDLE) 0
     \<lparr>last_child_ticked = 1, pipeline_children = [RUNNING, SUCCESS, RUNNING]\<rparr> j RUNNING
     \<lparr>last_child_ticked = 2, pipeline_children = [RUNNING, SUCCESS, RUNNING]\<rparr>"
  by (rule pipeline_tick_behaviour)
    (simp add: pipeline_tick_def pipeline_loop.simps nth_Cons')

text \<open>C13: a tick of \<open>RecoveryNode\<close> in a state between ticks returns, whatever the children do, and does
  what the recursion on the remaining retries says: the first child again after each successful
  recovery, failure when the recovery fails or the retries are used up, and a reset node with
  both children halted when it is done. The 32-bit counters never wrap, even for the largest
  number of retries.\<close>

theorem recovery_tick_behaviour:
  assumes "recovery_at i left a b n"
  shows "recovery_result n (if i = 0 then attempt tk ht left a b else recover tk ht left a b)
    (recovery_tick tk ht n)"
proof -
  have "length (recovery_children n) = 2" and "i = 0 \<or> i = 1"
    using assms by (auto simp: recovery_at_def)
  then show ?thesis
    using assms recovery_loop_spec(1) [of left a b tk ht] recovery_loop_spec(2) [of left a b tk ht]
    by (auto simp: recovery_tick_def)
qed

theorem recovery_tick_behaviour_witness:
  "recovery_result \<lparr>current_child_idx = 0, number_of_retries = 1, retry_count = 0,
      recovery_children = [FAILURE, SUCCESS]\<rparr>
    (if 0 = (0 :: nat) then attempt (\<lambda>c. Inr (c, c)) id 1 FAILURE SUCCESS
     else recover (\<lambda>c. Inr (c, c)) id 1 FAILURE SUCCESS)
    (recovery_tick (\<lambda>c. Inr (c, c)) id \<lparr>current_child_idx = 0, number_of_retries = 1,
      retry_count = 0, recovery_children = [FAILURE, SUCCESS]\<rparr>)"
  by (rule recovery_tick_behaviour) (simp add: recovery_at_def)

text \<open>C30: a tick of \<open>RoundRobin\<close> ticks children in cyclic order from the current one, each at most
  once, past those that fail: it fails only when all children have failed in a row (those that
  failed in earlier ticks counted), succeeds at the first success, after which the next child is
  the current one, and stays at a running child.\<close>

theorem round_robin_tick_behaviour:
  assumes "round_robin_tick tk ht n = Inr (s, n')"
    and "rr_children n \<noteq> [] \<longrightarrow> rr_current n < length (rr_children n)"
  shows "\<exists>d. round_robin_outcome tk ht n d s n'"
  using assms unfolding round_robin_tick_def by (rule round_robin_loop_outcome)

theorem round_robin_tick_behaviour_witness:
  "\<exists>d. round_robin_outcome (\<lambda>c. Inr (c, c)) (\<lambda>_. IDLE)
     \<lparr>rr_current = 2, rr_failed = 0, rr_children = [RUNNING, IDLE, FAILURE]\<rparr> d RUNNING
     \<lparr>rr_current = 0, rr_failed = 1, rr_children = [RUNNING, IDLE, FAILURE]\<rparr>"
  by (rule round_robin_tick_behaviour)
    (simp_all add: round_robin_tick_def round_robin_loop.simps rr_advance_def nth_Cons')

end
