(* ===== verification/Nav_Geometry.thy ===== *)
theory Nav_Geometry
  imports Prelude Complex_Main
begin

text \<open>
  The helpers of \<open>nav2_util/geometry_utils.hpp\<close> on poses and paths. A pose has a position and
  an orientation, which only the transform library looks into. A \<open>double\<close> is
  a real number; an iterator range is the list of its elements and an iterator an index into it,
  its length being \<open>end\<close>.
\<close>

record 'q pose =
  pos_x :: real
  pos_y :: real
  pos_z :: real
  orientation :: 'q

definition hypot :: "real \<Rightarrow> real \<Rightarrow> real" where
  "hypot x y = sqrt (x\<^sup>2 + y\<^sup>2)"

definition euclidean_distance :: "'q pose \<Rightarrow> 'q pose \<Rightarrow> real" where
  "euclidean_distance p1 p2 = hypot (pos_x p1 - pos_x p2) (pos_y p1 - pos_y p2)"

text \<open>\<open>std::atan2\<close>, signed zeros apart.\<close>

definition atan2 :: "real \<Rightarrow> real \<Rightarrow> real" where
  "atan2 y x =
     (if x > 0 then arctan (y / x)
      else if x < 0 then (if y \<ge> 0 then arctan (y / x) + pi else arctan (y / x) - pi)
      else if y > 0 then pi / 2 else if y < 0 then - pi / 2 else 0)"

function min_by_loop :: "('a \<Rightarrow> real) \<Rightarrow> 'a list \<Rightarrow> nat \<Rightarrow> real \<Rightarrow> nat \<Rightarrow> nat" where
  "min_by_loop getCompareVal xs it lowest lowest_it =
     (if it < length xs then
        (let comp = getCompareVal (xs ! it)
         in if comp < lowest then min_by_loop getCompareVal xs (it + 1) comp it
            else min_by_loop getCompareVal xs (it + 1) lowest lowest_it)
      else lowest_it)"
  by auto

termination
  by (relation "measure (\<lambda>(g, xs, it, l, li). length xs - it)") auto

declare min_by_loop.simps [simp del]

definition min_by :: "('a \<Rightarrow> real) \<Rightarrow> 'a list \<Rightarrow> nat" where
  "min_by getCompareVal xs =
     (if xs = [] then 0 else min_by_loop getCompareVal xs 1 (getCompareVal (xs ! 0)) 0)"

function first_after_loop :: "'q pose list \<Rightarrow> real \<Rightarrow> nat \<Rightarrow> real \<Rightarrow> nat" where
  "first_after_loop xs v it dst =
     (if it < length xs - 1 then
        (let dst = dst + euclidean_distance (xs ! it) (xs ! (it + 1))
         in if dst > v then it + 1 else first_after_loop xs v (it + 1) dst)
      else length xs)"
  by auto

termination
  by (relation "measure (\<lambda>(xs, v, it, d). length xs - it)") auto

declare first_after_loop.simps [simp del]

definition first_after_integrated_distance :: "'q pose list \<Rightarrow> real \<Rightarrow> nat" where
  "first_after_integrated_distance xs v = (if xs = [] then 0 else first_after_loop xs v 0 0)"

function path_length_loop :: "'q pose list \<Rightarrow> nat \<Rightarrow> real \<Rightarrow> real" where
  "path_length_loop xs idx len =
     (if idx < length xs - 1
      then path_length_loop xs (idx + 1) (len + euclidean_distance (xs ! idx) (xs ! (idx + 1)))
      else len)"
  by auto

termination
  by (relation "measure (\<lambda>(xs, i, l). length xs - i)") auto

declare path_length_loop.simps [simp del]

definition calculate_path_length :: "'q pose list \<Rightarrow> nat \<Rightarrow> real" where
  "calculate_path_length xs start_index =
     (if start_index + 1 \<ge> length xs then 0 else path_length_loop xs start_index 0)"

section \<open>Distances\<close>

lemma hypot_nonneg [simp]: "0 \<le> hypot x y"
  by (simp add: hypot_def)

lemma hypot_axis [simp]: "hypot x 0 = \<bar>x\<bar>" "hypot 0 y = \<bar>y\<bar>"
  by (simp_all add: hypot_def)

lemma euclidean_distance_nonneg [simp]: "0 \<le> euclidean_distance p q"
  by (simp add: euclidean_distance_def)

lemma euclidean_distance_commute: "euclidean_distance p q = euclidean_distance q p"
  by (simp add: euclidean_distance_def hypot_def power2_commute)

lemma euclidean_distance_same [simp]: "euclidean_distance p p = 0"
  by (simp add: euclidean_distance_def)

section \<open>What the loops compute\<close>

text \<open>\<open>run_length xs k\<close> is the length of the path up to its pose \<open>k\<close>.\<close>

definition run_length :: "'q pose list \<Rightarrow> nat \<Rightarrow> real" where
  "run_length xs k = (\<Sum>i<k. euclidean_distance (xs ! i) (xs ! (i + 1)))"

lemma run_length_0 [simp]: "run_length xs 0 = 0"
  by (simp add: run_length_def)

lemma run_length_Suc:
  "run_length xs (Suc k) = run_length xs k + euclidean_distance (xs ! k) (xs ! Suc k)"
  by (simp add: run_length_def)

lemma run_length_mono: "i \<le> j \<Longrightarrow> run_length xs i \<le> run_length xs j"
  unfolding run_length_def by (intro sum_mono2) auto

lemma path_length_loop_sum:
  "idx \<le> length xs - 1 \<Longrightarrow>
   path_length_loop xs idx len = len + (run_length xs (length xs - 1) - run_length xs idx)"
proof (induction xs idx len rule: path_length_loop.induct)
  case (1 xs idx len)
  then show ?case
    by (subst path_length_loop.simps) (auto simp: run_length_Suc)
qed

lemma calculate_path_length_eq:
  "start \<le> length xs - 1 \<Longrightarrow>
   calculate_path_length xs start = run_length xs (length xs - 1) - run_length xs start"
proof -
  assume a: "start \<le> length xs - 1"
  show ?thesis
  proof (cases "start + 1 \<ge> length xs")
    case True
    then have "start = length xs - 1" using a by linarith
    then show ?thesis using True by (simp add: calculate_path_length_def)
  qed (simp add: calculate_path_length_def path_length_loop_sum [OF a])
qed

text \<open>The first index whose run length is over the bound.\<close>

lemma first_after_loop_spec:
  assumes "dst = run_length xs it" and "it < length xs" and "run_length xs it \<le> v \<or> it = 0"
    and "\<forall>k. 0 < k \<and> k \<le> it \<longrightarrow> run_length xs k \<le> v" and "r = first_after_loop xs v it dst"
  shows "it < r \<and> r \<le> length xs \<and> (\<forall>k. 0 < k \<and> k < r \<longrightarrow> run_length xs k \<le> v) \<and>
    (r < length xs \<longrightarrow> v < run_length xs r)"
  using assms
proof (induction xs v it dst rule: first_after_loop.induct)
  case (1 xs v it dst)
  let ?d = "dst + euclidean_distance (xs ! it) (xs ! (it + 1))"
  have d: "?d = run_length xs (Suc it)"
    using "1.prems"(1) by (simp add: run_length_Suc)
  show ?case
  proof (cases "it < length xs - 1")
    case False
    then have "Suc it = length xs"
      using "1.prems"(2) by linarith
    then show ?thesis
      using "1.prems" False by (simp add: first_after_loop.simps less_Suc_eq_le)
  next
    case True
    show ?thesis
    proof (cases "?d > v")
      case over: True
      have "r = Suc it"
        using True "1.prems"(5) over by (subst (asm) first_after_loop.simps) (simp add: Let_def)
      then show ?thesis
        using True over d "1.prems"(4) by (auto simp: less_Suc_eq_le)
    next
      case False
      have "r = first_after_loop xs v (it + 1) ?d"
        using True "1.prems"(5) False by (subst (asm) first_after_loop.simps) (simp add: Let_def)
      moreover have "\<forall>k. 0 < k \<and> k \<le> it + 1 \<longrightarrow> run_length xs k \<le> v"
        using "1.prems"(4) False d by (auto simp: le_Suc_eq)
      ultimately have "it + 1 < r \<and> r \<le> length xs \<and> (\<forall>k. 0 < k \<and> k < r \<longrightarrow> run_length xs k \<le> v) \<and>
          (r < length xs \<longrightarrow> v < run_length xs r)"
        using "1.IH" [OF True refl _ ] False d True by auto
      then show ?thesis by simp
    qed
  qed
qed

lemma first_after_spec:
  assumes "xs \<noteq> []" and "r = first_after_integrated_distance xs v"
  shows "0 < r" "r \<le> length xs" "\<forall>k. 0 < k \<and> k < r \<longrightarrow> run_length xs k \<le> v"
    "r < length xs \<longrightarrow> v < run_length xs r"
  using first_after_loop_spec [of 0 xs 0 v r] assms
  by (auto simp: first_after_integrated_distance_def)

text \<open>The first element of least value.\<close>

lemma min_by_loop_spec:
  assumes "lowest_it < it" and "it \<le> length xs" and "lowest = g (xs ! lowest_it)"
    and "\<forall>k < it. lowest \<le> g (xs ! k)" and "\<forall>k < lowest_it. lowest < g (xs ! k)"
    and "r = min_by_loop g xs it lowest lowest_it"
  shows "r < length xs \<and> (\<forall>k < length xs. g (xs ! r) \<le> g (xs ! k)) \<and>
    (\<forall>k < r. g (xs ! r) < g (xs ! k))"
  using assms
proof (induction g xs it lowest lowest_it rule: min_by_loop.induct)
  case (1 g xs it lowest lowest_it)
  show ?case
  proof (cases "it < length xs")
    case False
    then have "r = lowest_it"
      using "1.prems"(6) by (subst (asm) min_by_loop.simps) simp
    moreover have "it = length xs"
      using "1.prems"(2) False by simp
    ultimately show ?thesis
      using "1.prems" by auto
  next
    case True
    show ?thesis
    proof (cases "g (xs ! it) < lowest")
      case less: True
      have "r = min_by_loop g xs (it + 1) (g (xs ! it)) it"
        using "1.prems"(6) True less by (subst (asm) min_by_loop.simps) (simp add: Let_def)
      then show ?thesis
        using "1.IH"(1) [OF True refl less] "1.prems"(4) True less
        by (fastforce simp: less_Suc_eq)
    next
      case False
      have "r = min_by_loop g xs (it + 1) lowest lowest_it"
        using "1.prems"(6) True False by (subst (asm) min_by_loop.simps) (simp add: Let_def)
      then show ?thesis
        using "1.IH"(2) [OF True refl False] "1.prems"(1-5) True False
        by (auto simp: less_Suc_eq)
    qed
  qed
qed

lemma min_by_spec:
  assumes "xs \<noteq> []"
  shows "min_by g xs < length xs" "\<forall>k < length xs. g (xs ! min_by g xs) \<le> g (xs ! k)"
    "\<forall>k < min_by g xs. g (xs ! min_by g xs) < g (xs ! k)"
  using min_by_loop_spec [of 0 1 xs "g (xs ! 0)" g "min_by g xs"] assms
  by (auto simp: min_by_def Suc_leI)

end
