(* ===== verification/Bt_Decorators.thy ===== *)
theory Bt_Decorators
  imports Bt_Control Nav_Geometry
begin

text \<open>
  The decorator nodes of \<open>nav2_behavior_tree/plugins/decorator\<close>. As for the control nodes, the
  child is any state, \<open>tk\<close> is its \<open>executeTick()\<close> and \<open>cst\<close> its \<open>status()\<close>. What a tick reads
  from elsewhere is an argument: the successive readings of a clock in nanoseconds, the results
  of \<open>getCurrentPose\<close> (none where the transform is not available), and what the blackboard holds.
  A \<open>double\<close> or \<open>float\<close> is a real number.
\<close>

definition seconds :: "int \<Rightarrow> real" where
  "seconds ns = real_of_int ns / 10 ^ 9"

text \<open>The \<open>switch\<close> on the child's state that the decorators share.\<close>

fun child_outcome :: "node_status \<Rightarrow> node_status" where
  "child_outcome RUNNING = RUNNING"
| "child_outcome SUCCESS = SUCCESS"
| "child_outcome FAILURE = FAILURE"
| "child_outcome IDLE = FAILURE"

section \<open>RateController\<close>

record 'c rate_controller =
  rate_status :: node_status
  rate_start :: int
  rate_period :: real
  rate_first_time :: bool
  rate_child :: 'c

text \<open>The constructor; \<open>status\<close> is \<open>IDLE\<close> and the start is the clock's epoch. (\<open>hz\<close> is not 0: for 0 the code's period is
  infinite.)\<close>

definition RateController :: "real \<Rightarrow> 'c \<Rightarrow> 'c rate_controller" where
  "RateController hz c = \<lparr>rate_status = IDLE, rate_start = 0, rate_period = 1 / hz,
     rate_first_time = False, rate_child = c\<rparr>"

definition rate_begin :: "int \<Rightarrow> 'c rate_controller \<Rightarrow> 'c rate_controller" where
  "rate_begin t0 n =
     (let n = (if rate_status n = IDLE then n\<lparr>rate_start := t0, rate_first_time := True\<rparr> else n)
      in n\<lparr>rate_status := RUNNING\<rparr>)"

definition rate_tick ::
  "'c ticker \<Rightarrow> ('c \<Rightarrow> node_status) \<Rightarrow> int \<Rightarrow> int \<Rightarrow> int \<Rightarrow> 'c rate_controller \<Rightarrow>
   bt_error + node_status \<times> 'c rate_controller" where
  "rate_tick tk cst t0 now t2 n =
     (let n = rate_begin t0 n; elapsed = seconds (now - rate_start n)
      in if rate_first_time n \<or> cst (rate_child n) = RUNNING \<or> elapsed \<ge> rate_period n then
           (let n = n\<lparr>rate_first_time := False\<rparr>
            in case tk (rate_child n) of
                 Inl e \<Rightarrow> Inl e
               | Inr (child_state, c) \<Rightarrow>
                   (let n = n\<lparr>rate_child := c\<rparr>
                    in case child_state of
                         RUNNING \<Rightarrow> Inr (RUNNING, n)
                       | SUCCESS \<Rightarrow> Inr (SUCCESS, n\<lparr>rate_start := t2\<rparr>)
                       | _ \<Rightarrow> Inr (FAILURE, n)))
         else Inr (rate_status n, n))"

section \<open>DistanceController\<close>

record ('c, 'q) distance_controller =
  distance_status :: node_status
  distance_start :: "'q pose"
  distance_threshold :: real
  distance_first_time :: bool
  distance_child :: 'c

text \<open>\<open>p0\<close>, \<open>p1\<close> and \<open>p2\<close> are the three lookups of the pose. A failed lookup leaves the pose as it was.\<close>

definition distance_tick ::
  "'c ticker \<Rightarrow> ('c \<Rightarrow> node_status) \<Rightarrow> 'q pose option \<Rightarrow> 'q pose option \<Rightarrow> 'q pose option \<Rightarrow>
   ('c, 'q) distance_controller \<Rightarrow> bt_error + node_status \<times> ('c, 'q) distance_controller" where
  "distance_tick tk cst p0 p1 p2 n =
     (if distance_status n = IDLE \<and> p0 = None then Inr (FAILURE, n)
      else
        (let n = (if distance_status n = IDLE
                  then n\<lparr>distance_start := the p0, distance_first_time := True\<rparr> else n);
             n = n\<lparr>distance_status := RUNNING\<rparr>
         in case p1 of
              None \<Rightarrow> Inr (FAILURE, n)
            | Some current_pose \<Rightarrow>
                (let travelled = euclidean_distance (distance_start n) current_pose
                 in if distance_first_time n \<or> cst (distance_child n) = RUNNING \<or>
                       travelled \<ge> distance_threshold n then
                      (let n = n\<lparr>distance_first_time := False\<rparr>
                       in case tk (distance_child n) of
                            Inl e \<Rightarrow> Inl e
                          | Inr (child_state, c) \<Rightarrow>
                              (let n = n\<lparr>distance_child := c\<rparr>
                               in case child_state of
                                    RUNNING \<Rightarrow> Inr (RUNNING, n)
                                  | SUCCESS \<Rightarrow>
                                      (case p2 of
                                         None \<Rightarrow> Inr (FAILURE, n)
                                       | Some p \<Rightarrow> Inr (SUCCESS, n\<lparr>distance_start := p\<rparr>))
                                  | _ \<Rightarrow> Inr (FAILURE, n)))
                    else Inr (distance_status n, n))))"

section \<open>GoalUpdatedController\<close>

text \<open>\<open>g0\<close> and \<open>g1\<close> are the goal and the list of goals the blackboard holds at the two reads.\<close>

record ('c, 'g) goal_controller =
  goal_status :: node_status
  goal_goal :: 'g
  goal_goals :: "'g list"
  goal_was_updated :: bool
  goal_child :: 'c

definition goal_updated_tick ::
  "'c ticker \<Rightarrow> ('c \<Rightarrow> node_status) \<Rightarrow> 'g \<times> 'g list \<Rightarrow> 'g \<times> 'g list \<Rightarrow>
   ('c, 'g) goal_controller \<Rightarrow> bt_error + node_status \<times> ('c, 'g) goal_controller" where
  "goal_updated_tick tk cst g0 g1 n =
     (let n = (if goal_status n = IDLE
               then n\<lparr>goal_goals := snd g0, goal_goal := fst g0, goal_was_updated := True\<rparr> else n);
          n = n\<lparr>goal_status := RUNNING\<rparr>;
          n = (if goal_goal n \<noteq> fst g1 \<or> goal_goals n \<noteq> snd g1
               then n\<lparr>goal_goal := fst g1, goal_goals := snd g1, goal_was_updated := True\<rparr> else n)
      in if cst (goal_child n) = RUNNING \<or> goal_was_updated n then
           (let n = n\<lparr>goal_was_updated := False\<rparr>
            in case tk (goal_child n) of
                 Inl e \<Rightarrow> Inl e
               | Inr (child_state, c) \<Rightarrow> Inr (child_outcome child_state, n\<lparr>goal_child := c\<rparr>))
         else Inr (goal_status n, n))"

section \<open>SingleTrigger\<close>

record 'c single_trigger =
  single_status :: node_status
  single_first_time :: bool
  single_child :: 'c

definition single_tick :: "'c ticker \<Rightarrow> 'c single_trigger \<Rightarrow> bt_error + node_status \<times> 'c single_trigger" where
  "single_tick tk n =
     (let n = (if single_status n = IDLE then n\<lparr>single_first_time := True\<rparr> else n);
          n = n\<lparr>single_status := RUNNING\<rparr>
      in if single_first_time n then
           (case tk (single_child n) of
              Inl e \<Rightarrow> Inl e
            | Inr (child_state, c) \<Rightarrow>
                (let n = n\<lparr>single_child := c\<rparr>
                 in case child_state of
                      RUNNING \<Rightarrow> Inr (RUNNING, n)
                    | SUCCESS \<Rightarrow> Inr (SUCCESS, n\<lparr>single_first_time := False\<rparr>)
                    | _ \<Rightarrow> Inr (FAILURE, n\<lparr>single_first_time := False\<rparr>)))
         else Inr (FAILURE, n))"

section \<open>SpeedController\<close>

record ('c, 'g) speed_controller =
  speed_status :: node_status
  speed_start :: int
  speed_first_tick :: bool
  speed_period :: real
  min_rate :: real
  max_rate :: real
  min_speed :: real
  max_speed :: real
  speed_goal :: 'g
  speed_goals :: "'g list"
  speed_child :: 'c

text \<open>The constructor with the ports' values; the goals are default messages.\<close>

definition SpeedController ::
  "real \<Rightarrow> real \<Rightarrow> real \<Rightarrow> real \<Rightarrow> 'g \<Rightarrow> 'c \<Rightarrow> bt_error + ('c, 'g) speed_controller" where
  "SpeedController min_r max_r min_s max_s g c =
     (if min_r \<le> 0 \<or> max_r \<le> 0 then Inl BehaviorTreeException
      else Inr \<lparr>speed_status = IDLE, speed_start = 0, speed_first_tick = False, speed_period = 1,
        min_rate = min_r, max_rate = max_r, min_speed = min_s, max_speed = max_s,
        speed_goal = g, speed_goals = [], speed_child = c\<rparr>)"

definition d_rate :: "('c, 'g) speed_controller \<Rightarrow> real" where
  "d_rate n = max_rate n - min_rate n"

definition d_speed :: "('c, 'g) speed_controller \<Rightarrow> real" where
  "d_speed n = max_speed n - min_speed n"

definition getScaledRate :: "real \<Rightarrow> ('c, 'g) speed_controller \<Rightarrow> real" where
  "getScaledRate speed n =
     max (min ((speed - min_speed n) / d_speed n * d_rate n + min_rate n) (max_rate n)) (min_rate n)"

definition updatePeriod :: "real \<times> real \<Rightarrow> ('c, 'g) speed_controller \<Rightarrow> ('c, 'g) speed_controller" where
  "updatePeriod velocity n =
     (let speed = hypot (fst velocity) (snd velocity); rate = getScaledRate speed n
      in n\<lparr>speed_period := 1 / rate\<rparr>)"

definition speed_begin ::
  "'g \<times> 'g list \<Rightarrow> 'g \<times> 'g list \<Rightarrow> int \<Rightarrow> int \<Rightarrow> ('c, 'g) speed_controller \<Rightarrow> ('c, 'g) speed_controller" where
  "speed_begin g0 g1 t0 t1 n =
     (let n = (if speed_status n = IDLE
               then n\<lparr>speed_goals := snd g0, speed_goal := fst g0, speed_period := 1 / max_rate n,
                 speed_start := t0, speed_first_tick := True\<rparr> else n);
          n = (if speed_goal n \<noteq> fst g1 \<or> speed_goals n \<noteq> snd g1
               then n\<lparr>speed_period := 1 / max_rate n, speed_start := t1, speed_first_tick := True,
                 speed_goal := fst g1, speed_goals := snd g1\<rparr> else n)
      in n\<lparr>speed_status := RUNNING\<rparr>)"

text \<open>\<open>t0\<close> to \<open>t3\<close> are the readings of \<open>now()\<close> in their order, \<open>velocity\<close> the smoothed twist.\<close>

definition speed_tick ::
  "'c ticker \<Rightarrow> ('c \<Rightarrow> node_status) \<Rightarrow> 'g \<times> 'g list \<Rightarrow> 'g \<times> 'g list \<Rightarrow> real \<times> real \<Rightarrow>
   int \<Rightarrow> int \<Rightarrow> int \<Rightarrow> int \<Rightarrow> ('c, 'g) speed_controller \<Rightarrow>
   bt_error + node_status \<times> ('c, 'g) speed_controller" where
  "speed_tick tk cst g0 g1 velocity t0 t1 t2 t3 n =
     (let n = speed_begin g0 g1 t0 t1 n; elapsed = seconds (t2 - speed_start n)
      in if speed_first_tick n \<or> cst (speed_child n) = RUNNING \<or> elapsed \<ge> speed_period n then
           (let n = n\<lparr>speed_first_tick := False\<rparr>;
                n = (if elapsed \<ge> speed_period n then (updatePeriod velocity n)\<lparr>speed_start := t3\<rparr> else n)
            in case tk (speed_child n) of
                 Inl e \<Rightarrow> Inl e
               | Inr (child_state, c) \<Rightarrow> Inr (child_outcome child_state, n\<lparr>speed_child := c\<rparr>))
         else Inr (speed_status n, n))"

section \<open>PathLongerOnApproach\<close>

text \<open>A path is the list of its poses; \<open>rs\<close> is \<open>resetChild()\<close> of the library.\<close>

record ('c, 'q) path_longer =
  longer_status :: node_status
  longer_old_path :: "'q pose list"
  longer_first_time :: bool
  longer_child :: 'c

definition same_position :: "'q pose \<Rightarrow> 'q pose \<Rightarrow> bool" where
  "same_position p q \<longleftrightarrow> pos_x p = pos_x q \<and> pos_y p = pos_y q \<and> pos_z p = pos_z q"

definition isPathUpdated :: "'q pose list \<Rightarrow> 'q pose list \<Rightarrow> bool" where
  "isPathUpdated new_path old_path \<longleftrightarrow>
     length old_path \<noteq> 0 \<and> length new_path \<noteq> 0 \<and> length new_path \<noteq> length old_path \<and>
     same_position (last old_path) (last new_path)"

definition isRobotInGoalProximity :: "'q pose list \<Rightarrow> real \<Rightarrow> bool" where
  "isRobotInGoalProximity old_path prox_leng \<longleftrightarrow> calculate_path_length old_path 0 < prox_leng"

definition isNewPathLonger :: "'q pose list \<Rightarrow> 'q pose list \<Rightarrow> real \<Rightarrow> bool" where
  "isNewPathLonger new_path old_path length_factor \<longleftrightarrow>
     calculate_path_length new_path 0 > length_factor * calculate_path_length old_path 0"

definition path_longer_tick ::
  "'c ticker \<Rightarrow> ('c \<Rightarrow> 'c) \<Rightarrow> 'q pose list \<Rightarrow> real \<Rightarrow> real \<Rightarrow> ('c, 'q) path_longer \<Rightarrow>
   bt_error + node_status \<times> ('c, 'q) path_longer" where
  "path_longer_tick tk rs new_path prox_len length_factor n =
     (let old = longer_old_path n;
          n = (if \<not> longer_first_time n \<and> (old = [] \<or> new_path = [] \<or> last old \<noteq> last new_path)
               then n\<lparr>longer_first_time := True\<rparr> else n);
          n = n\<lparr>longer_status := RUNNING\<rparr>
      in if isPathUpdated new_path old \<and> isRobotInGoalProximity old prox_len \<and>
            isNewPathLonger new_path old length_factor \<and> \<not> longer_first_time n then
           (case tk (longer_child n) of
              Inl e \<Rightarrow> Inl e
            | Inr (child_state, c) \<Rightarrow>
                (let n = n\<lparr>longer_child := c\<rparr>
                 in case child_state of
                      RUNNING \<Rightarrow> Inr (child_state, n)
                    | IDLE \<Rightarrow> Inr (FAILURE, n\<lparr>longer_old_path := new_path\<rparr>)
                    | _ \<Rightarrow> Inr (child_state, n\<lparr>longer_old_path := new_path, longer_child := rs c\<rparr>)))
         else Inr (SUCCESS, n\<lparr>longer_old_path := new_path, longer_first_time := False\<rparr>))"

section \<open>GoalUpdater\<close>

text \<open>
  The last goal received (a default message, with stamp zero, before the first one) and the
  child. \<open>received\<close> are the messages \<open>spin_some\<close> hands to \<open>callback_updated_goal\<close>, \<open>stamp\<close> reads
  the stamp of a goal in nanoseconds. The tick returns the goal of the output port as well.
\<close>

record ('c, 'g) goal_updater =
  last_goal_received :: 'g
  updater_child :: 'c

definition callback_updated_goal :: "'g \<Rightarrow> ('c, 'g) goal_updater \<Rightarrow> ('c, 'g) goal_updater" where
  "callback_updated_goal msg n = n\<lparr>last_goal_received := msg\<rparr>"

definition goal_updater_tick ::
  "'c ticker \<Rightarrow> ('g \<Rightarrow> int) \<Rightarrow> 'g list \<Rightarrow> 'g \<Rightarrow> ('c, 'g) goal_updater \<Rightarrow>
   bt_error + 'g \<times> node_status \<times> ('c, 'g) goal_updater" where
  "goal_updater_tick tk stamp received goal n =
     (let n = fold callback_updated_goal received n;
          goal = (if stamp (last_goal_received n) \<noteq> 0 \<and> stamp (last_goal_received n) > stamp goal
                  then last_goal_received n else goal)
      in case tk (updater_child n) of
           Inl e \<Rightarrow> Inl e
         | Inr (s, c) \<Rightarrow> Inr (goal, s, n\<lparr>updater_child := c\<rparr>))"

section \<open>Runs of the rate controller\<close>

text \<open>
  A run is a list of ticks without a halt between them, each with its three readings of the clock;
  \<open>executeTick\<close> stores the status a tick returned. What a tick does is observed at the child: its state is
  paired with a count of its ticks. \<open>Started t\<close>: a child that was not running was ticked at \<open>t\<close>;
  \<open>Continued\<close>: a running child was ticked; \<open>Skipped t r\<close>: the child, running or not according to \<open>r\<close>, was not ticked at \<open>t\<close>;
  \<open>Succeeded t\<close>: the tick has returned success, the clock then reads \<open>t\<close>.
\<close>

datatype rate_event = Started int | Continued | Skipped int bool | Succeeded int

definition counted :: "'c ticker \<Rightarrow> ('c \<times> nat) ticker" where
  "counted tk x = (case tk (fst x) of Inl e \<Rightarrow> Inl e | Inr (s, c) \<Rightarrow> Inr (s, (c, Suc (snd x))))"

fun rate_events ::
  "'c ticker \<Rightarrow> ('c \<Rightarrow> node_status) \<Rightarrow> (int \<times> int \<times> int) list \<Rightarrow> ('c \<times> nat) rate_controller \<Rightarrow> rate_event list" where
  "rate_events tk cst [] n = []"
| "rate_events tk cst ((t0, now, t2) # ts) n =
     (case rate_tick (counted tk) (\<lambda>x. cst (fst x)) t0 now t2 n of
        Inl e \<Rightarrow> []
      | Inr (s, n') \<Rightarrow>
          (if snd (rate_child n') = snd (rate_child n) then Skipped now (cst (fst (rate_child n)) = RUNNING)
           else if cst (fst (rate_child n)) = RUNNING then Continued else Started now) #
          (if s = SUCCESS then [Succeeded t2] else []) @
          rate_events tk cst ts (n'\<lparr>rate_status := s\<rparr>))"

fun clock_ok :: "int \<Rightarrow> (int \<times> int \<times> int) list \<Rightarrow> bool" where
  "clock_ok t [] \<longleftrightarrow> True"
| "clock_ok t ((t0, now, t2) # ts) \<longleftrightarrow> t \<le> t0 \<and> t0 \<le> now \<and> now \<le> t2 \<and> clock_ok t2 ts"

text \<open>
  What the rate asks for: no child starts earlier than the period \<open>p\<close> after any success before; and exactly, with the
  time \<open>s\<close> of the last success (before the first, of the beginning of the run), the child is started at every tick from \<open>s + p\<close> on and at none before,
  except that it starts at once where \<open>first\<close> holds, and a running child is always ticked.
\<close>

definition spaced :: "real \<Rightarrow> rate_event list \<Rightarrow> bool" where
  "spaced p = sorted_wrt (\<lambda>e e'. \<forall>s t. e = Succeeded s \<and> e' = Started t \<longrightarrow> p \<le> seconds (t - s))"

fun paced :: "real \<Rightarrow> bool \<Rightarrow> int \<Rightarrow> rate_event list \<Rightarrow> bool" where
  "paced p first s [] \<longleftrightarrow> True"
| "paced p first s (Started t # es) \<longleftrightarrow> (first \<or> p \<le> seconds (t - s)) \<and> paced p False s es"
| "paced p first s (Continued # es) \<longleftrightarrow> paced p False s es"
| "paced p first s (Skipped t running # es) \<longleftrightarrow> \<not> first \<and> \<not> running \<and> seconds (t - s) < p \<and> paced p False s es"
| "paced p first s (Succeeded t # es) \<longleftrightarrow> \<not> first \<and> paced p False t es"

fun successes_from :: "int \<Rightarrow> rate_event list \<Rightarrow> bool" where
  "successes_from s [] \<longleftrightarrow> True"
| "successes_from s (Succeeded t # es) \<longleftrightarrow> s \<le> t \<and> successes_from t es"
| "successes_from s (e # es) \<longleftrightarrow> successes_from s es"

lemma seconds_mono: "s \<le> t \<Longrightarrow> seconds s \<le> seconds t"
  by (simp add: seconds_def divide_right_mono)

lemma paced_spaced:
  assumes "paced p first s es" and "successes_from s es"
  shows "spaced p es \<and> (\<not> first \<longrightarrow> (\<forall>t. Started t \<in> set es \<longrightarrow> p \<le> seconds (t - s)))"
  using assms
proof (induction p first s es rule: paced.induct)
  case (5 p first s t es)
  then have ih: "spaced p es" "\<forall>u. Started u \<in> set es \<longrightarrow> p \<le> seconds (u - t)" and le: "s \<le> t" by auto
  have "seconds (u - t) \<le> seconds (u - s)" for u using le by (intro seconds_mono) simp
  then have "\<forall>u. Started u \<in> set es \<longrightarrow> p \<le> seconds (u - s)" using ih(2) order_trans by blast
  then show ?case using ih by (auto simp: spaced_def)
qed (auto simp: spaced_def)

lemma rate_tick_cases:
  assumes "rate_tick tk cst t0 now t2 n = Inr (s, n')"
  shows "rate_period n' = rate_period n \<and> \<not> rate_first_time n' \<and> s \<noteq> IDLE \<and>
    rate_start n' = (if s = SUCCESS then t2 else rate_start (rate_begin t0 n))"
  using assms
  by (auto simp: rate_tick_def rate_begin_def Let_def split: sum.splits prod.splits node_status.splits if_splits)

text \<open>Whether the tick counts, and the only way it can succeed.\<close>

lemma rate_tick_ticks:
  assumes "rate_tick (counted tk) (\<lambda>x. cst (fst x)) t0 now t2 n = Inr (s, n')"
  shows "(snd (rate_child n') = snd (rate_child n) \<longleftrightarrow>
      \<not> (rate_status n = IDLE \<or> rate_first_time n \<or> cst (fst (rate_child n)) = RUNNING \<or>
        rate_period n \<le> seconds (now - rate_start n))) \<and>
    (s = SUCCESS \<longrightarrow> snd (rate_child n') \<noteq> snd (rate_child n))"
  using assms
  by (auto simp: rate_tick_def rate_begin_def counted_def Let_def
      split: sum.splits prod.splits node_status.splits if_splits)

lemma successes_from_le: "successes_from t es \<Longrightarrow> s \<le> t \<Longrightarrow> successes_from s es"
  by (induction t es rule: successes_from.induct) auto

lemma rate_events_ordered: "clock_ok t ts \<Longrightarrow> successes_from t (rate_events tk cst ts n)"
proof (induction ts arbitrary: t n)
  case (Cons x ts)
  obtain t0 now t2 where x: "x = (t0, now, t2)" by (cases x)
  then have t: "t \<le> t2" "clock_ok t2 ts" using Cons.prems by simp_all
  show ?case using Cons.IH [OF t(2)] t(1) by (auto simp: x intro: successes_from_le split: sum.splits prod.splits)
qed simp

lemma rate_events_paced:
  "paced (rate_period n) (rate_status n = IDLE \<or> rate_first_time n)
    (case ts of [] \<Rightarrow> 0 | x # _ \<Rightarrow> if rate_status n = IDLE then fst x else rate_start n) (rate_events tk cst ts n)"
proof (induction ts arbitrary: n)
  case (Cons x ts)
  obtain t0 now t2 where x: "x = (t0, now, t2)" by (cases x)
  show ?case
  proof (cases "rate_tick (counted tk) (\<lambda>x. cst (fst x)) t0 now t2 n")
    case (Inl e)
    then show ?thesis by (simp add: x)
  next
    case (Inr y)
    obtain s n' where y: "y = (s, n')" by (cases y)
    let ?n = "n'\<lparr>rate_status := s\<rparr>"
    note n' = rate_tick_cases [OF Inr [unfolded y]] and ticks = rate_tick_ticks [OF Inr [unfolded y]]
    have start: "rate_start (rate_begin t0 n) = (if rate_status n = IDLE then t0 else rate_start n)"
      by (simp add: rate_begin_def Let_def)
    have rest: "paced (rate_period n) False (rate_start n') (rate_events tk cst ts ?n)"
      using Cons.IH [of ?n] n' by (cases ts) auto
    show ?thesis using rest n' ticks start Inr by (auto simp: x y)
  qed
qed simp

section \<open>Runs of the single trigger\<close>

fun single_run :: "'c ticker \<Rightarrow> nat \<Rightarrow> 'c single_trigger \<Rightarrow> bt_error + node_status list \<times> 'c single_trigger" where
  "single_run tk 0 n = Inr ([], n)"
| "single_run tk (Suc k) n =
     (case single_tick tk n of
        Inl e \<Rightarrow> Inl e
      | Inr (s, n') \<Rightarrow>
          (case single_run tk k (n'\<lparr>single_status := s\<rparr>) of
             Inl e \<Rightarrow> Inl e
           | Inr (ss, n'') \<Rightarrow> Inr (s # ss, n'')))"

lemma single_run_done:
  assumes "\<not> single_first_time n" and "single_status n \<noteq> IDLE"
  shows "\<exists>n'. single_run tk k n = Inr (replicate k FAILURE, n') \<and> single_child n' = single_child n"
  using assms
proof (induction k arbitrary: n)
  case (Suc k)
  let ?n = "n\<lparr>single_status := FAILURE\<rparr>"
  have tick: "single_tick tk n = Inr (FAILURE, n\<lparr>single_status := RUNNING\<rparr>)"
    using Suc.prems by (simp add: single_tick_def)
  have "\<exists>n'. single_run tk k ?n = Inr (replicate k FAILURE, n') \<and> single_child n' = single_child ?n"
    by (rule Suc.IH) (use Suc.prems in simp_all)
  then obtain n' where "single_run tk k ?n = Inr (replicate k FAILURE, n')"
      "single_child n' = single_child n" by auto
  then show ?case
    by (simp add: tick)
qed simp

lemma single_run_shape:
  assumes "single_first_time n \<or> single_status n = IDLE" and "single_run tk k n = Inr (ss, n')"
  shows "ss = replicate k RUNNING \<or>
    (\<exists>i s. i < k \<and> s \<in> {SUCCESS, FAILURE} \<and> ss = replicate i RUNNING @ s # replicate (k - Suc i) FAILURE \<and>
      (\<exists>m. single_run tk (Suc i) n = Inr (replicate i RUNNING @ [s], m) \<and> single_child n' = single_child m))"
  using assms
proof (induction k arbitrary: n ss)
  case (Suc k)
  obtain s m where tick: "single_tick tk n = Inr (s, m)"
    using Suc.prems(2) by (auto split: sum.splits)
  let ?m = "m\<lparr>single_status := s\<rparr>"
  obtain ss' where rest: "single_run tk k ?m = Inr (ss', n')" and ss: "ss = s # ss'"
    using Suc.prems(2) tick by (auto split: sum.splits)
  have m: "s \<noteq> IDLE" "s = RUNNING \<longleftrightarrow> single_first_time m"
    using tick Suc.prems(1)
    by (auto simp: single_tick_def Let_def split: sum.splits prod.splits node_status.splits if_splits)
  show ?case
  proof (cases "s = RUNNING")
    case False
    then have "ss' = replicate k FAILURE" "single_child n' = single_child m"
      using single_run_done [of ?m tk k] m rest by auto
    then show ?thesis
      using False m(1) tick ss by (intro disjI2 exI [of _ 0] exI [of _ s]) (cases s; auto)
  next
    case True
    from Suc.IH [of ?m ss'] True m rest
    have "ss' = replicate k RUNNING \<or>
      (\<exists>i s. i < k \<and> s \<in> {SUCCESS, FAILURE} \<and> ss' = replicate i RUNNING @ s # replicate (k - Suc i) FAILURE \<and>
        (\<exists>m'. single_run tk (Suc i) ?m = Inr (replicate i RUNNING @ [s], m') \<and> single_child n' = single_child m'))"
      by auto
    then show ?thesis
    proof
      assume "ss' = replicate k RUNNING"
      then show ?thesis using True ss by simp
    next
      assume "\<exists>i s. i < k \<and> s \<in> {SUCCESS, FAILURE} \<and> ss' = replicate i RUNNING @ s # replicate (k - Suc i) FAILURE \<and>
        (\<exists>m'. single_run tk (Suc i) ?m = Inr (replicate i RUNNING @ [s], m') \<and> single_child n' = single_child m')"
      then obtain i u m' where *: "i < k" "u \<in> {SUCCESS, FAILURE}"
        "ss' = replicate i RUNNING @ u # replicate (k - Suc i) FAILURE"
        "single_run tk (Suc i) ?m = Inr (replicate i RUNNING @ [u], m')" "single_child n' = single_child m'"
        by blast
      have "single_run tk (Suc (Suc i)) n = Inr (replicate (Suc i) RUNNING @ [u], m')"
        using tick True *(4) by (subst single_run.simps) simp
      then show ?thesis
        using * ss True by (intro disjI2 exI [of _ "Suc i"] exI [of _ u]) auto
    qed
  qed
qed simp

section \<open>The period of the speed controller\<close>

lemma getScaledRate_bounds:
  "min_rate n \<le> max_rate n \<Longrightarrow> min_rate n \<le> getScaledRate v n \<and> getScaledRate v n \<le> max_rate n"
  by (auto simp: getScaledRate_def)

lemma getScaledRate_mono:
  assumes "v \<le> w" and "min_speed n < max_speed n" and "min_rate n \<le> max_rate n"
  shows "getScaledRate v n \<le> getScaledRate w n"
proof -
  have "(v - min_speed n) / d_speed n \<le> (w - min_speed n) / d_speed n"
    using assms by (intro divide_right_mono) (simp_all add: d_speed_def)
  then have "(v - min_speed n) / d_speed n * d_rate n \<le> (w - min_speed n) / d_speed n * d_rate n"
    using assms(3) by (intro mult_right_mono) (simp_all add: d_rate_def)
  then show ?thesis
    by (auto simp: getScaledRate_def max_def min_def)
qed

definition period_in_bounds :: "('c, 'g) speed_controller \<Rightarrow> bool" where
  "period_in_bounds n \<longleftrightarrow> 1 / max_rate n \<le> speed_period n \<and> speed_period n \<le> 1 / min_rate n"

lemma speed_begin_bounds:
  assumes "0 < min_rate n" and "min_rate n \<le> max_rate n" and "speed_status n = IDLE \<or> period_in_bounds n"
  shows "period_in_bounds (speed_begin g0 g1 t0 t1 n)"
  using assms by (auto simp: speed_begin_def period_in_bounds_def Let_def frac_le)

lemma updatePeriod_bounds:
  assumes "0 < min_rate n" and "min_rate n \<le> max_rate n"
  shows "period_in_bounds (updatePeriod v n)"
proof -
  have "min_rate n \<le> getScaledRate (hypot (fst v) (snd v)) n" "getScaledRate (hypot (fst v) (snd v)) n \<le> max_rate n"
    using getScaledRate_bounds [OF assms(2)] by auto
  then show ?thesis
    using assms(1) by (simp add: updatePeriod_def period_in_bounds_def frac_le)
qed

lemma period_in_bounds_cong:
  "speed_period m = speed_period n \<Longrightarrow> max_rate m = max_rate n \<Longrightarrow> min_rate m = min_rate n \<Longrightarrow>
   period_in_bounds m = period_in_bounds n"
  by (simp add: period_in_bounds_def)

lemma speed_begin_config [simp]:
  "min_rate (speed_begin g0 g1 t0 t1 n) = min_rate n" "max_rate (speed_begin g0 g1 t0 t1 n) = max_rate n"
  "min_speed (speed_begin g0 g1 t0 t1 n) = min_speed n" "max_speed (speed_begin g0 g1 t0 t1 n) = max_speed n"
  by (simp_all add: speed_begin_def Let_def)

lemma updatePeriod_config [simp]:
  "min_rate (updatePeriod v n) = min_rate n" "max_rate (updatePeriod v n) = max_rate n"
  "min_speed (updatePeriod v n) = min_speed n" "max_speed (updatePeriod v n) = max_speed n"
  by (simp_all add: updatePeriod_def Let_def)

lemma speed_tick_bounds:
  assumes "0 < min_rate n" and "min_rate n \<le> max_rate n" and "speed_status n = IDLE \<or> period_in_bounds n"
    and "speed_tick tk cst g0 g1 velocity t0 t1 t2 t3 n = Inr (s, n')"
  shows "period_in_bounds n' \<and> min_rate n' = min_rate n \<and> max_rate n' = max_rate n \<and>
    min_speed n' = min_speed n \<and> max_speed n' = max_speed n"
proof -
  define m where "m = speed_begin g0 g1 t0 t1 n"
  have m: "period_in_bounds m"
    using speed_begin_bounds [OF assms(1-3)] by (simp add: m_def)
  have up: "period_in_bounds (updatePeriod velocity (m\<lparr>speed_first_tick := False\<rparr>))"
    by (rule updatePeriod_bounds) (use assms(1,2) in \<open>simp_all add: m_def\<close>)
  have cong: "period_in_bounds n' \<longleftrightarrow> (if speed_period n' = speed_period m then period_in_bounds m
      else period_in_bounds (updatePeriod velocity (m\<lparr>speed_first_tick := False\<rparr>)))"
    using assms(4) unfolding speed_tick_def m_def [symmetric]
    by (auto simp: Let_def period_in_bounds_def updatePeriod_def getScaledRate_def d_speed_def d_rate_def
        split: sum.splits prod.splits if_splits)
  moreover have "min_rate n' = min_rate m \<and> max_rate n' = max_rate m \<and>
      min_speed n' = min_speed m \<and> max_speed n' = max_speed m"
    using assms(4) unfolding speed_tick_def m_def [symmetric]
    by (auto simp: Let_def split: sum.splits prod.splits if_splits)
  ultimately show ?thesis
    using m up by (simp add: m_def split: if_splits)
qed

lemma updatePeriod_antimono:
  assumes "hypot (fst v) (snd v) \<le> hypot (fst w) (snd w)" and "min_speed n < max_speed n"
    and "0 < min_rate n" and "min_rate n \<le> max_rate n"
  shows "speed_period (updatePeriod w n) \<le> speed_period (updatePeriod v n)"
proof -
  have "getScaledRate (hypot (fst v) (snd v)) n \<le> getScaledRate (hypot (fst w) (snd w)) n"
    by (rule getScaledRate_mono [OF assms(1,2,4)])
  moreover have "0 < getScaledRate (hypot (fst v) (snd v)) n"
    using getScaledRate_bounds [OF assms(4)] assms(3) by (smt (verit))
  ultimately show ?thesis
    by (simp add: updatePeriod_def frac_le)
qed

section \<open>Properties\<close>

text \<open>C31: in every run of ticks of \<open>RateController\<close> without a halt, a child that is not running is ticked
  again only when at least the period has passed since its last success, whatever the
  child does and however the ticks fall; and it is ticked at every tick from then on, at the very first tick of
  an idle node, and whenever it is running.\<close>

theorem rate_limit:
  assumes "clock_ok t ts" and "rate_status n = IDLE \<or> rate_start n \<le> t"
  shows "spaced (rate_period n) (rate_events tk cst ts n) \<and>
    paced (rate_period n) (rate_status n = IDLE \<or> rate_first_time n)
      (case ts of [] \<Rightarrow> 0 | x # _ \<Rightarrow> if rate_status n = IDLE then fst x else rate_start n) (rate_events tk cst ts n)"
proof -
  let ?s = "case ts of [] \<Rightarrow> 0 | x # _ \<Rightarrow> if rate_status n = IDLE then fst x else rate_start n"
  have "successes_from ?s (rate_events tk cst ts n)"
  proof (cases ts)
    case (Cons x xs)
    then have "clock_ok (fst x) ts" "t \<le> fst x" using assms(1) by (cases x; simp)+
    then show ?thesis
      using rate_events_ordered [OF assms(1)] rate_events_ordered [of "fst x" ts tk cst n] assms(2) Cons
      by (auto intro: successes_from_le)
  qed simp
  then show ?thesis using paced_spaced [OF rate_events_paced] rate_events_paced by blast
qed

theorem rate_limit_witness:
  "rate_events (\<lambda>c. Inr (SUCCESS, SUCCESS)) id [(10, 11, 12), (20, 21, 22), (600000000, 600000001, 600000002)] (RateController 2 (IDLE, 0)) =
      [Started 11, Succeeded 12, Skipped 21 False, Started 600000001, Succeeded 600000002] \<and>
    spaced (1 / 2) (rate_events (\<lambda>c. Inr (SUCCESS, SUCCESS)) id [(10, 11, 12), (20, 21, 22), (600000000, 600000001, 600000002)]
      (RateController 2 (IDLE, 0)))"
  using rate_limit [of 0 "[(10, 11, 12), (20, 21, 22), (600000000, 600000001, 600000002)]" "RateController 2 (IDLE, 0)"
      "\<lambda>c. Inr (SUCCESS, SUCCESS)" id]
  by (simp add: RateController_def rate_tick_def rate_begin_def counted_def seconds_def Let_def)

text \<open>In every run of \<open>SingleTrigger\<close> from its idle state the child is ticked until it completes
  and never again: the statuses are \<open>RUNNING\<close> until then, the child's result once, and
  \<open>FAILURE\<close> from there on, with the child as it was when it completed.\<close>

theorem single_trigger_once:
  assumes "single_status n = IDLE" and "single_run tk k n = Inr (ss, n')"
  shows "ss = replicate k RUNNING \<or>
    (\<exists>i s. i < k \<and> s \<in> {SUCCESS, FAILURE} \<and> ss = replicate i RUNNING @ s # replicate (k - Suc i) FAILURE \<and>
      (\<exists>m. single_run tk (Suc i) n = Inr (replicate i RUNNING @ [s], m) \<and> single_child n' = single_child m))"
  by (rule single_run_shape) (use assms in simp_all)

theorem single_trigger_once_witness:
  "[RUNNING, SUCCESS, FAILURE] = replicate 3 RUNNING \<or>
    (\<exists>i s. i < 3 \<and> s \<in> {SUCCESS, FAILURE} \<and>
      [RUNNING, SUCCESS, FAILURE] = replicate i RUNNING @ s # replicate (3 - Suc i) FAILURE \<and>
      (\<exists>m. single_run (\<lambda>c. Inr (if c = (0 :: nat) then RUNNING else SUCCESS, c + 1)) (Suc i)
          \<lparr>single_status = IDLE, single_first_time = True, single_child = 0\<rparr>
        = Inr (replicate i RUNNING @ [s], m) \<and>
        single_child \<lparr>single_status = FAILURE, single_first_time = False, single_child = (2 :: nat)\<rparr> = single_child m))"
  by (rule single_trigger_once) (simp_all add: single_tick_def numeral_3_eq_3)

text \<open>The speed controller's period stays between the periods of its largest and its smallest
  rate over every tick, whatever the speed, the goals and the clock, and a faster robot never
  gets a longer period.\<close>

theorem speed_period_bounds:
  assumes "0 < min_rate n" and "min_rate n \<le> max_rate n" and "min_speed n < max_speed n"
    and "speed_status n = IDLE \<or> period_in_bounds n"
    and "speed_tick tk cst g0 g1 velocity t0 t1 t2 t3 n = Inr (s, n')"
  shows "period_in_bounds n' \<and>
    (hypot (fst v) (snd v) \<le> hypot (fst w) (snd w) \<longrightarrow>
      speed_period (updatePeriod w n') \<le> speed_period (updatePeriod v n'))"
  using speed_tick_bounds [OF assms(1,2,4,5)] updatePeriod_antimono [of v w n'] assms(1-3) by simp

definition demo_speed :: "bool \<Rightarrow> (node_status, nat) speed_controller" where
  "demo_speed started = \<lparr>speed_status = if started then RUNNING else IDLE, speed_start = if started then 5 else 0,
     speed_first_tick = False, speed_period = 1, min_rate = 1 / 2, max_rate = 1, min_speed = 0, max_speed = 1,
     speed_goal = if started then 7 else 0, speed_goals = [], speed_child = SUCCESS\<rparr>"

theorem speed_period_bounds_witness:
  "period_in_bounds (demo_speed True) \<and>
    speed_period (updatePeriod (1, 0) (demo_speed True)) \<le> speed_period (updatePeriod (0, 0) (demo_speed True))"
proof -
  have tick: "speed_tick (\<lambda>c. Inr (SUCCESS, c)) id (7, []) (7, []) (0, 0) 5 6 7 8 (demo_speed False)
      = Inr (SUCCESS, demo_speed True)"
    by (simp add: demo_speed_def speed_tick_def speed_begin_def seconds_def)
  have faster: "hypot (fst (0, 0)) (snd (0, 0)) \<le> hypot (fst (1, 0)) (snd (1, 0))"
    by (simp add: hypot_def)
  show ?thesis
    using speed_period_bounds [OF _ _ _ _ tick, of "(0, 0)" "(1, 0)"] faster by (simp add: demo_speed_def)
qed

end
