(* ===== verification/Machine_Numbers.thy ===== *)
theory Machine_Numbers
  imports Prelude Complex_Main
begin

text \<open>
  Conversions of floating point numbers, which are real numbers here, to the integer types of the
  sources, and checked arithmetic of \<open>int\<close>: a conversion of a value that does not fit and a signed
  overflow are undefined behaviour, \<open>None\<close>.
\<close>

definition trunc :: "real \<Rightarrow> int" where
  "trunc x = (if x \<ge> 0 then \<lfloor>x\<rfloor> else \<lceil>x\<rceil>)"

definition real_to_u32 :: "real \<Rightarrow> u32 option" where
  "real_to_u32 x = (if -1 < x \<and> x < 2 ^ 32 then Some (word_of_int (trunc x)) else None)"

definition real_to_int :: "real \<Rightarrow> int option" where
  "real_to_int x = (if - (2 ^ 31) - 1 < x \<and> x < 2 ^ 31 then Some (trunc x) else None)"

text \<open>The result of an \<open>int\<close> operation.\<close>

definition int32 :: "int \<Rightarrow> int option" where
  "int32 i = (if - (2 ^ 31) \<le> i \<and> i < 2 ^ 31 then Some i else None)"

definition round_away :: "real \<Rightarrow> int" where
  "round_away x = (if x \<ge> 0 then \<lfloor>x + 1 / 2\<rfloor> else \<lceil>x - 1 / 2\<rceil>)"

end
