(* ===== verification/Costmap_Grid.thy ===== *)
theory Costmap_Grid
  imports Machine_Numbers
begin

text \<open>
  The class \<open>Costmap2D\<close> of \<open>nav2_costmap_2d/src/costmap_2d.cpp\<close>: the grid of costs, its index
  arithmetic in 32-bit unsigned integers, the conversions between cells and world coordinates,
  the rectangular copies and the move of the origin. A \<open>double\<close> is a real number. The char map is
  the list of its bytes, a null pointer the empty list; an access outside it, a conversion of a
  \<open>double\<close> that does not fit its integer type and a signed overflow are undefined behaviour,
  \<open>None\<close>. What uninitialised memory holds is the argument \<open>nb\<close> of the operations that allocate.
\<close>

section \<open>The class\<close>

definition NO_INFORMATION :: u8 where "NO_INFORMATION = 255"
definition LETHAL_OBSTACLE :: u8 where "LETHAL_OBSTACLE = 254"
definition INSCRIBED_INFLATED_OBSTACLE :: u8 where "INSCRIBED_INFLATED_OBSTACLE = 253"
definition MAX_NON_OBSTACLE :: u8 where "MAX_NON_OBSTACLE = 252"
definition FREE_SPACE :: u8 where "FREE_SPACE = 0"

definition OCC_GRID_UNKNOWN :: int where "OCC_GRID_UNKNOWN = -1"
definition OCC_GRID_FREE :: int where "OCC_GRID_FREE = 0"
definition OCC_GRID_OCCUPIED :: int where "OCC_GRID_OCCUPIED = 100"

lemmas cost_values = NO_INFORMATION_def LETHAL_OBSTACLE_def INSCRIBED_INFLATED_OBSTACLE_def
  MAX_NON_OBSTACLE_def FREE_SPACE_def

record costmap =
  size_x :: u32
  size_y :: u32
  resolution :: real
  origin_x :: real
  origin_y :: real
  costs :: "u8 list"
  default_value :: u8

definition deleteMaps :: "costmap \<Rightarrow> costmap" where
  "deleteMaps m = m\<lparr>costs := []\<rparr>"

definition initMaps :: "(nat \<Rightarrow> u8) \<Rightarrow> u32 \<Rightarrow> u32 \<Rightarrow> costmap \<Rightarrow> costmap" where
  "initMaps nb sx sy m = m\<lparr>costs := map nb [0..<unat (sx * sy)]\<rparr>"

definition memset :: "u8 list \<Rightarrow> nat \<Rightarrow> u8 \<Rightarrow> nat \<Rightarrow> u8 list option" where
  "memset mem p v n = (if n = 0 then Some mem else store mem p (replicate n v))"

definition resetMaps :: "costmap \<Rightarrow> costmap option" where
  "resetMaps m = do {
     cs \<leftarrow> memset (costs m) 0 (default_value m) (unat (size_x m * size_y m));
     Some (m\<lparr>costs := cs\<rparr>)
   }"

definition Costmap2D ::
  "(nat \<Rightarrow> u8) \<Rightarrow> u32 \<Rightarrow> u32 \<Rightarrow> real \<Rightarrow> real \<Rightarrow> real \<Rightarrow> u8 \<Rightarrow> costmap option" where
  "Costmap2D nb sx sy res ox oy dv =
     resetMaps (initMaps nb sx sy \<lparr>size_x = sx, size_y = sy, resolution = res, origin_x = ox,
       origin_y = oy, costs = [], default_value = dv\<rparr>)"

text \<open>
  The constructor from an occupancy grid: one entry of its data, an \<open>int8_t\<close>, and the loop. The
  rounded value has to fit an \<open>unsigned char\<close>.
\<close>

definition cost_of_occupancy :: "int \<Rightarrow> u8 option" where
  "cost_of_occupancy data =
     (if data = OCC_GRID_UNKNOWN then Some NO_INFORMATION
      else
        (let r = round_away (real_of_int data * real_of_int (uint LETHAL_OBSTACLE - uint FREE_SPACE) /
               real_of_int (OCC_GRID_OCCUPIED - OCC_GRID_FREE))
         in if 0 \<le> r \<and> r < 256 then Some (word_of_int r) else None))"

fun convert_cells :: "nat \<Rightarrow> int list \<Rightarrow> u8 list option" where
  "convert_cells 0 ds = Some []"
| "convert_cells (Suc n) [] = None"
| "convert_cells (Suc n) (d # ds) = do {
     c \<leftarrow> cost_of_occupancy d;
     cs \<leftarrow> convert_cells n ds;
     Some (c # cs)
   }"

definition Costmap2D_of_grid :: "u32 \<Rightarrow> u32 \<Rightarrow> real \<Rightarrow> real \<Rightarrow> real \<Rightarrow> int list \<Rightarrow> costmap option" where
  "Costmap2D_of_grid width height res ox oy data = do {
     cs \<leftarrow> convert_cells (unat (width * height)) data;
     Some \<lparr>size_x = width, size_y = height, resolution = res, origin_x = ox, origin_y = oy,
       costs = cs, default_value = FREE_SPACE\<rparr>
   }"

definition resizeMap ::
  "(nat \<Rightarrow> u8) \<Rightarrow> u32 \<Rightarrow> u32 \<Rightarrow> real \<Rightarrow> real \<Rightarrow> real \<Rightarrow> costmap \<Rightarrow> costmap option" where
  "resizeMap nb sx sy res ox oy m =
     resetMaps (initMaps nb sx sy
       (m\<lparr>size_x := sx, size_y := sy, resolution := res, origin_x := ox, origin_y := oy\<rparr>))"

text \<open>
  \<open>resetMapToValue\<close>: the loop over row offsets. Its counter is unsigned and may wrap around, in
  which case the loop may not end.
\<close>

partial_function (option) reset_rows :: "u32 \<Rightarrow> u8 \<Rightarrow> nat \<Rightarrow> u32 \<Rightarrow> u32 \<Rightarrow> u8 list \<Rightarrow> u8 list option" where
  "reset_rows sx value len end y cs =
     (if y < end then do {
        cs \<leftarrow> memset cs (unat y) value len;
        reset_rows sx value len end (y + sx) cs
      }
      else Some cs)"

definition resetMapToValue :: "u32 \<Rightarrow> u32 \<Rightarrow> u32 \<Rightarrow> u32 \<Rightarrow> u8 \<Rightarrow> costmap \<Rightarrow> costmap option" where
  "resetMapToValue x0 y0 xn yn value m =
     (let len = xn - x0
      in do {
        cs \<leftarrow> reset_rows (size_x m) value (unat len) (yn * size_x m + x0) (y0 * size_x m + x0) (costs m);
        Some (m\<lparr>costs := cs\<rparr>)
      })"

definition resetMap :: "u32 \<Rightarrow> u32 \<Rightarrow> u32 \<Rightarrow> u32 \<Rightarrow> costmap \<Rightarrow> costmap option" where
  "resetMap x0 y0 xn yn m = resetMapToValue x0 y0 xn yn (default_value m) m"

section \<open>Cells and world coordinates\<close>

definition getIndex :: "costmap \<Rightarrow> u32 \<Rightarrow> u32 \<Rightarrow> u32" where
  "getIndex m mx my = my * size_x m + mx"

definition indexToCells :: "costmap \<Rightarrow> u32 \<Rightarrow> (u32 \<times> u32) option" where
  "indexToCells m index =
     (if size_x m = 0 then None
      else let my = index div size_x m; mx = index - my * size_x m in Some (mx, my))"

definition getCost :: "costmap \<Rightarrow> u32 \<Rightarrow> u32 \<Rightarrow> u8 option" where
  "getCost m mx my = mem_at (costs m) (unat (getIndex m mx my))"

definition setCost :: "u32 \<Rightarrow> u32 \<Rightarrow> u8 \<Rightarrow> costmap \<Rightarrow> costmap option" where
  "setCost mx my cost m = do {
     cs \<leftarrow> store (costs m) (unat (getIndex m mx my)) [cost];
     Some (m\<lparr>costs := cs\<rparr>)
   }"

definition mapToWorld :: "costmap \<Rightarrow> u32 \<Rightarrow> u32 \<Rightarrow> real \<times> real" where
  "mapToWorld m mx my =
     (origin_x m + (real (unat mx) + 1 / 2) * resolution m,
      origin_y m + (real (unat my) + 1 / 2) * resolution m)"

text \<open>\<open>Some None\<close> is the result \<open>false\<close>, \<open>Some (Some (mx, my))\<close> the result \<open>true\<close>.\<close>

definition worldToMap :: "costmap \<Rightarrow> real \<Rightarrow> real \<Rightarrow> (u32 \<times> u32) option option" where
  "worldToMap m wx wy =
     (if wx < origin_x m \<or> wy < origin_y m then Some None
      else do {
        mx \<leftarrow> real_to_u32 ((wx - origin_x m) / resolution m);
        my \<leftarrow> real_to_u32 ((wy - origin_y m) / resolution m);
        Some (if mx < size_x m \<and> my < size_y m then Some (mx, my) else None)
      })"

definition worldToMapNoBounds :: "costmap \<Rightarrow> real \<Rightarrow> real \<Rightarrow> (int \<times> int) option" where
  "worldToMapNoBounds m wx wy = do {
     mx \<leftarrow> real_to_int ((wx - origin_x m) / resolution m);
     my \<leftarrow> real_to_int ((wy - origin_y m) / resolution m);
     Some (mx, my)
   }"

definition enforce_axis :: "real \<Rightarrow> u32 \<Rightarrow> real \<Rightarrow> real \<Rightarrow> int option" where
  "enforce_axis res sz origin w =
     (if w < origin then Some 0
      else if w > res * real (unat sz) + origin then Some (sint (sz - 1))
      else real_to_int ((w - origin) / res))"

definition worldToMapEnforceBounds :: "costmap \<Rightarrow> real \<Rightarrow> real \<Rightarrow> (int \<times> int) option" where
  "worldToMapEnforceBounds m wx wy = do {
     mx \<leftarrow> enforce_axis (resolution m) (size_x m) (origin_x m) wx;
     my \<leftarrow> enforce_axis (resolution m) (size_y m) (origin_y m) wy;
     Some (mx, my)
   }"

definition cellDistance :: "real \<Rightarrow> costmap \<Rightarrow> u32 option" where
  "cellDistance world_dist m = real_to_u32 (max 0 (real_of_int \<lceil>world_dist / resolution m\<rceil>))"

definition getSizeInMetersX :: "costmap \<Rightarrow> real" where
  "getSizeInMetersX m = (real (unat (size_x m - 1)) + 1 / 2) * resolution m"

definition getSizeInMetersY :: "costmap \<Rightarrow> real" where
  "getSizeInMetersY m = (real (unat (size_y m - 1)) + 1 / 2) * resolution m"

section \<open>Copies\<close>

text \<open>No access takes place for zero bytes, whatever the pointers.\<close>

definition memcpy :: "u8 list \<Rightarrow> nat \<Rightarrow> u8 list \<Rightarrow> nat \<Rightarrow> nat \<Rightarrow> u8 list option" where
  "memcpy dm di sm si n =
     (if n = 0 then Some dm else do { bs \<leftarrow> load sm si n; store dm di bs })"

text \<open>\<open>copyMapRegion\<close>: one \<open>memcpy\<close> per row, both pointers advancing by the width of their map.\<close>

fun copy_rows :: "nat \<Rightarrow> u8 list \<Rightarrow> nat \<Rightarrow> nat \<Rightarrow> u8 list \<Rightarrow> nat \<Rightarrow> nat \<Rightarrow> nat \<Rightarrow> u8 list option" where
  "copy_rows 0 sm si ss dm di ds n = Some dm"
| "copy_rows (Suc k) sm si ss dm di ds n = do {
     dm \<leftarrow> memcpy dm di sm si n;
     copy_rows k sm (si + ss) ss dm (di + ds) ds n
   }"

definition copyMapRegion ::
  "u8 list \<Rightarrow> u32 \<Rightarrow> u32 \<Rightarrow> u32 \<Rightarrow> u8 list \<Rightarrow> u32 \<Rightarrow> u32 \<Rightarrow> u32 \<Rightarrow> u32 \<Rightarrow> u32 \<Rightarrow> u8 list option" where
  "copyMapRegion source_map sm_x sm_y sm_size_x dest_map dm_x dm_y dm_size_x region_size_x region_size_y =
     copy_rows (unat region_size_y) source_map (unat (sm_y * sm_size_x + sm_x)) (unat sm_size_x)
       dest_map (unat (dm_y * dm_size_x + dm_x)) (unat dm_size_x) (unat region_size_x)"

text \<open>\<open>self\<close> is the test \<open>this == &map\<close>, \<open>src\<close> the argument \<open>map\<close>.\<close>

definition copyCostmapWindow ::
  "(nat \<Rightarrow> u8) \<Rightarrow> bool \<Rightarrow> costmap \<Rightarrow> real \<Rightarrow> real \<Rightarrow> real \<Rightarrow> real \<Rightarrow> costmap \<Rightarrow> (bool \<times> costmap) option" where
  "copyCostmapWindow nb self src win_origin_x win_origin_y win_size_x win_size_y m =
     (if self then Some (False, m)
      else do {
        let m = deleteMaps m;
        lower_left \<leftarrow> worldToMap src win_origin_x win_origin_y;
        (case lower_left of
           None \<Rightarrow> Some (False, m)
         | Some (lower_left_x, lower_left_y) \<Rightarrow> do {
             upper_right \<leftarrow> worldToMap src (win_origin_x + win_size_x) (win_origin_y + win_size_y);
             (case upper_right of
                None \<Rightarrow> Some (False, m)
              | Some (upper_right_x, upper_right_y) \<Rightarrow> do {
                  let m = m\<lparr>size_x := upper_right_x - lower_left_x, size_y := upper_right_y - lower_left_y,
                    resolution := resolution src, origin_x := win_origin_x, origin_y := win_origin_y\<rparr>;
                  let m = initMaps nb (size_x m) (size_y m) m;
                  cs \<leftarrow> copyMapRegion (costs src) lower_left_x lower_left_y (size_x src)
                    (costs m) 0 0 (size_x m) (size_x m) (size_y m);
                  Some (True, m\<lparr>costs := cs\<rparr>)
                })
           })
      })"

definition copyWindow ::
  "costmap \<Rightarrow> u32 \<Rightarrow> u32 \<Rightarrow> u32 \<Rightarrow> u32 \<Rightarrow> u32 \<Rightarrow> u32 \<Rightarrow> costmap \<Rightarrow> (bool \<times> costmap) option" where
  "copyWindow source sx0 sy0 sxn syn dx0 dy0 m =
     (let sz_x = sxn - sx0; sz_y = syn - sy0
      in if sxn > size_x source \<or> syn > size_y source then Some (False, m)
         else if dx0 + sz_x > size_x m \<or> dy0 + sz_y > size_y m then Some (False, m)
         else do {
           cs \<leftarrow> copyMapRegion (costs source) sx0 sy0 (size_x source) (costs m) dx0 dy0 (size_x m) sz_x sz_y;
           Some (True, m\<lparr>costs := cs\<rparr>)
         })"

text \<open>\<open>operator=\<close>, and the copy constructor, which leaves \<open>default_value_\<close> as it is in memory.\<close>

definition assign_map :: "(nat \<Rightarrow> u8) \<Rightarrow> bool \<Rightarrow> costmap \<Rightarrow> costmap \<Rightarrow> costmap option" where
  "assign_map nb self src m =
     (if self then Some m
      else do {
        let m = (deleteMaps m)\<lparr>size_x := size_x src, size_y := size_y src, resolution := resolution src,
          origin_x := origin_x src, origin_y := origin_y src\<rparr>;
        let m = initMaps nb (size_x m) (size_y m) m;
        cs \<leftarrow> memcpy (costs m) 0 (costs src) 0 (unat (size_x m * size_y m));
        Some (m\<lparr>costs := cs\<rparr>)
      })"

definition Costmap2D_copy :: "(nat \<Rightarrow> u8) \<Rightarrow> costmap \<Rightarrow> costmap \<Rightarrow> costmap option" where
  "Costmap2D_copy nb raw src = assign_map nb False src (raw\<lparr>costs := []\<rparr>)"

definition updateOrigin :: "(nat \<Rightarrow> u8) \<Rightarrow> real \<Rightarrow> real \<Rightarrow> costmap \<Rightarrow> costmap option" where
  "updateOrigin nb new_origin_x new_origin_y m = do {
     cell_ox \<leftarrow> real_to_int ((new_origin_x - origin_x m) / resolution m);
     cell_oy \<leftarrow> real_to_int ((new_origin_y - origin_y m) / resolution m);
     let new_grid_ox = origin_x m + real_of_int cell_ox * resolution m;
     let new_grid_oy = origin_y m + real_of_int cell_oy * resolution m;
     let sx = sint (size_x m);
     let sy = sint (size_y m);
     end_x \<leftarrow> int32 (cell_ox + sx);
     end_y \<leftarrow> int32 (cell_oy + sy);
     let lower_left_x = min (max cell_ox 0) sx;
     let lower_left_y = min (max cell_oy 0) sy;
     let upper_right_x = min (max end_x 0) sx;
     let upper_right_y = min (max end_y 0) sy;
     let cell_size_x = word_of_int (upper_right_x - lower_left_x);
     let cell_size_y = word_of_int (upper_right_y - lower_left_y);
     local_map \<leftarrow> copyMapRegion (costs m) (word_of_int lower_left_x) (word_of_int lower_left_y) (size_x m)
       (map nb [0..<unat (cell_size_x * cell_size_y)]) 0 0 cell_size_x cell_size_x cell_size_y;
     m \<leftarrow> resetMaps m;
     let m = m\<lparr>origin_x := new_grid_ox, origin_y := new_grid_oy\<rparr>;
     start_x \<leftarrow> int32 (lower_left_x - cell_ox);
     start_y \<leftarrow> int32 (lower_left_y - cell_oy);
     cs \<leftarrow> copyMapRegion local_map 0 0 cell_size_x (costs m) (word_of_int start_x) (word_of_int start_y)
       (size_x m) cell_size_x cell_size_y;
     Some (m\<lparr>costs := cs\<rparr>)
   }"

section \<open>Index arithmetic\<close>

text \<open>
  A grid in order: its bytes are there, their number fits the unsigned index, and the resolution
  is positive.
\<close>

definition grid_ok :: "costmap \<Rightarrow> bool" where
  "grid_ok m \<longleftrightarrow> unat (size_x m) * unat (size_y m) < 2 ^ 32 \<and>
     length (costs m) = unat (size_x m) * unat (size_y m) \<and> 0 < resolution m"

lemma cell_index_less: "x < w \<Longrightarrow> y < h \<Longrightarrow> y * w + x < w * (h :: nat)"
proof -
  assume "x < w" and "y < h"
  then have "y * w + x < Suc y * w" and "Suc y * w \<le> h * w"
    by (simp, intro mult_le_mono1, simp)
  then show ?thesis by (simp add: mult.commute)
qed

lemma cell_index_inj:
  assumes "x < w" and "x' < w" and "y * w + x = y' * w + (x' :: nat)"
  shows "x = x' \<and> y = y'"
proof -
  have "(y * w + x) mod w = x" "(y' * w + x') mod w = x'"
    using assms(1,2) by simp_all
  moreover have "(y * w + x) div w = y" "(y' * w + x') div w = y'"
    using assms(1,2) by simp_all
  ultimately show ?thesis using assms(3) by metis
qed

lemma unat_mult_small: "unat a * unat b < 2 ^ 32 \<Longrightarrow> unat (a * b :: u32) = unat a * unat b"
  by (simp add: unat_word_ariths)

lemma unat_index:
  assumes "unat y * unat w + unat x < 2 ^ 32"
  shows "unat (y * w + x :: u32) = unat y * unat w + unat x"
proof -
  have "unat (y * w) = unat y * unat w"
    using assms by (intro unat_mult_small) linarith
  then show ?thesis
    using assms by (simp add: unat_word_ariths)
qed

lemma getIndex_unat:
  assumes "grid_ok m" and "mx < size_x m" and "my < size_y m"
  shows "unat (getIndex m mx my) = unat my * unat (size_x m) + unat mx"
    and "unat (getIndex m mx my) < length (costs m)"
proof -
  have *: "unat my * unat (size_x m) + unat mx < unat (size_x m) * unat (size_y m)"
    using assms(2,3) by (intro cell_index_less) (simp_all add: word_less_nat_alt)
  then show "unat (getIndex m mx my) = unat my * unat (size_x m) + unat mx"
    unfolding getIndex_def using assms(1) by (intro unat_index) (simp add: grid_ok_def)
  with * show "unat (getIndex m mx my) < length (costs m)"
    using assms(1) by (simp add: grid_ok_def)
qed

lemma indexToCells_getIndex:
  assumes "grid_ok m" and "mx < size_x m" and "my < size_y m"
  shows "indexToCells m (getIndex m mx my) = Some (mx, my)"
proof -
  let ?i = "getIndex m mx my"
  have i: "unat ?i = unat my * unat (size_x m) + unat mx"
    by (rule getIndex_unat(1) [OF assms])
  have x: "unat mx < unat (size_x m)"
    using assms(2) by (simp add: word_less_nat_alt)
  then have "unat (?i div size_x m) = unat my"
    by (simp add: unat_div i)
  then have div: "?i div size_x m = my" by (simp add: word_unat_eq_iff)
  have "?i - my * size_x m = mx" by (simp add: getIndex_def)
  moreover have "size_x m \<noteq> 0" using assms(2) by auto
  ultimately show ?thesis by (simp add: indexToCells_def div)
qed

lemma getIndex_indexToCells:
  assumes "indexToCells m i = Some (mx, my)"
  shows "getIndex m mx my = i"
  using assms by (auto simp: indexToCells_def getIndex_def Let_def split: if_splits)

lemma indexToCells_bounds:
  assumes "grid_ok m" and "unat i < length (costs m)"
  shows "\<exists>mx my. indexToCells m i = Some (mx, my) \<and> mx < size_x m \<and> my < size_y m"
proof -
  have nz: "unat (size_x m) > 0"
    using assms by (auto simp: grid_ok_def intro: Nat.gr0I)
  let ?y = "i div size_x m"
  have y: "unat ?y = unat i div unat (size_x m)" by (simp add: unat_div)
  have "unat i div unat (size_x m) < unat (size_y m)"
    using assms nz by (simp add: grid_ok_def less_mult_imp_div_less mult.commute)
  moreover have "unat (?y * size_x m) = unat i div unat (size_x m) * unat (size_x m)"
    using div_times_less_eq_dividend [of "unat i" "unat (size_x m)"] unsigned_less [of i, where 'a = nat]
    by (subst unat_mult_small) (simp_all add: y del: div_times_less_eq_dividend)
  then have "unat (i - ?y * size_x m) = unat i mod unat (size_x m)"
    by (subst unat_sub) (simp_all add: word_le_nat_alt minus_div_mult_eq_mod)
  ultimately show ?thesis
    using nz by (auto simp: indexToCells_def Let_def word_less_nat_alt y)
qed

section \<open>Block copies\<close>

lemma memcpy_spec:
  assumes "0 < n \<Longrightarrow> si + n \<le> length sm \<and> di + n \<le> length dm"
  shows "\<exists>dm'. memcpy dm di sm si n = Some dm' \<and> length dm' = length dm \<and>
    (\<forall>i < length dm. dm' ! i = (if di \<le> i \<and> i < di + n then sm ! (si + (i - di)) else dm ! i))"
proof (cases "n = 0")
  case False
  then have le: "si + n \<le> length sm" "di + n \<le> length dm" using assms by auto
  then have "memcpy dm di sm si n = Some (blit dm di (window sm si n))"
    using False by (simp add: memcpy_def load_Some store_Some)
  then show ?thesis
    using le by (auto simp: nth_blit nth_window)
qed (auto simp: memcpy_def)

lemma row_positions:
  assumes "n \<le> w" and "r * w + c = r' * w + c'" and "c < n" and "c' < (n :: nat)"
  shows "r = r' \<and> c = c'"
  using cell_index_inj [of c w c' r r'] assms by auto

lemma copy_rows_spec:
  assumes "n \<le> ds"
    and "0 < k \<Longrightarrow> 0 < n \<Longrightarrow> si + (k - 1) * ss + n \<le> length sm \<and> di + (k - 1) * ds + n \<le> length dm"
  shows "\<exists>dm'. copy_rows k sm si ss dm di ds n = Some dm' \<and> length dm' = length dm \<and>
    (\<forall>r < k. \<forall>c < n. dm' ! (di + r * ds + c) = sm ! (si + r * ss + c)) \<and>
    (\<forall>i < length dm. (\<forall>r < k. \<forall>c < n. i \<noteq> di + r * ds + c) \<longrightarrow> dm' ! i = dm ! i)"
  using assms
proof (induction k arbitrary: si di dm)
  case (Suc k)
  have one: "0 < n \<Longrightarrow> si + n \<le> length sm \<and> di + n \<le> length dm"
    using Suc.prems(2) by auto
  then obtain d1 where d1: "memcpy dm di sm si n = Some d1" "length d1 = length dm"
    "\<forall>i < length dm. d1 ! i = (if di \<le> i \<and> i < di + n then sm ! (si + (i - di)) else dm ! i)"
    using memcpy_spec [of n si sm di dm] by blast
  have "\<exists>dm'. copy_rows k sm (si + ss) ss d1 (di + ds) ds n = Some dm' \<and> length dm' = length d1 \<and>
    (\<forall>r < k. \<forall>c < n. dm' ! (di + ds + r * ds + c) = sm ! (si + ss + r * ss + c)) \<and>
    (\<forall>i < length d1. (\<forall>r < k. \<forall>c < n. i \<noteq> di + ds + r * ds + c) \<longrightarrow> dm' ! i = d1 ! i)"
  proof (rule Suc.IH [OF Suc.prems(1)])
    assume "0 < k" "0 < n"
    then show "si + ss + (k - 1) * ss + n \<le> length sm \<and> di + ds + (k - 1) * ds + n \<le> length d1"
      using Suc.prems(2) d1(2) by (cases k) simp_all
  qed
  then obtain d2 where d2: "copy_rows k sm (si + ss) ss d1 (di + ds) ds n = Some d2"
    "length d2 = length d1"
    "\<forall>r < k. \<forall>c < n. d2 ! (di + Suc r * ds + c) = sm ! (si + Suc r * ss + c)"
    "\<forall>i < length d1. (\<forall>r < k. \<forall>c < n. i \<noteq> di + Suc r * ds + c) \<longrightarrow> d2 ! i = d1 ! i"
    by (auto simp: add.assoc)
  have "d2 ! (di + r * ds + c) = sm ! (si + r * ss + c)" if rc: "r < Suc k" "c < n" for r c
  proof (cases r)
    case 0
    have "di + c \<noteq> di + Suc r' * ds + c'" if "c' < n" for r' c'
      using row_positions [OF Suc.prems(1), of 0 c "Suc r'" c'] rc(2) that by auto
    then have "d2 ! (di + c) = d1 ! (di + c)"
      using d2(4) one rc d1(2) by auto
    then show ?thesis
      using d1(2,3) one rc 0 by auto
  next
    case (Suc r')
    then show ?thesis using d2(3) rc by auto
  qed
  moreover have "d2 ! i = dm ! i" if i: "i < length dm" "\<forall>r < Suc k. \<forall>c < n. i \<noteq> di + r * ds + c" for i
  proof -
    have "d2 ! i = d1 ! i"
      using d2(4) i d1(2) by (metis Suc_less_eq)
    moreover have "\<not> (di \<le> i \<and> i < di + n)"
    proof
      assume "di \<le> i \<and> i < di + n"
      then show False
        using i(2) [rule_format, of 0 "i - di"] less_diff_conv2 [of di i n] by auto
    qed
    ultimately show ?thesis using d1(3) i(1) by auto
  qed
  ultimately show ?case
    using d1(1,2) d2(1,2) by simp
qed simp

text \<open>The copy of a region in cell coordinates.\<close>

lemma copyMapRegion_spec:
  assumes "unat n \<le> unat dw"
    and "0 < unat h \<Longrightarrow> 0 < unat n \<Longrightarrow>
      (unat sy + unat h - 1) * unat sw + unat sx + unat n \<le> length sm \<and>
      (unat dy + unat h - 1) * unat dw + unat dx + unat n \<le> length dm \<and>
      unat sy * unat sw + unat sx < 2 ^ 32 \<and> unat dy * unat dw + unat dx < 2 ^ 32"
  shows "\<exists>dm'. copyMapRegion sm sx sy sw dm dx dy dw n h = Some dm' \<and> length dm' = length dm \<and>
    (\<forall>r < unat h. \<forall>c < unat n.
      dm' ! ((unat dy + r) * unat dw + unat dx + c) = sm ! ((unat sy + r) * unat sw + unat sx + c)) \<and>
    (\<forall>i < length dm. (\<forall>r < unat h. \<forall>c < unat n. i \<noteq> (unat dy + r) * unat dw + unat dx + c) \<longrightarrow>
      dm' ! i = dm ! i)"
proof (cases "0 < unat h \<and> 0 < unat n")
  case False
  have "copy_rows k sm si ss dm di ds 0 = Some dm" for k si ss di ds
    by (induction k arbitrary: si di) (simp_all add: memcpy_def)
  then show ?thesis
    using False by (auto simp: copyMapRegion_def)
next
  case True
  then have si: "unat (sy * sw + sx) = unat sy * unat sw + unat sx"
    and di: "unat (dy * dw + dx) = unat dy * unat dw + unat dx"
    using assms(2) by (auto intro: unat_index)
  let ?k = "unat h" and ?n = "unat n"
  have "\<exists>dm'. copy_rows ?k sm (unat sy * unat sw + unat sx) (unat sw) dm (unat dy * unat dw + unat dx) (unat dw) ?n
      = Some dm' \<and> length dm' = length dm \<and>
    (\<forall>r < ?k. \<forall>c < ?n. dm' ! (unat dy * unat dw + unat dx + r * unat dw + c)
        = sm ! (unat sy * unat sw + unat sx + r * unat sw + c)) \<and>
    (\<forall>i < length dm. (\<forall>r < ?k. \<forall>c < ?n. i \<noteq> unat dy * unat dw + unat dx + r * unat dw + c) \<longrightarrow> dm' ! i = dm ! i)"
  proof (rule copy_rows_spec [OF assms(1)])
    assume "0 < ?k" "0 < ?n"
    then show "unat sy * unat sw + unat sx + (?k - 1) * unat sw + ?n \<le> length sm \<and>
        unat dy * unat dw + unat dx + (?k - 1) * unat dw + ?n \<le> length dm"
      using assms(2) by (cases ?k) (simp_all add: algebra_simps)
  qed
  then show ?thesis
    unfolding copyMapRegion_def si di
    by (simp add: add_mult_distrib add.assoc add.commute add.left_commute)
qed

end
