(* ===== verification/Costmap_Spec.thy ===== *)
theory Costmap_Spec
  imports Costmap_Grid
begin

text \<open>
  What the operations of \<open>Costmap2D\<close> do to the grid, in cell coordinates: \<open>cost_at m x y\<close> is the
  cost of a cell.
\<close>

definition cost_at :: "costmap \<Rightarrow> nat \<Rightarrow> nat \<Rightarrow> u8" where
  "cost_at m x y = costs m ! (y * unat (size_x m) + x)"

abbreviation width :: "costmap \<Rightarrow> nat" where "width m \<equiv> unat (size_x m)"
abbreviation height :: "costmap \<Rightarrow> nat" where "height m \<equiv> unat (size_y m)"

lemma getCost_cost_at:
  assumes "grid_ok m" and "mx < size_x m" and "my < size_y m"
  shows "getCost m mx my = Some (cost_at m (unat mx) (unat my))"
  using getIndex_unat [OF assms] by (simp add: getCost_def cost_at_def mem_at_Some)

lemma cell_in_grid:
  assumes "grid_ok m" and "x < width m" and "y < height m"
  shows "y * width m + x < length (costs m)"
  using cell_index_less [OF assms(2,3)] assms(1) by (simp add: grid_ok_def)

lemma setCost_spec:
  assumes "grid_ok m" and "mx < size_x m" and "my < size_y m"
  shows "\<exists>m'. setCost mx my c m = Some m' \<and> grid_ok m' \<and> m' = m\<lparr>costs := costs m'\<rparr> \<and>
    (\<forall>x < width m. \<forall>y < height m. cost_at m' x y = (if x = unat mx \<and> y = unat my then c else cost_at m x y))"
proof -
  let ?i = "unat my * width m + unat mx"
  have i: "unat (getIndex m mx my) = ?i" "?i < length (costs m)"
    using getIndex_unat [OF assms] by simp_all
  have mx: "unat mx < width m" using assms(2) by (simp add: word_less_nat_alt)
  let ?m = "m\<lparr>costs := blit (costs m) ?i [c]\<rparr>"
  have "setCost mx my c m = Some ?m"
    using i by (simp add: setCost_def store_Some)
  moreover have "cost_at ?m x y = (if x = unat mx \<and> y = unat my then c else cost_at m x y)"
    if xy: "x < width m" "y < height m" for x y
    using cell_in_grid [OF assms(1) xy] cell_index_inj [OF xy(1) mx, of y "unat my"] i
    by (auto simp: cost_at_def nth_blit)
  ultimately show ?thesis
    using assms(1) i by (intro exI [of _ ?m]) (simp add: grid_ok_def)
qed

lemma memset_all:
  assumes "length cs = n"
  shows "memset cs 0 v n = Some (replicate n v)"
  using assms by (auto simp: memset_def store_def blit_def)

lemma resetMaps_spec:
  assumes "width m * height m < 2 ^ 32" and "length (costs m) = width m * height m"
  shows "resetMaps m = Some (m\<lparr>costs := replicate (width m * height m) (default_value m)\<rparr>)"
  using assms by (simp add: resetMaps_def unat_mult_small memset_all)

lemma Costmap2D_spec:
  assumes "unat sx * unat sy < 2 ^ 32" and "0 < res"
  shows "\<exists>m. Costmap2D nb sx sy res ox oy dv = Some m \<and> grid_ok m \<and> size_x m = sx \<and> size_y m = sy \<and>
    (\<forall>x < width m. \<forall>y < height m. cost_at m x y = dv)"
proof -
  let ?m = "\<lparr>size_x = sx, size_y = sy, resolution = res, origin_x = ox, origin_y = oy,
    costs = replicate (unat sx * unat sy) dv, default_value = dv\<rparr>"
  have "Costmap2D nb sx sy res ox oy dv = Some ?m"
    using assms by (simp add: Costmap2D_def initMaps_def resetMaps_spec unat_mult_small)
  moreover have "cost_at ?m x y = dv" if "x < unat sx" "y < unat sy" for x y
    using cell_index_less [OF that] by (simp add: cost_at_def)
  ultimately show ?thesis
    using assms by (intro exI [of _ ?m]) (simp add: grid_ok_def)
qed

section \<open>Rectangles\<close>

lemma memset_spec:
  assumes "0 < n \<Longrightarrow> p + n \<le> length cs"
  shows "\<exists>cs'. memset cs p v n = Some cs' \<and> length cs' = length cs \<and>
    (\<forall>i < length cs. cs' ! i = (if p \<le> i \<and> i < p + n then v else cs ! i))"
  using assms by (cases "n = 0") (auto simp: memset_def store_Some nth_blit)

text \<open>What writing the rows of a rectangle means for a cell.\<close>

lemma rectangle_cell:
  assumes "\<forall>r < k. \<forall>c < n. cs' ! ((y0 + r) * w + x0 + c) = f r c"
    and "\<forall>i < l. (\<forall>r < k. \<forall>c < n. i \<noteq> (y0 + r) * w + x0 + c) \<longrightarrow> cs' ! i = cs ! i"
    and "k = 0 \<or> n = 0 \<or> x0 + n \<le> w" and "x < w" and "y * w + x < l"
  shows "cs' ! (y * w + x) =
    (if x0 \<le> x \<and> x < x0 + n \<and> y0 \<le> y \<and> y < y0 + k then f (y - y0) (x - x0) else cs ! (y * w + x))"
proof (cases "x0 \<le> x \<and> x < x0 + n \<and> y0 \<le> y \<and> y < y0 + k")
  case True
  then have "x - x0 < n" and "y - y0 < k" by linarith+
  then show ?thesis
    using assms(1) [rule_format, of "y - y0" "x - x0"] True by (simp add: add.assoc)
next
  case False
  have "y * w + x \<noteq> (y0 + r) * w + x0 + c" if rc: "r < k" "c < n" for r c
  proof
    assume "y * w + x = (y0 + r) * w + x0 + c"
    moreover have "x0 + c < w" using rc assms(3) by linarith
    ultimately have "x = x0 + c \<and> y = y0 + r"
      using cell_index_inj [OF assms(4), of "x0 + c" y "y0 + r"] by (simp add: add.assoc)
    then show False using False rc by auto
  qed
  then have "cs' ! (y * w + x) = cs ! (y * w + x)"
    using assms(2,5) by blast
  then show ?thesis
    using False by (simp only: if_False)
qed

lemma reset_rows_spec:
  assumes "e = y + of_nat k * sx" and "unat y + k * unat sx < 2 ^ 32" and "n \<le> unat sx" and "0 < unat sx"
    and "0 < k \<Longrightarrow> 0 < n \<Longrightarrow> unat y + (k - 1) * unat sx + n \<le> length cs"
  shows "\<exists>cs'. reset_rows sx v n e y cs = Some cs' \<and> length cs' = length cs \<and>
    (\<forall>r < k. \<forall>c < n. cs' ! (unat y + r * unat sx + c) = v) \<and>
    (\<forall>i < length cs. (\<forall>r < k. \<forall>c < n. i \<noteq> unat y + r * unat sx + c) \<longrightarrow> cs' ! i = cs ! i)"
  using assms
proof (induction k arbitrary: y cs)
  case 0
  then show ?case by (simp add: reset_rows.simps)
next
  case (Suc k)
  have sx: "unat (of_nat (Suc k) * sx) = Suc k * unat sx"
  proof -
    have "Suc k * 1 \<le> Suc k * unat sx"
      using Suc.prems(4) by (intro mult_le_mono2) simp
    then have "unat (of_nat (Suc k) :: u32) = Suc k"
      using Suc.prems(2) by (simp only: unsigned_of_nat) (simp add: take_bit_nat_eq_self)
    then show ?thesis
      using Suc.prems(2) by (subst unat_mult_small) simp_all
  qed
  have e: "unat e = unat y + Suc k * unat sx"
    using Suc.prems(2) sx by (simp add: Suc.prems(1) unat_word_ariths)
  have y: "unat (y + sx) = unat y + unat sx"
    using Suc.prems(2) by (simp add: unat_word_ariths)
  have less: "y < e"
    using e Suc.prems(4) by (simp add: word_less_nat_alt)
  have "0 < n \<Longrightarrow> unat y + n \<le> length cs"
    using Suc.prems(5) by auto
  then obtain c1 where c1: "memset cs (unat y) v n = Some c1" "length c1 = length cs"
    "\<forall>i < length cs. c1 ! i = (if unat y \<le> i \<and> i < unat y + n then v else cs ! i)"
    using memset_spec [of n "unat y" cs v] by blast
  have "\<exists>cs'. reset_rows sx v n e (y + sx) c1 = Some cs' \<and> length cs' = length c1 \<and>
    (\<forall>r < k. \<forall>c < n. cs' ! (unat (y + sx) + r * unat sx + c) = v) \<and>
    (\<forall>i < length c1. (\<forall>r < k. \<forall>c < n. i \<noteq> unat (y + sx) + r * unat sx + c) \<longrightarrow> cs' ! i = c1 ! i)"
  proof (rule Suc.IH)
    show "e = y + sx + of_nat k * sx"
      by (simp add: Suc.prems(1) algebra_simps)
    show "unat (y + sx) + k * unat sx < 2 ^ 32"
      using Suc.prems(2) y by simp
    assume "0 < k" "0 < n"
    then show "unat (y + sx) + (k - 1) * unat sx + n \<le> length c1"
      using Suc.prems(5) y c1(2) by (cases k) simp_all
  qed (use Suc.prems in simp_all)
  then obtain c2 where c2: "reset_rows sx v n e (y + sx) c1 = Some c2" "length c2 = length cs"
    "\<forall>r < k. \<forall>c < n. c2 ! (unat y + Suc r * unat sx + c) = v"
    "\<forall>i < length cs. (\<forall>r < k. \<forall>c < n. i \<noteq> unat y + Suc r * unat sx + c) \<longrightarrow> c2 ! i = c1 ! i"
    using c1(2) by (auto simp: y add.assoc)
  have "c2 ! (unat y + r * unat sx + c) = v" if rc: "r < Suc k" "c < n" for r c
  proof (cases r)
    case 0
    have "unat y + c \<noteq> unat y + Suc r' * unat sx + c'" if "c' < n" for r' c'
      using row_positions [OF Suc.prems(3), of 0 c "Suc r'" c'] rc(2) that by auto
    moreover have "unat y + c < length cs"
      using Suc.prems(5) rc(2) by auto
    ultimately have "c2 ! (unat y + c) = c1 ! (unat y + c)"
      using c2(4) by auto
    then show ?thesis
      using c1(3) \<open>unat y + c < length cs\<close> rc(2) 0 by simp
  next
    case (Suc r')
    then show ?thesis using c2(3) rc by auto
  qed
  moreover have "c2 ! i = cs ! i" if i: "i < length cs" "\<forall>r < Suc k. \<forall>c < n. i \<noteq> unat y + r * unat sx + c" for i
  proof -
    have "c2 ! i = c1 ! i"
      using c2(4) i by (metis Suc_less_eq)
    moreover have "\<not> (unat y \<le> i \<and> i < unat y + n)"
      using i(2) [rule_format, of 0 "i - unat y"] less_diff_conv2 [of "unat y" i n] by auto
    ultimately show ?thesis using c1(3) i(1) by auto
  qed
  ultimately show ?case
    using c1(1) c2(1,2) less by (subst reset_rows.simps) simp
qed

lemma resetMapToValue_spec:
  assumes ok: "grid_ok m" and x: "x0 \<le> xn" "xn \<le> size_x m" and y: "y0 \<le> yn" "yn \<le> size_y m"
    and room: "unat yn * width m + unat x0 < 2 ^ 32" and nz: "0 < width m"
  shows "\<exists>m'. resetMapToValue x0 y0 xn yn v m = Some m' \<and> grid_ok m' \<and> m' = m\<lparr>costs := costs m'\<rparr> \<and>
    (\<forall>x < width m. \<forall>y < height m. cost_at m' x y =
      (if unat x0 \<le> x \<and> x < unat xn \<and> unat y0 \<le> y \<and> y < unat yn then v else cost_at m x y))"
proof -
  let ?w = "width m" and ?k = "unat yn - unat y0" and ?n = "unat (xn - x0)"
  have n: "?n = unat xn - unat x0"
    using x(1) by (simp add: unat_sub)
  have le: "unat x0 \<le> unat xn" "unat xn \<le> ?w" "unat y0 \<le> unat yn" "unat yn \<le> height m"
    using x y by (simp_all add: word_le_nat_alt)
  have yw: "unat y0 * ?w + ?k * ?w = unat yn * ?w"
    using le(3) by (metis add_mult_distrib le_add_diff_inverse)
  have "unat y0 * ?w \<le> unat yn * ?w"
    by (rule mult_le_mono1 [OF le(3)])
  then have s0: "unat (y0 * size_x m + x0) = unat y0 * ?w + unat x0"
    using room by (intro unat_index) linarith
  have len: "length (costs m) = ?w * height m"
    using ok by (simp add: grid_ok_def)
  have "yn = y0 + of_nat ?k"
    using le(3) by (simp add: of_nat_diff)
  then have e: "yn * size_x m + x0 = y0 * size_x m + x0 + of_nat ?k * size_x m"
    using distrib_right [of y0 "of_nat ?k" "size_x m"] by (simp add: add.assoc add.commute add.left_commute)
  have "\<exists>cs'. reset_rows (size_x m) v ?n (yn * size_x m + x0) (y0 * size_x m + x0) (costs m) = Some cs' \<and>
    length cs' = length (costs m) \<and>
    (\<forall>r < ?k. \<forall>c < ?n. cs' ! (unat (y0 * size_x m + x0) + r * ?w + c) = v) \<and>
    (\<forall>i < length (costs m). (\<forall>r < ?k. \<forall>c < ?n. i \<noteq> unat (y0 * size_x m + x0) + r * ?w + c) \<longrightarrow> cs' ! i = costs m ! i)"
  proof (rule reset_rows_spec [OF e])
    show "unat (y0 * size_x m + x0) + ?k * ?w < 2 ^ 32"
      using room yw by (simp add: s0)
    show "?n \<le> ?w" using le n by linarith
    assume "0 < ?k" "0 < ?n"
    then have "unat y0 * ?w + (?k - 1) * ?w + ?w = unat yn * ?w"
      using yw by (cases ?k) simp_all
    moreover have "unat yn * ?w \<le> ?w * height m"
      using le(4) by (simp add: mult.commute)
    ultimately show "unat (y0 * size_x m + x0) + (?k - 1) * ?w + ?n \<le> length (costs m)"
      using le n len unfolding s0 by linarith
  qed (use nz in simp)
  from this [unfolded s0] obtain cs' where cs': "reset_rows (size_x m) v ?n (yn * size_x m + x0) (y0 * size_x m + x0) (costs m) = Some cs'"
    "length cs' = length (costs m)"
    "\<forall>r < ?k. \<forall>c < ?n. cs' ! ((unat y0 + r) * ?w + unat x0 + c) = v"
    "\<forall>i < length (costs m). (\<forall>r < ?k. \<forall>c < ?n. i \<noteq> (unat y0 + r) * ?w + unat x0 + c) \<longrightarrow> cs' ! i = costs m ! i"
    by (auto simp: add_mult_distrib add.assoc add.commute add.left_commute)
  have "cs' ! (y * ?w + x) = (if unat x0 \<le> x \<and> x < unat xn \<and> unat y0 \<le> y \<and> y < unat yn then v else costs m ! (y * ?w + x))"
    if xy: "x < ?w" "y < height m" for x y
    using rectangle_cell [OF cs'(3,4) _ xy(1) cell_in_grid [OF ok xy]] n le by simp
  then show ?thesis
    using cs'(1,2) ok by (simp add: resetMapToValue_def Let_def cost_at_def grid_ok_def)
qed

section \<open>Windows\<close>

lemma copyWindow_spec:
  assumes ok: "grid_ok src" "grid_ok m" and le: "sx0 \<le> sxn" "sy0 \<le> syn"
    and fits: "unat dx0 + (unat sxn - unat sx0) < 2 ^ 32" "unat dy0 + (unat syn - unat sy0) < 2 ^ 32"
  shows "\<exists>m'. copyWindow src sx0 sy0 sxn syn dx0 dy0 m =
      Some (sxn \<le> size_x src \<and> syn \<le> size_y src \<and>
        unat dx0 + (unat sxn - unat sx0) \<le> width m \<and> unat dy0 + (unat syn - unat sy0) \<le> height m, m') \<and>
    grid_ok m' \<and> m' = m\<lparr>costs := costs m'\<rparr> \<and>
    (\<forall>x < width m. \<forall>y < height m. cost_at m' x y =
      (if (sxn \<le> size_x src \<and> syn \<le> size_y src \<and>
          unat dx0 + (unat sxn - unat sx0) \<le> width m \<and> unat dy0 + (unat syn - unat sy0) \<le> height m) \<and>
          unat dx0 \<le> x \<and> x < unat dx0 + (unat sxn - unat sx0) \<and>
          unat dy0 \<le> y \<and> y < unat dy0 + (unat syn - unat sy0)
       then cost_at src (unat sx0 + (x - unat dx0)) (unat sy0 + (y - unat dy0)) else cost_at m x y))"
proof -
  let ?n = "unat sxn - unat sx0" and ?k = "unat syn - unat sy0"
  let ?in = "sxn \<le> size_x src \<and> syn \<le> size_y src \<and> unat dx0 + ?n \<le> width m \<and> unat dy0 + ?k \<le> height m"
  have n: "unat (sxn - sx0) = ?n" "unat (syn - sy0) = ?k"
    using le by (simp_all add: unat_sub)
  have sum: "unat (dx0 + (sxn - sx0)) = unat dx0 + ?n" "unat (dy0 + (syn - sy0)) = unat dy0 + ?k"
    using fits by (simp_all add: unat_word_ariths(1) n)
  show ?thesis
  proof (cases ?in)
    case False
    then have "copyWindow src sx0 sy0 sxn syn dx0 dy0 m = Some (False, m)"
      by (auto simp: copyWindow_def Let_def word_le_nat_alt word_less_nat_alt sum not_le)
    then show ?thesis
      using ok(2) False by (intro exI [of _ m]) auto
  next
    case True
    have b: "unat sx0 \<le> unat sxn" "unat sxn \<le> width src" "unat sy0 \<le> unat syn" "unat syn \<le> height src"
      using True le by (simp_all add: word_le_nat_alt)
    have len: "length (costs src) = width src * height src" "length (costs m) = width m * height m"
      "width src * height src < 2 ^ 32" "width m * height m < 2 ^ 32"
      using ok by (simp_all add: grid_ok_def)
    have "\<exists>dm'. copyMapRegion (costs src) sx0 sy0 (size_x src) (costs m) dx0 dy0 (size_x m) (sxn - sx0) (syn - sy0)
        = Some dm' \<and> length dm' = length (costs m) \<and>
      (\<forall>r < unat (syn - sy0). \<forall>c < unat (sxn - sx0). dm' ! ((unat dy0 + r) * width m + unat dx0 + c)
        = costs src ! ((unat sy0 + r) * width src + unat sx0 + c)) \<and>
      (\<forall>i < length (costs m). (\<forall>r < unat (syn - sy0). \<forall>c < unat (sxn - sx0).
          i \<noteq> (unat dy0 + r) * width m + unat dx0 + c) \<longrightarrow> dm' ! i = costs m ! i)"
    proof (rule copyMapRegion_spec)
      show "unat (sxn - sx0) \<le> width m" using True n by linarith
      assume pos: "0 < unat (syn - sy0)" "0 < unat (sxn - sx0)"
      then have "(unat sy0 + ?k - 1) * width src + (unat sx0 + (?n - 1)) < width src * height src"
        using b n by (intro cell_index_less) linarith+
      moreover have "(unat dy0 + ?k - 1) * width m + (unat dx0 + (?n - 1)) < width m * height m"
        using True pos n by (intro cell_index_less) linarith+
      moreover have "unat sy0 * width src + unat sx0 < width src * height src"
        using b pos n by (intro cell_index_less) linarith+
      moreover have "unat dy0 * width m + unat dx0 < width m * height m"
        using True pos n by (intro cell_index_less) linarith+
      ultimately show "(unat sy0 + unat (syn - sy0) - 1) * width src + unat sx0 + unat (sxn - sx0) \<le> length (costs src) \<and>
        (unat dy0 + unat (syn - sy0) - 1) * width m + unat dx0 + unat (sxn - sx0) \<le> length (costs m) \<and>
        unat sy0 * width src + unat sx0 < 2 ^ 32 \<and> unat dy0 * width m + unat dx0 < 2 ^ 32"
        using pos len unfolding n by linarith
    qed
    from this [unfolded n] obtain cs where cs:
      "copyMapRegion (costs src) sx0 sy0 (size_x src) (costs m) dx0 dy0 (size_x m) (sxn - sx0) (syn - sy0) = Some cs"
      "length cs = length (costs m)"
      "\<forall>r < ?k. \<forall>c < ?n. cs ! ((unat dy0 + r) * width m + unat dx0 + c) = costs src ! ((unat sy0 + r) * width src + unat sx0 + c)"
      "\<forall>i < length (costs m). (\<forall>r < ?k. \<forall>c < ?n. i \<noteq> (unat dy0 + r) * width m + unat dx0 + c) \<longrightarrow> cs ! i = costs m ! i"
      by blast
    let ?m = "m\<lparr>costs := cs\<rparr>"
    have "copyWindow src sx0 sy0 sxn syn dx0 dy0 m = Some (True, ?m)"
      using True cs(1) by (simp add: copyWindow_def Let_def word_le_nat_alt word_less_nat_alt sum not_less)
    moreover have "cost_at ?m x y = (if unat dx0 \<le> x \<and> x < unat dx0 + ?n \<and> unat dy0 \<le> y \<and> y < unat dy0 + ?k
       then cost_at src (unat sx0 + (x - unat dx0)) (unat sy0 + (y - unat dy0)) else cost_at m x y)"
      if xy: "x < width m" "y < height m" for x y
      using rectangle_cell [OF cs(3,4) _ xy(1) cell_in_grid [OF ok(2) xy]] True
      by (simp add: cost_at_def add.assoc)
    ultimately show ?thesis
      using ok(2) cs(2) True by (intro exI [of _ ?m]) (simp add: grid_ok_def)
  qed
qed

section \<open>World coordinates\<close>

lemma real_to_u32_cell:
  assumes "real (unat c) \<le> x" and "x < real (unat c) + 1"
  shows "real_to_u32 x = Some c"
proof -
  have "\<lfloor>x\<rfloor> = int (unat c)"
    using assms by (simp add: floor_unique)
  moreover have "real (Suc (unat c)) \<le> real (2 ^ 32)"
    using unsigned_less [of c, where 'a = nat] by (intro of_nat_mono) simp
  ultimately show ?thesis
    using assms of_nat_0_le_iff [of "unat c", where 'a = real]
    by (simp add: real_to_u32_def trunc_def del: of_nat_unat) (simp add: unsigned_word_eqI)
qed

lemma real_to_u32_Some:
  assumes "real_to_u32 x = Some c" and "0 \<le> x"
  shows "real (unat c) \<le> x \<and> x < real (unat c) + 1"
proof -
  have c: "c = word_of_int \<lfloor>x\<rfloor>" and x: "x < 2 ^ 32"
    using assms by (auto simp: real_to_u32_def trunc_def split: if_splits)
  have "0 \<le> \<lfloor>x\<rfloor>" and "\<lfloor>x\<rfloor> < 2 ^ 32"
    using assms(2) x by (simp_all add: floor_less_iff)
  then have "int (unat c) = \<lfloor>x\<rfloor>"
    by (simp add: c uint_word_of_int_eq take_bit_int_eq_self)
  then have "real (unat c) = of_int \<lfloor>x\<rfloor>"
    by (metis of_int_of_nat_eq)
  then show ?thesis by linarith
qed

lemma worldToMap_mapToWorld:
  assumes "grid_ok m" and "mx < size_x m" and "my < size_y m"
  shows "worldToMap m (fst (mapToWorld m mx my)) (snd (mapToWorld m mx my)) = Some (Some (mx, my))"
proof -
  have r: "0 < resolution m" using assms(1) by (simp add: grid_ok_def)
  then have "(1 / 2 + real k) * resolution m / resolution m = 1 / 2 + real k" for k :: nat by simp
  moreover have "real_to_u32 (real (unat c) + 1 / 2) = Some c" for c
    by (rule real_to_u32_cell) simp_all
  moreover have "0 \<le> (real k + 1 / 2) * resolution m" for k :: nat using r by simp
  ultimately show ?thesis
    using assms(2,3) r by (simp add: worldToMap_def mapToWorld_def not_less del: of_nat_unat)
qed

lemma worldToMap_cell:
  assumes "worldToMap m wx wy = Some (Some (mx, my))" and "0 < resolution m"
  shows "mx < size_x m \<and> my < size_y m \<and>
    origin_x m + real (unat mx) * resolution m \<le> wx \<and> wx < origin_x m + (real (unat mx) + 1) * resolution m \<and>
    origin_y m + real (unat my) * resolution m \<le> wy \<and> wy < origin_y m + (real (unat my) + 1) * resolution m"
proof -
  have ge: "origin_x m \<le> wx" "origin_y m \<le> wy"
    and x: "real_to_u32 ((wx - origin_x m) / resolution m) = Some mx"
    and y: "real_to_u32 ((wy - origin_y m) / resolution m) = Some my"
    and less: "mx < size_x m" "my < size_y m"
    using assms(1) by (auto simp: worldToMap_def bind_eq_Some_conv split: if_splits)
  have "0 \<le> (wx - origin_x m) / resolution m" "0 \<le> (wy - origin_y m) / resolution m"
    using ge assms(2) by simp_all
  from real_to_u32_Some [OF x this(1)] real_to_u32_Some [OF y this(2)] show ?thesis
    using less assms(2) by (simp add: field_simps)
qed

section \<open>The move of the origin\<close>

lemma sint_small: "unat (w :: u32) < 2 ^ 31 \<Longrightarrow> sint w = int (unat w)"
proof -
  assume "unat w < 2 ^ 31"
  then have "uint w < 2 ^ 31"
    by (simp add: uint_nat del: of_nat_unat)
  then show ?thesis
    using signed_take_bit_int_eq_self [of 31 "uint w"] order_trans [of "- (2 ^ 31)" 0 "uint w"]
    by (simp add: sint_uint)
qed

lemma unat_of_int_small: "0 \<le> i \<Longrightarrow> i < 2 ^ 32 \<Longrightarrow> unat (word_of_int i :: u32) = nat i"
  by (simp add: unat_eq_nat_uint uint_word_of_int_eq take_bit_int_eq_self)

text \<open>The overlap of the two windows along one axis.\<close>

abbreviation clamp :: "int \<Rightarrow> int \<Rightarrow> int" where
  "clamp s i \<equiv> min (max i 0) s"

lemma overlap_axis:
  assumes "0 \<le> s" and "- (2 ^ 31) < c" and "c + s < 2 ^ 31"
  shows "0 \<le> clamp s c" "clamp s c \<le> clamp s (c + s)" "clamp s (c + s) \<le> s"
    "clamp s c < clamp s (c + s) \<longrightarrow> 0 \<le> clamp s c - c \<and> clamp s c - c + (clamp s (c + s) - clamp s c) \<le> s"
    "- (2 ^ 31) \<le> clamp s c - c" "clamp s c - c < 2 ^ 31"
  using assms by (smt (verit))+

lemma overlap_axis_cell:
  assumes "0 \<le> x" and "x < s"
  shows "(clamp s c - c \<le> x \<and> x < clamp s c - c + (clamp s (c + s) - clamp s c)) = (0 \<le> x + c \<and> x + c < s)"
  using assms by (smt (verit))

lemma updateOrigin_spec:
  assumes ok: "grid_ok m" and small: "width m < 2 ^ 31" "height m < 2 ^ 31"
    and cell: "real_to_int ((nx - origin_x m) / resolution m) = Some cx"
      "real_to_int ((ny - origin_y m) / resolution m) = Some cy"
    and range: "- (2 ^ 31) < cx" "cx + int (width m) < 2 ^ 31" "- (2 ^ 31) < cy" "cy + int (height m) < 2 ^ 31"
  shows "\<exists>m'. updateOrigin nb nx ny m = Some m' \<and> grid_ok m' \<and>
    m' = m\<lparr>costs := costs m', origin_x := origin_x m + real_of_int cx * resolution m,
      origin_y := origin_y m + real_of_int cy * resolution m\<rparr> \<and>
    (\<forall>x < width m. \<forall>y < height m. cost_at m' x y =
      (if 0 \<le> int x + cx \<and> int x + cx < int (width m) \<and> 0 \<le> int y + cy \<and> int y + cy < int (height m)
       then cost_at m (nat (int x + cx)) (nat (int y + cy)) else default_value m))"
proof -
  define w where "w = width m"
  define h where "h = height m"
  have wh: "int w < 2 ^ 31" "int h < 2 ^ 31" "cx + int w < 2 ^ 31" "cy + int h < 2 ^ 31"
    using small range by (simp_all add: w_def h_def del: of_nat_unat)
  define lx where "lx = clamp (int w) cx"
  define ux where "ux = clamp (int w) (cx + int w)"
  define ly where "ly = clamp (int h) cy"
  define uy where "uy = clamp (int h) (cy + int h)"
  note ax = overlap_axis [of "int w" cx, folded lx_def ux_def, OF of_nat_0_le_iff range(1) wh(3)]
  note ay = overlap_axis [of "int h" cy, folded ly_def uy_def, OF of_nat_0_le_iff range(3) wh(4)]
  define n where "n = nat (ux - lx)"
  define k where "k = nat (uy - ly)"
  define cw where "cw = (word_of_int (ux - lx) :: u32)"
  define ch where "ch = (word_of_int (uy - ly) :: u32)"
  define dx where "dx = (word_of_int (lx - cx) :: u32)"
  define dy where "dy = (word_of_int (ly - cy) :: u32)"
  define wlx where "wlx = (word_of_int lx :: u32)"
  define wly where "wly = (word_of_int ly :: u32)"
  have len: "length (costs m) = w * h" "w * h < 2 ^ 32"
    using ok by (simp_all add: grid_ok_def w_def h_def)
  have u: "unat cw = n" "unat ch = k" "unat wlx = nat lx" "unat wly = nat ly"
    using ax ay wh unat_of_int_small [of "ux - lx"] unat_of_int_small [of "uy - ly"]
      unat_of_int_small [of lx] unat_of_int_small [of ly]
    by (simp_all add: cw_def ch_def wlx_def wly_def n_def k_def)
  have fit: "nat lx + n \<le> w" "nat ly + k \<le> h"
    using ax ay by (simp_all add: n_def k_def)
  have prod: "unat (cw * ch) = n * k"
    using mult_le_mono [of n w k h] fit len(2) by (subst unat_mult_small) (simp_all add: u)
  define local0 where "local0 = map nb [0..<unat (cw * ch)]"
  have "\<exists>lm. copyMapRegion (costs m) wlx wly (size_x m) local0 0 0 cw cw ch = Some lm \<and> length lm = length local0 \<and>
    (\<forall>r < unat ch. \<forall>c < unat cw. lm ! ((unat (0 :: u32) + r) * unat cw + unat (0 :: u32) + c)
      = costs m ! ((unat wly + r) * unat (size_x m) + unat wlx + c)) \<and>
    (\<forall>i < length local0. (\<forall>r < unat ch. \<forall>c < unat cw. i \<noteq> (unat (0 :: u32) + r) * unat cw + unat (0 :: u32) + c) \<longrightarrow>
      lm ! i = local0 ! i)"
  proof (rule copyMapRegion_spec)
    assume "0 < unat ch" "0 < unat cw"
    then have pos: "0 < k" "0 < n" by (simp_all add: u)
    have "(nat ly + k - 1) * w + (nat lx + (n - 1)) < w * h" "nat ly * w + nat lx < w * h"
      "(k - 1) * n + (n - 1) < n * k"
      by (rule cell_index_less; use fit pos in linarith)+
    then show "(unat wly + unat ch - 1) * unat (size_x m) + unat wlx + unat cw \<le> length (costs m) \<and>
      (unat (0 :: u32) + unat ch - 1) * unat cw + unat (0 :: u32) + unat cw \<le> length local0 \<and>
      unat wly * unat (size_x m) + unat wlx < 2 ^ 32 \<and> unat (0 :: u32) * unat cw + unat (0 :: u32) < 2 ^ 32"
      using pos len unfolding local0_def u prod w_def [symmetric]
      by (simp only: unsigned_0 length_map length_upt add_0) linarith
  qed simp
  then obtain lm where lm: "copyMapRegion (costs m) wlx wly (size_x m) local0 0 0 cw cw ch = Some lm"
    "length lm = n * k" "\<forall>r < k. \<forall>c < n. lm ! (r * n + c) = costs m ! ((nat ly + r) * w + nat lx + c)"
    by (auto simp: u w_def [symmetric] local0_def prod)
  define cs0 where "cs0 = replicate (w * h) (default_value m)"
  have "\<exists>cs. copyMapRegion lm 0 0 cw cs0 dx dy (size_x m) cw ch = Some cs \<and> length cs = length cs0 \<and>
    (\<forall>r < unat ch. \<forall>c < unat cw. cs ! ((unat dy + r) * unat (size_x m) + unat dx + c)
      = lm ! ((unat (0 :: u32) + r) * unat cw + unat (0 :: u32) + c)) \<and>
    (\<forall>i < length cs0. (\<forall>r < unat ch. \<forall>c < unat cw. i \<noteq> (unat dy + r) * unat (size_x m) + unat dx + c) \<longrightarrow>
      cs ! i = cs0 ! i)"
  proof (rule copyMapRegion_spec)
    show "unat cw \<le> unat (size_x m)" using fit by (simp add: u w_def)
    assume "0 < unat ch" "0 < unat cw"
    then have pos: "0 < k" "0 < n" by (simp_all add: u)
    then have d: "unat dx = nat (lx - cx)" "unat dy = nat (ly - cy)" "nat (lx - cx) + n \<le> w" "nat (ly - cy) + k \<le> h"
      using ax ay unat_of_int_small [of "lx - cx"] unat_of_int_small [of "ly - cy"]
      by (auto simp: dx_def dy_def n_def k_def)
    have "(unat dy + k - 1) * w + (unat dx + (n - 1)) < w * h" "unat dy * w + unat dx < w * h"
      "(k - 1) * n + (n - 1) < n * k"
      by (rule cell_index_less; use d pos in linarith)+
    then show "(unat (0 :: u32) + unat ch - 1) * unat cw + unat (0 :: u32) + unat cw \<le> length lm \<and>
      (unat dy + unat ch - 1) * unat (size_x m) + unat dx + unat cw \<le> length cs0 \<and>
      unat (0 :: u32) * unat cw + unat (0 :: u32) < 2 ^ 32 \<and> unat dy * unat (size_x m) + unat dx < 2 ^ 32"
      using pos len lm(2) unfolding cs0_def u w_def [symmetric]
      by (simp only: unsigned_0 length_replicate add_0) linarith
  qed
  then obtain cs where cs: "copyMapRegion lm 0 0 cw cs0 dx dy (size_x m) cw ch = Some cs" "length cs = w * h"
    "\<forall>r < k. \<forall>c < n. cs ! ((unat dy + r) * w + unat dx + c) = lm ! (r * n + c)"
    "\<forall>i < w * h. (\<forall>r < k. \<forall>c < n. i \<noteq> (unat dy + r) * w + unat dx + c) \<longrightarrow> cs ! i = cs0 ! i"
    by (auto simp: u w_def [symmetric] cs0_def)
  have d: "unat dx = nat (lx - cx) \<and> unat dy = nat (ly - cy) \<and> nat (lx - cx) + n \<le> w \<and> 0 \<le> lx - cx \<and> 0 \<le> ly - cy"
    if "0 < k" "0 < n"
    using ax ay that unat_of_int_small [of "lx - cx"] unat_of_int_small [of "ly - cy"]
    by (auto simp: dx_def dy_def n_def k_def)
  have cell_at: "cs ! (y * w + x) =
      (if 0 \<le> int x + cx \<and> int x + cx < int w \<and> 0 \<le> int y + cy \<and> int y + cy < int h
       then costs m ! (nat (int y + cy) * w + nat (int x + cx)) else default_value m)"
    if x: "x < w" and y: "y < h" for x y
  proof -
    have i: "y * w + x < w * h" by (rule cell_index_less [OF x y])
    have room: "k = 0 \<or> n = 0 \<or> unat dx + n \<le> w"
      using d by (cases "n = 0"; cases "k = 0") auto
    have "cs ! (y * w + x) = (if unat dx \<le> x \<and> x < unat dx + n \<and> unat dy \<le> y \<and> y < unat dy + k
        then lm ! ((y - unat dy) * n + (x - unat dx)) else cs0 ! (y * w + x))"
      by (rule rectangle_cell [OF cs(3,4) room x i])
    also have "(unat dx \<le> x \<and> x < unat dx + n \<and> unat dy \<le> y \<and> y < unat dy + k) =
        (0 \<le> int x + cx \<and> int x + cx < int w \<and> 0 \<le> int y + cy \<and> int y + cy < int h)"
    proof -
      have "(lx - cx \<le> int x \<and> int x < lx - cx + (ux - lx)) = (0 \<le> int x + cx \<and> int x + cx < int w)"
        unfolding lx_def ux_def by (rule overlap_axis_cell) (use x in simp_all)
      moreover have "(ly - cy \<le> int y \<and> int y < ly - cy + (uy - ly)) = (0 \<le> int y + cy \<and> int y + cy < int h)"
        unfolding ly_def uy_def by (rule overlap_axis_cell) (use y in simp_all)
      moreover have "(unat dx \<le> x \<and> x < unat dx + n \<and> unat dy \<le> y \<and> y < unat dy + k) =
        ((lx - cx \<le> int x \<and> int x < lx - cx + (ux - lx)) \<and> (ly - cy \<le> int y \<and> int y < ly - cy + (uy - ly)))"
      proof (cases "0 < k \<and> 0 < n")
        case True
        then have *: "int (unat dx) = lx - cx" "int (unat dy) = ly - cy" "int n = ux - lx" "int k = uy - ly"
          using d ax(2) ay(2) by (simp_all add: n_def k_def del: of_nat_unat)
        then show ?thesis by linarith
      next
        case False
        then have "ux = lx \<or> uy = ly" using ax(2) ay(2) by (auto simp: n_def k_def)
        then show ?thesis using False by auto
      qed
      ultimately show ?thesis by simp
    qed
    finally have val: "cs ! (y * w + x) =
      (if 0 \<le> int x + cx \<and> int x + cx < int w \<and> 0 \<le> int y + cy \<and> int y + cy < int h
       then lm ! ((y - unat dy) * n + (x - unat dx)) else cs0 ! (y * w + x))" .
    have "lm ! ((y - unat dy) * n + (x - unat dx)) = costs m ! (nat (int y + cy) * w + nat (int x + cx))"
      if "0 \<le> int x + cx \<and> int x + cx < int w \<and> 0 \<le> int y + cy \<and> int y + cy < int h"
    proof -
      have "lx - cx \<le> int x \<and> int x < lx - cx + (ux - lx)" "ly - cy \<le> int y \<and> int y < ly - cy + (uy - ly)"
        using that overlap_axis_cell [of "int x" "int w" cx] overlap_axis_cell [of "int y" "int h" cy] x y
        by (auto simp: lx_def ux_def ly_def uy_def)
      then have pos: "0 < k" "0 < n" and xr: "x - unat dx < n" "y - unat dy < k"
        "nat ly + (y - unat dy) = nat (int y + cy)" "nat lx + (x - unat dx) = nat (int x + cx)"
        using d ax(1) ay(1) by (auto simp: n_def k_def)
      then show ?thesis
        using lm(3) by (simp add: add.assoc)
    qed
    then show ?thesis
      using i val by (simp add: cs0_def)
  qed
  let ?m = "m\<lparr>costs := cs, origin_x := origin_x m + real_of_int cx * resolution m,
      origin_y := origin_y m + real_of_int cy * resolution m\<rparr>"
  have "updateOrigin nb nx ny m = Some ?m"
  proof -
    have s: "sint (size_x m) = int w" "sint (size_y m) = int h"
      using small sint_small by (simp_all only: w_def h_def)
    have i: "int32 (cx + int w) = Some (cx + int w)" "int32 (cy + int h) = Some (cy + int h)"
      "int32 (lx - cx) = Some (lx - cx)" "int32 (ly - cy) = Some (ly - cy)"
      using wh range ax(5,6) ay(5,6) by (simp_all add: int32_def)
    have r: "resetMaps m = Some (m\<lparr>costs := cs0\<rparr>)"
      using resetMaps_spec [of m] len by (simp add: w_def h_def cs0_def)
    show ?thesis
      unfolding updateOrigin_def cell s Let_def Option.bind.simps i
      unfolding lx_def [symmetric] ux_def [symmetric] ly_def [symmetric] uy_def [symmetric]
        cw_def [symmetric] ch_def [symmetric] wlx_def [symmetric] wly_def [symmetric]
        local0_def [symmetric] lm(1) Option.bind.simps r i dx_def [symmetric] dy_def [symmetric]
      by (simp add: cs(1))
  qed
  then show ?thesis
    using ok cs(2) len cell_at by (intro exI [of _ ?m]) (simp add: grid_ok_def cost_at_def w_def h_def)
qed

section \<open>Windows given in world coordinates\<close>

lemma worldToMap_mono:
  assumes "worldToMap m wx wy = Some (Some (lx, ly))" and "worldToMap m (wx + sx) (wy + sy) = Some (Some (ux, uy))"
    and "0 < resolution m" and "0 \<le> sx" and "0 \<le> sy"
  shows "lx \<le> ux \<and> ly \<le> uy"
proof -
  note l = worldToMap_cell [OF assms(1,3)] and u = worldToMap_cell [OF assms(2,3)]
  have "real (unat lx) * resolution m < (real (unat ux) + 1) * resolution m"
    and "real (unat ly) * resolution m < (real (unat uy) + 1) * resolution m"
    using l u assms(4,5) by linarith+
  then have "real (unat lx) < real (unat ux) + 1" and "real (unat ly) < real (unat uy) + 1"
    using assms(3) by (simp_all add: mult_less_cancel_right del: of_nat_unat)
  then show ?thesis by (simp add: word_le_nat_alt del: of_nat_unat)
qed

lemma copyCostmapWindow_spec:
  assumes ok: "grid_ok src" and corners: "worldToMap src wx wy = Some (Some (lx, ly))"
      "worldToMap src (wx + sx) (wy + sy) = Some (Some (ux, uy))"
    and "0 \<le> sx" and "0 \<le> sy"
  shows "\<exists>m'. copyCostmapWindow nb False src wx wy sx sy m = Some (True, m') \<and> grid_ok m' \<and>
    width m' = unat ux - unat lx \<and> height m' = unat uy - unat ly \<and>
    resolution m' = resolution src \<and> origin_x m' = wx \<and> origin_y m' = wy \<and>
    (\<forall>x < width m'. \<forall>y < height m'. cost_at m' x y = cost_at src (unat lx + x) (unat ly + y))"
proof -
  let ?w = "unat ux - unat lx" and ?h = "unat uy - unat ly"
  have res: "0 < resolution src" using ok by (simp add: grid_ok_def)
  have le: "lx \<le> ux" "ly \<le> uy"
    using worldToMap_mono [OF corners res assms(4,5)] by simp_all
  have up: "unat ux < width src" "unat uy < height src" "unat lx \<le> unat ux" "unat ly \<le> unat uy"
    using worldToMap_cell [OF corners(2) res] le by (simp_all add: word_less_nat_alt word_le_nat_alt)
  have sz: "unat (ux - lx) = ?w" "unat (uy - ly) = ?h"
    using le by (simp_all add: unat_sub)
  have len: "length (costs src) = width src * height src" "width src * height src < 2 ^ 32"
    using ok by (simp_all add: grid_ok_def)
  have fit: "?w * ?h \<le> width src * height src" using up by (intro mult_le_mono) linarith+
  then have prod: "unat ((ux - lx) * (uy - ly)) = ?w * ?h"
    using len(2) sz by (subst unat_mult_small) simp_all
  define fresh where "fresh = map nb [0..<?w * ?h]"
  have "\<exists>cs. copyMapRegion (costs src) lx ly (size_x src) fresh 0 0 (ux - lx) (ux - lx) (uy - ly) = Some cs \<and>
    length cs = length fresh \<and>
    (\<forall>r < unat (uy - ly). \<forall>c < unat (ux - lx).
      cs ! ((unat (0 :: u32) + r) * unat (ux - lx) + unat (0 :: u32) + c) = costs src ! ((unat ly + r) * width src + unat lx + c)) \<and>
    (\<forall>i < length fresh. (\<forall>r < unat (uy - ly). \<forall>c < unat (ux - lx).
      i \<noteq> (unat (0 :: u32) + r) * unat (ux - lx) + unat (0 :: u32) + c) \<longrightarrow> cs ! i = fresh ! i)"
  proof (rule copyMapRegion_spec)
    assume "0 < unat (uy - ly)" "0 < unat (ux - lx)"
    then have pos: "0 < ?h" "0 < ?w" by (simp_all only: sz)
    have "(unat ly + ?h - 1) * width src + (unat lx + (?w - 1)) < width src * height src"
      "(?h - 1) * ?w + (?w - 1) < ?w * ?h" "unat ly * width src + unat lx < width src * height src"
      by (rule cell_index_less; use up pos in linarith)+
    then show "(unat ly + unat (uy - ly) - 1) * width src + unat lx + unat (ux - lx) \<le> length (costs src) \<and>
      (unat (0 :: u32) + unat (uy - ly) - 1) * unat (ux - lx) + unat (0 :: u32) + unat (ux - lx) \<le> length fresh \<and>
      unat ly * width src + unat lx < 2 ^ 32 \<and> unat (0 :: u32) * unat (ux - lx) + unat (0 :: u32) < 2 ^ 32"
      using pos len unfolding fresh_def sz
      by (simp only: unsigned_0 length_map length_upt add_0) linarith
  qed simp
  then obtain cs where cs: "copyMapRegion (costs src) lx ly (size_x src) fresh 0 0 (ux - lx) (ux - lx) (uy - ly) = Some cs"
    "length cs = ?w * ?h" "\<forall>r < ?h. \<forall>c < ?w. cs ! (r * ?w + c) = costs src ! ((unat ly + r) * width src + unat lx + c)"
    by (auto simp: sz fresh_def)
  let ?m = "\<lparr>size_x = ux - lx, size_y = uy - ly, resolution = resolution src, origin_x = wx, origin_y = wy,
    costs = cs, default_value = default_value m\<rparr>"
  have "copyCostmapWindow nb False src wx wy sx sy m = Some (True, ?m)"
    using cs(1) corners
    by (simp add: copyCostmapWindow_def deleteMaps_def initMaps_def Let_def prod fresh_def)
  moreover have "?w * ?h < 2 ^ 32" using fit len(2) by linarith
  ultimately show ?thesis
    using cs res sz by (intro exI [of _ ?m]) (simp add: grid_ok_def cost_at_def add.assoc)
qed

lemma assign_map_spec:
  assumes "grid_ok src"
  shows "assign_map nb False src m = Some (src\<lparr>default_value := default_value m\<rparr>)"
proof -
  have "unat (size_x src * size_y src) = length (costs src)"
    using assms by (simp add: grid_ok_def unat_mult_small)
  then show ?thesis
    by (cases src) (simp add: assign_map_def deleteMaps_def initMaps_def memcpy_def load_def store_def
        window_def blit_def Let_def)
qed

end
