(* ===== verification/Costmap_Raytrace.thy ===== *)
theory Costmap_Raytrace
  imports Costmap_Spec Nav_Geometry
begin

text \<open>
  Lines and polygons of \<open>Costmap2D\<close>: \<open>raytraceLine\<close> with \<open>bresenham2D\<close> as the list of the offsets
  it calls its action with, the outline and the filling of a convex polygon. Offsets and errors
  are 32-bit; signed and unsigned arithmetic agree on the bits.
\<close>

type_synonym map_location = "u32 \<times> u32"

definition sign :: "int \<Rightarrow> int" where
  "sign x = (if x > 0 then 1 else -1)"

fun bresenham_loop :: "nat \<Rightarrow> u32 \<Rightarrow> u32 \<Rightarrow> u32 \<Rightarrow> u32 \<Rightarrow> u32 \<Rightarrow> u32 \<Rightarrow> u32 list" where
  "bresenham_loop 0 abs_da abs_db error_b offset_a offset_b offset = [offset]"
| "bresenham_loop (Suc n) abs_da abs_db error_b offset_a offset_b offset =
     offset #
     (let offset' = offset + offset_a; error_b = error_b + abs_db
      in if error_b \<ge> abs_da
         then bresenham_loop n abs_da abs_db (error_b - abs_da) offset_a offset_b (offset' + offset_b)
         else bresenham_loop n abs_da abs_db error_b offset_a offset_b offset')"

definition bresenham2D :: "u32 \<Rightarrow> u32 \<Rightarrow> u32 \<Rightarrow> u32 \<Rightarrow> u32 \<Rightarrow> u32 \<Rightarrow> u32 \<Rightarrow> u32 list" where
  "bresenham2D abs_da abs_db error_b offset_a offset_b offset max_length =
     bresenham_loop (unat (min max_length abs_da)) abs_da abs_db error_b offset_a offset_b offset"

definition UINT_MAX :: u32 where
  "UINT_MAX = 0xFFFFFFFF"

definition raytraceLine ::
  "costmap \<Rightarrow> u32 \<Rightarrow> u32 \<Rightarrow> u32 \<Rightarrow> u32 \<Rightarrow> u32 \<Rightarrow> u32 \<Rightarrow> u32 list option" where
  "raytraceLine m x0 y0 x1 y1 max_length min_length =
     (let dx_full = sint (x1 - x0); dy_full = sint (y1 - y0);
          dist = hypot (real_of_int dx_full) (real_of_int dy_full)
      in if dist < real (unat min_length) then Some []
         else do {
           min_x0 \<leftarrow> (if dist > 0
             then real_to_u32 (real (unat x0) + real_of_int dx_full / dist * real (unat min_length)) else Some x0);
           min_y0 \<leftarrow> (if dist > 0
             then real_to_u32 (real (unat y0) + real_of_int dy_full / dist * real (unat min_length)) else Some y0);
           let offset = min_y0 * size_x m + min_x0;
           let dx = sint (x1 - min_x0);
           let dy = sint (y1 - min_y0);
           let abs_dx = (word_of_int \<bar>dx\<bar> :: u32);
           let abs_dy = (word_of_int \<bar>dy\<bar> :: u32);
           let offset_dx = word_of_int (sign dx);
           let offset_dy = word_of_int (sign dy) * size_x m;
           let scale = (if dist = 0 then 1 else min 1 (real (unat max_length) / dist));
           if abs_dx \<ge> abs_dy then do {
             n \<leftarrow> real_to_u32 (scale * real (unat abs_dx));
             Some (bresenham2D abs_dx abs_dy (abs_dx div 2) offset_dx offset_dy offset n)
           }
           else do {
             n \<leftarrow> real_to_u32 (scale * real (unat abs_dy));
             Some (bresenham2D abs_dy abs_dx (abs_dy div 2) offset_dy offset_dx offset n)
           }
         })"

section \<open>Polygons\<close>

text \<open>\<open>PolygonOutlineCells\<close> pushes the cell of each offset.\<close>

fun offsets_cells :: "costmap \<Rightarrow> u32 list \<Rightarrow> map_location list option" where
  "offsets_cells m [] = Some []"
| "offsets_cells m (off # offs) = do {
     loc \<leftarrow> indexToCells m off;
     locs \<leftarrow> offsets_cells m offs;
     Some (loc # locs)
   }"

definition edge_cells :: "costmap \<Rightarrow> map_location \<Rightarrow> map_location \<Rightarrow> map_location list option" where
  "edge_cells m p q = do {
     offs \<leftarrow> raytraceLine m (fst p) (snd p) (fst q) (snd q) UINT_MAX 0;
     offsets_cells m offs
   }"

fun chain_cells :: "costmap \<Rightarrow> map_location list \<Rightarrow> map_location list option" where
  "chain_cells m (p # q # ps) = do {
     cs \<leftarrow> edge_cells m p q;
     rest \<leftarrow> chain_cells m (q # ps);
     Some (cs @ rest)
   }"
| "chain_cells m _ = Some []"

text \<open>For an empty polygon the bound \<open>polygon.size() - 1\<close> of the loop wraps around.\<close>

definition polygonOutlineCells ::
  "costmap \<Rightarrow> map_location list \<Rightarrow> map_location list \<Rightarrow> map_location list option" where
  "polygonOutlineCells m polygon polygon_cells =
     (if polygon = [] then None
      else do {
        cs \<leftarrow> chain_cells m polygon;
        closing \<leftarrow> edge_cells m (last polygon) (polygon ! 0);
        Some (polygon_cells @ cs @ closing)
      })"

text \<open>The bubble sort by \<open>x\<close>; its measure is the sum of the \<open>x\<close> weighted by the places behind.\<close>

fun weight :: "map_location list \<Rightarrow> nat" where
  "weight [] = 0"
| "weight (c # cs) = Suc (length cs) * unat (fst c) + weight cs"

lemma weight_swap:
  "Suc i < length cs \<Longrightarrow> fst (cs ! Suc i) < fst (cs ! i) \<Longrightarrow>
   weight (cs[i := cs ! Suc i, Suc i := cs ! i]) < weight cs"
proof (induction cs arbitrary: i)
  case (Cons c cs)
  show ?case
  proof (cases i)
    case 0
    then obtain d ds where cs: "cs = d # ds" using Cons.prems(1) by (cases cs) auto
    have "unat (fst d) < unat (fst c)"
      using Cons.prems(2) 0 cs by (simp add: word_less_nat_alt)
    then show ?thesis by (simp add: 0 cs)
  next
    case (Suc j)
    then show ?thesis using Cons by simp
  qed
qed simp

function bubble :: "nat \<Rightarrow> map_location list \<Rightarrow> map_location list" where
  "bubble i cs =
     (if i < length cs - 1 then
        if fst (cs ! i) > fst (cs ! Suc i)
        then bubble (if i > 0 then i - 1 else i) (cs[i := cs ! Suc i, Suc i := cs ! i])
        else bubble (i + 1) cs
      else cs)"
  by auto

termination
  by (relation "measures [\<lambda>(i, cs). weight cs, \<lambda>(i, cs). length cs - i]")
    (auto simp: less_diff_conv dest: weight_swap)

declare bubble.simps [simp del]

text \<open>The scan of one column, from index \<open>i\<close> on, for its lowest and highest cell.\<close>

function scan_column ::
  "map_location list \<Rightarrow> u32 \<Rightarrow> nat \<Rightarrow> map_location \<Rightarrow> map_location \<Rightarrow> nat \<times> map_location \<times> map_location" where
  "scan_column cs x i min_pt max_pt =
     (if i < length cs \<and> fst (cs ! i) = x then
        if snd (cs ! i) < snd min_pt then scan_column cs x (i + 1) (cs ! i) max_pt
        else if snd (cs ! i) > snd max_pt then scan_column cs x (i + 1) min_pt (cs ! i)
        else scan_column cs x (i + 1) min_pt max_pt
      else (i, min_pt, max_pt))"
  by auto

termination
  by (relation "measure (\<lambda>(cs, x, i, mn, mx). length cs - i)") auto

declare scan_column.simps [simp del]

text \<open>\<open>for (y = min_pt.y; y <= max_pt.y; ++y)\<close>, for \<open>max_pt.y\<close> below the largest \<open>unsigned int\<close>.\<close>

definition column_cells :: "u32 \<Rightarrow> u32 \<Rightarrow> u32 \<Rightarrow> map_location list" where
  "column_cells x y0 y1 = map (\<lambda>y. (x, of_nat y)) [unat y0..<Suc (unat y1)]"

fun fill_columns :: "u32 list \<Rightarrow> nat \<Rightarrow> map_location list \<Rightarrow> map_location list" where
  "fill_columns [] i cs = cs"
| "fill_columns (x # xs) i cs =
     (if i \<ge> length cs - 1 then cs
      else
        (let (min_pt, max_pt) = (if snd (cs ! i) < snd (cs ! Suc i) then (cs ! i, cs ! Suc i)
               else (cs ! Suc i, cs ! i));
             (i, min_pt, max_pt) = scan_column cs x (i + 2) min_pt max_pt
         in fill_columns xs i (cs @ column_cells x (snd min_pt) (snd max_pt))))"

definition columns :: "u32 \<Rightarrow> u32 \<Rightarrow> u32 list" where
  "columns min_x max_x = map of_nat [unat min_x..<Suc (unat max_x)]"

definition convexFillCells ::
  "costmap \<Rightarrow> map_location list \<Rightarrow> map_location list \<Rightarrow> map_location list option" where
  "convexFillCells m polygon polygon_cells =
     (if length polygon < 3 then Some polygon_cells
      else do {
        cs \<leftarrow> polygonOutlineCells m polygon polygon_cells;
        let cs = bubble 0 cs;
        Some (fill_columns (columns (fst (cs ! 0)) (fst (last cs))) 0 cs)
      })"

fun map_polygon :: "costmap \<Rightarrow> (real \<times> real) list \<Rightarrow> map_location list option option" where
  "map_polygon m [] = Some (Some [])"
| "map_polygon m (p # ps) = do {
     loc \<leftarrow> worldToMap m (fst p) (snd p);
     (case loc of
        None \<Rightarrow> Some None
      | Some l \<Rightarrow> do {
          ls \<leftarrow> map_polygon m ps;
          Some (case ls of None \<Rightarrow> None | Some ls \<Rightarrow> Some (l # ls))
        })
   }"

fun set_cells :: "map_location list \<Rightarrow> u8 \<Rightarrow> costmap \<Rightarrow> costmap option" where
  "set_cells [] v m = Some m"
| "set_cells (c # cs) v m = do {
     m \<leftarrow> setCost (fst c) (snd c) v m;
     set_cells cs v m
   }"

definition setConvexPolygonCost :: "(real \<times> real) list \<Rightarrow> u8 \<Rightarrow> costmap \<Rightarrow> (bool \<times> costmap) option" where
  "setConvexPolygonCost polygon cost_value m = do {
     mp \<leftarrow> map_polygon m polygon;
     (case mp of
        None \<Rightarrow> Some (False, m)
      | Some mp \<Rightarrow> do {
          cs \<leftarrow> convexFillCells m mp [];
          m \<leftarrow> set_cells cs cost_value m;
          Some (True, m)
        })
   }"

end
