(* ===== verification/Costmap_Lines.thy ===== *)
theory Costmap_Lines
  imports Costmap_Raytrace
begin

text \<open>
  The cells \<open>raytraceLine\<close> visits: the closed form of Bresenham's loop, its endpoints, its
  bounding box and the adjacency of successive cells; then the sorting and the filling of
  convex polygons.
\<close>

section \<open>The closed form of the loop\<close>

text \<open>Steps in the minor direction after \<open>i\<close> steps in the major one.\<close>

definition minor_steps :: "nat \<Rightarrow> nat \<Rightarrow> nat \<Rightarrow> nat" where
  "minor_steps a b i = (a div 2 + i * b) div a"

lemma bresenham_loop_closed:
  assumes "unat e < unat da" and "unat db \<le> unat da" and "unat da < 2 ^ 31"
  shows "bresenham_loop n da db e oa ob off =
    map (\<lambda>i. off + of_nat i * oa + of_nat ((unat e + i * unat db) div unat da) * ob) [0..<Suc n]"
  using assms
proof (induction n arbitrary: e off)
  case (Suc n)
  have sum: "unat (e + db) = unat e + unat db"
    using Suc.prems by (simp add: unat_word_ariths)
  let ?f = "\<lambda>i. off + of_nat i * oa + of_nat ((unat e + i * unat db) div unat da) * ob"
  have split: "map ?f [0..<Suc (Suc n)] = ?f 0 # map (\<lambda>i. ?f (Suc i)) [0..<Suc n]"
    by (simp only: upt_conv_Cons [of 0 "Suc (Suc n)"] map_Suc_upt [symmetric] zero_less_Suc list.map map_map o_def)
  have f0: "?f 0 = off" using Suc.prems(1) by simp
  show ?case
  proof (cases "unat da \<le> unat e + unat db")
    case True
    then have ge: "da \<le> e + db" by (simp add: word_le_nat_alt sum)
    then have sub: "unat (e + db - da) = unat e + unat db - unat da"
      by (simp add: unat_sub sum)
    have "(unat e + Suc i * unat db) div unat da = Suc ((unat (e + db - da) + i * unat db) div unat da)" for i
    proof -
      have "unat e + Suc i * unat db = unat (e + db - da) + i * unat db + unat da"
        using True sub by simp
      moreover have "(X + unat da) div unat da = Suc (X div unat da)" for X
        using Suc.prems(1) div_add_self2 [of "unat da" X] by simp
      ultimately show ?thesis by (simp only:)
    qed
    then have "?f (Suc i) = off + oa + ob + of_nat i * oa + of_nat ((unat (e + db - da) + i * unat db) div unat da) * ob" for i
      by (simp add: algebra_simps)
    then show ?thesis
      using Suc.IH [of "e + db - da" "off + oa + ob"] Suc.prems sub ge split f0
      by (simp add: Let_def add.assoc)
  next
    case False
    then have lt: "\<not> da \<le> e + db" by (simp add: word_le_nat_alt sum)
    have "(unat e + Suc i * unat db) div unat da = (unat (e + db) + i * unat db) div unat da" for i
      by (simp add: sum add.assoc)
    then have "?f (Suc i) = off + oa + of_nat i * oa + of_nat ((unat (e + db) + i * unat db) div unat da) * ob" for i
      by (simp add: algebra_simps)
    then show ?thesis
      using Suc.IH [of "e + db" "off + oa"] Suc.prems False sum lt split f0
      by (simp add: Let_def add.assoc)
  qed
qed simp

lemma minor_steps_0 [simp]: "minor_steps a b 0 = 0"
  by (cases "a = 0") (simp_all add: minor_steps_def div_less)

lemma minor_steps_end: "b \<le> a \<Longrightarrow> minor_steps a b a = b"
  by (cases "a = 0") (simp_all add: minor_steps_def)

lemma minor_steps_mono: "i \<le> j \<Longrightarrow> minor_steps a b i \<le> minor_steps a b j"
  by (simp add: minor_steps_def div_le_mono)

lemma minor_steps_Suc:
  assumes "b \<le> a"
  shows "minor_steps a b (Suc i) \<le> Suc (minor_steps a b i)"
proof (cases "a = 0")
  case False
  have "minor_steps a b (Suc i) \<le> (a div 2 + i * b + a) div a"
    using assms by (simp add: minor_steps_def div_le_mono)
  also have "\<dots> = Suc (minor_steps a b i)"
    using False by (simp add: minor_steps_def)
  finally show ?thesis .
qed (simp add: minor_steps_def)

section \<open>The cells of a line\<close>

definition line_cell :: "int \<times> int \<Rightarrow> int \<times> int \<Rightarrow> nat \<Rightarrow> int \<times> int" where
  "line_cell p q i =
     (let dx = fst q - fst p; dy = snd q - snd p; a = nat \<bar>dx\<bar>; b = nat \<bar>dy\<bar>
      in if b \<le> a then (fst p + sign dx * int i, snd p + sign dy * int (minor_steps a b i))
         else (fst p + sign dx * int (minor_steps b a i), snd p + sign dy * int i))"

definition line_steps :: "int \<times> int \<Rightarrow> int \<times> int \<Rightarrow> nat" where
  "line_steps p q = nat (max \<bar>fst q - fst p\<bar> \<bar>snd q - snd p\<bar>)"

definition line_cells :: "int \<times> int \<Rightarrow> int \<times> int \<Rightarrow> (int \<times> int) list" where
  "line_cells p q = map (line_cell p q) [0..<Suc (line_steps p q)]"

lemma line_steps_max: "line_steps p q = max (nat \<bar>fst q - fst p\<bar>) (nat \<bar>snd q - snd p\<bar>)"
  by (auto simp: line_steps_def max_def)

lemma sign_abs: "sign x * \<bar>x\<bar> = x"
  by (simp add: sign_def abs_if)

lemma sign_nat_abs: "sign x * int (nat \<bar>x\<bar>) = x"
  using sign_abs [of x] by simp

lemma line_cells_hd: "hd (line_cells p q) = p"
  by (simp add: line_cells_def hd_map line_cell_def Let_def del: upt_Suc)

lemma line_cells_last: "last (line_cells p q) = q"
proof -
  have "last (line_cells p q) = line_cell p q (line_steps p q)"
    by (simp add: line_cells_def)
  also have "\<dots> = q"
  proof (cases "nat \<bar>snd q - snd p\<bar> \<le> nat \<bar>fst q - fst p\<bar>")
    case True
    then have "line_steps p q = nat \<bar>fst q - fst p\<bar>" by (simp add: line_steps_max)
    then show ?thesis
      using True minor_steps_end [OF True] sign_nat_abs
      by (simp add: line_cell_def Let_def sign_abs)
  next
    case False
    then have "line_steps p q = nat \<bar>snd q - snd p\<bar>" by (simp add: line_steps_max)
    moreover have "nat \<bar>fst q - fst p\<bar> \<le> nat \<bar>snd q - snd p\<bar>" using False by simp
    ultimately show ?thesis
      using False minor_steps_end [of "nat \<bar>fst q - fst p\<bar>" "nat \<bar>snd q - snd p\<bar>"]
      by (simp add: line_cell_def Let_def sign_abs)
  qed
  finally show ?thesis .
qed

text \<open>Moving \<open>k\<close> of \<open>|d|\<close> steps towards the end stays between start and end.\<close>

lemma sign_between:
  assumes "int k \<le> \<bar>d\<bar>"
  shows "min x (x + d) \<le> x + sign d * int k \<and> x + sign d * int k \<le> max x (x + d)"
  using assms by (auto simp: sign_def)

lemma line_cell_box:
  assumes "i \<le> line_steps p q"
  shows "min (fst p) (fst q) \<le> fst (line_cell p q i)" "fst (line_cell p q i) \<le> max (fst p) (fst q)"
    "min (snd p) (snd q) \<le> snd (line_cell p q i)" "snd (line_cell p q i) \<le> max (snd p) (snd q)"
proof -
  let ?a = "nat \<bar>fst q - fst p\<bar>" and ?b = "nat \<bar>snd q - snd p\<bar>"
  have "\<exists>j k. line_cell p q i = (fst p + sign (fst q - fst p) * int j, snd p + sign (snd q - snd p) * int k) \<and>
      j \<le> ?a \<and> k \<le> ?b"
  proof (cases "?b \<le> ?a")
    case True
    then have i: "i \<le> ?a" using assms by (simp add: line_steps_max)
    then have "minor_steps ?a ?b i \<le> ?b"
      using minor_steps_mono [OF i, of ?a ?b] minor_steps_end [OF True] by simp
    then show ?thesis
      using True i by (intro exI [of _ i] exI [of _ "minor_steps ?a ?b i"]) (simp add: line_cell_def Let_def)
  next
    case False
    then have i: "i \<le> ?b" using assms by (simp add: line_steps_max)
    then have "minor_steps ?b ?a i \<le> ?a"
      using minor_steps_mono [OF i, of ?b ?a] minor_steps_end [of ?a ?b] False by simp
    then show ?thesis
      using False i by (intro exI [of _ "minor_steps ?b ?a i"] exI [of _ i]) (simp add: line_cell_def Let_def)
  qed
  then obtain j k where c: "line_cell p q i = (fst p + sign (fst q - fst p) * int j, snd p + sign (snd q - snd p) * int k)"
    and "j \<le> ?a" "k \<le> ?b" by blast
  then have jk: "int j \<le> \<bar>fst q - fst p\<bar>" "int k \<le> \<bar>snd q - snd p\<bar>" by simp_all
  show "min (fst p) (fst q) \<le> fst (line_cell p q i)" "fst (line_cell p q i) \<le> max (fst p) (fst q)"
    "min (snd p) (snd q) \<le> snd (line_cell p q i)" "snd (line_cell p q i) \<le> max (snd p) (snd q)"
    using sign_between [OF jk(1), of "fst p"] sign_between [OF jk(2), of "snd p"] by (simp_all add: c)
qed

lemma line_cell_adjacent:
  "\<bar>fst (line_cell p q (Suc i)) - fst (line_cell p q i)\<bar> \<le> 1 \<and>
   \<bar>snd (line_cell p q (Suc i)) - snd (line_cell p q i)\<bar> \<le> 1"
proof -
  have step: "\<bar>sign d * int (minor_steps a b (Suc i)) - sign d * int (minor_steps a b i)\<bar> \<le> 1" if "b \<le> a" for d a b
    using minor_steps_Suc [OF that, of i] minor_steps_mono [of i "Suc i" a b]
    by (auto simp: sign_def)
  moreover have "\<bar>sign d * int (Suc i) - sign d * int i\<bar> \<le> 1" for d
    by (auto simp: sign_def)
  ultimately show ?thesis
    by (auto simp: line_cell_def Let_def)
qed

lemma line_cells_x:
  assumes "nat \<bar>snd q - snd p\<bar> \<le> nat \<bar>fst q - fst p\<bar>"
  shows "line_cells p q = map (\<lambda>i. (fst p + sign (fst q - fst p) * int i,
    snd p + sign (snd q - snd p) * int (minor_steps (nat \<bar>fst q - fst p\<bar>) (nat \<bar>snd q - snd p\<bar>) i)))
    [0..<Suc (nat \<bar>fst q - fst p\<bar>)]"
  using assms by (simp add: line_cells_def line_cell_def Let_def line_steps_max max_absorb1 del: upt_Suc)

lemma line_cells_y:
  assumes "nat \<bar>fst q - fst p\<bar> < nat \<bar>snd q - snd p\<bar>"
  shows "line_cells p q = map (\<lambda>i. (
    fst p + sign (fst q - fst p) * int (minor_steps (nat \<bar>snd q - snd p\<bar>) (nat \<bar>fst q - fst p\<bar>) i),
    snd p + sign (snd q - snd p) * int i)) [0..<Suc (nat \<bar>snd q - snd p\<bar>)]"
proof -
  have "line_steps p q = nat \<bar>snd q - snd p\<bar>" and "\<not> nat \<bar>snd q - snd p\<bar> \<le> nat \<bar>fst q - fst p\<bar>"
    using assms by (simp_all only: line_steps_max not_le max_absorb2 less_imp_le)
  then show ?thesis
    unfolding line_cells_def by (simp only: line_cell_def Let_def if_False cong: map_cong)
qed

section \<open>The line the code traces\<close>

abbreviation int_loc :: "map_location \<Rightarrow> int \<times> int" where
  "int_loc c \<equiv> (int (unat (fst c)), int (unat (snd c)))"

definition cell_offset :: "costmap \<Rightarrow> int \<times> int \<Rightarrow> u32" where
  "cell_offset m c = word_of_int (snd c) * size_x m + word_of_int (fst c)"

lemma sint_diff:
  assumes "unat a < 2 ^ 31" and "unat b < 2 ^ 31"
  shows "sint (a - b :: u32) = int (unat a) - int (unat b)"
proof -
  have "a - b = word_of_int (int (unat a) - int (unat b))"
    by simp
  moreover have "signed_take_bit 31 (int (unat a) - int (unat b)) = int (unat a) - int (unat b)"
    using assms by (intro signed_take_bit_int_eq_self) (simp_all del: of_nat_unat)
  ultimately show ?thesis
    by (simp only: sint_sbintrunc') simp
qed

lemma hypot_le_sum: "hypot x y \<le> \<bar>x\<bar> + \<bar>y\<bar>"
  by (simp add: hypot_def sqrt_sum_squares_le_sum_abs)

lemma hypot_pos: "0 < hypot x y \<longleftrightarrow> x \<noteq> 0 \<or> y \<noteq> 0"
  by (auto simp: hypot_def sum_power2_gt_zero_iff)

lemma unat_UINT_MAX: "unat UINT_MAX = 2 ^ 32 - 1"
  by (simp add: UINT_MAX_def)

lemma real_to_u32_nat: "real_to_u32 (real (unat c)) = Some c"
  by (rule real_to_u32_cell) simp_all

lemma bresenham2D_dominant:
  assumes "unat db \<le> unat da" and "unat da < 2 ^ 31"
  shows "bresenham2D da db (da div 2) oa ob off da =
    map (\<lambda>i. off + of_nat i * oa + of_nat (minor_steps (unat da) (unat db) i) * ob) [0..<Suc (unat da)]"
proof (cases "unat da = 0")
  case True
  then show ?thesis by (simp add: bresenham2D_def minor_steps_def)
next
  case False
  have half: "unat (da div 2) = unat da div 2" by (simp add: unat_div)
  then have "unat (da div 2) < unat da" using False by simp
  then show ?thesis
    using bresenham_loop_closed [of "da div 2" da db "unat da" oa ob off] assms
    by (simp add: bresenham2D_def minor_steps_def half del: upt_Suc)
qed

text \<open>The two calls of \<open>bresenham2D\<close>, cut off after \<open>n\<close> steps, trace the first cells of the line.\<close>

lemma bresenham2D_prefix:
  assumes "unat db \<le> unat da" and "unat da < 2 ^ 31" and "unat n \<le> unat da"
  shows "bresenham2D da db (da div 2) oa ob off n = take (Suc (unat n)) (bresenham2D da db (da div 2) oa ob off da)"
proof -
  have "min n da = n" using assms(3) by (simp add: min_def word_le_nat_alt)
  moreover have "bresenham_loop (unat n) da db (da div 2) oa ob off =
      map (\<lambda>i. off + of_nat i * oa + of_nat ((unat (da div 2) + i * unat db) div unat da) * ob) [0..<Suc (unat n)]"
    if "0 < unat da"
  proof (rule bresenham_loop_closed [OF _ assms(1,2)])
    show "unat (da div 2) < unat da" using that by (simp add: unat_div)
  qed
  moreover have "unat n = 0" if "unat da = 0" using assms(3) that by simp
  ultimately show ?thesis
    using bresenham2D_dominant [OF assms(1,2), of oa ob off] assms(3)
    by (cases "unat da = 0") (simp_all add: bresenham2D_def minor_steps_def unat_div take_map min_def del: upt_Suc)
qed

lemma bresenham_line:
  fixes x0 y0 x1 y1 :: u32
  defines "dx \<equiv> int (unat x1) - int (unat x0)" and "dy \<equiv> int (unat y1) - int (unat y0)"
  defines "a \<equiv> (word_of_int \<bar>dx\<bar> :: u32)" and "b \<equiv> (word_of_int \<bar>dy\<bar> :: u32)"
  assumes "unat x0 < 2 ^ 31" and "unat y0 < 2 ^ 31" and "unat x1 < 2 ^ 31" and "unat y1 < 2 ^ 31"
  shows "unat a = nat \<bar>dx\<bar>" and "unat b = nat \<bar>dy\<bar>" and "unat a < 2 ^ 31" and "unat b < 2 ^ 31"
    and "(if a \<ge> b then bresenham2D a b (a div 2) (word_of_int (sign dx)) (word_of_int (sign dy) * size_x m) (y0 * size_x m + x0) a
      else bresenham2D b a (b div 2) (word_of_int (sign dy) * size_x m) (word_of_int (sign dx)) (y0 * size_x m + x0) b) =
      map (cell_offset m) (line_cells (int_loc (x0, y0)) (int_loc (x1, y1)))"
proof -
  have abs: "\<bar>dx\<bar> < 2 ^ 31" "\<bar>dy\<bar> < 2 ^ 31"
    using assms(5-8) by (simp_all add: dx_def dy_def abs_less_iff del: of_nat_unat)
  show ab: "unat a = nat \<bar>dx\<bar>" "unat b = nat \<bar>dy\<bar>"
    using abs unat_of_int_small [of "\<bar>dx\<bar>"] unat_of_int_small [of "\<bar>dy\<bar>"] by (simp_all add: a_def b_def)
  show small: "unat a < 2 ^ 31" "unat b < 2 ^ 31"
    using abs by (simp_all add: ab)
  show "(if a \<ge> b then bresenham2D a b (a div 2) (word_of_int (sign dx)) (word_of_int (sign dy) * size_x m) (y0 * size_x m + x0) a
      else bresenham2D b a (b div 2) (word_of_int (sign dy) * size_x m) (word_of_int (sign dx)) (y0 * size_x m + x0) b) =
      map (cell_offset m) (line_cells (int_loc (x0, y0)) (int_loc (x1, y1)))"
  proof (cases "b \<le> a")
    case True
    then have le: "unat b \<le> unat a" by (simp add: word_le_nat_alt)
    then have "nat \<bar>dy\<bar> \<le> nat \<bar>dx\<bar>" by (simp only: ab)
    then have cells: "line_cells (int_loc (x0, y0)) (int_loc (x1, y1)) =
        map (\<lambda>i. (int (unat x0) + sign dx * int i, int (unat y0) + sign dy * int (minor_steps (unat a) (unat b) i))) [0..<Suc (unat a)]"
      using line_cells_x [where p = "int_loc (x0, y0)" and q = "int_loc (x1, y1)"]
      by (simp only: fst_conv snd_conv dx_def [symmetric] dy_def [symmetric] ab)
    show ?thesis
      unfolding cells using True bresenham2D_dominant [OF le small(1)]
      by (simp add: cell_offset_def algebra_simps del: upt_Suc)
  next
    case False
    then have le: "unat a \<le> unat b" "\<not> unat b \<le> unat a" by (simp_all add: word_le_nat_alt)
    then have "nat \<bar>dx\<bar> < nat \<bar>dy\<bar>" by (simp only: ab not_le)
    then have cells: "line_cells (int_loc (x0, y0)) (int_loc (x1, y1)) =
        map (\<lambda>i. (int (unat x0) + sign dx * int (minor_steps (unat b) (unat a) i), int (unat y0) + sign dy * int i)) [0..<Suc (unat b)]"
      using line_cells_y [where p = "int_loc (x0, y0)" and q = "int_loc (x1, y1)"]
      by (simp only: fst_conv snd_conv dx_def [symmetric] dy_def [symmetric] ab)
    show ?thesis
      unfolding cells using False bresenham2D_dominant [OF le(1) small(2)]
      by (simp add: cell_offset_def algebra_simps del: upt_Suc)
  qed
qed

lemma raytraceLine_cells:
  assumes "unat x0 < 2 ^ 31" and "unat y0 < 2 ^ 31" and "unat x1 < 2 ^ 31" and "unat y1 < 2 ^ 31"
  shows "raytraceLine m x0 y0 x1 y1 UINT_MAX 0 =
    Some (map (cell_offset m) (line_cells (int_loc (x0, y0)) (int_loc (x1, y1))))"
proof -
  define dx where "dx = int (unat x1) - int (unat x0)"
  define dy where "dy = int (unat y1) - int (unat y0)"
  define a where "a = (word_of_int \<bar>dx\<bar> :: u32)"
  define b where "b = (word_of_int \<bar>dy\<bar> :: u32)"
  define d where "d = hypot (real_of_int dx) (real_of_int dy)"
  have s: "sint (x1 - x0) = dx" "sint (y1 - y0) = dy"
    using assms sint_diff by (simp_all add: dx_def dy_def del: of_nat_unat)
  note line = bresenham_line [OF assms, folded dx_def dy_def, folded a_def b_def]
  have abs: "\<bar>dx\<bar> < 2 ^ 31" "\<bar>dy\<bar> < 2 ^ 31"
    using line(1-4) by simp_all
  have "d \<le> \<bar>real_of_int dx\<bar> + \<bar>real_of_int dy\<bar>"
    unfolding d_def by (rule hypot_le_sum)
  also have "\<dots> = real_of_int (\<bar>dx\<bar> + \<bar>dy\<bar>)" by simp
  also have "\<dots> \<le> real_of_int (2 ^ 32 - 1)"
    using abs by (subst of_int_le_iff) simp
  finally have "d \<le> real (unat UINT_MAX)"
    by (simp add: unat_UINT_MAX del: of_nat_unat)
  then have scale: "(if d = 0 then 1 else min 1 (real (unat UINT_MAX) / d)) = 1"
    using hypot_nonneg [of "real_of_int dx" "real_of_int dy"]
    by (auto simp: d_def [symmetric] min_def le_divide_eq_1 simp del: of_nat_unat)
  have start: "(if 0 < d then real_to_u32 (real (unat c) + real_of_int e / d * real (unat (0 :: u32))) else Some c) = Some c" for c e
    using real_to_u32_nat [of c] by (simp del: of_nat_unat)
  have nonneg: "\<not> d < real (unat (0 :: u32))"
    by (simp add: d_def not_less)
  have run: "raytraceLine m x0 y0 x1 y1 UINT_MAX 0 = Some (
      if a \<ge> b then bresenham2D a b (a div 2) (word_of_int (sign dx)) (word_of_int (sign dy) * size_x m) (y0 * size_x m + x0) a
      else bresenham2D b a (b div 2) (word_of_int (sign dy) * size_x m) (word_of_int (sign dx)) (y0 * size_x m + x0) b)"
    unfolding raytraceLine_def s Let_def d_def [symmetric] if_not_P [OF nonneg] start Option.bind.simps s
      a_def [symmetric] b_def [symmetric] scale
    using real_to_u32_nat [of a] real_to_u32_nat [of b] by (simp del: of_nat_unat)
  show ?thesis unfolding run line(5) ..
qed

end
