(* ===== verification/Costmap_Polygon.thy ===== *)
theory Costmap_Polygon
  imports Costmap_Lines "HOL-Library.Multiset"
begin

text \<open>
  Polygons on the costmap: the outline covers every column at least twice, the bubble sort orders
  it by columns, and the filling adds exactly the cells between outline cells of one column.
\<close>

section \<open>Lines inside the grid\<close>

definition loc :: "int \<times> int \<Rightarrow> map_location" where
  "loc c = (word_of_int (fst c), word_of_int (snd c))"

definition in_grid :: "costmap \<Rightarrow> map_location \<Rightarrow> bool" where
  "in_grid m c \<longleftrightarrow> fst c < size_x m \<and> snd c < size_y m"

lemma loc_int_loc [simp]: "loc (int_loc c) = c"
  by (simp add: loc_def)

lemma unat_loc:
  assumes "0 \<le> x" and "x < int (unat (w :: u32))"
  shows "unat (word_of_int x :: u32) = nat x"
proof (rule unat_of_int_small [OF assms(1)])
  have "int (unat w) < 2 ^ 32"
    using unsigned_less [of w, where 'a = nat] by (simp del: of_nat_unat)
  then show "x < 2 ^ 32" using assms(2) by linarith
qed

lemma line_cell_in_grid:
  assumes "in_grid m p" and "in_grid m q" and "c \<in> set (line_cells (int_loc p) (int_loc q))"
  shows "in_grid m (loc c) \<and> 0 \<le> fst c \<and> 0 \<le> snd c \<and> int_loc (loc c) = c"
proof -
  obtain i where i: "i \<le> line_steps (int_loc p) (int_loc q)" and c: "c = line_cell (int_loc p) (int_loc q) i"
    using assms(3) by (force simp: line_cells_def less_Suc_eq_le simp del: upt_Suc of_nat_unat)
  note box = line_cell_box [OF i, folded c]
  have b: "0 \<le> fst c" "fst c < int (width m)" "0 \<le> snd c" "snd c < int (height m)"
    using box assms(1,2) by (auto simp: in_grid_def word_less_nat_alt min_def max_def simp del: of_nat_unat split: if_splits)
  then show ?thesis
    using unat_loc [OF b(1,2)] unat_loc [OF b(3,4)]
    by (simp add: in_grid_def loc_def word_less_nat_alt prod_eq_iff nat_less_iff del: of_nat_unat)
qed

lemma cell_offset_getIndex: "cell_offset m c = getIndex m (fst (loc c)) (snd (loc c))"
  by (simp add: cell_offset_def getIndex_def loc_def)

lemma offsets_cells_line:
  assumes "grid_ok m" and "\<forall>c \<in> set cs. in_grid m (loc c)"
  shows "offsets_cells m (map (cell_offset m) cs) = Some (map loc cs)"
  using assms
  by (induction cs) (simp_all add: cell_offset_getIndex indexToCells_getIndex in_grid_def)

text \<open>The grid's sizes fit an \<open>int\<close>.\<close>

definition int_sized :: "costmap \<Rightarrow> bool" where
  "int_sized m \<longleftrightarrow> width m < 2 ^ 31 \<and> height m < 2 ^ 31"

definition segment :: "map_location \<Rightarrow> map_location \<Rightarrow> map_location list" where
  "segment p q = map loc (line_cells (int_loc p) (int_loc q))"

lemma raytraceLine_in_grid:
  assumes "int_sized m" and "in_grid m p" and "in_grid m q"
  shows "raytraceLine m (fst p) (snd p) (fst q) (snd q) UINT_MAX 0 =
    Some (map (\<lambda>c. getIndex m (fst c) (snd c)) (segment p q))"
proof -
  have "unat (fst p) < 2 ^ 31" "unat (snd p) < 2 ^ 31" "unat (fst q) < 2 ^ 31" "unat (snd q) < 2 ^ 31"
    using assms by (auto simp: int_sized_def in_grid_def word_less_nat_alt)
  from raytraceLine_cells [OF this] show ?thesis
    by (simp add: segment_def o_def cell_offset_getIndex)
qed

lemma segment_in_grid:
  assumes "in_grid m p" and "in_grid m q" and "c \<in> set (segment p q)"
  shows "in_grid m c"
  using line_cell_in_grid [OF assms(1,2)] assms(3) by (auto simp: segment_def)

lemma edge_cells_segment:
  assumes "grid_ok m" and "int_sized m" and "in_grid m p" and "in_grid m q"
  shows "edge_cells m p q = Some (segment p q)"
proof -
  have "offsets_cells m (map (cell_offset m) (line_cells (int_loc p) (int_loc q))) = Some (segment p q)"
    unfolding segment_def using line_cell_in_grid [OF assms(3,4)] assms(1) by (intro offsets_cells_line) auto
  moreover have "map (cell_offset m) (line_cells (int_loc p) (int_loc q)) = map (\<lambda>c. getIndex m (fst c) (snd c)) (segment p q)"
    by (simp add: segment_def o_def cell_offset_getIndex)
  ultimately show ?thesis
    by (simp add: edge_cells_def raytraceLine_in_grid [OF assms(2-4)])
qed

lemma segment_hd: "hd (segment p q) = p" and segment_last: "last (segment p q) = q"
  and segment_nonempty: "segment p q \<noteq> []"
proof -
  have ne: "line_cells (int_loc p) (int_loc q) \<noteq> []" by (simp add: line_cells_def)
  then show "segment p q \<noteq> []" by (simp add: segment_def)
  show "hd (segment p q) = p" "last (segment p q) = q"
    using ne line_cells_hd [of "int_loc p" "int_loc q"] line_cells_last [of "int_loc p" "int_loc q"]
    by (simp_all add: segment_def hd_map last_map del: of_nat_unat)
qed

lemma length_segment: "length (segment p q) =
  Suc (max (nat \<bar>int (unat (fst q)) - int (unat (fst p))\<bar>) (nat \<bar>int (unat (snd q)) - int (unat (snd p))\<bar>))"
  by (simp only: segment_def line_cells_def length_map length_upt line_steps_max fst_conv snd_conv diff_zero)

lemma segment_adjacent:
  assumes "in_grid m p" and "in_grid m q"
  shows "\<forall>i. Suc i < length (segment p q) \<longrightarrow>
    \<bar>int (unat (fst (segment p q ! Suc i))) - int (unat (fst (segment p q ! i)))\<bar> \<le> 1 \<and>
    \<bar>int (unat (snd (segment p q ! Suc i))) - int (unat (snd (segment p q ! i)))\<bar> \<le> 1"
proof (intro allI impI)
  fix i assume i: "Suc i < length (segment p q)"
  have cell: "int_loc (segment p q ! j) = line_cell (int_loc p) (int_loc q) j" if "j < length (segment p q)" for j
  proof -
    have j: "j < length (line_cells (int_loc p) (int_loc q))" using that by (simp add: segment_def)
    then have "segment p q ! j = loc (line_cells (int_loc p) (int_loc q) ! j)"
      by (simp add: segment_def)
    moreover have "line_cells (int_loc p) (int_loc q) ! j = line_cell (int_loc p) (int_loc q) j"
      using j by (simp add: line_cells_def del: upt_Suc of_nat_unat)
    ultimately show ?thesis
      using line_cell_in_grid [OF assms nth_mem [OF j]] by simp
  qed
  show "\<bar>int (unat (fst (segment p q ! Suc i))) - int (unat (fst (segment p q ! i)))\<bar> \<le> 1 \<and>
    \<bar>int (unat (snd (segment p q ! Suc i))) - int (unat (snd (segment p q ! i)))\<bar> \<le> 1"
    using line_cell_adjacent [of "int_loc p" "int_loc q" i] cell [OF i] cell [of i] i
    by (metis (no_types, lifting) Suc_lessD fst_conv snd_conv)
qed

section \<open>Columns\<close>

text \<open>A sequence of integers with steps of at most one takes every value between its ends.\<close>

lemma steps_reach:
  fixes f :: "nat \<Rightarrow> int"
  assumes "\<forall>i. \<bar>f (Suc i) - f i\<bar> \<le> 1" and "min (f 0) (f n) \<le> x" and "x \<le> max (f 0) (f n)"
  shows "\<exists>i \<le> n. f i = x"
  using assms
proof (induction n)
  case (Suc n)
  show ?case
  proof (cases "f (Suc n) = x")
    case False
    have "\<bar>f (Suc n) - f n\<bar> \<le> 1" using Suc.prems(1) by blast
    then have "min (f 0) (f n) \<le> x \<and> x \<le> max (f 0) (f n)"
      using Suc.prems(2,3) False by (smt (verit))
    then show ?thesis using Suc by (meson le_SucI)
  qed auto
qed auto

definition spans :: "u32 \<Rightarrow> map_location \<times> map_location \<Rightarrow> bool" where
  "spans x e \<longleftrightarrow> min (fst (fst e)) (fst (snd e)) \<le> x \<and> x \<le> max (fst (fst e)) (fst (snd e))"

definition column :: "u32 \<Rightarrow> map_location list \<Rightarrow> map_location list" where
  "column x cs = filter (\<lambda>c. fst c = x) cs"

lemma column_append [simp]: "column x (cs @ ds) = column x cs @ column x ds"
  by (simp add: column_def)

lemma segment_column:
  assumes "in_grid m p" and "in_grid m q" and "spans x (p, q)"
  shows "column x (segment p q) \<noteq> []"
proof -
  let ?f = "\<lambda>i. fst (line_cell (int_loc p) (int_loc q) i)"
  let ?n = "line_steps (int_loc p) (int_loc q)"
  have ends: "?f 0 = int (unat (fst p))" "?f ?n = int (unat (fst q))"
    using line_cells_hd [of "int_loc p" "int_loc q"] line_cells_last [of "int_loc p" "int_loc q"]
    by (simp_all add: line_cells_def hd_map del: upt_Suc of_nat_unat)
       (simp add: line_cells_def del: of_nat_unat)
  have "\<exists>i \<le> ?n. ?f i = int (unat x)"
  proof (rule steps_reach)
    show "\<forall>i. \<bar>?f (Suc i) - ?f i\<bar> \<le> 1" using line_cell_adjacent by blast
    show "min (?f 0) (?f ?n) \<le> int (unat x)" "int (unat x) \<le> max (?f 0) (?f ?n)"
      using assms(3) unfolding ends
      by (auto simp: spans_def min_def max_def word_le_nat_alt simp del: of_nat_unat split: if_splits)
  qed
  then obtain i where i: "i \<le> ?n" "?f i = int (unat x)" by blast
  let ?c = "line_cell (int_loc p) (int_loc q) i"
  have "?c \<in> set (line_cells (int_loc p) (int_loc q))"
    using i(1) by (simp add: line_cells_def del: upt_Suc of_nat_unat)
  then have "loc ?c \<in> set (segment p q)" by (simp add: segment_def)
  moreover have "fst (loc ?c) = x" using i(2) by (simp add: loc_def)
  ultimately show ?thesis by (force simp: column_def filter_empty_conv)
qed

section \<open>The outline\<close>

definition edges :: "map_location list \<Rightarrow> (map_location \<times> map_location) list" where
  "edges vs = zip vs (tl vs) @ [(last vs, hd vs)]"

definition outline :: "map_location list \<Rightarrow> map_location list" where
  "outline vs = concat (map (\<lambda>(p, q). segment p q) (edges vs))"

lemma chain_cells_segments:
  assumes "grid_ok m" and "int_sized m" and "\<forall>v \<in> set vs. in_grid m v"
  shows "chain_cells m vs = Some (concat (map (\<lambda>(p, q). segment p q) (zip vs (tl vs))))"
  using assms
proof (induction m vs rule: chain_cells.induct)
  case (1 m p q ps)
  then show ?case by (simp add: edge_cells_segment)
qed simp_all

lemma polygonOutlineCells_outline:
  assumes "grid_ok m" and "int_sized m" and "\<forall>v \<in> set vs. in_grid m v" and "vs \<noteq> []"
  shows "polygonOutlineCells m vs cs = Some (cs @ outline vs)"
  using assms edge_cells_segment [OF assms(1,2), of "last vs" "hd vs"]
  by (simp add: polygonOutlineCells_def chain_cells_segments outline_def edges_def hd_conv_nth)

lemma edges_in: "vs \<noteq> [] \<Longrightarrow> (p, q) \<in> set (edges vs) \<Longrightarrow> p \<in> set vs \<and> q \<in> set vs"
  by (auto simp: edges_def dest: set_zip_leftD set_zip_rightD list.set_sel(2))

lemma outline_in_grid:
  assumes "\<forall>v \<in> set vs. in_grid m v" and "vs \<noteq> []" and "c \<in> set (outline vs)"
  shows "in_grid m c"
  using assms edges_in [OF assms(2)] by (force simp: outline_def intro: segment_in_grid)

text \<open>A chain none of whose edges spans a column stays on one side of it.\<close>

lemma not_spans: "\<not> spans x (p, q) \<Longrightarrow> (fst p < x \<longleftrightarrow> fst q < x) \<and> (x < fst p \<longleftrightarrow> x < fst q) \<and> fst p \<noteq> x"
  by (auto simp: spans_def min_def max_def not_le split: if_splits)

lemma chain_side:
  assumes "\<forall>e \<in> set (zip vs (tl vs)). \<not> spans x e" and "v \<in> set vs"
  shows "(fst v < x \<longleftrightarrow> fst (hd vs) < x) \<and> (x < fst v \<longleftrightarrow> x < fst (hd vs))"
  using assms
proof (induction vs)
  case (Cons a vs)
  show ?case
  proof (cases vs)
    case (Cons b ws)
    have "\<not> spans x (a, b)" using Cons.prems(1) Cons by simp
    note side = not_spans [OF this]
    show ?thesis
    proof (cases "v = a")
      case False
      then have "(fst v < x \<longleftrightarrow> fst b < x) \<and> (x < fst v \<longleftrightarrow> x < fst b)"
        using Cons.IH Cons.prems Cons by auto
      then show ?thesis using side by simp
    qed simp
  qed (use Cons.prems in simp)
qed simp

lemma chain_crosses:
  assumes "u \<in> set vs" and "v \<in> set vs" and "(fst u < x) \<noteq> (fst v < x) \<or> (x < fst u) \<noteq> (x < fst v)"
  shows "1 \<le> length (filter (spans x) (zip vs (tl vs)))"
proof (rule ccontr)
  assume "\<not> ?thesis"
  then have "filter (spans x) (zip vs (tl vs)) = []" by (metis One_nat_def Suc_leI length_greater_0_conv)
  then have none: "\<forall>e \<in> set (zip vs (tl vs)). \<not> spans x e" by (simp add: filter_empty_conv)
  show False
    using assms chain_side [OF none] by metis
qed

lemma zip_tl_split: "zip (as @ v # bs) (tl (as @ v # bs)) = zip (as @ [v]) (tl (as @ [v])) @ zip (v # bs) bs"
proof (induction as)
  case (Cons a as)
  then show ?case by (cases as) simp_all
qed simp

lemma edges_span_twice:
  assumes "2 \<le> length vs" and "u \<in> set vs" and "fst u \<le> x" and "w \<in> set vs" and "x \<le> fst w"
  shows "2 \<le> length (filter (spans x) (edges vs))"
proof -
  have ne: "vs \<noteq> []" using assms(1) by auto
  have ends: "hd vs \<in> set vs" "last vs \<in> set vs" using ne by simp_all
  show ?thesis
  proof (cases "spans x (last vs, hd vs)")
    case True
    have "1 \<le> length (filter (spans x) (zip vs (tl vs)))"
    proof (rule ccontr)
      assume "\<not> ?thesis"
      then have "filter (spans x) (zip vs (tl vs)) = []" by (metis One_nat_def Suc_leI length_greater_0_conv)
      then have none: "\<forall>e \<in> set (zip vs (tl vs)). \<not> spans x e" by (simp add: filter_empty_conv)
      obtain a b ws where vs: "vs = a # b # ws" using assms(1) by (cases vs; cases "tl vs") auto
      then have "fst a \<noteq> x" using none not_spans [of x a b] by auto
      then show False
        using chain_side [OF none assms(2)] chain_side [OF none assms(4)] assms(3,5) vs by auto
    qed
    then show ?thesis using True by (simp add: edges_def)
  next
    case False
    note side = not_spans [OF this]
    have "\<exists>v \<in> set vs. (fst v < x) \<noteq> (fst (hd vs) < x) \<or> (x < fst v) \<noteq> (x < fst (hd vs))"
    proof (cases "fst (hd vs) < x")
      case True
      then show ?thesis using assms(4,5) by (intro bexI [of _ w]) auto
    next
      case False
      then have "x < fst (hd vs)" using side by auto
      then show ?thesis using assms(2,3) by (intro bexI [of _ u]) auto
    qed
    then obtain v where v: "v \<in> set vs" and
      diff: "(fst v < x) \<noteq> (fst (hd vs) < x) \<or> (x < fst v) \<noteq> (x < fst (hd vs))" by blast
    obtain as bs where vs: "vs = as @ v # bs" using v by (auto simp: in_set_conv_decomp)
    have "1 \<le> length (filter (spans x) (zip (as @ [v]) (tl (as @ [v]))))"
    proof (rule chain_crosses)
      show "v \<in> set (as @ [v])" and "hd vs \<in> set (as @ [v])" using vs by (cases as; simp)+
    qed (use diff in auto)
    moreover have "1 \<le> length (filter (spans x) (zip (v # bs) (tl (v # bs))))"
    proof (rule chain_crosses)
      show "v \<in> set (v # bs)" by simp
      show "last vs \<in> set (v # bs)" using vs by (metis last_appendR last_in_set list.distinct(1))
    qed (use diff side in auto)
    ultimately show ?thesis
      using zip_tl_split [of as v bs] by (simp add: edges_def vs)
  qed
qed

lemma column_concat_segments:
  assumes "\<forall>(p, q) \<in> set es. in_grid m p \<and> in_grid m q"
  shows "length (filter (spans x) es) \<le> length (column x (concat (map (\<lambda>(p, q). segment p q) es)))"
  using assms
proof (induction es)
  case (Cons e es)
  obtain p q where e: "e = (p, q)" by (cases e)
  have "spans x e \<Longrightarrow> 1 \<le> length (column x (segment p q))"
    using segment_column [of m p q x] Cons.prems e by (simp add: Suc_leI)
  then show ?case
    using Cons e by (cases "spans x e") auto
qed (simp add: column_def)

lemma line_cell_column_box:
  assumes "in_grid m p" and "in_grid m q" and "c \<in> set (segment p q)"
  shows "min (fst p) (fst q) \<le> fst c \<and> fst c \<le> max (fst p) (fst q)"
proof -
  obtain d where d: "d \<in> set (line_cells (int_loc p) (int_loc q))" and c: "c = loc d"
    using assms(3) by (auto simp: segment_def)
  then obtain i where i: "i \<le> line_steps (int_loc p) (int_loc q)" and di: "d = line_cell (int_loc p) (int_loc q) i"
    by (force simp: line_cells_def less_Suc_eq_le simp del: upt_Suc of_nat_unat)
  have "int_loc c = d" using line_cell_in_grid [OF assms(1,2) d] c by simp
  then have "int (unat (fst c)) = fst d" by auto
  then show ?thesis
    using line_cell_box(1,2) [OF i] di
    by (auto simp: min_def max_def word_le_nat_alt simp del: of_nat_unat split: if_splits)
qed

text \<open>Every column between two cells of the outline has at least two cells of the outline.\<close>

lemma outline_columns:
  assumes "\<forall>v \<in> set vs. in_grid m v" and "2 \<le> length vs"
    and "a \<in> set (outline vs)" and "fst a \<le> x" and "b \<in> set (outline vs)" and "x \<le> fst b"
  shows "2 \<le> length (column x (outline vs))"
proof -
  have ne: "vs \<noteq> []" using assms(2) by auto
  have vertex: "\<exists>u \<in> set vs. fst u \<le> fst c" "\<exists>w \<in> set vs. fst c \<le> fst w" if "c \<in> set (outline vs)" for c
  proof -
    have "\<exists>e \<in> set (edges vs). c \<in> set (segment (fst e) (snd e))"
      using that by (simp add: outline_def split_beta)
    then obtain e where "e \<in> set (edges vs)" "c \<in> set (segment (fst e) (snd e))" ..
    then obtain p q where pq: "(p, q) \<in> set (edges vs)" "c \<in> set (segment p q)"
      by (metis prod.collapse)
    have "p \<in> set vs" "q \<in> set vs" using edges_in [OF ne pq(1)] by simp_all
    then show "\<exists>u \<in> set vs. fst u \<le> fst c" "\<exists>w \<in> set vs. fst c \<le> fst w"
      using line_cell_column_box [OF _ _ pq(2), of m] assms(1) by (auto simp: min_def max_def split: if_splits)
  qed
  obtain u w where "u \<in> set vs" "fst u \<le> x" "w \<in> set vs" "x \<le> fst w"
    using vertex(1) [OF assms(3)] vertex(2) [OF assms(5)] assms(4,6) by (meson order_trans)
  then have "2 \<le> length (filter (spans x) (edges vs))"
    by (rule edges_span_twice [OF assms(2)])
  also have "\<dots> \<le> length (column x (outline vs))"
    unfolding outline_def using edges_in [OF ne] assms(1) by (intro column_concat_segments [of _ m]) auto
  finally show ?thesis .
qed

section \<open>Sorting\<close>

lemma bubble_spec:
  assumes "\<forall>k. k < i \<and> Suc k < length cs \<longrightarrow> fst (cs ! k) \<le> fst (cs ! Suc k)"
  shows "sorted (map fst (bubble i cs)) \<and> mset (bubble i cs) = mset cs"
  using assms
proof (induction i cs rule: bubble.induct)
  case (1 i cs)
  show ?case
  proof (cases "i < length cs - 1")
    case False
    then have "\<forall>k. Suc k < length cs \<longrightarrow> fst (cs ! k) \<le> fst (cs ! Suc k)"
      using 1(3) by auto
    then show ?thesis
      using False by (simp add: bubble.simps [of i cs] sorted_iff_nth_Suc)
  next
    case True
    show ?thesis
    proof (cases "fst (cs ! Suc i) < fst (cs ! i)")
      case swap: True
      let ?cs = "cs[i := cs ! Suc i, Suc i := cs ! i]"
      have "\<forall>k. k < (if i > 0 then i - 1 else i) \<and> Suc k < length ?cs \<longrightarrow> fst (?cs ! k) \<le> fst (?cs ! Suc k)"
        using 1(3) by (auto simp: nth_list_update)
      from 1(1) [OF True swap this] show ?thesis
        using True swap by (subst (1 2) bubble.simps) (simp add: mset_swap)
    next
      case False
      have "\<forall>k. k < i + 1 \<and> Suc k < length cs \<longrightarrow> fst (cs ! k) \<le> fst (cs ! Suc k)"
        using 1(3) False by (auto simp: less_Suc_eq)
      from 1(2) [OF True False this] show ?thesis
        using True False by (subst (1 2) bubble.simps) simp
    qed
  qed
qed

lemma column_split:
  assumes "sorted (map fst cs)" and "\<forall>c \<in> set cs. x \<le> fst c"
  shows "cs = column x cs @ filter (\<lambda>c. fst c \<noteq> x) cs"
  using assms
proof (induction cs)
  case (Cons c cs)
  show ?case
  proof (cases "fst c = x")
    case False
    then have "\<forall>d \<in> set cs. fst d \<noteq> x"
      using Cons.prems by force
    then have "column x cs = []" "filter (\<lambda>c. fst c \<noteq> x) cs = cs"
      by (simp_all add: column_def filter_empty_conv filter_id_conv)
    then show ?thesis using False by (simp add: column_def)
  qed (use Cons in \<open>simp add: column_def\<close>)
qed (simp add: column_def)

text \<open>A list sorted by columns is its columns one after the other.\<close>

lemma sorted_columns:
  assumes "sorted (map fst cs)" and "sorted xs" and "distinct xs" and "fst ` set cs \<subseteq> set xs"
  shows "cs = concat (map (\<lambda>x. column x cs) xs)"
  using assms
proof (induction xs arbitrary: cs)
  case (Cons x xs)
  let ?r = "filter (\<lambda>c. fst c \<noteq> x) cs"
  have split: "cs = column x cs @ ?r"
    using Cons.prems by (intro column_split) auto
  have r: "?r = concat (map (\<lambda>y. column y ?r) xs)"
    using Cons.prems by (intro Cons.IH) (auto simp: sorted_filter)
  have "column y ?r = column y cs" if "y \<in> set xs" for y
    using that Cons.prems(3) by (auto simp: column_def intro: filter_cong)
  then have "map (\<lambda>y. column y ?r) xs = map (\<lambda>y. column y cs) xs" by simp
  then have "?r = concat (map (\<lambda>y. column y cs) xs)" using r by metis
  then show ?case using split by (metis concat.simps(2) list.map(2))
qed simp

section \<open>Filling\<close>

lemma scan_column_spec:
  assumes "\<forall>c \<in> set g. fst c = x" and "rest = [] \<or> fst (hd rest) \<noteq> x" and "snd mn \<le> snd mx"
  shows "\<exists>mn' mx'. scan_column (pre @ g @ rest) x (length pre) mn mx = (length (pre @ g), mn', mx') \<and>
    mn' \<in> insert mn (set g) \<and> mx' \<in> insert mx (set g) \<and> snd mn' \<le> snd mn \<and> snd mx \<le> snd mx' \<and>
    (\<forall>c \<in> set g. snd mn' \<le> snd c \<and> snd c \<le> snd mx')"
  using assms
proof (induction g arbitrary: pre mn mx)
  case Nil
  then have "\<not> (length pre < length (pre @ rest) \<and> fst ((pre @ rest) ! length pre) = x)"
    by (cases rest) auto
  then have "scan_column (pre @ [] @ rest) x (length pre) mn mx = (length pre, mn, mx)"
    unfolding scan_column.simps [of "pre @ [] @ rest" x "length pre"] by (simp only: append_Nil if_False)
  then show ?case by (intro exI [of _ mn] exI [of _ mx]) simp
next
  case (Cons c g)
  have c: "fst c = x" using Cons.prems(1) by simp
  let ?mn = "if snd c < snd mn then c else mn"
  let ?mx = "if snd c < snd mn then mx else if snd c > snd mx then c else mx"
  have step: "scan_column (pre @ (c # g) @ rest) x (length pre) mn mx =
      scan_column ((pre @ [c]) @ g @ rest) x (length (pre @ [c])) ?mn ?mx"
    by (subst scan_column.simps) (simp add: c)
  have le: "snd ?mn \<le> snd ?mx" using Cons.prems(3) by auto
  have g: "\<forall>c \<in> set g. fst c = x" using Cons.prems(1) by simp
  from Cons.IH [OF g Cons.prems(2) le, of "pre @ [c]"]
  obtain mn' mx' where *: "scan_column ((pre @ [c]) @ g @ rest) x (length (pre @ [c])) ?mn ?mx = (length ((pre @ [c]) @ g), mn', mx')"
    "mn' \<in> insert ?mn (set g)" "mx' \<in> insert ?mx (set g)" "snd mn' \<le> snd ?mn" "snd ?mx \<le> snd mx'"
    "\<forall>c \<in> set g. snd mn' \<le> snd c \<and> snd c \<le> snd mx'"
    by blast
  have "snd mn' \<le> snd c \<and> snd c \<le> snd mx'" "snd mn' \<le> snd mn" "snd mx \<le> snd mx'"
    using *(4,5) Cons.prems(3) by (auto split: if_splits)
  moreover have "mn' \<in> insert mn (set (c # g))" "mx' \<in> insert mx (set (c # g))"
    using *(2,3) by (auto split: if_splits)
  ultimately show ?case
    using *(1,6) step by (intro exI [of _ mn'] exI [of _ mx']) simp
qed

lemma set_column_cells: "set (column_cells x y0 y1) = {(x, y) | y. y0 \<le> y \<and> y \<le> y1}"
proof -
  have "(of_nat ` {unat y0..<Suc (unat y1)} :: u32 set) = {y. y0 \<le> y \<and> y \<le> y1}" (is "?A = ?B")
  proof
    show "?B \<subseteq> ?A"
    proof
      fix y assume "y \<in> ?B"
      then have "unat y \<in> {unat y0..<Suc (unat y1)}" by (simp add: word_le_nat_alt less_Suc_eq_le)
      then show "y \<in> ?A" by (intro image_eqI [of _ _ "unat y"]) simp_all
    qed
    show "?A \<subseteq> ?B"
    proof
      fix y assume "y \<in> ?A"
      then obtain n where n: "y = of_nat n" "unat y0 \<le> n" "n \<le> unat y1" by auto
      then have "n < 2 ^ 32" using unsigned_less [of y1, where 'a = nat] by simp
      then have "unat y = n" using n(1) by (simp only: unsigned_of_nat) (simp add: take_bit_nat_eq_self)
      then show "y \<in> ?B" using n by (simp add: word_le_nat_alt)
    qed
  qed
  moreover have "set (column_cells x y0 y1) = Pair x ` (of_nat ` {unat y0..<Suc (unat y1)})"
    by (simp add: column_cells_def image_image del: upt_Suc)
  ultimately show ?thesis by auto
qed

text \<open>The cells between two cells of the same list in one column.\<close>

definition between_cells :: "map_location set \<Rightarrow> map_location set" where
  "between_cells S = {(x, y) | x y. \<exists>y0 y1. (x, y0) \<in> S \<and> (x, y1) \<in> S \<and> y0 \<le> y \<and> y \<le> y1}"

lemma between_cells_iff: "c \<in> between_cells S \<longleftrightarrow>
    (\<exists>y0 y1. (fst c, y0) \<in> S \<and> (fst c, y1) \<in> S \<and> y0 \<le> snd c \<and> snd c \<le> y1)"
  by (cases c) (auto simp: between_cells_def)

lemma fill_columns_spec:
  assumes "distinct xs" and "\<forall>x \<in> set xs. 2 \<le> length (g x) \<and> (\<forall>c \<in> set (g x). fst c = x)"
    and "\<forall>c \<in> set F. fst c \<notin> set xs"
  shows "set (fill_columns xs (length pre) (pre @ concat (map g xs) @ F)) =
    set (pre @ concat (map g xs) @ F) \<union> (\<Union>x \<in> set xs. between_cells (set (g x)))"
  using assms
proof (induction xs arbitrary: pre F)
  case (Cons x xs)
  let ?cs = "pre @ concat (map g (x # xs)) @ F"
  have g: "2 \<le> length (g x)" "\<forall>c \<in> set (g x). fst c = x" using Cons.prems(2) by auto
  then obtain a b g' where gx: "g x = a # b # g'" by (cases "g x"; cases "tl (g x)") auto
  let ?mn = "if snd a < snd b then a else b" and ?mx = "if snd a < snd b then b else a"
  let ?rest = "concat (map g xs) @ F"
  have rest: "?rest = [] \<or> fst (hd ?rest) \<noteq> x"
  proof (cases xs)
    case Nil
    then show ?thesis using Cons.prems(3) by (cases F) auto
  next
    case (Cons y ys)
    then have "2 \<le> length (g y) \<and> (\<forall>c \<in> set (g y). fst c = y)" "y \<noteq> x"
      using Cons.prems by auto
    then show ?thesis using Cons by (cases "g y") auto
  qed
  have g': "\<forall>c \<in> set g'. fst c = x" using g(2) gx by simp
  have le: "snd ?mn \<le> snd ?mx" by auto
  from scan_column_spec [OF g' rest le, of "pre @ [a, b]"]
  obtain mn mx where scan: "scan_column ((pre @ [a, b]) @ g' @ ?rest) x (length (pre @ [a, b])) ?mn ?mx =
      (length ((pre @ [a, b]) @ g'), mn, mx)"
    "mn \<in> insert ?mn (set g')" "mx \<in> insert ?mx (set g')" "snd mn \<le> snd ?mn" "snd ?mx \<le> snd mx"
    "\<forall>c \<in> set g'. snd mn \<le> snd c \<and> snd c \<le> snd mx"
    by blast
  have cs: "?cs = (pre @ [a, b]) @ g' @ ?rest" by (simp add: gx)
  have "fill_columns (x # xs) (length pre) ?cs = fill_columns xs (length (pre @ g x)) (?cs @ column_cells x (snd mn) (snd mx))"
    using scan(1) unfolding cs by (auto simp: gx nth_append)
  also have "?cs @ column_cells x (snd mn) (snd mx) = (pre @ g x) @ concat (map g xs) @ (F @ column_cells x (snd mn) (snd mx))"
    by simp
  also have "set (fill_columns xs (length (pre @ g x)) \<dots>) = set \<dots> \<union> (\<Union>y \<in> set xs. between_cells (set (g y)))"
    using Cons.prems by (intro Cons.IH) (auto simp: set_column_cells)
  finally have eq: "set (fill_columns (x # xs) (length pre) ?cs) =
      set ?cs \<union> set (column_cells x (snd mn) (snd mx)) \<union> (\<Union>y \<in> set xs. between_cells (set (g y)))"
    by auto
  have ends: "mn \<in> set (g x)" "mx \<in> set (g x)" "\<forall>c \<in> set (g x). snd mn \<le> snd c \<and> snd c \<le> snd mx"
    using scan(2-6) by (auto simp: gx split: if_splits)
  have "set (column_cells x (snd mn) (snd mx)) = between_cells (set (g x))"
  proof
    show "set (column_cells x (snd mn) (snd mx)) \<subseteq> between_cells (set (g x))"
    proof
      fix c assume "c \<in> set (column_cells x (snd mn) (snd mx))"
      then obtain y where c: "c = (x, y)" "snd mn \<le> y" "y \<le> snd mx" by (auto simp: set_column_cells)
      have "(x, snd mn) \<in> set (g x)" "(x, snd mx) \<in> set (g x)"
        using ends(1,2) g(2) by (metis prod.collapse)+
      then show "c \<in> between_cells (set (g x))" using c by (auto simp: between_cells_def)
    qed
    show "between_cells (set (g x)) \<subseteq> set (column_cells x (snd mn) (snd mx))"
      using ends(3) g(2) by (fastforce simp: between_cells_def set_column_cells)
  qed
  then show ?case using eq by auto
qed simp

lemma sorted_columns_list: "sorted (columns a b)" and distinct_columns: "distinct (columns a b)"
  and set_columns: "set (columns a b) = {x. a \<le> x \<and> x \<le> b}"
proof -
  have id: "unat (of_nat n :: u32) = n" if "n \<le> unat b" for n
    using that unsigned_less [of b, where 'a = nat] by (simp only: unsigned_of_nat) (simp add: take_bit_nat_eq_self)
  have "map unat (columns a b) = [unat a..<Suc (unat b)]"
    unfolding columns_def map_map by (rule map_idI) (use id in \<open>simp add: less_Suc_eq_le del: upt_Suc unsigned_of_nat\<close>)
  then have "sorted (map unat (columns a b))" by (simp del: upt_Suc)
  then show "sorted (columns a b)"
    by (auto simp: sorted_map word_le_nat_alt elim: sorted_wrt_mono_rel [rotated])
  have "inj_on (of_nat :: nat \<Rightarrow> u32) (set [unat a..<Suc (unat b)])"
    using id by (intro inj_onI) (metis atLeastLessThan_iff less_Suc_eq_le set_upt)
  then show "distinct (columns a b)"
    by (simp add: columns_def distinct_map del: upt_Suc)
  show "set (columns a b) = {x. a \<le> x \<and> x \<le> b}"
  proof -
    have "set (columns a b) = snd ` set (column_cells 0 a b)"
      by (simp add: columns_def column_cells_def image_image del: upt_Suc)
    then show ?thesis by (auto simp: set_column_cells image_iff)
  qed
qed

lemma sorted_ends:
  fixes f :: "'a \<Rightarrow> 'b :: linorder"
  assumes "sorted (map f cs)" and "c \<in> set cs"
  shows "f (cs ! 0) \<le> f c \<and> f c \<le> f (last cs)"
proof -
  obtain k where k: "k < length cs" "c = cs ! k" using assms(2) by (metis in_set_conv_nth)
  have "map f cs ! 0 \<le> map f cs ! k" and "map f cs ! k \<le> map f cs ! (length cs - 1)"
    by (rule sorted_nth_mono [OF assms(1)]; use k in simp)+
  moreover have "last cs = cs ! (length cs - 1)" using k by (intro last_conv_nth) auto
  moreover have "0 < length cs" "length cs - 1 < length cs" using k by auto
  ultimately show ?thesis using k by (simp only: nth_map)
qed

text \<open>The filling of a polygon inside the grid: the outline and what lies between its cells.\<close>

lemma convexFillCells_spec:
  assumes ok: "grid_ok m" "int_sized m" and inside: "\<forall>v \<in> set vs. in_grid m v" and "3 \<le> length vs"
  shows "\<exists>cs. convexFillCells m vs [] = Some cs \<and> set cs = between_cells (set (outline vs))"
proof -
  let ?o = "outline vs" and ?s = "bubble 0 (outline vs)"
  have vs: "vs \<noteq> []" "2 \<le> length vs" using assms(4) by auto
  have out: "polygonOutlineCells m vs [] = Some ?o"
    using polygonOutlineCells_outline [OF ok inside vs(1), of "[]"] by simp
  have sorted: "sorted (map fst ?s)" and mset: "mset ?s = mset ?o"
    using bubble_spec [of 0 ?o] by simp_all
  have set: "set ?s = set ?o" using mset by (metis set_mset_mset)
  have "?o \<noteq> []"
    by (simp add: outline_def edges_def segment_nonempty)
  then have ne: "?s \<noteq> []" using set by auto
  let ?xs = "columns (fst (?s ! 0)) (fst (last ?s))"
  have ends: "?s ! 0 \<in> set ?o" "last ?s \<in> set ?o"
    using nth_mem [of 0 ?s] last_in_set [OF ne] ne unfolding set [symmetric] by simp_all
  have range: "fst (?s ! 0) \<le> fst c \<and> fst c \<le> fst (last ?s)" if "c \<in> set ?s" for c
    by (rule sorted_ends [OF sorted that])
  have two: "2 \<le> length (column x ?s)" if "x \<in> set ?xs" for x
  proof -
    have "2 \<le> length (column x ?o)"
      by (rule outline_columns [OF inside vs(2) ends(1) _ ends(2)]) (use that in \<open>simp_all add: set_columns\<close>)
    moreover have "size (filter_mset (\<lambda>c. fst c = x) (mset ?s)) = size (filter_mset (\<lambda>c. fst c = x) (mset ?o))"
      using mset by simp
    then have "length (column x ?s) = length (column x ?o)"
      by (simp add: column_def flip: mset_filter size_mset)
    ultimately show ?thesis by simp
  qed
  have split: "?s = concat (map (\<lambda>x. column x ?s) ?xs)"
    by (rule sorted_columns [OF sorted sorted_columns_list distinct_columns])
      (use range in \<open>auto simp: set_columns\<close>)
  have "set (fill_columns ?xs (length ([] :: map_location list)) ([] @ concat (map (\<lambda>x. column x ?s) ?xs) @ [])) =
      set ([] @ concat (map (\<lambda>x. column x ?s) ?xs) @ []) \<union> (\<Union>x \<in> set ?xs. between_cells (set (column x ?s)))"
    by (rule fill_columns_spec [OF distinct_columns, where g = "\<lambda>x. column x ?s" and pre = "[]" and F = "[]"])
      (use two in \<open>auto simp: column_def\<close>)
  then have fill: "set (fill_columns ?xs 0 ?s) = set ?s \<union> (\<Union>x \<in> set ?xs. between_cells (set (column x ?s)))"
    using split by simp
  have "set (fill_columns ?xs 0 ?s) = between_cells (set ?o)"
  proof
    show "set (fill_columns ?xs 0 ?s) \<subseteq> between_cells (set ?o)"
      unfolding fill set by (auto simp: between_cells_def column_def set)
    show "between_cells (set ?o) \<subseteq> set (fill_columns ?xs 0 ?s)"
    proof
      fix c assume "c \<in> between_cells (set ?o)"
      then obtain x y y0 y1 where c: "c = (x, y)" "(x, y0) \<in> set ?s" "(x, y1) \<in> set ?s" "y0 \<le> y" "y \<le> y1"
        by (auto simp: between_cells_def set)
      then have "x \<in> set ?xs" using range [of "(x, y0)"] by (simp add: set_columns)
      moreover have "c \<in> between_cells (set (column x ?s))"
        using c by (auto simp: between_cells_def column_def)
      ultimately show "c \<in> set (fill_columns ?xs 0 ?s)" unfolding fill by blast
    qed
  qed
  then show ?thesis
    using assms(4) out by (simp add: convexFillCells_def Let_def)
qed

section \<open>The cost of a polygon\<close>

lemma set_cells_spec:
  assumes "grid_ok m" and "\<forall>c \<in> set cs. in_grid m c"
  shows "\<exists>m'. set_cells cs v m = Some m' \<and> grid_ok m' \<and> m' = m\<lparr>costs := costs m'\<rparr> \<and>
    (\<forall>x < width m. \<forall>y < height m. cost_at m' x y =
      (if (x, y) \<in> (\<lambda>c. (unat (fst c), unat (snd c))) ` set cs then v else cost_at m x y))"
  using assms
proof (induction cs arbitrary: m)
  case Nil
  then show ?case by simp
next
  case (Cons c cs)
  obtain m1 where m1: "setCost (fst c) (snd c) v m = Some m1" "grid_ok m1" "m1 = m\<lparr>costs := costs m1\<rparr>"
    "\<forall>x < width m. \<forall>y < height m. cost_at m1 x y = (if x = unat (fst c) \<and> y = unat (snd c) then v else cost_at m x y)"
    using setCost_spec [OF Cons.prems(1), of "fst c" "snd c" v] Cons.prems(2) by (auto simp: in_grid_def)
  obtain c1 where c1: "m1 = m\<lparr>costs := c1\<rparr>" using m1(3) by blast
  have "\<forall>d \<in> set cs. in_grid m1 d" using Cons.prems(2) by (simp add: in_grid_def c1)
  from Cons.IH [OF m1(2) this] obtain m2 where m2: "set_cells cs v m1 = Some m2" "grid_ok m2" "m2 = m1\<lparr>costs := costs m2\<rparr>"
    "\<forall>x < width m1. \<forall>y < height m1. cost_at m2 x y =
      (if (x, y) \<in> (\<lambda>c. (unat (fst c), unat (snd c))) ` set cs then v else cost_at m1 x y)"
    by blast
  obtain c2 where c2: "m2 = m\<lparr>costs := c2\<rparr>" using m2(3) c1 by auto
  have "width m1 = width m" "height m1 = height m" by (simp_all add: c1)
  then have "\<forall>x < width m. \<forall>y < height m. cost_at m2 x y =
      (if (x, y) \<in> (\<lambda>c. (unat (fst c), unat (snd c))) ` set (c # cs) then v else cost_at m x y)"
    using m1(4) m2(4) by auto
  then show ?case
    using m1(1) m2(1,2) c2 by (intro exI [of _ m2]) simp
qed

lemma map_polygon_cells:
  assumes "list_all2 (\<lambda>p l. worldToMap m (fst p) (snd p) = Some (Some l)) ps ls"
  shows "map_polygon m ps = Some (Some ls)"
  using assms by (induction ps ls rule: list_all2_induct) simp_all

lemma fill_in_grid:
  assumes "grid_ok m" and "int_sized m" and "list_all2 (\<lambda>p l. worldToMap m (fst p) (snd p) = Some (Some l)) ps vs"
    and "3 \<le> length vs"
  shows "\<exists>cs. convexFillCells m vs [] = Some cs \<and> set cs = between_cells (set (outline vs)) \<and> (\<forall>c \<in> set cs. in_grid m c)"
proof -
  have res: "0 < resolution m" using assms(1) by (simp add: grid_ok_def)
  have inside: "\<forall>l \<in> set vs. in_grid m l"
  proof
    fix l assume "l \<in> set vs"
    then obtain p where "worldToMap m (fst p) (snd p) = Some (Some (fst l, snd l))"
      using assms(3) by (auto simp: list_all2_conv_all_nth in_set_conv_nth)
    from worldToMap_cell [OF this res] show "in_grid m l" by (simp add: in_grid_def)
  qed
  obtain cs where cs: "convexFillCells m vs [] = Some cs" "set cs = between_cells (set (outline vs))"
    using convexFillCells_spec [OF assms(1,2) inside assms(4)] by blast
  have "in_grid m c" if c: "c \<in> set cs" for c
  proof -
    obtain y0 y1 where "(fst c, y0) \<in> set (outline vs)" "(fst c, y1) \<in> set (outline vs)" "snd c \<le> y1"
      using c unfolding cs(2) between_cells_iff by blast
    then have "in_grid m (fst c, y1)" using outline_in_grid [OF inside] assms(4) by fastforce
    then show ?thesis using le_less_trans [OF \<open>snd c \<le> y1\<close>] by (simp add: in_grid_def)
  qed
  then show ?thesis using cs by blast
qed

end
