(* ===== verification/Costmap_Properties.thy ===== *)
theory Costmap_Properties
  imports Costmap_Polygon
begin

text \<open>Properties of \<open>Costmap2D\<close>.\<close>

text \<open>A grid of two by two cells of one metre for the witnesses.\<close>

definition demo_map :: costmap where
  "demo_map = \<lparr>size_x = 2, size_y = 2, resolution = 1, origin_x = 0, origin_y = 0,
     costs = [1, 2, 3, 4], default_value = 255\<rparr>"

lemma demo_map_ok: "grid_ok demo_map" "int_sized demo_map"
  by (simp_all add: grid_ok_def int_sized_def demo_map_def)

lemma demo_map_simps [simp]:
  "size_x demo_map = 2" "size_y demo_map = 2" "resolution demo_map = 1" "origin_x demo_map = 0"
  "origin_y demo_map = 0" "costs demo_map = [1, 2, 3, 4]" "default_value demo_map = 255"
  by (simp_all add: demo_map_def)

lemma real_to_int_demo: "real_to_int 1 = Some 1" "real_to_int 0 = Some 0"
  by (simp_all add: real_to_int_def trunc_def)

lemma real_to_u32_demo: "real_to_u32 0 = Some 0" "real_to_u32 1 = Some 1" "real_to_u32 2 = Some 2"
  by (simp_all add: real_to_u32_def trunc_def)

text \<open>C22: for every cell of the grid, \<open>indexToCells\<close> takes its index back to it, the index is one of
  the grid's bytes, and \<open>worldToMap\<close> takes the centre \<open>mapToWorld\<close> gives back to it; and the cell
  \<open>worldToMap\<close> gives for a point is the cell whose square holds the point.\<close>

theorem cells_roundtrip:
  assumes "grid_ok m" and "mx < size_x m" and "my < size_y m"
  shows "indexToCells m (getIndex m mx my) = Some (mx, my) \<and>
    unat (getIndex m mx my) < length (costs m) \<and>
    worldToMap m (fst (mapToWorld m mx my)) (snd (mapToWorld m mx my)) = Some (Some (mx, my)) \<and>
    (worldToMap m wx wy = Some (Some (cx, cy)) \<longrightarrow>
      origin_x m + real (unat cx) * resolution m \<le> wx \<and> wx < origin_x m + (real (unat cx) + 1) * resolution m \<and>
      origin_y m + real (unat cy) * resolution m \<le> wy \<and> wy < origin_y m + (real (unat cy) + 1) * resolution m)"
  using indexToCells_getIndex [OF assms] getIndex_unat(2) [OF assms] worldToMap_mapToWorld [OF assms]
    worldToMap_cell [of m wx wy cx cy] assms(1) by (auto simp: grid_ok_def)

theorem cells_roundtrip_witness:
  "indexToCells demo_map (getIndex demo_map 1 1) = Some (1, 1) \<and>
    unat (getIndex demo_map 1 1) < length (costs demo_map) \<and>
    worldToMap demo_map (fst (mapToWorld demo_map 1 1)) (snd (mapToWorld demo_map 1 1)) = Some (Some (1, 1)) \<and>
    origin_x demo_map + real (unat (1 :: u32)) * resolution demo_map \<le> fst (mapToWorld demo_map 1 1) \<and>
    fst (mapToWorld demo_map 1 1) < origin_x demo_map + (real (unat (1 :: u32)) + 1) * resolution demo_map"
  using cells_roundtrip [OF demo_map_ok(1), of 1 1 "fst (mapToWorld demo_map 1 1)" "snd (mapToWorld demo_map 1 1)" 1 1]
  by (simp del: of_nat_unat)

text \<open>C20: \<open>updateOrigin\<close> keeps the map where the old and the new window overlap and is unknown
  elsewhere: the cell \<open>(x, y)\<close> of the new grid has the cost of the old cell at the same place of
  the world, or the default value if the old grid does not reach it; the origin moves by whole
  cells, and what uninitialised memory held does not matter.\<close>

theorem updateOrigin_keeps_overlap:
  assumes "grid_ok m" and "int_sized m"
    and "real_to_int ((nx - origin_x m) / resolution m) = Some cx"
    and "real_to_int ((ny - origin_y m) / resolution m) = Some cy"
    and "- (2 ^ 31) < cx" and "cx + int (width m) < 2 ^ 31" and "- (2 ^ 31) < cy" and "cy + int (height m) < 2 ^ 31"
  shows "\<exists>m'. updateOrigin nb nx ny m = Some m' \<and> grid_ok m' \<and>
    m' = m\<lparr>costs := costs m', origin_x := origin_x m + real_of_int cx * resolution m,
      origin_y := origin_y m + real_of_int cy * resolution m\<rparr> \<and>
    (\<forall>x < width m. \<forall>y < height m. cost_at m' x y =
      (if 0 \<le> int x + cx \<and> int x + cx < int (width m) \<and> 0 \<le> int y + cy \<and> int y + cy < int (height m)
       then cost_at m (nat (int x + cx)) (nat (int y + cy)) else default_value m))"
  using assms by (intro updateOrigin_spec) (simp_all add: int_sized_def del: of_nat_unat)

theorem updateOrigin_keeps_overlap_witness:
  "\<exists>m'. updateOrigin (\<lambda>_. 7) 1 0 demo_map = Some m' \<and> grid_ok m' \<and>
    m' = demo_map\<lparr>costs := costs m', origin_x := origin_x demo_map + real_of_int 1 * resolution demo_map,
      origin_y := origin_y demo_map + real_of_int 0 * resolution demo_map\<rparr> \<and>
    (\<forall>x < width demo_map. \<forall>y < height demo_map. cost_at m' x y =
      (if 0 \<le> int x + 1 \<and> int x + 1 < int (width demo_map) \<and> 0 \<le> int y + 0 \<and> int y + 0 < int (height demo_map)
       then cost_at demo_map (nat (int x + 1)) (nat (int y + 0)) else default_value demo_map))"
  by (rule updateOrigin_keeps_overlap [OF demo_map_ok])
    (simp_all add: real_to_int_demo)

text \<open>A window \<open>copyCostmapWindow\<close> can take has the size of the corners' cells apart, the origin
  asked for and exactly the costs of the source between the corners.\<close>

theorem copyCostmapWindow_window:
  assumes "grid_ok src" and "worldToMap src wx wy = Some (Some (lx, ly))"
    and "worldToMap src (wx + sx) (wy + sy) = Some (Some (ux, uy))" and "0 \<le> sx" and "0 \<le> sy"
  shows "\<exists>m'. copyCostmapWindow nb False src wx wy sx sy m = Some (True, m') \<and> grid_ok m' \<and>
    width m' = unat ux - unat lx \<and> height m' = unat uy - unat ly \<and>
    resolution m' = resolution src \<and> origin_x m' = wx \<and> origin_y m' = wy \<and>
    (\<forall>x < width m'. \<forall>y < height m'. cost_at m' x y = cost_at src (unat lx + x) (unat ly + y))"
  using assms by (rule copyCostmapWindow_spec)

theorem copyCostmapWindow_window_witness:
  "\<exists>m'. copyCostmapWindow (\<lambda>_. 7) False demo_map 0 0 1 1 demo_map = Some (True, m') \<and> grid_ok m' \<and>
    width m' = unat (1 :: u32) - unat (0 :: u32) \<and> height m' = unat (1 :: u32) - unat (0 :: u32) \<and>
    resolution m' = resolution demo_map \<and> origin_x m' = 0 \<and> origin_y m' = 0 \<and>
    (\<forall>x < width m'. \<forall>y < height m'. cost_at m' x y = cost_at demo_map (unat (0 :: u32) + x) (unat (0 :: u32) + y))"
  by (rule copyCostmapWindow_window [OF demo_map_ok(1), of _ _ _ _ 1 1])
    (simp_all add: worldToMap_def real_to_u32_demo)

text \<open>A window that does not fit into the source leaves the map without cells but with its old
  size: \<open>copyCostmapWindow\<close> frees the cells before it looks at the bounds, and every later access
  to a cell is outside the memory.\<close>

theorem failed_window_loses_map:
  assumes "worldToMap src wx wy = Some None"
  shows "copyCostmapWindow nb False src wx wy sx sy m = Some (False, m\<lparr>costs := []\<rparr>) \<and>
    size_x (m\<lparr>costs := []\<rparr>) = size_x m \<and> getCost (m\<lparr>costs := []\<rparr>) mx my = None \<and>
    setCost mx my c (m\<lparr>costs := []\<rparr>) = None"
  using assms by (simp add: copyCostmapWindow_def deleteMaps_def getCost_def setCost_def mem_at_def store_def)

theorem failed_window_loses_map_witness:
  "copyCostmapWindow (\<lambda>_. 7) False demo_map (-1) 0 1 1 demo_map = Some (False, demo_map\<lparr>costs := []\<rparr>) \<and>
    size_x (demo_map\<lparr>costs := []\<rparr>) = size_x demo_map \<and> getCost (demo_map\<lparr>costs := []\<rparr>) 0 0 = None \<and>
    setCost 0 0 5 (demo_map\<lparr>costs := []\<rparr>) = None"
  by (rule failed_window_loses_map) (simp add: worldToMap_def)

text \<open>\<open>worldToMapEnforceBounds\<close> does not enforce the bounds on the far edge: a point exactly on it
  is not beyond it, so it gets the cell index one past the last column, and \<open>getIndex\<close> of that
  column is the first cell of the next row.\<close>

theorem enforced_bounds_exceeded:
  assumes "grid_ok m" and "width m < 2 ^ 31" and "wx = origin_x m + resolution m * real (width m)"
    and "wy = origin_y m"
  shows "worldToMapEnforceBounds m wx wy = Some (int (width m), 0) \<and>
    getIndex m (of_nat (width m)) 0 = getIndex m 0 1"
proof -
  have r: "0 < resolution m" using assms(1) by (simp add: grid_ok_def)
  have w: "real (width m) < 2 ^ 31"
    using assms(2) by (metis of_nat_less_iff of_nat_numeral of_nat_power)
  have "real_to_int (real (width m)) = Some (int (width m))"
    using w of_nat_0_le_iff [of "width m", where 'a = real]
    by (simp only: real_to_int_def trunc_def floor_of_nat if_True) simp
  moreover have "(of_nat (width m) :: u32) = size_x m" by simp
  moreover have "\<not> resolution m * real k < 0" for k :: nat using r by (simp add: not_less)
  ultimately show ?thesis
    using r assms(3,4) real_to_int_demo(2)
    by (simp add: worldToMapEnforceBounds_def enforce_axis_def getIndex_def del: of_nat_unat)
qed

theorem enforced_bounds_exceeded_witness:
  "worldToMapEnforceBounds demo_map 2 0 = Some (int (width demo_map), 0) \<and>
    getIndex demo_map (of_nat (width demo_map)) 0 = getIndex demo_map 0 1"
  by (rule enforced_bounds_exceeded [OF demo_map_ok(1)]) simp_all

text \<open>C23: between two cells of the grid, \<open>raytraceLine\<close> visits the cells of an 8-connected line from the
  first to the second, as many as the longer side plus one, each inside the grid and its bytes.\<close>

theorem raytraceLine_visits:
  assumes "grid_ok m" and "int_sized m" and "in_grid m p" and "in_grid m q"
  shows "\<exists>cs. raytraceLine m (fst p) (snd p) (fst q) (snd q) UINT_MAX 0 =
      Some (map (\<lambda>c. getIndex m (fst c) (snd c)) cs) \<and> cs \<noteq> [] \<and> hd cs = p \<and> last cs = q \<and>
    length cs = Suc (max (nat \<bar>int (unat (fst q)) - int (unat (fst p))\<bar>) (nat \<bar>int (unat (snd q)) - int (unat (snd p))\<bar>)) \<and>
    (\<forall>c \<in> set cs. in_grid m c \<and> unat (getIndex m (fst c) (snd c)) < length (costs m)) \<and>
    (\<forall>i. Suc i < length cs \<longrightarrow>
      \<bar>int (unat (fst (cs ! Suc i))) - int (unat (fst (cs ! i)))\<bar> \<le> 1 \<and>
      \<bar>int (unat (snd (cs ! Suc i))) - int (unat (snd (cs ! i)))\<bar> \<le> 1)"
proof (intro exI [of _ "segment p q"] conjI)
  show "\<forall>c \<in> set (segment p q). in_grid m c \<and> unat (getIndex m (fst c) (snd c)) < length (costs m)"
    using segment_in_grid [OF assms(3,4)] getIndex_unat(2) [OF assms(1)] by (auto simp: in_grid_def)
  show "\<forall>i. Suc i < length (segment p q) \<longrightarrow>
      \<bar>int (unat (fst (segment p q ! Suc i))) - int (unat (fst (segment p q ! i)))\<bar> \<le> 1 \<and>
      \<bar>int (unat (snd (segment p q ! Suc i))) - int (unat (snd (segment p q ! i)))\<bar> \<le> 1"
    by (rule segment_adjacent [OF assms(3,4)])
qed (use assms in \<open>simp_all add: raytraceLine_in_grid segment_nonempty segment_hd segment_last length_segment\<close>)

theorem raytraceLine_visits_witness:
  "\<exists>cs. raytraceLine demo_map 0 0 1 1 UINT_MAX 0 =
      Some (map (\<lambda>c. getIndex demo_map (fst c) (snd c)) cs) \<and> cs \<noteq> [] \<and> hd cs = (0, 0) \<and> last cs = (1, 1) \<and>
    length cs = Suc (max (nat \<bar>int (unat (1 :: u32)) - int (unat (0 :: u32))\<bar>) (nat \<bar>int (unat (1 :: u32)) - int (unat (0 :: u32))\<bar>)) \<and>
    (\<forall>c \<in> set cs. in_grid demo_map c \<and> unat (getIndex demo_map (fst c) (snd c)) < length (costs demo_map)) \<and>
    (\<forall>i. Suc i < length cs \<longrightarrow>
      \<bar>int (unat (fst (cs ! Suc i))) - int (unat (fst (cs ! i)))\<bar> \<le> 1 \<and>
      \<bar>int (unat (snd (cs ! Suc i))) - int (unat (snd (cs ! i)))\<bar> \<le> 1)"
  using raytraceLine_visits [OF demo_map_ok, of "(0, 0)" "(1, 1)"] by (simp add: in_grid_def del: of_nat_unat)

text \<open>C8: \<open>setConvexPolygonCost\<close> on a polygon of at least three vertices inside the map gives the value to
  exactly the cells that lie, in their column, between cells of the outline, each of which is a
  line from one vertex to the next, and leaves the others alone; the sort and the column walk of
  \<open>convexFillCells\<close> end and never leave the outline's memory.\<close>

theorem polygon_cost:
  assumes "grid_ok m" and "int_sized m" and "3 \<le> length ps"
    and "list_all2 (\<lambda>p l. worldToMap m (fst p) (snd p) = Some (Some l)) ps vs"
  shows "\<exists>m'. setConvexPolygonCost ps v m = Some (True, m') \<and> grid_ok m' \<and> m' = m\<lparr>costs := costs m'\<rparr> \<and>
    (\<forall>x < width m. \<forall>y < height m. cost_at m' x y =
      (if (x, y) \<in> (\<lambda>c. (unat (fst c), unat (snd c))) ` between_cells (set (outline vs)) then v else cost_at m x y))"
proof -
  have "3 \<le> length vs" using assms(3,4) by (simp add: list_all2_lengthD)
  then obtain cs where cs: "convexFillCells m vs [] = Some cs" "set cs = between_cells (set (outline vs))"
    "\<forall>c \<in> set cs. in_grid m c"
    using fill_in_grid [OF assms(1,2,4)] by blast
  then obtain m' where "set_cells cs v m = Some m'" "grid_ok m'" "m' = m\<lparr>costs := costs m'\<rparr>"
    "\<forall>x < width m. \<forall>y < height m. cost_at m' x y =
      (if (x, y) \<in> (\<lambda>c. (unat (fst c), unat (snd c))) ` set cs then v else cost_at m x y)"
    using set_cells_spec [OF assms(1), of cs v] by blast
  then show ?thesis
    using map_polygon_cells [OF assms(4)] cs by (simp add: setConvexPolygonCost_def)
qed

theorem polygon_cost_witness:
  "\<exists>m'. setConvexPolygonCost [(0, 0), (1, 0), (1, 1)] 9 demo_map = Some (True, m') \<and> grid_ok m' \<and>
    m' = demo_map\<lparr>costs := costs m'\<rparr> \<and>
    (\<forall>x < width demo_map. \<forall>y < height demo_map. cost_at m' x y =
      (if (x, y) \<in> (\<lambda>c. (unat (fst c), unat (snd c))) ` between_cells (set (outline [(0, 0), (1, 0), (1, 1)]))
       then 9 else cost_at demo_map x y))"
  by (rule polygon_cost [OF demo_map_ok]) (simp_all add: worldToMap_def real_to_u32_demo)

end
