(* ===== verification/Lifecycle_Manager.thy ===== *)
theory Lifecycle_Manager
  imports Main
begin

text \<open>
  The lifecycle manager of \<open>nav2_lifecycle_manager/src/lifecycle_manager.cpp\<close>. The managed
  servers, reached through service clients and bonds, are a parameter: their common state \<open>'e\<close>
  changes with every call, and a call may throw \<open>std::runtime_error\<close>. The manager's state has
  besides its members the list of the transitions it has requested. Calling a client that was
  destroyed, and asking a bond that is not there, dereference a null pointer: \<open>None\<close>.
\<close>

datatype transition = TRANSITION_CONFIGURE | TRANSITION_CLEANUP | TRANSITION_ACTIVATE
  | TRANSITION_DEACTIVATE | TRANSITION_UNCONFIGURED_SHUTDOWN

datatype primary_state = PRIMARY_STATE_UNCONFIGURED | PRIMARY_STATE_INACTIVE | PRIMARY_STATE_ACTIVE
  | PRIMARY_STATE_FINALIZED

datatype runtime_error = RuntimeError

fun transition_state_map :: "transition \<Rightarrow> primary_state" where
  "transition_state_map TRANSITION_CONFIGURE = PRIMARY_STATE_INACTIVE"
| "transition_state_map TRANSITION_CLEANUP = PRIMARY_STATE_UNCONFIGURED"
| "transition_state_map TRANSITION_ACTIVATE = PRIMARY_STATE_ACTIVE"
| "transition_state_map TRANSITION_DEACTIVATE = PRIMARY_STATE_INACTIVE"
| "transition_state_map TRANSITION_UNCONFIGURED_SHUTDOWN = PRIMARY_STATE_FINALIZED"

text \<open>What the manager calls: \<open>change_state\<close>, \<open>get_state\<close>, \<open>waitUntilFormed\<close> and \<open>isBroken\<close>.\<close>

record 'e servers =
  change_state :: "string \<Rightarrow> transition \<Rightarrow> 'e \<Rightarrow> (runtime_error + bool) \<times> 'e"
  get_state :: "string \<Rightarrow> 'e \<Rightarrow> (runtime_error + primary_state) \<times> 'e"
  wait_until_formed :: "string \<Rightarrow> 'e \<Rightarrow> bool \<times> 'e"
  is_broken :: "string \<Rightarrow> 'e \<Rightarrow> bool"

record manager =
  node_names :: "string list"
  bond_timeout :: int
  bond_respawn_max_duration :: int
  attempt_respawn_reconnection :: bool
  clients :: "string set"
  bond_map :: "string set"
  system_active :: bool
  bond_timer :: bool
  bond_respawn_timer :: bool
  bond_respawn_start_time :: int
  requests :: "(string \<times> transition) list"

text \<open>
  The constructor: \<open>node_map_\<close> is empty until the first timer runs \<open>createLifecycleServiceClients\<close>.
\<close>

definition LifecycleManager :: "string list \<Rightarrow> int \<Rightarrow> int \<Rightarrow> bool \<Rightarrow> manager" where
  "LifecycleManager names timeout max_duration attempt =
     \<lparr>node_names = names, bond_timeout = timeout, bond_respawn_max_duration = max_duration,
       attempt_respawn_reconnection = attempt, clients = {}, bond_map = {}, system_active = False,
       bond_timer = False, bond_respawn_timer = False, bond_respawn_start_time = 0, requests = []\<rparr>"

definition createLifecycleServiceClients :: "manager \<Rightarrow> manager" where
  "createLifecycleServiceClients m = m\<lparr>clients := clients m \<union> set (node_names m)\<rparr>"

definition destroyLifecycleServiceClients :: "manager \<Rightarrow> manager" where
  "destroyLifecycleServiceClients m = m\<lparr>clients := {}\<rparr>"

definition createBondConnection ::
  "'e servers \<Rightarrow> string \<Rightarrow> manager \<times> 'e \<Rightarrow> bool \<times> manager \<times> 'e" where
  "createBondConnection sv node_name s =
     (let (m, e) = s
      in if node_name \<notin> bond_map m \<and> bond_timeout m > 0 then
           (let m = m\<lparr>bond_map := insert node_name (bond_map m)\<rparr>;
                (formed, e) = wait_until_formed sv node_name e
            in (formed, m, e))
         else (True, m, e))"

definition changeStateForNode ::
  "'e servers \<Rightarrow> string \<Rightarrow> transition \<Rightarrow> manager \<times> 'e \<Rightarrow> ((runtime_error + bool) \<times> manager \<times> 'e) option" where
  "changeStateForNode sv node_name transition s =
     (let (m, e) = s
      in if node_name \<notin> clients m then None
         else
           (let m = m\<lparr>requests := requests m @ [(node_name, transition)]\<rparr>
            in case change_state sv node_name transition e of
                 (Inl ex, e) \<Rightarrow> Some (Inl ex, m, e)
               | (Inr False, e) \<Rightarrow> Some (Inr False, m, e)
               | (Inr True, e) \<Rightarrow>
                   (case get_state sv node_name e of
                      (Inl ex, e) \<Rightarrow> Some (Inl ex, m, e)
                    | (Inr st, e) \<Rightarrow>
                        if st \<noteq> transition_state_map transition then Some (Inr False, m, e)
                        else if transition = TRANSITION_ACTIVATE then
                          (let (b, s) = createBondConnection sv node_name (m, e) in Some (Inr b, s))
                        else if transition = TRANSITION_DEACTIVATE then
                          Some (Inr True, m\<lparr>bond_map := bond_map m - {node_name}\<rparr>, e)
                        else Some (Inr True, m, e))))"

text \<open>The loop over the nodes, in either direction; an exception ends it, also for a hard change.\<close>

fun change_nodes ::
  "'e servers \<Rightarrow> transition \<Rightarrow> bool \<Rightarrow> string list \<Rightarrow> manager \<times> 'e \<Rightarrow> (bool \<times> manager \<times> 'e) option" where
  "change_nodes sv t hard_change [] s = Some (True, s)"
| "change_nodes sv t hard_change (n # ns) s =
     (case changeStateForNode sv n t s of
        None \<Rightarrow> None
      | Some (Inl ex, s) \<Rightarrow> Some (False, s)
      | Some (Inr b, s) \<Rightarrow>
          if \<not> b \<and> \<not> hard_change then Some (False, s)
          else change_nodes sv t hard_change ns s)"

definition changeStateForAllNodes ::
  "'e servers \<Rightarrow> transition \<Rightarrow> bool \<Rightarrow> manager \<times> 'e \<Rightarrow> (bool \<times> manager \<times> 'e) option" where
  "changeStateForAllNodes sv t hard_change s =
     (if t = TRANSITION_CONFIGURE \<or> t = TRANSITION_ACTIVATE
      then change_nodes sv t hard_change (node_names (fst s)) s
      else change_nodes sv t hard_change (rev (node_names (fst s))) s)"

definition shutdownAllNodes :: "'e servers \<Rightarrow> manager \<times> 'e \<Rightarrow> (manager \<times> 'e) option" where
  "shutdownAllNodes sv s =
     (case changeStateForAllNodes sv TRANSITION_DEACTIVATE False s of
        None \<Rightarrow> None
      | Some (_, s) \<Rightarrow>
          (case changeStateForAllNodes sv TRANSITION_CLEANUP False s of
             None \<Rightarrow> None
           | Some (_, s) \<Rightarrow>
               (case changeStateForAllNodes sv TRANSITION_UNCONFIGURED_SHUTDOWN False s of
                  None \<Rightarrow> None
                | Some (_, s) \<Rightarrow> Some s)))"

definition createBondTimer :: "manager \<Rightarrow> manager" where
  "createBondTimer m = (if bond_timeout m \<le> 0 then m else m\<lparr>bond_timer := True\<rparr>)"

definition destroyBondTimer :: "manager \<Rightarrow> manager" where
  "destroyBondTimer m = (if bond_timer m then m\<lparr>bond_timer := False\<rparr> else m)"

definition startup :: "'e servers \<Rightarrow> manager \<times> 'e \<Rightarrow> (bool \<times> manager \<times> 'e) option" where
  "startup sv s =
     (case changeStateForAllNodes sv TRANSITION_CONFIGURE False s of
        None \<Rightarrow> None
      | Some (False, s) \<Rightarrow> Some (False, s)
      | Some (True, s) \<Rightarrow>
          (case changeStateForAllNodes sv TRANSITION_ACTIVATE False s of
             None \<Rightarrow> None
           | Some (False, s) \<Rightarrow> Some (False, s)
           | Some (True, m, e) \<Rightarrow> Some (True, createBondTimer (m\<lparr>system_active := True\<rparr>), e)))"

definition shutdown :: "'e servers \<Rightarrow> manager \<times> 'e \<Rightarrow> (bool \<times> manager \<times> 'e) option" where
  "shutdown sv s =
     (let (m, e) = s
      in case shutdownAllNodes sv (destroyBondTimer (m\<lparr>system_active := False\<rparr>), e) of
           None \<Rightarrow> None
         | Some (m, e) \<Rightarrow> Some (True, destroyLifecycleServiceClients m, e))"

definition reset :: "'e servers \<Rightarrow> bool \<Rightarrow> manager \<times> 'e \<Rightarrow> (bool \<times> manager \<times> 'e) option" where
  "reset sv hard_reset s =
     (let (m, e) = s
      in case changeStateForAllNodes sv TRANSITION_DEACTIVATE hard_reset
             (destroyBondTimer (m\<lparr>system_active := False\<rparr>), e) of
           None \<Rightarrow> None
         | Some (False, s) \<Rightarrow> Some (hard_reset, s)
         | Some (True, s) \<Rightarrow>
             (case changeStateForAllNodes sv TRANSITION_CLEANUP hard_reset s of
                None \<Rightarrow> None
              | Some (b, s) \<Rightarrow> Some (b \<or> hard_reset, s)))"

definition pause :: "'e servers \<Rightarrow> manager \<times> 'e \<Rightarrow> (bool \<times> manager \<times> 'e) option" where
  "pause sv s =
     (let (m, e) = s
      in changeStateForAllNodes sv TRANSITION_DEACTIVATE False
           (destroyBondTimer (m\<lparr>system_active := False\<rparr>), e))"

definition resume :: "'e servers \<Rightarrow> manager \<times> 'e \<Rightarrow> (bool \<times> manager \<times> 'e) option" where
  "resume sv s =
     (case changeStateForAllNodes sv TRANSITION_ACTIVATE False s of
        None \<Rightarrow> None
      | Some (False, s) \<Rightarrow> Some (False, s)
      | Some (True, m, e) \<Rightarrow> Some (True, createBondTimer (m\<lparr>system_active := True\<rparr>), e))"

datatype manager_command = STARTUP | RESET | SHUTDOWN | PAUSE | RESUME

fun managerCallback ::
  "'e servers \<Rightarrow> manager_command \<Rightarrow> manager \<times> 'e \<Rightarrow> (bool \<times> manager \<times> 'e) option" where
  "managerCallback sv STARTUP s = startup sv s"
| "managerCallback sv RESET s = reset sv False s"
| "managerCallback sv SHUTDOWN s = shutdown sv s"
| "managerCallback sv PAUSE s = pause sv s"
| "managerCallback sv RESUME s = resume sv s"

definition isActiveCallback :: "manager \<Rightarrow> bool" where
  "isActiveCallback m = system_active m"

definition onRclPreshutdown :: "manager \<Rightarrow> manager" where
  "onRclPreshutdown m = (destroyBondTimer m)\<lparr>node_names := [], clients := {}, bond_map := {}\<rparr>"

text \<open>
  \<open>checkBondConnections\<close>; \<open>ok i\<close> is the value of the \<open>i\<close>-th call of \<open>rclcpp::ok()\<close>. Looking up a
  node without a bond in \<open>bond_map_\<close> inserts a null pointer.
\<close>

fun check_bonds ::
  "'e servers \<Rightarrow> (nat \<Rightarrow> bool) \<Rightarrow> nat \<Rightarrow> string list \<Rightarrow> manager \<times> 'e \<Rightarrow> (manager \<times> 'e) option" where
  "check_bonds sv ok i [] s = Some s"
| "check_bonds sv ok i (n # ns) s =
     (let (m, e) = s
      in if \<not> ok i then Some s
         else if n \<notin> bond_map m then None
         else if is_broken sv n e then
           (case reset sv True s of
              None \<Rightarrow> None
            | Some (_, m, e) \<Rightarrow>
                (let m = m\<lparr>bond_map := {}\<rparr>
                 in Some (if attempt_respawn_reconnection m then m\<lparr>bond_respawn_timer := True\<rparr> else m, e)))
         else check_bonds sv ok (i + 1) ns s)"

definition checkBondConnections ::
  "'e servers \<Rightarrow> (nat \<Rightarrow> bool) \<Rightarrow> manager \<times> 'e \<Rightarrow> (manager \<times> 'e) option" where
  "checkBondConnections sv ok s =
     (let (m, e) = s
      in if \<not> system_active m \<or> \<not> ok 0 \<or> bond_map m = {} then Some s
         else check_bonds sv ok 1 (node_names m) s)"

text \<open>
  \<open>checkBondRespawnConnection\<close>: the number of servers that answer before the first that throws,
  none where \<open>rclcpp::ok()\<close> fails, and the callback with the two readings of the clock.
\<close>

fun live_servers ::
  "'e servers \<Rightarrow> (nat \<Rightarrow> bool) \<Rightarrow> nat \<Rightarrow> string list \<Rightarrow> manager \<times> 'e \<Rightarrow> (nat option \<times> 'e) option" where
  "live_servers sv ok i [] s = Some (Some 0, snd s)"
| "live_servers sv ok i (n # ns) s =
     (let (m, e) = s
      in if \<not> ok i then Some (None, e)
         else if n \<notin> clients m then None
         else case get_state sv n e of
                (Inl ex, e) \<Rightarrow> Some (Some 0, e)
              | (Inr st, e) \<Rightarrow>
                  (case live_servers sv ok (i + 1) ns (m, e) of
                     None \<Rightarrow> None
                   | Some (c, e) \<Rightarrow> Some (map_option Suc c, e)))"

definition checkBondRespawnConnection ::
  "'e servers \<Rightarrow> (nat \<Rightarrow> bool) \<Rightarrow> int \<Rightarrow> int \<Rightarrow> manager \<times> 'e \<Rightarrow> (manager \<times> 'e) option" where
  "checkBondRespawnConnection sv ok now0 now1 s =
     (let (m, e) = s;
          m = (if bond_respawn_start_time m = 0 then m\<lparr>bond_respawn_start_time := now0\<rparr> else m)
      in if system_active m \<or> \<not> ok 0 \<or> node_names m = []
         then Some (m\<lparr>bond_respawn_start_time := 0, bond_respawn_timer := False\<rparr>, e)
         else
           (case live_servers sv ok 1 (node_names m) (m, e) of
              None \<Rightarrow> None
            | Some (None, e) \<Rightarrow> Some (m, e)
            | Some (Some live, e) \<Rightarrow>
                if live = length (node_names m) then
                  (case startup sv (m\<lparr>bond_respawn_start_time := 0, bond_respawn_timer := False\<rparr>, e) of
                     None \<Rightarrow> None
                   | Some (_, s) \<Rightarrow> Some s)
                else if now1 - bond_respawn_start_time m \<ge> bond_respawn_max_duration m
                then Some (m\<lparr>bond_respawn_start_time := 0, bond_respawn_timer := False\<rparr>, e)
                else Some (m, e)))"

section \<open>Steps\<close>

text \<open>
  Everything that happens to the manager once its clients exist, in any order and with any
  behaviour of the servers: service calls and the two timers while they run.
\<close>

inductive manager_step :: "'e servers \<Rightarrow> manager \<times> 'e \<Rightarrow> manager \<times> 'e \<Rightarrow> bool" for sv where
  step_command: "managerCallback sv cmd s = Some (b, s') \<Longrightarrow> manager_step sv s s'"
| step_bonds: "bond_timer (fst s) \<Longrightarrow> checkBondConnections sv ok s = Some s' \<Longrightarrow> manager_step sv s s'"
| step_respawn: "bond_respawn_timer (fst s) \<Longrightarrow> checkBondRespawnConnection sv ok t0 t1 s = Some s' \<Longrightarrow>
    manager_step sv s s'"
| step_servers: "manager_step sv (m, e) (m, e')"
| step_preshutdown: "manager_step sv (m, e) (onRclPreshutdown m, e)"

inductive manager_run :: "'e servers \<Rightarrow> manager \<times> 'e \<Rightarrow> manager \<times> 'e \<Rightarrow> bool" for sv where
  run_refl: "manager_run sv s s"
| run_step: "manager_run sv s s' \<Longrightarrow> manager_step sv s' s'' \<Longrightarrow> manager_run sv s s''"

inductive_cases manager_stepE: "manager_step sv s s'"

end
