(* ===== verification/Lifecycle_Properties.thy ===== *)
theory Lifecycle_Properties
  imports Lifecycle_Manager
begin

text \<open>
  What the loops of the lifecycle manager request and keep, the invariant on its bonds, and the
  order of bringup and teardown.
\<close>

section \<open>Frames\<close>

text \<open>The members that state changes of nodes leave alone.\<close>

definition same_config :: "manager \<Rightarrow> manager \<Rightarrow> bool" where
  "same_config m m' \<longleftrightarrow> node_names m' = node_names m \<and> bond_timeout m' = bond_timeout m \<and>
     bond_respawn_max_duration m' = bond_respawn_max_duration m \<and>
     attempt_respawn_reconnection m' = attempt_respawn_reconnection m \<and> clients m' = clients m \<and>
     system_active m' = system_active m \<and> bond_timer m' = bond_timer m \<and>
     bond_respawn_timer m' = bond_respawn_timer m \<and> bond_respawn_start_time m' = bond_respawn_start_time m"

lemma same_config_refl [simp]: "same_config m m"
  by (simp add: same_config_def)

lemma same_config_trans: "same_config m m' \<Longrightarrow> same_config m' m'' \<Longrightarrow> same_config m m''"
  by (simp add: same_config_def)

lemma changeStateForNode_frame:
  assumes "changeStateForNode sv n t (m, e) = Some (r, m', e')"
  shows "same_config m m' \<and> requests m' = requests m @ [(n, t)] \<and>
    (t \<noteq> TRANSITION_DEACTIVATE \<longrightarrow> bond_map m \<subseteq> bond_map m') \<and> n \<in> clients m \<and>
    (t = TRANSITION_ACTIVATE \<and> r = Inr True \<and> bond_timeout m > 0 \<longrightarrow> n \<in> bond_map m')"
  using assms
  by (auto simp: changeStateForNode_def createBondConnection_def same_config_def Let_def
      split: if_splits sum.splits prod.splits bool.splits)

lemma change_nodes_frame:
  assumes "change_nodes sv t h ns (m, e) = Some (b, m', e')"
  shows "same_config m m' \<and>
    (\<exists>k \<le> length ns. requests m' = requests m @ map (\<lambda>n. (n, t)) (take k ns) \<and> (b \<longrightarrow> k = length ns)) \<and>
    (t \<noteq> TRANSITION_DEACTIVATE \<longrightarrow> bond_map m \<subseteq> bond_map m') \<and> (b \<longrightarrow> set ns \<subseteq> clients m) \<and>
    (t = TRANSITION_ACTIVATE \<and> b \<and> \<not> h \<and> bond_timeout m > 0 \<longrightarrow> set ns \<subseteq> bond_map m')"
  using assms
proof (induction ns arbitrary: m e)
  case (Cons n ns)
  obtain r m1 e1 where first: "changeStateForNode sv n t (m, e) = Some (r, m1, e1)"
    using Cons.prems by (auto split: option.splits)
  note frame = changeStateForNode_frame [OF first]
  show ?case
  proof (cases "\<exists>c. r = Inr c \<and> (c \<or> h)")
    case False
    then have "b = False" and "m' = m1"
      using Cons.prems first by (auto split: sum.splits if_splits)
    then show ?thesis using frame by (intro conjI exI [of _ 1]) auto
  next
    case True
    then have "change_nodes sv t h ns (m1, e1) = Some (b, m', e')"
      using Cons.prems first by (auto split: if_splits)
    note rest = Cons.IH [OF this]
    then obtain k where k: "k \<le> length ns" "requests m' = requests m1 @ map (\<lambda>n. (n, t)) (take k ns)" "b \<longrightarrow> k = length ns"
      by blast
    have "requests m' = requests m @ map (\<lambda>n. (n, t)) (take (Suc k) (n # ns))"
      using frame k by simp
    moreover have "same_config m m'" using frame rest same_config_trans by blast
    moreover have "bond_timeout m1 = bond_timeout m" "clients m1 = clients m"
      using frame by (simp_all add: same_config_def)
    ultimately show ?thesis
      using frame rest k True by (intro conjI exI [of _ "Suc k"]) (auto simp: insert_absorb)
  qed
qed simp

lemma changeStateForAllNodes_frame:
  assumes "changeStateForAllNodes sv t h (m, e) = Some (b, m', e')"
  defines "ns \<equiv> (if t = TRANSITION_CONFIGURE \<or> t = TRANSITION_ACTIVATE then node_names m else rev (node_names m))"
  shows "same_config m m'"
    "\<exists>k \<le> length (node_names m). requests m' = requests m @ map (\<lambda>n. (n, t)) (take k ns) \<and>
      (b \<longrightarrow> k = length (node_names m))"
    "t \<noteq> TRANSITION_DEACTIVATE \<longrightarrow> bond_map m \<subseteq> bond_map m'"
    "t = TRANSITION_ACTIVATE \<and> b \<and> \<not> h \<and> bond_timeout m > 0 \<longrightarrow> set (node_names m) \<subseteq> bond_map m'"
    "b \<longrightarrow> set (node_names m) \<subseteq> clients m"
proof -
  have run: "change_nodes sv t h ns (m, e) = Some (b, m', e')"
    using assms(1) by (auto simp: changeStateForAllNodes_def ns_def split: if_splits)
  have "length ns = length (node_names m)" "set ns = set (node_names m)" by (simp_all add: ns_def)
  then show "same_config m m'"
    "\<exists>k \<le> length (node_names m). requests m' = requests m @ map (\<lambda>n. (n, t)) (take k ns) \<and>
      (b \<longrightarrow> k = length (node_names m))"
    "t \<noteq> TRANSITION_DEACTIVATE \<longrightarrow> bond_map m \<subseteq> bond_map m'"
    "t = TRANSITION_ACTIVATE \<and> b \<and> \<not> h \<and> bond_timeout m > 0 \<longrightarrow> set (node_names m) \<subseteq> bond_map m'"
    "b \<longrightarrow> set (node_names m) \<subseteq> clients m"
    using change_nodes_frame [OF run] by metis+
qed

section \<open>The invariant on the bonds\<close>

text \<open>An active system has a client, and with bonds a bond, for every node; the timer runs only with bonds.\<close>

definition manager_inv :: "manager \<Rightarrow> bool" where
  "manager_inv m \<longleftrightarrow> (system_active m \<and> bond_timeout m > 0 \<longrightarrow> set (node_names m) \<subseteq> bond_map m) \<and>
     (system_active m \<longrightarrow> set (node_names m) \<subseteq> clients m) \<and>
     (bond_timer m \<longrightarrow> bond_timeout m > 0)"

lemma inv_changed:
  assumes "changeStateForAllNodes sv t h (m, e) = Some (b, m', e')" and "manager_inv m"
    and "t \<noteq> TRANSITION_DEACTIVATE \<or> \<not> system_active m"
  shows "manager_inv m'"
  using changeStateForAllNodes_frame(1,3) [OF assms(1)] assms(2,3)
  by (auto simp: manager_inv_def same_config_def)

lemma inv_activated:
  assumes "changeStateForAllNodes sv TRANSITION_ACTIVATE False (m, e) = Some (True, m', e')" and "manager_inv m"
  shows "manager_inv (createBondTimer (m'\<lparr>system_active := True\<rparr>))"
  using changeStateForAllNodes_frame(1,4,5) [OF assms(1)] assms(2)
  by (auto simp: manager_inv_def same_config_def createBondTimer_def)

lemma inv_stopped: "manager_inv m \<Longrightarrow> manager_inv (destroyBondTimer (m\<lparr>system_active := False\<rparr>))"
  by (simp add: manager_inv_def destroyBondTimer_def)

lemma destroyBondTimer_simps [simp]:
  "system_active (destroyBondTimer m) = system_active m" "node_names (destroyBondTimer m) = node_names m"
  "clients (destroyBondTimer m) = clients m" "requests (destroyBondTimer m) = requests m"
  "bond_map (destroyBondTimer m) = bond_map m" "bond_timeout (destroyBondTimer m) = bond_timeout m"
  by (simp_all add: destroyBondTimer_def)

lemma inv_startup:
  assumes "startup sv (m, e) = Some (b, m', e')" and "manager_inv m"
  shows "manager_inv m'"
proof -
  obtain b1 m1 e1 where c: "changeStateForAllNodes sv TRANSITION_CONFIGURE False (m, e) = Some (b1, m1, e1)"
    using assms(1) by (auto simp: startup_def split: option.splits)
  have i1: "manager_inv m1" by (rule inv_changed [OF c assms(2)]) simp
  show ?thesis
  proof (cases b1)
    case False
    then show ?thesis using assms(1) c i1 by (simp add: startup_def)
  next
    case True
    obtain b2 m2 e2 where a: "changeStateForAllNodes sv TRANSITION_ACTIVATE False (m1, e1) = Some (b2, m2, e2)"
      using assms(1) c True by (auto simp: startup_def split: option.splits)
    show ?thesis
      using assms(1) c a True inv_changed [OF a i1] inv_activated [of sv m1 e1 m2 e2] i1
      by (cases b2) (auto simp: startup_def)
  qed
qed

lemma inv_resume:
  assumes "resume sv (m, e) = Some (b, m', e')" and "manager_inv m"
  shows "manager_inv m'"
proof -
  obtain b2 m2 e2 where a: "changeStateForAllNodes sv TRANSITION_ACTIVATE False (m, e) = Some (b2, m2, e2)"
    using assms(1) by (auto simp: resume_def split: option.splits)
  show ?thesis
    using assms(1) a inv_changed [OF a assms(2)] inv_activated [of sv m e m2 e2] assms(2)
    by (cases b2) (auto simp: resume_def)
qed

text \<open>Transitions of a stopped manager keep it stopped.\<close>

lemma stopped_changed:
  assumes "changeStateForAllNodes sv t h (m, e) = Some (b, m', e')" and "manager_inv m" and "\<not> system_active m"
  shows "manager_inv m' \<and> \<not> system_active m' \<and> node_names m' = node_names m \<and> clients m' = clients m \<and>
    attempt_respawn_reconnection m' = attempt_respawn_reconnection m"
  using inv_changed [OF assms(1,2)] changeStateForAllNodes_frame(1) [OF assms(1)] assms(3)
  by (auto simp: same_config_def)

lemma stopped_reset:
  assumes "reset sv h (m, e) = Some (b, m', e')" and "manager_inv m"
  shows "manager_inv m' \<and> \<not> system_active m' \<and> node_names m' = node_names m"
proof -
  let ?m = "destroyBondTimer (m\<lparr>system_active := False\<rparr>)"
  obtain b1 m1 e1 where d: "changeStateForAllNodes sv TRANSITION_DEACTIVATE h (?m, e) = Some (b1, m1, e1)"
    using assms(1) by (auto simp: reset_def split: option.splits)
  have s1: "manager_inv m1 \<and> \<not> system_active m1 \<and> node_names m1 = node_names m"
    using stopped_changed [OF d inv_stopped [OF assms(2)]] by simp
  show ?thesis
  proof (cases b1)
    case False
    then show ?thesis using assms(1) d s1 by (simp add: reset_def)
  next
    case True
    obtain b2 m2 e2 where c: "changeStateForAllNodes sv TRANSITION_CLEANUP h (m1, e1) = Some (b2, m2, e2)"
      using assms(1) d True by (auto simp: reset_def split: option.splits)
    show ?thesis
      using assms(1) d c True stopped_changed [OF c] s1 by (auto simp: reset_def)
  qed
qed

lemma inv_reset: "reset sv h (m, e) = Some (b, m', e') \<Longrightarrow> manager_inv m \<Longrightarrow> manager_inv m'"
  by (drule stopped_reset) simp_all

lemma shutdownAllNodes_stages:
  assumes "shutdownAllNodes sv (m, e) = Some (m', e')"
  shows "\<exists>b1 m1 e1 b2 m2 e2 b3.
    changeStateForAllNodes sv TRANSITION_DEACTIVATE False (m, e) = Some (b1, m1, e1) \<and>
    changeStateForAllNodes sv TRANSITION_CLEANUP False (m1, e1) = Some (b2, m2, e2) \<and>
    changeStateForAllNodes sv TRANSITION_UNCONFIGURED_SHUTDOWN False (m2, e2) = Some (b3, m', e')"
  using assms by (auto simp: shutdownAllNodes_def split: option.splits)

lemma shutdownAllNodes_names:
  assumes "shutdownAllNodes sv (m, e) = Some (m', e')"
  shows "node_names m' = node_names m"
proof -
  obtain b1 m1 e1 b2 m2 e2 b3 where
    st: "changeStateForAllNodes sv TRANSITION_DEACTIVATE False (m, e) = Some (b1, m1, e1)"
      "changeStateForAllNodes sv TRANSITION_CLEANUP False (m1, e1) = Some (b2, m2, e2)"
      "changeStateForAllNodes sv TRANSITION_UNCONFIGURED_SHUTDOWN False (m2, e2) = Some (b3, m', e')"
    using shutdownAllNodes_stages [OF assms] by blast
  show ?thesis
    using st [THEN changeStateForAllNodes_frame(1)] by (simp add: same_config_def)
qed

lemma inv_shutdown:
  assumes "shutdown sv (m, e) = Some (b, m', e')" and "manager_inv m"
  shows "manager_inv m'"
proof -
  let ?m = "destroyBondTimer (m\<lparr>system_active := False\<rparr>)"
  obtain m3 e3 where s: "shutdownAllNodes sv (?m, e) = Some (m3, e3)" and m': "m' = destroyLifecycleServiceClients m3"
    using assms(1) by (auto simp: shutdown_def split: option.splits)
  then obtain b1 m1 e1 b2 m2 e2 b3 where
    st: "changeStateForAllNodes sv TRANSITION_DEACTIVATE False (?m, e) = Some (b1, m1, e1)"
      "changeStateForAllNodes sv TRANSITION_CLEANUP False (m1, e1) = Some (b2, m2, e2)"
      "changeStateForAllNodes sv TRANSITION_UNCONFIGURED_SHUTDOWN False (m2, e2) = Some (b3, m3, e3)"
    using shutdownAllNodes_stages [OF s] by blast
  have "manager_inv m1 \<and> \<not> system_active m1"
    using stopped_changed [OF st(1) inv_stopped [OF assms(2)]] by simp
  then have "manager_inv m2 \<and> \<not> system_active m2"
    using stopped_changed [OF st(2)] by simp
  then have "manager_inv m3 \<and> \<not> system_active m3"
    using stopped_changed [OF st(3)] by simp
  then show ?thesis by (simp add: m' destroyLifecycleServiceClients_def manager_inv_def)
qed

lemma inv_pause:
  assumes "pause sv (m, e) = Some (b, m', e')" and "manager_inv m"
  shows "manager_inv m'"
  using stopped_changed [of sv _ _ "destroyBondTimer (m\<lparr>system_active := False\<rparr>)"] inv_stopped [OF assms(2)] assms(1)
  by (fastforce simp: pause_def)

lemma inv_command:
  assumes "managerCallback sv cmd (m, e) = Some (b, m', e')" and "manager_inv m"
  shows "manager_inv m'"
  using assms by (cases cmd) (auto elim: inv_startup inv_shutdown inv_pause inv_resume inv_reset)

lemma inv_check_bonds:
  assumes "check_bonds sv ok i ns (m, e) = Some (m', e')" and "manager_inv m"
  shows "manager_inv m'"
  using assms
proof (induction ns arbitrary: i)
  case (Cons n ns)
  show ?case
  proof (cases "ok i \<and> n \<in> bond_map m \<and> is_broken sv n e")
    case True
    then obtain b m1 where r: "reset sv True (m, e) = Some (b, m1, e')"
      and m': "m' = (let m = m1\<lparr>bond_map := {}\<rparr> in if attempt_respawn_reconnection m then m\<lparr>bond_respawn_timer := True\<rparr> else m)"
      using Cons.prems by (auto simp: Let_def split: option.splits)
    then show ?thesis
      using stopped_reset [OF r Cons.prems(2)] by (auto simp: manager_inv_def Let_def)
  next
    case False
    then show ?thesis using Cons by (auto split: if_splits)
  qed
qed simp

lemma inv_step:
  assumes "manager_step sv (m, e) (m', e')" and "manager_inv m"
  shows "manager_inv m'"
  using assms(1)
proof (cases rule: manager_step.cases)
  case (step_command cmd b)
  show ?thesis by (rule inv_command [OF step_command(1) assms(2)])
next
  case (step_bonds ok)
  then show ?thesis
    using assms(2) inv_check_bonds [of sv ok "Suc 0" "node_names m" m e m' e']
    by (auto simp: checkBondConnections_def split: if_splits)
next
  case (step_respawn ok t0 t1)
  let ?m = "if bond_respawn_start_time m = 0 then m\<lparr>bond_respawn_start_time := t0\<rparr> else m"
  have i: "manager_inv (?m\<lparr>bond_respawn_start_time := 0, bond_respawn_timer := False\<rparr>)" "manager_inv ?m"
    using assms(2) by (simp_all add: manager_inv_def)
  show ?thesis
    using step_respawn(2) i inv_startup [OF _ i(1)]
    by (auto simp: checkBondRespawnConnection_def Let_def split: if_splits option.splits)
next
  case step_preshutdown
  then show ?thesis
    using assms(2) by (auto simp: onRclPreshutdown_def manager_inv_def destroyBondTimer_def)
qed (use assms in simp)

lemma inv_run:
  assumes "manager_run sv s s'" and "manager_inv (fst s)"
  shows "manager_inv (fst s')"
  using assms
proof (induction rule: manager_run.induct)
  case (run_step s s' s'')
  then show ?case using inv_step [of sv "fst s'" "snd s'" "fst s''" "snd s''"] by simp
qed

text \<open>With the invariant, looking at the bonds never meets a missing one.\<close>

lemma check_bonds_defined:
  assumes "set ns \<subseteq> bond_map m" and "\<forall>h. reset sv h (m, e) \<noteq> None"
  shows "check_bonds sv ok i ns (m, e) \<noteq> None"
  using assms
proof (induction ns arbitrary: i)
  case (Cons n ns)
  obtain b m1 e1 where "reset sv True (m, e) = Some (b, m1, e1)"
    using Cons.prems(2) by (metis not_None_eq prod_cases3)
  then show ?case using Cons by (simp add: Let_def)
qed simp

text \<open>With its clients the manager can request every transition.\<close>

lemma change_nodes_defined:
  assumes "set ns \<subseteq> clients m"
  shows "change_nodes sv t h ns (m, e) \<noteq> None"
  using assms
proof (induction ns arbitrary: m e)
  case (Cons n ns)
  have "changeStateForNode sv n t (m, e) \<noteq> None"
    using Cons.prems
    by (auto simp: changeStateForNode_def Let_def split: sum.splits prod.splits bool.splits)
  then obtain r m1 e1 where first: "changeStateForNode sv n t (m, e) = Some (r, m1, e1)" by auto
  then have "set ns \<subseteq> clients m1"
    using changeStateForNode_frame [OF first] Cons.prems by (simp add: same_config_def)
  then show ?case using Cons.IH [of m1 e1] first by (auto split: sum.splits)
qed simp

lemma changeStateForAllNodes_defined:
  "set (node_names m) \<subseteq> clients m \<Longrightarrow> changeStateForAllNodes sv t h (m, e) \<noteq> None"
  using change_nodes_defined [of _ m sv t h e] by (simp add: changeStateForAllNodes_def)

lemma reset_defined:
  assumes "set (node_names m) \<subseteq> clients m"
  shows "reset sv h (m, e) \<noteq> None"
proof -
  let ?m = "destroyBondTimer (m\<lparr>system_active := False\<rparr>)"
  obtain b1 m1 e1 where d: "changeStateForAllNodes sv TRANSITION_DEACTIVATE h (?m, e) = Some (b1, m1, e1)"
    using changeStateForAllNodes_defined [of ?m] assms by fastforce
  have "set (node_names m1) \<subseteq> clients m1"
    using changeStateForAllNodes_frame(1) [OF d] assms by (simp add: same_config_def)
  then have "changeStateForAllNodes sv TRANSITION_CLEANUP h (m1, e1) \<noteq> None"
    by (rule changeStateForAllNodes_defined)
  then show ?thesis using d by (cases b1) (auto simp: reset_def)
qed


text \<open>A hard change stops at the first node that throws.\<close>

lemma change_nodes_throws:
  assumes "change_nodes sv t h (xs @ c # ys) (m, e) = Some (b, m', e')"
    and "\<forall>e. \<exists>e'. change_state sv c t e = (Inl RuntimeError, e')"
  shows "\<not> b \<and> (\<exists>k \<le> length xs + 1. requests m' = requests m @ map (\<lambda>n. (n, t)) (take k (xs @ [c])))"
  using assms(1)
proof (induction xs arbitrary: m e)
  case Nil
  obtain e1 where "change_state sv c t e = (Inl RuntimeError, e1)" using assms(2) by blast
  then show ?case
    using Nil by (auto simp: changeStateForNode_def Let_def intro: exI [of _ 1] split: if_splits)
next
  case (Cons x xs)
  obtain r m1 e1 where first: "changeStateForNode sv x t (m, e) = Some (r, m1, e1)"
    using Cons.prems by (auto split: option.splits)
  note frame = changeStateForNode_frame [OF first]
  show ?case
  proof (cases "\<exists>c. r = Inr c \<and> (c \<or> h)")
    case False
    then have "b = False" and "m' = m1"
      using Cons.prems first by (auto split: sum.splits if_splits)
    then show ?thesis using frame by (intro conjI exI [of _ 1]) auto
  next
    case True
    then have "change_nodes sv t h (xs @ c # ys) (m1, e1) = Some (b, m', e')"
      using Cons.prems first by (auto split: if_splits)
    from Cons.IH [OF this] obtain k where
      "\<not> b" "k \<le> length xs + 1" "requests m' = requests m1 @ map (\<lambda>n. (n, t)) (take k (xs @ [c]))"
      by blast
    then show ?thesis using frame by (intro conjI exI [of _ "Suc k"]) auto
  qed
qed

lemma initial_inv: "manager_inv (createLifecycleServiceClients (LifecycleManager names timeout maxd attempt))"
  by (simp add: manager_inv_def createLifecycleServiceClients_def LifecycleManager_def)

lemma checkBondConnections_defined:
  assumes "manager_inv m" and "bond_timeout m > 0"
  shows "checkBondConnections sv ok (m, e) \<noteq> None"
  using assms reset_defined [of m sv _ e] check_bonds_defined [of "node_names m" m sv e]
  by (auto simp: checkBondConnections_def manager_inv_def)


section \<open>Properties\<close>

text \<open>Servers that always answer; with a crashed one, whose service never does.\<close>

definition answering :: "string set \<Rightarrow> primary_state servers" where
  "answering crashed =
     \<lparr>change_state = (\<lambda>n t e. if n \<in> crashed then (Inl RuntimeError, e) else (Inr True, transition_state_map t)),
       get_state = (\<lambda>n e. (Inr e, e)), wait_until_formed = (\<lambda>n e. (True, e)), is_broken = (\<lambda>n e. n \<in> crashed)\<rparr>"

lemmas manager_eval = answering_def startup_def shutdown_def reset_def shutdownAllNodes_def
  changeStateForAllNodes_def changeStateForNode_def createBondConnection_def createBondTimer_def
  createLifecycleServiceClients_def LifecycleManager_def destroyLifecycleServiceClients_def

section \<open>Rounds\<close>

text \<open>
  What it means, at the servers, that a node carries a transition out: it accepts the request, then reports the state
  the transition leads to and, where its bond is awaited, forms it. It fails when it refuses, throws,
  reports another state or does not form the bond; \<open>e\<close> and \<open>e'\<close> are the servers' states before and after.
\<close>

definition state_reached :: "transition \<Rightarrow> primary_state" where
  "state_reached t =
     (if t = TRANSITION_ACTIVATE then PRIMARY_STATE_ACTIVE
      else if t = TRANSITION_CONFIGURE \<or> t = TRANSITION_DEACTIVATE then PRIMARY_STATE_INACTIVE
      else if t = TRANSITION_CLEANUP then PRIMARY_STATE_UNCONFIGURED else PRIMARY_STATE_FINALIZED)"

definition carries_out :: "'e servers \<Rightarrow> transition \<Rightarrow> bool \<Rightarrow> string \<Rightarrow> 'e \<Rightarrow> 'e \<Rightarrow> bool" where
  "carries_out sv t await n e e' \<longleftrightarrow>
     (\<exists>e1 e2. change_state sv n t e = (Inr True, e1) \<and> get_state sv n e1 = (Inr (state_reached t), e2) \<and>
       (if await then wait_until_formed sv n e2 = (True, e') else e' = e2))"

definition fails :: "'e servers \<Rightarrow> transition \<Rightarrow> bool \<Rightarrow> string \<Rightarrow> 'e \<Rightarrow> 'e \<Rightarrow> bool" where
  "fails sv t await n e e' \<longleftrightarrow>
     (\<exists>r. change_state sv n t e = (r, e') \<and> r \<noteq> Inr True) \<or>
     (\<exists>e1 r. change_state sv n t e = (Inr True, e1) \<and> get_state sv n e1 = (r, e') \<and> r \<noteq> Inr (state_reached t)) \<or>
     (\<exists>e1 e2. change_state sv n t e = (Inr True, e1) \<and> get_state sv n e1 = (Inr (state_reached t), e2) \<and>
       await \<and> wait_until_formed sv n e2 = (False, e'))"

text \<open>The nodes \<open>ns\<close> carry the transition out one after the other; the bonds of \<open>W\<close> are awaited, each once.\<close>

fun all_carry_out :: "'e servers \<Rightarrow> transition \<Rightarrow> string set \<Rightarrow> string list \<Rightarrow> 'e \<Rightarrow> 'e \<Rightarrow> bool" where
  "all_carry_out sv t W [] e e' \<longleftrightarrow> e' = e"
| "all_carry_out sv t W (n # ns) e e' \<longleftrightarrow> (\<exists>e1. carries_out sv t (n \<in> W) n e e1 \<and> all_carry_out sv t (W - {n}) ns e1 e')"

text \<open>A round over \<open>ns\<close> that asks the first \<open>k\<close> of them: all, and all do it, or the last one asked is the first to fail.\<close>

definition round_goes ::
  "'e servers \<Rightarrow> transition \<Rightarrow> string set \<Rightarrow> string list \<Rightarrow> 'e \<Rightarrow> bool \<Rightarrow> nat \<Rightarrow> 'e \<Rightarrow> bool" where
  "round_goes sv t W ns e b k e' \<longleftrightarrow>
     (if b then k = length ns \<and> all_carry_out sv t W ns e e'
      else 0 < k \<and> k \<le> length ns \<and>
        (\<exists>e1. all_carry_out sv t W (take (k - 1) ns) e e1 \<and>
          fails sv t (ns ! (k - 1) \<in> W - set (take (k - 1) ns)) (ns ! (k - 1)) e1 e'))"

definition awaited :: "transition \<Rightarrow> manager \<Rightarrow> string set" where
  "awaited t m = (if t = TRANSITION_ACTIVATE \<and> 0 < bond_timeout m then - bond_map m else {})"

lemma carries_out_fails: "carries_out sv t a n e e1 \<Longrightarrow> \<not> fails sv t a n e e2"
  by (auto simp: carries_out_def fails_def split: if_splits)

lemma carries_out_det: "carries_out sv t a n e e1 \<Longrightarrow> carries_out sv t a n e e2 \<Longrightarrow> e2 = e1"
  by (auto simp: carries_out_def split: if_splits)

lemma all_carry_out_append:
  "all_carry_out sv t W (xs @ ys) e e' \<longleftrightarrow> (\<exists>e1. all_carry_out sv t W xs e e1 \<and> all_carry_out sv t (W - set xs) ys e1 e')"
proof (induction xs arbitrary: W e)
  case (Cons x xs)
  have "W - {x} - set xs = W - set (x # xs)" by auto
  then show ?case by (auto simp: Cons.IH)
qed simp

lemma all_carry_out_det: "all_carry_out sv t W ns e e1 \<Longrightarrow> all_carry_out sv t W ns e e2 \<Longrightarrow> e2 = e1"
  by (induction ns arbitrary: W e) (auto dest: carries_out_det)

text \<open>A round in which all carry the transition out is no failed round.\<close>

lemma round_goes_ok:
  assumes "round_goes sv t W ns e b k e'" and "all_carry_out sv t W ns e e2"
  shows "b \<and> e' = e2"
proof (cases b)
  case True
  then have "all_carry_out sv t W ns e e'" using assms(1) by (simp add: round_goes_def)
  with True show ?thesis using all_carry_out_det [OF assms(2)] by blast
next
  case False
  then obtain e1 where r: "0 < k" "k \<le> length ns" "all_carry_out sv t W (take (k - 1) ns) e e1"
    "fails sv t (ns ! (k - 1) \<in> W - set (take (k - 1) ns)) (ns ! (k - 1)) e1 e'"
    using assms(1) by (auto simp: round_goes_def)
  have "ns = take (k - 1) ns @ ns ! (k - 1) # drop k ns"
    using id_take_nth_drop [of "k - 1" ns] r(1,2) by simp
  then obtain e3 where "all_carry_out sv t W (take (k - 1) ns) e e3"
    "all_carry_out sv t (W - set (take (k - 1) ns)) (ns ! (k - 1) # drop k ns) e3 e2"
    using assms(2) all_carry_out_append by metis
  moreover have "e3 = e1" using all_carry_out_det [OF r(3)] calculation(1) by blast
  ultimately show ?thesis using carries_out_fails r(4) by fastforce
qed

lemma state_reached_map: "transition_state_map t = state_reached t"
  by (cases t) (simp_all add: state_reached_def)

lemma changeStateForNode_round:
  assumes "changeStateForNode sv n t (m, e) = Some (r, m', e')"
  shows "if r = Inr True then carries_out sv t (n \<in> awaited t m) n e e' \<and> awaited t m' = awaited t m - {n}
    else fails sv t (n \<in> awaited t m) n e e'"
  using assms
  by (auto simp: changeStateForNode_def createBondConnection_def carries_out_def fails_def awaited_def Let_def state_reached_map
      split: if_splits sum.splits prod.splits bool.splits)

lemma round_goes_Cons:
  assumes "carries_out sv t (n \<in> W) n e e1" and "round_goes sv t (W - {n}) ns e1 b k e'"
  shows "round_goes sv t W (n # ns) e b (Suc k) e'"
proof (cases b)
  case True
  then show ?thesis using assms by (auto simp: round_goes_def)
next
  case False
  then obtain e2 where r: "0 < k" "k \<le> length ns" "all_carry_out sv t (W - {n}) (take (k - 1) ns) e1 e2"
    "fails sv t (ns ! (k - 1) \<in> W - {n} - set (take (k - 1) ns)) (ns ! (k - 1)) e2 e'"
    using assms(2) by (auto simp: round_goes_def)
  have t: "take k (n # ns) = n # take (k - 1) ns" "(n # ns) ! k = ns ! (k - 1)" using r(1) by (auto simp: take_Cons' nth_Cons')
  have "W - {n} - set (take (k - 1) ns) = W - set (take k (n # ns))" unfolding t by auto
  then show ?thesis using False r assms(1) t by (auto simp: round_goes_def)
qed

lemma change_nodes_round:
  assumes "change_nodes sv t False ns (m, e) = Some (b, m', e')"
  shows "\<exists>k. round_goes sv t (awaited t m) ns e b k e' \<and> requests m' = requests m @ map (\<lambda>n. (n, t)) (take k ns)"
  using assms
proof (induction ns arbitrary: m e)
  case Nil
  then show ?case by (simp add: round_goes_def)
next
  case (Cons n ns)
  obtain r m1 e1 where first: "changeStateForNode sv n t (m, e) = Some (r, m1, e1)"
    using Cons.prems by (auto split: option.splits)
  note frame = changeStateForNode_frame [OF first] and spec = changeStateForNode_round [OF first]
  show ?case
  proof (cases "r = Inr True")
    case False
    then have "\<not> b" "m' = m1" "e' = e1" using Cons.prems first by (auto split: sum.splits if_splits)
    then show ?thesis using frame spec False by (intro exI [of _ 1]) (auto simp: round_goes_def)
  next
    case True
    then have "change_nodes sv t False ns (m1, e1) = Some (b, m', e')" using Cons.prems first by simp
    from Cons.IH [OF this] obtain k where
      k: "round_goes sv t (awaited t m1) ns e1 b k e'" "requests m' = requests m1 @ map (\<lambda>n. (n, t)) (take k ns)" by blast
    then show ?thesis
      using spec True frame by (intro exI [of _ "Suc k"]) (auto intro!: round_goes_Cons)
  qed
qed

lemma change_nodes_bonds:
  assumes "change_nodes sv t h ns (m, e) = Some (b, m', e')"
  shows "t \<noteq> TRANSITION_ACTIVATE \<and> t \<noteq> TRANSITION_DEACTIVATE \<longrightarrow> bond_map m' = bond_map m"
  using assms
proof (induction ns arbitrary: m e)
  case (Cons n ns)
  obtain r m1 e1 where first: "changeStateForNode sv n t (m, e) = Some (r, m1, e1)"
    using Cons.prems by (auto split: option.splits)
  then have "t \<noteq> TRANSITION_ACTIVATE \<and> t \<noteq> TRANSITION_DEACTIVATE \<longrightarrow> bond_map m1 = bond_map m"
    by (auto simp: changeStateForNode_def Let_def split: if_splits sum.splits prod.splits bool.splits)
  moreover have "m' = m1 \<or> change_nodes sv t h ns (m1, e1) = Some (b, m', e')"
    using Cons.prems first by (auto split: sum.splits if_splits)
  ultimately show ?case using Cons.IH by metis
qed simp

text \<open>The order of a round: forwards to bring the nodes up, backwards to take them down.\<close>

lemma changeStateForAllNodes_round:
  assumes "changeStateForAllNodes sv t False (m, e) = Some (b, m', e')"
    and "ns = (if t = TRANSITION_CONFIGURE \<or> t = TRANSITION_ACTIVATE then node_names m else rev (node_names m))"
  shows "\<exists>k. round_goes sv t (awaited t m) ns e b k e' \<and> requests m' = requests m @ map (\<lambda>n. (n, t)) (take k ns) \<and>
    same_config m m' \<and> (t \<noteq> TRANSITION_ACTIVATE \<and> t \<noteq> TRANSITION_DEACTIVATE \<longrightarrow> bond_map m' = bond_map m)"
proof -
  have run: "change_nodes sv t False ns (m, e) = Some (b, m', e')"
    using assms by (auto simp: changeStateForAllNodes_def split: if_splits)
  have "same_config m m'" using change_nodes_frame [OF run] by blast
  then show ?thesis using change_nodes_round [OF run] change_nodes_bonds [OF run] by blast
qed

text \<open>C10: \<open>startup\<close> configures the nodes in the order of \<open>node_names_\<close>, and only when all are
  configured activates them in that order; it stops at the first node that fails (refuses, throws, reports another
  state or does not form its bond), asks nothing of any node after that and then leaves the system as
  inactive as it was; it succeeds exactly when all nodes carry both transitions out and, with a bond
  timeout, all bonds that were not in \<open>bond_map_\<close> before have formed. (A bond that does not form stays in
  \<open>bond_map_\<close>, so that a second \<open>startup\<close> does not await it again.)\<close>

theorem startup_order:
  assumes "startup sv (m, e) = Some (b, m', e')"
  shows "\<exists>k l c e1.
    requests m' = requests m @ map (\<lambda>n. (n, TRANSITION_CONFIGURE)) (take k (node_names m)) @
      map (\<lambda>n. (n, TRANSITION_ACTIVATE)) (take l (node_names m)) \<and>
    round_goes sv TRANSITION_CONFIGURE {} (node_names m) e c k e1 \<and>
    (if c then round_goes sv TRANSITION_ACTIVATE (if 0 < bond_timeout m then - bond_map m else {}) (node_names m) e1 b l e'
     else l = 0 \<and> \<not> b \<and> e' = e1) \<and>
    (b \<longleftrightarrow> (\<exists>e1 e2. all_carry_out sv TRANSITION_CONFIGURE {} (node_names m) e e1 \<and>
      all_carry_out sv TRANSITION_ACTIVATE (if 0 < bond_timeout m then - bond_map m else {}) (node_names m) e1 e2)) \<and>
    (if b then system_active m' \<and> (0 < bond_timeout m \<longrightarrow> bond_timer m' \<and> set (node_names m) \<subseteq> bond_map m')
     else system_active m' = system_active m)"
proof -
  let ?N = "node_names m" and ?W = "if 0 < bond_timeout m then - bond_map m else {}"
  obtain c m1 e1 where c: "changeStateForAllNodes sv TRANSITION_CONFIGURE False (m, e) = Some (c, m1, e1)"
    using assms by (auto simp: startup_def split: option.splits)
  obtain k where k: "round_goes sv TRANSITION_CONFIGURE {} ?N e c k e1"
      "requests m1 = requests m @ map (\<lambda>n. (n, TRANSITION_CONFIGURE)) (take k ?N)" "same_config m m1" "bond_map m1 = bond_map m"
    using changeStateForAllNodes_round [OF c refl] by (auto simp: awaited_def)
  have configured: "c \<and> e2 = e1" if "all_carry_out sv TRANSITION_CONFIGURE {} ?N e e2" for e2
    using round_goes_ok [OF k(1) that] by simp
  show ?thesis
  proof (cases c)
    case False
    then have "\<not> b" "m' = m1" "e' = e1" using assms c by (simp_all add: startup_def)
    then show ?thesis using k configured False by (intro exI [of _ k] exI [of _ 0] exI [of _ c] exI [of _ e1]) (auto simp: same_config_def)
  next
    case True
    obtain b2 m2 e2 where a: "changeStateForAllNodes sv TRANSITION_ACTIVATE False (m1, e1) = Some (b2, m2, e2)"
      using assms c True by (auto simp: startup_def split: option.splits)
    have same: "node_names m1 = ?N" "bond_timeout m1 = bond_timeout m" "system_active m1 = system_active m"
      using k(3) by (simp_all add: same_config_def)
    obtain l where l: "round_goes sv TRANSITION_ACTIVATE ?W ?N e1 b2 l e2"
        "requests m2 = requests m1 @ map (\<lambda>n. (n, TRANSITION_ACTIVATE)) (take l ?N)" "same_config m1 m2"
      using changeStateForAllNodes_round [OF a refl] unfolding awaited_def same k(4) by (simp, blast)
    have bonds: "b2 \<Longrightarrow> 0 < bond_timeout m \<Longrightarrow> set ?N \<subseteq> bond_map m2"
      using changeStateForAllNodes_frame(4) [OF a] same by auto
    have r: "b = b2" "m' = (if b2 then createBondTimer (m2\<lparr>system_active := True\<rparr>) else m2)" "e' = e2"
      using assms c True a by (cases b2; simp add: startup_def)+
    have "b \<longleftrightarrow> (\<exists>e1 e2. all_carry_out sv TRANSITION_CONFIGURE {} ?N e e1 \<and> all_carry_out sv TRANSITION_ACTIVATE ?W ?N e1 e2)"
      (is "b \<longleftrightarrow> ?all")
    proof
      assume b
      then have "all_carry_out sv TRANSITION_CONFIGURE {} ?N e e1" "all_carry_out sv TRANSITION_ACTIVATE ?W ?N e1 e2"
        using k(1) l(1) True r(1) by (simp_all only: round_goes_def if_True)
      then show ?all by blast
    next
      assume ?all
      then show b using configured round_goes_ok [OF l(1)] r(1) by blast
    qed
    moreover have "if b then system_active m' \<and> (0 < bond_timeout m \<longrightarrow> bond_timer m' \<and> set ?N \<subseteq> bond_map m')
      else system_active m' = system_active m"
      using r bonds l(3) same by (auto simp: createBondTimer_def same_config_def)
    moreover have "requests m' = requests m2" using r(2) by (simp add: createBondTimer_def)
    ultimately show ?thesis
      using k(1,2) l(1,2) True r by (intro exI [of _ k] exI [of _ l] exI [of _ c] exI [of _ e1]) simp
  qed
qed

theorem startup_order_witness:
  defines "m \<equiv> createLifecycleServiceClients (LifecycleManager [''a'', ''b''] 4 10 True)"
  shows "\<exists>m' e'. startup (answering {}) (m, PRIMARY_STATE_UNCONFIGURED) = Some (True, m', e') \<and>
    requests m' = [(''a'', TRANSITION_CONFIGURE), (''b'', TRANSITION_CONFIGURE),
      (''a'', TRANSITION_ACTIVATE), (''b'', TRANSITION_ACTIVATE)]"
proof -
  obtain m' e' where run: "startup (answering {}) (m, PRIMARY_STATE_UNCONFIGURED) = Some (True, m', e')"
    by (simp add: m_def manager_eval)
  show ?thesis
    using run startup_order [OF run]
    by (auto simp: m_def createLifecycleServiceClients_def LifecycleManager_def round_goes_def split: if_splits)
qed

text \<open>C33: \<open>shutdown\<close> always reports success and leaves the system inactive, without bond timer and
  without service clients; it goes through the nodes backwards in three rounds, deactivating, cleaning
  up and shutting down. Every round asks all nodes, unless one fails: then it ends with that node, and the
  next round begins with the last node all the same.\<close>

theorem shutdown_order:
  assumes "shutdown sv (m, e) = Some (b, m', e')"
  shows "b \<and> \<not> system_active m' \<and> \<not> bond_timer m' \<and> clients m' = {} \<and>
    (\<exists>i j k b1 b2 b3 e1 e2. round_goes sv TRANSITION_DEACTIVATE {} (rev (node_names m)) e b1 i e1 \<and>
      round_goes sv TRANSITION_CLEANUP {} (rev (node_names m)) e1 b2 j e2 \<and>
      round_goes sv TRANSITION_UNCONFIGURED_SHUTDOWN {} (rev (node_names m)) e2 b3 k e' \<and>
      requests m' = requests m @ map (\<lambda>n. (n, TRANSITION_DEACTIVATE)) (take i (rev (node_names m))) @
        map (\<lambda>n. (n, TRANSITION_CLEANUP)) (take j (rev (node_names m))) @
        map (\<lambda>n. (n, TRANSITION_UNCONFIGURED_SHUTDOWN)) (take k (rev (node_names m))))"
proof -
  let ?m = "destroyBondTimer (m\<lparr>system_active := False\<rparr>)" and ?N = "rev (node_names m)"
  obtain m3 e3 where s: "shutdownAllNodes sv (?m, e) = Some (m3, e3)"
    and m': "m' = destroyLifecycleServiceClients m3" "b" "e' = e3"
    using assms by (auto simp: shutdown_def split: option.splits)
  then obtain b1 m1 e1 b2 m2 e2 b3 where
    st: "changeStateForAllNodes sv TRANSITION_DEACTIVATE False (?m, e) = Some (b1, m1, e1)"
      "changeStateForAllNodes sv TRANSITION_CLEANUP False (m1, e1) = Some (b2, m2, e2)"
      "changeStateForAllNodes sv TRANSITION_UNCONFIGURED_SHUTDOWN False (m2, e2) = Some (b3, m3, e3)"
    using shutdownAllNodes_stages [OF s] by blast
  obtain i where i: "round_goes sv TRANSITION_DEACTIVATE {} ?N e b1 i e1"
      "requests m1 = requests m @ map (\<lambda>n. (n, TRANSITION_DEACTIVATE)) (take i ?N)" "same_config ?m m1"
    using changeStateForAllNodes_round [OF st(1) refl] by (auto simp: awaited_def)
  obtain j where j: "round_goes sv TRANSITION_CLEANUP {} (rev (node_names m1)) e1 b2 j e2"
      "requests m2 = requests m1 @ map (\<lambda>n. (n, TRANSITION_CLEANUP)) (take j (rev (node_names m1)))" "same_config m1 m2"
    using changeStateForAllNodes_round [OF st(2) refl] by (auto simp: awaited_def)
  obtain k where k: "round_goes sv TRANSITION_UNCONFIGURED_SHUTDOWN {} (rev (node_names m2)) e2 b3 k e3"
      "requests m3 = requests m2 @ map (\<lambda>n. (n, TRANSITION_UNCONFIGURED_SHUTDOWN)) (take k (rev (node_names m2)))" "same_config m2 m3"
    using changeStateForAllNodes_round [OF st(3) refl] by (auto simp: awaited_def)
  have names: "node_names m1 = node_names m" "node_names m2 = node_names m"
    using i(3) j(3) by (simp_all add: same_config_def)
  have "\<not> system_active m3 \<and> \<not> bond_timer m3"
    using i(3) j(3) k(3) by (simp add: same_config_def destroyBondTimer_def)
  moreover have "requests m3 = requests m @ map (\<lambda>n. (n, TRANSITION_DEACTIVATE)) (take i ?N) @
      map (\<lambda>n. (n, TRANSITION_CLEANUP)) (take j ?N) @ map (\<lambda>n. (n, TRANSITION_UNCONFIGURED_SHUTDOWN)) (take k ?N)"
    using i(2) j(2) k(2) names by simp
  ultimately show ?thesis
    using m' i(1) j(1) [unfolded names] k(1) [unfolded names] unfolding destroyLifecycleServiceClients_def
    by (intro conjI exI [of _ i] exI [of _ j] exI [of _ k] exI [of _ b1] exI [of _ b2] exI [of _ b3] exI [of _ e1] exI [of _ e2]) simp_all
qed

theorem shutdown_order_witness:
  defines "m \<equiv> createLifecycleServiceClients (LifecycleManager [''a'', ''b''] 4 10 True)"
  shows "\<exists>m' e'. shutdown (answering {}) (m, PRIMARY_STATE_ACTIVE) = Some (True, m', e') \<and> clients m' = {} \<and>
    0 < length (requests m')"
proof -
  obtain m' e' where run: "shutdown (answering {}) (m, PRIMARY_STATE_ACTIVE) = Some (True, m', e')"
    by (simp add: m_def manager_eval destroyBondTimer_def)
  show ?thesis
    using run shutdown_order [OF run]
    by (auto simp: m_def createLifecycleServiceClients_def LifecycleManager_def round_goes_def split: if_splits)
qed

text \<open>C32: in every run of the manager from its start, under any order of commands, timers and
  server events, an active system holds a client and (with a bond timeout) a bond for every node,
  and the bond timer, whenever it fires, finds the bond and the client of every node it looks up.\<close>

theorem bonds_present:
  assumes "manager_run sv (createLifecycleServiceClients (LifecycleManager names timeout maxd attempt), e) (m, e')"
  shows "(system_active m \<longrightarrow> set (node_names m) \<subseteq> clients m \<and>
      (0 < bond_timeout m \<longrightarrow> set (node_names m) \<subseteq> bond_map m)) \<and>
    (bond_timer m \<longrightarrow> checkBondConnections sv ok (m, e') \<noteq> None)"
proof -
  have "manager_inv m" using inv_run [OF assms] initial_inv by simp
  then show ?thesis
    using checkBondConnections_defined [of m sv ok e'] unfolding manager_inv_def by blast
qed

theorem bonds_present_witness:
  "\<exists>m e. manager_run (answering {}) (createLifecycleServiceClients (LifecycleManager [''a''] 4 10 True),
      PRIMARY_STATE_UNCONFIGURED) (m, e) \<and> system_active m \<and> bond_timer m \<and> bond_map m = {''a''} \<and>
    checkBondConnections (answering {}) (\<lambda>i. True) (m, e) \<noteq> None"
proof -
  let ?m = "createLifecycleServiceClients (LifecycleManager [''a''] 4 10 True)"
  obtain m e where run: "startup (answering {}) (?m, PRIMARY_STATE_UNCONFIGURED) = Some (True, m, e)"
    and m: "system_active m" "bond_timer m" "bond_map m = {''a''}"
    by (simp add: manager_eval)
  have "managerCallback (answering {}) STARTUP (?m, PRIMARY_STATE_UNCONFIGURED) = Some (True, m, e)"
    by (simp add: run)
  then have "manager_run (answering {}) (?m, PRIMARY_STATE_UNCONFIGURED) (m, e)"
    by (rule run_step [OF run_refl step_command])
  from bonds_present [OF this, of "\<lambda>i. True"] m this show ?thesis
    by (intro exI [of _ m] exI [of _ e] conjI) simp_all
qed

text \<open>A hard reset, meant to take the other nodes down when one has crashed, ends at the crashed
  node: the nodes before it in \<open>node_names_\<close> get no request at all and no node is cleaned up,
  although the call reports success.\<close>

theorem hard_reset_stops_at_crash:
  assumes "node_names m = front @ crashed # back"
    and "\<forall>t e. \<exists>e'. change_state sv crashed t e = (Inl RuntimeError, e')"
    and "reset sv True (m, e) = Some (b, m', e')"
  shows "b \<and> (\<exists>k \<le> length back + 1.
    requests m' = requests m @ map (\<lambda>n. (n, TRANSITION_DEACTIVATE)) (take k (rev (crashed # back))))"
proof -
  let ?m = "destroyBondTimer (m\<lparr>system_active := False\<rparr>)"
  obtain b1 m1 e1 where d: "changeStateForAllNodes sv TRANSITION_DEACTIVATE True (?m, e) = Some (b1, m1, e1)"
    using assms(3) by (auto simp: reset_def split: option.splits)
  have "change_nodes sv TRANSITION_DEACTIVATE True (rev back @ crashed # rev front) (?m, e) = Some (b1, m1, e1)"
    using d assms(1) by (simp add: changeStateForAllNodes_def)
  from change_nodes_throws [OF this] assms(2) have stop: "\<not> b1"
    "\<exists>k \<le> length back + 1. requests m1 = requests m @ map (\<lambda>n. (n, TRANSITION_DEACTIVATE)) (take k (rev (crashed # back)))"
    by auto
  then have "b \<and> m' = m1" using assms(3) d by (simp add: reset_def)
  then show ?thesis using stop(2) by blast
qed

theorem hard_reset_stops_at_crash_witness:
  defines "m \<equiv> createLifecycleServiceClients (LifecycleManager [''map'', ''amcl'', ''bt''] 4 10 True)"
  shows "\<exists>b m' e'. reset (answering {''amcl''}) True (m, PRIMARY_STATE_ACTIVE) = Some (b, m', e') \<and> b \<and>
    (''map'', TRANSITION_DEACTIVATE) \<notin> set (requests m')"
proof -
  obtain b m' e' where run: "reset (answering {''amcl''}) True (m, PRIMARY_STATE_ACTIVE) = Some (b, m', e')"
    using reset_defined [of m "answering {''amcl''}" True PRIMARY_STATE_ACTIVE]
    by (auto simp: m_def createLifecycleServiceClients_def LifecycleManager_def)
  have names: "node_names m = [''map''] @ ''amcl'' # [''bt'']" "requests m = []"
    by (simp_all add: m_def createLifecycleServiceClients_def LifecycleManager_def)
  have "\<forall>t e. \<exists>e'. change_state (answering {''amcl''}) ''amcl'' t e = (Inl RuntimeError, e')"
    by (simp add: answering_def)
  from hard_reset_stops_at_crash [OF names(1) this run] obtain k where
    "b" "requests m' = map (\<lambda>n. (n, TRANSITION_DEACTIVATE)) (take k (rev (''amcl'' # [''bt''])))"
    using names(2) by auto
  then have "b \<and> (''map'', TRANSITION_DEACTIVATE) \<notin> set (requests m')"
    by (auto dest: in_set_takeD)
  then show ?thesis using run by blast
qed

text \<open>After \<open>shutdown\<close> the service clients are gone and no command brings them back: a
  \<open>startup\<close> of a manager with nodes dereferences a null client.\<close>

theorem startup_after_shutdown_undefined:
  assumes "shutdown sv (m, e) = Some (b, m', e')" and "node_names m \<noteq> []"
  shows "startup sv (m', e'') = None"
proof -
  let ?m = "destroyBondTimer (m\<lparr>system_active := False\<rparr>)"
  obtain m3 e3 where s: "shutdownAllNodes sv (?m, e) = Some (m3, e3)"
    and m': "m' = destroyLifecycleServiceClients m3"
    using assms(1) by (auto simp: shutdown_def split: option.splits)
  then have "node_names m3 = node_names m" using shutdownAllNodes_names [OF s] by simp
  then obtain n ns where "node_names m' = n # ns" "clients m' = {}"
    using m' assms(2) by (cases "node_names m") (auto simp: destroyLifecycleServiceClients_def)
  then show ?thesis
    by (simp add: startup_def changeStateForAllNodes_def changeStateForNode_def)
qed

theorem startup_after_shutdown_undefined_witness:
  defines "m \<equiv> createLifecycleServiceClients (LifecycleManager [''a''] 4 10 True)"
  shows "\<exists>b m' e'. shutdown (answering {}) (m, PRIMARY_STATE_ACTIVE) = Some (b, m', e') \<and>
    startup (answering {}) (m', e') = None"
proof -
  obtain m' e' where run: "shutdown (answering {}) (m, PRIMARY_STATE_ACTIVE) = Some (True, m', e')"
    by (simp add: m_def manager_eval destroyBondTimer_def)
  have "node_names m \<noteq> []"
    by (simp add: m_def createLifecycleServiceClients_def LifecycleManager_def)
  then show ?thesis
    using run startup_after_shutdown_undefined [OF run] by blast
qed

end
