(* ===== verification/Action_Server.thy ===== *)
theory Action_Server
  imports Main
begin

text \<open>
  The action server of \<open>nav2_util/include/nav2_util/simple_action_server.hpp\<close>. Goals are numbers; what
  \<open>rclcpp_action\<close> keeps of them is a state \<open>'e\<close> behind the operations of a goal handle, which are a
  parameter. A section under \<open>update_mutex_\<close> is one step; the worker thread, the callbacks of the
  executor and the deactivating thread interleave between them.
\<close>

section \<open>State\<close>

type_synonym goal = nat

text \<open>The operations of \<open>ServerGoalHandle\<close> that the server calls.\<close>

record 'e goal_handles =
  goal_active :: "goal \<Rightarrow> 'e \<Rightarrow> bool"
  goal_canceling :: "goal \<Rightarrow> 'e \<Rightarrow> bool"
  goal_abort :: "goal \<Rightarrow> 'e \<Rightarrow> 'e"
  goal_canceled :: "goal \<Rightarrow> 'e \<Rightarrow> 'e"
  goal_succeed :: "goal \<Rightarrow> 'e \<Rightarrow> 'e"

text \<open>Where the thread behind \<open>execution_future_\<close> is; \<open>finished\<close> makes the future ready.\<close>

datatype work_point = loop_test | executing | executed | returning | finished

record server =
  server_active :: bool
  stop_execution :: bool
  preempt_requested :: bool
  current_handle :: "goal option"
  pending_handle :: "goal option"
  execution_future :: "work_point option"
  completion_callback :: bool
  completions :: nat
  deactivating :: bool

definition SimpleActionServer :: "bool \<Rightarrow> server" where
  "SimpleActionServer callback =
     \<lparr>server_active = False, stop_execution = False, preempt_requested = False, current_handle = None,
       pending_handle = None, execution_future = None, completion_callback = callback, completions = 0,
       deactivating = False\<rparr>"

section \<open>Helpers\<close>

definition is_active :: "'e goal_handles \<Rightarrow> goal option \<Rightarrow> 'e \<Rightarrow> bool" where
  "is_active H h e = (case h of None \<Rightarrow> False | Some g \<Rightarrow> goal_active H g e)"

text \<open>\<open>terminate\<close> on a handle: the handle, reset when it was active, and what becomes of the goal.\<close>

definition terminate_handle :: "'e goal_handles \<Rightarrow> goal option \<Rightarrow> 'e \<Rightarrow> goal option \<times> 'e" where
  "terminate_handle H h e =
     (case h of
        None \<Rightarrow> (None, e)
      | Some g \<Rightarrow>
          if goal_active H g e then
            (None, if goal_canceling H g e then goal_canceled H g e else goal_abort H g e)
          else (h, e))"

definition terminate_current :: "'e goal_handles \<Rightarrow> server \<times> 'e \<Rightarrow> server \<times> 'e" where
  "terminate_current H s =
     (let (s, e) = s; (h, e) = terminate_handle H (current_handle s) e in (s\<lparr>current_handle := h\<rparr>, e))"

definition terminate_pending :: "'e goal_handles \<Rightarrow> server \<times> 'e \<Rightarrow> server \<times> 'e" where
  "terminate_pending H s =
     (let (s, e) = s; (h, e) = terminate_handle H (pending_handle s) e in (s\<lparr>pending_handle := h\<rparr>, e))"

definition terminate_all :: "'e goal_handles \<Rightarrow> server \<times> 'e \<Rightarrow> server \<times> 'e" where
  "terminate_all H s =
     (let (s, e) = terminate_pending H (terminate_current H s) in (s\<lparr>preempt_requested := False\<rparr>, e))"

definition terminate_pending_goal :: "'e goal_handles \<Rightarrow> server \<times> 'e \<Rightarrow> server \<times> 'e" where
  "terminate_pending_goal H s =
     (if \<not> is_active H (pending_handle (fst s)) (snd s) then s
      else let (s, e) = terminate_pending H s in (s\<lparr>preempt_requested := False\<rparr>, e))"

definition succeeded_current :: "'e goal_handles \<Rightarrow> server \<times> 'e \<Rightarrow> server \<times> 'e" where
  "succeeded_current H s =
     (let (s, e) = s
      in case current_handle s of
           None \<Rightarrow> (s, e)
         | Some g \<Rightarrow>
             if goal_active H g e then (s\<lparr>current_handle := None\<rparr>, goal_succeed H g e) else (s, e))"

text \<open>\<open>accept_pending_goal\<close> returns the goal accepted, if any.\<close>

definition accept_pending_goal :: "'e goal_handles \<Rightarrow> server \<times> 'e \<Rightarrow> goal option \<times> server \<times> 'e" where
  "accept_pending_goal H s =
     (let (s, e) = s
      in if \<not> is_active H (pending_handle s) e then (None, s, e)
         else
           (let e = (case current_handle s of
                       None \<Rightarrow> e
                     | Some g \<Rightarrow>
                         if goal_active H g e \<and> current_handle s \<noteq> pending_handle s then goal_abort H g e else e)
            in (pending_handle s,
                s\<lparr>current_handle := pending_handle s, pending_handle := None, preempt_requested := False\<rparr>, e)))"

definition get_current_goal :: "'e goal_handles \<Rightarrow> server \<times> 'e \<Rightarrow> goal option" where
  "get_current_goal H s =
     (if is_active H (current_handle (fst s)) (snd s) then current_handle (fst s) else None)"

definition get_pending_goal :: "'e goal_handles \<Rightarrow> server \<times> 'e \<Rightarrow> goal option" where
  "get_pending_goal H s =
     (if is_active H (pending_handle (fst s)) (snd s) then pending_handle (fst s) else None)"

definition is_cancel_requested :: "'e goal_handles \<Rightarrow> server \<times> 'e \<Rightarrow> bool" where
  "is_cancel_requested H s =
     (case current_handle (fst s) of
        None \<Rightarrow> False
      | Some c \<Rightarrow>
          (case pending_handle (fst s) of
             Some p \<Rightarrow> goal_canceling H p (snd s)
           | None \<Rightarrow> goal_canceling H c (snd s)))"

definition is_preempt_requested :: "server \<Rightarrow> bool" where
  "is_preempt_requested s = preempt_requested s"

definition is_server_active :: "server \<Rightarrow> bool" where
  "is_server_active s = server_active s"

definition is_running :: "server \<Rightarrow> bool" where
  "is_running s = (case execution_future s of None \<Rightarrow> False | Some p \<Rightarrow> p \<noteq> finished)"

section \<open>Callbacks of the action interface\<close>

datatype goal_response = REJECT | ACCEPT_AND_EXECUTE
datatype cancel_response = CANCEL_REJECT | CANCEL_ACCEPT

definition handle_goal :: "server \<Rightarrow> goal_response" where
  "handle_goal s = (if \<not> server_active s then REJECT else ACCEPT_AND_EXECUTE)"

definition handle_cancel :: "'e goal_handles \<Rightarrow> goal \<Rightarrow> 'e \<Rightarrow> cancel_response" where
  "handle_cancel H g e = (if \<not> goal_active H g e then CANCEL_REJECT else CANCEL_ACCEPT)"

definition handle_accepted :: "'e goal_handles \<Rightarrow> goal \<Rightarrow> server \<times> 'e \<Rightarrow> server \<times> 'e" where
  "handle_accepted H g s =
     (if is_active H (current_handle (fst s)) (snd s) \<or> is_running (fst s) then
        (let (s, e) = (if is_active H (pending_handle (fst s)) (snd s) then terminate_pending H s else s)
         in (s\<lparr>pending_handle := Some g, preempt_requested := True\<rparr>, e))
      else
        (let (s, e) = (if is_active H (pending_handle (fst s)) (snd s)
                       then (let (s, e) = terminate_pending H s in (s\<lparr>preempt_requested := False\<rparr>, e))
                       else s)
         in (s\<lparr>current_handle := Some g, execution_future := Some loop_test\<rparr>, e)))"

section \<open>The worker thread\<close>

text \<open>Calling an empty \<open>completion_callback_\<close> throws \<open>std::bad_function_call\<close>.\<close>

definition call_completion :: "server \<Rightarrow> server option" where
  "call_completion s =
     (if completion_callback s then Some (s\<lparr>completions := completions s + 1\<rparr>) else None)"

definition work_test :: "'e goal_handles \<Rightarrow> bool \<Rightarrow> server \<times> 'e \<Rightarrow> server \<times> 'e" where
  "work_test H ok s =
     (let (s, e) = s
      in (s\<lparr>execution_future :=
            Some (if ok \<and> \<not> stop_execution s \<and> is_active H (current_handle s) e then executing else returning)\<rparr>, e))"

text \<open>\<open>execute_callback_\<close> throws: an exception of the completion callback leaves the thread.\<close>

definition work_catch :: "'e goal_handles \<Rightarrow> server \<times> 'e \<Rightarrow> server \<times> 'e" where
  "work_catch H s =
     (let (s, e) = terminate_all H s
      in case call_completion s of
           None \<Rightarrow> (s\<lparr>execution_future := Some finished\<rparr>, e)
         | Some s \<Rightarrow> (s\<lparr>execution_future := Some returning\<rparr>, e))"

text \<open>The section after \<open>execute_callback_\<close> returned; an exception of the callback leaves the thread.\<close>

definition work_next :: "'e goal_handles \<Rightarrow> server \<times> 'e \<Rightarrow> server \<times> 'e" where
  "work_next H s =
     (let (s, e) = s
      in if is_active H (pending_handle s) e
         then (let (_, s, e) = accept_pending_goal H (s, e) in (s\<lparr>execution_future := Some loop_test\<rparr>, e))
         else (s\<lparr>execution_future := Some returning\<rparr>, e))"

definition work_after :: "'e goal_handles \<Rightarrow> server \<times> 'e \<Rightarrow> server \<times> 'e" where
  "work_after H s =
     (if stop_execution (fst s) then work_catch H s
      else if is_active H (current_handle (fst s)) (snd s) then
        (let (s, e) = terminate_current H s
         in case call_completion s of
              None \<Rightarrow> (s\<lparr>execution_future := Some finished\<rparr>, e)
            | Some s \<Rightarrow> work_next H (s, e))
      else work_next H s)"

section \<open>Activation\<close>

definition activate :: "server \<Rightarrow> server" where
  "activate s = s\<lparr>server_active := True, stop_execution := False\<rparr>"

text \<open>
  \<open>deactivate\<close>: the stop request, a turn of the waiting loop whose deadline has passed, and the
  return, at once when there is no future and otherwise when it is ready.
\<close>

definition deactivate_request :: "server \<Rightarrow> server" where
  "deactivate_request s =
     s\<lparr>server_active := False, stop_execution := True, deactivating := execution_future s \<noteq> None\<rparr>"

definition deactivate_overdue :: "'e goal_handles \<Rightarrow> server \<times> 'e \<Rightarrow> server \<times> 'e" where
  "deactivate_overdue H s =
     (let (s, e) = terminate_all H s
      in ((case call_completion s of None \<Rightarrow> s | Some s \<Rightarrow> s), e))"

definition deactivate_return :: "server \<Rightarrow> server" where
  "deactivate_return s = s\<lparr>deactivating := False\<rparr>"

section \<open>Steps\<close>

text \<open>
  A run of the server: goals arrive, clients ask to cancel (which keeps a goal active), the worker
  and its callback proceed, the owner activates and deactivates.
\<close>

inductive server_step :: "'e goal_handles \<Rightarrow> server \<times> 'e \<Rightarrow> server \<times> 'e \<Rightarrow> bool" for H where
  step_accepted: "\<not> goal_active H g e \<Longrightarrow> goal_active H g e' \<Longrightarrow>
    (\<And>g'. g' \<noteq> g \<Longrightarrow> goal_active H g' e' = goal_active H g' e) \<Longrightarrow>
    current_handle s \<noteq> Some g \<Longrightarrow> pending_handle s \<noteq> Some g \<Longrightarrow>
    server_step H (s, e) (handle_accepted H g (s, e'))"
| step_cancel: "(\<And>g. goal_active H g e' = goal_active H g e) \<Longrightarrow> server_step H (s, e) (s, e')"
| step_test: "execution_future (fst s) = Some loop_test \<Longrightarrow> server_step H s (work_test H ok s)"
| step_succeed: "execution_future (fst s) = Some executing \<Longrightarrow> server_step H s (succeeded_current H s)"
| step_terminate_current: "execution_future (fst s) = Some executing \<Longrightarrow> server_step H s (terminate_current H s)"
| step_terminate_pending: "execution_future (fst s) = Some executing \<Longrightarrow> server_step H s (terminate_pending_goal H s)"
| step_terminate_all: "execution_future (fst s) = Some executing \<Longrightarrow> server_step H s (terminate_all H s)"
| step_accept_pending: "execution_future (fst s) = Some executing \<Longrightarrow> server_step H s (snd (accept_pending_goal H s))"
| step_executed: "execution_future s = Some executing \<Longrightarrow>
    server_step H (s, e) (s\<lparr>execution_future := Some executed\<rparr>, e)"
| step_thrown: "execution_future (fst s) = Some executing \<Longrightarrow> server_step H s (work_catch H s)"
| step_after: "execution_future (fst s) = Some executed \<Longrightarrow> server_step H s (work_after H s)"
| step_returned: "execution_future s = Some returning \<Longrightarrow>
    server_step H (s, e) (s\<lparr>execution_future := Some finished\<rparr>, e)"
| step_activate: "server_step H (s, e) (activate s, e)"
| step_deactivate: "server_step H (s, e) (deactivate_request s, e)"
| step_overdue: "deactivating (fst s) \<Longrightarrow> is_running (fst s) \<Longrightarrow> server_step H s (deactivate_overdue H s)"
| step_deactivated: "deactivating s \<Longrightarrow> \<not> is_running s \<Longrightarrow> server_step H (s, e) (deactivate_return s, e)"

inductive server_run :: "'e goal_handles \<Rightarrow> server \<times> 'e \<Rightarrow> server \<times> 'e \<Rightarrow> bool" for H where
  run_refl: "server_run H s s"
| run_step: "server_run H s s' \<Longrightarrow> server_step H s' s'' \<Longrightarrow> server_run H s s''"

end
