(* ===== verification/Action_Properties.thy ===== *)
theory Action_Properties
  imports Action_Server
begin

text \<open>
  The goals the action server holds: the invariant of its handles, the hand-over to a pending goal,
  and two interleavings after which goals are not executed any more.
\<close>

section \<open>Goal handles\<close>

text \<open>What \<open>rclcpp_action\<close> documents: a finished goal is not active, and other goals are not affected.\<close>

definition active_goals :: "'e goal_handles \<Rightarrow> 'e \<Rightarrow> goal set" where
  "active_goals H e = {g. goal_active H g e}"

definition handle_laws :: "'e goal_handles \<Rightarrow> bool" where
  "handle_laws H \<longleftrightarrow>
     (\<forall>g e. active_goals H (goal_abort H g e) = active_goals H e - {g}) \<and>
     (\<forall>g e. active_goals H (goal_canceled H g e) = active_goals H e - {g}) \<and>
     (\<forall>g e. active_goals H (goal_succeed H g e) = active_goals H e - {g})"

lemma is_active_iff: "is_active H h e \<longleftrightarrow> (\<exists>g \<in> active_goals H e. h = Some g)"
  by (auto simp: is_active_def active_goals_def split: option.splits)

lemma goal_active_iff: "goal_active H g e \<longleftrightarrow> g \<in> active_goals H e"
  by (simp add: active_goals_def)

text \<open>The two handles are distinct, hold the active goals, and a preemption is a pending goal.\<close>

definition server_inv :: "'e goal_handles \<Rightarrow> server \<times> 'e \<Rightarrow> bool" where
  "server_inv H s \<longleftrightarrow>
     active_goals H (snd s) = set_option (current_handle (fst s)) \<union> set_option (pending_handle (fst s)) \<and>
     set_option (current_handle (fst s)) \<inter> set_option (pending_handle (fst s)) = {} \<and>
     (preempt_requested (fst s) \<longleftrightarrow> pending_handle (fst s) \<noteq> None)"

section \<open>Operations on the handles\<close>

text \<open>What the operations leave alone.\<close>

definition same_thread :: "server \<Rightarrow> server \<Rightarrow> bool" where
  "same_thread s s' \<longleftrightarrow> execution_future s' = execution_future s \<and> stop_execution s' = stop_execution s \<and>
     server_active s' = server_active s \<and> completion_callback s' = completion_callback s \<and>
     completions s' = completions s \<and> deactivating s' = deactivating s"

lemma inv_active:
  assumes inv: "server_inv H (s, e)"
  shows "is_active H (current_handle s) e \<longleftrightarrow> current_handle s \<noteq> None"
    "is_active H (pending_handle s) e \<longleftrightarrow> pending_handle s \<noteq> None"
  using inv by (auto simp: is_active_iff server_inv_def)

lemma terminate_current_inv:
  assumes laws: "handle_laws H" and inv: "server_inv H (s, e)"
  shows "\<exists>e'. terminate_current H (s, e) = (s\<lparr>current_handle := None\<rparr>, e') \<and>
    server_inv H (s\<lparr>current_handle := None\<rparr>, e')"
  using inv laws
  by (auto simp: terminate_current_def terminate_handle_def server_inv_def handle_laws_def goal_active_iff
      split: option.splits)

lemma succeeded_current_inv:
  assumes laws: "handle_laws H" and inv: "server_inv H (s, e)"
  shows "\<exists>e'. succeeded_current H (s, e) = (s\<lparr>current_handle := None\<rparr>, e') \<and>
    server_inv H (s\<lparr>current_handle := None\<rparr>, e')"
  using inv laws
  by (auto simp: succeeded_current_def server_inv_def handle_laws_def goal_active_iff split: option.splits)

lemma terminate_pending_inv:
  assumes laws: "handle_laws H" and inv: "server_inv H (s, e)"
  shows "\<exists>e'. terminate_pending H (s, e) = (s\<lparr>pending_handle := None\<rparr>, e') \<and>
    server_inv H (s\<lparr>pending_handle := None, preempt_requested := False\<rparr>, e')"
  using inv laws
  by (auto simp: terminate_pending_def terminate_handle_def server_inv_def handle_laws_def goal_active_iff
      split: option.splits)

lemma accept_pending_inv:
  assumes laws: "handle_laws H" and inv: "server_inv H (s, e)" and pending: "pending_handle s = Some g"
  shows "\<exists>e'. accept_pending_goal H (s, e) =
      (Some g, s\<lparr>current_handle := Some g, pending_handle := None, preempt_requested := False\<rparr>, e') \<and>
    server_inv H (s\<lparr>current_handle := Some g, pending_handle := None, preempt_requested := False\<rparr>, e') \<and>
    active_goals H e' = {g}"
proof -
  have "is_active H (pending_handle s) e" using inv_active [OF inv] pending by simp
  then show ?thesis
    using pending inv laws
    by (cases "current_handle s")
      (auto simp: accept_pending_goal_def server_inv_def handle_laws_def goal_active_iff)
qed

lemma terminate_all_inv:
  assumes laws: "handle_laws H" and inv: "server_inv H (s, e)"
  shows "\<exists>e'. terminate_all H (s, e) =
      (s\<lparr>current_handle := None, pending_handle := None, preempt_requested := False\<rparr>, e') \<and>
    server_inv H (s\<lparr>current_handle := None, pending_handle := None, preempt_requested := False\<rparr>, e')"
proof -
  obtain e1 where e1: "terminate_current H (s, e) = (s\<lparr>current_handle := None\<rparr>, e1)"
      "server_inv H (s\<lparr>current_handle := None\<rparr>, e1)"
    using terminate_current_inv [OF assms] by blast
  show ?thesis
    using terminate_pending_inv [OF laws e1(2)] e1(1) by (auto simp: terminate_all_def)
qed

text \<open>Members that are not handles do not matter to the invariant.\<close>

lemma server_inv_cong [simp]:
  "server_inv H (s\<lparr>execution_future := f\<rparr>, e) = server_inv H (s, e)"
  "server_inv H (s\<lparr>completions := n\<rparr>, e) = server_inv H (s, e)"
  "server_inv H (s\<lparr>deactivating := d\<rparr>, e) = server_inv H (s, e)"
  "server_inv H (s\<lparr>server_active := a, stop_execution := b\<rparr>, e) = server_inv H (s, e)"
  by (simp_all add: server_inv_def)

lemma call_completion_inv: "call_completion s = Some s' \<Longrightarrow> server_inv H (s', e) = server_inv H (s, e)"
  by (auto simp: call_completion_def split: if_splits)

lemma call_completion_handles:
  "call_completion s = Some s' \<Longrightarrow> current_handle s' = current_handle s \<and> pending_handle s' = pending_handle s \<and>
    execution_future s' = execution_future s \<and> stop_execution s' = stop_execution s"
  by (auto simp: call_completion_def split: if_splits)

lemma work_catch_inv:
  assumes "handle_laws H" and "server_inv H (s, e)"
  shows "server_inv H (work_catch H (s, e))"
  using terminate_all_inv [OF assms] by (auto simp: work_catch_def call_completion_inv split: option.split)

lemma work_next_inv:
  assumes "handle_laws H" and "server_inv H (s, e)"
  shows "server_inv H (work_next H (s, e))"
proof (cases "pending_handle s")
  case None
  then show ?thesis using assms inv_active [OF assms(2)] by (simp add: work_next_def)
next
  case (Some g)
  then show ?thesis
    using accept_pending_inv [OF assms Some] inv_active [OF assms(2)] by (auto simp: work_next_def)
qed

lemma work_after_inv:
  assumes "handle_laws H" and "server_inv H (s, e)"
  shows "server_inv H (work_after H (s, e))"
proof -
  obtain e' where "terminate_current H (s, e) = (s\<lparr>current_handle := None\<rparr>, e')"
      "server_inv H (s\<lparr>current_handle := None\<rparr>, e')"
    using terminate_current_inv [OF assms] by blast
  then show ?thesis
    using work_catch_inv [OF assms] work_next_inv [OF assms] work_next_inv [OF assms(1)]
    by (auto simp: work_after_def call_completion_inv split: option.split)
qed

lemma handle_accepted_inv:
  assumes "handle_laws H" and "server_inv H (s, e)" and "g \<notin> active_goals H e"
    and "active_goals H e' = insert g (active_goals H e)"
  shows "server_inv H (handle_accepted H g (s, e'))"
proof -
  have a: "is_active H (current_handle s) e' \<longleftrightarrow> current_handle s \<noteq> None"
    "is_active H (pending_handle s) e' \<longleftrightarrow> pending_handle s \<noteq> None"
    using assms by (auto simp: is_active_iff server_inv_def)
  have "g \<notin> set_option (current_handle s) \<union> set_option (pending_handle s)"
    using assms(2,3) by (auto simp: server_inv_def)
  then show ?thesis
    using assms a
    by (cases "pending_handle s"; cases "current_handle s"; cases "is_running s")
      (auto simp: handle_accepted_def terminate_pending_def terminate_handle_def server_inv_def
        handle_laws_def goal_active_iff split: if_splits)
qed

section \<open>Runs\<close>

lemma server_step_inv:
  assumes "server_step H s s'" and laws: "handle_laws H" and inv: "server_inv H s"
  shows "server_inv H s'"
  using assms(1)
proof (cases rule: server_step.cases)
  case (step_accepted g e e' s0)
  have "active_goals H e' = insert g (active_goals H e)" "g \<notin> active_goals H e"
    using step_accepted(3,4,5) by (auto simp: active_goals_def) metis+
  then show ?thesis using handle_accepted_inv [OF laws] inv step_accepted by simp
next
  case (step_cancel e' e s0)
  then have "active_goals H e' = active_goals H e" by (simp add: active_goals_def)
  then show ?thesis using inv step_cancel by (simp add: server_inv_def)
next
  case (step_test ok)
  then show ?thesis using inv by (cases s) (simp add: work_test_def)
next
  case step_succeed
  then show ?thesis using succeeded_current_inv [OF laws, of "fst s" "snd s"] inv by auto
next
  case step_terminate_current
  then show ?thesis using terminate_current_inv [OF laws, of "fst s" "snd s"] inv by auto
next
  case step_terminate_pending
  then show ?thesis
    using terminate_pending_inv [OF laws, of "fst s" "snd s"] inv by (auto simp: terminate_pending_goal_def)
next
  case step_terminate_all
  then show ?thesis using terminate_all_inv [OF laws, of "fst s" "snd s"] inv by auto
next
  case step_accept_pending
  then show ?thesis
    using accept_pending_inv [OF laws, of "fst s" "snd s"] inv inv_active [of H "fst s" "snd s"]
    by (cases "pending_handle (fst s)") (auto simp: accept_pending_goal_def split_beta)
next
  case step_thrown
  then show ?thesis using work_catch_inv [OF laws, of "fst s" "snd s"] inv by simp
next
  case step_after
  then show ?thesis using work_after_inv [OF laws, of "fst s" "snd s"] inv by simp
next
  case step_overdue
  then show ?thesis
    using terminate_all_inv [OF laws, of "fst s" "snd s"] inv
    by (auto simp: deactivate_overdue_def call_completion_inv split: option.split)
qed (use inv in \<open>auto simp: activate_def deactivate_request_def deactivate_return_def server_inv_def\<close>)

lemma server_run_inv:
  assumes "server_run H s s'" and "handle_laws H" and "server_inv H s"
  shows "server_inv H s'"
  using assms by (induction rule: server_run.induct) (auto intro: server_step_inv)

lemma server_run_trans:
  assumes "server_run H s' s''" and "server_run H s s'"
  shows "server_run H s s''"
  using assms by (induction rule: server_run.induct) (auto intro: run_step)

lemma initial_server_inv: "active_goals H e = {} \<Longrightarrow> server_inv H (SimpleActionServer c, e)"
  by (simp add: server_inv_def SimpleActionServer_def)

text \<open>No thread and an active current goal: nothing starts a thread any more.\<close>

definition wedged :: "'e goal_handles \<Rightarrow> goal \<Rightarrow> server \<times> 'e \<Rightarrow> bool" where
  "wedged H g s \<longleftrightarrow> execution_future (fst s) = Some finished \<and> current_handle (fst s) = Some g \<and> server_inv H s"

lemma wedged_step:
  assumes "server_step H s s'" and "handle_laws H" and "wedged H g s"
  shows "wedged H g s'"
proof -
  have "server_inv H s'" using server_step_inv [OF assms(1,2)] assms(3) by (simp add: wedged_def)
  moreover have "execution_future (fst s') = Some finished \<and> current_handle (fst s') = Some g"
    using assms(1)
  proof (cases rule: server_step.cases)
    case (step_accepted g' e e' s0)
    have "goal_active H g e"
      using assms(3) step_accepted(1) by (auto simp: wedged_def server_inv_def active_goals_def)
    then have "is_active H (current_handle s0) e'"
      using step_accepted assms(3) by (auto simp: wedged_def is_active_def)
    then show ?thesis
      using step_accepted assms(3)
      by (auto simp: wedged_def handle_accepted_def terminate_pending_def split_beta)
  qed (use assms(3) in \<open>auto simp: wedged_def is_running_def activate_def deactivate_request_def
      deactivate_return_def\<close>)
  ultimately show ?thesis by (simp add: wedged_def)
qed

lemma wedged_run:
  assumes "server_run H s s'" and "handle_laws H" and "wedged H g s"
  shows "wedged H g s'"
  using assms by (induction rule: server_run.induct) (auto intro: wedged_step)

text \<open>No thread and only a pending goal: the next goal that arrives ends it.\<close>

definition missed :: "'e goal_handles \<Rightarrow> goal \<Rightarrow> server \<times> 'e \<Rightarrow> bool" where
  "missed H g s \<longleftrightarrow> execution_future (fst s) = Some finished \<and> current_handle (fst s) = None \<and>
     pending_handle (fst s) = Some g \<and> server_inv H s"

lemma missed_step:
  assumes "server_step H s s'" and laws: "handle_laws H" and "missed H g s"
  shows "missed H g s' \<or> g \<notin> active_goals H (snd s')"
proof -
  have inv: "server_inv H s'" using server_step_inv [OF assms(1,2)] assms(3) by (simp add: missed_def)
  show ?thesis
    using assms(1)
  proof (cases rule: server_step.cases)
    case (step_accepted g' e e' s0)
    have "goal_active H g e" "g' \<noteq> g"
      using assms(3) step_accepted by (auto simp: missed_def server_inv_def active_goals_def)
    then have "goal_active H g e'" using step_accepted by auto
    then have "current_handle (fst s') = Some g' \<and> pending_handle (fst s') = None"
      using step_accepted assms(3)
      by (simp add: missed_def handle_accepted_def is_active_def is_running_def terminate_pending_def
          terminate_handle_def)
    then show ?thesis using inv \<open>g' \<noteq> g\<close> by (simp add: server_inv_def)
  qed (use assms(3) inv in \<open>auto simp: missed_def is_running_def activate_def deactivate_request_def
      deactivate_return_def\<close>)
qed

section \<open>Properties\<close>

text \<open>Goals that are active until they are finished, as an example of handles.\<close>

definition plain_handles :: "goal set goal_handles" where
  "plain_handles = \<lparr>goal_active = (\<lambda>g e. g \<in> e), goal_canceling = (\<lambda>g e. False), goal_abort = (\<lambda>g e. e - {g}),
     goal_canceled = (\<lambda>g e. e - {g}), goal_succeed = (\<lambda>g e. e - {g})\<rparr>"

lemma plain_handles_laws: "handle_laws plain_handles"
  by (auto simp: handle_laws_def plain_handles_def active_goals_def)

text \<open>C11: however goals, cancellations, the worker thread, its callback and activations interleave,
  the goals that are active are exactly those in the current and the pending slot (so at most two,
  and none is lost), the slots never share a goal, and a preemption is requested exactly while
  there is a pending goal.\<close>

theorem goals_held:
  assumes "handle_laws H" and "active_goals H e0 = {}"
    and "server_run H (SimpleActionServer callback, e0) (s, e)"
  shows "{g. goal_active H g e} = set_option (current_handle s) \<union> set_option (pending_handle s) \<and>
    set_option (current_handle s) \<inter> set_option (pending_handle s) = {} \<and>
    (is_preempt_requested s \<longleftrightarrow> get_pending_goal H (s, e) \<noteq> None)"
  using server_run_inv [OF assms(3,1) initial_server_inv [OF assms(2)]]
  by (auto simp: server_inv_def active_goals_def is_preempt_requested_def get_pending_goal_def is_active_def)

theorem goals_held_witness:
  "\<exists>s e. server_run plain_handles (SimpleActionServer True, {}) (s, e) \<and> e = {7} \<and>
    {g. goal_active plain_handles g e} = set_option (current_handle s) \<union> set_option (pending_handle s)"
proof -
  have "server_step plain_handles (SimpleActionServer True, {}) (handle_accepted plain_handles 7 (SimpleActionServer True, {7}))"
    by (rule step_accepted) (auto simp: plain_handles_def SimpleActionServer_def)
  moreover obtain s where s: "handle_accepted plain_handles 7 (SimpleActionServer True, {7}) = (s, {7})"
    by (simp add: handle_accepted_def SimpleActionServer_def is_active_def is_running_def)
  ultimately have "server_run plain_handles (SimpleActionServer True, {}) (s, {7})"
    using run_step [OF run_refl] by metis
  moreover have "active_goals plain_handles {} = {}" by (simp add: active_goals_def plain_handles_def)
  ultimately show ?thesis using goals_held [OF plain_handles_laws] by blast
qed

text \<open>When the callback returns in a server that is not stopped, the worker finishes the goal it
  served and takes over the pending goal, which becomes the only active one; with nothing pending
  no goal is active any more and the worker leaves its loop.\<close>

theorem work_hands_over:
  assumes "handle_laws H" and "active_goals H e0 = {}"
    and "server_run H (SimpleActionServer callback, e0) (s, e)"
    and "\<not> stop_execution s" and "completion_callback s"
    and "work_after H (s, e) = (s', e')"
  shows "current_handle s' = pending_handle s \<and> pending_handle s' = None \<and> \<not> preempt_requested s' \<and>
    {g. goal_active H g e'} = set_option (pending_handle s) \<and>
    execution_future s' = Some (if pending_handle s = None then returning else loop_test) \<and>
    completions s' = completions s + (if current_handle s = None then 0 else 1)"
proof -
  have inv: "server_inv H (s, e)"
    by (rule server_run_inv [OF assms(3,1) initial_server_inv [OF assms(2)]])
  obtain s1 e1 where s1: "work_after H (s, e) = work_next H (s1, e1)" "server_inv H (s1, e1)"
    "current_handle s1 = None" "pending_handle s1 = pending_handle s"
    "completions s1 = completions s + (if current_handle s = None then 0 else 1)"
  proof (cases "current_handle s")
    case None
    then show ?thesis
      using that [of s e] inv inv_active [OF inv] assms(4) by (simp add: work_after_def)
  next
    case (Some g)
    obtain e1 where "terminate_current H (s, e) = (s\<lparr>current_handle := None\<rparr>, e1)"
        "server_inv H (s\<lparr>current_handle := None\<rparr>, e1)"
      using terminate_current_inv [OF assms(1) inv] by blast
    then show ?thesis
      using that [of "s\<lparr>current_handle := None, completions := completions s + 1\<rparr>" e1] inv_active [OF inv]
        assms(4,5) Some by (simp add: work_after_def call_completion_def)
  qed
  have pre: "\<not> is_active H (pending_handle s1) e1 \<longleftrightarrow> pending_handle s = None"
    using inv_active [OF s1(2)] s1(4) by simp
  show ?thesis
  proof (cases "pending_handle s")
    case None
    then show ?thesis
      using assms(6) s1 pre by (auto simp: work_next_def server_inv_def active_goals_def)
  next
    case (Some g)
    then obtain e2 where e2: "accept_pending_goal H (s1, e1) =
        (Some g, s1\<lparr>current_handle := Some g, pending_handle := None, preempt_requested := False\<rparr>, e2)"
      "active_goals H e2 = {g}"
      using accept_pending_inv [OF assms(1) s1(2)] s1(4) by auto
    then have "s' = s1\<lparr>current_handle := Some g, pending_handle := None, preempt_requested := False,
        execution_future := Some loop_test\<rparr> \<and> e' = e2"
      using assms(6) s1(1,4) pre Some by (simp add: work_next_def)
    then show ?thesis using Some e2(2) s1(5) by (simp add: active_goals_def)
  qed
qed

theorem work_hands_over_witness:
  "\<exists>s e s' e'. work_after plain_handles (s, e) = (s', e') \<and> current_handle s = Some 7 \<and> current_handle s' = Some 8 \<and>
    {g. goal_active plain_handles g e'} = {8} \<and> execution_future s' = Some loop_test"
proof -
  let ?s0 = "activate (SimpleActionServer True)"
  let ?s1 = "?s0\<lparr>current_handle := Some 7, execution_future := Some loop_test\<rparr>"
  let ?s2 = "?s1\<lparr>pending_handle := Some 8, preempt_requested := True\<rparr>"
  note eval = plain_handles_def SimpleActionServer_def activate_def is_active_def is_running_def handle_accepted_def work_test_def
  have steps: "server_step plain_handles (SimpleActionServer True, {}) (?s0, {})"
      "server_step plain_handles (?s0, {}) (?s1, {7})"
      "server_step plain_handles (?s1, {7}) (?s2, {7, 8})"
      "server_step plain_handles (?s2, {7, 8}) (?s2\<lparr>execution_future := Some executing\<rparr>, {7, 8})"
      "server_step plain_handles (?s2\<lparr>execution_future := Some executing\<rparr>, {7, 8})
        (?s2\<lparr>execution_future := Some executed\<rparr>, {7, 8})"
    using step_activate [of plain_handles "SimpleActionServer True" "{}"]
      step_accepted [of plain_handles 7 "{}" "{7}" ?s0] step_accepted [of plain_handles 8 "{7}" "{7, 8}" ?s1]
      step_test [of "(?s2, {7, 8})" plain_handles True]
      step_executed [of "?s2\<lparr>execution_future := Some executing\<rparr>" plain_handles "{7, 8}"]
    by (simp_all add: eval)
  have run: "server_run plain_handles (SimpleActionServer True, {}) (?s2\<lparr>execution_future := Some executed\<rparr>, {7, 8})"
    by (rule run_step [OF run_step [OF run_step [OF run_step [OF run_step [OF run_refl]]]]], (rule steps)+)
  obtain s' e' where after: "work_after plain_handles (?s2\<lparr>execution_future := Some executed\<rparr>, {7, 8}) = (s', e')"
    by fastforce
  have "active_goals plain_handles {} = {}" by (simp add: active_goals_def plain_handles_def)
  from work_hands_over [OF plain_handles_laws this run _ _ after] after show ?thesis
    by (intro exI conjI) (auto simp: activate_def SimpleActionServer_def)
qed

text \<open>C38: a stop request that reaches the worker between two goals leaves the goal it was about to
  start active and held for ever: after \<open>deactivate\<close> has returned and the server is activated
  again, every further goal is put into the pending slot and no callback is ever executed.\<close>

theorem stop_between_goals_wedges:
  assumes "handle_laws H" and "active_goals H e0 = {}"
    and "server_run H (SimpleActionServer callback, e0) (s, e)"
    and "execution_future s = Some loop_test" and "current_handle s = Some g"
  shows "\<exists>s'. server_run H (s, e) (s', e) \<and> is_server_active s' \<and> \<not> stop_execution s' \<and> \<not> deactivating s' \<and>
    (\<forall>t d. server_run H (s', e) (t, d) \<longrightarrow>
      execution_future t = Some finished \<and> current_handle t = Some g \<and> goal_active H g d)"
proof -
  have inv: "server_inv H (s, e)"
    by (rule server_run_inv [OF assms(3,1) initial_server_inv [OF assms(2)]])
  let ?s1 = "deactivate_request s"
  let ?s2 = "?s1\<lparr>execution_future := Some returning\<rparr>"
  let ?s3 = "?s1\<lparr>execution_future := Some finished\<rparr>"
  let ?s' = "activate (deactivate_return ?s3)"
  have "server_step H (s, e) (?s1, e)" by (rule step_deactivate)
  moreover have "server_step H (?s1, e) (?s2, e)"
    using step_test [of "(?s1, e)" H True] assms(4) by (simp add: work_test_def deactivate_request_def)
  moreover have "server_step H (?s2, e) (?s3, e)"
    using step_returned [of ?s2 H e] by simp
  moreover have "server_step H (?s3, e) (deactivate_return ?s3, e)"
    using step_deactivated [of ?s3 H e] assms(4) by (simp add: deactivate_request_def is_running_def)
  moreover have "server_step H (deactivate_return ?s3, e) (?s', e)" by (rule step_activate)
  ultimately have run: "server_run H (s, e) (?s', e)" by (meson run_refl run_step)
  have "wedged H g (?s', e)"
    using server_run_inv [OF run assms(1) inv] assms(5)
    by (simp add: wedged_def activate_def deactivate_return_def deactivate_request_def)
  then have "wedged H g t" if "server_run H (?s', e) t" for t
    using wedged_run [OF that assms(1)] by simp
  then have "\<forall>t d. server_run H (?s', e) (t, d) \<longrightarrow>
      execution_future t = Some finished \<and> current_handle t = Some g \<and> goal_active H g d"
    by (fastforce simp: wedged_def server_inv_def active_goals_def)
  moreover have "is_server_active ?s' \<and> \<not> stop_execution ?s' \<and> \<not> deactivating ?s'"
    by (simp add: activate_def deactivate_return_def is_server_active_def)
  ultimately show ?thesis using run by (intro exI [of _ ?s'] conjI) simp_all
qed

theorem stop_between_goals_wedges_witness:
  "\<exists>s s'. server_run plain_handles (SimpleActionServer True, {}) (s, {7}) \<and>
    server_run plain_handles (s, {7}) (s', {7}) \<and> is_server_active s' \<and>
    (\<exists>t. server_run plain_handles (s', {7}) (t, {7}) \<and> execution_future t = Some finished \<and> current_handle t = Some 7)"
proof -
  let ?s = "(SimpleActionServer True)\<lparr>current_handle := Some 7, execution_future := Some loop_test\<rparr>"
  have "server_step plain_handles (SimpleActionServer True, {}) (?s, {7})"
    using step_accepted [of plain_handles 7 "{}" "{7}" "SimpleActionServer True"]
    by (simp add: plain_handles_def SimpleActionServer_def is_active_def is_running_def handle_accepted_def)
  then have run: "server_run plain_handles (SimpleActionServer True, {}) (?s, {7})"
    by (rule run_step [OF run_refl])
  have "active_goals plain_handles {} = {}" by (simp add: active_goals_def plain_handles_def)
  from stop_between_goals_wedges [OF plain_handles_laws this run, of 7] obtain s' where
    s': "server_run plain_handles (?s, {7}) (s', {7})" "is_server_active s'"
      "\<forall>t d. server_run plain_handles (s', {7}) (t, d) \<longrightarrow>
        execution_future t = Some finished \<and> current_handle t = Some 7 \<and> goal_active plain_handles 7 d"
    by auto
  show ?thesis
    by (intro exI conjI, rule run, rule s'(1), rule s'(2), rule run_refl)
      (use s'(3) run_refl [of plain_handles] in blast)+
qed

text \<open>A goal accepted between the worker's last look at the pending slot and the end of its
  thread goes to the pending slot although nobody will look there again: the thread ends, the goal
  stays active without being executed, and the next goal that is accepted ends it unserved.\<close>

theorem goal_missed_by_worker:
  assumes "handle_laws H" and "active_goals H e0 = {}"
    and "server_run H (SimpleActionServer callback, e0) (s, e)"
    and "execution_future s = Some returning" and "current_handle s = None" and "pending_handle s = None"
    and "active_goals H e' = insert g (active_goals H e)"
  shows "\<exists>s'. server_run H (s, e) (s', e') \<and> execution_future s' = Some finished \<and>
    current_handle s' = None \<and> pending_handle s' = Some g \<and>
    (\<forall>t d. server_step H (s', e') (t, d) \<longrightarrow>
      (execution_future t = Some finished \<and> current_handle t = None \<and> pending_handle t = Some g) \<or>
      \<not> goal_active H g d)"
proof -
  have inv: "server_inv H (s, e)"
    by (rule server_run_inv [OF assms(3,1) initial_server_inv [OF assms(2)]])
  let ?s1 = "s\<lparr>pending_handle := Some g, preempt_requested := True\<rparr>"
  let ?s' = "?s1\<lparr>execution_future := Some finished\<rparr>"
  have none: "active_goals H e = {}" using inv assms(5,6) by (simp add: server_inv_def)
  have "handle_accepted H g (s, e') = (?s1, e')"
    using assms(4-6) by (simp add: handle_accepted_def is_active_def is_running_def)
  then have "server_step H (s, e) (?s1, e')"
    using step_accepted [of H g e e' s] assms(5,6,7) none by (auto simp: active_goals_def)
  moreover have "server_step H (?s1, e') (?s', e')"
    using step_returned [of ?s1 H e'] assms(4) by simp
  ultimately have run: "server_run H (s, e) (?s', e')" by (meson run_refl run_step)
  have m: "missed H g (?s', e')"
    using server_run_inv [OF run assms(1) inv] assms(5) by (simp add: missed_def)
  have "(execution_future t = Some finished \<and> current_handle t = None \<and> pending_handle t = Some g) \<or> \<not> goal_active H g d"
    if "server_step H (?s', e') (t, d)" for t d
    using missed_step [OF that assms(1) m] by (auto simp: missed_def active_goals_def)
  then show ?thesis using run assms(5) by (intro exI [of _ ?s'] conjI) simp_all
qed

theorem goal_missed_by_worker_witness:
  "\<exists>s s'. server_run plain_handles (SimpleActionServer True, {}) (s, {}) \<and> execution_future s = Some returning \<and>
    server_run plain_handles (s, {}) (s', {8}) \<and> execution_future s' = Some finished \<and> pending_handle s' = Some 8"
proof -
  let ?s0 = "SimpleActionServer True"
  let ?s1 = "?s0\<lparr>current_handle := Some 7, execution_future := Some loop_test\<rparr>"
  let ?s2 = "?s0\<lparr>current_handle := Some 7, execution_future := Some executing\<rparr>"
  let ?s3 = "?s0\<lparr>current_handle := None, execution_future := Some executing\<rparr>"
  let ?s4 = "?s0\<lparr>current_handle := None, execution_future := Some executed\<rparr>"
  let ?s5 = "?s0\<lparr>current_handle := None, execution_future := Some returning\<rparr>"
  note eval = plain_handles_def SimpleActionServer_def is_active_def is_running_def handle_accepted_def
    work_test_def work_after_def work_next_def succeeded_current_def
  have steps: "server_step plain_handles (?s0, {}) (?s1, {7})" "server_step plain_handles (?s1, {7}) (?s2, {7})"
      "server_step plain_handles (?s2, {7}) (?s3, {})" "server_step plain_handles (?s3, {}) (?s4, {})"
      "server_step plain_handles (?s4, {}) (?s5, {})"
    using step_accepted [of plain_handles 7 "{}" "{7}" ?s0] step_test [of "(?s1, {7})" plain_handles True]
      step_succeed [of "(?s2, {7})" plain_handles] step_executed [of ?s3 plain_handles "{}"]
      step_after [of "(?s4, {})" plain_handles]
    by (simp_all add: eval)
  have run: "server_run plain_handles (?s0, {}) (?s5, {})"
    by (rule run_step [OF run_step [OF run_step [OF run_step [OF run_step [OF run_refl]]]]], (rule steps)+)
  have "active_goals plain_handles {} = {}" "active_goals plain_handles {8} = insert 8 (active_goals plain_handles {})"
    by (simp_all add: active_goals_def plain_handles_def)
  then show ?thesis
    using goal_missed_by_worker [OF plain_handles_laws _ run, of "{8}" 8] run
    by (fastforce simp: SimpleActionServer_def)
qed

end
