(* ===== verification/Denoise_Image.thy ===== *)
theory Denoise_Image
  imports Prelude Costmap_Grid
begin

text \<open>
  The denoise layer of the costmap: images as views of memory blocks, the two-scan labelling of
  connected components with its union-find structure, dilation, and the layer
  (\<open>nav2_costmap_2d/denoise/image.hpp\<close>, \<open>denoise/image_processing.hpp\<close>,
  \<open>plugins/denoise_layer.cpp\<close>). Undefined behaviour is \<open>None\<close>. Labels are numbers: no label passes
  \<open>labels_size_\<close>, which fits the label type, so that none of their operations wraps around.
\<close>

section \<open>Images\<close>

text \<open>An image refers to a memory block: \<open>data_start_\<close> is an index into it.\<close>

record view =
  img_start :: nat
  img_rows :: nat
  img_columns :: nat
  img_step :: nat

definition img_empty :: "view \<Rightarrow> bool" where
  "img_empty v \<longleftrightarrow> img_rows v = 0 \<or> img_columns v = 0"

definition image_row :: "view \<Rightarrow> nat \<Rightarrow> nat" where
  "image_row v row = img_start v + row * img_step v"

text \<open>The pixels of an image in the order in which \<open>forEach\<close> and \<open>convert\<close> visit them.\<close>

definition image_pixels :: "view \<Rightarrow> (nat \<times> nat) list" where
  "image_pixels v = concat (map (\<lambda>row. map (\<lambda>column. (row, column)) [0..<img_columns v]) [0..<img_rows v])"

definition pointer :: "view \<Rightarrow> nat \<times> nat \<Rightarrow> nat" where
  "pointer v p = image_row v (fst p) + snd p"

definition forEach :: "view \<Rightarrow> (nat \<Rightarrow> 's \<Rightarrow> 's option) \<Rightarrow> 's \<Rightarrow> 's option" where
  "forEach v f s = visit_all (\<lambda>p. f (pointer v p)) (image_pixels v) s"

datatype logic_error = SizesDiffer | WrongShape

definition convert ::
  "view \<Rightarrow> 'a list \<Rightarrow> view \<Rightarrow> ('a \<Rightarrow> 'b \<Rightarrow> 'b option) \<Rightarrow> 'b list \<Rightarrow> (logic_error + 'b list) option" where
  "convert v mem target converter tmem =
     (if img_rows v \<noteq> img_rows target \<or> img_columns v \<noteq> img_columns target then Some (Inl SizesDiffer)
      else map_option Inr
        (visit_all (\<lambda>p tmem. do {
             src \<leftarrow> mem_at mem (pointer v p);
             trg \<leftarrow> mem_at tmem (pointer target p);
             trg \<leftarrow> converter src trg;
             write_at tmem (pointer target p) trg
           }) (image_pixels v) tmem))"

text \<open>\<open>MemoryBuffer::get\<close>: an array of \<open>count\<close> elements holding what the memory held.\<close>

definition buffer_get :: "(nat \<Rightarrow> 'a) \<Rightarrow> nat \<Rightarrow> 'a list" where
  "buffer_get junk count = map junk [0..<count]"

definition buffer_view :: "nat \<Rightarrow> nat \<Rightarrow> view" where
  "buffer_view rows columns = \<lparr>img_start = 0, img_rows = rows, img_columns = columns, img_step = columns\<rparr>"

section \<open>Windows\<close>

datatype connectivity = Way4 | Way8

text \<open>
  A window stands at a pixel of the lower of two rows; the upper row may be missing (a null
  pointer). \<open>ReplaceToZero\<close> reads 0 outside the rows, \<open>DoNothing\<close> dereferences the pointer.
\<close>

datatype border = DoNothing | ReplaceToZero

record scan_window =
  win_border :: border
  win_up :: "nat option"
  win_down :: nat
  win_column :: nat

definition border_up :: "scan_window \<Rightarrow> view \<Rightarrow> 'a::zero list \<Rightarrow> int \<Rightarrow> 'a option" where
  "border_up w v mem column =
     (case win_up w of
        None \<Rightarrow> (case win_border w of DoNothing \<Rightarrow> None | ReplaceToZero \<Rightarrow> Some 0)
      | Some row \<Rightarrow>
          if win_border w = ReplaceToZero \<and> (column < 0 \<or> column \<ge> int (img_columns v)) then Some 0
          else deref mem (int (image_row v row) + column))"

definition border_down :: "scan_window \<Rightarrow> view \<Rightarrow> 'a::zero list \<Rightarrow> int \<Rightarrow> 'a option" where
  "border_down w v mem column =
     (if win_border w = ReplaceToZero \<and> (column < 0 \<or> column \<ge> int (img_columns v)) then Some 0
      else deref mem (int (image_row v (win_down w)) + column))"

definition win_a :: "scan_window \<Rightarrow> view \<Rightarrow> 'a::zero list \<Rightarrow> 'a option" where
  "win_a w v mem = border_up w v mem (int (win_column w) - 1)"

definition win_b :: "scan_window \<Rightarrow> view \<Rightarrow> 'a::zero list \<Rightarrow> 'a option" where
  "win_b w v mem = border_up w v mem (int (win_column w))"

definition win_c :: "scan_window \<Rightarrow> view \<Rightarrow> 'a::zero list \<Rightarrow> 'a option" where
  "win_c w v mem = border_up w v mem (int (win_column w) + 1)"

definition win_d :: "scan_window \<Rightarrow> view \<Rightarrow> 'a::zero list \<Rightarrow> 'a option" where
  "win_d w v mem = border_down w v mem (int (win_column w) - 1)"

definition win_anchor :: "scan_window \<Rightarrow> view \<Rightarrow> nat" where
  "win_anchor w v = image_row v (win_down w) + win_column w"

section \<open>The union-find structure\<close>

record label_trees =
  eq_labels :: "nat list"
  labels_size :: nat
  next_free :: nat

text \<open>\<open>std::numeric_limits<Label>::max()\<close> of the two label types.\<close>

datatype label_type = Label16 | Label32

fun label_max :: "label_type \<Rightarrow> nat" where
  "label_max Label16 = 2 ^ 16 - 1"
| "label_max Label32 = 2 ^ 32 - 1"

definition maxLabels :: "label_type \<Rightarrow> nat \<Rightarrow> nat \<Rightarrow> connectivity \<Rightarrow> nat" where
  "maxLabels lt rows columns conn =
     min ((if conn = Way4 then rows * columns div 2 + 1 else rows * columns div 3 + 1) + 1) (label_max lt)"

definition reset_trees :: "label_type \<Rightarrow> nat \<Rightarrow> nat \<Rightarrow> connectivity \<Rightarrow> label_trees" where
  "reset_trees lt rows columns conn =
     \<lparr>eq_labels = [0], labels_size = min (maxLabels lt rows columns conn) (label_max lt), next_free = 1\<rparr>"

datatype label_overflow = LabelOverflow

definition makeLabel :: "label_trees \<Rightarrow> label_overflow + nat \<times> label_trees" where
  "makeLabel t =
     (if next_free t = labels_size t then Inl LabelOverflow
      else Inr (next_free t, t\<lparr>eq_labels := eq_labels t @ [next_free t], next_free := next_free t + 1\<rparr>))"

function findRoot :: "nat list \<Rightarrow> nat \<Rightarrow> nat option" where
  "findRoot ls rt =
     (case mem_at ls rt of
        None \<Rightarrow> None
      | Some parent \<Rightarrow> if parent < rt then findRoot ls parent else Some rt)"
  by pat_completeness auto
termination by (relation "measure snd") auto

function setRoot :: "nat list \<Rightarrow> nat \<Rightarrow> nat \<Rightarrow> nat list option" where
  "setRoot ls i rt =
     (case mem_at ls i of
        None \<Rightarrow> None
      | Some j \<Rightarrow> if j < i then setRoot (ls[i := rt]) j rt else Some (ls[i := rt]))"
  by pat_completeness auto
termination by (relation "measure (\<lambda>(ls, i, rt). i)") auto

declare findRoot.simps [simp del] setRoot.simps [simp del]

definition unionTrees :: "nat \<Rightarrow> nat \<Rightarrow> label_trees \<Rightarrow> (nat \<times> label_trees) option" where
  "unionTrees i j t = do {
     rt \<leftarrow> findRoot (eq_labels t) i;
     (rt, ls) \<leftarrow>
       (if i \<noteq> j then do {
          root_j \<leftarrow> findRoot (eq_labels t) j;
          ls \<leftarrow> setRoot (eq_labels t) j (min rt root_j);
          Some (min rt root_j, ls)
        } else Some (rt, eq_labels t));
     ls \<leftarrow> setRoot ls i rt;
     Some (rt, t\<lparr>eq_labels := ls\<rparr>)
   }"

text \<open>
  \<open>getLabels\<close>: the table and the size to which \<open>labels_\<close> is cut at the end. A vector keeps its
  storage when it shrinks and \<open>operator[]\<close> reads it unchecked, so the table is the whole storage.
\<close>

fun convert_labels :: "nat list \<Rightarrow> nat list \<Rightarrow> nat \<Rightarrow> (nat list \<times> nat) option" where
  "convert_labels [] ls k = Some (ls, k)"
| "convert_labels (i # is) ls k = do {
     li \<leftarrow> mem_at ls i;
     if li < i then do { x \<leftarrow> mem_at ls li; convert_labels is (ls[i := x]) k }
     else convert_labels is (ls[i := k]) (k + 1)
   }"

definition getLabels :: "label_trees \<Rightarrow> (nat list \<times> nat) option" where
  "getLabels t = convert_labels [1..<next_free t] (eq_labels t) 1"

section \<open>Labelling\<close>

text \<open>\<open>ProcessPixel<connectivity>::pass\<close>: the label of the current pixel.\<close>

definition pass8 ::
  "(u8 \<Rightarrow> bool) \<Rightarrow> scan_window \<Rightarrow> view \<Rightarrow> u8 list \<Rightarrow> scan_window \<Rightarrow> view \<Rightarrow> nat list \<Rightarrow> label_trees
    \<Rightarrow> (label_overflow + nat \<times> label_trees) option" where
  "pass8 is_bg iw v mem lw lv lmem t = do {
     e \<leftarrow> mem_at mem (win_anchor iw v);
     if is_bg e then Some (Inr (0, t)) else do {
       lb \<leftarrow> win_b lw lv lmem;
       if lb \<noteq> 0 then Some (Inr (lb, t)) else do {
         c \<leftarrow> win_c iw v mem;
         if \<not> is_bg c then do {
           a \<leftarrow> win_a iw v mem;
           if \<not> is_bg a then do {
             lc \<leftarrow> win_c lw lv lmem; la \<leftarrow> win_a lw lv lmem; map_option Inr (unionTrees lc la t)
           } else do {
             d \<leftarrow> win_d iw v mem;
             if \<not> is_bg d then do {
               lc \<leftarrow> win_c lw lv lmem; ld \<leftarrow> win_d lw lv lmem; map_option Inr (unionTrees lc ld t)
             } else do { lc \<leftarrow> win_c lw lv lmem; Some (Inr (lc, t)) }
           }
         } else do {
           a \<leftarrow> win_a iw v mem;
           if \<not> is_bg a then do { la \<leftarrow> win_a lw lv lmem; Some (Inr (la, t)) }
           else do {
             d \<leftarrow> win_d iw v mem;
             if \<not> is_bg d then do { ld \<leftarrow> win_d lw lv lmem; Some (Inr (ld, t)) }
             else Some (makeLabel t)
           }
         }
       }
     }
   }"

definition pass4 ::
  "(u8 \<Rightarrow> bool) \<Rightarrow> scan_window \<Rightarrow> view \<Rightarrow> u8 list \<Rightarrow> scan_window \<Rightarrow> view \<Rightarrow> nat list \<Rightarrow> label_trees
    \<Rightarrow> (label_overflow + nat \<times> label_trees) option" where
  "pass4 is_bg iw v mem lw lv lmem t = do {
     e \<leftarrow> mem_at mem (win_anchor iw v);
     if is_bg e then Some (Inr (0, t)) else do {
       b \<leftarrow> win_b iw v mem;
       d \<leftarrow> win_d iw v mem;
       if \<not> is_bg b then
         if \<not> is_bg d then do {
           ld \<leftarrow> win_d lw lv lmem; lb \<leftarrow> win_b lw lv lmem; map_option Inr (unionTrees ld lb t)
         } else do { lb \<leftarrow> win_b lw lv lmem; Some (Inr (lb, t)) }
       else if \<not> is_bg d then do { ld \<leftarrow> win_d lw lv lmem; Some (Inr (ld, t)) }
       else Some (makeLabel t)
     }
   }"

fun pass where
  "pass Way4 = pass4"
| "pass Way8 = pass8"

text \<open>The windows on the image and on the labels, in the order of the scan.\<close>

definition first_row_windows :: "nat \<Rightarrow> (scan_window \<times> scan_window) list" where
  "first_row_windows columns =
     map (\<lambda>column. let w = \<lparr>win_border = ReplaceToZero, win_up = None, win_down = 0, win_column = column\<rparr> in (w, w))
       [0..<columns]"

definition row_windows :: "nat \<Rightarrow> nat \<Rightarrow> (scan_window \<times> scan_window) list" where
  "row_windows columns row =
     (let w = \<lambda>b column. \<lparr>win_border = b, win_up = Some row, win_down = row + 1, win_column = column\<rparr>
      in (w ReplaceToZero 0, w DoNothing 0) #
         map (\<lambda>column. (w DoNothing column, w DoNothing column)) [1..<columns - 1] @
         (if columns > 1 then [(w ReplaceToZero (columns - 1), w ReplaceToZero (columns - 1))] else []))"

fun scan_windows ::
  "connectivity \<Rightarrow> (u8 \<Rightarrow> bool) \<Rightarrow> view \<Rightarrow> u8 list \<Rightarrow> view \<Rightarrow> (scan_window \<times> scan_window) list \<Rightarrow> nat list \<times> label_trees
    \<Rightarrow> (label_overflow + nat list \<times> label_trees) option" where
  "scan_windows conn is_bg v mem lv [] s = Some (Inr s)"
| "scan_windows conn is_bg v mem lv ((iw, lw) # ws) s =
     (case pass conn is_bg iw v mem lw lv (fst s) (snd s) of
        None \<Rightarrow> None
      | Some (Inl ex) \<Rightarrow> Some (Inl ex)
      | Some (Inr (l, t)) \<Rightarrow>
          (case write_at (fst s) (win_anchor lw lv) l of
             None \<Rightarrow> None
           | Some lmem \<Rightarrow> scan_windows conn is_bg v mem lv ws (lmem, t)))"

definition connectedComponentsImpl ::
  "connectivity \<Rightarrow> (u8 \<Rightarrow> bool) \<Rightarrow> view \<Rightarrow> u8 list \<Rightarrow> view \<Rightarrow> nat list \<Rightarrow> label_trees
    \<Rightarrow> (label_overflow + nat list \<times> nat) option" where
  "connectedComponentsImpl conn is_bg v mem lv lmem t =
     (case scan_windows conn is_bg v mem lv
         (first_row_windows (img_columns v) @ concat (map (row_windows (img_columns v)) [0..<img_rows v - 1])) (lmem, t) of
        None \<Rightarrow> None
      | Some (Inl ex) \<Rightarrow> Some (Inl ex)
      | Some (Inr (lmem, t)) \<Rightarrow> do {
          (table, count) \<leftarrow> getLabels t;
          lmem \<leftarrow> forEach lv (\<lambda>i lmem. do { l \<leftarrow> mem_at lmem i; x \<leftarrow> mem_at table l; write_at lmem i x }) lmem;
          Some (Inr (lmem, count))
        })"

definition connectedComponents ::
  "label_type \<Rightarrow> connectivity \<Rightarrow> (u8 \<Rightarrow> bool) \<Rightarrow> (nat \<Rightarrow> nat) \<Rightarrow> view \<Rightarrow> u8 list
    \<Rightarrow> (label_overflow + (view \<times> nat list) \<times> nat) option" where
  "connectedComponents lt conn is_bg junk v mem =
     (let pixels = img_rows v * img_columns v
      in if pixels = 0 then Some (Inr ((buffer_view 0 0, []), 0))
         else
           (let lv = buffer_view (img_rows v) (img_columns v)
            in case connectedComponentsImpl conn is_bg v mem lv (buffer_get junk pixels)
                   (reset_trees lt (img_rows v) (img_columns v) conn) of
                 None \<Rightarrow> None
               | Some (Inl ex) \<Rightarrow> Some (Inl ex)
               | Some (Inr (lmem, count)) \<Rightarrow> Some (Inr ((lv, lmem), count))))"

end
