(* ===== verification/Denoise_Labels.thy ===== *)
theory Denoise_Labels
  imports Denoise_Image
begin

text \<open>
  The union-find structure of the labelling: the forest invariant, the root of a label, what joining
  two trees and the final table do to the roots.
\<close>

section \<open>Roots\<close>

text \<open>Parents are never larger than their children, and only the background has label 0.\<close>

definition forest :: "nat list \<Rightarrow> bool" where
  "forest ls \<longleftrightarrow> 0 < length ls \<and> (\<forall>i < length ls. ls ! i \<le> i) \<and> (\<forall>i. 0 < i \<and> i < length ls \<longrightarrow> 0 < ls ! i)"

function rep :: "nat list \<Rightarrow> nat \<Rightarrow> nat" where
  "rep ls i = (if i < length ls \<and> ls ! i < i then rep ls (ls ! i) else i)"
  by pat_completeness auto
termination by (relation "measure snd") auto

declare rep.simps [simp del]

lemma rep_le: "rep ls i \<le> i"
proof (induction i rule: less_induct)
  case (less i)
  then show ?case by (subst rep.simps) (fastforce intro: le_trans less_imp_le)
qed

lemma rep_lt: "i < length ls \<Longrightarrow> rep ls i < length ls"
  using rep_le [of ls i] by simp

lemma rep_step: "i < length ls \<Longrightarrow> ls ! i < i \<Longrightarrow> rep ls i = rep ls (ls ! i)"
  by (simp add: rep.simps [of ls i])

lemma rep_root: "ls ! i = i \<Longrightarrow> rep ls i = i"
  by (simp add: rep.simps [of ls i])

lemma rep_self: "forest ls \<Longrightarrow> i < length ls \<Longrightarrow> ls ! rep ls i = rep ls i"
proof (induction i rule: less_induct)
  case (less i)
  show ?case
  proof (cases "ls ! i < i")
    case True
    then show ?thesis using less rep_step [of i ls] by simp
  next
    case False
    then have "ls ! i = i" using less.prems by (auto simp: forest_def)
    then show ?thesis by (simp add: rep_root)
  qed
qed

lemma rep_rep: "forest ls \<Longrightarrow> i < length ls \<Longrightarrow> rep ls (rep ls i) = rep ls i"
  by (simp add: rep_root rep_self)

lemma rep_parent: "forest ls \<Longrightarrow> i < length ls \<Longrightarrow> rep ls (ls ! i) = rep ls i"
  by (metis forest_def le_neq_implies_less rep_step)

lemma rep_pos: "forest ls \<Longrightarrow> 0 < i \<Longrightarrow> i < length ls \<Longrightarrow> 0 < rep ls i"
proof (induction i rule: less_induct)
  case (less i)
  then show ?case
    by (cases "ls ! i < i") (auto simp: rep_step forest_def rep.simps [of ls i])
qed

lemma rep_0 [simp]: "rep ls 0 = 0"
  by (simp add: rep.simps)

lemma rep_append: "i < length ls \<Longrightarrow> rep (ls @ xs) i = rep ls i"
proof (induction i rule: less_induct)
  case (less i)
  then show ?case by (cases "ls ! i < i") (auto simp: rep.simps [of _ i] nth_append)
qed

lemma findRoot_rep: "i < length ls \<Longrightarrow> findRoot ls i = Some (rep ls i)"
proof (induction i rule: less_induct)
  case (less i)
  then show ?case by (subst findRoot.simps, subst rep.simps) (simp add: mem_at_def)
qed

section \<open>Joining trees\<close>

lemma rep_redirect:
  assumes "forest ls" and "i < length ls" and "r < i" and "ls ! r = r" and "k < length ls"
  shows "rep (ls[i := r]) k = rep ls k \<or> rep (ls[i := r]) k = r \<and> rep ls k = rep ls i"
  using assms(5)
proof (induction k rule: less_induct)
  case (less k)
  have r: "rep (ls[i := r]) r = r"
    using assms by (intro rep_root) simp
  show ?case
  proof (cases "k = i")
    case True
    then have "rep (ls[i := r]) k = rep (ls[i := r]) r"
      using assms rep_step [of i "ls[i := r]"] by simp
    then show ?thesis using r True by simp
  next
    case False
    then show ?thesis
      using less assms(1) rep_step [of k "ls[i := r]"] rep_parent [OF assms(1), of k] rep_step [of k ls]
      by (cases "ls ! k < k") (auto simp: rep.simps [of _ k])
  qed
qed

lemma rep_below: "forest ls \<Longrightarrow> i < length ls \<Longrightarrow> r < i \<Longrightarrow> k < i \<Longrightarrow> rep (ls[i := r]) k = rep ls k"
proof (induction k rule: less_induct)
  case (less k)
  then show ?case
    by (cases "ls ! k < k") (auto simp: rep_step rep.simps [of _ k])
qed

lemma forest_update: "forest ls \<Longrightarrow> r \<le> i \<Longrightarrow> 0 < r \<or> i = 0 \<Longrightarrow> forest (ls[i := r])"
  by (cases "i < length ls") (auto simp: forest_def nth_list_update)

lemma setRoot_spec:
  assumes "forest ls" and "i < length ls" and "r \<le> rep ls i" and "ls ! r = r" and "0 < r \<or> i = 0"
  shows "\<exists>ls'. setRoot ls i r = Some ls' \<and> forest ls' \<and> length ls' = length ls \<and>
    (\<forall>k < length ls. rep ls' k = (if rep ls k = rep ls i then r else rep ls k))"
  using assms
proof (induction i arbitrary: ls rule: less_induct)
  case (less i)
  show ?case
  proof (cases "ls ! i < i")
    case False
    then have "ls ! i = i" "rep ls i = i" using less.prems by (auto simp: forest_def rep_root)
    moreover have "rep (ls[i := r]) k = (if rep ls k = i then r else rep ls k)" if "k < length ls" for k
    proof (cases "r = i")
      case True
      then show ?thesis using \<open>ls ! i = i\<close> by simp (metis list_update_id)
    next
      case False
      then have "r < i" using less.prems(3) \<open>rep ls i = i\<close> by simp
      then have R: "rep (ls[i := r]) k = rep ls k \<or> rep (ls[i := r]) k = r \<and> rep ls k = i"
        using rep_redirect [OF less.prems(1,2) _ less.prems(4) that] \<open>rep ls i = i\<close> by simp
      have "rep (ls[i := r]) k \<noteq> i"
        using rep_self [of "ls[i := r]" k] forest_update [OF less.prems(1), of r i] \<open>r < i\<close> less.prems(2,5) that
        by auto
      then show ?thesis using R by auto
    qed
    ultimately show ?thesis
      using False less.prems forest_update [OF less.prems(1), of r i]
      by (subst setRoot.simps) (simp add: mem_at_def)
  next
    case True
    let ?ls = "ls[i := r]"
    have ri: "rep ls (ls ! i) = rep ls i" using rep_step [OF less.prems(2) True] by simp
    then have "r \<le> ls ! i" using less.prems(3) rep_le [of ls "ls ! i"] by simp
    then have "r < i" using True by simp
    have f: "forest ?ls" using forest_update less.prems(1,5) \<open>r < i\<close> by simp
    have below: "rep ?ls (ls ! i) = rep ls i"
      using rep_below [OF less.prems(1,2) \<open>r < i\<close> True] ri by simp
    have "0 < r \<or> ls ! i = 0" using less.prems(5) True by simp
    then obtain ls' where ls': "setRoot ?ls (ls ! i) r = Some ls'" "forest ls'" "length ls' = length ls"
      "\<forall>k < length ls. rep ls' k = (if rep ?ls k = rep ls i then r else rep ?ls k)"
      using less.IH [OF True f] less.prems True \<open>r < i\<close> below by auto
    have "rep ls' k = (if rep ls k = rep ls i then r else rep ls k)" if "k < length ls" for k
      using ls'(4) that rep_redirect [OF less.prems(1,2) \<open>r < i\<close> less.prems(4) that] by auto
    then show ?thesis
      using ls' True less.prems(2) by (subst setRoot.simps) (simp add: mem_at_def)
  qed
qed

text \<open>Joining two trees makes the smaller root the root of both and leaves other trees alone.\<close>

lemma unionTrees_spec:
  assumes "forest (eq_labels t)" and "i < length (eq_labels t)" and "j < length (eq_labels t)" and "0 < i" and "0 < j"
  defines "m \<equiv> min (rep (eq_labels t) i) (rep (eq_labels t) j)"
  shows "\<exists>ls. unionTrees i j t = Some (m, t\<lparr>eq_labels := ls\<rparr>) \<and> forest ls \<and> length ls = length (eq_labels t) \<and>
    (\<forall>k < length ls. rep ls k =
      (if rep (eq_labels t) k = rep (eq_labels t) i \<or> rep (eq_labels t) k = rep (eq_labels t) j then m
       else rep (eq_labels t) k))"
proof (cases "i = j")
  case True
  have m: "m = rep (eq_labels t) i" using True by (simp add: m_def)
  obtain ls where ls: "setRoot (eq_labels t) i m = Some ls" "forest ls" "length ls = length (eq_labels t)"
    "\<forall>k < length (eq_labels t). rep ls k = (if rep (eq_labels t) k = rep (eq_labels t) i then m else rep (eq_labels t) k)"
    using setRoot_spec [OF assms(1,2), of m] rep_self [OF assms(1,2)] rep_pos [OF assms(1,4,2)] m by auto
  then show ?thesis
    using True assms(2) m by (intro exI [of _ ls]) (simp add: unionTrees_def findRoot_rep)
next
  case False
  let ?ls = "eq_labels t"
  have pos: "0 < m" using rep_pos [OF assms(1,4,2)] rep_pos [OF assms(1,5,3)] by (simp add: m_def)
  have self: "?ls ! m = m"
    using rep_self [OF assms(1,2)] rep_self [OF assms(1,3)] by (auto simp: m_def min_def)
  obtain l1 where l1: "setRoot ?ls j m = Some l1" "forest l1" "length l1 = length ?ls"
    "\<forall>k < length ?ls. rep l1 k = (if rep ?ls k = rep ?ls j then m else rep ?ls k)"
    using setRoot_spec [OF assms(1,3) _ self] pos by (auto simp: m_def)
  have mlen: "m < length ?ls" using rep_lt [OF assms(2)] by (simp add: m_def)
  have "rep ?ls m = m" using rep_root self by simp
  then have "rep l1 m = m" using l1(4) mlen by auto
  then have "l1 ! m = m" using rep_self [OF l1(2), of m] mlen l1(3) by simp
  moreover have "m \<le> rep l1 i" using l1(4) assms(2) by (auto simp: m_def)
  ultimately obtain l2 where l2: "setRoot l1 i m = Some l2" "forest l2" "length l2 = length ?ls"
    "\<forall>k < length ?ls. rep l2 k = (if rep l1 k = rep l1 i then m else rep l1 k)"
    using setRoot_spec [OF l1(2), of i m] l1(3) assms(2) pos by auto
  have "rep l2 k = (if rep ?ls k = rep ?ls i \<or> rep ?ls k = rep ?ls j then m else rep ?ls k)"
    if k: "k < length ?ls" for k
  proof -
    have "rep l2 k = (if rep l1 k = rep l1 i then m else rep l1 k)" using l2(4) k by blast
    moreover have "rep l1 k = (if rep ?ls k = rep ?ls j then m else rep ?ls k)" using l1(4) k by blast
    moreover have "rep l1 i = (if rep ?ls i = rep ?ls j then m else rep ?ls i)" using l1(4) assms(2) by blast
    moreover have "m = rep ?ls i \<or> m = rep ?ls j" by (auto simp: m_def min_def)
    ultimately show ?thesis by auto
  qed
  moreover have "unionTrees i j t = Some (m, t\<lparr>eq_labels := l2\<rparr>)"
    using False assms(2,3) l1(1) l2(1) by (simp add: unionTrees_def findRoot_rep m_def)
  ultimately show ?thesis using l2(2,3) by auto
qed

section \<open>The table of final labels\<close>

text \<open>Final labels number the roots in ascending order.\<close>

definition rank :: "nat list \<Rightarrow> nat \<Rightarrow> nat" where
  "rank ls r = card {x. 0 < x \<and> x \<le> r \<and> ls ! x = x}"

lemma rank_Suc: "rank ls (Suc i) = rank ls i + (if ls ! Suc i = Suc i then 1 else 0)"
proof -
  have "{x. 0 < x \<and> x \<le> Suc i \<and> ls ! x = x} =
      (if ls ! Suc i = Suc i then insert (Suc i) {x. 0 < x \<and> x \<le> i \<and> ls ! x = x} else {x. 0 < x \<and> x \<le> i \<and> ls ! x = x})"
    by (auto simp: le_Suc_eq)
  then show ?thesis by (simp add: rank_def)
qed

lemma rank_mono: "r \<le> s \<Longrightarrow> rank ls r \<le> rank ls s"
  unfolding rank_def by (rule card_mono) auto

lemma rank_less:
  assumes "r < s" and "ls ! s = s"
  shows "rank ls r < rank ls s"
proof -
  obtain q where q: "s = Suc q" using assms(1) by (cases s) auto
  then show ?thesis using rank_Suc [of ls q] rank_mono [of r q ls] assms by simp
qed

lemma rank_pos: "0 < r \<Longrightarrow> ls ! r = r \<Longrightarrow> 0 < rank ls r"
  using rank_less [of 0 r ls] by simp

lemma rank_le: "rank ls r \<le> r"
proof -
  have "rank ls r \<le> card {0<..r}" unfolding rank_def by (rule card_mono) auto
  then show ?thesis by simp
qed

lemma convert_labels_spec:
  assumes "forest ls" and "i \<le> length ls" and "0 < i" and "length ls' = length ls"
    and "\<forall>j. 0 < j \<and> j < i \<longrightarrow> ls' ! j = rank ls (rep ls j)" and "\<forall>j. i \<le> j \<and> j < length ls \<longrightarrow> ls' ! j = ls ! j"
    and "ls' ! 0 = 0"
  shows "\<exists>table. convert_labels [i..<length ls] ls' (rank ls (i - 1) + 1) = Some (table, rank ls (length ls - 1) + 1) \<and>
    length table = length ls \<and> table ! 0 = 0 \<and> (\<forall>j. 0 < j \<and> j < length ls \<longrightarrow> table ! j = rank ls (rep ls j))"
  using assms(2-)
proof (induction "length ls - i" arbitrary: i ls')
  case 0
  then show ?case by auto
next
  case (Suc n)
  then have il: "i < length ls" by simp
  have li: "ls' ! i = ls ! i" using Suc.prems il by simp
  obtain i' where i': "i = Suc i'" using Suc.prems(2) by (cases i) auto
  have up: "[i..<length ls] = i # [Suc i..<length ls]" using il by (simp add: upt_conv_Cons)
  show ?case
  proof (cases "ls ! i < i")
    case True
    let ?l = "ls'[i := ls' ! (ls ! i)]"
    have "0 < ls ! i" using assms(1) Suc.prems(2) il by (simp add: forest_def)
    then have x: "ls' ! (ls ! i) = rank ls (rep ls i)"
      using Suc.prems(4) True rep_step [OF il True] by simp
    have "rank ls (Suc i - 1) = rank ls (i - 1)" using True i' rank_Suc [of ls i'] by simp
    moreover have "\<exists>table. convert_labels [Suc i..<length ls] ?l (rank ls (Suc i - 1) + 1) =
        Some (table, rank ls (length ls - 1) + 1) \<and>
        length table = length ls \<and> table ! 0 = 0 \<and> (\<forall>j. 0 < j \<and> j < length ls \<longrightarrow> table ! j = rank ls (rep ls j))"
    proof (rule Suc.hyps(1))
      show "\<forall>j. 0 < j \<and> j < Suc i \<longrightarrow> ?l ! j = rank ls (rep ls j)"
      proof (intro allI impI)
        fix j assume "0 < j \<and> j < Suc i"
        then show "?l ! j = rank ls (rep ls j)"
          using Suc.prems(3,4) x il rep_step [OF il True] by (cases "j = i") simp_all
      qed
    qed (use Suc.hyps(2) Suc.prems il in simp_all)
    ultimately show ?thesis
      using up li True il Suc.prems(3) by (simp add: mem_at_def del: upt_Suc)
  next
    case False
    then have r: "ls ! i = i" "rep ls i = i" using assms(1) il by (auto simp: forest_def rep_root)
    let ?l = "ls'[i := rank ls (i - 1) + 1]"
    have k: "rank ls (Suc i - 1) = rank ls (i - 1) + 1" using r(1) i' rank_Suc [of ls i'] by simp
    moreover have "\<exists>table. convert_labels [Suc i..<length ls] ?l (rank ls (Suc i - 1) + 1) =
        Some (table, rank ls (length ls - 1) + 1) \<and>
        length table = length ls \<and> table ! 0 = 0 \<and> (\<forall>j. 0 < j \<and> j < length ls \<longrightarrow> table ! j = rank ls (rep ls j))"
    proof (rule Suc.hyps(1))
      show "\<forall>j. 0 < j \<and> j < Suc i \<longrightarrow> ?l ! j = rank ls (rep ls j)"
      proof (intro allI impI)
        fix j assume "0 < j \<and> j < Suc i"
        then show "?l ! j = rank ls (rep ls j)"
          using Suc.prems(3,4) r k il by (cases "j = i") simp_all
      qed
    qed (use Suc.hyps(2) Suc.prems il in simp_all)
    ultimately show ?thesis
      using up li False il Suc.prems(3) by (simp add: mem_at_def del: upt_Suc)
  qed
qed

lemma getLabels_spec:
  assumes "forest (eq_labels t)" and "next_free t = length (eq_labels t)"
  shows "\<exists>table count. getLabels t = Some (table, count) \<and> length table = next_free t \<and> table ! 0 = 0 \<and>
    count \<le> next_free t \<and> 0 < count \<and>
    (\<forall>i j. 0 < i \<and> i < next_free t \<and> 0 < j \<and> j < next_free t \<longrightarrow>
      (table ! i = table ! j \<longleftrightarrow> rep (eq_labels t) i = rep (eq_labels t) j)) \<and>
    (\<forall>i. 0 < i \<and> i < next_free t \<longrightarrow> 0 < table ! i \<and> table ! i < count)"
proof -
  let ?ls = "eq_labels t"
  have len: "0 < length ?ls" and zero: "?ls ! 0 = 0" using assms(1) by (auto simp: forest_def)
  have r0: "rank ?ls 0 = 0" using rank_le [of ?ls 0] by simp
  obtain table where t: "getLabels t = Some (table, rank ?ls (length ?ls - 1) + 1)"
    "length table = length ?ls" "table ! 0 = 0" "\<forall>j. 0 < j \<and> j < length ?ls \<longrightarrow> table ! j = rank ?ls (rep ?ls j)"
    using convert_labels_spec [OF assms(1), of 1 ?ls] len zero r0 assms(2) by (auto simp: getLabels_def)
  have inj: "rank ?ls r = rank ?ls s \<longleftrightarrow> r = s" if "?ls ! r = r" "?ls ! s = s" for r s
    using rank_less [of r s ?ls] rank_less [of s r ?ls] that by (cases r s rule: linorder_cases) auto
  have "table ! i = table ! j \<longleftrightarrow> rep ?ls i = rep ?ls j"
    if "0 < i \<and> i < length ?ls \<and> 0 < j \<and> j < length ?ls" for i j
    using t(4) that inj [of "rep ?ls i" "rep ?ls j"] rep_self [OF assms(1)] by simp
  moreover have "0 < table ! i \<and> table ! i < rank ?ls (length ?ls - 1) + 1" if "0 < i \<and> i < length ?ls" for i
  proof -
    have "rep ?ls i \<le> length ?ls - 1" using rep_lt [of i ?ls] that by simp
    then show ?thesis
      using t(4) that rank_mono [of "rep ?ls i" "length ?ls - 1" ?ls] rank_pos [of "rep ?ls i" ?ls]
        rep_self [OF assms(1)] rep_pos [OF assms(1)] by simp
  qed
  moreover have "rank ?ls (length ?ls - 1) + 1 \<le> length ?ls"
    using rank_le [of ?ls "length ?ls - 1"] len by linarith
  ultimately show ?thesis
    using t(1,2,3) assms(2)
    by (intro exI [of _ table] exI [of _ "rank ?ls (length ?ls - 1) + 1"]) simp
qed

end
