(* ===== verification/Denoise_Graph.thy ===== *)
theory Denoise_Graph
  imports Denoise_Labels
begin

text \<open>
  Groups of obstacle pixels as the connected components of a graph, what adding one pixel does to
  them, and how large a set of pairwise unconnected neighbours can be.
\<close>

section \<open>Pixels and neighbours\<close>

type_synonym pixel = "nat \<times> nat"

definition grid :: "view \<Rightarrow> pixel set" where
  "grid v = {p. fst p < img_rows v \<and> snd p < img_columns v}"

definition obstacles :: "(u8 \<Rightarrow> bool) \<Rightarrow> view \<Rightarrow> u8 list \<Rightarrow> pixel set" where
  "obstacles is_bg v mem = {p \<in> grid v. \<not> is_bg (mem ! pointer v p)}"

fun adjacent :: "connectivity \<Rightarrow> pixel \<Rightarrow> pixel \<Rightarrow> bool" where
  "adjacent Way4 (r, c) (r', c') \<longleftrightarrow>
     r = r' \<and> (c = c' + 1 \<or> c' = c + 1) \<or> c = c' \<and> (r = r' + 1 \<or> r' = r + 1)"
| "adjacent Way8 (r, c) (r', c') \<longleftrightarrow>
     (r, c) \<noteq> (r', c') \<and> r \<le> r' + 1 \<and> r' \<le> r + 1 \<and> c \<le> c' + 1 \<and> c' \<le> c + 1"

lemma adjacent_sym: "adjacent conn p q \<Longrightarrow> adjacent conn q p"
  by (cases conn; cases p; cases q) auto

lemma adjacent_irrefl [simp]: "\<not> adjacent conn p p"
  by (cases conn; cases p) auto

text \<open>Pixels of \<open>F\<close> are connected by steps between neighbours in \<open>F\<close>.\<close>

definition links :: "connectivity \<Rightarrow> pixel set \<Rightarrow> (pixel \<times> pixel) set" where
  "links conn F = {(p, q). p \<in> F \<and> q \<in> F \<and> adjacent conn p q}"

definition linked :: "connectivity \<Rightarrow> pixel set \<Rightarrow> pixel \<Rightarrow> pixel \<Rightarrow> bool" where
  "linked conn F p q \<longleftrightarrow> (p, q) \<in> (links conn F)\<^sup>*"

definition group_of :: "connectivity \<Rightarrow> pixel set \<Rightarrow> pixel \<Rightarrow> pixel set" where
  "group_of conn F p = {q \<in> F. linked conn F p q}"

lemma linked_refl [simp]: "linked conn F p p"
  by (simp add: linked_def)

lemma linked_trans: "linked conn F p q \<Longrightarrow> linked conn F q r \<Longrightarrow> linked conn F p r"
  unfolding linked_def by (rule rtrancl_trans)

lemma linked_sym: "linked conn F p q \<Longrightarrow> linked conn F q p"
proof -
  have "sym ((links conn F)\<^sup>*)"
    by (intro sym_rtrancl symI) (auto simp: links_def intro: adjacent_sym)
  then show "linked conn F p q \<Longrightarrow> linked conn F q p" by (auto simp: linked_def dest: symD)
qed

lemma linked_adjacent: "p \<in> F \<Longrightarrow> q \<in> F \<Longrightarrow> adjacent conn p q \<Longrightarrow> linked conn F p q"
  by (auto simp: linked_def links_def)

lemma linked_mono: "linked conn F p q \<Longrightarrow> F \<subseteq> G \<Longrightarrow> linked conn G p q"
  unfolding linked_def by (erule rtrancl_mono [THEN subsetD, rotated]) (auto simp: links_def)

lemma linked_in: "linked conn F p q \<Longrightarrow> p \<in> F \<Longrightarrow> q \<in> F"
  unfolding linked_def by (induction rule: rtrancl_induct) (auto simp: links_def)

section \<open>Adding a pixel\<close>

definition neighbours :: "connectivity \<Rightarrow> pixel set \<Rightarrow> pixel \<Rightarrow> pixel set" where
  "neighbours conn F p = {q \<in> F. adjacent conn p q}"

lemma linked_insert_aux:
  assumes "linked conn (insert p F) x y" and "x \<in> F" and "p \<notin> F"
  shows "(y = p \<longrightarrow> (\<exists>n \<in> neighbours conn F p. linked conn F x n)) \<and>
    (y \<noteq> p \<longrightarrow> linked conn F x y \<or>
      (\<exists>n \<in> neighbours conn F p. \<exists>m \<in> neighbours conn F p. linked conn F x n \<and> linked conn F m y))"
  using assms(1) unfolding linked_def [of conn "insert p F"]
proof (induction rule: rtrancl_induct)
  case base
  then show ?case using assms by auto
next
  case (step y z)
  have l: "adjacent conn y z" "y \<in> insert p F" "z \<in> insert p F" using step.hyps(2) by (auto simp: links_def)
  show ?case
  proof (cases "y = p")
    case True
    then have "z \<noteq> p" "z \<in> neighbours conn F p" using l by (auto simp: neighbours_def)
    then show ?thesis using step.IH True linked_refl by blast
  next
    case False
    then have y: "y \<in> F" using l by simp
    show ?thesis
    proof (cases "z = p")
      case True
      then have "y \<in> neighbours conn F p" using l(1) y adjacent_sym by (auto simp: neighbours_def)
      then show ?thesis using step.IH False True by auto
    next
      case z: False
      then have "linked conn F y z" using l y by (intro linked_adjacent) auto
      then show ?thesis using step.IH False z by (blast intro: linked_trans)
    qed
  qed
qed

lemma linked_insert:
  assumes "x \<in> F" and "y \<in> F" and "p \<notin> F"
  shows "linked conn (insert p F) x y \<longleftrightarrow> linked conn F x y \<or>
    (\<exists>n \<in> neighbours conn F p. linked conn F x n) \<and> (\<exists>n \<in> neighbours conn F p. linked conn F y n)"
proof
  assume "linked conn (insert p F) x y"
  then show "linked conn F x y \<or>
    (\<exists>n \<in> neighbours conn F p. linked conn F x n) \<and> (\<exists>n \<in> neighbours conn F p. linked conn F y n)"
    using linked_insert_aux [OF _ assms(1,3)] assms(2,3) linked_sym by metis
next
  have via: "linked conn (insert p F) z p" if "n \<in> neighbours conn F p" "linked conn F z n" for n z
  proof -
    have "linked conn (insert p F) z n" using that(2) linked_mono by blast
    moreover have "linked conn (insert p F) n p"
      using that(1) by (intro linked_adjacent) (auto simp: neighbours_def intro: adjacent_sym)
    ultimately show ?thesis by (rule linked_trans)
  qed
  assume "linked conn F x y \<or>
    (\<exists>n \<in> neighbours conn F p. linked conn F x n) \<and> (\<exists>n \<in> neighbours conn F p. linked conn F y n)"
  then show "linked conn (insert p F) x y"
  proof
    assume "linked conn F x y"
    then show ?thesis by (rule linked_mono) auto
  next
    assume "(\<exists>n \<in> neighbours conn F p. linked conn F x n) \<and> (\<exists>n \<in> neighbours conn F p. linked conn F y n)"
    then show ?thesis using via linked_sym linked_trans by meson
  qed
qed

lemma linked_insert_new:
  assumes "y \<in> F" and "p \<notin> F"
  shows "linked conn (insert p F) p y \<longleftrightarrow> (\<exists>n \<in> neighbours conn F p. linked conn F y n)"
proof
  assume "linked conn (insert p F) p y"
  then show "\<exists>n \<in> neighbours conn F p. linked conn F y n"
    using linked_insert_aux [OF linked_sym assms] by blast
next
  assume "\<exists>n \<in> neighbours conn F p. linked conn F y n"
  then obtain n where n: "n \<in> F" "adjacent conn p n" "linked conn F y n" by (auto simp: neighbours_def)
  have "linked conn (insert p F) p n" using n by (intro linked_adjacent) auto
  moreover have "linked conn (insert p F) n y" using n(3) linked_sym linked_mono by blast
  ultimately show "linked conn (insert p F) p y" by (rule linked_trans)
qed

section \<open>Scattered sets\<close>

definition scattered :: "connectivity \<Rightarrow> pixel set \<Rightarrow> bool" where
  "scattered conn S \<longleftrightarrow> (\<forall>p \<in> S. \<forall>q \<in> S. \<not> adjacent conn p q)"

lemma scattered_insert:
  "scattered conn S \<Longrightarrow> \<forall>q \<in> S. \<not> adjacent conn p q \<Longrightarrow> scattered conn (insert p S)"
  by (auto simp: scattered_def dest: adjacent_sym)

lemma finite_grid [simp]: "finite (grid v)"
proof -
  have "grid v \<subseteq> {..<img_rows v} \<times> {..<img_columns v}" by (auto simp: grid_def)
  then show ?thesis by (rule finite_subset) simp
qed

text \<open>With diagonals, a block of 2x2 pixels holds at most one pixel of a scattered set.\<close>

lemma scattered8_blocks:
  assumes "scattered Way8 S" and "S \<subseteq> grid v"
  shows "card S \<le> ((img_rows v + 1) div 2) * ((img_columns v + 1) div 2)"
proof -
  let ?f = "\<lambda>p. (fst p div 2, snd p div 2)"
  have "inj_on ?f S"
  proof (rule inj_onI, rule ccontr)
    fix p q assume pq: "p \<in> S" "q \<in> S" "?f p = ?f q" "p \<noteq> q"
    then have "adjacent Way8 p q" by (cases p; cases q) (simp; linarith)
    then show False using assms(1) pq by (auto simp: scattered_def)
  qed
  moreover have "?f ` S \<subseteq> {..<(img_rows v + 1) div 2} \<times> {..<(img_columns v + 1) div 2}"
    using assms(2) by (auto simp: grid_def)
  ultimately have "card S \<le> card ({..<(img_rows v + 1) div 2} \<times> {..<(img_columns v + 1) div 2})"
    by (intro card_inj_on_le) auto
  then show ?thesis by simp
qed

text \<open>Without diagonals, a line that winds through the rows has at most one pixel of each pair.\<close>

definition snake :: "nat \<Rightarrow> pixel \<Rightarrow> nat" where
  "snake w p = fst p * w + (if even (fst p) then snd p else w - 1 - snd p)"

lemma snake_adjacent:
  assumes "snd p < w" and "snd q < w" and "snake w p div 2 = snake w q div 2" and "p \<noteq> q"
  shows "adjacent Way4 p q"
proof -
  obtain r c where p: "p = (r, c)" by force
  obtain r' c' where q: "q = (r', c')" by force
  define x where "x = (if even r then c else w - 1 - c)"
  define x' where "x' = (if even r' then c' else w - 1 - c')"
  have x: "x < w" "x' < w" using assms(1,2) p q by (auto simp: x_def x'_def)
  have "snake w p = r * w + x" "snake w q = r' * w + x'"
    by (simp_all add: snake_def p q x_def x'_def)
  then have pairs: "(r * w + x) div 2 = (r' * w + x') div 2" using assms(3) by simp
  have s: "r * w + x < r' * w + x' + 2" "r' * w + x' < r * w + x + 2"
    using pairs by arith+
  have "r \<le> r' + 1"
  proof (rule ccontr)
    assume "\<not> r \<le> r' + 1"
    then have "(r' + 2) * w \<le> r * w" by (intro mult_le_mono1) simp
    then show False using s x by (simp add: algebra_simps)
  qed
  moreover have "r' \<le> r + 1"
  proof (rule ccontr)
    assume "\<not> r' \<le> r + 1"
    then have "(r + 2) * w \<le> r' * w" by (intro mult_le_mono1) simp
    then show False using s x by (simp add: algebra_simps)
  qed
  ultimately consider "r = r'" | "r = r' + 1" | "r' = r + 1" by linarith
  then show ?thesis
  proof cases
    case 1
    then have "x < x' + 2" "x' < x + 2" using s by simp_all
    moreover have "c \<noteq> c'" using assms(4) p q 1 by simp
    ultimately show ?thesis
      using 1 p q assms(1,2) by (auto simp: x_def x'_def split: if_splits)
  next
    case 2
    then have "x' + 2 > w + x" using s by (simp add: algebra_simps)
    then have "x = 0" "x' = w - 1" using x by simp_all
    then show ?thesis
      using 2 p q assms(1,2) by (auto simp: x_def x'_def split: if_splits)
  next
    case 3
    then have "x + 2 > w + x'" using s by (simp add: algebra_simps)
    then have "x' = 0" "x = w - 1" using x by simp_all
    then show ?thesis
      using 3 p q assms(1,2) by (auto simp: x_def x'_def split: if_splits)
  qed
qed

lemma scattered4_pairs:
  assumes "scattered Way4 S" and "S \<subseteq> grid v"
  shows "card S \<le> (img_rows v * img_columns v + 1) div 2"
proof -
  let ?w = "img_columns v"
  let ?f = "\<lambda>p. snake ?w p div 2"
  have "inj_on ?f S"
  proof (rule inj_onI, rule ccontr)
    fix p q assume pq: "p \<in> S" "q \<in> S" "?f p = ?f q" "p \<noteq> q"
    then have "snd p < ?w" "snd q < ?w" using assms(2) by (auto simp: grid_def)
    then have "adjacent Way4 p q" using snake_adjacent pq(3,4) by blast
    then show False using assms(1) pq(1,2) by (auto simp: scattered_def)
  qed
  moreover have "?f ` S \<subseteq> {..<(img_rows v * ?w + 1) div 2}"
  proof
    fix y assume "y \<in> ?f ` S"
    then obtain p where p: "p \<in> S" "y = snake ?w p div 2" by auto
    have g: "fst p < img_rows v" "snd p < ?w" using p(1) assms(2) by (auto simp: grid_def)
    then have "(fst p + 1) * ?w \<le> img_rows v * ?w" by (intro mult_le_mono1) simp
    then have "snake ?w p < img_rows v * ?w" using g by (auto simp: snake_def)
    then show "y \<in> {..<(img_rows v * ?w + 1) div 2}" using p(2) by simp
  qed
  ultimately have "card S \<le> card {..<(img_rows v * ?w + 1) div 2}"
    by (intro card_inj_on_le) auto
  then show ?thesis by simp
qed

end
