(* ===== verification/Denoise_Scan.thy ===== *)
theory Denoise_Scan
  imports Denoise_Graph
begin

text \<open>
  The two-scan labelling assigns two obstacle pixels the same label exactly when they are in one
  group: what the windows read, the invariant of the scan, and the labels it needs.
\<close>

section \<open>Reading through windows\<close>

text \<open>The view lies in its memory block, and its rows do not overlap.\<close>

definition view_ok :: "view \<Rightarrow> 'a list \<Rightarrow> bool" where
  "view_ok v mem \<longleftrightarrow> (\<forall>p \<in> grid v. pointer v p < length mem) \<and> img_columns v \<le> img_step v"

text \<open>A window of the scan at a pixel; without checks at the borders it needs neighbours.\<close>

definition window_at :: "bool \<Rightarrow> view \<Rightarrow> scan_window \<Rightarrow> pixel \<Rightarrow> bool" where
  "window_at labels v w p \<longleftrightarrow> win_down w = fst p \<and> win_column w = snd p \<and>
     win_up w = (if fst p = 0 then None else Some (fst p - 1)) \<and>
     (win_border w = ReplaceToZero \<or> 0 < fst p \<and> (labels \<or> 0 < snd p \<and> snd p + 1 < img_columns v))"

definition value_at :: "view \<Rightarrow> 'a::zero list \<Rightarrow> int \<Rightarrow> int \<Rightarrow> 'a" where
  "value_at v mem r c =
     (if 0 \<le> r \<and> r < int (img_rows v) \<and> 0 \<le> c \<and> c < int (img_columns v) then mem ! pointer v (nat r, nat c) else 0)"

lemma win_anchor_at: "window_at b v w p \<Longrightarrow> win_anchor w v = pointer v p"
  by (simp add: window_at_def win_anchor_def pointer_def)

lemma deref_pixel:
  assumes "view_ok v mem" and "(r, c) \<in> grid v"
  shows "deref mem (int (image_row v r) + int c) = Some (mem ! pointer v (r, c))"
proof -
  have "pointer v (r, c) < length mem" using assms by (simp add: view_ok_def)
  moreover have "nat (int (image_row v r) + int c) = pointer v (r, c)" by (simp add: pointer_def nat_add_distrib)
  ultimately show ?thesis by (simp add: deref_def mem_at_def)
qed

lemma border_up_at:
  assumes "view_ok v mem" and "window_at b v w p" and "p \<in> grid v"
    and "win_border w = DoNothing \<longrightarrow> 0 \<le> c \<and> c < int (img_columns v)"
  shows "border_up w v mem c = Some (value_at v mem (int (fst p) - 1) c)"
proof (cases "fst p = 0")
  case True
  then show ?thesis using assms(2) by (auto simp: border_up_def window_at_def value_at_def)
next
  case False
  then have up: "win_up w = Some (fst p - 1)" using assms(2) by (simp add: window_at_def)
  show ?thesis
  proof (cases "0 \<le> c \<and> c < int (img_columns v)")
    case True
    then have "(fst p - 1, nat c) \<in> grid v" using assms(3) by (auto simp: grid_def)
    from deref_pixel [OF assms(1) this] show ?thesis
      using up True False assms(3) by (auto simp: border_up_def value_at_def grid_def nat_diff_distrib)
  next
    case c: False
    then have "win_border w = ReplaceToZero" using assms(4) by (cases "win_border w") auto
    then show ?thesis using up c by (auto simp: border_up_def value_at_def)
  qed
qed

lemma border_down_at:
  assumes "view_ok v mem" and "window_at b v w p" and "p \<in> grid v"
    and "win_border w = DoNothing \<longrightarrow> 0 \<le> c \<and> c < int (img_columns v)"
  shows "border_down w v mem c = Some (value_at v mem (int (fst p)) c)"
proof (cases "0 \<le> c \<and> c < int (img_columns v)")
  case True
  then have "(fst p, nat c) \<in> grid v" using assms(3) by (auto simp: grid_def)
  from deref_pixel [OF assms(1) this] show ?thesis
    using True assms(2,3) by (auto simp: border_down_def value_at_def grid_def window_at_def)
next
  case c: False
  then have "win_border w = ReplaceToZero" using assms(4) by (cases "win_border w") auto
  then show ?thesis using c by (auto simp: border_down_def value_at_def)
qed

lemma image_window_reads:
  assumes "view_ok v mem" and "window_at False v w (r, c)" and "(r, c) \<in> grid v"
  shows "win_a w v mem = Some (value_at v mem (int r - 1) (int c - 1))"
    "win_b w v mem = Some (value_at v mem (int r - 1) (int c))"
    "win_c w v mem = Some (value_at v mem (int r - 1) (int c + 1))"
    "win_d w v mem = Some (value_at v mem (int r) (int c - 1))"
  using border_up_at [OF assms, of "int c - 1"] border_up_at [OF assms, of "int c"]
    border_up_at [OF assms, of "int c + 1"] border_down_at [OF assms, of "int c - 1"] assms(2)
  by (auto simp: win_a_def win_b_def win_c_def win_d_def window_at_def)

lemma label_window_reads:
  assumes "view_ok v mem" and "window_at True v w (r, c)" and "(r, c) \<in> grid v"
  shows "0 < c \<Longrightarrow> win_a w v mem = Some (value_at v mem (int r - 1) (int c - 1))"
    "win_b w v mem = Some (value_at v mem (int r - 1) (int c))"
    "c + 1 < img_columns v \<Longrightarrow> win_c w v mem = Some (value_at v mem (int r - 1) (int c + 1))"
    "0 < c \<Longrightarrow> win_d w v mem = Some (value_at v mem (int r) (int c - 1))"
  using border_up_at [OF assms, of "int c - 1"] border_up_at [OF assms, of "int c"]
    border_up_at [OF assms, of "int c + 1"] border_down_at [OF assms, of "int c - 1"] assms(2,3)
  by (auto simp: win_a_def win_b_def win_c_def win_d_def window_at_def grid_def)

section \<open>The windows of the scan\<close>

lemma concat_rows:
  assumes "0 < w"
  shows "concat (map (\<lambda>r. map (f r) [0..<w]) [0..<n]) = map (\<lambda>k. f (k div w) (k mod w)) [0..<n * w]"
proof (induction n)
  case (Suc n)
  have "[0..<Suc n * w] = [0..<n * w] @ map (\<lambda>c. n * w + c) [0..<w]"
    using upt_add_eq_append [of 0 "n * w" w] map_add_upt [of "n * w" w] by (simp add: add.commute)
  then show ?case using Suc assms by (simp add: comp_def del: mult_Suc)
qed simp

definition scan_pair :: "nat \<Rightarrow> nat \<Rightarrow> nat \<Rightarrow> scan_window \<times> scan_window" where
  "scan_pair columns row column =
     (let w = \<lambda>b. \<lparr>win_border = b, win_up = if row = 0 then None else Some (row - 1), win_down = row, win_column = column\<rparr>
      in if row = 0 \<or> 0 < column \<and> column = columns - 1 then (w ReplaceToZero, w ReplaceToZero)
         else if column = 0 then (w ReplaceToZero, w DoNothing)
         else (w DoNothing, w DoNothing))"

lemma first_row_pairs: "first_row_windows columns = map (scan_pair columns 0) [0..<columns]"
  by (simp add: first_row_windows_def scan_pair_def Let_def)

lemma row_pairs:
  assumes "0 < columns"
  shows "row_windows columns row = map (scan_pair columns (row + 1)) [0..<columns]"
proof (cases "columns = 1")
  case True
  then show ?thesis by (simp add: row_windows_def scan_pair_def Let_def)
next
  case False
  then have u: "[0..<columns] = 0 # [1..<columns - 1] @ [columns - 1]"
    using assms by (cases columns) (auto simp: upt_rec [of 0] simp del: upt_Suc intro: upt_Suc_append)
  have "map (scan_pair columns (row + 1)) [1..<columns - 1] = map (\<lambda>column.
      let w = \<lparr>win_border = DoNothing, win_up = Some row, win_down = row + 1, win_column = column\<rparr> in (w, w))
      [1..<columns - 1]"
    by (auto simp: scan_pair_def Let_def)
  then show ?thesis
    using assms False unfolding u by (simp add: row_windows_def scan_pair_def Let_def)
qed

lemma scan_order:
  assumes "0 < img_rows v" and "0 < img_columns v"
  shows "first_row_windows (img_columns v) @ concat (map (row_windows (img_columns v)) [0..<img_rows v - 1]) =
    map (\<lambda>k. scan_pair (img_columns v) (k div img_columns v) (k mod img_columns v)) [0..<img_rows v * img_columns v]"
proof -
  let ?w = "img_columns v"
  have rows: "[0..<img_rows v] = 0 # map Suc [0..<img_rows v - 1]"
    using assms(1) by (cases "img_rows v") (simp_all add: map_Suc_upt upt_conv_Cons del: upt_Suc)
  have windows: "row_windows ?w = (\<lambda>r. map (scan_pair ?w (Suc r)) [0..<?w])"
    using row_pairs [OF assms(2)] by (intro ext) simp
  have "first_row_windows ?w @ concat (map (row_windows ?w) [0..<img_rows v - 1]) =
      concat (map (\<lambda>r. map (scan_pair ?w r) [0..<?w]) [0..<img_rows v])"
    using windows unfolding rows by (simp add: first_row_pairs comp_def)
  then show ?thesis using concat_rows [OF assms(2)] by simp
qed

lemma scan_pair_windows:
  assumes "p \<in> grid v"
  shows "window_at False v (fst (scan_pair (img_columns v) (fst p) (snd p))) p"
    "window_at True v (snd (scan_pair (img_columns v) (fst p) (snd p))) p"
  using assms by (auto simp: scan_pair_def window_at_def grid_def Let_def)

section \<open>The invariant of the scan\<close>

text \<open>The pixels before the \<open>k\<close>-th in the order of the scan, and the label a pixel has.\<close>

definition processed :: "view \<Rightarrow> nat \<Rightarrow> pixel set" where
  "processed v k = {p \<in> grid v. fst p * img_columns v + snd p < k}"

definition label_at :: "view \<Rightarrow> nat list \<Rightarrow> pixel \<Rightarrow> nat" where
  "label_at v lmem p = lmem ! (fst p * img_columns v + snd p)"

definition labelled :: "connectivity \<Rightarrow> pixel set \<Rightarrow> pixel set \<Rightarrow> view \<Rightarrow> nat list \<Rightarrow> label_trees \<Rightarrow> bool" where
  "labelled conn P F v lmem t \<longleftrightarrow>
     forest (eq_labels t) \<and> next_free t = length (eq_labels t) \<and> next_free t \<le> labels_size t \<and>
     length lmem = img_rows v * img_columns v \<and>
     (\<forall>p \<in> P - F. label_at v lmem p = 0) \<and> (\<forall>p \<in> F. 0 < label_at v lmem p \<and> label_at v lmem p < next_free t) \<and>
     (\<forall>p \<in> F. \<forall>q \<in> F. rep (eq_labels t) (label_at v lmem p) = rep (eq_labels t) (label_at v lmem q) \<longleftrightarrow>
       linked conn F p q) \<and>
     (\<exists>S \<subseteq> F. scattered conn S \<and> next_free t = card S + 1)"

lemma position_less: "p \<in> grid v \<Longrightarrow> fst p * img_columns v + snd p < img_rows v * img_columns v"
proof -
  assume "p \<in> grid v"
  then have "(fst p + 1) * img_columns v \<le> img_rows v * img_columns v" "snd p < img_columns v"
    using mult_le_mono1 [of "fst p + 1" "img_rows v" "img_columns v"] by (simp_all add: grid_def)
  then show ?thesis by simp
qed

lemma position_inj:
  assumes "p \<in> grid v" and "q \<in> grid v" and "fst p * img_columns v + snd p = fst q * img_columns v + snd q"
  shows "p = q"
proof -
  have "(fst p * img_columns v + snd p) div img_columns v = fst p" "(fst p * img_columns v + snd p) mod img_columns v = snd p"
    "(fst q * img_columns v + snd q) div img_columns v = fst q" "(fst q * img_columns v + snd q) mod img_columns v = snd q"
    using assms(1,2) by (auto simp: grid_def)
  then show ?thesis using assms(3) by (metis prod.expand)
qed

lemma label_at_update:
  assumes "p \<in> grid v" and "q \<in> grid v" and "length lmem = img_rows v * img_columns v"
  shows "label_at v (lmem[fst p * img_columns v + snd p := l]) q = (if q = p then l else label_at v lmem q)"
  using assms position_less [OF assms(1)] position_inj [OF assms(1,2)]
  by (auto simp: label_at_def nth_list_update)

text \<open>A background pixel gets label 0.\<close>

lemma labelled_background:
  assumes "labelled conn P F v lmem t" and "p \<in> grid v" and "P \<subseteq> grid v" and "F \<subseteq> P" and "p \<notin> P"
  shows "labelled conn (insert p P) F v (lmem[fst p * img_columns v + snd p := 0]) t"
proof -
  have len: "length lmem = img_rows v * img_columns v" using assms(1) by (simp add: labelled_def)
  have same: "label_at v (lmem[fst p * img_columns v + snd p := 0]) q = label_at v lmem q" if "q \<in> P" for q
    using label_at_update [OF assms(2) _ len, of q] that assms(3,5) by auto
  have "label_at v (lmem[fst p * img_columns v + snd p := 0]) p = 0"
    using label_at_update [OF assms(2) assms(2) len] by simp
  then have "\<forall>q \<in> insert p P - F. label_at v (lmem[fst p * img_columns v + snd p := 0]) q = 0"
    using assms(1) same by (auto simp: labelled_def)
  moreover have "\<forall>q \<in> F. label_at v (lmem[fst p * img_columns v + snd p := 0]) q = label_at v lmem q"
    using same assms(4) by blast
  ultimately show ?thesis
    using assms(1) len unfolding labelled_def by (elim conjE, intro conjI) simp_all
qed

text \<open>
  An obstacle pixel gets a label whose tree joins the groups of some of its neighbours, to which
  all others are connected; or a new tree, if it has none.
\<close>

lemma labelled_obstacle:
  assumes inv: "labelled conn P F v lmem t" and p: "p \<in> grid v" "p \<notin> P" and P: "P \<subseteq> grid v" "F \<subseteq> P"
    and t': "forest (eq_labels t')" "next_free t' = length (eq_labels t')" "next_free t' \<le> labels_size t'"
    and l: "0 < l" "l < next_free t'" "next_free t \<le> next_free t'"
    and S: "S \<subseteq> neighbours conn F p" "\<forall>n \<in> neighbours conn F p. \<exists>s \<in> S. linked conn F n s"
    and reps: "\<forall>i. 0 < i \<and> i < next_free t \<longrightarrow> rep (eq_labels t') i =
      (if \<exists>s \<in> S. rep (eq_labels t) i = rep (eq_labels t) (label_at v lmem s) then rep (eq_labels t') l
       else rep (eq_labels t) i)"
    and joined: "(\<exists>s \<in> S. rep (eq_labels t') l = rep (eq_labels t) (label_at v lmem s)) \<and> next_free t' = next_free t \<or>
      S = {} \<and> (\<forall>i. 0 < i \<and> i < next_free t \<longrightarrow> rep (eq_labels t') l \<noteq> rep (eq_labels t) i) \<and> next_free t' = next_free t + 1"
  shows "labelled conn (insert p P) (insert p F) v (lmem[fst p * img_columns v + snd p := l]) t'"
proof -
  let ?lm = "lmem[fst p * img_columns v + snd p := l]"
  let ?r = "\<lambda>q. rep (eq_labels t) (label_at v lmem q)"
  let ?r' = "\<lambda>q. rep (eq_labels t') (label_at v ?lm q)"
  let ?m = "rep (eq_labels t') l"
  have len: "length lmem = img_rows v * img_columns v" using inv by (simp add: labelled_def)
  have pF: "p \<notin> F" using p P by auto
  have lab: "label_at v ?lm q = label_at v lmem q" if "q \<in> P" for q
    using label_at_update [OF p(1) _ len, of q] that P(1) p(2) by auto
  have labp: "label_at v ?lm p = l" using label_at_update [OF p(1) p(1) len] by simp
  have range: "\<forall>q \<in> F. 0 < label_at v lmem q \<and> label_at v lmem q < next_free t"
    and eqv: "\<forall>x \<in> F. \<forall>y \<in> F. ?r x = ?r y \<longleftrightarrow> linked conn F x y"
    and zero: "\<forall>q \<in> P - F. label_at v lmem q = 0"
    using inv unfolding labelled_def by blast+
  have SF: "S \<subseteq> F" using S(1) by (auto simp: neighbours_def)
  define X where "X x \<longleftrightarrow> (\<exists>s \<in> S. ?r x = ?r s)" for x
  have X: "X x \<longleftrightarrow> (\<exists>n \<in> neighbours conn F p. linked conn F x n)" if "x \<in> F" for x
  proof
    assume "X x"
    then show "\<exists>n \<in> neighbours conn F p. linked conn F x n" using eqv that SF S(1) unfolding X_def by blast
  next
    assume "\<exists>n \<in> neighbours conn F p. linked conn F x n"
    then obtain s where "s \<in> S" "linked conn F x s" using S(2) linked_trans by blast
    then show "X x" using eqv that SF unfolding X_def by blast
  qed
  have r': "?r' x = (if X x then ?m else ?r x)" if "x \<in> F" for x
  proof -
    have "label_at v ?lm x = label_at v lmem x" using lab that P(2) by blast
    moreover have "0 < label_at v lmem x \<and> label_at v lmem x < next_free t" using range that by blast
    ultimately show ?thesis using reps unfolding X_def by simp
  qed
  have mX: "?r x = ?m \<Longrightarrow> X x" if "x \<in> F" for x
    using joined range that unfolding X_def by (metis (no_types, lifting))
  have Xc: "X x = X y" if "?r x = ?r y" for x y using that by (simp add: X_def)
  have pairs: "?r' x = ?r' y \<longleftrightarrow> linked conn (insert p F) x y" if "x \<in> F" "y \<in> F" for x y
  proof -
    have "?r' x = ?r' y \<longleftrightarrow> X x \<and> X y \<or> ?r x = ?r y"
      using r' [OF that(1)] r' [OF that(2)] mX [OF that(1)] mX [OF that(2)] Xc [of x y]
      by (cases "X x"; cases "X y") (simp_all, metis+)
    also have "\<dots> \<longleftrightarrow> X x \<and> X y \<or> linked conn F x y" using eqv that by blast
    finally show ?thesis using linked_insert [OF that pF] X that by blast
  qed
  have new: "?r' p = ?r' y \<longleftrightarrow> linked conn (insert p F) p y" if "y \<in> F" for y
  proof -
    have "?r' p = ?r' y \<longleftrightarrow> X y" using r' [OF that] mX [OF that] labp by auto
    then show ?thesis using linked_insert_new [OF that pF] X [OF that] by simp
  qed
  have "\<exists>T \<subseteq> insert p F. scattered conn T \<and> next_free t' = card T + 1"
  proof -
    obtain T where T: "T \<subseteq> F" "scattered conn T" "next_free t = card T + 1"
      using inv by (auto simp: labelled_def)
    show ?thesis
    proof (cases "next_free t' = next_free t")
      case True
      then show ?thesis using T by auto
    next
      case False
      then have "S = {}" "next_free t' = next_free t + 1" using joined by auto
      then have "neighbours conn F p = {}" using S(2) by auto
      then have T': "scattered conn (insert p T)"
        using T by (intro scattered_insert) (auto simp: neighbours_def)
      have "finite T" using T(1) P finite_subset [OF _ finite_grid [of v]] by blast
      moreover have "p \<notin> T" using T(1) pF by blast
      ultimately have "card (insert p T) = card T + 1" by simp
      then have "next_free t' = card (insert p T) + 1" using T(3) \<open>next_free t' = next_free t + 1\<close> by linarith
      moreover have "insert p T \<subseteq> insert p F" using T(1) by blast
      ultimately show ?thesis using T' by blast
    qed
  qed
  moreover have "\<forall>x \<in> insert p F. \<forall>y \<in> insert p F. ?r' x = ?r' y \<longleftrightarrow> linked conn (insert p F) x y"
  proof (intro ballI)
    fix x y assume xy: "x \<in> insert p F" "y \<in> insert p F"
    consider "x = p" "y = p" | "x = p" "y \<in> F" | "x \<in> F" "y = p" | "x \<in> F" "y \<in> F" using xy by blast
    then show "?r' x = ?r' y \<longleftrightarrow> linked conn (insert p F) x y"
    proof cases
      case 3
      then show ?thesis using new [of x] linked_sym by metis
    qed (use pairs new in simp_all)
  qed
  moreover have "\<forall>q \<in> insert p P - insert p F. label_at v ?lm q = 0" using zero lab by auto
  moreover have "\<forall>q \<in> insert p F. 0 < label_at v ?lm q \<and> label_at v ?lm q < next_free t'"
    using range lab labp l P(2) by fastforce
  ultimately show ?thesis using t' len unfolding labelled_def by simp
qed

section \<open>One pixel\<close>

text \<open>The labels in the buffer of the scan, and what the windows of a pixel read.\<close>

abbreviation label_view :: "view \<Rightarrow> view" where
  "label_view v \<equiv> buffer_view (img_rows v) (img_columns v)"

lemma grid_label_view [simp]: "grid (label_view v) = grid v"
  by (simp add: grid_def buffer_view_def)

lemma pointer_label_view [simp]: "pointer (label_view v) p = fst p * img_columns v + snd p"
  by (simp add: pointer_def image_row_def buffer_view_def)

lemma view_ok_labels: "length lmem = img_rows v * img_columns v \<Longrightarrow> view_ok (label_view v) lmem"
  using position_less by (simp add: view_ok_def) (simp add: buffer_view_def)

lemma value_at_label:
  "q \<in> grid v \<Longrightarrow> value_at (label_view v) lmem (int (fst q)) (int (snd q)) = label_at v lmem q"
  by (simp add: value_at_def label_at_def grid_def buffer_view_def pointer_def image_row_def)

text \<open>The four neighbours that the scan has already seen.\<close>

definition before :: "view \<Rightarrow> pixel \<Rightarrow> pixel set" where
  "before v p = {q \<in> grid v. fst q < fst p \<or> fst q = fst p \<and> snd q < snd p}"

lemma before_processed:
  assumes "p \<in> grid v"
  shows "processed v (fst p * img_columns v + snd p) = before v p"
proof -
  have "fst q * img_columns v + snd q < fst p * img_columns v + snd p \<longleftrightarrow> fst q < fst p \<or> fst q = fst p \<and> snd q < snd p"
    if "q \<in> grid v" for q
  proof (cases "fst q" "fst p" rule: linorder_cases)
    case less
    then have "(fst q + 1) * img_columns v \<le> fst p * img_columns v" by (intro mult_le_mono1) simp
    then show ?thesis using that less by (simp add: grid_def)
  next
    case greater
    then have "(fst p + 1) * img_columns v \<le> fst q * img_columns v" by (intro mult_le_mono1) simp
    then show ?thesis using assms greater by (simp add: grid_def)
  qed simp
  then show ?thesis by (auto simp: processed_def before_def)
qed

lemma adjacent8_before:
  "adjacent Way8 (r, c) (r', c') \<and> (r' < r \<or> r' = r \<and> c' < c) \<longleftrightarrow>
    0 < r \<and> r' = r - 1 \<and> (c' = c \<or> c' = c + 1 \<or> 0 < c \<and> c' = c - 1) \<or> 0 < c \<and> r' = r \<and> c' = c - 1"
  by simp presburger

lemma adjacent4_before:
  "adjacent Way4 (r, c) (r', c') \<and> (r' < r \<or> r' = r \<and> c' < c) \<longleftrightarrow>
    0 < r \<and> r' = r - 1 \<and> c' = c \<or> 0 < c \<and> r' = r \<and> c' = c - 1"
  by simp presburger

text \<open>The three ways a pixel gets its label.\<close>

lemma label_single:
  assumes inv: "labelled conn P F v lmem t" and p: "p \<in> grid v" "p \<notin> P" and P: "P \<subseteq> grid v" "F \<subseteq> P"
    and s: "s \<in> neighbours conn F p" "\<forall>n \<in> neighbours conn F p. linked conn F n s"
  shows "labelled conn (insert p P) (insert p F) v (lmem[fst p * img_columns v + snd p := label_at v lmem s]) t"
proof (rule labelled_obstacle [OF inv p P, where S = "{s}"])
  have "s \<in> F" using s(1) by (simp add: neighbours_def)
  then show "0 < label_at v lmem s" "label_at v lmem s < next_free t"
    using inv unfolding labelled_def by blast+
qed (use inv s in \<open>simp_all add: labelled_def\<close>)

lemma label_union:
  assumes inv: "labelled conn P F v lmem t" and p: "p \<in> grid v" "p \<notin> P" and P: "P \<subseteq> grid v" "F \<subseteq> P"
    and s: "s1 \<in> neighbours conn F p" "s2 \<in> neighbours conn F p"
      "\<forall>n \<in> neighbours conn F p. linked conn F n s1 \<or> linked conn F n s2"
  shows "\<exists>m t'. unionTrees (label_at v lmem s1) (label_at v lmem s2) t = Some (m, t') \<and> labels_size t' = labels_size t \<and>
    labelled conn (insert p P) (insert p F) v (lmem[fst p * img_columns v + snd p := m]) t'"
proof -
  let ?i = "label_at v lmem s1" and ?j = "label_at v lmem s2"
  have len: "forest (eq_labels t)" "next_free t = length (eq_labels t)" "next_free t \<le> labels_size t"
    using inv unfolding labelled_def by blast+
  have "s1 \<in> F" "s2 \<in> F" using s(1,2) by (simp_all add: neighbours_def)
  then have ij: "0 < ?i" "?i < next_free t" "0 < ?j" "?j < next_free t"
    using inv unfolding labelled_def by blast+
  define m where "m = min (rep (eq_labels t) ?i) (rep (eq_labels t) ?j)"
  obtain ls where u: "unionTrees ?i ?j t = Some (m, t\<lparr>eq_labels := ls\<rparr>)" "forest ls" "length ls = length (eq_labels t)"
    "\<forall>k < length ls. rep ls k = (if rep (eq_labels t) k = rep (eq_labels t) ?i \<or> rep (eq_labels t) k = rep (eq_labels t) ?j
      then m else rep (eq_labels t) k)"
    using unionTrees_spec [OF len(1), of ?i ?j] ij len(2) unfolding m_def by auto
  have mi: "m = rep (eq_labels t) ?i \<or> m = rep (eq_labels t) ?j" by (auto simp: m_def min_def)
  have m: "0 < m" "m < next_free t"
    using mi rep_pos [OF len(1)] rep_lt [of _ "eq_labels t"] ij len(2) by auto
  have "rep (eq_labels t) m = m" using mi rep_rep [OF len(1)] ij len(2) by auto
  then have rm: "rep ls m = m" using u(3,4) m len(2) mi by auto
  have "labelled conn (insert p P) (insert p F) v (lmem[fst p * img_columns v + snd p := m]) (t\<lparr>eq_labels := ls\<rparr>)"
    by (rule labelled_obstacle [OF inv p P, where S = "{s1, s2}"])
      (use u(2,3,4) m len(2,3) s mi rm in \<open>auto\<close>)
  then show ?thesis using u(1) by simp
qed

lemma label_new:
  assumes inv: "labelled conn P F v lmem t" and p: "p \<in> grid v" "p \<notin> P" and P: "P \<subseteq> grid v" "F \<subseteq> P"
    and none: "neighbours conn F p = {}"
  shows "makeLabel t = Inl LabelOverflow \<and> (\<exists>S \<subseteq> insert p F. scattered conn S \<and> card S = labels_size t) \<or>
    (\<exists>l t'. makeLabel t = Inr (l, t') \<and> labels_size t' = labels_size t \<and>
      labelled conn (insert p P) (insert p F) v (lmem[fst p * img_columns v + snd p := l]) t')"
proof -
  have len: "forest (eq_labels t)" "next_free t = length (eq_labels t)" "next_free t \<le> labels_size t"
    using inv unfolding labelled_def by blast+
  show ?thesis
  proof (cases "next_free t = labels_size t")
    case True
    obtain T where T: "T \<subseteq> F" "scattered conn T" "next_free t = card T + 1"
      using inv by (auto simp: labelled_def)
    have "scattered conn (insert p T)"
      using T none by (intro scattered_insert) (auto simp: neighbours_def)
    moreover have "finite T" "p \<notin> T" using T(1) P p(2) finite_subset [OF _ finite_grid [of v]] by blast+
    then have "card (insert p T) = labels_size t" using T(3) True by simp
    moreover have "insert p T \<subseteq> insert p F" using T(1) by blast
    ultimately have "\<exists>S \<subseteq> insert p F. scattered conn S \<and> card S = labels_size t" by blast
    then show ?thesis using True by (simp add: makeLabel_def)
  next
    case False
    let ?n = "next_free t"
    let ?t = "t\<lparr>eq_labels := eq_labels t @ [?n], next_free := ?n + 1\<rparr>"
    have pos: "0 < ?n" using len(1,2) by (simp add: forest_def)
    have f: "forest (eq_labels ?t)"
      using len(1,2) pos by (auto simp: forest_def nth_append less_Suc_eq)
    have rn: "rep (eq_labels ?t) ?n = ?n" using len(2) by (intro rep_root) (simp add: nth_append)
    have old: "rep (eq_labels ?t) i = rep (eq_labels t) i \<and> rep (eq_labels t) i < ?n" if "i < ?n" for i
      using that len(2) rep_append [of i "eq_labels t"] rep_lt [of i "eq_labels t"] by simp
    have differ: "rep (eq_labels ?t) ?n \<noteq> rep (eq_labels t) i" if "i < ?n" for i
      using old [OF that] rn by linarith
    have "labelled conn (insert p P) (insert p F) v (lmem[fst p * img_columns v + snd p := ?n]) ?t"
    proof (rule labelled_obstacle [OF inv p P f, where S = "{}"])
      show "\<forall>i. 0 < i \<and> i < next_free t \<longrightarrow> rep (eq_labels ?t) i =
          (if \<exists>s \<in> {}. rep (eq_labels t) i = rep (eq_labels t) (label_at v lmem s) then rep (eq_labels ?t) ?n
           else rep (eq_labels t) i)"
        using old by auto
      show "(\<exists>s \<in> {}. rep (eq_labels ?t) ?n = rep (eq_labels t) (label_at v lmem s)) \<and> next_free ?t = next_free t \<or>
          {} = {} \<and> (\<forall>i. 0 < i \<and> i < next_free t \<longrightarrow> rep (eq_labels ?t) ?n \<noteq> rep (eq_labels t) i) \<and>
          next_free ?t = next_free t + 1"
        using differ by auto
    qed (use none len pos False in simp_all)
    then show ?thesis using False by (simp add: makeLabel_def)
  qed
qed

end
