(* ===== verification/Denoise_Components.thy ===== *)
theory Denoise_Components
  imports Denoise_Scan
begin

text \<open>
  One pixel of the scan under either connectivity, the whole scan, and what
  \<open>connectedComponents\<close> returns: labels that tell the groups of obstacle pixels apart.
\<close>

section \<open>What a pixel sees\<close>

lemma value_background:
  assumes "is_bg 0"
  shows "\<not> is_bg (value_at v mem (int r) (int c)) \<longleftrightarrow> (r, c) \<in> obstacles is_bg v mem"
    "0 < r \<Longrightarrow> \<not> is_bg (value_at v mem (int r - 1) (int c)) \<longleftrightarrow> (r - 1, c) \<in> obstacles is_bg v mem"
    "0 < r \<Longrightarrow> \<not> is_bg (value_at v mem (int r - 1) (int c + 1)) \<longleftrightarrow> (r - 1, c + 1) \<in> obstacles is_bg v mem"
    "0 < r \<Longrightarrow> 0 < c \<Longrightarrow> \<not> is_bg (value_at v mem (int r - 1) (int c - 1)) \<longleftrightarrow> (r - 1, c - 1) \<in> obstacles is_bg v mem"
    "0 < c \<Longrightarrow> \<not> is_bg (value_at v mem (int r) (int c - 1)) \<longleftrightarrow> (r, c - 1) \<in> obstacles is_bg v mem"
  using assms by (auto simp: value_at_def obstacles_def grid_def nat_diff_distrib nat_add_distrib)

lemma value_outside: "value_at v mem (int 0 - 1) c = 0" "value_at v mem r (int 0 - 1) = 0"
  by (simp_all add: value_at_def)

definition seen_a where "seen_a is_bg v mem r c \<longleftrightarrow> 0 < r \<and> 0 < c \<and> (r - 1, c - 1) \<in> obstacles is_bg v mem"
definition seen_b where "seen_b is_bg v mem r c \<longleftrightarrow> 0 < r \<and> (r - 1, c) \<in> obstacles is_bg v mem"
definition seen_c where "seen_c is_bg v mem r c \<longleftrightarrow> 0 < r \<and> (r - 1, c + 1) \<in> obstacles is_bg v mem"
definition seen_d where "seen_d is_bg v mem r c \<longleftrightarrow> 0 < c \<and> (r, c - 1) \<in> obstacles is_bg v mem"

lemmas seen_defs = seen_a_def seen_b_def seen_c_def seen_d_def

lemma seen_values:
  assumes "is_bg 0"
  shows "\<not> is_bg (value_at v mem (int r - 1) (int c - 1)) \<longleftrightarrow> seen_a is_bg v mem r c"
    "\<not> is_bg (value_at v mem (int r - 1) (int c)) \<longleftrightarrow> seen_b is_bg v mem r c"
    "\<not> is_bg (value_at v mem (int r - 1) (int c + 1)) \<longleftrightarrow> seen_c is_bg v mem r c"
    "\<not> is_bg (value_at v mem (int r) (int c - 1)) \<longleftrightarrow> seen_d is_bg v mem r c"
  using value_background [where is_bg = is_bg and v = v and mem = mem and r = r and c = c, OF assms] value_outside [of v mem] assms
  by (cases "r = 0"; cases "c = 0"; simp add: seen_defs)+

lemma neighbours8_seen:
  fixes r c
  shows "q \<in> neighbours Way8 (obstacles is_bg v mem \<inter> before v (r, c)) (r, c) \<longleftrightarrow>
    seen_a is_bg v mem r c \<and> q = (r - 1, c - 1) \<or>
    seen_b is_bg v mem r c \<and> q = (r - 1, c) \<or>
    seen_c is_bg v mem r c \<and> q = (r - 1, c + 1) \<or>
    seen_d is_bg v mem r c \<and> q = (r, c - 1)"
proof -
  obtain r' c' where q: "q = (r', c')" by force
  have "q \<in> neighbours Way8 (obstacles is_bg v mem \<inter> before v (r, c)) (r, c) \<longleftrightarrow> q \<in> obstacles is_bg v mem \<and>
      (adjacent Way8 (r, c) (r', c') \<and> (r' < r \<or> r' = r \<and> c' < c))"
    by (auto simp: q neighbours_def before_def obstacles_def)
  then show ?thesis unfolding adjacent8_before seen_defs by (metis q prod.inject)
qed

lemma neighbours4_seen:
  fixes r c
  shows "q \<in> neighbours Way4 (obstacles is_bg v mem \<inter> before v (r, c)) (r, c) \<longleftrightarrow>
    seen_b is_bg v mem r c \<and> q = (r - 1, c) \<or>
    seen_d is_bg v mem r c \<and> q = (r, c - 1)"
proof -
  obtain r' c' where q: "q = (r', c')" by force
  have "q \<in> neighbours Way4 (obstacles is_bg v mem \<inter> before v (r, c)) (r, c) \<longleftrightarrow> q \<in> obstacles is_bg v mem \<and>
      (adjacent Way4 (r, c) (r', c') \<and> (r' < r \<or> r' = r \<and> c' < c))"
    by (auto simp: q neighbours_def before_def obstacles_def)
  then show ?thesis unfolding adjacent4_before seen_defs by (metis q prod.inject)
qed

text \<open>The label window reads the label of a neighbour that is an obstacle.\<close>

lemma seen_labels:
  assumes "length lmem = img_rows v * img_columns v" and "window_at True (label_view v) lw (r, c)" and "(r, c) \<in> grid v"
  shows "seen_a is_bg v mem r c \<Longrightarrow> win_a lw (label_view v) lmem = Some (label_at v lmem (r - 1, c - 1))"
    "seen_c is_bg v mem r c \<Longrightarrow> win_c lw (label_view v) lmem = Some (label_at v lmem (r - 1, c + 1))"
    "seen_d is_bg v mem r c \<Longrightarrow> win_d lw (label_view v) lmem = Some (label_at v lmem (r, c - 1))"
    "win_b lw (label_view v) lmem = Some (if r = 0 then 0 else label_at v lmem (r - 1, c))"
proof -
  note reads = label_window_reads [OF view_ok_labels [OF assms(1)] assms(2)] 
  have g: "(r, c) \<in> grid (label_view v)" using assms(3) by simp
  have val: "value_at (label_view v) lmem (int r') (int c') = label_at v lmem (r', c')" if "(r', c') \<in> grid v" for r' c'
    using value_at_label [OF that, of lmem] by simp
  {
    assume "seen_a is_bg v mem r c"
    then have "0 < c" "0 < r" "(r - 1, c - 1) \<in> grid v" by (auto simp: seen_defs obstacles_def)
    then show "win_a lw (label_view v) lmem = Some (label_at v lmem (r - 1, c - 1))"
      using reads(1) [OF g] val [of "r - 1" "c - 1"] by (simp add: of_nat_diff)
  next
    assume "seen_c is_bg v mem r c"
    then have "0 < r" "(r - 1, c + 1) \<in> grid v" by (auto simp: seen_defs obstacles_def)
    then show "win_c lw (label_view v) lmem = Some (label_at v lmem (r - 1, c + 1))"
      using reads(3) [OF g] val [of "r - 1" "c + 1"] by (simp add: of_nat_diff grid_def buffer_view_def add.commute)
  next
    assume "seen_d is_bg v mem r c"
    then have "0 < c" "(r, c - 1) \<in> grid v" by (auto simp: seen_defs obstacles_def)
    then show "win_d lw (label_view v) lmem = Some (label_at v lmem (r, c - 1))"
      using reads(4) [OF g] val [of r "c - 1"] by (simp add: of_nat_diff)
  }
  show "win_b lw (label_view v) lmem = Some (if r = 0 then 0 else label_at v lmem (r - 1, c))"
  proof (cases "r = 0")
    case True
    then show ?thesis using reads(2) [OF g] value_outside(1) [of "label_view v" lmem "int c"] by simp
  next
    case False
    then have "(r - 1, c) \<in> grid v" using assms(3) by (auto simp: grid_def)
    then show ?thesis using reads(2) [OF g] val [of "r - 1" c] False by (simp add: of_nat_diff)
  qed
qed

section \<open>One pixel\<close>

text \<open>A pass either continues the labelling or has run out of labels, one per scattered pixel.\<close>

definition pass_continues ::
  "connectivity \<Rightarrow> pixel set \<Rightarrow> view \<Rightarrow> pixel \<Rightarrow> nat list \<Rightarrow> label_trees \<Rightarrow>
    (label_overflow + nat \<times> label_trees) option \<Rightarrow> bool" where
  "pass_continues conn obs v p lmem t res \<longleftrightarrow>
     (res = Some (Inl LabelOverflow) \<and> (\<exists>S \<subseteq> obs. scattered conn S \<and> card S = labels_size t)) \<or>
     (\<exists>l t'. res = Some (Inr (l, t')) \<and> labels_size t' = labels_size t \<and>
       labelled conn (insert p (before v p)) (obs \<inter> insert p (before v p)) v (lmem[fst p * img_columns v + snd p := l]) t')"

lemma pass_background:
  assumes "labelled conn (before v p) (obs \<inter> before v p) v lmem t" and "p \<in> grid v" and "p \<notin> obs"
  shows "pass_continues conn obs v p lmem t (Some (Inr (0, t)))"
proof -
  have "obs \<inter> insert p (before v p) = obs \<inter> before v p" using assms(3) by blast
  moreover have "p \<notin> before v p" "before v p \<subseteq> grid v" by (auto simp: before_def)
  ultimately show ?thesis
    using labelled_background [OF assms(1,2)] unfolding pass_continues_def by simp
qed

lemma pass_obstacle:
  fixes p
  assumes inv: "labelled conn (before v p) (obs \<inter> before v p) v lmem t" and "p \<in> grid v" and "p \<in> obs"
  defines "N \<equiv> neighbours conn (obs \<inter> before v p) p" and "F \<equiv> obs \<inter> before v p"
  shows "s \<in> N \<Longrightarrow> \<forall>n \<in> N. linked conn F n s \<Longrightarrow>
      pass_continues conn obs v p lmem t (Some (Inr (label_at v lmem s, t)))"
    "s1 \<in> N \<Longrightarrow> s2 \<in> N \<Longrightarrow> \<forall>n \<in> N. linked conn F n s1 \<or> linked conn F n s2 \<Longrightarrow>
      pass_continues conn obs v p lmem t (map_option Inr (unionTrees (label_at v lmem s1) (label_at v lmem s2) t))"
    "N = {} \<Longrightarrow> pass_continues conn obs v p lmem t (Some (makeLabel t))"
proof -
  have F: "obs \<inter> insert p (before v p) = insert p F" using assms(3) by (auto simp: F_def)
  have P: "p \<notin> before v p" "before v p \<subseteq> grid v" "F \<subseteq> before v p" by (auto simp: before_def F_def)
  note facts = inv [folded F_def] assms(2) P
  have N: "N = neighbours conn F p" by (simp add: N_def F_def)
  {
    assume "s \<in> N" "\<forall>n \<in> N. linked conn F n s"
    then show "pass_continues conn obs v p lmem t (Some (Inr (label_at v lmem s, t)))"
      using label_single [OF facts] F unfolding pass_continues_def N by simp
  next
    assume "s1 \<in> N" "s2 \<in> N" "\<forall>n \<in> N. linked conn F n s1 \<or> linked conn F n s2"
    then show "pass_continues conn obs v p lmem t (map_option Inr (unionTrees (label_at v lmem s1) (label_at v lmem s2) t))"
      using label_union [OF facts, of s1 s2] F unfolding pass_continues_def N by auto
  next
    assume "N = {}"
    moreover have "insert p F \<subseteq> obs" using assms(3) by (auto simp: F_def)
    ultimately show "pass_continues conn obs v p lmem t (Some (makeLabel t))"
      using label_new [OF facts] F unfolding pass_continues_def N by (metis subset_trans)
  }
qed

lemma pass_reads:
  assumes "view_ok v mem" and "is_bg 0" and "(r, c) \<in> grid v" and "window_at False v iw (r, c)"
  shows "mem_at mem (win_anchor iw v) = Some (mem ! pointer v (r, c))"
    "\<exists>x. win_a iw v mem = Some x \<and> (is_bg x \<longleftrightarrow> \<not> seen_a is_bg v mem r c)"
    "\<exists>x. win_b iw v mem = Some x \<and> (is_bg x \<longleftrightarrow> \<not> seen_b is_bg v mem r c)"
    "\<exists>x. win_c iw v mem = Some x \<and> (is_bg x \<longleftrightarrow> \<not> seen_c is_bg v mem r c)"
    "\<exists>x. win_d iw v mem = Some x \<and> (is_bg x \<longleftrightarrow> \<not> seen_d is_bg v mem r c)"
  using assms(1,3) image_window_reads [OF assms(1,4,3)] win_anchor_at [OF assms(4)]
    seen_values [where is_bg = is_bg and v = v and mem = mem and r = r and c = c, OF assms(2)]
  by (auto simp: view_ok_def mem_at_def)

lemma seen_linked8:
  fixes r c is_bg v mem
  defines "F \<equiv> obstacles is_bg v mem \<inter> before v (r, c)"
  shows "seen_b is_bg v mem r c \<Longrightarrow> \<forall>n \<in> neighbours Way8 F (r, c). linked Way8 F n (r - 1, c)"
    "seen_a is_bg v mem r c \<Longrightarrow> seen_d is_bg v mem r c \<Longrightarrow> linked Way8 F (r, c - 1) (r - 1, c - 1)"
proof -
  have adj: "linked Way8 F n m" if "n \<in> neighbours Way8 F (r, c)" "m \<in> neighbours Way8 F (r, c)" "adjacent Way8 n m" for n m
    using that by (intro linked_adjacent) (auto simp: neighbours_def)
  note in_N = neighbours8_seen [where is_bg = is_bg and v = v and mem = mem and r = r and c = c, folded F_def]
  {
    assume b: "seen_b is_bg v mem r c"
    then have "(r - 1, c) \<in> neighbours Way8 F (r, c)" using in_N by simp
    moreover have "n = (r - 1, c) \<or> adjacent Way8 n (r - 1, c)" if "n \<in> neighbours Way8 F (r, c)" for n
      using that b unfolding in_N seen_defs by auto
    ultimately show "\<forall>n \<in> neighbours Way8 F (r, c). linked Way8 F n (r - 1, c)" using adj by (metis linked_refl)
  next
    assume "seen_a is_bg v mem r c" "seen_d is_bg v mem r c"
    then show "linked Way8 F (r, c - 1) (r - 1, c - 1)" using in_N by (intro adj) (auto simp: seen_defs)
  }
qed

lemma pass8_step:
  fixes r c
  assumes v: "view_ok v mem" "is_bg 0" and p: "(r, c) \<in> grid v" and w: "window_at False v iw (r, c)" "window_at True (label_view v) lw (r, c)"
    and inv: "labelled Way8 (before v (r, c)) (obstacles is_bg v mem \<inter> before v (r, c)) v lmem t"
  shows "pass_continues Way8 (obstacles is_bg v mem) v (r, c) lmem t (pass8 is_bg iw v mem lw (label_view v) lmem t)"
proof (cases "is_bg (mem ! pointer v (r, c))")
  case True
  then have "(r, c) \<notin> obstacles is_bg v mem" by (simp add: obstacles_def)
  moreover have "pass8 is_bg iw v mem lw (label_view v) lmem t = Some (Inr (0, t))"
    using pass_reads(1) [where is_bg = is_bg, OF v p w(1)] True by (simp add: pass8_def)
  ultimately show ?thesis using pass_background [OF inv p] by simp
next
  case False
  then have obs: "(r, c) \<in> obstacles is_bg v mem" using p by (simp add: obstacles_def)
  let ?F = "obstacles is_bg v mem \<inter> before v (r, c)"
  have len: "length lmem = img_rows v * img_columns v" using inv by (simp add: labelled_def)
  obtain xa xc xd where reads: "mem_at mem (win_anchor iw v) = Some (mem ! pointer v (r, c))"
      "win_a iw v mem = Some xa" "win_c iw v mem = Some xc" "win_d iw v mem = Some xd"
      "is_bg xa \<longleftrightarrow> \<not> seen_a is_bg v mem r c" "is_bg xc \<longleftrightarrow> \<not> seen_c is_bg v mem r c" "is_bg xd \<longleftrightarrow> \<not> seen_d is_bg v mem r c"
    using pass_reads [where is_bg = is_bg, OF v p w(1)] by blast
  note labels = seen_labels [OF len w(2) p]
  note pass = pass_obstacle [OF inv p obs]
  note in_N = neighbours8_seen [where is_bg = is_bg and v = v and mem = mem and r = r and c = c]
  note linked8 = seen_linked8 [where is_bg = is_bg and v = v and mem = mem and r = r and c = c]
  have range: "0 < label_at v lmem q" if "q \<in> ?F" for q using inv that unfolding labelled_def by blast
  have zero: "label_at v lmem q = 0" if "q \<in> before v (r, c)" "q \<notin> obstacles is_bg v mem" for q
    using inv that unfolding labelled_def by blast
  have b: "(if r = 0 then 0 else label_at v lmem (r - 1, c)) \<noteq> 0 \<longleftrightarrow> seen_b is_bg v mem r c"
  proof (cases "r = 0")
    case False
    then have "(r - 1, c) \<in> before v (r, c)" using p by (auto simp: before_def grid_def)
    then show ?thesis
      using range [of "(r - 1, c)"] zero [of "(r - 1, c)"] False
      by (cases "(r - 1, c) \<in> obstacles is_bg v mem") (simp_all add: seen_b_def)
  qed (simp add: seen_b_def)
  show ?thesis
  proof (cases "seen_b is_bg v mem r c")
    case True
    then have "pass8 is_bg iw v mem lw (label_view v) lmem t = Some (Inr (label_at v lmem (r - 1, c), t))"
      using reads labels(4) b False by (auto simp: pass8_def seen_b_def)
    moreover have "(r - 1, c) \<in> neighbours Way8 ?F (r, c)" using True in_N by simp
    ultimately show ?thesis using pass(1) linked8(1) [OF True] by simp
  next
    case nb: False
    then have lb: "win_b lw (label_view v) lmem = Some 0" using labels(4) b by auto
    have N: "q \<in> neighbours Way8 ?F (r, c) \<longleftrightarrow> seen_a is_bg v mem r c \<and> q = (r - 1, c - 1) \<or>
        seen_c is_bg v mem r c \<and> q = (r - 1, c + 1) \<or> seen_d is_bg v mem r c \<and> q = (r, c - 1)" for q
      using in_N nb by simp
    note eval = pass8_def reads lb False
    show ?thesis
    proof (cases "seen_c is_bg v mem r c"; cases "seen_a is_bg v mem r c"; cases "seen_d is_bg v mem r c")
      assume s: "seen_c is_bg v mem r c" "seen_a is_bg v mem r c" "seen_d is_bg v mem r c"
      show ?thesis using s by (simp add: eval labels(1-3)) (rule pass(2); use N s linked8(2) in auto)
    next
      assume s: "seen_c is_bg v mem r c" "seen_a is_bg v mem r c" "\<not> seen_d is_bg v mem r c"
      show ?thesis using s by (simp add: eval labels(1-3)) (rule pass(2); use N s in auto)
    next
      assume s: "seen_c is_bg v mem r c" "\<not> seen_a is_bg v mem r c" "seen_d is_bg v mem r c"
      show ?thesis using s by (simp add: eval labels(1-3)) (rule pass(2); use N s in auto)
    next
      assume s: "seen_c is_bg v mem r c" "\<not> seen_a is_bg v mem r c" "\<not> seen_d is_bg v mem r c"
      show ?thesis using s by (simp add: eval labels(1-3)) (rule pass(1); use N s in auto)
    next
      assume s: "\<not> seen_c is_bg v mem r c" "seen_a is_bg v mem r c" "seen_d is_bg v mem r c"
      show ?thesis using s by (simp add: eval labels(1-3)) (rule pass(1); use N s linked8(2) in auto)
    next
      assume s: "\<not> seen_c is_bg v mem r c" "seen_a is_bg v mem r c" "\<not> seen_d is_bg v mem r c"
      show ?thesis using s by (simp add: eval labels(1-3)) (rule pass(1); use N s in auto)
    next
      assume s: "\<not> seen_c is_bg v mem r c" "\<not> seen_a is_bg v mem r c" "seen_d is_bg v mem r c"
      show ?thesis using s by (simp add: eval labels(1-3)) (rule pass(1); use N s in auto)
    next
      assume s: "\<not> seen_c is_bg v mem r c" "\<not> seen_a is_bg v mem r c" "\<not> seen_d is_bg v mem r c"
      have "neighbours Way8 ?F (r, c) = {}" using N s by blast
      from pass(3) [OF this] show ?thesis using s by (simp add: eval)
    qed
  qed
qed

lemma pass4_step:
  fixes r c
  assumes v: "view_ok v mem" "is_bg 0" and p: "(r, c) \<in> grid v" and w: "window_at False v iw (r, c)" "window_at True (label_view v) lw (r, c)"
    and inv: "labelled Way4 (before v (r, c)) (obstacles is_bg v mem \<inter> before v (r, c)) v lmem t"
  shows "pass_continues Way4 (obstacles is_bg v mem) v (r, c) lmem t (pass4 is_bg iw v mem lw (label_view v) lmem t)"
proof (cases "is_bg (mem ! pointer v (r, c))")
  case True
  then have "(r, c) \<notin> obstacles is_bg v mem" by (simp add: obstacles_def)
  moreover have "pass4 is_bg iw v mem lw (label_view v) lmem t = Some (Inr (0, t))"
    using pass_reads(1) [where is_bg = is_bg, OF v p w(1)] True by (simp add: pass4_def)
  ultimately show ?thesis using pass_background [OF inv p] by simp
next
  case False
  then have obs: "(r, c) \<in> obstacles is_bg v mem" using p by (simp add: obstacles_def)
  let ?F = "obstacles is_bg v mem \<inter> before v (r, c)"
  have len: "length lmem = img_rows v * img_columns v" using inv by (simp add: labelled_def)
  obtain xb xd where reads: "mem_at mem (win_anchor iw v) = Some (mem ! pointer v (r, c))"
      "win_b iw v mem = Some xb" "win_d iw v mem = Some xd"
      "is_bg xb \<longleftrightarrow> \<not> seen_b is_bg v mem r c" "is_bg xd \<longleftrightarrow> \<not> seen_d is_bg v mem r c"
    using pass_reads [where is_bg = is_bg, OF v p w(1)] by blast
  note labels = seen_labels(3,4) [OF len w(2) p]
  note pass = pass_obstacle [OF inv p obs]
  note in_N = neighbours4_seen [where is_bg = is_bg and v = v and mem = mem and r = r and c = c]
  have lb: "win_b lw (label_view v) lmem = Some (label_at v lmem (r - 1, c))" if "seen_b is_bg v mem r c"
    using labels(2) that by (simp add: seen_b_def)
  note eval = pass4_def reads False
  show ?thesis
  proof (cases "seen_b is_bg v mem r c"; cases "seen_d is_bg v mem r c")
    assume s: "seen_b is_bg v mem r c" "seen_d is_bg v mem r c"
    show ?thesis using s by (simp add: eval labels(1) lb) (rule pass(2); use in_N s in auto)
  next
    assume s: "seen_b is_bg v mem r c" "\<not> seen_d is_bg v mem r c"
    show ?thesis using pass(1) [of "(r - 1, c)"] in_N s by (auto simp: eval lb)
  next
    assume s: "\<not> seen_b is_bg v mem r c" "seen_d is_bg v mem r c"
    show ?thesis using pass(1) [of "(r, c - 1)"] in_N s by (auto simp: eval labels(1))
  next
    assume s: "\<not> seen_b is_bg v mem r c" "\<not> seen_d is_bg v mem r c"
    have "neighbours Way4 ?F (r, c) = {}" using in_N s by blast
    from pass(3) [OF this] show ?thesis using s by (simp add: eval)
  qed
qed

section \<open>The whole scan\<close>

definition scan_continues ::
  "connectivity \<Rightarrow> pixel set \<Rightarrow> view \<Rightarrow> label_trees \<Rightarrow> (label_overflow + nat list \<times> label_trees) option \<Rightarrow> bool" where
  "scan_continues conn obs v t res \<longleftrightarrow>
     (res = Some (Inl LabelOverflow) \<and> (\<exists>S \<subseteq> obs. scattered conn S \<and> card S = labels_size t)) \<or>
     (\<exists>lmem' t'. res = Some (Inr (lmem', t')) \<and> labels_size t' = labels_size t \<and> labelled conn (grid v) obs v lmem' t')"

lemma processed_all: "processed v (img_rows v * img_columns v) = grid v"
  using position_less by (auto simp: processed_def)

lemma pixel_number:
  assumes "k < img_rows v * img_columns v"
  shows "(k div img_columns v, k mod img_columns v) \<in> grid v"
    "k div img_columns v * img_columns v + k mod img_columns v = k"
proof -
  have "0 < img_columns v" using assms by (cases "img_columns v") auto
  then show "(k div img_columns v, k mod img_columns v) \<in> grid v"
    using assms by (auto simp: grid_def less_mult_imp_div_less)
qed simp

lemma processed_Suc:
  assumes "k < img_rows v * img_columns v"
  shows "processed v (Suc k) = insert (k div img_columns v, k mod img_columns v) (processed v k)"
proof -
  let ?p = "(k div img_columns v, k mod img_columns v)"
  have "\<forall>q \<in> grid v. fst q * img_columns v + snd q = k \<longrightarrow> q = ?p"
    using position_inj [OF _ pixel_number(1) [OF assms]] by simp
  moreover have "?p \<in> grid v" "fst ?p * img_columns v + snd ?p = k" using pixel_number [OF assms] by simp_all
  ultimately show ?thesis unfolding processed_def less_Suc_eq by blast
qed

lemma scan_pair_label_window:
  "p \<in> grid v \<Longrightarrow> window_at True (label_view v) (snd (scan_pair (img_columns v) (fst p) (snd p))) p"
  using scan_pair_windows(2) [of p v] by (simp add: window_at_def buffer_view_def)

lemma scan_spec:
  assumes v: "view_ok v mem" "is_bg 0" and "k \<le> img_rows v * img_columns v"
    and "labelled conn (processed v k) (obstacles is_bg v mem \<inter> processed v k) v lmem t"
  shows "scan_continues conn (obstacles is_bg v mem) v t
    (scan_windows conn is_bg v mem (label_view v)
      (map (\<lambda>k. scan_pair (img_columns v) (k div img_columns v) (k mod img_columns v)) [k..<img_rows v * img_columns v])
      (lmem, t))"
  using assms(3,4)
proof (induction "img_rows v * img_columns v - k" arbitrary: k lmem t)
  case 0
  then have k: "k = img_rows v * img_columns v" by simp
  have "obstacles is_bg v mem \<subseteq> grid v" by (auto simp: obstacles_def)
  then have "labelled conn (grid v) (obstacles is_bg v mem) v lmem t"
    using 0(3) unfolding k processed_all by (simp add: Int_absorb2)
  then show ?case by (simp add: scan_continues_def k)
next
  case (Suc n)
  let ?p = "(k div img_columns v, k mod img_columns v)"
  let ?obs = "obstacles is_bg v mem"
  have k: "k < img_rows v * img_columns v" using Suc(2) by simp
  note p = pixel_number [OF k]
  define iw lw where "iw = fst (scan_pair (img_columns v) (fst ?p) (snd ?p))"
    and "lw = snd (scan_pair (img_columns v) (fst ?p) (snd ?p))"
  have pair: "scan_pair (img_columns v) (k div img_columns v) (k mod img_columns v) = (iw, lw)"
    by (simp add: iw_def lw_def)
  have w: "window_at False v iw ?p" "window_at True (label_view v) lw ?p"
    unfolding iw_def lw_def using scan_pair_windows(1) [OF p(1)] scan_pair_label_window [OF p(1)] by simp_all
  have P: "processed v k = before v ?p" using before_processed [OF p(1)] p(2) by simp
  have len: "length lmem = img_rows v * img_columns v" using Suc.prems(2) by (simp add: labelled_def)
  have anchor: "win_anchor lw (label_view v) = k" using win_anchor_at [OF w(2)] p(2) by simp
  have "pass_continues conn ?obs v ?p lmem t (pass conn is_bg iw v mem lw (label_view v) lmem t)"
    using pass8_step [where is_bg = is_bg, OF v p(1) w] pass4_step [where is_bg = is_bg, OF v p(1) w] Suc.prems(2) unfolding P by (cases conn) simp_all
  then consider
    (overflow) "pass conn is_bg iw v mem lw (label_view v) lmem t = Some (Inl LabelOverflow)"
      "\<exists>S \<subseteq> ?obs. scattered conn S \<and> card S = labels_size t"
    | (label) l t' where "pass conn is_bg iw v mem lw (label_view v) lmem t = Some (Inr (l, t'))"
      "labels_size t' = labels_size t"
      "labelled conn (insert ?p (before v ?p)) (?obs \<inter> insert ?p (before v ?p)) v (lmem[k := l]) t'"
    unfolding pass_continues_def using p(2) by auto
  then show ?case
  proof cases
    case overflow
    then show ?thesis
      using k by (simp add: upt_conv_Cons pair scan_continues_def del: upt_Suc)
  next
    case label
    then have "labelled conn (processed v (Suc k)) (?obs \<inter> processed v (Suc k)) v (lmem[k := l]) t'"
      unfolding processed_Suc [OF k] P by simp
    from Suc.hyps(1) [OF _ _ this] Suc.hyps(2) k have
      "scan_continues conn ?obs v t' (scan_windows conn is_bg v mem (label_view v)
        (map (\<lambda>k. scan_pair (img_columns v) (k div img_columns v) (k mod img_columns v)) [Suc k..<img_rows v * img_columns v])
        (lmem[k := l], t'))"
      by simp
    then show ?thesis
      using k label(1,2) anchor len
      by (simp add: upt_conv_Cons pair write_at_def scan_continues_def del: upt_Suc)
  qed
qed

section \<open>Passes over all pixels\<close>

lemma set_image_pixels [simp]: "set (image_pixels v) = grid v"
  by (auto simp: image_pixels_def grid_def)

lemma distinct_image_pixels [simp]: "distinct (image_pixels v)"
proof -
  have "distinct (concat (map (\<lambda>row. map (\<lambda>column. (row, column)) [0..<w]) [0..<n]))" for w n :: nat
    by (induction n) (auto simp: distinct_map inj_on_def)
  then show ?thesis by (simp add: image_pixels_def)
qed

lemma pointer_inj:
  assumes "img_columns v \<le> img_step v" and "p \<in> grid v" and "q \<in> grid v" and "pointer v p = pointer v q"
  shows "p = q"
proof -
  have "snd p < img_step v" "snd q < img_step v" using assms by (auto simp: grid_def)
  moreover have "fst p * img_step v + snd p = fst q * img_step v + snd q"
    using assms(4) by (simp add: pointer_def image_row_def)
  ultimately have "fst p = fst q \<and> snd p = snd q"
    by (metis add_right_cancel div_less div_mult_self3 less_nat_zero_code add_cancel_left_left add.commute)
  then show ?thesis by (simp add: prod_eq_iff)
qed

lemma image_pixels_label_view [simp]: "image_pixels (label_view v) = image_pixels v"
  by (simp add: image_pixels_def buffer_view_def)

section \<open>Connected components\<close>

definition components_labelled :: "connectivity \<Rightarrow> pixel set \<Rightarrow> view \<Rightarrow> nat list \<Rightarrow> nat \<Rightarrow> bool" where
  "components_labelled conn obs v lmem count \<longleftrightarrow> length lmem = img_rows v * img_columns v \<and>
     (\<forall>p \<in> grid v - obs. label_at v lmem p = 0) \<and>
     (\<forall>p \<in> obs. 0 < label_at v lmem p \<and> label_at v lmem p < count) \<and>
     (\<forall>p \<in> obs. \<forall>q \<in> obs. label_at v lmem p = label_at v lmem q \<longleftrightarrow> linked conn obs p q)"

lemma label_pass:
  assumes inv: "labelled conn (grid v) obs v lmem t" and "obs \<subseteq> grid v"
  shows "\<exists>table count lmem'. getLabels t = Some (table, count) \<and> 0 < count \<and> count \<le> labels_size t \<and>
    forEach (label_view v) (\<lambda>i lmem. do { l \<leftarrow> mem_at lmem i; x \<leftarrow> mem_at table l; write_at lmem i x }) lmem = Some lmem' \<and>
    components_labelled conn obs v lmem' count"
proof -
  have t: "forest (eq_labels t)" "next_free t = length (eq_labels t)" "next_free t \<le> labels_size t"
    "length lmem = img_rows v * img_columns v"
    "\<forall>p \<in> grid v - obs. label_at v lmem p = 0" "\<forall>p \<in> obs. 0 < label_at v lmem p \<and> label_at v lmem p < next_free t"
    "\<forall>p \<in> obs. \<forall>q \<in> obs. rep (eq_labels t) (label_at v lmem p) = rep (eq_labels t) (label_at v lmem q) \<longleftrightarrow> linked conn obs p q"
    using inv unfolding labelled_def by blast+
  obtain table count where g: "getLabels t = Some (table, count)" "length table = next_free t" "table ! 0 = 0"
    "count \<le> next_free t" "0 < count"
    "\<forall>i j. 0 < i \<and> i < next_free t \<and> 0 < j \<and> j < next_free t \<longrightarrow>
      (table ! i = table ! j \<longleftrightarrow> rep (eq_labels t) i = rep (eq_labels t) j)"
    "\<forall>i. 0 < i \<and> i < next_free t \<longrightarrow> 0 < table ! i \<and> table ! i < count"
    using getLabels_spec [OF t(1,2)] by blast
  have range: "label_at v lmem p < next_free t" if "p \<in> grid v" for p
    using t(5,6) g(4,5) that by (cases "p \<in> obs") auto
  let ?ptr = "\<lambda>p. fst p * img_columns v + snd p"
  have "\<exists>lmem'. visit_all (\<lambda>p lmem. do { l \<leftarrow> mem_at lmem (?ptr p); x \<leftarrow> mem_at table l; write_at lmem (?ptr p) x })
      (image_pixels v) lmem = Some lmem' \<and> length lmem' = length lmem \<and>
      (\<forall>p \<in> set (image_pixels v). lmem' ! ?ptr p = table ! label_at v lmem p) \<and>
      (\<forall>i. i \<notin> ?ptr ` set (image_pixels v) \<longrightarrow> lmem' ! i = lmem ! i)"
  proof (rule visit_all_rewrite)
    show "inj_on ?ptr (set (image_pixels v))" by (rule inj_onI) (simp add: position_inj)
    show "\<forall>p \<in> set (image_pixels v). ?ptr p < length lmem" using position_less t(4) by simp
    show "\<forall>p \<in> set (image_pixels v). mem_at table (lmem ! ?ptr p) = Some (table ! label_at v lmem p)"
      using range g(2) by (simp add: mem_at_def label_at_def)
  qed simp
  then obtain lmem' where l: "forEach (label_view v) (\<lambda>i lmem. do { l \<leftarrow> mem_at lmem i; x \<leftarrow> mem_at table l; write_at lmem i x }) lmem
      = Some lmem'" "length lmem' = length lmem" "\<forall>p \<in> grid v. label_at v lmem' p = table ! label_at v lmem p"
    by (auto simp: forEach_def label_at_def)
  have "components_labelled conn obs v lmem' count"
    unfolding components_labelled_def
  proof (intro conjI ballI)
    show "length lmem' = img_rows v * img_columns v" using l(2) t(4) by simp
    show "label_at v lmem' p = 0" if "p \<in> grid v - obs" for p using l(3) t(5) g(3) that by simp
    fix p assume p: "p \<in> obs"
    then have p': "p \<in> grid v" "0 < label_at v lmem p \<and> label_at v lmem p < next_free t" using assms(2) t(6) by auto
    then show "0 < label_at v lmem' p" "label_at v lmem' p < count" using l(3) g(7) by simp_all
    fix q assume q: "q \<in> obs"
    then have q': "q \<in> grid v" "0 < label_at v lmem q \<and> label_at v lmem q < next_free t" using assms(2) t(6) by auto
    then show "label_at v lmem' p = label_at v lmem' q \<longleftrightarrow> linked conn obs p q"
      using l(3) p' q' g(6) t(7) p q by simp
  qed
  moreover have "count \<le> labels_size t" using g(4) t(3) by simp
  ultimately show ?thesis using g(1,5) l(1) by blast
qed

theorem connectedComponents_spec:
  assumes "view_ok v mem" and "is_bg 0" and "img_rows v * img_columns v \<noteq> 0"
  shows "(connectedComponents lt conn is_bg junk v mem = Some (Inl LabelOverflow) \<and>
      (\<exists>S \<subseteq> obstacles is_bg v mem. scattered conn S \<and>
        card S = maxLabels lt (img_rows v) (img_columns v) conn)) \<or>
    (\<exists>lmem count. connectedComponents lt conn is_bg junk v mem = Some (Inr ((label_view v, lmem), count)) \<and>
      0 < count \<and> count \<le> maxLabels lt (img_rows v) (img_columns v) conn \<and>
      components_labelled conn (obstacles is_bg v mem) v lmem count)"
proof -
  let ?t = "reset_trees lt (img_rows v) (img_columns v) conn"
  let ?junk = "buffer_get junk (img_rows v * img_columns v)"
  let ?obs = "obstacles is_bg v mem"
  have size: "labels_size ?t = maxLabels lt (img_rows v) (img_columns v) conn"
    by (simp add: reset_trees_def maxLabels_def)
  have pos: "0 < img_rows v" "0 < img_columns v" using assms(3) by auto
  have empty: "processed v 0 = {}" by (simp add: processed_def)
  have lt: "1 \<le> label_max lt" by (cases lt) simp_all
  have "labelled conn (processed v 0) (?obs \<inter> processed v 0) v ?junk ?t"
    unfolding empty using lt
    by (auto simp: labelled_def reset_trees_def forest_def buffer_get_def scattered_def maxLabels_def)
  from scan_spec [where is_bg = is_bg, OF assms(1,2) _ this]
  have "scan_continues conn ?obs v ?t (scan_windows conn is_bg v mem (label_view v)
      (first_row_windows (img_columns v) @ concat (map (row_windows (img_columns v)) [0..<img_rows v - 1])) (?junk, ?t))"
    unfolding scan_order [OF pos] by simp
  then consider
    (overflow) "scan_windows conn is_bg v mem (label_view v)
        (first_row_windows (img_columns v) @ concat (map (row_windows (img_columns v)) [0..<img_rows v - 1])) (?junk, ?t)
        = Some (Inl LabelOverflow)" "\<exists>S \<subseteq> ?obs. scattered conn S \<and> card S = labels_size ?t"
    | (complete) lmem t where "scan_windows conn is_bg v mem (label_view v)
        (first_row_windows (img_columns v) @ concat (map (row_windows (img_columns v)) [0..<img_rows v - 1])) (?junk, ?t)
        = Some (Inr (lmem, t))" "labels_size t = labels_size ?t" "labelled conn (grid v) ?obs v lmem t"
    unfolding scan_continues_def by blast
  then show ?thesis
  proof cases
    case overflow
    then show ?thesis
      using assms(3) size by (simp add: connectedComponents_def connectedComponentsImpl_def Let_def)
  next
    case complete
    have "?obs \<subseteq> grid v" by (auto simp: obstacles_def)
    from label_pass [OF complete(3) this] obtain table count lmem' where
      "getLabels t = Some (table, count)" "0 < count" "count \<le> labels_size t"
      "forEach (label_view v) (\<lambda>i lmem. do { l \<leftarrow> mem_at lmem i; x \<leftarrow> mem_at table l; write_at lmem i x }) lmem = Some lmem'"
      "components_labelled conn ?obs v lmem' count"
      by blast
    then show ?thesis
      using assms(3) size complete(1,2)
      by (intro disjI2 exI [of _ lmem'] exI [of _ count]) (simp add: connectedComponents_def connectedComponentsImpl_def Let_def)
  qed
qed

end
