(* ===== verification/Denoise_Layer.thy ===== *)
theory Denoise_Layer
  imports Denoise_Image
begin

text \<open>
  What the denoise layer does with an image: the removal of small groups by their labels, the fast
  removal of single pixels by dilation, and the layer that applies them to a window of the costmap.
\<close>

section \<open>Removing groups\<close>

definition histogram :: "view \<Rightarrow> nat list \<Rightarrow> nat \<Rightarrow> nat \<Rightarrow> nat list option" where
  "histogram v mem image_max bin_max =
     (if img_empty v then Some []
      else forEach v (\<lambda>i h. do {
          pixel \<leftarrow> mem_at mem i;
          x \<leftarrow> mem_at h pixel;
          write_at h pixel (min (x + 1) bin_max)
        }) (replicate (image_max + 1) 0))"

text \<open>\<open>removeGroupsImpl\<close>; \<open>groups_count - 1\<close> is computed in the label type.\<close>

definition removeGroupsImpl ::
  "label_type \<Rightarrow> connectivity \<Rightarrow> nat \<Rightarrow> (u8 \<Rightarrow> bool) \<Rightarrow> (nat \<Rightarrow> nat) \<Rightarrow> view \<Rightarrow> u8 list
    \<Rightarrow> (label_overflow + logic_error + u8 list) option" where
  "removeGroupsImpl lt conn minimal_group_size is_bg junk v mem =
     (case connectedComponents lt conn is_bg junk v mem of
        None \<Rightarrow> None
      | Some (Inl ex) \<Rightarrow> Some (Inl ex)
      | Some (Inr ((lv, lmem), groups_count)) \<Rightarrow> do {
          let max_label_value = (if groups_count = 0 then label_max lt else groups_count - 1);
          groups_sizes \<leftarrow> histogram lv lmem max_label_value (minimal_group_size + 1);
          groups_sizes \<leftarrow> write_at groups_sizes 0 0;
          let noise_labels_table = map (\<lambda>bin_value. bin_value < minimal_group_size) groups_sizes;
          map_option Inr (convert lv lmem v (\<lambda>src trg.
            if is_bg trg then Some trg
            else do { noise \<leftarrow> mem_at noise_labels_table src; Some (if noise then 0 else trg) }) mem)
        })"

text \<open>
  \<open>removeGroupsPickLabelType\<close> and \<open>tryRemoveGroupsWithLabelType\<close>: a labelling that runs out of
  16-bit labels leaves the image alone and is repeated with 32-bit labels, which are kept.
\<close>

definition removeGroupsPickLabelType ::
  "label_type \<Rightarrow> connectivity \<Rightarrow> nat \<Rightarrow> (u8 \<Rightarrow> bool) \<Rightarrow> (label_type \<Rightarrow> nat \<Rightarrow> nat) \<Rightarrow> view \<Rightarrow> u8 list
    \<Rightarrow> ((label_overflow + logic_error + u8 list) \<times> label_type) option" where
  "removeGroupsPickLabelType lt conn minimal_group_size is_bg junk v mem =
     (case lt of
        Label16 \<Rightarrow>
          (case removeGroupsImpl Label16 conn minimal_group_size is_bg (junk Label16) v mem of
             None \<Rightarrow> None
           | Some (Inr r) \<Rightarrow> Some (Inr r, Label16)
           | Some (Inl _) \<Rightarrow>
               map_option (\<lambda>r. (r, Label32))
                 (removeGroupsImpl Label32 conn minimal_group_size is_bg (junk Label32) v mem))
      | Label32 \<Rightarrow>
          map_option (\<lambda>r. (r, Label32))
            (removeGroupsImpl Label32 conn minimal_group_size is_bg (junk Label32) v mem))"

section \<open>Dilation\<close>

text \<open>A row of the 3x3 shape laid over the neighbourhood of a pixel of the input row at \<open>start\<close>.\<close>

definition overlay :: "u8 list \<Rightarrow> u8 list \<Rightarrow> nat \<Rightarrow> nat \<Rightarrow> nat \<Rightarrow> (u8 \<times> u8 \<times> u8) option" where
  "overlay shape mem start columns column =
     (let apply_shape = \<lambda>i k. do { value \<leftarrow> mem_at mem i; m \<leftarrow> mem_at shape k; Some (value AND m) };
          p = start + column
      in if columns = 1 then do { y \<leftarrow> apply_shape p 1; Some (0, y, 0) }
         else if column = 0 then do { y \<leftarrow> apply_shape p 1; z \<leftarrow> apply_shape (p + 1) 2; Some (0, y, z) }
         else if column = columns - 1 then do { x \<leftarrow> apply_shape (p - 1) 0; y \<leftarrow> apply_shape p 1; Some (x, y, 0) }
         else do { x \<leftarrow> apply_shape (p - 1) 0; y \<leftarrow> apply_shape p 1; z \<leftarrow> apply_shape (p + 1) 2; Some (x, y, z) })"

definition probeRows ::
  "view \<Rightarrow> u8 list \<Rightarrow> nat \<Rightarrow> view \<Rightarrow> nat \<Rightarrow> u8 list \<Rightarrow> (u8 \<Rightarrow> u8 \<times> u8 \<times> u8 \<Rightarrow> u8) \<Rightarrow> u8 list \<Rightarrow> u8 list option" where
  "probeRows input mem first_input_row output first_output_row shape touch_fn omem =
     visit_all (\<lambda>(row, column) omem. do {
         lst \<leftarrow> overlay shape mem (image_row input (row + first_input_row)) (img_columns input) column;
         let out = image_row output (row + first_output_row) + column;
         x \<leftarrow> mem_at omem out;
         write_at omem out (touch_fn x lst)
       })
       (concat (map (\<lambda>row. map (\<lambda>column. (row, column)) [0..<img_columns input])
         [0..<img_rows input - max first_input_row first_output_row])) omem"

definition morphologyOperation ::
  "view \<Rightarrow> u8 list \<Rightarrow> view \<Rightarrow> view \<Rightarrow> u8 list \<Rightarrow> (u8 \<times> u8 \<times> u8 \<Rightarrow> u8) \<Rightarrow> u8 list
    \<Rightarrow> (logic_error + u8 list) option" where
  "morphologyOperation input mem output shape smem aggregate omem =
     (if img_rows input \<noteq> img_rows output \<or> img_columns input \<noteq> img_columns output then Some (Inl SizesDiffer)
      else if img_rows shape \<noteq> 3 \<or> img_columns shape \<noteq> 3 then Some (Inl WrongShape)
      else if img_empty input then Some (Inr omem)
      else
        (let shape_row = \<lambda>r. drop (image_row shape r) smem;
             set_pixel = \<lambda>res lst. aggregate lst;
             update = \<lambda>res lst. aggregate (res, aggregate lst, 0)
         in do {
              omem \<leftarrow> probeRows input mem 0 output 0 (shape_row 1) set_pixel omem;
              if img_rows input > 1 then do {
                omem \<leftarrow> probeRows input mem 0 output 1 (shape_row 0) update omem;
                omem \<leftarrow> probeRows input mem 1 output 0 (shape_row 2) update omem;
                Some (Inr omem)
              } else Some (Inr omem)
            }))"

definition createShape :: "connectivity \<Rightarrow> u8 list" where
  "createShape conn =
     (if conn = Way8 then [255, 255, 255, 255, 0, 255, 255, 255, 255]
      else [0, 255, 0, 255, 0, 255, 0, 255, 0])"

definition dilate ::
  "view \<Rightarrow> u8 list \<Rightarrow> view \<Rightarrow> connectivity \<Rightarrow> (u8 \<times> u8 \<times> u8 \<Rightarrow> u8) \<Rightarrow> u8 list \<Rightarrow> (logic_error + u8 list) option" where
  "dilate input mem output conn max_function omem =
     morphologyOperation input mem output \<lparr>img_start = 0, img_rows = 3, img_columns = 3, img_step = 3\<rparr>
       (createShape conn) max_function omem"

section \<open>The layer\<close>

record denoise_layer =
  dn_enabled :: bool
  minimal_group_size :: nat
  group_connectivity_type :: connectivity
  groups_remover :: label_type
  no_information_is_obstacle :: bool
  dn_current :: bool

text \<open>\<open>onInitialize\<close> with the values of the three parameters.\<close>

definition denoise_initialize :: "bool \<Rightarrow> int \<Rightarrow> int \<Rightarrow> denoise_layer" where
  "denoise_initialize enabled minimal_group_size_param group_connectivity_type_param =
     \<lparr>dn_enabled = enabled,
       minimal_group_size = (if minimal_group_size_param \<le> 1 then 1 else nat minimal_group_size_param),
       group_connectivity_type = (if group_connectivity_type_param = 4 then Way4 else Way8),
       groups_remover = Label16, no_information_is_obstacle = False, dn_current = True\<rparr>"

definition isBackground :: "denoise_layer \<Rightarrow> u8 \<Rightarrow> bool" where
  "isBackground d pixel \<longleftrightarrow>
     \<not> (pixel = LETHAL_OBSTACLE \<or> pixel = INSCRIBED_INFLATED_OBSTACLE \<or>
        (pixel = NO_INFORMATION \<and> no_information_is_obstacle d))"

definition max3 :: "u8 \<times> u8 \<times> u8 \<Rightarrow> u8" where
  "max3 lst = (case lst of (x, y, z) \<Rightarrow> max (max x y) z)"

definition replace_to_free :: "u8 \<Rightarrow> u8" where
  "replace_to_free v = (if v = NO_INFORMATION then FREE_SPACE else v)"

definition max3_free :: "u8 \<times> u8 \<times> u8 \<Rightarrow> u8" where
  "max3_free lst = (case lst of (x, y, z) \<Rightarrow> max3 (replace_to_free x, replace_to_free y, replace_to_free z))"

text \<open>What the image operations raise, for the handler in \<open>updateCosts\<close>.\<close>

datatype denoise_error = Overflow label_overflow | Logic logic_error

text \<open>
  The buffer of the layer holds whatever an earlier call left in it: \<open>junk\<close> as bytes and
  \<open>ljunk\<close> as labels of either type.
\<close>

definition removeSinglePixels ::
  "denoise_layer \<Rightarrow> (nat \<Rightarrow> u8) \<Rightarrow> view \<Rightarrow> u8 list \<Rightarrow> (denoise_error + u8 list) option" where
  "removeSinglePixels d junk v mem =
     (let output = buffer_view (img_rows v) (img_columns v)
      in case dilate v mem output (group_connectivity_type d)
             (if \<not> no_information_is_obstacle d then max3_free else max3) (buffer_get junk (img_rows v * img_columns v)) of
           None \<Rightarrow> None
         | Some (Inl ex) \<Rightarrow> Some (Inl (Logic ex))
         | Some (Inr omem) \<Rightarrow>
             map_option (map_sum Logic id)
               (convert output omem v (\<lambda>max_neighbor img.
                  Some (if \<not> isBackground d img \<and> isBackground d max_neighbor then FREE_SPACE else img)) mem))"

fun denoise_result :: "label_overflow + logic_error + u8 list \<Rightarrow> denoise_error + u8 list" where
  "denoise_result (Inl ex) = Inl (Overflow ex)"
| "denoise_result (Inr (Inl ex)) = Inl (Logic ex)"
| "denoise_result (Inr (Inr mem)) = Inr mem"

definition removeGroups ::
  "denoise_layer \<Rightarrow> (label_type \<Rightarrow> nat \<Rightarrow> nat) \<Rightarrow> view \<Rightarrow> u8 list \<Rightarrow> ((denoise_error + u8 list) \<times> denoise_layer) option" where
  "removeGroups d ljunk v mem =
     map_option (\<lambda>(r, lt). (denoise_result r, d\<lparr>groups_remover := lt\<rparr>))
       (removeGroupsPickLabelType (groups_remover d) (group_connectivity_type d) (minimal_group_size d)
         (isBackground d) ljunk v mem)"

definition denoise ::
  "denoise_layer \<Rightarrow> (nat \<Rightarrow> u8) \<Rightarrow> (label_type \<Rightarrow> nat \<Rightarrow> nat) \<Rightarrow> view \<Rightarrow> u8 list
    \<Rightarrow> ((denoise_error + u8 list) \<times> denoise_layer) option" where
  "denoise d junk ljunk v mem =
     (if img_empty v then Some (Inr mem, d)
      else if minimal_group_size d \<le> 1 then Some (Inr mem, d)
      else if minimal_group_size d = 2 then map_option (\<lambda>r. (r, d)) (removeSinglePixels d junk v mem)
      else removeGroups d ljunk v mem)"

text \<open>
  \<open>updateCosts\<close> on the window of the master grid; an exception is logged, and leaves the map as it
  was, since only the last pass over the image changes it.
\<close>

definition denoise_updateCosts ::
  "(nat \<Rightarrow> u8) \<Rightarrow> (label_type \<Rightarrow> nat \<Rightarrow> nat) \<Rightarrow> int \<Rightarrow> int \<Rightarrow> int \<Rightarrow> int \<Rightarrow> denoise_layer \<times> costmap
    \<Rightarrow> (denoise_layer \<times> costmap) option" where
  "denoise_updateCosts junk ljunk min_x min_y max_x max_y s =
     (let (d, m) = s
      in if \<not> dn_enabled d then Some (d, m)
         else if min_x \<ge> max_x \<or> min_y \<ge> max_y then Some (d, m)
         else
           (let d = d\<lparr>no_information_is_obstacle := default_value m \<noteq> NO_INFORMATION\<rparr>;
                step = sint (size_x m);
                start = min_y * step + min_x
            in if start < 0 then None
               else
                 (case denoise d junk ljunk
                     \<lparr>img_start = nat start, img_rows = nat (max_y - min_y), img_columns = nat (max_x - min_x),
                       img_step = nat step\<rparr> (costs m) of
                    None \<Rightarrow> None
                  | Some (Inl ex, d) \<Rightarrow> Some (d\<lparr>dn_current := True\<rparr>, m)
                  | Some (Inr mem, d) \<Rightarrow> Some (d\<lparr>dn_current := True\<rparr>, m\<lparr>costs := mem\<rparr>))))"

definition denoise_reset :: "denoise_layer \<Rightarrow> denoise_layer" where
  "denoise_reset d = d\<lparr>dn_current := False\<rparr>"

end
