(* ===== verification/Denoise_Groups.thy ===== *)
theory Denoise_Groups
  imports Denoise_Components Denoise_Layer
begin

text \<open>
  What the two ways of removing noise do to an image: the histogram of the labels and the removal
  of small groups, and the dilation and the removal of single pixels.
\<close>

section \<open>The specification\<close>

text \<open>An image in which exactly the groups of fewer than \<open>n\<close> obstacle pixels are cleared.\<close>

definition cleaned :: "connectivity \<Rightarrow> nat \<Rightarrow> (u8 \<Rightarrow> bool) \<Rightarrow> view \<Rightarrow> u8 list \<Rightarrow> u8 list \<Rightarrow> bool" where
  "cleaned conn n is_bg v mem mem' \<longleftrightarrow> length mem' = length mem \<and>
     (\<forall>p \<in> grid v. mem' ! pointer v p =
       (if p \<in> obstacles is_bg v mem \<and> card (group_of conn (obstacles is_bg v mem) p) < n then 0 else mem ! pointer v p)) \<and>
     (\<forall>i. i \<notin> pointer v ` grid v \<longrightarrow> mem' ! i = mem ! i)"

lemma cleaned_unique:
  assumes "cleaned conn n is_bg v mem m1" and "cleaned conn n is_bg v mem m2"
  shows "m1 = m2"
proof (rule nth_equalityI)
  show "length m1 = length m2" using assms by (simp add: cleaned_def)
  fix i
  show "m1 ! i = m2 ! i"
    using assms by (cases "i \<in> pointer v ` grid v") (auto simp: cleaned_def)
qed

section \<open>Converting an image\<close>

lemma inj_on_pointer: "img_columns v \<le> img_step v \<Longrightarrow> inj_on (pointer v) (grid v)"
  by (rule inj_onI) (rule pointer_inj)

lemma same_pixels:
  assumes "img_rows v = img_rows w" and "img_columns v = img_columns w"
  shows "image_pixels v = image_pixels w" "grid v = grid w"
  using assms by (simp_all add: image_pixels_def grid_def)

lemma convert_spec:
  assumes "img_rows v = img_rows target" and "img_columns v = img_columns target"
    and "view_ok v mem" and "view_ok target tmem"
    and "\<forall>p \<in> grid target. f (mem ! pointer v p) (tmem ! pointer target p) = Some (h p)"
  shows "\<exists>tmem'. convert v mem target f tmem = Some (Inr tmem') \<and> length tmem' = length tmem \<and>
    (\<forall>p \<in> grid target. tmem' ! pointer target p = h p) \<and> (\<forall>i. i \<notin> pointer target ` grid target \<longrightarrow> tmem' ! i = tmem ! i)"
proof -
  note same = same_pixels [OF assms(1,2)]
  let ?f = "\<lambda>p tmem. do { trg \<leftarrow> mem_at tmem (pointer target p); trg \<leftarrow> f (mem ! pointer v p) trg; write_at tmem (pointer target p) trg }"
  have "convert v mem target f tmem = map_option Inr (visit_all ?f (image_pixels target) tmem)"
    using assms(1,2,3) same unfolding convert_def
    by (auto intro!: arg_cong [where f = "map_option Inr"] visit_all_cong simp: mem_at_def view_ok_def)
  moreover have "\<exists>tmem'. visit_all ?f (image_pixels target) tmem = Some tmem' \<and> length tmem' = length tmem \<and>
      (\<forall>p \<in> set (image_pixels target). tmem' ! pointer target p = h p) \<and>
      (\<forall>i. i \<notin> pointer target ` set (image_pixels target) \<longrightarrow> tmem' ! i = tmem ! i)"
    using assms(4,5) inj_on_pointer [of target] by (intro visit_all_rewrite) (simp_all add: view_ok_def)
  ultimately show ?thesis by auto
qed

section \<open>The histogram\<close>

lemma histogram_pass:
  assumes "\<forall>p \<in> set ps. ptr p < length mem \<and> mem ! ptr p < length h" and "\<forall>l < length h. h ! l \<le> bin_max" and "distinct ps"
  shows "\<exists>h'. visit_all (\<lambda>p h. do { l \<leftarrow> mem_at mem (ptr p); x \<leftarrow> mem_at h l; write_at h l (min (x + 1) bin_max) }) ps h = Some h' \<and>
    length h' = length h \<and> (\<forall>l < length h. h' ! l = min (h ! l + card {p \<in> set ps. mem ! ptr p = l}) bin_max)"
  using assms
proof (induction ps arbitrary: h)
  case (Cons p ps)
  let ?l = "mem ! ptr p"
  let ?h = "h[?l := min (h ! ?l + 1) bin_max]"
  have p: "ptr p < length mem" "?l < length h" using Cons.prems by auto
  have le: "\<forall>l < length ?h. ?h ! l \<le> bin_max"
    using Cons.prems(2) p(2) by (simp add: nth_list_update)
  obtain h' where h': "visit_all (\<lambda>p h. do { l \<leftarrow> mem_at mem (ptr p); x \<leftarrow> mem_at h l; write_at h l (min (x + 1) bin_max) }) ps ?h = Some h'"
    "length h' = length h" "\<forall>l < length h. h' ! l = min (?h ! l + card {p \<in> set ps. mem ! ptr p = l}) bin_max"
    using Cons.IH [of ?h] Cons.prems le by auto
  have "{q \<in> set (p # ps). mem ! ptr q = l} =
      (if l = ?l then insert p {q \<in> set ps. mem ! ptr q = l} else {q \<in> set ps. mem ! ptr q = l})" for l
    by auto
  then have "card {q \<in> set (p # ps). mem ! ptr q = l} = (if l = ?l then 1 else 0) + card {q \<in> set ps. mem ! ptr q = l}" for l
    using Cons.prems(3) by simp
  then have "h' ! l = min (h ! l + card {q \<in> set (p # ps). mem ! ptr q = l}) bin_max" if "l < length h" for l
    using h'(3) that by (cases "l = ?l") auto
  then show ?case using h'(1,2) p by (intro exI [of _ h']) (simp add: mem_at_def write_at_def)
qed simp

lemma img_empty_label_view [simp]: "img_empty (label_view v) \<longleftrightarrow> img_rows v = 0 \<or> img_columns v = 0"
  by (simp add: img_empty_def buffer_view_def)

lemma histogram_spec:
  assumes "length lmem = img_rows v * img_columns v" and "img_rows v * img_columns v \<noteq> 0"
    and "\<forall>p \<in> grid v. label_at v lmem p \<le> image_max"
  shows "\<exists>h. histogram (label_view v) lmem image_max bin_max = Some h \<and> length h = image_max + 1 \<and>
    (\<forall>l \<le> image_max. h ! l = min (card {p \<in> grid v. label_at v lmem p = l}) bin_max)"
proof -
  have "\<exists>h. visit_all (\<lambda>p h. do { l \<leftarrow> mem_at lmem (fst p * img_columns v + snd p); x \<leftarrow> mem_at h l;
      write_at h l (min (x + 1) bin_max) }) (image_pixels v) (replicate (image_max + 1) 0) = Some h \<and>
    length h = length (replicate (image_max + 1) (0::nat)) \<and>
    (\<forall>l < length (replicate (image_max + 1) (0::nat)). h ! l = min (replicate (image_max + 1) 0 ! l +
      card {p \<in> set (image_pixels v). lmem ! (fst p * img_columns v + snd p) = l}) bin_max)"
    using assms position_less by (intro histogram_pass) (auto simp: label_at_def less_Suc_eq_le simp del: replicate_Suc)
  then show ?thesis
    using assms(2) by (auto simp: histogram_def forEach_def label_at_def less_Suc_eq_le simp del: replicate_Suc)
qed

section \<open>Removing groups\<close>

lemma group_by_label:
  assumes "components_labelled conn obs v lmem count" and "obs \<subseteq> grid v" and "p \<in> obs"
  shows "{q \<in> grid v. label_at v lmem q = label_at v lmem p} = group_of conn obs p"
proof -
  have "0 < label_at v lmem p" "\<forall>q \<in> grid v - obs. label_at v lmem q = 0"
    "\<forall>q \<in> obs. label_at v lmem p = label_at v lmem q \<longleftrightarrow> linked conn obs p q"
    using assms(1,3) unfolding components_labelled_def by blast+
  then show ?thesis using assms(2) by (auto simp: group_of_def) (metis DiffI less_irrefl)+
qed

theorem removeGroupsImpl_spec:
  assumes v: "view_ok v mem" "is_bg 0" "img_rows v * img_columns v \<noteq> 0" and n: "0 < n"
  shows "(removeGroupsImpl lt conn n is_bg junk v mem = Some (Inl LabelOverflow) \<and>
      (\<exists>S \<subseteq> obstacles is_bg v mem. scattered conn S \<and> card S = maxLabels lt (img_rows v) (img_columns v) conn)) \<or>
    (\<exists>mem'. removeGroupsImpl lt conn n is_bg junk v mem = Some (Inr (Inr mem')) \<and> cleaned conn n is_bg v mem mem')"
  using connectedComponents_spec [where is_bg = is_bg, OF v, of lt conn junk]
proof
  assume "connectedComponents lt conn is_bg junk v mem = Some (Inl LabelOverflow) \<and>
      (\<exists>S \<subseteq> obstacles is_bg v mem. scattered conn S \<and> card S = maxLabels lt (img_rows v) (img_columns v) conn)"
  then show ?thesis by (simp add: removeGroupsImpl_def)
next
  let ?obs = "obstacles is_bg v mem"
  assume "\<exists>lmem count. connectedComponents lt conn is_bg junk v mem = Some (Inr ((label_view v, lmem), count)) \<and>
      0 < count \<and> count \<le> maxLabels lt (img_rows v) (img_columns v) conn \<and> components_labelled conn ?obs v lmem count"
  then obtain lmem count where c: "connectedComponents lt conn is_bg junk v mem = Some (Inr ((label_view v, lmem), count))"
    "0 < count" "components_labelled conn ?obs v lmem count" by blast
  have obs: "?obs \<subseteq> grid v" by (auto simp: obstacles_def)
  have len: "length lmem = img_rows v * img_columns v" and
    lab: "\<forall>p \<in> grid v - ?obs. label_at v lmem p = 0" "\<forall>p \<in> ?obs. 0 < label_at v lmem p \<and> label_at v lmem p < count"
    using c(3) unfolding components_labelled_def by blast+
  have range: "\<forall>p \<in> grid v. label_at v lmem p \<le> count - 1"
    using lab c(2) by (metis DiffI Suc_pred' less_Suc_eq_le less_nat_zero_code not_gr_zero)
  obtain h where h: "histogram (label_view v) lmem (count - 1) (n + 1) = Some h" "length h = count - 1 + 1"
    "\<forall>l \<le> count - 1. h ! l = min (card {p \<in> grid v. label_at v lmem p = l}) (n + 1)"
    using histogram_spec [OF len v(3) range] by blast
  let ?noise = "map (\<lambda>bin_value. bin_value < n) (h[0 := 0])"
  let ?f = "\<lambda>src trg. if is_bg trg then Some trg else do { noise \<leftarrow> mem_at ?noise src; Some (if noise then 0 else trg) }"
  let ?h = "\<lambda>p. if p \<in> ?obs \<and> card (group_of conn ?obs p) < n then 0 else mem ! pointer v p"
  have size: "img_rows (label_view v) = img_rows v" "img_columns (label_view v) = img_columns v"
    by (simp_all add: buffer_view_def)
  have "?f (lmem ! pointer (label_view v) p) (mem ! pointer v p) = Some (?h p)" if p: "p \<in> grid v" for p
  proof (cases "p \<in> ?obs")
    case False
    then show ?thesis using p by (auto simp: obstacles_def)
  next
    case True
    then have l: "0 < label_at v lmem p" "label_at v lmem p \<le> count - 1" "\<not> is_bg (mem ! pointer v p)"
      using bspec [OF lab(2) True] range p by (simp_all add: obstacles_def)
    have "label_at v lmem p < count" using lab(2) True by blast
    moreover have "h ! label_at v lmem p < n \<longleftrightarrow> card (group_of conn ?obs p) < n"
      using l(2) h(3) group_by_label [OF c(3) obs True] by auto
    ultimately show ?thesis
      using l h(2) True c(2) by (simp add: mem_at_def label_at_def)
  qed
  then obtain mem' where m: "convert (label_view v) lmem v ?f mem = Some (Inr mem')" "length mem' = length mem"
    "\<forall>p \<in> grid v. mem' ! pointer v p = ?h p" "\<forall>i. i \<notin> pointer v ` grid v \<longrightarrow> mem' ! i = mem ! i"
    using convert_spec [OF size view_ok_labels [OF len] v(1), of ?f ?h] by blast
  have "cleaned conn n is_bg v mem mem'" using m(2-4) by (simp add: cleaned_def)
  moreover have nonempty: "h \<noteq> []" using h(2) by auto
  have "removeGroupsImpl lt conn n is_bg junk v mem = Some (Inr (Inr mem'))"
    using c(1,2) h(1) nonempty m(1) by (simp add: removeGroupsImpl_def write_at_def Let_def)
  ultimately show ?thesis by blast
qed

section \<open>Dilation\<close>

text \<open>A byte function that is an obstacle exactly if one of its three arguments is.\<close>

definition joins :: "(u8 \<Rightarrow> bool) \<Rightarrow> (u8 \<times> u8 \<times> u8 \<Rightarrow> u8) \<Rightarrow> bool" where
  "joins is_bg f \<longleftrightarrow> (\<forall>x y z. is_bg (f (x, y, z)) \<longleftrightarrow> is_bg x \<and> is_bg y \<and> is_bg z)"

definition masked :: "u8 list \<Rightarrow> bool" where
  "masked shape \<longleftrightarrow> 3 \<le> length shape \<and> (\<forall>k < 3. shape ! k = 0 \<or> shape ! k = 255)"

lemma and_all_ones: "(x :: u8) AND 255 = x"
proof -
  have "(255 :: u8) = - 1" by simp
  then show ?thesis by (simp only: bit.conj_one_right)
qed

lemma masked_bit:
  "masked shape \<Longrightarrow> k < 3 \<Longrightarrow> is_bg 0 \<Longrightarrow> is_bg (x AND shape ! k) \<longleftrightarrow> shape ! k = 0 \<or> is_bg x"
  using and_all_ones [of x] by (auto simp: masked_def)

text \<open>The overlay at a pixel, with 0 for the neighbours outside the row.\<close>

definition overlay_at :: "u8 list \<Rightarrow> view \<Rightarrow> u8 list \<Rightarrow> nat \<Rightarrow> nat \<Rightarrow> u8 \<times> u8 \<times> u8" where
  "overlay_at shape v mem row column =
     (value_at v mem (int row) (int column - 1) AND shape ! 0, value_at v mem (int row) (int column) AND shape ! 1,
      value_at v mem (int row) (int column + 1) AND shape ! 2)"

lemma overlay_spec:
  assumes "view_ok v mem" and "3 \<le> length shape" and "(row, column) \<in> grid v"
  shows "overlay shape mem (image_row v row) (img_columns v) column = Some (overlay_at shape v mem row column)"
proof -
  have read: "mem_at mem (image_row v row + k) = Some (value_at v mem (int row) (int k))" if "k < img_columns v" for k
  proof -
    have "(row, k) \<in> grid v" using that assms(3) by (simp add: grid_def)
    then have "pointer v (row, k) < length mem" using assms(1) by (simp add: view_ok_def)
    then show ?thesis
      using that assms(3) by (simp add: mem_at_def value_at_def pointer_def grid_def)
  qed
  have shape: "mem_at shape k = Some (shape ! k)" if "k < 3" for k
    using assms(2) that by (simp add: mem_at_def)
  have c: "column < img_columns v" using assms(3) by (simp add: grid_def)
  have left: "mem_at mem (image_row v row + column - 1) = Some (value_at v mem (int row) (int column - 1))" if "0 < column"
    using read [of "column - 1"] that c by (simp add: of_nat_diff)
  have right: "mem_at mem (image_row v row + column + 1) = Some (value_at v mem (int row) (int column + 1))"
    if "column + 1 < img_columns v"
    using read [of "column + 1"] that by (simp add: add.commute)
  have out: "value_at v mem (int row) (int 0 - 1) = 0" "value_at v mem (int row) (int (img_columns v)) = 0"
    by (simp_all add: value_at_def)
  consider "img_columns v = 1" "column = 0" | "column = 0" "1 < img_columns v"
    | "0 < column" "column = img_columns v - 1" "1 < img_columns v" | "0 < column" "column + 1 < img_columns v"
    using c by linarith
  then show ?thesis
  proof cases
    case 1
    then show ?thesis
      using read [of 0] shape out by (simp add: overlay_def overlay_at_def)
  next
    case 2
    then show ?thesis
      using read [of 0] right shape out(1) by (simp add: overlay_def overlay_at_def)
  next
    case 3
    then have "int column + 1 = int (img_columns v)" by simp
    then show ?thesis
      using 3 read [OF c] left shape out(2) by (simp add: overlay_def overlay_at_def)
  next
    case 4
    then have "column \<noteq> img_columns v - 1" by simp
    then show ?thesis
      using 4 read [OF c] left right shape by (simp add: overlay_def overlay_at_def Let_def)
  qed
qed

lemma probeRows_spec:
  assumes "view_ok input mem" and "view_ok output omem" and "3 \<le> length shape"
    and "img_rows output = img_rows input" and "img_columns output = img_columns input"
    and "max i0 o0 \<le> img_rows input"
  shows "\<exists>omem'. probeRows input mem i0 output o0 shape touch omem = Some omem' \<and> length omem' = length omem \<and>
    (\<forall>(r, c) \<in> grid output. omem' ! pointer output (r, c) =
      (if o0 \<le> r \<and> r - o0 < img_rows input - max i0 o0
       then touch (omem ! pointer output (r, c)) (overlay_at shape input mem (r - o0 + i0) c)
       else omem ! pointer output (r, c)))"
proof -
  let ?n = "img_rows input - max i0 o0"
  let ?ps = "concat (map (\<lambda>row. map (\<lambda>column. (row, column)) [0..<img_columns input]) [0..<?n])"
  let ?v = "\<lparr>img_start = 0, img_rows = ?n, img_columns = img_columns input, img_step = img_columns input\<rparr>"
  let ?ptr = "\<lambda>p. pointer output (fst p + o0, snd p)"
  let ?f = "\<lambda>p x. Some (touch x (overlay_at shape input mem (fst p + i0) (snd p)))"
  have ps: "?ps = image_pixels ?v" by (simp add: image_pixels_def)
  have g: "set ?ps = grid ?v" "distinct ?ps" unfolding ps by simp_all
  have moved: "(fst p + o0, snd p) \<in> grid output" "(fst p + i0, snd p) \<in> grid input" if "p \<in> grid ?v" for p
    using that assms(4,5) by (auto simp: grid_def)
  have eq: "probeRows input mem i0 output o0 shape touch omem =
      visit_all (\<lambda>p omem. do { x \<leftarrow> mem_at omem (?ptr p); y \<leftarrow> ?f p x; write_at omem (?ptr p) y }) ?ps omem"
    unfolding probeRows_def
  proof (rule visit_all_cong, intro ballI)
    fix p assume "p \<in> set ?ps"
    then have "p \<in> grid ?v" unfolding g(1) .
    from overlay_spec [OF assms(1,3) moved(2) [OF this]] show
      "(case p of (row, column) \<Rightarrow> \<lambda>omem. do {
         lst \<leftarrow> overlay shape mem (image_row input (row + i0)) (img_columns input) column;
         let out = image_row output (row + o0) + column; x \<leftarrow> mem_at omem out; write_at omem out (touch x lst) }) =
       (\<lambda>omem. do { x \<leftarrow> mem_at omem (?ptr p); y \<leftarrow> ?f p x; write_at omem (?ptr p) y })"
      by (cases p) (simp add: pointer_def Let_def)
  qed
  have rewritten: "\<exists>omem'. visit_all (\<lambda>p omem. do { x \<leftarrow> mem_at omem (?ptr p); y \<leftarrow> ?f p x; write_at omem (?ptr p) y }) ?ps omem
      = Some omem' \<and> length omem' = length omem \<and>
      (\<forall>p \<in> set ?ps. omem' ! ?ptr p = touch (omem ! ?ptr p) (overlay_at shape input mem (fst p + i0) (snd p))) \<and>
      (\<forall>i. i \<notin> ?ptr ` set ?ps \<longrightarrow> omem' ! i = omem ! i)"
  proof (rule visit_all_rewrite [OF g(2)])
    show "inj_on ?ptr (set ?ps)"
    proof (rule inj_onI)
      fix p q assume pq: "p \<in> set ?ps" "q \<in> set ?ps" "?ptr p = ?ptr q"
      then have "p \<in> grid ?v" "q \<in> grid ?v" unfolding g(1) by simp_all
      then have "(fst p + o0, snd p) = (fst q + o0, snd q)"
        using moved(1) pq(3) assms(2) by (intro pointer_inj [where v = "output"]) (simp_all add: view_ok_def)
      then show "p = q" by (simp add: prod_eq_iff)
    qed
    show "\<forall>p \<in> set ?ps. ?ptr p < length omem" using moved(1) g(1) assms(2) by (simp add: view_ok_def)
  qed simp
  obtain omem' where o: "probeRows input mem i0 output o0 shape touch omem = Some omem'" "length omem' = length omem"
    "\<forall>p \<in> grid ?v. omem' ! ?ptr p = touch (omem ! ?ptr p) (overlay_at shape input mem (fst p + i0) (snd p))"
    "\<forall>i. i \<notin> ?ptr ` grid ?v \<longrightarrow> omem' ! i = omem ! i"
    using rewritten [unfolded g(1)] unfolding eq by blast
  have "omem' ! pointer output (r, c) =
      (if o0 \<le> r \<and> r - o0 < ?n then touch (omem ! pointer output (r, c)) (overlay_at shape input mem (r - o0 + i0) c)
       else omem ! pointer output (r, c))" if rc: "(r, c) \<in> grid output" for r c
  proof (cases "o0 \<le> r \<and> r - o0 < ?n")
    case True
    then have "(r - o0, c) \<in> grid ?v" using rc assms(5) by (simp add: grid_def)
    then show ?thesis using o(3) True by fastforce
  next
    case False
    have "pointer output (r, c) \<notin> ?ptr ` grid ?v"
    proof
      assume "pointer output (r, c) \<in> ?ptr ` grid ?v"
      then obtain p where p: "p \<in> grid ?v" "pointer output (r, c) = ?ptr p" by blast
      then have "(r, c) = (fst p + o0, snd p)"
        using moved(1) rc assms(2) by (intro pointer_inj [where v = "output"]) (simp_all add: view_ok_def)
      then show False using False p(1) by (simp add: grid_def)
    qed
    then show ?thesis using o(4) False by auto
  qed
  then show ?thesis using o(1,2) by auto
qed

text \<open>The dilated image is an obstacle exactly at the neighbours of obstacles.\<close>

lemma overlay_background:
  assumes "joins is_bg f" and "is_bg 0" and "masked shape"
  shows "is_bg (f (overlay_at shape v mem row column)) \<longleftrightarrow>
    (shape ! 0 = 0 \<or> is_bg (value_at v mem (int row) (int column - 1))) \<and>
    (shape ! 1 = 0 \<or> is_bg (value_at v mem (int row) (int column))) \<and>
    (shape ! 2 = 0 \<or> is_bg (value_at v mem (int row) (int column + 1)))"
  using assms(1) masked_bit [where is_bg = is_bg, OF assms(3) _ assms(2)] by (simp add: overlay_at_def joins_def)

lemma shape_rows:
  "masked (drop 3 (createShape conn))" "masked (createShape conn)" "masked (drop 6 (createShape conn))"
  by (cases conn; simp add: masked_def createShape_def less_Suc_eq numeral_3_eq_3)+

lemma obstacle_value:
  "is_bg 0 \<Longrightarrow> \<not> is_bg (value_at v mem r c) \<longleftrightarrow> 0 \<le> r \<and> 0 \<le> c \<and> (nat r, nat c) \<in> obstacles is_bg v mem"
  by (auto simp: value_at_def obstacles_def grid_def)

definition touched :: "connectivity \<Rightarrow> (u8 \<Rightarrow> bool) \<Rightarrow> view \<Rightarrow> u8 list \<Rightarrow> pixel \<Rightarrow> bool" where
  "touched conn is_bg v mem p \<longleftrightarrow> (\<exists>q \<in> obstacles is_bg v mem. adjacent conn p q)"

lemma touched8:
  fixes r c
  assumes "is_bg 0"
  shows "touched Way8 is_bg v mem (r, c) \<longleftrightarrow>
    (\<exists>r' c'. (r', c') \<in> {(int r - 1, int c - 1), (int r - 1, int c), (int r - 1, int c + 1), (int r, int c - 1),
      (int r, int c + 1), (int r + 1, int c - 1), (int r + 1, int c), (int r + 1, int c + 1)} \<and> \<not> is_bg (value_at v mem r' c'))"
    (is "_ \<longleftrightarrow> (\<exists>r' c'. (r', c') \<in> ?near \<and> _ r' c')")
proof -
  have near: "adjacent Way8 (r, c) (r', c') \<longleftrightarrow> (int r', int c') \<in> ?near" for r' c'
    by simp presburger
  show ?thesis
  proof
    assume "touched Way8 is_bg v mem (r, c)"
    then obtain r' c' where "(r', c') \<in> obstacles is_bg v mem" "adjacent Way8 (r, c) (r', c')"
      unfolding touched_def by force
    then show "\<exists>r' c'. (r', c') \<in> ?near \<and> \<not> is_bg (value_at v mem r' c')"
      using near obstacle_value [where is_bg = is_bg, OF assms, of v mem "int r'" "int c'"] by auto
  next
    assume "\<exists>r' c'. (r', c') \<in> ?near \<and> \<not> is_bg (value_at v mem r' c')"
    then obtain r' c' where q0: "(r', c') \<in> ?near" "\<not> is_bg (value_at v mem r' c')" by blast
    then have q: "(r', c') \<in> ?near" "0 \<le> r'" "0 \<le> c'" "(nat r', nat c') \<in> obstacles is_bg v mem"
      using obstacle_value [where is_bg = is_bg, OF assms, of v mem r' c'] by simp_all
    then have "adjacent Way8 (r, c) (nat r', nat c')" unfolding near by simp
    then show "touched Way8 is_bg v mem (r, c)" using q(4) unfolding touched_def by blast
  qed
qed

lemma touched4:
  fixes r c
  assumes "is_bg 0"
  shows "touched Way4 is_bg v mem (r, c) \<longleftrightarrow>
    (\<exists>r' c'. (r', c') \<in> {(int r - 1, int c), (int r, int c - 1), (int r, int c + 1), (int r + 1, int c)} \<and>
      \<not> is_bg (value_at v mem r' c'))"
    (is "_ \<longleftrightarrow> (\<exists>r' c'. (r', c') \<in> ?near \<and> _ r' c')")
proof -
  have near: "adjacent Way4 (r, c) (r', c') \<longleftrightarrow> (int r', int c') \<in> ?near" for r' c'
    by simp presburger
  show ?thesis
  proof
    assume "touched Way4 is_bg v mem (r, c)"
    then obtain r' c' where "(r', c') \<in> obstacles is_bg v mem" "adjacent Way4 (r, c) (r', c')"
      unfolding touched_def by force
    then show "\<exists>r' c'. (r', c') \<in> ?near \<and> \<not> is_bg (value_at v mem r' c')"
      using near obstacle_value [where is_bg = is_bg, OF assms, of v mem "int r'" "int c'"] by auto
  next
    assume "\<exists>r' c'. (r', c') \<in> ?near \<and> \<not> is_bg (value_at v mem r' c')"
    then obtain r' c' where q0: "(r', c') \<in> ?near" "\<not> is_bg (value_at v mem r' c')" by blast
    then have q: "(r', c') \<in> ?near" "0 \<le> r'" "0 \<le> c'" "(nat r', nat c') \<in> obstacles is_bg v mem"
      using obstacle_value [where is_bg = is_bg, OF assms, of v mem r' c'] by simp_all
    then have "adjacent Way4 (r, c) (nat r', nat c')" unfolding near by simp
    then show "touched Way4 is_bg v mem (r, c)" using q(4) unfolding touched_def by blast
  qed
qed

lemma untouched8:
  fixes r c
  assumes "is_bg 0"
  shows "\<not> touched Way8 is_bg v mem (r, c) \<longleftrightarrow> is_bg (value_at v mem (int r - 1) (int c - 1)) \<and>
    is_bg (value_at v mem (int r - 1) (int c)) \<and>
    is_bg (value_at v mem (int r - 1) (int c + 1)) \<and>
    is_bg (value_at v mem (int r) (int c - 1)) \<and>
    is_bg (value_at v mem (int r) (int c + 1)) \<and>
    is_bg (value_at v mem (int r + 1) (int c - 1)) \<and>
    is_bg (value_at v mem (int r + 1) (int c)) \<and>
    is_bg (value_at v mem (int r + 1) (int c + 1))"
  unfolding touched8 [where is_bg = is_bg, OF assms] by blast

lemma untouched4:
  fixes r c
  assumes "is_bg 0"
  shows "\<not> touched Way4 is_bg v mem (r, c) \<longleftrightarrow> is_bg (value_at v mem (int r - 1) (int c)) \<and>
    is_bg (value_at v mem (int r) (int c - 1)) \<and>
    is_bg (value_at v mem (int r) (int c + 1)) \<and>
    is_bg (value_at v mem (int r + 1) (int c))"
  unfolding touched4 [where is_bg = is_bg, OF assms] by blast

lemma dilate_spec:
  assumes v: "view_ok v mem" "is_bg 0" and out: "view_ok out omem" "img_rows out = img_rows v" "img_columns out = img_columns v"
    and f: "joins is_bg f" and "img_rows v * img_columns v \<noteq> 0"
  shows "\<exists>omem'. dilate v mem out conn f omem = Some (Inr omem') \<and> length omem' = length omem \<and>
    (\<forall>p \<in> grid v. is_bg (omem' ! pointer out p) \<longleftrightarrow> \<not> touched conn is_bg v mem p)"
proof -
  let ?s0 = "createShape conn" and ?s1 = "drop 3 (createShape conn)" and ?s2 = "drop 6 (createShape conn)"
  let ?set = "\<lambda>res lst. f lst" and ?update = "\<lambda>res lst. f (res, f lst, 0)"
  have g: "grid out = grid v" using out(2,3) by (simp add: grid_def)
  have ok: "view_ok out m" if "length m = length omem" for m :: "u8 list" using out(1) that by (simp add: view_ok_def)
  have row: "is_bg (f (overlay_at s v mem r' c)) \<longleftrightarrow>
      (s ! 0 = 0 \<or> is_bg (value_at v mem (int r') (int c - 1))) \<and> (s ! 1 = 0 \<or> is_bg (value_at v mem (int r') (int c))) \<and>
      (s ! 2 = 0 \<or> is_bg (value_at v mem (int r') (int c + 1)))" if "masked s" for s r' c
    by (rule overlay_background [OF f v(2) that])
  have middle: "is_bg (f (overlay_at ?s1 v mem r' c)) \<longleftrightarrow>
      is_bg (value_at v mem (int r') (int c - 1)) \<and> is_bg (value_at v mem (int r') (int c + 1))" for r' c
    unfolding row [OF shape_rows(1)] by (cases conn) (simp_all add: createShape_def)
  have upper: "is_bg (f (overlay_at ?s0 v mem r' c)) \<longleftrightarrow> is_bg (value_at v mem (int r') (int c)) \<and>
      (conn = Way8 \<longrightarrow> is_bg (value_at v mem (int r') (int c - 1)) \<and> is_bg (value_at v mem (int r') (int c + 1)))" for r' c
    unfolding row [OF shape_rows(2)] by (cases conn) (auto simp: createShape_def)
  have lower: "is_bg (f (overlay_at ?s2 v mem r' c)) \<longleftrightarrow> is_bg (value_at v mem (int r') (int c)) \<and>
      (conn = Way8 \<longrightarrow> is_bg (value_at v mem (int r') (int c - 1)) \<and> is_bg (value_at v mem (int r') (int c + 1)))" for r' c
    unfolding row [OF shape_rows(3)] by (cases conn) (auto simp: createShape_def)
  have joins: "is_bg (f (x, y, 0)) \<longleftrightarrow> is_bg x \<and> is_bg y" for x y using f v(2) by (simp add: joins_def)
  have rows: "1 \<le> img_rows v" using assms(7) by (cases "img_rows v") auto
  have len3: "3 \<le> length ?s0" "3 \<le> length ?s1" "3 \<le> length ?s2" using shape_rows by (simp_all add: masked_def)
  obtain m1 where m1: "probeRows v mem 0 out 0 ?s1 ?set omem = Some m1" "length m1 = length omem"
    "\<forall>(r, c) \<in> grid out. m1 ! pointer out (r, c) = (if 0 \<le> r \<and> r - 0 < img_rows v - max 0 0
      then f (overlay_at ?s1 v mem (r - 0 + 0) c) else omem ! pointer out (r, c))"
    using probeRows_spec [OF v(1) out(1) len3(2) out(2,3), of 0 0 ?set] by auto
  have p1: "m1 ! pointer out (r, c) = f (overlay_at ?s1 v mem r c)" if "(r, c) \<in> grid v" for r c
    using bspec [OF m1(3), of "(r, c)"] that out(2,3) by (simp add: grid_def)
  show ?thesis
  proof (cases "1 < img_rows v")
    case False
    then have one: "img_rows v = 1" using rows by simp
    have "is_bg (m1 ! pointer out p) \<longleftrightarrow> \<not> touched conn is_bg v mem p" if "p \<in> grid v" for p
    proof -
      obtain r c where p: "p = (r, c)" by force
      then have r: "r = 0" using that one by (simp add: grid_def)
      have "m1 ! pointer out (r, c) = f (overlay_at ?s1 v mem r c)" using p1 that p by blast
      moreover have "value_at v mem (int 0 - 1) x = 0" "value_at v mem (int 0 + 1) x = 0" for x
        using one by (simp_all add: value_at_def)
      ultimately show ?thesis
        using middle [of r c] untouched8 [where is_bg = is_bg, OF v(2), of v mem r c]
          untouched4 [where is_bg = is_bg, OF v(2), of v mem r c] v(2) r
        unfolding p by (cases conn) simp_all
    qed
    then show ?thesis
      using m1(1,2) False out(2,3) assms(7) by (simp add: dilate_def morphologyOperation_def img_empty_def image_row_def Let_def)
  next
    case True
    have small: "max 0 1 \<le> img_rows v" "max 1 0 \<le> img_rows v" using True by simp_all
    obtain m2 where m2: "probeRows v mem 0 out 1 ?s0 ?update m1 = Some m2" "length m2 = length m1"
      "\<forall>(r, c) \<in> grid out. m2 ! pointer out (r, c) = (if 1 \<le> r \<and> r - 1 < img_rows v - max 0 1
        then f (m1 ! pointer out (r, c), f (overlay_at ?s0 v mem (r - 1 + 0) c), 0) else m1 ! pointer out (r, c))"
      using probeRows_spec [OF v(1) ok [OF m1(2)] len3(1) out(2,3) small(1), of ?update] by blast
    have len2: "length m2 = length omem" using m1(2) m2(2) by simp
    obtain m3 where m3: "probeRows v mem 1 out 0 ?s2 ?update m2 = Some m3" "length m3 = length m2"
      "\<forall>(r, c) \<in> grid out. m3 ! pointer out (r, c) = (if 0 \<le> r \<and> r - 0 < img_rows v - max 1 0
        then f (m2 ! pointer out (r, c), f (overlay_at ?s2 v mem (r - 0 + 1) c), 0) else m2 ! pointer out (r, c))"
      using probeRows_spec [OF v(1) ok [OF len2] len3(3) out(2,3) small(2), of ?update] by blast
    have "is_bg (m3 ! pointer out p) \<longleftrightarrow> \<not> touched conn is_bg v mem p" if "p \<in> grid v" for p
    proof -
      obtain r c where p: "p = (r, c)" by force
      have rc: "(r, c) \<in> grid v" using that p by simp
      have a: "is_bg (m1 ! pointer out (r, c)) \<longleftrightarrow> is_bg (f (overlay_at ?s1 v mem r c))" using p1 [OF rc] by simp
      have b: "is_bg (m2 ! pointer out (r, c)) \<longleftrightarrow> is_bg (m1 ! pointer out (r, c)) \<and>
          (1 \<le> r \<longrightarrow> is_bg (f (overlay_at ?s0 v mem (r - 1) c)))"
        using bspec [OF m2(3), of "(r, c)"] rc out(2,3) joins True by (simp add: grid_def) linarith?
      have c: "is_bg (m3 ! pointer out (r, c)) \<longleftrightarrow> is_bg (m2 ! pointer out (r, c)) \<and>
          (r < img_rows v - 1 \<longrightarrow> is_bg (f (overlay_at ?s2 v mem (r + 1) c)))"
        using bspec [OF m3(3), of "(r, c)"] rc out(2,3) joins True by (simp add: grid_def)
      have top: "value_at v mem (int r - 1) x = 0" if "\<not> 1 \<le> r" for x using that by (simp add: value_at_def)
      have bottom: "value_at v mem (int r + 1) x = 0" if "\<not> r < img_rows v - 1" for x
      proof -
        have "int (img_rows v) \<le> int r + 1" using that by linarith
        then show ?thesis by (simp add: value_at_def)
      qed
      have up: "int (r - 1) = int r - 1" if "1 \<le> r" using that by simp
      show ?thesis
        unfolding p c b a
          middle upper lower
        using untouched8 [where is_bg = is_bg, OF v(2), of v mem r c]
          untouched4 [where is_bg = is_bg, OF v(2), of v mem r c] v(2) top bottom up
        by (cases conn; cases "1 \<le> r"; cases "r < img_rows v - 1"; simp add: add.commute; blast)
    qed
    then show ?thesis
      using m1(1) m2(1) m3(1,2) len2 True out(2,3) assms(7)
      by (simp add: dilate_def morphologyOperation_def img_empty_def image_row_def Let_def)
  qed
qed

end
