(* ===== verification/Denoise_Properties.thy ===== *)
theory Denoise_Properties
  imports Denoise_Groups
begin

text \<open>
  The layer removes exactly the small groups, by either way of doing it; when there are enough
  labels for the scan, and when there are not.
\<close>

section \<open>The layer's notion of an obstacle\<close>

lemma isBackground_0 [simp]: "isBackground d 0"
  by (simp add: isBackground_def LETHAL_OBSTACLE_def INSCRIBED_INFLATED_OBSTACLE_def NO_INFORMATION_def)

lemma byte_cases: "(x :: u8) = 253 \<or> x = 254 \<or> x = 255 \<or> x < 253"
proof -
  have "unat x < 256" using unsigned_less [where ?'a = nat, of x] by simp
  then have "unat x = 253 \<or> unat x = 254 \<or> unat x = 255 \<or> unat x < 253" by linarith
  then show ?thesis by (auto simp: word_unat_eq_iff word_less_nat_alt)
qed

lemma background_known: "no_information_is_obstacle d \<Longrightarrow> isBackground d x \<longleftrightarrow> x < 253"
  using byte_cases [of x]
  by (auto simp: isBackground_def LETHAL_OBSTACLE_def INSCRIBED_INFLATED_OBSTACLE_def NO_INFORMATION_def)

lemma background_unknown: "\<not> no_information_is_obstacle d \<Longrightarrow> isBackground d x \<longleftrightarrow> replace_to_free x < 253"
  using byte_cases [of x]
  by (auto simp: isBackground_def LETHAL_OBSTACLE_def INSCRIBED_INFLATED_OBSTACLE_def NO_INFORMATION_def
      replace_to_free_def FREE_SPACE_def)

lemma replace_to_free_max:
  "replace_to_free (max3 (replace_to_free x, replace_to_free y, replace_to_free z)) =
    max3 (replace_to_free x, replace_to_free y, replace_to_free z)"
proof -
  have "replace_to_free u \<noteq> 255" for u by (simp add: replace_to_free_def NO_INFORMATION_def FREE_SPACE_def)
  then have "max3 (replace_to_free x, replace_to_free y, replace_to_free z) \<noteq> 255"
    by (simp add: max3_def max_def)
  then show ?thesis by (simp add: replace_to_free_def [of "max3 _"] NO_INFORMATION_def)
qed

lemma joins_max:
  "joins (isBackground d) (if \<not> no_information_is_obstacle d then max3_free else max3)"
proof (cases "no_information_is_obstacle d")
  case True
  then show ?thesis by (simp add: joins_def background_known max3_def)
next
  case False
  then show ?thesis
    by (simp add: joins_def background_unknown max3_free_def replace_to_free_max) (simp add: max3_def)
qed

section \<open>Single pixels\<close>

lemma group_untouched:
  assumes "p \<in> obstacles is_bg v mem"
  shows "card (group_of conn (obstacles is_bg v mem) p) < 2 \<longleftrightarrow> \<not> touched conn is_bg v mem p"
proof -
  let ?obs = "obstacles is_bg v mem"
  let ?g = "group_of conn ?obs p"
  have p: "p \<in> ?g" using assms by (simp add: group_of_def)
  have fin: "finite ?g" by (rule finite_subset [OF _ finite_grid [of v]]) (auto simp: group_of_def obstacles_def)
  show ?thesis
  proof
    assume small: "card ?g < 2"
    show "\<not> touched conn is_bg v mem p"
    proof
      assume "touched conn is_bg v mem p"
      then obtain q where q: "q \<in> ?obs" "adjacent conn p q" by (auto simp: touched_def)
      then have "q \<in> ?g" using assms by (simp add: group_of_def linked_adjacent)
      moreover have "q \<noteq> p" using q(2) by auto
      ultimately have "card {p, q} \<le> card ?g" using p fin by (intro card_mono) auto
      then show False using small \<open>q \<noteq> p\<close> by simp
    qed
  next
    assume alone: "\<not> touched conn is_bg v mem p"
    have "q = p" if "linked conn ?obs p q" for q
      using that unfolding linked_def
    proof (induction rule: rtrancl_induct)
      case (step y z)
      then show ?case using alone by (auto simp: links_def touched_def)
    qed simp
    then have "?g = {p}" using p by (auto simp: group_of_def)
    then show "card ?g < 2" by simp
  qed
qed

lemma removeSinglePixels_spec:
  assumes "view_ok v mem" and "img_rows v * img_columns v \<noteq> 0"
  shows "\<exists>mem'. removeSinglePixels d junk v mem = Some (Inr mem') \<and>
    cleaned (group_connectivity_type d) 2 (isBackground d) v mem mem'"
proof -
  let ?out = "label_view v" and ?buf = "buffer_get junk (img_rows v * img_columns v)"
  let ?bg = "isBackground d" and ?conn = "group_connectivity_type d"
  have len: "length ?buf = img_rows v * img_columns v" by (simp add: buffer_get_def)
  have ok: "view_ok ?out ?buf"
    using position_less by (simp add: view_ok_def buffer_get_def) (simp add: buffer_view_def)
  have size: "img_rows ?out = img_rows v" "img_columns ?out = img_columns v" by (simp_all add: buffer_view_def)
  obtain omem where o: "dilate v mem ?out ?conn (if \<not> no_information_is_obstacle d then max3_free else max3) ?buf = Some (Inr omem)"
    "length omem = length ?buf" "\<forall>p \<in> grid v. ?bg (omem ! pointer ?out p) \<longleftrightarrow> \<not> touched ?conn ?bg v mem p"
    using dilate_spec [where is_bg = ?bg, OF assms(1) isBackground_0 ok size joins_max assms(2)] by blast
  have ok': "view_ok ?out omem" using ok o(2) by (simp add: view_ok_def)
  let ?f = "\<lambda>max_neighbor img. Some (if \<not> ?bg img \<and> ?bg max_neighbor then FREE_SPACE else img)"
  let ?h = "\<lambda>p. if \<not> ?bg (mem ! pointer v p) \<and> ?bg (omem ! pointer ?out p) then FREE_SPACE else mem ! pointer v p"
  obtain mem' where m: "convert ?out omem v ?f mem = Some (Inr mem')" "length mem' = length mem"
    "\<forall>p \<in> grid v. mem' ! pointer v p = ?h p" "\<forall>i. i \<notin> pointer v ` grid v \<longrightarrow> mem' ! i = mem ! i"
    using convert_spec [OF size ok' assms(1), of ?f ?h] by blast
  have "?h p = (if p \<in> obstacles ?bg v mem \<and> card (group_of ?conn (obstacles ?bg v mem) p) < 2 then 0 else mem ! pointer v p)"
    if "p \<in> grid v" for p
    using o(3) that group_untouched [of p ?bg v mem ?conn]
    by (cases "p \<in> obstacles ?bg v mem") (auto simp: obstacles_def FREE_SPACE_def)
  then have "cleaned ?conn 2 ?bg v mem mem'" using m(2-4) by (simp add: cleaned_def)
  moreover have "removeSinglePixels d junk v mem = Some (Inr mem')"
    using o(1) m(1) by (simp add: removeSinglePixels_def Let_def)
  ultimately show ?thesis by blast
qed

section \<open>Enough labels\<close>

text \<open>Images for which the upper bound of \<open>maxLabels\<close> is one: any with four neighbours, and with
  eight those of at least two rows and columns.\<close>

definition enough_labels :: "connectivity \<Rightarrow> view \<Rightarrow> bool" where
  "enough_labels conn v \<longleftrightarrow> img_rows v * img_columns v < 2 ^ 32 \<and>
     (conn = Way4 \<or> 2 \<le> img_rows v \<and> 2 \<le> img_columns v)"

lemma blocks_bound:
  fixes r c :: nat
  assumes "2 \<le> r" and "2 \<le> c"
  shows "(r + 1) div 2 * ((c + 1) div 2) \<le> r * c div 3 + 1"
proof -
  let ?a = "(r + 1) div 2" and ?b = "(c + 1) div 2"
  have "3 * (?a * ?b) \<le> r * c + 3"
  proof (cases "r = 2 \<or> c = 2")
    case True
    then show ?thesis
    proof
      assume "r = 2"
      then show ?thesis by simp
    next
      assume "c = 2"
      then show ?thesis by simp
    qed
  next
    case False
    then obtain x y where xy: "r = x + 3" "c = y + 3" using assms by (metis add.commute le_Suc_ex le_antisym not_less_eq_eq numeral_2_eq_2 numeral_3_eq_3)
    have "2 * ?a \<le> r + 1" "2 * ?b \<le> c + 1" by simp_all
    then have "(2 * ?a) * (2 * ?b) \<le> (r + 1) * (c + 1)" by (intro mult_le_mono)
    moreover have "r + 1 = x + 4" "c + 1 = y + 4" by (simp_all add: xy)
    ultimately have "4 * (?a * ?b) \<le> (x + 4) * (y + 4)" by (metis mult.assoc mult.left_commute numeral_Bit0_eq_double mult_2 numeral_Bit0 distrib_left)
    moreover have "3 * ((x + 4) * (y + 4)) \<le> 4 * ((x + 3) * (y + 3) + 3)" by (simp add: algebra_simps)
    ultimately have "12 * (?a * ?b) \<le> 4 * ((x + 3) * (y + 3) + 3)" by linarith
    then show ?thesis by (simp add: xy)
  qed
  then show ?thesis by linarith
qed

lemma labels_never_run_out:
  assumes "enough_labels conn v" and "S \<subseteq> grid v" and "scattered conn S"
  shows "card S < maxLabels Label32 (img_rows v) (img_columns v) conn"
proof -
  have area: "img_rows v * img_columns v < 2 ^ 32" using assms(1) by (simp add: enough_labels_def)
  show ?thesis
  proof (cases conn)
    case Way4
    then have "card S \<le> (img_rows v * img_columns v + 1) div 2" using scattered4_pairs assms by simp
    then show ?thesis using area Way4 by (simp add: maxLabels_def)
  next
    case Way8
    then have "2 \<le> img_rows v" "2 \<le> img_columns v" using assms(1) by (auto simp: enough_labels_def)
    then have "card S \<le> img_rows v * img_columns v div 3 + 1"
      using scattered8_blocks [of S v] assms(2,3) Way8 blocks_bound [of "img_rows v" "img_columns v"] by simp
    then show ?thesis using area Way8 by (simp add: maxLabels_def)
  qed
qed

lemma removeGroups_spec:
  assumes "view_ok v mem" and "img_rows v * img_columns v \<noteq> 0" and "0 < minimal_group_size d"
    and "enough_labels (group_connectivity_type d) v"
  shows "\<exists>mem' lt. removeGroups d ljunk v mem = Some (Inr mem', d\<lparr>groups_remover := lt\<rparr>) \<and>
    cleaned (group_connectivity_type d) (minimal_group_size d) (isBackground d) v mem mem'"
proof -
  let ?run = "\<lambda>lt. removeGroupsImpl lt (group_connectivity_type d) (minimal_group_size d) (isBackground d) (ljunk lt) v mem"
  let ?cleaned = "cleaned (group_connectivity_type d) (minimal_group_size d) (isBackground d) v mem"
  have obs: "obstacles (isBackground d) v mem \<subseteq> grid v" by (auto simp: obstacles_def)
  have run: "?run lt = Some (Inl LabelOverflow) \<or> (\<exists>mem'. ?run lt = Some (Inr (Inr mem')) \<and> ?cleaned mem')" for lt
    using removeGroupsImpl_spec [where is_bg = "isBackground d", OF assms(1) isBackground_0 assms(2,3), of lt] by blast
  have big: "\<exists>mem'. ?run Label32 = Some (Inr (Inr mem')) \<and> ?cleaned mem'"
    using removeGroupsImpl_spec [where is_bg = "isBackground d", OF assms(1) isBackground_0 assms(2,3), of Label32]
      labels_never_run_out [OF assms(4)] obs by (metis less_irrefl subset_trans)
  show ?thesis
    using run [of Label16] big
    by (cases "groups_remover d") (fastforce simp: removeGroups_def removeGroupsPickLabelType_def)+
qed

lemma one_row_overflows:
  assumes row: "img_rows v = 1" "img_columns v = 2 * k + 1" "2 \<le> k" and "view_ok v mem" and "is_bg 0"
    and obs: "obstacles is_bg v mem = {(0, c) | c. c < img_columns v \<and> even c}" and "0 < n"
  shows "removeGroupsImpl lt Way8 n is_bg junk v mem = Some (Inl LabelOverflow)"
proof (rule ccontr)
  let ?obs = "obstacles is_bg v mem"
  assume no: "\<not> ?thesis"
  have area: "img_rows v * img_columns v \<noteq> 0" using row by simp
  have "connectedComponents lt Way8 is_bg junk v mem \<noteq> Some (Inl LabelOverflow)"
    using no by (auto simp: removeGroupsImpl_def)
  then obtain lmem count where c: "count \<le> maxLabels lt (img_rows v) (img_columns v) Way8"
    "components_labelled Way8 ?obs v lmem count"
    using connectedComponents_spec [where is_bg = is_bg, OF assms(4,5) area] by blast
  have "\<not> adjacent Way8 (0, c) (0, c')" if "even c" "even c'" for c c'
    using that by simp presburger
  then have "links Way8 ?obs = {}" using obs by (fastforce simp: links_def)
  then have apart: "linked Way8 ?obs p q \<longleftrightarrow> p = q" for p q by (simp add: linked_def)
  have "inj_on (label_at v lmem) ?obs"
    using c(2) apart unfolding components_labelled_def by (intro inj_onI) blast
  moreover have "label_at v lmem ` ?obs \<subseteq> {1..<count}"
    using c(2) unfolding components_labelled_def by fastforce
  ultimately have "card ?obs \<le> card {1..<count}" by (intro card_inj_on_le) auto
  moreover have "?obs = (\<lambda>i. (0, 2 * i)) ` {..k}"
  proof (rule set_eqI)
    fix p
    show "p \<in> ?obs \<longleftrightarrow> p \<in> (\<lambda>i. (0, 2 * i)) ` {..k}"
      unfolding obs using row(2) by (auto elim!: evenE)
  qed
  then have "card ?obs = k + 1" by (simp add: card_image inj_on_def)
  ultimately have "k + 1 \<le> maxLabels lt 1 (2 * k + 1) Way8 - 1" using c(1) row by simp
  moreover have "maxLabels lt 1 (2 * k + 1) Way8 \<le> (2 * k + 1) div 3 + 2" by (simp add: maxLabels_def)
  ultimately show False using row(3) by linarith
qed

section \<open>Properties\<close>

text \<open>A 3x4 image of the default map: a group of two, a single pixel, unknown space.\<close>

definition demo_pixels :: "u8 list" where
  "demo_pixels = [254, 254, 0, 0, 0, 0, 0, 253, 255, 0, 0, 0]"

definition demo_layer :: "nat \<Rightarrow> denoise_layer" where
  "demo_layer n = denoise_initialize True (int n) 8"

abbreviation demo_view :: view where
  "demo_view \<equiv> \<lparr>img_start = 0, img_rows = 3, img_columns = 4, img_step = 4\<rparr>"

lemma demo_ok: "view_ok demo_view demo_pixels"
  by (auto simp: view_ok_def demo_pixels_def grid_def pointer_def image_row_def)

text \<open>C7: for an image of at least two rows and columns (or four-way connectivity), the layer never
  fails, and afterwards exactly the obstacle pixels whose connected group is smaller than
  \<open>minimal_group_size\<close> are free; every other pixel, and the memory around the image, is as it was.
  It holds whatever the buffers contained, for both implementations and both label types.\<close>

theorem denoise_removes_small_groups:
  assumes "view_ok v mem" and "\<not> img_empty v" and "2 \<le> minimal_group_size d"
    and "enough_labels (group_connectivity_type d) v"
  shows "\<exists>mem' lt. denoise d junk ljunk v mem = Some (Inr mem', d\<lparr>groups_remover := lt\<rparr>) \<and>
    cleaned (group_connectivity_type d) (minimal_group_size d) (isBackground d) v mem mem'"
proof (cases "minimal_group_size d = 2")
  case True
  then show ?thesis
    using removeSinglePixels_spec [OF assms(1), of d junk] assms(2)
    by (auto simp: denoise_def img_empty_def intro!: exI [of _ "groups_remover d"])
next
  case False
  then show ?thesis
    using removeGroups_spec [OF assms(1) _ _ assms(4), of ljunk] assms(2,3) by (simp add: denoise_def img_empty_def)
qed

theorem denoise_removes_small_groups_witness:
  "\<exists>mem' lt. denoise (demo_layer 3) (\<lambda>_. 7) (\<lambda>_ _. 9) demo_view demo_pixels =
      Some (Inr mem', (demo_layer 3)\<lparr>groups_remover := lt\<rparr>) \<and>
    cleaned Way8 3 (isBackground (demo_layer 3)) demo_view demo_pixels mem'"
  using denoise_removes_small_groups [OF demo_ok, of "demo_layer 3" "\<lambda>_. 7" "\<lambda>_ _. 9"]
  by (simp add: demo_layer_def denoise_initialize_def img_empty_def enough_labels_def)

text \<open>C24: for a minimal group size of two the dilation-based fast path gives the very image that the
  segmentation-based general path would give.\<close>

theorem single_pixel_path_equivalent:
  assumes "view_ok v mem" and "\<not> img_empty v" and "minimal_group_size d = 2"
    and "enough_labels (group_connectivity_type d) v"
  shows "\<exists>mem'. removeSinglePixels d junk v mem = Some (Inr mem') \<and>
    map_option fst (removeGroups d ljunk v mem) = Some (Inr mem')"
proof -
  have area: "img_rows v * img_columns v \<noteq> 0" using assms(2) by (simp add: img_empty_def)
  obtain m1 where m1: "removeSinglePixels d junk v mem = Some (Inr m1)"
    "cleaned (group_connectivity_type d) 2 (isBackground d) v mem m1"
    using removeSinglePixels_spec [OF assms(1) area] by blast
  obtain m2 lt where m2: "removeGroups d ljunk v mem = Some (Inr m2, d\<lparr>groups_remover := lt\<rparr>)"
    "cleaned (group_connectivity_type d) 2 (isBackground d) v mem m2"
    using removeGroups_spec [OF assms(1) area _ assms(4), of ljunk] assms(3) by auto
  show ?thesis using m1 m2 cleaned_unique [OF m1(2) m2(2)] by simp
qed

theorem single_pixel_path_equivalent_witness:
  "\<exists>mem'. removeSinglePixels (demo_layer 2) (\<lambda>_. 7) demo_view demo_pixels = Some (Inr mem') \<and>
    map_option fst (removeGroups (demo_layer 2) (\<lambda>_ _. 9) demo_view demo_pixels) = Some (Inr mem')"
  using single_pixel_path_equivalent [OF demo_ok, of "demo_layer 2" "\<lambda>_. 7" "\<lambda>_ _. 9"]
  by (simp add: demo_layer_def denoise_initialize_def img_empty_def enough_labels_def)

text \<open>C19: with 32-bit labels \<open>connectedComponents\<close> never runs out of labels and never reads outside
  its images; background pixels get label 0, and two obstacle pixels get the same label, in
  \<open>1 .. total - 1\<close>, exactly if a chain of neighbouring obstacle pixels joins them.\<close>

theorem components_get_labels:
  assumes "view_ok v mem" and "\<not> img_empty v" and "is_bg 0" and "enough_labels conn v"
  shows "\<exists>lmem count. connectedComponents Label32 conn is_bg junk v mem = Some (Inr ((label_view v, lmem), count)) \<and>
    count \<le> img_rows v * img_columns v div 2 + 2 \<and>
    (\<forall>p \<in> grid v. label_at v lmem p < count \<and> (label_at v lmem p = 0 \<longleftrightarrow> p \<notin> obstacles is_bg v mem)) \<and>
    (\<forall>p \<in> obstacles is_bg v mem. \<forall>q \<in> obstacles is_bg v mem.
      label_at v lmem p = label_at v lmem q \<longleftrightarrow> linked conn (obstacles is_bg v mem) p q)"
proof -
  let ?obs = "obstacles is_bg v mem"
  have area: "img_rows v * img_columns v \<noteq> 0" using assms(2) by (simp add: img_empty_def)
  have obs: "S \<subseteq> ?obs \<Longrightarrow> S \<subseteq> grid v" for S by (auto simp: obstacles_def)
  have "\<not> (\<exists>S \<subseteq> ?obs. scattered conn S \<and> card S = maxLabels Label32 (img_rows v) (img_columns v) conn)"
    using labels_never_run_out [OF assms(4)] obs by (metis less_irrefl)
  then obtain lmem count where c: "connectedComponents Label32 conn is_bg junk v mem = Some (Inr ((label_view v, lmem), count))"
    "0 < count" "count \<le> maxLabels Label32 (img_rows v) (img_columns v) conn" "components_labelled conn ?obs v lmem count"
    using connectedComponents_spec [where is_bg = is_bg, OF assms(1,3) area, of Label32 conn junk] by blast
  have "maxLabels Label32 (img_rows v) (img_columns v) conn \<le> img_rows v * img_columns v div 2 + 2"
    by (cases conn) (auto simp: maxLabels_def intro: le_trans [OF min.cobounded1] div_le_mono2)
  moreover have "label_at v lmem p < count \<and> (label_at v lmem p = 0 \<longleftrightarrow> p \<notin> ?obs)" if "p \<in> grid v" for p
    using c(2,4) that unfolding components_labelled_def by (cases "p \<in> ?obs") auto
  moreover have "\<forall>p \<in> ?obs. \<forall>q \<in> ?obs. label_at v lmem p = label_at v lmem q \<longleftrightarrow> linked conn ?obs p q"
    using c(4) unfolding components_labelled_def by blast
  ultimately show ?thesis using c(1,3) by (meson le_trans)
qed

theorem components_get_labels_witness:
  "\<exists>lmem count. connectedComponents Label32 Way8 (\<lambda>x. x = 0) (\<lambda>_. 9) demo_view demo_pixels =
      Some (Inr ((label_view demo_view, lmem), count)) \<and> count \<le> 8"
  using components_get_labels [OF demo_ok, of "\<lambda>x. x = 0" Way8 "\<lambda>_. 9"]
  by (force simp: img_empty_def enough_labels_def)

text \<open>The bound of \<open>maxLabels\<close> on the number of groups is too small for an image of one row: with
  eight-way connectivity, five or more columns and an obstacle in every other one, both label types
  run out of labels, the layer reports an error and the noise stays in the map.\<close>

theorem one_row_not_denoised:
  assumes "view_ok v mem" and "img_rows v = 1" and "img_columns v = 2 * k + 1" and "2 \<le> k"
    and "obstacles (isBackground d) v mem = {(0, c) | c. c < img_columns v \<and> even c}"
    and "group_connectivity_type d = Way8" and "2 < minimal_group_size d"
  shows "denoise d junk ljunk v mem = Some (Inl (Overflow LabelOverflow), d\<lparr>groups_remover := Label32\<rparr>)"
proof -
  have "removeGroupsImpl lt Way8 (minimal_group_size d) (isBackground d) j v mem = Some (Inl LabelOverflow)" for lt j
    using one_row_overflows [where is_bg = "isBackground d", OF assms(2,3,4,1) isBackground_0 assms(5)] assms(7) by simp
  then show ?thesis
    using assms(2,3,6,7)
    by (cases "groups_remover d") (simp_all add: denoise_def img_empty_def removeGroups_def removeGroupsPickLabelType_def)
qed

theorem one_row_not_denoised_witness:
  "denoise (demo_layer 3) (\<lambda>_. 7) (\<lambda>_ _. 9) \<lparr>img_start = 0, img_rows = 1, img_columns = 5, img_step = 5\<rparr> [254, 0, 254, 0, 254]
    = Some (Inl (Overflow LabelOverflow), (demo_layer 3)\<lparr>groups_remover := Label32\<rparr>)"
proof (rule one_row_not_denoised [where k = 2])
  let ?v = "\<lparr>img_start = 0, img_rows = 1, img_columns = 5, img_step = 5\<rparr>"
  show "view_ok ?v [254 :: u8, 0, 254, 0, 254]"
    by (auto simp: view_ok_def grid_def pointer_def image_row_def)
  have bytes: "isBackground (demo_layer 3) 0" "\<not> isBackground (demo_layer 3) 254"
    using isBackground_0 by (auto simp: isBackground_def LETHAL_OBSTACLE_def)
  have "(r, c) \<in> obstacles (isBackground (demo_layer 3)) ?v [254, 0, 254, 0, 254] \<longleftrightarrow>
      (r, c) \<in> {(0, c) | c. c < img_columns ?v \<and> even c}" for r c
  proof (cases "r = 0 \<and> c < 5")
    case True
    then consider "c = 0" | "c = 1" | "c = 2" | "c = 3" | "c = 4" by linarith
    then show ?thesis
      using True bytes by cases (simp_all add: obstacles_def grid_def pointer_def image_row_def)
  next
    case False
    then show ?thesis by (auto simp: obstacles_def grid_def)
  qed
  then show "obstacles (isBackground (demo_layer 3)) ?v [254, 0, 254, 0, 254] = {(0, c) | c. c < img_columns ?v \<and> even c}"
    unfolding set_eq_iff split_paired_All by blast
qed (simp_all add: demo_layer_def denoise_initialize_def)

end
