(* ===== verification/Costmap_Layer.thy ===== *)
theory Costmap_Layer
  imports Costmap_Spec
begin

text \<open>
  The class \<open>CostmapLayer\<close> of \<open>nav2_costmap_2d/src/costmap_layer.cpp\<close>: a layer with a grid of its own
  and the four ways of writing a window of it into the master grid. The last sections state what they
  do cell by cell.
\<close>

section \<open>The class\<close>

text \<open>A bounding box in world coordinates: \<open>(min_x, min_y, max_x, max_y)\<close>.\<close>

type_synonym bounds = "real \<times> real \<times> real \<times> real"

record costmap_layer =
  layer_map :: costmap
  layer_enabled :: bool
  layer_current :: bool
  has_extra_bounds :: bool
  extra_min_x :: real
  extra_max_x :: real
  extra_min_y :: real
  extra_max_y :: real

text \<open>What \<open>updateWithTrueOverwrite\<close> throws when the layer has no grid, and \<open>updateMap\<close> when the
  combined grid cannot take the window of the primary one.\<close>

datatype layer_error = NotInitialized | CannotCopy

text \<open>A parameter of a layer that changed while it runs, by its name without the layer's prefix.\<close>

datatype parameter = ParamDouble string real | ParamBool string bool | ParamInt string int | ParamOther string

definition touch :: "real \<Rightarrow> real \<Rightarrow> bounds \<Rightarrow> bounds" where
  "touch x y b = (case b of (min_x, min_y, max_x, max_y) \<Rightarrow> (min x min_x, min y min_y, max x max_x, max y max_y))"

definition layer_matchSize :: "(nat \<Rightarrow> u8) \<Rightarrow> costmap \<Rightarrow> costmap_layer \<Rightarrow> costmap_layer option" where
  "layer_matchSize nb master l = do {
     m \<leftarrow> resizeMap nb (size_x master) (size_y master) (resolution master) (origin_x master) (origin_y master) (layer_map l);
     Some (l\<lparr>layer_map := m\<rparr>)
   }"

definition clearArea :: "int \<Rightarrow> int \<Rightarrow> int \<Rightarrow> int \<Rightarrow> bool \<Rightarrow> costmap_layer \<Rightarrow> costmap_layer option" where
  "clearArea start_x start_y end_x end_y invert l =
     (let m = layer_map l
      in do {
        cs \<leftarrow> visit_all (\<lambda>(x, y) grid.
            if ((x > start_x \<and> x < end_x) \<and> y > start_y \<and> y < end_y) = invert then Some grid
            else do {
              let index = sint (getIndex m (word_of_int x) (word_of_int y));
              cost \<leftarrow> deref grid index;
              if cost \<noteq> NO_INFORMATION then write_at grid (nat index) NO_INFORMATION else Some grid
            })
          (concat (map (\<lambda>x. map (\<lambda>y. (x, y)) [0..sint (size_y m) - 1]) [0..sint (size_x m) - 1])) (costs m);
        Some (l\<lparr>layer_map := m\<lparr>costs := cs\<rparr>, layer_current := False\<rparr>)
      })"

definition addExtraBounds :: "real \<Rightarrow> real \<Rightarrow> real \<Rightarrow> real \<Rightarrow> costmap_layer \<Rightarrow> costmap_layer" where
  "addExtraBounds mx0 my0 mx1 my1 l =
     l\<lparr>extra_min_x := min mx0 (extra_min_x l), extra_max_x := max mx1 (extra_max_x l),
       extra_min_y := min my0 (extra_min_y l), extra_max_y := max my1 (extra_max_y l), has_extra_bounds := True\<rparr>"

definition useExtraBounds :: "bounds \<Rightarrow> costmap_layer \<Rightarrow> bounds \<times> costmap_layer" where
  "useExtraBounds b l =
     (if \<not> has_extra_bounds l then (b, l)
      else (case b of (min_x, min_y, max_x, max_y) \<Rightarrow>
        ((min (extra_min_x l) min_x, min (extra_min_y l) min_y, max (extra_max_x l) max_x, max (extra_max_y l) max_y),
         l\<lparr>extra_min_x := 1000000, extra_min_y := 1000000, extra_max_x := - 1000000, extra_max_y := - 1000000,
           has_extra_bounds := False\<rparr>)))"

section \<open>Writing a window into the master grid\<close>

text \<open>The cells of a window in the order of the loops, and the index of a cell in the master grid,
  counted in \<open>unsigned int\<close>.\<close>

definition window_cells :: "int \<Rightarrow> int \<Rightarrow> int \<Rightarrow> int \<Rightarrow> (int \<times> int) list" where
  "window_cells min_i min_j max_i max_j = concat (map (\<lambda>j. map (\<lambda>i. (i, j)) [min_i..max_i - 1]) [min_j..max_j - 1])"

definition cell_it :: "costmap \<Rightarrow> int \<times> int \<Rightarrow> nat" where
  "cell_it master c = unat (word_of_int (snd c) * size_x master + word_of_int (fst c) :: u32)"

definition updateWithMax :: "costmap_layer \<Rightarrow> int \<Rightarrow> int \<Rightarrow> int \<Rightarrow> int \<Rightarrow> costmap \<Rightarrow> costmap option" where
  "updateWithMax l min_i min_j max_i max_j master =
     (if \<not> layer_enabled l then Some master
      else do {
        cs \<leftarrow> visit_all (\<lambda>c master_array. do {
            let it = cell_it master c;
            cost \<leftarrow> mem_at (costs (layer_map l)) it;
            if cost = NO_INFORMATION then Some master_array
            else do {
              old_cost \<leftarrow> mem_at master_array it;
              if old_cost = NO_INFORMATION \<or> old_cost < cost then write_at master_array it cost else Some master_array
            }
          }) (window_cells min_i min_j max_i max_j) (costs master);
        Some (master\<lparr>costs := cs\<rparr>)
      })"

definition updateWithTrueOverwrite ::
  "costmap_layer \<Rightarrow> int \<Rightarrow> int \<Rightarrow> int \<Rightarrow> int \<Rightarrow> costmap \<Rightarrow> (layer_error + costmap) option" where
  "updateWithTrueOverwrite l min_i min_j max_i max_j master =
     (if \<not> layer_enabled l then Some (Inr master)
      else if costs (layer_map l) = [] then Some (Inl NotInitialized)
      else do {
        cs \<leftarrow> visit_all (\<lambda>c master_array. do {
            let it = cell_it master c;
            cost \<leftarrow> mem_at (costs (layer_map l)) it;
            write_at master_array it cost
          }) (window_cells min_i min_j max_i max_j) (costs master);
        Some (Inr (master\<lparr>costs := cs\<rparr>))
      })"

definition updateWithOverwrite :: "costmap_layer \<Rightarrow> int \<Rightarrow> int \<Rightarrow> int \<Rightarrow> int \<Rightarrow> costmap \<Rightarrow> costmap option" where
  "updateWithOverwrite l min_i min_j max_i max_j master =
     (if \<not> layer_enabled l then Some master
      else do {
        cs \<leftarrow> visit_all (\<lambda>c master_array. do {
            let it = cell_it master c;
            cost \<leftarrow> mem_at (costs (layer_map l)) it;
            if cost \<noteq> NO_INFORMATION then write_at master_array it cost else Some master_array
          }) (window_cells min_i min_j max_i max_j) (costs master);
        Some (master\<lparr>costs := cs\<rparr>)
      })"

definition updateWithAddition :: "costmap_layer \<Rightarrow> int \<Rightarrow> int \<Rightarrow> int \<Rightarrow> int \<Rightarrow> costmap \<Rightarrow> costmap option" where
  "updateWithAddition l min_i min_j max_i max_j master =
     (if \<not> layer_enabled l then Some master
      else do {
        cs \<leftarrow> visit_all (\<lambda>c master_array. do {
            let it = cell_it master c;
            cost \<leftarrow> mem_at (costs (layer_map l)) it;
            if cost = NO_INFORMATION then Some master_array
            else do {
              old_cost \<leftarrow> mem_at master_array it;
              if old_cost = NO_INFORMATION then write_at master_array it cost
              else (let total = uint old_cost + uint cost
                    in if total \<ge> uint INSCRIBED_INFLATED_OBSTACLE
                       then write_at master_array it (INSCRIBED_INFLATED_OBSTACLE - 1)
                       else write_at master_array it (word_of_int total))
            }
          }) (window_cells min_i min_j max_i max_j) (costs master);
        Some (master\<lparr>costs := cs\<rparr>)
      })"

section \<open>What writing a window does\<close>

definition window_ok :: "int \<Rightarrow> int \<Rightarrow> int \<Rightarrow> int \<Rightarrow> costmap \<Rightarrow> bool" where
  "window_ok min_i min_j max_i max_j m \<longleftrightarrow>
     0 \<le> min_i \<and> max_i \<le> int (width m) \<and> 0 \<le> min_j \<and> max_j \<le> int (height m)"

definition in_window :: "int \<Rightarrow> int \<Rightarrow> int \<Rightarrow> int \<Rightarrow> nat \<Rightarrow> nat \<Rightarrow> bool" where
  "in_window min_i min_j max_i max_j x y \<longleftrightarrow> min_i \<le> int x \<and> int x < max_i \<and> min_j \<le> int y \<and> int y < max_j"

text \<open>The chosen cells become a function of their old cost, the rest stays.\<close>

definition cells_rewritten ::
  "(nat \<Rightarrow> nat \<Rightarrow> bool) \<Rightarrow> (nat \<Rightarrow> nat \<Rightarrow> u8 \<Rightarrow> u8) \<Rightarrow> costmap \<Rightarrow> costmap \<Rightarrow> bool" where
  "cells_rewritten P f m m' \<longleftrightarrow>
     m' = m\<lparr>costs := costs m'\<rparr> \<and> length (costs m') = length (costs m) \<and>
     (\<forall>x < width m. \<forall>y < height m. cost_at m' x y = (if P x y then f x y (cost_at m x y) else cost_at m x y))"

abbreviation window_rewritten ::
  "int \<Rightarrow> int \<Rightarrow> int \<Rightarrow> int \<Rightarrow> (nat \<Rightarrow> nat \<Rightarrow> u8 \<Rightarrow> u8) \<Rightarrow> costmap \<Rightarrow> costmap \<Rightarrow> bool" where
  "window_rewritten min_i min_j max_i max_j \<equiv> cells_rewritten (in_window min_i min_j max_i max_j)"

lemma set_window_cells:
  "set (window_cells a b c d) = {(i, j). a \<le> i \<and> i < c \<and> b \<le> j \<and> j < d}"
  by (auto simp: window_cells_def)

lemma distinct_window_cells: "distinct (window_cells a b c d)"
proof -
  have "distinct (concat (map (\<lambda>j. map (\<lambda>i. (i, j)) [a..c - 1]) js))" if "distinct js" for js :: "int list"
    using that by (induction js) (auto simp: distinct_map inj_on_def)
  then show ?thesis by (simp add: window_cells_def)
qed

definition cells_of :: "costmap \<Rightarrow> (int \<times> int) set" where
  "cells_of m = {(i, j). 0 \<le> i \<and> i < int (width m) \<and> 0 \<le> j \<and> j < int (height m)}"

lemma window_in_cells: "window_ok a b c d m \<Longrightarrow> set (window_cells a b c d) \<subseteq> cells_of m"
  by (auto simp: set_window_cells window_ok_def cells_of_def)

lemma cell_it_nat:
  assumes "grid_ok m" and "p \<in> cells_of m"
  shows "cell_it m p = nat (snd p) * width m + nat (fst p)"
    and "nat (fst p) < width m" and "nat (snd p) < height m" and "cell_it m p < length (costs m)"
proof -
  have p: "0 \<le> fst p" "fst p < int (width m)" "0 \<le> snd p" "snd p < int (height m)"
    using assms(2) by (auto simp: cells_of_def)
  then show xy: "nat (fst p) < width m" "nat (snd p) < height m" by (simp_all only: nat_less_iff)
  have w: "int (width m) < 2 ^ 32" "int (height m) < 2 ^ 32" using unsigned_less [where ?'a = int, of "size_x m"]
    unsigned_less [where ?'a = int, of "size_y m"] by simp_all
  have "unat (word_of_int (fst p) :: u32) = nat (fst p)" "unat (word_of_int (snd p) :: u32) = nat (snd p)"
    using p w by (intro unat_of_int_small; linarith)+
  moreover have "nat (snd p) * width m + nat (fst p) < 2 ^ 32"
    using cell_index_less [OF xy] assms(1) by (simp add: grid_ok_def)
  ultimately show it: "cell_it m p = nat (snd p) * width m + nat (fst p)"
    by (simp add: cell_it_def unat_index)
  show "cell_it m p < length (costs m)" unfolding it by (rule cell_in_grid [OF assms(1) xy])
qed

lemma inj_cell_it:
  assumes "grid_ok m"
  shows "inj_on (cell_it m) (cells_of m)"
proof (rule inj_onI)
  fix p q assume pq: "p \<in> cells_of m" "q \<in> cells_of m" "cell_it m p = cell_it m q"
  note it = cell_it_nat [OF assms]
  have "nat (snd p) * width m + nat (fst p) = nat (snd q) * width m + nat (fst q)"
    using pq(3) unfolding it(1) [OF pq(1)] it(1) [OF pq(2)] .
  then have "nat (fst p) = nat (fst q) \<and> nat (snd p) = nat (snd q)"
    by (rule cell_index_inj [OF it(2) [OF pq(1)] it(2) [OF pq(2)]])
  then show "p = q" using pq(1,2) by (auto simp: cells_of_def)
qed

text \<open>A loop over cells that rewrites each cell as a function of its own cost.\<close>

lemma cells_visit:
  assumes ok: "grid_ok m" and ps: "set ps \<subseteq> cells_of m" "distinct ps"
    and body: "\<And>p arr. p \<in> set ps \<Longrightarrow> length arr = length (costs m) \<Longrightarrow>
      body p arr = do { x \<leftarrow> mem_at arr (cell_it m p); write_at arr (cell_it m p) (f (nat (fst p)) (nat (snd p)) x) }"
  shows "\<exists>cs. visit_all body ps (costs m) = Some cs \<and>
    cells_rewritten (\<lambda>x y. (int x, int y) \<in> set ps) f m (m\<lparr>costs := cs\<rparr>)"
proof -
  let ?g = "\<lambda>p x. f (nat (fst p)) (nat (snd p)) x"
  let ?body = "\<lambda>p arr. do { x \<leftarrow> mem_at arr (cell_it m p); y \<leftarrow> Some (?g p x); write_at arr (cell_it m p) y }"
  have it: "cell_it m p = nat (snd p) * width m + nat (fst p)" "nat (fst p) < width m" "cell_it m p < length (costs m)"
    if "p \<in> set ps" for p
    using cell_it_nat [OF ok, of p] that ps(1) by auto
  have inj: "inj_on (cell_it m) (set ps)" by (rule inj_on_subset [OF inj_cell_it [OF ok] ps(1)])
  have less: "\<forall>p \<in> set ps. cell_it m p < length (costs m)" using it(3) by simp
  obtain cs where cs: "visit_all ?body ps (costs m) = Some cs" "length cs = length (costs m)"
    "\<forall>p \<in> set ps. cs ! cell_it m p = ?g p (costs m ! cell_it m p)"
    "\<forall>i. i \<notin> cell_it m ` set ps \<longrightarrow> cs ! i = costs m ! i"
    using visit_all_rewrite [OF ps(2) inj less, of "\<lambda>p x. Some (?g p x)" "\<lambda>p. ?g p (costs m ! cell_it m p)"] by auto
  have "visit_all body ps (costs m) = visit_all ?body ps (costs m)"
  proof (rule visit_all_cong_inv [where I = "\<lambda>arr. length arr = length (costs m)"])
    fix p and arr arr' :: "u8 list"
    assume p: "p \<in> set ps" "length arr = length (costs m)"
    show "body p arr = ?body p arr" by (simp add: body [OF p])
    assume "?body p arr = Some arr'"
    then show "length arr' = length (costs m)"
      using p(2) by (auto simp: mem_at_def write_at_def split: if_splits)
  qed simp
  moreover have "cs ! (y * width m + x) =
    (if (int x, int y) \<in> set ps then f x y (costs m ! (y * width m + x)) else costs m ! (y * width m + x))"
    if xy: "x < width m" "y < height m" for x y
  proof (cases "(int x, int y) \<in> set ps")
    case True
    then show ?thesis using cs(3) it(1) [OF True] by force
  next
    case False
    have "y * width m + x \<notin> cell_it m ` set ps"
    proof
      assume "y * width m + x \<in> cell_it m ` set ps"
      then obtain p where p: "p \<in> set ps" "y * width m + x = nat (snd p) * width m + nat (fst p)"
        using it(1) by auto
      then have "x = nat (fst p) \<and> y = nat (snd p)" using cell_index_inj [OF xy(1) it(2) [OF p(1)]] by blast
      then show False using p(1) False ps(1) by (auto simp: cells_of_def)
    qed
    then show ?thesis using cs(4) False by auto
  qed
  ultimately show ?thesis using cs(1,2) by (auto simp: cells_rewritten_def cost_at_def)
qed

lemma window_visit:
  assumes ok: "grid_ok m" "window_ok a b c d m"
    and body: "\<And>p arr. p \<in> set (window_cells a b c d) \<Longrightarrow> length arr = length (costs m) \<Longrightarrow>
      body p arr = do { x \<leftarrow> mem_at arr (cell_it m p); write_at arr (cell_it m p) (f (nat (fst p)) (nat (snd p)) x) }"
  shows "\<exists>cs. visit_all body (window_cells a b c d) (costs m) = Some cs \<and>
    window_rewritten a b c d f m (m\<lparr>costs := cs\<rparr>)"
proof -
  have "(\<lambda>x y. (int x, int y) \<in> set (window_cells a b c d)) = in_window a b c d"
    by (auto simp: in_window_def set_window_cells fun_eq_iff)
  then show ?thesis
    using cells_visit [OF ok(1) window_in_cells [OF ok(2)] distinct_window_cells body] by simp
qed

lemma same_but_costs:
  assumes "m' = m\<lparr>costs := cs\<rparr>"
  shows "size_x m' = size_x m" "size_y m' = size_y m" "resolution m' = resolution m"
    "origin_x m' = origin_x m" "origin_y m' = origin_y m" "default_value m' = default_value m"
  by (simp_all add: assms)

lemma cells_rewritten_ok:
  assumes "cells_rewritten P f m m'" and "grid_ok m"
  shows "grid_ok m'"
proof -
  have m': "m' = m\<lparr>costs := costs m'\<rparr>" "length (costs m') = length (costs m)"
    using assms(1) by (simp_all only: cells_rewritten_def)
  show ?thesis using assms(2) same_but_costs [OF m'(1)] m'(2) by (simp add: grid_ok_def)
qed

lemma window_rewritten_refl: "window_rewritten a b c d (\<lambda>x y old. old) m m"
  by (simp add: cells_rewritten_def)

section \<open>The four ways of combining\<close>

text \<open>The grid of a layer that covers the master grid.\<close>

definition covers :: "costmap_layer \<Rightarrow> costmap \<Rightarrow> bool" where
  "covers l m \<longleftrightarrow> grid_ok (layer_map l) \<and> size_x (layer_map l) = size_x m \<and> size_y (layer_map l) = size_y m"

text \<open>The cost of a cell from the cost of the layer and the old cost.\<close>

definition max_cost :: "u8 \<Rightarrow> u8 \<Rightarrow> u8" where
  "max_cost cost old = (if cost = NO_INFORMATION then old else if old = NO_INFORMATION \<or> old < cost then cost else old)"

definition overwrite_cost :: "u8 \<Rightarrow> u8 \<Rightarrow> u8" where
  "overwrite_cost cost old = (if cost = NO_INFORMATION then old else cost)"

definition add_cost :: "u8 \<Rightarrow> u8 \<Rightarrow> u8" where
  "add_cost cost old =
     (if cost = NO_INFORMATION then old else if old = NO_INFORMATION then cost
      else word_of_int (min (uint old + uint cost) 252))"

text \<open>The layer's merge at a cell; a disabled layer leaves it alone.\<close>

definition layer_merge :: "(u8 \<Rightarrow> u8 \<Rightarrow> u8) \<Rightarrow> costmap_layer \<Rightarrow> nat \<Rightarrow> nat \<Rightarrow> u8 \<Rightarrow> u8" where
  "layer_merge f l x y old = (if layer_enabled l then f (cost_at (layer_map l) x y) old else old)"

lemma covers_cost:
  assumes "covers l m" and "grid_ok m" and "window_ok a b c d m" and "p \<in> set (window_cells a b c d)"
  shows "mem_at (costs (layer_map l)) (cell_it m p) = Some (cost_at (layer_map l) (nat (fst p)) (nat (snd p)))"
    and "cell_it m p < length (costs m)"
proof -
  have p: "p \<in> cells_of m" using window_in_cells [OF assms(3)] assms(4) by blast
  note it = cell_it_nat [OF assms(2) p]
  have "nat (snd p) * width (layer_map l) + nat (fst p) < length (costs (layer_map l))"
    using it assms(1) by (intro cell_in_grid) (simp_all add: covers_def)
  then show "mem_at (costs (layer_map l)) (cell_it m p) = Some (cost_at (layer_map l) (nat (fst p)) (nat (snd p)))"
    using assms(1) it(1) by (simp add: mem_at_Some cost_at_def covers_def)
  show "cell_it m p < length (costs m)" by (rule it(4))
qed

lemma merge_off: "\<not> layer_enabled l \<Longrightarrow> window_rewritten a b c d (layer_merge f l) m m"
  by (simp add: cells_rewritten_def layer_merge_def)

lemma updateWithMax_spec:
  assumes "grid_ok m" and "covers l m" and "window_ok a b c d m"
  shows "\<exists>m'. updateWithMax l a b c d m = Some m' \<and> window_rewritten a b c d (layer_merge max_cost l) m m'"
proof (cases "layer_enabled l")
  case True
  let ?body = "\<lambda>c master_array. do {
      let it = cell_it m c;
      cost \<leftarrow> mem_at (costs (layer_map l)) it;
      if cost = NO_INFORMATION then Some master_array
      else do {
        old_cost \<leftarrow> mem_at master_array it;
        if old_cost = NO_INFORMATION \<or> old_cost < cost then write_at master_array it cost else Some master_array
      }
    }"
  have "\<exists>cs. visit_all ?body (window_cells a b c d) (costs m) = Some cs \<and>
    window_rewritten a b c d (layer_merge max_cost l) m (m\<lparr>costs := cs\<rparr>)"
    using covers_cost [OF assms(2,1,3)] True
    by (intro window_visit [OF assms(1,3)])
      (auto simp: Let_def mem_at_Some write_at_def layer_merge_def max_cost_def)
  then show ?thesis using True by (auto simp: updateWithMax_def)
qed (use merge_off in \<open>auto simp: updateWithMax_def\<close>)

lemma updateWithTrueOverwrite_spec:
  assumes "grid_ok m" and "covers l m" and "window_ok a b c d m" and "0 < width m" and "0 < height m"
  shows "\<exists>m'. updateWithTrueOverwrite l a b c d m = Some (Inr m') \<and>
    window_rewritten a b c d (layer_merge (\<lambda>cost old. cost) l) m m'"
proof (cases "layer_enabled l")
  case True
  let ?body = "\<lambda>c master_array. do {
      let it = cell_it m c;
      cost \<leftarrow> mem_at (costs (layer_map l)) it;
      write_at master_array it cost
    }"
  have "\<exists>cs. visit_all ?body (window_cells a b c d) (costs m) = Some cs \<and>
    window_rewritten a b c d (layer_merge (\<lambda>cost old. cost) l) m (m\<lparr>costs := cs\<rparr>)"
    using covers_cost [OF assms(2,1,3)] True
    by (intro window_visit [OF assms(1,3)]) (simp add: Let_def mem_at_Some write_at_def layer_merge_def)
  moreover have "costs (layer_map l) \<noteq> []"
    using assms(2,4,5) by (auto simp: covers_def grid_ok_def)
  ultimately show ?thesis using True by (auto simp: updateWithTrueOverwrite_def)
qed (use merge_off in \<open>auto simp: updateWithTrueOverwrite_def\<close>)

lemma updateWithOverwrite_spec:
  assumes "grid_ok m" and "covers l m" and "window_ok a b c d m"
  shows "\<exists>m'. updateWithOverwrite l a b c d m = Some m' \<and> window_rewritten a b c d (layer_merge overwrite_cost l) m m'"
proof (cases "layer_enabled l")
  case True
  let ?body = "\<lambda>c master_array. do {
      let it = cell_it m c;
      cost \<leftarrow> mem_at (costs (layer_map l)) it;
      if cost \<noteq> NO_INFORMATION then write_at master_array it cost else Some master_array
    }"
  have "\<exists>cs. visit_all ?body (window_cells a b c d) (costs m) = Some cs \<and>
    window_rewritten a b c d (layer_merge overwrite_cost l) m (m\<lparr>costs := cs\<rparr>)"
    using covers_cost [OF assms(2,1,3)] True
    by (intro window_visit [OF assms(1,3)])
      (auto simp: Let_def mem_at_Some write_at_def layer_merge_def overwrite_cost_def)
  then show ?thesis using True by (auto simp: updateWithOverwrite_def)
qed (use merge_off in \<open>auto simp: updateWithOverwrite_def\<close>)

lemma updateWithAddition_spec:
  assumes "grid_ok m" and "covers l m" and "window_ok a b c d m"
  shows "\<exists>m'. updateWithAddition l a b c d m = Some m' \<and> window_rewritten a b c d (layer_merge add_cost l) m m'"
proof (cases "layer_enabled l")
  case True
  let ?body = "\<lambda>c master_array. do {
      let it = cell_it m c;
      cost \<leftarrow> mem_at (costs (layer_map l)) it;
      if cost = NO_INFORMATION then Some master_array
      else do {
        old_cost \<leftarrow> mem_at master_array it;
        if old_cost = NO_INFORMATION then write_at master_array it cost
        else (let total = uint old_cost + uint cost
              in if total \<ge> uint INSCRIBED_INFLATED_OBSTACLE
                 then write_at master_array it (INSCRIBED_INFLATED_OBSTACLE - 1)
                 else write_at master_array it (word_of_int total))
      }
    }"
  have "\<exists>cs. visit_all ?body (window_cells a b c d) (costs m) = Some cs \<and>
    window_rewritten a b c d (layer_merge add_cost l) m (m\<lparr>costs := cs\<rparr>)"
    using covers_cost [OF assms(2,1,3)] True
    by (intro window_visit [OF assms(1,3)])
      (auto simp: Let_def mem_at_Some write_at_def layer_merge_def add_cost_def INSCRIBED_INFLATED_OBSTACLE_def min_def)
  then show ?thesis using True by (auto simp: updateWithAddition_def)
qed (use merge_off in \<open>auto simp: updateWithAddition_def\<close>)

text \<open>\<open>clearArea\<close> makes the cells strictly inside the rectangle unknown, or those outside it.\<close>

lemma clearArea_spec:
  assumes "grid_ok (layer_map l)" and "width (layer_map l) * height (layer_map l) < 2 ^ 31"
  shows "\<exists>m'. clearArea x0 y0 x1 y1 outside l = Some (l\<lparr>layer_map := m', layer_current := False\<rparr>) \<and>
    cells_rewritten (\<lambda>x y. (x0 < int x \<and> int x < x1 \<and> y0 < int y \<and> int y < y1) \<noteq> outside)
      (\<lambda>_ _ _. NO_INFORMATION) (layer_map l) m'"
proof (cases "width (layer_map l) = 0 \<or> height (layer_map l) = 0")
  case True
  then have "concat (map (\<lambda>x. map (\<lambda>y. (x, y)) [0..sint (size_y (layer_map l)) - 1]) [0..sint (size_x (layer_map l)) - 1]) = []"
    by (auto simp: unsigned_eq_0_iff)
  then have "clearArea x0 y0 x1 y1 outside l = Some (l\<lparr>layer_map := layer_map l, layer_current := False\<rparr>)"
    by (simp only: clearArea_def Let_def visit_all.simps Option.bind.bind_lunit) simp
  then show ?thesis using True by (intro exI [of _ "layer_map l"]) (auto simp: cells_rewritten_def)
next
  case False
  let ?m = "layer_map l"
  have "width ?m * 1 \<le> width ?m * height ?m" "1 * height ?m \<le> width ?m * height ?m"
    using False by (intro mult_le_mono; simp)+
  then have small: "width ?m < 2 ^ 31" "height ?m < 2 ^ 31" using assms(2) by linarith+
  let ?ps = "concat (map (\<lambda>x. map (\<lambda>y. (x, y)) [0..sint (size_y ?m) - 1]) [0..sint (size_x ?m) - 1])"
  have set: "set ?ps = cells_of ?m" using small by (auto simp: cells_of_def sint_small)
  have dist: "distinct ?ps"
  proof -
    have "distinct (concat (map (\<lambda>x. map (\<lambda>y. (x, y)) ys) xs))" if "distinct xs" "distinct ys" for xs ys :: "int list"
      using that by (induction xs) (auto simp: distinct_map inj_on_def)
    then show ?thesis by simp
  qed
  let ?in = "\<lambda>x y. x0 < x \<and> x < x1 \<and> y0 < y \<and> y < y1"
  let ?body = "\<lambda>(x, y) grid.
      if ((x > x0 \<and> x < x1) \<and> y > y0 \<and> y < y1) = outside then Some grid
      else do {
        let index = sint (getIndex ?m (word_of_int x) (word_of_int y));
        cost \<leftarrow> deref grid index;
        if cost \<noteq> NO_INFORMATION then write_at grid (nat index) NO_INFORMATION else Some grid
      }"
  have body: "?body p arr = do { x \<leftarrow> mem_at arr (cell_it ?m p);
      write_at arr (cell_it ?m p) (if ?in (int (nat (fst p))) (int (nat (snd p))) = outside then x else NO_INFORMATION) }"
    if p: "p \<in> set ?ps" "length arr = length (costs ?m)" for p arr
  proof -
    have g: "p \<in> cells_of ?m" using p(1) by (simp only: set)
    note it = cell_it_nat [OF assms(1) g]
    have same: "arr[i := x] = arr" if "arr ! i = x" for i x using that by auto
    have "length (costs ?m) < 2 ^ 31" using assms by (simp add: grid_ok_def)
    then have "sint (getIndex ?m (word_of_int (fst p)) (word_of_int (snd p))) = int (cell_it ?m p)"
      using it(4) by (simp add: cell_it_def getIndex_def sint_small)
    moreover have "int (nat (fst p)) = fst p" "int (nat (snd p)) = snd p" using g by (auto simp: cells_of_def)
    ultimately show ?thesis
      using it(4) p(2) by (cases p) (auto simp: same deref_def mem_at_Some write_at_def Let_def)
  qed
  have "\<exists>cs. visit_all ?body ?ps (costs ?m) = Some cs \<and>
    cells_rewritten (\<lambda>x y. (int x, int y) \<in> set ?ps)
      (\<lambda>x y c. if ?in (int x) (int y) = outside then c else NO_INFORMATION) ?m (?m\<lparr>costs := cs\<rparr>)"
  proof (rule cells_visit [OF assms(1) _ dist])
    show "set ?ps \<subseteq> cells_of ?m" by (simp only: set order_refl)
  qed (rule body)
  then obtain cs where cs: "visit_all ?body ?ps (costs ?m) = Some cs"
    "cells_rewritten (\<lambda>x y. (int x, int y) \<in> set ?ps)
      (\<lambda>x y c. if ?in (int x) (int y) = outside then c else NO_INFORMATION) ?m (?m\<lparr>costs := cs\<rparr>)"
    by blast
  have "clearArea x0 y0 x1 y1 outside l = Some (l\<lparr>layer_map := ?m\<lparr>costs := cs\<rparr>, layer_current := False\<rparr>)"
    using cs(1) by (simp add: clearArea_def)
  moreover have "cells_rewritten (\<lambda>x y. ?in (int x) (int y) \<noteq> outside) (\<lambda>_ _ _. NO_INFORMATION) ?m (?m\<lparr>costs := cs\<rparr>)"
    using cs(2) unfolding cells_rewritten_def set by (simp add: cells_of_def del: of_nat_unat)
  ultimately show ?thesis by blast
qed

end
