(* ===== verification/Layered_Costmap.thy ===== *)
theory Layered_Costmap
  imports Costmap_Layer
begin

text \<open>
  The class \<open>LayeredCostmap\<close> of \<open>nav2_costmap_2d/src/layered_costmap.cpp\<close>: the master grids and the
  lists of plugins and filters that write into them, and the geometry of the footprint
  (\<open>src/footprint.cpp\<close>, \<open>src/costmap_math.cpp\<close>). A plugin is any object with the operations of the
  interface \<open>Layer\<close>, given as a record of functions; what such an object owes the map is a locale.
\<close>

section \<open>The interface of the layers\<close>

type_synonym point = "real \<times> real"

text \<open>What a layer reads of the layered costmap it belongs to: its pointer \<open>layered_costmap_\<close>.\<close>

record parent =
  par_costmap :: costmap
  par_rolling :: bool
  par_footprint :: "point list"
  par_inscribed :: real

record 'p plugin_ops =
  plugin_updateBounds :: "parent \<Rightarrow> real \<Rightarrow> real \<Rightarrow> real \<Rightarrow> bounds \<Rightarrow> 'p \<Rightarrow> ('p \<times> bounds) option"
  plugin_updateCosts :: "parent \<Rightarrow> int \<Rightarrow> int \<Rightarrow> int \<Rightarrow> int \<Rightarrow> 'p \<times> costmap \<Rightarrow> (layer_error option \<times> 'p \<times> costmap) option"
  plugin_matchSize :: "parent \<Rightarrow> 'p \<Rightarrow> 'p option"
  plugin_onFootprintChanged :: "parent \<Rightarrow> 'p \<Rightarrow> 'p option"
  plugin_isCurrent :: "'p \<Rightarrow> bool"
  plugin_isEnabled :: "'p \<Rightarrow> bool"

section \<open>Footprints\<close>

text \<open>A quotient of doubles whose divisor may be zero is \<open>None\<close>, not a number; comparisons with it
  are false, so that \<open>std::min\<close> and \<open>std::max\<close> return their first argument.\<close>

definition point_distance :: "real \<Rightarrow> real \<Rightarrow> real \<Rightarrow> real \<Rightarrow> real" where
  "point_distance x0 y0 x1 y1 = sqrt ((x1 - x0)\<^sup>2 + (y1 - y0)\<^sup>2)"

definition distanceToLine :: "real \<Rightarrow> real \<Rightarrow> real \<Rightarrow> real \<Rightarrow> real \<Rightarrow> real \<Rightarrow> real option" where
  "distanceToLine pX pY x0 y0 x1 y1 =
     (let A = pX - x0; B = pY - y0; C = x1 - x0; D = y1 - y0;
          dot = A * C + B * D; len_sq = C * C + D * D
      in if len_sq = 0 then None
         else
           (let param = dot / len_sq;
                (xx, yy) = (if param < 0 then (x0, y0) else if param > 1 then (x1, y1)
                            else (x0 + param * C, y0 + param * D))
            in Some (point_distance pX pY xx yy)))"

definition std_min :: "real \<Rightarrow> real option \<Rightarrow> real" where
  "std_min a b = (case b of None \<Rightarrow> a | Some b \<Rightarrow> if b < a then b else a)"

definition std_max :: "real \<Rightarrow> real option \<Rightarrow> real" where
  "std_max a b = (case b of None \<Rightarrow> a | Some b \<Rightarrow> if a < b then b else a)"

definition DBL_MAX :: real where
  "DBL_MAX = (2 - 1 / 2 ^ 52) * 2 ^ 1023"

text \<open>The step for one vertex and the edge from it to the next.\<close>

definition min_max_step :: "point \<times> point \<Rightarrow> real \<times> real \<Rightarrow> real \<times> real" where
  "min_max_step e d = (case (e, d) of (((x, y), (x', y')), (min_dist, max_dist)) \<Rightarrow>
     (let vertex_dist = point_distance 0 0 x y;
          edge_dist = distanceToLine 0 0 x y x' y'
      in (std_min min_dist (Some (std_min vertex_dist edge_dist)),
          std_max max_dist (Some (std_max vertex_dist edge_dist)))))"

definition calculateMinAndMaxDistances :: "point list \<Rightarrow> real \<times> real" where
  "calculateMinAndMaxDistances footprint =
     (if length footprint \<le> 2 then (DBL_MAX, 0)
      else
        (let d = fold min_max_step (zip footprint (tl footprint)) (DBL_MAX, 0)
         in min_max_step (last footprint, hd footprint) d))"

definition transformFootprint :: "real \<Rightarrow> real \<Rightarrow> real \<Rightarrow> point list \<Rightarrow> point list" where
  "transformFootprint x y theta footprint_spec =
     (let cos_th = cos theta; sin_th = sin theta
      in map (\<lambda>(px, py). (x + (px * cos_th - py * sin_th), y + (px * sin_th + py * cos_th))) footprint_spec)"

definition sign0 :: "real \<Rightarrow> real" where
  "sign0 x = (if x < 0 then -1 else if x > 0 then 1 else 0)"

definition padFootprint :: "real \<Rightarrow> point list \<Rightarrow> point list" where
  "padFootprint padding footprint = map (\<lambda>(x, y). (x + sign0 x * padding, y + sign0 y * padding)) footprint"

definition makeFootprintFromRadius :: "real \<Rightarrow> point list" where
  "makeFootprintFromRadius radius =
     map (\<lambda>i. let angle = real i * 2 * pi / 16 in (cos angle * radius, sin angle * radius)) [0..<16]"

section \<open>The class\<close>

record 'p layered_costmap =
  primary_costmap :: costmap
  combined_costmap :: costmap
  rolling_window :: bool
  lc_current :: bool
  lc_bounds :: bounds
  bx0 :: u32
  bxn :: u32
  by0 :: u32
  byn :: u32
  plugins :: "'p list"
  filters :: "'p list"
  lc_initialized :: bool
  size_locked :: bool
  circumscribed_radius :: real
  inscribed_radius :: real
  lc_footprint :: "point list"

definition parent_of :: "'p layered_costmap \<Rightarrow> parent" where
  "parent_of c = \<lparr>par_costmap = combined_costmap c, par_rolling = rolling_window c,
     par_footprint = lc_footprint c, par_inscribed = inscribed_radius c\<rparr>"

definition LayeredCostmap :: "bool \<Rightarrow> bool \<Rightarrow> costmap \<Rightarrow> costmap \<Rightarrow> 'p layered_costmap" where
  "LayeredCostmap rolling track_unknown primary combined =
     (let v = (if track_unknown then 255 else 0)
      in \<lparr>primary_costmap = primary\<lparr>default_value := v\<rparr>, combined_costmap = combined\<lparr>default_value := v\<rparr>,
          rolling_window = rolling, lc_current = False, lc_bounds = (0, 0, 0, 0), bx0 = 0, bxn = 0, by0 = 0, byn = 0,
          plugins = [], filters = [], lc_initialized = False, size_locked = False,
          circumscribed_radius = 1, inscribed_radius = 1 / 10, lc_footprint = []\<rparr>)"

definition addPlugin :: "'p \<Rightarrow> 'p layered_costmap \<Rightarrow> 'p layered_costmap" where
  "addPlugin plugin c = c\<lparr>plugins := plugins c @ [plugin]\<rparr>"

definition addFilter :: "'p \<Rightarrow> 'p layered_costmap \<Rightarrow> 'p layered_costmap" where
  "addFilter plugin c = c\<lparr>filters := filters c @ [plugin]\<rparr>"

fun each_plugin :: "('p \<Rightarrow> 'p option) \<Rightarrow> 'p list \<Rightarrow> 'p list option" where
  "each_plugin f [] = Some []"
| "each_plugin f (p # ps) = do { p \<leftarrow> f p; ps \<leftarrow> each_plugin f ps; Some (p # ps) }"

definition lc_resizeMap ::
  "'p plugin_ops \<Rightarrow> (nat \<Rightarrow> u8) \<Rightarrow> u32 \<Rightarrow> u32 \<Rightarrow> real \<Rightarrow> real \<Rightarrow> real \<Rightarrow> bool \<Rightarrow> 'p layered_costmap
    \<Rightarrow> 'p layered_costmap option" where
  "lc_resizeMap ops nb sx sy res ox oy locked c = do {
     let c = c\<lparr>size_locked := locked\<rparr>;
     primary \<leftarrow> resizeMap nb sx sy res ox oy (primary_costmap c);
     combined \<leftarrow> resizeMap nb sx sy res ox oy (combined_costmap c);
     let c = c\<lparr>primary_costmap := primary, combined_costmap := combined\<rparr>;
     ps \<leftarrow> each_plugin (plugin_matchSize ops (parent_of c)) (plugins c);
     fs \<leftarrow> each_plugin (plugin_matchSize ops (parent_of c)) (filters c);
     Some (c\<lparr>plugins := ps, filters := fs\<rparr>)
   }"

text \<open>The pass over the layers that collects their bounds; a layer that shrinks them only causes a warning.\<close>

fun bounds_pass ::
  "'p plugin_ops \<Rightarrow> parent \<Rightarrow> real \<Rightarrow> real \<Rightarrow> real \<Rightarrow> 'p list \<Rightarrow> bounds \<Rightarrow> ('p list \<times> bounds) option" where
  "bounds_pass ops par rx ry ryaw [] b = Some ([], b)"
| "bounds_pass ops par rx ry ryaw (p # ps) b = do {
     (p, b) \<leftarrow> plugin_updateBounds ops par rx ry ryaw b p;
     (ps, b) \<leftarrow> bounds_pass ops par rx ry ryaw ps b;
     Some (p # ps, b)
   }"

text \<open>The pass that lets each layer write its costs; an exception ends it.\<close>

fun costs_pass ::
  "'p plugin_ops \<Rightarrow> parent \<Rightarrow> int \<Rightarrow> int \<Rightarrow> int \<Rightarrow> int \<Rightarrow> 'p list \<Rightarrow> costmap \<Rightarrow> (layer_error option \<times> 'p list \<times> costmap) option" where
  "costs_pass ops par x0 y0 xn yn [] m = Some (None, [], m)"
| "costs_pass ops par x0 y0 xn yn (p # ps) m = do {
     (ex, p, m) \<leftarrow> plugin_updateCosts ops par x0 y0 xn yn (p, m);
     (case ex of
        Some e \<Rightarrow> Some (Some e, p # ps, m)
      | None \<Rightarrow> do {
          (ex, ps, m) \<leftarrow> costs_pass ops par x0 y0 xn yn ps m;
          Some (ex, p # ps, m)
        })
   }"

text \<open>The window of cells for the bounds.\<close>

definition update_window :: "costmap \<Rightarrow> bounds \<Rightarrow> (int \<times> int \<times> int \<times> int) option" where
  "update_window m b = (case b of (min_x, min_y, max_x, max_y) \<Rightarrow> do {
     (x0, y0) \<leftarrow> worldToMapEnforceBounds m min_x min_y;
     (xn, yn) \<leftarrow> worldToMapEnforceBounds m max_x max_y;
     xn \<leftarrow> int32 (xn + 1);
     yn \<leftarrow> int32 (yn + 1);
     Some (max 0 x0, max 0 y0, min (sint (size_x m)) xn, min (sint (size_y m)) yn)
   })"

text \<open>The part of \<open>updateMap\<close> that writes the window.\<close>

definition update_costs ::
  "'p plugin_ops \<Rightarrow> int \<Rightarrow> int \<Rightarrow> int \<Rightarrow> int \<Rightarrow> 'p layered_costmap \<Rightarrow> (layer_error option \<times> 'p layered_costmap) option" where
  "update_costs ops x0 y0 xn yn c =
     (let u = (word_of_int :: int \<Rightarrow> u32)
      in if filters c = [] then do {
           m \<leftarrow> resetMap (u x0) (u y0) (u xn) (u yn) (combined_costmap c);
           (ex, ps, m) \<leftarrow> costs_pass ops (parent_of c) x0 y0 xn yn (plugins c) m;
           Some (ex, c\<lparr>combined_costmap := m, plugins := ps\<rparr>)
         } else do {
           m \<leftarrow> resetMap (u x0) (u y0) (u xn) (u yn) (primary_costmap c);
           (ex, ps, m) \<leftarrow> costs_pass ops (parent_of c) x0 y0 xn yn (plugins c) m;
           let c = c\<lparr>primary_costmap := m, plugins := ps\<rparr>;
           (case ex of
              Some e \<Rightarrow> Some (Some e, c)
            | None \<Rightarrow> do {
                (copied, m) \<leftarrow> copyWindow (primary_costmap c) (u x0) (u y0) (u xn) (u yn) (u x0) (u y0) (combined_costmap c);
                if \<not> copied then Some (Some CannotCopy, c\<lparr>combined_costmap := m\<rparr>)
                else do {
                  (ex, fs, m) \<leftarrow> costs_pass ops (parent_of c) x0 y0 xn yn (filters c) m;
                  Some (ex, c\<lparr>combined_costmap := m, filters := fs\<rparr>)
                }
              })
         })"

text \<open>A rolling window is moved over the robot first.\<close>

definition roll_window :: "(nat \<Rightarrow> u8) \<Rightarrow> real \<Rightarrow> real \<Rightarrow> 'p layered_costmap \<Rightarrow> 'p layered_costmap option" where
  "roll_window nb robot_x robot_y c =
     (if rolling_window c then do {
         let new_origin_x = robot_x - getSizeInMetersX (combined_costmap c) / 2;
         let new_origin_y = robot_y - getSizeInMetersY (combined_costmap c) / 2;
         primary \<leftarrow> updateOrigin nb new_origin_x new_origin_y (primary_costmap c);
         combined \<leftarrow> updateOrigin nb new_origin_x new_origin_y (combined_costmap c);
         Some (c\<lparr>primary_costmap := primary, combined_costmap := combined\<rparr>)
       } else Some c)"

definition updateMap ::
  "'p plugin_ops \<Rightarrow> (nat \<Rightarrow> u8) \<Rightarrow> real \<Rightarrow> real \<Rightarrow> real \<Rightarrow> 'p layered_costmap
    \<Rightarrow> (layer_error option \<times> 'p layered_costmap) option" where
  "updateMap ops nb robot_x robot_y robot_yaw c = do {
     c \<leftarrow> roll_window nb robot_x robot_y c;
     _ \<leftarrow> worldToMap (combined_costmap c) robot_x robot_y;
     if plugins c = [] \<and> filters c = [] then Some (None, c)
     else do {
       (ps, b) \<leftarrow> bounds_pass ops (parent_of c) robot_x robot_y robot_yaw (plugins c) (DBL_MAX, DBL_MAX, - DBL_MAX, - DBL_MAX);
       (fs, b) \<leftarrow> bounds_pass ops (parent_of c) robot_x robot_y robot_yaw (filters c) b;
       let c = c\<lparr>plugins := ps, filters := fs, lc_bounds := b\<rparr>;
       (x0, y0, xn, yn) \<leftarrow> update_window (combined_costmap c) b;
       if xn < x0 \<or> yn < y0 then Some (None, c)
       else do {
         (ex, c) \<leftarrow> update_costs ops x0 y0 xn yn c;
         (case ex of
            Some e \<Rightarrow> Some (Some e, c)
          | None \<Rightarrow> Some (None, c\<lparr>bx0 := word_of_int x0, bxn := word_of_int xn,
              by0 := word_of_int y0, byn := word_of_int yn, lc_initialized := True\<rparr>))
       }
     }
   }"

definition isCurrent :: "'p plugin_ops \<Rightarrow> 'p layered_costmap \<Rightarrow> bool \<times> 'p layered_costmap" where
  "isCurrent ops c =
     (let ok = (\<lambda>p. plugin_isCurrent ops p \<or> \<not> plugin_isEnabled ops p);
          current = list_all ok (plugins c) \<and> list_all ok (filters c)
      in (current, c\<lparr>lc_current := current\<rparr>))"

definition setFootprint :: "'p plugin_ops \<Rightarrow> point list \<Rightarrow> 'p layered_costmap \<Rightarrow> 'p layered_costmap option" where
  "setFootprint ops footprint_spec c = do {
     let (inscribed, circumscribed) = calculateMinAndMaxDistances footprint_spec;
     let c = c\<lparr>lc_footprint := footprint_spec, inscribed_radius := inscribed, circumscribed_radius := circumscribed\<rparr>;
     ps \<leftarrow> each_plugin (plugin_onFootprintChanged ops (parent_of c)) (plugins c);
     fs \<leftarrow> each_plugin (plugin_onFootprintChanged ops (parent_of c)) (filters c);
     Some (c\<lparr>plugins := ps, filters := fs\<rparr>)
   }"

section \<open>The contract of the layers\<close>

text \<open>A grid whose indices fit an \<open>int\<close>.\<close>

definition map_sized :: "costmap \<Rightarrow> bool" where
  "map_sized m \<longleftrightarrow> grid_ok m \<and> 0 < width m \<and> width m < 2 ^ 31 - 1 \<and> 0 < height m \<and> height m < 2 ^ 31 - 1 \<and>
     height m * width m + width m < 2 ^ 32"

text \<open>A change of a window of the grid.\<close>

definition window_only :: "int \<Rightarrow> int \<Rightarrow> int \<Rightarrow> int \<Rightarrow> costmap \<Rightarrow> costmap \<Rightarrow> bool" where
  "window_only a b c d m m' \<longleftrightarrow> m' = m\<lparr>costs := costs m'\<rparr> \<and> length (costs m') = length (costs m) \<and>
     (\<forall>x < width m. \<forall>y < height m. \<not> in_window a b c d x y \<longrightarrow> cost_at m' x y = cost_at m x y)"

lemma window_only_refl [simp]: "window_only a b c d m m"
  by (simp add: window_only_def)

lemma window_only_shape:
  assumes "window_only a b c d m m'"
  shows "size_x m' = size_x m" "size_y m' = size_y m" "resolution m' = resolution m" "origin_x m' = origin_x m"
    "origin_y m' = origin_y m" "default_value m' = default_value m" "length (costs m') = length (costs m)"
    "grid_ok m' \<longleftrightarrow> grid_ok m" "window_ok i j k l m' \<longleftrightarrow> window_ok i j k l m"
    "map_sized m' \<longleftrightarrow> map_sized m"
proof -
  have m': "m' = m\<lparr>costs := costs m'\<rparr>" using assms by (simp only: window_only_def)
  note e = same_but_costs [OF m']
  show "size_x m' = size_x m" "size_y m' = size_y m" "resolution m' = resolution m" "origin_x m' = origin_x m"
    "origin_y m' = origin_y m" "default_value m' = default_value m" by (fact e)+
  show l: "length (costs m') = length (costs m)" using assms by (simp only: window_only_def)
  show "grid_ok m' \<longleftrightarrow> grid_ok m" "window_ok i j k l m' \<longleftrightarrow> window_ok i j k l m"
    "map_sized m' \<longleftrightarrow> map_sized m"
    using e l by (simp_all add: grid_ok_def window_ok_def map_sized_def)
qed

lemma window_only_trans:
  assumes "window_only a b c d m m'" and "window_only a b c d m' m''"
  shows "window_only a b c d m m''"
proof -
  have e: "m' = m\<lparr>costs := costs m'\<rparr>" "m'' = m'\<lparr>costs := costs m''\<rparr>" using assms by (simp_all only: window_only_def)
  have "m'' = m\<lparr>costs := costs m''\<rparr>"
    by (subst e(2), subst e(1)) simp
  then show ?thesis using assms window_only_shape [OF assms(1)] unfolding window_only_def by simp
qed

lemma window_only_rewritten: "cells_rewritten (in_window a b c d) f m m' \<Longrightarrow> window_only a b c d m m'"
  by (simp add: cells_rewritten_def window_only_def)

text \<open>The window of an update lies in the grid.\<close>

lemma enforce_axis_range:
  assumes "enforce_axis res sz origin w = Some r" and "0 < res" and "0 < unat sz" and "unat sz < 2 ^ 31"
  shows "0 \<le> r \<and> r \<le> int (unat sz)"
proof -
  have last: "sint (sz - 1) = int (unat sz - 1)"
  proof -
    have "sz \<noteq> 0" using assms(3) by auto
    then have "unat (sz - 1) = unat sz - 1" by (rule unat_minus_one)
    then show ?thesis using assms(4) by (simp add: sint_small)
  qed
  consider "w < origin" | "\<not> w < origin" "w > res * real (unat sz) + origin"
    | "\<not> w < origin" "\<not> w > res * real (unat sz) + origin" by blast
  then show ?thesis
  proof cases
    case 2
    then have "r = int (unat sz - 1)" using assms(1) last by (auto simp: enforce_axis_def)
    then show ?thesis by linarith
  next
    case 3
    then have r: "r = \<lfloor>(w - origin) / res\<rfloor>" "0 \<le> (w - origin) / res"
      using assms(1,2) by (auto simp: enforce_axis_def real_to_int_def trunc_def split: if_splits)
    have "(w - origin) / res \<le> real (unat sz)"
      using 3 assms(2) by (simp add: pos_divide_le_eq mult.commute)
    then show ?thesis using r by (simp add: floor_le_iff)
  qed (use assms last in \<open>auto simp: enforce_axis_def\<close>)
qed

lemma update_window_ok:
  assumes "update_window m bs = Some (x0, y0, xn, yn)" and "0 < resolution m"
    and "0 < width m" and "width m < 2 ^ 31" and "0 < height m" and "height m < 2 ^ 31"
  shows "window_ok x0 y0 xn yn m \<and> x0 \<le> int (width m) \<and> y0 \<le> int (height m) \<and> 0 \<le> xn \<and> 0 \<le> yn"
proof -
  obtain min_x min_y max_x max_y where bs: "bs = (min_x, min_y, max_x, max_y)" by (metis prod_cases4)
  obtain p q where "worldToMapEnforceBounds m min_x min_y = Some p" "worldToMapEnforceBounds m max_x max_y = Some q"
    and r: "x0 = max 0 (fst p)" "y0 = max 0 (snd p)" "xn = min (sint (size_x m)) (fst q + 1)"
      "yn = min (sint (size_y m)) (snd q + 1)"
    using assms(1) by (auto simp: update_window_def bs int32_def split: bind_splits if_splits)
  then have "enforce_axis (resolution m) (size_x m) (origin_x m) min_x = Some (fst p)"
    "enforce_axis (resolution m) (size_y m) (origin_y m) min_y = Some (snd p)"
    "enforce_axis (resolution m) (size_x m) (origin_x m) max_x = Some (fst q)"
    "enforce_axis (resolution m) (size_y m) (origin_y m) max_y = Some (snd q)"
    by (auto simp: worldToMapEnforceBounds_def split: bind_splits)
  note range = this [THEN enforce_axis_range, OF assms(2)]
  have "0 \<le> fst p \<and> fst p \<le> int (width m)" "0 \<le> snd p \<and> snd p \<le> int (height m)" "0 \<le> fst q" "0 \<le> snd q"
    using range assms(3-6) by blast+
  then show ?thesis
    using r assms(4,6) by (simp add: window_ok_def sint_small del: of_nat_unat)
qed

lemma enforce_axis_total:
  assumes "0 < res" and "unat sz < 2 ^ 31"
  shows "enforce_axis res sz origin w \<noteq> None"
proof (cases "w < origin \<or> w > res * real (unat sz) + origin")
  case False
  then have "0 \<le> (w - origin) / res" "(w - origin) / res \<le> real (unat sz)"
    using assms(1) by (simp_all add: pos_divide_le_eq mult.commute)
  moreover have "real (unat sz) < 2 ^ 31" using assms(2) by (simp only: of_nat_less_numeral_power_cancel_iff)
  ultimately show ?thesis using False by (simp add: enforce_axis_def real_to_int_def trunc_def floor_less_iff)
qed (auto simp: enforce_axis_def)

lemma update_window_total:
  assumes "0 < resolution m" and "0 < width m" and "width m < 2 ^ 31 - 1" and "0 < height m" and "height m < 2 ^ 31 - 1"
  shows "\<exists>x0 y0 xn yn. update_window m bs = Some (x0, y0, xn, yn)"
proof -
  obtain min_x min_y max_x max_y where bs: "bs = (min_x, min_y, max_x, max_y)" by (metis prod_cases4)
  have small: "width m < 2 ^ 31" "height m < 2 ^ 31" using assms(3,5) by simp_all
  have axis: "\<exists>r. enforce_axis (resolution m) (size_x m) (origin_x m) w = Some r \<and> 0 \<le> r \<and> r \<le> int (width m)"
    "\<exists>r. enforce_axis (resolution m) (size_y m) (origin_y m) w = Some r \<and> 0 \<le> r \<and> r \<le> int (height m)" for w
    using enforce_axis_total [OF assms(1) small(1)] enforce_axis_total [OF assms(1) small(2)]
      enforce_axis_range [OF _ assms(1,2) small(1)] enforce_axis_range [OF _ assms(1,4) small(2)] by (meson not_None_eq)+
  have cells: "\<exists>i j. worldToMapEnforceBounds m wx wy = Some (i, j) \<and> 0 \<le> i \<and> i \<le> int (width m) \<and> 0 \<le> j \<and> j \<le> int (height m)" for wx wy
    using axis(1) [of wx] axis(2) [of wy] by (auto simp: worldToMapEnforceBounds_def)
  obtain i j where ij: "worldToMapEnforceBounds m min_x min_y = Some (i, j)" using cells [of min_x min_y] by blast
  obtain k l where kl: "worldToMapEnforceBounds m max_x max_y = Some (k, l)" "0 \<le> k" "k \<le> int (width m)" "0 \<le> l" "l \<le> int (height m)"
    using cells [of max_x max_y] by blast
  have "int (width m) < int (2 ^ 31 - 1)" "int (height m) < int (2 ^ 31 - 1)"
    using assms(3,5) by (simp_all only: of_nat_less_iff)
  then have "int32 (k + 1) = Some (k + 1)" "int32 (l + 1) = Some (l + 1)" using kl by (simp_all add: int32_def del: of_nat_unat)
  then show ?thesis using ij kl(1) by (simp add: update_window_def bs)
qed

lemma parent_of_update [simp]:
  "parent_of (c\<lparr>primary_costmap := m\<rparr>) = parent_of c" "parent_of (c\<lparr>plugins := ps\<rparr>) = parent_of c"
  "parent_of (c\<lparr>filters := ps\<rparr>) = parent_of c" "parent_of (c\<lparr>lc_bounds := b\<rparr>) = parent_of c"
  by (simp_all add: parent_of_def)

text \<open>The two grids have the same geometry.\<close>

definition same_geometry :: "costmap \<Rightarrow> costmap \<Rightarrow> bool" where
  "same_geometry m m' \<longleftrightarrow> size_x m' = size_x m \<and> size_y m' = size_y m \<and> resolution m' = resolution m \<and>
     origin_x m' = origin_x m \<and> origin_y m' = origin_y m"

definition lc_ok :: "'p layered_costmap \<Rightarrow> bool" where
  "lc_ok c \<longleftrightarrow> map_sized (combined_costmap c) \<and> grid_ok (primary_costmap c) \<and>
     same_geometry (primary_costmap c) (combined_costmap c)"

lemma window_only_geometry: "window_only a b c d m m' \<Longrightarrow> same_geometry m m'"
  using window_only_shape by (simp add: same_geometry_def)

lemma same_geometry_trans: "same_geometry m m' \<Longrightarrow> same_geometry m' m'' \<Longrightarrow> same_geometry m m''"
  by (simp add: same_geometry_def)

lemma same_geometry_sym: "same_geometry m m' \<Longrightarrow> same_geometry m' m"
  by (simp add: same_geometry_def)

lemma window_words:
  assumes "map_sized m" and "window_ok x0 y0 xn yn m" and "x0 \<le> xn" and "y0 \<le> yn"
  shows "unat (word_of_int x0 :: u32) = nat x0" "unat (word_of_int y0 :: u32) = nat y0"
    "unat (word_of_int xn :: u32) = nat xn" "unat (word_of_int yn :: u32) = nat yn"
    "nat x0 \<le> nat xn" "nat xn \<le> width m" "nat y0 \<le> nat yn" "nat yn \<le> height m"
    "in_window x0 y0 xn yn x y \<longleftrightarrow> nat x0 \<le> x \<and> x < nat xn \<and> nat y0 \<le> y \<and> y < nat yn"
proof -
  have w: "0 \<le> x0" "xn \<le> int (width m)" "0 \<le> y0" "yn \<le> int (height m)"
    using assms(2) by (simp_all only: window_ok_def)
  have b: "int (width m) < 2 ^ 32" "int (height m) < 2 ^ 32"
    using unsigned_less [where ?'a = int, of "size_x m"] unsigned_less [where ?'a = int, of "size_y m"] by simp_all
  show "unat (word_of_int x0 :: u32) = nat x0" "unat (word_of_int y0 :: u32) = nat y0"
    "unat (word_of_int xn :: u32) = nat xn" "unat (word_of_int yn :: u32) = nat yn"
    using w b assms(3,4) by (intro unat_of_int_small; linarith)+
  show "nat x0 \<le> nat xn" "nat xn \<le> width m" "nat y0 \<le> nat yn" "nat yn \<le> height m"
    using w assms(3,4) by linarith+
  show "in_window x0 y0 xn yn x y \<longleftrightarrow> nat x0 \<le> x \<and> x < nat xn \<and> nat y0 \<le> y \<and> y < nat yn"
    using w unfolding in_window_def by linarith
qed

lemma resetMap_window:
  assumes "map_sized m" and "window_ok x0 y0 xn yn m" and "x0 \<le> xn" and "y0 \<le> yn"
  shows "\<exists>m'. resetMap (word_of_int x0) (word_of_int y0) (word_of_int xn) (word_of_int yn) m = Some m' \<and>
    window_rewritten x0 y0 xn yn (\<lambda>_ _ _. default_value m) m m'"
proof -
  let ?u = "word_of_int :: int \<Rightarrow> u32"
  note w = window_words [OF assms]
  have ok: "grid_ok m" "0 < width m" "height m * width m + width m < 2 ^ 32" using assms(1) by (simp_all add: map_sized_def)
  have "nat yn * width m \<le> height m * width m" using w(8) by (rule mult_le_mono1)
  then have "unat (?u yn) * width m + unat (?u x0) < 2 ^ 32" unfolding w(1,4) using w(5,6) ok(3) by linarith
  moreover have "?u x0 \<le> ?u xn" "?u xn \<le> size_x m" "?u y0 \<le> ?u yn" "?u yn \<le> size_y m"
    using w by (simp_all add: word_le_nat_alt)
  ultimately obtain m' where m': "resetMapToValue (?u x0) (?u y0) (?u xn) (?u yn) (default_value m) m = Some m'" "grid_ok m'"
    "m' = m\<lparr>costs := costs m'\<rparr>"
    "\<forall>x < width m. \<forall>y < height m. cost_at m' x y =
      (if unat (?u x0) \<le> x \<and> x < unat (?u xn) \<and> unat (?u y0) \<le> y \<and> y < unat (?u yn) then default_value m else cost_at m x y)"
    using resetMapToValue_spec [of m "?u x0" "?u xn" "?u y0" "?u yn" "default_value m"] ok(1,2) by blast
  have "length (costs m') = length (costs m)"
    using ok(1) m'(2) same_but_costs [OF m'(3)] by (simp add: grid_ok_def)
  then have "window_rewritten x0 y0 xn yn (\<lambda>_ _ _. default_value m) m m'"
    using m'(3,4) unfolding cells_rewritten_def w(1-4) w(9) by blast
  then show ?thesis using m'(1) by (auto simp: resetMap_def)
qed

lemma copyWindow_window:
  assumes "map_sized m" and "grid_ok src" and "size_x src = size_x m" and "size_y src = size_y m"
    and "window_ok x0 y0 xn yn m" and "x0 \<le> xn" and "y0 \<le> yn"
  shows "\<exists>m'. copyWindow src (word_of_int x0) (word_of_int y0) (word_of_int xn) (word_of_int yn)
      (word_of_int x0) (word_of_int y0) m = Some (True, m') \<and>
    window_rewritten x0 y0 xn yn (\<lambda>x y _. cost_at src x y) m m'"
proof -
  let ?u = "word_of_int :: int \<Rightarrow> u32"
  note w = window_words [OF assms(1,5,6,7)]
  have ok: "grid_ok m" "width m < 2 ^ 32" "height m < 2 ^ 32"
    using assms(1) unsigned_less [where ?'a = nat, of "size_x m"] unsigned_less [where ?'a = nat, of "size_y m"]
    by (simp_all add: map_sized_def)
  let ?in = "?u xn \<le> size_x src \<and> ?u yn \<le> size_y src \<and>
    unat (?u x0) + (unat (?u xn) - unat (?u x0)) \<le> width m \<and> unat (?u y0) + (unat (?u yn) - unat (?u y0)) \<le> height m"
  have "?u x0 \<le> ?u xn" "?u y0 \<le> ?u yn" using w by (simp_all add: word_le_nat_alt)
  moreover have "unat (?u x0) + (unat (?u xn) - unat (?u x0)) < 2 ^ 32" "unat (?u y0) + (unat (?u yn) - unat (?u y0)) < 2 ^ 32"
    unfolding w(1-4) using w(5-8) ok(2,3) by linarith+
  ultimately obtain m' where m': "copyWindow src (?u x0) (?u y0) (?u xn) (?u yn) (?u x0) (?u y0) m = Some (?in, m')"
    "grid_ok m'" "m' = m\<lparr>costs := costs m'\<rparr>"
    "\<forall>x < width m. \<forall>y < height m. cost_at m' x y =
      (if ?in \<and> unat (?u x0) \<le> x \<and> x < unat (?u x0) + (unat (?u xn) - unat (?u x0)) \<and>
          unat (?u y0) \<le> y \<and> y < unat (?u y0) + (unat (?u yn) - unat (?u y0))
       then cost_at src (unat (?u x0) + (x - unat (?u x0))) (unat (?u y0) + (y - unat (?u y0))) else cost_at m x y)"
    using copyWindow_spec [OF assms(2) ok(1), of "?u x0" "?u xn" "?u y0" "?u yn" "?u x0" "?u y0"] by blast
  have ins: "?in" using w assms(3,4) by (simp add: word_le_nat_alt)
  have "length (costs m') = length (costs m)"
    using ok(1) m'(2) same_but_costs [OF m'(3)] by (simp add: grid_ok_def)
  then have "window_rewritten x0 y0 xn yn (\<lambda>x y _. cost_at src x y) m m'"
    using m'(3,4) ins w(5,7) unfolding cells_rewritten_def w(1-4) w(9) by auto
  then show ?thesis using m'(1) ins by auto
qed

text \<open>
  What the layered costmap needs of a layer: with a grid that fits, and a pose the layer can work
  with, collecting the bounds succeeds; writing the costs succeeds and touches only the window;
  both leave the layer fitting.
\<close>

locale layer_contract =
  fixes ops :: "'p plugin_ops" and fits :: "'p \<Rightarrow> costmap \<Rightarrow> bool"
    and pose_ok :: "parent \<Rightarrow> real \<Rightarrow> real \<Rightarrow> real \<Rightarrow> costmap \<Rightarrow> bool"
  assumes costs_frame: "fits p m \<Longrightarrow> grid_ok m \<Longrightarrow> window_ok a b c d m \<Longrightarrow> a \<le> c \<Longrightarrow> b \<le> d \<Longrightarrow>
      \<exists>p' m'. plugin_updateCosts ops par a b c d (p, m) = Some (None, p', m') \<and> window_only a b c d m m' \<and> fits p' m'"
    and fits_geometry: "fits p m \<Longrightarrow> same_geometry m m' \<Longrightarrow> fits p m'"
    and bounds_fits: "fits p m \<Longrightarrow> pose_ok par rx ry ryaw m \<Longrightarrow>
      \<exists>p' bs'. plugin_updateBounds ops par rx ry ryaw bs p = Some (p', bs') \<and> fits p' m"
begin

lemma fits_window: "fits p m \<Longrightarrow> window_only a b c d m m' \<Longrightarrow> fits p m'"
  using fits_geometry window_only_geometry by blast

lemma costs_pass_window:
  assumes "grid_ok m" and "window_ok a b c d m" and "list_all (\<lambda>p. fits p m) ps" and "a \<le> c" and "b \<le> d"
  shows "\<exists>ps' m'. costs_pass ops par a b c d ps m = Some (None, ps', m') \<and> window_only a b c d m m' \<and>
    list_all (\<lambda>p. fits p m') ps' \<and> length ps' = length ps"
  using assms(1-3)
proof (induction ps arbitrary: m)
  case (Cons p ps)
  obtain p' m1 where p: "plugin_updateCosts ops par a b c d (p, m) = Some (None, p', m1)"
    "window_only a b c d m m1" "fits p' m1"
    using costs_frame [of p m a b c d par] Cons.prems assms(4,5) by auto
  note sh = window_only_shape [OF p(2)]
  have "list_all (\<lambda>p. fits p m1) ps"
    using Cons.prems(3) fits_window [OF _ p(2)] by (auto simp: list_all_iff)
  then obtain ps' m' where ps: "costs_pass ops par a b c d ps m1 = Some (None, ps', m')" "window_only a b c d m1 m'"
    "list_all (\<lambda>p. fits p m') ps'" "length ps' = length ps"
    using Cons.IH [of m1] Cons.prems(1,2) sh by auto
  then show ?case using p window_only_trans [OF p(2) ps(2)] fits_window [OF p(3) ps(2)] by auto
qed simp

lemma bounds_pass_fits:
  assumes "list_all (\<lambda>p. fits p m) ps" and "pose_ok par rx ry ryaw m"
  shows "\<exists>ps' bs'. bounds_pass ops par rx ry ryaw ps bs = Some (ps', bs') \<and>
    list_all (\<lambda>p. fits p m) ps' \<and> length ps' = length ps"
  using assms(1)
proof (induction ps arbitrary: bs)
  case (Cons p ps)
  obtain p' b1 where p: "plugin_updateBounds ops par rx ry ryaw bs p = Some (p', b1)" "fits p' m"
    using bounds_fits [of p m par rx ry ryaw bs] Cons.prems assms(2) by auto
  obtain ps' bs' where "bounds_pass ops par rx ry ryaw ps b1 = Some (ps', bs')" "list_all (\<lambda>p. fits p m) ps'" "length ps' = length ps"
    using Cons.IH [of b1] Cons.prems by auto
  then show ?case using p by (intro exI [of _ "p' # ps'"] exI [of _ bs']) simp
next
  case Nil
  show ?case by (intro exI [of _ "[]"] exI [of _ bs]) simp
qed

lemma update_costs_window:
  assumes shape: "lc_ok c" and fit: "list_all (\<lambda>p. fits p (combined_costmap c)) (plugins c @ filters c)"
    and win: "window_ok x0 y0 xn yn (combined_costmap c)" and le: "x0 \<le> xn" "y0 \<le> yn"
  shows "\<exists>c'. update_costs ops x0 y0 xn yn c = Some (None, c') \<and> lc_ok c' \<and>
    window_only x0 y0 xn yn (combined_costmap c) (combined_costmap c') \<and>
    list_all (\<lambda>p. fits p (combined_costmap c')) (plugins c' @ filters c') \<and>
    length (plugins c') = length (plugins c) \<and> length (filters c') = length (filters c)"
proof -
  let ?p = "primary_costmap c" and ?m = "combined_costmap c"
  note sh = shape [unfolded lc_ok_def]
  have grid: "grid_ok ?m" and prim: "map_sized ?p" and win': "window_ok x0 y0 xn yn ?p"
    using sh win by (auto simp: map_sized_def same_geometry_def window_ok_def)
  have fit': "list_all (\<lambda>p. fits p m') ps" if "list_all (\<lambda>p. fits p m) ps" "same_geometry m m'" for ps m m'
    using that fits_geometry by (auto simp: list_all_iff)
  show ?thesis
  proof (cases "filters c = []")
    case True
    obtain m1 where m1: "resetMap (word_of_int x0) (word_of_int y0) (word_of_int xn) (word_of_int yn) ?m = Some m1"
      "window_only x0 y0 xn yn ?m m1"
      using resetMap_window [OF _ win le] sh window_only_rewritten by blast
    note s1 = window_only_shape [OF m1(2)]
    have "list_all (\<lambda>p. fits p m1) (plugins c)" using fit fit' window_only_geometry [OF m1(2)] by auto
    then obtain ps m2 where m2: "costs_pass ops (parent_of c) x0 y0 xn yn (plugins c) m1 = Some (None, ps, m2)"
      "window_only x0 y0 xn yn m1 m2" "list_all (\<lambda>p. fits p m2) ps" "length ps = length (plugins c)"
      using costs_pass_window [of m1 x0 y0 xn yn "plugins c" "parent_of c"] s1 sh grid win le by auto
    note t2 = window_only_trans [OF m1(2) m2(2)]
    have "lc_ok (c\<lparr>combined_costmap := m2, plugins := ps\<rparr>)"
      using sh window_only_shape [OF t2] same_geometry_trans [OF _ window_only_geometry [OF t2]] by (simp add: lc_ok_def)
    then show ?thesis using True m1 m2 t2 by (simp add: update_costs_def)
  next
    case False
    obtain m1 where m1: "resetMap (word_of_int x0) (word_of_int y0) (word_of_int xn) (word_of_int yn) ?p = Some m1"
      "window_only x0 y0 xn yn ?p m1"
      using resetMap_window [OF prim win' le] window_only_rewritten by blast
    note s1 = window_only_shape [OF m1(2)] and g1 = window_only_geometry [OF m1(2)]
    have gp: "same_geometry ?p ?m" and gm: "same_geometry ?m ?p" using sh same_geometry_sym by blast+
    have "list_all (\<lambda>p. fits p m1) (plugins c)" using fit fit' same_geometry_trans [OF gm g1] by auto
    then obtain ps m2 where m2: "costs_pass ops (parent_of c) x0 y0 xn yn (plugins c) m1 = Some (None, ps, m2)"
      "window_only x0 y0 xn yn m1 m2" "list_all (\<lambda>p. fits p m2) ps" "length ps = length (plugins c)"
      using costs_pass_window [of m1 x0 y0 xn yn "plugins c" "parent_of c"] s1 sh grid win' le by auto
    note t2 = window_only_trans [OF m1(2) m2(2)]
    note s2 = window_only_shape [OF t2] and g2 = window_only_geometry [OF t2]
    obtain m3 where m3: "copyWindow m2 (word_of_int x0) (word_of_int y0) (word_of_int xn) (word_of_int yn)
        (word_of_int x0) (word_of_int y0) ?m = Some (True, m3)" "window_only x0 y0 xn yn ?m m3"
      using copyWindow_window [of ?m m2 x0 y0 xn yn] s2 sh gp grid win le window_only_rewritten
      by (auto simp: same_geometry_def)
    note s3 = window_only_shape [OF m3(2)]
    have "list_all (\<lambda>p. fits p m3) (filters c)" using fit fit' window_only_geometry [OF m3(2)] by auto
    then obtain fs m4 where m4: "costs_pass ops (parent_of c) x0 y0 xn yn (filters c) m3 = Some (None, fs, m4)"
      "window_only x0 y0 xn yn m3 m4" "list_all (\<lambda>p. fits p m4) fs" "length fs = length (filters c)"
      using costs_pass_window [of m3 x0 y0 xn yn "filters c" "parent_of c"] s3 sh grid win le by auto
    note t4 = window_only_trans [OF m3(2) m4(2)]
    note s4 = window_only_shape [OF t4] and g4 = window_only_geometry [OF t4]
    have g: "same_geometry m2 m4"
      using same_geometry_trans [OF same_geometry_sym [OF g2] same_geometry_trans [OF gp g4]] .
    then have "list_all (\<lambda>p. fits p m4) ps" using fit' [OF m2(3), of m4] by simp
    moreover have "lc_ok (c\<lparr>primary_costmap := m2, plugins := ps, combined_costmap := m4, filters := fs\<rparr>)"
      using sh s2 s4 g by (simp add: lc_ok_def)
    ultimately show ?thesis
      using False m1 m2 m3 m4 t4 by (simp add: update_costs_def)
  qed
qed

text \<open>A whole cycle over a costmap that does not roll.\<close>

lemma updateMap_window:
  assumes ok: "lc_ok c" "\<not> rolling_window c" and fit: "list_all (\<lambda>p. fits p (combined_costmap c)) (plugins c @ filters c)"
    and pose: "pose_ok (parent_of c) rx ry ryaw (combined_costmap c)" "worldToMap (combined_costmap c) rx ry \<noteq> None"
  shows "\<exists>c' x0 y0 xn yn. updateMap ops nb rx ry ryaw c = Some (None, c') \<and> lc_ok c' \<and>
    list_all (\<lambda>p. fits p (combined_costmap c')) (plugins c' @ filters c') \<and>
    length (plugins c') = length (plugins c) \<and> length (filters c') = length (filters c) \<and>
    (plugins c @ filters c \<noteq> [] \<longrightarrow> update_window (combined_costmap c) (lc_bounds c') = Some (x0, y0, xn, yn)) \<and>
    window_only x0 y0 xn yn (combined_costmap c) (combined_costmap c')"
proof (cases "plugins c @ filters c = []")
  case True
  then show ?thesis using ok fit pose by (auto simp: updateMap_def roll_window_def)
next
  case False
  let ?m = "combined_costmap c" and ?b0 = "(DBL_MAX, DBL_MAX, - DBL_MAX, - DBL_MAX)"
  obtain ps b1 where ps: "bounds_pass ops (parent_of c) rx ry ryaw (plugins c) ?b0 = Some (ps, b1)"
    "list_all (\<lambda>p. fits p ?m) ps" "length ps = length (plugins c)"
    using bounds_pass_fits [of ?m "plugins c" "parent_of c" rx ry ryaw ?b0] fit pose(1) by auto
  obtain fs bs where fs: "bounds_pass ops (parent_of c) rx ry ryaw (filters c) b1 = Some (fs, bs)"
    "list_all (\<lambda>p. fits p ?m) fs" "length fs = length (filters c)"
    using bounds_pass_fits [of ?m "filters c" "parent_of c" rx ry ryaw b1] fit pose(1) by auto
  let ?c = "c\<lparr>plugins := ps, filters := fs, lc_bounds := bs\<rparr>"
  have sz: "0 < resolution ?m" "0 < width ?m" "width ?m < 2 ^ 31 - 1" "0 < height ?m" "height ?m < 2 ^ 31 - 1"
    using ok(1) by (auto simp: lc_ok_def map_sized_def grid_ok_def)
  obtain x0 y0 xn yn where win: "update_window ?m bs = Some (x0, y0, xn, yn)"
    using update_window_total [OF sz] by blast
  then have win': "window_ok x0 y0 xn yn ?m" using update_window_ok [OF win] sz by simp
  obtain cell where cell: "worldToMap ?m rx ry = Some cell" using pose(2) by blast
  have pre: "updateMap ops nb rx ry ryaw c =
    (if xn < x0 \<or> yn < y0 then Some (None, ?c)
     else do {
       (ex, c) \<leftarrow> update_costs ops x0 y0 xn yn ?c;
       (case ex of
          Some e \<Rightarrow> Some (Some e, c)
        | None \<Rightarrow> Some (None, c\<lparr>bx0 := word_of_int x0, bxn := word_of_int xn,
            by0 := word_of_int y0, byn := word_of_int yn, lc_initialized := True\<rparr>))
     })"
    using False ok(2) ps(1) fs(1) win cell by (auto simp: updateMap_def roll_window_def)
  show ?thesis
  proof (cases "xn < x0 \<or> yn < y0")
    case True
    then show ?thesis using pre ok(1) ps(2,3) fs(2,3) win by (auto simp: lc_ok_def)
  next
    case False
    have "lc_ok ?c" using ok(1) by (simp add: lc_ok_def)
    then obtain c' where c': "update_costs ops x0 y0 xn yn ?c = Some (None, c')" "lc_ok c'"
      "window_only x0 y0 xn yn ?m (combined_costmap c')" "list_all (\<lambda>p. fits p (combined_costmap c')) (plugins c' @ filters c')"
      "length (plugins c') = length ps" "length (filters c') = length fs"
      using update_costs_window [of ?c x0 y0 xn yn] ps(2) fs(2) win' False by auto
    have "lc_bounds c' = bs" using c'(1) by (auto simp: update_costs_def Let_def split: if_splits bind_splits option.splits)
    then show ?thesis using pre False c' ps(3) fs(3) win by (auto simp: lc_ok_def)
  qed
qed

end

end
