(* ===== verification/Obstacle_Layer.thy ===== *)
theory Obstacle_Layer
  imports Costmap_Polygon Layered_Costmap
begin

text \<open>
  The obstacle layer (\<open>nav2_costmap_2d/plugins/obstacle_layer.cpp\<close>) with the observation buffers it
  reads (\<open>src/observation_buffer.cpp\<close>): clearing along the rays of a sensor, marking its points. Point
  clouds are lists of points in the global frame; what the transformation of a cloud and of its
  origin gives, an exception included, is an argument, and so is the time of the clock.
\<close>

section \<open>Observation buffers\<close>

type_synonym point3 = "real \<times> real \<times> real"

record observation =
  obs_origin :: point
  obs_cloud :: "point3 list"
  obs_stamp :: int
  obs_obstacle_max_range :: real
  obs_obstacle_min_range :: real
  obs_raytrace_max_range :: real
  obs_raytrace_min_range :: real

record observation_buffer =
  observation_list :: "observation list"
  last_updated :: int
  observation_keep_time :: int
  expected_update_rate :: int
  buf_min_obstacle_height :: real
  buf_max_obstacle_height :: real
  buf_obstacle_max_range :: real
  buf_obstacle_min_range :: real
  buf_raytrace_max_range :: real
  buf_raytrace_min_range :: real

definition purgeStaleObservations :: "int \<Rightarrow> observation_buffer \<Rightarrow> observation_buffer" where
  "purgeStaleObservations now b =
     (if observation_list b = [] then b
      else if observation_keep_time b = 0 then b\<lparr>observation_list := [hd (observation_list b)]\<rparr>
      else b\<lparr>observation_list := takeWhile (\<lambda>obs. \<not> now - obs_stamp obs > observation_keep_time b) (observation_list b)\<rparr>)"

text \<open>The transformed origin and cloud, or \<open>None\<close> for a \<open>TransformException\<close>.\<close>

definition bufferCloud :: "int \<Rightarrow> int \<Rightarrow> point option \<Rightarrow> point3 list option \<Rightarrow> observation_buffer \<Rightarrow> observation_buffer" where
  "bufferCloud now stamp global_origin global_frame_cloud b =
     (case (global_origin, global_frame_cloud) of
        (Some origin, Some points) \<Rightarrow>
          (let obs = \<lparr>obs_origin = origin,
                 obs_cloud = filter (\<lambda>(x, y, z). z \<le> buf_max_obstacle_height b \<and> z \<ge> buf_min_obstacle_height b) points,
                 obs_stamp = stamp,
                 obs_obstacle_max_range = buf_obstacle_max_range b, obs_obstacle_min_range = buf_obstacle_min_range b,
                 obs_raytrace_max_range = buf_raytrace_max_range b, obs_raytrace_min_range = buf_raytrace_min_range b\<rparr>
           in purgeStaleObservations now (b\<lparr>observation_list := obs # observation_list b, last_updated := now\<rparr>))
      | _ \<Rightarrow> b)"

definition getObservations :: "int \<Rightarrow> observation_buffer \<Rightarrow> observation list \<times> observation_buffer" where
  "getObservations now b = (let b = purgeStaleObservations now b in (observation_list b, b))"

definition buffer_isCurrent :: "int \<Rightarrow> observation_buffer \<Rightarrow> bool" where
  "buffer_isCurrent now b \<longleftrightarrow> expected_update_rate b = 0 \<or> now - last_updated b \<le> expected_update_rate b"

definition resetLastUpdated :: "int \<Rightarrow> observation_buffer \<Rightarrow> observation_buffer" where
  "resetLastUpdated now b = b\<lparr>last_updated := now\<rparr>"

section \<open>The layer\<close>

text \<open>The marking and the clearing buffers point into the vector of all buffers.\<close>

record obstacle_layer =
  ob_layer :: costmap_layer
  ob_rolling_window :: bool
  was_reset :: bool
  footprint_clearing_enabled :: bool
  min_obstacle_height :: real
  max_obstacle_height :: real
  combination_method :: int
  transformed_footprint :: "point list"
  observation_buffers :: "observation_buffer list"
  marking_buffers :: "nat list"
  clearing_buffers :: "nat list"
  static_marking_observations :: "observation list"
  static_clearing_observations :: "observation list"

definition addStaticObservation :: "observation \<Rightarrow> bool \<Rightarrow> bool \<Rightarrow> obstacle_layer \<Rightarrow> obstacle_layer" where
  "addStaticObservation obs marking clearing l =
     (let l = (if marking then l\<lparr>static_marking_observations := static_marking_observations l @ [obs]\<rparr> else l)
      in if clearing then l\<lparr>static_clearing_observations := static_clearing_observations l @ [obs]\<rparr> else l)"

definition clearStaticObservations :: "bool \<Rightarrow> bool \<Rightarrow> obstacle_layer \<Rightarrow> obstacle_layer" where
  "clearStaticObservations marking clearing l =
     (let l = (if marking then l\<lparr>static_marking_observations := []\<rparr> else l)
      in if clearing then l\<lparr>static_clearing_observations := []\<rparr> else l)"

text \<open>The observations of some buffers and whether all of them are current.\<close>

fun collect_observations ::
  "int \<Rightarrow> nat list \<Rightarrow> observation_buffer list \<Rightarrow> (observation list \<times> bool \<times> observation_buffer list) option" where
  "collect_observations now [] bs = Some ([], True, bs)"
| "collect_observations now (i # is) bs = do {
     b \<leftarrow> mem_at bs i;
     let (obs, b) = getObservations now b;
     (rest, current, bs) \<leftarrow> collect_observations now is (bs[i := b]);
     Some (obs @ rest, buffer_isCurrent now b \<and> current, bs)
   }"

definition getMarkingObservations :: "int \<Rightarrow> obstacle_layer \<Rightarrow> (observation list \<times> bool \<times> obstacle_layer) option" where
  "getMarkingObservations now l = do {
     (obs, current, bs) \<leftarrow> collect_observations now (marking_buffers l) (observation_buffers l);
     Some (obs @ static_marking_observations l, current, l\<lparr>observation_buffers := bs\<rparr>)
   }"

definition getClearingObservations :: "int \<Rightarrow> obstacle_layer \<Rightarrow> (observation list \<times> bool \<times> obstacle_layer) option" where
  "getClearingObservations now l = do {
     (obs, current, bs) \<leftarrow> collect_observations now (clearing_buffers l) (observation_buffers l);
     Some (obs @ static_clearing_observations l, current, l\<lparr>observation_buffers := bs\<rparr>)
   }"

section \<open>Clearing\<close>

definition updateRaytraceBounds :: "real \<Rightarrow> real \<Rightarrow> real \<Rightarrow> real \<Rightarrow> real \<Rightarrow> real \<Rightarrow> bounds \<Rightarrow> bounds" where
  "updateRaytraceBounds ox oy wx wy max_range min_range b =
     (let dx = wx - ox; dy = wy - oy; full_distance = hypot dx dy
      in if full_distance < min_range then b
         else (let scale = min 1 (max_range / full_distance) in touch (ox + dx * scale) (oy + dy * scale) b))"

text \<open>The end of a ray, pulled back onto the map: one step for each border. \<open>(a, b)\<close> is the ray.\<close>

definition clip_min_x :: "costmap \<Rightarrow> point \<Rightarrow> point \<Rightarrow> point \<Rightarrow> point" where
  "clip_min_x m src ray w =
     (if fst w < origin_x m then (origin_x m, snd src + snd ray * ((origin_x m - fst src) / fst ray)) else w)"

definition clip_min_y :: "costmap \<Rightarrow> point \<Rightarrow> point \<Rightarrow> point \<Rightarrow> point" where
  "clip_min_y m src ray w =
     (if snd w < origin_y m then (fst src + fst ray * ((origin_y m - snd src) / snd ray), origin_y m) else w)"

definition clip_max_x :: "costmap \<Rightarrow> point \<Rightarrow> point \<Rightarrow> point \<Rightarrow> point" where
  "clip_max_x m src ray w =
     (let map_end_x = origin_x m + real (unat (size_x m)) * resolution m
      in if fst w > map_end_x then (map_end_x - 1 / 1000, snd src + snd ray * ((map_end_x - fst src) / fst ray)) else w)"

definition clip_max_y :: "costmap \<Rightarrow> point \<Rightarrow> point \<Rightarrow> point \<Rightarrow> point" where
  "clip_max_y m src ray w =
     (let map_end_y = origin_y m + real (unat (size_y m)) * resolution m
      in if snd w > map_end_y then (fst src + fst ray * ((map_end_y - snd src) / snd ray), map_end_y - 1 / 1000) else w)"

definition clip_ray :: "costmap \<Rightarrow> real \<Rightarrow> real \<Rightarrow> real \<Rightarrow> real \<Rightarrow> point" where
  "clip_ray m ox oy wx wy =
     (let src = (ox, oy); ray = (wx - ox, wy - oy)
      in clip_max_y m src ray (clip_max_x m src ray (clip_min_y m src ray (clip_min_x m src ray (wx, wy)))))"

definition clear_point ::
  "observation \<Rightarrow> u32 \<times> u32 \<Rightarrow> point3 \<Rightarrow> costmap \<times> bounds \<Rightarrow> (costmap \<times> bounds) option" where
  "clear_point obs start pt s =
     (let (m, b) = s; (ox, oy) = obs_origin obs; (px, py, pz) = pt; (wx, wy) = clip_ray m ox oy px py
      in do {
        target \<leftarrow> worldToMap m wx wy;
        (case target of
           None \<Rightarrow> Some (m, b)
         | Some (x1, y1) \<Rightarrow> do {
             max_cells \<leftarrow> cellDistance (obs_raytrace_max_range obs) m;
             min_cells \<leftarrow> cellDistance (obs_raytrace_min_range obs) m;
             offs \<leftarrow> raytraceLine m (fst start) (snd start) x1 y1 max_cells min_cells;
             cs \<leftarrow> visit_all (\<lambda>off cs. write_at cs (unat off) FREE_SPACE) offs (costs m);
             Some (m\<lparr>costs := cs\<rparr>,
               updateRaytraceBounds ox oy wx wy (obs_raytrace_max_range obs) (obs_raytrace_min_range obs) b)
           })
      })"

definition raytraceFreespace :: "observation \<Rightarrow> costmap \<times> bounds \<Rightarrow> (costmap \<times> bounds) option" where
  "raytraceFreespace obs s =
     (let (m, b) = s; (ox, oy) = obs_origin obs
      in do {
        origin \<leftarrow> worldToMap m ox oy;
        (case origin of
           None \<Rightarrow> Some (m, b)
         | Some start \<Rightarrow> visit_all (clear_point obs start) (obs_cloud obs) (m, touch ox oy b))
      })"

section \<open>Marking\<close>

text \<open>Whether a point becomes an obstacle, and in which cell: \<open>Some None\<close> if it does not.\<close>

definition obstacle_cell ::
  "obstacle_layer \<Rightarrow> costmap \<Rightarrow> u32 \<times> u32 \<Rightarrow> u32 \<Rightarrow> u32 \<Rightarrow> point3 \<Rightarrow> (u32 \<times> u32) option option" where
  "obstacle_cell l m start max_range_cells min_range_cells pt =
     (case pt of (px, py, pz) \<Rightarrow>
       if pz < min_obstacle_height l then Some None
       else if pz > max_obstacle_height l then Some None
       else do {
         cell \<leftarrow> worldToMap m px py;
         (case cell of
            None \<Rightarrow> Some None
          | Some (mx, my) \<Rightarrow> do {
              dx \<leftarrow> int32 (sint mx - sint (fst start));
              dy \<leftarrow> int32 (sint my - sint (snd start));
              dist \<leftarrow> real_to_u32 (hypot (real_of_int dx) (real_of_int dy));
              Some (if dist > max_range_cells then None
                    else if dist < min_range_cells then None
                    else Some (mx, my))
            })
       })"

definition mark_point ::
  "obstacle_layer \<Rightarrow> u32 \<times> u32 \<Rightarrow> u32 \<Rightarrow> u32 \<Rightarrow> point3 \<Rightarrow> costmap \<times> bounds \<Rightarrow> (costmap \<times> bounds) option" where
  "mark_point l start max_range_cells min_range_cells pt s =
     (let (m, b) = s
      in do {
        cell \<leftarrow> obstacle_cell l m start max_range_cells min_range_cells pt;
        (case cell of
           None \<Rightarrow> Some (m, b)
         | Some (mx, my) \<Rightarrow> do {
             cs \<leftarrow> write_at (costs m) (unat (getIndex m mx my)) LETHAL_OBSTACLE;
             Some (m\<lparr>costs := cs\<rparr>, touch (fst pt) (fst (snd pt)) b)
           })
      })"

definition mark_observation :: "obstacle_layer \<Rightarrow> observation \<Rightarrow> costmap \<times> bounds \<Rightarrow> (costmap \<times> bounds) option" where
  "mark_observation l obs s =
     (let (m, b) = s
      in do {
        max_range_cells \<leftarrow> cellDistance (obs_obstacle_max_range obs) m;
        min_range_cells \<leftarrow> cellDistance (obs_obstacle_min_range obs) m;
        origin \<leftarrow> worldToMap m (fst (obs_origin obs)) (snd (obs_origin obs));
        (case origin of
           None \<Rightarrow> Some (m, b)
         | Some start \<Rightarrow> visit_all (mark_point l start max_range_cells min_range_cells) (obs_cloud obs) (m, b))
      })"

section \<open>The operations of the layer\<close>

definition ob_updateFootprint :: "parent \<Rightarrow> real \<Rightarrow> real \<Rightarrow> real \<Rightarrow> bounds \<Rightarrow> obstacle_layer \<Rightarrow> obstacle_layer \<times> bounds" where
  "ob_updateFootprint par robot_x robot_y robot_yaw b l =
     (if \<not> footprint_clearing_enabled l then (l, b)
      else
        (let fp = transformFootprint robot_x robot_y robot_yaw (par_footprint par)
         in (l\<lparr>transformed_footprint := fp\<rparr>, fold (\<lambda>(x, y). touch x y) fp b)))"

abbreviation ob_map :: "obstacle_layer \<Rightarrow> costmap" where
  "ob_map l \<equiv> layer_map (ob_layer l)"

definition set_ob_map :: "costmap \<Rightarrow> obstacle_layer \<Rightarrow> obstacle_layer" where
  "set_ob_map m l = l\<lparr>ob_layer := (ob_layer l)\<lparr>layer_map := m\<rparr>\<rparr>"

text \<open>\<open>current && getClearingObservations(...)\<close> does not call the function when \<open>current\<close> is false.\<close>

definition ob_updateBounds ::
  "(nat \<Rightarrow> u8) \<Rightarrow> int \<Rightarrow> parent \<Rightarrow> real \<Rightarrow> real \<Rightarrow> real \<Rightarrow> bounds \<Rightarrow> obstacle_layer \<Rightarrow> (obstacle_layer \<times> bounds) option" where
  "ob_updateBounds nb now par robot_x robot_y robot_yaw b l = do {
     l \<leftarrow> (if ob_rolling_window l then do {
         m \<leftarrow> updateOrigin nb (robot_x - getSizeInMetersX (ob_map l) / 2) (robot_y - getSizeInMetersY (ob_map l) / 2) (ob_map l);
         Some (set_ob_map m l)
       } else Some l);
     if \<not> layer_enabled (ob_layer l) then Some (l, b)
     else do {
       let (b, base) = useExtraBounds b (ob_layer l);
       let l = l\<lparr>ob_layer := base\<rparr>;
       (observations, current, l) \<leftarrow> getMarkingObservations now l;
       (clearing_observations, current, l) \<leftarrow> (if current then getClearingObservations now l else Some ([], False, l));
       let l = l\<lparr>ob_layer := (ob_layer l)\<lparr>layer_current := current\<rparr>\<rparr>;
       (m, b) \<leftarrow> visit_all raytraceFreespace clearing_observations (ob_map l, b);
       (m, b) \<leftarrow> visit_all (mark_observation l) observations (m, b);
       Some (ob_updateFootprint par robot_x robot_y robot_yaw b (set_ob_map m l))
     }
   }"

definition ob_updateCosts ::
  "parent \<Rightarrow> int \<Rightarrow> int \<Rightarrow> int \<Rightarrow> int \<Rightarrow> obstacle_layer \<times> costmap \<Rightarrow> (layer_error option \<times> obstacle_layer \<times> costmap) option" where
  "ob_updateCosts par min_i min_j max_i max_j s =
     (let (l, master) = s
      in if \<not> layer_enabled (ob_layer l) then Some (None, l, master)
         else do {
           let l = (if \<not> layer_current (ob_layer l) \<and> was_reset l
             then l\<lparr>was_reset := False, ob_layer := (ob_layer l)\<lparr>layer_current := True\<rparr>\<rparr> else l);
           l \<leftarrow> (if footprint_clearing_enabled l then do {
               (_, m) \<leftarrow> setConvexPolygonCost (transformed_footprint l) FREE_SPACE (ob_map l);
               Some (set_ob_map m l)
             } else Some l);
           master \<leftarrow> (if combination_method l = 0 then updateWithOverwrite (ob_layer l) min_i min_j max_i max_j master
             else if combination_method l = 1 then updateWithMax (ob_layer l) min_i min_j max_i max_j master
             else Some master);
           Some (None, l, master)
         })"

definition ob_resetBuffersLastUpdated :: "int \<Rightarrow> obstacle_layer \<Rightarrow> obstacle_layer" where
  "ob_resetBuffersLastUpdated now l = l\<lparr>observation_buffers := map (resetLastUpdated now) (observation_buffers l)\<rparr>"

definition ob_reset :: "int \<Rightarrow> obstacle_layer \<Rightarrow> obstacle_layer option" where
  "ob_reset now l = do {
     m \<leftarrow> resetMaps (ob_map l);
     let l = ob_resetBuffersLastUpdated now (set_ob_map m l);
     Some (l\<lparr>ob_layer := (ob_layer l)\<lparr>layer_current := False\<rparr>, was_reset := True\<rparr>)
   }"

text \<open>\<open>activate\<close>, apart from the notifiers and subscriptions.\<close>

definition ob_activate :: "int \<Rightarrow> obstacle_layer \<Rightarrow> obstacle_layer" where
  "ob_activate now l = ob_resetBuffersLastUpdated now l"

fun ob_set_parameter :: "parameter \<Rightarrow> obstacle_layer \<Rightarrow> obstacle_layer" where
  "ob_set_parameter (ParamDouble name v) l =
     (if name = ''min_obstacle_height'' then l\<lparr>min_obstacle_height := v\<rparr>
      else if name = ''max_obstacle_height'' then l\<lparr>max_obstacle_height := v\<rparr> else l)"
| "ob_set_parameter (ParamBool name v) l =
     (if name = ''enabled'' \<and> layer_enabled (ob_layer l) \<noteq> v
      then (let base = (ob_layer l)\<lparr>layer_enabled := v\<rparr>
            in l\<lparr>ob_layer := (if v then base\<lparr>layer_current := False\<rparr> else base)\<rparr>)
      else if name = ''footprint_clearing_enabled'' then l\<lparr>footprint_clearing_enabled := v\<rparr> else l)"
| "ob_set_parameter (ParamInt name v) l = (if name = ''combination_method'' then l\<lparr>combination_method := v\<rparr> else l)"
| "ob_set_parameter (ParamOther name) l = l"

definition ob_dynamicParametersCallback :: "parameter list \<Rightarrow> obstacle_layer \<Rightarrow> obstacle_layer" where
  "ob_dynamicParametersCallback parameters l = fold ob_set_parameter parameters l"

section \<open>Rays of limited range\<close>

lemma real_to_u32_between:
  fixes a b :: u32
  assumes "min (real (unat a)) (real (unat b)) \<le> r" and "r \<le> max (real (unat a)) (real (unat b))"
  shows "\<exists>w. real_to_u32 r = Some w \<and> min (unat a) (unat b) \<le> unat w \<and> unat w \<le> max (unat a) (unat b) \<and> int (unat w) = \<lfloor>r\<rfloor>"
proof -
  have "0 \<le> min (real (unat a)) (real (unat b))" by (simp del: of_nat_unat)
  then have nonneg: "0 \<le> r" using assms(1) by linarith
  have floor: "int (min (unat a) (unat b)) \<le> \<lfloor>r\<rfloor>" "\<lfloor>r\<rfloor> \<le> int (max (unat a) (unat b))"
  proof -
    show "int (min (unat a) (unat b)) \<le> \<lfloor>r\<rfloor>" using assms(1) by (simp add: le_floor_iff min_def del: of_nat_unat split: if_splits)
    have "r < real_of_int (int (max (unat a) (unat b)) + 1)" using assms(2) by (simp add: max_def del: of_nat_unat split: if_splits)
    then have "\<lfloor>r\<rfloor> < int (max (unat a) (unat b)) + 1" by (simp only: floor_less_iff)
    then show "\<lfloor>r\<rfloor> \<le> int (max (unat a) (unat b))" by linarith
  qed
  have "unat a < 2 ^ 32" "unat b < 2 ^ 32"
    using unsigned_less [where ?'a = nat, of a] unsigned_less [where ?'a = nat, of b] by simp_all
  then have small: "int (max (unat a) (unat b)) < 2 ^ 32" by (simp add: max_def del: of_nat_unat)
  have fl: "\<lfloor>r\<rfloor> < 2 ^ 32" "0 \<le> \<lfloor>r\<rfloor>" using floor small nonneg by linarith+
  then have "r < 2 ^ 32" by (simp add: floor_less_iff)
  then have "real_to_u32 r = Some (word_of_int \<lfloor>r\<rfloor>)" using nonneg by (simp add: real_to_u32_def trunc_def)
  moreover have "unat (word_of_int \<lfloor>r\<rfloor> :: u32) = nat \<lfloor>r\<rfloor>" using fl by (rule unat_of_int_small [OF _ _, rotated])
  ultimately show ?thesis using floor fl(2) by (auto simp del: of_nat_unat)
qed

text \<open>
  The cells of a ray from \<open>p\<close> to \<open>q\<close>, whose length is \<open>d\<close> cells: those of the line from the point \<open>lo\<close> cells along the way to \<open>q\<close>,
  up to the fraction \<open>hi / d\<close> of that line's steps; none if \<open>q\<close> is nearer than \<open>lo\<close>.
\<close>

definition ranged_line :: "real \<Rightarrow> real \<Rightarrow> int \<times> int \<Rightarrow> int \<times> int \<Rightarrow> (int \<times> int) list" where
  "ranged_line lo hi p q =
     (let dx = real_of_int (fst q - fst p); dy = real_of_int (snd q - snd p); d = hypot dx dy;
          s = (\<lfloor>real_of_int (fst p) + dx / d * lo\<rfloor>, \<lfloor>real_of_int (snd p) + dy / d * lo\<rfloor>)
      in if d < lo then []
         else map (line_cell s q) [0..<Suc (nat \<lfloor>min 1 (hi / d) * real (line_steps s q)\<rfloor>)])"

lemma raytraceLine_ranged:
  fixes minl maxl :: u32
  assumes "int_sized m" and p: "in_grid m p" and q: "in_grid m q"
  defines "cs \<equiv> ranged_line (real (unat minl)) (real (unat maxl)) (int_loc p) (int_loc q)"
  shows "raytraceLine m (fst p) (snd p) (fst q) (snd q) maxl minl = Some (map (cell_offset m) cs) \<and>
    (\<forall>c \<in> set cs. in_grid m (loc c) \<and> int_loc (loc c) = c)"
proof -
  have small: "unat (fst c) < 2 ^ 31" "unat (snd c) < 2 ^ 31" if "in_grid m c" for c
    using assms(1) that by (auto simp: int_sized_def in_grid_def word_less_nat_alt)
  define dx where "dx = int (unat (fst q)) - int (unat (fst p))"
  define dy where "dy = int (unat (snd q)) - int (unat (snd p))"
  define d where "d = hypot (real_of_int dx) (real_of_int dy)"
  have s: "sint (fst q - fst p) = dx" "sint (snd q - snd p) = dy"
    using small [OF p] small [OF q] sint_diff by (simp_all add: dx_def dy_def del: of_nat_unat)
  show ?thesis
  proof (cases "d < real (unat minl)")
    case True
    then have "cs = []" unfolding cs_def ranged_line_def Let_def fst_conv snd_conv dx_def [symmetric] dy_def [symmetric] d_def [symmetric]
      by (simp only: if_True)
    then show ?thesis using True by (simp add: raytraceLine_def s d_def [symmetric] Let_def)
  next
    case False
    let ?start = "\<lambda>u e. if 0 < d then real_to_u32 (real (unat u) + real_of_int e / d * real (unat minl)) else Some u"
    have start: "\<exists>w. ?start u (int (unat v) - int (unat u)) = Some w \<and> min (unat u) (unat v) \<le> unat w \<and> unat w \<le> max (unat u) (unat v) \<and>
      int (unat w) = \<lfloor>real_of_int (int (unat u)) + real_of_int (int (unat v) - int (unat u)) / d * real (unat minl)\<rfloor>"
      for u v :: u32
    proof (cases "0 < d")
      case True
      let ?t = "real (unat minl) / d"
      have t: "0 \<le> ?t" "?t \<le> 1" using True False by (simp_all del: of_nat_unat)
      have r: "real (unat u) + real_of_int (int (unat v) - int (unat u)) / d * real (unat minl) =
          (1 - ?t) * real (unat u) + ?t * real (unat v)" by (simp add: algebra_simps diff_divide_distrib)
      have "min (real (unat u)) (real (unat v)) \<le> (1 - ?t) * real (unat u) + ?t * real (unat v)"
        "(1 - ?t) * real (unat u) + ?t * real (unat v) \<le> max (real (unat u)) (real (unat v))"
      proof -
        have "(1 - ?t) * min (real (unat u)) (real (unat v)) + ?t * min (real (unat u)) (real (unat v)) \<le>
            (1 - ?t) * real (unat u) + ?t * real (unat v)"
          using t by (intro add_mono mult_left_mono) simp_all
        then show "min (real (unat u)) (real (unat v)) \<le> (1 - ?t) * real (unat u) + ?t * real (unat v)"
          by (simp add: algebra_simps)
        have "(1 - ?t) * real (unat u) + ?t * real (unat v) \<le>
            (1 - ?t) * max (real (unat u)) (real (unat v)) + ?t * max (real (unat u)) (real (unat v))"
          using t by (intro add_mono mult_left_mono) simp_all
        then show "(1 - ?t) * real (unat u) + ?t * real (unat v) \<le> max (real (unat u)) (real (unat v))"
          by (simp add: algebra_simps)
      qed
      then show ?thesis using True unfolding of_int_of_nat_eq [of "unat u"] r by (simp only: if_True) (rule real_to_u32_between)
    next
      case False
      then have "d = 0" using hypot_nonneg [of "real_of_int dx" "real_of_int dy"] unfolding d_def by linarith
      then show ?thesis by (simp del: of_nat_unat)
    qed
    let ?lo = "real (unat minl)"
    obtain sx where sx: "?start (fst p) dx = Some sx" "unat sx \<le> max (unat (fst p)) (unat (fst q))"
      "int (unat sx) = \<lfloor>real_of_int (int (unat (fst p))) + real_of_int dx / d * ?lo\<rfloor>"
      using start [of "fst p" "fst q"] unfolding dx_def by blast
    obtain sy where sy: "?start (snd p) dy = Some sy" "unat sy \<le> max (unat (snd p)) (unat (snd q))"
      "int (unat sy) = \<lfloor>real_of_int (int (unat (snd p))) + real_of_int dy / d * ?lo\<rfloor>"
      using start [of "snd p" "snd q"] unfolding dy_def by blast
    have g: "in_grid m (sx, sy)"
      using sx(2) sy(2) p q by (simp add: in_grid_def word_less_nat_alt max_def split: if_splits)
    have sm: "unat sx < 2 ^ 31" "unat sy < 2 ^ 31" "unat (fst q) < 2 ^ 31" "unat (snd q) < 2 ^ 31"
      using small [OF g] small [OF q] by simp_all
    define ex where "ex = int (unat (fst q)) - int (unat sx)"
    define ey where "ey = int (unat (snd q)) - int (unat sy)"
    define a where "a = (word_of_int \<bar>ex\<bar> :: u32)"
    define b where "b = (word_of_int \<bar>ey\<bar> :: u32)"
    have e: "sint (fst q - sx) = ex" "sint (snd q - sy) = ey"
      using sm sint_diff by (simp_all add: ex_def ey_def del: of_nat_unat)
    note line = bresenham_line [OF sm, folded ex_def ey_def, folded a_def b_def]
    define scale where "scale = (if d = 0 then 1 else min 1 (real (unat maxl) / d))"
    have sc: "0 \<le> scale" "scale \<le> 1" by (auto simp: scale_def d_def simp del: of_nat_unat)
    have steps: "\<exists>n. real_to_u32 (scale * real (unat u)) = Some n \<and> unat n \<le> unat u \<and> int (unat n) = \<lfloor>scale * real (unat u)\<rfloor>" for u :: u32
    proof -
      have "scale * real (unat u) \<le> 1 * real (unat u)" by (rule mult_right_mono) (use sc in \<open>simp_all del: of_nat_unat\<close>)
      then have "min (real (unat (0 :: u32))) (real (unat u)) \<le> scale * real (unat u)"
        "scale * real (unat u) \<le> max (real (unat (0 :: u32))) (real (unat u))" using sc by (simp_all del: of_nat_unat)
      from real_to_u32_between [OF this] show ?thesis by (auto simp del: of_nat_unat)
    qed
    obtain na nb where n: "real_to_u32 (scale * real (unat a)) = Some na" "unat na \<le> unat a"
      "real_to_u32 (scale * real (unat b)) = Some nb" "unat nb \<le> unat b"
      "int (unat na) = \<lfloor>scale * real (unat a)\<rfloor>" "int (unat nb) = \<lfloor>scale * real (unat b)\<rfloor>" using steps by blast
    let ?oa = "word_of_int (sign ex)" and ?ob = "word_of_int (sign ey) * size_x m" and ?off = "sy * size_x m + sx"
    have run: "raytraceLine m (fst p) (snd p) (fst q) (snd q) maxl minl = Some (
        if a \<ge> b then bresenham2D a b (a div 2) ?oa ?ob ?off na else bresenham2D b a (b div 2) ?ob ?oa ?off nb)"
      unfolding raytraceLine_def s Let_def d_def [symmetric] if_not_P [OF False] sx(1) sy(1) Option.bind.simps e
        a_def [symmetric] b_def [symmetric] scale_def [symmetric] n(1) n(3) by simp
    let ?cells = "line_cells (int_loc (sx, sy)) (int_loc (fst q, snd q))"
    let ?S = "int_loc (sx, sy)" and ?Q = "int_loc q"
    have Q: "int_loc (fst q, snd q) = ?Q" by simp
    have steps_max: "line_steps ?S ?Q = max (unat a) (unat b)"
      unfolding line_steps_max fst_conv snd_conv ex_def [symmetric] ey_def [symmetric] line(1,2) ..
    define N where "N = nat \<lfloor>min 1 (real (unat maxl) / d) * real (line_steps ?S ?Q)\<rfloor>"
    have N: "N = nat \<lfloor>scale * real (max (unat a) (unat b))\<rfloor>"
    proof (cases "d = 0")
      case True
      then have "dx = 0" "dy = 0" using hypot_pos [of "real_of_int dx" "real_of_int dy"] by (auto simp: d_def)
      then have "sx = fst p" "sy = snd p" "fst q = fst p" "snd q = snd p"
        using sx(1) sy(1) True by (simp_all add: dx_def dy_def word_unat_eq_iff del: of_nat_unat)
      then have "ex = 0" "ey = 0" by (simp_all add: ex_def ey_def)
      then have "unat a = 0" "unat b = 0" unfolding line(1,2) by simp_all
      then show ?thesis unfolding N_def steps_max by simp
    next
      case False
      then show ?thesis unfolding N_def steps_max scale_def by simp
    qed
    have run': "raytraceLine m (fst p) (snd p) (fst q) (snd q) maxl minl = Some (take (Suc N) (map (cell_offset m) ?cells))"
    proof (cases "b \<le> a")
      case True
      then have "max (unat a) (unat b) = unat a" by (simp add: word_le_nat_alt)
      then have "unat na = N" unfolding N n(5) [symmetric] by (simp only: n(5) [symmetric] nat_int)
      then show ?thesis
        using True run bresenham2D_prefix [of b a na] n(2) line(3,5) by (auto simp: word_le_nat_alt)
    next
      case False
      then have "max (unat a) (unat b) = unat b" by (simp add: word_le_nat_alt)
      then have "unat nb = N" unfolding N n(6) [symmetric] by (simp only: n(6) [symmetric] nat_int)
      then show ?thesis
        using False run bresenham2D_prefix [of a b nb] n(4) line(4,5) by (auto simp: word_le_nat_alt)
    qed
    have "N \<le> line_steps ?S ?Q"
    proof -
      have "scale * real (max (unat a) (unat b)) \<le> 1 * real (max (unat a) (unat b))" by (rule mult_right_mono) (use sc in simp_all)
      then show ?thesis unfolding N steps_max by (simp add: floor_le_iff nat_le_iff del: of_nat_unat of_nat_max)
    qed
    then have upto: "take (Suc N) [0..<Suc (line_steps ?S ?Q)] = [0..<Suc N]" unfolding take_upt by (subst take_upt) simp_all
    have S: "(\<lfloor>real_of_int (fst (int_loc p)) + real_of_int dx / d * ?lo\<rfloor>, \<lfloor>real_of_int (snd (int_loc p)) + real_of_int dy / d * ?lo\<rfloor>) = ?S"
      unfolding fst_conv snd_conv sx(3) [symmetric] sy(3) [symmetric] ..
    have cs: "cs = map (line_cell ?S ?Q) [0..<Suc N]"
      unfolding cs_def ranged_line_def Let_def
      unfolding fst_conv snd_conv dx_def [symmetric] dy_def [symmetric] d_def [symmetric]
      unfolding sx(3) [symmetric] sy(3) [symmetric] if_not_P [OF False] N_def fst_conv snd_conv ..
    have cells: "cs = take (Suc N) ?cells" unfolding cs line_cells_def Q take_map upto ..
    have "\<forall>c \<in> set ?cells. in_grid m (loc c) \<and> int_loc (loc c) = c"
      using line_cell_in_grid [OF g, of q] q by (simp only: prod.collapse) blast
    then have "\<forall>c \<in> set cs. in_grid m (loc c) \<and> int_loc (loc c) = c" unfolding cells by (auto dest: in_set_takeD)
    then show ?thesis using run' unfolding cells by (simp only: take_map simp_thms)
  qed
qed

lemma raytraceLine_range:
  assumes "int_sized m" and "in_grid m p" and "in_grid m q"
  shows "\<exists>cs. raytraceLine m (fst p) (snd p) (fst q) (snd q) maxl minl = Some (map (\<lambda>c. getIndex m (fst c) (snd c)) cs) \<and>
    (\<forall>c \<in> set cs. in_grid m c)"
  using raytraceLine_ranged [OF assms, of maxl minl]
  by (intro exI [of _ "map loc (ranged_line (real (unat minl)) (real (unat maxl)) (int_loc p) (int_loc q))"])
    (simp add: o_def cell_offset_getIndex del: of_nat_unat)

section \<open>Bounding boxes\<close>

definition in_bounds :: "point \<Rightarrow> bounds \<Rightarrow> bool" where
  "in_bounds p b = (case b of (min_x, min_y, max_x, max_y) \<Rightarrow>
     min_x \<le> fst p \<and> fst p \<le> max_x \<and> min_y \<le> snd p \<and> snd p \<le> max_y)"

definition bounds_grow :: "bounds \<Rightarrow> bounds \<Rightarrow> bool" where
  "bounds_grow b b' = (case (b, b') of ((x0, y0, x1, y1), (x0', y0', x1', y1')) \<Rightarrow> x0' \<le> x0 \<and> y0' \<le> y0 \<and> x1 \<le> x1' \<and> y1 \<le> y1')"

lemma bounds_grow_refl [simp]: "bounds_grow b b"
  by (cases b) (simp add: bounds_grow_def)

lemma bounds_grow_trans: "bounds_grow a b \<Longrightarrow> bounds_grow b c \<Longrightarrow> bounds_grow a c"
  by (cases a; cases b; cases c) (auto simp: bounds_grow_def)

lemma in_bounds_grow: "in_bounds p b \<Longrightarrow> bounds_grow b b' \<Longrightarrow> in_bounds p b'"
  by (cases b; cases b') (auto simp: in_bounds_def bounds_grow_def)

lemma touch_bounds [simp]: "bounds_grow b (touch x y b)" "in_bounds (x, y) (touch x y b)"
  by (cases b; simp add: bounds_grow_def in_bounds_def touch_def)+

lemma updateRaytraceBounds_grow [simp]: "bounds_grow b (updateRaytraceBounds ox oy wx wy hi lo b)"
  by (simp add: updateRaytraceBounds_def Let_def)

lemma useExtraBounds_grow: "useExtraBounds b l = (b', l') \<Longrightarrow> bounds_grow b b' \<and> layer_map l' = layer_map l \<and> layer_enabled l' = layer_enabled l"
  by (cases b) (auto simp: useExtraBounds_def bounds_grow_def split: if_splits)

section \<open>What marking does\<close>

lemma cells_rewritten_const:
  assumes "cells_rewritten P (\<lambda>_ _ _. c) m m1" and "cells_rewritten Q (\<lambda>_ _ _. c) m1 m2"
  shows "cells_rewritten (\<lambda>x y. P x y \<or> Q x y) (\<lambda>_ _ _. c) m m2"
proof -
  have e: "m1 = m\<lparr>costs := costs m1\<rparr>" "m2 = m1\<lparr>costs := costs m2\<rparr>" using assms by (simp_all only: cells_rewritten_def)
  have "m2 = m\<lparr>costs := costs m2\<rparr>" by (subst e(2), subst e(1)) simp
  then show ?thesis using assms same_but_costs [OF e(1)] unfolding cells_rewritten_def by simp
qed

lemma write_cell:
  assumes "grid_ok m" and "mx < size_x m" and "my < size_y m"
  shows "\<exists>cs. write_at (costs m) (unat (getIndex m mx my)) v = Some cs \<and>
    cells_rewritten (\<lambda>x y. x = unat mx \<and> y = unat my) (\<lambda>_ _ _. v) m (m\<lparr>costs := cs\<rparr>)"
proof -
  let ?i = "unat my * width m + unat mx"
  have i: "unat (getIndex m mx my) = ?i" "?i < length (costs m)" using getIndex_unat [OF assms] by simp_all
  have mx: "unat mx < width m" using assms(2) by (simp add: word_less_nat_alt)
  have "(costs m)[?i := v] ! (y * width m + x) = (if x = unat mx \<and> y = unat my then v else costs m ! (y * width m + x))"
    if xy: "x < width m" "y < height m" for x y
    using cell_in_grid [OF assms(1) xy] cell_index_inj [OF xy(1) mx, of y "unat my"] i by (auto simp: nth_list_update)
  then show ?thesis using i by (simp add: write_at_def cells_rewritten_def cost_at_def)
qed

text \<open>The cells an observation marks.\<close>

definition hit :: "obstacle_layer \<Rightarrow> costmap \<Rightarrow> observation \<Rightarrow> point3 \<Rightarrow> nat \<Rightarrow> nat \<Rightarrow> bool" where
  "hit l m obs pt x y \<longleftrightarrow>
     (case (worldToMap m (fst (obs_origin obs)) (snd (obs_origin obs)), cellDistance (obs_obstacle_max_range obs) m,
         cellDistance (obs_obstacle_min_range obs) m) of
        (Some (Some start), Some hi, Some lo) \<Rightarrow>
          (case obstacle_cell l m start hi lo pt of Some (Some (mx, my)) \<Rightarrow> x = unat mx \<and> y = unat my | _ \<Rightarrow> False)
      | _ \<Rightarrow> False)"

lemma same_shape_simps [simp]:
  "worldToMap (m\<lparr>costs := cs\<rparr>) = worldToMap m" "cellDistance r (m\<lparr>costs := cs\<rparr>) = cellDistance r m"
  "obstacle_cell l (m\<lparr>costs := cs\<rparr>) = obstacle_cell l m" "clip_ray (m\<lparr>costs := cs\<rparr>) = clip_ray m"
  "in_grid (m\<lparr>costs := cs\<rparr>) = in_grid m" "int_sized (m\<lparr>costs := cs\<rparr>) = int_sized m"
  by (simp_all add: worldToMap_def cellDistance_def obstacle_cell_def clip_ray_def clip_min_x_def clip_min_y_def
      clip_max_x_def clip_max_y_def in_grid_def int_sized_def fun_eq_iff Let_def)

lemma hit_shape [simp]: "hit l (m\<lparr>costs := cs\<rparr>) = hit l m"
  by (intro ext) (unfold hit_def same_shape_simps, rule refl)

lemma obstacle_cell_in_grid:
  assumes "obstacle_cell l m start hi lo pt = Some (Some (mx, my))"
  shows "mx < size_x m \<and> my < size_y m"
  using assms by (cases pt) (auto simp: obstacle_cell_def worldToMap_def split: if_splits bind_splits option.splits)

text \<open>A point whose coordinates can be converted to a cell number.\<close>

definition near :: "costmap \<Rightarrow> real \<Rightarrow> real \<Rightarrow> bool" where
  "near m x y \<longleftrightarrow> (x - origin_x m) / resolution m < 2 ^ 32 \<and> (y - origin_y m) / resolution m < 2 ^ 32"

lemma worldToMap_near:
  assumes "near m x y" and "0 < resolution m"
  shows "\<exists>c. worldToMap m x y = Some c"
proof (cases "x < origin_x m \<or> y < origin_y m")
  case False
  then have "0 \<le> (x - origin_x m) / resolution m" "0 \<le> (y - origin_y m) / resolution m" using assms(2) by simp_all
  then show ?thesis using False assms(1) by (auto simp: worldToMap_def real_to_u32_def near_def)
qed (simp add: worldToMap_def)

lemma worldToMap_in_grid: "worldToMap m x y = Some (Some c) \<Longrightarrow> in_grid m c"
  by (auto simp: worldToMap_def in_grid_def split: if_splits bind_splits)

lemma obstacle_cell_total:
  assumes "grid_ok m" and "int_sized m" and "in_grid m start" and "near m (fst pt) (fst (snd pt))"
  shows "\<exists>c. obstacle_cell l m start hi lo pt = Some c"
proof -
  obtain px py pz where pt: "pt = (px, py, pz)" by (cases pt)
  obtain c where c: "worldToMap m px py = Some c" using worldToMap_near [of m px py] assms(1,4) by (auto simp: pt grid_ok_def)
  show ?thesis
  proof (cases c)
    case (Some cell)
    then have "in_grid m cell" using c worldToMap_in_grid by blast
    then have b: "unat (fst cell) < 2 ^ 31" "unat (snd cell) < 2 ^ 31" "unat (fst start) < 2 ^ 31" "unat (snd start) < 2 ^ 31"
      using assms(2,3) by (auto simp: in_grid_def int_sized_def word_less_nat_alt)
    let ?dx = "sint (fst cell) - sint (fst start)" and ?dy = "sint (snd cell) - sint (snd start)"
    have d: "\<bar>?dx\<bar> < 2 ^ 31" "\<bar>?dy\<bar> < 2 ^ 31" using b by (simp_all add: sint_small abs_less_iff del: of_nat_unat)
    then have i: "int32 ?dx = Some ?dx" "int32 ?dy = Some ?dy" by (simp_all add: int32_def abs_less_iff)
    have "hypot (real_of_int ?dx) (real_of_int ?dy) \<le> real_of_int (\<bar>?dx\<bar> + \<bar>?dy\<bar>)"
      using hypot_le_sum [of "real_of_int ?dx" "real_of_int ?dy"] by simp
    also have "\<dots> < real_of_int (2 ^ 32)" using d by (subst of_int_less_iff) simp
    finally have "\<exists>w. real_to_u32 (hypot (real_of_int ?dx) (real_of_int ?dy)) = Some w"
      using hypot_nonneg [of "real_of_int ?dx" "real_of_int ?dy"] by (simp add: real_to_u32_def del: hypot_nonneg)
    then show ?thesis using i c Some by (auto simp: pt obstacle_cell_def split_beta)
  qed (simp add: obstacle_cell_def pt c)
qed

lemma mark_points:
  assumes "grid_ok m" and "int_sized m" and "in_grid m start" and "\<forall>pt \<in> set pts. near m (fst pt) (fst (snd pt))"
  shows "\<exists>m' b'. visit_all (mark_point l start hi lo) pts (m, b) = Some (m', b') \<and> bounds_grow b b' \<and>
    cells_rewritten (\<lambda>x y. \<exists>pt \<in> set pts. \<exists>c. obstacle_cell l m start hi lo pt = Some (Some c) \<and> x = unat (fst c) \<and> y = unat (snd c))
      (\<lambda>_ _ _. LETHAL_OBSTACLE) m m' \<and>
    (\<forall>pt \<in> set pts. \<forall>c. obstacle_cell l m start hi lo pt = Some (Some c) \<longrightarrow> in_bounds (fst pt, fst (snd pt)) b')"
  using assms
proof (induction pts arbitrary: m b)
  case Nil
  then show ?case by (simp add: cells_rewritten_def)
next
  case (Cons pt pts)
  let ?L = "\<lambda>_ _ _. LETHAL_OBSTACLE" and ?cell = "obstacle_cell l m start hi lo"
  obtain c where c: "?cell pt = Some c" using obstacle_cell_total [of m start pt l hi lo] Cons.prems by auto
  show ?case
  proof (cases c)
    case None
    then have "mark_point l start hi lo pt (m, b) = Some (m, b)" using c by (simp add: mark_point_def)
    then show ?thesis using Cons.IH [of m b] Cons.prems c None by simp
  next
    case (Some d)
    obtain mx my where d: "d = (mx, my)" by (cases d)
    have g: "mx < size_x m" "my < size_y m" using obstacle_cell_in_grid c Some d by blast+
    obtain cs where cs: "write_at (costs m) (unat (getIndex m mx my)) LETHAL_OBSTACLE = Some cs"
      "cells_rewritten (\<lambda>x y. x = unat mx \<and> y = unat my) ?L m (m\<lparr>costs := cs\<rparr>)"
      using write_cell [OF Cons.prems(1) g] by blast
    let ?m = "m\<lparr>costs := cs\<rparr>" and ?b = "touch (fst pt) (fst (snd pt)) b"
    have step: "mark_point l start hi lo pt (m, b) = Some (?m, ?b)"
      using c Some d cs(1) by (simp add: mark_point_def)
    have "near ?m = near m" by (simp add: near_def fun_eq_iff)
    then obtain m' b' where rest: "visit_all (mark_point l start hi lo) pts (?m, ?b) = Some (m', b')" "bounds_grow ?b b'"
      "cells_rewritten (\<lambda>x y. \<exists>pt \<in> set pts. \<exists>c. ?cell pt = Some (Some c) \<and> x = unat (fst c) \<and> y = unat (snd c)) ?L ?m m'"
      "\<forall>pt \<in> set pts. \<forall>c. ?cell pt = Some (Some c) \<longrightarrow> in_bounds (fst pt, fst (snd pt)) b'"
      using Cons.IH [of ?m ?b] Cons.prems cells_rewritten_ok [OF cs(2)] by auto
    have "(\<lambda>x y. (x = unat mx \<and> y = unat my) \<or>
        (\<exists>pt \<in> set pts. \<exists>c. ?cell pt = Some (Some c) \<and> x = unat (fst c) \<and> y = unat (snd c))) =
      (\<lambda>x y. \<exists>pt \<in> set (pt # pts). \<exists>c. ?cell pt = Some (Some c) \<and> x = unat (fst c) \<and> y = unat (snd c))"
      using c Some d by (auto simp: fun_eq_iff)
    then have "cells_rewritten (\<lambda>x y. \<exists>pt \<in> set (pt # pts). \<exists>c. ?cell pt = Some (Some c) \<and> x = unat (fst c) \<and> y = unat (snd c)) ?L m m'"
      using cells_rewritten_const [OF cs(2) rest(3)] by simp
    moreover have "in_bounds (fst pt, fst (snd pt)) b'" "bounds_grow b b'"
      using rest(2) in_bounds_grow touch_bounds bounds_grow_trans by blast+
    ultimately show ?thesis using step rest(1,4) by auto
  qed
qed

text \<open>Observations the layer can work with: ranges that are cell numbers, points that have one.\<close>

definition observation_ok :: "costmap \<Rightarrow> observation \<Rightarrow> bool" where
  "observation_ok m obs \<longleftrightarrow> near m (fst (obs_origin obs)) (snd (obs_origin obs)) \<and>
     cellDistance (obs_obstacle_max_range obs) m \<noteq> None \<and> cellDistance (obs_obstacle_min_range obs) m \<noteq> None \<and>
     cellDistance (obs_raytrace_max_range obs) m \<noteq> None \<and> cellDistance (obs_raytrace_min_range obs) m \<noteq> None \<and>
     (\<forall>pt \<in> set (obs_cloud obs). near m (fst pt) (fst (snd pt)))"

lemma observation_ok_shape [simp]: "observation_ok (m\<lparr>costs := cs\<rparr>) = observation_ok m"
  by (simp add: observation_ok_def near_def fun_eq_iff)

lemma mark_observation_spec:
  assumes "grid_ok m" and "int_sized m" and "observation_ok m obs"
  shows "\<exists>m' b'. mark_observation l obs (m, b) = Some (m', b') \<and> bounds_grow b b' \<and>
    cells_rewritten (\<lambda>x y. \<exists>pt \<in> set (obs_cloud obs). hit l m obs pt x y) (\<lambda>_ _ _. LETHAL_OBSTACLE) m m' \<and>
    (\<forall>pt \<in> set (obs_cloud obs). \<forall>x y. hit l m obs pt x y \<longrightarrow> in_bounds (fst pt, fst (snd pt)) b')"
proof -
  obtain hi lo where r: "cellDistance (obs_obstacle_max_range obs) m = Some hi" "cellDistance (obs_obstacle_min_range obs) m = Some lo"
    using assms(3) by (auto simp: observation_ok_def)
  obtain o1 where o1: "worldToMap m (fst (obs_origin obs)) (snd (obs_origin obs)) = Some o1"
    using worldToMap_near assms(1,3) by (fastforce simp: observation_ok_def grid_ok_def)
  show ?thesis
  proof (cases o1)
    case None
    then show ?thesis using r o1 by (simp add: mark_observation_def hit_def cells_rewritten_def)
  next
    case (Some start)
    have g: "in_grid m start" using worldToMap_in_grid o1 Some by blast
    have h: "hit l m obs pt x y \<longleftrightarrow> (\<exists>c. obstacle_cell l m start hi lo pt = Some (Some c) \<and> x = unat (fst c) \<and> y = unat (snd c))" for pt x y
      using r o1 Some by (auto simp: hit_def split: option.splits)
    have "\<forall>pt \<in> set (obs_cloud obs). near m (fst pt) (fst (snd pt))" using assms(3) by (simp add: observation_ok_def)
    from mark_points [OF assms(1,2) g this, of l hi lo b] show ?thesis
      using r o1 Some by (fastforce simp: mark_observation_def h)
  qed
qed

section \<open>What clearing does\<close>

text \<open>The clipped end of a ray does not pass the upper borders of the map.\<close>

lemma quotient_unit: "0 \<le> x \<Longrightarrow> x \<le> a \<Longrightarrow> 0 < a \<Longrightarrow> 0 \<le> x / a \<and> x / a \<le> (1 :: real)"
  by simp

lemma clip_low:
  assumes "lo \<le> (p :: real)"
  shows "\<exists>s. 0 \<le> s \<and> s \<le> 1 \<and> (w < lo \<longrightarrow> s = (lo - p) / (w - p) \<and> lo = p + (w - p) * s) \<and> (\<not> w < lo \<longrightarrow> s = 1)"
proof (cases "w < lo")
  case True
  then have "0 \<le> (p - lo) / (p - w) \<and> (p - lo) / (p - w) \<le> 1" using assms by (intro quotient_unit) simp_all
  moreover have "(p - lo) / (p - w) = (lo - p) / (w - p)" using minus_divide_divide [of "lo - p" "w - p"] by simp
  ultimately show ?thesis using True assms by (intro exI [of _ "(lo - p) / (w - p)"]) simp
qed (intro exI [of _ 1], simp)

lemma clip_ray_le:
  assumes "origin_x m \<le> ox" and "origin_y m \<le> oy"
    and "ox \<le> origin_x m + real (unat (size_x m)) * resolution m" and "oy \<le> origin_y m + real (unat (size_y m)) * resolution m"
  shows "fst (clip_ray m ox oy wx wy) \<le> origin_x m + real (unat (size_x m)) * resolution m \<and>
    snd (clip_ray m ox oy wx wy) \<le> origin_y m + real (unat (size_y m)) * resolution m"
proof -
  define X1 where "X1 = origin_x m + real (unat (size_x m)) * resolution m"
  define Y1 where "Y1 = origin_y m + real (unat (size_y m)) * resolution m"
  let ?X0 = "origin_x m" and ?Y0 = "origin_y m"
  define a where "a = wx - ox"
  define b where "b = wy - oy"
  define w1 where "w1 = clip_min_x m (ox, oy) (a, b) (wx, wy)"
  define w2 where "w2 = clip_min_y m (ox, oy) (a, b) w1"
  define w3 where "w3 = clip_max_x m (ox, oy) (a, b) w2"
  define w4 where "w4 = clip_max_y m (ox, oy) (a, b) w3"
  have clip: "clip_ray m ox oy wx wy = w4"
    unfolding clip_ray_def w4_def w3_def w2_def w1_def a_def b_def Let_def ..
  note w1 = w1_def [unfolded clip_min_x_def fst_conv snd_conv] and w2 = w2_def [unfolded clip_min_y_def fst_conv snd_conv]
  note w3 = w3_def [unfolded clip_max_x_def Let_def fst_conv snd_conv, folded X1_def]
    and w4 = w4_def [unfolded clip_max_y_def Let_def fst_conv snd_conv, folded Y1_def]
  obtain s1 where s1: "0 \<le> s1" "s1 \<le> 1" "w1 = (ox + a * s1, oy + b * s1)"
  proof -
    obtain s where s: "0 \<le> s" "s \<le> 1" "wx < ?X0 \<longrightarrow> s = (?X0 - ox) / a \<and> ?X0 = ox + a * s" "\<not> wx < ?X0 \<longrightarrow> s = 1"
      using clip_low [OF assms(1), of wx] unfolding a_def by blast
    have "w1 = (ox + a * s, oy + b * s)"
    proof (cases "wx < ?X0")
      case True
      then have "s = (?X0 - ox) / a" "?X0 = ox + a * s" using s(3) by blast+
      note e = this [symmetric]
      show ?thesis unfolding w1 if_P [OF True] e ..
    next
      case False
      then show ?thesis using s(4) by (simp add: w1 a_def b_def)
    qed
    then show ?thesis using that s(1,2) by blast
  qed
  obtain s2 where s2: "0 \<le> s2" "s2 \<le> 1" "w2 = (ox + a * s2, oy + b * s2)"
  proof (cases "snd w1 < ?Y0")
    case True
    have bs: "b * s1 < 0" using True s1(3) assms(2) by simp
    then have b: "b < 0" using s1(1) by (simp add: mult_less_0_iff)
    have "b \<le> b * s1" using b s1(2) by (simp add: mult_le_cancel_left2)
    then have "oy - ?Y0 \<le> - b" using True s1(3) assms(2) by simp
    then have "0 \<le> (oy - ?Y0) / (- b) \<and> (oy - ?Y0) / (- b) \<le> 1" using assms(2) b by (intro quotient_unit) simp_all
    moreover have "(oy - ?Y0) / (- b) = (?Y0 - oy) / b" using minus_divide_divide [of "?Y0 - oy" b] by simp
    ultimately have "0 \<le> (?Y0 - oy) / b" "(?Y0 - oy) / b \<le> 1" by simp_all
    moreover have "w2 = (ox + a * ((?Y0 - oy) / b), oy + b * ((?Y0 - oy) / b))" using True b by (simp add: w2)
    ultimately show ?thesis using that by blast
  next
    case False
    then show ?thesis using that s1 by (simp add: w2)
  qed
  obtain t where t: "0 \<le> t" "t \<le> 1" "snd w3 = oy + b * t" "fst w3 \<le> X1" "ox + a * t \<le> X1"
  proof (cases "fst w2 > X1")
    case True
    have as: "0 < a * s2" using True s2(3) assms(3) by (simp add: X1_def)
    then have a: "0 < a" using s2(1) by (simp add: zero_less_mult_iff)
    have "a * s2 \<le> a" using a s2(2) by (simp add: mult_left_le)
    then have "X1 - ox \<le> a" using True s2(3) by simp
    then have "0 \<le> (X1 - ox) / a \<and> (X1 - ox) / a \<le> 1" using assms(3) a by (intro quotient_unit) (simp_all add: X1_def)
    then show ?thesis using that [of "(X1 - ox) / a"] True a by (simp add: w3)
  next
    case False
    then show ?thesis using that [of s2] s2 by (simp add: w3)
  qed
  have "fst w4 \<le> X1 \<and> snd w4 \<le> Y1"
  proof (cases "snd w3 > Y1")
    case True
    have bt: "0 < b * t" using True t(3) assms(4) by (simp add: Y1_def)
    then have b: "0 < b" using t(1) by (simp add: zero_less_mult_iff)
    let ?u = "(Y1 - oy) / b"
    have u: "0 \<le> ?u" "?u \<le> t" using b assms(4) True t(3) by (simp_all add: Y1_def pos_divide_le_eq mult.commute)
    have "ox + a * ?u \<le> X1"
    proof (cases "0 \<le> a")
      case True
      then have "a * ?u \<le> a * t" using u by (intro mult_left_mono) simp_all
      then show ?thesis using t(5) by simp
    next
      case False
      then have "a * ?u \<le> 0" using u(1) by (intro mult_nonpos_nonneg) simp_all
      then show ?thesis using assms(3) by (simp add: X1_def)
    qed
    then show ?thesis using True by (simp add: w4)
  next
    case False
    then show ?thesis using t(4) by (simp add: w4)
  qed
  then show ?thesis by (simp only: clip X1_def Y1_def)
qed

lemma cells_rewritten_none: "cells_rewritten (\<lambda>_ _. False) f m m"
  by (simp add: cells_rewritten_def)

lemma write_cells:
  assumes "grid_ok m" and "\<forall>c \<in> set cells. in_grid m c"
  shows "\<exists>cs. visit_all (\<lambda>off cs. write_at cs (unat off) v) (map (\<lambda>c. getIndex m (fst c) (snd c)) cells) (costs m) = Some cs \<and>
    cells_rewritten (\<lambda>x y. \<exists>c \<in> set cells. x = unat (fst c) \<and> y = unat (snd c)) (\<lambda>_ _ _. v) m (m\<lparr>costs := cs\<rparr>)"
  using assms
proof (induction cells arbitrary: m)
  case Nil
  then show ?case by (simp add: cells_rewritten_def)
next
  case (Cons c cells)
  obtain cs1 where c1: "write_at (costs m) (unat (getIndex m (fst c) (snd c))) v = Some cs1"
    "cells_rewritten (\<lambda>x y. x = unat (fst c) \<and> y = unat (snd c)) (\<lambda>_ _ _. v) m (m\<lparr>costs := cs1\<rparr>)"
    using write_cell [OF Cons.prems(1), of "fst c" "snd c" v] Cons.prems(2) by (auto simp: in_grid_def)
  have same: "getIndex (m\<lparr>costs := cs1\<rparr>) = getIndex m" by (simp add: getIndex_def fun_eq_iff)
  obtain cs where cs: "visit_all (\<lambda>off cs. write_at cs (unat off) v) (map (\<lambda>c. getIndex m (fst c) (snd c)) cells) cs1 = Some cs"
    "cells_rewritten (\<lambda>x y. \<exists>c \<in> set cells. x = unat (fst c) \<and> y = unat (snd c)) (\<lambda>_ _ _. v) (m\<lparr>costs := cs1\<rparr>) (m\<lparr>costs := cs\<rparr>)"
    using Cons.IH [of "m\<lparr>costs := cs1\<rparr>"] Cons.prems(2) cells_rewritten_ok [OF c1(2) Cons.prems(1)] by (auto simp: same)
  show ?case
    using c1(1) cs(1) cells_rewritten_const [OF c1(2) cs(2)] by simp
qed

text \<open>The cells a point of an observation clears: those of the ray from the sensor to it.\<close>

definition ray_cell :: "costmap \<Rightarrow> observation \<Rightarrow> u32 \<times> u32 \<Rightarrow> point3 \<Rightarrow> nat \<Rightarrow> nat \<Rightarrow> bool" where
  "ray_cell m obs start pt x y \<longleftrightarrow>
     (let (wx, wy) = clip_ray m (fst (obs_origin obs)) (snd (obs_origin obs)) (fst pt) (fst (snd pt))
      in case (worldToMap m wx wy, cellDistance (obs_raytrace_max_range obs) m, cellDistance (obs_raytrace_min_range obs) m) of
           (Some (Some (x1, y1)), Some hi, Some lo) \<Rightarrow>
             (case raytraceLine m (fst start) (snd start) x1 y1 hi lo of
                Some offs \<Rightarrow> \<exists>off \<in> set offs. unat off = y * width m + x | None \<Rightarrow> False)
         | _ \<Rightarrow> False)"

definition swept :: "costmap \<Rightarrow> observation \<Rightarrow> point3 \<Rightarrow> nat \<Rightarrow> nat \<Rightarrow> bool" where
  "swept m obs pt x y \<longleftrightarrow>
     (case worldToMap m (fst (obs_origin obs)) (snd (obs_origin obs)) of
        Some (Some start) \<Rightarrow> ray_cell m obs start pt x y | _ \<Rightarrow> False)"

lemma ray_cell_shape [simp]: "ray_cell (m\<lparr>costs := cs\<rparr>) = ray_cell m" "swept (m\<lparr>costs := cs\<rparr>) = swept m"
proof -
  have e: "size_x (m\<lparr>costs := cs\<rparr>) = size_x m" by simp
  have r: "raytraceLine (m\<lparr>costs := cs\<rparr>) = raytraceLine m"
    by (intro ext) (unfold raytraceLine_def e, rule refl)
  show *: "ray_cell (m\<lparr>costs := cs\<rparr>) = ray_cell m"
    by (intro ext) (unfold ray_cell_def same_shape_simps r e, rule refl)
  show "swept (m\<lparr>costs := cs\<rparr>) = swept m"
    by (intro ext) (unfold swept_def same_shape_simps *, rule refl)
qed

lemma clear_point_spec:
  assumes "grid_ok m" and "int_sized m" and "worldToMap m (fst (obs_origin obs)) (snd (obs_origin obs)) = Some (Some start)"
    and "observation_ok m obs"
  shows "\<exists>m' b'. clear_point obs start pt (m, b) = Some (m', b') \<and> bounds_grow b b' \<and>
    cells_rewritten (ray_cell m obs start pt) (\<lambda>_ _ _. FREE_SPACE) m m'"
proof -
  obtain ox oy where o: "obs_origin obs = (ox, oy)" by (cases "obs_origin obs")
  obtain px py pz where pt: "pt = (px, py, pz)" by (cases pt)
  obtain wx wy where w: "clip_ray m ox oy px py = (wx, wy)" by (cases "clip_ray m ox oy px py")
  have res: "0 < resolution m" using assms(1) by (simp add: grid_ok_def)
  have start: "in_grid m start" using worldToMap_in_grid assms(3) by blast
  have "worldToMap m ox oy = Some (Some (fst start, snd start))" using assms(3) o by simp
  note cell = worldToMap_cell [OF this res]
  have last: "ox \<le> origin_x m + real (unat (size_x m)) * resolution m" "oy \<le> origin_y m + real (unat (size_y m)) * resolution m"
  proof -
    have "real (unat (fst start)) + 1 \<le> real (unat (size_x m))" "real (unat (snd start)) + 1 \<le> real (unat (size_y m))"
      using start by (simp_all add: in_grid_def word_less_nat_alt del: of_nat_unat)
    then have "(real (unat (fst start)) + 1) * resolution m \<le> real (unat (size_x m)) * resolution m"
      "(real (unat (snd start)) + 1) * resolution m \<le> real (unat (size_y m)) * resolution m"
      using res by (intro mult_right_mono; simp)+
    then show "ox \<le> origin_x m + real (unat (size_x m)) * resolution m" "oy \<le> origin_y m + real (unat (size_y m)) * resolution m"
      using cell by linarith+
  qed
  have orig: "origin_x m \<le> ox" "origin_y m \<le> oy"
  proof -
    have "0 \<le> real (unat (fst start)) * resolution m" "0 \<le> real (unat (snd start)) * resolution m"
      using res by (simp_all del: of_nat_unat)
    then show "origin_x m \<le> ox" "origin_y m \<le> oy" using cell by linarith+
  qed
  have le: "wx \<le> origin_x m + real (unat (size_x m)) * resolution m" "wy \<le> origin_y m + real (unat (size_y m)) * resolution m"
    using clip_ray_le [OF orig last, of px py] w by simp_all
  have big: "real (unat (u :: u32)) < 2 ^ 32" for u
    using unsigned_less [where ?'a = nat, of u] by (simp del: of_nat_unat)
  have "near m wx wy"
  proof -
    have "(wx - origin_x m) / resolution m \<le> real (unat (size_x m))" "(wy - origin_y m) / resolution m \<le> real (unat (size_y m))"
      using le res by (simp_all add: pos_divide_le_eq del: of_nat_unat)
    then show ?thesis using big [of "size_x m"] big [of "size_y m"] unfolding near_def by linarith
  qed
  then obtain target where t: "worldToMap m wx wy = Some target" using worldToMap_near res by blast
  obtain hi lo where r: "cellDistance (obs_raytrace_max_range obs) m = Some hi" "cellDistance (obs_raytrace_min_range obs) m = Some lo"
    using assms(4) by (auto simp: observation_ok_def)
  show ?thesis
  proof (cases target)
    case None
    then have "\<not> ray_cell m obs start pt x y" for x y using o pt w t by (simp add: ray_cell_def)
    then have "cells_rewritten (ray_cell m obs start pt) (\<lambda>_ _ _. FREE_SPACE) m m" by (simp add: cells_rewritten_def)
    then show ?thesis using None o pt w t by (intro exI [of _ m] exI [of _ b]) (simp add: clear_point_def)
  next
    case (Some q)
    then have q: "in_grid m q" using worldToMap_in_grid t by blast
    obtain cells where cells: "raytraceLine m (fst start) (snd start) (fst q) (snd q) hi lo = Some (map (\<lambda>c. getIndex m (fst c) (snd c)) cells)"
      "\<forall>c \<in> set cells. in_grid m c"
      using raytraceLine_range [OF assms(2) start q] by blast
    obtain cs where cs: "visit_all (\<lambda>off cs. write_at cs (unat off) FREE_SPACE) (map (\<lambda>c. getIndex m (fst c) (snd c)) cells) (costs m) = Some cs"
      "cells_rewritten (\<lambda>x y. \<exists>c \<in> set cells. x = unat (fst c) \<and> y = unat (snd c)) (\<lambda>_ _ _. FREE_SPACE) m (m\<lparr>costs := cs\<rparr>)"
      using write_cells [OF assms(1) cells(2)] by blast
    have "clear_point obs start pt (m, b) = Some (m\<lparr>costs := cs\<rparr>,
        updateRaytraceBounds ox oy wx wy (obs_raytrace_max_range obs) (obs_raytrace_min_range obs) b)"
      using o pt w t Some r cells(1) cs(1) by (simp add: clear_point_def split_beta)
    moreover have "ray_cell m obs start pt x y \<longleftrightarrow> (\<exists>c \<in> set cells. x = unat (fst c) \<and> y = unat (snd c))"
      if xy: "x < width m" "y < height m" for x y
    proof -
      have "unat (getIndex m (fst c) (snd c)) = y * width m + x \<longleftrightarrow> x = unat (fst c) \<and> y = unat (snd c)" if "c \<in> set cells" for c
      proof -
        have c: "fst c < size_x m" "snd c < size_y m" using cells(2) that by (simp_all add: in_grid_def)
        have "unat (getIndex m (fst c) (snd c)) = unat (snd c) * width m + unat (fst c)"
          by (rule getIndex_unat(1) [OF assms(1) c])
        moreover have "unat (fst c) < width m" using c(1) by (simp only: word_less_nat_alt)
        ultimately show ?thesis using cell_index_inj [of "unat (fst c)" "width m" x "unat (snd c)" y] xy(1) by auto
      qed
      then show ?thesis using o pt w t Some r cells(1) by (simp add: ray_cell_def split_beta)
    qed
    then have "cells_rewritten (ray_cell m obs start pt) (\<lambda>_ _ _. FREE_SPACE) m (m\<lparr>costs := cs\<rparr>)"
      using cs(2) unfolding cells_rewritten_def by simp
    ultimately show ?thesis by fastforce
  qed
qed

lemma clear_points:
  assumes "grid_ok m" and "int_sized m" and "worldToMap m (fst (obs_origin obs)) (snd (obs_origin obs)) = Some (Some start)"
    and "observation_ok m obs"
  shows "\<exists>m' b'. visit_all (clear_point obs start) pts (m, b) = Some (m', b') \<and> bounds_grow b b' \<and>
    cells_rewritten (\<lambda>x y. \<exists>pt \<in> set pts. ray_cell m obs start pt x y) (\<lambda>_ _ _. FREE_SPACE) m m'"
  using assms
proof (induction pts arbitrary: m b)
  case Nil
  then show ?case using cells_rewritten_none by auto
next
  case (Cons pt pts)
  obtain m1 b1 where m1: "clear_point obs start pt (m, b) = Some (m1, b1)" "bounds_grow b b1"
    "cells_rewritten (ray_cell m obs start pt) (\<lambda>_ _ _. FREE_SPACE) m m1"
    using clear_point_spec [OF Cons.prems(1-4), of pt b] by auto
  obtain cs where cs: "m1 = m\<lparr>costs := cs\<rparr>" using m1(3) unfolding cells_rewritten_def by blast
  obtain m2 b2 where m2: "visit_all (clear_point obs start) pts (m1, b1) = Some (m2, b2)" "bounds_grow b1 b2"
    "cells_rewritten (\<lambda>x y. \<exists>pt \<in> set pts. ray_cell m obs start pt x y) (\<lambda>_ _ _. FREE_SPACE) m1 m2"
    using Cons.IH [of m1 b1] Cons.prems cells_rewritten_ok [OF m1(3)] by (auto simp: cs)
  have "cells_rewritten (\<lambda>x y. \<exists>pt \<in> set (pt # pts). ray_cell m obs start pt x y) (\<lambda>_ _ _. FREE_SPACE) m m2"
    using cells_rewritten_const [OF m1(3) m2(3)] by simp
  then show ?case using m1(1,2) m2(1,2) bounds_grow_trans by (auto intro: exI [of _ m2])
qed

lemma raytraceFreespace_spec:
  assumes "grid_ok m" and "int_sized m" and "observation_ok m obs"
  shows "\<exists>m' b'. raytraceFreespace obs (m, b) = Some (m', b') \<and> bounds_grow b b' \<and>
    cells_rewritten (\<lambda>x y. \<exists>pt \<in> set (obs_cloud obs). swept m obs pt x y) (\<lambda>_ _ _. FREE_SPACE) m m'"
proof -
  obtain ox oy where o: "obs_origin obs = (ox, oy)" by (cases "obs_origin obs")
  obtain origin where origin: "worldToMap m ox oy = Some origin"
    using worldToMap_near [of m ox oy] assms(1,3) o by (auto simp: observation_ok_def grid_ok_def)
  show ?thesis
  proof (cases origin)
    case None
    then have "swept m obs pt x y = False" for pt x y using origin o by (simp add: swept_def)
    then show ?thesis using None origin o cells_rewritten_none by (auto simp: raytraceFreespace_def)
  next
    case (Some start)
    then have "swept m obs = ray_cell m obs start" using origin o by (simp add: swept_def fun_eq_iff)
    moreover obtain m' b' where "visit_all (clear_point obs start) (obs_cloud obs) (m, touch ox oy b) = Some (m', b')"
      "bounds_grow (touch ox oy b) b'"
      "cells_rewritten (\<lambda>x y. \<exists>pt \<in> set (obs_cloud obs). ray_cell m obs start pt x y) (\<lambda>_ _ _. FREE_SPACE) m m'"
      using clear_points [OF assms(1,2) _ assms(3), of start "obs_cloud obs" "touch ox oy b"] origin Some o by auto
    ultimately show ?thesis using origin o Some bounds_grow_trans [OF touch_bounds(1)]
      by (intro exI [of _ m'] exI [of _ b']) (simp add: raytraceFreespace_def)
  qed
qed

section \<open>What an update of the bounds does\<close>

definition observations_ok :: "costmap \<Rightarrow> observation_buffer list \<Rightarrow> bool" where
  "observations_ok m bs \<longleftrightarrow> (\<forall>b \<in> set bs. \<forall>obs \<in> set (observation_list b). observation_ok m obs)"

definition ob_ok :: "obstacle_layer \<Rightarrow> bool" where
  "ob_ok l \<longleftrightarrow> grid_ok (ob_map l) \<and> int_sized (ob_map l) \<and>
     (\<forall>i \<in> set (marking_buffers l) \<union> set (clearing_buffers l). i < length (observation_buffers l)) \<and>
     observations_ok (ob_map l) (observation_buffers l) \<and>
     (\<forall>obs \<in> set (static_marking_observations l) \<union> set (static_clearing_observations l). observation_ok (ob_map l) obs)"

lemma purged_subset: "set (observation_list (purgeStaleObservations now b)) \<subseteq> set (observation_list b)"
  by (auto simp: purgeStaleObservations_def dest: set_takeWhileD)

lemma collect_observations_ok:
  assumes "\<forall>i \<in> set is. i < length bs" and "observations_ok m bs"
  shows "\<exists>obs current bs'. collect_observations now is bs = Some (obs, current, bs') \<and> length bs' = length bs \<and>
    observations_ok m bs' \<and> (\<forall>ob \<in> set obs. observation_ok m ob)"
  using assms
proof (induction "is" arbitrary: bs)
  case (Cons i "is")
  let ?b = "purgeStaleObservations now (bs ! i)"
  have i: "i < length bs" using Cons.prems(1) by simp
  have b: "\<forall>ob \<in> set (observation_list ?b). observation_ok m ob"
    using Cons.prems(2) i purged_subset [of now "bs ! i"] unfolding observations_ok_def by (meson nth_mem subsetD)
  have "observations_ok m (bs[i := ?b])"
    using Cons.prems(2) b set_update_subset_insert [of bs i ?b] by (auto simp: observations_ok_def)
  then obtain obs current bs' where "collect_observations now is (bs[i := ?b]) = Some (obs, current, bs')"
    "length bs' = length bs" "observations_ok m bs'" "\<forall>ob \<in> set obs. observation_ok m ob"
    using Cons.IH [of "bs[i := ?b]"] Cons.prems(1) by auto
  then show ?case using i b by (auto simp: mem_at_Some getObservations_def Let_def)
qed (auto intro: exI [of _ True])

lemma freespace_pass:
  assumes "grid_ok m" and "int_sized m" and "\<forall>ob \<in> set obs. observation_ok m ob"
  shows "\<exists>m' b'. visit_all raytraceFreespace obs (m, b) = Some (m', b') \<and> bounds_grow b b' \<and>
    cells_rewritten (\<lambda>x y. \<exists>ob \<in> set obs. \<exists>pt \<in> set (obs_cloud ob). swept m ob pt x y) (\<lambda>_ _ _. FREE_SPACE) m m'"
  using assms
proof (induction obs arbitrary: m b)
  case Nil
  then show ?case using cells_rewritten_none by auto
next
  case (Cons ob obs)
  let ?s = "\<lambda>ob x y. \<exists>pt \<in> set (obs_cloud ob). swept m ob pt x y"
  obtain m1 b1 where m1: "raytraceFreespace ob (m, b) = Some (m1, b1)" "bounds_grow b b1"
    "cells_rewritten (?s ob) (\<lambda>_ _ _. FREE_SPACE) m m1"
    using raytraceFreespace_spec [of m ob b] Cons.prems by auto
  obtain cs where cs: "m1 = m\<lparr>costs := cs\<rparr>" using m1(3) unfolding cells_rewritten_def by blast
  obtain m2 b2 where m2: "visit_all raytraceFreespace obs (m1, b1) = Some (m2, b2)" "bounds_grow b1 b2"
    "cells_rewritten (\<lambda>x y. \<exists>ob \<in> set obs. ?s ob x y) (\<lambda>_ _ _. FREE_SPACE) m1 m2"
    using Cons.IH [of m1 b1] Cons.prems cells_rewritten_ok [OF m1(3)] by (auto simp: cs)
  have "cells_rewritten (\<lambda>x y. \<exists>ob \<in> set (ob # obs). ?s ob x y) (\<lambda>_ _ _. FREE_SPACE) m m2"
    using cells_rewritten_const [OF m1(3) m2(3)] by simp
  then show ?case using m1(1,2) m2(1,2) bounds_grow_trans by (auto intro: exI [of _ m2])
qed

lemma marking_pass:
  assumes "grid_ok m" and "int_sized m" and "\<forall>ob \<in> set obs. observation_ok m ob"
  shows "\<exists>m' b'. visit_all (mark_observation l) obs (m, b) = Some (m', b') \<and> bounds_grow b b' \<and>
    cells_rewritten (\<lambda>x y. \<exists>ob \<in> set obs. \<exists>pt \<in> set (obs_cloud ob). hit l m ob pt x y) (\<lambda>_ _ _. LETHAL_OBSTACLE) m m' \<and>
    (\<forall>ob \<in> set obs. \<forall>pt \<in> set (obs_cloud ob). \<forall>x y. hit l m ob pt x y \<longrightarrow> in_bounds (fst pt, fst (snd pt)) b')"
  using assms
proof (induction obs arbitrary: m b)
  case Nil
  then show ?case using cells_rewritten_none by auto
next
  case (Cons ob obs)
  let ?h = "\<lambda>ob x y. \<exists>pt \<in> set (obs_cloud ob). hit l m ob pt x y"
  obtain m1 b1 where m1: "mark_observation l ob (m, b) = Some (m1, b1)" "bounds_grow b b1"
    "cells_rewritten (?h ob) (\<lambda>_ _ _. LETHAL_OBSTACLE) m m1"
    "\<forall>pt \<in> set (obs_cloud ob). \<forall>x y. hit l m ob pt x y \<longrightarrow> in_bounds (fst pt, fst (snd pt)) b1"
    using mark_observation_spec [of m ob l b] Cons.prems by auto
  obtain cs where cs: "m1 = m\<lparr>costs := cs\<rparr>" using m1(3) unfolding cells_rewritten_def by blast
  obtain m2 b2 where m2: "visit_all (mark_observation l) obs (m1, b1) = Some (m2, b2)" "bounds_grow b1 b2"
    "cells_rewritten (\<lambda>x y. \<exists>ob \<in> set obs. ?h ob x y) (\<lambda>_ _ _. LETHAL_OBSTACLE) m1 m2"
    "\<forall>ob \<in> set obs. \<forall>pt \<in> set (obs_cloud ob). \<forall>x y. hit l m ob pt x y \<longrightarrow> in_bounds (fst pt, fst (snd pt)) b2"
    using Cons.IH [of m1 b1] Cons.prems cells_rewritten_ok [OF m1(3)] by (auto simp: cs)
  have "cells_rewritten (\<lambda>x y. \<exists>ob \<in> set (ob # obs). ?h ob x y) (\<lambda>_ _ _. LETHAL_OBSTACLE) m m2"
    using cells_rewritten_const [OF m1(3) m2(3)] by simp
  moreover have "\<forall>pt \<in> set (obs_cloud ob). \<forall>x y. hit l m ob pt x y \<longrightarrow> in_bounds (fst pt, fst (snd pt)) b2"
    using m1(4) m2(2) in_bounds_grow by blast
  ultimately show ?case using m1(1,2) m2(1,2,4) bounds_grow_trans by (auto intro: exI [of _ m2])
qed

lemma fold_touch_grow: "bounds_grow b (fold (\<lambda>(x, y). touch x y) ps b)"
proof (induction ps arbitrary: b)
  case (Cons p ps)
  obtain x y where "p = (x, y)" by (cases p)
  then show ?case using bounds_grow_trans [OF touch_bounds(1) Cons.IH [of "touch x y b"]] by simp
qed simp

lemma hit_layer:
  assumes "min_obstacle_height l' = min_obstacle_height l" and "max_obstacle_height l' = max_obstacle_height l"
  shows "hit l' = hit l"
proof -
  have "obstacle_cell l' = obstacle_cell l" using assms by (simp add: obstacle_cell_def fun_eq_iff)
  then show ?thesis by (intro ext) (unfold hit_def, simp only:)
qed

lemma ob_updateBounds_spec:
  assumes ok: "ob_ok l" and "\<not> ob_rolling_window l" and "layer_enabled (ob_layer l)"
  shows "\<exists>l' b' obs current l1 clearing current2 l2. ob_updateBounds nb now par rx ry ryaw b l = Some (l', b') \<and>
    getMarkingObservations now l = Some (obs, current, l1) \<and> getClearingObservations now l1 = Some (clearing, current2, l2) \<and>
    ob_ok l' \<and> bounds_grow b b' \<and>
    ob_map l' = (ob_map l)\<lparr>costs := costs (ob_map l')\<rparr> \<and> layer_enabled (ob_layer l') \<and> \<not> ob_rolling_window l' \<and>
    layer_current (ob_layer l') = (current \<and> current2) \<and> was_reset l' = was_reset l \<and>
    footprint_clearing_enabled l' = footprint_clearing_enabled l \<and> combination_method l' = combination_method l \<and>
    (\<forall>x < width (ob_map l). \<forall>y < height (ob_map l). cost_at (ob_map l') x y =
      (if \<exists>ob \<in> set obs. \<exists>pt \<in> set (obs_cloud ob). hit l (ob_map l) ob pt x y then LETHAL_OBSTACLE
       else if current \<and> (\<exists>ob \<in> set clearing. \<exists>pt \<in> set (obs_cloud ob). swept (ob_map l) ob pt x y) then FREE_SPACE
       else cost_at (ob_map l) x y)) \<and>
    (\<forall>ob \<in> set obs. \<forall>pt \<in> set (obs_cloud ob). \<forall>x y. hit l (ob_map l) ob pt x y \<longrightarrow> in_bounds (fst pt, fst (snd pt)) b')"
proof -
  note ok' = ok [unfolded ob_ok_def]
  let ?m = "ob_map l" and ?L = "\<lambda>_ _ _. LETHAL_OBSTACLE" and ?F = "\<lambda>_ _ _. FREE_SPACE"
  obtain b0 base where b0: "useExtraBounds b (ob_layer l) = (b0, base)" by (cases "useExtraBounds b (ob_layer l)")
  note base = useExtraBounds_grow [OF b0]
  let ?l0 = "l\<lparr>ob_layer := base\<rparr>"
  obtain obs current bs1 where c1: "collect_observations now (marking_buffers l) (observation_buffers l) = Some (obs, current, bs1)"
    "length bs1 = length (observation_buffers l)" "observations_ok ?m bs1" "\<forall>ob \<in> set obs. observation_ok ?m ob"
    using collect_observations_ok [of "marking_buffers l" "observation_buffers l" ?m now] ok' by auto
  let ?obs = "obs @ static_marking_observations l"
  let ?l1 = "?l0\<lparr>observation_buffers := bs1\<rparr>"
  have obs_ok: "\<forall>ob \<in> set ?obs. observation_ok ?m ob" using c1(4) ok' by auto
  obtain all_clearing currentc bsc where cc: "collect_observations now (clearing_buffers l) bs1 = Some (all_clearing, currentc, bsc)"
    "length bsc = length bs1" "observations_ok ?m bsc" "\<forall>ob \<in> set all_clearing. observation_ok ?m ob"
    using collect_observations_ok [of "clearing_buffers l" bs1 ?m now] ok' c1(2,3) by auto
  let ?allc = "all_clearing @ static_clearing_observations l"
  obtain clearing current2 bs2 where c2: "(if current then getClearingObservations now ?l1 else Some ([], False, ?l1)) =
      Some (clearing, current2, ?l0\<lparr>observation_buffers := bs2\<rparr>)" "length bs2 = length (observation_buffers l)"
    "observations_ok ?m bs2" "\<forall>ob \<in> set clearing. observation_ok ?m ob" "clearing = (if current then ?allc else [])"
    "current2 = (current \<and> currentc)"
  proof (cases current)
    case True
    then show ?thesis using that [of ?allc currentc bsc] cc c1(2) ok' by (auto simp: getClearingObservations_def)
  next
    case False
    then show ?thesis using that [of "[]" False bs1] c1(2,3) by simp
  qed
  let ?l2 = "?l0\<lparr>observation_buffers := bs2\<rparr>"
  let ?l3 = "?l2\<lparr>ob_layer := base\<lparr>layer_current := current2\<rparr>\<rparr>"
  let ?P = "\<lambda>x y. \<exists>ob \<in> set ?allc. \<exists>pt \<in> set (obs_cloud ob). swept ?m ob pt x y"
  obtain m1 b1 where m1: "visit_all raytraceFreespace clearing (?m, b0) = Some (m1, b1)" "bounds_grow b0 b1"
    "cells_rewritten (\<lambda>x y. \<exists>ob \<in> set clearing. \<exists>pt \<in> set (obs_cloud ob). swept ?m ob pt x y) ?F ?m m1"
    using freespace_pass [of ?m clearing b0] c2(4) ok' by blast
  obtain cs where cs: "m1 = ?m\<lparr>costs := cs\<rparr>" using m1(3) unfolding cells_rewritten_def by blast
  have hit: "hit ?l3 m1 = hit l ?m" using hit_layer [of ?l3 l] cs by simp
  obtain m2 b2 where m2: "visit_all (mark_observation ?l3) ?obs (m1, b1) = Some (m2, b2)" "bounds_grow b1 b2"
    "cells_rewritten (\<lambda>x y. \<exists>ob \<in> set ?obs. \<exists>pt \<in> set (obs_cloud ob). hit l ?m ob pt x y) ?L m1 m2"
    "\<forall>ob \<in> set ?obs. \<forall>pt \<in> set (obs_cloud ob). \<forall>x y. hit l ?m ob pt x y \<longrightarrow> in_bounds (fst pt, fst (snd pt)) b2"
    using marking_pass [of m1 ?obs ?l3 b1, unfolded hit] obs_ok ok' cells_rewritten_ok [OF m1(3)] cs by auto
  obtain l' b' where foot: "ob_updateFootprint par rx ry ryaw b2 (set_ob_map m2 ?l3) = (l', b')"
    by (cases "ob_updateFootprint par rx ry ryaw b2 (set_ob_map m2 ?l3)")
  then have l': "ob_map l' = m2" "ob_layer l' = base\<lparr>layer_current := current2, layer_map := m2\<rparr>"
    "ob_rolling_window l' = ob_rolling_window l" "observation_buffers l' = bs2" "marking_buffers l' = marking_buffers l"
    "clearing_buffers l' = clearing_buffers l" "static_marking_observations l' = static_marking_observations l"
    "static_clearing_observations l' = static_clearing_observations l" "bounds_grow b2 b'" "was_reset l' = was_reset l"
    "footprint_clearing_enabled l' = footprint_clearing_enabled l" "combination_method l' = combination_method l"
    using fold_touch_grow [of b2] by (auto simp: ob_updateFootprint_def set_ob_map_def Let_def split: if_splits)
  have run: "ob_updateBounds nb now par rx ry ryaw b l = Some (l', b')"
    using assms(2,3) b0 c1(1) c2(1) m1(1) m2(1) foot base
    by (simp add: ob_updateBounds_def getMarkingObservations_def Let_def)
  have shape: "m2 = ?m\<lparr>costs := costs m2\<rparr>"
  proof -
    have "m2 = m1\<lparr>costs := costs m2\<rparr>" using m2(3) by (simp only: cells_rewritten_def)
    moreover have "m1\<lparr>costs := c\<rparr> = ?m\<lparr>costs := c\<rparr>" for c by (simp add: cs)
    ultimately show ?thesis by (simp only:)
  qed
  have cells: "cost_at m2 x y = (if \<exists>ob \<in> set ?obs. \<exists>pt \<in> set (obs_cloud ob). hit l ?m ob pt x y then LETHAL_OBSTACLE
      else if current \<and> ?P x y then FREE_SPACE else cost_at ?m x y)"
    if "x < width ?m" "y < height ?m" for x y
  proof -
    have "cost_at m1 x y = (if current \<and> ?P x y then FREE_SPACE else cost_at ?m x y)"
      using m1(3) that by (cases current) (simp_all add: cells_rewritten_def c2(5))
    moreover have "width m1 = width ?m" "height m1 = height ?m" by (simp_all add: cs)
    ultimately show ?thesis using m2(3) that by (simp add: cells_rewritten_def)
  qed
  have "grid_ok m2" using cells_rewritten_ok [OF m2(3)] cells_rewritten_ok [OF m1(3)] ok' by blast
  then have ok2: "ob_ok l'"
    using ok' c2(2,3) l' shape observation_ok_shape [of "costs m2" ?m] same_shape_simps(6) [of "costs m2" ?m]
    unfolding ob_ok_def observations_ok_def by (simp only: Un_iff) metis
  have grow: "bounds_grow b b'" using base m1(2) m2(2) l'(9) bounds_grow_trans by blast
  have mark: "getMarkingObservations now l = Some (?obs, current, l\<lparr>observation_buffers := bs1\<rparr>)"
    using c1(1) by (simp add: getMarkingObservations_def)
  have clr: "getClearingObservations now (l\<lparr>observation_buffers := bs1\<rparr>) = Some (?allc, currentc, l\<lparr>observation_buffers := bsc\<rparr>)"
    using cc(1) by (simp add: getClearingObservations_def)
  have inb: "\<forall>ob \<in> set ?obs. \<forall>pt \<in> set (obs_cloud ob). \<forall>x y. hit l ?m ob pt x y \<longrightarrow> in_bounds (fst pt, fst (snd pt)) b'"
    using m2(4) in_bounds_grow [OF _ l'(9)] by blast
  show ?thesis
  proof (intro exI conjI)
    show "ob_updateBounds nb now par rx ry ryaw b l = Some (l', b')" by (fact run)
    show "getMarkingObservations now l = Some (?obs, current, l\<lparr>observation_buffers := bs1\<rparr>)" by (fact mark)
    show "getClearingObservations now (l\<lparr>observation_buffers := bs1\<rparr>) = Some (?allc, currentc, l\<lparr>observation_buffers := bsc\<rparr>)" by (fact clr)
    show "ob_map l' = ?m\<lparr>costs := costs (ob_map l')\<rparr>" using shape l'(1) by simp
    show "\<forall>x < width ?m. \<forall>y < height ?m. cost_at (ob_map l') x y =
        (if \<exists>ob \<in> set ?obs. \<exists>pt \<in> set (obs_cloud ob). hit l ?m ob pt x y then LETHAL_OBSTACLE
         else if current \<and> ?P x y then FREE_SPACE else cost_at ?m x y)" using cells l'(1) by simp
    show "\<forall>ob \<in> set ?obs. \<forall>pt \<in> set (obs_cloud ob). \<forall>x y. hit l ?m ob pt x y \<longrightarrow> in_bounds (fst pt, fst (snd pt)) b'" by (fact inb)
    show "layer_current (ob_layer l') = (current \<and> currentc)" using l'(2) c2(6) by simp
  qed (use ok2 grow l'(2,3,10-12) base assms(2,3) in simp_all)
qed

section \<open>What writing the costs does\<close>

lemma map_polygon_total:
  assumes "\<forall>p \<in> set ps. near m (fst p) (snd p)" and "0 < resolution m"
  shows "\<exists>r. map_polygon m ps = Some r \<and>
    (\<forall>vs. r = Some vs \<longrightarrow> list_all2 (\<lambda>p l. worldToMap m (fst p) (snd p) = Some (Some l)) ps vs)"
  using assms
proof (induction ps)
  case (Cons p ps)
  obtain c where c: "worldToMap m (fst p) (snd p) = Some c" using worldToMap_near Cons.prems by fastforce
  obtain r where r: "map_polygon m ps = Some r"
    "\<forall>vs. r = Some vs \<longrightarrow> list_all2 (\<lambda>p l. worldToMap m (fst p) (snd p) = Some (Some l)) ps vs"
    using Cons by auto
  show ?case using c r by (cases c; cases r) auto
qed simp

text \<open>The cells of a polygon inside the map, those between cells of its outline; a polygon with a vertex outside has none.\<close>

definition polygon_cell :: "costmap \<Rightarrow> point list \<Rightarrow> nat \<Rightarrow> nat \<Rightarrow> bool" where
  "polygon_cell m ps x y \<longleftrightarrow> 3 \<le> length ps \<and>
     (\<exists>vs. list_all2 (\<lambda>p l. worldToMap m (fst p) (snd p) = Some (Some l)) ps vs \<and>
       (x, y) \<in> (\<lambda>c. (unat (fst c), unat (snd c))) ` between_cells (set (outline vs)))"

lemma polygon_cell_geometry: "same_geometry m m' \<Longrightarrow> polygon_cell m' = polygon_cell m"
proof -
  assume "same_geometry m m'"
  then have "worldToMap m' = worldToMap m" by (simp add: worldToMap_def same_geometry_def fun_eq_iff)
  then show ?thesis by (intro ext) (simp add: polygon_cell_def)
qed

lemma polygon_total:
  assumes "grid_ok m" and "int_sized m" and "\<forall>p \<in> set ps. near m (fst p) (snd p)"
  shows "\<exists>r m'. setConvexPolygonCost ps v m = Some (r, m') \<and> cells_rewritten (polygon_cell m ps) (\<lambda>_ _ _. v) m m'"
proof -
  have res: "0 < resolution m" using assms(1) by (simp add: grid_ok_def)
  obtain r where r: "map_polygon m ps = Some r"
    "\<forall>vs. r = Some vs \<longrightarrow> list_all2 (\<lambda>p l. worldToMap m (fst p) (snd p) = Some (Some l)) ps vs"
    using map_polygon_total [OF assms(3) res] by blast
  show ?thesis
  proof (cases r)
    case None
    then have "polygon_cell m ps x y = False" for x y using r(1) map_polygon_cells by (fastforce simp: polygon_cell_def)
    then have "polygon_cell m ps = (\<lambda>_ _. False)" by (intro ext)
    then show ?thesis using None r(1) cells_rewritten_none
      by (intro exI [of _ False] exI [of _ m]) (simp add: setConvexPolygonCost_def)
  next
    case (Some vs)
    then have vs: "list_all2 (\<lambda>p l. worldToMap m (fst p) (snd p) = Some (Some l)) ps vs" using r(2) by blast
    show ?thesis
    proof (cases "length vs < 3")
      case True
      then have "polygon_cell m ps = (\<lambda>_ _. False)" using list_all2_lengthD [OF vs] by (intro ext) (simp add: polygon_cell_def)
      then show ?thesis using True r(1) Some cells_rewritten_none
        by (intro exI [of _ True] exI [of _ m]) (simp add: setConvexPolygonCost_def convexFillCells_def)
    next
      case False
      then obtain cs where cs: "convexFillCells m vs [] = Some cs" "set cs = between_cells (set (outline vs))" "\<forall>c \<in> set cs. in_grid m c"
        using fill_in_grid [OF assms(1,2) vs] by auto
      obtain m' where m': "set_cells cs v m = Some m'" "grid_ok m'" "m' = m\<lparr>costs := costs m'\<rparr>"
        "\<forall>x < width m. \<forall>y < height m. cost_at m' x y =
          (if (x, y) \<in> (\<lambda>c. (unat (fst c), unat (snd c))) ` set cs then v else cost_at m x y)"
        using set_cells_spec [OF assms(1) cs(3), of v] by blast
      have "polygon_cell m ps x y \<longleftrightarrow> (x, y) \<in> (\<lambda>c. (unat (fst c), unat (snd c))) ` set cs" for x y
      proof
        assume "polygon_cell m ps x y"
        then obtain ws where ws: "list_all2 (\<lambda>p l. worldToMap m (fst p) (snd p) = Some (Some l)) ps ws"
          "(x, y) \<in> (\<lambda>c. (unat (fst c), unat (snd c))) ` between_cells (set (outline ws))" unfolding polygon_cell_def by blast
        then have "ws = vs" using map_polygon_cells [OF ws(1)] map_polygon_cells [OF vs] by simp
        then show "(x, y) \<in> (\<lambda>c. (unat (fst c), unat (snd c))) ` set cs" using ws(2) cs(2) by simp
      qed (use False list_all2_lengthD [OF vs] vs cs(2) in \<open>auto simp: polygon_cell_def\<close>)
      then have P: "polygon_cell m ps = (\<lambda>x y. (x, y) \<in> (\<lambda>c. (unat (fst c), unat (snd c))) ` set cs)" by (intro ext) simp
      have "length (costs m') = length (costs m)"
        using m'(2) same_but_costs [OF m'(3)] assms(1) by (simp add: grid_ok_def)
      then have "cells_rewritten (\<lambda>x y. (x, y) \<in> (\<lambda>c. (unat (fst c), unat (snd c))) ` set cs) (\<lambda>_ _ _. v) m m'"
        using m'(3,4) unfolding cells_rewritten_def by blast
      then show ?thesis using r(1) Some cs(1) m'(1) unfolding P by (auto simp: setConvexPolygonCost_def)
    qed
  qed
qed

text \<open>
  A layer whose grid lies on the master grid, and a footprint that can be converted to cells; and a
  pose of the robot whose footprint can.
\<close>

definition ob_fits :: "obstacle_layer \<Rightarrow> costmap \<Rightarrow> bool" where
  "ob_fits l m \<longleftrightarrow> ob_ok l \<and> same_geometry (ob_map l) m \<and> int_sized m \<and> \<not> ob_rolling_window l \<and>
     (\<forall>p \<in> set (transformed_footprint l). near m (fst p) (snd p))"

definition footprint_near :: "parent \<Rightarrow> real \<Rightarrow> real \<Rightarrow> real \<Rightarrow> costmap \<Rightarrow> bool" where
  "footprint_near par rx ry ryaw m \<longleftrightarrow>
     (\<forall>p \<in> set (transformFootprint rx ry ryaw (par_footprint par)). near m (fst p) (snd p))"

lemma near_geometry: "same_geometry m m' \<Longrightarrow> near m' = near m"
  by (simp add: same_geometry_def near_def fun_eq_iff)

lemma ob_fits_geometry:
  assumes "ob_fits l m" and "same_geometry m m'"
  shows "ob_fits l m'"
proof -
  have "int_sized m' = int_sized m" using assms(2) by (simp add: same_geometry_def int_sized_def)
  then show ?thesis
    using assms(1) near_geometry [OF assms(2)] same_geometry_trans [OF _ assms(2), of "ob_map l"]
    by (simp add: ob_fits_def)
qed

lemma ob_fits_covers: "ob_fits l m \<Longrightarrow> covers (ob_layer l) m"
  by (simp add: ob_fits_def ob_ok_def covers_def same_geometry_def)

lemma ob_ok_costs:
  assumes "ob_ok l" and "ob_map l' = (ob_map l)\<lparr>costs := cs\<rparr>" and "grid_ok (ob_map l')"
    and "observation_buffers l' = observation_buffers l" "marking_buffers l' = marking_buffers l"
    "clearing_buffers l' = clearing_buffers l" "static_marking_observations l' = static_marking_observations l"
    "static_clearing_observations l' = static_clearing_observations l"
  shows "ob_ok l'"
proof -
  have "observation_ok (ob_map l') = observation_ok (ob_map l)" "int_sized (ob_map l') = int_sized (ob_map l)"
    by (simp_all add: assms(2))
  then show ?thesis using assms(1,3-) by (auto simp: ob_ok_def observations_ok_def)
qed

lemma ob_updateBounds_footprint:
  assumes "ob_updateBounds nb now par rx ry ryaw b l = Some (l', b')"
  shows "transformed_footprint l' = transformed_footprint l \<or>
    transformed_footprint l' = transformFootprint rx ry ryaw (par_footprint par)"
  using assms
  by (auto simp: ob_updateBounds_def ob_updateFootprint_def set_ob_map_def getMarkingObservations_def
      getClearingObservations_def Let_def split_beta split: if_splits bind_splits)

lemma ob_updateBounds_clearing:
  assumes "ob_updateBounds nb now par rx ry ryaw b l = Some (l', b')" and "layer_enabled (ob_layer l)"
    and "footprint_clearing_enabled l"
  shows "transformed_footprint l' = transformFootprint rx ry ryaw (par_footprint par)"
  using assms
  by (auto simp: ob_updateBounds_def ob_updateFootprint_def set_ob_map_def getMarkingObservations_def
      getClearingObservations_def Let_def split_beta split: if_splits bind_splits)

lemma ob_updateBounds_fits:
  assumes fits: "ob_fits l m" and pose: "footprint_near par rx ry ryaw m"
  shows "\<exists>l' b'. ob_updateBounds nb now par rx ry ryaw b l = Some (l', b') \<and> ob_fits l' m"
proof (cases "layer_enabled (ob_layer l)")
  case False
  then show ?thesis using fits by (intro exI [of _ l] exI [of _ b]) (simp add: ob_updateBounds_def ob_fits_def)
next
  case True
  note f = fits [unfolded ob_fits_def]
  obtain l' b' where l': "ob_updateBounds nb now par rx ry ryaw b l = Some (l', b')" "ob_ok l'"
    "ob_map l' = (ob_map l)\<lparr>costs := costs (ob_map l')\<rparr>" "\<not> ob_rolling_window l'"
    using ob_updateBounds_spec [of l nb now par rx ry ryaw b] f True by blast
  have "same_geometry (ob_map l') (ob_map l)" using same_but_costs [OF l'(3)] by (simp add: same_geometry_def)
  moreover have "\<forall>p \<in> set (transformed_footprint l'). near m (fst p) (snd p)"
    using ob_updateBounds_footprint [OF l'(1)] f pose by (auto simp: footprint_near_def)
  ultimately show ?thesis using l' f same_geometry_trans unfolding ob_fits_def by blast
qed

definition combine :: "int \<Rightarrow> u8 \<Rightarrow> u8 \<Rightarrow> u8" where
  "combine method = (if method = 0 then overwrite_cost else if method = 1 then max_cost else (\<lambda>cost old. old))"

lemma ob_updateCosts_spec:
  assumes fits: "ob_fits l m" and ok: "grid_ok m" and win: "window_ok a b c d m"
  shows "\<exists>l' m'. ob_updateCosts par a b c d (l, m) = Some (None, l', m') \<and> ob_fits l' m' \<and>
    (if layer_enabled (ob_layer l) \<and> footprint_clearing_enabled l
     then cells_rewritten (polygon_cell (ob_map l) (transformed_footprint l)) (\<lambda>_ _ _. FREE_SPACE) (ob_map l) (ob_map l') else ob_map l' = ob_map l) \<and>
    layer_enabled (ob_layer l') = layer_enabled (ob_layer l) \<and>
    window_rewritten a b c d (layer_merge (combine (combination_method l)) (ob_layer l')) m m'"
proof (cases "layer_enabled (ob_layer l)")
  case False
  then show ?thesis using fits by (auto simp: ob_updateCosts_def intro: merge_off)
next
  case True
  have f: "ob_ok l" "grid_ok (ob_map l)" "int_sized (ob_map l)" "same_geometry (ob_map l) m" "int_sized m" "\<not> ob_rolling_window l"
    "\<forall>p \<in> set (transformed_footprint l). near (ob_map l) (fst p) (snd p)"
    using fits near_geometry [of "ob_map l" m] by (auto simp: ob_fits_def ob_ok_def)
  let ?l1 = "if \<not> layer_current (ob_layer l) \<and> was_reset l
    then l\<lparr>was_reset := False, ob_layer := (ob_layer l)\<lparr>layer_current := True\<rparr>\<rparr> else l"
  have l1: "ob_map ?l1 = ob_map l" "layer_enabled (ob_layer ?l1)" "footprint_clearing_enabled ?l1 = footprint_clearing_enabled l"
    "transformed_footprint ?l1 = transformed_footprint l" "combination_method ?l1 = combination_method l"
    "ob_rolling_window ?l1 = ob_rolling_window l" "observation_buffers ?l1 = observation_buffers l"
    "marking_buffers ?l1 = marking_buffers l" "clearing_buffers ?l1 = clearing_buffers l"
    "static_marking_observations ?l1 = static_marking_observations l"
    "static_clearing_observations ?l1 = static_clearing_observations l"
    using True by simp_all
  let ?P = "polygon_cell (ob_map l) (transformed_footprint l)"
  obtain l2 where l2: "(if footprint_clearing_enabled ?l1 then do {
        (_, m) \<leftarrow> setConvexPolygonCost (transformed_footprint ?l1) FREE_SPACE (ob_map ?l1);
        Some (set_ob_map m ?l1)
      } else Some ?l1) = Some l2"
    "if footprint_clearing_enabled l then cells_rewritten ?P (\<lambda>_ _ _. FREE_SPACE) (ob_map l) (ob_map l2) else ob_map l2 = ob_map l"
    "ob_layer l2 = (ob_layer ?l1)\<lparr>layer_map := ob_map l2\<rparr>" "transformed_footprint l2 = transformed_footprint l"
    "combination_method l2 = combination_method l" "ob_rolling_window l2 = ob_rolling_window l"
    "observation_buffers l2 = observation_buffers l" "marking_buffers l2 = marking_buffers l"
    "clearing_buffers l2 = clearing_buffers l" "static_marking_observations l2 = static_marking_observations l"
    "static_clearing_observations l2 = static_clearing_observations l"
  proof (cases "footprint_clearing_enabled l")
    case True
    obtain r m1 where m1: "setConvexPolygonCost (transformed_footprint l) FREE_SPACE (ob_map l) = Some (r, m1)"
      "cells_rewritten ?P (\<lambda>_ _ _. FREE_SPACE) (ob_map l) m1"
      using polygon_total [of "ob_map l" "transformed_footprint l" FREE_SPACE] f by blast
    then show ?thesis using that [of "set_ob_map m1 ?l1"] True l1 by (simp add: set_ob_map_def)
  next
    case False
    then show ?thesis using that [of ?l1] l1 by simp
  qed
  have m2: "grid_ok (ob_map l2)" "\<exists>cs. ob_map l2 = (ob_map l)\<lparr>costs := cs\<rparr>"
  proof -
    show "grid_ok (ob_map l2)" using l2(2) f cells_rewritten_ok by (auto split: if_splits)
    show "\<exists>cs. ob_map l2 = (ob_map l)\<lparr>costs := cs\<rparr>"
    proof (cases "footprint_clearing_enabled l")
      case True
      then have "ob_map l2 = (ob_map l)\<lparr>costs := costs (ob_map l2)\<rparr>" using l2(2) by (simp add: cells_rewritten_def)
      then show ?thesis by blast
    next
      case False
      then have "ob_map l2 = (ob_map l)\<lparr>costs := costs (ob_map l)\<rparr>" using l2(2) by simp
      then show ?thesis by blast
    qed
  qed
  obtain cs where cs: "ob_map l2 = (ob_map l)\<lparr>costs := cs\<rparr>" using m2(2) by blast
  have geo: "same_geometry (ob_map l2) m" using f(4) by (simp add: same_geometry_def cs)
  have cov: "covers (ob_layer l2) m" using m2(1) geo by (simp add: covers_def same_geometry_def)
  have en: "layer_enabled (ob_layer l2)" by (subst l2(3)) (simp add: True)
  obtain m' where m': "(if combination_method l2 = 0 then updateWithOverwrite (ob_layer l2) a b c d m
      else if combination_method l2 = 1 then updateWithMax (ob_layer l2) a b c d m else Some m) = Some m'"
    "window_rewritten a b c d (layer_merge (combine (combination_method l)) (ob_layer l2)) m m'"
  proof -
    have keep: "window_rewritten a b c d (layer_merge (\<lambda>cost old. old) (ob_layer l2)) m m"
      by (simp add: cells_rewritten_def layer_merge_def)
    obtain m1 where m1: "updateWithOverwrite (ob_layer l2) a b c d m = Some m1"
      "window_rewritten a b c d (layer_merge overwrite_cost (ob_layer l2)) m m1"
      using updateWithOverwrite_spec [OF ok cov win] by blast
    obtain m2 where m2: "updateWithMax (ob_layer l2) a b c d m = Some m2"
      "window_rewritten a b c d (layer_merge max_cost (ob_layer l2)) m m2"
      using updateWithMax_spec [OF ok cov win] by blast
    consider "combination_method l = 0" | "combination_method l = 1"
      | "combination_method l \<noteq> 0" "combination_method l \<noteq> 1" by blast
    then show ?thesis
    proof cases
      case 1
      then show ?thesis using that [of m1] m1 l2(5) by (simp add: combine_def)
    next
      case 2
      then show ?thesis using that [of m2] m2 l2(5) by (simp add: combine_def)
    next
      case 3
      then show ?thesis using that [of m] keep l2(5) by (simp add: combine_def)
    qed
  qed
  have "ob_ok l2" by (rule ob_ok_costs [OF f(1) cs m2(1) l2(7-11)])
  then have "ob_fits l2 m"
    using geo f(5,6) l2(4,6) fits by (simp add: ob_fits_def)
  then have fits': "ob_fits l2 m'"
    using ob_fits_geometry window_only_geometry [OF window_only_rewritten [OF m'(2)]] by blast
  have run: "ob_updateCosts par a b c d (l, m) = Some (None, l2, m')"
    using True m'(1) l2(1) by (simp add: ob_updateCosts_def Let_def)
  show ?thesis
  proof (intro exI conjI)
    show "ob_updateCosts par a b c d (l, m) = Some (None, l2, m')" by (rule run)
    show "ob_fits l2 m'" by (rule fits')
    show "if layer_enabled (ob_layer l) \<and> footprint_clearing_enabled l
      then cells_rewritten ?P (\<lambda>_ _ _. FREE_SPACE) (ob_map l) (ob_map l2) else ob_map l2 = ob_map l"
      using l2(2) True by simp
    show "layer_enabled (ob_layer l2) = layer_enabled (ob_layer l)" using en True by simp
    show "window_rewritten a b c d (layer_merge (combine (combination_method l)) (ob_layer l2)) m m'" by (rule m'(2))
  qed
qed

end
