(* ===== verification/Inflation_Layer.thy ===== *)
theory Inflation_Layer
  imports Layered_Costmap Costmap_Lines
begin

text \<open>
  The inflation layer (\<open>nav2_costmap_2d/plugins/inflation_layer.cpp\<close> and its header): tables of
  distances and costs around an obstacle, and the wave that starts at the lethal cells, ordered by
  the distance to the cell it started from, and raises the costs of the master grid.
\<close>

section \<open>The class\<close>

record cell_data =
  cd_index :: u32
  cd_x :: u32
  cd_y :: u32
  cd_src_x :: u32
  cd_src_y :: u32

record inflation_layer =
  inflation_radius :: real
  il_inscribed_radius :: real
  cost_scaling_factor :: real
  inflate_unknown :: bool
  inflate_around_unknown :: bool
  cell_inflation_radius :: u32
  cached_cell_inflation_radius :: u32
  inflation_cells :: "cell_data list list"
  il_resolution :: real
  il_seen :: "bool list"
  cached_costs :: "u8 list"
  cached_distances :: "real list"
  distance_matrix :: "nat list list"
  cache_length :: u32
  last_bounds :: bounds
  need_reinflation :: bool
  il_enabled :: bool
  il_current :: bool

definition InflationLayer :: inflation_layer where
  "InflationLayer =
     \<lparr>inflation_radius = 0, il_inscribed_radius = 0, cost_scaling_factor = 0, inflate_unknown = False,
       inflate_around_unknown = False, cell_inflation_radius = 0, cached_cell_inflation_radius = 0,
       inflation_cells = [], il_resolution = 0, il_seen = [], cached_costs = [], cached_distances = [],
       distance_matrix = [], cache_length = 0, last_bounds = (- DBL_MAX, - DBL_MAX, DBL_MAX, DBL_MAX),
       need_reinflation = False, il_enabled = False, il_current = False\<rparr>"

section \<open>The tables\<close>

definition real_to_u8 :: "real \<Rightarrow> u8 option" where
  "real_to_u8 x = (if -1 < x \<and> x < 256 then Some (word_of_int (trunc x)) else None)"

definition computeCost :: "inflation_layer \<Rightarrow> real \<Rightarrow> u8 option" where
  "computeCost l distance =
     (if distance = 0 then Some LETHAL_OBSTACLE
      else if distance * il_resolution l \<le> il_inscribed_radius l then Some INSCRIBED_INFLATED_OBSTACLE
      else
        (let factor = exp (-1 * cost_scaling_factor l * (distance * il_resolution l - il_inscribed_radius l))
         in real_to_u8 (real_of_int (uint INSCRIBED_INFLATED_OBSTACLE - 1) * factor)))"

text \<open>\<open>std::vector::resize\<close>, with the value of new elements.\<close>

definition vector_resize :: "nat \<Rightarrow> 'a \<Rightarrow> 'a list \<Rightarrow> 'a list" where
  "vector_resize n x xs = take n xs @ replicate (n - length xs) x"

definition matrix_write :: "nat list list \<Rightarrow> int \<Rightarrow> int \<Rightarrow> nat \<Rightarrow> nat list list option" where
  "matrix_write matrix i j v = do {
     line \<leftarrow> deref matrix i;
     if j < 0 then None
     else do {
       line \<leftarrow> write_at line (nat j) v;
       write_at matrix (nat i) line
     }
   }"

definition norm2 :: "int \<times> int \<Rightarrow> int" where
  "norm2 p = fst p * fst p + snd p * snd p"

text \<open>The points of the disc; the squares fit an \<open>int\<close> if those of the corner do.\<close>

definition disc_points :: "int \<Rightarrow> (int \<times> int) list" where
  "disc_points r = filter (\<lambda>p. norm2 p \<le> r * r) (concat (map (\<lambda>y. map (\<lambda>x. (x, y)) [-r..r]) [-r..r]))"

definition set_level :: "int \<Rightarrow> int \<times> int \<Rightarrow> nat list list \<times> (int \<times> int) \<times> nat \<Rightarrow> (nat list list \<times> (int \<times> int) \<times> nat) option" where
  "set_level r p s =
     (let (matrix, last, level) = s;
          level = (if norm2 p \<noteq> norm2 last then level + 1 else level)
      in do {
        matrix \<leftarrow> matrix_write matrix (fst p + r) (snd p + r) level;
        Some (matrix, p, level)
      })"

text \<open>A vector of negative length throws; points at the same distance get the same level, in whatever
  order \<open>std::sort\<close> leaves them.\<close>

definition generateIntegerDistances :: "inflation_layer \<Rightarrow> (nat \<times> inflation_layer) option" where
  "generateIntegerDistances l = do {
     let r = sint (cell_inflation_radius l + 2);
     sz \<leftarrow> int32 (r * 2 + 1);
     _ \<leftarrow> int32 (r * r + r * r);
     if sz < 0 then None
     else do {
       (matrix, _, level) \<leftarrow> visit_all (set_level r) (sort_key norm2 (disc_points r))
         (replicate (nat sz) (replicate (nat sz) 0), (0, 0), 0);
       Some (level, l\<lparr>distance_matrix := matrix\<rparr>)
     }
   }"

definition cache_cells :: "u32 \<Rightarrow> (nat \<times> nat) list" where
  "cache_cells n = concat (map (\<lambda>i. map (\<lambda>j. (i, j)) [0..<unat n]) [0..<unat n])"

definition cache_index :: "u32 \<Rightarrow> u32 \<Rightarrow> u32 \<Rightarrow> nat" where
  "cache_index n i j = unat (i * n + j)"

definition cache_distances :: "inflation_layer \<Rightarrow> inflation_layer option" where
  "cache_distances l =
     (let n = cache_length l
      in if cell_inflation_radius l = cached_cell_inflation_radius l then Some l
         else do {
           ds \<leftarrow> visit_all (\<lambda>(i, j) ds. write_at ds (cache_index n (of_nat i) (of_nat j)) (hypot (real i) (real j)))
             (cache_cells n) (vector_resize (unat (n * n)) 0 (cached_distances l));
           Some (l\<lparr>cached_costs := vector_resize (unat (n * n)) 0 (cached_costs l), cached_distances := ds,
             cached_cell_inflation_radius := cell_inflation_radius l\<rparr>)
         })"

definition cache_costs :: "inflation_layer \<Rightarrow> inflation_layer option" where
  "cache_costs l =
     (let n = cache_length l
      in do {
        cs \<leftarrow> visit_all (\<lambda>(i, j) cs. do {
            d \<leftarrow> mem_at (cached_distances l) (cache_index n (of_nat i) (of_nat j));
            cost \<leftarrow> computeCost l d;
            write_at cs (cache_index n (of_nat i) (of_nat j)) cost
          }) (cache_cells n) (cached_costs l);
        Some (l\<lparr>cached_costs := cs\<rparr>)
      })"

definition computeCaches :: "inflation_layer \<Rightarrow> inflation_layer option" where
  "computeCaches l =
     (if cell_inflation_radius l = 0 then Some l
      else do {
        l \<leftarrow> cache_distances (l\<lparr>cache_length := cell_inflation_radius l + 2\<rparr>);
        l \<leftarrow> cache_costs l;
        (max_dist, l) \<leftarrow> generateIntegerDistances l;
        Some (l\<lparr>inflation_cells := replicate (max_dist + 1) []\<rparr>)
      })"

definition il_matchSize :: "parent \<Rightarrow> inflation_layer \<Rightarrow> inflation_layer option" where
  "il_matchSize par l =
     (let costmap = par_costmap par
      in do {
        r \<leftarrow> cellDistance (inflation_radius l) costmap;
        l \<leftarrow> computeCaches (l\<lparr>il_resolution := resolution costmap, cell_inflation_radius := r\<rparr>);
        Some (l\<lparr>il_seen := replicate (unat (size_x costmap * size_y costmap)) False\<rparr>)
      })"

text \<open>\<open>onInitialize\<close> with the values of the parameters.\<close>

definition il_onInitialize :: "parent \<Rightarrow> bool \<Rightarrow> real \<Rightarrow> real \<Rightarrow> bool \<Rightarrow> bool \<Rightarrow> inflation_layer \<Rightarrow> inflation_layer option" where
  "il_onInitialize par enabled radius scaling unknown around_unknown l = do {
     let l = l\<lparr>il_enabled := enabled, inflation_radius := radius, cost_scaling_factor := scaling,
       inflate_unknown := unknown, inflate_around_unknown := around_unknown, il_current := True, il_seen := [],
       cached_distances := [], cached_costs := [], need_reinflation := False\<rparr>;
     r \<leftarrow> cellDistance radius (par_costmap par);
     il_matchSize par (l\<lparr>cell_inflation_radius := r\<rparr>)
   }"

definition il_updateBounds :: "bounds \<Rightarrow> inflation_layer \<Rightarrow> inflation_layer \<times> bounds" where
  "il_updateBounds b l =
     (if need_reinflation l
      then (l\<lparr>last_bounds := b, need_reinflation := False\<rparr>, (- DBL_MAX, - DBL_MAX, DBL_MAX, DBL_MAX))
      else
        (let (tmp_min_x, tmp_min_y, tmp_max_x, tmp_max_y) = last_bounds l; (min_x, min_y, max_x, max_y) = b;
             r = inflation_radius l
         in (l\<lparr>last_bounds := b\<rparr>,
             (min tmp_min_x min_x - r, min tmp_min_y min_y - r, max tmp_max_x max_x + r, max tmp_max_y max_y + r))))"

definition il_onFootprintChanged :: "parent \<Rightarrow> inflation_layer \<Rightarrow> inflation_layer option" where
  "il_onFootprintChanged par l = do {
     r \<leftarrow> cellDistance (inflation_radius l) (par_costmap par);
     l \<leftarrow> computeCaches (l\<lparr>il_inscribed_radius := par_inscribed par, cell_inflation_radius := r\<rparr>);
     Some (l\<lparr>need_reinflation := True\<rparr>)
   }"

definition il_reset :: "parent \<Rightarrow> inflation_layer \<Rightarrow> inflation_layer option" where
  "il_reset par l = do { l \<leftarrow> il_matchSize par l; Some (l\<lparr>il_current := False\<rparr>) }"

text \<open>The pair holds the layer and whether the tables have to be computed again.\<close>

fun il_set_parameter :: "parameter \<Rightarrow> inflation_layer \<times> bool \<Rightarrow> inflation_layer \<times> bool" where
  "il_set_parameter (ParamDouble name v) (l, need) =
     (if name = ''inflation_radius'' \<and> inflation_radius l \<noteq> v
      then (l\<lparr>inflation_radius := v, need_reinflation := True\<rparr>, True)
      else if name = ''cost_scaling_factor'' \<and> cost_scaling_factor l \<noteq> v
      then (l\<lparr>cost_scaling_factor := v, need_reinflation := True\<rparr>, True)
      else (l, need))"
| "il_set_parameter (ParamBool name v) (l, need) =
     (if name = ''enabled'' \<and> il_enabled l \<noteq> v
      then (l\<lparr>il_enabled := v, need_reinflation := True, il_current := False\<rparr>, need)
      else if name = ''inflate_unknown'' \<and> inflate_unknown l \<noteq> v
      then (l\<lparr>inflate_unknown := v, need_reinflation := True\<rparr>, need)
      else if name = ''inflate_around_unknown'' \<and> inflate_around_unknown l \<noteq> v
      then (l\<lparr>inflate_around_unknown := v, need_reinflation := True\<rparr>, need)
      else (l, need))"
| "il_set_parameter p s = s"

definition il_dynamicParametersCallback :: "parent \<Rightarrow> parameter list \<Rightarrow> inflation_layer \<Rightarrow> inflation_layer option" where
  "il_dynamicParametersCallback par parameters l =
     (let (l, need_cache_recompute) = fold il_set_parameter parameters (l, False)
      in if need_cache_recompute then il_matchSize par l else Some l)"

section \<open>The wave\<close>

text \<open>The marks, the bins of cells to visit by their distance, and the grid.\<close>

type_synonym wave = "bool list \<times> cell_data list list \<times> u8 list"

definition cell_offsets :: "cell_data \<Rightarrow> u32 \<times> u32" where
  "cell_offsets c =
     (if cd_x c > cd_src_x c then cd_x c - cd_src_x c else cd_src_x c - cd_x c,
      if cd_y c > cd_src_y c then cd_y c - cd_src_y c else cd_src_y c - cd_y c)"

definition distanceLookup :: "inflation_layer \<Rightarrow> cell_data \<Rightarrow> real option" where
  "distanceLookup l c = (let (dx, dy) = cell_offsets c in mem_at (cached_distances l) (cache_index (cache_length l) dx dy))"

definition costLookup :: "inflation_layer \<Rightarrow> cell_data \<Rightarrow> u8 option" where
  "costLookup l c = (let (dx, dy) = cell_offsets c in mem_at (cached_costs l) (cache_index (cache_length l) dx dy))"

definition enqueue :: "inflation_layer \<Rightarrow> cell_data \<Rightarrow> wave \<Rightarrow> wave option" where
  "enqueue l c s =
     (let (seen, bins, arr) = s
      in do {
        visited \<leftarrow> mem_at seen (unat (cd_index c));
        if visited then Some s
        else do {
          distance \<leftarrow> distanceLookup l c;
          if distance > real (unat (cell_inflation_radius l)) then Some s
          else do {
            let r = cell_inflation_radius l + 2;
            line \<leftarrow> mem_at (distance_matrix l) (unat (cd_x c - cd_src_x c + r));
            level \<leftarrow> mem_at line (unat (cd_y c - cd_src_y c + r));
            bin \<leftarrow> mem_at bins level;
            bins \<leftarrow> write_at bins level (bin @ [c]);
            Some (seen, bins, arr)
          }
        }
      })"

definition enqueue_if :: "bool \<Rightarrow> inflation_layer \<Rightarrow> cell_data \<Rightarrow> wave \<Rightarrow> wave option" where
  "enqueue_if cond l c s = (if cond then enqueue l c s else Some s)"

text \<open>The cost of a cell under a wave that brings \<open>cost\<close>.\<close>

definition inflated :: "inflation_layer \<Rightarrow> u8 \<Rightarrow> u8 \<Rightarrow> u8" where
  "inflated l cost old_cost =
     (if old_cost = NO_INFORMATION \<and> (if inflate_unknown l then cost > FREE_SPACE else cost \<ge> INSCRIBED_INFLATED_OBSTACLE)
      then cost else max old_cost cost)"

definition in_base :: "int \<times> int \<times> int \<times> int \<Rightarrow> u32 \<Rightarrow> u32 \<Rightarrow> bool" where
  "in_base base mx my = (case base of (base_min_i, base_min_j, base_max_i, base_max_j) \<Rightarrow>
     base_min_i \<le> sint mx \<and> base_min_j \<le> sint my \<and> sint mx < base_max_i \<and> sint my < base_max_j)"

definition neighbours :: "u32 \<Rightarrow> u32 \<Rightarrow> cell_data \<Rightarrow> (bool \<times> cell_data) list" where
  "neighbours sx sy c =
     [(cd_x c > 0, c\<lparr>cd_index := cd_index c - 1, cd_x := cd_x c - 1\<rparr>),
      (cd_y c > 0, c\<lparr>cd_index := cd_index c - sx, cd_y := cd_y c - 1\<rparr>),
      (cd_x c < sx - 1, c\<lparr>cd_index := cd_index c + 1, cd_x := cd_x c + 1\<rparr>),
      (cd_y c < sy - 1, c\<lparr>cd_index := cd_index c + sx, cd_y := cd_y c + 1\<rparr>)]"

definition inflate_cell ::
  "inflation_layer \<Rightarrow> u32 \<Rightarrow> u32 \<Rightarrow> int \<times> int \<times> int \<times> int \<Rightarrow> cell_data \<Rightarrow> wave \<Rightarrow> wave option" where
  "inflate_cell l sx sy base c s =
     (let (seen, bins, arr) = s; index = unat (cd_index c)
      in do {
        visited \<leftarrow> mem_at seen index;
        if visited then Some s
        else do {
          let seen = seen[index := True];
          cost \<leftarrow> costLookup l c;
          old_cost \<leftarrow> mem_at arr index;
          arr \<leftarrow> (if in_base base (cd_x c) (cd_y c) then write_at arr index (inflated l cost old_cost) else Some arr);
          visit_all (\<lambda>(cond, c). enqueue_if cond l c) (neighbours sx sy c) (seen, bins, arr)
        }
      })"

text \<open>The loop over a bin, which grows while it is visited. It ends, since a cell is visited once.\<close>

lemma enqueue_if_grows:
  assumes "enqueue_if cond l c (seen, bins, arr) = Some (seen', bins', arr')"
  shows "seen' = seen \<and> arr' = arr \<and> length (bins' ! k) \<le> Suc (length (bins ! k))"
  using assms
  by (cases "k < length bins")
    (auto simp: enqueue_if_def enqueue_def Let_def mem_at_def write_at_def nth_list_update split: if_splits bind_splits)

lemma neighbours_grow:
  assumes "visit_all (\<lambda>(cond, c). enqueue_if cond l c) cs (seen, bins, arr) = Some (seen', bins', arr')"
  shows "seen' = seen \<and> arr' = arr \<and> length (bins' ! k) \<le> length cs + length (bins ! k)"
  using assms
proof (induction cs arbitrary: bins)
  case (Cons c cs)
  obtain cond d where c: "c = (cond, d)" by (cases c)
  obtain seen1 bins1 arr1 where s: "enqueue_if cond l d (seen, bins, arr) = Some (seen1, bins1, arr1)"
    "visit_all (\<lambda>(cond, c). enqueue_if cond l c) cs (seen1, bins1, arr1) = Some (seen', bins', arr')"
    using Cons.prems by (auto simp: c split: option.splits)
  have "seen1 = seen" "arr1 = arr" "length (bins1 ! k) \<le> Suc (length (bins ! k))"
    using enqueue_if_grows [OF s(1), of k] by simp_all
  then show ?case using Cons.IH [of bins1] s(2) by simp
qed simp

definition unvisited :: "bool list \<Rightarrow> nat" where
  "unvisited seen = length (filter Not seen)"

lemma unvisited_mark:
  assumes "i < length xs" and "\<not> xs ! i"
  shows "Suc (unvisited (xs[i := True])) = unvisited xs"
  using assms
proof (induction xs arbitrary: i)
  case (Cons x xs)
  then show ?case by (cases i) (auto simp: unvisited_def)
qed simp

lemma inflate_cell_grows:
  assumes "inflate_cell l sx sy base c (seen, bins, arr) = Some (seen', bins', arr')"
  shows "seen' = seen \<and> bins' = bins \<and> arr' = arr \<or>
    Suc (unvisited seen') = unvisited seen \<and> length (bins' ! k) \<le> 4 + length (bins ! k)"
proof -
  have i: "unat (cd_index c) < length seen" using assms by (auto simp: inflate_cell_def Let_def mem_at_def split: if_splits)
  show ?thesis
  proof (cases "seen ! unat (cd_index c)")
    case False
    then obtain arr1 where "visit_all (\<lambda>(cond, c). enqueue_if cond l c) (neighbours sx sy c)
        (seen[unat (cd_index c) := True], bins, arr1) = Some (seen', bins', arr')"
      using assms i by (auto simp: inflate_cell_def Let_def mem_at_Some split: bind_splits)
    from neighbours_grow [OF this, of k] unvisited_mark [OF i False] show ?thesis by (simp add: neighbours_def)
  qed (use assms i in \<open>simp add: inflate_cell_def Let_def mem_at_Some\<close>)
qed

function inflate_bin ::
  "inflation_layer \<Rightarrow> u32 \<Rightarrow> u32 \<Rightarrow> int \<times> int \<times> int \<times> int \<Rightarrow> nat \<Rightarrow> nat \<Rightarrow> wave \<Rightarrow> wave option" where
  "inflate_bin l sx sy base k i s =
     (let bin = fst (snd s) ! k
      in if i < length bin
         then (case inflate_cell l sx sy base (bin ! i) s of
             None \<Rightarrow> None
           | Some s' \<Rightarrow> inflate_bin l sx sy base k (Suc i) s')
         else Some s)"
  by pat_completeness auto

termination inflate_bin
proof (relation "measure (\<lambda>(l, sx, sy, base, k, i, (seen, bins, arr)). 5 * unvisited seen + (length (bins ! k) - i))")
  fix l sx sy base k i s bin s'
  assume a: "bin = fst (snd (s :: wave)) ! k" "i < length bin" "inflate_cell l sx sy base (bin ! i) s = Some s'"
  obtain seen bins arr where s: "s = (seen, bins, arr)" by (metis prod_cases3)
  obtain seen' bins' arr' where s': "s' = (seen', bins', arr')" by (metis prod_cases3)
  show "((l, sx, sy, base, k, Suc i, s'), (l, sx, sy, base, k, i, s))
      \<in> measure (\<lambda>(l, sx, sy, base, k, i, (seen, bins, arr)). 5 * unvisited seen + (length (bins ! k) - i))"
    using a inflate_cell_grows [of l sx sy base "bin ! i" seen bins arr seen' bins' arr' k] by (auto simp: s s')
qed simp

declare inflate_bin.simps [simp del]

section \<open>Writing the costs\<close>

definition push_obstacles :: "inflation_layer \<Rightarrow> costmap \<Rightarrow> (int \<times> int) list \<Rightarrow> cell_data list \<Rightarrow> cell_data list option" where
  "push_obstacles l master cells obs_bin =
     visit_all (\<lambda>(i, j) obs_bin. do {
         let index = sint (getIndex master (word_of_int i) (word_of_int j));
         cost \<leftarrow> deref (costs master) index;
         Some (if cost = LETHAL_OBSTACLE \<or> (inflate_around_unknown l \<and> cost = NO_INFORMATION)
           then obs_bin @ [\<lparr>cd_index = word_of_int index, cd_x = word_of_int i, cd_y = word_of_int j,
             cd_src_x = word_of_int i, cd_src_y = word_of_int j\<rparr>]
           else obs_bin)
       }) cells obs_bin"

definition il_updateCosts ::
  "int \<Rightarrow> int \<Rightarrow> int \<Rightarrow> int \<Rightarrow> inflation_layer \<times> costmap \<Rightarrow> (inflation_layer \<times> costmap) option" where
  "il_updateCosts base_min_i base_min_j base_max_i base_max_j s =
     (let (l, master) = s
      in if \<not> il_enabled l \<or> cell_inflation_radius l = 0 then Some (l, master)
         else do {
           let sx = size_x master;
           let sy = size_y master;
           let n = unat (sx * sy);
           let seen = (if length (il_seen l) \<noteq> n then replicate n False else il_seen l);
           let seen = replicate (length seen) False;
           let r = sint (cell_inflation_radius l);
           min_i \<leftarrow> int32 (base_min_i - r);
           min_j \<leftarrow> int32 (base_min_j - r);
           max_i \<leftarrow> int32 (base_max_i + r);
           max_j \<leftarrow> int32 (base_max_j + r);
           obs_bin \<leftarrow> mem_at (inflation_cells l) 0;
           obs_bin \<leftarrow> push_obstacles l master
             (window_cells (max 0 min_i) (max 0 min_j) (min (sint sx) max_i) (min (sint sy) max_j)) obs_bin;
           bins \<leftarrow> write_at (inflation_cells l) 0 obs_bin;
           (seen, bins, arr) \<leftarrow> visit_all (\<lambda>k. inflate_bin l sx sy (base_min_i, base_min_j, base_max_i, base_max_j) k 0)
             [0..<length bins] (seen, bins, costs master);
           Some (l\<lparr>il_seen := seen, inflation_cells := map (\<lambda>_. []) bins, il_current := True\<rparr>, master\<lparr>costs := arr\<rparr>)
         })"

end
