(* ===== verification/Inflation_Tables.thy ===== *)
theory Inflation_Tables
  imports Inflation_Layer
begin

text \<open>
  The tables of the inflation layer: \<open>generateIntegerDistances\<close> numbers the squared distances in
  increasing order, and \<open>computeCaches\<close> tabulates the distances, the costs and the empty bins.
\<close>

section \<open>Levels\<close>

text \<open>The number of a squared distance among those in the disc; zero has number zero.\<close>

definition level_of :: "int \<Rightarrow> int \<Rightarrow> nat" where
  "level_of r d = card {e \<in> norm2 ` set (disc_points r). 0 < e \<and> e \<le> d}"

lemma norm2_nonneg [simp]: "0 \<le> norm2 p"
  by (simp add: norm2_def)

lemma norm2_zero: "norm2 p = 0 \<longleftrightarrow> p = (0, 0)"
  by (cases p) (simp add: norm2_def sum_squares_eq_zero_iff)

lemma set_disc_points: "0 \<le> r \<Longrightarrow> set (disc_points r) = {p. norm2 p \<le> r * r}"
proof -
  assume r: "0 \<le> r"
  have "\<bar>i\<bar> \<le> r" if "i * i + j * j \<le> r * r" for i j :: int
  proof -
    have "i * i \<le> r * r" using that zero_le_square [of j] by linarith
    then show ?thesis using r abs_le_square_iff [of i r] by (simp add: power2_eq_square)
  qed
  then have "fst p \<in> {-r..r} \<and> snd p \<in> {-r..r}" if "norm2 p \<le> r * r" for p
    using that unfolding norm2_def by (metis abs_le_iff add.commute atLeastAtMost_iff minus_le_iff)
  then show ?thesis by (auto simp: disc_points_def image_iff)
qed

lemma distinct_disc_points: "distinct (disc_points r)"
proof -
  have "distinct (concat (map (\<lambda>y. map (\<lambda>x. (x, y)) xs) ys))" if "distinct xs" "distinct ys" for xs ys :: "int list"
    using that(2) by (induction ys) (auto simp: distinct_map inj_on_def that(1))
  then show ?thesis by (simp add: disc_points_def)
qed

lemma level_of_mono: "d \<le> e \<Longrightarrow> level_of r d \<le> level_of r e"
  unfolding level_of_def by (intro card_mono) auto

lemma level_of_less:
  assumes "e \<in> norm2 ` set (disc_points r)" and "d < e" and "0 \<le> d"
  shows "level_of r d < level_of r e"
  unfolding level_of_def
proof (rule psubset_card_mono)
  show "{f \<in> norm2 ` set (disc_points r). 0 < f \<and> f \<le> d} \<subset> {f \<in> norm2 ` set (disc_points r). 0 < f \<and> f \<le> e}"
  proof
    have "e \<in> {f \<in> norm2 ` set (disc_points r). 0 < f \<and> f \<le> e}" using assms by auto
    moreover have "e \<notin> {f \<in> norm2 ` set (disc_points r). 0 < f \<and> f \<le> d}" using assms(2) by simp
    ultimately show "{f \<in> norm2 ` set (disc_points r). 0 < f \<and> f \<le> d} \<noteq> {f \<in> norm2 ` set (disc_points r). 0 < f \<and> f \<le> e}"
      by metis
  qed (use assms in auto)
qed simp

lemma level_of_0 [simp]: "level_of r 0 = 0"
  by (simp add: level_of_def)

text \<open>The level of a point is less or equal exactly if its distance is.\<close>

lemma level_of_le_iff:
  assumes "p \<in> set (disc_points r)" and "q \<in> set (disc_points r)"
  shows "level_of r (norm2 p) \<le> level_of r (norm2 q) \<longleftrightarrow> norm2 p \<le> norm2 q"
  using level_of_mono [of "norm2 p" "norm2 q" r] level_of_less [of "norm2 p" r "norm2 q"] assms by force

definition max_level :: "int \<Rightarrow> nat" where
  "max_level r = level_of r (r * r)"

section \<open>The matrix of levels\<close>

definition square_matrix :: "nat \<Rightarrow> nat list list \<Rightarrow> bool" where
  "square_matrix n matrix \<longleftrightarrow> length matrix = n \<and> (\<forall>line \<in> set matrix. length line = n)"

lemma matrix_write_spec:
  assumes "square_matrix n matrix" and "0 \<le> i" "i < int n" "0 \<le> j" "j < int n"
  shows "\<exists>matrix'. matrix_write matrix i j v = Some matrix' \<and> square_matrix n matrix' \<and>
    (\<forall>x < n. \<forall>y < n. matrix' ! x ! y = (if x = nat i \<and> y = nat j then v else matrix ! x ! y))"
proof -
  have i: "nat i < length matrix" "nat j < n" using assms by (auto simp: square_matrix_def)
  have sq: "length matrix = n" "\<And>x. x < n \<Longrightarrow> length (matrix ! x) = n" using assms(1) by (auto simp: square_matrix_def)
  have line: "length (matrix ! nat i) = n" using sq i(1) by simp
  let ?m = "matrix[nat i := (matrix ! nat i)[nat j := v]]"
  have "matrix_write matrix i j v = Some ?m"
    using i line assms(2,4) by (simp add: matrix_write_def deref_def mem_at_Some write_at_def)
  moreover have "square_matrix n ?m"
    unfolding square_matrix_def
  proof (intro conjI ballI)
    fix xs assume "xs \<in> set ?m"
    then obtain x where "x < n" "xs = ?m ! x" using sq(1) by (metis in_set_conv_nth length_list_update)
    then show "length xs = n" using sq i line by (cases "x = nat i") simp_all
  qed (simp add: sq)
  moreover have "?m ! x ! y = (if x = nat i \<and> y = nat j then v else matrix ! x ! y)" if "x < n" "y < n" for x y
    using i line assms(1) that by (auto simp: square_matrix_def nth_list_update)
  ultimately show ?thesis by blast
qed

text \<open>The entries for the points of a sorted list, whose distances are at least that of the last point.\<close>

definition level_after :: "int \<Rightarrow> nat \<Rightarrow> (int \<times> int) set \<Rightarrow> int \<Rightarrow> nat" where
  "level_after d level P e = level + card {f \<in> norm2 ` P. d < f \<and> f \<le> e}"

lemma level_after_insert:
  assumes "finite P" and "d \<le> norm2 p" and "\<forall>q \<in> P. norm2 p \<le> norm2 q"
    and "level1 = (if norm2 p \<noteq> d then level + 1 else level)" and "norm2 p \<le> e"
  shows "level_after d level (insert p P) e = level_after (norm2 p) level1 P e"
proof (cases "norm2 p = d")
  case True
  then have "{f \<in> norm2 ` insert p P. d < f \<and> f \<le> e} = {f \<in> norm2 ` P. norm2 p < f \<and> f \<le> e}" by auto
  then show ?thesis using True assms(4) by (simp add: level_after_def)
next
  case False
  then have "{f \<in> norm2 ` insert p P. d < f \<and> f \<le> e} = insert (norm2 p) {f \<in> norm2 ` P. norm2 p < f \<and> f \<le> e}"
    using assms(2,3,5) by fastforce
  then show ?thesis using False assms(1,4) by (simp add: level_after_def)
qed

lemma set_levels:
  assumes "sorted (map norm2 ps)" and "\<forall>p \<in> set ps. norm2 prev \<le> norm2 p" and "distinct ps"
    and "set ps \<subseteq> set (disc_points r)" and "square_matrix (nat (2 * r + 1)) matrix" and "0 \<le> r"
  shows "\<exists>matrix' prev'. visit_all (set_level r) ps (matrix, prev, level) =
      Some (matrix', prev', level_after (norm2 prev) level (set ps) (r * r)) \<and> square_matrix (nat (2 * r + 1)) matrix' \<and>
    (\<forall>p \<in> set ps. matrix' ! nat (fst p + r) ! nat (snd p + r) = level_after (norm2 prev) level (set ps) (norm2 p)) \<and>
    (\<forall>p \<in> set (disc_points r) - set ps. matrix' ! nat (fst p + r) ! nat (snd p + r) = matrix ! nat (fst p + r) ! nat (snd p + r))"
  using assms(1-5)
proof (induction ps arbitrary: matrix prev level)
  case Nil
  then show ?case by (simp add: level_after_def)
next
  case (Cons p ps)
  have range: "0 \<le> fst q + r \<and> fst q + r < int (nat (2 * r + 1)) \<and> 0 \<le> snd q + r \<and> snd q + r < int (nat (2 * r + 1))"
    if "q \<in> set (disc_points r)" for q
    using that assms(6) by (auto simp: disc_points_def)
  have other: "\<not> (nat (fst q + r) = nat (fst p + r) \<and> nat (snd q + r) = nat (snd p + r))"
    if "q \<in> set (disc_points r)" "q \<noteq> p" for q
    using range [OF that(1)] range [of p] Cons.prems(4) that(2) by (auto simp: prod_eq_iff)
  let ?level = "if norm2 p \<noteq> norm2 prev then level + 1 else level"
  have p: "p \<in> set (disc_points r)" using Cons.prems(4) by simp
  obtain m1 where m1: "matrix_write matrix (fst p + r) (snd p + r) ?level = Some m1" "square_matrix (nat (2 * r + 1)) m1"
    "\<forall>x < nat (2 * r + 1). \<forall>y < nat (2 * r + 1).
      m1 ! x ! y = (if x = nat (fst p + r) \<and> y = nat (snd p + r) then ?level else matrix ! x ! y)"
    using matrix_write_spec [OF Cons.prems(5), of "fst p + r" "snd p + r" ?level] range [OF p] by blast
  have step: "set_level r p (matrix, prev, level) = Some (m1, p, ?level)" using m1(1) by (simp add: set_level_def)
  have after: "level_after (norm2 prev) level (set (p # ps)) e = level_after (norm2 p) ?level (set ps) e" if "norm2 p \<le> e" for e
    using level_after_insert [of "set ps" "norm2 prev" p ?level level e] Cons.prems(1,2) that by simp
  obtain m' prev' where m': "visit_all (set_level r) ps (m1, p, ?level) =
      Some (m', prev', level_after (norm2 p) ?level (set ps) (r * r))" "square_matrix (nat (2 * r + 1)) m'"
    "\<forall>q \<in> set ps. m' ! nat (fst q + r) ! nat (snd q + r) = level_after (norm2 p) ?level (set ps) (norm2 q)"
    "\<forall>q \<in> set (disc_points r) - set ps. m' ! nat (fst q + r) ! nat (snd q + r) = m1 ! nat (fst q + r) ! nat (snd q + r)"
    using Cons.IH [of p m1 ?level] Cons.prems m1(2) by auto
  have "norm2 p \<le> r * r" using p by (simp add: disc_points_def)
  then have run: "visit_all (set_level r) (p # ps) (matrix, prev, level) =
      Some (m', prev', level_after (norm2 prev) level (set (p # ps)) (r * r))"
    using step m'(1) after by simp
  have at: "m1 ! nat (fst q + r) ! nat (snd q + r) = (if q = p then ?level else matrix ! nat (fst q + r) ! nat (snd q + r))"
    if "q \<in> set (disc_points r)" for q
  proof -
    have "nat (fst q + r) < nat (2 * r + 1)" "nat (snd q + r) < nat (2 * r + 1)" using range [OF that] assms(6) by simp_all
    then show ?thesis using m1(3) other [OF that] by auto
  qed
  have here: "level_after (norm2 p) ?level (set ps) (norm2 p) = ?level" by (simp add: level_after_def)
  have "m' ! nat (fst q + r) ! nat (snd q + r) = level_after (norm2 prev) level (set (p # ps)) (norm2 q)"
    if "q \<in> set (p # ps)" for q
  proof (cases "q = p")
    case True
    then show ?thesis using m'(4) at p Cons.prems(3) after [of "norm2 p"] here by auto
  next
    case False
    then show ?thesis using m'(3) that after [of "norm2 q"] Cons.prems(1) by auto
  qed
  moreover have "m' ! nat (fst q + r) ! nat (snd q + r) = matrix ! nat (fst q + r) ! nat (snd q + r)"
    if "q \<in> set (disc_points r) - set (p # ps)" for q
    using m'(4) at that by auto
  ultimately show ?case using run m'(2) by blast
qed

lemma generateIntegerDistances_spec:
  assumes r: "unat (cell_inflation_radius l) + 2 < 2 ^ 15" and R: "R = int (unat (cell_inflation_radius l)) + 2"
  shows "\<exists>matrix. generateIntegerDistances l = Some (max_level R, l\<lparr>distance_matrix := matrix\<rparr>) \<and>
    square_matrix (nat (2 * R + 1)) matrix \<and>
    (\<forall>p. norm2 p \<le> R * R \<longrightarrow> matrix ! nat (fst p + R) ! nat (snd p + R) = level_of R (norm2 p))"
proof -
  have "unat (cell_inflation_radius l + 2) = unat (cell_inflation_radius l) + 2"
    using r by (subst unat_add_lem [THEN iffD1]) simp_all
  then have rR: "sint (cell_inflation_radius l + 2) = R" using r R by (simp add: sint_small del: of_nat_unat)
  have "int (unat (cell_inflation_radius l) + 2) < int (2 ^ 15)" using r by (simp only: of_nat_less_iff)
  then have Rb: "0 \<le> R" "R < 2 ^ 15" using R by (simp_all del: of_nat_unat)
  have sq: "R * R \<le> (2 ^ 15 - 1) * (2 ^ 15 - 1)" using Rb by (intro mult_mono) simp_all
  let ?n = "nat (2 * R + 1)" and ?ps = "sort_key norm2 (disc_points R)"
  have set: "set ?ps = set (disc_points R)" "distinct ?ps" "sorted (map norm2 ?ps)"
    using distinct_disc_points by (simp_all add: sorted_sort_key)
  have disc: "p \<in> set (disc_points R) \<longleftrightarrow> norm2 p \<le> R * R" for p using set_disc_points [OF Rb(1)] by simp
  have "square_matrix ?n (replicate ?n (replicate ?n 0))" by (simp add: square_matrix_def)
  then obtain m prev where m: "visit_all (set_level R) ?ps (replicate ?n (replicate ?n 0), (0, 0), 0) =
      Some (m, prev, level_after (norm2 (0, 0)) 0 (set ?ps) (R * R))" "square_matrix ?n m"
    "\<forall>p \<in> set ?ps. m ! nat (fst p + R) ! nat (snd p + R) = level_after (norm2 (0, 0)) 0 (set ?ps) (norm2 p)"
    using set_levels [of ?ps "(0, 0)" R "replicate ?n (replicate ?n 0)" 0] set Rb(1) by (auto simp: norm2_def)
  have level: "level_after (norm2 (0, 0)) 0 (set (disc_points R)) d = level_of R d" for d
    by (simp add: level_after_def level_of_def norm2_def)
  have "int32 (R * 2 + 1) = Some (R * 2 + 1)" "int32 (R * R + R * R) = Some (R * R + R * R)"
  proof -
    have "- 1073741824 \<le> R * R" using zero_le_square [of R] by linarith
    then show "int32 (R * 2 + 1) = Some (R * 2 + 1)" "int32 (R * R + R * R) = Some (R * R + R * R)"
      using Rb sq by (simp_all add: int32_def)
  qed
  then have "generateIntegerDistances l = Some (max_level R, l\<lparr>distance_matrix := m\<rparr>)"
    using m(1) Rb(1) by (simp add: generateIntegerDistances_def rR Let_def level max_level_def mult.commute [of R 2])
  then show ?thesis using m(2,3) set(1) disc level by (intro exI [of _ m]) simp
qed

section \<open>The caches\<close>

text \<open>
  The layer is ready for a wave: tables for its radius, a bin for every level. A cost that cannot be
  computed, such as one beyond \<open>unsigned char\<close> for a negative scaling factor, has no table.
\<close>

definition cache_radius :: "inflation_layer \<Rightarrow> nat" where
  "cache_radius l = unat (cell_inflation_radius l)"

definition il_ready :: "inflation_layer \<Rightarrow> bool" where
  "il_ready l \<longleftrightarrow>
     (let R = cache_radius l; n = R + 2
      in 0 < R \<and> n < 2 ^ 15 \<and> cache_length l = cell_inflation_radius l + 2 \<and>
         length (cached_distances l) = n * n \<and> length (cached_costs l) = n * n \<and>
         (\<forall>i < n. \<forall>j < n. cached_distances l ! (i * n + j) = hypot (real i) (real j) \<and>
           computeCost l (hypot (real i) (real j)) = Some (cached_costs l ! (i * n + j))) \<and>
         square_matrix (nat (2 * int n + 1)) (distance_matrix l) \<and>
         (\<forall>p. norm2 p \<le> int n * int n \<longrightarrow>
           distance_matrix l ! nat (fst p + int n) ! nat (snd p + int n) = level_of (int n) (norm2 p)) \<and>
         inflation_cells l = replicate (max_level (int n) + 1) [])"

lemma set_cache_cells: "set (cache_cells n) = {(i, j). i < unat n \<and> j < unat n}"
  by (auto simp: cache_cells_def)

lemma distinct_cache_cells: "distinct (cache_cells n)"
proof -
  have "distinct (concat (map (\<lambda>i. map (\<lambda>j. (i, j)) ys) xs))" if "distinct xs" "distinct ys" for xs ys :: "nat list"
    using that(1) by (induction xs) (auto simp: distinct_map inj_on_def that(2))
  then show ?thesis by (simp add: cache_cells_def)
qed

lemma cache_index_unat:
  assumes "unat i < unat n" and "unat j < unat n" and "unat n < 2 ^ 16"
  shows "cache_index n i j = unat i * unat n + unat j" and "cache_index n i j < unat n * unat n"
proof -
  have less: "unat i * unat n + unat j < unat n * unat n" using cell_index_less [OF assms(2,1)] by simp
  have "unat n * unat n < 2 ^ 16 * 2 ^ 16" using assms(3) by (intro mult_strict_mono) simp_all
  then show "cache_index n i j = unat i * unat n + unat j" unfolding cache_index_def using less by (intro unat_index) simp
  then show "cache_index n i j < unat n * unat n" using less by simp
qed

text \<open>A pass that fills the table cell by cell.\<close>

lemma fill_cache:
  assumes "unat n < 2 ^ 16" and "length xs = unat n * unat n"
    and "\<And>c xs. c \<in> set (cache_cells n) \<Longrightarrow> length xs = unat n * unat n \<Longrightarrow>
      f c xs = write_at xs (cache_index n (of_nat (fst c)) (of_nat (snd c))) (g (fst c) (snd c))"
  shows "\<exists>ys. visit_all f (cache_cells n) xs = Some ys \<and> length ys = unat n * unat n \<and>
    (\<forall>i < unat n. \<forall>j < unat n. ys ! (i * unat n + j) = g i j)"
proof -
  let ?ptr = "\<lambda>c. cache_index n (of_nat (fst c)) (of_nat (snd c))"
  let ?f = "\<lambda>c xs. do { x \<leftarrow> mem_at xs (?ptr c); y \<leftarrow> Some (g (fst c) (snd c)); write_at xs (?ptr c) y }"
  have small: "unat (of_nat i :: u32) = i" if "i < unat n" for i
    using that unsigned_less [where ?'a = nat, of n] by (simp add: unat_of_nat take_bit_nat_eq_self)
  have ptr: "?ptr c = fst c * unat n + snd c" "?ptr c < unat n * unat n" "snd c < unat n" if "c \<in> set (cache_cells n)" for c
    using that cache_index_unat [of "of_nat (fst c)" n "of_nat (snd c)"] small [of "fst c"] small [of "snd c"] assms(1)
    by (auto simp: set_cache_cells)
  have inj: "inj_on ?ptr (set (cache_cells n))"
  proof (rule inj_onI)
    fix c d assume cd: "c \<in> set (cache_cells n)" "d \<in> set (cache_cells n)" "?ptr c = ?ptr d"
    have "fst c * unat n + snd c = fst d * unat n + snd d" using cd(3) unfolding ptr(1) [OF cd(1)] ptr(1) [OF cd(2)] .
    then have "snd c = snd d \<and> fst c = fst d" by (rule cell_index_inj [OF ptr(3) [OF cd(1)] ptr(3) [OF cd(2)]])
    then show "c = d" by (simp add: prod_eq_iff)
  qed
  have in_xs: "\<forall>c \<in> set (cache_cells n). ?ptr c < length xs" using ptr(2) assms(2) by simp
  obtain ys where ys: "visit_all ?f (cache_cells n) xs = Some ys" "length ys = length xs"
    "\<forall>c \<in> set (cache_cells n). ys ! ?ptr c = g (fst c) (snd c)"
    using visit_all_rewrite [OF distinct_cache_cells inj in_xs, of "\<lambda>c x. Some (g (fst c) (snd c))" "\<lambda>c. g (fst c) (snd c)"] by auto
  have "visit_all f (cache_cells n) xs = visit_all ?f (cache_cells n) xs"
  proof (rule visit_all_cong_inv [where I = "\<lambda>xs. length xs = unat n * unat n"])
    fix c and xs xs' :: "'a list"
    assume c: "c \<in> set (cache_cells n)" "length xs = unat n * unat n"
    show "f c xs = ?f c xs" using assms(3) [OF c] ptr(2) [OF c(1)] c(2) by (simp add: mem_at_Some)
    assume "?f c xs = Some xs'"
    then show "length xs' = unat n * unat n" using c(2) by (auto simp: mem_at_def write_at_def split: if_splits)
  qed (fact assms(2))
  moreover have "ys ! (i * unat n + j) = g i j" if "i < unat n" "j < unat n" for i j
    using bspec [OF ys(3), of "(i, j)"] ptr(1) [of "(i, j)"] that by (simp add: set_cache_cells)
  ultimately show ?thesis using ys(1,2) assms(2) by auto
qed

text \<open>
  The tables after \<open>computeCaches\<close>, whatever radius they were made for before: old tables of the
  same radius hold the distances already.
\<close>

definition cached_ok :: "inflation_layer \<Rightarrow> bool" where
  "cached_ok l \<longleftrightarrow>
     (let n = unat (cached_cell_inflation_radius l) + 2
      in cached_cell_inflation_radius l \<noteq> 0 \<longrightarrow>
         length (cached_distances l) = n * n \<and> length (cached_costs l) = n * n \<and>
         (\<forall>i < n. \<forall>j < n. cached_distances l ! (i * n + j) = hypot (real i) (real j)))"

section \<open>The costs\<close>

text \<open>With a scaling factor that is not negative every distance has a cost, which falls with the distance.\<close>

lemma real_to_u8_floor: "0 \<le> x \<Longrightarrow> x < 256 \<Longrightarrow> real_to_u8 x = Some (word_of_int \<lfloor>x\<rfloor>)"
  by (simp add: real_to_u8_def trunc_def)

lemma computeCost_far:
  assumes "0 \<le> cost_scaling_factor l" and "distance \<noteq> 0" and "il_inscribed_radius l < distance * il_resolution l"
  shows "computeCost l distance = Some (word_of_int \<lfloor>252 * exp (- cost_scaling_factor l * (distance * il_resolution l - il_inscribed_radius l))\<rfloor>)"
    and "0 \<le> \<lfloor>252 * exp (- cost_scaling_factor l * (distance * il_resolution l - il_inscribed_radius l))\<rfloor>"
    and "\<lfloor>252 * exp (- cost_scaling_factor l * (distance * il_resolution l - il_inscribed_radius l))\<rfloor> \<le> 252"
proof -
  let ?e = "exp (- cost_scaling_factor l * (distance * il_resolution l - il_inscribed_radius l))"
  have "- cost_scaling_factor l * (distance * il_resolution l - il_inscribed_radius l) \<le> 0"
    using assms(1,3) by (simp add: mult_nonneg_nonneg)
  then have e: "0 < ?e" "?e \<le> 1" by simp_all
  then have "0 \<le> 252 * ?e" "252 * ?e < 253" by linarith+
  then show "0 \<le> \<lfloor>252 * ?e\<rfloor>" "\<lfloor>252 * ?e\<rfloor> \<le> 252" by (simp_all add: floor_le_iff)
  have "real_to_u8 (252 * ?e) = Some (word_of_int \<lfloor>252 * ?e\<rfloor>)" by (rule real_to_u8_floor) (use e in linarith)+
  then show "computeCost l distance = Some (word_of_int \<lfloor>252 * ?e\<rfloor>)"
    using assms(2,3) by (simp add: computeCost_def INSCRIBED_INFLATED_OBSTACLE_def)
qed

lemma computeCost_total:
  assumes "0 \<le> cost_scaling_factor l"
  shows "\<exists>cost. computeCost l distance = Some cost"
proof (cases "distance = 0 \<or> distance * il_resolution l \<le> il_inscribed_radius l")
  case False
  then show ?thesis using computeCost_far(1) [OF assms, of distance] by auto
qed (auto simp: computeCost_def)

lemma computeCost_antimono:
  assumes "0 \<le> cost_scaling_factor l" and "0 < il_resolution l" and "0 \<le> d" and "d \<le> d'"
    and "computeCost l d = Some c" and "computeCost l d' = Some c'"
  shows "c' \<le> c"
proof -
  have le: "d * il_resolution l \<le> d' * il_resolution l" using assms(2,4) by simp
  consider "d' = 0" | "d' \<noteq> 0" "d' * il_resolution l \<le> il_inscribed_radius l"
    | "d' \<noteq> 0" "il_inscribed_radius l < d' * il_resolution l" by linarith
  then show ?thesis
  proof cases
    case 1
    then show ?thesis using assms(3-6) by simp
  next
    case 2
    then show ?thesis using assms(5,6) le by (auto simp: computeCost_def cost_values split: if_splits)
  next
    case 3
    let ?f = "\<lambda>d. \<lfloor>252 * exp (- cost_scaling_factor l * (d * il_resolution l - il_inscribed_radius l))\<rfloor>"
    have c': "c' = word_of_int (?f d')" "0 \<le> ?f d'" "?f d' \<le> 252"
      using computeCost_far [OF assms(1) 3] assms(6) by simp_all
    then have u': "uint c' = ?f d'" by (simp add: uint_word_of_int_eq take_bit_int_eq_self)
    show ?thesis
    proof (cases "d = 0 \<or> d * il_resolution l \<le> il_inscribed_radius l")
      case True
      then have "c = LETHAL_OBSTACLE \<or> c = INSCRIBED_INFLATED_OBSTACLE" using assms(5) by (auto simp: computeCost_def split: if_splits)
      then show ?thesis using u' c'(3) by (auto simp: word_le_def cost_values)
    next
      case False
      then have c: "c = word_of_int (?f d)" "0 \<le> ?f d" "?f d \<le> 252"
        using computeCost_far [OF assms(1), of d] assms(5) by simp_all
      then have "uint c = ?f d" by (simp add: uint_word_of_int_eq take_bit_int_eq_self)
      moreover have "?f d' \<le> ?f d"
        using le assms(1) by (intro floor_mono) (simp add: mult_left_mono)
      ultimately show ?thesis using u' by (simp add: word_le_def)
    qed
  qed
qed

text \<open>After \<open>computeCaches\<close> the layer is ready.\<close>

lemma vector_resize_length [simp]: "length (vector_resize n x xs) = n"
  by (simp add: vector_resize_def)

lemma computeCost_tables [simp]:
  "computeCost (l\<lparr>cached_costs := cs\<rparr>) = computeCost l" "computeCost (l\<lparr>cached_distances := ds\<rparr>) = computeCost l"
  "computeCost (l\<lparr>cache_length := n\<rparr>) = computeCost l" "computeCost (l\<lparr>distance_matrix := mx\<rparr>) = computeCost l"
  "computeCost (l\<lparr>inflation_cells := ic\<rparr>) = computeCost l" "computeCost (l\<lparr>cached_cell_inflation_radius := r\<rparr>) = computeCost l"
  "computeCost (l\<lparr>il_seen := sn\<rparr>) = computeCost l" "computeCost (l\<lparr>il_current := b\<rparr>) = computeCost l"
  by (simp_all add: computeCost_def fun_eq_iff)

lemma cache_distances_spec:
  assumes "cell_inflation_radius l \<noteq> 0" and n: "N = cache_radius l + 2" "unat (cache_length l) = N"
    "N < 2 ^ 15" and ok: "cached_ok l"
  shows "\<exists>ds cs. cache_distances l = Some (l\<lparr>cached_costs := cs, cached_distances := ds,
      cached_cell_inflation_radius := cell_inflation_radius l\<rparr>) \<and>
    length ds = N * N \<and> length cs = N * N \<and> (\<forall>i < N. \<forall>j < N. ds ! (i * N + j) = hypot (real i) (real j))"
proof (cases "cell_inflation_radius l = cached_cell_inflation_radius l")
  case True
  then have "length (cached_distances l) = N * N" "length (cached_costs l) = N * N"
    "\<forall>i < N. \<forall>j < N. cached_distances l ! (i * N + j) = hypot (real i) (real j)"
    using ok assms(1) n(1) by (simp_all add: cached_ok_def cache_radius_def Let_def)
  then show ?thesis using True
    by (intro exI [of _ "cached_distances l"] exI [of _ "cached_costs l"]) (simp add: cache_distances_def)
next
  case False
  have "N * N < 2 ^ 15 * 2 ^ 15" using n(3) by (intro mult_strict_mono) simp_all
  then have n2: "unat (cache_length l * cache_length l) = N * N" using n(2) by (subst unat_mult_lem [THEN iffD1]) simp_all
  let ?f = "\<lambda>(i, j) ds. write_at ds (cache_index (cache_length l) (of_nat i) (of_nat j)) (hypot (real i) (real j))"
  obtain ds where "visit_all ?f (cache_cells (cache_length l)) (vector_resize (N * N) 0 (cached_distances l)) = Some ds"
    "length ds = N * N" "\<forall>i < N. \<forall>j < N. ds ! (i * N + j) = hypot (real i) (real j)"
    using fill_cache [of "cache_length l" "vector_resize (N * N) 0 (cached_distances l)" ?f "\<lambda>i j. hypot (real i) (real j)"] n
    by (auto simp: split_beta)
  then show ?thesis
    using False n2 by (intro exI [of _ ds] exI [of _ "vector_resize (N * N) 0 (cached_costs l)"]) (simp add: cache_distances_def Let_def)
qed

lemma cache_costs_spec:
  assumes n: "unat (cache_length l) = N" "N < 2 ^ 15" and len: "length (cached_distances l) = N * N" "length (cached_costs l) = N * N"
    and ds: "\<forall>i < N. \<forall>j < N. cached_distances l ! (i * N + j) = hypot (real i) (real j)" and costs: "0 \<le> cost_scaling_factor l"
  shows "\<exists>cs. cache_costs l = Some (l\<lparr>cached_costs := cs\<rparr>) \<and> length cs = N * N \<and>
    (\<forall>i < N. \<forall>j < N. computeCost l (hypot (real i) (real j)) = Some (cs ! (i * N + j)))"
proof -
  let ?n = "cache_length l" and ?cost = "\<lambda>i j. the (computeCost l (hypot (real i) (real j)))"
  let ?f = "\<lambda>(i, j) cs. do {
      d \<leftarrow> mem_at (cached_distances l) (cache_index ?n (of_nat i) (of_nat j));
      cost \<leftarrow> computeCost l d;
      write_at cs (cache_index ?n (of_nat i) (of_nat j)) cost
    }"
  have some: "computeCost l (hypot (real i) (real j)) = Some (?cost i j)" for i j
    using computeCost_total [OF costs, of "hypot (real i) (real j)"] by auto
  have "?f c xs = write_at xs (cache_index ?n (of_nat (fst c)) (of_nat (snd c))) (?cost (fst c) (snd c))"
    if c: "c \<in> set (cache_cells ?n)" for c xs
  proof -
    have s: "unat (of_nat (fst c) :: u32) = fst c" "unat (of_nat (snd c) :: u32) = snd c" "fst c < N" "snd c < N"
      using c n by (auto simp: set_cache_cells unat_of_nat take_bit_nat_eq_self)
    have "cache_index ?n (of_nat (fst c)) (of_nat (snd c)) = fst c * N + snd c"
      "cache_index ?n (of_nat (fst c)) (of_nat (snd c)) < length (cached_distances l)"
      using cache_index_unat [of "of_nat (fst c)" ?n "of_nat (snd c)"] s n len(1) by simp_all
    moreover obtain k where "computeCost l (hypot (real (fst c)) (real (snd c))) = Some k"
      using computeCost_total [OF costs] by blast
    ultimately show ?thesis using ds s(3,4) by (simp add: split_beta mem_at_Some)
  qed
  then obtain cs where "visit_all ?f (cache_cells ?n) (cached_costs l) = Some cs" "length cs = N * N"
    "\<forall>i < N. \<forall>j < N. cs ! (i * N + j) = ?cost i j"
    using fill_cache [of ?n "cached_costs l" ?f ?cost] n len(2) by auto
  then show ?thesis using some by (intro exI [of _ cs]) (simp add: cache_costs_def Let_def)
qed

lemma computeCaches_ready:
  assumes R: "cell_inflation_radius l \<noteq> 0" "cache_radius l + 2 < 2 ^ 15" and ok: "cached_ok l"
    and costs: "0 \<le> cost_scaling_factor l"
  shows "\<exists>l' n cr ds cs mx ic. computeCaches l = Some l' \<and> il_ready l' \<and> cached_ok l' \<and>
    l' = l\<lparr>cache_length := n, cached_cell_inflation_radius := cr, cached_distances := ds, cached_costs := cs,
      distance_matrix := mx, inflation_cells := ic\<rparr>"
proof -
  let ?n = "cell_inflation_radius l + 2" and ?N = "cache_radius l + 2"
  let ?l0 = "l\<lparr>cache_length := ?n\<rparr>"
  have n: "unat ?n = ?N" using R(2) unfolding cache_radius_def by (subst unat_add_lem [THEN iffD1]) simp_all
  have "cached_ok ?l0" using ok by (simp add: cached_ok_def)
  then obtain ds cs0 where ds: "cache_distances ?l0 = Some (?l0\<lparr>cached_costs := cs0, cached_distances := ds,
      cached_cell_inflation_radius := cell_inflation_radius l\<rparr>)"
    "length ds = ?N * ?N" "length cs0 = ?N * ?N" "\<forall>i < ?N. \<forall>j < ?N. ds ! (i * ?N + j) = hypot (real i) (real j)"
    using cache_distances_spec [of ?l0 ?N] R n by (auto simp: cache_radius_def)
  let ?l1 = "?l0\<lparr>cached_costs := cs0, cached_distances := ds, cached_cell_inflation_radius := cell_inflation_radius l\<rparr>"
  obtain cs where cs: "cache_costs ?l1 = Some (?l1\<lparr>cached_costs := cs\<rparr>)" "length cs = ?N * ?N"
    "\<forall>i < ?N. \<forall>j < ?N. computeCost l (hypot (real i) (real j)) = Some (cs ! (i * ?N + j))"
    using cache_costs_spec [of ?l1 ?N] n R(2) ds(2-4) costs by auto
  let ?l2 = "?l1\<lparr>cached_costs := cs\<rparr>"
  have "unat (cell_inflation_radius ?l2) + 2 < 2 ^ 15" "int ?N = int (unat (cell_inflation_radius ?l2)) + 2"
    using R(2) by (simp_all add: cache_radius_def)
  from generateIntegerDistances_spec [OF this] obtain mx where
    mx: "generateIntegerDistances ?l2 = Some (max_level (int ?N), ?l2\<lparr>distance_matrix := mx\<rparr>)"
    "square_matrix (nat (2 * int ?N + 1)) mx"
    "\<forall>p. norm2 p \<le> int ?N * int ?N \<longrightarrow> mx ! nat (fst p + int ?N) ! nat (snd p + int ?N) = level_of (int ?N) (norm2 p)"
    by blast
  let ?l' = "?l2\<lparr>distance_matrix := mx, inflation_cells := replicate (max_level (int ?N) + 1) []\<rparr>"
  have run: "computeCaches l = Some ?l'"
    unfolding computeCaches_def using R(1) by (simp only: ds(1) cs(1) mx(1) if_False bind.bind_lunit prod.case)
  have r: "cache_radius ?l' = cache_radius l" by (simp add: cache_radius_def)
  have "0 < cache_radius l" using R(1) by (simp add: cache_radius_def unat_gt_0)
  then have "il_ready ?l'"
    using R(2) ds(2,4) cs(2,3) mx(2,3) r by (simp add: il_ready_def Let_def)
  moreover have "cached_ok ?l'"
    using ds(2,4) cs(2) by (simp add: cached_ok_def cache_radius_def Let_def)
  ultimately show ?thesis using run
    by (intro exI [of _ ?l'] exI [of _ ?n] exI [of _ "cell_inflation_radius l"] exI [of _ ds] exI [of _ cs] exI [of _ mx]
        exI [of _ "replicate (max_level (int ?N) + 1) []"]) simp
qed

end
