(* ===== verification/Inflation_Wave.thy ===== *)
theory Inflation_Wave
  imports Inflation_Tables
begin

text \<open>
  The wave of the inflation layer: the invariant of its two nested loops, and what \<open>updateCosts\<close>
  does to the master grid.
\<close>

section \<open>Cells and their sources\<close>

definition cd_pos :: "cell_data \<Rightarrow> nat \<times> nat" where
  "cd_pos c = (unat (cd_x c), unat (cd_y c))"

definition cd_src :: "cell_data \<Rightarrow> nat \<times> nat" where
  "cd_src c = (unat (cd_src_x c), unat (cd_src_y c))"

definition grid_cells :: "costmap \<Rightarrow> (nat \<times> nat) set" where
  "grid_cells m = {p. fst p < width m \<and> snd p < height m}"

definition idx :: "costmap \<Rightarrow> nat \<times> nat \<Rightarrow> nat" where
  "idx m p = snd p * width m + fst p"

text \<open>The squared distance of two cells.\<close>

definition gap2 :: "nat \<times> nat \<Rightarrow> nat \<times> nat \<Rightarrow> int" where
  "gap2 p s = norm2 (int (fst p) - int (fst s), int (snd p) - int (snd s))"

definition cache_size :: "inflation_layer \<Rightarrow> nat" where
  "cache_size l = cache_radius l + 2"

definition in_reach :: "inflation_layer \<Rightarrow> nat \<times> nat \<Rightarrow> nat \<times> nat \<Rightarrow> bool" where
  "in_reach l p s \<longleftrightarrow> gap2 p s \<le> int (cache_radius l) * int (cache_radius l)"

definition wave_level :: "inflation_layer \<Rightarrow> nat \<times> nat \<Rightarrow> nat \<times> nat \<Rightarrow> nat" where
  "wave_level l p s = level_of (int (cache_size l)) (gap2 p s)"

definition wave_cost :: "inflation_layer \<Rightarrow> nat \<times> nat \<Rightarrow> nat \<times> nat \<Rightarrow> u8" where
  "wave_cost l p s = the (computeCost l (sqrt (real_of_int (gap2 p s))))"

lemma gap2_nonneg [simp]: "0 \<le> gap2 p s"
  by (simp add: gap2_def)

lemma gap2_0 [simp]: "gap2 p s = 0 \<longleftrightarrow> p = s"
  by (auto simp: gap2_def norm2_zero prod_eq_iff)

lemma gap2_same [simp]: "gap2 p p = 0"
  by simp

lemma wave_cost_same [simp]: "wave_cost l p p = LETHAL_OBSTACLE"
  by (simp add: wave_cost_def gap2_def norm2_def computeCost_def)

lemma idx_less: "grid_ok m \<Longrightarrow> p \<in> grid_cells m \<Longrightarrow> idx m p < length (costs m)"
  using cell_in_grid [of m "fst p" "snd p"] by (simp add: grid_cells_def idx_def)

lemma idx_inj: "p \<in> grid_cells m \<Longrightarrow> q \<in> grid_cells m \<Longrightarrow> idx m p = idx m q \<longleftrightarrow> p = q"
  using cell_index_inj [of "fst p" "width m" "fst q" "snd p" "snd q"] by (auto simp: grid_cells_def idx_def prod_eq_iff)

lemma ready_fields:
  assumes "il_ready l" and "N = cache_size l"
  shows "0 < cache_radius l" "N = cache_radius l + 2" "N < 2 ^ 15" "cache_length l = cell_inflation_radius l + 2"
    "unat (cache_length l) = N" "length (cached_distances l) = N * N" "length (cached_costs l) = N * N"
    "i < N \<Longrightarrow> j < N \<Longrightarrow> cached_distances l ! (i * N + j) = hypot (real i) (real j)"
    "i < N \<Longrightarrow> j < N \<Longrightarrow> computeCost l (hypot (real i) (real j)) = Some (cached_costs l ! (i * N + j))"
    "square_matrix (nat (2 * int N + 1)) (distance_matrix l)"
    "norm2 p \<le> int N * int N \<Longrightarrow> distance_matrix l ! nat (fst p + int N) ! nat (snd p + int N) = level_of (int N) (norm2 p)"
    "inflation_cells l = replicate (max_level (int N) + 1) []"
proof -
  note r = assms(1) [unfolded il_ready_def Let_def]
  have N: "N = cache_radius l + 2" using assms(2) by (simp add: cache_size_def)
  show "0 < cache_radius l" "N = cache_radius l + 2" "N < 2 ^ 15" "cache_length l = cell_inflation_radius l + 2"
    "length (cached_distances l) = N * N" "length (cached_costs l) = N * N"
    "i < N \<Longrightarrow> j < N \<Longrightarrow> cached_distances l ! (i * N + j) = hypot (real i) (real j)"
    "i < N \<Longrightarrow> j < N \<Longrightarrow> computeCost l (hypot (real i) (real j)) = Some (cached_costs l ! (i * N + j))"
    "square_matrix (nat (2 * int N + 1)) (distance_matrix l)"
    "norm2 p \<le> int N * int N \<Longrightarrow> distance_matrix l ! nat (fst p + int N) ! nat (snd p + int N) = level_of (int N) (norm2 p)"
    "inflation_cells l = replicate (max_level (int N) + 1) []"
    unfolding N using r by blast+
  have "unat (cell_inflation_radius l + 2) = unat (cell_inflation_radius l) + 2"
    using r by (subst unat_add_lem [THEN iffD1]) (simp_all add: cache_radius_def)
  then show "unat (cache_length l) = N" using r N by (simp add: cache_radius_def)
qed

section \<open>The lookups\<close>

lemma unat_offset:
  fixes a b :: u32
  shows "unat (if a > b then a - b else b - a) = nat \<bar>int (unat a) - int (unat b)\<bar>"
proof (cases "b < a")
  case True
  then have "unat b < unat a" "unat (a - b) = unat a - unat b" by (simp_all add: word_less_nat_alt unat_sub order_less_imp_le)
  then show ?thesis using True by (simp del: of_nat_unat)
next
  case False
  then have "a \<le> b" by simp
  then have "unat a \<le> unat b" "unat (b - a) = unat b - unat a" by (simp_all add: word_le_nat_alt unat_sub)
  then show ?thesis using False by (simp del: of_nat_unat)
qed

lemma unat_diff_add:
  fixes a b r :: u32
  assumes "0 \<le> int (unat a) - int (unat b) + int (unat r)" and "int (unat a) - int (unat b) + int (unat r) < 2 ^ 32"
  shows "unat (a - b + r) = nat (int (unat a) - int (unat b) + int (unat r))"
proof -
  have "uint (a - b + r) = ((uint a - uint b) mod 2 ^ 32 + uint r) mod 2 ^ 32"
    by (simp only: uint_word_ariths(1,2)) simp
  also have "\<dots> = (uint a - uint b + uint r) mod 2 ^ 32" by (rule mod_add_left_eq)
  also have "\<dots> = uint a - uint b + uint r"
    using assms by (intro mod_pos_pos_trivial) simp_all
  finally have u: "uint (a - b + r) = uint a - uint b + uint r" .
  show ?thesis by (subst unat_eq_nat_uint) (simp only: of_nat_unat u)
qed

lemma gap2_hypot:
  "hypot (real (nat \<bar>int (fst p) - int (fst s)\<bar>)) (real (nat \<bar>int (snd p) - int (snd s)\<bar>)) = sqrt (real_of_int (gap2 p s))"
  by (simp add: hypot_def gap2_def norm2_def power2_eq_square)

text \<open>A cell at most one step outside the radius of its source.\<close>

definition adjacent_range :: "inflation_layer \<Rightarrow> cell_data \<Rightarrow> bool" where
  "adjacent_range l c \<longleftrightarrow> \<bar>int (fst (cd_pos c)) - int (fst (cd_src c))\<bar> < int (cache_size l) \<and>
     \<bar>int (snd (cd_pos c)) - int (snd (cd_src c))\<bar> < int (cache_size l)"

lemma cache_lookup:
  assumes "il_ready l" and "adjacent_range l c"
  shows "distanceLookup l c = Some (sqrt (real_of_int (gap2 (cd_pos c) (cd_src c))))"
    and "costLookup l c = Some (wave_cost l (cd_pos c) (cd_src c))"
proof -
  define N where "N = cache_size l"
  note r = ready_fields [OF assms(1) N_def]
  let ?i = "nat \<bar>int (fst (cd_pos c)) - int (fst (cd_src c))\<bar>" and ?j = "nat \<bar>int (snd (cd_pos c)) - int (snd (cd_src c))\<bar>"
  obtain dx dy where d: "cell_offsets c = (dx, dy)" by (cases "cell_offsets c")
  have u: "unat dx = ?i" "unat dy = ?j"
  proof -
    have "unat (fst (cell_offsets c)) = ?i" "unat (snd (cell_offsets c)) = ?j"
      unfolding cell_offsets_def cd_pos_def cd_src_def fst_conv snd_conv by (rule unat_offset)+
    then show "unat dx = ?i" "unat dy = ?j" using d by simp_all
  qed
  have ij: "?i < N" "?j < N" using assms(2) by (auto simp: adjacent_range_def N_def)
  have index: "cache_index (cache_length l) dx dy = ?i * N + ?j" "cache_index (cache_length l) dx dy < N * N"
    using cache_index_unat [of dx "cache_length l" dy] u ij r(3,5) by simp_all
  show "distanceLookup l c = Some (sqrt (real_of_int (gap2 (cd_pos c) (cd_src c))))"
    using index r(6) r(8) [OF ij, unfolded gap2_hypot] by (simp add: distanceLookup_def d mem_at_Some)
  show "costLookup l c = Some (wave_cost l (cd_pos c) (cd_src c))"
    using index r(7) r(9) [OF ij, unfolded gap2_hypot] by (simp add: costLookup_def d mem_at_Some wave_cost_def)
qed

lemma reach_level:
  assumes "il_ready l" and "in_reach l p s"
  shows "gap2 p s \<le> int (cache_size l) * int (cache_size l)" and "wave_level l p s < max_level (int (cache_size l)) + 1"
proof -
  have "int (cache_radius l) * int (cache_radius l) \<le> int (cache_size l) * int (cache_size l)"
    by (intro mult_mono) (simp_all add: cache_size_def)
  then show le: "gap2 p s \<le> int (cache_size l) * int (cache_size l)" using assms(2) by (simp add: in_reach_def)
  show "wave_level l p s < max_level (int (cache_size l)) + 1"
    unfolding wave_level_def max_level_def using level_of_mono [OF le] by (simp add: less_Suc_eq_le)
qed

lemma reach_radius: "sqrt (real_of_int (gap2 p s)) \<le> real (cache_radius l) \<longleftrightarrow> in_reach l p s"
proof -
  have "sqrt (real_of_int (gap2 p s)) \<le> real (cache_radius l) \<longleftrightarrow>
    sqrt (real_of_int (gap2 p s)) \<le> sqrt (real_of_int (int (cache_radius l) * int (cache_radius l)))" by simp
  then show ?thesis by (simp only: real_sqrt_le_iff of_int_le_iff in_reach_def)
qed

lemma reach_adjacent:
  assumes "in_reach l (cd_pos c) (cd_src c)"
  shows "\<bar>int (fst (cd_pos c)) - int (fst (cd_src c))\<bar> \<le> int (cache_radius l) \<and>
    \<bar>int (snd (cd_pos c)) - int (snd (cd_src c))\<bar> \<le> int (cache_radius l)"
proof -
  let ?x = "int (fst (cd_pos c)) - int (fst (cd_src c))" and ?y = "int (snd (cd_pos c)) - int (snd (cd_src c))"
  have "?x * ?x \<le> int (cache_radius l) * int (cache_radius l)" "?y * ?y \<le> int (cache_radius l) * int (cache_radius l)"
    using assms zero_le_square [of ?x] zero_le_square [of ?y] unfolding in_reach_def gap2_def norm2_def fst_conv snd_conv
    by linarith+
  then show ?thesis using abs_le_square_iff [of _ "int (cache_radius l)"] by (simp add: power2_eq_square)
qed

section \<open>One cell\<close>

definition entry_ok :: "inflation_layer \<Rightarrow> costmap \<Rightarrow> (nat \<times> nat) set \<Rightarrow> cell_data \<Rightarrow> bool" where
  "entry_ok l m obs c \<longleftrightarrow> cd_pos c \<in> grid_cells m \<and> unat (cd_index c) = idx m (cd_pos c) \<and> cd_src c \<in> obs"

definition bins_ok :: "inflation_layer \<Rightarrow> costmap \<Rightarrow> (nat \<times> nat) set \<Rightarrow> cell_data list list \<Rightarrow> bool" where
  "bins_ok l m obs bins \<longleftrightarrow> length bins = max_level (int (cache_size l)) + 1 \<and>
     (\<forall>k < length bins. \<forall>c \<in> set (bins ! k). entry_ok l m obs c \<and> in_reach l (cd_pos c) (cd_src c) \<and>
       wave_level l (cd_pos c) (cd_src c) = k)"

definition bins_grow :: "cell_data list list \<Rightarrow> cell_data list list \<Rightarrow> bool" where
  "bins_grow bins bins' \<longleftrightarrow> length bins' = length bins \<and> (\<forall>k < length bins. \<exists>cs. bins' ! k = bins ! k @ cs)"

lemma bins_grow_refl [simp]: "bins_grow bins bins"
  by (simp add: bins_grow_def)

lemma bins_grow_trans: "bins_grow a b \<Longrightarrow> bins_grow b c \<Longrightarrow> bins_grow a c"
  unfolding bins_grow_def by (metis append.assoc)

lemma bins_grow_set: "bins_grow a b \<Longrightarrow> k < length a \<Longrightarrow> set (a ! k) \<subseteq> set (b ! k)"
  unfolding bins_grow_def by fastforce

lemma enqueue_spec:
  assumes ready: "il_ready l" and c: "entry_ok l m obs c" "adjacent_range l c" and bins: "bins_ok l m obs bins"
    and grid: "grid_ok m" "length seen = length (costs m)"
  shows "\<exists>bins'. enqueue l c (seen, bins, arr) = Some (seen, bins', arr) \<and> bins_ok l m obs bins' \<and> bins_grow bins bins' \<and>
    (seen ! idx m (cd_pos c) \<or> \<not> in_reach l (cd_pos c) (cd_src c) \<or> c \<in> set (bins' ! wave_level l (cd_pos c) (cd_src c)))"
proof -
  define N where "N = cache_size l"
  note r = ready_fields [OF ready N_def]
  have at: "mem_at seen (unat (cd_index c)) = Some (seen ! idx m (cd_pos c))"
    using c(1) idx_less [OF grid(1)] grid(2) by (simp add: entry_ok_def mem_at_Some)
  have radius: "real (unat (cell_inflation_radius l)) = real (cache_radius l)" by (simp add: cache_radius_def)
  consider "seen ! idx m (cd_pos c)" | "\<not> seen ! idx m (cd_pos c)" "\<not> in_reach l (cd_pos c) (cd_src c)"
    | "\<not> seen ! idx m (cd_pos c)" "in_reach l (cd_pos c) (cd_src c)" by blast
  then show ?thesis
  proof cases
    case 1
    then show ?thesis using at bins by (intro exI [of _ bins]) (simp add: enqueue_def)
  next
    case 2
    then have "sqrt (real_of_int (gap2 (cd_pos c) (cd_src c))) > real (cache_radius l)" using reach_radius [of "cd_pos c" "cd_src c" l] by simp
    then show ?thesis using 2 at bins cache_lookup(1) [OF ready c(2)] radius
      by (intro exI [of _ bins]) (simp add: enqueue_def del: of_nat_unat)
  next
    case 3
    let ?k = "wave_level l (cd_pos c) (cd_src c)"
    let ?x = "int (fst (cd_pos c)) - int (fst (cd_src c))" and ?y = "int (snd (cd_pos c)) - int (snd (cd_src c))"
    have xy: "\<bar>?x\<bar> < int N" "\<bar>?y\<bar> < int N" using c(2) by (simp_all add: adjacent_range_def N_def)
    have not: "\<not> sqrt (real_of_int (gap2 (cd_pos c) (cd_src c))) > real (cache_radius l)"
      using 3(2) reach_radius [of "cd_pos c" "cd_src c" l] by simp
    have rN: "unat (cell_inflation_radius l + 2) = N" using r(4,5) by simp
    have small: "int N < 2 ^ 15" using r(3) by simp
    have ux: "unat (cd_x c - cd_src_x c + (cell_inflation_radius l + 2)) = nat (?x + int N)"
      using xy small unat_diff_add [of "cd_x c" "cd_src_x c" "cell_inflation_radius l + 2", unfolded rN]
      by (simp add: cd_pos_def cd_src_def del: of_nat_unat)
    have uy: "unat (cd_y c - cd_src_y c + (cell_inflation_radius l + 2)) = nat (?y + int N)"
      using xy small unat_diff_add [of "cd_y c" "cd_src_y c" "cell_inflation_radius l + 2", unfolded rN]
      by (simp add: cd_pos_def cd_src_def del: of_nat_unat)
    have nx: "nat (?x + int N) < nat (2 * int N + 1)" "nat (?y + int N) < nat (2 * int N + 1)" using xy by linarith+
    have line: "mem_at (distance_matrix l) (nat (?x + int N)) = Some (distance_matrix l ! nat (?x + int N))"
      "mem_at (distance_matrix l ! nat (?x + int N)) (nat (?y + int N)) = Some (distance_matrix l ! nat (?x + int N) ! nat (?y + int N))"
      using r(10) nx by (simp_all add: square_matrix_def mem_at_Some)
    have level: "distance_matrix l ! nat (?x + int N) ! nat (?y + int N) = ?k"
      using r(11) [of "(?x, ?y)"] reach_level(1) [OF ready 3(2)] by (simp add: wave_level_def gap2_def N_def)
    have k: "?k < length bins" using bins reach_level(2) [OF ready 3(2)] by (simp add: bins_ok_def)
    let ?bins = "bins[?k := bins ! ?k @ [c]]"
    have "enqueue l c (seen, bins, arr) = Some (seen, ?bins, arr)"
      using at 3(1) cache_lookup(1) [OF ready c(2)] radius not ux uy line level k
      by (simp add: enqueue_def mem_at_Some write_at_def del: of_nat_unat)
    moreover have "bins_ok l m obs ?bins"
      using bins c(1) 3(2) k by (auto simp: bins_ok_def nth_list_update)
    moreover have "\<exists>cs. ?bins ! i = bins ! i @ cs" if "i < length bins" for i
      using that by (cases "i = ?k") simp_all
    then have "bins_grow bins ?bins" by (simp add: bins_grow_def)
    ultimately show ?thesis using k by (intro exI [of _ ?bins]) simp
  qed
qed

lemma enqueue_all:
  assumes ready: "il_ready l" and grid: "grid_ok m" "length seen = length (costs m)"
    and cs: "\<forall>(cond, c) \<in> set cs. cond \<longrightarrow> entry_ok l m obs c \<and> adjacent_range l c" and bins: "bins_ok l m obs bins"
  shows "\<exists>bins'. visit_all (\<lambda>(cond, c). enqueue_if cond l c) cs (seen, bins, arr) = Some (seen, bins', arr) \<and>
    bins_ok l m obs bins' \<and> bins_grow bins bins' \<and>
    (\<forall>c. (True, c) \<in> set cs \<longrightarrow> seen ! idx m (cd_pos c) \<or> \<not> in_reach l (cd_pos c) (cd_src c) \<or>
      c \<in> set (bins' ! wave_level l (cd_pos c) (cd_src c)))"
  using cs bins
proof (induction cs arbitrary: bins)
  case (Cons e cs)
  obtain cond c where e: "e = (cond, c)" by (cases e)
  obtain bins1 where b1: "enqueue_if cond l c (seen, bins, arr) = Some (seen, bins1, arr)" "bins_ok l m obs bins1" "bins_grow bins bins1"
    "cond \<longrightarrow> seen ! idx m (cd_pos c) \<or> \<not> in_reach l (cd_pos c) (cd_src c) \<or> c \<in> set (bins1 ! wave_level l (cd_pos c) (cd_src c))"
  proof (cases cond)
    case True
    then show ?thesis
      using that enqueue_spec [OF ready _ _ Cons.prems(2) grid, of c arr] Cons.prems(1) e by (auto simp: enqueue_if_def)
  qed (use that Cons.prems(2) in \<open>simp add: enqueue_if_def\<close>)
  obtain bins' where b: "visit_all (\<lambda>(cond, c). enqueue_if cond l c) cs (seen, bins1, arr) = Some (seen, bins', arr)"
    "bins_ok l m obs bins'" "bins_grow bins1 bins'"
    "\<forall>c. (True, c) \<in> set cs \<longrightarrow> seen ! idx m (cd_pos c) \<or> \<not> in_reach l (cd_pos c) (cd_src c) \<or>
      c \<in> set (bins' ! wave_level l (cd_pos c) (cd_src c))"
    using Cons.IH [of bins1] Cons.prems(1) b1(2) by auto
  have "set (bins1 ! wave_level l (cd_pos c) (cd_src c)) \<subseteq> set (bins' ! wave_level l (cd_pos c) (cd_src c))"
    if "in_reach l (cd_pos c) (cd_src c)"
    using bins_grow_set [OF b(3)] reach_level(2) [OF ready that] b1(2) by (simp add: bins_ok_def)
  then have "cond \<longrightarrow> seen ! idx m (cd_pos c) \<or> \<not> in_reach l (cd_pos c) (cd_src c) \<or> c \<in> set (bins' ! wave_level l (cd_pos c) (cd_src c))"
    using b1(4) by blast
  then show ?case using b1(1) b bins_grow_trans [OF b1(3) b(3)] by (auto simp: e)
qed simp

text \<open>The neighbours of a cell in the grid.\<close>

lemma gap2_one:
  "gap2 q p = 1 \<longleftrightarrow>
     (snd q = snd p \<and> (fst q = fst p + 1 \<or> fst p = fst q + 1)) \<or> (fst q = fst p \<and> (snd q = snd p + 1 \<or> snd p = snd q + 1))"
proof -
  have one: "x * x + y * y = 1 \<longleftrightarrow> (y = 0 \<and> (x = 1 \<or> x = -1)) \<or> (x = 0 \<and> (y = 1 \<or> y = -1))" for x y :: int
  proof
    assume a: "x * x + y * y = 1"
    then have "x * x \<le> 1 * 1" "y * y \<le> 1 * 1" using zero_le_square [of x] zero_le_square [of y] by linarith+
    then have "\<bar>x\<bar> \<le> 1" "\<bar>y\<bar> \<le> 1" using abs_le_square_iff [of x 1] abs_le_square_iff [of y 1] by (simp_all add: power2_eq_square)
    then have "x \<in> {-1, 0, 1}" "y \<in> {-1, 0, 1}" by auto
    then show "(y = 0 \<and> (x = 1 \<or> x = -1)) \<or> (x = 0 \<and> (y = 1 \<or> y = -1))" using a by auto
  qed auto
  show ?thesis unfolding gap2_def norm2_def fst_conv snd_conv one by linarith
qed

lemma neighbour_words:
  assumes ok: "grid_ok m" and c: "entry_ok l m obs c" and xy: "cd_pos c = (x, y)"
  shows "0 < cd_x c \<longleftrightarrow> 0 < x" "0 < cd_y c \<longleftrightarrow> 0 < y"
    "cd_x c < size_x m - 1 \<longleftrightarrow> x + 1 < width m" "cd_y c < size_y m - 1 \<longleftrightarrow> y + 1 < height m"
    "0 < x \<Longrightarrow> unat (cd_x c - 1) = x - 1 \<and> unat (cd_index c - 1) = idx m (x - 1, y)"
    "0 < y \<Longrightarrow> unat (cd_y c - 1) = y - 1 \<and> unat (cd_index c - size_x m) = idx m (x, y - 1)"
    "x + 1 < width m \<Longrightarrow> unat (cd_x c + 1) = x + 1 \<and> unat (cd_index c + 1) = idx m (x + 1, y)"
    "y + 1 < height m \<Longrightarrow> unat (cd_y c + 1) = y + 1 \<and> unat (cd_index c + size_x m) = idx m (x, y + 1)"
proof -
  have u: "unat (cd_x c) = x" "unat (cd_y c) = y" "unat (cd_index c) = y * width m + x" "x < width m" "y < height m"
    using c xy by (simp_all add: entry_ok_def cd_pos_def grid_cells_def idx_def)
  have bound: "idx m q < 2 ^ 32" if "q \<in> grid_cells m" for q
    using idx_less [OF ok that] ok by (simp add: grid_ok_def)
  have pred: "unat (w - 1) = unat w - 1" if "0 < unat w" for w :: u32
    using that by (intro unat_minus_one) auto
  have succ: "unat (a + b) = unat a + unat b" if "unat a + unat b < 2 ^ 32" for a b :: u32
    using that by (subst unat_add_lem [THEN iffD1]) simp_all
  show "0 < cd_x c \<longleftrightarrow> 0 < x" "0 < cd_y c \<longleftrightarrow> 0 < y" using u(1,2) by (auto simp: word_less_nat_alt)
  show "cd_x c < size_x m - 1 \<longleftrightarrow> x + 1 < width m" "cd_y c < size_y m - 1 \<longleftrightarrow> y + 1 < height m"
    using u pred [of "size_x m"] pred [of "size_y m"] by (auto simp: word_less_nat_alt)
  show "unat (cd_x c - 1) = x - 1 \<and> unat (cd_index c - 1) = idx m (x - 1, y)" if "0 < x"
    using that u pred [of "cd_x c"] pred [of "cd_index c"] by (simp add: idx_def)
  show "unat (cd_y c - 1) = y - 1 \<and> unat (cd_index c - size_x m) = idx m (x, y - 1)" if "0 < y"
  proof -
    have "width m \<le> y * width m" using that by simp
    then have "width m \<le> y * width m + x" by (rule trans_le_add1)
    then have le: "size_x m \<le> cd_index c" unfolding word_le_nat_alt u(3) .
    then have "unat (cd_index c - size_x m) = y * width m + x - width m" using u(3) by (simp add: unat_sub)
    also have "\<dots> = (y - 1) * width m + x" using that by (cases y) simp_all
    finally show ?thesis using that u pred [of "cd_y c"] by (simp add: idx_def)
  qed
  show "unat (cd_x c + 1) = x + 1 \<and> unat (cd_index c + 1) = idx m (x + 1, y)" if "x + 1 < width m"
  proof -
    have "idx m (x + 1, y) < 2 ^ 32" using bound [of "(x + 1, y)"] that u by (simp add: grid_cells_def)
    moreover have "x + 1 < 2 ^ 32" using that unsigned_less [where ?'a = nat, of "size_x m"] by simp
    ultimately show ?thesis using u succ [of "cd_x c" 1] succ [of "cd_index c" 1] by (simp add: idx_def)
  qed
  show "unat (cd_y c + 1) = y + 1 \<and> unat (cd_index c + size_x m) = idx m (x, y + 1)" if "y + 1 < height m"
  proof -
    have "idx m (x, y + 1) < 2 ^ 32" using bound [of "(x, y + 1)"] that u by (simp add: grid_cells_def)
    moreover have "y + 1 < 2 ^ 32" using that unsigned_less [where ?'a = nat, of "size_y m"] by simp
    ultimately show ?thesis using u succ [of "cd_y c" 1] succ [of "cd_index c" "size_x m"]
      by (simp add: idx_def algebra_simps)
  qed
qed

lemma neighbours_spec:
  assumes ok: "grid_ok m" and c: "entry_ok l m obs c" "in_reach l (cd_pos c) (cd_src c)"
  shows "\<forall>(cond, d) \<in> set (neighbours (size_x m) (size_y m) c). cond \<longrightarrow> entry_ok l m obs d \<and> adjacent_range l d"
    and "q \<in> grid_cells m \<Longrightarrow> gap2 q (cd_pos c) = 1 \<Longrightarrow>
      \<exists>d. (True, d) \<in> set (neighbours (size_x m) (size_y m) c) \<and> cd_pos d = q \<and> cd_src d = cd_src c"
proof -
  obtain x y where xy: "cd_pos c = (x, y)" by (cases "cd_pos c")
  note w = neighbour_words [OF ok c(1) xy]
  have u: "x < width m" "y < height m" "cd_src c \<in> obs" "unat (cd_x c) = x" "unat (cd_y c) = y"
    using c(1) xy by (simp_all add: entry_ok_def grid_cells_def cd_pos_def)
  have r: "\<bar>int x - int (fst (cd_src c))\<bar> < int (cache_size l) - 1" "\<bar>int y - int (snd (cd_src c))\<bar> < int (cache_size l) - 1"
    using reach_adjacent [OF c(2)] by (simp_all add: xy cache_size_def)
  have nb: "entry_ok l m obs d \<and> adjacent_range l d"
    if "cd_src d = cd_src c" "cd_pos d = q" "unat (cd_index d) = idx m q" "q \<in> grid_cells m"
      "\<bar>int (fst q) - int x\<bar> \<le> 1" "\<bar>int (snd q) - int y\<bar> \<le> 1" for d q
    using that r u(3) unfolding entry_ok_def adjacent_range_def by auto
  show "\<forall>(cond, d) \<in> set (neighbours (size_x m) (size_y m) c). cond \<longrightarrow> entry_ok l m obs d \<and> adjacent_range l d"
    using w u nb [of "c\<lparr>cd_index := cd_index c - 1, cd_x := cd_x c - 1\<rparr>" "(x - 1, y)"]
      nb [of "c\<lparr>cd_index := cd_index c - size_x m, cd_y := cd_y c - 1\<rparr>" "(x, y - 1)"]
      nb [of "c\<lparr>cd_index := cd_index c + 1, cd_x := cd_x c + 1\<rparr>" "(x + 1, y)"]
      nb [of "c\<lparr>cd_index := cd_index c + size_x m, cd_y := cd_y c + 1\<rparr>" "(x, y + 1)"]
    by (auto simp: neighbours_def cd_src_def cd_pos_def grid_cells_def)
  assume q: "q \<in> grid_cells m" "gap2 q (cd_pos c) = 1"
  obtain qx qy where qxy: "q = (qx, qy)" by (cases q)
  consider "qy = y" "x = qx + 1" | "qx = x" "y = qy + 1" | "qy = y" "qx = x + 1" | "qx = x" "qy = y + 1"
    using q(2) by (auto simp: gap2_one xy qxy)
  then show "\<exists>d. (True, d) \<in> set (neighbours (size_x m) (size_y m) c) \<and> cd_pos d = q \<and> cd_src d = cd_src c"
  proof cases
    case 1
    then show ?thesis using w(1,5) u
      by (intro exI [of _ "c\<lparr>cd_index := cd_index c - 1, cd_x := cd_x c - 1\<rparr>"]) (simp add: neighbours_def cd_src_def cd_pos_def qxy)
  next
    case 2
    then show ?thesis using w(2,6) u
      by (intro exI [of _ "c\<lparr>cd_index := cd_index c - size_x m, cd_y := cd_y c - 1\<rparr>"]) (simp add: neighbours_def cd_src_def cd_pos_def qxy)
  next
    case 3
    then show ?thesis using w(3,7) u q(1)
      by (intro exI [of _ "c\<lparr>cd_index := cd_index c + 1, cd_x := cd_x c + 1\<rparr>"]) (simp add: neighbours_def cd_src_def cd_pos_def qxy grid_cells_def)
  next
    case 4
    then show ?thesis using w(4,8) u q(1)
      by (intro exI [of _ "c\<lparr>cd_index := cd_index c + size_x m, cd_y := cd_y c + 1\<rparr>"]) (simp add: neighbours_def cd_src_def cd_pos_def qxy grid_cells_def)
  qed
qed

section \<open>The invariant of the wave\<close>

definition cell_value :: "inflation_layer \<Rightarrow> costmap \<Rightarrow> int \<times> int \<times> int \<times> int \<Rightarrow> nat \<times> nat \<Rightarrow> nat \<times> nat \<Rightarrow> u8" where
  "cell_value l m base p s = (case base of (a, b, c, d) \<Rightarrow>
     if in_window a b c d (fst p) (snd p) then inflated l (wave_cost l p s) (costs m ! idx m p) else costs m ! idx m p)"

text \<open>A visited cell has the cost for a source that is at most \<open>k\<close> levels away.\<close>

definition settled ::
  "inflation_layer \<Rightarrow> costmap \<Rightarrow> (nat \<times> nat) set \<Rightarrow> int \<times> int \<times> int \<times> int \<Rightarrow> nat \<Rightarrow> bool list \<Rightarrow> u8 list \<Rightarrow> nat \<times> nat \<Rightarrow> bool" where
  "settled l m obs base k seen arr p \<longleftrightarrow> seen ! idx m p \<and>
     (\<exists>s \<in> obs. in_reach l p s \<and> wave_level l p s \<le> k \<and> arr ! idx m p = cell_value l m base p s)"

text \<open>
  In bin \<open>k\<close>, after \<open>i\<close> of its cells: unvisited cells are untouched, visited ones are settled; the
  sources and their neighbours are visited, or will be in the bins 0 and 1; and they were settled
  there.
\<close>

definition wave_inv ::
  "inflation_layer \<Rightarrow> costmap \<Rightarrow> (nat \<times> nat) set \<Rightarrow> int \<times> int \<times> int \<times> int \<Rightarrow> nat \<Rightarrow> nat \<Rightarrow> wave \<Rightarrow> bool" where
  "wave_inv l m obs base k i s \<longleftrightarrow> (case s of (seen, bins, arr) \<Rightarrow>
     (length seen = length (costs m) \<and> length arr = length (costs m) \<and> bins_ok l m obs bins) \<and>
     (\<forall>p \<in> grid_cells m. if seen ! idx m p then settled l m obs base k seen arr p else arr ! idx m p = costs m ! idx m p) \<and>
     (k = 0 \<longrightarrow> (\<forall>ob \<in> obs. seen ! idx m ob \<or> (\<exists>c \<in> set (bins ! 0). cd_pos c = ob))) \<and>
     (k \<le> 1 \<longrightarrow> (\<forall>ob \<in> obs. seen ! idx m ob \<longrightarrow>
       (\<forall>q \<in> grid_cells m. gap2 q ob = 1 \<longrightarrow> seen ! idx m q \<or> (\<exists>c \<in> set (bins ! 1). cd_pos c = q)))) \<and>
     (\<forall>j < k. j \<le> 1 \<longrightarrow> (\<forall>p \<in> grid_cells m. \<forall>ob \<in> obs. gap2 p ob \<le> int j \<longrightarrow> settled l m obs base j seen arr p)) \<and>
     (k < length bins \<longrightarrow> i \<le> length (bins ! k) \<and> (\<forall>j < i. seen ! idx m (cd_pos (bins ! k ! j)))))"

lemma wave_invD:
  assumes "wave_inv l m obs base k i (seen, bins, arr)"
  shows "length seen = length (costs m)" "length arr = length (costs m)" "bins_ok l m obs bins"
    "p \<in> grid_cells m \<Longrightarrow> seen ! idx m p \<Longrightarrow> settled l m obs base k seen arr p"
    "p \<in> grid_cells m \<Longrightarrow> \<not> seen ! idx m p \<Longrightarrow> arr ! idx m p = costs m ! idx m p"
    "k = 0 \<Longrightarrow> ob \<in> obs \<Longrightarrow> seen ! idx m ob \<or> (\<exists>c \<in> set (bins ! 0). cd_pos c = ob)"
    "k \<le> 1 \<Longrightarrow> ob \<in> obs \<Longrightarrow> seen ! idx m ob \<Longrightarrow> q \<in> grid_cells m \<Longrightarrow> gap2 q ob = 1 \<Longrightarrow>
      seen ! idx m q \<or> (\<exists>c \<in> set (bins ! 1). cd_pos c = q)"
    "j < k \<Longrightarrow> j \<le> 1 \<Longrightarrow> p \<in> grid_cells m \<Longrightarrow> ob \<in> obs \<Longrightarrow> gap2 p ob \<le> int j \<Longrightarrow> settled l m obs base j seen arr p"
    "k < length bins \<Longrightarrow> i \<le> length (bins ! k)" "k < length bins \<Longrightarrow> j < i \<Longrightarrow> seen ! idx m (cd_pos (bins ! k ! j))"
  using assms by (auto simp: wave_inv_def)

lemma settled_mono: "settled l m obs base j seen arr p \<Longrightarrow> j \<le> k \<Longrightarrow> settled l m obs base k seen arr p"
  unfolding settled_def by (meson order_trans)

lemma level_zero:
  assumes "il_ready l" and "in_reach l p s" and "wave_level l p s = 0"
  shows "p = s"
proof (rule ccontr)
  assume "p \<noteq> s"
  then have "0 < gap2 p s" using gap2_nonneg [of p s] gap2_0 [of p s] by linarith
  moreover have "gap2 p s \<in> norm2 ` set (disc_points (int (cache_size l)))"
    using reach_level(1) [OF assms(1,2)] set_disc_points [of "int (cache_size l)"] by (auto simp: gap2_def)
  ultimately have "level_of (int (cache_size l)) 0 < level_of (int (cache_size l)) (gap2 p s)" by (intro level_of_less) simp_all
  then show False using assms(3) by (simp add: wave_level_def)
qed

lemma level_one:
  assumes "il_ready l" and "gap2 p s = 1"
  shows "wave_level l p s = 1" and "in_reach l p s"
proof -
  have R: "0 < cache_radius l" using ready_fields(1) [OF assms(1) refl] .
  then have "1 * 1 \<le> int (cache_radius l) * int (cache_radius l)" by (intro mult_mono) simp_all
  then show "in_reach l p s" using assms(2) by (simp add: in_reach_def)
  have "1 * 1 \<le> int (cache_size l) * int (cache_size l)" by (intro mult_mono) (simp_all add: cache_size_def)
  then have "(1, 0) \<in> set (disc_points (int (cache_size l)))" using set_disc_points [of "int (cache_size l)"] by (simp add: norm2_def)
  then have "(1 :: int) \<in> norm2 ` set (disc_points (int (cache_size l)))" by (auto simp: image_iff norm2_def intro!: bexI [of _ "(1, 0)"])
  then have "{e \<in> norm2 ` set (disc_points (int (cache_size l))). 0 < e \<and> e \<le> 1} = {1}" by fastforce
  then have "level_of (int (cache_size l)) 1 = 1" unfolding level_of_def by simp
  then show "wave_level l p s = 1" by (simp add: wave_level_def assms(2))
qed

lemma bin_entry:
  assumes "bins_ok l m obs bins" and "k < length bins" and "c \<in> set (bins ! k)"
  shows "entry_ok l m obs c" "in_reach l (cd_pos c) (cd_src c)" "wave_level l (cd_pos c) (cd_src c) = k" "cd_pos c \<in> grid_cells m"
    "cd_src c \<in> obs" "unat (cd_index c) = idx m (cd_pos c)"
  using assms by (auto simp: bins_ok_def entry_ok_def)

lemma in_base_window:
  assumes "unat x < 2 ^ 31" and "unat y < 2 ^ 31"
  shows "in_base (a, b, c, d) x y \<longleftrightarrow> in_window a b c d (unat x) (unat y)"
  using assms by (auto simp: in_base_def in_window_def sint_small)

end
