(* ===== verification/Inflation_Spec.thy ===== *)
theory Inflation_Spec
  imports Inflation_Wave
begin

text \<open>
  The invariant of the wave through one cell, one bin and all bins, and what \<open>updateCosts\<close> of the
  inflation layer does to the master grid.
\<close>

section \<open>The loops\<close>

text \<open>What visiting a cell does to the grid and the marks; the bins only grow.\<close>

lemma inflate_cell_spec:
  assumes ready: "il_ready l" and grid: "grid_ok m" "width m < 2 ^ 31" "height m < 2 ^ 31"
    and len: "length seen = length (costs m)" "length arr = length (costs m)" and bins: "bins_ok l m obs bins"
    and c: "entry_ok l m obs c" "in_reach l (cd_pos c) (cd_src c)" and p: "p = cd_pos c" and new: "\<not> seen ! idx m p"
    and old: "arr ! idx m p = costs m ! idx m p"
  shows "\<exists>bins'. inflate_cell l (size_x m) (size_y m) base c (seen, bins, arr) =
      Some (seen[idx m p := True], bins', arr[idx m p := cell_value l m base p (cd_src c)]) \<and>
    bins_ok l m obs bins' \<and> bins_grow bins bins' \<and>
    (\<forall>q \<in> grid_cells m. gap2 q p = 1 \<longrightarrow> seen[idx m p := True] ! idx m q \<or> \<not> in_reach l q (cd_src c) \<or>
      (\<exists>d \<in> set (bins' ! wave_level l q (cd_src c)). cd_pos d = q))"
proof -
  obtain a b e f where base: "base = (a, b, e, f)" by (metis prod_cases4)
  have pg: "p \<in> grid_cells m" and index: "unat (cd_index c) = idx m p" using c(1) p by (simp_all add: entry_ok_def)
  have i: "idx m p < length (costs m)" by (rule idx_less [OF grid(1) pg])
  let ?seen = "seen[idx m p := True]" and ?arr = "arr[idx m p := cell_value l m base p (cd_src c)]"
  have "adjacent_range l c" using reach_adjacent [OF c(2)] by (auto simp: adjacent_range_def cache_size_def)
  then have cost: "costLookup l c = Some (wave_cost l p (cd_src c))" using cache_lookup(2) [OF ready] p by simp
  have "unat (cd_x c) < 2 ^ 31" "unat (cd_y c) < 2 ^ 31" using pg p grid(2,3) by (auto simp: grid_cells_def cd_pos_def)
  then have inb: "in_base base (cd_x c) (cd_y c) \<longleftrightarrow> in_window a b e f (fst p) (snd p)"
    by (simp add: base in_base_window p cd_pos_def)
  have arr: "(if in_base base (cd_x c) (cd_y c) then write_at arr (idx m p) (inflated l (wave_cost l p (cd_src c)) (arr ! idx m p)) else Some arr) =
    Some ?arr"
  proof (cases "in_window a b e f (fst p) (snd p)")
    case True
    then show ?thesis using inb i len(2) old by (simp add: write_at_def cell_value_def base)
  next
    case False
    then have "cell_value l m base p (cd_src c) = arr ! idx m p" using old by (simp add: cell_value_def base)
    then show ?thesis using inb False by simp
  qed
  have "length ?seen = length (costs m)" using len(1) by simp
  from enqueue_all [OF ready grid(1) this neighbours_spec(1) [OF grid(1) c] bins, of ?arr]
  obtain bins' where b: "visit_all (\<lambda>(cond, c). enqueue_if cond l c) (neighbours (size_x m) (size_y m) c) (?seen, bins, ?arr) =
      Some (?seen, bins', ?arr)" "bins_ok l m obs bins'" "bins_grow bins bins'"
    "\<forall>d. (True, d) \<in> set (neighbours (size_x m) (size_y m) c) \<longrightarrow> ?seen ! idx m (cd_pos d) \<or>
      \<not> in_reach l (cd_pos d) (cd_src d) \<or> d \<in> set (bins' ! wave_level l (cd_pos d) (cd_src d))" by blast
  have "inflate_cell l (size_x m) (size_y m) base c (seen, bins, arr) = Some (?seen, bins', ?arr)"
    using index i len new cost arr b(1) by (simp add: inflate_cell_def mem_at_Some Let_def)
  moreover have "?seen ! idx m q \<or> \<not> in_reach l q (cd_src c) \<or> (\<exists>d \<in> set (bins' ! wave_level l q (cd_src c)). cd_pos d = q)"
    if q: "q \<in> grid_cells m" "gap2 q p = 1" for q
  proof -
    obtain d where "(True, d) \<in> set (neighbours (size_x m) (size_y m) c)" "cd_pos d = q" "cd_src d = cd_src c"
      using neighbours_spec(2) [OF grid(1) c q(1)] q(2) p by auto
    then show ?thesis using b(4) by metis
  qed
  ultimately show ?thesis using b(2,3) by blast
qed

lemma wave_step:
  assumes ready: "il_ready l" and grid: "grid_ok m" "width m < 2 ^ 31" "height m < 2 ^ 31" and obs: "obs \<subseteq> grid_cells m"
    and inv: "wave_inv l m obs base k i (seen, bins, arr)" and k: "k < length bins" and i: "i < length (bins ! k)"
  shows "\<exists>s'. inflate_cell l (size_x m) (size_y m) base (bins ! k ! i) (seen, bins, arr) = Some s' \<and> wave_inv l m obs base k (Suc i) s'"
proof -
  note I = wave_invD [OF inv]
  define c where "c = bins ! k ! i"
  define p where "p = cd_pos c"
  have cin: "c \<in> set (bins ! k)" using i by (simp add: c_def)
  note e = bin_entry [OF I(3) k cin, folded p_def]
  have ip: "idx m p < length (costs m)" by (rule idx_less [OF grid(1) e(4)])
  show ?thesis
  proof (cases "seen ! idx m p")
    case True
    then have "inflate_cell l (size_x m) (size_y m) base c (seen, bins, arr) = Some (seen, bins, arr)"
      using ip I(1) e(6) by (simp add: inflate_cell_def mem_at_Some Let_def)
    moreover have "\<forall>j < Suc i. seen ! idx m (cd_pos (bins ! k ! j))"
      using I(10) [OF k] True by (auto simp: less_Suc_eq c_def p_def)
    ultimately show ?thesis using inv i by (auto simp: wave_inv_def c_def)
  next
    case False
    let ?seen = "seen[idx m p := True]" and ?arr = "arr[idx m p := cell_value l m base p (cd_src c)]"
    obtain bins' where b: "inflate_cell l (size_x m) (size_y m) base c (seen, bins, arr) = Some (?seen, bins', ?arr)"
      "bins_ok l m obs bins'" "bins_grow bins bins'"
      "\<forall>q \<in> grid_cells m. gap2 q p = 1 \<longrightarrow> ?seen ! idx m q \<or> \<not> in_reach l q (cd_src c) \<or>
        (\<exists>d \<in> set (bins' ! wave_level l q (cd_src c)). cd_pos d = q)"
      using inflate_cell_spec [OF ready grid I(1,2,3) e(1) e(2) [unfolded p_def] p_def False I(5) [OF e(4) False], of base] by blast
    have lenb: "length bins' = length bins" using b(3) by (simp add: bins_grow_def)
    have sub: "set (bins ! j) \<subseteq> set (bins' ! j)" if "j < length bins" for j by (rule bins_grow_set [OF b(3) that])
    have two: "1 < length bins"
    proof -
      have "wave_level l (1, 0) (0, 0) = 1" "in_reach l (1, 0) (0, 0)"
        using level_one [OF ready, of "(1, 0)" "(0, 0)"] by (simp_all add: gap2_def norm2_def)
      then show ?thesis using reach_level(2) [OF ready, of "(1, 0)" "(0, 0)"] I(3) by (simp add: bins_ok_def)
    qed
    have other: "?seen ! idx m q = seen ! idx m q" "?arr ! idx m q = arr ! idx m q" if "q \<in> grid_cells m" "q \<noteq> p" for q
      using idx_inj [OF that(1) e(4)] that(2) by simp_all
    have here: "?seen ! idx m p" "?arr ! idx m p = cell_value l m base p (cd_src c)" using ip I(1,2) by simp_all
    have set_p: "settled l m obs base k ?seen ?arr p" using here e(2,3,5) by (auto simp: settled_def)
    have keep: "settled l m obs base j ?seen ?arr q" if "q \<in> grid_cells m" "settled l m obs base j seen arr q" for j q
    proof -
      have "q \<noteq> p" using that(2) False by (auto simp: settled_def)
      then show ?thesis using that other [OF that(1)] by (simp add: settled_def)
    qed
    have seen_mono: "?seen ! idx m q" if "q \<in> grid_cells m" "seen ! idx m q" for q
      using that other(1) [OF that(1)] here(1) by (cases "q = p") simp_all
    have "wave_inv l m obs base k (Suc i) (?seen, bins', ?arr)"
      unfolding wave_inv_def prod.case
    proof (intro conjI ballI impI allI)
      show "length ?seen = length (costs m)" "length ?arr = length (costs m)" "bins_ok l m obs bins'" using I(1,2) b(2) by simp_all
    next
      fix q assume q: "q \<in> grid_cells m"
      show "if ?seen ! idx m q then settled l m obs base k ?seen ?arr q else ?arr ! idx m q = costs m ! idx m q"
        using set_p keep [OF q] I(4,5) [OF q] other [OF q] here by (cases "q = p") auto
    next
      fix ob assume ob: "k = 0" "ob \<in> obs"
      show "?seen ! idx m ob \<or> (\<exists>c \<in> set (bins' ! 0). cd_pos c = ob)"
        using I(6) [OF ob] seen_mono [of ob] ob obs sub [of 0] k by blast
    next
      fix ob q assume a: "k \<le> 1" "ob \<in> obs" "?seen ! idx m ob" "q \<in> grid_cells m" "gap2 q ob = 1"
      show "?seen ! idx m q \<or> (\<exists>c \<in> set (bins' ! 1). cd_pos c = q)"
      proof (cases "seen ! idx m ob")
        case True
        then show ?thesis using I(7) [OF a(1,2) True a(4,5)] seen_mono [OF a(4)] sub [OF two] by blast
      next
        case unseen: False
        have "ob = p" using other(1) [of ob] a(2,3) obs unseen by auto
        have "k = 0"
        proof (rule ccontr)
          assume "k \<noteq> 0"
          then have "settled l m obs base 0 seen arr ob" using I(8) [of 0 ob ob] a(1,2) obs by auto
          then show False using unseen by (simp add: settled_def)
        qed
        then have "p = cd_src c" using level_zero [OF ready e(2)] e(3) by simp
        then have "gap2 q (cd_src c) = 1" using a(5) \<open>ob = p\<close> by simp
        then show ?thesis
          using b(4) a(4,5) \<open>ob = p\<close> level_one [OF ready, of q "cd_src c"] by metis
      qed
    next
      fix j q ob assume "j < k" "j \<le> 1" "q \<in> grid_cells m" "ob \<in> obs" "gap2 q ob \<le> int j"
      then show "settled l m obs base j ?seen ?arr q" using I(8) keep by blast
    next
      have "\<exists>cs. bins' ! k = bins ! k @ cs" using b(3) k by (simp add: bins_grow_def)
      then obtain cs where cs: "bins' ! k = bins ! k @ cs" by blast
      then show "Suc i \<le> length (bins' ! k)" using i by simp
      fix j assume "j < Suc i"
      then have "j < i \<or> j = i" by auto
      then show "?seen ! idx m (cd_pos (bins' ! k ! j))"
      proof
        assume j: "j < i"
        then have at: "bins' ! k ! j = bins ! k ! j" using cs i by (simp add: nth_append)
        have "cd_pos (bins ! k ! j) \<in> grid_cells m" using bin_entry(4) [OF I(3) k, of "bins ! k ! j"] j i by simp
        then show ?thesis using seen_mono I(10) [OF k j] at by simp
      next
        assume "j = i"
        then have "bins' ! k ! j = c" using cs i by (simp add: nth_append c_def)
        then show ?thesis using here(1) p_def by simp
      qed
    qed
    then show ?thesis using b(1) by (auto simp: c_def)
  qed
qed

lemma wave_bin:
  assumes "il_ready l" and "grid_ok m" "width m < 2 ^ 31" "height m < 2 ^ 31" and "obs \<subseteq> grid_cells m"
    and "wave_inv l m obs base k i s" and "k < max_level (int (cache_size l)) + 1"
  shows "\<exists>s'. inflate_bin l (size_x m) (size_y m) base k i s = Some s' \<and> wave_inv l m obs base k (length (fst (snd s') ! k)) s'"
  using assms(6)
proof (induction "5 * unvisited (fst s) + (length (fst (snd s) ! k) - i)" arbitrary: i s rule: less_induct)
  case less
  obtain seen bins arr where s: "s = (seen, bins, arr)" by (metis prod_cases3)
  note I = wave_invD [OF less.prems [unfolded s]]
  have k: "k < length bins" using I(3) assms(7) by (simp add: bins_ok_def)
  show ?case
  proof (cases "i < length (bins ! k)")
    case True
    obtain s1 where s1: "inflate_cell l (size_x m) (size_y m) base (bins ! k ! i) s = Some s1" "wave_inv l m obs base k (Suc i) s1"
      using wave_step [OF assms(1-5) less.prems [unfolded s] k True] by (auto simp: s)
    obtain seen1 bins1 arr1 where t: "s1 = (seen1, bins1, arr1)" by (metis prod_cases3)
    have "5 * unvisited (fst s1) + (length (fst (snd s1) ! k) - Suc i) < 5 * unvisited (fst s) + (length (fst (snd s) ! k) - i)"
      using inflate_cell_grows [OF s1(1) [unfolded s t], of k] True by (auto simp: s t)
    from less.hyps [OF this s1(2)] show ?thesis
      using True s1(1) by (subst inflate_bin.simps) (simp add: s)
  next
    case False
    then have "i = length (bins ! k)" using I(9) [OF k] by simp
    then show ?thesis using less.prems False by (subst inflate_bin.simps) (simp add: s)
  qed
qed

lemma wave_next:
  assumes ready: "il_ready l" and obs: "obs \<subseteq> grid_cells m" and k: "k < max_level (int (cache_size l)) + 1"
    and inv: "wave_inv l m obs base k (length (bins ! k)) (seen, bins, arr)"
  shows "wave_inv l m obs base (Suc k) 0 (seen, bins, arr)"
proof -
  note I = wave_invD [OF inv]
  have kl: "k < length bins" using I(3) k by (simp add: bins_ok_def)
  have all_seen: "seen ! idx m (cd_pos c)" if "c \<in> set (bins ! k)" for c
    using I(10) [OF kl] that by (auto simp: in_set_conv_nth)
  have near: "settled l m obs base k seen arr p" if p: "k \<le> 1" "p \<in> grid_cells m" "ob \<in> obs" "gap2 p ob \<le> int k" for p ob
  proof (cases "p = ob")
    case True
    show ?thesis
    proof (cases "k = 0")
      case True
      then have "seen ! idx m ob" using I(6) [OF _ p(3)] all_seen by blast
      then show ?thesis using I(4) [OF p(2)] \<open>p = ob\<close> by simp
    next
      case False
      then have "settled l m obs base 0 seen arr p" using I(8) [of 0 p ob] p True by simp
      then show ?thesis by (rule settled_mono) simp
    qed
  next
    case False
    then have one: "k = 1" "gap2 p ob = 1" using p(1,4) gap2_nonneg [of p ob] gap2_0 [of p ob] by linarith+
    have "settled l m obs base 0 seen arr ob" using I(8) [of 0 ob ob] one(1) p(3) obs by auto
    then have "seen ! idx m p"
      using I(7) [OF p(1,3) _ p(2) one(2)] all_seen one(1) by (auto simp: settled_def)
    then show ?thesis using I(4) [OF p(2)] by simp
  qed
  show ?thesis
    unfolding wave_inv_def prod.case
  proof (intro conjI ballI impI allI)
    fix p assume "p \<in> grid_cells m"
    then show "if seen ! idx m p then settled l m obs base (Suc k) seen arr p else arr ! idx m p = costs m ! idx m p"
      using I(4,5) settled_mono [of l m obs base k seen arr p "Suc k"] by simp
  next
    fix ob q assume "Suc k \<le> 1" "ob \<in> obs" "seen ! idx m ob" "q \<in> grid_cells m" "gap2 q ob = 1"
    then show "seen ! idx m q \<or> (\<exists>c \<in> set (bins ! 1). cd_pos c = q)" using I(7) by simp
  next
    fix j p ob assume "j < Suc k" "j \<le> 1" "p \<in> grid_cells m" "ob \<in> obs" "gap2 p ob \<le> int j"
    then show "settled l m obs base j seen arr p" using I(8) near by (cases "j = k") auto
  qed (use I(1-3) in simp_all)
qed

lemma wave_bins:
  assumes "il_ready l" and "grid_ok m" "width m < 2 ^ 31" "height m < 2 ^ 31" and "obs \<subseteq> grid_cells m"
    and "wave_inv l m obs base 0 0 s" and "n \<le> max_level (int (cache_size l)) + 1"
  shows "\<exists>s'. visit_all (\<lambda>k. inflate_bin l (size_x m) (size_y m) base k 0) [0..<n] s = Some s' \<and> wave_inv l m obs base n 0 s'"
  using assms(7)
proof (induction n)
  case 0
  then show ?case using assms(6) by simp
next
  case (Suc n)
  then obtain s1 where s1: "visit_all (\<lambda>k. inflate_bin l (size_x m) (size_y m) base k 0) [0..<n] s = Some s1" "wave_inv l m obs base n 0 s1"
    by auto
  obtain s2 where s2: "inflate_bin l (size_x m) (size_y m) base n 0 s1 = Some s2" "wave_inv l m obs base n (length (fst (snd s2) ! n)) s2"
    using wave_bin [OF assms(1-5) s1(2)] Suc.prems by auto
  obtain seen bins arr where t: "s2 = (seen, bins, arr)" by (metis prod_cases3)
  have "wave_inv l m obs base (Suc n) 0 s2"
    using wave_next [OF assms(1,5), of n base bins seen arr] s2(2) Suc.prems by (simp add: t)
  then show ?case using s1(1) s2(1) by (simp add: visit_all_append)
qed

section \<open>The sources\<close>

definition is_source :: "inflation_layer \<Rightarrow> u8 \<Rightarrow> bool" where
  "is_source l cost \<longleftrightarrow> cost = LETHAL_OBSTACLE \<or> (inflate_around_unknown l \<and> cost = NO_INFORMATION)"

text \<open>The sources of the wave: cells in the window, widened by the radius on every side.\<close>

definition wave_sources :: "inflation_layer \<Rightarrow> costmap \<Rightarrow> int \<times> int \<times> int \<times> int \<Rightarrow> (nat \<times> nat) set" where
  "wave_sources l m base = (case base of (a, b, c, d) \<Rightarrow>
     (let R = int (cache_radius l)
      in {p \<in> grid_cells m. in_window (a - R) (b - R) (c + R) (d + R) (fst p) (snd p) \<and> is_source l (costs m ! idx m p)}))"

definition source_entry :: "costmap \<Rightarrow> int \<times> int \<Rightarrow> cell_data" where
  "source_entry m p = \<lparr>cd_index = getIndex m (word_of_int (fst p)) (word_of_int (snd p)), cd_x = word_of_int (fst p),
     cd_y = word_of_int (snd p), cd_src_x = word_of_int (fst p), cd_src_y = word_of_int (snd p)\<rparr>"

lemma source_entry_simps:
  assumes "grid_ok m" and "p \<in> cells_of m"
  shows "cd_pos (source_entry m p) = (nat (fst p), nat (snd p))" "cd_src (source_entry m p) = (nat (fst p), nat (snd p))"
    "unat (cd_index (source_entry m p)) = idx m (nat (fst p), nat (snd p))" "(nat (fst p), nat (snd p)) \<in> grid_cells m"
proof -
  note it = cell_it_nat [OF assms]
  have "unat (word_of_int (fst p) :: u32) = nat (fst p)" "unat (word_of_int (snd p) :: u32) = nat (snd p)"
    using assms(2) unsigned_less [where ?'a = int, of "size_x m"] unsigned_less [where ?'a = int, of "size_y m"]
    by (auto simp: cells_of_def intro!: unat_of_int_small)
  then show "cd_pos (source_entry m p) = (nat (fst p), nat (snd p))" "cd_src (source_entry m p) = (nat (fst p), nat (snd p))"
    by (simp_all add: source_entry_def cd_pos_def cd_src_def)
  show "unat (cd_index (source_entry m p)) = idx m (nat (fst p), nat (snd p))"
    using it(1) by (simp add: source_entry_def idx_def getIndex_def cell_it_def)
  show "(nat (fst p), nat (snd p)) \<in> grid_cells m" using it(2,3) by (simp add: grid_cells_def)
qed

lemma push_obstacles_spec:
  assumes "grid_ok m" and "width m * height m \<le> 2 ^ 31" and "set ps \<subseteq> cells_of m"
  shows "push_obstacles l m ps bin =
    Some (bin @ map (source_entry m) (filter (\<lambda>p. is_source l (costs m ! idx m (nat (fst p), nat (snd p)))) ps))"
  using assms(3) unfolding push_obstacles_def
proof (induction ps arbitrary: bin)
  case (Cons p ps)
  note e = source_entry_simps [OF assms(1), of p]
  have p: "p \<in> cells_of m" using Cons.prems by simp
  let ?w = "getIndex m (word_of_int (fst p)) (word_of_int (snd p))"
  have u: "unat ?w = idx m (nat (fst p), nat (snd p))" using e(3) [OF p] by (simp add: source_entry_def)
  have less: "unat ?w < length (costs m)" unfolding u by (rule idx_less [OF assms(1) e(4) [OF p]])
  then have "unat ?w < 2 ^ 31" using assms(1,2) by (simp add: grid_ok_def)
  then have s: "sint ?w = int (unat ?w)" by (rule sint_small)
  then have "deref (costs m) (sint ?w) = Some (costs m ! idx m (nat (fst p), nat (snd p)))"
    using less u by (simp add: deref_def mem_at_Some del: of_nat_unat)
  moreover have "word_of_int (sint ?w) = ?w" by simp
  ultimately show ?case
    using Cons.IH Cons.prems by (auto simp: split_beta is_source_def source_entry_def Let_def)
qed simp

section \<open>Writing the costs\<close>

text \<open>A grid the layer can work with: its indices and its widened windows fit an \<open>int\<close>.\<close>

definition wave_sized :: "costmap \<Rightarrow> bool" where
  "wave_sized m \<longleftrightarrow> width m * height m \<le> 2 ^ 31 \<and> width m < 2 ^ 31 - 2 ^ 15 \<and> height m < 2 ^ 31 - 2 ^ 15"

definition il_fits :: "inflation_layer \<Rightarrow> costmap \<Rightarrow> bool" where
  "il_fits l m \<longleftrightarrow> wave_sized m \<and> (cell_inflation_radius l = 0 \<or> il_ready l)"

lemma wave_start:
  assumes ready: "il_ready l" and grid: "grid_ok m" and size: "wave_sized m" and win: "window_ok a b c d m" and base: "base = (a, b, c, d)"
    and R: "R = int (cache_radius l)"
  shows "\<exists>bin. push_obstacles l m (window_cells (max 0 (a - R)) (max 0 (b - R)) (min (sint (size_x m)) (c + R)) (min (sint (size_y m)) (d + R))) [] =
      Some bin \<and> wave_inv l m (wave_sources l m base) base 0 0
        (replicate (width m * height m) False, (inflation_cells l)[0 := bin], costs m)"
proof -
  let ?ps = "window_cells (max 0 (a - R)) (max 0 (b - R)) (min (sint (size_x m)) (c + R)) (min (sint (size_y m)) (d + R))"
  let ?src = "\<lambda>p. is_source l (costs m ! idx m (nat (fst p), nat (snd p)))"
  let ?bin = "map (source_entry m) (filter ?src ?ps)" and ?obs = "wave_sources l m base"
  note sz = grid size [unfolded wave_sized_def]
  have s: "sint (size_x m) = int (width m)" "sint (size_y m) = int (height m)" using sz by (simp_all add: sint_small del: of_nat_unat)
  have ps: "set ?ps = {p \<in> cells_of m. a - R \<le> fst p \<and> b - R \<le> snd p \<and> fst p < c + R \<and> snd p < d + R}"
    by (auto simp: set_window_cells cells_of_def s simp del: of_nat_unat)
  then have sub: "set ?ps \<subseteq> cells_of m" by blast
  have run: "push_obstacles l m ?ps [] = Some ?bin" using push_obstacles_spec [OF _ _ sub] sz by simp
  note e = source_entry_simps [of m] and f = ready_fields [OF ready refl]
  have entry: "entry_ok l m ?obs (source_entry m p) \<and> cd_src (source_entry m p) = cd_pos (source_entry m p)"
    if "p \<in> set ?ps" "?src p" for p
  proof -
    have p: "p \<in> cells_of m" "a - R \<le> fst p" "b - R \<le> snd p" "fst p < c + R" "snd p < d + R" using that(1) ps by auto
    then have "0 \<le> fst p" "0 \<le> snd p" by (auto simp: cells_of_def)
    then have "(nat (fst p), nat (snd p)) \<in> ?obs"
      using e(4) [OF _ p(1)] sz p that(2) by (simp add: wave_sources_def base Let_def R in_window_def)
    then show ?thesis using e(1-4) [OF _ p(1)] sz by (simp add: entry_ok_def)
  qed
  let ?bins = "(inflation_cells l)[0 := ?bin]"
  have bins: "?bins ! 0 = ?bin" "\<And>k. ?bins ! Suc k = replicate (max_level (int (cache_size l))) [] ! k"
    "length ?bins = max_level (int (cache_size l)) + 1"
    using f(12) by simp_all
  have "entry_ok l m ?obs c \<and> in_reach l (cd_pos c) (cd_src c) \<and> wave_level l (cd_pos c) (cd_src c) = k"
    if k: "k < length ?bins" "c \<in> set (?bins ! k)" for c k
  proof (cases k)
    case 0
    then obtain p where p: "p \<in> set ?ps" "?src p" "c = source_entry m p" using k(2) bins(1) by auto
    then show ?thesis using entry [OF p(1,2)] 0 by (simp add: wave_level_def in_reach_def)
  next
    case (Suc j)
    then show ?thesis using k bins(2,3) by simp
  qed
  then have "bins_ok l m ?obs ?bins" using bins(3) by (simp add: bins_ok_def)
  moreover have "\<exists>c \<in> set ?bin. cd_pos c = ob" if ob: "ob \<in> ?obs" for ob
  proof -
    let ?p = "(int (fst ob), int (snd ob))"
    have g: "ob \<in> grid_cells m" "in_window (a - R) (b - R) (c + R) (d + R) (fst ob) (snd ob)" "is_source l (costs m ! idx m ob)"
      using ob by (auto simp: wave_sources_def base Let_def R)
    then have p: "?p \<in> cells_of m" by (simp add: cells_of_def grid_cells_def del: of_nat_unat)
    then have "?p \<in> set ?ps" using g(2) unfolding ps by (simp add: in_window_def)
    then have "source_entry m ?p \<in> set ?bin" using g(3) by simp
    moreover have "cd_pos (source_entry m ?p) = ob" using e(1) [OF _ p] sz by simp
    ultimately show ?thesis by blast
  qed
  moreover note bins(1)
  moreover have "idx m p < width m * height m" if "p \<in> grid_cells m" for p
    using idx_less [OF _ that] sz by (simp add: grid_ok_def)
  moreover have "?obs \<subseteq> grid_cells m" by (auto simp: wave_sources_def base Let_def)
  ultimately have "wave_inv l m ?obs base 0 0 (replicate (width m * height m) False, (inflation_cells l)[0 := ?bin], costs m)"
    using sz unfolding wave_inv_def prod.case by (auto simp: grid_ok_def)
  then show ?thesis using run by blast
qed

text \<open>
  What a wave does: the grid keeps its shape; a cell keeps its cost or gets that of a source within the
  radius; and a cell next to a source, or a source, gets that of a source at least as close.
\<close>

definition inflated_from ::
  "inflation_layer \<Rightarrow> int \<times> int \<times> int \<times> int \<Rightarrow> costmap \<Rightarrow> costmap \<Rightarrow> bool" where
  "inflated_from l base m m' \<longleftrightarrow> m' = m\<lparr>costs := costs m'\<rparr> \<and> length (costs m') = length (costs m) \<and>
     (\<forall>p \<in> grid_cells m. costs m' ! idx m p = costs m ! idx m p \<or>
       (\<exists>s \<in> wave_sources l m base. in_reach l p s \<and> costs m' ! idx m p = cell_value l m base p s)) \<and>
     (\<forall>p \<in> grid_cells m. \<forall>ob \<in> wave_sources l m base. gap2 p ob \<le> 1 \<longrightarrow>
       (\<exists>s \<in> wave_sources l m base. gap2 p s \<le> gap2 p ob \<and> costs m' ! idx m p = cell_value l m base p s))"

lemma wave_end:
  assumes ready: "il_ready l" and grid: "grid_ok m" and n: "n = max_level (int (cache_size l)) + 1"
    and inv: "wave_inv l m (wave_sources l m base) base n 0 (seen, bins, arr)"
  shows "inflated_from l base m (m\<lparr>costs := arr\<rparr>) \<and> map (\<lambda>_. []) bins = inflation_cells l \<and> length seen = width m * height m"
proof -
  note I = wave_invD [OF inv]
  have n1: "1 < n" using reach_level(2) [OF ready level_one(2) [OF ready], of "(1, 0)" "(0, 0)"] level_one(1) [OF ready, of "(1, 0)" "(0, 0)"]
    by (simp add: n gap2_def norm2_def)
  have close: "\<exists>s \<in> wave_sources l m base. gap2 p s \<le> gap2 p ob \<and> arr ! idx m p = cell_value l m base p s"
    if p: "p \<in> grid_cells m" "ob \<in> wave_sources l m base" "gap2 p ob \<le> 1" for p ob
  proof -
    obtain j where j: "gap2 p ob = int j" "j \<le> 1" using p(3) gap2_nonneg [of p ob] by (metis nonneg_int_cases of_nat_1 of_nat_le_iff)
    then have "settled l m (wave_sources l m base) base j seen arr p" using I(8) [of j p ob] p n1 by simp
    then obtain s where s: "s \<in> wave_sources l m base" "in_reach l p s" "wave_level l p s \<le> j" "arr ! idx m p = cell_value l m base p s"
      by (auto simp: settled_def)
    have "gap2 p s \<le> int j"
    proof (rule ccontr)
      assume "\<not> gap2 p s \<le> int j"
      moreover have "gap2 p s \<in> norm2 ` set (disc_points (int (cache_size l)))"
        using reach_level(1) [OF ready s(2)] set_disc_points [of "int (cache_size l)"] by (auto simp: gap2_def)
      ultimately have "level_of (int (cache_size l)) (int j) < wave_level l p s"
        unfolding wave_level_def by (intro level_of_less) simp_all
      moreover have "level_of (int (cache_size l)) (int j) = j"
        using j(2) level_one(1) [OF ready, of "(1, 0)" "(0, 0)"] by (cases "j = 0") (simp_all add: wave_level_def gap2_def norm2_def le_Suc_eq)
      ultimately show False using s(3) by simp
    qed
    then show ?thesis using s(1,4) j(1) by auto
  qed
  have "arr ! idx m p = costs m ! idx m p \<or>
    (\<exists>s \<in> wave_sources l m base. in_reach l p s \<and> arr ! idx m p = cell_value l m base p s)" if "p \<in> grid_cells m" for p
    using I(4,5) [OF that] by (auto simp: settled_def)
  then have "inflated_from l base m (m\<lparr>costs := arr\<rparr>)" using close I(2) by (simp add: inflated_from_def)
  moreover have "length bins = n" using I(3) n by (simp add: bins_ok_def)
  then have "map (\<lambda>_. []) bins = inflation_cells l"
    using ready_fields(12) [OF ready refl] n by (simp add: map_replicate_const)
  ultimately show ?thesis using I(1) grid by (simp add: grid_ok_def)
qed

lemma il_updateCosts_spec:
  assumes fits: "il_fits l m" and grid: "grid_ok m" and win: "window_ok a b c d m" "a \<le> c" "b \<le> d" and on: "il_enabled l" "cell_inflation_radius l \<noteq> 0"
  shows "\<exists>l' m' sn. il_updateCosts a b c d (l, m) = Some (l', m') \<and> inflated_from l (a, b, c, d) m m' \<and>
    l' = l\<lparr>il_seen := sn, il_current := True\<rparr>"
proof -
  have ready: "il_ready l" and size: "wave_sized m" using fits on by (simp_all add: il_fits_def)
  note sz = grid size [unfolded wave_sized_def] and f = ready_fields [OF ready refl]
  let ?R = "int (cache_radius l)" and ?base = "(a, b, c, d)"
  have Rb: "?R < 2 ^ 15" using f(2,3) by simp
  have R: "sint (cell_inflation_radius l) = ?R"
    using f(2,3) by (simp add: sint_small cache_radius_def del: of_nat_unat)
  have wb: "int (width m) < 2 ^ 31 - 2 ^ 15" "int (height m) < 2 ^ 31 - 2 ^ 15"
  proof -
    have "int (width m) < int (2 ^ 31 - 2 ^ 15)" "int (height m) < int (2 ^ 31 - 2 ^ 15)" using sz by (simp_all only: of_nat_less_iff)
    then show "int (width m) < 2 ^ 31 - 2 ^ 15" "int (height m) < 2 ^ 31 - 2 ^ 15" by simp_all
  qed
  have small: "width m < 2 ^ 31" "height m < 2 ^ 31" using sz by simp_all
  have prod: "unat (size_x m * size_y m) = width m * height m" using sz by (subst unat_mult_lem [THEN iffD1]) (simp_all add: grid_ok_def)
  obtain bin where bin: "push_obstacles l m (window_cells (max 0 (a - ?R)) (max 0 (b - ?R)) (min (sint (size_x m)) (c + ?R)) (min (sint (size_y m)) (d + ?R))) [] = Some bin"
    "wave_inv l m (wave_sources l m ?base) ?base 0 0 (replicate (width m * height m) False, (inflation_cells l)[0 := bin], costs m)"
    using wave_start [OF ready grid size win(1) refl refl] by blast
  have obs: "wave_sources l m ?base \<subseteq> grid_cells m" by (auto simp: wave_sources_def Let_def)
  let ?n = "max_level (int (cache_size l)) + 1"
  obtain seen bins arr where w: "visit_all (\<lambda>k. inflate_bin l (size_x m) (size_y m) ?base k 0) [0..<?n]
      (replicate (width m * height m) False, (inflation_cells l)[0 := bin], costs m) = Some (seen, bins, arr)"
    "wave_inv l m (wave_sources l m ?base) ?base ?n 0 (seen, bins, arr)"
    using wave_bins [OF ready _ small obs bin(2), of ?n] sz by auto
  note e = wave_end [OF ready _ refl w(2)]
  have cells: "mem_at (inflation_cells l) 0 = Some []" "write_at (inflation_cells l) 0 bin = Some ((inflation_cells l)[0 := bin])"
    "length ((inflation_cells l)[0 := bin]) = ?n"
    using f(12) by (simp_all add: mem_at_Some write_at_def)
  have i32: "int32 (a - ?R) = Some (a - ?R)" "int32 (b - ?R) = Some (b - ?R)" "int32 (c + ?R) = Some (c + ?R)" "int32 (d + ?R) = Some (d + ?R)"
    using win wb Rb by (simp_all add: int32_def window_ok_def del: of_nat_unat)
  have "il_updateCosts a b c d (l, m) =
    Some (l\<lparr>il_seen := seen, inflation_cells := map (\<lambda>_. []) bins, il_current := True\<rparr>, m\<lparr>costs := arr\<rparr>)"
    using on R i32 cells bin(1) w(1) prod by (simp add: il_updateCosts_def Let_def del: upt_Suc)
  moreover have "l\<lparr>il_seen := seen, inflation_cells := map (\<lambda>_. []) bins, il_current := True\<rparr> = l\<lparr>il_seen := seen, il_current := True\<rparr>"
    using e sz by simp
  ultimately show ?thesis using e sz by (intro exI conjI) (assumption | simp)+
qed

text \<open>So the layer meets the contract of the layers.\<close>

lemma il_ready_seen [simp]: "il_ready (l\<lparr>il_seen := sn, il_current := b\<rparr>) = il_ready l"
proof -
  have "computeCost (l\<lparr>il_seen := sn, il_current := b\<rparr>) = computeCost l" by (simp add: computeCost_def fun_eq_iff)
  then show ?thesis by (simp add: il_ready_def cache_radius_def Let_def)
qed

lemma inflated_from_window:
  assumes "inflated_from l (a, b, c, d) m m'"
  shows "window_only a b c d m m'"
  unfolding window_only_def
proof (intro conjI allI impI)
  show "m' = m\<lparr>costs := costs m'\<rparr>" "length (costs m') = length (costs m)" using assms unfolding inflated_from_def by blast+
  fix x y assume "x < width m" "y < height m" "\<not> in_window a b c d x y"
  moreover have m': "m' = m\<lparr>costs := costs m'\<rparr>" using assms unfolding inflated_from_def by blast
  ultimately have "costs m' ! idx m (x, y) = costs m ! idx m (x, y)"
    using assms unfolding inflated_from_def grid_cells_def cell_value_def by fastforce
  moreover have "size_x m' = size_x m" by (rule same_but_costs(1) [OF m'])
  ultimately show "cost_at m' x y = cost_at m x y" by (simp add: cost_at_def idx_def)
qed

lemma il_fits_geometry:
  assumes "il_fits l m" and "same_geometry m m'"
  shows "il_fits l m'"
  using assms by (simp add: il_fits_def wave_sized_def same_geometry_def)

lemma il_updateCosts_fits:
  assumes "il_fits l m" and "grid_ok m" and "window_ok a b c d m" and "a \<le> c" and "b \<le> d"
  shows "\<exists>l' m'. il_updateCosts a b c d (l, m) = Some (l', m') \<and> window_only a b c d m m' \<and> il_fits l' m'"
proof (cases "il_enabled l \<and> cell_inflation_radius l \<noteq> 0")
  case True
  then obtain l' m' sn where r: "il_updateCosts a b c d (l, m) = Some (l', m')" "inflated_from l (a, b, c, d) m m'"
    "l' = l\<lparr>il_seen := sn, il_current := True\<rparr>"
    using il_updateCosts_spec [OF assms] by blast
  note w = inflated_from_window [OF r(2)]
  have "il_fits l m'" using il_fits_geometry [OF assms(1) window_only_geometry [OF w]] by simp
  then have "il_fits l' m'" by (simp add: il_fits_def r(3))
  then show ?thesis using r(1) w by blast
next
  case False
  then show ?thesis using assms(1) by (auto simp: il_updateCosts_def)
qed

end
