(* ===== verification/Layer_Stack.thy ===== *)
theory Layer_Stack
  imports Obstacle_Layer Inflation_Spec Denoise_Properties
begin

text \<open>
  The layers of a costmap as one type: an object behind the interface \<open>Layer\<close> is an obstacle layer,
  an inflation layer or a denoise layer, each with its own overrides (\<open>layer.hpp\<close> gives the operations
  a layer does not override). They meet the contract of the layered costmap, which gives the
  properties of \<open>updateMap\<close>.
\<close>

section \<open>The layers behind the interface\<close>

datatype nav_layer = ObstacleL obstacle_layer | InflationL inflation_layer | DenoiseL denoise_layer

text \<open>What memory that was not initialised holds, and the clock.\<close>

record surroundings =
  new_bytes :: "nat \<Rightarrow> u8"
  clock_now :: int
  old_bytes :: "nat \<Rightarrow> u8"
  old_labels :: "label_type \<Rightarrow> nat \<Rightarrow> nat"

fun layer_updateBounds ::
  "surroundings \<Rightarrow> parent \<Rightarrow> real \<Rightarrow> real \<Rightarrow> real \<Rightarrow> bounds \<Rightarrow> nav_layer \<Rightarrow> (nav_layer \<times> bounds) option" where
  "layer_updateBounds e par rx ry ryaw b (ObstacleL l) =
     map_option (map_prod ObstacleL id) (ob_updateBounds (new_bytes e) (clock_now e) par rx ry ryaw b l)"
| "layer_updateBounds e par rx ry ryaw b (InflationL l) = Some (map_prod InflationL id (il_updateBounds b l))"
| "layer_updateBounds e par rx ry ryaw b (DenoiseL d) = Some (DenoiseL d, b)"

fun layer_updateCosts ::
  "surroundings \<Rightarrow> parent \<Rightarrow> int \<Rightarrow> int \<Rightarrow> int \<Rightarrow> int \<Rightarrow> nav_layer \<times> costmap \<Rightarrow> (layer_error option \<times> nav_layer \<times> costmap) option" where
  "layer_updateCosts e par i j k n (ObstacleL l, m) =
     map_option (\<lambda>(ex, l, m). (ex, ObstacleL l, m)) (ob_updateCosts par i j k n (l, m))"
| "layer_updateCosts e par i j k n (InflationL l, m) =
     map_option (\<lambda>(l, m). (None, InflationL l, m)) (il_updateCosts i j k n (l, m))"
| "layer_updateCosts e par i j k n (DenoiseL d, m) =
     map_option (\<lambda>(d, m). (None, DenoiseL d, m)) (denoise_updateCosts (old_bytes e) (old_labels e) i j k n (d, m))"

fun layer_resize :: "surroundings \<Rightarrow> parent \<Rightarrow> nav_layer \<Rightarrow> nav_layer option" where
  "layer_resize e par (ObstacleL l) =
     map_option (\<lambda>b. ObstacleL (l\<lparr>ob_layer := b\<rparr>)) (layer_matchSize (new_bytes e) (par_costmap par) (ob_layer l))"
| "layer_resize e par (InflationL l) = map_option InflationL (il_matchSize par l)"
| "layer_resize e par (DenoiseL d) = Some (DenoiseL d)"

fun layer_footprint_changed :: "parent \<Rightarrow> nav_layer \<Rightarrow> nav_layer option" where
  "layer_footprint_changed par (InflationL l) = map_option InflationL (il_onFootprintChanged par l)"
| "layer_footprint_changed par l = Some l"

fun layer_isCurrent :: "nav_layer \<Rightarrow> bool" where
  "layer_isCurrent (ObstacleL l) = layer_current (ob_layer l)"
| "layer_isCurrent (InflationL l) = il_current l"
| "layer_isCurrent (DenoiseL d) = dn_current d"

fun layer_isEnabled :: "nav_layer \<Rightarrow> bool" where
  "layer_isEnabled (ObstacleL l) = layer_enabled (ob_layer l)"
| "layer_isEnabled (InflationL l) = il_enabled l"
| "layer_isEnabled (DenoiseL d) = dn_enabled d"

definition layer_ops :: "surroundings \<Rightarrow> nav_layer plugin_ops" where
  "layer_ops e =
     \<lparr>plugin_updateBounds = layer_updateBounds e, plugin_updateCosts = layer_updateCosts e, plugin_matchSize = layer_resize e,
       plugin_onFootprintChanged = layer_footprint_changed, plugin_isCurrent = layer_isCurrent, plugin_isEnabled = layer_isEnabled\<rparr>"

section \<open>The denoise layer keeps to its window\<close>

lemma denoise_total:
  assumes ok: "view_ok v mem"
  shows "\<exists>r d'. denoise d junk ljunk v mem = Some (r, d') \<and>
    (\<forall>mem'. r = Inr mem' \<longrightarrow> length mem' = length mem \<and> (\<forall>i. i \<notin> pointer v ` grid v \<longrightarrow> mem' ! i = mem ! i))"
proof -
  consider "img_empty v \<or> minimal_group_size d \<le> 1" | "\<not> img_empty v" "minimal_group_size d = 2"
    | "\<not> img_empty v" "2 < minimal_group_size d" by linarith
  then show ?thesis
  proof cases
    case 1
    then show ?thesis by (auto simp: denoise_def)
  next
    case 2
    then have "img_rows v * img_columns v \<noteq> 0" by (simp add: img_empty_def)
    then obtain mem' where "removeSinglePixels d junk v mem = Some (Inr mem')"
      "cleaned (group_connectivity_type d) 2 (isBackground d) v mem mem'"
      using removeSinglePixels_spec [OF ok] by blast
    then show ?thesis using 2 by (simp add: denoise_def cleaned_def)
  next
    case 3
    let ?run = "\<lambda>lt. removeGroupsImpl lt (group_connectivity_type d) (minimal_group_size d) (isBackground d) (ljunk lt) v mem"
    have "img_rows v * img_columns v \<noteq> 0" "0 < minimal_group_size d" using 3 by (simp_all add: img_empty_def)
    from removeGroupsImpl_spec [where is_bg = "isBackground d", OF ok isBackground_0 this]
    have run: "?run lt = Some (Inl LabelOverflow) \<or> (\<exists>mem'. ?run lt = Some (Inr (Inr mem')) \<and>
      length mem' = length mem \<and> (\<forall>i. i \<notin> pointer v ` grid v \<longrightarrow> mem' ! i = mem ! i))" for lt
      unfolding cleaned_def by blast
    show ?thesis
      using run [of Label16] run [of Label32] 3
      by (cases "groups_remover d") (auto simp: denoise_def removeGroups_def removeGroupsPickLabelType_def)
  qed
qed

lemma denoise_updateCosts_window:
  assumes grid: "grid_ok m" "int_sized m" and win: "window_ok a b c d m" "a \<le> c" "b \<le> d"
  shows "\<exists>dl' m'. denoise_updateCosts junk ljunk a b c d (dl, m) = Some (dl', m') \<and> window_only a b c d m m'"
proof (cases "dn_enabled dl \<and> a < c \<and> b < d")
  case False
  then show ?thesis by (intro exI [of _ dl] exI [of _ m]) (auto simp: denoise_updateCosts_def)
next
  case True
  let ?dl = "dl\<lparr>no_information_is_obstacle := default_value m \<noteq> NO_INFORMATION\<rparr>"
  let ?v = "\<lparr>img_start = nat (b * int (width m) + a), img_rows = nat (d - b), img_columns = nat (c - a), img_step = width m\<rparr>"
  have step: "sint (size_x m) = int (width m)" using grid(2) by (simp add: int_sized_def sint_small del: of_nat_unat)
  have w: "0 \<le> a" "0 \<le> b" "c \<le> int (width m)" "d \<le> int (height m)" using win(1) by (simp_all add: window_ok_def)
  have "b * int (width m) + a = int (nat b * width m + nat a)" using w(1,2) by (simp del: of_nat_unat)
  then have start: "nat (b * int (width m) + a) = nat b * width m + nat a" by (simp only: nat_int)
  have ptr: "pointer ?v p = (nat b + fst p) * width m + (nat a + snd p)" for p
    unfolding pointer_def image_row_def view.simps start by (simp add: algebra_simps)
  have cell: "nat a + snd p < width m \<and> nat b + fst p < height m" if "p \<in> Denoise_Graph.grid ?v" for p
    using that w True by (auto simp: Denoise_Graph.grid_def simp del: of_nat_unat)
  have ok: "view_ok ?v (costs m)"
    unfolding view_ok_def ptr using cell cell_in_grid [OF grid(1)] w True by (auto simp del: of_nat_unat)
  obtain r d' where r: "denoise ?dl junk ljunk ?v (costs m) = Some (r, d')"
    "\<forall>mem'. r = Inr mem' \<longrightarrow> length mem' = length (costs m) \<and> (\<forall>i. i \<notin> pointer ?v ` Denoise_Graph.grid ?v \<longrightarrow> mem' ! i = costs m ! i)"
    using denoise_total [OF ok, of ?dl junk ljunk] by blast
  have pos: "\<not> b * int (width m) + a < 0" using w by (simp add: not_less del: of_nat_unat)
  show ?thesis
  proof (cases r)
    case (Inl ex)
    then have "denoise_updateCosts junk ljunk a b c d (dl, m) = Some (d'\<lparr>dn_current := True\<rparr>, m)"
      using True r(1) pos step by (simp add: denoise_updateCosts_def Let_def del: of_nat_unat)
    then show ?thesis by (intro exI conjI) (assumption, simp)
  next
    case (Inr mem')
    then have run: "denoise_updateCosts junk ljunk a b c d (dl, m) = Some (d'\<lparr>dn_current := True\<rparr>, m\<lparr>costs := mem'\<rparr>)"
      using True r(1) pos step by (simp add: denoise_updateCosts_def Let_def del: of_nat_unat)
    have "mem' ! (y * width m + x) = costs m ! (y * width m + x)"
      if xy: "x < width m" "y < height m" "\<not> in_window a b c d x y" for x y
    proof -
      have "y * width m + x \<notin> pointer ?v ` Denoise_Graph.grid ?v"
      proof
        assume "y * width m + x \<in> pointer ?v ` Denoise_Graph.grid ?v"
        then obtain p where p: "p \<in> Denoise_Graph.grid ?v" "y * width m + x = (nat b + fst p) * width m + (nat a + snd p)"
          unfolding ptr by blast
        then have "x = nat a + snd p \<and> y = nat b + fst p"
          using cell_index_inj [OF xy(1)] cell [OF p(1)] by blast
        then show False using xy(3) p(1) w True by (auto simp: in_window_def Denoise_Graph.grid_def)
      qed
      then show ?thesis using r(2) Inr by simp
    qed
    then have "window_only a b c d m (m\<lparr>costs := mem'\<rparr>)" using r(2) Inr by (simp add: window_only_def cost_at_def)
    then show ?thesis using run by blast
  qed
qed

section \<open>The contract\<close>

text \<open>A layer fits a master grid: its own grid, tables and footprint do.\<close>

fun layer_fits :: "nav_layer \<Rightarrow> costmap \<Rightarrow> bool" where
  "layer_fits (ObstacleL l) m = ob_fits l m"
| "layer_fits (InflationL l) m = il_fits l m"
| "layer_fits (DenoiseL d) m = int_sized m"

interpretation nav: layer_contract "layer_ops e" layer_fits footprint_near
proof
  fix p m i j k n par
  assume a: "layer_fits p m" "grid_ok m" "window_ok i j k n m" "i \<le> k" "j \<le> n"
  show "\<exists>p' m'. plugin_updateCosts (layer_ops e) par i j k n (p, m) = Some (None, p', m') \<and> window_only i j k n m m' \<and> layer_fits p' m'"
  proof (cases p)
    case (ObstacleL l)
    then obtain l' m' where "ob_updateCosts par i j k n (l, m) = Some (None, l', m')" "ob_fits l' m'"
      "window_rewritten i j k n (layer_merge (combine (combination_method l)) (ob_layer l')) m m'"
      using ob_updateCosts_spec [of l m i j k n par] a by auto
    then show ?thesis using ObstacleL window_only_rewritten
      by (intro exI [of _ "ObstacleL l'"] exI [of _ m']) (auto simp: layer_ops_def)
  next
    case (InflationL l)
    then obtain l' m' where "il_updateCosts i j k n (l, m) = Some (l', m')" "window_only i j k n m m'" "il_fits l' m'"
      using il_updateCosts_fits [of l m i j k n] a by auto
    then show ?thesis using InflationL by (intro exI [of _ "InflationL l'"] exI [of _ m']) (auto simp: layer_ops_def)
  next
    case (DenoiseL d)
    then obtain d' m' where d: "denoise_updateCosts (old_bytes e) (old_labels e) i j k n (d, m) = Some (d', m')" "window_only i j k n m m'"
      using denoise_updateCosts_window [of m i j k n "old_bytes e" "old_labels e" d] a by auto
    then have "int_sized m'" using window_only_shape(1,2) [OF d(2)] a(1) DenoiseL by (simp add: int_sized_def)
    then show ?thesis using d DenoiseL by (intro exI [of _ "DenoiseL d'"] exI [of _ m']) (auto simp: layer_ops_def)
  qed
next
  fix p m m' assume "layer_fits p m" "same_geometry m m'"
  then show "layer_fits p m'"
    using ob_fits_geometry il_fits_geometry by (cases p) (auto simp: int_sized_def same_geometry_def)
next
  fix p m par rx ry ryaw bs
  assume "layer_fits p m" "footprint_near par rx ry ryaw m"
  then show "\<exists>p' bs'. plugin_updateBounds (layer_ops e) par rx ry ryaw bs p = Some (p', bs') \<and> layer_fits p' m"
  proof (cases p)
    case (ObstacleL l)
    then obtain l' b' where "ob_updateBounds (new_bytes e) (clock_now e) par rx ry ryaw bs l = Some (l', b')" "ob_fits l' m"
      using ob_updateBounds_fits [of l m par rx ry ryaw "new_bytes e" "clock_now e" bs] \<open>layer_fits p m\<close> \<open>footprint_near par rx ry ryaw m\<close> by auto
    then show ?thesis using ObstacleL by (intro exI [of _ "ObstacleL l'"] exI [of _ b']) (simp add: layer_ops_def)
  next
    case (InflationL l)
    obtain l' b' where r: "il_updateBounds bs l = (l', b')" by (cases "il_updateBounds bs l")
    then have "il_fits l' m = il_fits l m"
      by (auto simp: il_updateBounds_def il_fits_def il_ready_def cache_radius_def computeCost_def Let_def split: prod.splits if_splits)
    then show ?thesis using r InflationL \<open>layer_fits p m\<close>
      by (intro exI [of _ "InflationL l'"] exI [of _ b']) (simp add: layer_ops_def)
  next
    case (DenoiseL d)
    then show ?thesis using \<open>layer_fits p m\<close> by (intro exI [of _ p] exI [of _ bs]) (simp add: layer_ops_def)
  qed
qed

end
