(* ===== verification/Layer_Pipeline.thy ===== *)
theory Layer_Pipeline
  imports Layer_Stack
begin

text \<open>
  One update cycle of a costmap with an obstacle layer and an inflation layer, from the point a sensor
  reports to the costs around its cell in the master grid.
\<close>

section \<open>The window of a bounding box\<close>

lemma enforce_axis_le:
  assumes "enforce_axis res sz origin w = Some r" and "0 < res" and "unat sz < 2 ^ 31"
    and "w < origin + (real c + 1) * res" and "c < unat sz"
  shows "r \<le> int c"
proof -
  have "(real c + 1) * res \<le> real (unat sz) * res" using assms(2,5) by (intro mult_right_mono) linarith+
  then have "\<not> w > res * real (unat sz) + origin" using assms(4) by (simp add: mult.commute)
  moreover have "(w - origin) / res < real c + 1" using assms(2,4) by (simp add: pos_divide_less_eq)
  ultimately show ?thesis
    using assms(1,2) by (auto simp: enforce_axis_def real_to_int_def trunc_def floor_le_iff not_less split: if_splits)
qed

lemma enforce_axis_ge:
  assumes "enforce_axis res sz origin w = Some r" and "0 < res" and "unat sz < 2 ^ 31"
    and "origin + real c * res \<le> w" and "c < unat sz"
  shows "int c \<le> r"
proof -
  have "0 \<le> real c * res" using assms(2) by simp
  then have w: "\<not> w < origin" using assms(4) by linarith
  have c: "real c \<le> (w - origin) / res" using assms(2,4) by (simp add: pos_le_divide_eq)
  have "sz \<noteq> 0" using assms(5) by auto
  then have "unat (sz - 1) = unat sz - 1" by (rule unat_minus_one)
  then have "sint (sz - 1) = int (unat sz - 1)" using assms(3) by (simp add: sint_small)
  then have "int c \<le> sint (sz - 1)" using assms(5) by linarith
  moreover have "0 \<le> (w - origin) / res" using w assms(2) by simp
  moreover have "int c \<le> \<lfloor>(w - origin) / res\<rfloor>" using c by (simp add: le_floor_iff)
  ultimately show ?thesis
    using assms(1) w by (auto simp: enforce_axis_def real_to_int_def trunc_def split: if_splits)
qed

text \<open>A box that reaches a cell beyond a point gives a window with the cells around the point's.\<close>

lemma update_window_covers:
  assumes win: "update_window m (lo_x, lo_y, hi_x, hi_y) = Some (x0, y0, xn, yn)"
    and m: "0 < resolution m" "width m < 2 ^ 31 - 1" "height m < 2 ^ 31 - 1"
    and cell: "worldToMap m px py = Some (Some (mx, my))"
    and box: "lo_x \<le> px - resolution m" "lo_y \<le> py - resolution m" "px + resolution m \<le> hi_x" "py + resolution m \<le> hi_y"
    and near: "p \<in> grid_cells m" "gap2 p (unat mx, unat my) \<le> 1"
  shows "in_window x0 y0 xn yn (fst p) (snd p)"
proof -
  note c = worldToMap_cell [OF cell m(1)]
  have s: "width m < 2 ^ 31" "height m < 2 ^ 31" using m(2,3) by simp_all
  obtain i j k l where ij: "worldToMapEnforceBounds m lo_x lo_y = Some (i, j)" "worldToMapEnforceBounds m hi_x hi_y = Some (k, l)"
    and r: "x0 = max 0 i" "y0 = max 0 j" "xn = min (sint (size_x m)) (k + 1)" "yn = min (sint (size_y m)) (l + 1)"
    using win by (auto simp: update_window_def int32_def split: bind_splits if_splits)
  have axis: "enforce_axis (resolution m) (size_x m) (origin_x m) lo_x = Some i" "enforce_axis (resolution m) (size_y m) (origin_y m) lo_y = Some j"
    "enforce_axis (resolution m) (size_x m) (origin_x m) hi_x = Some k" "enforce_axis (resolution m) (size_y m) (origin_y m) hi_y = Some l"
    using ij by (auto simp: worldToMapEnforceBounds_def split: bind_splits)
  have g: "fst p < width m" "snd p < height m" using near(1) by (simp_all add: grid_cells_def)
  have d: "int (fst p) \<le> int (unat mx) + 1" "int (unat mx) \<le> int (fst p) + 1" "int (snd p) \<le> int (unat my) + 1" "int (unat my) \<le> int (snd p) + 1"
  proof -
    have "gap2 p (unat mx, unat my) = 0 \<or> gap2 p (unat mx, unat my) = 1" using near(2) gap2_nonneg [of p "(unat mx, unat my)"] by linarith
    then show "int (fst p) \<le> int (unat mx) + 1" "int (unat mx) \<le> int (fst p) + 1" "int (snd p) \<le> int (unat my) + 1" "int (unat my) \<le> int (snd p) + 1"
      by (auto simp: gap2_one simp del: of_nat_unat)
  qed
  have step: "real (unat mx) \<le> real (fst p) + 1" "real (unat my) \<le> real (snd p) + 1" "real (fst p) \<le> real (unat mx) + 1" "real (snd p) \<le> real (unat my) + 1"
    using d by linarith+
  have mono: "a * resolution m \<le> b * resolution m" if "a \<le> b" for a b using that m(1) by simp
  have "lo_x < origin_x m + (real (fst p) + 1) * resolution m" "lo_y < origin_y m + (real (snd p) + 1) * resolution m"
    "origin_x m + real (fst p) * resolution m \<le> hi_x" "origin_y m + real (snd p) * resolution m \<le> hi_y"
    using box c step(1,2) mono [OF step(1)] mono [OF step(2)] mono [OF step(3)] mono [OF step(4)] by (simp_all add: algebra_simps del: of_nat_unat)
  then have "i \<le> int (fst p)" "j \<le> int (snd p)" "int (fst p) \<le> k" "int (snd p) \<le> l"
    using enforce_axis_le [OF axis(1) m(1) s(1)] enforce_axis_le [OF axis(2) m(1) s(2)]
      enforce_axis_ge [OF axis(3) m(1) s(1)] enforce_axis_ge [OF axis(4) m(1) s(2)] g by blast+
  moreover have "int (fst p) < int (width m)" "int (snd p) < int (height m)" using g by linarith+
  ultimately show ?thesis using r s by (simp add: in_window_def sint_small)
qed

section \<open>The costs around a source\<close>

text \<open>Where the inscribed radius is a cell or more, the cells next to a lethal one are inscribed at least.\<close>

lemma wave_cost_next:
  assumes "gap2 p s \<le> 1" and "il_resolution l \<le> il_inscribed_radius l"
  shows "wave_cost l p s = LETHAL_OBSTACLE \<or> wave_cost l p s = INSCRIBED_INFLATED_OBSTACLE"
proof -
  have "gap2 p s = 0 \<or> gap2 p s = 1" using assms(1) gap2_nonneg [of p s] by linarith
  then show ?thesis using assms(2) by (auto simp: wave_cost_def computeCost_def simp del: gap2_0)
qed

lemma inflated_next:
  assumes "cost = LETHAL_OBSTACLE \<or> cost = INSCRIBED_INFLATED_OBSTACLE"
  shows "INSCRIBED_INFLATED_OBSTACLE \<le> inflated l cost old"
proof (cases "old = NO_INFORMATION")
  case True
  then show ?thesis using assms by (auto simp: inflated_def cost_values)
next
  case False
  have "INSCRIBED_INFLATED_OBSTACLE \<le> cost" using assms by (auto simp: cost_values)
  then show ?thesis using False by (simp add: inflated_def le_max_iff_disj)
qed

lemma inflated_around:
  assumes inf: "inflated_from l (a, b, c, d) m m'" and ob: "ob \<in> grid_cells m" "in_window a b c d (fst ob) (snd ob)"
    "costs m ! idx m ob = LETHAL_OBSTACLE" and r: "il_resolution l \<le> il_inscribed_radius l"
    and p: "p \<in> grid_cells m" "gap2 p ob \<le> 1" "in_window a b c d (fst p) (snd p)"
  shows "INSCRIBED_INFLATED_OBSTACLE \<le> costs m' ! idx m p" and "p = ob \<Longrightarrow> costs m' ! idx m p = LETHAL_OBSTACLE"
proof -
  have "in_window (a - int (cache_radius l)) (b - int (cache_radius l)) (c + int (cache_radius l)) (d + int (cache_radius l)) (fst ob) (snd ob)"
    using ob(2) by (simp add: in_window_def)
  then have "ob \<in> wave_sources l m (a, b, c, d)" using ob(1,3) by (simp add: wave_sources_def is_source_def Let_def)
  then obtain s where s: "gap2 p s \<le> gap2 p ob" "costs m' ! idx m p = cell_value l m (a, b, c, d) p s"
    using inf p(1,2) unfolding inflated_from_def by blast
  have v: "costs m' ! idx m p = inflated l (wave_cost l p s) (costs m ! idx m p)" using s(2) p(3) by (simp add: cell_value_def)
  show "INSCRIBED_INFLATED_OBSTACLE \<le> costs m' ! idx m p"
    unfolding v using wave_cost_next [OF order_trans [OF s(1) p(2)] r] by (rule inflated_next)
  assume "p = ob"
  then have "gap2 p s \<le> 0" using s(1) by simp
  then have "gap2 p s = 0" using gap2_nonneg [of p s] by (rule antisym)
  then have "p = s" by simp
  then show "costs m' ! idx m p = LETHAL_OBSTACLE" using v ob(3) \<open>p = ob\<close> by (simp add: inflated_def)
qed

lemma combine_lethal:
  assumes "method = 0 \<or> method = 1"
  shows "combine method LETHAL_OBSTACLE old = LETHAL_OBSTACLE"
  using assms byte_cases [of old]
  by (auto simp: combine_def overwrite_cost_def max_cost_def cost_values word_less_nat_alt)

section \<open>The cycle\<close>

lemma il_updateBounds_box:
  assumes "il_updateBounds b l = (l', b')" and "\<not> need_reinflation l" and "in_bounds (px, py) b" and "res \<le> inflation_radius l"
    and "b' = (lo_x, lo_y, hi_x, hi_y)"
  shows "lo_x \<le> px - res \<and> lo_y \<le> py - res \<and> px + res \<le> hi_x \<and> py + res \<le> hi_y \<and> l' = l\<lparr>last_bounds := b\<rparr>"
  using assms by (auto simp: il_updateBounds_def in_bounds_def Let_def split: prod.splits)

lemma costs_pass_lethal:
  assumes fits: "ob_fits l m" "il_fits i m" and ok: "grid_ok m" "window_ok x0 y0 xn yn m" "x0 \<le> xn" "y0 \<le> yn"
    and ob: "layer_enabled (ob_layer l)" "combination_method l = 0 \<or> combination_method l = 1"
      "\<not> (footprint_clearing_enabled l \<and> polygon_cell (ob_map l) (transformed_footprint l) (fst q) (snd q))"
    and il: "il_enabled i" "cell_inflation_radius i \<noteq> 0" "il_resolution i \<le> il_inscribed_radius i"
    and cell: "q \<in> grid_cells m" "in_window x0 y0 xn yn (fst q) (snd q)" "cost_at (ob_map l) (fst q) (snd q) = LETHAL_OBSTACLE"
  shows "\<exists>ps m'. costs_pass (layer_ops e) par x0 y0 xn yn [ObstacleL l, InflationL i] m = Some (None, ps, m') \<and>
    window_only x0 y0 xn yn m m' \<and> cost_at m' (fst q) (snd q) = LETHAL_OBSTACLE \<and>
    (\<forall>p \<in> grid_cells m. gap2 p q \<le> 1 \<longrightarrow> in_window x0 y0 xn yn (fst p) (snd p) \<longrightarrow>
      INSCRIBED_INFLATED_OBSTACLE \<le> cost_at m' (fst p) (snd p))"
proof -
  have q: "fst q < width m" "snd q < height m" using cell(1) by (simp_all add: grid_cells_def)
  have geo: "width (ob_map l) = width m" "height (ob_map l) = height m" using fits(1) by (simp_all add: ob_fits_def same_geometry_def)
  obtain l' m1 where o: "ob_updateCosts par x0 y0 xn yn (l, m) = Some (None, l', m1)"
    "if footprint_clearing_enabled l
     then cells_rewritten (polygon_cell (ob_map l) (transformed_footprint l)) (\<lambda>_ _ _. FREE_SPACE) (ob_map l) (ob_map l')
     else ob_map l' = ob_map l"
    "layer_enabled (ob_layer l')" "window_rewritten x0 y0 xn yn (layer_merge (combine (combination_method l)) (ob_layer l')) m m1"
    using ob_updateCosts_spec [OF fits(1) ok(1,2), of par] ob(1) by auto
  have keep: "cost_at (ob_map l') (fst q) (snd q) = LETHAL_OBSTACLE"
    using o(2) ob(3) cell(3) q geo by (cases "footprint_clearing_enabled l") (simp_all add: cells_rewritten_def)
  note w1 = window_only_rewritten [OF o(4)]
  note sh1 = window_only_shape [OF w1]
  have "cost_at m1 (fst q) (snd q) = combine (combination_method l) LETHAL_OBSTACLE (cost_at m (fst q) (snd q))"
    using o(4) q cell(2) keep o(3) by (simp add: cells_rewritten_def layer_merge_def)
  then have lethal: "cost_at m1 (fst q) (snd q) = LETHAL_OBSTACLE" using combine_lethal [OF ob(2)] by simp
  have "il_fits i m1" using il_fits_geometry [OF fits(2) window_only_geometry [OF w1]] .
  moreover have "grid_ok m1" "window_ok x0 y0 xn yn m1" using sh1(8,9) ok(1,2) by simp_all
  ultimately obtain i' m2 sn where i: "il_updateCosts x0 y0 xn yn (i, m1) = Some (i', m2)" "inflated_from i (x0, y0, xn, yn) m1 m2"
    using il_updateCosts_spec [of i m1 x0 y0 xn yn] ok(3,4) il(1,2) by blast
  have idx1: "idx m1 p = idx m p" "grid_cells m1 = grid_cells m" for p using sh1(1,2) by (simp_all add: idx_def grid_cells_def)
  note w2 = inflated_from_window [OF i(2)]
  have at: "cost_at m2 (fst p) (snd p) = costs m2 ! idx m1 p" "cost_at m1 (fst p) (snd p) = costs m1 ! idx m1 p" for p
    using window_only_shape(1) [OF w2] by (simp_all add: cost_at_def idx_def)
  have src: "q \<in> grid_cells m1" "costs m1 ! idx m1 q = LETHAL_OBSTACLE" using cell(1) lethal idx1 at(2) [of q] by simp_all
  note inf = inflated_around [OF i(2) src(1) cell(2) src(2) il(3)]
  show ?thesis
  proof (intro exI conjI ballI impI)
    show "costs_pass (layer_ops e) par x0 y0 xn yn [ObstacleL l, InflationL i] m = Some (None, [ObstacleL l', InflationL i'], m2)"
      using o(1) i(1) by (simp add: layer_ops_def)
    show "window_only x0 y0 xn yn m m2" by (rule window_only_trans [OF w1 w2])
    show "cost_at m2 (fst q) (snd q) = LETHAL_OBSTACLE" using inf(2) [OF src(1) _ cell(2) refl] at(1) by simp
    fix p assume "p \<in> grid_cells m" "gap2 p q \<le> 1" "in_window x0 y0 xn yn (fst p) (snd p)"
    then show "INSCRIBED_INFLATED_OBSTACLE \<le> cost_at m2 (fst p) (snd p)" using inf(1) at(1) idx1(2) by simp
  qed
qed

lemma il_fits_bounds [simp]: "il_fits (l\<lparr>last_bounds := b\<rparr>) m = il_fits l m"
proof -
  have "computeCost (l\<lparr>last_bounds := b\<rparr>) = computeCost l" by (simp add: computeCost_def fun_eq_iff)
  then have "il_ready (l\<lparr>last_bounds := b\<rparr>) = il_ready l" by (simp add: il_ready_def cache_radius_def Let_def)
  then show ?thesis by (simp add: il_fits_def)
qed

lemma cycle_marks_obstacle:
  assumes lc: "lc_ok c" "\<not> rolling_window c" "plugins c = [ObstacleL l, InflationL i]" "filters c = []"
    and fits: "ob_fits l (combined_costmap c)" "il_fits i (combined_costmap c)"
    and pose: "footprint_near (parent_of c) rx ry ryaw (combined_costmap c)" "worldToMap (combined_costmap c) rx ry \<noteq> None"
    and ob: "layer_enabled (ob_layer l)" "combination_method l = 0 \<or> combination_method l = 1"
      "\<not> (footprint_clearing_enabled l \<and>
        polygon_cell (combined_costmap c) (transformFootprint rx ry ryaw (par_footprint (parent_of c))) x y)"
    and il: "il_enabled i" "cell_inflation_radius i \<noteq> 0" "il_resolution i \<le> il_inscribed_radius i"
      "\<not> need_reinflation i" "resolution (combined_costmap c) \<le> inflation_radius i"
    and mark: "getMarkingObservations (clock_now e) l = Some (obs, current, l1)" "obn \<in> set obs" "pt \<in> set (obs_cloud obn)"
      "hit l (ob_map l) obn pt x y"
  shows "\<exists>c'. updateMap (layer_ops e) nb rx ry ryaw c = Some (None, c') \<and> lc_ok c' \<and>
    cost_at (combined_costmap c') x y = LETHAL_OBSTACLE \<and>
    (\<forall>p \<in> grid_cells (combined_costmap c). gap2 p (x, y) \<le> 1 \<longrightarrow>
      INSCRIBED_INFLATED_OBSTACLE \<le> cost_at (combined_costmap c') (fst p) (snd p))"
proof -
  let ?m = "combined_costmap c" and ?par = "parent_of c" and ?b0 = "(DBL_MAX, DBL_MAX, - DBL_MAX, - DBL_MAX)"
  note f = fits(1) [unfolded ob_fits_def]
  have geo: "same_geometry (ob_map l) ?m" using f by blast
  have ok: "ob_ok l" "\<not> ob_rolling_window l" using f by blast+
  obtain l' b1 obs' current' l1' clearing current2 l2 where u: "ob_updateBounds (new_bytes e) (clock_now e) ?par rx ry ryaw ?b0 l = Some (l', b1)"
    "layer_enabled (ob_layer l')" "footprint_clearing_enabled l' = footprint_clearing_enabled l" "combination_method l' = combination_method l"
    "\<forall>x < width (ob_map l). \<forall>y < height (ob_map l). cost_at (ob_map l') x y =
      (if \<exists>ob \<in> set obs'. \<exists>pt \<in> set (obs_cloud ob). hit l (ob_map l) ob pt x y then LETHAL_OBSTACLE
       else if current' \<and> (\<exists>ob \<in> set clearing. \<exists>pt \<in> set (obs_cloud ob). swept (ob_map l) ob pt x y) then FREE_SPACE
       else cost_at (ob_map l) x y)"
    "\<forall>ob \<in> set obs'. \<forall>pt \<in> set (obs_cloud ob). \<forall>x y. hit l (ob_map l) ob pt x y \<longrightarrow> in_bounds (fst pt, fst (snd pt)) b1"
    "getMarkingObservations (clock_now e) l = Some (obs', current', l1')" "ob_map l' = (ob_map l)\<lparr>costs := costs (ob_map l')\<rparr>"
    using ob_updateBounds_spec [OF ok ob(1), of "new_bytes e" "clock_now e" ?par rx ry ryaw ?b0] by blast
  have obs: "obs' = obs" using u(7) mark(1) by simp
  have shape: "same_geometry (ob_map l') ?m" using geo same_but_costs [OF u(8)] by (simp add: same_geometry_def)
  have feet: "\<not> (footprint_clearing_enabled l' \<and> polygon_cell (ob_map l') (transformed_footprint l') x y)"
    using ob(3) u(3) ob_updateBounds_clearing [OF u(1) ob(1)] polygon_cell_geometry [OF shape] by auto
  obtain l'' b'' where "ob_updateBounds (new_bytes e) (clock_now e) ?par rx ry ryaw ?b0 l = Some (l'', b'')" "ob_fits l'' ?m"
    using ob_updateBounds_fits [OF fits(1) pose(1), of "new_bytes e" "clock_now e" ?b0] by blast
  then have fits': "ob_fits l' ?m" using u(1) by simp
  obtain i' b2 where ib: "il_updateBounds b1 i = (i', b2)" by (cases "il_updateBounds b1 i")
  obtain lo_x lo_y hi_x hi_y where b2: "b2 = (lo_x, lo_y, hi_x, hi_y)" by (metis prod_cases4)
  have "in_bounds (fst pt, fst (snd pt)) b1" using u(6) mark(2-4) obs by blast
  note box = il_updateBounds_box [OF ib il(4) this il(5) b2]
  let ?i = "i\<lparr>last_bounds := b1\<rparr>"
  have i': "i' = ?i" using box by blast
  obtain mx my where cell: "worldToMap ?m (fst pt) (fst (snd pt)) = Some (Some (mx, my))" "x = unat mx" "y = unat my"
  proof -
    have "worldToMap (ob_map l) = worldToMap ?m" using geo by (simp add: worldToMap_def same_geometry_def fun_eq_iff)
    then show ?thesis using that mark(4)
      by (cases pt) (auto simp: hit_def obstacle_cell_def split: option.splits if_splits bind_splits)
  qed
  have sz: "0 < resolution ?m" "0 < width ?m" "width ?m < 2 ^ 31 - 1" "0 < height ?m" "height ?m < 2 ^ 31 - 1"
    using lc(1) by (auto simp: lc_ok_def map_sized_def grid_ok_def)
  obtain x0 y0 xn yn where win: "update_window ?m b2 = Some (x0, y0, xn, yn)" using update_window_total [OF sz] by blast
  have win': "window_ok x0 y0 xn yn ?m" using update_window_ok [OF win] sz by simp
  have cov: "in_window x0 y0 xn yn (fst p) (snd p)" if "p \<in> grid_cells ?m" "gap2 p (x, y) \<le> 1" for p
    using update_window_covers [OF win [unfolded b2] sz(1,3,5) cell(1)] box that cell(2,3) by blast
  have q: "(x, y) \<in> grid_cells ?m" using worldToMap_cell [OF cell(1) sz(1)] cell(2,3) by (simp add: grid_cells_def word_less_nat_alt)
  have inq: "in_window x0 y0 xn yn x y" using cov [OF q] by simp
  then have le: "x0 \<le> xn" "y0 \<le> yn" by (simp_all add: in_window_def)
  have lethal: "cost_at (ob_map l') x y = LETHAL_OBSTACLE"
    using u(5) q geo mark(2-4) obs by (auto simp: grid_cells_def same_geometry_def)
  obtain m1 where m1: "resetMap (word_of_int x0) (word_of_int y0) (word_of_int xn) (word_of_int yn) ?m = Some m1"
    "window_only x0 y0 xn yn ?m m1"
    using resetMap_window [OF _ win' le] lc(1) window_only_rewritten unfolding lc_ok_def by blast
  note sh = window_only_shape [OF m1(2)] and g1 = window_only_geometry [OF m1(2)]
  have ok1: "grid_ok m1" "window_ok x0 y0 xn yn m1" using sh(8,9) lc(1) win' by (simp_all add: lc_ok_def map_sized_def)
  have "il_fits ?i m1" using il_fits_geometry [OF fits(2) g1] by simp
  moreover have "grid_cells m1 = grid_cells ?m" using sh(1,2) by (simp add: grid_cells_def)
  ultimately obtain ps m2 where m2: "costs_pass (layer_ops e) ?par x0 y0 xn yn [ObstacleL l', InflationL ?i] m1 = Some (None, ps, m2)"
    "window_only x0 y0 xn yn m1 m2" "cost_at m2 x y = LETHAL_OBSTACLE"
    "\<forall>p \<in> grid_cells ?m. gap2 p (x, y) \<le> 1 \<longrightarrow> in_window x0 y0 xn yn (fst p) (snd p) \<longrightarrow>
      INSCRIBED_INFLATED_OBSTACLE \<le> cost_at m2 (fst p) (snd p)"
    using costs_pass_lethal [OF ob_fits_geometry [OF fits' g1] _ ok1 le, of ?i "(x, y)" e ?par] u(2-4) ob(2) feet il(1-3) q inq lethal by auto
  let ?c = "c\<lparr>plugins := [ObstacleL l', InflationL ?i], filters := [], lc_bounds := b2\<rparr>"
  let ?c' = "?c\<lparr>combined_costmap := m2, plugins := ps, bx0 := word_of_int x0, bxn := word_of_int xn,
    by0 := word_of_int y0, byn := word_of_int yn, lc_initialized := True\<rparr>"
  have bp: "bounds_pass (layer_ops e) ?par rx ry ryaw (plugins c) ?b0 = Some ([ObstacleL l', InflationL ?i], b2)"
    using lc(3) u(1) ib i' by (simp add: layer_ops_def)
  have uc: "update_costs (layer_ops e) x0 y0 xn yn ?c = Some (None, ?c\<lparr>combined_costmap := m2, plugins := ps\<rparr>)"
    using m1(1) m2(1) by (simp add: update_costs_def Let_def del: costs_pass.simps)
  have run: "updateMap (layer_ops e) nb rx ry ryaw c = Some (None, ?c')"
    using lc(2,3,4) pose(2) bp win uc le by (auto simp: updateMap_def roll_window_def)
  have "lc_ok ?c'"
    using lc(1) window_only_shape [OF window_only_trans [OF m1(2) m2(2)]]
      same_geometry_trans [OF _ window_only_geometry [OF window_only_trans [OF m1(2) m2(2)]]] by (simp add: lc_ok_def)
  then show ?thesis using run m2(3,4) cov by (intro exI [of _ ?c']) simp
qed

end
