(* ===== verification/Obstacle_Cells.thy ===== *)
theory Obstacle_Cells
  imports Obstacle_Layer
begin

text \<open>
  Which cells an observation marks and clears, said with coordinates and distances instead of the functions of
  the layer, and the proofs that \<open>hit\<close> and \<open>swept\<close>, the descriptions over those functions, say the same.
\<close>

text \<open>The point \<open>(wx, wy)\<close> lies in the square of the cell \<open>(x, y)\<close> of the map.\<close>

definition in_cell :: "costmap \<Rightarrow> real \<Rightarrow> real \<Rightarrow> nat \<Rightarrow> nat \<Rightarrow> bool" where
  "in_cell m wx wy x y \<longleftrightarrow> x < width m \<and> y < height m \<and>
     origin_x m + real x * resolution m \<le> wx \<and> wx < origin_x m + (real x + 1) * resolution m \<and>
     origin_y m + real y * resolution m \<le> wy \<and> wy < origin_y m + (real y + 1) * resolution m"

text \<open>A range in cells, rounded up.\<close>

definition cells_of :: "costmap \<Rightarrow> real \<Rightarrow> real" where
  "cells_of m r = max 0 (real_of_int \<lceil>r / resolution m\<rceil>)"

text \<open>
  A point marks the cell it lies in if its height is within the layer's limits and the distance of that cell
  from the sensor's, in cells and rounded down, is within the observation's obstacle ranges.
\<close>

definition marks :: "obstacle_layer \<Rightarrow> costmap \<Rightarrow> observation \<Rightarrow> point3 \<Rightarrow> nat \<Rightarrow> nat \<Rightarrow> bool" where
  "marks l m ob pt x y \<longleftrightarrow>
     min_obstacle_height l \<le> snd (snd pt) \<and> snd (snd pt) \<le> max_obstacle_height l \<and> in_cell m (fst pt) (fst (snd pt)) x y \<and>
     (\<exists>x0 y0. in_cell m (fst (obs_origin ob)) (snd (obs_origin ob)) x0 y0 \<and>
       cells_of m (obs_obstacle_min_range ob) \<le> hypot (real x - real x0) (real y - real y0) \<and>
       hypot (real x - real x0) (real y - real y0) < cells_of m (obs_obstacle_max_range ob) + 1)"

text \<open>
  A point clears the cells of the ray from the sensor's cell to its own, within the observation's raytrace ranges;
  the ray of a point off the map ends where \<open>clip_ray\<close> pulls it back to.
\<close>

definition clears :: "costmap \<Rightarrow> observation \<Rightarrow> point3 \<Rightarrow> nat \<Rightarrow> nat \<Rightarrow> bool" where
  "clears m ob pt x y \<longleftrightarrow>
     (\<exists>x0 y0 x1 y1. in_cell m (fst (obs_origin ob)) (snd (obs_origin ob)) x0 y0 \<and>
       (let w = clip_ray m (fst (obs_origin ob)) (snd (obs_origin ob)) (fst pt) (fst (snd pt)) in in_cell m (fst w) (snd w) x1 y1) \<and>
       (int x, int y) \<in> set (ranged_line (cells_of m (obs_raytrace_min_range ob)) (cells_of m (obs_raytrace_max_range ob))
         (int x0, int y0) (int x1, int y1)))"

section \<open>Cells\<close>

lemma in_cell_worldToMap:
  assumes "grid_ok m"
  shows "in_cell m wx wy x y \<longleftrightarrow> (\<exists>c. worldToMap m wx wy = Some (Some c) \<and> x = unat (fst c) \<and> y = unat (snd c))"
proof
  have res: "0 < resolution m" using assms by (simp add: grid_ok_def)
  show "\<exists>c. worldToMap m wx wy = Some (Some c) \<and> x = unat (fst c) \<and> y = unat (snd c)" if "in_cell m wx wy x y"
  proof -
    note c = that [unfolded in_cell_def]
    define mx where "mx = (of_nat x :: u32)"
    define my where "my = (of_nat y :: u32)"
    have "x < 2 ^ 32" "y < 2 ^ 32"
      using c unsigned_less [where ?'a = nat, of "size_x m"] unsigned_less [where ?'a = nat, of "size_y m"] by simp_all
    then have w: "unat mx = x" "unat my = y" unfolding mx_def my_def by (simp_all only: unat_of_nat) simp_all
    have "0 \<le> real x * resolution m" "0 \<le> real y * resolution m" using res by simp_all
    then have "origin_x m \<le> wx" "origin_y m \<le> wy" using c by linarith+
    moreover have "real (unat mx) \<le> (wx - origin_x m) / resolution m" "(wx - origin_x m) / resolution m < real (unat mx) + 1"
      "real (unat my) \<le> (wy - origin_y m) / resolution m" "(wy - origin_y m) / resolution m < real (unat my) + 1"
      unfolding w using c res by (simp_all add: pos_le_divide_eq pos_divide_less_eq algebra_simps)
    then have "real_to_u32 ((wx - origin_x m) / resolution m) = Some mx" "real_to_u32 ((wy - origin_y m) / resolution m) = Some my"
      using real_to_u32_cell by blast+
    moreover have "mx < size_x m" "my < size_y m" using c w by (simp_all add: word_less_nat_alt)
    ultimately show ?thesis using w by (intro exI [of _ "(mx, my)"]) (simp add: worldToMap_def)
  qed
  show "in_cell m wx wy x y" if "\<exists>c. worldToMap m wx wy = Some (Some c) \<and> x = unat (fst c) \<and> y = unat (snd c)"
    using that worldToMap_cell [OF _ res, of wx wy] by (auto simp: in_cell_def word_less_nat_alt simp del: of_nat_unat)
qed

lemma cellDistance_cells: "cellDistance r m = Some c \<Longrightarrow> real (unat c) = cells_of m r"
proof -
  let ?k = "max 0 \<lceil>r / resolution m\<rceil>"
  have k: "max 0 (real_of_int \<lceil>r / resolution m\<rceil>) = real_of_int ?k" by simp
  assume "cellDistance r m = Some c"
  then have "real (unat c) \<le> real_of_int ?k" "real_of_int ?k < real (unat c) + 1"
    using real_to_u32_Some [of "real_of_int ?k" c] unfolding cellDistance_def k by simp_all
  then have "int (unat c) = ?k" by linarith
  then have "real (unat c) = real_of_int ?k" by (metis of_int_of_nat_eq)
  then show ?thesis unfolding cells_of_def k .
qed

section \<open>Marking\<close>

lemma hit_marks:
  assumes ok: "grid_ok m" "int_sized m" and ob: "observation_ok m ob" "pt \<in> set (obs_cloud ob)"
  shows "hit l m ob pt x y \<longleftrightarrow> marks l m ob pt x y"
proof -
  obtain px py pz where pt: "pt = (px, py, pz)" by (cases pt)
  obtain ox oy where o: "obs_origin ob = (ox, oy)" by (cases "obs_origin ob")
  obtain hi lo where r: "cellDistance (obs_obstacle_max_range ob) m = Some hi" "cellDistance (obs_obstacle_min_range ob) m = Some lo"
    using ob by (auto simp: observation_ok_def)
  note rc = cellDistance_cells [OF r(1)] cellDistance_cells [OF r(2)]
  note cell = in_cell_worldToMap [OF ok(1)]
  show ?thesis
  proof (cases "\<exists>start. worldToMap m ox oy = Some (Some start)")
    case False
    then have "\<not> in_cell m ox oy x0 y0" for x0 y0 unfolding cell by blast
    moreover have "\<not> hit l m ob pt x y" using False o by (auto simp: hit_def split: option.splits)
    ultimately show ?thesis by (simp add: marks_def o)
  next
    case True
    then obtain start where start: "worldToMap m ox oy = Some (Some start)" by blast
    have in0: "in_cell m ox oy x0 y0 \<longleftrightarrow> x0 = unat (fst start) \<and> y0 = unat (snd start)" for x0 y0
      unfolding cell using start by auto
    have h: "hit l m ob pt x y \<longleftrightarrow> (\<exists>c. obstacle_cell l m start hi lo pt = Some (Some c) \<and> x = unat (fst c) \<and> y = unat (snd c))"
      using r o start by (auto simp: hit_def split: option.splits)
    have "near m px py" using ob pt by (auto simp: observation_ok_def)
    then obtain c where c: "obstacle_cell l m start hi lo pt = Some c"
      using obstacle_cell_total [OF ok worldToMap_in_grid [OF start], of pt l hi lo] pt by auto
    show ?thesis
    proof (cases "min_obstacle_height l \<le> pz \<and> pz \<le> max_obstacle_height l \<and> in_cell m px py x y")
      case False
      moreover have "\<not> hit l m ob pt x y"
      proof
        assume "hit l m ob pt x y"
        then obtain d where d: "obstacle_cell l m start hi lo pt = Some (Some d)" "x = unat (fst d)" "y = unat (snd d)" using h by blast
        then have "min_obstacle_height l \<le> pz \<and> pz \<le> max_obstacle_height l \<and> worldToMap m px py = Some (Some d)"
          by (auto simp: pt obstacle_cell_def split: if_splits bind_splits option.splits)
        then show False using False d(2,3) unfolding cell by blast
      qed
      ultimately show ?thesis by (auto simp: marks_def pt)
    next
      case True
      then obtain d where d: "worldToMap m px py = Some (Some d)" "x = unat (fst d)" "y = unat (snd d)" unfolding cell by blast
      have b: "unat (fst d) < 2 ^ 31" "unat (snd d) < 2 ^ 31" "unat (fst start) < 2 ^ 31" "unat (snd start) < 2 ^ 31"
        using ok(2) worldToMap_in_grid [OF start] worldToMap_in_grid [OF d(1)] by (auto simp: in_grid_def int_sized_def word_less_nat_alt)
      define dx where "dx = int (unat (fst d)) - int (unat (fst start))"
      define dy where "dy = int (unat (snd d)) - int (unat (snd start))"
      have s: "sint (fst d) - sint (fst start) = dx" "sint (snd d) - sint (snd start) = dy"
        using b by (simp_all add: sint_small dx_def dy_def del: of_nat_unat)
      have "int32 dx = Some dx" "int32 dy = Some dy" using b by (auto simp: int32_def dx_def dy_def simp del: of_nat_unat)
      have "obstacle_cell l m start hi lo pt = do {
          w \<leftarrow> real_to_u32 (hypot (real_of_int dx) (real_of_int dy));
          Some (if w > hi then None else if w < lo then None else Some d)
        }"
      proof -
        obtain a b where ab: "d = (a, b)" by (cases d)
        show ?thesis using \<open>int32 dx = _\<close> \<open>int32 dy = _\<close> True d(1) s unfolding ab fst_conv snd_conv
          by (simp add: obstacle_cell_def pt not_less)
      qed
      then obtain w where w: "real_to_u32 (hypot (real_of_int dx) (real_of_int dy)) = Some w"
        "c = (if w > hi then None else if w < lo then None else Some d)"
        using c by (auto split: bind_splits)
      have dist: "hypot (real_of_int dx) (real_of_int dy) = hypot (real x - real (unat (fst start))) (real y - real (unat (snd start)))"
        unfolding dx_def dy_def d(2,3) by (simp del: of_nat_unat)
      let ?h = "hypot (real x - real (unat (fst start))) (real y - real (unat (snd start)))"
      note f = real_to_u32_Some [OF w(1) hypot_nonneg, unfolded dist]
      have "w \<le> hi \<longleftrightarrow> ?h < real (unat hi) + 1"
      proof
        assume "w \<le> hi"
        then have "real (unat w) \<le> real (unat hi)" by (simp add: word_le_nat_alt del: of_nat_unat)
        then show "?h < real (unat hi) + 1" using f by linarith
      next
        assume "?h < real (unat hi) + 1"
        then have "real (unat w) < real (unat hi) + 1" using f by linarith
        then have "unat w \<le> unat hi" by linarith
        then show "w \<le> hi" by (simp add: word_le_nat_alt)
      qed
      moreover have "lo \<le> w \<longleftrightarrow> real (unat lo) \<le> ?h"
      proof
        assume "lo \<le> w"
        then have "real (unat lo) \<le> real (unat w)" by (simp add: word_le_nat_alt del: of_nat_unat)
        then show "real (unat lo) \<le> ?h" using f by linarith
      next
        assume "real (unat lo) \<le> ?h"
        then have "real (unat lo) < real (unat w) + 1" using f by linarith
        then have "unat lo \<le> unat w" by linarith
        then show "lo \<le> w" by (simp add: word_le_nat_alt)
      qed
      ultimately have "c = Some d \<longleftrightarrow> cells_of m (obs_obstacle_min_range ob) \<le> ?h \<and> ?h < cells_of m (obs_obstacle_max_range ob) + 1"
        unfolding rc [symmetric] w(2) by (auto simp: not_less [symmetric])
      moreover have "hit l m ob pt x y \<longleftrightarrow> c = Some d"
      proof
        assume "hit l m ob pt x y"
        then show "c = Some d" using h c w(2) by (auto split: if_splits)
      qed (use h c d in auto)
      ultimately show ?thesis using True in0 unfolding marks_def o pt fst_conv snd_conv by auto
    qed
  qed
qed

section \<open>Clearing\<close>

lemma clip_ray_inside:
  assumes "0 < resolution m" and "in_cell m wx wy x y"
  shows "clip_ray m ox oy wx wy = (wx, wy)"
proof -
  note c = assms(2) [unfolded in_cell_def]
  have "(real x + 1) * resolution m \<le> real (width m) * resolution m" "(real y + 1) * resolution m \<le> real (height m) * resolution m"
  proof -
    have "real x + 1 \<le> real (width m)" "real y + 1 \<le> real (height m)" using c by linarith+
    then show "(real x + 1) * resolution m \<le> real (width m) * resolution m" "(real y + 1) * resolution m \<le> real (height m) * resolution m"
      using assms(1) by (intro mult_right_mono; simp del: of_nat_unat)+
  qed
  moreover have "0 \<le> real x * resolution m" "0 \<le> real y * resolution m" using assms(1) by simp_all
  ultimately have "\<not> wx < origin_x m" "\<not> wy < origin_y m" "\<not> wx > origin_x m + real (width m) * resolution m"
    "\<not> wy > origin_y m + real (height m) * resolution m" using c by linarith+
  then show ?thesis
    by (simp add: clip_ray_def clip_min_x_def clip_min_y_def clip_max_x_def clip_max_y_def Let_def del: of_nat_unat)
qed

lemma swept_clears:
  assumes ok: "grid_ok m" "int_sized m" and ob: "observation_ok m ob" and xy: "x < width m" "y < height m"
  shows "swept m ob pt x y \<longleftrightarrow> clears m ob pt x y"
proof -
  obtain ox oy where o: "obs_origin ob = (ox, oy)" by (cases "obs_origin ob")
  obtain wx wy where w: "clip_ray m ox oy (fst pt) (fst (snd pt)) = (wx, wy)" by (cases "clip_ray m ox oy (fst pt) (fst (snd pt))")
  obtain hi lo where r: "cellDistance (obs_raytrace_max_range ob) m = Some hi" "cellDistance (obs_raytrace_min_range ob) m = Some lo"
    using ob by (auto simp: observation_ok_def)
  note rc = cellDistance_cells [OF r(1)] cellDistance_cells [OF r(2)]
  note cell = in_cell_worldToMap [OF ok(1)]
  show ?thesis
  proof (cases "\<exists>p q. worldToMap m ox oy = Some (Some p) \<and> worldToMap m wx wy = Some (Some q)")
    case False
    then have "\<not> swept m ob pt x y" using o w by (auto simp: swept_def ray_cell_def split: option.splits)
    moreover have "\<not> clears m ob pt x y" using False unfolding clears_def o fst_conv snd_conv w Let_def cell by blast
    ultimately show ?thesis by simp
  next
    case True
    then obtain p q where pq: "worldToMap m ox oy = Some (Some p)" "worldToMap m wx wy = Some (Some q)" by blast
    let ?cs = "ranged_line (real (unat lo)) (real (unat hi)) (int_loc p) (int_loc q)"
    note ray = raytraceLine_ranged [OF ok(2) worldToMap_in_grid [OF pq(1)] worldToMap_in_grid [OF pq(2)], of hi lo]
    have nonneg: "int_loc (loc c) = c" if "c \<in> set ?cs" for c using ray that by blast
    have off: "unat (cell_offset m c) = y * width m + x \<longleftrightarrow> c = (int x, int y)" if "c \<in> set ?cs" for c
    proof -
      have g: "in_grid m (loc c)" using ray that by blast
      have "unat (cell_offset m c) = unat (snd (loc c)) * width m + unat (fst (loc c))"
        unfolding cell_offset_getIndex using g by (intro getIndex_unat(1) [OF ok(1)]) (simp_all add: in_grid_def)
      moreover have "unat (fst (loc c)) < width m" using g by (simp add: in_grid_def word_less_nat_alt)
      ultimately have "unat (cell_offset m c) = y * width m + x \<longleftrightarrow> x = unat (fst (loc c)) \<and> y = unat (snd (loc c))"
        using cell_index_inj [of "unat (fst (loc c))" "width m" x "unat (snd (loc c))" y] xy(1) by auto
      also have "\<dots> \<longleftrightarrow> int_loc (loc c) = (int x, int y)" by (auto simp del: of_nat_unat)
      also have "\<dots> \<longleftrightarrow> c = (int x, int y)" unfolding nonneg [OF that] ..
      finally show ?thesis .
    qed
    have "swept m ob pt x y \<longleftrightarrow> (\<exists>c \<in> set ?cs. unat (cell_offset m c) = y * width m + x)"
      using o w pq r ray by (cases q) (simp add: swept_def ray_cell_def)
    also have "\<dots> \<longleftrightarrow> (int x, int y) \<in> set ?cs" using off by blast
    also have "\<dots> \<longleftrightarrow> clears m ob pt x y"
      unfolding clears_def o fst_conv snd_conv w Let_def cell rc [symmetric] using pq by auto
    finally show ?thesis .
  qed
qed

section \<open>The observations of an update\<close>

lemma marking_ok: "ob_ok l \<Longrightarrow> getMarkingObservations now l = Some (obs, current, l1) \<Longrightarrow>
    (\<forall>ob \<in> set obs. observation_ok (ob_map l) ob) \<and> ob_map l1 = ob_map l \<and> observations_ok (ob_map l) (observation_buffers l1) \<and>
    length (observation_buffers l1) = length (observation_buffers l) \<and> clearing_buffers l1 = clearing_buffers l \<and>
    static_clearing_observations l1 = static_clearing_observations l"
  using collect_observations_ok [of "marking_buffers l" "observation_buffers l" "ob_map l" now]
  by (auto simp: getMarkingObservations_def ob_ok_def split: bind_splits)

lemma clearing_ok:
  assumes "ob_ok l" and "getMarkingObservations now l = Some (obs, current, l1)"
    and "getClearingObservations now l1 = Some (clearing, current2, l2)"
  shows "\<forall>ob \<in> set clearing. observation_ok (ob_map l) ob"
  using collect_observations_ok [of "clearing_buffers l1" "observation_buffers l1" "ob_map l" now] marking_ok [OF assms(1,2)] assms(1,3)
  by (auto simp: getClearingObservations_def ob_ok_def split: bind_splits)

end
