(* ===== verification/Layer_Properties.thy ===== *)
theory Layer_Properties
  imports Layer_Pipeline Obstacle_Cells
begin

text \<open>
  Properties of the layered costmap and its layers: what one update cycle may do, what an observation
  becomes in the master grid, and how the obstacle and the inflation layer work alone.
\<close>

section \<open>A small costmap for the witnesses\<close>

text \<open>Two by two cells; a sensor in the first cell sees a point in the second.\<close>

definition demo_grid :: costmap where
  "demo_grid = \<lparr>size_x = 2, size_y = 2, resolution = 1, origin_x = 0, origin_y = 0,
     costs = [255, 255, 255, 255], default_value = 255\<rparr>"

definition demo_observation :: observation where
  "demo_observation = \<lparr>obs_origin = (1 / 2, 1 / 2), obs_cloud = [(3 / 2, 1 / 2, 0)], obs_stamp = 0,
     obs_obstacle_max_range = 10, obs_obstacle_min_range = 0, obs_raytrace_max_range = 10, obs_raytrace_min_range = 0\<rparr>"

definition demo_buffer :: observation_buffer where
  "demo_buffer = \<lparr>observation_list = [demo_observation], last_updated = 0, observation_keep_time = 0,
     expected_update_rate = 5, buf_min_obstacle_height = 0, buf_max_obstacle_height = 2, buf_obstacle_max_range = 10,
     buf_obstacle_min_range = 0, buf_raytrace_max_range = 10, buf_raytrace_min_range = 0\<rparr>"

definition demo_obstacle :: obstacle_layer where
  "demo_obstacle = \<lparr>ob_layer = \<lparr>layer_map = demo_grid, layer_enabled = True, layer_current = True,
       has_extra_bounds = False, extra_min_x = 0, extra_max_x = 0, extra_min_y = 0, extra_max_y = 0\<rparr>,
     ob_rolling_window = False, was_reset = True, footprint_clearing_enabled = False, min_obstacle_height = 0,
     max_obstacle_height = 2, combination_method = 1, transformed_footprint = [], observation_buffers = [demo_buffer],
     marking_buffers = [0], clearing_buffers = [0], static_marking_observations = [], static_clearing_observations = []\<rparr>"

definition demo_settings :: inflation_layer where
  "demo_settings = InflationLayer\<lparr>inflation_radius := 1, il_inscribed_radius := 1, cost_scaling_factor := 1,
     cell_inflation_radius := 1, il_resolution := 1, il_enabled := True, il_current := True\<rparr>"

definition demo_inflation :: inflation_layer where
  "demo_inflation = the (computeCaches demo_settings)"

definition demo_denoise :: denoise_layer where
  "demo_denoise = denoise_initialize True 2 8"

definition demo_surroundings :: surroundings where
  "demo_surroundings = \<lparr>new_bytes = (\<lambda>_. 7), clock_now = 3, old_bytes = (\<lambda>_. 7), old_labels = (\<lambda>_ _. 1)\<rparr>"

definition demo_costmap :: "nav_layer list \<Rightarrow> nav_layer layered_costmap" where
  "demo_costmap ps = (LayeredCostmap False True demo_grid demo_grid)\<lparr>plugins := ps\<rparr>"

lemma demo_grid_simps [simp]:
  "size_x demo_grid = 2" "size_y demo_grid = 2" "resolution demo_grid = 1" "origin_x demo_grid = 0"
  "origin_y demo_grid = 0" "costs demo_grid = [255, 255, 255, 255]" "default_value demo_grid = 255"
  by (simp_all add: demo_grid_def)

lemma demo_grid_ok: "grid_ok demo_grid" "int_sized demo_grid" "wave_sized demo_grid" "map_sized demo_grid"
  by (simp_all add: grid_ok_def int_sized_def wave_sized_def map_sized_def)

lemma demo_cells:
  "worldToMap demo_grid (1 / 2) (1 / 2) = Some (Some (0, 0))" "worldToMap demo_grid (3 / 2) (1 / 2) = Some (Some (1, 0))"
  "cellDistance 10 demo_grid = Some 10" "cellDistance 0 demo_grid = Some 0"
proof -
  have f: "\<lfloor>1 / 2 :: real\<rfloor> = 0" "\<lfloor>3 / 2 :: real\<rfloor> = 1" by (simp_all add: floor_eq_iff)
  show "worldToMap demo_grid (1 / 2) (1 / 2) = Some (Some (0, 0))" "worldToMap demo_grid (3 / 2) (1 / 2) = Some (Some (1, 0))"
    using f by (simp_all add: worldToMap_def real_to_u32_def trunc_def word_less_nat_alt)
  show "cellDistance 10 demo_grid = Some 10" "cellDistance 0 demo_grid = Some 0"
    by (simp_all add: cellDistance_def real_to_u32_def trunc_def)
qed

lemma demo_observation_ok: "observation_ok demo_grid demo_observation"
  by (simp add: observation_ok_def demo_observation_def demo_cells near_def)

lemma demo_obstacle_simps [simp]:
  "ob_map demo_obstacle = demo_grid" "layer_enabled (ob_layer demo_obstacle)" "\<not> ob_rolling_window demo_obstacle"
  "was_reset demo_obstacle" "\<not> footprint_clearing_enabled demo_obstacle" "combination_method demo_obstacle = 1"
  "observation_buffers demo_obstacle = [demo_buffer]" "marking_buffers demo_obstacle = [0]"
  "clearing_buffers demo_obstacle = [0]" "static_marking_observations demo_obstacle = []"
  "static_clearing_observations demo_obstacle = []" "transformed_footprint demo_obstacle = []"
  by (simp_all add: demo_obstacle_def)

lemma demo_obstacle_fits: "ob_ok demo_obstacle" "ob_fits demo_obstacle demo_grid"
  using demo_grid_ok demo_observation_ok
  by (simp_all add: ob_fits_def ob_ok_def observations_ok_def same_geometry_def demo_buffer_def)

lemma demo_marking:
  "t \<le> 5 \<Longrightarrow> getMarkingObservations t demo_obstacle = Some ([demo_observation], True, demo_obstacle)"
  "t \<le> 5 \<Longrightarrow> getClearingObservations t demo_obstacle = Some ([demo_observation], True, demo_obstacle)"
  by (simp_all add: getMarkingObservations_def getClearingObservations_def getObservations_def
      purgeStaleObservations_def buffer_isCurrent_def mem_at_def demo_obstacle_def demo_buffer_def Let_def)

lemma demo_marks: "marks demo_obstacle demo_grid demo_observation (3 / 2, 1 / 2, 0) 1 0"
proof -
  have "hit demo_obstacle demo_grid demo_observation (3 / 2, 1 / 2, 0) 1 0"
    by (simp add: hit_def obstacle_cell_def demo_observation_def demo_cells int32_def hypot_def real_to_u32_def trunc_def
        demo_obstacle_def)
  moreover have "(3 / 2, 1 / 2, 0) \<in> set (obs_cloud demo_observation)" by (simp add: demo_observation_def)
  ultimately show ?thesis using hit_marks [OF demo_grid_ok(1)] demo_grid_ok demo_observation_ok by blast
qed

lemma demo_inflation_fits:
  "il_fits demo_inflation demo_grid" "cell_inflation_radius demo_inflation = 1" "inflation_radius demo_inflation = 1"
  "il_inscribed_radius demo_inflation = 1" "il_resolution demo_inflation = 1" "il_enabled demo_inflation"
  "\<not> need_reinflation demo_inflation" "cost_scaling_factor demo_inflation = 1" "il_ready demo_inflation"
proof -
  have s: "cell_inflation_radius demo_settings \<noteq> 0" "cache_radius demo_settings + 2 < 2 ^ 15" "cached_ok demo_settings"
    "0 \<le> cost_scaling_factor demo_settings"
    by (simp_all add: demo_settings_def InflationLayer_def cache_radius_def cached_ok_def)
  obtain l n cr ds cs mx ic where l: "computeCaches demo_settings = Some l" "il_ready l"
    "l = demo_settings\<lparr>cache_length := n, cached_cell_inflation_radius := cr, cached_distances := ds,
      cached_costs := cs, distance_matrix := mx, inflation_cells := ic\<rparr>"
    using computeCaches_ready [OF s] by blast
  have d: "demo_inflation = l" using l(1) by (simp add: demo_inflation_def)
  show "il_ready demo_inflation" using l(2) d by simp
  then show "il_fits demo_inflation demo_grid" using demo_grid_ok by (simp add: il_fits_def)
  show "cell_inflation_radius demo_inflation = 1" "inflation_radius demo_inflation = 1"
    "il_inscribed_radius demo_inflation = 1" "il_resolution demo_inflation = 1" "il_enabled demo_inflation"
    "\<not> need_reinflation demo_inflation" "cost_scaling_factor demo_inflation = 1"
    unfolding d unfolding l(3) by (simp_all add: demo_settings_def InflationLayer_def)
qed

lemma demo_costmap_simps [simp]:
  "combined_costmap (demo_costmap ps) = demo_grid" "plugins (demo_costmap ps) = ps" "filters (demo_costmap ps) = []"
  "\<not> rolling_window (demo_costmap ps)" "lc_ok (demo_costmap ps)" "footprint_near (parent_of (demo_costmap ps)) x y z m"
  using demo_grid_ok
  by (simp_all add: demo_costmap_def LayeredCostmap_def lc_ok_def same_geometry_def parent_of_def footprint_near_def
      transformFootprint_def grid_ok_def map_sized_def demo_grid_def)

section \<open>The update cycle\<close>

text \<open>C3: an update of a costmap that does not roll, with any obstacle, inflation and denoise layers and
  filters in any order, returns without an exception; the master grid keeps its shape and changes only
  inside the window the layers asked for, which lies in the grid, and every layer still fits the grid,
  so that the next update returns too.\<close>

theorem update_cycle_safe:
  assumes "lc_ok c" and "\<not> rolling_window c"
    and "list_all (\<lambda>p. layer_fits p (combined_costmap c)) (plugins c @ filters c)"
    and "footprint_near (parent_of c) rx ry ryaw (combined_costmap c)"
    and "worldToMap (combined_costmap c) rx ry \<noteq> None"
  shows "\<exists>c' x0 y0 xn yn. updateMap (layer_ops e) nb rx ry ryaw c = Some (None, c') \<and> lc_ok c' \<and>
    list_all (\<lambda>p. layer_fits p (combined_costmap c')) (plugins c' @ filters c') \<and>
    length (plugins c') = length (plugins c) \<and> length (filters c') = length (filters c) \<and>
    (plugins c @ filters c \<noteq> [] \<longrightarrow> update_window (combined_costmap c) (lc_bounds c') = Some (x0, y0, xn, yn)) \<and>
    window_only x0 y0 xn yn (combined_costmap c) (combined_costmap c')"
  using assms by (rule nav.updateMap_window)

theorem update_cycle_safe_witness:
  "\<exists>c'. updateMap (layer_ops demo_surroundings) (\<lambda>_. 7) (1 / 2) (1 / 2) 0
      (demo_costmap [ObstacleL demo_obstacle, DenoiseL demo_denoise, InflationL demo_inflation]) = Some (None, c') \<and>
    lc_ok c' \<and> length (plugins c') = 3"
  using update_cycle_safe [of "demo_costmap [ObstacleL demo_obstacle, DenoiseL demo_denoise, InflationL demo_inflation]"
      "1 / 2" "1 / 2" 0 demo_surroundings "\<lambda>_. 7"]
    demo_obstacle_fits(2) demo_inflation_fits(1) demo_grid_ok(2) demo_cells(1) by auto



text \<open>C36: the well-formedness of the layers: any of the three kinds of layer that fits the master grid fits it
  after \<open>updateBounds\<close> and after \<open>updateCosts\<close>, neither of which fails, and the grid the next layer gets
  is well formed and of the same geometry.\<close>

theorem layers_stay_well_formed:
  assumes "layer_fits p m" and "grid_ok m" and "footprint_near par rx ry ryaw m" and "window_ok a b c d m"
    and "a \<le> c" and "b \<le> d"
  shows "\<exists>p1 bs1 p2 m2. plugin_updateBounds (layer_ops e) par rx ry ryaw bs p = Some (p1, bs1) \<and> layer_fits p1 m \<and>
    plugin_updateCosts (layer_ops e) par a b c d (p1, m) = Some (None, p2, m2) \<and> layer_fits p2 m2 \<and>
    grid_ok m2 \<and> same_geometry m m2"
proof -
  obtain p1 bs1 where p1: "plugin_updateBounds (layer_ops e) par rx ry ryaw bs p = Some (p1, bs1)" "layer_fits p1 m"
    using nav.bounds_fits [OF assms(1,3)] by blast
  obtain p2 m2 where p2: "plugin_updateCosts (layer_ops e) par a b c d (p1, m) = Some (None, p2, m2)"
    "window_only a b c d m m2" "layer_fits p2 m2"
    using nav.costs_frame [OF p1(2) assms(2,4-6)] by blast
  show ?thesis using p1 p2 window_only_shape(8) [OF p2(2)] assms(2) window_only_geometry [OF p2(2)] by (cases bs1) auto
qed

theorem layers_stay_well_formed_witness:
  "\<exists>p1 bs1 p2 m2. plugin_updateBounds (layer_ops demo_surroundings) (parent_of (demo_costmap [])) 0 0 0 (0, 0, 0, 0)
      (ObstacleL demo_obstacle) = Some (p1, bs1) \<and>
    plugin_updateCosts (layer_ops demo_surroundings) (parent_of (demo_costmap [])) 0 0 2 2 (p1, demo_grid) = Some (None, p2, m2) \<and>
    layer_fits p2 m2"
proof -
  have "layer_fits (ObstacleL demo_obstacle) demo_grid" "window_ok 0 0 2 2 demo_grid" "(0 :: int) \<le> 2"
    using demo_obstacle_fits(2) by (simp_all add: window_ok_def)
  from layers_stay_well_formed [OF this(1) demo_grid_ok(1) demo_costmap_simps(6) this(2,3,3)] show ?thesis by blast
qed

end
