(* ===== verification/Obstacle_Properties.thy ===== *)
theory Obstacle_Properties
  imports Layer_Properties
begin

text \<open>
  Properties of the observation buffers, the obstacle layer and the merging of layers into the master grid.
\<close>

section \<open>Observation buffers\<close>

text \<open>The stamps of a buffer fall from the front of its list to the back.\<close>

definition stamps_fall :: "observation list \<Rightarrow> bool" where
  "stamps_fall obs \<longleftrightarrow> sorted (rev (map obs_stamp obs))"

lemma stamps_fall_Cons: "stamps_fall (ob # obs) \<longleftrightarrow> (\<forall>o' \<in> set obs. obs_stamp o' \<le> obs_stamp ob) \<and> stamps_fall obs"
  by (auto simp: stamps_fall_def sorted_append)

lemma fresh_prefix:
  assumes "stamps_fall obs"
  shows "takeWhile (\<lambda>ob. \<not> now - obs_stamp ob > keep) obs = filter (\<lambda>ob. now - obs_stamp ob \<le> keep) obs"
  using assms
proof (induction obs)
  case (Cons ob obs)
  show ?case
  proof (cases "now - obs_stamp ob \<le> keep")
    case True
    then show ?thesis using Cons by (simp add: stamps_fall_Cons not_less)
  next
    case False
    then have "filter (\<lambda>ob. now - obs_stamp ob \<le> keep) obs = []"
      using Cons.prems by (fastforce simp: stamps_fall_Cons filter_empty_conv)
    then show ?thesis using False by simp
  qed
qed simp

lemma stamps_fall_filter: "stamps_fall obs \<Longrightarrow> stamps_fall (filter P obs)"
  by (induction obs) (auto simp: stamps_fall_Cons)

lemma fresh_split:
  "\<exists>gone. obs = takeWhile P obs @ gone \<and> (gone \<noteq> [] \<longrightarrow> \<not> P (hd gone))"
  by (intro exI [of _ "dropWhile P obs"]) (use hd_dropWhile [of P obs] in auto)

text \<open>C35: what a buffer keeps when a cloud is added. The list starts with the new observation, of which it takes the points in
  the height range; with a keep time of zero the new observation is then all there is, whatever its age; otherwise
  the list is cut before its first observation older than the keep time, so that all that is kept is recent. Where
  the clouds arrive in the order of their stamps these are exactly the recent observations, in order again; a
  cloud that arrives late, already older than the keep time, empties the buffer, newer observations included. A cloud
  that could not be transformed leaves the buffer alone.\<close>

theorem buffer_keeps_recent:
  shows "\<exists>ob. obs_stamp ob = stamp \<and> obs_origin ob = origin \<and>
    set (obs_cloud ob) = {p \<in> set pts. buf_min_obstacle_height b \<le> snd (snd p) \<and> snd (snd p) \<le> buf_max_obstacle_height b} \<and>
    (let L = observation_list (bufferCloud now stamp (Some origin) (Some pts) b); keep = observation_keep_time b
     in if keep = 0 then L = [ob]
        else (\<exists>gone. ob # observation_list b = L @ gone \<and> (gone \<noteq> [] \<longrightarrow> now - obs_stamp (hd gone) > keep)) \<and>
          (\<forall>o' \<in> set L. now - obs_stamp o' \<le> keep) \<and>
          (now - stamp > keep \<longrightarrow> L = []) \<and>
          (stamps_fall (ob # observation_list b) \<longrightarrow>
            stamps_fall L \<and> L = filter (\<lambda>o'. now - obs_stamp o' \<le> keep) (ob # observation_list b))) \<and>
    last_updated (bufferCloud now stamp (Some origin) (Some pts) b) = now \<and>
    bufferCloud now stamp None (Some pts) b = b \<and> bufferCloud now stamp (Some origin) None b = b"
proof -
  let ?keep = "observation_keep_time b"
  define ob where "ob = \<lparr>obs_origin = origin,
    obs_cloud = filter (\<lambda>(x, y, z). z \<le> buf_max_obstacle_height b \<and> z \<ge> buf_min_obstacle_height b) pts, obs_stamp = stamp,
    obs_obstacle_max_range = buf_obstacle_max_range b, obs_obstacle_min_range = buf_obstacle_min_range b,
    obs_raytrace_max_range = buf_raytrace_max_range b, obs_raytrace_min_range = buf_raytrace_min_range b\<rparr>"
  let ?b = "bufferCloud now stamp (Some origin) (Some pts) b" and ?fresh = "\<lambda>o'. \<not> now - obs_stamp o' > ?keep"
  define L where "L = observation_list ?b"
  have rest: "last_updated ?b = now" "bufferCloud now stamp None (Some pts) b = b" "bufferCloud now stamp (Some origin) None b = b"
    by (simp_all add: bufferCloud_def purgeStaleObservations_def Let_def)
  have new: "obs_stamp ob = stamp" "obs_origin ob = origin"
    "set (obs_cloud ob) = {p \<in> set pts. buf_min_obstacle_height b \<le> snd (snd p) \<and> snd (snd p) \<le> buf_max_obstacle_height b}"
    by (auto simp: ob_def)
  have list: "L = (if ?keep = 0 then [ob] else takeWhile ?fresh (ob # observation_list b))"
    by (simp add: L_def ob_def bufferCloud_def purgeStaleObservations_def Let_def)
  show ?thesis
  proof (cases "?keep = 0")
    case True
    then show ?thesis using rest new list unfolding L_def Let_def by (intro exI [of _ ob]) simp
  next
    case False
    then have list: "L = takeWhile ?fresh (ob # observation_list b)" using list by (simp only: if_False)
    have "\<exists>gone. ob # observation_list b = L @ gone \<and> (gone \<noteq> [] \<longrightarrow> now - obs_stamp (hd gone) > ?keep)"
      using fresh_split [of "ob # observation_list b" ?fresh] unfolding list by simp
    moreover have "stamps_fall (ob # observation_list b) \<longrightarrow> stamps_fall L \<and>
        L = filter (\<lambda>o'. now - obs_stamp o' \<le> ?keep) (ob # observation_list b)"
    proof
      assume fall: "stamps_fall (ob # observation_list b)"
      have "L = filter (\<lambda>o'. now - obs_stamp o' \<le> ?keep) (ob # observation_list b)"
        unfolding list by (rule fresh_prefix [OF fall])
      then show "stamps_fall L \<and> L = filter (\<lambda>o'. now - obs_stamp o' \<le> ?keep) (ob # observation_list b)"
        using stamps_fall_filter [OF fall] by (simp only: simp_thms)
    qed
    moreover have "\<forall>o' \<in> set L. now - obs_stamp o' \<le> ?keep"
      unfolding list using set_takeWhileD by fastforce
    moreover have "now - stamp > ?keep \<longrightarrow> L = []" unfolding list by (simp add: new(1))
    ultimately show ?thesis
      unfolding Let_def if_not_P [OF False] L_def [symmetric] by (intro exI [of _ ob] conjI rest new)
  qed
qed

theorem buffer_keeps_recent_witness:
  "\<exists>ob. observation_list (bufferCloud 9 7 (Some (0, 0)) (Some [(1, 1, 1), (1, 1, 3)]) (demo_buffer\<lparr>observation_keep_time := 4\<rparr>)) = [ob] \<and>
    obs_stamp ob = 7 \<and> set (obs_cloud ob) = {(1, 1, 1)}"
proof -
  let ?b = "demo_buffer\<lparr>observation_keep_time := 4\<rparr>"
  have b: "observation_keep_time ?b = 4" "observation_list ?b = [demo_observation]" "obs_stamp demo_observation = 0"
    "buf_min_obstacle_height ?b = 0" "buf_max_obstacle_height ?b = 2"
    by (simp_all add: demo_buffer_def demo_observation_def)
  have four: "(4 :: int) \<noteq> 0" by simp
  obtain ob where ob: "obs_stamp ob = 7"
    "set (obs_cloud ob) = {p \<in> set [(1, 1, 1), (1, 1, 3)]. buf_min_obstacle_height ?b \<le> snd (snd p) \<and> snd (snd p) \<le> buf_max_obstacle_height ?b}"
    "stamps_fall (ob # observation_list ?b) \<longrightarrow>
      observation_list (bufferCloud 9 7 (Some (0, 0)) (Some [(1, 1, 1), (1, 1, 3)]) ?b) = filter (\<lambda>o'. 9 - obs_stamp o' \<le> 4) (ob # observation_list ?b)"
    using buffer_keeps_recent [of 7 "(0, 0)" "[(1, 1, 1), (1, 1, 3)]" ?b 9]
    unfolding b(1) Let_def if_not_P [OF four] by blast
  have "stamps_fall (ob # observation_list ?b)" unfolding b(2) by (simp add: stamps_fall_def ob(1) b(3))
  then have "observation_list (bufferCloud 9 7 (Some (0, 0)) (Some [(1, 1, 1), (1, 1, 3)]) ?b) = [ob]"
    using ob(3) unfolding b(2) by (simp add: ob(1) b(3))
  moreover have "set (obs_cloud ob) = {(1, 1, 1)}" unfolding ob(2) b(4,5) by auto
  ultimately show ?thesis using ob(1) by blast
qed

section \<open>The obstacle layer\<close>

text \<open>C14: one update of the grid of an obstacle layer that does not roll. A cell becomes lethal if a point of a marking observation
  lies in it, within the layer's heights and at a distance from the sensor within the observation's obstacle ranges; of
  the others, those on the ray from the sensor to a point of a clearing observation, within its raytrace ranges,
  become free, but only if every marking buffer is current, since otherwise the clearing buffers are not even
  read; the rest keep their cost. The ray ends at the point itself if that lies on the map. The box of the update
  holds every point that marked a cell, and the layer reports to be current only if all the buffers it read are.\<close>

theorem obstacle_layer_update:
  assumes "ob_ok l" and "\<not> ob_rolling_window l" and "layer_enabled (ob_layer l)"
    and "getMarkingObservations now l = Some (obs, current, l1)"
    and "getClearingObservations now l1 = Some (clearing, current2, l2)"
  shows "\<exists>l' b'. ob_updateBounds nb now par rx ry ryaw b l = Some (l', b') \<and>
    layer_current (ob_layer l') = (current \<and> current2) \<and>
    (\<forall>x < width (ob_map l). \<forall>y < height (ob_map l). cost_at (ob_map l') x y =
      (if \<exists>ob \<in> set obs. \<exists>pt \<in> set (obs_cloud ob). marks l (ob_map l) ob pt x y then LETHAL_OBSTACLE
       else if current \<and> (\<exists>ob \<in> set clearing. \<exists>pt \<in> set (obs_cloud ob). clears (ob_map l) ob pt x y) then FREE_SPACE
       else cost_at (ob_map l) x y)) \<and>
    (\<forall>ob \<in> set obs. \<forall>pt \<in> set (obs_cloud ob). \<forall>x y. marks l (ob_map l) ob pt x y \<longrightarrow> in_bounds (fst pt, fst (snd pt)) b') \<and>
    (\<forall>ox oy wx wy x y. in_cell (ob_map l) wx wy x y \<longrightarrow> clip_ray (ob_map l) ox oy wx wy = (wx, wy))"
proof -
  let ?m = "ob_map l"
  obtain l' b' obs' current' l1' clearing' current2' l2' where u: "ob_updateBounds nb now par rx ry ryaw b l = Some (l', b')"
    "getMarkingObservations now l = Some (obs', current', l1')" "getClearingObservations now l1' = Some (clearing', current2', l2')"
    "layer_current (ob_layer l') = (current' \<and> current2')"
    "\<forall>x < width ?m. \<forall>y < height ?m. cost_at (ob_map l') x y =
      (if \<exists>ob \<in> set obs'. \<exists>pt \<in> set (obs_cloud ob). hit l ?m ob pt x y then LETHAL_OBSTACLE
       else if current' \<and> (\<exists>ob \<in> set clearing'. \<exists>pt \<in> set (obs_cloud ob). swept ?m ob pt x y) then FREE_SPACE
       else cost_at ?m x y)"
    "\<forall>ob \<in> set obs'. \<forall>pt \<in> set (obs_cloud ob). \<forall>x y. hit l ?m ob pt x y \<longrightarrow> in_bounds (fst pt, fst (snd pt)) b'"
    using ob_updateBounds_spec [OF assms(1-3), of nb now par rx ry ryaw b] by blast
  have same: "obs' = obs" "current' = current" "clearing' = clearing" "current2' = current2" using assms(4,5) u(2,3) by simp_all
  have ok: "grid_ok ?m" "int_sized ?m" using assms(1) by (simp_all add: ob_ok_def)
  have h: "hit l ?m ob pt x y \<longleftrightarrow> marks l ?m ob pt x y" if "ob \<in> set obs" "pt \<in> set (obs_cloud ob)" for ob pt x y
    using hit_marks [OF ok _ that(2)] marking_ok [OF assms(1,4)] that(1) by blast
  have c: "swept ?m ob pt x y \<longleftrightarrow> clears ?m ob pt x y" if "ob \<in> set clearing" "x < width ?m" "y < height ?m" for ob pt x y
    using swept_clears [OF ok _ that(2,3)] clearing_ok [OF assms(1,4,5)] that(1) by blast
  have hits: "(\<exists>ob \<in> set obs. \<exists>pt \<in> set (obs_cloud ob). hit l ?m ob pt x y) \<longleftrightarrow>
    (\<exists>ob \<in> set obs. \<exists>pt \<in> set (obs_cloud ob). marks l ?m ob pt x y)" for x y using h by blast
  have clear: "(\<exists>ob \<in> set clearing. \<exists>pt \<in> set (obs_cloud ob). swept ?m ob pt x y) \<longleftrightarrow>
    (\<exists>ob \<in> set clearing. \<exists>pt \<in> set (obs_cloud ob). clears ?m ob pt x y)" if "x < width ?m" "y < height ?m" for x y
    using c that by blast
  have "\<forall>x < width ?m. \<forall>y < height ?m. cost_at (ob_map l') x y =
      (if \<exists>ob \<in> set obs. \<exists>pt \<in> set (obs_cloud ob). marks l ?m ob pt x y then LETHAL_OBSTACLE
       else if current \<and> (\<exists>ob \<in> set clearing. \<exists>pt \<in> set (obs_cloud ob). clears ?m ob pt x y) then FREE_SPACE
       else cost_at ?m x y)"
  proof (intro allI impI)
    fix x y assume xy: "x < width ?m" "y < height ?m"
    show "cost_at (ob_map l') x y =
      (if \<exists>ob \<in> set obs. \<exists>pt \<in> set (obs_cloud ob). marks l ?m ob pt x y then LETHAL_OBSTACLE
       else if current \<and> (\<exists>ob \<in> set clearing. \<exists>pt \<in> set (obs_cloud ob). clears ?m ob pt x y) then FREE_SPACE
       else cost_at ?m x y)"
      using u(5) xy unfolding same hits clear [OF xy, symmetric] by blast
  qed
  moreover have "\<forall>ob \<in> set obs. \<forall>pt \<in> set (obs_cloud ob). \<forall>x y. marks l ?m ob pt x y \<longrightarrow> in_bounds (fst pt, fst (snd pt)) b'"
    using u(6) h unfolding same by blast
  moreover have "\<forall>ox oy wx wy x y. in_cell ?m wx wy x y \<longrightarrow> clip_ray ?m ox oy wx wy = (wx, wy)"
    using clip_ray_inside ok(1) unfolding grid_ok_def by blast
  ultimately show ?thesis using u(1,4) unfolding same by blast
qed

theorem obstacle_layer_update_witness:
  "\<exists>l' b'. ob_updateBounds (\<lambda>_. 7) 3 \<lparr>par_costmap = demo_grid, par_rolling = False, par_footprint = [], par_inscribed = 0\<rparr> 0 0 0 (0, 0, 0, 0) demo_obstacle = Some (l', b') \<and>
    layer_current (ob_layer l') \<and> cost_at (ob_map l') 1 0 = LETHAL_OBSTACLE \<and> in_bounds (3 / 2, 1 / 2) b'"
proof -
  have m: "getMarkingObservations 3 demo_obstacle = Some ([demo_observation], True, demo_obstacle)"
    "getClearingObservations 3 demo_obstacle = Some ([demo_observation], True, demo_obstacle)"
    using demo_marking [of 3] by simp_all
  obtain l' b' where u: "ob_updateBounds (\<lambda>_. 7) 3 \<lparr>par_costmap = demo_grid, par_rolling = False, par_footprint = [], par_inscribed = 0\<rparr> 0 0 0 (0, 0, 0, 0) demo_obstacle = Some (l', b')" "layer_current (ob_layer l')"
    "\<forall>x < width (ob_map demo_obstacle). \<forall>y < height (ob_map demo_obstacle). cost_at (ob_map l') x y =
      (if \<exists>ob \<in> set [demo_observation]. \<exists>pt \<in> set (obs_cloud ob). marks demo_obstacle (ob_map demo_obstacle) ob pt x y then LETHAL_OBSTACLE
       else if True \<and> (\<exists>ob \<in> set [demo_observation]. \<exists>pt \<in> set (obs_cloud ob). clears (ob_map demo_obstacle) ob pt x y) then FREE_SPACE
       else cost_at (ob_map demo_obstacle) x y)"
    "\<forall>ob \<in> set [demo_observation]. \<forall>pt \<in> set (obs_cloud ob). \<forall>x y. marks demo_obstacle (ob_map demo_obstacle) ob pt x y \<longrightarrow>
      in_bounds (fst pt, fst (snd pt)) b'"
    using obstacle_layer_update [OF demo_obstacle_fits(1) demo_obstacle_simps(3,2) m, of "\<lambda>_. 7" "\<lparr>par_costmap = demo_grid, par_rolling = False, par_footprint = [], par_inscribed = 0\<rparr>" 0 0 0 "(0, 0, 0, 0)"] by auto
  have pt: "(3 / 2, 1 / 2, 0) \<in> set (obs_cloud demo_observation)" by (simp add: demo_observation_def)
  have "\<exists>ob \<in> set [demo_observation]. \<exists>pt \<in> set (obs_cloud ob). marks demo_obstacle (ob_map demo_obstacle) ob pt 1 0"
    using pt demo_marks by auto
  then have "cost_at (ob_map l') 1 0 = LETHAL_OBSTACLE" using u(3) [rule_format, of 1 0] by (simp del: bex_simps)
  moreover have "in_bounds (3 / 2, 1 / 2) b'" using u(4) [rule_format, OF _ pt, of 1 0] demo_marks by simp
  ultimately show ?thesis using u(1,2) by blast
qed

section \<open>Currency\<close>

lemma ob_updateCosts_current:
  assumes "ob_updateCosts par a b c d (l, m) = Some (ex, l', m')" and "layer_enabled (ob_layer l)"
  shows "layer_current (ob_layer l') = (layer_current (ob_layer l) \<or> was_reset l) \<and>
    was_reset l' = (was_reset l \<and> layer_current (ob_layer l))"
  using assms by (auto simp: ob_updateCosts_def Let_def set_ob_map_def split: if_splits bind_splits)

text \<open>An update of the bounds and one of the costs.\<close>

lemma layer_cycle:
  assumes fits: "ob_fits l m" and pose: "footprint_near par rx ry ryaw m" and ok: "grid_ok m" "window_ok x0 y0 xn yn m"
    and on: "layer_enabled (ob_layer l)" and mark: "getMarkingObservations now l = Some (obs, current, l1)"
  shows "\<exists>la b1 lb m1 clearing current2 l2. getClearingObservations now l1 = Some (clearing, current2, l2) \<and>
    ob_updateBounds nb now par rx ry ryaw b l = Some (la, b1) \<and> layer_current (ob_layer la) = (current \<and> current2) \<and>
    ob_updateCosts par x0 y0 xn yn (la, m) = Some (None, lb, m1) \<and>
    layer_current (ob_layer lb) = (layer_current (ob_layer la) \<or> was_reset l) \<and>
    was_reset lb = (was_reset l \<and> layer_current (ob_layer la)) \<and>
    layer_enabled (ob_layer lb) \<and> ob_fits lb m1 \<and> same_geometry m m1 \<and> grid_ok m1"
proof -
  have ob: "ob_ok l" "\<not> ob_rolling_window l" using fits by (auto simp: ob_fits_def)
  obtain la b1 obs' current' l1' clearing current2 l2 where u: "ob_updateBounds nb now par rx ry ryaw b l = Some (la, b1)"
    "getMarkingObservations now l = Some (obs', current', l1')" "getClearingObservations now l1' = Some (clearing, current2, l2)"
    "layer_current (ob_layer la) = (current' \<and> current2)" "was_reset la = was_reset l" "layer_enabled (ob_layer la)"
    using ob_updateBounds_spec [OF ob on, of nb now par rx ry ryaw b] by blast
  obtain la' b1' where "ob_updateBounds nb now par rx ry ryaw b l = Some (la', b1')" "ob_fits la' m"
    using ob_updateBounds_fits [OF fits pose, of nb now b] by blast
  then have "ob_fits la m" using u(1) by simp
  then obtain lb m1 where c: "ob_updateCosts par x0 y0 xn yn (la, m) = Some (None, lb, m1)" "ob_fits lb m1"
    "layer_enabled (ob_layer lb) = layer_enabled (ob_layer la)"
    "window_rewritten x0 y0 xn yn (layer_merge (combine (combination_method la)) (ob_layer lb)) m m1"
    using ob_updateCosts_spec [of la m x0 y0 xn yn par] ok by auto
  note w = window_only_rewritten [OF c(4)]
  have "grid_ok m1" using window_only_shape(8) [OF w] ok(1) by simp
  moreover have "current' = current" "l1' = l1" using u(2) mark by simp_all
  ultimately show ?thesis
    using u c ob_updateCosts_current [OF c(1) u(6)] window_only_geometry [OF w] by (cases b1) simp
qed

text \<open>\<open>reset\<close> marks the layer so that the update that follows makes it current again; but if the buffers
  are current at that update the mark stays, and the next update that finds a marking buffer stale
  reports a current layer once more.\<close>

theorem reset_hides_staleness:
  assumes "ob_fits l m" and "footprint_near par rx ry ryaw m" and "footprint_near par' rx' ry' ryaw' m"
    and "grid_ok m" and "window_ok x0 y0 xn yn m"
    and "layer_enabled (ob_layer l)" and "was_reset l"
    and "getMarkingObservations now l = Some (obs, True, l1)" and "getClearingObservations now l1 = Some (clearing, True, l2)"
  shows "\<exists>la b1 lb m1. ob_updateBounds nb now par rx ry ryaw b l = Some (la, b1) \<and>
    ob_updateCosts par x0 y0 xn yn (la, m) = Some (None, lb, m1) \<and> layer_current (ob_layer lb) \<and> was_reset lb \<and>
    (\<forall>later obs' lc. getMarkingObservations later lb = Some (obs', False, lc) \<longrightarrow>
      (\<exists>ld b2 le m2. ob_updateBounds nb later par' rx' ry' ryaw' b lb = Some (ld, b2) \<and> \<not> layer_current (ob_layer ld) \<and>
        ob_updateCosts par' x0 y0 xn yn (ld, m1) = Some (None, le, m2) \<and> layer_current (ob_layer le)))"
proof -
  obtain la b1 lb m1 where first: "ob_updateBounds nb now par rx ry ryaw b l = Some (la, b1)"
    "ob_updateCosts par x0 y0 xn yn (la, m) = Some (None, lb, m1)" "layer_current (ob_layer lb)" "was_reset lb"
    "layer_enabled (ob_layer lb)" "ob_fits lb m1" "same_geometry m m1" "grid_ok m1"
    using layer_cycle [OF assms(1,2,4,5,6,8), of nb b] assms(7,9) by fastforce
  have "\<exists>ld b2 le m2. ob_updateBounds nb later par' rx' ry' ryaw' b lb = Some (ld, b2) \<and> \<not> layer_current (ob_layer ld) \<and>
    ob_updateCosts par' x0 y0 xn yn (ld, m1) = Some (None, le, m2) \<and> layer_current (ob_layer le)"
    if stale: "getMarkingObservations later lb = Some (obs', False, lc)" for later obs' lc
  proof -
    have "footprint_near par' rx' ry' ryaw' m1" "window_ok x0 y0 xn yn m1"
      using assms(3,5) near_geometry [OF first(7)] first(7) by (simp_all add: footprint_near_def window_ok_def same_geometry_def)
    then show ?thesis using layer_cycle [OF first(6) _ first(8) _ first(5) stale, of par' rx' ry' ryaw' x0 y0 xn yn nb b] first(4) by fastforce
  qed
  then show ?thesis using first(1-4) by blast
qed

theorem reset_hides_staleness_witness:
  "\<exists>la b1 lb m1. ob_updateBounds (\<lambda>_. 7) 3 (parent_of (demo_costmap [])) 0 0 0 (0, 0, 0, 0) demo_obstacle = Some (la, b1) \<and>
    ob_updateCosts (parent_of (demo_costmap [])) 0 0 2 2 (la, demo_grid) = Some (None, lb, m1) \<and> layer_current (ob_layer lb) \<and> was_reset lb"
proof -
  have m: "getMarkingObservations 3 demo_obstacle = Some ([demo_observation], True, demo_obstacle)"
    "getClearingObservations 3 demo_obstacle = Some ([demo_observation], True, demo_obstacle)"
    using demo_marking [of 3] by simp_all
  have w: "window_ok 0 0 2 2 demo_grid" by (simp add: window_ok_def)
  show ?thesis
    using reset_hides_staleness [OF demo_obstacle_fits(2) demo_costmap_simps(6) demo_costmap_simps(6) demo_grid_ok(1) w
        demo_obstacle_simps(2,4) m, of "\<lambda>_. 7" "[]" 0 0 0 "(0, 0, 0, 0)"] by blast
qed

section \<open>Merging layers\<close>

lemma costs_eqI:
  assumes "grid_ok m" and "m1 = m\<lparr>costs := costs m1\<rparr>" "length (costs m1) = length (costs m)"
    and "m2 = m\<lparr>costs := costs m2\<rparr>" "length (costs m2) = length (costs m)"
    and eq: "\<And>x y. x < width m \<Longrightarrow> y < height m \<Longrightarrow> cost_at m1 x y = cost_at m2 x y"
  shows "m1 = m2"
proof -
  have size: "length (costs m) = height m * width m" using assms(1) by (simp add: grid_ok_def mult.commute)
  have w: "size_x m1 = size_x m" "size_x m2 = size_x m" using same_but_costs(1) [OF assms(2)] same_but_costs(1) [OF assms(4)] by simp_all
  have "costs m1 = costs m2"
  proof (rule nth_equalityI)
    fix i assume "i < length (costs m1)"
    then have i: "i < height m * width m" using assms(3) size by simp
    then have "0 < width m" by (cases "width m = 0") simp_all
    then have "cost_at m1 (i mod width m) (i div width m) = cost_at m2 (i mod width m) (i div width m)"
      using i by (intro eq) (simp_all add: less_mult_imp_div_less)
    then show "costs m1 ! i = costs m2 ! i" using w by (simp add: cost_at_def)
  qed (simp only: assms(3,5))
  then show ?thesis using assms(2,4) by metis
qed

lemma merge_of:
  assumes "grid_ok m" and "covers l m" and "window_ok a b c d m" and "updateWithMax l a b c d m = Some m'"
  shows "window_rewritten a b c d (layer_merge max_cost l) m m'"
  using updateWithMax_spec [OF assms(1-3)] assms(4) by auto

text \<open>Merging layers by their maximum does not depend on their order, and merging one twice is merging it
  once: two layers that cover the master grid, written one after the other into any window of it, give the same
  grid in either order, unknown cells and disabled layers included, and no write is out of range.\<close>

theorem maximum_order_irrelevant:
  assumes "grid_ok m" and "covers l1 m" and "covers l2 m" and "window_ok a b c d m"
  shows "\<exists>m1 m2 m12. updateWithMax l1 a b c d m = Some m1 \<and> updateWithMax l2 a b c d m = Some m2 \<and>
    updateWithMax l2 a b c d m1 = Some m12 \<and> updateWithMax l1 a b c d m2 = Some m12 \<and>
    updateWithMax l1 a b c d m1 = Some m1"
proof -
  obtain m1 m2 where m: "updateWithMax l1 a b c d m = Some m1" "updateWithMax l2 a b c d m = Some m2"
    using updateWithMax_spec [OF assms(1,2,4)] updateWithMax_spec [OF assms(1,3,4)] by auto
  note w1 = merge_of [OF assms(1,2,4) m(1)] and w2 = merge_of [OF assms(1,3,4) m(2)]
  note s1 = window_only_shape [OF window_only_rewritten [OF w1]] and s2 = window_only_shape [OF window_only_rewritten [OF w2]]
  have g: "grid_ok m1" "grid_ok m2" "window_ok a b c d m1" "window_ok a b c d m2" "covers l1 m1" "covers l2 m1" "covers l1 m2"
    using s1 s2 assms by (simp_all add: covers_def)
  obtain m12 m21 m11 where mm: "updateWithMax l2 a b c d m1 = Some m12" "updateWithMax l1 a b c d m2 = Some m21"
    "updateWithMax l1 a b c d m1 = Some m11"
    using updateWithMax_spec [OF g(1,6,3)] updateWithMax_spec [OF g(2,7,4)] updateWithMax_spec [OF g(1,5,3)] by auto
  note w12 = merge_of [OF g(1,6,3) mm(1)] and w21 = merge_of [OF g(2,7,4) mm(2)] and w11 = merge_of [OF g(1,5,3) mm(3)]
  have only: "m12 = m\<lparr>costs := costs m12\<rparr> \<and> length (costs m12) = length (costs m)" "m21 = m\<lparr>costs := costs m21\<rparr> \<and> length (costs m21) = length (costs m)"
    "m11 = m\<lparr>costs := costs m11\<rparr> \<and> length (costs m11) = length (costs m)" "m1 = m\<lparr>costs := costs m1\<rparr> \<and> length (costs m1) = length (costs m)"
    using window_only_trans [OF window_only_rewritten [OF w1] window_only_rewritten [OF w12]]
      window_only_trans [OF window_only_rewritten [OF w2] window_only_rewritten [OF w21]]
      window_only_trans [OF window_only_rewritten [OF w1] window_only_rewritten [OF w11]] window_only_rewritten [OF w1]
    by (simp_all only: window_only_def)
  have "m12 = m21"
  proof (rule costs_eqI [OF assms(1)])
    fix x y assume "x < width m" "y < height m"
    then show "cost_at m12 x y = cost_at m21 x y"
      using w1 w2 w12 w21 s1(1,2) s2(1,2)
      by (auto simp: cells_rewritten_def layer_merge_def max_cost_def)
  qed (use only in blast)+
  moreover have "m11 = m1"
  proof (rule costs_eqI [OF assms(1)])
    fix x y assume "x < width m" "y < height m"
    then show "cost_at m11 x y = cost_at m1 x y"
      using w1 w11 s1(1,2) by (auto simp: cells_rewritten_def layer_merge_def max_cost_def)
  qed (use only in blast)+
  ultimately show ?thesis using m mm by blast
qed

theorem maximum_order_irrelevant_witness:
  "\<exists>m1 m2 m12. updateWithMax (ob_layer demo_obstacle) 0 0 2 2 demo_grid = Some m1 \<and>
    updateWithMax ((ob_layer demo_obstacle)\<lparr>layer_map := demo_grid\<lparr>costs := [1, 254, 255, 0]\<rparr>\<rparr>) 0 0 2 2 demo_grid = Some m2 \<and>
    updateWithMax ((ob_layer demo_obstacle)\<lparr>layer_map := demo_grid\<lparr>costs := [1, 254, 255, 0]\<rparr>\<rparr>) 0 0 2 2 m1 = Some m12 \<and>
    updateWithMax (ob_layer demo_obstacle) 0 0 2 2 m2 = Some m12 \<and>
    updateWithMax (ob_layer demo_obstacle) 0 0 2 2 m1 = Some m1"
  by (rule maximum_order_irrelevant)
    (use demo_grid_ok(1) in \<open>simp_all add: covers_def window_ok_def grid_ok_def\<close>)

text \<open>Merging by addition keeps what the layer or the master grid does not know, and otherwise adds the costs up
  to \<open>INSCRIBED_INFLATED_OBSTACLE - 1\<close>: a cell both know never becomes an obstacle, even when the layer or the
  master grid had one there.\<close>

theorem addition_loses_obstacles:
  assumes "grid_ok m" and "covers l m" and "window_ok a b c d m" and "layer_enabled l"
    and "in_window a b c d x y" and "x < width m" and "y < height m"
  shows "\<exists>m'. updateWithAddition l a b c d m = Some m' \<and> window_only a b c d m m' \<and>
    cost_at m' x y =
      (if cost_at (layer_map l) x y = NO_INFORMATION then cost_at m x y
       else if cost_at m x y = NO_INFORMATION then cost_at (layer_map l) x y
       else word_of_int (min (uint (cost_at m x y) + uint (cost_at (layer_map l) x y)) 252)) \<and>
    (cost_at (layer_map l) x y \<noteq> NO_INFORMATION \<and> cost_at m x y \<noteq> NO_INFORMATION \<longrightarrow>
      cost_at m' x y < INSCRIBED_INFLATED_OBSTACLE)"
proof -
  obtain m' where m': "updateWithAddition l a b c d m = Some m'" "window_rewritten a b c d (layer_merge add_cost l) m m'"
    using updateWithAddition_spec [OF assms(1-3)] by blast
  have "cost_at m' x y = add_cost (cost_at (layer_map l) x y) (cost_at m x y)"
    using m'(2) assms(4-7) by (simp add: cells_rewritten_def layer_merge_def)
  moreover have "(word_of_int (min (uint p + uint q) 252) :: u8) < INSCRIBED_INFLATED_OBSTACLE" for p q :: u8
  proof -
    have "0 \<le> min (uint p + uint q) 252" "min (uint p + uint q) 252 < 253" by (auto intro: add_nonneg_nonneg)
    then show ?thesis by (simp add: word_less_def INSCRIBED_INFLATED_OBSTACLE_def uint_word_of_int)
  qed
  ultimately show ?thesis using m'(1) window_only_rewritten [OF m'(2)] by (auto simp: add_cost_def)
qed

theorem addition_loses_obstacles_witness:
  "\<exists>m'. updateWithAddition ((ob_layer demo_obstacle)\<lparr>layer_map := demo_grid\<lparr>costs := [254, 0, 0, 0]\<rparr>\<rparr>) 0 0 2 2
      (demo_grid\<lparr>costs := [0, 0, 0, 0]\<rparr>) = Some m' \<and> cost_at m' 0 0 = 252"
  using addition_loses_obstacles [of "demo_grid\<lparr>costs := [0, 0, 0, 0]\<rparr>"
      "(ob_layer demo_obstacle)\<lparr>layer_map := demo_grid\<lparr>costs := [254, 0, 0, 0]\<rparr>\<rparr>" 0 0 2 2 0 0] demo_grid_ok(1)
  by (auto simp: covers_def window_ok_def grid_ok_def in_window_def cost_at_def NO_INFORMATION_def)

end
