(* ===== verification/Inflation_Properties.thy ===== *)
theory Inflation_Properties
  imports Layer_Properties
begin

text \<open>Properties of the inflation layer and of footprints.\<close>

section \<open>The inflation layer\<close>

lemma reach_cost:
  assumes "il_ready l" and "in_reach l p s"
  shows "computeCost l (sqrt (real_of_int (gap2 p s))) = Some (wave_cost l p s)"
proof -
  note r = ready_fields [OF assms(1) refl]
  let ?R = "int (cache_radius l)" and ?dx = "int (fst p) - int (fst s)" and ?dy = "int (snd p) - int (snd s)"
  have sum: "?dx\<^sup>2 + ?dy\<^sup>2 \<le> ?R\<^sup>2" using assms(2) by (simp add: in_reach_def gap2_def norm2_def power2_eq_square)
  have sq: "?dx\<^sup>2 \<le> ?R\<^sup>2" "?dy\<^sup>2 \<le> ?R\<^sup>2"
    using sum zero_le_power2 [of ?dx] zero_le_power2 [of ?dy] by linarith+
  then have "\<bar>?dx\<bar> \<le> ?R" "\<bar>?dy\<bar> \<le> ?R"
    using abs_le_square_iff [of ?dx ?R] abs_le_square_iff [of ?dy ?R] by simp_all
  then have "nat \<bar>?dx\<bar> < cache_size l" "nat \<bar>?dy\<bar> < cache_size l" by (simp_all add: cache_size_def)
  from r(9) [OF this, unfolded gap2_hypot] show ?thesis by (simp add: wave_cost_def)
qed

text \<open>C15: the wave of the inflation layer never fails and never writes outside its window; a cell whose
  cost changes gets the cost of its distance to some source (a lethal cell, or an unknown one if the layer inflates
  around those) within the inflation radius, merged with its old cost, which an inflation never lowers; and a cell
  in the window that is a source or next to one gets that of a source at least as near, whatever order
  the bins were filled in.\<close>

theorem inflation_update:
  assumes "il_fits l m" and "grid_ok m" and "window_ok a b c d m" and "a \<le> c" and "b \<le> d"
    and "il_enabled l" and "cell_inflation_radius l \<noteq> 0"
  shows "\<exists>l' m'. il_updateCosts a b c d (l, m) = Some (l', m') \<and> il_current l' \<and> window_only a b c d m m' \<and>
    (\<forall>p \<in> grid_cells m. costs m' ! idx m p \<noteq> costs m ! idx m p \<longrightarrow>
      (\<exists>s \<in> wave_sources l m (a, b, c, d). gap2 p s \<le> (int (unat (cell_inflation_radius l)))\<^sup>2 \<and>
        (\<exists>cost. computeCost l (sqrt (real_of_int (gap2 p s))) = Some cost \<and> costs m' ! idx m p = inflated l cost (costs m ! idx m p)))) \<and>
    (\<forall>p \<in> grid_cells m. \<forall>ob \<in> wave_sources l m (a, b, c, d).
      in_window a b c d (fst p) (snd p) \<longrightarrow> gap2 p ob \<le> 1 \<longrightarrow>
      (\<exists>s \<in> wave_sources l m (a, b, c, d). gap2 p s \<le> gap2 p ob \<and>
        (\<exists>cost. computeCost l (sqrt (real_of_int (gap2 p s))) = Some cost \<and> costs m' ! idx m p = inflated l cost (costs m ! idx m p))))"
proof -
  let ?src = "wave_sources l m (a, b, c, d)"
  obtain l' m' sn where r: "il_updateCosts a b c d (l, m) = Some (l', m')" "inflated_from l (a, b, c, d) m m'"
    "l' = l\<lparr>il_seen := sn, il_current := True\<rparr>"
    using il_updateCosts_spec [OF assms] by blast
  have ready: "il_ready l" using assms(1,7) by (simp add: il_fits_def)
  have cost: "computeCost l (sqrt (real_of_int (gap2 p s))) = Some (wave_cost l p s)" if "in_reach l p s" for p s
    using reach_cost [OF ready that] .
  have "\<exists>s \<in> ?src. gap2 p s \<le> (int (unat (cell_inflation_radius l)))\<^sup>2 \<and>
    (\<exists>cost. computeCost l (sqrt (real_of_int (gap2 p s))) = Some cost \<and> costs m' ! idx m p = inflated l cost (costs m ! idx m p))"
    if p: "p \<in> grid_cells m" "costs m' ! idx m p \<noteq> costs m ! idx m p" for p
  proof -
    obtain s where s: "s \<in> ?src" "in_reach l p s" "costs m' ! idx m p = cell_value l m (a, b, c, d) p s"
      using r(2) p unfolding inflated_from_def by blast
    have "costs m' ! idx m p = inflated l (wave_cost l p s) (costs m ! idx m p)"
      using s(3) p(2) by (simp add: cell_value_def split: if_splits)
    then show ?thesis using s(1,2) cost [OF s(2)] by (auto simp: in_reach_def cache_radius_def power2_eq_square simp del: of_nat_unat)
  qed
  moreover have "\<exists>s \<in> ?src. gap2 p s \<le> gap2 p ob \<and>
    (\<exists>cost. computeCost l (sqrt (real_of_int (gap2 p s))) = Some cost \<and> costs m' ! idx m p = inflated l cost (costs m ! idx m p))"
    if p: "p \<in> grid_cells m" "ob \<in> ?src" "in_window a b c d (fst p) (snd p)" "gap2 p ob \<le> 1" for p ob
  proof -
    obtain s where s: "s \<in> ?src" "gap2 p s \<le> gap2 p ob" "costs m' ! idx m p = cell_value l m (a, b, c, d) p s"
      using r(2) p unfolding inflated_from_def by blast
    have "0 < cache_radius l" using assms(7) by (simp add: cache_radius_def unat_gt_0)
    then have "1 \<le> int (cache_radius l) * int (cache_radius l)" by (simp add: int_one_le_iff_zero_less)
    then have "in_reach l p s" using s(2) p(4) by (simp add: in_reach_def)
    moreover have "costs m' ! idx m p = inflated l (wave_cost l p s) (costs m ! idx m p)"
      using s(3) p(3) by (simp add: cell_value_def)
    ultimately show ?thesis using s(1,2) cost by blast
  qed
  ultimately show ?thesis using r(1,3) inflated_from_window [OF r(2)] by (intro exI [of _ l'] exI [of _ m']) simp
qed

theorem inflation_update_witness:
  "\<exists>l' m'. il_updateCosts 0 0 2 2 (demo_inflation, demo_grid\<lparr>costs := [0, 254, 0, 0]\<rparr>) = Some (l', m') \<and> il_current l' \<and>
    window_only 0 0 2 2 (demo_grid\<lparr>costs := [0, 254, 0, 0]\<rparr>) m'"
proof -
  have "il_fits demo_inflation (demo_grid\<lparr>costs := [0, 254, 0, 0]\<rparr>)" "grid_ok (demo_grid\<lparr>costs := [0, 254, 0, 0]\<rparr>)"
    "window_ok 0 0 2 2 (demo_grid\<lparr>costs := [0, 254, 0, 0]\<rparr>)"
    using demo_inflation_fits(1) by (simp_all add: il_fits_def wave_sized_def grid_ok_def window_ok_def)
  from inflation_update [OF this] show ?thesis using demo_inflation_fits by auto
qed

text \<open>The cost around an obstacle: it is always a byte, lethal at the obstacle, inscribed as long as the
  inscribed circle of the robot covers the distance, below inscribed beyond, and it never grows with the distance.\<close>

theorem inflation_cost_falls:
  assumes "0 \<le> cost_scaling_factor l" and "0 < il_resolution l" and "0 \<le> near_d" and "near_d \<le> far_d"
  shows "\<exists>c c'. computeCost l near_d = Some c \<and> computeCost l far_d = Some c' \<and> c' \<le> c \<and>
    (near_d = 0 \<longrightarrow> c = LETHAL_OBSTACLE) \<and>
    (near_d \<noteq> 0 \<and> near_d * il_resolution l \<le> il_inscribed_radius l \<longrightarrow> c = INSCRIBED_INFLATED_OBSTACLE) \<and>
    (near_d \<noteq> 0 \<and> il_inscribed_radius l < near_d * il_resolution l \<longrightarrow> c < INSCRIBED_INFLATED_OBSTACLE)"
proof -
  obtain c c' where c: "computeCost l near_d = Some c" "computeCost l far_d = Some c'"
    using computeCost_total [OF assms(1)] by blast
  have "c < INSCRIBED_INFLATED_OBSTACLE" if "near_d \<noteq> 0" "il_inscribed_radius l < near_d * il_resolution l"
    using computeCost_far [OF assms(1) that] c(1)
    by (simp add: word_less_def INSCRIBED_INFLATED_OBSTACLE_def uint_word_of_int)
  then show ?thesis using c computeCost_antimono [OF assms c] by (auto simp: computeCost_def)
qed

theorem inflation_cost_falls_witness:
  "\<exists>c. computeCost demo_inflation 0 = Some LETHAL_OBSTACLE \<and> computeCost demo_inflation 3 = Some c \<and> c \<le> LETHAL_OBSTACLE"
  using inflation_cost_falls [of demo_inflation 0 3] demo_inflation_fits by auto

text \<open>C25: the tables \<open>computeCaches\<close> makes, whatever tables there were before: the distance and the cost of any offset
  the wave can look up, and a matrix of levels that orders the offsets within the radius by their distance, so
  that the bins of the wave are visited by increasing distance; there is a bin for every level.\<close>

theorem tables_order_distances:
  assumes "cell_inflation_radius l \<noteq> 0" and "unat (cell_inflation_radius l) + 2 < 2 ^ 15" and "cached_ok l"
    and "0 \<le> cost_scaling_factor l" and "adjacent_range l c"
    and "n = int (unat (cell_inflation_radius l)) + 2" and "norm2 p \<le> n * n" and "norm2 q \<le> n * n"
  shows "\<exists>l'. computeCaches l = Some l' \<and> cached_ok l' \<and>
    distanceLookup l' c = Some (sqrt (real_of_int (gap2 (cd_pos c) (cd_src c)))) \<and>
    costLookup l' c = computeCost l (sqrt (real_of_int (gap2 (cd_pos c) (cd_src c)))) \<and>
    (distance_matrix l' ! nat (fst p + n) ! nat (snd p + n) \<le> distance_matrix l' ! nat (fst q + n) ! nat (snd q + n) \<longleftrightarrow>
      norm2 p \<le> norm2 q) \<and>
    distance_matrix l' ! nat (fst p + n) ! nat (snd p + n) < length (inflation_cells l')"
proof -
  obtain l' n' cr ds cs mx ic where l': "computeCaches l = Some l'" "il_ready l'" "cached_ok l'"
    "l' = l\<lparr>cache_length := n', cached_cell_inflation_radius := cr, cached_distances := ds, cached_costs := cs,
      distance_matrix := mx, inflation_cells := ic\<rparr>"
    using computeCaches_ready [of l] assms(1-4) by (auto simp: cache_radius_def)
  have r: "cache_radius l' = cache_radius l" "computeCost l' = computeCost l" using l'(4) by (simp_all add: cache_radius_def)
  have n: "n = int (cache_size l')" using assms(6) r(1) by (simp add: cache_size_def cache_radius_def del: of_nat_unat)
  have adj: "adjacent_range l' c" using assms(5) r(1) by (simp add: adjacent_range_def cache_size_def)
  note R = ready_fields [OF l'(2) refl] and look = cache_lookup [OF l'(2) adj]
  have "computeCost l (sqrt (real_of_int (gap2 (cd_pos c) (cd_src c)))) \<noteq> None"
    using computeCost_total [OF assms(4)] by auto
  then have "costLookup l' c = computeCost l (sqrt (real_of_int (gap2 (cd_pos c) (cd_src c))))"
    using look(2) r(2) by (auto simp: wave_cost_def)
  moreover have lv: "distance_matrix l' ! nat (fst p + n) ! nat (snd p + n) = level_of n (norm2 p)" if "norm2 p \<le> n * n" for p
    using R(11) [of p] that by (simp add: n)
  have disc: "p \<in> set (disc_points n)" "q \<in> set (disc_points n)" using assms(6-8) set_disc_points [of n] by auto
  have "length (inflation_cells l') = max_level n + 1" using R(12) by (simp add: n)
  moreover have "level_of n (norm2 p) \<le> max_level n" using assms(7) unfolding max_level_def by (rule level_of_mono)
  ultimately show ?thesis using l'(1,3) look(1) lv [OF assms(7)] lv [OF assms(8)] level_of_le_iff [OF disc] by simp
qed

theorem tables_order_distances_witness:
  "\<exists>l'. computeCaches demo_settings = Some l' \<and> cached_ok l' \<and>
    distance_matrix l' ! nat (1 + 3) ! nat (1 + 3) < length (inflation_cells l') \<and>
    \<not> distance_matrix l' ! nat (2 + 3) ! nat (0 + 3) \<le> distance_matrix l' ! nat (1 + 3) ! nat (1 + 3)"
proof -
  let ?c = "\<lparr>cd_index = 0, cd_x = 1, cd_y = 0, cd_src_x = 0, cd_src_y = 0\<rparr>"
  have s: "cell_inflation_radius demo_settings \<noteq> 0" "unat (cell_inflation_radius demo_settings) + 2 < 2 ^ 15"
    "cached_ok demo_settings" "0 \<le> cost_scaling_factor demo_settings" "adjacent_range demo_settings ?c"
    "3 = int (unat (cell_inflation_radius demo_settings)) + 2"
    by (simp_all add: demo_settings_def InflationLayer_def cached_ok_def adjacent_range_def cache_size_def cache_radius_def
        cd_pos_def cd_src_def)
  have n: "norm2 (1, 1) \<le> 3 * 3" "norm2 (2, 0) \<le> 3 * 3" "\<not> norm2 (2, 0) \<le> norm2 (1, 1)" by (simp_all add: norm2_def)
  from tables_order_distances [OF s n(1,1)] tables_order_distances [OF s n(2,1)] n(3) show ?thesis by auto
qed

section \<open>Footprints\<close>

text \<open>The point of the segment from \<open>(x0, y0)\<close> to \<open>(x1, y1)\<close> at the share \<open>t\<close> of its length.\<close>

definition along :: "point \<Rightarrow> point \<Rightarrow> real \<Rightarrow> point" where
  "along a b t = (fst a + t * (fst b - fst a), snd a + t * (snd b - snd a))"

definition from_origin :: "point \<Rightarrow> real" where
  "from_origin p = point_distance 0 0 (fst p) (snd p)"

lemma from_origin_norm: "from_origin p = sqrt ((fst p)\<^sup>2 + (snd p)\<^sup>2)"
  by (simp add: from_origin_def point_distance_def)

text \<open>The distance of a point to a segment that is not a point is the least distance to its points.\<close>

lemma distanceToLine_least:
  assumes "a \<noteq> b"
  shows "\<exists>d. distanceToLine 0 0 (fst a) (snd a) (fst b) (snd b) = Some d \<and>
    (\<exists>t. 0 \<le> t \<and> t \<le> 1 \<and> d = from_origin (along a b t)) \<and>
    (\<forall>t. 0 \<le> t \<longrightarrow> t \<le> 1 \<longrightarrow> d \<le> from_origin (along a b t))"
proof -
  let ?C = "fst b - fst a" and ?D = "snd b - snd a"
  let ?len = "?C * ?C + ?D * ?D" and ?dot = "(0 - fst a) * ?C + (0 - snd a) * ?D"
  have len: "0 < ?len"
  proof -
    have "?C \<noteq> 0 \<or> ?D \<noteq> 0" using assms by (auto simp: prod_eq_iff)
    then show ?thesis by (auto simp: sum_squares_gt_zero_iff)
  qed
  define L where "L = ?len"
  have L: "L \<noteq> 0" using len unfolding L_def by (rule less_imp_neq [symmetric])
  define q where "q = ?dot / L"
  define s where "s = (if q < 0 then 0 else if q > 1 then 1 else q)"
  have "distanceToLine 0 0 (fst a) (snd a) (fst b) (snd b) =
    (if L = 0 then None
     else case (if q < 0 then (fst a, snd a) else if q > 1 then (fst b, snd b) else (fst a + q * ?C, snd a + q * ?D)) of
       (xx, yy) \<Rightarrow> Some (point_distance 0 0 xx yy))"
    unfolding distanceToLine_def Let_def L_def q_def by (rule refl)
  then have d: "distanceToLine 0 0 (fst a) (snd a) (fst b) (snd b) = Some (from_origin (along a b s))"
    using L by (simp add: s_def along_def from_origin_def split_beta)
  have sq: "(fst (along a b t))\<^sup>2 + (snd (along a b t))\<^sup>2 =
    (fst (along a b s))\<^sup>2 + (snd (along a b s))\<^sup>2 + ?len * (t - s)\<^sup>2 + 2 * (t - s) * (?len * s - ?dot)" for t
    by (simp add: along_def power2_eq_square algebra_simps)
  have dot: "?dot = ?len * q" using len by (simp add: q_def L_def)
  have "from_origin (along a b s) \<le> from_origin (along a b t)" if "0 \<le> t" "t \<le> 1" for t
  proof -
    have "0 \<le> (t - s) * (s - q)"
      using that by (auto simp: s_def zero_le_mult_iff)
    then have "0 \<le> ?len * ((t - s) * (s - q))" by (rule mult_nonneg_nonneg [OF less_imp_le [OF len]])
    then have "0 \<le> 2 * (t - s) * (?len * s - ?dot)" unfolding dot by (simp add: algebra_simps)
    then show ?thesis unfolding from_origin_norm sq [of t] using len by (intro real_sqrt_le_mono) simp
  qed
  moreover have "0 \<le> s" "s \<le> 1" by (auto simp: s_def)
  ultimately show ?thesis using d by blast
qed

text \<open>The greatest distance of a segment is that of an end.\<close>

lemma along_most:
  assumes "0 \<le> t" and "t \<le> 1"
  shows "from_origin (along a b t) \<le> max (from_origin a) (from_origin b)"
proof -
  let ?A = "(fst a)\<^sup>2 + (snd a)\<^sup>2" and ?B = "(fst b)\<^sup>2 + (snd b)\<^sup>2"
  have "(fst (along a b t))\<^sup>2 + (snd (along a b t))\<^sup>2 =
    (1 - t) * ?A + t * ?B - t * (1 - t) * ((fst b - fst a)\<^sup>2 + (snd b - snd a)\<^sup>2)"
    by (simp add: along_def power2_eq_square algebra_simps)
  moreover have "0 \<le> t * (1 - t) * ((fst b - fst a)\<^sup>2 + (snd b - snd a)\<^sup>2)" using assms by simp
  moreover have "(1 - t) * ?A \<le> (1 - t) * max ?A ?B" "t * ?B \<le> t * max ?A ?B" using assms by (auto intro: mult_left_mono)
  moreover have "(1 - t) * max ?A ?B + t * max ?A ?B = max ?A ?B" by (simp add: algebra_simps)
  ultimately have "(fst (along a b t))\<^sup>2 + (snd (along a b t))\<^sup>2 \<le> max ?A ?B" by linarith
  then have "from_origin (along a b t) \<le> sqrt (max ?A ?B)" unfolding from_origin_norm by (rule real_sqrt_le_mono)
  also have "sqrt (max ?A ?B) = max (from_origin a) (from_origin b)" by (simp add: from_origin_norm max_def)
  finally show ?thesis .
qed

text \<open>The edges of a closed polygon, and what a step for an edge does to the distances found before.\<close>

definition fp_edges :: "point list \<Rightarrow> (point \<times> point) list" where
  "fp_edges fp = zip fp (tl fp) @ [(last fp, hd fp)]"

lemma min_max_step_edge:
  assumes "min_max_step (a, b) (lo, hi) = (lo', hi')"
  shows "lo' \<le> lo" "hi' = max hi (from_origin a)"
    "0 \<le> t \<Longrightarrow> t \<le> 1 \<Longrightarrow> lo' \<le> from_origin (along a b t)"
    "lo' = lo \<or> (\<exists>t. 0 \<le> t \<and> t \<le> 1 \<and> lo' = from_origin (along a b t))"
proof -
  have start: "along a b 0 = a" by (simp add: along_def)
  have "\<exists>d. lo' = min lo d \<and> hi' = max hi (from_origin a) \<and>
    (\<forall>t. 0 \<le> t \<longrightarrow> t \<le> 1 \<longrightarrow> d \<le> from_origin (along a b t)) \<and> (\<exists>t. 0 \<le> t \<and> t \<le> 1 \<and> d = from_origin (along a b t))"
  proof (cases "a = b")
    case True
    then have "along a b t = a" for t by (simp add: along_def)
    moreover have "distanceToLine 0 0 (fst a) (snd a) (fst b) (snd b) = None" using True by (simp add: distanceToLine_def)
    then have "lo' = min lo (from_origin a)" "hi' = max hi (from_origin a)"
      using assms by (auto simp: min_max_step_def split_beta Let_def std_min_def std_max_def from_origin_def min_def max_def)
    ultimately show ?thesis using start by (intro exI [of _ "from_origin a"]) auto
  next
    case False
    then obtain d where d: "distanceToLine 0 0 (fst a) (snd a) (fst b) (snd b) = Some d"
      "\<exists>t. 0 \<le> t \<and> t \<le> 1 \<and> d = from_origin (along a b t)" "\<forall>t. 0 \<le> t \<longrightarrow> t \<le> 1 \<longrightarrow> d \<le> from_origin (along a b t)"
      using distanceToLine_least by blast
    have "d \<le> from_origin a" using d(3) [rule_format, of 0] start by simp
    then have "lo' = min lo d" "hi' = max hi (from_origin a)"
      using assms d(1) by (auto simp: min_max_step_def split_beta Let_def std_min_def std_max_def from_origin_def min_def max_def split: if_splits)
    then show ?thesis using d(2,3) by blast
  qed
  then obtain d where d: "lo' = min lo d" "hi' = max hi (from_origin a)"
    "\<forall>t. 0 \<le> t \<longrightarrow> t \<le> 1 \<longrightarrow> d \<le> from_origin (along a b t)" "\<exists>t. 0 \<le> t \<and> t \<le> 1 \<and> d = from_origin (along a b t)" by blast
  show "lo' \<le> lo" "hi' = max hi (from_origin a)" using d(1,2) by simp_all
  show "lo' \<le> from_origin (along a b t)" if "0 \<le> t" "t \<le> 1" using d(1) d(3) [rule_format, OF that] by simp
  show "lo' = lo \<or> (\<exists>t. 0 \<le> t \<and> t \<le> 1 \<and> lo' = from_origin (along a b t))" using d(1,4) by (auto simp: min_def)
qed

lemma fold_min_max:
  assumes "fold min_max_step es (lo, hi) = (lo', hi')"
  shows "lo' \<le> lo \<and> hi \<le> hi' \<and> (\<forall>e \<in> set es. from_origin (fst e) \<le> hi' \<and>
      (\<forall>t. 0 \<le> t \<longrightarrow> t \<le> 1 \<longrightarrow> lo' \<le> from_origin (along (fst e) (snd e) t))) \<and>
    (lo' = lo \<or> (\<exists>e \<in> set es. \<exists>t. 0 \<le> t \<and> t \<le> 1 \<and> lo' = from_origin (along (fst e) (snd e) t))) \<and>
    (hi' = hi \<or> (\<exists>e \<in> set es. hi' = from_origin (fst e)))"
  using assms
proof (induction es arbitrary: lo hi)
  case (Cons e es)
  obtain lo1 hi1 where r: "min_max_step (fst e, snd e) (lo, hi) = (lo1, hi1)" by (cases "min_max_step (fst e, snd e) (lo, hi)")
  then have "fold min_max_step es (lo1, hi1) = (lo', hi')" using Cons.prems by simp
  note IH = Cons.IH [OF this] and step = min_max_step_edge [OF r]
  have "lo' \<le> from_origin (along (fst e) (snd e) t)" if "0 \<le> t" "t \<le> 1" for t
    using IH step(3) [OF that] by linarith
  moreover have "from_origin (fst e) \<le> hi'" "lo' \<le> lo" "hi \<le> hi'" using IH step(1,2) by linarith+
  moreover have "hi1 = hi \<or> hi1 = from_origin (fst e)" using step(2) by (simp add: max_def)
  ultimately show ?case using IH step(4) by auto
qed simp

lemma calculateMinAndMaxDistances_edges:
  "2 < length fp \<Longrightarrow> calculateMinAndMaxDistances fp = fold min_max_step (fp_edges fp) (DBL_MAX, 0)"
  by (simp add: calculateMinAndMaxDistances_def fp_edges_def Let_def)

lemma edges_vertices:
  assumes "fp \<noteq> []"
  shows "fst ` set (fp_edges fp) = set fp" "snd ` set (fp_edges fp) \<subseteq> set fp"
proof -
  have "map fst (fp_edges fp) = fp" using assms
    by (cases fp rule: rev_cases) (simp_all add: fp_edges_def zip_map_fst_snd butlast_append map_fst_zip_take)
  then show "fst ` set (fp_edges fp) = set fp" by (metis list.set_map)
  show "snd ` set (fp_edges fp) \<subseteq> set fp" using assms
    by (auto simp: fp_edges_def dest!: set_zip_rightD list.set_sel(2) [rotated])
qed

text \<open>C34: the inscribed and the circumscribed radius of a footprint with at least three vertices: the first is the
  least distance from the robot's centre to any point of any edge, the second the greatest, reached at a
  vertex; repeated vertices, whose edge makes a division of zero by zero, do no harm.\<close>

theorem footprint_radii:
  assumes "2 < length fp" and "calculateMinAndMaxDistances fp = (inscribed, circumscribed)"
    and "from_origin (hd fp) \<le> DBL_MAX"
  shows "(\<forall>(a, b) \<in> set (fp_edges fp). \<forall>t. 0 \<le> t \<longrightarrow> t \<le> 1 \<longrightarrow>
      inscribed \<le> from_origin (along a b t) \<and> from_origin (along a b t) \<le> circumscribed) \<and>
    (\<exists>(a, b) \<in> set (fp_edges fp). \<exists>t. 0 \<le> t \<and> t \<le> 1 \<and> inscribed = from_origin (along a b t)) \<and>
    (\<exists>p \<in> set fp. circumscribed = from_origin p)"
proof -
  have ne: "fp \<noteq> []" using assms(1) by auto
  note F = fold_min_max [of "fp_edges fp" DBL_MAX 0, folded calculateMinAndMaxDistances_edges [OF assms(1)], OF assms(2)]
  note V = edges_vertices [OF ne]
  obtain e0 where e0: "e0 \<in> set (fp_edges fp)" "fst e0 = hd fp" using V(1) hd_in_set [OF ne] by (metis imageE)
  have most: "from_origin p \<le> circumscribed" if "p \<in> set fp" for p using F V(1) that by (metis imageE)
  have "from_origin (along (fst e) (snd e) t) \<le> circumscribed" if "e \<in> set (fp_edges fp)" "0 \<le> t" "t \<le> 1" for e t
    using along_most [OF that(2,3), of "fst e" "snd e"] most [of "fst e"] most [of "snd e"] V that(1) by (force simp: max_def split: if_splits)
  moreover have "\<exists>e \<in> set (fp_edges fp). \<exists>t. 0 \<le> t \<and> t \<le> 1 \<and> inscribed = from_origin (along (fst e) (snd e) t)"
  proof (cases "inscribed = DBL_MAX")
    case True
    have "inscribed \<le> from_origin (along (fst e0) (snd e0) 0)" using F e0(1) by force
    then have "inscribed = from_origin (along (fst e0) (snd e0) 0)" using True assms(3) e0(2) by (simp add: along_def)
    then show ?thesis using e0(1) by (intro bexI [of _ e0] exI [of _ 0]) simp_all
  qed (use F in blast)
  moreover have "\<exists>p \<in> set fp. circumscribed = from_origin p"
  proof (cases "circumscribed = 0")
    case True
    have "0 \<le> from_origin (hd fp)" by (simp add: from_origin_norm)
    then show ?thesis using most [OF hd_in_set [OF ne]] True hd_in_set [OF ne] by (intro bexI [of _ "hd fp"]) simp_all
  next
    case False
    then show ?thesis using F V(1) by blast
  qed
  ultimately show ?thesis using F by (auto simp: split_beta)
qed

theorem footprint_radii_witness:
  "\<exists>i c. calculateMinAndMaxDistances [(1, 1), (-1, 1), (-1, -1), (1, -1)] = (i, c) \<and> i \<le> 1 \<and> sqrt 2 \<le> c"
proof -
  let ?fp = "[(1, 1), (-1, 1), (-1, -1), (1, -1)] :: point list"
  obtain i c where r: "calculateMinAndMaxDistances ?fp = (i, c)" by (cases "calculateMinAndMaxDistances ?fp")
  have "(2 :: real)\<^sup>2 \<le> 2 ^ 1023" by (rule power_increasing) simp_all
  then have "sqrt 2 \<le> DBL_MAX" using sqrt2_less_2 by (simp add: DBL_MAX_def)
  then have big: "from_origin (hd ?fp) \<le> DBL_MAX" by (simp add: from_origin_norm)
  have e: "((1, 1), (-1, 1)) \<in> set (fp_edges ?fp)" by (simp add: fp_edges_def)
  have "2 < length ?fp" by simp
  note F = footprint_radii [OF this r big]
  have "i \<le> from_origin (along (1, 1) (-1, 1) (1 / 2))" "from_origin (along (1, 1) (-1, 1) 0) \<le> c" using F e by fastforce+
  then show ?thesis using r by (simp add: along_def from_origin_norm)
qed

end
