(* ===== verification/Firmware_Encoder.thy ===== *)
theory Firmware_Encoder
  imports Machine_Numbers
begin

text \<open>
  The wheel encoder of the vehicle's firmware (\<open>arduino/mando_ver2/mando_ver2.ino\<close>): the LS7366R counter
  behind SPI, the guard that drops jumps no wheel can make, and the stream of samples on the serial line.
  A \<open>long\<close> is an integer whose operations are checked for overflow, an \<open>unsigned long\<close> a 32-bit word that
  wraps, as \<open>millis\<close> does. The times, the bytes of the counter and the free space of the transmit buffer are
  arguments; what is printed is a list of lines.
\<close>

section \<open>The counter\<close>

text \<open>The transactions on the SPI bus, each with the bytes sent.\<close>

type_synonym spi = "u8 list list"

definition LS7366R_WRITE_MDR0 :: u8 where "LS7366R_WRITE_MDR0 = 0x88"
definition LS7366R_WRITE_MDR1 :: u8 where "LS7366R_WRITE_MDR1 = 0x90"
definition LS7366R_CLEAR_CNTR :: u8 where "LS7366R_CLEAR_CNTR = 0x20"
definition LS7366R_MDR0_QUADRATURE_X4 :: u8 where "LS7366R_MDR0_QUADRATURE_X4 = 0x03"
definition LS7366R_MDR1_4_BYTE_COUNTER :: u8 where "LS7366R_MDR1_4_BYTE_COUNTER = 0x00"

definition ls7366rWriteRegister :: "u8 \<Rightarrow> u8 \<Rightarrow> spi" where
  "ls7366rWriteRegister command value = [[command, value]]"

definition ls7366rClearCounter :: spi where
  "ls7366rClearCounter = [[LS7366R_CLEAR_CNTR]]"

definition ls7366rBegin :: spi where
  "ls7366rBegin = ls7366rWriteRegister LS7366R_WRITE_MDR0 LS7366R_MDR0_QUADRATURE_X4 @
     ls7366rWriteRegister LS7366R_WRITE_MDR1 LS7366R_MDR1_4_BYTE_COUNTER @ ls7366rClearCounter"

text \<open>The four bytes the chip answers, the most significant one first; \<open>LS7366R_REVERSE_COUNT\<close> is 0.\<close>

definition ls7366rReadCounter :: "u8 \<times> u8 \<times> u8 \<times> u8 \<Rightarrow> int" where
  "ls7366rReadCounter bytes = (case bytes of (b3, b2, b1, b0) \<Rightarrow>
     sint (push_bit 24 (ucast b3) OR push_bit 16 (ucast b2) OR push_bit 8 (ucast b1) OR ucast b0 :: u32))"

section \<open>The guard\<close>

record encoder =
  encoderCount :: int
  driveLogPrevEncoder :: int
  encoderCsvPrevMs :: u32
  encoderTimeZeroMs :: u32
  encoderGuardedCount :: int
  encoderGuardPrevRawCount :: int
  encoderGuardPrevMs :: u32
  encoderStreamPrevCount :: int
  encoderStreamPrevMs :: u32
  encoderGuardReady :: bool
  encoderFaultRejects :: u16
  encoderGuardStatus :: u8
  encoderStreamSyncDropsPending :: u8

definition EFG_STATUS_OK :: u8 where "EFG_STATUS_OK = 0"
definition EFG_STATUS_BASELINE :: u8 where "EFG_STATUS_BASELINE = 1"
definition EFG_STATUS_STALE_DT :: u8 where "EFG_STATUS_STALE_DT = 2"
definition EFG_STATUS_SPIKE_DROPPED :: u8 where "EFG_STATUS_SPIKE_DROPPED = 3"

text \<open>The variables before \<open>setup\<close>.\<close>

definition encoder_globals :: encoder where
  "encoder_globals = \<lparr>encoderCount = 0, driveLogPrevEncoder = 0, encoderCsvPrevMs = 0, encoderTimeZeroMs = 0,
     encoderGuardedCount = 0, encoderGuardPrevRawCount = 0, encoderGuardPrevMs = 0, encoderStreamPrevCount = 0,
     encoderStreamPrevMs = 0, encoderGuardReady = False, encoderFaultRejects = 0, encoderGuardStatus = 0,
     encoderStreamSyncDropsPending = 0\<rparr>"

definition absLong :: "int \<Rightarrow> int option" where
  "absLong value = (if value < 0 then int32 (- value) else Some value)"

definition encoderMaxDeltaForDt :: "u32 \<Rightarrow> int" where
  "encoderMaxDeltaForDt dtMs =
     (let scaled = (60 * dtMs + 10 - 1) div 10 in sint (if scaled < 4 then 4 else scaled))"

definition resetEncoderFaultGuard :: "int \<Rightarrow> u32 \<Rightarrow> encoder \<Rightarrow> encoder" where
  "resetEncoderFaultGuard rawCount nowMs e =
     e\<lparr>encoderGuardedCount := rawCount, encoderGuardPrevRawCount := rawCount, encoderGuardPrevMs := nowMs,
       encoderStreamPrevCount := rawCount, encoderStreamPrevMs := nowMs, encoderGuardReady := True,
       encoderGuardStatus := EFG_STATUS_BASELINE, encoderStreamSyncDropsPending := 1\<rparr>"

definition updateEncoderFaultGuard :: "int \<Rightarrow> u32 \<Rightarrow> encoder \<Rightarrow> (int \<times> encoder) option" where
  "updateEncoderFaultGuard rawCount nowMs e =
     (if \<not> encoderGuardReady e
      then (let e = resetEncoderFaultGuard rawCount nowMs e in Some (encoderGuardedCount e, e))
      else
        (let dtMs = nowMs - encoderGuardPrevMs e;
             seen = e\<lparr>encoderGuardPrevRawCount := rawCount, encoderGuardPrevMs := nowMs\<rparr>
         in if dtMs < 1 then Some (encoderGuardedCount e, e)
            else if dtMs > 200
            then Some (encoderGuardedCount e, seen\<lparr>encoderGuardStatus := EFG_STATUS_STALE_DT\<rparr>)
            else do {
              deltaCount \<leftarrow> int32 (rawCount - encoderGuardPrevRawCount e);
              size \<leftarrow> absLong deltaCount;
              if size > encoderMaxDeltaForDt dtMs
              then Some (encoderGuardedCount e, seen\<lparr>encoderGuardStatus := EFG_STATUS_SPIKE_DROPPED,
                encoderFaultRejects := (if encoderFaultRejects e < 65535 then encoderFaultRejects e + 1 else encoderFaultRejects e)\<rparr>)
              else do {
                guarded \<leftarrow> int32 (encoderGuardedCount e + deltaCount);
                Some (guarded, seen\<lparr>encoderGuardedCount := guarded, encoderGuardStatus := EFG_STATUS_OK\<rparr>)
              }
            }))"

section \<open>The stream\<close>

datatype line =
    ResetLine
  | MarkLine string u32 int
  | EncSync u32 int int
  | Enc u32 int int u32 int

text \<open>\<open>resetEncoderCount\<close> prints its line and clears the counter of the chip.\<close>

definition resetEncoderCount :: "u32 \<Rightarrow> encoder \<Rightarrow> encoder \<times> line list \<times> spi" where
  "resetEncoderCount now e =
     (let e = (resetEncoderFaultGuard 0 now e)\<lparr>encoderFaultRejects := 0, encoderCount := 0, driveLogPrevEncoder := 0,
        encoderTimeZeroMs := now, encoderCsvPrevMs := now\<rparr>
      in (e, [ResetLine], ls7366rClearCounter))"

definition printEncoderMark :: "string \<Rightarrow> u32 \<Rightarrow> encoder \<Rightarrow> line list" where
  "printEncoderMark tag now e = [MarkLine tag (now - encoderTimeZeroMs e) (encoderCount e)]"

definition printEncoderCsv :: "u32 \<Rightarrow> int \<Rightarrow> int \<Rightarrow> int \<Rightarrow> encoder \<Rightarrow> (line list \<times> encoder) option" where
  "printEncoderCsv now tx_space pot count e =
     (if now - encoderCsvPrevMs e \<ge> 10 then
        if tx_space < 48 then Some ([], e)
        else do {
          let elapsedMs = now - encoderTimeZeroMs e;
          let sampleDtMs = (if now - encoderStreamPrevMs e = 0 then 10 else now - encoderStreamPrevMs e);
          deltaCount \<leftarrow> int32 (count - encoderStreamPrevCount e);
          let due = encoderCsvPrevMs e + 10;
          let e = e\<lparr>encoderCsvPrevMs := (if now - due \<ge> 10 then now else due),
            encoderStreamPrevCount := count, encoderStreamPrevMs := now\<rparr>;
          if encoderStreamSyncDropsPending e > 0
          then Some ([EncSync elapsedMs count pot],
            e\<lparr>encoderStreamSyncDropsPending := encoderStreamSyncDropsPending e - 1\<rparr>)
          else Some ([Enc elapsedMs count deltaCount sampleDtMs pot], e)
        }
      else Some ([], e))"

section \<open>What the guard lets through\<close>

lemma encoderMaxDeltaForDt_bound:
  assumes "1 \<le> dt" and "dt \<le> 200"
  shows "encoderMaxDeltaForDt dt = 6 * uint dt"
proof -
  have dt: "1 \<le> uint dt" "uint dt \<le> 200" using assms by (simp_all add: word_le_def)
  have "uint (60 * dt + 10 - 1) = 60 * uint dt + 9"
    using dt by (simp add: uint_word_ariths mod_pos_pos_trivial)
  then have s: "uint ((60 * dt + 10 - 1) div 10) = 6 * uint dt"
    using dt by (simp add: uint_div)
  moreover have "\<not> (60 * dt + 10 - 1) div 10 < (4 :: u32)"
    using s dt by (simp add: word_less_def)
  moreover have "sint ((60 * dt + 10 - 1) div 10) = uint ((60 * dt + 10 - 1) div 10)"
    using s dt by (simp add: sint_uint signed_take_bit_int_eq_self)
  ultimately show ?thesis by (simp add: encoderMaxDeltaForDt_def Let_def)
qed

text \<open>One reading, with the time since the last one that counted.\<close>

lemma guard_step:
  assumes ready: "encoderGuardReady e" and room: "\<bar>encoderGuardedCount e\<bar> + 1200 < 2 ^ 31"
    and dt: "dt = now - encoderGuardPrevMs e"
  shows "(updateEncoderFaultGuard raw now e = None \<and> 2 ^ 31 \<le> \<bar>raw - encoderGuardPrevRawCount e\<bar>) \<or>
    (\<exists>e'. updateEncoderFaultGuard raw now e = Some (encoderGuardedCount e', e') \<and> encoderGuardReady e' \<and>
    encoderGuardedCount e' =
      (if 1 \<le> dt \<and> dt \<le> 200 \<and> \<bar>raw - encoderGuardPrevRawCount e\<bar> \<le> 6 * uint dt
       then encoderGuardedCount e + (raw - encoderGuardPrevRawCount e) else encoderGuardedCount e) \<and>
    encoderGuardPrevMs e' = now \<and>
    encoderGuardPrevRawCount e' = (if dt = 0 then encoderGuardPrevRawCount e else raw))"
proof -
  let ?d = "raw - encoderGuardPrevRawCount e"
  consider (same) "dt = 0" | (stale) "200 < dt" | (fresh) "1 \<le> dt" "dt \<le> 200"
    by (metis not_le word_gt_0 word_less_1 le_less_linear)
  then show ?thesis
  proof cases
    case same
    then have "now = encoderGuardPrevMs e" using dt by simp
    then show ?thesis using same ready by (simp add: updateEncoderFaultGuard_def)
  next
    case stale
    then have "\<not> dt < 1" "\<not> dt \<le> 200" "dt \<noteq> 0" by auto
    then show ?thesis using stale ready dt by (simp add: updateEncoderFaultGuard_def Let_def)
  next
    case fresh
    have nz: "\<not> dt < 1" "\<not> dt > 200" "dt \<noteq> 0" using fresh by auto
    note max = encoderMaxDeltaForDt_bound [OF fresh]
    have "uint dt \<le> 200" using fresh(2) by (simp add: word_le_def)
    then have sum: "int32 (encoderGuardedCount e + ?d) = Some (encoderGuardedCount e + ?d)" if "\<bar>?d\<bar> \<le> 6 * uint dt"
      using that room by (auto simp: int32_def abs_if split: if_splits)
    consider (over) "2 ^ 31 \<le> \<bar>?d\<bar>" | (fits) "\<bar>?d\<bar> < 2 ^ 31" by linarith
    then show ?thesis
    proof cases
      case over
      then have "int32 ?d = None \<or> (int32 ?d = Some ?d \<and> absLong ?d = None)" by (auto simp: int32_def absLong_def abs_if split: if_splits)
      then have "updateEncoderFaultGuard raw now e = None"
        using fresh nz ready dt by (auto simp: updateEncoderFaultGuard_def Let_def)
      then show ?thesis using over by blast
    next
      case fits
      then have d: "int32 ?d = Some ?d" "absLong ?d = Some \<bar>?d\<bar>" by (auto simp: int32_def absLong_def)
      show ?thesis
      proof (cases "\<bar>?d\<bar> \<le> 6 * uint dt")
        case True
        then show ?thesis using fresh nz ready d sum dt max by (simp add: updateEncoderFaultGuard_def Let_def)
      next
        case False
        then show ?thesis using fresh nz ready d dt max by (simp add: updateEncoderFaultGuard_def Let_def)
      qed
    qed
  qed
qed

text \<open>A run of readings, each with its time in milliseconds since some start, which the 32-bit clock may have passed.\<close>

fun guard_run :: "(int \<times> nat) list \<Rightarrow> encoder \<Rightarrow> encoder option" where
  "guard_run [] e = Some e"
| "guard_run ((raw, t) # rs) e = do { (_, e) \<leftarrow> updateEncoderFaultGuard raw (of_nat t) e; guard_run rs e }"

text \<open>The guarded count never moves faster than six counts a millisecond, whatever is read.\<close>

lemma uint_of_nat32: "uint (of_nat n :: u32) = int n mod 2 ^ 32"
  by (simp add: unsigned_of_nat take_bit_eq_mod of_nat_mod)

lemma guard_run_speed:
  assumes "encoderGuardReady e" and "encoderGuardPrevMs e = of_nat p"
    and "sorted (p # map snd rs)" and "\<forall>(raw, t) \<in> set rs. t \<le> T"
    and "\<bar>encoderGuardedCount e\<bar> + 6 * int (T - p) + 1200 < 2 ^ 31" and "p \<le> T"
  shows "case guard_run rs e of
      None \<Rightarrow> \<exists>r \<in> insert (encoderGuardPrevRawCount e) (fst ` set rs). \<exists>r' \<in> insert (encoderGuardPrevRawCount e) (fst ` set rs). 2 ^ 31 \<le> \<bar>r - r'\<bar>
    | Some e' \<Rightarrow> \<bar>encoderGuardedCount e' - encoderGuardedCount e\<bar> \<le> 6 * int (T - p)"
  using assms
proof (induction rs arbitrary: e p)
  case (Cons r rs)
  obtain raw t where r: "r = (raw, t)" by (cases r)
  have pt: "p \<le> t" "t \<le> T" using Cons.prems(3,4) r by auto
  define dt where "dt = (of_nat t :: u32) - of_nat p"
  have "dt = of_nat (t - p)" using pt(1) by (simp add: dt_def of_nat_diff)
  then have "uint dt = int (t - p) mod 2 ^ 32" by (simp only: uint_of_nat32)
  then have dt_le: "uint dt \<le> int (t - p)" using zmod_le_nonneg_dividend [of "int (t - p)" "2 ^ 32"] by simp
  have room: "\<bar>encoderGuardedCount e\<bar> + 1200 < 2 ^ 31" using Cons.prems(5) by linarith
  have dte: "dt = of_nat t - encoderGuardPrevMs e" using Cons.prems(2) dt_def by simp
  from guard_step [OF Cons.prems(1) room dte, of raw] show ?case
  proof (elim disjE conjE exE)
    assume "updateEncoderFaultGuard raw (of_nat t) e = None" "2 ^ 31 \<le> \<bar>raw - encoderGuardPrevRawCount e\<bar>"
    then show ?thesis using r by auto
  next
    fix e'
    assume e': "updateEncoderFaultGuard raw (of_nat t) e = Some (encoderGuardedCount e', e')" "encoderGuardReady e'"
      "encoderGuardedCount e' = (if 1 \<le> dt \<and> dt \<le> 200 \<and> \<bar>raw - encoderGuardPrevRawCount e\<bar> \<le> 6 * uint dt
         then encoderGuardedCount e + (raw - encoderGuardPrevRawCount e) else encoderGuardedCount e)"
      "encoderGuardPrevMs e' = of_nat t" "encoderGuardPrevRawCount e' = (if dt = 0 then encoderGuardPrevRawCount e else raw)"
    have step: "\<bar>encoderGuardedCount e' - encoderGuardedCount e\<bar> \<le> 6 * int (t - p)"
      using e'(3) dt_le by (auto split: if_splits)
    have diff: "int (T - p) = int (t - p) + int (T - t)" using pt by simp
    have room': "\<bar>encoderGuardedCount e'\<bar> + 6 * int (T - t) + 1200 < 2 ^ 31" using step diff Cons.prems(5) by linarith
    have run: "guard_run (r # rs) e = guard_run rs e'" using r e'(1) by simp
    have ih: "case guard_run rs e' of
        None \<Rightarrow> \<exists>r \<in> insert (encoderGuardPrevRawCount e') (fst ` set rs). \<exists>r' \<in> insert (encoderGuardPrevRawCount e') (fst ` set rs). 2 ^ 31 \<le> \<bar>r - r'\<bar>
      | Some e'' \<Rightarrow> \<bar>encoderGuardedCount e'' - encoderGuardedCount e'\<bar> \<le> 6 * int (T - t)"
      by (rule Cons.IH [OF e'(2,4) _ _ room' pt(2)]) (use Cons.prems r in auto)
    show ?thesis
    proof (cases "guard_run rs e'")
      case None
      let ?A = "insert (encoderGuardPrevRawCount e) (fst ` set (r # rs))" and ?B = "insert (encoderGuardPrevRawCount e') (fst ` set rs)"
      have sub: "?B \<subseteq> ?A" using e'(5) r by auto
      obtain x y where xy: "x \<in> ?B" "y \<in> ?B" "2 ^ 31 \<le> \<bar>x - y\<bar>" using ih None by (simp only: option.case) blast
      have "\<exists>r' \<in> ?A. \<exists>r'' \<in> ?A. 2 ^ 31 \<le> \<bar>r' - r''\<bar>"
        by (intro bexI [of _ x] bexI [of _ y]) (use xy(3) subsetD [OF sub xy(1)] subsetD [OF sub xy(2)] in simp_all)
      then show ?thesis unfolding run None option.case .
    next
      case (Some e'')
      then have "\<bar>encoderGuardedCount e'' - encoderGuardedCount e'\<bar> \<le> 6 * int (T - t)" using ih by simp
      then have "\<bar>encoderGuardedCount e'' - encoderGuardedCount e\<bar> \<le> 6 * int (T - p)" using step diff by linarith
      then show ?thesis using run Some by simp
    qed
  qed
qed simp

text \<open>Motion a wheel can make is passed on exactly.\<close>

fun plausible :: "int \<Rightarrow> nat \<Rightarrow> (int \<times> nat) list \<Rightarrow> bool" where
  "plausible raw0 t0 [] = True"
| "plausible raw0 t0 ((raw, t) # rs) \<longleftrightarrow> t0 < t \<and> t \<le> t0 + 200 \<and> \<bar>raw - raw0\<bar> \<le> 6 * int (t - t0) \<and> plausible raw t rs"

lemma guard_run_exact:
  assumes "encoderGuardReady e" and "encoderGuardPrevMs e = of_nat p" and "plausible (encoderGuardPrevRawCount e) p rs"
    and "encoderGuardedCount e = encoderGuardPrevRawCount e" and "\<forall>(raw, t) \<in> set rs. t \<le> T"
    and "\<bar>encoderGuardedCount e\<bar> + 6 * int (T - p) + 1200 < 2 ^ 31"
  shows "\<exists>e'. guard_run rs e = Some e' \<and> encoderGuardedCount e' = last (encoderGuardPrevRawCount e # map fst rs)"
  using assms
proof (induction rs arbitrary: e p)
  case (Cons r rs)
  obtain raw t where r: "r = (raw, t)" by (cases r)
  have pt: "p < t" "t \<le> p + 200" "\<bar>raw - encoderGuardPrevRawCount e\<bar> \<le> 6 * int (t - p)" "plausible raw t rs" "t \<le> T"
    using Cons.prems(3,5) r by (simp_all del: of_nat_diff)
  define dt where "dt = (of_nat t :: u32) - of_nat p"
  have dt: "dt = of_nat (t - p)" using pt(1) by (simp add: dt_def of_nat_diff)
  have u: "uint dt = int (t - p)"
    using pt(1,2) by (simp add: dt uint_of_nat32 del: of_nat_diff)
  then have range: "1 \<le> dt" "dt \<le> 200" "dt \<noteq> 0" using pt(1,2) by (auto simp: word_le_def)
  have room: "\<bar>encoderGuardedCount e\<bar> + 1200 < 2 ^ 31" using Cons.prems(6) by linarith
  have dte: "dt = of_nat t - encoderGuardPrevMs e" using Cons.prems(2) by (simp add: dt_def)
  have "6 * int (t - p) \<le> 1200" using pt(2) by simp
  with pt(3) have "\<bar>raw - encoderGuardPrevRawCount e\<bar> \<le> 1200" by (rule order_trans)
  then have small: "\<not> 2 ^ 31 \<le> \<bar>raw - encoderGuardPrevRawCount e\<bar>" by simp
  obtain e' where g: "updateEncoderFaultGuard raw (of_nat t) e = Some (encoderGuardedCount e', e')" "encoderGuardReady e'"
    "encoderGuardedCount e' = (if 1 \<le> dt \<and> dt \<le> 200 \<and> \<bar>raw - encoderGuardPrevRawCount e\<bar> \<le> 6 * uint dt
       then encoderGuardedCount e + (raw - encoderGuardPrevRawCount e) else encoderGuardedCount e)"
    "encoderGuardPrevMs e' = of_nat t" "encoderGuardPrevRawCount e' = (if dt = 0 then encoderGuardPrevRawCount e else raw)"
    using guard_step [OF Cons.prems(1) room dte, of raw] small by blast
  have "\<bar>raw - encoderGuardPrevRawCount e\<bar> \<le> 6 * uint dt" using pt(3) by (simp only: u)
  then have e': "encoderGuardedCount e' = encoderGuardPrevRawCount e'" "encoderGuardPrevRawCount e' = raw"
    using g(3,5) range Cons.prems(4) by simp_all
  have diff: "int (T - p) = int (t - p) + int (T - t)" using pt by simp
  have room': "\<bar>encoderGuardedCount e'\<bar> + 6 * int (T - t) + 1200 < 2 ^ 31"
    using Cons.prems(4,6) pt(3) diff e' by linarith
  have "plausible (encoderGuardPrevRawCount e') t rs" using pt(4) e'(2) by simp
  from Cons.IH [OF g(2,4) this e'(1) _ room'] Cons.prems(5)
  have "\<exists>e''. guard_run rs e' = Some e'' \<and> encoderGuardedCount e'' = last (encoderGuardPrevRawCount e' # map fst rs)" by simp
  then show ?case using r g(1) e'(2) by simp
qed simp

section \<open>What the stream reports\<close>

text \<open>The calls with their time, free space, potentiometer and count; the lines in order.\<close>

fun csv_run :: "(u32 \<times> int \<times> int \<times> int) list \<Rightarrow> encoder \<Rightarrow> (line list \<times> encoder) option" where
  "csv_run [] e = Some ([], e)"
| "csv_run ((now, tx, pot, count) # cs) e = do {
     (out, e) \<leftarrow> printEncoderCsv now tx pot count e;
     (out', e) \<leftarrow> csv_run cs e;
     Some (out @ out', e)
   }"

fun line_delta :: "line \<Rightarrow> int" where
  "line_delta (Enc elapsed count delta dt pot) = delta"
| "line_delta _ = 0"

fun line_count :: "line \<Rightarrow> int option" where
  "line_count (Enc elapsed count delta dt pot) = Some count"
| "line_count _ = None"

text \<open>Once the reset sample has been sent, the deltas of the lines add up to the counts they report.\<close>

lemma csv_run_sum:
  assumes "csv_run cs e = Some (out, e')" and "encoderStreamSyncDropsPending e = 0"
  shows "encoderStreamPrevCount e + sum_list (map line_delta out) = encoderStreamPrevCount e' \<and>
    encoderStreamSyncDropsPending e' = 0 \<and> (out \<noteq> [] \<longrightarrow> line_count (last out) = Some (encoderStreamPrevCount e')) \<and>
    (\<forall>l \<in> set out. line_count l \<noteq> None)"
  using assms
proof (induction cs arbitrary: e out)
  case (Cons c cs)
  obtain now tx pot count where c: "c = (now, tx, pot, count)" by (cases c) blast
  obtain o1 e1 o2 where s: "printEncoderCsv now tx pot count e = Some (o1, e1)" "csv_run cs e1 = Some (o2, e')" "out = o1 @ o2"
    using Cons.prems(1) c by (auto split: bind_splits)
  have one: "encoderStreamSyncDropsPending e1 = 0" "encoderStreamPrevCount e1 = encoderStreamPrevCount e + sum_list (map line_delta o1)"
    "o1 = [] \<or> (\<exists>l. o1 = [l] \<and> line_count l = Some (encoderStreamPrevCount e1))"
    using s(1) Cons.prems(2) by (auto simp: printEncoderCsv_def Let_def int32_def split: if_splits bind_splits)
  show ?case using Cons.IH [OF s(2) one(1)] one(2,3) s(3) by (cases "o2 = []") auto
qed simp

end
