(* ===== verification/Firmware_Commands.thy ===== *)
theory Firmware_Commands
  imports Firmware_Encoder
begin

text \<open>
  The commands the firmware takes on its serial line (\<open>parseSerial\<close> of \<open>arduino/mando_ver2/mando_ver2.ino\<close>),
  with the C library's \<open>atof\<close>. The bytes come with the value of \<open>millis\<close> when they are handled. A
  \<open>float\<close> that may be not a number is a \<open>real option\<close>; comparisons with it are false. A write outside
  the buffer has no result.
\<close>

section \<open>Numbers in text\<close>

datatype float_value = Finite real | Infinite bool | NotANumber

definition is_digit :: "char \<Rightarrow> bool" where
  "is_digit c \<longleftrightarrow> 48 \<le> (of_char c :: nat) \<and> (of_char c :: nat) \<le> 57"

definition is_space :: "char \<Rightarrow> bool" where
  "is_space c \<longleftrightarrow> c = CHR '' '' \<or> (9 \<le> (of_char c :: nat) \<and> (of_char c :: nat) \<le> 13)"

definition digits_value :: "string \<Rightarrow> nat" where
  "digits_value ds = foldl (\<lambda>v c. 10 * v + (of_char c - 48)) 0 ds"

text \<open>A prefix in upper or lower case; \<open>w\<close> is in lower case.\<close>

definition starts_with_word :: "string \<Rightarrow> string \<Rightarrow> bool" where
  "starts_with_word w s \<longleftrightarrow> length w \<le> length s \<and>
     list_all2 (\<lambda>c d. d = c \<or> (of_char d :: nat) + 32 = of_char c) w (take (length w) s)"

definition take_sign :: "string \<Rightarrow> bool \<times> string" where
  "take_sign s = (case s of
     c # cs \<Rightarrow> if c = CHR ''-'' then (True, cs) else if c = CHR ''+'' then (False, cs) else (False, s)
   | [] \<Rightarrow> (False, s))"

definition exponent :: "string \<Rightarrow> int" where
  "exponent s = (case s of
     c # cs \<Rightarrow>
       if c = CHR ''e'' \<or> c = CHR ''E'' then
         (let (neg, cs) = take_sign cs; v = int (digits_value (takeWhile is_digit cs)) in if neg then - v else v)
       else 0
   | [] \<Rightarrow> 0)"

definition atof :: "string \<Rightarrow> float_value" where
  "atof text =
     (let (neg, s) = take_sign (dropWhile is_space text)
      in if starts_with_word ''inf'' s then Infinite neg
         else if starts_with_word ''nan'' s then NotANumber
         else
           (let whole = takeWhile is_digit s; rest = dropWhile is_digit s;
                (part, rest) = (if rest \<noteq> [] \<and> hd rest = CHR ''.''
                  then (takeWhile is_digit (tl rest), dropWhile is_digit (tl rest)) else ([], rest));
                ex = exponent rest - int (length part);
                v = real (digits_value (whole @ part)) * (if 0 \<le> ex then 10 ^ nat ex else 1 / 10 ^ nat (- ex))
            in Finite (if neg then - v else v)))"

text \<open>The two comparisons that limit a command.\<close>

definition limit :: "real \<Rightarrow> float_value \<Rightarrow> real option" where
  "limit bound v = (case v of
     Finite x \<Rightarrow> Some (if x > bound then bound else if x < - bound then - bound else x)
   | Infinite neg \<Rightarrow> Some (if neg then - bound else bound)
   | NotANumber \<Rightarrow> None)"

section \<open>The parser\<close>

record commands =
  serialBuffer :: string
  bufferIndex :: nat
  throttle_cmd :: "real option"
  steer_auto_deg :: "real option"
  throttleFresh :: bool
  steerFresh :: bool
  lastThrottleMs :: u32
  lastSteerMs :: u32

definition SERIAL_BUFFER_SIZE :: nat where "SERIAL_BUFFER_SIZE = 48"

definition commands_globals :: commands where
  "commands_globals = \<lparr>serialBuffer = replicate SERIAL_BUFFER_SIZE (CHR 0x00), bufferIndex = 0, throttle_cmd = Some 0,
     steer_auto_deg = Some 0, throttleFresh = False, steerFresh = False, lastThrottleMs = 0, lastSteerMs = 0\<rparr>"

text \<open>The C string at the start of the buffer.\<close>

definition c_string :: "string \<Rightarrow> string" where
  "c_string buf = takeWhile (\<lambda>c. c \<noteq> CHR 0x00) buf"

definition skip_blanks :: "string \<Rightarrow> string" where
  "skip_blanks = dropWhile (\<lambda>c. c = CHR '' '' \<or> c = CHR 0x09)"

text \<open>What the parser changes: the commands, the encoder, the lines printed and the transactions on SPI.\<close>

type_synonym parser_state = "commands \<times> encoder \<times> line list \<times> spi"

definition run_command :: "u32 \<Rightarrow> parser_state \<Rightarrow> parser_state" where
  "run_command now st =
     (let (c, e, out, bus) = st; s = c_string (serialBuffer c)
      in if s = ''S'' \<or> s = ''s'' then (c, e, out @ printEncoderMark ''START'' now e, bus)
         else if s = ''P'' \<or> s = ''p'' \<or> s = ''SPACE'' \<or> s = ''space'' then (c, e, out @ printEncoderMark ''SPACE'' now e, bus)
         else if take 2 s = ''TH'' \<or> take 2 s = ''th''
         then (c\<lparr>throttle_cmd := limit 1 (atof (skip_blanks (drop 2 s))), throttleFresh := True, lastThrottleMs := now\<rparr>, e, out, bus)
         else if take 2 s = ''SA'' \<or> take 2 s = ''sa''
         then (c\<lparr>steer_auto_deg := limit 24 (atof (skip_blanks (drop 2 s))), steerFresh := True, lastSteerMs := now\<rparr>, e, out, bus)
         else st)"

definition parse_char :: "char \<times> u32 \<Rightarrow> parser_state \<Rightarrow> parser_state option" where
  "parse_char input st =
     (let (ch, now) = input; (c, e, out, bus) = st
      in if (ch = CHR ''r'' \<or> ch = CHR ''R'') \<and> bufferIndex c = 0
         then (let (e, lines, transfers) = resetEncoderCount now e in Some (c, e, out @ lines, bus @ transfers))
         else if ch = CHR 0x0A then do {
           buf \<leftarrow> write_at (serialBuffer c) (bufferIndex c) (CHR 0x00);
           let (c, e, out, bus) = run_command now (c\<lparr>serialBuffer := buf\<rparr>, e, out, bus);
           Some (c\<lparr>bufferIndex := 0\<rparr>, e, out, bus)
         }
         else if ch \<noteq> CHR 0x0D then
           if bufferIndex c < SERIAL_BUFFER_SIZE - 1 then do {
             buf \<leftarrow> write_at (serialBuffer c) (bufferIndex c) ch;
             Some (c\<lparr>serialBuffer := buf, bufferIndex := bufferIndex c + 1\<rparr>, e, out, bus)
           } else Some (c\<lparr>bufferIndex := 0\<rparr>, e, out, bus)
         else Some st)"

definition parseSerial :: "(char \<times> u32) list \<Rightarrow> parser_state \<Rightarrow> parser_state option" where
  "parseSerial = visit_all parse_char"

section \<open>The invariant of the parser\<close>

definition within_limit :: "real \<Rightarrow> real option \<Rightarrow> bool" where
  "within_limit bound x = (case x of None \<Rightarrow> True | Some v \<Rightarrow> - bound \<le> v \<and> v \<le> bound)"

definition commands_ok :: "commands \<Rightarrow> bool" where
  "commands_ok c \<longleftrightarrow> length (serialBuffer c) = SERIAL_BUFFER_SIZE \<and> bufferIndex c < SERIAL_BUFFER_SIZE \<and>
     within_limit 1 (throttle_cmd c) \<and> within_limit 24 (steer_auto_deg c)"

lemma limit_within: "0 \<le> bound \<Longrightarrow> within_limit bound (limit bound v)"
  by (cases v) (auto simp: limit_def within_limit_def)

lemma run_command_ok:
  assumes "commands_ok c" and "run_command now (c, e, out, bus) = (c', e', out', bus')"
  shows "commands_ok c'" "e' = e" "bus' = bus"
  using assms limit_within [of 1] limit_within [of 24]
  by (auto simp: run_command_def commands_ok_def Let_def split: if_splits)

lemma parse_char_ok:
  assumes "commands_ok c"
  shows "\<exists>c' e' out' bus'. parse_char input (c, e, out, bus) = Some (c', e', out', bus') \<and> commands_ok c'"
proof -
  obtain ch now where i: "input = (ch, now)" by (cases input)
  have w: "write_at (serialBuffer c) (bufferIndex c) x = Some ((serialBuffer c)[bufferIndex c := x])" for x
    using assms by (simp add: write_at_def commands_ok_def)
  obtain c1 e1 o1 b1 where r: "run_command now (c\<lparr>serialBuffer := (serialBuffer c)[bufferIndex c := CHR 0x00]\<rparr>, e, out, bus) = (c1, e1, o1, b1)"
    by (metis prod_cases4)
  have "commands_ok (c\<lparr>serialBuffer := (serialBuffer c)[bufferIndex c := CHR 0x00]\<rparr>)" using assms by (simp add: commands_ok_def)
  then have "commands_ok (c1\<lparr>bufferIndex := 0\<rparr>)" using run_command_ok(1) [OF _ r] by (simp add: commands_ok_def SERIAL_BUFFER_SIZE_def)
  moreover obtain e2 o2 b2 where z: "resetEncoderCount now e = (e2, o2, b2)" by (metis prod_cases3)
  ultimately show ?thesis
    using assms r by (auto simp: parse_char_def i w Let_def commands_ok_def SERIAL_BUFFER_SIZE_def)
qed

lemma parseSerial_ok:
  assumes "commands_ok c"
  shows "\<exists>c' e' out' bus'. parseSerial input (c, e, out, bus) = Some (c', e', out', bus') \<and> commands_ok c'"
  using assms
proof (induction input arbitrary: c e out bus)
  case (Cons i input)
  obtain c1 e1 o1 b1 where "parse_char i (c, e, out, bus) = Some (c1, e1, o1, b1)" "commands_ok c1"
    using parse_char_ok [OF Cons.prems, of i e out bus] by blast
  then show ?case using Cons.IH [of c1 e1 o1 b1] by (simp add: parseSerial_def)
qed (simp add: parseSerial_def)

end
