(* ===== verification/Firmware_Drive.thy ===== *)
theory Firmware_Drive
  imports Firmware_Commands
begin

text \<open>
  The motors, the remote control and the control loop of the firmware (\<open>arduino/mando_ver2/mando_ver2.ino\<close>).
  An operation on the motors gives the writes to the pins in order; what the pins hold is the effect of
  those writes. A \<open>double\<close> that may be not a number is a \<open>real option\<close>, and its conversion to an \<open>int\<close> has
  no result. Interrupt handlers are steps of their own.
\<close>

section \<open>Pins\<close>

datatype pin = DIR1 | PWM1 | DIR2 | PWM2 | DIR3 | PWM3

datatype action = DigitalWrite pin bool | AnalogWrite pin int | DelayMicroseconds nat

text \<open>The level of a pin: 0 or 1 after \<open>digitalWrite\<close>, the duty of its PWM after \<open>analogWrite\<close>.\<close>

type_synonym pins = "pin \<Rightarrow> int"

fun act :: "action \<Rightarrow> pins \<Rightarrow> pins" where
  "act (DigitalWrite p high) s = s(p := (if high then 1 else 0))"
| "act (AnalogWrite p v) s = s(p := v)"
| "act (DelayMicroseconds n) s = s"

definition act_all :: "action list \<Rightarrow> pins \<Rightarrow> pins" where
  "act_all as s = fold act as s"

section \<open>Numbers\<close>

definition constrain :: "real \<Rightarrow> real \<Rightarrow> real \<Rightarrow> real" where
  "constrain amt low high = (if amt < low then low else if amt > high then high else amt)"

definition Mapping :: "real \<Rightarrow> real \<Rightarrow> real \<Rightarrow> real \<Rightarrow> real \<Rightarrow> real" where
  "Mapping x in_min in_max out_min out_max = (x - in_min) * (out_max - out_min) / (in_max - in_min) + out_min"

definition applyDeadband :: "real \<Rightarrow> real \<Rightarrow> real" where
  "applyDeadband x band = (if \<bar>x\<bar> < band then 0 else x)"

definition clampFloat :: "real \<Rightarrow> real \<Rightarrow> real \<Rightarrow> real" where
  "clampFloat x low high = (if x < low then low else if x > high then high else x)"

definition clampDouble :: "real \<Rightarrow> real \<Rightarrow> real \<Rightarrow> real" where
  "clampDouble x low high = (if x < low then low else if x > high then high else x)"

text \<open>The conversion to the 16-bit \<open>int\<close> of the controller.\<close>

definition to_int16 :: "real \<Rightarrow> int option" where
  "to_int16 x = (if - (2 ^ 15) - 1 < x \<and> x < 2 ^ 15 then Some (trunc x) else None)"

definition normalizeSteerPulse :: "int \<Rightarrow> real" where
  "normalizeSteerPulse pulse_us =
     (if pulse_us > 1525 then clampFloat (real_of_int (pulse_us - 1525) / (1792 - 1525)) 0 1
      else if pulse_us < 1475 then clampFloat (real_of_int (pulse_us - 1475) / (1475 - 1280)) (-1) 0
      else 0)"

section \<open>The steering motor\<close>

definition STEER_MIN_PWM :: int where "STEER_MIN_PWM = 35"

text \<open>A command that is not a number passes every comparison as false and reaches the conversion.\<close>

definition Steer :: "real option \<Rightarrow> action list option" where
  "Steer u = (case map_option (\<lambda>u. constrain u (-1) 1) u of
     None \<Rightarrow> None
   | Some u \<Rightarrow>
       if \<bar>u\<bar> < 0.10 then Some [AnalogWrite PWM3 0, DigitalWrite DIR3 False]
       else do {
         pwm_val \<leftarrow> to_int16 (\<bar>u\<bar> * 255 * 0.80 * 0.60);
         let pwm_val = (if pwm_val < 0 then 0 else if pwm_val > 255 then 255 else pwm_val);
         let pwm_val = (if pwm_val > 0 \<and> pwm_val < STEER_MIN_PWM then STEER_MIN_PWM else pwm_val);
         Some [DigitalWrite DIR3 (u > 0), AnalogWrite PWM3 pwm_val]
       })"

text \<open>The static variables of \<open>PID\<close>.\<close>

record pid =
  prev_err :: "real option"
  integral :: "real option"

definition pid_globals :: pid where
  "pid_globals = \<lparr>prev_err = Some 0, integral = Some 0\<rparr>"

definition seconds :: "u32 \<Rightarrow> real" where
  "seconds dt_us = (let dt_s = real (unat dt_us) / 10 ^ 6 in if dt_s \<le> 0 then 1 / 10 ^ 6 else dt_s)"

definition PID :: "real option \<Rightarrow> real \<Rightarrow> u32 \<Rightarrow> pid \<Rightarrow> real option \<times> pid" where
  "PID ref sense dt_us s =
     (let dt_s = seconds dt_us; err = map_option (\<lambda>r. r - sense) ref
      in if (case err of Some e \<Rightarrow> \<bar>e\<bar> < 0.8 | None \<Rightarrow> False)
         then (Some 0, s\<lparr>integral := Some 0, prev_err := err\<rparr>)
         else
           (let integ = do { i \<leftarrow> integral s; e \<leftarrow> err; Some (clampDouble (i + e * dt_s) (-80) 80) };
                out = do { e \<leftarrow> err; i \<leftarrow> integ; p \<leftarrow> prev_err s; Some (0.05 * e + 0 * i + 0.001 * (e - p) / dt_s) }
            in (out, s\<lparr>integral := integ, prev_err := err\<rparr>)))"

text \<open>The two lines after each call of \<open>PID\<close>.\<close>

definition shape_output :: "real option \<Rightarrow> real option" where
  "shape_output u = map_option (\<lambda>u. constrain (applyDeadband u 0.10) (-1) 1) u"

section \<open>The drive motors\<close>

definition SIGNAL_THRESHOLD :: real where "SIGNAL_THRESHOLD = 0.05"

definition sign_of :: "real option \<Rightarrow> int" where
  "sign_of cmd = (case cmd of None \<Rightarrow> 0 | Some c \<Rightarrow> if c > 0 then 1 else if c < 0 then -1 else 0)"

definition driveWithDeadtime :: "real option \<Rightarrow> int \<Rightarrow> (action list \<times> int) option" where
  "driveWithDeadtime cmd last_dir_sign =
     (let cmd = map_option (\<lambda>c. constrain c (-1) 1) cmd; dir_sign = sign_of cmd
      in case cmd of
           None \<Rightarrow> Some ([AnalogWrite PWM1 0, AnalogWrite PWM2 0], 0)
         | Some c \<Rightarrow>
             if \<bar>c\<bar> < SIGNAL_THRESHOLD \<or> dir_sign = 0 then Some ([AnalogWrite PWM1 0, AnalogWrite PWM2 0], 0)
             else do {
               let stop = (if last_dir_sign \<noteq> 0 \<and> dir_sign \<noteq> last_dir_sign
                 then [AnalogWrite PWM1 0, AnalogWrite PWM2 0, DelayMicroseconds 200] else []);
               inn \<leftarrow> to_int16 (Mapping \<bar>c\<bar> 0 1 0 250);
               Some (stop @ [DigitalWrite DIR1 (dir_sign > 0), DigitalWrite DIR2 (\<not> dir_sign > 0),
                 AnalogWrite PWM1 inn, AnalogWrite PWM2 inn], dir_sign)
             })"

definition StopMotor :: "action list" where
  "StopMotor = [DigitalWrite DIR1 True, AnalogWrite PWM1 0, DigitalWrite DIR2 True, AnalogWrite PWM2 0,
     DigitalWrite DIR3 False, AnalogWrite PWM3 0]"

text \<open>The duty of \<open>MoveForward\<close> and \<open>MoveBackward\<close>.\<close>

definition move_duty :: "real \<Rightarrow> int option" where
  "move_duty throttle =
     (let throttle = (if throttle > 1 then 1 else if throttle < 0 then 0 else throttle)
      in do { inn \<leftarrow> to_int16 (Mapping throttle 0 1 0 250); Some (if throttle < 0.01 then 0 else inn) })"

definition MoveForward :: "real \<Rightarrow> action list option" where
  "MoveForward throttle = do {
     inn \<leftarrow> move_duty throttle;
     Some [DigitalWrite DIR1 True, AnalogWrite PWM1 inn, DigitalWrite DIR2 False, AnalogWrite PWM2 inn]
   }"

definition MoveBackward :: "real \<Rightarrow> action list option" where
  "MoveBackward throttle = do {
     inn \<leftarrow> move_duty throttle;
     Some [DigitalWrite DIR1 False, AnalogWrite PWM1 inn, DigitalWrite DIR2 True, AnalogWrite PWM2 inn]
   }"

section \<open>Centring the steering\<close>

definition steer_degrees :: "int \<Rightarrow> real" where
  "steer_degrees pot = Mapping (real_of_int pot) 0 1021 24 (-24)"

definition center_command :: "real \<Rightarrow> real" where
  "center_command err =
     (let u = constrain (constrain (err / 24) (-1) 1 * 0.6) (-0.6) 0.6
      in if \<bar>u\<bar> < 0.12 then (if u > 0 then 0.12 else -0.12) else u)"

text \<open>
  One pass of the loop: the clock when its condition is tested and the potentiometer. The list holds the readings
  of all passes; a list that ends before the loop does gives \<open>None\<close>.
\<close>

fun center_loop :: "u32 \<Rightarrow> (u32 \<times> int) list \<Rightarrow> action list option" where
  "center_loop t0 [] = None"
| "center_loop t0 ((now, pot) # rs) =
     (if \<not> now - t0 < 1200 then Some []
      else
        (let err = 0 - steer_degrees pot
         in if \<bar>err\<bar> \<le> 3 then Some [DigitalWrite DIR3 False, AnalogWrite PWM3 0]
            else do {
              turn \<leftarrow> Steer (Some (center_command err));
              later \<leftarrow> center_loop t0 rs;
              Some (turn @ DelayMicroseconds 10000 # later)
            }))"

definition CenterSteeringOnce :: "u32 \<Rightarrow> (u32 \<times> int) list \<Rightarrow> action list option" where
  "CenterSteeringOnce t0 rs = do {
     as \<leftarrow> center_loop t0 rs;
     stop \<leftarrow> Steer (Some 0);
     Some (as @ stop)
   }"

section \<open>The remote control\<close>

record pulses =
  steer_rise_us :: u32
  accel_rise_us :: u32
  manual_rise_us :: u32
  auto_rise_us :: u32
  Steering_us :: u16
  Accel_us :: u16
  Manual_us :: u16
  Auto_us :: u16
  accel_last_us :: u32
  steer_last_us :: u32
  manual_last_us :: u32
  auto_last_us :: u32

definition pulses_globals :: pulses where
  "pulses_globals = \<lparr>steer_rise_us = 0, accel_rise_us = 0, manual_rise_us = 0, auto_rise_us = 0, Steering_us = 1500,
     Accel_us = 1500, Manual_us = 1000, Auto_us = 1000, accel_last_us = 0, steer_last_us = 0, manual_last_us = 0,
     auto_last_us = 0\<rparr>"

text \<open>The width of a pulse that ends now, if it is one the remote control sends.\<close>

definition pulse_width :: "u32 \<Rightarrow> u32 \<Rightarrow> u16 option" where
  "pulse_width now rise = (let w = now - rise in if w \<ge> 500 \<and> w \<le> 2500 then Some (ucast w) else None)"

definition SteeringPulseInt :: "u32 \<Rightarrow> bool \<Rightarrow> pulses \<Rightarrow> pulses" where
  "SteeringPulseInt now high s =
     (if high then s\<lparr>steer_rise_us := now\<rparr>
      else case pulse_width now (steer_rise_us s) of
        Some w \<Rightarrow> s\<lparr>Steering_us := w, steer_last_us := now\<rparr> | None \<Rightarrow> s)"

definition AccelPulseInt :: "u32 \<Rightarrow> bool \<Rightarrow> pulses \<Rightarrow> pulses" where
  "AccelPulseInt now high s =
     (if high then s\<lparr>accel_rise_us := now\<rparr>
      else case pulse_width now (accel_rise_us s) of
        Some w \<Rightarrow> s\<lparr>Accel_us := w, accel_last_us := now\<rparr> | None \<Rightarrow> s)"

definition ManualPulseInt :: "u32 \<Rightarrow> bool \<Rightarrow> pulses \<Rightarrow> pulses" where
  "ManualPulseInt now high s =
     (if high then s\<lparr>manual_rise_us := now\<rparr>
      else case pulse_width now (manual_rise_us s) of
        Some w \<Rightarrow> s\<lparr>Manual_us := w, manual_last_us := now\<rparr> | None \<Rightarrow> s)"

definition AutoPulseInt :: "u32 \<Rightarrow> bool \<Rightarrow> pulses \<Rightarrow> pulses" where
  "AutoPulseInt now high s =
     (if high then s\<lparr>auto_rise_us := now\<rparr>
      else case pulse_width now (auto_rise_us s) of
        Some w \<Rightarrow> s\<lparr>Auto_us := w, auto_last_us := now\<rparr> | None \<Rightarrow> s)"

text \<open>An interrupt with the clock and the level of the pin in its handler.\<close>

datatype interrupt = SteeringEdge u32 bool | AccelEdge u32 bool | ManualEdge u32 bool | AutoEdge u32 bool

fun handle :: "interrupt \<Rightarrow> pulses \<Rightarrow> pulses" where
  "handle (SteeringEdge now high) s = SteeringPulseInt now high s"
| "handle (AccelEdge now high) s = AccelPulseInt now high s"
| "handle (ManualEdge now high) s = ManualPulseInt now high s"
| "handle (AutoEdge now high) s = AutoPulseInt now high s"

section \<open>The loop\<close>

datatype mode = BREAK_MODE | MANUAL_MODE | AUTO_MODE

definition mode_of :: "pulses \<Rightarrow> mode" where
  "mode_of s = (if Auto_us s > 1600 then AUTO_MODE else if Manual_us s > 1600 then MANUAL_MODE else BREAK_MODE)"

definition throttle_input :: "u32 \<Rightarrow> pulses \<Rightarrow> real" where
  "throttle_input t_us s =
     (let accel = (if t_us - accel_last_us s > 30000 then 1500 else int (unat (Accel_us s)));
          t = (if accel > 1550 then real_of_int (accel - 1500) / (1804 - 1500)
               else if accel < 1450 then real_of_int (accel - 1500) / (1500 - 1104) else 0)
      in constrain t (-1) 1)"

definition rc_steer_degrees :: "pulses \<Rightarrow> real" where
  "rc_steer_degrees s = Mapping (applyDeadband (normalizeSteerPulse (int (unat (Steering_us s)))) 0.1) (-1) 1 24 (-24)"

text \<open>The static variables of \<open>loop\<close>; the filters hold their value once they have one.\<close>

record loop_statics =
  prev_t_us :: u32
  deg_filtered :: "real option"
  steer_rate :: "(real \<times> real) option"

record sketch =
  cmd :: commands
  enc :: encoder
  rc :: pulses
  pid_state :: pid
  last_dir_sign :: int
  statics :: loop_statics

definition fresh :: "bool \<Rightarrow> u32 \<Rightarrow> u32 \<Rightarrow> bool" where
  "fresh seen now last_ms \<longleftrightarrow> seen \<and> now - last_ms \<le> 500"

definition filter_degrees :: "real \<Rightarrow> real option \<Rightarrow> real" where
  "filter_degrees raw_deg f = (case f of None \<Rightarrow> raw_deg | Some d \<Rightarrow> d + 0.20 * (raw_deg - d))"

text \<open>The previous angle and the filtered rate of turning.\<close>

definition filter_rate :: "real \<Rightarrow> real \<Rightarrow> (real \<times> real) option \<Rightarrow> real \<times> real" where
  "filter_rate raw_deg dt_s f = (case f of
     None \<Rightarrow> (raw_deg, 0)
   | Some (prev_raw_deg, rate) \<Rightarrow> (raw_deg, rate + 0.25 * ((raw_deg - prev_raw_deg) / dt_s - rate)))"

text \<open>What the loop reads in one pass: the bytes received, the counter, the clock at each call, the pins, and the
  interrupts that come between reading \<open>micros\<close> and copying the pulses.\<close>

record inputs =
  in_serial :: "(char \<times> u32) list"
  in_counter :: "u8 \<times> u8 \<times> u8 \<times> u8"
  in_guard_ms :: u32
  in_csv_ms :: u32
  in_tx_space :: int
  in_csv_pot :: int
  in_micros :: u32
  in_interrupts :: "interrupt list"
  in_pot :: int
  in_sa_ms :: u32
  in_th_ms :: u32

text \<open>Driving by hand: pushing the stick forward is driving backward.\<close>

definition manual_move :: "real \<Rightarrow> action list option" where
  "manual_move Throttle_input =
     (if Throttle_input > 0.05 then MoveBackward (Throttle_input * 0.6)
      else if Throttle_input < -0.05 then MoveForward (- Throttle_input * 0.6)
      else Some [AnalogWrite PWM1 0, AnalogWrite PWM2 0])"

text \<open>The motors at the end of the pass.\<close>

definition drive_motors ::
  "mode \<Rightarrow> bool \<Rightarrow> bool \<Rightarrow> real \<Rightarrow> real option \<Rightarrow> real option \<Rightarrow> real option \<Rightarrow> int \<Rightarrow> (action list \<times> int) option" where
  "drive_motors Mode_val th_ok sa_ok Throttle_input throttle u_auto u_rc dir =
     (case Mode_val of
        BREAK_MODE \<Rightarrow> Some (StopMotor, dir)
      | MANUAL_MODE \<Rightarrow> do {
          move \<leftarrow> manual_move Throttle_input;
          turn \<leftarrow> Steer u_rc;
          Some (move @ turn, dir)
        }
      | AUTO_MODE \<Rightarrow> do {
          (move, dir) \<leftarrow> driveWithDeadtime (if th_ok then throttle else Some 0) dir;
          turn \<leftarrow> Steer (if sa_ok then u_auto else u_rc);
          Some (move @ turn, dir)
        })"

text \<open>The time since the last pass and the angle of the tyres.\<close>

definition elapsed_us :: "inputs \<Rightarrow> sketch \<Rightarrow> u32" where
  "elapsed_us i s = (if prev_t_us (statics s) = 0 then 1000 else in_micros i - prev_t_us (statics s))"

definition measured_degrees :: "inputs \<Rightarrow> sketch \<Rightarrow> real" where
  "measured_degrees i s = filter_degrees (steer_degrees (in_pot i)) (deg_filtered (statics s))"

definition sa_ok :: "inputs \<Rightarrow> sketch \<Rightarrow> bool" where
  "sa_ok i s \<longleftrightarrow> fresh (steerFresh (cmd s)) (in_sa_ms i) (lastSteerMs (cmd s))"

definition th_ok :: "inputs \<Rightarrow> sketch \<Rightarrow> bool" where
  "th_ok i s \<longleftrightarrow> fresh (throttleFresh (cmd s)) (in_th_ms i) (lastThrottleMs (cmd s))"

definition auto_steering :: "inputs \<Rightarrow> sketch \<Rightarrow> bool" where
  "auto_steering i s \<longleftrightarrow> mode_of (rc s) = AUTO_MODE \<and> sa_ok i s"

text \<open>The one call of \<open>PID\<close>, shaped, and its state.\<close>

definition steering_output :: "inputs \<Rightarrow> sketch \<Rightarrow> real option \<times> pid" where
  "steering_output i s =
     (let (u, q) = PID (if auto_steering i s then steer_auto_deg (cmd s) else Some (rc_steer_degrees (rc s)))
            (measured_degrees i s) (elapsed_us i s) (pid_state s)
      in (shape_output u, q))"

text \<open>The control part of the pass, once two milliseconds have passed since the last.\<close>

definition control :: "inputs \<Rightarrow> sketch \<Rightarrow> (action list \<times> sketch) option" where
  "control i s =
     (let s = s\<lparr>rc := fold handle (in_interrupts i) (rc s)\<rparr>;
          rate = filter_rate (steer_degrees (in_pot i)) (seconds (elapsed_us i s)) (steer_rate (statics s));
          (u, q) = steering_output i s
      in do {
        (as, dir) \<leftarrow> drive_motors (mode_of (rc s)) (th_ok i s) (sa_ok i s) (throttle_input (in_micros i) (rc s)) (throttle_cmd (cmd s))
          (if auto_steering i s then u else Some 0) (if auto_steering i s then Some 0 else u) (last_dir_sign s);
        Some (as, s\<lparr>pid_state := q, last_dir_sign := dir,
          statics := \<lparr>prev_t_us = in_micros i, deg_filtered = Some (measured_degrees i s), steer_rate = Some rate\<rparr>\<rparr>)
      })"

definition loop_pass :: "inputs \<Rightarrow> sketch \<Rightarrow> (action list \<times> line list \<times> spi \<times> sketch) option" where
  "loop_pass i s = do {
     (c, e, out, bus) \<leftarrow> parseSerial (in_serial i) (cmd s, enc s, [], []);
     (guarded, e) \<leftarrow> updateEncoderFaultGuard (ls7366rReadCounter (in_counter i)) (in_guard_ms i) e;
     (csv, e) \<leftarrow> printEncoderCsv (in_csv_ms i) (in_tx_space i) (in_csv_pot i) guarded (e\<lparr>encoderCount := guarded\<rparr>);
     let s = s\<lparr>cmd := c, enc := e\<rparr>;
     (if prev_t_us (statics s) \<noteq> 0 \<and> in_micros i - prev_t_us (statics s) < 2000 then Some ([], out @ csv, bus, s)
      else do {
        (as, s) \<leftarrow> control i s;
        Some (as, out @ csv, bus, s)
      })
   }"

text \<open>\<open>setup\<close>: the chip, the motors off, the steering centred, the guard started at the first count.\<close>

definition setup_sketch :: "u32 \<Rightarrow> (u32 \<times> int) list \<Rightarrow> u8 \<times> u8 \<times> u8 \<times> u8 \<Rightarrow> u32 \<Rightarrow> (action list \<times> spi \<times> sketch) option" where
  "setup_sketch t0 rs counter now = do {
     center \<leftarrow> CenterSteeringOnce t0 rs;
     let count = ls7366rReadCounter counter;
     Some (StopMotor @ [DigitalWrite DIR3 False, AnalogWrite PWM3 0] @ center, ls7366rBegin,
       \<lparr>cmd = commands_globals,
        enc = resetEncoderFaultGuard count now (encoder_globals\<lparr>encoderCount := count, encoderTimeZeroMs := now, encoderCsvPrevMs := now\<rparr>),
        rc = pulses_globals, pid_state = pid_globals, last_dir_sign = 0,
        statics = \<lparr>prev_t_us = 0, deg_filtered = None, steer_rate = None\<rparr>\<rparr>)
   }"

end
