(* ===== verification/Firmware_Properties.thy ===== *)
theory Firmware_Properties
  imports Firmware_Drive
begin

text \<open>Properties of the firmware: its commands, its encoder stream, its motors and its control loop.\<close>

section \<open>Commands\<close>

text \<open>C21: whatever bytes arrive, the parser stays inside its buffer, and every command that is a number inside its limits (NaN,
  which the comparisons let through, is the one exception): from the state at power-up, and from any state it leaves behind,
  every byte sequence is handled.\<close>

theorem serial_commands_safe:
  assumes "commands_ok c"
  shows "commands_ok commands_globals \<and>
    (\<exists>c' e' out' bus'. parseSerial input (c, e, out, bus) = Some (c', e', out', bus') \<and>
      length (serialBuffer c') = SERIAL_BUFFER_SIZE \<and> bufferIndex c' < SERIAL_BUFFER_SIZE \<and>
      (\<forall>v. throttle_cmd c' = Some v \<longrightarrow> -1 \<le> v \<and> v \<le> 1) \<and> (\<forall>v. steer_auto_deg c' = Some v \<longrightarrow> -24 \<le> v \<and> v \<le> 24))"
proof -
  obtain c' e' out' bus' where "parseSerial input (c, e, out, bus) = Some (c', e', out', bus')" "commands_ok c'"
    using parseSerial_ok [OF assms] by blast
  moreover have "commands_ok commands_globals"
    by (simp add: commands_ok_def commands_globals_def SERIAL_BUFFER_SIZE_def within_limit_def)
  ultimately show ?thesis by (auto simp: commands_ok_def within_limit_def)
qed

theorem serial_commands_safe_witness:
  "\<exists>c' e' out' bus'. parseSerial (replicate 100 (CHR ''x'', 7)) (commands_globals, encoder_globals, [], []) = Some (c', e', out', bus') \<and>
    bufferIndex c' < SERIAL_BUFFER_SIZE"
proof -
  have "commands_ok commands_globals"
    by (simp add: commands_ok_def commands_globals_def SERIAL_BUFFER_SIZE_def within_limit_def)
  from serial_commands_safe [OF this, of "replicate 100 (CHR ''x'', 7)" encoder_globals "[]" "[]"] show ?thesis by blast
qed

text \<open>Bytes that are stored as they are.\<close>

definition plain :: "char \<Rightarrow> bool" where
  "plain c \<longleftrightarrow> c \<noteq> CHR 0x0A \<and> c \<noteq> CHR 0x0D \<and> c \<noteq> CHR 0x00"

lemma parse_plain:
  assumes "commands_ok c" and "\<forall>x \<in> set s. plain x" and "bufferIndex c + length s < SERIAL_BUFFER_SIZE"
    and "bufferIndex c = 0 \<longrightarrow> s = [] \<or> hd s \<notin> {CHR ''r'', CHR ''R''}"
  shows "\<exists>buf. parseSerial (map (\<lambda>x. (x, now)) s) (c, e, out, bus) =
      Some (c\<lparr>serialBuffer := buf, bufferIndex := bufferIndex c + length s\<rparr>, e, out, bus) \<and>
    length buf = SERIAL_BUFFER_SIZE \<and> take (bufferIndex c + length s) buf = take (bufferIndex c) (serialBuffer c) @ s"
  using assms
proof (induction s arbitrary: c)
  case Nil
  then show ?case by (intro exI [of _ "serialBuffer c"]) (simp add: parseSerial_def commands_ok_def)
next
  case (Cons x s)
  let ?n = "bufferIndex c" and ?buf = "(serialBuffer c)[bufferIndex c := x]"
  let ?c = "c\<lparr>serialBuffer := ?buf, bufferIndex := ?n + 1\<rparr>"
  have n: "?n < SERIAL_BUFFER_SIZE - 1" "?n < length (serialBuffer c)"
    using Cons.prems(1,3) by (simp_all add: commands_ok_def SERIAL_BUFFER_SIZE_def)
  have step: "parse_char (x, now) (c, e, out, bus) = Some (?c, e, out, bus)"
    using Cons.prems(2,4) n by (auto simp: parse_char_def plain_def write_at_def Let_def)
  have "commands_ok ?c" using Cons.prems(1,3) by (simp add: commands_ok_def)
  then obtain buf where b: "parseSerial (map (\<lambda>x. (x, now)) s) (?c, e, out, bus) =
      Some (?c\<lparr>serialBuffer := buf, bufferIndex := bufferIndex ?c + length s\<rparr>, e, out, bus)"
    "length buf = SERIAL_BUFFER_SIZE" "take (bufferIndex ?c + length s) buf = take (bufferIndex ?c) (serialBuffer ?c) @ s"
    using Cons.IH [of ?c] Cons.prems(2,3) by auto
  have "take (?n + 1) ?buf = take ?n (serialBuffer c) @ [x]" using n(2) by (simp add: take_Suc_conv_app_nth)
  then show ?case using b step by (intro exI [of _ buf]) (simp add: parseSerial_def)
qed

lemma parse_append:
  "parseSerial (xs @ ys) st = (case parseSerial xs st of None \<Rightarrow> None | Some st \<Rightarrow> parseSerial ys st)"
  unfolding parseSerial_def by (induction xs arbitrary: st) (auto split: option.splits)

text \<open>A line of such bytes is run as the command it spells.\<close>

lemma parse_line:
  assumes "commands_ok c" and "bufferIndex c = 0" and "\<forall>x \<in> set s. plain x" and "length s < SERIAL_BUFFER_SIZE"
    and "s = [] \<or> hd s \<notin> {CHR ''r'', CHR ''R''}"
  shows "\<exists>buf c' e' out' bus'. length buf = SERIAL_BUFFER_SIZE \<and> c_string buf = s \<and>
    run_command now (c\<lparr>bufferIndex := length s, serialBuffer := buf\<rparr>, e, out, bus) = (c', e', out', bus') \<and>
    parseSerial (map (\<lambda>x. (x, now)) (s @ [CHR 0x0A])) (c, e, out, bus) = Some (c'\<lparr>bufferIndex := 0\<rparr>, e', out', bus')"
proof -
  obtain buf where b: "parseSerial (map (\<lambda>x. (x, now)) s) (c, e, out, bus) =
      Some (c\<lparr>serialBuffer := buf, bufferIndex := length s\<rparr>, e, out, bus)"
    "length buf = SERIAL_BUFFER_SIZE" "take (length s) buf = s"
    using parse_plain [OF assms(1,3), of now e out bus] assms(2,4,5) by auto
  let ?buf = "buf[length s := CHR 0x00]"
  have "c_string ?buf = takeWhile (\<lambda>c. c \<noteq> CHR 0x00) (take (length s) ?buf @ drop (length s) ?buf)"
    unfolding c_string_def append_take_drop_id by (rule refl)
  also have "\<dots> = takeWhile (\<lambda>c. c \<noteq> CHR 0x00) (s @ CHR 0x00 # drop (Suc (length s)) buf)"
    using b(2,3) assms(4) by (simp add: drop_update_cancel Cons_nth_drop_Suc [symmetric])
  also have "\<dots> = s" using assms(3) by (subst takeWhile_append2) (auto simp: plain_def)
  finally have str: "c_string ?buf = s" .
  obtain c' e' out' bus' where r: "run_command now (c\<lparr>bufferIndex := length s, serialBuffer := ?buf\<rparr>, e, out, bus) = (c', e', out', bus')"
    by (metis prod_cases4)
  have "parse_char (CHR 0x0A, now) (c\<lparr>serialBuffer := buf, bufferIndex := length s\<rparr>, e, out, bus) =
    Some (c'\<lparr>bufferIndex := 0\<rparr>, e', out', bus')"
    using r b(2) assms(4) by (simp add: parse_char_def write_at_def)
  then have "parseSerial (map (\<lambda>x. (x, now)) (s @ [CHR 0x0A])) (c, e, out, bus) = Some (c'\<lparr>bufferIndex := 0\<rparr>, e', out', bus')"
    using b(1) by (simp add: parse_append) (simp add: parseSerial_def)
  then show ?thesis using str r b(2)
    by (intro exI [of _ ?buf] exI [of _ c'] exI [of _ e'] exI [of _ out'] exI [of _ bus']) simp
qed

text \<open>Decimal numbers.\<close>

lemma digits_value_append: "digits_value (xs @ [c]) = 10 * digits_value xs + (of_char c - 48)"
  by (simp add: digits_value_def)

definition decimal :: "bool \<Rightarrow> string \<Rightarrow> string \<Rightarrow> string" where
  "decimal neg whole part = (if neg then ''-'' else []) @ whole @ CHR ''.'' # part"

definition decimal_value :: "bool \<Rightarrow> string \<Rightarrow> string \<Rightarrow> real" where
  "decimal_value neg whole part =
     (let v = real (digits_value (whole @ part)) / 10 ^ length part in if neg then - v else v)"

lemma atof_decimal:
  assumes "whole \<noteq> []" and "\<forall>c \<in> set (whole @ part). is_digit c"
  shows "atof (decimal neg whole part) = Finite (decimal_value neg whole part)"
proof -
  obtain d ds where w: "whole = d # ds" using assms(1) by (cases whole) auto
  have d: "is_digit d" using assms(2) w by simp
  have not: "d \<noteq> CHR ''-''" "d \<noteq> CHR ''+''" "\<not> is_space d" "\<not> is_digit (CHR ''.'')" "\<not> is_space (CHR ''-'')"
    using d by (auto simp: is_digit_def is_space_def)
  have words: "\<not> starts_with_word ''inf'' (d # s)" "\<not> starts_with_word ''nan'' (d # s)" for s
    using d by (auto simp: starts_with_word_def is_digit_def)
  then have words': "\<not> starts_with_word ''inf'' (whole @ CHR ''.'' # part)" "\<not> starts_with_word ''nan'' (whole @ CHR ''.'' # part)"
    using w by simp_all
  have sign: "take_sign (dropWhile is_space (decimal neg whole part)) = (neg, whole @ CHR ''.'' # part)"
    using not w by (cases neg) (simp_all add: decimal_def take_sign_def)
  have tw: "takeWhile is_digit (whole @ CHR ''.'' # part) = whole" "dropWhile is_digit (whole @ CHR ''.'' # part) = CHR ''.'' # part"
    using assms(2) not(4) by (simp_all add: takeWhile_append2 dropWhile_append2)
  have tp: "takeWhile is_digit part = part" "dropWhile is_digit part = []"
    using assms(2) by (simp_all add: takeWhile_eq_all_conv dropWhile_eq_Nil_conv)
  have v: "(if 0 \<le> - int (length part) then 10 ^ nat (- int (length part)) else 1 / 10 ^ nat (- (- int (length part)))) =
    1 / (10 :: real) ^ length part" by (cases part) (simp_all add: nat_add_distrib)
  have "atof (decimal neg whole part) =
    Finite (if neg then - (real (digits_value (whole @ part)) * (1 / 10 ^ length part)) else real (digits_value (whole @ part)) * (1 / 10 ^ length part))"
    unfolding atof_def Let_def sign prod.case tw using words'
    by (simp add: exponent_def tp v del: takeWhile_eq_all_conv dropWhile_eq_Nil_conv)
  then show ?thesis by (simp add: decimal_value_def Let_def)
qed

lemma command_lines:
  assumes "commands_ok c" and "bufferIndex c = 0" and "whole \<noteq> []" and "\<forall>d \<in> set (whole @ part). is_digit d"
    and "length whole + length part < 40" and "v = decimal_value neg whole part"
  shows "(\<exists>buf. parseSerial (map (\<lambda>x. (x, now)) (''TH '' @ decimal neg whole part @ [CHR 0x0A])) (c, e, out, bus) =
      Some (c\<lparr>serialBuffer := buf, throttle_cmd := Some (max (-1) (min 1 v)), throttleFresh := True, lastThrottleMs := now\<rparr>, e, out, bus)) \<and>
    (\<exists>buf. parseSerial (map (\<lambda>x. (x, now)) (''SA '' @ decimal neg whole part @ [CHR 0x0A])) (c, e, out, bus) =
      Some (c\<lparr>serialBuffer := buf, steer_auto_deg := Some (max (-24) (min 24 v)), steerFresh := True, lastSteerMs := now\<rparr>, e, out, bus))"
proof -
  let ?num = "decimal neg whole part"
  have digit: "plain d" if "is_digit d" for d using that by (auto simp: plain_def is_digit_def)
  have num: "\<forall>x \<in> set ?num. plain x" "length ?num < 43"
    using assms(4,5) digit by (auto simp: decimal_def plain_def)
  obtain d ds where w: "whole = d # ds" using assms(3) by (cases whole) auto
  have "is_digit d" using assms(4) w by simp
  then have skip: "skip_blanks (CHR '' '' # ?num) = ?num"
    by (auto simp: skip_blanks_def decimal_def w is_digit_def)
  have th: "\<forall>x \<in> set (''TH '' @ ?num). plain x" "length (''TH '' @ ?num) < SERIAL_BUFFER_SIZE"
    "''TH '' @ ?num = [] \<or> hd (''TH '' @ ?num) \<notin> {CHR ''r'', CHR ''R''}"
    and sa: "\<forall>x \<in> set (''SA '' @ ?num). plain x" "length (''SA '' @ ?num) < SERIAL_BUFFER_SIZE"
    "''SA '' @ ?num = [] \<or> hd (''SA '' @ ?num) \<notin> {CHR ''r'', CHR ''R''}"
    using num by (auto simp: SERIAL_BUFFER_SIZE_def plain_def)
  have lim: "limit bound (atof ?num) = Some (max (- bound) (min bound v))" if "0 \<le> bound" for bound
    using that by (simp add: atof_decimal [OF assms(3,4)] limit_def assms(6) min_def max_def)
  obtain buf c1 e1 o1 b1 where t: "c_string buf = ''TH '' @ ?num"
    "run_command now (c\<lparr>bufferIndex := length (''TH '' @ ?num), serialBuffer := buf\<rparr>, e, out, bus) = (c1, e1, o1, b1)"
    "parseSerial (map (\<lambda>x. (x, now)) ((''TH '' @ ?num) @ [CHR 0x0A])) (c, e, out, bus) = Some (c1\<lparr>bufferIndex := 0\<rparr>, e1, o1, b1)"
    using parse_line [OF assms(1,2) th, of now e out bus] by blast
  have "(c1\<lparr>bufferIndex := 0\<rparr>, e1, o1, b1) =
    (c\<lparr>serialBuffer := buf, throttle_cmd := Some (max (-1) (min 1 v)), throttleFresh := True, lastThrottleMs := now\<rparr>, e, out, bus)"
    using t(1,2) assms(2) skip lim [of 1] by (auto simp: run_command_def Let_def)
  note TH = t(3) [unfolded this]
  obtain buf' c1 e1 o1 b1 where t: "c_string buf' = ''SA '' @ ?num"
    "run_command now (c\<lparr>bufferIndex := length (''SA '' @ ?num), serialBuffer := buf'\<rparr>, e, out, bus) = (c1, e1, o1, b1)"
    "parseSerial (map (\<lambda>x. (x, now)) ((''SA '' @ ?num) @ [CHR 0x0A])) (c, e, out, bus) = Some (c1\<lparr>bufferIndex := 0\<rparr>, e1, o1, b1)"
    using parse_line [OF assms(1,2) sa, of now e out bus] by blast
  have "(c1\<lparr>bufferIndex := 0\<rparr>, e1, o1, b1) =
    (c\<lparr>serialBuffer := buf', steer_auto_deg := Some (max (-24) (min 24 v)), steerFresh := True, lastSteerMs := now\<rparr>, e, out, bus)"
    using t(1,2) assms(2) skip lim [of 24] by (auto simp: run_command_def Let_def)
  note SA = t(3) [unfolded this]
  show ?thesis using TH SA unfolding append_assoc by blast
qed

text \<open>C12: the commands of the bridge are understood: between two lines, a line \<open>TH\<close> or \<open>SA\<close> with a decimal number that fits the
  buffer sets the throttle or the steering angle to that number, cut to the limits, makes it fresh with the time the
  line ended, changes nothing else the loop uses and leaves the parser ready for the next line.\<close>

theorem commands_understood:
  assumes "commands_ok c" and "bufferIndex c = 0" and "whole \<noteq> []" and "\<forall>d \<in> set (whole @ part). is_digit d"
    and "length whole + length part < 40" and "v = decimal_value neg whole part"
  shows "(\<exists>buf. parseSerial (map (\<lambda>x. (x, now)) (''TH '' @ decimal neg whole part @ [CHR 0x0A])) (c, e, out, bus) =
      Some (c\<lparr>serialBuffer := buf, throttle_cmd := Some (max (-1) (min 1 v)), throttleFresh := True, lastThrottleMs := now\<rparr>, e, out, bus)) \<and>
    (\<exists>buf. parseSerial (map (\<lambda>x. (x, now)) (''SA '' @ decimal neg whole part @ [CHR 0x0A])) (c, e, out, bus) =
      Some (c\<lparr>serialBuffer := buf, steer_auto_deg := Some (max (-24) (min 24 v)), steerFresh := True, lastSteerMs := now\<rparr>, e, out, bus))"
  using assms by (rule command_lines)

theorem commands_understood_witness:
  "\<exists>buf. parseSerial (map (\<lambda>x. (x, 7)) (''TH -0.250'' @ [CHR 0x0A])) (commands_globals, encoder_globals, [], []) =
    Some (commands_globals\<lparr>serialBuffer := buf, throttle_cmd := Some (- 1 / 4), throttleFresh := True, lastThrottleMs := 7\<rparr>, encoder_globals, [], [])"
proof -
  have "commands_ok commands_globals" "bufferIndex commands_globals = 0"
    by (simp_all add: commands_ok_def commands_globals_def SERIAL_BUFFER_SIZE_def within_limit_def)
  note c = commands_understood [OF this, of "''0''" "''250''" _ True 7 encoder_globals "[]" "[]"]
  have "decimal_value True ''0'' ''250'' = - 1 / 4" by (simp add: decimal_value_def digits_value_def)
  then show ?thesis using c [of "decimal_value True ''0'' ''250''"] by (simp add: decimal_def is_digit_def)
qed

text \<open>An overlong line is not dropped as a whole: after 48 bytes without a line end the parser starts over in the
  middle of the line, so that what follows is run as a command of its own.\<close>

theorem overlong_line_tail_runs:
  assumes "commands_ok c" and "bufferIndex c = 0" and "\<forall>x \<in> set junk. plain x" and "length junk = SERIAL_BUFFER_SIZE"
    and "hd junk \<notin> {CHR ''r'', CHR ''R''}"
  shows "\<exists>c'. parseSerial (map (\<lambda>x. (x, now)) (junk @ ''TH 1.0'' @ [CHR 0x0A])) (c, e, out, bus) = Some (c', e, out, bus) \<and>
    throttle_cmd c' = Some 1 \<and> throttleFresh c' \<and> lastThrottleMs c' = now"
proof -
  obtain x where j: "junk = butlast junk @ [x]" "x \<in> set junk"
    using assms(4) by (metis SERIAL_BUFFER_SIZE_def append_butlast_last_id last_in_set length_0_conv zero_neq_numeral)
  have b: "\<forall>x \<in> set (butlast junk). plain x" "length (butlast junk) = 47"
    using assms(3,4) by (auto simp: SERIAL_BUFFER_SIZE_def dest: in_set_butlastD)
  have "hd (butlast junk) = hd junk" using b(2) j(1) by (metis append_is_Nil_conv hd_append length_0_conv list.distinct(1) zero_neq_numeral)
  then have h: "bufferIndex c = 0 \<longrightarrow> butlast junk = [] \<or> hd (butlast junk) \<notin> {CHR ''r'', CHR ''R''}" using assms(5) by simp
  obtain buf where fill: "parseSerial (map (\<lambda>x. (x, now)) (butlast junk)) (c, e, out, bus) =
      Some (c\<lparr>serialBuffer := buf, bufferIndex := 47\<rparr>, e, out, bus)" "length buf = SERIAL_BUFFER_SIZE"
    using parse_plain [OF assms(1) b(1) _ h, of now e out bus] b(2) assms(2) by (auto simp: SERIAL_BUFFER_SIZE_def)
  let ?c = "c\<lparr>serialBuffer := buf, bufferIndex := 0\<rparr>"
  have "parse_char (x, now) (c\<lparr>serialBuffer := buf, bufferIndex := 47\<rparr>, e, out, bus) = Some (?c, e, out, bus)"
    using assms(3) j(2) by (auto simp: parse_char_def plain_def SERIAL_BUFFER_SIZE_def)
  then have junk: "parseSerial (map (\<lambda>x. (x, now)) junk) (c, e, out, bus) = Some (?c, e, out, bus)"
    using fill(1) by (subst j(1)) (simp add: parse_append, simp add: parseSerial_def)
  have "commands_ok ?c" using assms(1) fill(2) by (simp add: commands_ok_def)
  moreover have "decimal_value False ''1'' ''0'' = 1" by (simp add: decimal_value_def digits_value_def)
  ultimately obtain buf' where "parseSerial (map (\<lambda>x. (x, now)) (''TH 1.0'' @ [CHR 0x0A])) (?c, e, out, bus) =
      Some (?c\<lparr>serialBuffer := buf', throttle_cmd := Some 1, throttleFresh := True, lastThrottleMs := now\<rparr>, e, out, bus)"
    using command_lines [of ?c "''1''" "''0''" 1 False now e out bus] by (auto simp: decimal_def is_digit_def)
  then show ?thesis using junk by (simp add: parse_append)
qed

theorem overlong_line_tail_runs_witness:
  "\<exists>c'. parseSerial (map (\<lambda>x. (x, 7)) (replicate SERIAL_BUFFER_SIZE (CHR ''x'') @ ''TH 1.0'' @ [CHR 0x0A]))
      (commands_globals, encoder_globals, [], []) = Some (c', encoder_globals, [], []) \<and> throttle_cmd c' = Some 1"
proof -
  let ?junk = "replicate SERIAL_BUFFER_SIZE (CHR ''x'')"
  have c: "commands_ok commands_globals" "bufferIndex commands_globals = 0"
    by (simp_all add: commands_ok_def commands_globals_def SERIAL_BUFFER_SIZE_def within_limit_def)
  have j: "\<forall>x \<in> set ?junk. plain x" "length ?junk = SERIAL_BUFFER_SIZE" "hd ?junk \<notin> {CHR ''r'', CHR ''R''}"
    by (auto simp: plain_def SERIAL_BUFFER_SIZE_def numeral_eq_Suc)
  from overlong_line_tail_runs [OF c j, of 7 encoder_globals "[]" "[]"] show ?thesis by blast
qed

section \<open>The encoder\<close>

text \<open>C9: the count the firmware reports is one a wheel can have made. From a started guard, for any readings of the counter,
  glitches included, and however irregularly they come: as long as the count itself has room in its 32 bits, the guarded
  count moves by at most six counts a millisecond; the one way out is a pair of readings further apart than a
  signed 32-bit difference can tell, which is undefined behaviour. Readings within that speed that come at least every
  200 ms are always handled, and the guarded count is then exactly the last one.\<close>

theorem guarded_count_plausible:
  assumes "encoderGuardReady e" and "encoderGuardPrevMs e = of_nat p" and "encoderGuardedCount e = encoderGuardPrevRawCount e"
    and "\<forall>(raw, t) \<in> set rs. t \<le> T" and "sorted (p # map snd rs)" and "p \<le> T"
    and "\<bar>encoderGuardedCount e\<bar> + 6 * int (T - p) + 1200 < 2 ^ 31"
  shows "(case guard_run rs e of
      None \<Rightarrow> \<exists>r \<in> insert (encoderGuardPrevRawCount e) (fst ` set rs). \<exists>r' \<in> insert (encoderGuardPrevRawCount e) (fst ` set rs). 2 ^ 31 \<le> \<bar>r - r'\<bar>
    | Some e' \<Rightarrow> \<bar>encoderGuardedCount e' - encoderGuardedCount e\<bar> \<le> 6 * int (T - p)) \<and>
    (plausible (encoderGuardPrevRawCount e) p rs \<longrightarrow>
      (\<exists>e'. guard_run rs e = Some e' \<and> encoderGuardedCount e' = last (encoderGuardPrevRawCount e # map fst rs)))"
  using guard_run_speed [OF assms(1,2,5,4,7,6)] guard_run_exact [OF assms(1,2) _ assms(3,4,7)] by blast

theorem guarded_count_plausible_witness:
  "\<exists>e'. guard_run [(30, 10), (2000000000, 20), (60, 30)] (resetEncoderFaultGuard 0 0 encoder_globals) = Some e' \<and>
    \<bar>encoderGuardedCount e'\<bar> \<le> 180"
proof -
  let ?e = "resetEncoderFaultGuard 0 0 encoder_globals"
  have h: "encoderGuardReady ?e" "encoderGuardPrevMs ?e = of_nat 0" "encoderGuardedCount ?e = encoderGuardPrevRawCount ?e"
    "\<bar>encoderGuardedCount ?e\<bar> + 6 * int (30 - 0) + 1200 < 2 ^ 31" "encoderGuardPrevRawCount ?e = 0" "encoderGuardedCount ?e = 0"
    by (simp_all add: resetEncoderFaultGuard_def)
  have r: "\<forall>(raw, t) \<in> set [(30 :: int, 10 :: nat), (2000000000, 20), (60, 30)]. t \<le> 30"
    "sorted (0 # map snd [(30 :: int, 10 :: nat), (2000000000, 20), (60, 30)])" "0 \<le> (30 :: nat)" by simp_all
  note g = guarded_count_plausible [OF h(1,2,3) r h(4), THEN conjunct1, unfolded h(5,6)]
  show ?thesis
  proof (cases "guard_run [(30, 10), (2000000000, 20), (60, 30)] ?e")
    case None
    then show ?thesis using g by simp
  next
    case (Some e')
    then show ?thesis using g by simp
  qed
qed

text \<open>The stream of the encoder loses nothing: once the sample after a reset has been sent, every line reports a delta, the
  deltas of any run of calls add up to the count of its last line less the count before it, and calls without a
  line (too early, or no room to transmit) leave the sum open for the next.\<close>

theorem stream_deltas_add_up:
  assumes "encoderStreamSyncDropsPending e = 0" and "csv_run calls e = Some (out, e')" and "out \<noteq> []"
  shows "line_count (last out) = Some (encoderStreamPrevCount e + sum_list (map line_delta out)) \<and>
    (\<forall>l \<in> set out. line_count l \<noteq> None) \<and> encoderStreamSyncDropsPending e' = 0"
  using csv_run_sum [OF assms(2,1)] assms(3) by auto

theorem stream_deltas_add_up_witness:
  "line_count (last [Enc 10 5 5 10 1, Enc 20 3 (-2) 10 1]) =
    Some (encoderStreamPrevCount encoder_globals + sum_list (map line_delta [Enc 10 5 5 10 1, Enc 20 3 (-2) 10 1]))"
proof -
  have "csv_run [(10, 64, 1, 5), (15, 64, 1, 9), (20, 64, 1, 3)] encoder_globals =
    Some ([Enc 10 5 5 10 1, Enc 20 3 (-2) 10 1], encoder_globals\<lparr>encoderCsvPrevMs := 20, encoderStreamPrevCount := 3, encoderStreamPrevMs := 20\<rparr>)"
    by (simp add: printEncoderCsv_def encoder_globals_def int32_def)
  from stream_deltas_add_up [OF _ this] show ?thesis by (simp add: encoder_globals_def)
qed

end
