(* ===== verification/Firmware_Safety.thy ===== *)
theory Firmware_Safety
  imports Firmware_Properties
begin

text \<open>Properties of the firmware's motors and of its control loop.\<close>

section \<open>Duties\<close>

text \<open>What the firmware may write: a level to a direction pin, a duty the driver allows to a PWM pin.\<close>

fun action_ok :: "action \<Rightarrow> bool" where
  "action_ok (DigitalWrite p high) \<longleftrightarrow> p \<in> {DIR1, DIR2, DIR3}"
| "action_ok (AnalogWrite p v) \<longleftrightarrow> (p \<in> {PWM1, PWM2} \<and> 0 \<le> v \<and> v \<le> 250) \<or> (p = PWM3 \<and> (v = 0 \<or> (35 \<le> v \<and> v \<le> 122)))"
| "action_ok (DelayMicroseconds n) \<longleftrightarrow> True"

lemma to_int16_small: "0 \<le> x \<Longrightarrow> x < 2 ^ 15 \<Longrightarrow> to_int16 x = Some \<lfloor>x\<rfloor>"
  by (simp add: to_int16_def trunc_def)

lemma constrain_unit: "\<bar>constrain u (-1) 1\<bar> \<le> 1"
  by (auto simp: constrain_def abs_if)

lemma drive_duty:
  assumes "0 \<le> t" and "t \<le> 1"
  shows "to_int16 (Mapping t 0 1 0 250) = Some \<lfloor>250 * t\<rfloor>" "0 \<le> \<lfloor>250 * t\<rfloor>" "\<lfloor>250 * t\<rfloor> \<le> 250"
proof -
  have "Mapping t 0 1 0 250 = 250 * t" by (simp add: Mapping_def)
  moreover have "to_int16 (250 * t) = Some \<lfloor>250 * t\<rfloor>" by (rule to_int16_small) (use assms in simp_all)
  ultimately show "to_int16 (Mapping t 0 1 0 250) = Some \<lfloor>250 * t\<rfloor>" by simp
  show "0 \<le> \<lfloor>250 * t\<rfloor>" "\<lfloor>250 * t\<rfloor> \<le> 250" using assms by (simp_all add: floor_le_iff)
qed

lemma Steer_spec: "\<exists>as. Steer (Some u) = Some as \<and> list_all action_ok as \<and> set as \<subseteq> {a. \<exists>b. a = DigitalWrite DIR3 b} \<union> {a. \<exists>v. a = AnalogWrite PWM3 v}"
proof -
  define w where "w = constrain u (-1) 1"
  have w: "\<bar>w\<bar> \<le> 1" unfolding w_def by (rule constrain_unit)
  have duty: "to_int16 (\<bar>w\<bar> * 255 * 0.80 * 0.60) = Some \<lfloor>\<bar>w\<bar> * 255 * 0.80 * 0.60\<rfloor>"
    by (rule to_int16_small) (use w in simp_all)
  have "\<lfloor>\<bar>w\<bar> * 255 * 0.80 * 0.60\<rfloor> \<le> 122" using w by (simp add: floor_le_iff)
  moreover have "12 \<le> \<lfloor>\<bar>w\<bar> * 255 * 0.80 * 0.60\<rfloor>" if "\<not> \<bar>w\<bar> < 0.10" using that by (simp add: le_floor_iff)
  ultimately show ?thesis
    using duty by (auto simp: Steer_def w_def [symmetric] Let_def STEER_MIN_PWM_def)
qed

lemma Steer_0: "Steer (Some 0) = Some [AnalogWrite PWM3 0, DigitalWrite DIR3 False]"
  by (simp add: Steer_def constrain_def)

lemma move_duty_spec: "\<exists>v. move_duty t = Some v \<and> 0 \<le> v \<and> v \<le> 250"
proof -
  define u :: real where "u = (if t > 1 then 1 else if t < 0 then 0 else t)"
  have "0 \<le> u" "u \<le> 1" by (simp_all add: u_def)
  from drive_duty [OF this] show ?thesis unfolding move_duty_def Let_def u_def [symmetric] by auto
qed

lemma move_total:
  "\<exists>as. MoveForward t = Some as \<and> list_all action_ok as" "\<exists>as. MoveBackward t = Some as \<and> list_all action_ok as"
  using move_duty_spec [of t] by (auto simp: MoveForward_def MoveBackward_def)

lemma manual_move_total: "\<exists>as. manual_move x = Some as \<and> list_all action_ok as"
proof -
  consider "x > 0.05" | "\<not> x > 0.05" "x < -0.05" | "\<not> x > 0.05" "\<not> x < -0.05" by blast
  then show ?thesis
    using move_total(2) [of "x * 0.6"] move_total(1) [of "- x * 0.6"] by cases (auto simp: manual_move_def)
qed

lemma manual_move_0: "manual_move 0 = Some [AnalogWrite PWM1 0, AnalogWrite PWM2 0]"
  by (simp add: manual_move_def)

lemma driveWithDeadtime_spec:
  "\<exists>as dir. driveWithDeadtime c last_sign = Some (as, dir) \<and> list_all action_ok as \<and> dir \<in> {-1, 0, 1}"
proof (cases c)
  case (Some x)
  define w where "w = constrain x (-1) 1"
  have "0 \<le> \<bar>w\<bar>" "\<bar>w\<bar> \<le> 1" using constrain_unit [of x] by (simp_all add: w_def)
  note d = drive_duty [OF this]
  show ?thesis
    using d by (auto simp: driveWithDeadtime_def Some w_def [symmetric] Let_def sign_of_def)
qed (simp add: driveWithDeadtime_def)

section \<open>The control loop\<close>

definition sketch_ok :: "sketch \<Rightarrow> bool" where
  "sketch_ok s \<longleftrightarrow> commands_ok (cmd s) \<and> steer_auto_deg (cmd s) \<noteq> None \<and> prev_err (pid_state s) \<noteq> None \<and>
     integral (pid_state s) \<noteq> None \<and> last_dir_sign s \<in> {-1, 0, 1}"

lemma PID_number:
  assumes "r \<noteq> None" and "prev_err q \<noteq> None" and "integral q \<noteq> None"
  shows "\<exists>u q'. PID r x dt q = (Some u, q') \<and> prev_err q' \<noteq> None \<and> integral q' \<noteq> None"
  using assms by (auto simp: PID_def Let_def)

text \<open>The control part, with the pulses the interrupts leave.\<close>

abbreviation after_interrupts :: "inputs \<Rightarrow> sketch \<Rightarrow> sketch" where
  "after_interrupts i s \<equiv> s\<lparr>rc := fold handle (in_interrupts i) (rc s)\<rparr>"

lemma control_cases:
  assumes "control i s = Some (as, s')" and "t = after_interrupts i s"
  shows "\<exists>u_auto u_rc dir. drive_motors (mode_of (rc t)) (th_ok i t) (sa_ok i t) (throttle_input (in_micros i) (rc t))
      (throttle_cmd (cmd s)) u_auto u_rc (last_dir_sign s) = Some (as, dir) \<and> rc s' = rc t \<and> cmd s' = cmd s \<and> last_dir_sign s' = dir"
proof -
  obtain u q where o: "steering_output i t = (u, q)" by (cases "steering_output i t")
  have "control i s = do {
      (as, dir) \<leftarrow> drive_motors (mode_of (rc t)) (th_ok i t) (sa_ok i t) (throttle_input (in_micros i) (rc t)) (throttle_cmd (cmd t))
        (if auto_steering i t then u else Some 0) (if auto_steering i t then Some 0 else u) (last_dir_sign t);
      Some (as, t\<lparr>pid_state := q, last_dir_sign := dir, statics := \<lparr>prev_t_us = in_micros i,
        deg_filtered = Some (measured_degrees i t),
        steer_rate = Some (filter_rate (steer_degrees (in_pot i)) (seconds (elapsed_us i t)) (steer_rate (statics t)))\<rparr>\<rparr>)
    }"
    unfolding control_def assms(2) [symmetric] Let_def o prod.case by (rule refl)
  then obtain dir where d: "drive_motors (mode_of (rc t)) (th_ok i t) (sa_ok i t) (throttle_input (in_micros i) (rc t)) (throttle_cmd (cmd t))
        (if auto_steering i t then u else Some 0) (if auto_steering i t then Some 0 else u) (last_dir_sign t) = Some (as, dir)"
      "rc s' = rc t" "cmd s' = cmd t" "last_dir_sign s' = dir"
    using assms(1) by (auto split: bind_splits)
  moreover have "cmd t = cmd s" "last_dir_sign t = last_dir_sign s" using assms(2) by simp_all
  ultimately show ?thesis by metis
qed

lemma control_total:
  assumes "sketch_ok s"
  shows "\<exists>as s'. control i s = Some (as, s') \<and> list_all action_ok as \<and> sketch_ok s'"
proof -
  let ?t = "after_interrupts i s"
  define r where "r = (if auto_steering i ?t then steer_auto_deg (cmd ?t) else Some (rc_steer_degrees (rc ?t)))"
  have "r \<noteq> None" "prev_err (pid_state ?t) \<noteq> None" "integral (pid_state ?t) \<noteq> None"
    using assms by (auto simp: r_def sketch_ok_def)
  from PID_number [OF this, of "measured_degrees i ?t" "elapsed_us i ?t"] obtain u q where pid: "PID r (measured_degrees i ?t) (elapsed_us i ?t) (pid_state ?t) = (Some u, q)"
    "prev_err q \<noteq> None" "integral q \<noteq> None"
    by blast
  define v where "v = constrain (applyDeadband u 0.10) (-1) 1"
  have out: "steering_output i ?t = (Some v, q)"
    using pid(1) by (simp add: steering_output_def r_def shape_output_def v_def)
  let ?Ua = "if auto_steering i ?t then Some v else Some 0" and ?Ur = "if auto_steering i ?t then Some 0 else Some v"
  have steer: "\<exists>as. Steer (if b then ?Ua else ?Ur) = Some as \<and> list_all action_ok as" "\<exists>as. Steer ?Ur = Some as \<and> list_all action_ok as" for b
    using Steer_spec by (auto simp del: action_ok.simps)
  obtain as dir where m: "drive_motors (mode_of (rc ?t)) (th_ok i ?t) (sa_ok i ?t) (throttle_input (in_micros i) (rc ?t))
      (throttle_cmd (cmd s)) ?Ua ?Ur (last_dir_sign s) = Some (as, dir)" "list_all action_ok as" "dir \<in> {-1, 0, 1}"
  proof (cases "mode_of (rc ?t)")
    case BREAK_MODE
    then show ?thesis using that [of StopMotor "last_dir_sign s"] assms
      by (simp add: drive_motors_def StopMotor_def sketch_ok_def)
  next
    case MANUAL_MODE
    obtain turn where turn: "Steer ?Ur = Some turn" "list_all action_ok turn" using steer(2) by blast
    obtain move where move: "manual_move (throttle_input (in_micros i) (rc ?t)) = Some move" "list_all action_ok move"
      using manual_move_total by blast
    show ?thesis using that [of "move @ turn" "last_dir_sign s"] assms turn move MANUAL_MODE
      by (simp add: drive_motors_def sketch_ok_def)
  next
    case AUTO_MODE
    obtain turn where turn: "Steer (if sa_ok i ?t then ?Ua else ?Ur) = Some turn" "list_all action_ok turn" using steer(1) by blast
    obtain move dir where "driveWithDeadtime (if th_ok i ?t then throttle_cmd (cmd s) else Some 0) (last_dir_sign s) = Some (move, dir)"
      "list_all action_ok move" "dir \<in> {-1, 0, 1}"
      using driveWithDeadtime_spec by blast
    then show ?thesis using that [of "move @ turn" dir] turn AUTO_MODE by (simp add: drive_motors_def)
  qed
  have "control i s = Some (as, ?t\<lparr>pid_state := q, last_dir_sign := dir, statics := \<lparr>prev_t_us = in_micros i,
      deg_filtered = Some (measured_degrees i ?t),
      steer_rate = Some (filter_rate (steer_degrees (in_pot i)) (seconds (elapsed_us i ?t)) (steer_rate (statics ?t)))\<rparr>\<rparr>)"
    unfolding control_def Let_def out prod.case using m(1) by simp
  then show ?thesis using m(2,3) pid(2,3) assms by (simp add: sketch_ok_def)
qed

text \<open>C26: with numbers for commands the control part always computes its writes, without an undefined conversion, and they are in
  range: drive duties up to 250, a steering duty of 0 or between 35 and 122, levels only on direction pins; and the
  state stays one of this kind, whatever the mode, the clock, the pulses and the potentiometer are. A
  throttle that is not a number is allowed for: it stops the drive.\<close>

theorem control_in_range:
  assumes "sketch_ok s"
  shows "\<exists>as s'. control i s = Some (as, s') \<and> list_all action_ok as \<and> sketch_ok s'"
  using assms by (rule control_total)

section \<open>Stopping\<close>

lemma act_all_append: "act_all (xs @ ys) s = act_all ys (act_all xs s)"
  by (simp add: act_all_def)

lemma Steer_pins:
  assumes "Steer u = Some as"
  shows "p \<noteq> DIR3 \<Longrightarrow> p \<noteq> PWM3 \<Longrightarrow> act_all as s p = s p"
proof -
  obtain x where x: "u = Some x" using assms by (cases u) (auto simp: Steer_def)
  then have sub: "set as \<subseteq> {a. \<exists>b. a = DigitalWrite DIR3 b} \<union> {a. \<exists>v. a = AnalogWrite PWM3 v}"
    using Steer_spec [of x] assms by auto
  assume "p \<noteq> DIR3" "p \<noteq> PWM3"
  then show "act_all as s p = s p" using sub unfolding act_all_def
    by (induction as arbitrary: s) auto
qed

lemma vehicle_stopped_manual:
  assumes "control i s = Some (as, s')" and "t = after_interrupts i s"
    and "mode_of (rc t) = MANUAL_MODE"
    and "in_micros i - accel_last_us (rc t) > 30000 \<or> (1450 \<le> unat (Accel_us (rc t)) \<and> unat (Accel_us (rc t)) \<le> 1550)"
  shows "act_all as pins PWM1 = 0 \<and> act_all as pins PWM2 = 0"
proof -
  obtain u_auto u_rc dir where m: "drive_motors (mode_of (rc t)) (th_ok i t) (sa_ok i t) (throttle_input (in_micros i) (rc t))
      (throttle_cmd (cmd s)) u_auto u_rc (last_dir_sign s) = Some (as, dir)"
    using control_cases [OF assms(1,2)] by blast
  have "\<not> 1550 < int (unat (Accel_us (rc t)))" "\<not> int (unat (Accel_us (rc t))) < 1450"
    if "\<not> in_micros i - accel_last_us (rc t) > 30000" using assms(4) that by linarith+
  then have "throttle_input (in_micros i) (rc t) = 0"
    by (cases "in_micros i - accel_last_us (rc t) > 30000") (simp_all add: throttle_input_def constrain_def del: of_nat_unat)
  then obtain turn where "Steer u_rc = Some turn" "as = [AnalogWrite PWM1 0, AnalogWrite PWM2 0] @ turn"
    using m assms(3) by (auto simp: drive_motors_def manual_move_0 split: bind_splits)
  then show ?thesis using Steer_pins [of _ turn] by (simp add: act_all_append) (simp add: act_all_def)
qed

lemma driveWithDeadtime_idle:
  assumes "c = None \<or> c = Some v \<and> \<bar>v\<bar> < 0.05"
  shows "driveWithDeadtime c d = Some ([AnalogWrite PWM1 0, AnalogWrite PWM2 0], 0)"
  using assms by (auto simp: driveWithDeadtime_def constrain_def SIGNAL_THRESHOLD_def)

text \<open>C4: the ways the vehicle is stopped: in break mode a pass switches all three motors off; in automatic mode it switches
  the drive off unless a throttle command of at least five percent came within the last half second, and also if the
  command is not a number; in manual mode it does so if the throttle stick is within 50 microseconds of its
  centre, and if the remote control's last throttle pulse is more than 30 ms old.\<close>

theorem vehicle_stops:
  assumes "control i s = Some (as, s')" and "t = after_interrupts i s"
  shows "(mode_of (rc t) = BREAK_MODE \<longrightarrow> act_all as pins PWM1 = 0 \<and> act_all as pins PWM2 = 0 \<and> act_all as pins PWM3 = 0) \<and>
    (mode_of (rc t) = AUTO_MODE \<and> (\<not> throttleFresh (cmd s) \<or> in_th_ms i - lastThrottleMs (cmd s) > 500 \<or>
        throttle_cmd (cmd s) = None \<or> (\<exists>v. throttle_cmd (cmd s) = Some v \<and> \<bar>v\<bar> < 0.05)) \<longrightarrow>
      act_all as pins PWM1 = 0 \<and> act_all as pins PWM2 = 0) \<and>
    (mode_of (rc t) = MANUAL_MODE \<and> (in_micros i - accel_last_us (rc t) > 30000 \<or> (1450 \<le> unat (Accel_us (rc t)) \<and> unat (Accel_us (rc t)) \<le> 1550)) \<longrightarrow>
      act_all as pins PWM1 = 0 \<and> act_all as pins PWM2 = 0)"
proof -
  obtain u_auto u_rc dir where m: "drive_motors (mode_of (rc t)) (th_ok i t) (sa_ok i t) (throttle_input (in_micros i) (rc t))
      (throttle_cmd (cmd s)) u_auto u_rc (last_dir_sign s) = Some (as, dir)"
    using control_cases [OF assms] by blast
  have "act_all as pins PWM1 = 0 \<and> act_all as pins PWM2 = 0 \<and> act_all as pins PWM3 = 0" if "mode_of (rc t) = BREAK_MODE"
    using m that by (auto simp: drive_motors_def StopMotor_def act_all_def)
  moreover have "act_all as pins PWM1 = 0 \<and> act_all as pins PWM2 = 0"
    if a: "mode_of (rc t) = AUTO_MODE" "\<not> throttleFresh (cmd s) \<or> in_th_ms i - lastThrottleMs (cmd s) > 500 \<or>
      throttle_cmd (cmd s) = None \<or> (\<exists>v. throttle_cmd (cmd s) = Some v \<and> \<bar>v\<bar> < 0.05)"
  proof -
    define c where "c = (if th_ok i t then throttle_cmd (cmd s) else Some 0)"
    have "th_ok i t \<Longrightarrow> throttle_cmd (cmd s) = None \<or> (\<exists>v. throttle_cmd (cmd s) = Some v \<and> \<bar>v\<bar> < 0.05)"
      using a(2) assms(2) by (auto simp: th_ok_def fresh_def)
    then have "\<exists>v. c = None \<or> c = Some v \<and> \<bar>v\<bar> < 0.05" by (cases "th_ok i t") (auto simp: c_def)
    then have "driveWithDeadtime c (last_dir_sign s) = Some ([AnalogWrite PWM1 0, AnalogWrite PWM2 0], 0)"
      using driveWithDeadtime_idle by blast
    then obtain turn where "Steer (if sa_ok i t then u_auto else u_rc) = Some turn" "as = [AnalogWrite PWM1 0, AnalogWrite PWM2 0] @ turn"
      using m a(1) by (auto simp: drive_motors_def c_def [symmetric] split: bind_splits)
    then show ?thesis using Steer_pins [of _ turn] by (simp add: act_all_append) (simp add: act_all_def)
  qed
  moreover have "act_all as pins PWM1 = 0 \<and> act_all as pins PWM2 = 0"
    if a: "mode_of (rc t) = MANUAL_MODE" "in_micros i - accel_last_us (rc t) > 30000 \<or> (1450 \<le> unat (Accel_us (rc t)) \<and> unat (Accel_us (rc t)) \<le> 1550)"
    by (rule vehicle_stopped_manual [OF assms a])
  ultimately show ?thesis by blast
qed

text \<open>A sketch after start-up, in automatic mode, for the witnesses.\<close>

definition demo_sketch :: sketch where
  "demo_sketch = \<lparr>cmd = commands_globals, enc = encoder_globals, rc = pulses_globals\<lparr>Auto_us := 1900\<rparr>, pid_state = pid_globals,
     last_dir_sign = 0, statics = \<lparr>prev_t_us = 0, deg_filtered = None, steer_rate = None\<rparr>\<rparr>"

definition demo_inputs :: inputs where
  "demo_inputs = \<lparr>in_serial = [], in_counter = (0, 0, 0, 0), in_guard_ms = 0, in_csv_ms = 0, in_tx_space = 64, in_csv_pot = 500,
     in_micros = 100000, in_interrupts = [], in_pot = 500, in_sa_ms = 100, in_th_ms = 100\<rparr>"

lemma demo_sketch_ok: "sketch_ok demo_sketch"
  by (simp add: sketch_ok_def demo_sketch_def commands_ok_def commands_globals_def SERIAL_BUFFER_SIZE_def within_limit_def pid_globals_def)

theorem control_in_range_witness: "\<exists>as s'. control demo_inputs demo_sketch = Some (as, s') \<and> list_all action_ok as \<and> sketch_ok s'"
  by (rule control_in_range [OF demo_sketch_ok])

theorem vehicle_stops_witness:
  "\<exists>as s'. control demo_inputs demo_sketch = Some (as, s') \<and> act_all as (\<lambda>_. 99) PWM1 = 0 \<and> act_all as (\<lambda>_. 99) PWM2 = 0"
proof -
  obtain as s' where c: "control demo_inputs demo_sketch = Some (as, s')" using control_total [OF demo_sketch_ok] by blast
  have "mode_of (rc (after_interrupts demo_inputs demo_sketch)) = AUTO_MODE" "\<not> throttleFresh (cmd demo_sketch)"
    by (simp_all add: mode_of_def demo_sketch_def demo_inputs_def commands_globals_def)
  then show ?thesis using vehicle_stops [OF c refl, of "\<lambda>_. 99"] c by blast
qed

section \<open>Changing direction\<close>

text \<open>No direction pin of the drive changes its level while a drive motor has power.\<close>

fun switches_cold :: "action list \<Rightarrow> pins \<Rightarrow> bool" where
  "switches_cold [] s = True"
| "switches_cold (DigitalWrite p high # as) s \<longleftrightarrow>
     ((p = DIR1 \<or> p = DIR2) \<and> s p \<noteq> (if high then 1 else 0) \<longrightarrow> s PWM1 = 0 \<and> s PWM2 = 0) \<and>
     switches_cold as (act (DigitalWrite p high) s)"
| "switches_cold (a # as) s \<longleftrightarrow> switches_cold as (act a s)"

text \<open>No direction pin of the drive changes its level before both drive motors have been without power for 200
  microseconds on end; \<open>us\<close> is how long they have been.\<close>

definition drive_off :: "pins \<Rightarrow> bool" where
  "drive_off s \<longleftrightarrow> s PWM1 = 0 \<and> s PWM2 = 0"

fun rested :: "action list \<Rightarrow> pins \<Rightarrow> nat \<Rightarrow> bool" where
  "rested [] s us = True"
| "rested (DigitalWrite p high # as) s us \<longleftrightarrow>
     ((p = DIR1 \<or> p = DIR2) \<and> s p \<noteq> (if high then 1 else 0) \<longrightarrow> drive_off s \<and> us \<ge> 200) \<and>
     rested as (act (DigitalWrite p high) s) us"
| "rested (AnalogWrite p v # as) s us \<longleftrightarrow>
     rested as (act (AnalogWrite p v) s) (if drive_off (act (AnalogWrite p v) s) then us else 0)"
| "rested (DelayMicroseconds n # as) s us \<longleftrightarrow> rested as s (if drive_off s then us + n else 0)"

text \<open>The drive is off, or its pins agree with the remembered direction.\<close>

definition dir_agrees :: "int \<Rightarrow> pins \<Rightarrow> bool" where
  "dir_agrees d s \<longleftrightarrow> drive_off s \<or> (d \<noteq> 0 \<and> s DIR1 = (if d > 0 then 1 else 0) \<and> s DIR2 = (if d > 0 then 0 else 1))"

lemma driveWithDeadtime_cold:
  assumes "driveWithDeadtime c d = Some (as, d')" and "dir_agrees d pins" and "d \<in> {-1, 0, 1}"
  shows "switches_cold as pins \<and> (\<not> drive_off pins \<longrightarrow> rested as pins 0) \<and> dir_agrees d' (act_all as pins) \<and> d' \<in> {-1, 0, 1}"
proof (cases c)
  case None
  then show ?thesis using assms(1) by (auto simp: driveWithDeadtime_def dir_agrees_def drive_off_def act_all_def)
next
  case (Some x)
  define w where "w = constrain x (-1) 1"
  have "0 \<le> \<bar>w\<bar>" "\<bar>w\<bar> \<le> 1" using constrain_unit [of x] by (simp_all add: w_def)
  note duty = drive_duty [OF this]
  consider (off) "\<bar>w\<bar> < SIGNAL_THRESHOLD \<or> w = 0" | (go) "\<not> \<bar>w\<bar> < SIGNAL_THRESHOLD" "w \<noteq> 0" by blast
  then show ?thesis
  proof cases
    case off
    then have "as = [AnalogWrite PWM1 0, AnalogWrite PWM2 0]" "d' = 0"
      using assms(1) duty(1) by (auto simp: driveWithDeadtime_def Some w_def [symmetric] Let_def sign_of_def split: if_splits)
    then show ?thesis by (simp add: dir_agrees_def drive_off_def act_all_def)
  next
    case go
    define sg :: int where "sg = (if w > 0 then 1 else -1)"
    have "sign_of (Some w) = sg" "sg \<noteq> 0" using go(2) by (auto simp: sign_of_def sg_def)
    then have r: "as = (if d \<noteq> 0 \<and> sg \<noteq> d then [AnalogWrite PWM1 0, AnalogWrite PWM2 0, DelayMicroseconds 200] else []) @
        [DigitalWrite DIR1 (sg > 0), DigitalWrite DIR2 (\<not> sg > 0), AnalogWrite PWM1 \<lfloor>250 * \<bar>w\<bar>\<rfloor>, AnalogWrite PWM2 \<lfloor>250 * \<bar>w\<bar>\<rfloor>]" "d' = sg"
      using assms(1) duty(1) go(1) by (auto simp: driveWithDeadtime_def Some w_def [symmetric] Let_def)
    have sg: "sg = 1 \<or> sg = -1" by (simp add: sg_def)
    consider "d = 0" | "d = sg" | "d = - sg" using assms(3) sg by auto
    then show ?thesis
      using assms(2) sg by cases (auto simp: r dir_agrees_def drive_off_def act_all_def)
  qed
qed

text \<open>Writes to the steering motor change nothing about this.\<close>

definition steering_only :: "action list \<Rightarrow> bool" where
  "steering_only as \<longleftrightarrow> set as \<subseteq> {a. \<exists>b. a = DigitalWrite DIR3 b} \<union> {a. \<exists>v. a = AnalogWrite PWM3 v}"

lemma Steer_steering_only: "Steer u = Some as \<Longrightarrow> steering_only as"
  using Steer_spec [of "the u"] by (cases u) (auto simp: Steer_def steering_only_def)

lemma steering_only_cold: "steering_only as \<Longrightarrow> switches_cold as s \<and> rested as s us"
proof (induction as arbitrary: s us)
  case (Cons a as)
  then have "steering_only as" "(\<exists>b. a = DigitalWrite DIR3 b) \<or> (\<exists>v. a = AnalogWrite PWM3 v)" by (auto simp: steering_only_def)
  then show ?case using Cons.IH by auto
qed simp

lemma switches_cold_append: "switches_cold (as @ bs) s \<longleftrightarrow> switches_cold as s \<and> switches_cold bs (act_all as s)"
proof (induction as arbitrary: s)
  case (Cons a as)
  then show ?case by (cases a) (simp_all add: act_all_def del: fun_upd_apply)
qed (simp add: act_all_def)

lemma rested_append: "rested as s us \<Longrightarrow> steering_only bs \<Longrightarrow> rested (as @ bs) s us"
proof (induction as arbitrary: s us)
  case (Cons a as)
  then show ?case by (cases a) (simp_all del: fun_upd_apply)
qed (simp add: steering_only_cold)

lemma steering_only_agrees:
  assumes "steering_only as"
  shows "dir_agrees d (act_all as s) = dir_agrees d s"
proof -
  have "act_all as s p = s p" if "p \<noteq> DIR3" "p \<noteq> PWM3" for p
    using assms that unfolding act_all_def steering_only_def by (induction as arbitrary: s) auto
  then show ?thesis by (simp add: dir_agrees_def drive_off_def)
qed

lemma control_cold:
  assumes c: "control i s = Some (as, s')" and agrees: "dir_agrees (last_dir_sign s) pins" and dir: "last_dir_sign s \<in> {-1, 0, 1}"
    and mode: "mode_of (rc s') \<noteq> MANUAL_MODE"
  shows "(mode_of (rc s') = AUTO_MODE \<longrightarrow> switches_cold as pins \<and> (\<not> drive_off pins \<longrightarrow> rested as pins 0)) \<and>
    dir_agrees (last_dir_sign s') (act_all as pins) \<and> last_dir_sign s' \<in> {-1, 0, 1}"
proof -
  let ?t = "after_interrupts i s"
  obtain u_auto u_rc d where m: "drive_motors (mode_of (rc s')) (th_ok i ?t) (sa_ok i ?t) (throttle_input (in_micros i) (rc ?t))
      (throttle_cmd (cmd s)) u_auto u_rc (last_dir_sign s) = Some (as, d)" "last_dir_sign s' = d"
    using control_cases [OF c refl] by auto
  show ?thesis
  proof (cases "mode_of (rc s')")
    case BREAK_MODE
    then have "as = StopMotor" "d = last_dir_sign s" using m(1) by (simp_all add: drive_motors_def)
    then show ?thesis using BREAK_MODE m(2) dir by (simp add: dir_agrees_def drive_off_def StopMotor_def act_all_def)
  next
    case MANUAL_MODE
    then show ?thesis using mode by simp
  next
    case AUTO_MODE
    obtain move turn where d: "driveWithDeadtime (if th_ok i ?t then throttle_cmd (cmd s) else Some 0) (last_dir_sign s) = Some (move, d)"
      "Steer (if sa_ok i ?t then u_auto else u_rc) = Some turn" "as = move @ turn"
      using m(1) AUTO_MODE by (auto simp: drive_motors_def simp del: if_split_eq1 if_split_eq2 split del: if_split split: bind_splits)
    note turn = Steer_steering_only [OF d(2)] and move = driveWithDeadtime_cold [OF d(1) agrees dir]
    show ?thesis
      using move turn d(3) m(2) by (simp add: switches_cold_append steering_only_cold rested_append act_all_append steering_only_agrees)
  qed
qed

text \<open>What is claimed of a run of the loop, up to its first pass in manual mode.\<close>

fun runs_cold :: "inputs list \<Rightarrow> sketch \<Rightarrow> pins \<Rightarrow> bool" where
  "runs_cold [] s pins = True"
| "runs_cold (i # is) s pins =
     (case loop_pass i s of
        None \<Rightarrow> True
      | Some (as, out, bus, s') \<Rightarrow>
          if as \<noteq> [] \<and> mode_of (rc s') = MANUAL_MODE then True
          else (mode_of (rc s') = AUTO_MODE \<longrightarrow> switches_cold as pins \<and> (\<not> drive_off pins \<longrightarrow> rested as pins 0)) \<and>
            runs_cold is s' (act_all as pins))"

lemma runs_cold_all:
  "dir_agrees (last_dir_sign s) pins \<Longrightarrow> last_dir_sign s \<in> {-1, 0, 1} \<Longrightarrow> runs_cold is s pins"
proof (induction "is" arbitrary: s pins)
  case (Cons i "is")
  show ?case
  proof (cases "loop_pass i s")
    case (Some r)
    obtain as out bus s' where r: "r = (as, out, bus, s')" by (cases r) blast
    obtain s0 where s0: "last_dir_sign s0 = last_dir_sign s" "(as = [] \<and> s' = s0) \<or> control i s0 = Some (as, s')"
    proof -
      have "\<exists>c e. (as = [] \<and> s' = s\<lparr>cmd := c, enc := e\<rparr>) \<or> control i (s\<lparr>cmd := c, enc := e\<rparr>) = Some (as, s')"
        using Some r unfolding loop_pass_def Let_def by (fastforce split: bind_splits if_splits)
      then obtain c e where "(as = [] \<and> s' = s\<lparr>cmd := c, enc := e\<rparr>) \<or> control i (s\<lparr>cmd := c, enc := e\<rparr>) = Some (as, s')" by blast
      then show ?thesis using that [of "s\<lparr>cmd := c, enc := e\<rparr>"] by auto
    qed
    have "(as \<noteq> [] \<and> mode_of (rc s') = MANUAL_MODE) \<or>
      ((mode_of (rc s') = AUTO_MODE \<longrightarrow> switches_cold as pins \<and> (\<not> drive_off pins \<longrightarrow> rested as pins 0)) \<and>
        dir_agrees (last_dir_sign s') (act_all as pins) \<and> last_dir_sign s' \<in> {-1, 0, 1})"
      using s0(2)
    proof (elim disjE conjE)
      assume "as = []" "s' = s0"
      then show ?thesis using Cons.prems s0(1) by (simp add: act_all_def)
    next
      assume c: "control i s0 = Some (as, s')"
      have "as \<noteq> []" if "mode_of (rc s') = MANUAL_MODE"
        using control_cases [OF c refl] that by (auto simp: drive_motors_def manual_move_def MoveForward_def MoveBackward_def split: bind_splits if_splits)
      then show ?thesis using control_cold [OF c] Cons.prems s0(1) by metis
    qed
    then show ?thesis using Cons.IH Some r by auto
  qed simp
qed simp

lemma setup_agrees:
  assumes "setup_sketch t0 rs counter now = Some (as, bus, s)"
  shows "dir_agrees (last_dir_sign s) (act_all as pins) \<and> last_dir_sign s = 0"
proof -
  obtain center where c: "CenterSteeringOnce t0 rs = Some center"
    "as = (StopMotor @ [DigitalWrite DIR3 False, AnalogWrite PWM3 0]) @ center" "last_dir_sign s = 0"
    using assms by (auto simp: setup_sketch_def Let_def split: bind_splits)
  have keep: "act_all ls q p = q p" if "center_loop t0 rs = Some ls" "p = PWM1 \<or> p = PWM2" for ls q p
    using that
  proof (induction rs arbitrary: ls q)
    case (Cons r rs)
    obtain now pot where r: "r = (now, pot)" by (cases r)
    consider "\<not> now - t0 < 1200" | "now - t0 < 1200" "\<bar>0 - steer_degrees pot\<bar> \<le> 3" | "now - t0 < 1200" "\<not> \<bar>0 - steer_degrees pot\<bar> \<le> 3" by blast
    then show ?case
    proof cases
      case 3
      then obtain turn later where t: "Steer (Some (center_command (0 - steer_degrees pot))) = Some turn" "center_loop t0 rs = Some later"
        "ls = turn @ DelayMicroseconds 10000 # later"
        using Cons.prems(1) r by (auto simp: Let_def split: bind_splits)
      have "act_all turn q p = q p" using Steer_pins [OF t(1)] Cons.prems(2) by auto
      then show ?thesis using Cons.IH [OF t(2) Cons.prems(2)] t(3) by (simp add: act_all_append) (simp add: act_all_def)
    qed (use Cons.prems r in \<open>auto simp: act_all_def\<close>)
  qed simp
  obtain ls where ls: "center_loop t0 rs = Some ls" "center = ls @ [AnalogWrite PWM3 0, DigitalWrite DIR3 False]"
    using c(1) by (auto simp: CenterSteeringOnce_def Steer_0 split: bind_splits)
  have "drive_off (act_all as pins)"
    using keep [OF ls(1)] unfolding c(2) ls(2) by (simp add: drive_off_def act_all_append) (simp add: StopMotor_def act_all_def)
  then show ?thesis using c(3) by (simp add: dir_agrees_def)
qed



text \<open>The changes of the drive's direction pins, each with the duties at that moment.\<close>

fun dir_switches :: "action list \<Rightarrow> pins \<Rightarrow> (pin \<times> int \<times> int) list" where
  "dir_switches [] s = []"
| "dir_switches (DigitalWrite p high # as) s =
     (if (p = DIR1 \<or> p = DIR2) \<and> s p \<noteq> (if high then 1 else 0) then [(p, s PWM1, s PWM2)] else []) @
     dir_switches as (act (DigitalWrite p high) s)"
| "dir_switches (a # as) s = dir_switches as (act a s)"

lemma move_duty_pos:
  assumes "0.03 \<le> x"
  shows "\<exists>n > 0. move_duty x = Some n"
proof -
  define t :: real where "t = (if x > 1 then 1 else if x < 0 then 0 else x)"
  have t: "0.03 \<le> t" "t \<le> 1" using assms by (simp_all add: t_def)
  have "move_duty x = Some \<lfloor>250 * t\<rfloor>" "0 < \<lfloor>250 * t\<rfloor>"
    using drive_duty(1) [of t] t unfolding move_duty_def Let_def t_def [symmetric] by (simp_all add: zero_less_floor)
  then show ?thesis by blast
qed

text \<open>C39: driving by hand has no such protection: when the stick goes from one direction to the other between two passes, whichever way,
  each direction pin is switched while its motor still has the duty of the other direction, \<open>n\<close>, and there is no
  dead time; and braking out of reverse switches the first motor's direction before its duty is taken away.\<close>

theorem manual_reverses_under_power:
  assumes "(x < -0.05 \<and> y > 0.05) \<or> (x > 0.05 \<and> y < -0.05)" and "manual_move x = Some as1" and "manual_move y = Some as2"
  shows "\<exists>n v. 0 < n \<and> 0 < v \<and> dir_switches as2 (act_all as1 pins) = [(DIR1, n, n), (DIR2, v, n)] \<and>
    (\<forall>k. DelayMicroseconds k \<notin> set as2) \<and>
    (x > 0.05 \<longrightarrow> dir_switches StopMotor (act_all as1 pins) = [(DIR1, n, n)])"
proof -
  obtain n where n: "0 < n" "move_duty (\<bar>x\<bar> * 0.6) = Some n" using move_duty_pos [of "\<bar>x\<bar> * 0.6"] assms(1) by auto
  obtain v where v: "0 < v" "move_duty (\<bar>y\<bar> * 0.6) = Some v" using move_duty_pos [of "\<bar>y\<bar> * 0.6"] assms(1) by auto
  let ?forward = "\<lambda>k. [DigitalWrite DIR1 True, AnalogWrite PWM1 k, DigitalWrite DIR2 False, AnalogWrite PWM2 k]"
  let ?backward = "\<lambda>k. [DigitalWrite DIR1 False, AnalogWrite PWM1 k, DigitalWrite DIR2 True, AnalogWrite PWM2 k]"
  from assms(1) show ?thesis
  proof (elim disjE conjE)
    assume xy: "x < -0.05" "y > 0.05"
    then have "as1 = ?forward n" "as2 = ?backward v"
      using assms(2,3) n(2) v(2) by (simp_all add: manual_move_def MoveForward_def MoveBackward_def)
    then show ?thesis using n(1) v(1) xy by (intro exI [of _ n] exI [of _ v]) (simp add: act_all_def)
  next
    assume xy: "x > 0.05" "y < -0.05"
    then have "as1 = ?backward n" "as2 = ?forward v"
      using assms(2,3) n(2) v(2) by (simp_all add: manual_move_def MoveForward_def MoveBackward_def)
    then show ?thesis using n(1) v(1) xy by (intro exI [of _ n] exI [of _ v]) (simp add: act_all_def StopMotor_def)
  qed
qed

theorem manual_reverses_under_power_witness:
  "\<exists>as1 as2 n v. manual_move (-1) = Some as1 \<and> manual_move 1 = Some as2 \<and> 0 < n \<and>
    dir_switches as2 (act_all as1 (\<lambda>_. 0)) = [(DIR1, n, n), (DIR2, v, n)]"
proof -
  obtain as1 as2 where as: "manual_move (-1) = Some as1" "manual_move 1 = Some as2"
    using manual_move_total by blast
  then show ?thesis using manual_reverses_under_power [OF _ as, of "\<lambda>_. 0"] by auto
qed

section \<open>Centring\<close>

text \<open>The level of the steering motor's direction pin and its duty during each wait of ten milliseconds.\<close>

fun waits :: "action list \<Rightarrow> pins \<Rightarrow> (int \<times> int) list" where
  "waits [] s = []"
| "waits (DelayMicroseconds n # as) s = (if n = 10000 then [(s DIR3, s PWM3)] else []) @ waits as s"
| "waits (a # as) s = waits as (act a s)"

lemma waits_append: "waits (as @ bs) s = waits as s @ waits bs (act_all as s)"
proof (induction as arbitrary: s)
  case (Cons a as)
  then show ?case by (cases a) (simp_all add: act_all_def del: fun_upd_apply)
qed (simp add: act_all_def)

text \<open>Whether a reading, \<open>t\<close> milliseconds after the start, makes the loop turn the steering; and the turn it makes then.\<close>

definition off_centre :: "nat \<Rightarrow> int \<Rightarrow> bool" where
  "off_centre t pot \<longleftrightarrow> t < 1200 \<and> 3 < \<bar>steer_degrees pot\<bar>"

definition towards_centre :: "int \<Rightarrow> int \<times> int \<Rightarrow> bool" where
  "towards_centre pot wait \<longleftrightarrow> fst wait = (if steer_degrees pot < 0 then 1 else 0) \<and> 35 \<le> snd wait \<and> snd wait \<le> 73"

lemma center_turn:
  assumes "3 < \<bar>steer_degrees pot\<bar>"
  shows "\<exists>n. Steer (Some (center_command (0 - steer_degrees pot))) = Some [DigitalWrite DIR3 (steer_degrees pot < 0), AnalogWrite PWM3 n] \<and>
    35 \<le> n \<and> n \<le> 73"
proof -
  define u where "u = center_command (0 - steer_degrees pot)"
  have u: "0.12 \<le> \<bar>u\<bar>" "\<bar>u\<bar> \<le> 0.6" "u > 0 \<longleftrightarrow> steer_degrees pot < 0"
    using assms by (auto simp: u_def center_command_def constrain_def Let_def abs_if field_simps split: if_splits)
  have c: "constrain u (-1) 1 = u" using u(2) by (simp add: constrain_def abs_if split: if_splits)
  have duty: "to_int16 (\<bar>u\<bar> * 255 * 0.80 * 0.60) = Some \<lfloor>\<bar>u\<bar> * 255 * 0.80 * 0.60\<rfloor>"
    by (rule to_int16_small) (use u in simp_all)
  have "\<lfloor>\<bar>u\<bar> * 255 * 0.80 * 0.60\<rfloor> \<le> 73" using u(2) by (simp add: floor_le_iff)
  moreover have "14 \<le> \<lfloor>\<bar>u\<bar> * 255 * 0.80 * 0.60\<rfloor>" using u(1) by (simp add: le_floor_iff)
  moreover have "\<not> \<bar>u\<bar> < 0.10" using u(1) by simp
  ultimately have "\<exists>n. Steer (Some u) = Some [DigitalWrite DIR3 (u > 0), AnalogWrite PWM3 n] \<and> 35 \<le> n \<and> n \<le> 73"
    using duty by (simp add: Steer_def c Let_def STEER_MIN_PWM_def)
  then show ?thesis unfolding u(3) unfolding u_def .
qed

lemma center_loop_stops:
  assumes "length pots = length ts" and "\<forall>k < length ts. 10 * (k + j) \<le> ts ! k \<and> ts ! k < 2 ^ 32"
    and "121 \<le> length ts + j" and "j \<le> 120"
  shows "\<exists>as k. center_loop t0 (zip (map (\<lambda>t. t0 + of_nat t) ts) pots) = Some as \<and> k + j \<le> 120 \<and> k < length ts \<and>
    (\<forall>l < k. off_centre (ts ! l) (pots ! l)) \<and> \<not> off_centre (ts ! k) (pots ! k) \<and>
    list_all2 towards_centre (take k pots) (waits as pins)"
  using assms
proof (induction ts arbitrary: pots j pins)
  case (Cons t ts)
  obtain pot rest where p: "pots = pot # rest" "length rest = length ts" using Cons.prems(1) by (cases pots) auto
  have t: "10 * j \<le> t" "t < 2 ^ 32" using Cons.prems(2) by force+
  let ?now = "t0 + of_nat t :: u32"
  have now: "unat (?now - t0) = t" using t(2) by (simp add: unsigned_of_nat take_bit_nat_eq_self)
  then have early: "?now - t0 < 1200 \<longleftrightarrow> t < 1200" by (simp add: word_less_nat_alt)
  show ?case
  proof (cases "off_centre t pot")
    case False
    then have "center_loop t0 (zip (map (\<lambda>t. t0 + of_nat t) (t # ts)) pots) = Some [] \<or>
      center_loop t0 (zip (map (\<lambda>t. t0 + of_nat t) (t # ts)) pots) = Some [DigitalWrite DIR3 False, AnalogWrite PWM3 0]"
      using early p(1) by (auto simp: off_centre_def)
    then show ?thesis using False p(1) Cons.prems(4) by (auto intro!: exI [of _ "0 :: nat"])
  next
    case True
    then have "j + 1 \<le> 120" using t(1) by (simp add: off_centre_def)
    moreover have "\<forall>k < length ts. 10 * (k + (j + 1)) \<le> ts ! k \<and> ts ! k < 2 ^ 32"
      using Cons.prems(2) by (auto simp: nth_Cons_Suc [symmetric, of _ t] dest: spec [of _ "Suc _"])
    moreover obtain n where n: "Steer (Some (center_command (0 - steer_degrees pot))) = Some [DigitalWrite DIR3 (steer_degrees pot < 0), AnalogWrite PWM3 n]"
      "35 \<le> n" "n \<le> 73" using center_turn True unfolding off_centre_def by blast
    ultimately obtain later k where k: "center_loop t0 (zip (map (\<lambda>t. t0 + of_nat t) ts) rest) = Some later"
      "k + (j + 1) \<le> 120" "k < length ts" "\<forall>l < k. off_centre (ts ! l) (rest ! l)" "\<not> off_centre (ts ! k) (rest ! k)"
      "list_all2 towards_centre (take k rest) (waits later (act (AnalogWrite PWM3 n) (act (DigitalWrite DIR3 (steer_degrees pot < 0)) pins)))"
      using Cons.IH [OF p(2), of "j + 1"] Cons.prems(3) by fastforce
    let ?as = "[DigitalWrite DIR3 (steer_degrees pot < 0), AnalogWrite PWM3 n] @ DelayMicroseconds 10000 # later"
    have "center_loop t0 (zip (map (\<lambda>t. t0 + of_nat t) (t # ts)) pots) = Some ?as" using True early p(1) n(1) k(1) by (simp add: off_centre_def)
    moreover have "\<forall>l < Suc k. off_centre ((t # ts) ! l) (pots ! l)"
      using True k(4) p(1) by (auto simp: less_Suc_eq_0_disj)
    moreover have "list_all2 towards_centre (take (Suc k) pots) (waits ?as pins)"
      using k(6) n(2,3) p(1) by (simp add: towards_centre_def del: fun_upd_apply) (simp add: fun_upd_apply)
    ultimately show ?thesis
      using k(2,3,5) p(1) by (intro exI [of _ ?as] exI [of _ "Suc k"]) simp
  qed
qed simp

text \<open>C37: the start-up cannot hang in centring the steering, whatever the potentiometer reads. The loop stops at the first
  test of its clock that finds 1200 ms over or the first reading within three degrees of the centre, the \<open>k\<close>-th one, which is at
  most the 121st since every pass waits ten milliseconds; in each of the \<open>k\<close> waits before the steering motor is driven
  towards the centre, with a duty between 35 and 73; and all the outputs are computed, the last of which leave the steering motor off.\<close>

theorem centring_ends:
  assumes "length pots = length ts" and "121 \<le> length ts" and "\<forall>k < length ts. 10 * k \<le> ts ! k \<and> ts ! k < 2 ^ 32"
  shows "\<exists>as k. CenterSteeringOnce t0 (zip (map (\<lambda>t. t0 + of_nat t) ts) pots) = Some as \<and> k \<le> 120 \<and>
    (\<forall>l < k. off_centre (ts ! l) (pots ! l)) \<and> \<not> off_centre (ts ! k) (pots ! k) \<and>
    list_all2 towards_centre (take k pots) (waits as pins) \<and> act_all as pins PWM3 = 0"
proof -
  obtain as k where as: "center_loop t0 (zip (map (\<lambda>t. t0 + of_nat t) ts) pots) = Some as" and k: "k \<le> 120"
    "\<forall>l < k. off_centre (ts ! l) (pots ! l)" "\<not> off_centre (ts ! k) (pots ! k)" "list_all2 towards_centre (take k pots) (waits as pins)"
    using center_loop_stops [OF assms(1), of 0 t0 pins] assms(2,3) by fastforce
  let ?as = "as @ [AnalogWrite PWM3 0, DigitalWrite DIR3 False]"
  have "CenterSteeringOnce t0 (zip (map (\<lambda>t. t0 + of_nat t) ts) pots) = Some ?as"
    using as by (simp add: CenterSteeringOnce_def Steer_0)
  moreover have "act_all ?as pins PWM3 = 0" unfolding act_all_append by (simp add: act_all_def)
  moreover have "list_all2 towards_centre (take k pots) (waits ?as pins)" using k(4) by (simp add: waits_append)
  ultimately show ?thesis using k(1-3) by blast
qed

theorem centring_ends_witness:
  "\<exists>as k. CenterSteeringOnce 5 (zip (map (\<lambda>t. 5 + of_nat t) (map (\<lambda>k. 10 * k) [0..<121])) (replicate 121 900)) = Some as \<and>
    k \<le> (120 :: nat) \<and> length (waits as (\<lambda>_. 255)) = k \<and> act_all as (\<lambda>_. 255) PWM3 = 0"
proof -
  define ts where "ts = map (\<lambda>k. 10 * k) [0..<121 :: nat]"
  have l: "length ts = 121" unfolding ts_def length_map length_upt by simp
  have "10 * k \<le> ts ! k \<and> ts ! k < 2 ^ 32" if "k < length ts" for k
  proof -
    have "k < 121" using that l by simp
    then have "[0..<121] ! k = k" using nth_upt [of 0 k 121] by (simp only: add_0)
    moreover have "k < length [0..<121]" using that unfolding ts_def length_map .
    ultimately have "ts ! k = 10 * k" unfolding ts_def by (simp only: nth_map)
    then show ?thesis using \<open>k < 121\<close> by simp
  qed
  then have "\<forall>k < length ts. 10 * k \<le> ts ! k \<and> ts ! k < 2 ^ 32" by simp
  moreover have "length (replicate 121 (900 :: int)) = length ts" "121 \<le> length ts" by (simp_all only: l length_replicate order_refl)
  ultimately obtain as k where k: "CenterSteeringOnce 5 (zip (map (\<lambda>t. 5 + of_nat t) ts) (replicate 121 900)) = Some as" "k \<le> 120"
    "list_all2 towards_centre (take k (replicate 121 900)) (waits as (\<lambda>_. 255))" "act_all as (\<lambda>_. 255) PWM3 = 0"
    using centring_ends [of "replicate 121 900" ts 5 "\<lambda>_. 255"] by blast
  have "length (waits as (\<lambda>_. 255)) = k" using list_all2_lengthD [OF k(3)] k(2) unfolding length_take length_replicate by linarith
  with k show ?thesis unfolding ts_def [symmetric] by blast
qed

section \<open>The remote control\<close>

text \<open>C40: a throttle pulse can be too new for the loop: the clock is read before the pulses are copied, so that a pulse whose end
  interrupts in between lies in the future of the time it is compared with; the unsigned difference is then huge, the
  pulse counts as 30 ms old, and for this pass the drive of a vehicle driven by hand is switched off.\<close>

theorem newest_pulse_discarded:
  assumes "control i s = Some (as, s')" and "t = after_interrupts i s"
    and "in_interrupts i = [AccelEdge now False]" and "pulse_width now (accel_rise_us (rc s)) = Some w"
    and "now = in_micros i + later" and "0 < later" and "later < 2 ^ 31" and "mode_of (rc s) = MANUAL_MODE"
  shows "Accel_us (rc t) = w \<and> accel_last_us (rc t) = now \<and> act_all as pins PWM1 = 0 \<and> act_all as pins PWM2 = 0"
proof -
  have rc: "rc t = (rc s)\<lparr>Accel_us := w, accel_last_us := now\<rparr>"
    using assms(2,3,4) by (simp add: AccelPulseInt_def)
  then have mode: "mode_of (rc t) = MANUAL_MODE" using assms(8) by (auto simp: mode_of_def split: if_splits)
  have "uint (in_micros i - now) = (- uint later) mod 2 ^ 32"
    using assms(5) by (simp add: uint_word_ariths)
  also have "\<dots> = 2 ^ 32 - uint later"
    using assms(6,7) by (subst zmod_zminus1_eq_if) (simp_all add: word_less_def mod_pos_pos_trivial)
  finally have "in_micros i - accel_last_us (rc t) > 30000"
    using rc assms(7) by (simp add: word_less_def)
  then show ?thesis using vehicle_stopped_manual [OF assms(1,2) mode] rc by simp
qed

theorem newest_pulse_discarded_witness:
  "\<exists>as s'. control (demo_inputs\<lparr>in_interrupts := [AccelEdge 100010 False]\<rparr>)
      (demo_sketch\<lparr>rc := pulses_globals\<lparr>Manual_us := 1900, accel_rise_us := 98206\<rparr>\<rparr>) = Some (as, s') \<and> act_all as (\<lambda>_. 99) PWM1 = 0"
proof -
  let ?i = "demo_inputs\<lparr>in_interrupts := [AccelEdge 100010 False]\<rparr>"
  let ?s = "demo_sketch\<lparr>rc := pulses_globals\<lparr>Manual_us := 1900, accel_rise_us := 98206\<rparr>\<rparr>"
  have "sketch_ok ?s" using demo_sketch_ok by (simp add: sketch_ok_def)
  then obtain as s' where c: "control ?i ?s = Some (as, s')" using control_total by blast
  have w: "pulse_width 100010 (accel_rise_us (rc ?s)) = Some 1804" "mode_of (rc ?s) = MANUAL_MODE"
    "100010 = in_micros ?i + 10" "in_interrupts ?i = [AccelEdge 100010 False]" "(0 :: u32) < 10" "(10 :: u32) < 2 ^ 31"
    by (simp_all add: pulse_width_def mode_of_def demo_inputs_def pulses_globals_def)
  show ?thesis using newest_pulse_discarded [OF c refl w(4,1,3,5,6,2), of "\<lambda>_. 99"] c by blast
qed

text \<open>Passes of the loop, and the pulses they leave when no interrupt comes.\<close>

fun passes :: "inputs list \<Rightarrow> sketch \<Rightarrow> sketch option" where
  "passes [] s = Some s"
| "passes (i # is) s = do { (as, out, bus, s) \<leftarrow> loop_pass i s; passes is s }"

lemma loop_pass_pulses:
  assumes "loop_pass i s = Some (as, out, bus, s')" and "in_interrupts i = []"
  shows "rc s' = rc s"
proof -
  have "rc s2 = rc s1" if "control i s1 = Some (as, s2)" for as s1 s2
    using control_cases [OF that refl] assms(2) by auto
  then show ?thesis using assms(1) by (auto simp: loop_pass_def Let_def split: bind_splits if_splits)
qed

text \<open>Losing the remote control does not stop an automatic run: only the throttle pulse has an age limit. However many passes
  go by without any pulse, the mode stays what the last pulses said, and so does the steering the loop falls back to.\<close>

theorem lost_receiver_keeps_mode:
  assumes "passes is s = Some s'" and "\<forall>i \<in> set is. in_interrupts i = []"
  shows "mode_of (rc s') = mode_of (rc s) \<and> rc_steer_degrees (rc s') = rc_steer_degrees (rc s)"
proof -
  have "rc s' = rc s" using assms
  proof (induction "is" arbitrary: s)
    case (Cons i "is")
    then show ?case using loop_pass_pulses by (auto split: bind_splits)
  qed simp
  then show ?thesis by simp
qed

theorem lost_receiver_keeps_mode_witness:
  "\<exists>s'. passes [demo_inputs] demo_sketch = Some s' \<and> mode_of (rc s') = AUTO_MODE"
proof -
  obtain e where e: "parseSerial (in_serial demo_inputs) (cmd demo_sketch, enc demo_sketch, [], []) = Some (cmd demo_sketch, enc demo_sketch, [], [])"
    "updateEncoderFaultGuard (ls7366rReadCounter (in_counter demo_inputs)) (in_guard_ms demo_inputs) (enc demo_sketch) = Some (0, e)"
    "printEncoderCsv (in_csv_ms demo_inputs) (in_tx_space demo_inputs) (in_csv_pot demo_inputs) 0 (e\<lparr>encoderCount := 0\<rparr>) = Some ([], e\<lparr>encoderCount := 0\<rparr>)"
    by (auto simp: demo_inputs_def demo_sketch_def parseSerial_def updateEncoderFaultGuard_def encoder_globals_def resetEncoderFaultGuard_def
        ls7366rReadCounter_def printEncoderCsv_def)
  have "sketch_ok (demo_sketch\<lparr>enc := e\<lparr>encoderCount := 0\<rparr>\<rparr>)" using demo_sketch_ok by (simp add: sketch_ok_def)
  then obtain as s' where "control demo_inputs (demo_sketch\<lparr>enc := e\<lparr>encoderCount := 0\<rparr>\<rparr>) = Some (as, s')"
    using control_total by blast
  moreover have "demo_sketch\<lparr>cmd := cmd demo_sketch, enc := e\<lparr>encoderCount := 0\<rparr>\<rparr> = demo_sketch\<lparr>enc := e\<lparr>encoderCount := 0\<rparr>\<rparr>"
    "prev_t_us (statics demo_sketch) = 0" by (simp_all add: demo_sketch_def)
  ultimately have p: "passes [demo_inputs] demo_sketch = Some s'" using e by (simp add: loop_pass_def)
  have "\<forall>i \<in> set [demo_inputs]. in_interrupts i = []" "mode_of (rc demo_sketch) = AUTO_MODE"
    by (simp_all add: demo_inputs_def demo_sketch_def mode_of_def)
  then show ?thesis using lost_receiver_keeps_mode [OF p] p by simp
qed

section \<open>Commands that are not numbers\<close>

text \<open>A steering command that is not a number is taken as fresh, and in automatic mode the next pass of the control loop
  converts it to an integer duty, which has no defined result; a throttle command of this kind stops the drive.\<close>

theorem nan_steering_undefined:
  assumes "commands_ok c" and "bufferIndex c = 0"
  shows "\<exists>c'. parseSerial (map (\<lambda>x. (x, now)) (''SA nan'' @ [CHR 0x0A])) (c, e, out, bus) = Some (c', e, out, bus) \<and>
    steerFresh c' \<and> lastSteerMs c' = now \<and>
    (\<forall>i s. cmd s = c' \<and> mode_of (rc (after_interrupts i s)) = AUTO_MODE \<and> in_sa_ms i - now \<le> 500 \<longrightarrow> control i s = None)"
proof -
  have nan: "limit 24 (atof (skip_blanks '' nan'')) = None"
    by (simp add: skip_blanks_def atof_def take_sign_def is_space_def starts_with_word_def limit_def)
  have l: "\<forall>x \<in> set ''SA nan''. plain x" "length ''SA nan'' < SERIAL_BUFFER_SIZE" "''SA nan'' = [] \<or> hd ''SA nan'' \<notin> {CHR ''r'', CHR ''R''}"
    by (simp_all add: plain_def SERIAL_BUFFER_SIZE_def)
  obtain buf c1 e1 o1 b1 where r: "c_string buf = ''SA nan''"
    "run_command now (c\<lparr>bufferIndex := length ''SA nan'', serialBuffer := buf\<rparr>, e, out, bus) = (c1, e1, o1, b1)"
    "parseSerial (map (\<lambda>x. (x, now)) (''SA nan'' @ [CHR 0x0A])) (c, e, out, bus) = Some (c1\<lparr>bufferIndex := 0\<rparr>, e1, o1, b1)"
    using parse_line [OF assms l, of now e out bus] by blast
  have c1: "e1 = e" "o1 = out" "b1 = bus" "steer_auto_deg c1 = None" "steerFresh c1" "lastSteerMs c1 = now"
    using r(1,2) nan by (auto simp: run_command_def Let_def)
  have "control i s = None"
    if s: "cmd s = c1\<lparr>bufferIndex := 0\<rparr>" "mode_of (rc (after_interrupts i s)) = AUTO_MODE" "in_sa_ms i - now \<le> 500" for i s
  proof -
    let ?t = "after_interrupts i s"
    have auto: "sa_ok i ?t" "auto_steering i ?t" using s c1 by (simp_all add: sa_ok_def fresh_def auto_steering_def)
    obtain q where "steering_output i ?t = (None, q)"
      using auto(2) s(1) c1(4) by (simp add: steering_output_def PID_def shape_output_def Let_def)
    moreover have "drive_motors AUTO_MODE th True inp th_cmd None u_rc dir = None" for th inp th_cmd u_rc dir
      by (cases "driveWithDeadtime (if th then th_cmd else Some 0) dir") (auto simp: drive_motors_def Steer_def)
    ultimately show ?thesis using auto s(2) by (simp add: control_def Let_def)
  qed
  then show ?thesis using r(3) c1 by (intro exI [of _ "c1\<lparr>bufferIndex := 0\<rparr>"]) simp
qed

theorem nan_steering_undefined_witness:
  "\<exists>c'. parseSerial (map (\<lambda>x. (x, 7)) (''SA nan'' @ [CHR 0x0A])) (commands_globals, encoder_globals, [], []) = Some (c', encoder_globals, [], []) \<and>
    steerFresh c' \<and> lastSteerMs c' = 7"
proof -
  have "commands_ok commands_globals" "bufferIndex commands_globals = 0"
    by (simp_all add: commands_ok_def commands_globals_def SERIAL_BUFFER_SIZE_def within_limit_def)
  from nan_steering_undefined [OF this, of 7 encoder_globals "[]" "[]"] show ?thesis by blast
qed

end
