(* ===== verification/Spec2Isabelle.thy ===== *)
theory Spec2Isabelle
  imports Ubx_Properties Bt_Decorators Costmap_Properties Lifecycle_Properties Action_Properties Denoise_Properties Obstacle_Properties Inflation_Properties Firmware_Safety
begin

text \<open>
  The repository is the ROS 2 workspace of a small autonomous vehicle. The vehicle takes its position from a u-blox
  receiver (\<open>src/gnss_pkg\<close>), plans and drives with the Nav2 stack (\<open>src/navigation2\<close>), and executes throttle and
  steering commands on an Arduino (\<open>arduino/mando_ver2\<close>), which \<open>bridge_pkg\<close> feeds over a serial line. This library
  models the C++ parts that keep state and decide: the receiver's protocol, Nav2's costmap with its layers, its
  lifecycle manager, its action server and its behaviour tree nodes, and the firmware. Paths below are those of the
  repository. Every definition is executable unless it is a specification.

  \<^bold>\<open>Conventions.\<close>
  Unsigned integers of the sources are words of their width and wrap; signed ones are integers whose operations are
  checked with \<open>int32\<close> where they can overflow. Floating point numbers are real numbers: rounding is not modelled;
  NaN is modelled where the code can meet it in normal use (the firmware's commands, as \<open>None\<close>). \<open>None\<close> as a result
  is undefined behaviour of C++ (an access outside a block, a signed overflow, a conversion that does not fit) or,
  where the text of a definition says so, a run that has not ended; an exception is \<open>Inl\<close> of a sum. Memory that the
  code reads before it writes it is an argument. Clocks, messages, transforms, parameters, interrupts and the operations of
  ROS, BehaviorTree.CPP and the SPI chip are arguments as well. Loops whose end depends on data are \<open>function\<close>s with
  a measure or a \<open>partial_function (option)\<close> whose result is proved to exist; no theorem bounds a run by fuel.
  The interfaces of serialisers, message handlers, the worker's callback and costmap layers are locales with the laws
  their clients rest on, interpreted on the model of the code that provides them, so that the properties
  assume nothing about modelled code.

  \<^bold>\<open>The u-blox driver\<close> (\<open>src/gnss_pkg\<close>).
  \<^item> \<open>Ubx_Stream\<close>: the cursors and serialisers of \<open>ublox_serialization/serialization.hpp\<close>; \<open>Ubx_Checksum\<close>: the
    checksum of \<open>checksum.hpp\<close> and which errors it detects; \<open>Ubx_Frame\<close>: \<open>Options\<close>, \<open>Message\<close>, \<open>Reader\<close> and
    \<open>Writer\<close>, the locale of a serialiser (its length, its encoding, its round trip) and what framing gives from it.
  \<^item> \<open>Ubx_Msgs_Cfg\<close>, \<open>Ubx_Msgs_Nav\<close>, \<open>Ubx_Msgs_Rxm\<close>, \<open>Ubx_Msgs_Misc\<close>: one record and one serialiser per message of
    \<open>ublox_msgs/serialization.hpp\<close>, each an instance of the locale where the code's serialiser meets it;
    \<open>Ubx_Registry\<close>: the identifiers \<open>ublox_msgs.cpp\<close> registers.
  \<^item> \<open>Ubx_Callback\<close>: handlers and \<open>readCallback\<close> of \<open>callback.hpp\<close>, with the reference decoder \<open>scan\<close> of a whole stream;
    \<open>Ubx_Worker\<close>: the buffers and the task queue of \<open>async_worker.hpp\<close>, the I/O service as a step relation.
  \<^item> \<open>Ubx_Properties\<close>: a message written is the message read; one corrupted byte is always rejected; reading never leaves
    its buffer; however the stream is cut into chunks the handlers see the packets \<open>scan\<close> finds; the worker's invariant
    in every interleaving.

  \<^bold>\<open>Behaviour trees\<close> (\<open>nav2_behavior_tree/plugins\<close>).
  \<^item> \<open>Bt_Control\<close>: \<open>PipelineSequence\<close>, \<open>RecoveryNode\<close>, \<open>RoundRobin\<close>; \<open>Bt_Decorators\<close>: the rate, distance, speed,
    goal-updated, single-trigger and path-longer decorators. A child is a function from its state to its status; its
    ticks end by themselves. Each tick is shown to return, with its result on every sequence of statuses.
  \<^item> \<open>Nav_Geometry\<close>: distances and searches along a path of \<open>nav2_util/geometry_utils.hpp\<close>.

  \<^bold>\<open>Costmaps\<close> (\<open>nav2_costmap_2d\<close>).
  \<^item> \<open>Costmap_Grid\<close>: the class \<open>Costmap2D\<close> (\<open>src/costmap_2d.cpp\<close>); \<open>Costmap_Spec\<close>: what its operations do to the cell at
    given coordinates; \<open>Costmap_Raytrace\<close>, \<open>Costmap_Lines\<close>, \<open>Costmap_Polygon\<close>: \<open>raytraceLine\<close>, \<open>bresenham2D\<close>, and the
    outline and filling of polygons; \<open>Costmap_Properties\<close>: conversions invert each other, the rolling window keeps the
    overlap, lines are connected and reach their ends, a polygon's cost is set exactly on its columns.
  \<^item> \<open>Costmap_Layer\<close>: \<open>CostmapLayer\<close> with its merging operations; \<open>Layered_Costmap\<close>: \<open>LayeredCostmap\<close>
    (\<open>src/layered_costmap.cpp\<close>) over any plugins, and the footprints (\<open>src/footprint.cpp\<close>, \<open>src/costmap_math.cpp\<close>). Its
    locale states what a layer owes: it keeps fitting the master grid, writes only inside the window.
  \<^item> \<open>Obstacle_Layer\<close>: \<open>ObservationBuffer\<close> and \<open>ObstacleLayer\<close>; \<open>Inflation_Layer\<close>, \<open>Inflation_Tables\<close>,
    \<open>Inflation_Wave\<close>, \<open>Inflation_Spec\<close>: \<open>InflationLayer\<close>, its caches, the wave over the bins of distances with its
    termination measure and invariant, and the costs it leaves.
  \<^item> \<open>Denoise_Image\<close> (views of memory, two-scan labelling, dilation), \<open>Denoise_Layer\<close>, and the proofs:
    \<open>Denoise_Graph\<close> (connected groups), \<open>Denoise_Labels\<close> (the union-find structure), \<open>Denoise_Scan\<close>,
    \<open>Denoise_Components\<close> (labels tell the groups apart), \<open>Denoise_Groups\<close>, \<open>Denoise_Properties\<close>. The enough-labels bound
    is \<open>maxLabels\<close> of the code, proved sufficient.
  \<^item> \<open>Layer_Stack\<close>: the three layers as one type behind the interface \<open>Layer\<close> and the interpretation of the locale on it;
    \<open>Layer_Pipeline\<close>: an update cycle over any list of them. \<open>Layer_Properties\<close>, \<open>Obstacle_Properties\<close>,
    \<open>Inflation_Properties\<close>: the cycle never fails and stays in its window, an observed obstacle reaches the master grid and
    is inflated, each layer alone does what it promises.

  \<^bold>\<open>Servers.\<close>
  \<^item> \<open>Lifecycle_Manager\<close>, \<open>Lifecycle_Properties\<close>: \<open>nav2_lifecycle_manager/src/lifecycle_manager.cpp\<close> with its commands and
    timers as an interleaved step relation: the order of bringup and teardown, bonds of active nodes, crashes during a reset.
  \<^item> \<open>Action_Server\<close>, \<open>Action_Properties\<close>: \<open>nav2_util/simple_action_server.hpp\<close>, the worker, the callbacks and the
    deactivating thread as steps between the sections under \<open>update_mutex_\<close>: every goal that is active at the client
    is held by the server, or its thread is about to hand it over.

  \<^bold>\<open>The vehicle\<close> (\<open>arduino/mando_ver2/mando_ver2.ino\<close>).
  \<^item> \<open>Firmware_Encoder\<close>: the counter chip, the fault guard and the sample stream; \<open>Firmware_Commands\<close>: \<open>parseSerial\<close>, byte by
    byte, with \<open>atof\<close>; \<open>Firmware_Drive\<close>: the motors as lists of pin writes, the interrupt handlers, \<open>PID\<close>, \<open>setup\<close> and
    \<open>loop\<close>; \<open>Firmware_Properties\<close> and \<open>Firmware_Safety\<close>: the parser is safe on all input and understands the bridge, the
    guarded count is physically plausible and exact on plausible readings, the drive motors are off without a fresh
    command, duties stay in range, and an automatic reversal happens without power.

  \<^bold>\<open>Shared.\<close> \<open>Prelude\<close>: words, memory blocks, checked lists, the loop \<open>visit_all\<close>, and the rule collections;
  \<open>Machine_Numbers\<close>: conversions from real numbers and checked \<open>int\<close> arithmetic.

  \<^bold>\<open>Not modelled.\<close>
  \<^item> ROS nodes around the modelled classes (\<open>costmap_2d_ros.cpp\<close>, \<open>ublox_gps/src/node.cpp\<close>, servers, RViz panels): parameters,
    topics and services, whose meaning is that of the middleware.
  \<^item> Map files and images, behaviour tree actions and conditions: calls of third-party libraries or of other nodes.
  \<^item> AMCL, MPPI and the other controllers, smoothers, planners and the route server: sampling, numerical optimisation
    and searches whose content is floating point; they read the costmaps modelled here through \<open>getCost\<close>.
  \<^item> Static, voxel and range layers and the filters; saving a map, the mutexes of the costmap; the parser of a footprint
    string; conversion of laser scans.
  \<^item> Python nodes, earlier versions of the firmware and measuring sketches.
\<close>

end
